(* ===== verification/Router_Prelude.thy ===== *)
theory Router_Prelude
  imports
    Complex_Main
    "HOL-Library.AList"
    "HOL-Library.Char_ord"
    "HOL-Library.List_Lexorder"
    "HOL-Library.Multiset"
    "HOL-Library.Word"
begin

text \<open>
  Shared vocabulary of the development.

  \<^item> Time. A Go \<open>time.Time\<close> is an integer number of nanoseconds, with \<open>0\<close> the zero time
    (\<open>IsZero\<close>); a \<open>time.Duration\<close> is an integer number of nanoseconds. \<open>Time.Sub\<close> and
    \<open>time.Since\<close> saturate at the ends of \<open>int64\<close>, and so does \<open>time_sub\<close>.
  \<^item> Machine integers. \<open>wrap64\<close> is two's complement wrap-around of a 64-bit signed value;
    unsigned counters are \<open>64 word\<close>.
  \<^item> Go maps are association lists: the list order stands for the unspecified iteration order
    of \<open>range\<close>, so a theorem about every list is a theorem about every iteration order.
  \<^item> Sorting with a comparison function and the argmin scans the selectors use.
\<close>

named_theorems go_simps \<open>rewrite rules for the Go primitives of the model\<close>
named_theorems time_simps \<open>unfolding of clock constants and saturating differences\<close>

section \<open>Time and machine integers\<close>

type_synonym time = int
type_synonym duration = int

definition nanosecond :: duration where "nanosecond = 1"
definition second :: duration where "second = 1000000000"
definition minute :: duration where "minute = 60 * second"
definition hour :: duration where "hour = 60 * minute"

definition max_int64 :: int where "max_int64 = 2 ^ 63 - 1"
definition min_int64 :: int where "min_int64 = - (2 ^ 63)"

definition wrap64 :: "int \<Rightarrow> int" where
  "wrap64 x = (x + 2 ^ 63) mod 2 ^ 64 - 2 ^ 63"

definition time_sub :: "time \<Rightarrow> time \<Rightarrow> duration" where
  "time_sub t u = max min_int64 (min max_int64 (t - u))"

definition is_zero :: "time \<Rightarrow> bool" where
  "is_zero t \<longleftrightarrow> t = 0"

text \<open>Integer division of Go truncates towards zero.\<close>

definition go_div :: "int \<Rightarrow> int \<Rightarrow> int" where
  "go_div a b = sgn a * sgn b * (\<bar>a\<bar> div \<bar>b\<bar>)"

lemma go_div_pos [simp]: "0 \<le> a \<Longrightarrow> 0 < b \<Longrightarrow> go_div a b = a div b"
  by (cases "a = 0") (simp_all add: go_div_def)

lemmas clock_defs = nanosecond_def second_def minute_def hour_def
lemmas int64_defs = max_int64_def min_int64_def

declare clock_defs [time_simps] int64_defs [time_simps] time_sub_def [time_simps]
  is_zero_def [time_simps]

lemma wrap64_id [simp]: "min_int64 \<le> x \<Longrightarrow> x \<le> max_int64 \<Longrightarrow> wrap64 x = x"
  by (simp add: wrap64_def int64_defs)

lemma wrap64_range: "min_int64 \<le> wrap64 x \<and> wrap64 x \<le> max_int64"
proof -
  have "0 \<le> (x + 2 ^ 63) mod 2 ^ 64" and "(x + 2 ^ 63) mod 2 ^ 64 < 2 ^ 64"
    by simp_all
  then show ?thesis by (simp add: wrap64_def int64_defs)
qed

lemma time_sub_le_iff: "min_int64 \<le> d \<Longrightarrow> d < max_int64 \<Longrightarrow> time_sub t u \<le> d \<longleftrightarrow> t - u \<le> d"
  by (auto simp: time_sub_def)

lemma time_sub_less_iff: "min_int64 < d \<Longrightarrow> d \<le> max_int64 \<Longrightarrow> time_sub t u < d \<longleftrightarrow> t - u < d"
  by (auto simp: time_sub_def)

section \<open>Go maps as association lists\<close>

type_synonym ('k, 'v) gomap = "('k \<times> 'v) list"

abbreviation has_key :: "('k, 'v) gomap \<Rightarrow> 'k \<Rightarrow> bool" where
  "has_key m k \<equiv> map_of m k \<noteq> None"

definition wf_map :: "('k, 'v) gomap \<Rightarrow> bool" where
  "wf_map m \<longleftrightarrow> distinct (map fst m)"

lemma wf_map_Nil [simp, intro]: "wf_map []"
  by (simp add: wf_map_def)

lemma wf_map_update [simp, intro]: "wf_map m \<Longrightarrow> wf_map (AList.update k v m)"
  by (simp add: wf_map_def distinct_update)

lemma wf_map_delete [simp, intro]: "wf_map m \<Longrightarrow> wf_map (AList.delete k m)"
  by (simp add: wf_map_def distinct_delete)

lemma map_of_update [simp]:
  "map_of (AList.update k v m) k' = (if k' = k then Some v else map_of m k')"
  by (simp add: update_conv)

lemma map_of_delete [simp]:
  "map_of (AList.delete k m) k' = (if k' = k then None else map_of m k')"
  by (simp add: delete_conv)

lemma map_of_in_set: "map_of m k = Some v \<Longrightarrow> (k, v) \<in> set m"
  by (rule map_of_SomeD)

lemma map_of_wf_iff: "wf_map m \<Longrightarrow> map_of m k = Some v \<longleftrightarrow> (k, v) \<in> set m"
  by (simp add: wf_map_def)

lemma set_update_subset: "set (AList.update k v m) \<subseteq> insert (k, v) (set m)"
  by (induction m) auto

lemma set_update_wf:
  assumes "wf_map m" and "(k', v') \<in> set (AList.update k v m)"
  shows "(k', v') = (k, v) \<or> k' \<noteq> k \<and> (k', v') \<in> set m"
proof -
  from assms have "map_of (AList.update k v m) k' = Some v'" using map_of_wf_iff wf_map_update by fast
  with assms(1) show ?thesis by (auto simp: map_of_wf_iff split: if_splits)
qed

lemma wf_map_filter [intro]: "wf_map m \<Longrightarrow> wf_map (filter P m)"
  by (auto simp: wf_map_def distinct_map intro: inj_on_subset)

lemma wf_map_map_values [intro]: "wf_map m \<Longrightarrow> wf_map (map (\<lambda>(k, v). (k, f k v)) m)"
  by (simp add: wf_map_def comp_def case_prod_unfold)

lemma map_of_map_values:
  "map_of (map (\<lambda>(k, v). (k, f k v)) m) k = map_option (f k) (map_of m k)"
  by (induction m) auto

lemma mset_update_None: "map_of m k = None \<Longrightarrow> mset (AList.update k v m) = add_mset (k, v) (mset m)"
  by (induction m) auto

lemma mset_update_Some:
  assumes "wf_map m" and "map_of m k = Some v"
  shows "add_mset (k, v) (mset (AList.update k v' m)) = add_mset (k, v') (mset m)"
  using assms
proof (induction m)
  case (Cons kv m)
  obtain k0 v0 where "kv = (k0, v0)" by (cases kv)
  with Cons show ?case by (auto simp: wf_map_def add_mset_commute)
qed simp

lemma mset_delete_Some:
  assumes "wf_map m" and "map_of m k = Some v"
  shows "mset m = add_mset (k, v) (mset (AList.delete k m))"
  using assms
proof (induction m)
  case (Cons x m)
  obtain k0 v0 where x: "x = (k0, v0)" by (cases x)
  show ?case
  proof (cases "k0 = k")
    case True
    with Cons.prems x have "k \<notin> fst ` set m" "v0 = v" by (auto simp: wf_map_def)
    then have "AList.delete k (x # m) = m" using True x by (simp add: delete_id)
    with True x \<open>v0 = v\<close> show ?thesis by simp
  next
    case False
    with Cons x show ?thesis by (simp add: wf_map_def)
  qed
qed simp

lemma length_delete_Some:
  "wf_map m \<Longrightarrow> map_of m k = Some v \<Longrightarrow> length m = Suc (length (AList.delete k m))"
  using mset_delete_Some [of m k v] by (metis size_add_mset size_mset)

section \<open>Sorting with a comparison function\<close>

text \<open>
  \<open>slices.SortFunc\<close> and \<open>sort.SliceStable\<close> both reorder a slice by a strict comparison. The
  model sorts by insertion, which is stable. Where the comparison is total on the elements the
  sorted permutation is unique, so the model stands for any sorting algorithm.
\<close>

fun insert_by :: "('a \<Rightarrow> 'a \<Rightarrow> bool) \<Rightarrow> 'a \<Rightarrow> 'a list \<Rightarrow> 'a list" where
  "insert_by lt x [] = [x]"
| "insert_by lt x (y # ys) = (if lt y x then y # insert_by lt x ys else x # y # ys)"

fun sort_by :: "('a \<Rightarrow> 'a \<Rightarrow> bool) \<Rightarrow> 'a list \<Rightarrow> 'a list" where
  "sort_by lt [] = []"
| "sort_by lt (x # xs) = insert_by lt x (sort_by lt xs)"

lemma mset_insert_by [simp]: "mset (insert_by lt x xs) = add_mset x (mset xs)"
  by (induction xs) auto

lemma mset_sort_by [simp]: "mset (sort_by lt xs) = mset xs"
  by (induction xs) auto

lemma set_sort_by [simp]: "set (sort_by lt xs) = set xs"
  by (metis mset_sort_by set_mset_mset)

lemma length_sort_by [simp]: "length (sort_by lt xs) = length xs"
  by (metis mset_sort_by size_mset)

lemma sort_by_eq_Nil [simp]: "sort_by lt xs = [] \<longleftrightarrow> xs = []"
  by (metis length_0_conv length_sort_by)

text \<open>
  The interface a comparison function has to meet: it never orders two elements both ways, and
  being out of order is transitive (a strict weak order).
\<close>

locale comparison =
  fixes lt :: "'a \<Rightarrow> 'a \<Rightarrow> bool"
  assumes asym: "lt x y \<Longrightarrow> \<not> lt y x"
    and not_lt_trans: "\<not> lt y x \<Longrightarrow> \<not> lt z y \<Longrightarrow> \<not> lt z x"
begin

lemma insert_by_sorted:
  "sorted_wrt (\<lambda>a b. \<not> lt b a) xs \<Longrightarrow> sorted_wrt (\<lambda>a b. \<not> lt b a) (insert_by lt x xs)"
proof (induction xs)
  case Nil
  then show ?case by simp
next
  case (Cons y ys)
  have members: "set (insert_by lt x ys) = insert x (set ys)"
    by (metis mset_insert_by set_mset_add_mset_insert set_mset_mset)
  show ?case
  proof (cases "lt y x")
    case True
    with Cons members show ?thesis by (auto dest: asym)
  next
    case False
    with Cons show ?thesis by simp (meson not_lt_trans)
  qed
qed

lemma sort_by_sorted: "sorted_wrt (\<lambda>a b. \<not> lt b a) (sort_by lt xs)"
  by (induction xs) (auto intro: insert_by_sorted)

lemma sort_by_head_least:
  assumes "sort_by lt xs = b # bs" and "x \<in> set xs"
  shows "\<not> lt x b"
proof -
  have "sorted_wrt (\<lambda>a b. \<not> lt b a) (b # bs)"
    using sort_by_sorted [of xs] assms(1) by simp
  moreover have "x \<in> set (b # bs)"
    using assms by (metis set_sort_by)
  moreover have "\<not> lt b b" using asym by blast
  ultimately show ?thesis by auto
qed

end

text \<open>A comparison that separates distinct elements determines the sorted permutation.\<close>

locale total_comparison = comparison +
  fixes dom_ok :: "'a set \<Rightarrow> bool"
  assumes total: "dom_ok A \<Longrightarrow> x \<in> A \<Longrightarrow> y \<in> A \<Longrightarrow> x \<noteq> y \<Longrightarrow> lt x y \<or> lt y x"
begin

lemma sorted_unique_on:
  assumes "dom_ok A" and "set xs \<subseteq> A" and "mset xs = mset ys"
    and "sorted_wrt (\<lambda>a b. \<not> lt b a) xs" and "sorted_wrt (\<lambda>a b. \<not> lt b a) ys"
  shows "xs = ys"
  using assms(2-5)
proof (induction xs arbitrary: ys)
  case Nil
  then show ?case by simp
next
  case (Cons x xs)
  then obtain y ys' where ys: "ys = y # ys'" by (cases ys) auto
  have mem: "set ys = set (x # xs)" using Cons.prems(2) by (metis set_mset_mset)
  have "x = y"
  proof (rule ccontr)
    assume "x \<noteq> y"
    with mem ys have "y \<in> set xs" and "x \<in> set ys'" by auto
    with Cons.prems ys have "\<not> lt y x" "\<not> lt x y" by auto
    with total [OF assms(1), of x y] Cons.prems(1) \<open>y \<in> set xs\<close> \<open>x \<noteq> y\<close> show False by auto
  qed
  with Cons ys show ?case by auto
qed

lemma sort_by_unique:
  assumes "dom_ok (set xs)" and "mset ys = mset xs" and "sorted_wrt (\<lambda>a b. \<not> lt b a) ys"
  shows "ys = sort_by lt xs"
proof -
  have "set ys = set xs" using assms(2) by (metis set_mset_mset)
  then show ?thesis
    using sorted_unique_on [of "set xs" ys "sort_by lt xs"] assms sort_by_sorted by simp
qed

end

section \<open>Argmin scans\<close>

text \<open>
  The selectors scan a slice for the least value, replacing the best so far only on a strict
  improvement, so the first of several minima wins.
\<close>

fun first_min :: "('a \<Rightarrow> 'b::linorder) \<Rightarrow> 'a \<Rightarrow> 'a list \<Rightarrow> 'a" where
  "first_min f best [] = best"
| "first_min f best (x # xs) = first_min f (if f x < f best then x else best) xs"

lemma first_min_mem: "first_min f b xs \<in> insert b (set xs)"
  by (induction xs arbitrary: b) (auto split: if_splits)

lemma first_min_le_start: "f (first_min f b xs) \<le> f b"
proof (induction xs arbitrary: b)
  case (Cons x xs)
  show ?case
    using Cons.IH [of x] Cons.IH [of b] by (auto intro: order.trans less_imp_le)
qed simp

lemma first_min_le: "x \<in> set xs \<Longrightarrow> f (first_min f b xs) \<le> f x"
proof (induction xs arbitrary: b)
  case (Cons y ys)
  show ?case
  proof (cases "x = y")
    case True
    have "f (first_min f (if f y < f b then y else b) ys) \<le> f (if f y < f b then y else b)"
      by (rule first_min_le_start)
    then show ?thesis using True by (auto split: if_splits)
  next
    case False
    with Cons show ?thesis by simp
  qed
qed simp

lemma first_min_start_wins: "\<forall>x \<in> set xs. f b \<le> f x \<Longrightarrow> first_min f b xs = b"
  by (induction xs) (auto simp: not_less)

end
