(* ===== verification/Circuit_Breaker.thy ===== *)
theory Circuit_Breaker
  imports Router_Prelude
begin

text \<open>
  The per-enclave circuit breaker of \<open>manager/circuitbreaker.go\<close>: its state, one definition per
  method, the invariant every sequence of calls keeps, and the interleaving semantics of its
  atomic instructions.
\<close>

section \<open>State and methods\<close>

datatype cbState = cbClosed | cbOpen | cbHalfOpen

definition cbFailureThreshold :: int where "cbFailureThreshold = 3"
definition cbCooldown :: duration where "cbCooldown = 30 * second"

record circuitBreaker =
  cb_state :: cbState
  consecutiveFailures :: int
  lastFailureNano :: time
  probeGen :: "64 word"
  retired :: bool

definition newCircuitBreaker :: circuitBreaker where
  "newCircuitBreaker =
     \<lparr>cb_state = cbClosed, consecutiveFailures = 0, lastFailureNano = 0, probeGen = 0,
      retired = False\<rparr>"

definition RecordSuccess :: "circuitBreaker \<Rightarrow> circuitBreaker" where
  "RecordSuccess cb = cb\<lparr>consecutiveFailures := 0, cb_state := cbClosed\<rparr>"

definition RecordFailure :: "time \<Rightarrow> circuitBreaker \<Rightarrow> circuitBreaker" where
  "RecordFailure now cb =
     (let failures = wrap64 (consecutiveFailures cb + 1);
          cb1 = cb\<lparr>lastFailureNano := now, consecutiveFailures := failures\<rparr>
      in if cbFailureThreshold \<le> failures then cb1\<lparr>cb_state := cbOpen\<rparr> else cb1)"

definition Closed :: "circuitBreaker \<Rightarrow> bool" where
  "Closed cb \<longleftrightarrow> cb_state cb = cbClosed"

text \<open>\<open>ClaimProbe\<close> returns \<open>(token, true)\<close> or \<open>(0, false)\<close>: an optional token.\<close>

definition ClaimProbe :: "time \<Rightarrow> circuitBreaker \<Rightarrow> 64 word option \<times> circuitBreaker" where
  "ClaimProbe now cb =
     (if cb_state cb \<noteq> cbOpen then (None, cb)
      else if time_sub now (lastFailureNano cb) < cbCooldown then (None, cb)
      else (Some (probeGen cb + 1), cb\<lparr>cb_state := cbHalfOpen, probeGen := probeGen cb + 1\<rparr>))"

definition AbortProbe :: "time \<Rightarrow> 64 word \<Rightarrow> circuitBreaker \<Rightarrow> bool \<times> circuitBreaker" where
  "AbortProbe now token cb =
     (if probeGen cb \<noteq> token \<or> cb_state cb \<noteq> cbHalfOpen then (False, cb)
      else (True, cb\<lparr>lastFailureNano := now, cb_state := cbOpen\<rparr>))"

text \<open>
  A \<open>ProbeClaim\<close> ties the token to the breaker and to the gauge labels. \<open>Abort\<close> on a nil claim
  does nothing; a successful abort publishes the breaker state.
\<close>

record ProbeClaim =
  token :: "64 word"
  claim_modelName :: string
  claim_host :: string

definition Retire :: "circuitBreaker \<Rightarrow> circuitBreaker" where
  "Retire cb = cb\<lparr>retired := True\<rparr>"

definition publishIfActive :: "circuitBreaker \<Rightarrow> cbState option" where
  "publishIfActive cb = (if retired cb then None else Some (cb_state cb))"

definition Abort ::
  "time \<Rightarrow> ProbeClaim option \<Rightarrow> circuitBreaker
     \<Rightarrow> bool \<times> circuitBreaker \<times> (string \<times> string \<times> cbState) option" where
  "Abort now claim cb =
     (case claim of
        None \<Rightarrow> (False, cb, None)
      | Some pc \<Rightarrow>
          (case AbortProbe now (token pc) cb of
             (False, cb') \<Rightarrow> (False, cb', None)
           | (True, cb') \<Rightarrow>
               (True, cb',
                map_option (\<lambda>s. (claim_modelName pc, claim_host pc, s)) (publishIfActive cb'))))"

lemmas breaker_defs =
  newCircuitBreaker_def RecordSuccess_def RecordFailure_def Closed_def ClaimProbe_def
  AbortProbe_def Retire_def cbFailureThreshold_def

section \<open>The invariant of call sequences\<close>

datatype cbCall =
    CallSuccess
  | CallFailure time
  | CallClaim time
  | CallAbort time "64 word"
  | CallRetire

fun cb_call :: "cbCall \<Rightarrow> circuitBreaker \<Rightarrow> circuitBreaker" where
  "cb_call CallSuccess cb = RecordSuccess cb"
| "cb_call (CallFailure now) cb = RecordFailure now cb"
| "cb_call (CallClaim now) cb = snd (ClaimProbe now cb)"
| "cb_call (CallAbort now tok) cb = snd (AbortProbe now tok cb)"
| "cb_call CallRetire cb = Retire cb"

definition cb_run :: "cbCall list \<Rightarrow> circuitBreaker \<Rightarrow> circuitBreaker" where
  "cb_run cs cb = fold cb_call cs cb"

text \<open>
  The failure count and the state agree: the breaker is closed exactly while fewer than
  \<open>cbFailureThreshold\<close> consecutive failures have been counted.
\<close>

definition cb_inv :: "circuitBreaker \<Rightarrow> bool" where
  "cb_inv cb \<longleftrightarrow> 0 \<le> consecutiveFailures cb
     \<and> (cb_state cb = cbClosed \<longleftrightarrow> consecutiveFailures cb < cbFailureThreshold)"

lemma cb_inv_new [simp, intro]: "cb_inv newCircuitBreaker"
  by (simp add: cb_inv_def breaker_defs)

lemma cb_call_inv:
  assumes "cb_inv cb" and "consecutiveFailures cb < max_int64"
  shows "cb_inv (cb_call c cb)"
  using assms by (cases c) (auto simp: cb_inv_def breaker_defs int64_defs Let_def)

lemma cb_call_failures_le:
  assumes "0 \<le> consecutiveFailures cb" and "consecutiveFailures cb < max_int64"
  shows "consecutiveFailures (cb_call c cb) \<le> consecutiveFailures cb + 1"
  using assms by (cases c) (auto simp: breaker_defs int64_defs Let_def)

lemma cb_run_Nil [simp]: "cb_run [] cb = cb"
  and cb_run_Cons [simp]: "cb_run (c # cs) cb = cb_run cs (cb_call c cb)"
  and cb_run_append [simp]: "cb_run (cs @ ds) cb = cb_run ds (cb_run cs cb)"
  by (simp_all add: cb_run_def)

lemma cb_run_inv:
  assumes "cb_inv cb" and "consecutiveFailures cb + int (length cs) < max_int64"
  shows "cb_inv (cb_run cs cb)
    \<and> consecutiveFailures (cb_run cs cb) \<le> consecutiveFailures cb + int (length cs)"
  using assms
proof (induction cs arbitrary: cb)
  case (Cons c cs)
  have room: "consecutiveFailures cb < max_int64" using Cons.prems(2) by simp
  have "consecutiveFailures (cb_call c cb) \<le> consecutiveFailures cb + 1"
    using cb_call_failures_le room Cons.prems(1) by (simp add: cb_inv_def)
  with Cons.IH [OF cb_call_inv [OF Cons.prems(1) room], of c] Cons.prems(2) show ?case by simp
qed simp

section \<open>Interleaved execution of the atomic instructions\<close>

text \<open>
  Each method is a sequence of atomic loads, stores, additions and compare-and-swaps on the
  shared fields. A program counter of type \<open>cb_pc\<close> names the next instruction of one call;
  \<open>cb_micro\<close> executes it. Calls of any number of goroutines interleave between instructions.
\<close>

datatype cb_result = Done | Claimed "64 word option" | Aborted bool

datatype cb_pc =
    Returned cb_result
  | Success1 | Success2
  | Failure1 time | Failure2 | Failure3 int
  | Claim1 time | Claim2 time | Claim3 | Claim4
  | Abort1 time "64 word" | Abort2 time | Abort3 time | Abort4

fun cb_micro :: "cb_pc \<Rightarrow> circuitBreaker \<Rightarrow> cb_pc \<times> circuitBreaker" where
  "cb_micro (Returned r) cb = (Returned r, cb)"
| "cb_micro Success1 cb = (Success2, cb\<lparr>consecutiveFailures := 0\<rparr>)"
| "cb_micro Success2 cb = (Returned Done, cb\<lparr>cb_state := cbClosed\<rparr>)"
| "cb_micro (Failure1 now) cb = (Failure2, cb\<lparr>lastFailureNano := now\<rparr>)"
| "cb_micro Failure2 cb =
     (let failures = wrap64 (consecutiveFailures cb + 1)
      in (Failure3 failures, cb\<lparr>consecutiveFailures := failures\<rparr>))"
| "cb_micro (Failure3 failures) cb =
     (Returned Done, if cbFailureThreshold \<le> failures then cb\<lparr>cb_state := cbOpen\<rparr> else cb)"
| "cb_micro (Claim1 now) cb =
     (if cb_state cb \<noteq> cbOpen then Returned (Claimed None) else Claim2 now, cb)"
| "cb_micro (Claim2 now) cb =
     (if time_sub now (lastFailureNano cb) < cbCooldown then Returned (Claimed None) else Claim3,
      cb)"
| "cb_micro Claim3 cb =
     (if cb_state cb = cbOpen then (Claim4, cb\<lparr>cb_state := cbHalfOpen\<rparr>)
      else (Returned (Claimed None), cb))"
| "cb_micro Claim4 cb =
     (let gen = probeGen cb + 1 in (Returned (Claimed (Some gen)), cb\<lparr>probeGen := gen\<rparr>))"
| "cb_micro (Abort1 now tok) cb =
     (if probeGen cb \<noteq> tok then Returned (Aborted False) else Abort2 now, cb)"
| "cb_micro (Abort2 now) cb =
     (if cb_state cb \<noteq> cbHalfOpen then Returned (Aborted False) else Abort3 now, cb)"
| "cb_micro (Abort3 now) cb = (Abort4, cb\<lparr>lastFailureNano := now\<rparr>)"
| "cb_micro Abort4 cb =
     (if cb_state cb = cbHalfOpen then (Returned (Aborted True), cb\<lparr>cb_state := cbOpen\<rparr>)
      else (Returned (Aborted False), cb))"

fun cb_start :: "cbCall \<Rightarrow> cb_pc" where
  "cb_start CallSuccess = Success1"
| "cb_start (CallFailure now) = Failure1 now"
| "cb_start (CallClaim now) = Claim1 now"
| "cb_start (CallAbort now tok) = Abort1 now tok"
| "cb_start CallRetire = Returned Done"

text \<open>What a call returns when it runs as one atomic step.\<close>

fun cb_returns :: "cbCall \<Rightarrow> circuitBreaker \<Rightarrow> cb_result" where
  "cb_returns (CallClaim now) cb = Claimed (fst (ClaimProbe now cb))"
| "cb_returns (CallAbort now tok) cb = Aborted (fst (AbortProbe now tok cb))"
| "cb_returns _ cb = Done"

lemma cb_micro_sequential:
  assumes "c \<noteq> CallRetire"
  shows "((\<lambda>(pc, cb). cb_micro pc cb) ^^ 4) (cb_start c, cb)
           = (Returned (cb_returns c cb), cb_call c cb)"
  using assms
  by (cases c) (simp_all add: numeral_eq_Suc breaker_defs Let_def del: One_nat_def)

text \<open>
  The system state: the shared breaker, the program counter of every goroutine and, newest first,
  the tokens \<open>ClaimProbe\<close> calls have returned. A schedule is a list of moves.
\<close>

record cb_sys =
  shared :: circuitBreaker
  pcs :: "nat \<Rightarrow> cb_pc"
  issued :: "64 word list"

datatype cb_sched = Begin nat cbCall | Advance nat

definition cb_sys_init :: cb_sys where
  "cb_sys_init = \<lparr>shared = newCircuitBreaker, pcs = (\<lambda>_. Returned Done), issued = []\<rparr>"

fun cb_move :: "cb_sched \<Rightarrow> cb_sys \<Rightarrow> cb_sys" where
  "cb_move (Begin i c) s =
     (case pcs s i of
        Returned _ \<Rightarrow>
          (if c = CallRetire then s\<lparr>shared := Retire (shared s)\<rparr>
           else s\<lparr>pcs := (pcs s)(i := cb_start c)\<rparr>)
      | _ \<Rightarrow> s)"
| "cb_move (Advance i) s =
     (case cb_micro (pcs s i) (shared s) of
        (pc, cb) \<Rightarrow>
          s\<lparr>shared := cb, pcs := (pcs s)(i := pc),
             issued := (if pcs s i = Claim4 then probeGen cb # issued s else issued s)\<rparr>)"

inductive cb_reachable :: "cb_sys \<Rightarrow> bool" where
  start: "cb_reachable cb_sys_init"
| step: "cb_reachable s \<Longrightarrow> cb_reachable (cb_move m s)"

text \<open>Tokens are the successive values of the generation counter.\<close>

definition tokens_inv :: "cb_sys \<Rightarrow> bool" where
  "tokens_inv s \<longleftrightarrow> probeGen (shared s) = of_nat (length (issued s))
     \<and> issued s = map of_nat (rev [1..<Suc (length (issued s))])"

lemma cb_micro_probeGen: "pc \<noteq> Claim4 \<Longrightarrow> probeGen (snd (cb_micro pc cb)) = probeGen cb"
  by (cases pc) (auto simp: Let_def)

lemma tokens_inv_step:
  assumes "tokens_inv s"
  shows "tokens_inv (cb_move m s)"
proof (cases m)
  case (Begin i c)
  with assms show ?thesis
    by (auto simp: tokens_inv_def Retire_def split: cb_pc.splits)
next
  case (Advance i)
  show ?thesis
  proof (cases "pcs s i = Claim4")
    case True
    with assms Advance show ?thesis
      by (auto simp: tokens_inv_def Let_def add.commute)
  next
    case False
    with assms Advance cb_micro_probeGen [OF False, of "shared s"] show ?thesis
      by (auto simp: tokens_inv_def split: prod.splits)
  qed
qed

lemma tokens_inv_reachable: "cb_reachable s \<Longrightarrow> tokens_inv s"
proof (induction rule: cb_reachable.induct)
  case start
  show ?case by (simp add: tokens_inv_def cb_sys_init_def newCircuitBreaker_def)
next
  case (step s m)
  then show ?case by (blast intro: tokens_inv_step)
qed

lemma inj_on_of_nat_64: "inj_on (of_nat :: nat \<Rightarrow> 64 word) {..<2 ^ 64}"
proof (rule inj_onI)
  fix x y :: nat
  assume less: "x \<in> {..<2 ^ 64}" "y \<in> {..<2 ^ 64}" and eq: "(of_nat x :: 64 word) = of_nat y"
  from eq have "unat (of_nat x :: 64 word) = unat (of_nat y :: 64 word)" by simp
  with less show "x = y" by (simp add: unat_of_nat)
qed

section \<open>The interface the selectors rely on\<close>

text \<open>
  What the replica selector needs of a breaker: a closed breaker grants no probe, a granted probe
  leaves the breaker not closed and grants no second one, a refusal changes nothing, and the
  holder of the current claim can always return it.
\<close>

locale probe_breaker =
  fixes closed :: "'b \<Rightarrow> bool"
    and success :: "'b \<Rightarrow> 'b"
    and claim :: "time \<Rightarrow> 'b \<Rightarrow> 't option \<times> 'b"
    and abort :: "time \<Rightarrow> 't \<Rightarrow> 'b \<Rightarrow> bool \<times> 'b"
  assumes success_closes: "closed (success b)"
    and claim_closed: "closed b \<Longrightarrow> claim now b = (None, b)"
    and claim_refused: "claim now b = (None, b') \<Longrightarrow> b' = b"
    and claim_exclusive: "claim now b = (Some t, b') \<Longrightarrow> \<not> closed b' \<and> claim now' b' = (None, b')"
    and abort_returns: "claim now b = (Some t, b') \<Longrightarrow> \<exists>b''. abort now' t b' = (True, b'') \<and> \<not> closed b''"
    and abort_refused: "abort now t b = (False, b') \<Longrightarrow> b' = b"
begin

text \<open>The tokens a sequence of claims at the given times grants.\<close>

fun granted :: "time list \<Rightarrow> 'b \<Rightarrow> 't list" where
  "granted [] b = []"
| "granted (t # ts) b =
     (case claim t b of (None, b') \<Rightarrow> granted ts b' | (Some k, b') \<Rightarrow> k # granted ts b')"

lemma granted_none: "(\<And>now. claim now b = (None, b)) \<Longrightarrow> granted ts b = []"
  by (induction ts) auto

lemma granted_at_most_one: "length (granted ts b) \<le> 1"
proof (induction ts arbitrary: b)
  case (Cons t ts)
  show ?case
  proof (cases "claim t b")
    case (Pair r b')
    show ?thesis
    proof (cases r)
      case None
      with Pair Cons show ?thesis by simp
    next
      case (Some k)
      with Pair have "granted ts b' = []"
        using claim_exclusive [of t b k b'] by (intro granted_none) blast
      with Pair Some show ?thesis by simp
    qed
  qed
qed simp

lemma granted_closed: "closed b \<Longrightarrow> granted ts b = []"
  by (intro granted_none claim_closed)

end

interpretation brk: probe_breaker Closed RecordSuccess ClaimProbe AbortProbe
  by unfold_locales (auto simp: breaker_defs split: if_splits)

section \<open>Properties\<close>

lemma open_has_cause:
  assumes "cb_state cb \<noteq> cbOpen" and "cb_state (cb_run cs cb) = cbOpen"
  shows "CallFailure (lastFailureNano (cb_run cs cb)) \<in> set cs
    \<or> (\<exists>tok. CallAbort (lastFailureNano (cb_run cs cb)) tok \<in> set cs)"
  using assms
proof (induction cs rule: rev_induct)
  case (snoc c cs)
  let ?cb = "cb_run cs cb"
  consider "cb_state ?cb = cbOpen \<and> lastFailureNano (cb_call c ?cb) = lastFailureNano ?cb"
    | t where "lastFailureNano (cb_call c ?cb) = t" "c = CallFailure t \<or> (\<exists>tok. c = CallAbort t tok)"
    using snoc.prems(2) by (cases c) (auto simp: breaker_defs Let_def split: if_splits)
  then show ?case
  proof cases
    case 1
    with snoc show ?thesis by auto
  next
    case (2 t)
    have "c \<in> set (cs @ [c])" and "lastFailureNano (cb_run (cs @ [c]) cb) = t"
      using 2(1) by simp_all
    with 2(2) show ?thesis by metis
  qed
qed simp

lemma claim_SomeD:
  assumes "ClaimProbe now cb = (Some tok, cb')"
  shows "cb_state cb = cbOpen" "lastFailureNano cb + cbCooldown \<le> now" "tok = probeGen cb + 1"
    "cb' = cb\<lparr>cb_state := cbHalfOpen, probeGen := tok\<rparr>"
  using assms
  by (auto simp: ClaimProbe_def cbCooldown_def time_simps split: if_splits)

lemma cb_run_probeGen:
  "\<exists>k. k \<le> length cs \<and> probeGen (cb_run cs cb) = probeGen cb + of_nat k"
proof (induction cs arbitrary: cb)
  case (Cons c cs)
  obtain j where j: "j \<le> 1" "probeGen (cb_call c cb) = probeGen cb + of_nat j"
  proof (cases "probeGen (cb_call c cb) = probeGen cb")
    case True
    then show ?thesis using that [of 0] by simp
  next
    case False
    then show ?thesis
      using that [of 1] by (cases c) (auto simp: breaker_defs Let_def split: if_splits)
  qed
  obtain k where k: "k \<le> length cs" "probeGen (cb_run cs (cb_call c cb)) = probeGen (cb_call c cb) + of_nat k"
    using Cons by blast
  show ?case
    by (rule exI [of _ "j + k"]) (use j k in \<open>auto simp: add.assoc\<close>)
qed (auto intro: exI [of _ 0])

text \<open>
  After any sequence of calls on a new breaker (fewer than the \<open>int64\<close> range of the failure
  counter), the breaker is closed exactly when fewer than three consecutive failures are counted:
  success resets it, the third consecutive failure opens it, and claiming or aborting a probe
  never closes it.
\<close>

theorem breaker_closed_iff_below_threshold:
  assumes "int (length cs) < max_int64"
  shows "Closed (cb_run cs newCircuitBreaker)
    \<longleftrightarrow> consecutiveFailures (cb_run cs newCircuitBreaker) < cbFailureThreshold"
proof -
  have "cb_inv (cb_run cs newCircuitBreaker)"
    using cb_run_inv [OF cb_inv_new, of cs] assms by (simp add: newCircuitBreaker_def)
  then show ?thesis by (simp add: cb_inv_def Closed_def)
qed

theorem breaker_closed_iff_below_threshold_witness:
  "\<not> Closed (cb_run [CallFailure 1, CallFailure 2, CallFailure 3] newCircuitBreaker)"
  using breaker_closed_iff_below_threshold [of "[CallFailure 1, CallFailure 2, CallFailure 3]"]
  by (simp add: breaker_defs int64_defs)

text \<open>
  Recovery probes are paced. Between two granted probes, whatever calls happen in between, the
  first probe was resolved by a recorded failure or an abort, and at least the 30 s cooldown
  passed between the latest such event and the second grant.
\<close>

theorem probes_paced_by_cooldown:
  assumes "ClaimProbe t1 cb = (Some tok1, cb1)" and "ClaimProbe t2 (cb_run cs cb1) = (Some tok2, cb2)"
  shows "\<exists>t. (CallFailure t \<in> set cs \<or> (\<exists>tok. CallAbort t tok \<in> set cs)) \<and> t + cbCooldown \<le> t2"
proof -
  have "cb_state cb1 \<noteq> cbOpen" using claim_SomeD [OF assms(1)] by simp
  moreover have "cb_state (cb_run cs cb1) = cbOpen"
    and "lastFailureNano (cb_run cs cb1) + cbCooldown \<le> t2"
    using claim_SomeD [OF assms(2)] by simp_all
  ultimately show ?thesis using open_has_cause by blast
qed

definition cb_open_example :: circuitBreaker where
  "cb_open_example = cb_run [CallFailure 0, CallFailure 0, CallFailure 0] newCircuitBreaker"

definition cb_probe1 :: circuitBreaker where
  "cb_probe1 = snd (ClaimProbe (30 * second) cb_open_example)"

definition cb_probe2 :: circuitBreaker where
  "cb_probe2 = snd (ClaimProbe (70 * second) (cb_run [CallFailure (40 * second)] cb_probe1))"

lemma probe_examples:
  "ClaimProbe (30 * second) cb_open_example = (Some 1, cb_probe1)"
  "ClaimProbe (70 * second) (cb_run [CallFailure (40 * second)] cb_probe1) = (Some 2, cb_probe2)"
  by (simp_all add: cb_open_example_def cb_probe1_def cb_probe2_def breaker_defs cbCooldown_def
      time_simps Let_def)

theorem probes_paced_by_cooldown_witness:
  "\<exists>t. (CallFailure t \<in> set [CallFailure (40 * second)]
        \<or> (\<exists>tok. CallAbort t tok \<in> set [CallFailure (40 * second)])) \<and> t + cbCooldown \<le> 70 * second"
  by (rule probes_paced_by_cooldown [OF probe_examples])

text \<open>
  A superseded claim cannot release the probe of a later claim: once a second probe has been
  granted, aborting with the first token is refused and changes nothing (up to the wrap-around of
  the 64-bit generation counter).
\<close>

theorem stale_abort_refused:
  assumes "ClaimProbe t1 cb = (Some tok1, cb1)" and "ClaimProbe t2 (cb_run cs cb1) = (Some tok2, cb2)"
    and "int (length cs) < 2 ^ 64 - 1"
  shows "AbortProbe now tok1 cb2 = (False, cb2)"
proof -
  obtain k where k: "k \<le> length cs" "probeGen (cb_run cs cb1) = probeGen cb1 + of_nat k"
    using cb_run_probeGen by blast
  have "probeGen cb2 = tok1 + of_nat (Suc k)"
    using claim_SomeD [OF assms(1)] claim_SomeD [OF assms(2)] k(2) by (simp add: ac_simps)
  moreover have "(of_nat (Suc k) :: 64 word) \<noteq> 0"
  proof
    assume "(of_nat (Suc k) :: 64 word) = 0"
    then have "(of_nat (Suc k) :: 64 word) = of_nat 0" by simp
    moreover have "Suc k \<in> {..<2 ^ 64}" using k(1) assms(3) by simp
    ultimately show False using inj_onD [OF inj_on_of_nat_64, of "Suc k" 0] by simp
  qed
  ultimately show ?thesis by (simp add: AbortProbe_def)
qed

theorem stale_abort_refused_witness: "AbortProbe 0 1 cb_probe2 = (False, cb_probe2)"
  by (rule stale_abort_refused [OF probe_examples]) simp

text \<open>
  Every interleaving of the breaker's atomic instructions hands out pairwise different probe
  tokens, as long as fewer than \<open>2 ^ 64\<close> have been issued.
\<close>

theorem interleaved_tokens_distinct:
  assumes "cb_reachable s" and "length (issued s) < 2 ^ 64"
  shows "distinct (issued s)"
proof -
  have eq: "issued s = map of_nat (rev [1..<Suc (length (issued s))])"
    using tokens_inv_reachable [OF assms(1)] unfolding tokens_inv_def by blast
  have "inj_on (of_nat :: nat \<Rightarrow> 64 word) (set (rev [1..<Suc (length (issued s))]))"
    using assms(2) by (intro inj_on_subset [OF inj_on_of_nat_64]) auto
  then have "distinct (map (of_nat :: nat \<Rightarrow> 64 word) (rev [1..<Suc (length (issued s))]))"
    by (simp only: distinct_map distinct_rev distinct_upt simp_thms)
  with eq show ?thesis by simp
qed

text \<open>The schedule that opens the breaker, lets goroutine 1 claim a probe and resolves that probe
  by an unrelated failure: 13 instructions on three goroutines.\<close>

definition race_prefix :: "cb_sched list" where
  "race_prefix =
     concat (replicate 3 [Begin 0 (CallFailure 0), Advance 0, Advance 0, Advance 0])
     @ [Begin 1 (CallClaim (30 * second)), Advance 1, Advance 1, Advance 1, Advance 1]
     @ [Begin 2 (CallFailure (31 * second)), Advance 2, Advance 2, Advance 2]"

definition race_suffix :: "cb_sched list" where
  "race_suffix =
     [Begin 3 (CallClaim (61 * second)), Advance 3, Advance 3, Advance 3,
      Begin 1 (CallAbort (61 * second) 1), Advance 1, Advance 1, Advance 1, Advance 1]"

lemma cb_reachable_fold: "cb_reachable s \<Longrightarrow> cb_reachable (fold cb_move ms s)"
  by (induction ms arbitrary: s) (auto intro: cb_reachable.step)

theorem interleaved_tokens_distinct_witness:
  "distinct (issued (fold cb_move race_prefix cb_sys_init))"
proof (rule interleaved_tokens_distinct)
  show "cb_reachable (fold cb_move race_prefix cb_sys_init)"
    by (intro cb_reachable_fold cb_reachable.start)
  have "issued (fold cb_move race_prefix cb_sys_init) = [1]" by code_simp
  then show "length (issued (fold cb_move race_prefix cb_sys_init)) < 2 ^ 64" by simp
qed

text \<open>
  The claim holder of a resolved probe can release somebody else's probe. The holder of token 1
  was superseded: its probe was resolved by an unrelated failure, the breaker is open again and
  goroutine 3 has won the transition to half-open, but has not yet advanced the generation
  counter. In that window \<open>AbortProbe\<close> still accepts token 1 and reopens the breaker under
  goroutine 3's probe.
\<close>

theorem abort_race:
  "\<exists>s1. cb_reachable s1 \<and> issued s1 = [1] \<and> cb_state (shared s1) = cbOpen
     \<and> (let s2 = fold cb_move race_suffix s1
        in pcs s2 3 = Claim4 \<and> pcs s2 1 = Returned (Aborted True) \<and> cb_state (shared s2) = cbOpen)"
proof (intro exI conjI)
  let ?s1 = "fold cb_move race_prefix cb_sys_init"
  show "cb_reachable ?s1" by (intro cb_reachable_fold cb_reachable.start)
  show "issued ?s1 = [1]" by code_simp
  show "cb_state (shared ?s1) = cbOpen" by code_simp
  show "let s2 = fold cb_move race_suffix ?s1
        in pcs s2 3 = Claim4 \<and> pcs s2 1 = Returned (Aborted True) \<and> cb_state (shared s2) = cbOpen"
    by code_simp
qed

end
