(* ===== verification/Go_Strings.thy ===== *)
theory Go_Strings
  imports Router_Prelude "HOL-Library.Sublist"
begin

text \<open>
  The functions of Go's \<open>strings\<close> and \<open>strconv\<close> packages that the router uses. A Go string is its
  list of bytes, a \<open>string\<close> here. Case folding is the ASCII one; every use in the modelled code
  compares with ASCII text that has no other folding.
\<close>

section \<open>Prefixes, suffixes and trimming\<close>

definition HasPrefix :: "string \<Rightarrow> string \<Rightarrow> bool" where
  "HasPrefix s p \<longleftrightarrow> take (length p) s = p"

definition HasSuffix :: "string \<Rightarrow> string \<Rightarrow> bool" where
  "HasSuffix s p \<longleftrightarrow> length p \<le> length s \<and> drop (length s - length p) s = p"

definition TrimPrefix :: "string \<Rightarrow> string \<Rightarrow> string" where
  "TrimPrefix s p = (if HasPrefix s p then drop (length p) s else s)"

definition TrimSuffix :: "string \<Rightarrow> string \<Rightarrow> string" where
  "TrimSuffix s p = (if HasSuffix s p then take (length s - length p) s else s)"

definition CutPrefix :: "string \<Rightarrow> string \<Rightarrow> string option" where
  "CutPrefix s p = (if HasPrefix s p then Some (drop (length p) s) else None)"

definition to_lower_char :: "char \<Rightarrow> char" where
  "to_lower_char c =
     (if 65 \<le> (of_char c :: nat) \<and> (of_char c :: nat) \<le> 90 then char_of ((of_char c :: nat) + 32) else c)"

definition ToLower :: "string \<Rightarrow> string" where
  "ToLower s = map to_lower_char s"

definition EqualFold :: "string \<Rightarrow> string \<Rightarrow> bool" where
  "EqualFold s t \<longleftrightarrow> ToLower s = ToLower t"

text \<open>
  \<open>TrimSpace\<close> removes leading and trailing Unicode white space. \<open>space_codes\<close> lists the UTF-8
  encodings of the white space code points of \<open>unicode.IsSpace\<close>.
\<close>

definition byte :: "nat \<Rightarrow> char" where "byte n = char_of n"

definition space_codes :: "string list" where
  "space_codes =
     map (\<lambda>n. [byte n]) [9, 10, 11, 12, 13, 32]
     @ [[byte 0xC2, byte 0x85], [byte 0xC2, byte 0xA0], [byte 0xE1, byte 0x9A, byte 0x80]]
     @ map (\<lambda>n. [byte 0xE2, byte 0x80, byte n])
         [0x80, 0x81, 0x82, 0x83, 0x84, 0x85, 0x86, 0x87, 0x88, 0x89, 0x8A, 0xA8, 0xA9, 0xAF]
     @ [[byte 0xE2, byte 0x81, byte 0x9F], [byte 0xE3, byte 0x80, byte 0x80]]"

lemma space_codes_nonempty: "p \<in> set space_codes \<Longrightarrow> p \<noteq> []"
  by (auto simp: space_codes_def)

lemma find_space_SomeD: "find P space_codes = Some p \<Longrightarrow> p \<noteq> [] \<and> P p"
  by (metis find_Some_iff nth_mem space_codes_nonempty)

function trim_left :: "string \<Rightarrow> string" where
  "trim_left s =
     (if s = [] then []
      else case find (HasPrefix s) space_codes of
             None \<Rightarrow> s
           | Some p \<Rightarrow> trim_left (drop (length p) s))"
  by pat_completeness auto
termination
  by (relation "measure length") (auto dest!: find_space_SomeD)

function trim_right :: "string \<Rightarrow> string" where
  "trim_right s =
     (if s = [] then []
      else case find (HasSuffix s) space_codes of
             None \<Rightarrow> s
           | Some p \<Rightarrow> trim_right (take (length s - length p) s))"
  by pat_completeness auto
termination
  by (relation "measure length") (auto dest!: find_space_SomeD)

declare trim_left.simps [simp del] trim_right.simps [simp del]

definition TrimSpace :: "string \<Rightarrow> string" where
  "TrimSpace s = trim_right (trim_left s)"

lemma trim_left_suffix: "suffix (trim_left s) s"
proof (induction s rule: trim_left.induct)
  case (1 s)
  show ?case
  proof (cases "s = [] \<or> find (HasPrefix s) space_codes = None")
    case True
    then show ?thesis by (subst trim_left.simps) auto
  next
    case False
    then obtain p where p: "find (HasPrefix s) space_codes = Some p" and s: "s \<noteq> []" by auto
    then have "suffix (trim_left (drop (length p) s)) (drop (length p) s)" using 1 by simp
    then show ?thesis
      using p s by (subst trim_left.simps) (auto intro: suffix_order.trans suffix_drop)
  qed
qed

lemma trim_right_prefix: "prefix (trim_right s) s"
proof (induction s rule: trim_right.induct)
  case (1 s)
  show ?case
  proof (cases "s = [] \<or> find (HasSuffix s) space_codes = None")
    case True
    then show ?thesis by (subst trim_right.simps) auto
  next
    case False
    then obtain p where p: "find (HasSuffix s) space_codes = Some p" and s: "s \<noteq> []" by auto
    let ?t = "take (length s - length p) s"
    have "prefix (trim_right ?t) ?t" using 1 p s by simp
    moreover have "prefix ?t s" by (rule take_is_prefix)
    ultimately show ?thesis
      using p s by (subst trim_right.simps) (auto intro: prefix_order.trans)
  qed
qed

lemma length_TrimSpace: "length (TrimSpace s) \<le> length s"
  unfolding TrimSpace_def
  by (metis order_trans prefix_length_le suffix_length_le trim_left_suffix trim_right_prefix)

lemma TrimSpace_Nil [simp]: "TrimSpace [] = []"
  by (simp add: TrimSpace_def trim_left.simps trim_right.simps)

text \<open>A string with no white space byte at either end is its own trimming.\<close>

lemma TrimSpace_clean:
  assumes "s \<noteq> []" and "hd s \<notin> set (map hd space_codes)" and "last s \<notin> set (map last space_codes)"
  shows "TrimSpace s = s"
proof -
  have "\<not> HasPrefix s p" if "p \<in> set space_codes" for p
  proof
    assume "HasPrefix s p"
    then have "hd p = hd s"
      using space_codes_nonempty[OF that] assms(1) unfolding HasPrefix_def by (cases s; cases p) auto
    then show False using that assms(2) by (metis image_eqI image_set)
  qed
  then have "find (HasPrefix s) space_codes = None" by (auto simp: find_None_iff)
  then have "trim_left s = s" by (subst trim_left.simps) simp
  moreover have "\<not> HasSuffix s p" if p: "p \<in> set space_codes" for p
  proof
    assume "HasSuffix s p"
    then have "last p = last s"
      using space_codes_nonempty[OF p] unfolding HasSuffix_def by (metis last_drop length_0_conv diff_less
        length_greater_0_conv order_less_le_trans)
    then show False using p assms(3) by (metis image_eqI image_set)
  qed
  then have "find (HasSuffix s) space_codes = None" by (auto simp: find_None_iff)
  then have "trim_right s = s" by (subst trim_right.simps) simp
  ultimately show ?thesis by (simp add: TrimSpace_def)
qed

definition graphic :: "char \<Rightarrow> bool" where
  "graphic c \<longleftrightarrow> 33 \<le> (of_char c :: nat) \<and> (of_char c :: nat) \<le> 126"

lemma space_codes_ends:
  "list_all (\<lambda>p. \<not> graphic (hd p) \<and> \<not> graphic (last p)) space_codes"
  by (simp add: space_codes_def byte_def graphic_def)

lemma TrimSpace_graphic:
  assumes "s \<noteq> []" and "graphic (hd s)" and "graphic (last s)"
  shows "TrimSpace s = s"
  using assms space_codes_ends by (intro TrimSpace_clean) (auto simp: list_all_iff)

section \<open>Splitting\<close>

text \<open>\<open>strings.SplitN(s, sep, 2)\<close> for a one-byte separator.\<close>

definition split2 :: "char \<Rightarrow> string \<Rightarrow> string \<times> string option" where
  "split2 sep s =
     (case dropWhile (\<lambda>c. c \<noteq> sep) s of
        [] \<Rightarrow> (s, None)
      | _ # rest \<Rightarrow> (takeWhile (\<lambda>c. c \<noteq> sep) s, Some rest))"

text \<open>\<open>strings.Split(s, sep)\<close> for a one-byte separator.\<close>

fun split_on :: "char \<Rightarrow> string \<Rightarrow> string list" where
  "split_on sep [] = [[]]"
| "split_on sep (c # cs) =
     (if c = sep then [] # split_on sep cs
      else case split_on sep cs of [] \<Rightarrow> [[c]] | w # ws \<Rightarrow> (c # w) # ws)"

lemma split_on_nonempty [simp]: "split_on sep s \<noteq> []"
  by (induction s) (auto split: list.splits)

definition join_with :: "string \<Rightarrow> string list \<Rightarrow> string" where
  "join_with sep ws = (case ws of [] \<Rightarrow> [] | w # ws' \<Rightarrow> w @ concat (map (\<lambda>x. sep @ x) ws'))"

lemma join_split: "join_with [sep] (split_on sep s) = s"
proof (induction s)
  case (Cons c cs)
  obtain w ws where w: "split_on sep cs = w # ws" by (cases "split_on sep cs") auto
  with Cons show ?case by (auto simp: join_with_def)
qed (simp add: join_with_def)

section \<open>Decimal integers\<close>

definition digit_val :: "char \<Rightarrow> int option" where
  "digit_val c =
     (let n = (of_char c :: nat) in if 48 \<le> n \<and> n \<le> 57 then Some (int n - 48) else None)"

fun digits_val :: "int \<Rightarrow> string \<Rightarrow> int option" where
  "digits_val acc [] = Some acc"
| "digits_val acc (c # cs) =
     (case digit_val c of None \<Rightarrow> None | Some d \<Rightarrow> digits_val (10 * acc + d) cs)"

text \<open>\<open>strconv.ParseInt(s, 10, 64)\<close>: an optional sign, at least one digit, in the \<open>int64\<close> range.\<close>

definition ParseInt64 :: "string \<Rightarrow> int option" where
  "ParseInt64 s =
     (let (neg, ds) =
        (case s of
           [] \<Rightarrow> (False, s)
         | c # cs \<Rightarrow> if c = CHR ''-'' then (True, cs) else if c = CHR ''+'' then (False, cs) else (False, s))
      in if ds = [] then None
         else case digits_val 0 ds of
                None \<Rightarrow> None
              | Some n \<Rightarrow>
                  (let v = (if neg then - n else n)
                   in if min_int64 \<le> v \<and> v \<le> max_int64 then Some v else None))"

definition digit_char :: "nat \<Rightarrow> char" where
  "digit_char d = char_of (48 + d)"

fun show_nat :: "nat \<Rightarrow> string" where
  "show_nat n = (if n < 10 then [digit_char n] else show_nat (n div 10) @ [digit_char (n mod 10)])"

declare show_nat.simps [simp del]

text \<open>\<open>strconv.FormatInt(n, 10)\<close>.\<close>

definition show_int :: "int \<Rightarrow> string" where
  "show_int n = (if n < 0 then ''-'' @ show_nat (nat (- n)) else show_nat (nat n))"

lemma digit_val_digit_char: "d < 10 \<Longrightarrow> digit_val (digit_char d) = Some (int d)"
  by (simp add: digit_val_def digit_char_def of_char_of Let_def)

lemma digits_val_append:
  "digits_val acc (xs @ ys) = (case digits_val acc xs of None \<Rightarrow> None | Some v \<Rightarrow> digits_val v ys)"
  by (induction xs arbitrary: acc) (auto split: option.splits)

lemma digits_val_show_nat: "digits_val 0 (show_nat n) = Some (int n)"
proof (induction n rule: show_nat.induct)
  case (1 n)
  show ?case
  proof (cases "n < 10")
    case True
    then show ?thesis by (subst show_nat.simps) (simp add: digit_val_digit_char)
  next
    case False
    have "digits_val 0 (show_nat n) = digits_val (int (n div 10)) [digit_char (n mod 10)]"
      using False 1 by (subst show_nat.simps) (simp add: digits_val_append)
    also have "\<dots> = Some (10 * int (n div 10) + int (n mod 10))" by (simp add: digit_val_digit_char)
    also have "10 * int (n div 10) + int (n mod 10) = int n" by (simp add: zdiv_int zmod_int)
    finally show ?thesis .
  qed
qed

lemma show_nat_nonempty [simp]: "show_nat n \<noteq> []"
  by (subst show_nat.simps) simp

lemma show_nat_first: "digit_val (hd (show_nat n)) \<noteq> None"
proof (induction n rule: show_nat.induct)
  case (1 n)
  show ?case
    by (subst show_nat.simps) (use 1 in \<open>auto simp: digit_val_digit_char\<close>)
qed

lemma ParseInt64_show_int: "min_int64 \<le> n \<Longrightarrow> n \<le> max_int64 \<Longrightarrow> ParseInt64 (show_int n) = Some n"
proof -
  assume range: "min_int64 \<le> n" "n \<le> max_int64"
  obtain c cs where c: "show_nat (nat n) = c # cs" by (cases "show_nat (nat n)") auto
  have "digit_val c \<noteq> None" using show_nat_first [of "nat n"] c by simp
  then have "c \<noteq> CHR ''-''" "c \<noteq> CHR ''+''" by (auto simp: digit_val_def)
  then show ?thesis
    using range c digits_val_show_nat [of "nat n"] digits_val_show_nat [of "nat (- n)"]
    by (auto simp: ParseInt64_def show_int_def Let_def)
qed

end
