(* ===== verification/Overload_Config.thy ===== *)
theory Overload_Config
  imports Go_Strings
begin

text \<open>
  The runtime configuration of \<open>config/config.go\<close>: overload policies and their marks,
  reservations and the consistency check of \<open>FromBytes\<close>, and the pinned loading of
  \<open>LoadContext\<close>. The YAML decoder, the file system, the HTTP client and SHA-256 are parameters.
\<close>

section \<open>Overload policies\<close>

record OverloadConfig =
  MaxRequestsWaiting :: int
  ClearRequestsWaiting :: int
  SoftMaxRequestsRunning :: int
  RetryAfterMinutes :: int

definition zero_overload :: OverloadConfig where
  "zero_overload =
     \<lparr>MaxRequestsWaiting = 0, ClearRequestsWaiting = 0, SoftMaxRequestsRunning = 0,
      RetryAfterMinutes = 0\<rparr>"

text \<open>A policy is a pointer: \<open>None\<close> is nil.\<close>

type_synonym policy = "OverloadConfig option"

definition Enabled :: "policy \<Rightarrow> bool" where
  "Enabled c =
     (case c of None \<Rightarrow> False
      | Some c \<Rightarrow> 0 < MaxRequestsWaiting c \<or> 0 < SoftMaxRequestsRunning c)"

definition Marks :: "OverloadConfig \<Rightarrow> int \<times> int" where
  "Marks c =
     (let trip = MaxRequestsWaiting c;
          clear = ClearRequestsWaiting c
      in (trip, if clear \<le> 0 \<or> trip \<le> clear then go_div trip 2 else clear))"

definition defaultRetryAfterMinutes :: int where "defaultRetryAfterMinutes = 1"

definition normalized :: "policy \<Rightarrow> OverloadConfig" where
  "normalized c =
     (case c of
        None \<Rightarrow> zero_overload
      | Some c \<Rightarrow>
          (let resolved = zero_overload\<lparr>SoftMaxRequestsRunning := max (SoftMaxRequestsRunning c) 0\<rparr>
           in if 0 < MaxRequestsWaiting c
              then resolved\<lparr>MaxRequestsWaiting := fst (Marks c), ClearRequestsWaiting := snd (Marks c),
                     RetryAfterMinutes :=
                       (if RetryAfterMinutes c \<le> 0 then defaultRetryAfterMinutes
                        else RetryAfterMinutes c)\<rparr>
              else resolved))"

definition RetryAfter :: "policy \<Rightarrow> duration" where
  "RetryAfter c = wrap64 (RetryAfterMinutes (normalized c) * minute)"

lemmas overload_defs =
  zero_overload_def Enabled_def Marks_def normalized_def RetryAfter_def
  defaultRetryAfterMinutes_def Let_def

section \<open>Models, reservations and the decoded configuration\<close>

record CacheRouteConfig =
  crc_Mode :: string
  RetentionWindowMinutes :: int
  crc_MinPromptBytes :: int
  crc_SplitThresholdRPM :: rat
  crc_MaxInflightDelta :: "int option"

record ReservationConfig =
  OrgIDs :: "string list"
  res_Enclaves :: "string list"
  res_Overload :: policy

record ModelConfig =
  mc_Repo :: string
  Hostnames :: "string list"
  mc_Overload :: policy
  mc_CacheRoute :: "CacheRouteConfig option"
  mc_Reservations :: "ReservationConfig list"

type_synonym Config = "(string, ModelConfig) gomap"

datatype config_error =
    ParseFailed
  | InconsistentReservations string
  | ShaRequired
  | HttpNotSupported
  | ReadFailed
  | HttpStatus int
  | ShaMismatch

text \<open>
  The policy a reservation uses: its own block, else the model's. The check walks the
  reservations in order and remembers the normalised policy of every organisation.
\<close>

definition reservation_policy :: "policy \<Rightarrow> ReservationConfig \<Rightarrow> policy" where
  "reservation_policy model res = (if res_Overload res \<noteq> None then res_Overload res else model)"

fun check_orgs ::
  "OverloadConfig \<Rightarrow> string list \<Rightarrow> (string, OverloadConfig) gomap
     \<Rightarrow> (string, OverloadConfig) gomap option" where
  "check_orgs resolved [] byOrg = Some byOrg"
| "check_orgs resolved (org # orgs) byOrg =
     (if (case map_of byOrg org of None \<Rightarrow> False | Some previous \<Rightarrow> previous \<noteq> resolved) then None
      else check_orgs resolved orgs (AList.update org resolved byOrg))"

fun check_reservations ::
  "policy \<Rightarrow> ReservationConfig list \<Rightarrow> (string, OverloadConfig) gomap
     \<Rightarrow> (string, OverloadConfig) gomap option" where
  "check_reservations model [] byOrg = Some byOrg"
| "check_reservations model (res # rest) byOrg =
     (case check_orgs (normalized (reservation_policy model res)) (OrgIDs res) byOrg of
        None \<Rightarrow> None
      | Some byOrg' \<Rightarrow> check_reservations model rest byOrg')"

fun check_models :: "Config \<Rightarrow> config_error option" where
  "check_models [] = None"
| "check_models ((name, model) # rest) =
     (if check_reservations (mc_Overload model) (mc_Reservations model) [] = None
      then Some (InconsistentReservations name) else check_models rest)"

definition FromBytes :: "(string \<Rightarrow> Config option) \<Rightarrow> string \<Rightarrow> config_error + Config" where
  "FromBytes yaml data =
     (case yaml data of
        None \<Rightarrow> Inl ParseFailed
      | Some cfg \<Rightarrow> (case check_models cfg of Some e \<Rightarrow> Inl e | None \<Rightarrow> Inr cfg))"

section \<open>Loading with an optional pinned digest\<close>

definition parseURLWithSHA :: "string \<Rightarrow> string \<times> string" where
  "parseURLWithSHA input =
     (case split2 (CHR ''@'') input of
        (_, None) \<Rightarrow> (input, [])
      | (url, Some fragment) \<Rightarrow>
          (if HasPrefix (ToLower fragment) ''sha256:''
           then (url, drop (length ''sha256:'') fragment) else (url, [])))"

text \<open>The HTTP client answers with a transport error, or a status and the body if it could be read.\<close>

definition LoadContext ::
  "(string \<Rightarrow> Config option) \<Rightarrow> (string \<Rightarrow> string option) \<Rightarrow> (string \<Rightarrow> (int \<times> string option) option)
     \<Rightarrow> (string \<Rightarrow> string) \<Rightarrow> string \<Rightarrow> bool \<Rightarrow> config_error + Config" where
  "LoadContext yaml readFile httpGet sha256hex url sha256_required =
     (let (cleanURL, expectedSHA) = parseURLWithSHA url
      in if sha256_required \<and> expectedSHA = [] then Inl ShaRequired
         else
           (let fetched =
              (if \<not> HasPrefix cleanURL ''https'' then
                 (if HasPrefix cleanURL ''http'' then Inl HttpNotSupported
                  else case readFile cleanURL of None \<Rightarrow> Inl ReadFailed | Some data \<Rightarrow> Inr data)
               else
                 (case httpGet cleanURL of
                    None \<Rightarrow> Inl ReadFailed
                  | Some (status, body) \<Rightarrow>
                      (if status \<noteq> 200 then Inl (HttpStatus status)
                       else case body of None \<Rightarrow> Inl ReadFailed | Some data \<Rightarrow> Inr data)))
            in case fetched of
                 Inl e \<Rightarrow> Inl e
               | Inr data \<Rightarrow>
                   (if expectedSHA \<noteq> [] \<and> \<not> EqualFold (sha256hex data) expectedSHA
                    then Inl ShaMismatch else FromBytes yaml data)))"

section \<open>Lemmas\<close>

lemma Marks_bounds: "0 < MaxRequestsWaiting c \<Longrightarrow> Marks c = (trip, clear) \<Longrightarrow> 0 \<le> clear \<and> clear < trip"
  by (auto simp: Marks_def Let_def split: if_splits)

lemma Marks_trip [simp]: "fst (Marks c) = MaxRequestsWaiting c"
  by (simp add: Marks_def Let_def)

lemma Marks_normalized:
  "0 < MaxRequestsWaiting c \<Longrightarrow> Marks (normalized (Some c)) = Marks c"
  by (auto simp: overload_defs)

lemma Enabled_normalized: "Enabled (Some (normalized c)) = Enabled c"
  by (cases c) (auto simp: overload_defs)

lemma normalized_idem: "normalized (Some (normalized c)) = normalized c"
  by (cases c) (auto simp: overload_defs)

lemma check_orgs_spec:
  "check_orgs resolved orgs byOrg = Some byOrg' \<longleftrightarrow>
     (\<forall>org \<in> set orgs. map_of byOrg org = None \<or> map_of byOrg org = Some resolved)
     \<and> byOrg' = fold (\<lambda>org m. AList.update org resolved m) orgs byOrg"
proof (induction orgs arbitrary: byOrg)
  case (Cons org orgs)
  show ?case
    using Cons [of "AList.update org resolved byOrg"]
    by (cases "map_of byOrg org") auto
qed auto

lemma map_of_fold_update:
  "map_of (fold (\<lambda>k m. AList.update k v m) ks m) k = (if k \<in> set ks then Some v else map_of m k)"
  by (induction ks arbitrary: m) auto

text \<open>The normalised policies that apply to an organisation.\<close>

definition org_policies ::
  "policy \<Rightarrow> ReservationConfig list \<Rightarrow> (string, OverloadConfig) gomap \<Rightarrow> string \<Rightarrow> OverloadConfig set" where
  "org_policies model rs byOrg org =
     set_option (map_of byOrg org)
     \<union> (\<lambda>r. normalized (reservation_policy model r)) ` {r \<in> set rs. org \<in> set (OrgIDs r)}"

definition org_consistent :: "policy \<Rightarrow> ReservationConfig list \<Rightarrow> (string, OverloadConfig) gomap \<Rightarrow> bool" where
  "org_consistent model rs byOrg \<longleftrightarrow>
     (\<forall>org. \<forall>p \<in> org_policies model rs byOrg org. \<forall>q \<in> org_policies model rs byOrg org. p = q)"

lemma org_policies_Nil [simp]: "org_policies model [] byOrg org = set_option (map_of byOrg org)"
  by (simp add: org_policies_def)

lemma org_policies_step:
  assumes "map_of byOrg org = None \<or> map_of byOrg org = Some p \<or> org \<notin> set (OrgIDs res)"
    and "p = normalized (reservation_policy model res)"
  shows "org_policies model rs (fold (\<lambda>org m. AList.update org p m) (OrgIDs res) byOrg) org
    = org_policies model (res # rs) byOrg org"
proof -
  have members: "{r \<in> set (res # rs). org \<in> set (OrgIDs r)}
      = (if org \<in> set (OrgIDs res) then {res} else {}) \<union> {r \<in> set rs. org \<in> set (OrgIDs r)}"
    by auto
  show ?thesis
    unfolding org_policies_def members map_of_fold_update using assms by auto
qed

lemma check_reservations_iff:
  "check_reservations model rs byOrg \<noteq> None \<longleftrightarrow> org_consistent model rs byOrg"
proof (induction rs arbitrary: byOrg)
  case Nil
  then show ?case by (auto simp: org_consistent_def)
next
  case (Cons res rs)
  let ?p = "normalized (reservation_policy model res)"
  let ?m = "fold (\<lambda>org m. AList.update org ?p m) (OrgIDs res) byOrg"
  show ?case
  proof (cases "check_orgs ?p (OrgIDs res) byOrg")
    case None
    then obtain org q where "org \<in> set (OrgIDs res)" "map_of byOrg org = Some q" "q \<noteq> ?p"
      using check_orgs_spec [of ?p "OrgIDs res" byOrg ?m] by auto
    then have "q \<in> org_policies model (res # rs) byOrg org" "?p \<in> org_policies model (res # rs) byOrg org"
      by (auto simp: org_policies_def)
    with \<open>q \<noteq> ?p\<close> have "\<not> org_consistent model (res # rs) byOrg" unfolding org_consistent_def by blast
    with None show ?thesis by simp
  next
    case (Some m)
    then have m: "m = ?m" and ok: "\<forall>org \<in> set (OrgIDs res). map_of byOrg org = None \<or> map_of byOrg org = Some ?p"
      by (auto simp: check_orgs_spec)
    have "org_policies model rs ?m org = org_policies model (res # rs) byOrg org" for org
      using ok by (intro org_policies_step) auto
    then have "org_consistent model rs ?m \<longleftrightarrow> org_consistent model (res # rs) byOrg"
      by (simp add: org_consistent_def)
    with Some m Cons show ?thesis by simp
  qed
qed

lemma check_models_None_iff:
  "check_models cfg = None \<longleftrightarrow>
     (\<forall>(name, model) \<in> set cfg. org_consistent (mc_Overload model) (mc_Reservations model) [])"
  by (induction cfg rule: check_models.induct) (auto simp flip: check_reservations_iff)

lemma org_consistent_pairwise:
  "org_consistent model rs [] \<longleftrightarrow>
     (\<forall>r \<in> set rs. \<forall>r' \<in> set rs. \<forall>org \<in> set (OrgIDs r) \<inter> set (OrgIDs r').
        normalized (reservation_policy model r) = normalized (reservation_policy model r'))"
  unfolding org_consistent_def org_policies_def by simp blast

section \<open>Properties\<close>

lemma RetryAfter_minutes:
  assumes "0 < MaxRequestsWaiting c" and "RetryAfterMinutes c \<le> 153722867"
  shows "minute \<le> RetryAfter (Some c)"
proof -
  let ?m = "RetryAfterMinutes (normalized (Some c))"
  have "1 \<le> ?m" "?m \<le> 153722867" using assms by (auto simp: overload_defs)
  then have "wrap64 (?m * minute) = ?m * minute" by (intro wrap64_id) (simp_all add: time_simps)
  with \<open>1 \<le> ?m\<close> show ?thesis by (simp add: RetryAfter_def time_simps)
qed

text \<open>
  \<open>FromBytes\<close> accepts exactly the decoded configurations in which all reservations naming the
  same organisation resolve to the same normalised policy, whatever the order of the models and
  reservations, and returns the decoded configuration unchanged.
\<close>

theorem FromBytes_accepts_iff_consistent:
  "FromBytes yaml data = Inr cfg \<longleftrightarrow>
     yaml data = Some cfg
     \<and> (\<forall>(name, model) \<in> set cfg. \<forall>r \<in> set (mc_Reservations model). \<forall>r' \<in> set (mc_Reservations model).
          \<forall>org \<in> set (OrgIDs r) \<inter> set (OrgIDs r').
            normalized (reservation_policy (mc_Overload model) r)
              = normalized (reservation_policy (mc_Overload model) r'))"
  unfolding org_consistent_pairwise [symmetric] using check_models_None_iff [of cfg]
  by (auto simp: FromBytes_def split: option.splits)

definition reservation_example :: "int \<Rightarrow> ReservationConfig" where
  "reservation_example n =
     \<lparr>OrgIDs = [''org''], res_Enclaves = [''h1''], res_Overload = Some (zero_overload\<lparr>MaxRequestsWaiting := n\<rparr>)\<rparr>"

definition config_example :: "int list \<Rightarrow> Config" where
  "config_example ns =
     [(''m'', \<lparr>mc_Repo = ''r'', Hostnames = [''h1''], mc_Overload = None, mc_CacheRoute = None,
        mc_Reservations = map reservation_example ns\<rparr>)]"

theorem FromBytes_accepts_iff_consistent_witness:
  "FromBytes (\<lambda>_. Some (config_example [4, 4])) [] = Inr (config_example [4, 4])"
  unfolding FromBytes_accepts_iff_consistent by (simp add: config_example_def reservation_example_def)

text \<open>
  A configuration loaded with a required digest is authentic: the accepted bytes hash to the
  digest written in the URL, they were never fetched over plain HTTP, and they decode to the
  configuration that is returned.
\<close>

theorem pinned_load_authentic:
  assumes "LoadContext yaml readFile httpGet sha256hex url True = Inr cfg"
  shows "\<exists>cleanURL sha data. parseURLWithSHA url = (cleanURL, sha) \<and> sha \<noteq> []
    \<and> EqualFold (sha256hex data) sha \<and> FromBytes yaml data = Inr cfg
    \<and> (HasPrefix cleanURL ''https'' \<and> httpGet cleanURL = Some (200, Some data)
       \<or> \<not> HasPrefix cleanURL ''http'' \<and> readFile cleanURL = Some data)"
  using assms by (auto simp: LoadContext_def split: prod.splits if_splits option.splits sum.splits)

definition pinned_example :: "config_error + Config" where
  "pinned_example =
     LoadContext (\<lambda>_. Some (config_example [4])) (\<lambda>_. Some ''x'') (\<lambda>_. None) (\<lambda>_. ''Ab'')
       ''config.yml@sha256:aB'' True"

theorem pinned_load_authentic_witness:
  "\<exists>cleanURL sha data. parseURLWithSHA ''config.yml@sha256:aB'' = (cleanURL, sha) \<and> sha \<noteq> []
    \<and> EqualFold (''Ab'') sha \<and> FromBytes (\<lambda>_. Some (config_example [4])) data = Inr (config_example [4])
    \<and> (HasPrefix cleanURL ''https'' \<and> None = Some (200 :: int, Some data)
       \<or> \<not> HasPrefix cleanURL ''http'' \<and> Some ''x'' = Some data)"
proof -
  have "pinned_example = Inr (config_example [4])" by code_simp
  from pinned_load_authentic [OF this [unfolded pinned_example_def]] show ?thesis .
qed

end
