(* ===== verification/Load_Metrics.thy ===== *)
theory Load_Metrics
  imports Overload_Config
begin

text \<open>
  Backend load samples (\<open>manager/metrics.go\<close>) and the routing tier of a backend
  (\<open>enclaveMetrics.tier\<close> in \<open>manager/routing_tiers.go\<close>). A \<open>float64\<close> sample is an exact rational;
  NaN and the infinities, which the parser rejects, are separate constructors. The poller
  goroutine is its effect on the state: \<open>polling\<close> says whether one runs.
\<close>

section \<open>Samples\<close>

datatype float64 = Finite rat | NaN | Infinite

datatype sample = Gauge float64 | Untyped float64 | OtherKind

record requestCounts =
  waiting :: rat
  running :: rat
  hasWaiting :: bool
  hasRunning :: bool

definition zero_counts :: requestCounts where
  "zero_counts = \<lparr>waiting = 0, running = 0, hasWaiting = False, hasRunning = False\<rparr>"

definition supports :: "requestCounts \<Rightarrow> policy \<Rightarrow> bool" where
  "supports s cfg \<longleftrightarrow> Enabled cfg \<and> hasWaiting s
     \<and> (case cfg of None \<Rightarrow> False | Some c \<Rightarrow> SoftMaxRequestsRunning c \<le> 0 \<or> hasRunning s)"

text \<open>One metric family is summed over its samples; \<open>None\<close> is a rejected sample.\<close>

fun sum_family :: "sample list \<Rightarrow> rat \<times> bool \<Rightarrow> (rat \<times> bool) option" where
  "sum_family [] acc = Some acc"
| "sum_family (s # ss) (acc, present) =
     (case s of
        OtherKind \<Rightarrow> None
      | Gauge v \<Rightarrow>
          (case v of Finite x \<Rightarrow> if x < 0 then None else sum_family ss (acc + x, True) | _ \<Rightarrow> None)
      | Untyped v \<Rightarrow>
          (case v of Finite x \<Rightarrow> if x < 0 then None else sum_family ss (acc + x, True) | _ \<Rightarrow> None))"

definition waitingMetricName :: string where "waitingMetricName = ''vllm:num_requests_waiting''"
definition runningMetricName :: string where "runningMetricName = ''vllm:num_requests_running''"

text \<open>The text-format parser is a third-party package: its result, by family name, is the argument.\<close>

definition extractRequestCounts :: "(string \<Rightarrow> sample list) option \<Rightarrow> requestCounts option" where
  "extractRequestCounts parsed =
     (case parsed of
        None \<Rightarrow> None
      | Some families \<Rightarrow>
          (case sum_family (families waitingMetricName) (0, False) of
             None \<Rightarrow> None
           | Some (w, hw) \<Rightarrow>
               (case sum_family (families runningMetricName) (0, False) of
                  None \<Rightarrow> None
                | Some (r, hr) \<Rightarrow>
                    Some \<lparr>waiting = w, running = r, hasWaiting = hw, hasRunning = hr\<rparr>)))"

section \<open>Overload flags with hysteresis\<close>

type_synonym queueMarks = "int \<times> int"

definition marks_overloaded :: "queueMarks \<Rightarrow> rat \<Rightarrow> bool \<Rightarrow> bool" where
  "marks_overloaded q w previous \<longleftrightarrow> of_int (fst q) \<le> w \<or> previous \<and> of_int (snd q) < w"

record enclaveMetrics =
  polling :: bool
  nativePolicy :: policy
  requiresRunning :: bool
  latestCounts :: requestCounts
  latestCollected :: time
  queueOverloads :: "(queueMarks, bool) gomap"
  overloadEvents :: nat
  recoveryEvents :: nat
  overloadedGauge :: "bool option"
  queueDepthGauge :: "rat option"
  runningGauge :: "rat option"

definition newEnclaveMetrics :: enclaveMetrics where
  "newEnclaveMetrics =
     \<lparr>polling = False, nativePolicy = None, requiresRunning = False, latestCounts = zero_counts,
      latestCollected = 0, queueOverloads = [], overloadEvents = 0, recoveryEvents = 0,
      overloadedGauge = None, queueDepthGauge = None, runningGauge = None\<rparr>"

definition sampleStalenessLimit :: duration where "sampleStalenessLimit = 15 * second"

text \<open>Reading a missing key of a \<open>map[queueMarks]bool\<close> yields false.\<close>

definition flag_of :: "(queueMarks, bool) gomap \<Rightarrow> queueMarks \<Rightarrow> bool" where
  "flag_of m q \<longleftrightarrow> map_of m q = Some True"

definition queueOverloadedLocked :: "policy \<Rightarrow> enclaveMetrics \<Rightarrow> bool" where
  "queueOverloadedLocked p m =
     (case p of
        None \<Rightarrow> False
      | Some c \<Rightarrow> 0 < MaxRequestsWaiting c \<and> flag_of (queueOverloads m) (Marks c))"

definition publishOverloadLocked :: "bool \<Rightarrow> enclaveMetrics \<Rightarrow> enclaveMetrics" where
  "publishOverloadLocked wasOverloaded m =
     (let now_over = queueOverloadedLocked (nativePolicy m) m
      in m\<lparr>overloadEvents := overloadEvents m + (if now_over \<and> \<not> wasOverloaded then 1 else 0),
            recoveryEvents := recoveryEvents m + (if \<not> now_over \<and> wasOverloaded then 1 else 0),
            overloadedGauge := Some now_over\<rparr>)"

definition fresh :: "time \<Rightarrow> enclaveMetrics \<Rightarrow> bool" where
  "fresh now m \<longleftrightarrow> \<not> is_zero (latestCollected m) \<and> time_sub now (latestCollected m) \<le> sampleStalenessLimit"

text \<open>One iteration of the loop of \<open>configurePolicies\<close> over the native policy and the spill policies.\<close>

definition policy_step ::
  "time \<Rightarrow> enclaveMetrics \<Rightarrow> policy \<Rightarrow> bool \<times> bool \<times> (queueMarks, bool) gomap
     \<Rightarrow> bool \<times> bool \<times> (queueMarks, bool) gomap" where
  "policy_step now m p acc =
     (case acc of (poll, needsRunning, states) \<Rightarrow>
        (case p of
           None \<Rightarrow> acc
         | Some c \<Rightarrow>
             (if \<not> Enabled p then acc
              else
                (let marks = Marks c;
                     previous = flag_of (queueOverloads m) marks;
                     state = (if hasWaiting (latestCounts m) \<and> fresh now m
                              then marks_overloaded marks (waiting (latestCounts m)) previous else previous)
                 in (True, needsRunning \<or> 0 < SoftMaxRequestsRunning c,
                     if 0 < fst marks then AList.update marks state states else states)))))"

definition configurePolicies ::
  "time \<Rightarrow> policy \<Rightarrow> policy list \<Rightarrow> enclaveMetrics \<Rightarrow> bool \<times> enclaveMetrics" where
  "configurePolicies now native policies m =
     (let wasOverloaded = queueOverloadedLocked (nativePolicy m) m;
          (poll, needsRunning, states) = fold (policy_step now m) (native # policies) (False, False, []);
          m1 = m\<lparr>nativePolicy := native, requiresRunning := needsRunning, queueOverloads := states\<rparr>;
          m2 = (if poll then m1
                else m1\<lparr>latestCounts := zero_counts, latestCollected := 0, queueDepthGauge := None,
                         runningGauge := None\<rparr>)
      in (poll, publishOverloadLocked wasOverloaded m2))"

definition setPolicies :: "time \<Rightarrow> policy \<Rightarrow> policy list \<Rightarrow> enclaveMetrics \<Rightarrow> enclaveMetrics" where
  "setPolicies now native policies m =
     (case configurePolicies now native policies (m\<lparr>polling := False\<rparr>) of
        (poll, m') \<Rightarrow> m'\<lparr>polling := poll\<rparr>)"

definition metrics_shutdown :: "enclaveMetrics \<Rightarrow> enclaveMetrics" where
  "metrics_shutdown m = m\<lparr>polling := False\<rparr>"

definition supportsSample :: "requestCounts \<Rightarrow> enclaveMetrics \<Rightarrow> bool" where
  "supportsSample counts m \<longleftrightarrow> hasWaiting counts \<and> (\<not> requiresRunning m \<or> hasRunning counts)"

definition updateLatest :: "requestCounts \<Rightarrow> time \<Rightarrow> enclaveMetrics \<Rightarrow> enclaveMetrics" where
  "updateLatest counts ts m =
     (let wasOverloaded = queueOverloadedLocked (nativePolicy m) m;
          m1 = m\<lparr>latestCounts := counts, latestCollected := ts\<rparr>;
          m2 = (if hasWaiting counts
                then m1\<lparr>queueOverloads :=
                  map (\<lambda>(marks, state). (marks, marks_overloaded marks (waiting counts) state)) (queueOverloads m)\<rparr>
                else m1)
      in publishOverloadLocked wasOverloaded m2)"

text \<open>
  A scrape gets no usable HTTP answer (\<open>None\<close>) or the parser's result for the body of a 200
  response.
\<close>

definition scrape ::
  "time \<Rightarrow> (string \<Rightarrow> sample list) option option \<Rightarrow> enclaveMetrics \<Rightarrow> enclaveMetrics" where
  "scrape now response m =
     (case response of
        None \<Rightarrow> m
      | Some parsed \<Rightarrow>
          (case extractRequestCounts parsed of
             None \<Rightarrow> m
           | Some counts \<Rightarrow>
               (let m1 = m\<lparr>queueDepthGauge := (if hasWaiting counts then Some (waiting counts) else None),
                            runningGauge := (if hasRunning counts then Some (running counts) else None)\<rparr>
                in if supportsSample counts m1 then updateLatest counts now m1 else m1)))"

section \<open>Routing tiers\<close>

datatype routingTier = tierPreferred | tierBusy | tierUnknown | tierOverloaded

definition tier :: "time \<Rightarrow> policy \<Rightarrow> enclaveMetrics \<Rightarrow> routingTier \<times> rat" where
  "tier now p m =
     (case p of
        None \<Rightarrow> (tierPreferred, 0)
      | Some c \<Rightarrow>
          (if \<not> Enabled p then (tierPreferred, 0)
           else
             (let counts = latestCounts m;
                  (trip, clear) = Marks c
              in if \<not> fresh now m \<or> \<not> supports counts p then (tierUnknown, waiting counts)
                 else if 0 < trip \<and> marks_overloaded (trip, clear) (waiting counts) (flag_of (queueOverloads m) (trip, clear))
                 then (tierOverloaded, waiting counts)
                 else if waiting counts = 0
                   \<and> (SoftMaxRequestsRunning c \<le> 0 \<or> running counts < of_int (SoftMaxRequestsRunning c))
                 then (tierPreferred, waiting counts)
                 else (tierBusy, waiting counts))))"

section \<open>Hysteresis as a contract\<close>

text \<open>
  A two-mark switch: at the trip mark it turns on, at the clear mark it turns off, in between it
  keeps its value. The state after a run of samples is then determined by the samples alone.
\<close>

locale hysteresis =
  fixes valid :: "'q \<Rightarrow> bool"
    and trip_mark clear_mark :: "'q \<Rightarrow> 'a::linorder"
    and switch :: "'q \<Rightarrow> 'a \<Rightarrow> bool \<Rightarrow> bool"
  assumes gap: "valid q \<Longrightarrow> clear_mark q < trip_mark q"
    and trips: "valid q \<Longrightarrow> trip_mark q \<le> w \<Longrightarrow> switch q w f"
    and clears: "valid q \<Longrightarrow> w \<le> clear_mark q \<Longrightarrow> \<not> switch q w f"
    and holds: "valid q \<Longrightarrow> clear_mark q < w \<Longrightarrow> w < trip_mark q \<Longrightarrow> switch q w f = f"
begin

definition after :: "'q \<Rightarrow> 'a list \<Rightarrow> bool \<Rightarrow> bool" where
  "after q ws f = fold (switch q) ws f"

text \<open>The reference definition: tripped at some sample and above the clear mark ever since.\<close>

definition tripped :: "'q \<Rightarrow> 'a list \<Rightarrow> bool \<Rightarrow> bool" where
  "tripped q ws f \<longleftrightarrow>
     (\<exists>us v vs. ws = us @ v # vs \<and> trip_mark q \<le> v \<and> (\<forall>x \<in> set vs. clear_mark q < x))
     \<or> f \<and> (\<forall>x \<in> set ws. clear_mark q < x)"

lemma tripped_snoc:
  "tripped q (ws @ [w]) f \<longleftrightarrow> trip_mark q \<le> w \<or> tripped q ws f \<and> clear_mark q < w"
proof -
  have "(\<exists>us v vs. ws @ [w] = us @ v # vs \<and> trip_mark q \<le> v \<and> (\<forall>x \<in> set vs. clear_mark q < x))
    \<longleftrightarrow> trip_mark q \<le> w
      \<or> (\<exists>us v vs. ws = us @ v # vs \<and> trip_mark q \<le> v \<and> (\<forall>x \<in> set vs. clear_mark q < x)) \<and> clear_mark q < w"
    (is "?L \<longleftrightarrow> ?R")
  proof
    assume ?L
    then obtain us v vs where eq: "ws @ [w] = us @ v # vs" and v: "trip_mark q \<le> v"
      and vs: "\<forall>x \<in> set vs. clear_mark q < x" by blast
    show ?R
    proof (cases vs rule: rev_cases)
      case Nil
      with eq v show ?thesis by simp
    next
      case (snoc vs' z)
      with eq have "ws = us @ v # vs'" "w = z" by simp_all
      with snoc v vs show ?thesis by auto
    qed
  next
    assume ?R
    then show ?L
    proof (elim disjE conjE exE)
      assume "trip_mark q \<le> w"
      then show ?L by (intro exI [of _ ws] exI [of _ w] exI [of _ "[]"]) simp
    next
      fix us v vs
      assume "clear_mark q < w" "ws = us @ v # vs" "trip_mark q \<le> v" "\<forall>x \<in> set vs. clear_mark q < x"
      then show ?L by (intro exI [of _ us] exI [of _ v] exI [of _ "vs @ [w]"]) auto
    qed
  qed
  moreover have "(\<forall>x \<in> set (ws @ [w]). clear_mark q < x) \<longleftrightarrow> (\<forall>x \<in> set ws. clear_mark q < x) \<and> clear_mark q < w"
    by auto
  ultimately show ?thesis unfolding tripped_def by satx
qed

lemma after_iff_tripped:
  assumes "valid q"
  shows "after q ws f \<longleftrightarrow> tripped q ws f"
proof (induction ws rule: rev_induct)
  case Nil
  show ?case by (simp add: after_def tripped_def)
next
  case (snoc w ws)
  have "after q (ws @ [w]) f = switch q w (after q ws f)" by (simp add: after_def)
  also have "\<dots> \<longleftrightarrow> trip_mark q \<le> w \<or> after q ws f \<and> clear_mark q < w"
    using assms trips clears holds gap by (meson leI order.strict_trans2)
  finally show ?case using snoc by (simp add: tripped_snoc)
qed

end

definition proper_marks :: "queueMarks \<Rightarrow> bool" where
  "proper_marks q \<longleftrightarrow> snd q < fst q"

interpretation queue: hysteresis proper_marks "\<lambda>q. rat_of_int (fst q)" "\<lambda>q. rat_of_int (snd q)" marks_overloaded
  by unfold_locales (auto simp: proper_marks_def marks_overloaded_def)

lemma proper_Marks: "0 < MaxRequestsWaiting c \<Longrightarrow> proper_marks (Marks c)"
  using Marks_bounds [of c] by (cases "Marks c") (auto simp: proper_marks_def)

section \<open>Lemmas on the sampled state\<close>

definition sample_run :: "(requestCounts \<times> time) list \<Rightarrow> enclaveMetrics \<Rightarrow> enclaveMetrics" where
  "sample_run ss m = fold (\<lambda>(counts, ts). updateLatest counts ts) ss m"

lemma updateLatest_flag:
  assumes "hasWaiting counts" and "map_of (queueOverloads m) q = Some f"
  shows "map_of (queueOverloads (updateLatest counts ts m)) q = Some (marks_overloaded q (waiting counts) f)"
  using assms by (simp add: updateLatest_def publishOverloadLocked_def Let_def map_of_map_values)

lemma sample_run_flag:
  assumes "\<forall>(counts, ts) \<in> set ss. hasWaiting counts" and "map_of (queueOverloads m) q = Some f"
  shows "map_of (queueOverloads (sample_run ss m)) q
    = Some (queue.after q (map (\<lambda>(counts, ts). waiting counts) ss) f)"
  using assms
proof (induction ss arbitrary: m f)
  case Nil
  then show ?case by (simp add: sample_run_def queue.after_def)
next
  case (Cons s ss)
  obtain counts ts where s: "s = (counts, ts)" by (cases s)
  with Cons.prems have "hasWaiting counts" by auto
  from Cons.IH [OF _ updateLatest_flag [OF this Cons.prems(2), of ts]] Cons.prems(1) s show ?case
    by (simp add: sample_run_def queue.after_def)
qed

text \<open>The counters of overload transitions follow the native policy's flag.\<close>

definition events_inv :: "enclaveMetrics \<Rightarrow> bool" where
  "events_inv m \<longleftrightarrow> overloadEvents m
     = recoveryEvents m + (if queueOverloadedLocked (nativePolicy m) m then 1 else 0)"

lemma queueOverloadedLocked_cong:
  "queueOverloads m = queueOverloads m' \<Longrightarrow> queueOverloadedLocked p m = queueOverloadedLocked p m'"
  by (simp add: queueOverloadedLocked_def split: option.splits)

lemma publish_events_inv:
  assumes "overloadEvents m = recoveryEvents m + (if was then 1 else 0)"
  shows "events_inv (publishOverloadLocked was m)"
proof -
  have "queueOverloadedLocked p (publishOverloadLocked was m) = queueOverloadedLocked p m" for p
    by (rule queueOverloadedLocked_cong) (simp add: publishOverloadLocked_def Let_def)
  then show ?thesis
    using assms by (auto simp: events_inv_def publishOverloadLocked_def Let_def)
qed

lemma events_inv_updateLatest: "events_inv m \<Longrightarrow> events_inv (updateLatest counts ts m)"
  unfolding updateLatest_def Let_def by (intro publish_events_inv) (auto simp: events_inv_def)

lemma events_inv_configurePolicies:
  assumes "events_inv m"
  shows "events_inv (snd (configurePolicies now native policies m))"
proof -
  have "overloadEvents m = recoveryEvents m + (if queueOverloadedLocked (nativePolicy m) m then 1 else 0)"
    using assms by (simp add: events_inv_def)
  then show ?thesis
    by (auto simp: configurePolicies_def Let_def split: prod.splits intro!: publish_events_inv)
qed

datatype metricsCall =
    CallSetPolicies time policy "policy list"
  | CallScrape time "(string \<Rightarrow> sample list) option option"
  | CallMetricsShutdown

fun metrics_call :: "metricsCall \<Rightarrow> enclaveMetrics \<Rightarrow> enclaveMetrics" where
  "metrics_call (CallSetPolicies now native policies) m = setPolicies now native policies m"
| "metrics_call (CallScrape now response) m = scrape now response m"
| "metrics_call CallMetricsShutdown m = metrics_shutdown m"

lemma events_inv_cong:
  "events_inv m \<Longrightarrow> events_inv (m\<lparr>polling := b\<rparr>)"
  "events_inv m \<Longrightarrow> events_inv (m\<lparr>queueDepthGauge := x, runningGauge := y\<rparr>)"
  by (simp_all add: events_inv_def queueOverloadedLocked_def split: option.splits)

lemma events_inv_call: "events_inv m \<Longrightarrow> events_inv (metrics_call c m)"
proof (cases c)
  case (CallSetPolicies now native policies)
  assume "events_inv m"
  then have "events_inv (snd (configurePolicies now native policies (m\<lparr>polling := False\<rparr>)))"
    by (intro events_inv_configurePolicies events_inv_cong)
  with CallSetPolicies show ?thesis
    by (auto simp: setPolicies_def split: prod.splits intro: events_inv_cong)
qed (auto simp: scrape_def metrics_shutdown_def Let_def
      intro: events_inv_cong events_inv_updateLatest split: option.splits)

section \<open>Properties\<close>

text \<open>
  The overload flag of a configured pair of marks is exactly hysteresis: after any run of
  samples it is set if and only if the queue reached the trip mark at some sample and stayed above
  the clear mark from then on (or it was set before and the queue never came down to the clear
  mark).
\<close>

theorem overload_flag_hysteresis:
  assumes "0 < MaxRequestsWaiting c" and "\<forall>(counts, ts) \<in> set ss. hasWaiting counts"
    and "map_of (queueOverloads m) (Marks c) = Some f"
  shows "flag_of (queueOverloads (sample_run ss m)) (Marks c) \<longleftrightarrow>
    (\<exists>us v vs. map (\<lambda>(counts, ts). waiting counts) ss = us @ v # vs
        \<and> rat_of_int (MaxRequestsWaiting c) \<le> v \<and> (\<forall>x \<in> set vs. rat_of_int (snd (Marks c)) < x))
    \<or> f \<and> (\<forall>(counts, ts) \<in> set ss. rat_of_int (snd (Marks c)) < waiting counts)"
proof -
  have "flag_of (queueOverloads (sample_run ss m)) (Marks c)
      \<longleftrightarrow> queue.tripped (Marks c) (map (\<lambda>(counts, ts). waiting counts) ss) f"
    using sample_run_flag [OF assms(2,3)] queue.after_iff_tripped [OF proper_Marks [OF assms(1)]]
    by (simp add: flag_of_def)
  then show ?thesis by (auto simp: queue.tripped_def)
qed

definition overload_example :: OverloadConfig where
  "overload_example = zero_overload\<lparr>MaxRequestsWaiting := 8\<rparr>"

definition depth_sample :: "rat \<Rightarrow> requestCounts \<times> time" where
  "depth_sample w = (zero_counts\<lparr>waiting := w, hasWaiting := True\<rparr>, 1)"

definition metrics_example :: enclaveMetrics where
  "metrics_example = snd (configurePolicies 0 (Some overload_example) [] newEnclaveMetrics)"

lemmas metrics_example_defs =
  overload_example_def metrics_example_def newEnclaveMetrics_def configurePolicies_def
  policy_step_def publishOverloadLocked_def overload_defs flag_of_def

theorem overload_flag_hysteresis_witness:
  "flag_of (queueOverloads (sample_run [depth_sample 8, depth_sample 5] metrics_example)) (Marks overload_example)
   \<longleftrightarrow> (\<exists>us v vs. map (\<lambda>(counts, ts). waiting counts) [depth_sample 8, depth_sample 5] = us @ v # vs
        \<and> rat_of_int (MaxRequestsWaiting overload_example) \<le> v
        \<and> (\<forall>x \<in> set vs. rat_of_int (snd (Marks overload_example)) < x))
    \<or> False \<and> (\<forall>(counts, ts) \<in> set [depth_sample 8, depth_sample 5].
        rat_of_int (snd (Marks overload_example)) < waiting counts)"
  by (rule overload_flag_hysteresis)
    (simp_all add: depth_sample_def metrics_example_defs zero_counts_def)

text \<open>
  The overload and recovery counters alternate: after any sequence of policy changes, scrapes
  and shutdowns, the number of overload transitions counted exceeds the number of recoveries by
  one exactly while the native policy's flag is set, and they are equal otherwise.
\<close>

theorem overload_events_balance:
  "overloadEvents (fold metrics_call calls newEnclaveMetrics)
   = recoveryEvents (fold metrics_call calls newEnclaveMetrics)
     + (if queueOverloadedLocked (nativePolicy (fold metrics_call calls newEnclaveMetrics))
             (fold metrics_call calls newEnclaveMetrics) then 1 else 0)"
proof -
  have "events_inv (fold metrics_call calls newEnclaveMetrics)"
  proof (induction calls rule: rev_induct)
    case Nil
    show ?case by (simp add: events_inv_def newEnclaveMetrics_def queueOverloadedLocked_def)
  next
    case (snoc c cs)
    then show ?case by (simp add: events_inv_call)
  qed
  then show ?thesis by (simp add: events_inv_def)
qed

text \<open>
  A backend is ranked overloaded only on current evidence: the caller's policy has a queue
  limit, the last sample is at most 15 s old and carries a queue depth above the clear mark.
  Missing, stale or incomplete samples rank as unknown, and a disabled policy always ranks as
  preferred.
\<close>

theorem tier_overloaded_has_evidence:
  assumes "tier now p m = (tierOverloaded, w)"
  shows "\<exists>c. p = Some c \<and> 0 < MaxRequestsWaiting c \<and> w = waiting (latestCounts m)
    \<and> hasWaiting (latestCounts m) \<and> rat_of_int (snd (Marks c)) < w
    \<and> latestCollected m \<noteq> 0 \<and> now - latestCollected m \<le> sampleStalenessLimit"
proof -
  obtain c where c: "p = Some c" using assms by (cases p) (auto simp: tier_def)
  have marks: "Marks c = (MaxRequestsWaiting c, snd (Marks c))" by (metis Marks_trip prod.collapse)
  from assms c have pos: "0 < MaxRequestsWaiting c" and fr: "fresh now m" and sup: "supports (latestCounts m) p"
    and w: "w = waiting (latestCounts m)"
    and over: "marks_overloaded (Marks c) w (flag_of (queueOverloads m) (Marks c))"
    using marks by (auto simp: tier_def Let_def split: if_splits prod.splits)
  have "rat_of_int (snd (Marks c)) < w"
    using over proper_Marks [OF pos]
    by (auto simp: marks_overloaded_def proper_marks_def intro: less_le_trans)
  with c pos fr sup w show ?thesis
    by (auto simp: fresh_def supports_def sampleStalenessLimit_def time_simps)
qed

theorem tier_overloaded_has_evidence_witness:
  "\<exists>c. Some overload_example = Some c \<and> 0 < MaxRequestsWaiting c
    \<and> 9 = waiting (latestCounts (sample_run [depth_sample 9] metrics_example))
    \<and> hasWaiting (latestCounts (sample_run [depth_sample 9] metrics_example)) \<and> rat_of_int (snd (Marks c)) < 9
    \<and> latestCollected (sample_run [depth_sample 9] metrics_example) \<noteq> 0
    \<and> 2 - latestCollected (sample_run [depth_sample 9] metrics_example) \<le> sampleStalenessLimit"
  by (rule tier_overloaded_has_evidence)
    (simp add: depth_sample_def metrics_example_defs sample_run_def updateLatest_def tier_def fresh_def
      supports_def marks_overloaded_def zero_counts_def sampleStalenessLimit_def time_simps)

end
