(* ===== verification/Model_Pool.thy ===== *)
theory Model_Pool
  imports Circuit_Breaker Load_Metrics
begin

text \<open>
  A model's pool of backends: attestation snapshots (\<open>manager/verification.go\<close>), the
  verification report (\<open>manager/verification_status.go\<close>) and the \<open>Model\<close> of
  \<open>manager/manager.go\<close> with its reservations.

  A \<open>map[string]bool\<close> of hosts holds only true entries, so it is the list of its keys; a pool
  filter is an optional one, \<open>None\<close> standing for the nil map. The source refers to an enclave by
  pointer; \<open>oid\<close> is the identity of the object, so that a replacement under the same host is a
  different enclave. An object that leaves the pool while requests still hold it moves to
  \<open>retiredEnclaves\<close>.
\<close>

section \<open>Attestation snapshots\<close>

record verifiedAttestation =
  expiresAt :: time
  verifiedAt :: time
  codeTag :: string

definition attestationRenewalWindow :: duration where "attestationRenewalWindow = 24 * hour"
definition attestationRefreshInterval :: duration where "attestationRefreshInterval = hour"

record Enclave =
  oid :: nat
  host :: string
  modelName :: string
  tlsKeyFP :: string
  hpkeKey :: string
  predicate :: string
  attestation :: "verifiedAttestation option"
  metrics :: "enclaveMetrics option"
  cb :: "circuitBreaker option"
  inflight :: int

definition attestationValid :: "time \<Rightarrow> Enclave \<Rightarrow> bool" where
  "attestationValid now e =
     (case attestation e of None \<Rightarrow> True | Some snapshot \<Rightarrow> now < expiresAt snapshot)"

definition attestationRefreshDue :: "time \<Rightarrow> duration \<Rightarrow> Enclave \<Rightarrow> bool" where
  "attestationRefreshDue now refreshInterval e =
     (case attestation e of
        None \<Rightarrow> False
      | Some snapshot \<Rightarrow>
          \<not> now + max attestationRenewalWindow refreshInterval < expiresAt snapshot
          \<or> \<not> now + min refreshInterval attestationRefreshInterval
                < verifiedAt snapshot + attestationRefreshInterval)"

definition breakerClosed :: "Enclave \<Rightarrow> bool" where
  "breakerClosed e = (case cb e of None \<Rightarrow> True | Some b \<Rightarrow> Closed b)"

text \<open>
  The transport of an enclave refuses a request once its snapshot has expired, before the TLS
  transport is used; \<open>send\<close> is that transport.
\<close>

datatype 'r transport_result = AttestationExpired | Sent 'r

definition attested_RoundTrip ::
  "time \<Rightarrow> verifiedAttestation option \<Rightarrow> ('q \<Rightarrow> 'r) \<Rightarrow> 'q \<Rightarrow> 'r transport_result" where
  "attested_RoundTrip now state send req =
     (case state of
        Some snapshot \<Rightarrow> if \<not> now < expiresAt snapshot then AttestationExpired else Sent (send req)
      | None \<Rightarrow> Sent (send req))"

section \<open>The model\<close>

type_synonym hostSet = "string list"
type_synonym poolFilter = "hostSet option"

text \<open>Reading a \<open>map[string]bool\<close>, nil included, and the filter test of the selectors.\<close>

definition host_in :: "poolFilter \<Rightarrow> string \<Rightarrow> bool" where
  "host_in p h = (case p of None \<Rightarrow> False | Some hs \<Rightarrow> h \<in> set hs)"

definition allowed :: "poolFilter \<Rightarrow> string \<Rightarrow> bool" where
  "allowed p h \<longleftrightarrow> p = None \<or> host_in p h"

lemma host_in_simps [simp]: "\<not> host_in None h" "host_in (Some hs) h \<longleftrightarrow> h \<in> set hs"
  by (simp_all add: host_in_def)

lemma allowed_simps [simp]: "allowed None h" "allowed (Some hs) h \<longleftrightarrow> h \<in> set hs"
  by (simp_all add: allowed_def)

record verificationAttempt =
  lastAttempt :: time
  lastFailure :: time
  lastError :: string
  failures :: "64 word"

definition zero_attempt :: verificationAttempt where
  "zero_attempt = \<lparr>lastAttempt = 0, lastFailure = 0, lastError = [], failures = 0\<rparr>"

record Model =
  Repo :: string
  Tag :: string
  SourceMeasurement :: "string option"
  Enclaves :: "(string, Enclave) gomap"
  Overload :: policy
  CacheRoute :: "CacheRouteConfig option"
  Reservations :: "ReservationConfig list"
  expectedHosts :: int
  configuredHosts :: "(string, verificationAttempt) gomap"
  reservedByOrg :: "(string, hostSet) gomap"
  sharedHosts :: poolFilter
  reservationOverloads :: "(string, policy) gomap"
  policiesByOrg :: "(string, policy) gomap"
  retiredEnclaves :: "Enclave list"
  nextOid :: nat

section \<open>Reservations\<close>

text \<open>The innermost loop of \<open>applyReservations\<close>, over the hosts of one reservation.\<close>

fun reserve_hosts ::
  "string list \<Rightarrow> policy \<Rightarrow> string list \<Rightarrow> hostSet \<times> hostSet \<times> (string, policy) gomap \<times> bool
     \<Rightarrow> hostSet \<times> hostSet \<times> (string, policy) gomap \<times> bool" where
  "reserve_hosts known over [] acc = acc"
| "reserve_hosts known over (h # hs) (st, reserved, overloads, recognized) =
     (if h \<notin> set known then reserve_hosts known over hs (st, reserved, overloads, recognized)
      else reserve_hosts known over hs
             (List.insert h st, List.insert h reserved, AList.update h over overloads, True))"

type_synonym reserveAcc =
  "(string, hostSet) gomap \<times> hostSet \<times> (string, policy) gomap \<times> (string, policy) gomap"

definition reserve_org ::
  "string list \<Rightarrow> policy \<Rightarrow> ReservationConfig \<Rightarrow> string \<Rightarrow> reserveAcc \<Rightarrow> reserveAcc" where
  "reserve_org known base res orgID acc =
     (if orgID = [] then acc
      else
        (case acc of (byOrg, reserved, overloads, policies) \<Rightarrow>
           (let policy = (if res_Overload res = None then base else res_Overload res);
                st0 = (case map_of byOrg orgID of None \<Rightarrow> [] | Some st \<Rightarrow> st)
            in case reserve_hosts known (res_Overload res) (res_Enclaves res) (st0, reserved, overloads, False) of
                 (st, reserved', overloads', recognized) \<Rightarrow>
                   (if st = [] then (AList.delete orgID byOrg, reserved', overloads', policies)
                    else (AList.update orgID st byOrg, reserved', overloads',
                          if recognized then AList.update orgID policy policies else policies)))))"

definition reserve_step ::
  "string list \<Rightarrow> policy \<Rightarrow> ReservationConfig \<Rightarrow> reserveAcc \<Rightarrow> reserveAcc" where
  "reserve_step known base res acc =
     (if OrgIDs res = [] \<or> res_Enclaves res = [] then acc
      else fold (reserve_org known base res) (OrgIDs res) acc)"

text \<open>A nil \<open>reservedByOrg\<close> behaves as an empty one; both are the empty list.\<close>

definition applyReservations :: "ReservationConfig list \<Rightarrow> string list \<Rightarrow> Model \<Rightarrow> Model" where
  "applyReservations reservations hostnames m =
     (let (byOrg, reserved, overloads, policies) =
            fold (reserve_step hostnames (Overload m)) reservations ([], [], [], []);
          m1 = m\<lparr>Reservations := reservations, reservationOverloads := overloads,
                 policiesByOrg := policies\<rparr>
      in if byOrg = [] then m1\<lparr>reservedByOrg := [], sharedHosts := None\<rparr>
         else m1\<lparr>reservedByOrg := byOrg,
                 sharedHosts := Some (filter (\<lambda>h. h \<notin> set reserved) hostnames)\<rparr>)"

definition overloadForHostLocked :: "Model \<Rightarrow> string \<Rightarrow> policy" where
  "overloadForHostLocked m h =
     (case map_of (reservationOverloads m) h of
        Some (Some p) \<Rightarrow> Some p
      | _ \<Rightarrow> Overload m)"

definition HasReservations :: "Model \<Rightarrow> bool" where
  "HasReservations m \<longleftrightarrow> reservedByOrg m \<noteq> []"

definition ReservationPools :: "string \<Rightarrow> Model \<Rightarrow> poolFilter \<times> poolFilter \<times> policy" where
  "ReservationPools orgID m =
     (if reservedByOrg m = [] then (None, None, Overload m)
      else
        (case (if orgID \<noteq> [] then map_of (reservedByOrg m) orgID else None) of
           Some hosts \<Rightarrow>
             (Some hosts, sharedHosts m,
              case map_of (policiesByOrg m) orgID of None \<Rightarrow> None | Some p \<Rightarrow> p)
         | None \<Rightarrow> (sharedHosts m, None, Overload m)))"

definition spillPoliciesLocked :: "Model \<Rightarrow> string \<Rightarrow> policy list" where
  "spillPoliciesLocked m h =
     (if \<not> host_in (sharedHosts m) h then []
      else filter Enabled (map snd (policiesByOrg m)))"

section \<open>Pool maintenance\<close>

definition setConfiguredHosts :: "string list \<Rightarrow> Model \<Rightarrow> Model" where
  "setConfiguredHosts hostnames m =
     m\<lparr>configuredHosts :=
         fold (\<lambda>h hosts. AList.update h
                 (case map_of (configuredHosts m) h of None \<Rightarrow> zero_attempt | Some a \<Rightarrow> a) hosts)
           hostnames [],
       expectedHosts := int (length hostnames)\<rparr>"

definition updateOverloadConfig :: "time \<Rightarrow> policy \<Rightarrow> policy list \<Rightarrow> Enclave \<Rightarrow> Enclave" where
  "updateOverloadConfig now cfg policies e =
     (case metrics e of
        None \<Rightarrow> e
      | Some mt \<Rightarrow> e\<lparr>metrics := Some (setPolicies now cfg policies mt)\<rparr>)"

text \<open>
  Shutting an enclave down stops its poller, retires its breaker and deletes its gauges. The
  breaker gauge is the one \<open>publishIfActive\<close> would publish; the retired breaker keeps it deleted.
\<close>

definition shutdown :: "Enclave \<Rightarrow> Enclave" where
  "shutdown e =
     e\<lparr>metrics := map_option (\<lambda>mt. (metrics_shutdown mt)\<lparr>overloadedGauge := None,
                                 queueDepthGauge := None, runningGauge := None\<rparr>) (metrics e),
       cb := map_option Retire (cb e)\<rparr>"

definition installEnclaveLocked :: "string \<Rightarrow> Enclave \<Rightarrow> Model \<Rightarrow> Model" where
  "installEnclaveLocked h e m =
     (case map_of (Enclaves m) h of
        Some previous \<Rightarrow>
          (if oid previous \<noteq> oid e
           then m\<lparr>Enclaves := AList.update h e (Enclaves m),
                  retiredEnclaves := shutdown previous # retiredEnclaves m\<rparr>
           else m\<lparr>Enclaves := AList.update h e (Enclaves m)\<rparr>)
      | None \<Rightarrow> m\<lparr>Enclaves := AList.update h e (Enclaves m)\<rparr>)"

definition recordVerification :: "string \<Rightarrow> time \<Rightarrow> string \<Rightarrow> bool \<Rightarrow> Model \<Rightarrow> Model" where
  "recordVerification h attemptedAt stage failed m =
     (case map_of (configuredHosts m) h of
        None \<Rightarrow> m
      | Some attempt \<Rightarrow>
          (let a1 = attempt\<lparr>lastAttempt := attemptedAt, lastError := []\<rparr>;
               a2 = (if failed
                     then a1\<lparr>lastFailure := attemptedAt, lastError := stage, failures := failures attempt + 1\<rparr>
                     else a1)
           in m\<lparr>configuredHosts := AList.update h a2 (configuredHosts m)\<rparr>))"

section \<open>Pool queries\<close>

record Candidate =
  cand_Host :: string
  InFlight :: int

record Pool =
  Candidates :: "Candidate list"
  Size :: int

definition candidate_of :: "Enclave \<Rightarrow> Candidate" where
  "candidate_of e = \<lparr>cand_Host = host e, InFlight = inflight e\<rparr>"

text \<open>
  \<open>es1\<close> and \<open>es2\<close> are the orders in which the two \<open>range\<close> loops visit the enclaves.
\<close>

definition CacheRoutePoolIn ::
  "time \<Rightarrow> Enclave list \<Rightarrow> Enclave list \<Rightarrow> poolFilter \<Rightarrow> Model \<Rightarrow> Pool" where
  "CacheRoutePoolIn now es1 es2 allow m =
     (let size = (case allow of None \<Rightarrow> expectedHosts m | Some hs \<Rightarrow> int (length (remdups hs)));
          closed = filter (\<lambda>e. attestationValid now e \<and> allowed allow (host e) \<and> breakerClosed e) es1;
          every = filter (\<lambda>e. attestationValid now e \<and> allowed allow (host e)) es2
      in \<lparr>Candidates = map candidate_of (if closed = [] then every else closed), Size = size\<rparr>)"

definition HasHealthyEnclave :: "time \<Rightarrow> poolFilter \<Rightarrow> poolFilter \<Rightarrow> Model \<Rightarrow> bool" where
  "HasHealthyEnclave now primary spill m \<longleftrightarrow>
     (\<exists>(h, e) \<in> set (Enclaves m).
        \<not> (primary \<noteq> None \<and> \<not> host_in primary (host e) \<and> \<not> host_in spill (host e))
        \<and> attestationValid now e \<and> breakerClosed e)"

section \<open>The verification report\<close>

record backendVerificationStatus =
  LastSuccess :: "time option"
  bvs_ExpiresAt :: "time option"
  bvs_CodeTag :: string
  LastAttempt :: "time option"
  LastFailure :: "time option"
  LastError :: string
  bvs_failures :: "64 word"

record modelVerificationStatus =
  ObservedAt :: time
  Configured :: nat
  Verified :: nat
  Healthy :: nat
  Expired :: nat
  Unverified :: nat
  EarliestFreshnessExpiresAt :: "time option"
  Hosts :: "(string, backendVerificationStatus) gomap"

definition verificationTimestamp :: "time \<Rightarrow> time option" where
  "verificationTimestamp t = (if is_zero t then None else Some t)"

text \<open>One round of the loop over the configured hosts.\<close>

definition status_step ::
  "time \<Rightarrow> Model \<Rightarrow> string \<times> verificationAttempt \<Rightarrow> modelVerificationStatus \<Rightarrow> modelVerificationStatus" where
  "status_step now m ha status =
     (case ha of (h, attempt) \<Rightarrow>
        (let backend = \<lparr>LastSuccess = None, bvs_ExpiresAt = None, bvs_CodeTag = [],
                        LastAttempt = verificationTimestamp (lastAttempt attempt),
                        LastFailure = verificationTimestamp (lastFailure attempt),
                        LastError = lastError attempt, bvs_failures = failures attempt\<rparr>;
             enclave = map_of (Enclaves m) h;
             verified = (case enclave of None \<Rightarrow> None | Some e \<Rightarrow> attestation e)
         in case verified of
              None \<Rightarrow> status\<lparr>Unverified := Unverified status + 1, Hosts := AList.update h backend (Hosts status)\<rparr>
            | Some v \<Rightarrow>
                (if is_zero (expiresAt v)
                 then status\<lparr>Unverified := Unverified status + 1, Hosts := AList.update h backend (Hosts status)\<rparr>
                 else
                   (let backend' = backend\<lparr>LastSuccess := verificationTimestamp (verifiedAt v),
                                     bvs_ExpiresAt := verificationTimestamp (expiresAt v),
                                     bvs_CodeTag := codeTag v\<rparr>;
                        status' =
                          (if \<not> now < expiresAt v then status\<lparr>Expired := Expired status + 1\<rparr>
                           else
                             (let closed = (case enclave of None \<Rightarrow> True | Some e \<Rightarrow> breakerClosed e)
                              in status\<lparr>Verified := Verified status + 1,
                                   Healthy := (if closed then Healthy status + 1 else Healthy status),
                                   EarliestFreshnessExpiresAt :=
                                     (case EarliestFreshnessExpiresAt status of
                                        None \<Rightarrow> verificationTimestamp (expiresAt v)
                                      | Some t \<Rightarrow> if expiresAt v < t then verificationTimestamp (expiresAt v) else Some t)\<rparr>))
                    in status'\<lparr>Hosts := AList.update h backend' (Hosts status')\<rparr>))))"

definition verificationStatusLocked :: "time \<Rightarrow> Model \<Rightarrow> modelVerificationStatus" where
  "verificationStatusLocked now m =
     fold (status_step now m) (configuredHosts m)
       \<lparr>ObservedAt = now, Configured = length (configuredHosts m), Verified = 0, Healthy = 0, Expired = 0,
        Unverified = 0, EarliestFreshnessExpiresAt = None, Hosts = []\<rparr>"

section \<open>Which hosts are reserved\<close>

text \<open>
  The specification: \<open>reserved_for rs o h\<close> says that some reservation lends host \<open>h\<close> to
  organisation \<open>o\<close>. The loops compute this relation on the configured hosts.
\<close>

definition reserved_for :: "ReservationConfig list \<Rightarrow> string \<Rightarrow> string \<Rightarrow> bool" where
  "reserved_for rs orgID h \<longleftrightarrow>
     orgID \<noteq> [] \<and> (\<exists>res \<in> set rs. orgID \<in> set (OrgIDs res) \<and> h \<in> set (res_Enclaves res))"

definition reserve_inv :: "(string \<times> string) set \<Rightarrow> reserveAcc \<Rightarrow> bool" where
  "reserve_inv R acc \<longleftrightarrow>
     (case acc of (byOrg, reserved, overloads, policies) \<Rightarrow>
        set reserved = Range R
        \<and> (\<forall>orgID. case map_of byOrg orgID of
               None \<Rightarrow> R `` {orgID} = {}
             | Some st \<Rightarrow> st \<noteq> [] \<and> set st = R `` {orgID}))"

lemma reserve_inv_at:
  "reserve_inv R (byOrg, reserved, overloads, policies) \<Longrightarrow>
     case map_of byOrg org of None \<Rightarrow> R `` {org} = {} | Some st \<Rightarrow> st \<noteq> [] \<and> set st = R `` {org}"
  by (simp add: reserve_inv_def)

lemma reserve_hosts_sets:
  "reserve_hosts known over hs (st, reserved, overloads, rec) = (st', reserved', overloads', rec') \<Longrightarrow>
     set st' = set st \<union> set hs \<inter> set known \<and> set reserved' = set reserved \<union> set hs \<inter> set known
     \<and> (rec' \<longleftrightarrow> rec \<or> set hs \<inter> set known \<noteq> {})"
proof (induction hs arbitrary: st reserved overloads rec)
  case (Cons h hs)
  show ?case
  proof (cases "h \<in> set known")
    case True
    with Cons.prems Cons.IH [of "List.insert h st" "List.insert h reserved"] show ?thesis by auto
  next
    case False
    with Cons.prems Cons.IH [of st reserved] show ?thesis by auto
  qed
qed auto

lemma reserve_org_inv:
  assumes "reserve_inv R acc" and "org \<noteq> []"
  shows "reserve_inv (R \<union> {org} \<times> (set (res_Enclaves res) \<inter> set known)) (reserve_org known base res org acc)"
proof -
  obtain byOrg reserved overloads policies where acc: "acc = (byOrg, reserved, overloads, policies)"
    by (cases acc)
  define st0 where "st0 = (case map_of byOrg org of None \<Rightarrow> [] | Some st \<Rightarrow> st)"
  obtain st reserved' overloads' recognized where
    rh: "reserve_hosts known (res_Overload res) (res_Enclaves res) (st0, reserved, overloads, False)
      = (st, reserved', overloads', recognized)"
    by (metis prod_cases4)
  let ?H = "set (res_Enclaves res) \<inter> set known"
  let ?R = "R \<union> {org} \<times> ?H"
  obtain policies' where step: "reserve_org known base res org acc =
      (if st = [] then AList.delete org byOrg else AList.update org st byOrg, reserved', overloads', policies')"
    using assms(2) acc rh by (cases "st = []") (auto simp: reserve_org_def Let_def st0_def)
  have st0: "set st0 = R `` {org}"
    using reserve_inv_at [of R byOrg reserved overloads policies org] assms(1) acc
    by (cases "map_of byOrg org") (simp_all add: st0_def)
  have sets: "set st = R `` {org} \<union> ?H" "set reserved' = Range R \<union> ?H"
    using reserve_hosts_sets [OF rh] st0 assms(1) acc by (auto simp: reserve_inv_def)
  have others: "?R `` {x} = (if x = org then R `` {org} \<union> ?H else R `` {x})" for x by auto
  have "case map_of (if st = [] then AList.delete org byOrg else AList.update org st byOrg) x of
      None \<Rightarrow> ?R `` {x} = {} | Some st \<Rightarrow> st \<noteq> [] \<and> set st = ?R `` {x}" for x
    using reserve_inv_at [of R byOrg reserved overloads policies x] assms(1) acc sets(1)
    by (cases "map_of byOrg x") (auto simp: others)
  then show ?thesis
    unfolding step using sets(2) by (auto simp: reserve_inv_def)
qed

lemma reserve_orgs_inv:
  assumes "reserve_inv R acc"
  shows "reserve_inv (R \<union> (set orgs - {[]}) \<times> (set (res_Enclaves res) \<inter> set known))
    (fold (reserve_org known base res) orgs acc)"
  using assms
proof (induction orgs arbitrary: R acc)
  case (Cons org orgs)
  let ?H = "set (res_Enclaves res) \<inter> set known"
  show ?case
  proof (cases "org = []")
    case True
    then have "set (org # orgs) - {[]} = set orgs - {[]}" by auto
    with True Cons show ?thesis by (simp add: reserve_org_def)
  next
    case False
    then have "R \<union> (set (org # orgs) - {[]}) \<times> ?H = (R \<union> {org} \<times> ?H) \<union> (set orgs - {[]}) \<times> ?H"
      by auto
    with Cons.IH [OF reserve_org_inv [OF Cons.prems False]] show ?thesis by simp
  qed
qed simp

lemma reserve_step_inv:
  assumes "reserve_inv R acc"
  shows "reserve_inv (R \<union> {(org, h). reserved_for [res] org h \<and> h \<in> set known}) (reserve_step known base res acc)"
proof -
  have "{(org, h). reserved_for [res] org h \<and> h \<in> set known}
      = (set (OrgIDs res) - {[]}) \<times> (set (res_Enclaves res) \<inter> set known)"
    by (auto simp: reserved_for_def)
  then show ?thesis
    using assms reserve_orgs_inv [OF assms, of "OrgIDs res" res known base]
    by (auto simp: reserve_step_def)
qed

lemma reserve_fold_inv:
  assumes "reserve_inv R acc"
  shows "reserve_inv (R \<union> {(org, h). reserved_for rs org h \<and> h \<in> set known}) (fold (reserve_step known base) rs acc)"
  using assms
proof (induction rs arbitrary: R acc)
  case Nil
  then show ?case by (simp add: reserved_for_def)
next
  case (Cons res rs)
  have "R \<union> {(org, h). reserved_for (res # rs) org h \<and> h \<in> set known}
      = (R \<union> {(org, h). reserved_for [res] org h \<and> h \<in> set known})
        \<union> {(org, h). reserved_for rs org h \<and> h \<in> set known}"
    by (auto simp: reserved_for_def)
  then show ?case
    using Cons.IH [OF reserve_step_inv [OF Cons.prems]] by simp
qed

text \<open>What the published lookup sets contain after \<open>applyReservations\<close>.\<close>

lemma applyReservations_sets:
  assumes "m' = applyReservations rs hostnames m"
  shows "case map_of (reservedByOrg m') org of
      None \<Rightarrow> \<not> (\<exists>h \<in> set hostnames. reserved_for rs org h)
    | Some st \<Rightarrow> st \<noteq> [] \<and> set st = {h \<in> set hostnames. reserved_for rs org h}"
    and "sharedHosts m' = None \<longleftrightarrow> reservedByOrg m' = []"
    and "sharedHosts m' = Some sh \<Longrightarrow>
      set sh = {h \<in> set hostnames. \<not> (\<exists>org. reserved_for rs org h)}"
proof -
  obtain byOrg reserved overloads policies where
    f: "fold (reserve_step hostnames (Overload m)) rs ([], [], [], []) = (byOrg, reserved, overloads, policies)"
    by (metis prod_cases4)
  have "reserve_inv {} ([], [], [], [])" by (simp add: reserve_inv_def)
  from reserve_fold_inv [OF this, of rs hostnames "Overload m"] f
  have inv: "reserve_inv {(org, h). reserved_for rs org h \<and> h \<in> set hostnames} (byOrg, reserved, overloads, policies)"
    by simp
  have m': "reservedByOrg m' = byOrg"
    "sharedHosts m' = (if byOrg = [] then None else Some (filter (\<lambda>h. h \<notin> set reserved) hostnames))"
    using assms f by (auto simp: applyReservations_def Let_def)
  show "case map_of (reservedByOrg m') org of
      None \<Rightarrow> \<not> (\<exists>h \<in> set hostnames. reserved_for rs org h)
    | Some st \<Rightarrow> st \<noteq> [] \<and> set st = {h \<in> set hostnames. reserved_for rs org h}"
    using reserve_inv_at [OF inv, of org] m'(1) by (cases "map_of byOrg org") auto
  show "sharedHosts m' = None \<longleftrightarrow> reservedByOrg m' = []" using m' by simp
  show "set sh = {h \<in> set hostnames. \<not> (\<exists>org. reserved_for rs org h)}" if "sharedHosts m' = Some sh"
    using that inv m'(2) by (auto simp: reserve_inv_def split: if_splits)
qed

text \<open>The policy table holds, for every organisation, the policy of a reservation that lends it a host.\<close>

definition policies_from :: "policy \<Rightarrow> ReservationConfig list \<Rightarrow> (string, policy) gomap \<Rightarrow> bool" where
  "policies_from base rs policies \<longleftrightarrow>
     (\<forall>org p. map_of policies org = Some p \<longrightarrow>
        (\<exists>res \<in> set rs. org \<in> set (OrgIDs res) \<and> p = reservation_policy base res))"

lemma reserve_org_policies:
  "snd (snd (snd (reserve_org known base res org acc)))
     \<in> {snd (snd (snd acc)), AList.update org (reservation_policy base res) (snd (snd (snd acc)))}"
  by (auto simp: reserve_org_def reservation_policy_def Let_def split: prod.split)

lemma reserve_orgs_policies:
  assumes "\<And>org p. map_of (snd (snd (snd acc))) org = Some p \<Longrightarrow> Q org p"
    and "\<And>org. org \<in> set orgs \<Longrightarrow> Q org (reservation_policy base res)"
    and "map_of (snd (snd (snd (fold (reserve_org known base res) orgs acc)))) org = Some p"
  shows "Q org p"
  using assms
proof (induction orgs arbitrary: acc)
  case (Cons org' orgs)
  have "Q x q" if "map_of (snd (snd (snd (reserve_org known base res org' acc)))) x = Some q" for x q
    using that reserve_org_policies [of known base res org' acc] Cons.prems(1,2)
    by (auto split: if_splits)
  from Cons.IH [OF this] Cons.prems(2,3) show ?case by simp
qed simp

lemma reserve_fold_policies:
  assumes "policies_from base done (snd (snd (snd acc)))"
  shows "policies_from base (done @ rs) (snd (snd (snd (fold (reserve_step known base) rs acc))))"
  using assms
proof (induction rs arbitrary: "done" acc)
  case (Cons res rs)
  have "policies_from base (done @ [res]) (snd (snd (snd (reserve_step known base res acc))))"
  proof (cases "OrgIDs res = [] \<or> res_Enclaves res = []")
    case True
    with Cons.prems show ?thesis by (auto simp: reserve_step_def policies_from_def)
  next
    case False
    let ?Q = "\<lambda>org p. \<exists>r \<in> set (done @ [res]). org \<in> set (OrgIDs r) \<and> p = reservation_policy base r"
    have before: "?Q org p" if "map_of (snd (snd (snd acc))) org = Some p" for org p
      using that Cons.prems by (auto simp: policies_from_def)
    have here: "?Q org (reservation_policy base res)" if "org \<in> set (OrgIDs res)" for org
      using that by auto
    have "?Q org p" if "map_of (snd (snd (snd (fold (reserve_org known base res) (OrgIDs res) acc)))) org = Some p"
      for org p
      using reserve_orgs_policies [of acc ?Q, OF before here that] .
    with False show ?thesis by (simp add: reserve_step_def policies_from_def)
  qed
  from Cons.IH [OF this] show ?case by simp
qed simp

lemma applyReservations_policies:
  "policies_from (Overload m) rs (policiesByOrg (applyReservations rs hostnames m))"
  using reserve_fold_policies [of "Overload m" "[]" "([], [], [], [])" rs hostnames]
  by (auto simp: applyReservations_def policies_from_def Let_def split: prod.splits)

lemma reserve_org_keys:
  assumes "dom (map_of (fst acc)) \<subseteq> dom (map_of (snd (snd (snd acc))))"
  shows "dom (map_of (fst (reserve_org known base res org acc)))
    \<subseteq> dom (map_of (snd (snd (snd (reserve_org known base res org acc)))))"
proof (cases "org = []")
  case True
  with assms show ?thesis by (simp add: reserve_org_def)
next
  case False
  obtain byOrg reserved overloads policies where acc: "acc = (byOrg, reserved, overloads, policies)"
    by (cases acc)
  define st0 where "st0 = (case map_of byOrg org of None \<Rightarrow> [] | Some st \<Rightarrow> st)"
  obtain st reserved' overloads' recognized where
    rh: "reserve_hosts known (res_Overload res) (res_Enclaves res) (st0, reserved, overloads, False)
      = (st, reserved', overloads', recognized)"
    by (metis prod_cases4)
  have "recognized \<or> map_of byOrg org \<noteq> None" if "st \<noteq> []"
    using reserve_hosts_sets [OF rh] that by (auto simp: st0_def split: option.splits)
  with assms acc rh False show ?thesis
    by (auto simp: reserve_org_def Let_def dom_def st0_def split: if_splits)
qed

lemma applyReservations_policy_keys:
  assumes "map_of (reservedByOrg (applyReservations rs hostnames m)) org \<noteq> None"
  shows "map_of (policiesByOrg (applyReservations rs hostnames m)) org \<noteq> None"
proof -
  let ?keys = "\<lambda>acc :: reserveAcc. dom (map_of (fst acc)) \<subseteq> dom (map_of (snd (snd (snd acc))))"
  have orgs: "?keys (fold (reserve_org known base res) orgs acc)" if "?keys acc" for known base res orgs acc
    using that by (induction orgs arbitrary: acc) (simp_all add: reserve_org_keys)
  have "?keys (fold (reserve_step hostnames (Overload m)) rs acc)" if "?keys acc" for acc
    using that by (induction rs arbitrary: acc) (simp_all add: reserve_step_def orgs)
  from this [of "([], [], [], [])"] assms show ?thesis
    by (auto simp: applyReservations_def Let_def split: prod.splits if_splits)
qed

lemma ReservationPools_reserved:
  assumes "map_of (reservedByOrg m) org = Some st" and "org \<noteq> []" and "map_of (policiesByOrg m) org = Some q"
  shows "ReservationPools org m = (Some st, sharedHosts m, q)"
proof -
  have "reservedByOrg m \<noteq> []" using assms(1) by auto
  with assms show ?thesis by (simp add: ReservationPools_def)
qed

section \<open>The verification report as a partition\<close>

definition host_attestation :: "Model \<Rightarrow> string \<Rightarrow> verifiedAttestation option" where
  "host_attestation m h =
     (case map_of (Enclaves m) h of
        None \<Rightarrow> None
      | Some e \<Rightarrow> (case attestation e of None \<Rightarrow> None | Some v \<Rightarrow> if is_zero (expiresAt v) then None else Some v))"

definition live_expiries :: "time \<Rightarrow> Model \<Rightarrow> string list \<Rightarrow> time set" where
  "live_expiries now m hs = {expiresAt v | h v. h \<in> set hs \<and> host_attestation m h = Some v \<and> now < expiresAt v}"

definition min_option :: "time set \<Rightarrow> time option" where
  "min_option T = (if T = {} then None else Some (Min T))"

definition status_inv :: "time \<Rightarrow> Model \<Rightarrow> string list \<Rightarrow> modelVerificationStatus \<Rightarrow> bool" where
  "status_inv now m hs st \<longleftrightarrow>
     Verified st + Expired st + Unverified st = length hs \<and> Healthy st \<le> Verified st
     \<and> Unverified st = length (filter (\<lambda>h. host_attestation m h = None) hs)
     \<and> Expired st = length (filter (\<lambda>h. \<exists>v. host_attestation m h = Some v \<and> expiresAt v \<le> now) hs)
     \<and> EarliestFreshnessExpiresAt st = min_option (live_expiries now m hs)"

lemma finite_live_expiries [simp]: "finite (live_expiries now m hs)"
proof -
  have "live_expiries now m hs \<subseteq> (\<lambda>h. expiresAt (the (host_attestation m h))) ` set hs"
    by (auto simp: live_expiries_def image_iff) force
  then show ?thesis by (rule finite_subset) simp
qed

lemma live_expiries_Cons:
  "live_expiries now m (h # hs) =
     (case host_attestation m h of
        Some v \<Rightarrow> if now < expiresAt v then insert (expiresAt v) (live_expiries now m hs) else live_expiries now m hs
      | None \<Rightarrow> live_expiries now m hs)"
  by (auto simp: live_expiries_def split: option.splits)

lemma min_option_insert:
  "finite T \<Longrightarrow> min_option (insert t T) =
     (case min_option T of None \<Rightarrow> Some t | Some u \<Rightarrow> if t < u then Some t else Some u)"
  by (cases "T = {}")
    (simp_all add: min_option_def min_def not_less del: Min_less_iff Min_gr_iff Min_ge_iff Min_le_iff)

lemma status_step_inv:
  assumes "status_inv now m hs st"
  shows "status_inv now m (h # hs) (status_step now m (h, a) st)"
proof (cases "host_attestation m h")
  case None
  then have "Unverified (status_step now m (h, a) st) = Unverified st + 1
    \<and> Verified (status_step now m (h, a) st) = Verified st \<and> Healthy (status_step now m (h, a) st) = Healthy st
    \<and> Expired (status_step now m (h, a) st) = Expired st
    \<and> EarliestFreshnessExpiresAt (status_step now m (h, a) st) = EarliestFreshnessExpiresAt st"
    by (auto simp: status_step_def host_attestation_def Let_def split: option.splits if_splits)
  with None assms show ?thesis by (simp add: status_inv_def live_expiries_Cons)
next
  case (Some v)
  then obtain e where e: "map_of (Enclaves m) h = Some e" "attestation e = Some v" "\<not> is_zero (expiresAt v)"
    by (auto simp: host_attestation_def split: option.splits if_splits)
  show ?thesis
  proof (cases "now < expiresAt v")
    case True
    with e have "Unverified (status_step now m (h, a) st) = Unverified st
      \<and> Verified (status_step now m (h, a) st) = Verified st + 1
      \<and> Healthy (status_step now m (h, a) st) \<le> Healthy st + 1
      \<and> Expired (status_step now m (h, a) st) = Expired st
      \<and> EarliestFreshnessExpiresAt (status_step now m (h, a) st) =
          (case EarliestFreshnessExpiresAt st of None \<Rightarrow> Some (expiresAt v)
           | Some t \<Rightarrow> if expiresAt v < t then Some (expiresAt v) else Some t)"
      by (simp add: status_step_def Let_def verificationTimestamp_def split: option.splits)
    with Some True assms show ?thesis
      by (simp add: status_inv_def live_expiries_Cons min_option_insert)
  next
    case False
    with e have "Unverified (status_step now m (h, a) st) = Unverified st
      \<and> Verified (status_step now m (h, a) st) = Verified st \<and> Healthy (status_step now m (h, a) st) = Healthy st
      \<and> Expired (status_step now m (h, a) st) = Expired st + 1
      \<and> EarliestFreshnessExpiresAt (status_step now m (h, a) st) = EarliestFreshnessExpiresAt st"
      by (simp add: status_step_def Let_def)
    with Some False assms show ?thesis by (simp add: status_inv_def live_expiries_Cons)
  qed
qed

lemma status_fold_inv:
  assumes "status_inv now m hs st"
  shows "status_inv now m (rev (map fst has) @ hs) (fold (status_step now m) has st)"
  using assms
proof (induction has arbitrary: hs st)
  case (Cons ha has)
  from Cons.IH [OF status_step_inv [OF Cons.prems, of "fst ha" "snd ha"]] show ?case by simp
qed simp

lemma pools_isolate:
  assumes "ReservationPools org (applyReservations rs hostnames m) = (primary, spill, p)"
    and "h \<in> set hostnames"
  shows "allowed primary h \<or> host_in spill h
    \<longleftrightarrow> reserved_for rs org h \<or> \<not> (\<exists>other. reserved_for rs other h)"
proof -
  define m' where "m' = applyReservations rs hostnames m"
  note pools = assms(1) [folded m'_def]
  note sets = applyReservations_sets [OF m'_def]
  show ?thesis
  proof (cases "reservedByOrg m' = []")
    case True
    with sets(1) assms(2) have "\<not> reserved_for rs other h" for other by auto
    moreover from True pools have "primary = None" by (simp add: ReservationPools_def)
    ultimately show ?thesis by simp
  next
    case False
    with sets(2) obtain sh where sh: "sharedHosts m' = Some sh" by blast
    note shared_set = sets(3) [OF sh]
    show ?thesis
    proof (cases "map_of (reservedByOrg m') org")
      case None
      with sets(1) [of org] assms(2) have "\<not> reserved_for rs org h" by auto
      moreover from None False pools sh have "primary = Some sh" "spill = None"
        by (simp_all add: ReservationPools_def split: if_splits)
      ultimately show ?thesis using shared_set assms(2) by simp
    next
      case (Some st)
      with sets(1) [of org] have st: "st \<noteq> []" "set st = {h \<in> set hostnames. reserved_for rs org h}"
        by auto
      then have "org \<noteq> []" by (cases st) (auto simp: reserved_for_def)
      with Some False pools sh have "primary = Some st" "spill = Some sh"
        by (simp_all add: ReservationPools_def)
      then show ?thesis using shared_set st(2) assms(2) by auto
    qed
  qed
qed

section \<open>Properties\<close>

text \<open>
  C14. Reservations isolate: the pools handed to a caller contain a configured host exactly when
  the host is reserved for the caller's organisation or for nobody. A caller without a
  reservation never sees a reserved host, and an organisation with one keeps the shared hosts as
  spill.
\<close>

theorem reservation_isolation:
  assumes "ReservationPools org (applyReservations rs hostnames m) = (primary, spill, p)"
    and "h \<in> set hostnames"
  shows "allowed primary h \<or> host_in spill h
    \<longleftrightarrow> reserved_for rs org h \<or> \<not> (\<exists>other. reserved_for rs other h)"
  using assms by (rule pools_isolate)

definition reservations_example :: "ReservationConfig list" where
  "reservations_example = [\<lparr>OrgIDs = [''a''], res_Enclaves = [''h1'', ''h9''], res_Overload = None\<rparr>]"

definition model_example :: Model where
  "model_example =
     \<lparr>Repo = ''r'', Tag = [], SourceMeasurement = None, Enclaves = [], Overload = None, CacheRoute = None,
      Reservations = [], expectedHosts = 0, configuredHosts = [], reservedByOrg = [], sharedHosts = None,
      reservationOverloads = [], policiesByOrg = [], retiredEnclaves = [], nextOid = 0\<rparr>"

lemmas reserve_eval =
  reservations_example_def model_example_def applyReservations_def reserve_step_def reserve_org_def
  ReservationPools_def reserved_for_def

theorem reservation_isolation_witness:
  "ReservationPools ''b'' (applyReservations reservations_example [''h1'', ''h2''] model_example)
     = (Some [''h2''], None, None)
   \<and> ((allowed (Some [''h2'']) ''h1'' \<or> host_in None ''h1'')
       \<longleftrightarrow> (reserved_for reservations_example ''b'' ''h1''
          \<or> \<not> (\<exists>other. reserved_for reservations_example other ''h1'')))"
proof -
  have pools: "ReservationPools ''b'' (applyReservations reservations_example [''h1'', ''h2''] model_example)
      = (Some [''h2''], None, None)"
    by (simp add: reserve_eval)
  with reservation_isolation [OF pools, of "''h1''"] show ?thesis by simp
qed

text \<open>
  The policy of a caller with a reservation does not depend on the order of the reservations:
  for a configuration that \<open>FromBytes\<close> accepts, the policy handed out is equivalent to the policy
  of every reservation that names the organisation.
\<close>

theorem reservation_policy_unambiguous:
  assumes "FromBytes yaml data = Inr cfg" and "(name, mc) \<in> set cfg" and "Overload m = mc_Overload mc"
    and "ReservationPools org (applyReservations (mc_Reservations mc) (Hostnames mc) m) = (primary, spill, p)"
    and "reserved_for (mc_Reservations mc) org h" and "h \<in> set (Hostnames mc)"
    and "res \<in> set (mc_Reservations mc)" and "org \<in> set (OrgIDs res)"
  shows "normalized p = normalized (reservation_policy (mc_Overload mc) res)"
proof -
  define m' where "m' = applyReservations (mc_Reservations mc) (Hostnames mc) m"
  from applyReservations_sets(1) [OF m'_def, of org] assms(5,6)
  obtain st where st: "map_of (reservedByOrg m') org = Some st" by (cases "map_of (reservedByOrg m') org") auto
  then obtain q where q: "map_of (policiesByOrg m') org = Some q"
    using applyReservations_policy_keys [of "mc_Reservations mc" "Hostnames mc" m org] by (auto simp: m'_def)
  have "org \<noteq> []" using assms(5) by (simp add: reserved_for_def)
  with assms(4) ReservationPools_reserved [OF st _ q] have "p = q" by (simp add: m'_def)
  moreover obtain r where "r \<in> set (mc_Reservations mc)" "org \<in> set (OrgIDs r)" "q = reservation_policy (mc_Overload mc) r"
    using applyReservations_policies [of m "mc_Reservations mc" "Hostnames mc"] q assms(3)
    by (auto simp: policies_from_def m'_def)
  moreover have "org_consistent (mc_Overload mc) (mc_Reservations mc) []"
    using assms(1,2) check_models_None_iff [of cfg] by (auto simp: FromBytes_def split: option.splits)
  ultimately show ?thesis using assms(7,8) by (auto simp: org_consistent_pairwise)
qed

theorem reservation_policy_unambiguous_witness:
  "normalized (snd (snd (ReservationPools ''org''
      (applyReservations (mc_Reservations (snd (hd (config_example [4, 4])))) [''h1''] model_example))))
   = normalized (reservation_policy None (reservation_example 4))"
proof -
  let ?mc = "snd (hd (config_example [4, 4]))"
  obtain pr sp p where pools:
    "ReservationPools ''org'' (applyReservations (mc_Reservations ?mc) (Hostnames ?mc) model_example) = (pr, sp, p)"
    by (metis prod_cases3)
  have "FromBytes (\<lambda>_. Some (config_example [4, 4])) [] = Inr (config_example [4, 4])" by code_simp
  from reservation_policy_unambiguous [OF this, of "''m''" ?mc, OF _ _ pools, of "''h1''" "reservation_example 4"] pools
  show ?thesis
    by (simp add: config_example_def reservation_example_def model_example_def reserved_for_def)
qed

text \<open>
  The refresh schedule leaves no gap: an enclave whose refresh is not due at one tick of the
  worker is still attested at the next tick, for the whole renewal window after it as well, and its
  last verification is then less than an hour old.
\<close>

theorem undue_attestation_covers_next_tick:
  assumes "attestation e = Some v" and "0 < refreshInterval" and "\<not> attestationRefreshDue now refreshInterval e"
    and "tick \<le> now + min refreshInterval attestationRefreshInterval"
  shows "attestationValid tick e \<and> now + attestationRenewalWindow < expiresAt v
    \<and> tick - verifiedAt v < attestationRefreshInterval"
  using assms
  by (auto simp: attestationRefreshDue_def attestationValid_def attestationRenewalWindow_def
      attestationRefreshInterval_def time_simps split: if_splits)

definition attested_example :: Enclave where
  "attested_example =
     \<lparr>oid = 0, host = ''h1'', modelName = ''m'', tlsKeyFP = ''k'', hpkeKey = [], predicate = [],
      attestation = Some \<lparr>expiresAt = 100 * hour, verifiedAt = hour, codeTag = ''v1''\<rparr>,
      metrics = None, cb = Some newCircuitBreaker, inflight = 0\<rparr>"

theorem undue_attestation_covers_next_tick_witness:
  "attestationValid (hour + minute) attested_example \<and> hour + attestationRenewalWindow < 100 * hour
   \<and> hour + minute - hour < attestationRefreshInterval"
  using undue_attestation_covers_next_tick [of attested_example "\<lparr>expiresAt = 100 * hour, verifiedAt = hour, codeTag = ''v1''\<rparr>" minute hour "hour + minute"]
  by (simp add: attested_example_def attestationRefreshDue_def attestationRenewalWindow_def
      attestationRefreshInterval_def time_simps)

text \<open>
  The verification report partitions the configured hosts: every host counts as exactly one of
  verified, expired and unverified, no more hosts are healthy than verified, and the earliest
  expiry reported is the least expiry of the hosts that count as verified.
\<close>

theorem verification_report_partitions:
  assumes "st = verificationStatusLocked now m"
  shows "Verified st + Expired st + Unverified st = Configured st \<and> Healthy st \<le> Verified st
    \<and> Configured st = length (configuredHosts m)
    \<and> Unverified st = length (filter (\<lambda>h. host_attestation m h = None) (map fst (configuredHosts m)))
    \<and> EarliestFreshnessExpiresAt st = min_option (live_expiries now m (map fst (configuredHosts m)))"
proof -
  have "status_inv now m [] \<lparr>ObservedAt = now, Configured = length (configuredHosts m), Verified = 0, Healthy = 0,
      Expired = 0, Unverified = 0, EarliestFreshnessExpiresAt = None, Hosts = []\<rparr>"
    by (simp add: status_inv_def live_expiries_def min_option_def)
  from status_fold_inv [OF this, of "configuredHosts m"]
  have inv: "status_inv now m (rev (map fst (configuredHosts m))) st"
    by (simp add: verificationStatusLocked_def assms)
  have "Configured (fold (status_step now m) has st) = Configured st" for has st
    by (induction has arbitrary: st)
      (auto simp: status_step_def Let_def split: prod.splits option.splits)
  then have conf: "Configured st = length (configuredHosts m)"
    by (simp add: assms verificationStatusLocked_def)
  have "live_expiries now m (rev hs) = live_expiries now m hs" for hs by (simp add: live_expiries_def)
  with inv conf show ?thesis by (simp add: status_inv_def flip: rev_filter)
qed

definition pool_example :: Model where
  "pool_example = (setConfiguredHosts [''h1'', ''h2''] model_example)\<lparr>Enclaves := [(''h1'', attested_example)]\<rparr>"

theorem verification_report_partitions_witness:
  "Verified (verificationStatusLocked hour pool_example) + Expired (verificationStatusLocked hour pool_example)
     + Unverified (verificationStatusLocked hour pool_example) = Configured (verificationStatusLocked hour pool_example)
   \<and> Configured (verificationStatusLocked hour pool_example) = 2"
  using verification_report_partitions [OF refl, of hour pool_example]
  by (simp add: pool_example_def setConfiguredHosts_def model_example_def)

end
