(* ===== verification/Enclave_Manager.thy ===== *)
theory Enclave_Manager
  imports Model_Pool
begin

text \<open>
  The enclave manager of \<open>manager/manager.go\<close> and the key-rotation recovery of
  \<open>manager/rotation.go\<close>: verification and installation of backends, application of a fetched
  configuration, and recovery after a rejected handshake.

  The attestation verifier and the TLS probe are third-party: their answers are arguments. The
  clock is read several times during one operation; \<open>clock\<close> holds those readings. Operations on
  one host are serialised by the source's singleflight group, so each is one step here.
\<close>

section \<open>State\<close>

record Verification =
  FreshnessExpiresAt :: time
  TLSPublicKeyFP :: "string option"
  hasHPKEMaterial :: bool
  HPKEPublicKey :: "string option"
  CodeTag :: string
  CodeMeasurement :: string
  EnclaveMeasurementType :: string

record clock =
  at_check :: time
  at_probe :: time
  at_attempt :: time
  at_verified :: time
  at_policy :: time
  at_end :: time

datatype manager_error =
    ModelNotFound string
  | VerifyFailed
  | NotFresh
  | NoTLSKey
  | NoHPKEKey
  | NotConfigured string
  | NoReplacement string
  | ContextDone
  | ConfigFetch config_error

record EnclaveManager =
  models :: "(string, Model) gomap"
  refreshInterval :: duration
  em_errors :: "manager_error list"
  lastSuccessfulUpdate :: time
  lastAttemptedUpdate :: time

definition Ready :: "EnclaveManager \<Rightarrow> bool" where
  "Ready em \<longleftrightarrow> \<not> is_zero (lastSuccessfulUpdate em)"

definition set_model :: "string \<Rightarrow> Model \<Rightarrow> EnclaveManager \<Rightarrow> EnclaveManager" where
  "set_model name m em = em\<lparr>models := AList.update name m (models em)\<rparr>"

section \<open>Verification and installation\<close>

definition hpke_key_of :: "Verification \<Rightarrow> string option" where
  "hpke_key_of v = (if hasHPKEMaterial v then HPKEPublicKey v else Some [])"

definition new_enclave :: "nat \<Rightarrow> string \<Rightarrow> string \<Rightarrow> string \<Rightarrow> string \<Rightarrow> string \<Rightarrow> verifiedAttestation \<Rightarrow> Enclave" where
  "new_enclave i h name tlsKey hpke pred state =
     \<lparr>oid = i, host = h, modelName = name, tlsKeyFP = tlsKey, hpkeKey = hpke, predicate = pred,
      attestation = Some state, metrics = Some newEnclaveMetrics, cb = Some newCircuitBreaker, inflight = 0\<rparr>"

definition install_fresh ::
  "clock \<Rightarrow> string \<Rightarrow> string \<Rightarrow> string \<Rightarrow> string \<Rightarrow> string \<Rightarrow> verifiedAttestation \<Rightarrow> Model \<Rightarrow> Model" where
  "install_fresh clk name h tlsKey hpke pred state m =
     (let m1 = (installEnclaveLocked h (new_enclave (nextOid m) h name tlsKey hpke pred state) m)
                 \<lparr>nextOid := nextOid m + 1\<rparr>
      in case map_of (Enclaves m1) h of
           None \<Rightarrow> m1
         | Some e \<Rightarrow>
             m1\<lparr>Enclaves := AList.update h
                  (updateOverloadConfig (at_policy clk) (overloadForHostLocked m1 h) (spillPoliciesLocked m1 h) e)
                  (Enclaves m1)\<rparr>)"

text \<open>The part of \<open>refreshEnclave\<close> that runs under the model lock.\<close>

definition install_verified ::
  "clock \<Rightarrow> string \<Rightarrow> string \<Rightarrow> Verification \<Rightarrow> string \<Rightarrow> string \<Rightarrow> Model \<Rightarrow> manager_error option \<times> Model" where
  "install_verified clk name h v tlsKey hpke m =
     (if map_of (configuredHosts m) h = None then (Some (NotConfigured h), m)
      else
        (let m1 = m\<lparr>Tag := CodeTag v, SourceMeasurement := Some (CodeMeasurement v)\<rparr>;
             state = \<lparr>expiresAt = FreshnessExpiresAt v, verifiedAt = at_verified clk, codeTag = CodeTag v\<rparr>
         in case map_of (Enclaves m1) h of
              Some current \<Rightarrow>
                (if tlsKeyFP current = tlsKey \<and> hpkeKey current = hpke
                    \<and> predicate current = EnclaveMeasurementType v \<and> attestation current \<noteq> None
                 then (None, m1\<lparr>Enclaves := AList.update h (current\<lparr>attestation := Some state\<rparr>) (Enclaves m1)\<rparr>)
                 else (None, install_fresh clk name h tlsKey hpke (EnclaveMeasurementType v) state m1))
            | None \<Rightarrow> (None, install_fresh clk name h tlsKey hpke (EnclaveMeasurementType v) state m1)))"

definition refresh_attempt ::
  "clock \<Rightarrow> (string \<Rightarrow> string \<Rightarrow> Verification option) \<Rightarrow> string \<Rightarrow> string \<Rightarrow> Model \<Rightarrow> manager_error option \<times> Model" where
  "refresh_attempt clk verifier name h m =
     (case verifier h (Repo m) of
        None \<Rightarrow> (Some VerifyFailed, m)
      | Some v \<Rightarrow>
          (if is_zero (FreshnessExpiresAt v) \<or> \<not> at_verified clk < FreshnessExpiresAt v then (Some NotFresh, m)
           else
             (case TLSPublicKeyFP v of
                None \<Rightarrow> (Some NoTLSKey, m)
              | Some tlsKey \<Rightarrow>
                  (case hpke_key_of v of
                     None \<Rightarrow> (Some NoHPKEKey, m)
                   | Some hpke \<Rightarrow> install_verified clk name h v tlsKey hpke m))))"

definition refresh_model ::
  "clock \<Rightarrow> (string \<Rightarrow> string \<Rightarrow> Verification option) \<Rightarrow> string \<Rightarrow> string \<Rightarrow> Model \<Rightarrow> manager_error option \<times> Model" where
  "refresh_model clk verifier name h m =
     (case refresh_attempt clk verifier name h m of
        (err, m') \<Rightarrow> (err, recordVerification h (at_attempt clk) ''verify'' (err \<noteq> None) m'))"

definition refreshEnclave ::
  "clock \<Rightarrow> (string \<Rightarrow> string \<Rightarrow> Verification option) \<Rightarrow> string \<Rightarrow> string \<Rightarrow> EnclaveManager
     \<Rightarrow> manager_error option \<times> EnclaveManager" where
  "refreshEnclave clk verifier name h em =
     (case map_of (models em) name of
        None \<Rightarrow> (Some (ModelNotFound name), em)
      | Some m \<Rightarrow> (case refresh_model clk verifier name h m of (err, m') \<Rightarrow> (err, set_model name m' em)))"

text \<open>\<open>probe\<close> answers the TLS probe: the fingerprint of the key the host presents, if it answers.\<close>

definition addEnclave ::
  "clock \<Rightarrow> (string \<Rightarrow> string \<Rightarrow> Verification option) \<Rightarrow> (string \<Rightarrow> string option) \<Rightarrow> string \<Rightarrow> string
     \<Rightarrow> EnclaveManager \<Rightarrow> manager_error option \<times> EnclaveManager" where
  "addEnclave clk verifier probe name h em =
     (case map_of (models em) name of
        None \<Rightarrow> (Some (ModelNotFound name), em)
      | Some m \<Rightarrow>
          (case map_of (Enclaves m) h of
             None \<Rightarrow> refreshEnclave clk verifier name h em
           | Some current \<Rightarrow>
               (if attestationRefreshDue (at_check clk) (refreshInterval em) current
                then refreshEnclave clk verifier name h em
                else
                  (case probe h of
                     None \<Rightarrow> (None, set_model name (recordVerification h (at_probe clk) ''tls_probe'' True m) em)
                   | Some realKey \<Rightarrow>
                       (if tlsKeyFP current = realKey
                           \<and> \<not> attestationRefreshDue (at_probe clk) (refreshInterval em) current
                        then (None, em)
                        else refreshEnclave clk verifier name h em)))))"

section \<open>Applying a configuration\<close>

definition empty_model :: "ModelConfig \<Rightarrow> Model" where
  "empty_model mc =
     \<lparr>Repo = mc_Repo mc, Tag = [], SourceMeasurement = None, Enclaves = [], Overload = mc_Overload mc,
      CacheRoute = mc_CacheRoute mc, Reservations = [], expectedHosts = 0, configuredHosts = [],
      reservedByOrg = [], sharedHosts = None, reservationOverloads = [], policiesByOrg = [],
      retiredEnclaves = [], nextOid = 0\<rparr>"

definition addModel :: "string \<Rightarrow> ModelConfig \<Rightarrow> EnclaveManager \<Rightarrow> EnclaveManager" where
  "addModel name mc em =
     set_model name
       (applyReservations (mc_Reservations mc) (Hostnames mc)
          (setConfiguredHosts (Hostnames mc) (empty_model mc))) em"

definition NewEnclaveManager :: "config_error + Config \<Rightarrow> duration \<Rightarrow> EnclaveManager option" where
  "NewEnclaveManager loaded interval =
     (if interval \<le> 0 then None
      else
        (case loaded of
           Inl _ \<Rightarrow> None
         | Inr cfg \<Rightarrow>
             Some (fold (\<lambda>(name, mc). addModel name mc) cfg
               \<lparr>models = [], refreshInterval = interval, em_errors = [], lastSuccessfulUpdate = 0,
                lastAttemptedUpdate = 0\<rparr>)))"

text \<open>The body of the \<open>Range\<close> callback of \<open>sync\<close> for one model.\<close>

definition sync_model :: "time \<Rightarrow> Config \<Rightarrow> string \<Rightarrow> Model \<Rightarrow> Model" where
  "sync_model now cfg name m =
     (case map_of cfg name of
        None \<Rightarrow>
          (let m1 = applyReservations [] [] (setConfiguredHosts [] m)
           in m1\<lparr>Enclaves := [], retiredEnclaves := map (shutdown \<circ> snd) (Enclaves m1) @ retiredEnclaves m1\<rparr>)
      | Some mc \<Rightarrow>
          (if Repo m \<noteq> mc_Repo mc then m
           else
             (let m1 = (setConfiguredHosts (Hostnames mc) m)
                         \<lparr>Overload := mc_Overload mc, CacheRoute := mc_CacheRoute mc\<rparr>;
                  m2 = applyReservations (mc_Reservations mc) (Hostnames mc) m1;
                  updated = map (\<lambda>(h, e). (h, updateOverloadConfig now (overloadForHostLocked m2 h)
                                                (spillPoliciesLocked m2 h) e)) (Enclaves m2);
                  removed = filter (\<lambda>(h, e). map_of (configuredHosts m2) h = None) updated;
                  kept = filter (\<lambda>(h, e). map_of (configuredHosts m2) h \<noteq> None) updated
              in m2\<lparr>Enclaves := kept,
                    retiredEnclaves := map (shutdown \<circ> snd) removed @ retiredEnclaves m2\<rparr>)))"

definition refresh_host ::
  "(string \<Rightarrow> string \<Rightarrow> clock) \<Rightarrow> (string \<Rightarrow> string \<Rightarrow> Verification option) \<Rightarrow> (string \<Rightarrow> string option) \<Rightarrow> string
     \<Rightarrow> string \<Rightarrow> EnclaveManager \<Rightarrow> EnclaveManager" where
  "refresh_host clk verifier probe name h em =
     (case addEnclave (clk name h) verifier probe name h em of
        (None, em') \<Rightarrow> em'
      | (Some err, em') \<Rightarrow> em'\<lparr>em_errors := em_errors em' @ [err]\<rparr>)"

text \<open>
  The source refreshes the models concurrently, one host after the other within a model; models
  share no state but the error list, so the model takes them in turn.
\<close>

definition refreshEnclaves ::
  "(string \<Rightarrow> string \<Rightarrow> clock) \<Rightarrow> (string \<Rightarrow> string \<Rightarrow> Verification option) \<Rightarrow> (string \<Rightarrow> string option)
     \<Rightarrow> EnclaveManager \<Rightarrow> EnclaveManager" where
  "refreshEnclaves clk verifier probe em =
     fold (\<lambda>(name, h). refresh_host clk verifier probe name h)
       (concat (map (\<lambda>(name, m). map (\<lambda>(h, _). (name, h)) (configuredHosts m)) (models em))) em"

definition sync ::
  "time \<Rightarrow> time \<Rightarrow> time \<Rightarrow> (string \<Rightarrow> string \<Rightarrow> clock) \<Rightarrow> (string \<Rightarrow> string \<Rightarrow> Verification option)
     \<Rightarrow> (string \<Rightarrow> string option) \<Rightarrow> config_error + Config \<Rightarrow> EnclaveManager
     \<Rightarrow> manager_error option \<times> EnclaveManager" where
  "sync t_start t_apply t_end clk verifier probe loaded em =
     (let em1 = em\<lparr>lastAttemptedUpdate := t_start\<rparr>;
          em2 = (case loaded of
                   Inl _ \<Rightarrow> em1
                 | Inr cfg \<Rightarrow> em1\<lparr>models := map (\<lambda>(name, m). (name, sync_model t_apply cfg name m)) (models em1)\<rparr>);
          em3 = refreshEnclaves clk verifier probe em2
      in case loaded of
           Inl e \<Rightarrow> (Some (ConfigFetch e), em3)
         | Inr _ \<Rightarrow> (None, em3\<lparr>lastSuccessfulUpdate := t_end\<rparr>))"

text \<open>One round of the worker loop.\<close>

definition worker_round ::
  "time \<Rightarrow> time \<Rightarrow> time \<Rightarrow> (string \<Rightarrow> string \<Rightarrow> clock) \<Rightarrow> (string \<Rightarrow> string \<Rightarrow> Verification option)
     \<Rightarrow> (string \<Rightarrow> string option) \<Rightarrow> config_error + Config \<Rightarrow> EnclaveManager \<Rightarrow> EnclaveManager" where
  "worker_round t_start t_apply t_end clk verifier probe loaded em =
     (case sync t_start t_apply t_end clk verifier probe loaded (em\<lparr>em_errors := []\<rparr>) of
        (None, em') \<Rightarrow> em'
      | (Some err, em') \<Rightarrow> em'\<lparr>em_errors := em_errors em' @ [err]\<rparr>)"

section \<open>Recovery after a rejected handshake\<close>

text \<open>
  \<open>cancelled\<close> says that the request's context ended before the shared verification did; the
  verification itself still completes.
\<close>

definition recover_verify ::
  "clock \<Rightarrow> (string \<Rightarrow> string \<Rightarrow> Verification option) \<Rightarrow> string \<Rightarrow> string \<Rightarrow> string \<Rightarrow> Model \<Rightarrow> EnclaveManager
     \<Rightarrow> manager_error option \<times> EnclaveManager" where
  "recover_verify clk verifier name h failedKey m em =
     (if map_of (configuredHosts m) h = None then (Some (NotConfigured h), em)
      else if (case map_of (Enclaves m) h of None \<Rightarrow> False | Some current \<Rightarrow> tlsKeyFP current \<noteq> failedKey)
      then (None, em)
      else refreshEnclave clk verifier name h em)"

definition recoverEnclave ::
  "clock \<Rightarrow> (string \<Rightarrow> string \<Rightarrow> Verification option) \<Rightarrow> bool \<Rightarrow> string \<Rightarrow> string \<Rightarrow> string \<Rightarrow> EnclaveManager
     \<Rightarrow> (manager_error + Enclave) \<times> EnclaveManager" where
  "recoverEnclave clk verifier cancelled name h failedKey em =
     (case map_of (models em) name of
        None \<Rightarrow> (Inl (ModelNotFound name), em)
      | Some m \<Rightarrow>
          (case recover_verify clk verifier name h failedKey m em of
             (err, em') \<Rightarrow>
               (if cancelled then (Inl ContextDone, em')
                else
                  (case err of
                     Some e \<Rightarrow> (Inl e, em')
                   | None \<Rightarrow>
                       (case map_of (models em') name of
                          None \<Rightarrow> (Inl (ModelNotFound name), em')
                        | Some m' \<Rightarrow>
                            (case map_of (Enclaves m') h of
                               None \<Rightarrow> (Inl (NoReplacement h), em')
                             | Some current \<Rightarrow>
                                 (if map_of (configuredHosts m') h = None \<or> tlsKeyFP current = failedKey
                                     \<or> \<not> attestationValid (at_end clk) current
                                  then (Inl (NoReplacement h), em') else (Inr current, em'))))))))"

text \<open>
  The transport around an enclave. A first attempt ends with a response or an error; \<open>sent\<close> says
  whether headers went out, \<open>body\<close> describes the request body.
\<close>

datatype transport_error = HandshakeRejected | SnapshotExpired | OtherError

datatype request_body = NoBody | OneShotBody | ReplayableBody bool

definition rotation_RoundTrip ::
  "transport_error + 'r \<Rightarrow> bool \<Rightarrow> request_body \<Rightarrow> (unit \<Rightarrow> manager_error + Enclave) \<Rightarrow> bool
     \<Rightarrow> (Enclave \<Rightarrow> transport_error + 'r) \<Rightarrow> (transport_error + 'r) \<times> nat" where
  "rotation_RoundTrip first sent body refresh ctxErr transport =
     (if first \<noteq> Inl HandshakeRejected \<or> sent \<or> body = OneShotBody then (first, 1)
      else
        (case refresh () of
           Inl _ \<Rightarrow> (first, 1)
         | Inr replacement \<Rightarrow>
             (if ctxErr then (Inl OtherError, 1)
              else if body = ReplayableBody False then (Inl OtherError, 1)
              else (transport replacement, 2))))"

section \<open>The pool invariant\<close>

text \<open>
  What every model of the manager satisfies between operations. \<open>V h repo v\<close> says that the
  attestation verifier may accept the answer \<open>v\<close> for host \<open>h\<close> and source repository \<open>repo\<close>.
  Each pooled enclave is registered under its own host, that host is configured, and its keys and
  expiry come from one accepted verification against the model's repository. The reservation
  tables are those of the stored reservations and the configured hosts.
\<close>

type_synonym trust = "string \<Rightarrow> string \<Rightarrow> Verification \<Rightarrow> bool"

definition verified_by :: "trust \<Rightarrow> string \<Rightarrow> Enclave \<Rightarrow> bool" where
  "verified_by V repo e \<longleftrightarrow>
     (\<exists>v s. V (host e) repo v \<and> TLSPublicKeyFP v = Some (tlsKeyFP e) \<and> hpke_key_of v = Some (hpkeKey e)
        \<and> predicate e = EnclaveMeasurementType v \<and> attestation e = Some s
        \<and> expiresAt s = FreshnessExpiresAt v \<and> verifiedAt s < expiresAt s \<and> codeTag s = CodeTag v)"

definition enclave_ok :: "trust \<Rightarrow> string \<Rightarrow> Model \<Rightarrow> string \<Rightarrow> Enclave \<Rightarrow> bool" where
  "enclave_ok V name m h e \<longleftrightarrow>
     host e = h \<and> modelName e = name \<and> map_of (configuredHosts m) h \<noteq> None \<and> verified_by V (Repo m) e
     \<and> metrics e \<noteq> None \<and> cb e \<noteq> None \<and> oid e < nextOid m"

definition reservations_ok :: "Model \<Rightarrow> bool" where
  "reservations_ok m \<longleftrightarrow>
     (\<exists>hs. set hs = dom (map_of (configuredHosts m)) \<and> applyReservations (Reservations m) hs m = m)"

definition model_inv :: "trust \<Rightarrow> string \<Rightarrow> Model \<Rightarrow> bool" where
  "model_inv V name m \<longleftrightarrow>
     wf_map (Enclaves m) \<and> (\<forall>(h, e) \<in> set (Enclaves m). enclave_ok V name m h e) \<and> reservations_ok m"

text \<open>Updates that keep the invariant.\<close>

text \<open>The fields the reservation tables and the enclave conditions read.\<close>

definition same_frame :: "Model \<Rightarrow> Model \<Rightarrow> bool" where
  "same_frame m m' \<longleftrightarrow>
     Repo m' = Repo m \<and> dom (map_of (configuredHosts m')) = dom (map_of (configuredHosts m))
     \<and> Overload m' = Overload m \<and> Reservations m' = Reservations m \<and> reservedByOrg m' = reservedByOrg m
     \<and> sharedHosts m' = sharedHosts m \<and> reservationOverloads m' = reservationOverloads m
     \<and> policiesByOrg m' = policiesByOrg m \<and> nextOid m \<le> nextOid m'"

lemma same_frame_refl [simp]: "same_frame m m" by (simp add: same_frame_def)

lemma same_frame_trans: "same_frame a b \<Longrightarrow> same_frame b c \<Longrightarrow> same_frame a c"
  by (auto simp: same_frame_def)

lemma applyReservations_fix_iff:
  "applyReservations rs hs m = m \<longleftrightarrow>
     (case fold (reserve_step hs (Overload m)) rs ([], [], [], []) of (byOrg, reserved, overloads, policies) \<Rightarrow>
        Reservations m = rs \<and> reservationOverloads m = overloads \<and> policiesByOrg m = policies
        \<and> reservedByOrg m = byOrg
        \<and> sharedHosts m = (if byOrg = [] then None else Some (filter (\<lambda>h. h \<notin> set reserved) hs)))"
  by (cases m) (auto simp: applyReservations_def split: prod.split)

lemma reservations_ok_frame: "same_frame m m' \<Longrightarrow> reservations_ok m \<Longrightarrow> reservations_ok m'"
  by (auto simp: reservations_ok_def applyReservations_fix_iff same_frame_def split: prod.splits)

lemma applyReservations_idem:
  "applyReservations rs hs (applyReservations rs hs m) = applyReservations rs hs m"
  by (auto simp: applyReservations_def Let_def split: prod.split)

lemma enclave_ok_frame: "same_frame m m' \<Longrightarrow> enclave_ok V name m h e \<Longrightarrow> enclave_ok V name m' h e"
  by (auto simp: enclave_ok_def same_frame_def dom_def set_eq_iff)

lemma model_inv_frame:
  assumes "model_inv V name m" and "same_frame m m'" and "wf_map (Enclaves m')"
    and "\<And>h e. (h, e) \<in> set (Enclaves m') \<Longrightarrow> (h, e) \<in> set (Enclaves m) \<or> enclave_ok V name m' h e"
  shows "model_inv V name m'"
  using assms reservations_ok_frame [OF assms(2)] enclave_ok_frame [OF assms(2)]
  by (fastforce simp: model_inv_def)

lemma recordVerification_fields [simp]:
  "Enclaves (recordVerification h t stage f m) = Enclaves m"
  "retiredEnclaves (recordVerification h t stage f m) = retiredEnclaves m"
  "same_frame m (recordVerification h t stage f m)"
  by (auto simp: recordVerification_def Let_def same_frame_def dom_def split: option.splits)

lemma recordVerification_inv:
  "model_inv V name m \<Longrightarrow> model_inv V name (recordVerification h t stage f m)"
  by (rule model_inv_frame) (auto simp: model_inv_def)

lemma updateOverloadConfig_fields [simp]:
  "oid (updateOverloadConfig now c ps e) = oid e" "host (updateOverloadConfig now c ps e) = host e"
  "modelName (updateOverloadConfig now c ps e) = modelName e"
  "attestation (updateOverloadConfig now c ps e) = attestation e"
  "tlsKeyFP (updateOverloadConfig now c ps e) = tlsKeyFP e" "hpkeKey (updateOverloadConfig now c ps e) = hpkeKey e"
  "predicate (updateOverloadConfig now c ps e) = predicate e" "cb (updateOverloadConfig now c ps e) = cb e"
  "inflight (updateOverloadConfig now c ps e) = inflight e"
  "metrics (updateOverloadConfig now c ps e) = None \<longleftrightarrow> metrics e = None"
  by (auto simp: updateOverloadConfig_def split: option.splits)

lemma enclave_ok_updateOverload [simp]:
  "enclave_ok V name m h (updateOverloadConfig now c ps e) = enclave_ok V name m h e"
  by (simp add: enclave_ok_def verified_by_def)

lemma installEnclaveLocked_Enclaves [simp]:
  "Enclaves (installEnclaveLocked h e m) = AList.update h e (Enclaves m)"
  by (auto simp: installEnclaveLocked_def split: option.splits)

lemma installEnclaveLocked_frame [simp]: "same_frame m (installEnclaveLocked h e m)"
  by (auto simp: installEnclaveLocked_def same_frame_def split: option.splits)

lemma install_fresh_Enclaves:
  "\<exists>c ps. Enclaves (install_fresh clk name h tlsKey hpke pred st m)
     = AList.update h (updateOverloadConfig (at_policy clk) c ps (new_enclave (nextOid m) h name tlsKey hpke pred st)) (Enclaves m)"
  by (auto simp: install_fresh_def Let_def)

lemma install_fresh_frame [simp]:
  "same_frame m (install_fresh clk name h tlsKey hpke pred st m)"
  "nextOid (install_fresh clk name h tlsKey hpke pred st m) = nextOid m + 1"
  using installEnclaveLocked_frame [of m h "new_enclave (nextOid m) h name tlsKey hpke pred st"]
  by (auto simp: install_fresh_def same_frame_def Let_def)

lemma model_inv_update:
  assumes "model_inv V name m" and "same_frame m m'" and "Enclaves m' = AList.update h e (Enclaves m)"
    and "enclave_ok V name m' h e"
  shows "model_inv V name m'"
  using assms set_update_subset [of h e "Enclaves m"]
  by (intro model_inv_frame [OF assms(1,2)]) (auto simp: model_inv_def)

lemma model_inv_at:
  "model_inv V name m \<Longrightarrow> map_of (Enclaves m) h = Some e \<Longrightarrow> enclave_ok V name m h e"
  by (auto simp: model_inv_def dest: map_of_SomeD)

lemma install_verified_inv:
  assumes inv: "model_inv V name m" and V: "V h (Repo m) v" "TLSPublicKeyFP v = Some tlsKey" "hpke_key_of v = Some hpke"
    and fresh: "at_verified clk < FreshnessExpiresAt v"
  shows "model_inv V name (snd (install_verified clk name h v tlsKey hpke m))"
proof (cases "map_of (configuredHosts m) h")
  case None
  with inv show ?thesis by (simp add: install_verified_def)
next
  case (Some a)
  let ?m1 = "m\<lparr>Tag := CodeTag v, SourceMeasurement := Some (CodeMeasurement v)\<rparr>"
  let ?state = "\<lparr>expiresAt = FreshnessExpiresAt v, verifiedAt = at_verified clk, codeTag = CodeTag v\<rparr>"
  let ?new = "install_fresh clk name h tlsKey hpke (EnclaveMeasurementType v) ?state ?m1"
  have frame: "same_frame m ?m1" by (simp add: same_frame_def)
  have inv1: "model_inv V name ?m1" using inv by (intro model_inv_frame [OF inv frame]) (auto simp: model_inv_def)
  have installed: "model_inv V name ?new"
  proof -
    obtain c ps where upd: "Enclaves ?new = AList.update h (updateOverloadConfig (at_policy clk) c ps
        (new_enclave (nextOid ?m1) h name tlsKey hpke (EnclaveMeasurementType v) ?state)) (Enclaves ?m1)"
      using install_fresh_Enclaves by blast
    have "dom (map_of (configuredHosts ?new)) = dom (map_of (configuredHosts m))" "Repo ?new = Repo m"
      using install_fresh_frame(1) [of ?m1 clk name h tlsKey hpke "EnclaveMeasurementType v" ?state]
      by (simp_all add: same_frame_def)
    with Some V fresh have "enclave_ok V name ?new h (updateOverloadConfig (at_policy clk) c ps
        (new_enclave (nextOid ?m1) h name tlsKey hpke (EnclaveMeasurementType v) ?state))"
      by (auto simp: enclave_ok_def verified_by_def new_enclave_def)
    from model_inv_update [OF inv1 install_fresh_frame(1) upd this] show ?thesis .
  qed
  show ?thesis
  proof (cases "map_of (Enclaves m) h")
    case None
    with Some installed show ?thesis by (simp add: install_verified_def Let_def)
  next
    case cur: (Some current)
    let ?renewed = "?m1\<lparr>Enclaves := AList.update h (current\<lparr>attestation := Some ?state\<rparr>) (Enclaves ?m1)\<rparr>"
    have "enclave_ok V name m h current" using model_inv_at [OF inv cur] .
    then have "enclave_ok V name ?renewed h (current\<lparr>attestation := Some ?state\<rparr>)"
      if "tlsKeyFP current = tlsKey" "hpkeKey current = hpke" "predicate current = EnclaveMeasurementType v"
      using that V fresh by (auto simp: enclave_ok_def verified_by_def)
    then have "model_inv V name ?renewed"
      if "tlsKeyFP current = tlsKey" "hpkeKey current = hpke" "predicate current = EnclaveMeasurementType v"
      using that by (intro model_inv_update [OF inv1]) (simp_all add: same_frame_def)
    with Some cur installed show ?thesis by (simp add: install_verified_def Let_def)
  qed
qed

lemma fold_update_dom:
  "dom (map_of (fold (\<lambda>h m. AList.update h (f h) m) hs m)) = set hs \<union> dom (map_of m)"
  by (induction hs arbitrary: m) (auto simp: dom_def)

lemma setConfiguredHosts_dom [simp]:
  "dom (map_of (configuredHosts (setConfiguredHosts hs m))) = set hs"
  by (simp add: setConfiguredHosts_def fold_update_dom)

lemma setConfiguredHosts_fields [simp]:
  "Enclaves (setConfiguredHosts hs m) = Enclaves m" "Repo (setConfiguredHosts hs m) = Repo m"
  "nextOid (setConfiguredHosts hs m) = nextOid m" "retiredEnclaves (setConfiguredHosts hs m) = retiredEnclaves m"
  "Overload (setConfiguredHosts hs m) = Overload m"
  by (simp_all add: setConfiguredHosts_def)

lemma applyReservations_fields [simp]:
  "Enclaves (applyReservations rs hs m) = Enclaves m" "Repo (applyReservations rs hs m) = Repo m"
  "nextOid (applyReservations rs hs m) = nextOid m" "retiredEnclaves (applyReservations rs hs m) = retiredEnclaves m"
  "configuredHosts (applyReservations rs hs m) = configuredHosts m" "Overload (applyReservations rs hs m) = Overload m"
  "Reservations (applyReservations rs hs m) = rs"
  by (auto simp: applyReservations_def Let_def split: prod.split)

lemma applyReservations_ok:
  "set hs = dom (map_of (configuredHosts m)) \<Longrightarrow> reservations_ok (applyReservations rs hs m)"
  unfolding reservations_ok_def by (intro exI [of _ hs]) (simp add: applyReservations_idem)

lemma sync_model_inv:
  assumes "model_inv V name m"
  shows "model_inv V name (sync_model now cfg name m)"
proof (cases "map_of cfg name")
  case None
  have ok: "reservations_ok (applyReservations [] [] (setConfiguredHosts [] m))"
    by (rule applyReservations_ok) (subst setConfiguredHosts_dom, simp)
  let ?m = "applyReservations [] [] (setConfiguredHosts [] m)"
  have "same_frame ?m (?m\<lparr>Enclaves := [], retiredEnclaves := rs\<rparr>)" for rs by (simp add: same_frame_def)
  from reservations_ok_frame [OF this ok] None show ?thesis
    by (simp add: sync_model_def Let_def model_inv_def)
next
  case (Some mc)
  show ?thesis
  proof (cases "Repo m = mc_Repo mc")
    case False
    with Some assms show ?thesis by (simp add: sync_model_def)
  next
    case True
    define m1 where "m1 = (setConfiguredHosts (Hostnames mc) m)\<lparr>Overload := mc_Overload mc, CacheRoute := mc_CacheRoute mc\<rparr>"
    define m2 where "m2 = applyReservations (mc_Reservations mc) (Hostnames mc) m1"
    define updated where "updated = map (\<lambda>(h, e). (h, updateOverloadConfig now (overloadForHostLocked m2 h)
      (spillPoliciesLocked m2 h) e)) (Enclaves m2)"
    define m3 where "m3 = m2\<lparr>Enclaves := filter (\<lambda>(h, e). map_of (configuredHosts m2) h \<noteq> None) updated,
      retiredEnclaves := map (shutdown \<circ> snd) (filter (\<lambda>(h, e). map_of (configuredHosts m2) h = None) updated)
        @ retiredEnclaves m2\<rparr>"
    have m3: "sync_model now cfg name m = m3"
      using Some True by (simp add: sync_model_def Let_def m1_def m2_def m3_def updated_def)
    have "dom (map_of (configuredHosts m1)) = set (Hostnames mc)"
      using setConfiguredHosts_dom [of "Hostnames mc" m] by (simp add: m1_def)
    then have "reservations_ok m2" unfolding m2_def by (intro applyReservations_ok) simp
    moreover have "same_frame m2 m3" by (simp add: m3_def same_frame_def)
    ultimately have "reservations_ok m3" by (rule reservations_ok_frame [rotated])
    moreover have "wf_map (Enclaves m3)"
      using assms by (auto simp: m3_def m2_def m1_def updated_def model_inv_def)
    moreover have "enclave_ok V name m3 h e" if "(h, e) \<in> set (Enclaves m3)" for h e
    proof -
      from that obtain e0 where "(h, e0) \<in> set (Enclaves m)"
        "e = updateOverloadConfig now (overloadForHostLocked m2 h) (spillPoliciesLocked m2 h) e0"
        and conf: "map_of (configuredHosts m2) h \<noteq> None"
        by (auto simp: m3_def m2_def m1_def updated_def)
      moreover from this(1) assms have "enclave_ok V name m h e0" by (auto simp: model_inv_def)
      moreover have "Repo m3 = Repo m" "nextOid m3 = nextOid m" "configuredHosts m3 = configuredHosts m2"
        by (simp_all add: m3_def m2_def m1_def)
      ultimately show ?thesis by (auto simp: enclave_ok_def verified_by_def)
    qed
    ultimately show ?thesis unfolding m3 by (auto simp: model_inv_def)
  qed
qed

section \<open>Invariants of the manager's operations\<close>

text \<open>The verifier of a step answers only what \<open>V\<close> allows.\<close>

definition trusts :: "trust \<Rightarrow> (string \<Rightarrow> string \<Rightarrow> Verification option) \<Rightarrow> bool" where
  "trusts V verifier \<longleftrightarrow> (\<forall>h repo v. verifier h repo = Some v \<longrightarrow> V h repo v)"

text \<open>
  The contract of a per-model invariant: the three ways the manager changes a model keep it. Every
  operation of the manager then keeps it for all models.
\<close>

definition all_models :: "(string \<Rightarrow> Model \<Rightarrow> bool) \<Rightarrow> EnclaveManager \<Rightarrow> bool" where
  "all_models I em \<longleftrightarrow> (\<forall>name m. map_of (models em) name = Some m \<longrightarrow> I name m)"

lemma all_models_set:
  "all_models I em \<Longrightarrow> I name m \<Longrightarrow> all_models I (set_model name m em)"
  by (simp add: all_models_def set_model_def)

lemma all_models_fields [simp]:
  "all_models I (em\<lparr>em_errors := es\<rparr>) = all_models I em"
  "all_models I (em\<lparr>lastSuccessfulUpdate := t\<rparr>) = all_models I em"
  "all_models I (em\<lparr>lastAttemptedUpdate := t\<rparr>) = all_models I em"
  by (simp_all add: all_models_def)

locale pool_invariant =
  fixes V :: trust and I :: "string \<Rightarrow> Model \<Rightarrow> bool"
  assumes recorded: "I name m \<Longrightarrow> I name (recordVerification h t stage failed m)"
    and install: "I name m \<Longrightarrow> V h (Repo m) v \<Longrightarrow> TLSPublicKeyFP v = Some tlsKey \<Longrightarrow> hpke_key_of v = Some hpke
      \<Longrightarrow> at_verified clk < FreshnessExpiresAt v \<Longrightarrow> I name (snd (install_verified clk name h v tlsKey hpke m))"
    and configure: "I name m \<Longrightarrow> I name (sync_model now cfg name m)"
begin

lemma refresh_model:
  assumes "I name m" and "trusts V verifier"
  shows "I name (snd (refresh_model clk verifier name h m))"
proof -
  have "I name (snd (refresh_attempt clk verifier name h m))"
    using assms by (auto simp: refresh_attempt_def trusts_def intro: install split: option.splits)
  then show ?thesis
    by (auto simp: refresh_model_def intro: recorded split: prod.splits)
qed

lemma refreshEnclave:
  assumes "all_models I em" and "trusts V verifier"
  shows "all_models I (snd (refreshEnclave clk verifier name h em))"
proof (cases "map_of (models em) name")
  case None
  with assms show ?thesis by (simp add: refreshEnclave_def)
next
  case (Some m)
  with assms(1) have "I name m" by (simp add: all_models_def)
  from all_models_set [OF assms(1) refresh_model [OF this assms(2), of clk h]] Some show ?thesis
    by (cases "refresh_model clk verifier name h m") (simp add: refreshEnclave_def)
qed

lemma addEnclave:
  assumes "all_models I em" and "trusts V verifier"
  shows "all_models I (snd (addEnclave clk verifier probe name h em))"
proof (cases "map_of (models em) name")
  case None
  with assms show ?thesis by (simp add: addEnclave_def)
next
  case (Some m)
  with assms(1) have "I name m" by (simp add: all_models_def)
  with assms Some show ?thesis
    by (auto simp: addEnclave_def intro: refreshEnclave all_models_set recorded split: option.splits)
qed

lemma refresh_host:
  assumes "all_models I em" and "trusts V verifier"
  shows "all_models I (refresh_host clk verifier probe name h em)"
  using addEnclave [OF assms, of "clk name h" probe name h]
  by (cases "addEnclave (clk name h) verifier probe name h em")
    (auto simp: refresh_host_def split: option.splits)

lemma refreshEnclaves:
  assumes "all_models I em" and "trusts V verifier"
  shows "all_models I (refreshEnclaves clk verifier probe em)"
proof -
  have "all_models I (fold (\<lambda>(name, h). refresh_host clk verifier probe name h) nhs em)"
    if "all_models I em" for nhs em
    using that by (induction nhs arbitrary: em) (auto intro: refresh_host assms(2))
  with assms(1) show ?thesis by (simp add: refreshEnclaves_def)
qed

lemma sync_all:
  assumes "all_models I em" and "trusts V verifier"
  shows "all_models I (snd (sync t_start t_apply t_end clk verifier probe loaded em))"
proof -
  have "all_models I ((em\<lparr>lastAttemptedUpdate := t_start\<rparr>)
      \<lparr>models := map (\<lambda>(name, m). (name, sync_model t cfg name m)) (models em)\<rparr>)" for t cfg
    using assms(1) by (auto simp: all_models_def map_of_map_values intro: configure)
  with assms show ?thesis
    by (auto simp: sync_def Let_def intro: refreshEnclaves split: sum.splits)
qed

lemma worker_round:
  assumes "all_models I em" and "trusts V verifier"
  shows "all_models I (worker_round t_start t_apply t_end clk verifier probe loaded em)"
proof -
  have "all_models I (em\<lparr>em_errors := []\<rparr>)" using assms(1) by simp
  from sync_all [OF this assms(2), of t_start t_apply t_end clk probe loaded] show ?thesis
    by (cases "sync t_start t_apply t_end clk verifier probe loaded (em\<lparr>em_errors := []\<rparr>)")
      (auto simp: worker_round_def split: option.splits)
qed

lemma recoverEnclave:
  assumes "all_models I em" and "trusts V verifier"
  shows "all_models I (snd (recoverEnclave clk verifier cancelled name h failedKey em))"
proof (cases "map_of (models em) name")
  case None
  with assms show ?thesis by (simp add: recoverEnclave_def)
next
  case (Some m)
  obtain err em' where rv: "recover_verify clk verifier name h failedKey m em = (err, em')" by fastforce
  have "all_models I em'"
    using rv assms refreshEnclave [OF assms, of clk name h]
    by (auto simp: recover_verify_def split: if_splits)
  with Some rv show ?thesis
    by (auto simp: recoverEnclave_def split: option.splits)
qed

end

interpretation verified_pool: pool_invariant V "model_inv V" for V
  by unfold_locales (auto intro: recordVerification_inv install_verified_inv sync_model_inv)

definition new_model :: "ModelConfig \<Rightarrow> Model" where
  "new_model mc =
     applyReservations (mc_Reservations mc) (Hostnames mc) (setConfiguredHosts (Hostnames mc) (empty_model mc))"

lemma new_model_inv: "model_inv V name (new_model mc)"
proof -
  have "reservations_ok (new_model mc)"
    unfolding new_model_def by (rule applyReservations_ok) (subst setConfiguredHosts_dom, rule refl)
  then show ?thesis by (simp add: model_inv_def new_model_def empty_model_def)
qed

lemma NewEnclaveManager_models:
  assumes "NewEnclaveManager (Inr cfg) interval = Some em" and "\<And>name mc. (name, mc) \<in> set cfg \<Longrightarrow> I name (new_model mc)"
  shows "all_models I em"
proof -
  have added: "all_models I (addModel name mc em0)" if "all_models I em0" "(name, mc) \<in> set cfg" for name mc em0
    using all_models_set [OF that(1) assms(2) [OF that(2)]] by (simp add: addModel_def new_model_def)
  have "all_models I (fold (\<lambda>(name, mc). addModel name mc) cs em0)"
    if "all_models I em0" "set cs \<subseteq> set cfg" for cs em0
    using that by (induction cs arbitrary: em0) (auto simp: added)
  moreover have "all_models I \<lparr>models = [], refreshInterval = i, em_errors = [], lastSuccessfulUpdate = 0, lastAttemptedUpdate = 0\<rparr>" for i
    by (simp add: all_models_def)
  ultimately show ?thesis
    using assms(1) by (auto simp: NewEnclaveManager_def split: if_splits)
qed

end
