(* ===== verification/Routing_Tiers.thy ===== *)
theory Routing_Tiers
  imports Enclave_Manager
begin

text \<open>
  Backend selection (\<open>manager/routing_tiers.go\<close>): tiers by load, pools by reservation, affinity by
  host order, recovery probes and the last resort. \<open>enum\<close> gives the order in which the pass over
  the first and the second pool visits the enclaves of the Go map, and \<open>rnd\<close> stands for
  \<open>rand.IntN\<close>; every theorem holds for all admissible choices of both.
\<close>

section \<open>Selection\<close>

type_synonym enumeration = "nat \<Rightarrow> Enclave list"

definition enumerates :: "enumeration \<Rightarrow> Model \<Rightarrow> bool" where
  "enumerates enum m \<longleftrightarrow> (\<forall>i. mset (enum i) = mset (map snd (Enclaves m)))"

definition picks :: "(nat \<Rightarrow> nat) \<Rightarrow> bool" where
  "picks rnd \<longleftrightarrow> (\<forall>n > 0. rnd n < n)"

text \<open>The loop body of the classification pass: where one enclave goes.\<close>

datatype placement = Skip | ProbeSlot | Slot routingTier rat

definition classify :: "time \<Rightarrow> policy \<Rightarrow> string \<Rightarrow> poolFilter \<Rightarrow> Enclave \<Rightarrow> placement" where
  "classify now policy excludedHost allow e =
     (if (excludedHost \<noteq> [] \<and> host e = excludedHost) \<or> (allow \<noteq> None \<and> \<not> host_in allow (host e))
         \<or> \<not> attestationValid now e
      then Skip
      else if \<not> breakerClosed e then (if excludedHost \<noteq> [] then Skip else ProbeSlot)
      else
        (let (t, w) = (case metrics e of None \<Rightarrow> (tierUnknown, 0) | Some mt \<Rightarrow> tier now policy mt)
         in if excludedHost \<noteq> [] \<and> t = tierUnknown then Skip else Slot t w))"

text \<open>The pools in order: the primary one, then the spill pool if it has a host.\<close>

definition pool_list :: "poolFilter \<Rightarrow> poolFilter \<Rightarrow> poolFilter list" where
  "pool_list primary spill =
     primary # (case spill of None \<Rightarrow> [] | Some hs \<Rightarrow> if hs = [] then [] else [spill])"

definition slot_of :: "placement \<Rightarrow> routingTier option" where
  "slot_of p = (case p of Slot t _ \<Rightarrow> Some t | _ \<Rightarrow> None)"

text \<open>The buckets of the two-dimensional array and the probe lists, read off the classification.\<close>

definition bucket ::
  "time \<Rightarrow> policy \<Rightarrow> string \<Rightarrow> poolFilter list \<Rightarrow> enumeration \<Rightarrow> routingTier \<Rightarrow> nat \<Rightarrow> Enclave list" where
  "bucket now policy excluded pools enum t i =
     (if i < length pools
      then filter (\<lambda>e. slot_of (classify now policy excluded (pools ! i) e) = Some t) (enum i) else [])"

definition probe_list ::
  "time \<Rightarrow> policy \<Rightarrow> string \<Rightarrow> poolFilter list \<Rightarrow> enumeration \<Rightarrow> nat \<Rightarrow> Enclave list" where
  "probe_list now policy excluded pools enum i =
     (if i < length pools
      then filter (\<lambda>e. classify now policy excluded (pools ! i) e = ProbeSlot) (enum i) else [])"

definition pickTierLocked :: "(nat \<Rightarrow> nat) \<Rightarrow> string list \<Rightarrow> Enclave list \<Rightarrow> Model \<Rightarrow> Enclave" where
  "pickTierLocked rnd order candidates m =
     (let fallback = candidates ! rnd (length candidates);
          least = first_min inflight fallback candidates
      in case find (\<lambda>h. \<exists>e \<in> set candidates. host e = h) order of
           None \<Rightarrow> fallback
         | Some h \<Rightarrow>
             (case find (\<lambda>e. host e = h) candidates of
                None \<Rightarrow> fallback
              | Some e \<Rightarrow>
                  (case CacheRoute m of
                     None \<Rightarrow> e
                   | Some cr \<Rightarrow>
                       (case crc_MaxInflightDelta cr of
                          None \<Rightarrow> e
                        | Some cap \<Rightarrow> if 0 \<le> cap \<and> cap < inflight e - inflight least then least else e))))"

text \<open>\<open>claimProbe\<close> of an enclave, and the loop over a probe list up to the first granted claim.\<close>

definition claimProbe :: "time \<Rightarrow> Enclave \<Rightarrow> (ProbeClaim \<times> Enclave) option" where
  "claimProbe now e =
     (case cb e of
        None \<Rightarrow> None
      | Some b \<Rightarrow>
          (case ClaimProbe now b of
             (None, _) \<Rightarrow> None
           | (Some tok, b') \<Rightarrow>
               Some (\<lparr>token = tok, claim_modelName = modelName e, claim_host = host e\<rparr>, e\<lparr>cb := Some b'\<rparr>)))"

fun first_claim :: "time \<Rightarrow> Enclave list \<Rightarrow> (ProbeClaim \<times> Enclave) option" where
  "first_claim now [] = None"
| "first_claim now (e # es) = (case claimProbe now e of Some r \<Rightarrow> Some r | None \<Rightarrow> first_claim now es)"

record selection =
  sel_enclave :: "Enclave option"
  sel_claim :: "ProbeClaim option"
  sel_overloaded :: bool
  sel_retryAfter :: duration
  sel_waiting :: rat
  sel_failOpen :: bool

definition no_selection :: selection where
  "no_selection =
     \<lparr>sel_enclave = None, sel_claim = None, sel_overloaded = False, sel_retryAfter = 0, sel_waiting = 0,
      sel_failOpen = False\<rparr>"

definition all_tiers :: "routingTier list" where
  "all_tiers = [tierPreferred, tierBusy, tierUnknown, tierOverloaded]"

definition tier_pools :: "(routingTier \<times> nat) list" where
  "tier_pools = concat (map (\<lambda>t. [(t, 0), (t, 1)]) all_tiers)"

text \<open>
  The weight a candidate had in the last classification pass that set it: the \<open>waiting\<close> map is
  shared by both passes, and the load of an enclave does not depend on the pool.
\<close>

definition load_of :: "time \<Rightarrow> policy \<Rightarrow> Enclave \<Rightarrow> rat" where
  "load_of now policy e = (case metrics e of None \<Rightarrow> 0 | Some mt \<Rightarrow> snd (tier now policy mt))"

fun scan_tiers ::
  "time \<Rightarrow> (nat \<Rightarrow> nat) \<Rightarrow> string list \<Rightarrow> bool \<Rightarrow> policy \<Rightarrow> (routingTier \<Rightarrow> nat \<Rightarrow> Enclave list)
     \<Rightarrow> (nat \<Rightarrow> Enclave list) \<Rightarrow> Model \<Rightarrow> (routingTier \<times> nat) list \<Rightarrow> selection option" where
  "scan_tiers now rnd order claimProbes policy buckets probes m [] = None"
| "scan_tiers now rnd order claimProbes policy buckets probes m ((t, i) # rest) =
     (case (if t = tierPreferred \<and> claimProbes then first_claim now (probes i) else None) of
        Some (claim, e) \<Rightarrow> Some (no_selection\<lparr>sel_enclave := Some e, sel_claim := Some claim\<rparr>)
      | None \<Rightarrow>
          (if buckets t i = [] then scan_tiers now rnd order claimProbes policy buckets probes m rest
           else
             (let e = pickTierLocked rnd order (buckets t i) m
              in if t = tierOverloaded
                 then Some (no_selection\<lparr>sel_enclave := Some e, sel_overloaded := True,
                              sel_retryAfter := RetryAfter policy, sel_waiting := load_of now policy e\<rparr>)
                 else Some (no_selection\<lparr>sel_enclave := Some e, sel_waiting := load_of now policy e,
                              sel_failOpen := (t = tierUnknown)\<rparr>))))"

definition selectServingLocked ::
  "time \<Rightarrow> enumeration \<Rightarrow> (nat \<Rightarrow> nat) \<Rightarrow> string list \<Rightarrow> bool \<Rightarrow> poolFilter \<Rightarrow> poolFilter \<Rightarrow> policy \<Rightarrow> string
     \<Rightarrow> Model \<Rightarrow> selection" where
  "selectServingLocked now enum rnd order claimProbes primary spill policy excludedHost m =
     (let pools = pool_list primary spill;
          buckets = bucket now policy excludedHost pools enum;
          probes = probe_list now policy excludedHost pools enum
      in case scan_tiers now rnd order claimProbes policy buckets probes m tier_pools of
           Some s \<Rightarrow> s
         | None \<Rightarrow>
             (case probes 0 @ probes 1 of
                [] \<Rightarrow> no_selection
              | e # _ \<Rightarrow> no_selection\<lparr>sel_enclave := Some e\<rparr>))"

text \<open>
  The selected enclave carries the effect of a granted claim on its breaker; storing it back with
  one more request in flight is the effect of \<open>SelectServing\<close> on the model.
\<close>

definition store_enclave :: "Enclave \<Rightarrow> Model \<Rightarrow> Model" where
  "store_enclave e m = m\<lparr>Enclaves := AList.update (host e) e (Enclaves m)\<rparr>"

definition SelectServing ::
  "time \<Rightarrow> enumeration \<Rightarrow> (nat \<Rightarrow> nat) \<Rightarrow> string list \<Rightarrow> bool \<Rightarrow> poolFilter \<Rightarrow> poolFilter \<Rightarrow> policy \<Rightarrow> Model
     \<Rightarrow> selection \<times> Model" where
  "SelectServing now enum rnd order claimProbes primary spill policy m =
     (let s = selectServingLocked now enum rnd order claimProbes primary spill policy [] m
      in case sel_enclave s of
           None \<Rightarrow> (s, m)
         | Some e \<Rightarrow>
             (let e' = e\<lparr>inflight := inflight e + 1\<rparr>
              in (s\<lparr>sel_enclave := Some e'\<rparr>, store_enclave e' m)))"

definition SelectRetry ::
  "time \<Rightarrow> enumeration \<Rightarrow> (nat \<Rightarrow> nat) \<Rightarrow> string \<Rightarrow> string list \<Rightarrow> poolFilter \<Rightarrow> poolFilter \<Rightarrow> policy \<Rightarrow> Model
     \<Rightarrow> Enclave option \<times> Model" where
  "SelectRetry now enum rnd failedHost order primary spill policy m =
     (let s = selectServingLocked now enum rnd order False primary spill policy failedHost m
      in case sel_enclave s of
           None \<Rightarrow> (None, m)
         | Some e \<Rightarrow>
             (if sel_overloaded s then (None, m)
              else (let e' = e\<lparr>inflight := inflight e + 1\<rparr> in (Some e', store_enclave e' m))))"

text \<open>
  \<open>ReleaseDispatch\<close> acts on the object the request was selected for, in the pool or already
  retired from it.
\<close>

definition release :: "nat \<Rightarrow> Enclave \<Rightarrow> Enclave" where
  "release i e = (if oid e = i then e\<lparr>inflight := inflight e - 1\<rparr> else e)"

definition ReleaseDispatch :: "nat \<Rightarrow> Model \<Rightarrow> Model" where
  "ReleaseDispatch i m =
     m\<lparr>Enclaves := map (\<lambda>(h, e). (h, release i e)) (Enclaves m),
       retiredEnclaves := map (release i) (retiredEnclaves m)\<rparr>"

section \<open>Lemmas on the scan\<close>

lemma find_Some_in: "find P xs = Some x \<Longrightarrow> x \<in> set xs \<and> P x"
  by (induction xs) (auto split: if_splits)

lemma pickTierLocked_mem:
  assumes "picks rnd" and "candidates \<noteq> []"
  shows "pickTierLocked rnd order candidates m \<in> set candidates"
proof -
  have fallback: "candidates ! rnd (length candidates) \<in> set candidates"
    using assms by (simp add: picks_def)
  then have "first_min inflight (candidates ! rnd (length candidates)) candidates \<in> set candidates"
    using first_min_mem [of inflight _ candidates] by (metis insert_absorb)
  with fallback show ?thesis
    by (auto simp: pickTierLocked_def Let_def split: option.splits dest: find_Some_in)
qed

text \<open>A claim is granted on an open breaker whose cooldown has passed; only the breaker changes.\<close>

lemma claimProbe_Some:
  assumes "claimProbe now e = Some (claim, e')"
  shows "\<exists>b. cb e = Some b \<and> cb_state b = cbOpen \<and> cbCooldown \<le> time_sub now (lastFailureNano b)
    \<and> e' = e\<lparr>cb := Some (b\<lparr>cb_state := cbHalfOpen, probeGen := probeGen b + 1\<rparr>)\<rparr>
    \<and> token claim = probeGen b + 1 \<and> claim_host claim = host e \<and> claim_modelName claim = modelName e"
  using assms by (auto simp: claimProbe_def ClaimProbe_def split: option.splits if_splits prod.splits)

lemma first_claim_Some:
  "first_claim now es = Some (claim, e') \<Longrightarrow> \<exists>e \<in> set es. claimProbe now e = Some (claim, e')"
  by (induction es) (auto split: option.splits)

lemma first_claim_None: "first_claim now es = None \<longleftrightarrow> (\<forall>e \<in> set es. claimProbe now e = None)"
  by (induction es) (auto split: option.splits)

text \<open>The two ways the scan succeeds, and what failure means.\<close>

lemma scan_tiers_claim:
  assumes "scan_tiers now rnd order c p buckets probes m tps = Some s" and "sel_claim s = Some claim"
  shows "\<exists>pre i post e e'. tps = pre @ (tierPreferred, i) # post \<and> c \<and> e \<in> set (probes i)
    \<and> claimProbe now e = Some (claim, e') \<and> sel_enclave s = Some e' \<and> \<not> sel_overloaded s
    \<and> (\<forall>(t, j) \<in> set pre. buckets t j = [])"
  using assms
proof (induction tps)
  case (Cons tp tps)
  obtain t i where tp: "tp = (t, i)" by (cases tp)
  show ?case
  proof (cases "if t = tierPreferred \<and> c then first_claim now (probes i) else None")
    case None
    with Cons.prems tp have "buckets t i = []" and "scan_tiers now rnd order c p buckets probes m tps = Some s"
      by (auto simp: no_selection_def Let_def split: if_splits)
    with Cons.IH Cons.prems(2) obtain pre j post e e' where "tps = pre @ (tierPreferred, j) # post" "c"
      "e \<in> set (probes j)" "claimProbe now e = Some (claim, e')" "sel_enclave s = Some e'"
      "\<not> sel_overloaded s" "\<forall>(t, j) \<in> set pre. buckets t j = []" by blast
    with tp \<open>buckets t i = []\<close> show ?thesis by (intro exI [of _ "tp # pre"]) auto
  next
    case (Some r)
    obtain claim' e' where r: "r = (claim', e')" by (cases r)
    with Some Cons.prems tp have s: "claim' = claim" "sel_enclave s = Some e'" "\<not> sel_overloaded s"
      by (auto simp: no_selection_def)
    from Some r have "t = tierPreferred" "c" "first_claim now (probes i) = Some (claim', e')"
      by (auto split: if_splits)
    with s tp first_claim_Some [of now "probes i" claim' e'] show ?thesis
      by (intro exI [of _ "[]"]) auto
  qed
qed simp

lemma scan_tiers_pick:
  assumes "scan_tiers now rnd order c p buckets probes m tps = Some s" and "sel_claim s = None"
  shows "\<exists>pre t i post. tps = pre @ (t, i) # post \<and> buckets t i \<noteq> []
    \<and> sel_enclave s = Some (pickTierLocked rnd order (buckets t i) m)
    \<and> (sel_overloaded s \<longleftrightarrow> t = tierOverloaded) \<and> (sel_failOpen s \<longleftrightarrow> t = tierUnknown)
    \<and> sel_retryAfter s = (if t = tierOverloaded then RetryAfter p else 0)
    \<and> (\<forall>(t', j) \<in> set pre. buckets t' j = [])"
  using assms
proof (induction tps)
  case (Cons tp tps)
  obtain t i where tp: "tp = (t, i)" by (cases tp)
  have none: "(if t = tierPreferred \<and> c then first_claim now (probes i) else None) = None"
    using Cons.prems tp by (auto simp: no_selection_def split: option.splits if_splits)
  show ?case
  proof (cases "buckets t i = []")
    case True
    with none Cons.prems tp have "scan_tiers now rnd order c p buckets probes m tps = Some s" by simp
    from Cons.IH [OF this Cons.prems(2)] obtain pre u j post where
      "tps = pre @ (u, j) # post" and rest: "buckets u j \<noteq> []
       \<and> sel_enclave s = Some (pickTierLocked rnd order (buckets u j) m)
       \<and> (sel_overloaded s \<longleftrightarrow> u = tierOverloaded) \<and> (sel_failOpen s \<longleftrightarrow> u = tierUnknown)
       \<and> sel_retryAfter s = (if u = tierOverloaded then RetryAfter p else 0)"
      "\<forall>(t', j) \<in> set pre. buckets t' j = []" by blast
    with True tp show ?thesis by (intro exI [of _ "tp # pre"] exI [of _ u] exI [of _ j] exI [of _ post]) simp
  next
    case False
    with none Cons.prems tp show ?thesis
      by (intro exI [of _ "[]"] exI [of _ t] exI [of _ i] exI [of _ tps])
        (auto simp: no_selection_def Let_def split: if_splits)
  qed
qed simp

lemma scan_tiers_None:
  assumes "scan_tiers now rnd order c p buckets probes m tps = None" and "(t, i) \<in> set tps"
  shows "buckets t i = [] \<and> (t = tierPreferred \<and> c \<longrightarrow> (\<forall>e \<in> set (probes i). claimProbe now e = None))"
  using assms
proof (induction tps)
  case (Cons tp tps)
  obtain u j where tp: "tp = (u, j)" by (cases tp)
  with Cons.prems(1) have head: "(if u = tierPreferred \<and> c then first_claim now (probes j) else None) = None"
      "buckets u j = []" and "scan_tiers now rnd order c p buckets probes m tps = None"
    by (auto simp: Let_def split: option.splits if_splits prod.splits)
  with Cons tp show ?case by (auto simp: first_claim_None split: if_splits)
qed simp

section \<open>The rank of a placement\<close>

fun tier_rank :: "routingTier \<Rightarrow> nat" where
  "tier_rank tierPreferred = 0"
| "tier_rank tierBusy = 1"
| "tier_rank tierUnknown = 2"
| "tier_rank tierOverloaded = 3"

text \<open>Tier first, then pool.\<close>

definition rank :: "routingTier \<Rightarrow> nat \<Rightarrow> nat" where
  "rank t i = 2 * tier_rank t + i"

lemma tier_pools_mem: "(t, i) \<in> set tier_pools \<longleftrightarrow> i < 2"
  by (cases t) (auto simp: tier_pools_def all_tiers_def)

lemma tier_pools_sorted: "sorted_wrt (\<lambda>(t, i) (u, j). rank t i < rank u j) tier_pools"
  by (simp add: tier_pools_def all_tiers_def rank_def)

lemma tier_pools_prefix:
  assumes "tier_pools = pre @ (t, i) # post" and "j < 2" and "rank u j < rank t i"
  shows "(u, j) \<in> set pre"
proof -
  have "(u, j) \<in> set (pre @ (t, i) # post)" using assms(1,2) tier_pools_mem by metis
  moreover have "\<forall>(v, k) \<in> set post. rank t i < rank v k"
    using tier_pools_sorted unfolding assms(1) by (auto simp: sorted_wrt_append)
  ultimately show ?thesis using assms(3) by auto
qed

section \<open>What a selection satisfies\<close>

lemma pool_list_length: "i < length (pool_list primary spill) \<Longrightarrow> i < 2"
  by (auto simp: pool_list_def split: option.splits if_splits)

lemma enumerates_set: "enumerates enum m \<Longrightarrow> set (enum i) = snd ` set (Enclaves m)"
  by (metis enumerates_def image_set set_mset_mset)

lemma bucket_mem:
  "e \<in> set (bucket now p x pools enum t i) \<longleftrightarrow>
     i < length pools \<and> e \<in> set (enum i) \<and> (\<exists>w. classify now p x (pools ! i) e = Slot t w)"
  by (auto simp: bucket_def slot_of_def split: placement.splits)

lemma probe_list_mem:
  "e \<in> set (probe_list now p x pools enum i) \<longleftrightarrow>
     i < length pools \<and> e \<in> set (enum i) \<and> classify now p x (pools ! i) e = ProbeSlot"
  by (auto simp: probe_list_def)

text \<open>Every outcome of the selector, with the placement that justifies it.\<close>

lemma selectServingLocked_cases:
  assumes "picks rnd" and "enumerates enum m"
    and "s = selectServingLocked now enum rnd order c primary spill p x m"
  obtains
    (empty) "sel_enclave s = None" "sel_claim s = None"
      "\<And>e i. e \<in> snd ` set (Enclaves m) \<Longrightarrow> i < length (pool_list primary spill)
         \<Longrightarrow> classify now p x (pool_list primary spill ! i) e = Skip"
  | (lastResort) e i where "sel_enclave s = Some e" "sel_claim s = None" "\<not> sel_overloaded s"
      "e \<in> snd ` set (Enclaves m)" "i < length (pool_list primary spill)"
      "classify now p x (pool_list primary spill ! i) e = ProbeSlot"
      "\<And>e i t w. e \<in> snd ` set (Enclaves m) \<Longrightarrow> i < length (pool_list primary spill)
         \<Longrightarrow> classify now p x (pool_list primary spill ! i) e \<noteq> Slot t w"
  | (probe) e e' claim i where "sel_enclave s = Some e'" "sel_claim s = Some claim" "\<not> sel_overloaded s" "c"
      "e \<in> snd ` set (Enclaves m)" "i < length (pool_list primary spill)"
      "classify now p x (pool_list primary spill ! i) e = ProbeSlot" "claimProbe now e = Some (claim, e')"
      "\<And>e j w. e \<in> snd ` set (Enclaves m) \<Longrightarrow> j < i
         \<Longrightarrow> classify now p x (pool_list primary spill ! j) e \<noteq> Slot tierPreferred w"
  | (ranked) e t w i where "sel_enclave s = Some e" "sel_claim s = None"
      "e = pickTierLocked rnd order (bucket now p x (pool_list primary spill) enum t i) m"
      "bucket now p x (pool_list primary spill) enum t i \<noteq> []"
      "sel_overloaded s \<longleftrightarrow> t = tierOverloaded" "sel_failOpen s \<longleftrightarrow> t = tierUnknown"
      "sel_retryAfter s = (if t = tierOverloaded then RetryAfter p else 0)"
      "e \<in> snd ` set (Enclaves m)" "i < length (pool_list primary spill)"
      "classify now p x (pool_list primary spill ! i) e = Slot t w"
      "\<And>e u j v. e \<in> snd ` set (Enclaves m) \<Longrightarrow> j < length (pool_list primary spill)
         \<Longrightarrow> classify now p x (pool_list primary spill ! j) e = Slot u v \<Longrightarrow> rank t i \<le> rank u j"
proof -
  let ?pools = "pool_list primary spill"
  let ?b = "bucket now p x ?pools enum" and ?q = "probe_list now p x ?pools enum"
  note members = enumerates_set [OF assms(2)]
  show thesis
  proof (cases "scan_tiers now rnd order c p ?b ?q m tier_pools")
    case None
    have noslot: "classify now p x (?pools ! i) e \<noteq> Slot t w"
      if "e \<in> snd ` set (Enclaves m)" "i < length ?pools" for e i t w
      using scan_tiers_None [OF None, of t i] tier_pools_mem [of t i] pool_list_length [OF that(2)]
        bucket_mem [of e now p x ?pools enum t i] that members by auto
    show thesis
    proof (cases "?q 0 @ ?q 1")
      case Nil
      then have "classify now p x (?pools ! i) e \<noteq> ProbeSlot"
        if "e \<in> snd ` set (Enclaves m)" "i < length ?pools" for e i
        using that members probe_list_mem [of e now p x ?pools enum i] pool_list_length [OF that(2)]
        by (auto simp: less_2_cases_iff)
      with noslot have "classify now p x (?pools ! i) e = Skip"
        if "e \<in> snd ` set (Enclaves m)" "i < length ?pools" for e i
        using that by (cases "classify now p x (?pools ! i) e") auto
      moreover from None Nil have "s = no_selection" by (simp add: assms(3) selectServingLocked_def)
      ultimately show thesis by (intro empty) (simp_all add: no_selection_def)
    next
      case (Cons e es)
      then have "e \<in> set (?q 0) \<or> e \<in> set (?q 1)" by (metis UnE list.set_intros(1) set_append)
      then obtain i where "e \<in> snd ` set (Enclaves m)" "i < length ?pools" "classify now p x (?pools ! i) e = ProbeSlot"
        using members by (auto simp: probe_list_mem)
      moreover from None Cons have "s = no_selection\<lparr>sel_enclave := Some e\<rparr>"
        by (simp add: assms(3) selectServingLocked_def)
      ultimately show thesis using noslot by (intro lastResort) (simp_all add: no_selection_def)
    qed
  next
    case (Some s')
    then have s: "scan_tiers now rnd order c p ?b ?q m tier_pools = Some s"
      by (simp add: assms(3) selectServingLocked_def)
    show thesis
    proof (cases "sel_claim s")
      case (Some claim)
      from scan_tiers_claim [OF s Some] obtain pre i post e e' where
        split: "tier_pools = pre @ (tierPreferred, i) # post" and inq: "e \<in> set (?q i)" and claim: "c"
        "claimProbe now e = Some (claim, e')" "sel_enclave s = Some e'" "\<not> sel_overloaded s"
        and before: "\<forall>(t, j) \<in> set pre. ?b t j = []" by blast
      have i: "i < length ?pools" using inq by (simp add: probe_list_mem)
      have earlier: "classify now p x (?pools ! j) d \<noteq> Slot tierPreferred w"
        if "d \<in> snd ` set (Enclaves m)" "j < i" for d j w
      proof -
        have "(tierPreferred, j) \<in> set pre"
          using that(2) i pool_list_length by (intro tier_pools_prefix [OF split]) (fastforce simp: rank_def)+
        with before have "?b tierPreferred j = []" by auto
        with that i members bucket_mem [of d now p x ?pools enum tierPreferred j] show ?thesis by auto
      qed
      have mem: "e \<in> snd ` set (Enclaves m)" "classify now p x (?pools ! i) e = ProbeSlot"
        using inq members by (simp_all add: probe_list_mem)
      from probe [OF claim(3) Some claim(4,1) mem(1) i mem(2) claim(2) earlier] show thesis .
    next
      case None
      from scan_tiers_pick [OF s None] obtain pre t i post where
        split: "tier_pools = pre @ (t, i) # post" and ne: "?b t i \<noteq> []"
        and res: "sel_enclave s = Some (pickTierLocked rnd order (?b t i) m)"
        "sel_overloaded s \<longleftrightarrow> t = tierOverloaded" "sel_failOpen s \<longleftrightarrow> t = tierUnknown"
        "sel_retryAfter s = (if t = tierOverloaded then RetryAfter p else 0)"
        and before: "\<forall>(t', j) \<in> set pre. ?b t' j = []" by blast
      define e where "e = pickTierLocked rnd order (?b t i) m"
      from pickTierLocked_mem [OF assms(1) ne] have "e \<in> set (?b t i)" by (simp add: e_def)
      then obtain w where slot: "e \<in> snd ` set (Enclaves m)" "i < length ?pools" "classify now p x (?pools ! i) e = Slot t w"
        using members by (auto simp: bucket_mem)
      have least: "rank t i \<le> rank u j"
        if "e \<in> snd ` set (Enclaves m)" "j < length ?pools" "classify now p x (?pools ! j) e = Slot u v" for e u j v
      proof (rule ccontr)
        assume "\<not> rank t i \<le> rank u j"
        then have "(u, j) \<in> set pre" using tier_pools_prefix [OF split pool_list_length [OF that(2)]] by simp
        with before have "?b u j = []" by auto
        moreover have "e \<in> set (?b u j)" using that members bucket_mem by auto
        ultimately show False by simp
      qed
      from ranked [OF res(1) [folded e_def] None e_def ne res(2-4) slot least] show thesis .
    qed
  qed
qed

lemma classify_eligible:
  assumes "classify now p x allow e \<noteq> Skip"
  shows "attestationValid now e \<and> allowed allow (host e) \<and> (x \<noteq> [] \<longrightarrow> host e \<noteq> x)"
  using assms by (auto simp: classify_def allowed_def split: if_splits)

lemma classify_Slot:
  "classify now p x allow e = Slot t w \<Longrightarrow> breakerClosed e \<and> (x \<noteq> [] \<longrightarrow> t \<noteq> tierUnknown)"
  by (auto simp: classify_def Let_def split: if_splits prod.splits)

lemma classify_ProbeSlot:
  "classify now p x allow e = ProbeSlot \<Longrightarrow> \<not> breakerClosed e \<and> x = []"
  by (auto simp: classify_def Let_def split: if_splits prod.splits)

lemma pool_list_allowed:
  assumes "i < length (pool_list primary spill)" and "allowed (pool_list primary spill ! i) h"
  shows "allowed primary h \<or> host_in spill h"
  using assms by (cases i) (auto simp: pool_list_def allowed_def split: option.splits if_splits)

text \<open>Every selected enclave is an enclave of the pool but for its breaker.\<close>

lemma selectServingLocked_sound:
  assumes "picks rnd" and "enumerates enum m"
    and "sel_enclave (selectServingLocked now enum rnd order c primary spill p x m) = Some e"
  shows "\<exists>e0 b. e0 \<in> snd ` set (Enclaves m) \<and> e = e0\<lparr>cb := b\<rparr> \<and> (b = None \<longrightarrow> cb e0 = None) \<and> attestationValid now e0
    \<and> (allowed primary (host e0) \<or> host_in spill (host e0)) \<and> (x \<noteq> [] \<longrightarrow> host e0 \<noteq> x)"
proof -
  let ?s = "selectServingLocked now enum rnd order c primary spill p x m"
  have fin: ?thesis
    if "e0 \<in> snd ` set (Enclaves m)" "e = e0\<lparr>cb := b\<rparr>" "b = None \<longrightarrow> cb e0 = None"
      "i < length (pool_list primary spill)" "classify now p x (pool_list primary spill ! i) e0 \<noteq> Skip" for e0 b i
    using that classify_eligible [OF that(5)] pool_list_allowed [OF that(4)] by blast
  from assms(1,2) refl [of ?s] show ?thesis
  proof (cases rule: selectServingLocked_cases)
    case empty
    with assms(3) show ?thesis by simp
  next
    case (lastResort e0 i)
    with assms(3) show ?thesis by (intro fin [of e0 "cb e0" i]) auto
  next
    case (probe e0 e' claim i)
    from assms(3) probe(1) claimProbe_Some [OF probe(8)] obtain b where "e = e0\<lparr>cb := Some b\<rparr>" by auto
    with probe show ?thesis by (intro fin [of e0 "Some b" i]) auto
  next
    case (ranked e0 t w i)
    with assms(3) show ?thesis by (intro fin [of e0 "cb e0" i]) auto
  qed
qed

section \<open>Properties\<close>

text \<open>
  The three ways a backend is chosen. A recovery probe that is due: it was claimed for this request, and no backend of an
  earlier pool is in the preferred tier. A last resort: its breaker is open and no backend with a closed breaker is
  eligible at all. Or by rank: no eligible backend is in a better tier, and none of the same tier is in an earlier pool.
\<close>

definition probe_due :: "time \<Rightarrow> policy \<Rightarrow> poolFilter list \<Rightarrow> Model \<Rightarrow> ProbeClaim \<Rightarrow> Enclave \<Rightarrow> bool" where
  "probe_due now p pools m claim e \<longleftrightarrow>
     (\<exists>d i. d \<in> snd ` set (Enclaves m) \<and> i < length pools \<and> classify now p [] (pools ! i) d = ProbeSlot \<and> claimProbe now d = Some (claim, e)
        \<and> (\<forall>b \<in> snd ` set (Enclaves m). \<forall>j w. j < i \<longrightarrow> classify now p [] (pools ! j) b \<noteq> Slot tierPreferred w))"

definition last_resort :: "time \<Rightarrow> policy \<Rightarrow> poolFilter list \<Rightarrow> Model \<Rightarrow> Enclave \<Rightarrow> bool" where
  "last_resort now p pools m e \<longleftrightarrow>
     e \<in> snd ` set (Enclaves m) \<and> (\<exists>i < length pools. classify now p [] (pools ! i) e = ProbeSlot)
     \<and> (\<forall>b \<in> snd ` set (Enclaves m). \<forall>i t w. i < length pools \<longrightarrow> classify now p [] (pools ! i) b \<noteq> Slot t w)"

definition best_ranked :: "time \<Rightarrow> policy \<Rightarrow> poolFilter list \<Rightarrow> Model \<Rightarrow> routingTier \<Rightarrow> Enclave \<Rightarrow> bool" where
  "best_ranked now p pools m t e \<longleftrightarrow>
     e \<in> snd ` set (Enclaves m)
     \<and> (\<exists>i w. i < length pools \<and> classify now p [] (pools ! i) e = Slot t w
          \<and> (\<forall>b \<in> snd ` set (Enclaves m). \<forall>j u v. j < length pools \<and> classify now p [] (pools ! j) b = Slot u v \<longrightarrow> rank t i \<le> rank u j))"

text \<open>
  C9. Routing order. A backend chosen with a probe claim is a recovery probe that is due, and comes before the tiers.
  A backend chosen with an open breaker and no claim is the last resort, chosen only when no backend with a closed
  breaker is eligible. Every other choice follows the tiers: no eligible backend is in a better tier, and none of the
  same tier is in an earlier pool. The request is marked overloaded exactly when even the best tier is the overloaded
  one, never for a probe or a last resort, and it then carries the policy's retry delay.
\<close>

theorem serving_follows_tier_order:
  assumes "picks rnd" and "enumerates enum m"
    and "SelectServing now enum rnd order c primary spill p m = (s, m')" and "sel_enclave s = Some e"
  shows "case sel_claim s of
      Some claim \<Rightarrow> \<not> sel_overloaded s \<and> c \<and> probe_due now p (pool_list primary spill) m claim (e\<lparr>inflight := inflight e - 1\<rparr>)
    | None \<Rightarrow>
        if \<not> breakerClosed e then \<not> sel_overloaded s \<and> last_resort now p (pool_list primary spill) m (e\<lparr>inflight := inflight e - 1\<rparr>)
        else \<exists>t. best_ranked now p (pool_list primary spill) m t (e\<lparr>inflight := inflight e - 1\<rparr>)
               \<and> (sel_overloaded s \<longleftrightarrow> t = tierOverloaded) \<and> sel_retryAfter s = (if t = tierOverloaded then RetryAfter p else 0)"
proof -
  define s0 where "s0 = selectServingLocked now enum rnd order c primary spill p [] m"
  obtain e0 where e0: "sel_enclave s0 = Some e0" "e = e0\<lparr>inflight := inflight e0 + 1\<rparr>"
    "s = s0\<lparr>sel_enclave := Some e\<rparr>"
    using assms(3,4) by (auto simp: SelectServing_def s0_def Let_def split: option.splits)
  then have restored: "e\<lparr>inflight := inflight e - 1\<rparr> = e0" by simp
  have closed: "breakerClosed e = breakerClosed e0" using e0(2) by (simp add: breakerClosed_def)
  from assms(1,2) s0_def show ?thesis
  proof (cases rule: selectServingLocked_cases)
    case empty
    with e0 show ?thesis by simp
  next
    case (lastResort e1 i)
    have "e1 = e0" using e0(1) lastResort(1) by simp
    then have "last_resort now p (pool_list primary spill) m e0" using lastResort(4-7) unfolding last_resort_def by blast
    then show ?thesis
      unfolding restored using e0 lastResort(1-3) classify_ProbeSlot [OF lastResort(6)] closed by simp
  next
    case (probe e1 e' claim i)
    have "e' = e0" using e0(1) probe(1) by simp
    then have "probe_due now p (pool_list primary spill) m claim e0" using probe(5-9) unfolding probe_due_def by blast
    then show ?thesis unfolding restored using e0 probe(2-4) by simp
  next
    case (ranked e1 t w i)
    have "e1 = e0" using e0(1) ranked(1) by simp
    then have "best_ranked now p (pool_list primary spill) m t e0" using ranked(8-11) unfolding best_ranked_def by blast
    then show ?thesis
      unfolding restored using e0 ranked(1,2,5,7) classify_Slot [OF ranked(10)] closed by auto
  qed
qed

definition backend_example :: "string \<Rightarrow> nat \<Rightarrow> rat \<Rightarrow> Enclave" where
  "backend_example h i depth =
     attested_example\<lparr>host := h, oid := i, inflight := int i,
       metrics := Some (updateLatest (zero_counts\<lparr>waiting := depth, hasWaiting := True\<rparr>) hour metrics_example)\<rparr>"

definition tier_example :: Model where
  "tier_example =
     model_example\<lparr>Enclaves := [(''h1'', backend_example ''h1'' 0 9), (''h2'', backend_example ''h2'' 1 2),
       (''h3'', backend_example ''h3'' 2 0)]\<rparr>"

definition enum_example :: enumeration where
  "enum_example i = map snd (Enclaves tier_example)"

definition rnd_example :: "nat \<Rightarrow> nat" where
  "rnd_example n = 0"

lemma enum_example: "enumerates enum_example tier_example" and rnd_example: "picks rnd_example"
  by (simp_all add: enumerates_def enum_example_def picks_def rnd_example_def)

definition serve_example :: "selection \<times> Model" where
  "serve_example =
     SelectServing hour enum_example rnd_example [''h1''] True (Some [''h1'', ''h2'']) (Some [''h3'']) (Some overload_example) tier_example"

text \<open>
  The example: \<open>h1\<close> is overloaded although it is the affine host, \<open>h2\<close> is busy and \<open>h3\<close> of the
  spill pool is idle. The idle one is chosen.
\<close>

theorem serving_follows_tier_order_witness:
  "map_option host (sel_enclave (fst serve_example)) = Some ''h3''
   \<and> (\<exists>t. best_ranked hour (Some overload_example) (pool_list (Some [''h1'', ''h2'']) (Some [''h3''])) tier_example t
          (the (sel_enclave (fst serve_example))\<lparr>inflight := inflight (the (sel_enclave (fst serve_example))) - 1\<rparr>)
        \<and> t \<noteq> tierOverloaded)"
proof -
  have host: "map_option host (sel_enclave (fst serve_example)) = Some ''h3''" by code_simp
  then obtain e where e: "sel_enclave (fst serve_example) = Some e" by auto
  have "sel_claim (fst serve_example) = None" by code_simp
  moreover have "breakerClosed (the (sel_enclave (fst serve_example)))" "\<not> sel_overloaded (fst serve_example)" by code_simp+
  ultimately show ?thesis
    using serving_follows_tier_order [OF rnd_example enum_example, of hour "[''h1'']" True
        "Some [''h1'', ''h2'']" "Some [''h3'']" "Some overload_example" "fst serve_example" "snd serve_example" e] e host
    by (auto simp: serve_example_def)
qed

text \<open>
  C28. A retry goes elsewhere: the backend chosen for a retry is not the failed host, its breaker is
  closed, its attestation is unexpired, it is in one of the caller's pools, and its known load is
  preferred or busy, never unknown or overloaded.
\<close>

theorem retry_avoids_failed_and_overloaded:
  assumes "picks rnd" and "enumerates enum m" and "failedHost \<noteq> []"
    and "SelectRetry now enum rnd failedHost order primary spill p m = (Some e, m')"
  shows "host e \<noteq> failedHost \<and> breakerClosed e \<and> attestationValid now e
    \<and> (allowed primary (host e) \<or> host_in spill (host e))
    \<and> (\<exists>mt. metrics e = Some mt \<and> fst (tier now p mt) \<in> {tierPreferred, tierBusy})"
proof -
  define s0 where "s0 = selectServingLocked now enum rnd order False primary spill p failedHost m"
  obtain e0 where e0: "sel_enclave s0 = Some e0" "\<not> sel_overloaded s0" "e = e0\<lparr>inflight := inflight e0 + 1\<rparr>"
    using assms(4) by (auto simp: SelectRetry_def s0_def Let_def split: option.splits if_splits)
  then have same: "host e = host e0" "breakerClosed e = breakerClosed e0" "metrics e = metrics e0"
    "attestationValid now e = attestationValid now e0"
    by (simp_all add: breakerClosed_def attestationValid_def)
  from assms(1,2) s0_def show ?thesis
  proof (cases rule: selectServingLocked_cases)
    case empty
    with e0 show ?thesis by simp
  next
    case (lastResort e1 i)
    with e0 assms(3) classify_ProbeSlot [OF lastResort(6)] show ?thesis by simp
  next
    case (probe e1 e' claim i)
    then show ?thesis by simp
  next
    case (ranked e1 t w i)
    then have e1: "e1 = e0" "t \<noteq> tierOverloaded" using e0 by simp_all
    with classify_Slot [OF ranked(10)] assms(3) have "t \<in> {tierPreferred, tierBusy}"
      by (cases t) auto
    moreover from ranked(10) have "(case metrics e1 of None \<Rightarrow> tierUnknown | Some mt \<Rightarrow> fst (tier now p mt)) = t"
      by (auto simp: classify_def split: if_splits option.splits prod.splits)
    ultimately have "\<exists>mt. metrics e = Some mt \<and> fst (tier now p mt) \<in> {tierPreferred, tierBusy}"
      using same e1 by (auto split: option.splits)
    moreover have "attestationValid now e1 \<and> allowed (pool_list primary spill ! i) (host e1)
        \<and> (failedHost \<noteq> [] \<longrightarrow> host e1 \<noteq> failedHost)"
      using ranked(10) by (intro classify_eligible [of now p]) simp
    ultimately show ?thesis
      using classify_Slot [OF ranked(10)] pool_list_allowed [OF ranked(9), of "host e1"] same e1 assms(3)
      by simp
  qed
qed

definition retry_example :: "Enclave option \<times> Model" where
  "retry_example =
     SelectRetry hour enum_example rnd_example ''h3'' [''h1''] (Some [''h1'', ''h2'']) (Some [''h3'']) (Some overload_example) tier_example"

theorem retry_avoids_failed_and_overloaded_witness:
  "\<exists>e m'. retry_example = (Some e, m') \<and> host e = ''h2'' \<and> host e \<noteq> ''h3'' \<and> breakerClosed e"
proof -
  have h: "map_option host (fst retry_example) = Some ''h2''" by code_simp
  then obtain e m' where r: "retry_example = (Some e, m')"
    by (metis map_option_eq_Some prod.collapse)
  have "host e = ''h2''" using h unfolding r by simp
  with retry_avoids_failed_and_overloaded [OF rnd_example enum_example _ r [unfolded retry_example_def]] r
  show ?thesis by blast
qed

text \<open>
  C39. Availability: the selector returns no backend only if no enclave of the pool is both in one
  of the caller's pools and unexpired. Overload, missing load data and open breakers never make
  it give up.
\<close>

theorem selection_refuses_only_when_empty:
  assumes "picks rnd" and "enumerates enum m"
  shows "sel_enclave (fst (SelectServing now enum rnd order c primary spill p m)) = None
    \<longleftrightarrow> (\<forall>(h, e) \<in> set (Enclaves m). \<not> (attestationValid now e \<and> (allowed primary (host e) \<or> host_in spill (host e))))"
    (is "?L \<longleftrightarrow> ?R")
proof -
  define s0 where "s0 = selectServingLocked now enum rnd order c primary spill p [] m"
  have sel: "?L \<longleftrightarrow> sel_enclave s0 = None"
    by (auto simp: SelectServing_def s0_def Let_def split: option.splits)
  have skip: "classify now p [] allow e = Skip \<longleftrightarrow> \<not> (attestationValid now e \<and> allowed allow (host e))" for allow e
    by (auto simp: classify_def allowed_def Let_def split: if_splits prod.splits)
  have pools: "(\<forall>i < length (pool_list primary spill). \<not> allowed (pool_list primary spill ! i) h)
      \<longleftrightarrow> \<not> (allowed primary h \<or> host_in spill h)" for h
    by (auto simp: pool_list_def nth_Cons less_Suc_eq_0_disj split: option.splits nat.splits if_splits)
  show ?thesis
  proof
    assume ?L
    from assms s0_def show ?R
    proof (cases rule: selectServingLocked_cases)
      case empty
      have "\<not> (attestationValid now e \<and> (allowed primary (host e) \<or> host_in spill (host e)))"
        if "(h, e) \<in> set (Enclaves m)" for h e
        using empty(3) [of e] that pools [of "host e"] by (force simp: skip)
      then show ?thesis by blast
    qed (use \<open>?L\<close> sel in auto)
  next
    assume ?R
    have "sel_enclave s0 \<noteq> Some e" for e
      using selectServingLocked_sound [OF assms, of now order c primary spill p "[]" e] \<open>?R\<close>
      by (fastforce simp: s0_def)
    with sel show ?L by auto
  qed
qed

theorem selection_refuses_only_when_empty_witness:
  "sel_enclave (fst (SelectServing hour enum_example rnd_example [] True (Some [''h9'']) None None tier_example)) = None"
proof -
  have "\<forall>(h, e) \<in> set (Enclaves tier_example).
      \<not> (attestationValid hour e \<and> (allowed (Some [''h9'']) (host e) \<or> host_in None (host e)))"
    by code_simp
  with selection_refuses_only_when_empty [OF rnd_example enum_example] show ?thesis by blast
qed

text \<open>
  A recovery probe is spent only when it is due: a request carries a claim only if the caller
  may probe, the chosen backend's breaker was open for the full cooldown, and no earlier pool
  offered a preferred backend. The claim is recorded on that backend alone; the other backends
  keep their state.
\<close>

theorem probe_only_when_due:
  assumes "picks rnd" and "enumerates enum m"
    and "SelectServing now enum rnd order c primary spill p m = (s, m')" and "sel_claim s = Some claim"
  shows "\<exists>h e b i. c \<and> (h, e) \<in> set (Enclaves m) \<and> cb e = Some b \<and> cb_state b = cbOpen
    \<and> cbCooldown \<le> time_sub now (lastFailureNano b) \<and> token claim = probeGen b + 1 \<and> claim_host claim = host e
    \<and> (\<forall>d \<in> snd ` set (Enclaves m). \<forall>j < i. \<forall>w.
         classify now p [] (pool_list primary spill ! j) d \<noteq> Slot tierPreferred w)
    \<and> classify now p [] (pool_list primary spill ! i) e = ProbeSlot
    \<and> Enclaves m' = AList.update (host e)
        (e\<lparr>cb := Some (b\<lparr>cb_state := cbHalfOpen, probeGen := probeGen b + 1\<rparr>), inflight := inflight e + 1\<rparr>) (Enclaves m)"
proof -
  define s0 where "s0 = selectServingLocked now enum rnd order c primary spill p [] m"
  have claim0: "sel_claim s0 = Some claim"
    using assms(3,4) by (auto simp: SelectServing_def s0_def Let_def split: option.splits)
  from assms(1,2) s0_def show ?thesis
  proof (cases rule: selectServingLocked_cases)
    case (probe e e' claim' i)
    with claim0 have "claimProbe now e = Some (claim, e')" by simp
    from claimProbe_Some [OF this] obtain b where b: "cb e = Some b" "cb_state b = cbOpen"
      "cbCooldown \<le> time_sub now (lastFailureNano b)" "token claim = probeGen b + 1" "claim_host claim = host e"
      "e' = e\<lparr>cb := Some (b\<lparr>cb_state := cbHalfOpen, probeGen := probeGen b + 1\<rparr>)\<rparr>" by blast
    moreover obtain h where "(h, e) \<in> set (Enclaves m)" using probe(5) by auto
    moreover have "Enclaves m' = AList.update (host e) (e'\<lparr>inflight := inflight e + 1\<rparr>) (Enclaves m)"
      using assms(3) probe(1) b(6) by (auto simp: SelectServing_def s0_def Let_def store_enclave_def)
    ultimately show ?thesis using probe(4,7,9) by (intro exI [of _ h] exI [of _ e] exI [of _ b] exI [of _ i]) simp
  qed (use claim0 in auto)
qed

definition open_breaker :: circuitBreaker where
  "open_breaker = newCircuitBreaker\<lparr>cb_state := cbOpen, consecutiveFailures := 3\<rparr>"

definition probe_example :: Model where
  "probe_example = model_example\<lparr>Enclaves := [(''h1'', attested_example\<lparr>cb := Some open_breaker\<rparr>)]\<rparr>"

definition probe_choice :: "selection \<times> Model" where
  "probe_choice =
     SelectServing hour (\<lambda>_. map snd (Enclaves probe_example)) rnd_example [] True None None None probe_example"

theorem probe_only_when_due_witness:
  "\<exists>claim. sel_claim (fst probe_choice) = Some claim \<and> token claim = 1 \<and> claim_host claim = ''h1''
    \<and> (\<exists>h e b. (h, e) \<in> set (Enclaves probe_example) \<and> cb e = Some b \<and> cb_state b = cbOpen)"
proof -
  have c: "map_option (\<lambda>x. (token x, claim_host x)) (sel_claim (fst probe_choice)) = Some (1, ''h1'')" by code_simp
  then obtain claim where claim: "sel_claim (fst probe_choice) = Some claim" by auto
  have "enumerates (\<lambda>_. map snd (Enclaves probe_example)) probe_example" by (simp add: enumerates_def)
  from probe_only_when_due [OF rnd_example this, of hour "[]" True None None None "fst probe_choice" "snd probe_choice" claim]
  have "\<exists>h e b. (h, e) \<in> set (Enclaves probe_example) \<and> cb e = Some b \<and> cb_state b = cbOpen"
    using claim by (auto simp: probe_choice_def)
  with claim c show ?thesis by auto
qed

text \<open>
  Affinity is bounded by load: when the request's host order names a candidate of the chosen
  tier and the model sets an in-flight cap, the chosen backend has at most that many more requests
  in flight than the least loaded candidate. Without a cap the first named candidate is chosen.
\<close>

theorem affinity_bounded_by_load:
  assumes "picks rnd" and "candidates \<noteq> []" and "CacheRoute m = Some cr" and "crc_MaxInflightDelta cr = Some cap"
    and "0 \<le> cap" and "e0 \<in> set candidates" and "host e0 \<in> set order" and "d \<in> set candidates"
  shows "inflight (pickTierLocked rnd order candidates m) \<le> inflight d + cap"
proof -
  define least where "least = first_min inflight (candidates ! rnd (length candidates)) candidates"
  have least: "inflight least \<le> inflight d" unfolding least_def by (rule first_min_le [OF assms(8)])
  have "find (\<lambda>h. \<exists>e \<in> set candidates. host e = h) order \<noteq> None"
    using assms(6,7) by (auto simp: find_None_iff)
  then obtain h where h: "find (\<lambda>h. \<exists>e \<in> set candidates. host e = h) order = Some h" by blast
  then have "find (\<lambda>e. host e = h) candidates \<noteq> None"
    using find_Some_in [OF h] by (auto simp: find_None_iff)
  then obtain e where "find (\<lambda>e. host e = h) candidates = Some e" by blast
  with h assms(3,4) have "pickTierLocked rnd order candidates m
      = (if 0 \<le> cap \<and> cap < inflight e - inflight least then least else e)"
    by (simp add: pickTierLocked_def least_def Let_def)
  with least assms(5) show ?thesis by auto
qed

definition affinity_route :: CacheRouteConfig where
  "affinity_route =
     \<lparr>crc_Mode = ''on'', RetentionWindowMinutes = 0, crc_MinPromptBytes = 0, crc_SplitThresholdRPM = 0,
      crc_MaxInflightDelta = Some 1\<rparr>"

definition affinity_example :: Model where
  "affinity_example = model_example\<lparr>CacheRoute := Some affinity_route\<rparr>"

theorem affinity_bounded_by_load_witness:
  "inflight (pickTierLocked rnd_example [''h3''] (map snd (Enclaves tier_example)) affinity_example)
     \<le> inflight (backend_example ''h1'' 0 9) + 1"
  by (rule affinity_bounded_by_load [OF rnd_example, of _ _ affinity_route 1 "backend_example ''h3'' 2 0"])
    (simp_all add: affinity_example_def affinity_route_def tier_example_def model_example_def
      backend_example_def attested_example_def)

end
