(* ===== verification/Serving.thy ===== *)
theory Serving
  imports Routing_Tiers
begin

text \<open>
  The serving system: the manager and the requests it has dispatched, as a step relation over the
  operations of the other theories. A ticket is one selection that has not been released yet. The
  invariants are about every reachable state, for any interleaving of configuration rounds,
  recoveries, selections, retries, releases, breaker outcomes and metric scrapes.
\<close>

section \<open>Steps\<close>

record system =
  manager :: EnclaveManager
  tickets :: "(string \<times> nat) list"

text \<open>What a dispatched request or the poller does to one enclave.\<close>

datatype backendEvent = BreakerEvent cbCall | MetricsEvent metricsCall

fun backend_event :: "backendEvent \<Rightarrow> Enclave \<Rightarrow> Enclave" where
  "backend_event (BreakerEvent c) e = e\<lparr>cb := map_option (cb_call c) (cb e)\<rparr>"
| "backend_event (MetricsEvent c) e = e\<lparr>metrics := map_option (metrics_call c) (metrics e)\<rparr>"

definition on_object :: "nat \<Rightarrow> (Enclave \<Rightarrow> Enclave) \<Rightarrow> Model \<Rightarrow> Model" where
  "on_object i f m =
     m\<lparr>Enclaves := map (\<lambda>(h, e). (h, if oid e = i then f e else e)) (Enclaves m),
       retiredEnclaves := map (\<lambda>e. if oid e = i then f e else e) (retiredEnclaves m)\<rparr>"

text \<open>
  The grain of the steps. A selection reads the reservations and chooses in one step, and so does a retry; the code
  reads the pools under one lock and chooses under the next, and a retry keeps the pools of the first attempt, so
  a choice from reservations that changed in between is not a run of this relation. A configuration round is one
  step too.
\<close>

inductive serve_step :: "trust \<Rightarrow> system \<Rightarrow> system \<Rightarrow> bool" for V where
  worker: "trusts V verifier
    \<Longrightarrow> serve_step V s (s\<lparr>manager := worker_round t0 t1 t2 clk verifier probe loaded (manager s)\<rparr>)"
| recover: "trusts V verifier
    \<Longrightarrow> serve_step V s (s\<lparr>manager := snd (recoverEnclave ck verifier cancelled name h failedKey (manager s))\<rparr>)"
| select: "picks rnd \<Longrightarrow> map_of (models (manager s)) name = Some m \<Longrightarrow> enumerates enum m
    \<Longrightarrow> ReservationPools org m = (primary, spill, p)
    \<Longrightarrow> SelectServing now enum rnd order c primary spill p m = (sel, m')
    \<Longrightarrow> serve_step V s (s\<lparr>manager := set_model name m' (manager s),
          tickets := (case sel_enclave sel of None \<Rightarrow> tickets s | Some e \<Rightarrow> (name, oid e) # tickets s)\<rparr>)"
| retry: "picks rnd \<Longrightarrow> map_of (models (manager s)) name = Some m \<Longrightarrow> enumerates enum m
    \<Longrightarrow> ReservationPools org m = (primary, spill, p)
    \<Longrightarrow> SelectRetry now enum rnd failedHost order primary spill p m = (r, m')
    \<Longrightarrow> serve_step V s (s\<lparr>manager := set_model name m' (manager s),
          tickets := (case r of None \<Rightarrow> tickets s | Some e \<Rightarrow> (name, oid e) # tickets s)\<rparr>)"
| release: "(name, i) \<in> set (tickets s) \<Longrightarrow> map_of (models (manager s)) name = Some m
    \<Longrightarrow> serve_step V s (s\<lparr>manager := set_model name (ReleaseDispatch i m) (manager s),
          tickets := remove1 (name, i) (tickets s)\<rparr>)"
| backend: "map_of (models (manager s)) name = Some m
    \<Longrightarrow> serve_step V s (s\<lparr>manager := set_model name (on_object i (backend_event ev) m) (manager s)\<rparr>)"

inductive reachable :: "trust \<Rightarrow> Config \<Rightarrow> system \<Rightarrow> bool" for V cfg where
  start: "wf_map cfg \<Longrightarrow> NewEnclaveManager (Inr cfg) interval = Some em
    \<Longrightarrow> reachable V cfg \<lparr>manager = em, tickets = []\<rparr>"
| step: "reachable V cfg s \<Longrightarrow> serve_step V s s' \<Longrightarrow> reachable V cfg s'"

section \<open>Every pooled enclave is verified\<close>

lemma ok_keep:
  assumes "enclave_ok V name m h e" and "host e' = host e" "modelName e' = modelName e" "attestation e' = attestation e"
    "tlsKeyFP e' = tlsKeyFP e" "hpkeKey e' = hpkeKey e" "predicate e' = predicate e" "oid e' = oid e"
    "metrics e' = None \<longleftrightarrow> metrics e = None" "cb e' = None \<longleftrightarrow> cb e = None"
  shows "enclave_ok V name m h e'"
  using assms by (auto simp: enclave_ok_def verified_by_def)

lemma on_object_inv:
  assumes "model_inv V name m"
    and keep: "\<And>e. host (f e) = host e \<and> modelName (f e) = modelName e \<and> attestation (f e) = attestation e
      \<and> tlsKeyFP (f e) = tlsKeyFP e \<and> hpkeKey (f e) = hpkeKey e \<and> predicate (f e) = predicate e \<and> oid (f e) = oid e
      \<and> (metrics (f e) = None \<longleftrightarrow> metrics e = None) \<and> (cb (f e) = None \<longleftrightarrow> cb e = None)"
  shows "model_inv V name (on_object i f m)"
proof -
  have frame: "same_frame m (on_object i f m)" by (simp add: same_frame_def on_object_def)
  have "enclave_ok V name (on_object i f m) h e" if "(h, e) \<in> set (Enclaves (on_object i f m))" for h e
  proof -
    from that obtain e0 where "(h, e0) \<in> set (Enclaves m)" "e = (if oid e0 = i then f e0 else e0)"
      by (auto simp: on_object_def)
    moreover from this(1) assms(1) have ok: "enclave_ok V name m h e0" by (auto simp: model_inv_def)
    ultimately have "enclave_ok V name m h e" using ok_keep [OF ok, of "f e0"] keep [of e0] by simp
    then show ?thesis by (rule enclave_ok_frame [OF frame])
  qed
  moreover have "wf_map (Enclaves (on_object i f m))"
    using assms(1) by (auto simp: on_object_def model_inv_def)
  ultimately show ?thesis using reservations_ok_frame [OF frame] assms(1) by (auto simp: model_inv_def)
qed

lemma ReleaseDispatch_on_object:
  "ReleaseDispatch i m = on_object i (\<lambda>e. e\<lparr>inflight := inflight e - 1\<rparr>) m"
  by (simp add: ReleaseDispatch_def on_object_def release_def cong: map_cong)

lemma store_selected_inv:
  assumes "model_inv V name m" and "e0 \<in> snd ` set (Enclaves m)"
    and "cb e0 \<noteq> None \<Longrightarrow> b \<noteq> None"
  shows "model_inv V name (store_enclave (e0\<lparr>cb := b, inflight := k\<rparr>) m)"
proof -
  from assms(1,2) obtain h where ok: "enclave_ok V name m h e0" by (auto simp: model_inv_def)
  have frame: "same_frame m (store_enclave (e0\<lparr>cb := b, inflight := k\<rparr>) m)"
    by (simp add: same_frame_def store_enclave_def)
  have "enclave_ok V name m h (e0\<lparr>cb := b, inflight := k\<rparr>)"
    using ok assms(3) by (auto simp: enclave_ok_def verified_by_def)
  moreover have "host e0 = h" using ok by (simp add: enclave_ok_def)
  ultimately show ?thesis
    using enclave_ok_frame [OF frame]
    by (intro model_inv_update [OF assms(1) frame, of h "e0\<lparr>cb := b, inflight := k\<rparr>"]) (auto simp: store_enclave_def)
qed

section \<open>Requests in flight\<close>

text \<open>
  The account of a model is the multiset of its enclave objects, each with its identity and its
  in-flight count. It is in balance with the tickets when identities are unique and fresh ones are
  above all of them, every object counts its tickets, and every ticket has its object.
\<close>

definition objects :: "Model \<Rightarrow> Enclave list" where
  "objects m = map snd (Enclaves m) @ retiredEnclaves m"

definition acct :: "Model \<Rightarrow> (nat \<times> int) multiset" where
  "acct m = image_mset (\<lambda>e. (oid e, inflight e)) (mset (objects m))"

definition accounts :: "string \<Rightarrow> (string \<times> nat) list \<Rightarrow> Model \<Rightarrow> bool" where
  "accounts name ts m \<longleftrightarrow>
     (\<forall>i. count (image_mset fst (acct m)) i \<le> 1)
     \<and> (\<forall>(i, k) \<in># acct m. i < nextOid m \<and> k = int (count_list ts (name, i)))
     \<and> (\<forall>i. (name, i) \<in> set ts \<longrightarrow> i \<in># image_mset fst (acct m))"

lemma accounts_cong: "acct m' = acct m \<Longrightarrow> nextOid m' = nextOid m \<Longrightarrow> accounts name ts m' = accounts name ts m"
  by (simp add: accounts_def)

lemma accounts_new:
  assumes "accounts name ts m" and "acct m' = add_mset (nextOid m, 0) (acct m)" and "nextOid m' = nextOid m + 1"
  shows "accounts name ts m'"
proof -
  have fresh: "nextOid m \<notin># image_mset fst (acct m)" using assms(1) by (auto simp: accounts_def)
  then have "count (image_mset fst (acct m)) (nextOid m) = 0" by (simp only: not_in_iff)
  moreover from fresh assms(1) have "(name, nextOid m) \<notin> set ts" by (auto simp: accounts_def)
  then have "count_list ts (name, nextOid m) = 0" by (simp add: count_list_0_iff)
  ultimately show ?thesis using assms by (fastforce simp: accounts_def)
qed

lemma accounts_unique:
  assumes "accounts name ts m" and "(i, k) \<in># acct m"
  shows "\<forall>(j, l) \<in># acct m - {#(i, k)#}. j \<noteq> i"
proof -
  from assms(2) obtain A where A: "acct m = add_mset (i, k) A" by (meson multi_member_split)
  with assms(1) have "count (image_mset fst A) i = 0"
    by (auto simp: accounts_def dest: spec [of _ i])
  then have "i \<notin># image_mset fst A" by (simp add: count_eq_zero_iff)
  with A show ?thesis by force
qed

lemma accounts_select:
  assumes "accounts name ts m" and "(i, k) \<in># acct m" and "acct m' = add_mset (i, k + 1) (acct m - {#(i, k)#})"
    and "nextOid m' = nextOid m"
  shows "accounts name ((name, i) # ts) m'"
proof -
  from assms(2) obtain A where A: "acct m = add_mset (i, k) A" by (meson multi_member_split)
  then have A': "acct m' = add_mset (i, k + 1) A" using assms(3) by simp
  have "\<forall>(j, l) \<in># A. j \<noteq> i" using accounts_unique [OF assms(1,2)] A by simp
  with assms(1) show ?thesis
    unfolding accounts_def A' assms(4) A by (fastforce split: if_splits)
qed

lemma accounts_other:
  "name' \<noteq> name \<Longrightarrow> accounts name ((name', i) # ts) m = accounts name ts m"
  "name' \<noteq> name \<Longrightarrow> accounts name (remove1 (name', i) ts) m = accounts name ts m"
proof -
  assume n: "name' \<noteq> name"
  then show "accounts name ((name', i) # ts) m = accounts name ts m" by (simp add: accounts_def)
  have "count_list (remove1 (name', i) ts) (name, j) = count_list ts (name, j)" for j
    using n by (induction ts) auto
  moreover have "(name, j) \<in> set (remove1 (name', i) ts) \<longleftrightarrow> (name, j) \<in> set ts" for j
    using n by (induction ts) auto
  ultimately show "accounts name (remove1 (name', i) ts) m = accounts name ts m" by (simp add: accounts_def)
qed

lemma count_list_remove1: "x \<in> set xs \<Longrightarrow> int (count_list (remove1 x xs) y) = int (count_list xs y) - (if y = x then 1 else 0)"
proof (induction xs)
  case (Cons a xs)
  then show ?case by (cases "a = x") auto
qed simp

lemma acct_release:
  "acct (ReleaseDispatch i m) = image_mset (\<lambda>(j, k). (j, if j = i then k - 1 else k)) (acct m)"
proof -
  have objs: "objects (ReleaseDispatch i m) = map (release i) (objects m)"
    by (simp add: objects_def ReleaseDispatch_def comp_def case_prod_unfold)
  show ?thesis
    unfolding acct_def objs mset_map multiset.map_comp
    by (rule image_mset_cong) (simp add: release_def)
qed

lemma accounts_release:
  assumes "accounts name ts m" and "(name, i) \<in> set ts"
  shows "accounts name (remove1 (name, i) ts) (ReleaseDispatch i m)"
proof -
  have fst_eq: "image_mset fst (acct (ReleaseDispatch i m)) = image_mset fst (acct m)"
    by (simp add: acct_release multiset.map_comp comp_def case_prod_unfold)
  have "nextOid (ReleaseDispatch i m) = nextOid m" by (simp add: ReleaseDispatch_def)
  moreover have "\<forall>(j, k) \<in># acct (ReleaseDispatch i m). j < nextOid m \<and> k = int (count_list (remove1 (name, i) ts) (name, j))"
  proof -
    have "int (count_list (remove1 (name, i) ts) (name, j)) = int (count_list ts (name, j)) - (if j = i then 1 else 0)" for j
      using count_list_remove1 [OF assms(2), of "(name, j)"] by simp
    then show ?thesis using assms(1) by (auto simp: acct_release accounts_def)
  qed
  moreover have "(name, j) \<in> set (remove1 (name, i) ts) \<Longrightarrow> (name, j) \<in> set ts" for j
    by (meson notin_set_remove1)
  ultimately show ?thesis using assms(1) unfolding accounts_def fst_eq by auto
qed

text \<open>How the operations change the account.\<close>

abbreviation entry :: "Enclave \<Rightarrow> nat \<times> int" where
  "entry e \<equiv> (oid e, inflight e)"

lemma acct_alt:
  "acct m = image_mset (\<lambda>(h, e). entry e) (mset (Enclaves m)) + image_mset entry (mset (retiredEnclaves m))"
  by (simp add: acct_def objects_def multiset.map_comp comp_def case_prod_unfold)

lemma acct_update:
  assumes "wf_map (Enclaves m)" and "map_of (Enclaves m) h = Some e"
    and "Enclaves m' = AList.update h e' (Enclaves m)" and "retiredEnclaves m' = retiredEnclaves m"
  shows "add_mset (entry e) (acct m') = add_mset (entry e') (acct m)"
proof -
  from mset_update_Some [OF assms(1,2), of e']
  have "image_mset (\<lambda>(h, e). entry e) (add_mset (h, e) (mset (AList.update h e' (Enclaves m))))
      = image_mset (\<lambda>(h, e). entry e) (add_mset (h, e') (mset (Enclaves m)))" by simp
  then show ?thesis using assms(3,4) by (simp add: acct_alt)
qed

lemma acct_update_same:
  assumes "wf_map (Enclaves m)" and "map_of (Enclaves m) h = Some e" and "entry e' = entry e"
    and "Enclaves m' = AList.update h e' (Enclaves m)" and "retiredEnclaves m' = retiredEnclaves m"
  shows "acct m' = acct m"
  using acct_update [OF assms(1,2,4,5)] assms(3) by simp

lemma shutdown_fields [simp]: "oid (shutdown e) = oid e" "inflight (shutdown e) = inflight e"
  by (simp_all add: shutdown_def)

lemma acct_installEnclave:
  assumes "wf_map (Enclaves m)" and "\<forall>e' \<in> snd ` set (Enclaves m). oid e' \<noteq> oid e"
  shows "acct (installEnclaveLocked h e m) = add_mset (entry e) (acct m)"
proof (cases "map_of (Enclaves m) h")
  case None
  then show ?thesis by (simp add: acct_alt installEnclaveLocked_def mset_update_None)
next
  case (Some p)
  then have "oid p \<noteq> oid e" using assms(2) by (force dest: map_of_SomeD)
  then have inst: "installEnclaveLocked h e m = m\<lparr>Enclaves := AList.update h e (Enclaves m), retiredEnclaves := shutdown p # retiredEnclaves m\<rparr>"
    using Some by (simp add: installEnclaveLocked_def)
  have "add_mset (entry p) (acct (m\<lparr>Enclaves := AList.update h e (Enclaves m)\<rparr>)) = add_mset (entry e) (acct m)"
    by (rule acct_update [OF assms(1) Some]) simp_all
  then show ?thesis by (simp add: inst acct_alt)
qed

lemma acct_install_fresh:
  assumes "wf_map (Enclaves m)" and "\<forall>e' \<in> snd ` set (Enclaves m). oid e' < nextOid m"
  shows "acct (install_fresh clk name h tlsKey hpke pred st m) = add_mset (nextOid m, 0) (acct m)"
proof -
  define e where "e = new_enclave (nextOid m) h name tlsKey hpke pred st"
  define m1 where "m1 = (installEnclaveLocked h e m)\<lparr>nextOid := nextOid m + 1\<rparr>"
  have e: "oid e = nextOid m" "inflight e = 0" by (simp_all add: e_def new_enclave_def)
  have "Enclaves m1 = AList.update h e (Enclaves m)" by (simp add: m1_def)
  then have at: "map_of (Enclaves m1) h = Some e" and wf: "wf_map (Enclaves m1)" using assms(1) by simp_all
  have "acct (installEnclaveLocked h e m) = add_mset (entry e) (acct m)"
    using assms e(1) by (intro acct_installEnclave) auto
  then have "acct m1 = add_mset (nextOid m, 0) (acct m)"
    by (simp add: m1_def acct_alt e)
  moreover have "install_fresh clk name h tlsKey hpke pred st m = m1\<lparr>Enclaves := AList.update h
      (updateOverloadConfig (at_policy clk) (overloadForHostLocked m1 h) (spillPoliciesLocked m1 h) e) (Enclaves m1)\<rparr>"
    using at by (simp add: install_fresh_def Let_def e_def m1_def)
  moreover have "acct (m1\<lparr>Enclaves := AList.update h
      (updateOverloadConfig (at_policy clk) (overloadForHostLocked m1 h) (spillPoliciesLocked m1 h) e) (Enclaves m1)\<rparr>) = acct m1"
    by (rule acct_update_same [OF wf at]) simp_all
  ultimately show ?thesis by simp
qed

lemma recordVerification_nextOid [simp]: "nextOid (recordVerification h t stage f m) = nextOid m"
  by (auto simp: recordVerification_def Let_def split: option.splits)

lemma accounts_record: "accounts name ts m \<Longrightarrow> accounts name ts (recordVerification h t stage f m)"
  by (subst accounts_cong) (simp_all add: acct_alt)

lemma accounts_install:
  assumes "accounts name ts m" and "model_inv V name m"
  shows "accounts name ts (snd (install_verified clk name h v tlsKey hpke m))"
proof -
  let ?m1 = "m\<lparr>Tag := CodeTag v, SourceMeasurement := Some (CodeMeasurement v)\<rparr>"
  have a1: "accounts name ts ?m1" using assms(1) by (subst accounts_cong) (simp_all add: acct_alt)
  have wf: "wf_map (Enclaves ?m1)" using assms(2) by (simp add: model_inv_def)
  have "\<forall>e' \<in> snd ` set (Enclaves ?m1). oid e' < nextOid ?m1"
    using assms(2) by (auto simp: model_inv_def enclave_ok_def)
  from accounts_new [OF a1 acct_install_fresh [OF wf this] install_fresh_frame(2)]
  have new: "accounts name ts (install_fresh clk name h tlsKey hpke pred st ?m1)" for st pred .
  show ?thesis
  proof (cases "map_of (Enclaves m) h")
    case None
    with assms(1) new show ?thesis by (simp add: install_verified_def Let_def)
  next
    case (Some cur)
    have "accounts name ts (?m1\<lparr>Enclaves := AList.update h (cur\<lparr>attestation := Some st\<rparr>) (Enclaves ?m1)\<rparr>)" for st
      using Some wf a1 by (subst accounts_cong [OF acct_update_same, where m = ?m1]) simp_all
    with Some assms(1) new show ?thesis by (simp add: install_verified_def Let_def)
  qed
qed

lemma acct_split:
  "acct (m\<lparr>Enclaves := filter (\<lambda>(h, e). Q h) up, retiredEnclaves := map (shutdown \<circ> snd) (filter (\<lambda>(h, e). \<not> Q h) up) @ rs\<rparr>)
   = image_mset (\<lambda>(h, e). entry e) (mset up) + image_mset entry (mset rs)"
  by (induction up) (auto simp: acct_alt)

lemma accounts_sync:
  assumes "accounts name ts m"
  shows "accounts name ts (sync_model now cfg name m)"
proof -
  have "acct (sync_model now cfg name m) = acct m \<and> nextOid (sync_model now cfg name m) = nextOid m"
  proof (cases "map_of cfg name")
    case None
    then show ?thesis
      by (simp add: sync_model_def Let_def acct_alt multiset.map_comp comp_def case_prod_unfold)
  next
    case (Some mc)
    show ?thesis
    proof (cases "Repo m = mc_Repo mc")
      case True
      define m2 where "m2 = applyReservations (mc_Reservations mc) (Hostnames mc)
        ((setConfiguredHosts (Hostnames mc) m)\<lparr>Overload := mc_Overload mc, CacheRoute := mc_CacheRoute mc\<rparr>)"
      define up where "up = map (\<lambda>(h, e). (h, updateOverloadConfig now (overloadForHostLocked m2 h)
        (spillPoliciesLocked m2 h) e)) (Enclaves m)"
      have m2: "Enclaves m2 = Enclaves m" "retiredEnclaves m2 = retiredEnclaves m" "nextOid m2 = nextOid m"
        by (simp_all add: m2_def)
      have "image_mset (\<lambda>(h, e). entry e) (mset up) = image_mset (\<lambda>(h, e). entry e) (mset (Enclaves m))"
        by (simp add: up_def multiset.map_comp comp_def case_prod_unfold)
      moreover have "sync_model now cfg name m = m2\<lparr>Enclaves := filter (\<lambda>(h, e). map_of (configuredHosts m2) h \<noteq> None) up,
          retiredEnclaves := map (shutdown \<circ> snd) (filter (\<lambda>(h, e). map_of (configuredHosts m2) h = None) up) @ retiredEnclaves m\<rparr>"
        using Some True m2 by (simp add: sync_model_def Let_def m2_def up_def)
      ultimately show ?thesis
        using acct_split [where m = m2 and Q = "\<lambda>h. map_of (configuredHosts m2) h \<noteq> None", unfolded not_not] m2(3)
        by (simp add: acct_alt [of m])
    qed (use Some in \<open>simp add: sync_model_def\<close>)
  qed
  with assms show ?thesis using accounts_cong by blast
qed

interpretation accounted_pool: pool_invariant V "\<lambda>name m. model_inv V name m \<and> accounts name ts m" for V ts
  by unfold_locales
    (auto intro: accounts_record accounts_install accounts_sync recordVerification_inv install_verified_inv sync_model_inv)

text \<open>The source repository of a model is fixed when the manager is created.\<close>

lemma install_verified_frame: "same_frame m (snd (install_verified clk name h v tlsKey hpke m))"
proof -
  let ?m1 = "m\<lparr>Tag := CodeTag v, SourceMeasurement := Some (CodeMeasurement v)\<rparr>"
  have "same_frame m ?m1" by (simp add: same_frame_def)
  moreover have "same_frame ?m1 (?m1\<lparr>Enclaves := es\<rparr>)" for es by (simp add: same_frame_def)
  ultimately show ?thesis
    using install_fresh_frame(1) [of ?m1]
    by (auto simp: install_verified_def Let_def split: option.splits intro: same_frame_trans)
qed

lemma Repo_sync [simp]: "Repo (sync_model now cfg name m) = Repo m"
  by (auto simp: sync_model_def Let_def split: option.splits)

interpretation pinned_repo: pool_invariant V "\<lambda>name m. Repo m = repo name" for V repo
proof unfold_locales
  fix name h t stage failed and m :: Model
  assume "Repo m = repo name"
  then show "Repo (recordVerification h t stage failed m) = repo name"
    using recordVerification_fields(3) [of m h t stage failed] by (simp add: same_frame_def)
next
  fix name h v tlsKey hpke clk and m :: Model
  assume "Repo m = repo name"
  then show "Repo (snd (install_verified clk name h v tlsKey hpke m)) = repo name"
    using install_verified_frame [of m clk name h v tlsKey hpke] by (simp add: same_frame_def)
qed simp

section \<open>The system invariant\<close>

definition system_ok :: "trust \<Rightarrow> (string \<Rightarrow> string) \<Rightarrow> system \<Rightarrow> bool" where
  "system_ok V repo s \<longleftrightarrow>
     all_models (\<lambda>name m. model_inv V name m \<and> accounts name (tickets s) m) (manager s)
     \<and> all_models (\<lambda>name m. Repo m = repo name) (manager s)"

lemma system_ok_set:
  assumes "system_ok V repo s" and "model_inv V name m'" and "accounts name ts m'" and "Repo m' = repo name"
    and "\<And>n m. n \<noteq> name \<Longrightarrow> accounts n ts m = accounts n (tickets s) m"
  shows "system_ok V repo (s\<lparr>manager := set_model name m' (manager s), tickets := ts\<rparr>)"
  using assms by (auto simp: system_ok_def all_models_def set_model_def)

text \<open>Storing a selected enclave: the model keeps its invariant and one more request is in flight.\<close>

lemma selected_ok:
  assumes "model_inv V name m" and "accounts name ts m" and "e0 \<in> snd ` set (Enclaves m)"
    and "b = None \<longrightarrow> cb e0 = None" and "e = e0\<lparr>cb := b, inflight := inflight e0 + 1\<rparr>"
  shows "model_inv V name (store_enclave e m) \<and> accounts name ((name, oid e) # ts) (store_enclave e m)
    \<and> Repo (store_enclave e m) = Repo m"
proof -
  from assms(1,3) have wf: "wf_map (Enclaves m)" and at: "map_of (Enclaves m) (host e0) = Some e0"
    by (auto simp: model_inv_def enclave_ok_def map_of_wf_iff)
  have entry: "entry e = (oid e0, inflight e0 + 1)" using assms(5) by simp
  have eq: "add_mset (entry e0) (acct (store_enclave e m)) = add_mset (entry e) (acct m)"
    using assms(5) by (intro acct_update [OF wf at]) (simp_all add: store_enclave_def)
  have mem: "entry e0 \<in># acct m" using assms(3) by (force simp: acct_def objects_def)
  then obtain Z where Z: "acct m = add_mset (entry e0) Z" by (meson multi_member_split)
  with eq have "add_mset (entry e0) (acct (store_enclave e m)) = add_mset (entry e0) (add_mset (entry e) Z)"
    by (simp only: add_mset_commute)
  then have "acct (store_enclave e m) = add_mset (oid e0, inflight e0 + 1) (acct m - {#entry e0#})"
    using Z entry by simp
  from accounts_select [OF assms(2) mem this] assms(5)
  have "accounts name ((name, oid e) # ts) (store_enclave e m)" by (simp add: store_enclave_def)
  moreover have "model_inv V name (store_enclave e m)"
    unfolding assms(5) by (rule store_selected_inv [OF assms(1,3)]) (use assms(4) in auto)
  ultimately show ?thesis by (simp add: store_enclave_def)
qed

lemma system_ok_model:
  "system_ok V repo s \<Longrightarrow> map_of (models (manager s)) name = Some m
     \<Longrightarrow> model_inv V name m \<and> accounts name (tickets s) m \<and> Repo m = repo name"
  by (simp add: system_ok_def all_models_def)

lemma system_ok_same:
  assumes "system_ok V repo s" and "map_of (models (manager s)) name = Some m"
  shows "system_ok V repo (s\<lparr>manager := set_model name m (manager s)\<rparr>)"
  using assms by (auto simp: system_ok_def all_models_def set_model_def)

lemma dispatch_ok:
  assumes "system_ok V repo s" and "map_of (models (manager s)) name = Some m" and "picks rnd" and "enumerates enum m"
    and "sel_enclave (selectServingLocked now enum rnd order c primary spill p x m) = Some e1"
    and "e = e1\<lparr>inflight := inflight e1 + 1\<rparr>"
  shows "system_ok V repo (s\<lparr>manager := set_model name (store_enclave e m) (manager s), tickets := (name, oid e) # tickets s\<rparr>)"
proof -
  from selectServingLocked_sound [OF assms(3-5)] obtain e0 b where
    "e0 \<in> snd ` set (Enclaves m)" "e1 = e0\<lparr>cb := b\<rparr>" "b = None \<longrightarrow> cb e0 = None" by blast
  with selected_ok [of V name m "tickets s" e0 b e] system_ok_model [OF assms(1,2)] assms(1,6) show ?thesis
    by (intro system_ok_set) (auto simp: accounts_other)
qed

lemma on_object_ok:
  assumes "system_ok V repo s" and "map_of (models (manager s)) name = Some m"
  shows "system_ok V repo (s\<lparr>manager := set_model name (on_object i (backend_event ev) m) (manager s)\<rparr>)"
proof -
  note m = system_ok_model [OF assms]
  have keep: "entry (backend_event ev e) = entry e" for e by (cases ev) simp_all
  have "model_inv V name (on_object i (backend_event ev) m)"
    using m by (intro on_object_inv) (simp, cases ev, simp_all)
  moreover have "acct (on_object i (backend_event ev) m) = acct m"
    using keep by (auto simp: acct_alt on_object_def multiset.map_comp comp_def case_prod_unfold
        intro!: image_mset_cong arg_cong2 [of _ _ _ _ "(+)"])
  then have "accounts name (tickets s) (on_object i (backend_event ev) m)"
    using m accounts_cong [of "on_object i (backend_event ev) m" m name "tickets s"] by (simp add: on_object_def)
  ultimately show ?thesis
    using assms(1) m by (intro system_ok_set [of V repo s name _ "tickets s", simplified]) (auto simp: on_object_def)
qed

lemma release_ok:
  assumes "system_ok V repo s" and "map_of (models (manager s)) name = Some m" and "(name, i) \<in> set (tickets s)"
  shows "system_ok V repo (s\<lparr>manager := set_model name (ReleaseDispatch i m) (manager s), tickets := remove1 (name, i) (tickets s)\<rparr>)"
proof -
  note m = system_ok_model [OF assms(1,2)]
  have "model_inv V name (ReleaseDispatch i m)"
    unfolding ReleaseDispatch_on_object by (rule on_object_inv) (use m in auto)
  moreover have "Repo (ReleaseDispatch i m) = repo name" using m by (simp add: ReleaseDispatch_def)
  ultimately show ?thesis
    using accounts_release [of name "tickets s" m i] m assms(1,3)
    by (intro system_ok_set) (auto simp: accounts_other)
qed

lemma serve_step_ok:
  assumes "serve_step V s s'" and "system_ok V repo s"
  shows "system_ok V repo s'"
  using assms
proof (induction rule: serve_step.induct)
  case (worker verifier s t0 t1 t2 clk probe loaded)
  then show ?case
    using accounted_pool.worker_round [of V _ "manager s" verifier] pinned_repo.worker_round [of repo "manager s" V verifier]
    by (simp add: system_ok_def)
next
  case (recover verifier s ck cancelled name h failedKey)
  then show ?case
    using accounted_pool.recoverEnclave [of V _ "manager s" verifier] pinned_repo.recoverEnclave [of repo "manager s" V verifier]
    by (simp add: system_ok_def)
next
  case (select rnd s name m enum org primary spill p now order c sel m')
  show ?case
  proof (cases "sel_enclave sel")
    case None
    with select have "m' = m" by (auto simp: SelectServing_def Let_def split: option.splits)
    with None select system_ok_same show ?thesis by simp
  next
    case (Some e)
    with select obtain e1 where "sel_enclave (selectServingLocked now enum rnd order c primary spill p [] m) = Some e1"
      "e = e1\<lparr>inflight := inflight e1 + 1\<rparr>" "m' = store_enclave e m"
      by (auto simp: SelectServing_def Let_def split: option.splits)
    with dispatch_ok [OF select(6,2,1,3)] Some show ?thesis by simp
  qed
next
  case (retry rnd s name m enum org primary spill p now failedHost order r m')
  show ?case
  proof (cases r)
    case None
    with retry have "m' = m" by (auto simp: SelectRetry_def Let_def split: option.splits if_splits)
    with None retry system_ok_same show ?thesis by simp
  next
    case (Some e)
    with retry obtain e1 where "sel_enclave (selectServingLocked now enum rnd order False primary spill p failedHost m) = Some e1"
      "e = e1\<lparr>inflight := inflight e1 + 1\<rparr>" "m' = store_enclave e m"
      by (auto simp: SelectRetry_def Let_def split: option.splits if_splits)
    with dispatch_ok [OF retry(6,2,1,3)] Some show ?thesis by simp
  qed
qed (simp_all add: release_ok on_object_ok)

definition repo_of :: "Config \<Rightarrow> string \<Rightarrow> string" where
  "repo_of cfg name = (case map_of cfg name of None \<Rightarrow> [] | Some mc \<Rightarrow> mc_Repo mc)"

lemma reachable_ok:
  assumes "reachable V cfg s"
  shows "system_ok V (repo_of cfg) s"
  using assms
proof induction
  case (start interval em)
  have "accounts name [] (new_model mc)" for name mc
    by (simp add: accounts_def acct_def objects_def new_model_def empty_model_def)
  moreover have "Repo (new_model mc) = repo_of cfg name" if "(name, mc) \<in> set cfg" for name mc
    using that start(1) by (simp add: new_model_def empty_model_def repo_of_def map_of_wf_iff [symmetric])
  ultimately show ?case
    using NewEnclaveManager_models [OF start(2)] new_model_inv by (simp add: system_ok_def)
next
  case (step s s')
  then show ?case using serve_step_ok by blast
qed

lemma recoverEnclave_Inr:
  assumes "recoverEnclave clk verifier cancelled name h failedKey em = (Inr e, em')"
  shows "\<exists>m. map_of (models em') name = Some m \<and> map_of (Enclaves m) h = Some e
    \<and> map_of (configuredHosts m) h \<noteq> None \<and> tlsKeyFP e \<noteq> failedKey \<and> attestationValid (at_end clk) e \<and> \<not> cancelled"
proof (cases "map_of (models em) name")
  case None
  with assms show ?thesis by (simp add: recoverEnclave_def)
next
  case (Some m0)
  obtain err em1 where rv: "recover_verify clk verifier name h failedKey m0 em = (err, em1)" by fastforce
  show ?thesis
  proof (cases "cancelled \<or> err \<noteq> None")
    case True
    with Some rv assms show ?thesis by (auto simp: recoverEnclave_def split: if_splits)
  next
    case False
    with Some rv assms show ?thesis
      by (cases "map_of (models em1) name"; cases "map_of (Enclaves (the (map_of (models em1) name))) h")
        (auto simp: recoverEnclave_def split: if_splits)
  qed
qed

section \<open>Properties\<close>

text \<open>
  C1. Whatever the history of configuration rounds, recoveries, failures, scrapes and other
  requests, the backend chosen for a request runs code that the attestation verifier accepted for
  the repository fixed in the initial configuration. Its attestation is unexpired at selection, its
  keys are the attested ones, its host is configured, and it is reserved for the caller's
  organisation or for nobody.
\<close>

theorem served_backend_attested_and_permitted:
  assumes "reachable V cfg s" and "map_of (models (manager s)) name = Some m"
    and "picks rnd" and "enumerates enum m" and "ReservationPools org m = (primary, spill, p)"
    and "SelectServing now enum rnd order c primary spill p m = (sel, m')" and "sel_enclave sel = Some e"
  shows "verified_by V (repo_of cfg name) e \<and> attestationValid now e \<and> map_of (configuredHosts m) (host e) \<noteq> None
    \<and> (reserved_for (Reservations m) org (host e) \<or> \<not> (\<exists>other. reserved_for (Reservations m) other (host e)))"
proof -
  have inv: "model_inv V name m" and repo: "Repo m = repo_of cfg name"
    using system_ok_model [OF reachable_ok [OF assms(1)] assms(2)] by auto
  obtain e1 where e1: "sel_enclave (selectServingLocked now enum rnd order c primary spill p [] m) = Some e1"
    "e = e1\<lparr>inflight := inflight e1 + 1\<rparr>"
    using assms(6,7) by (auto simp: SelectServing_def Let_def split: option.splits)
  from selectServingLocked_sound [OF assms(3,4) e1(1)] obtain e0 b where e0:
    "e0 \<in> snd ` set (Enclaves m)" "e1 = e0\<lparr>cb := b\<rparr>" "attestationValid now e0"
    "allowed primary (host e0) \<or> host_in spill (host e0)" by blast
  then obtain h where ok: "enclave_ok V name m h e0" using inv by (auto simp: model_inv_def)
  obtain hs where hs: "set hs = dom (map_of (configuredHosts m))" "applyReservations (Reservations m) hs m = m"
    using inv by (auto simp: model_inv_def reservations_ok_def)
  have same: "host e = host e0" "attestationValid now e = attestationValid now e0"
    "verified_by V repo e = verified_by V repo e0" for repo
    using e1(2) e0(2) by (simp_all add: attestationValid_def verified_by_def)
  have "host e0 \<in> set hs" using ok hs(1) by (auto simp: enclave_ok_def)
  from pools_isolate [of org "Reservations m" hs m primary spill p, OF _ this] hs(2) assms(5) e0(4)
  have "reserved_for (Reservations m) org (host e0) \<or> \<not> (\<exists>other. reserved_for (Reservations m) other (host e0))"
    by simp
  with ok e0(3) same repo show ?thesis by (simp add: enclave_ok_def)
qed

text \<open>A concrete run for the witnesses: one configured model, one worker round that verifies its host.\<close>

definition verification_example :: Verification where
  "verification_example =
     \<lparr>FreshnessExpiresAt = 100 * hour, TLSPublicKeyFP = Some ''k1'', hasHPKEMaterial = False, HPKEPublicKey = None,
      CodeTag = ''v1'', CodeMeasurement = ''m1'', EnclaveMeasurementType = ''tdx''\<rparr>"

definition verifier_example :: "string \<Rightarrow> string \<Rightarrow> Verification option" where
  "verifier_example h repo = (if h = ''h1'' \<and> repo = ''r'' then Some verification_example else None)"

definition trust_example :: trust where
  "trust_example h repo v \<longleftrightarrow> verifier_example h repo = Some v"

definition clock_example :: clock where
  "clock_example =
     \<lparr>at_check = hour, at_probe = hour, at_attempt = hour, at_verified = hour, at_policy = hour, at_end = hour\<rparr>"

definition system0 :: system where
  "system0 = \<lparr>manager = the (NewEnclaveManager (Inr (config_example [])) hour), tickets = []\<rparr>"

definition system1 :: system where
  "system1 = system0\<lparr>manager := worker_round hour hour hour (\<lambda>_ _. clock_example) verifier_example (\<lambda>_. None)
     (Inr (config_example [])) (manager system0)\<rparr>"

definition model1 :: Model where
  "model1 = the (map_of (models (manager system1)) ''m'')"

definition selection1 :: "selection \<times> Model" where
  "selection1 = SelectServing (2 * hour) (\<lambda>_. map snd (Enclaves model1)) rnd_example [] True None None None model1"

lemma system1_reachable: "reachable trust_example (config_example []) system1"
proof -
  have "NewEnclaveManager (Inr (config_example [])) hour \<noteq> None" by code_simp
  then have "reachable trust_example (config_example []) system0"
    unfolding system0_def by (intro reachable.start) (auto simp: config_example_def wf_map_def)
  moreover have "trusts trust_example verifier_example" by (simp add: trusts_def trust_example_def)
  then have "serve_step trust_example system0 system1"
    unfolding system1_def by (rule serve_step.worker)
  ultimately show ?thesis by (rule reachable.step)
qed

lemma model1_lookup: "map_of (models (manager system1)) ''m'' = Some model1"
proof -
  have "map_of (models (manager system1)) ''m'' \<noteq> None" by code_simp
  then show ?thesis by (auto simp: model1_def)
qed

theorem served_backend_attested_and_permitted_witness:
  "\<exists>e. sel_enclave (fst selection1) = Some e \<and> verified_by trust_example ''r'' e \<and> attestationValid (2 * hour) e
    \<and> map_of (configuredHosts model1) (host e) \<noteq> None"
proof -
  have "sel_enclave (fst selection1) \<noteq> None" by code_simp
  then obtain e where e: "sel_enclave (fst selection1) = Some e" by blast
  have pools: "ReservationPools [] model1 = (None, None, None)" by code_simp
  have "enumerates (\<lambda>_. map snd (Enclaves model1)) model1" by (simp add: enumerates_def)
  moreover have "repo_of (config_example []) ''m'' = ''r''" by code_simp
  ultimately show ?thesis
    using served_backend_attested_and_permitted [OF system1_reachable model1_lookup rnd_example _ pools _ e,
        of "\<lambda>_. map snd (Enclaves model1)" "2 * hour" "[]" True "snd selection1"] e
    by (simp add: selection1_def)
qed

text \<open>
  C5. The in-flight count of every enclave object, pooled or retired, is the number of requests
  that were dispatched to this very object and have not been released. It is therefore never
  negative, and replacing an enclave under the same host never mixes the counts of the old and the
  new one.
\<close>

theorem inflight_counts_outstanding:
  assumes "reachable V cfg s" and "map_of (models (manager s)) name = Some m" and "e \<in> set (objects m)"
  shows "inflight e = int (count_list (tickets s) (name, oid e))
    \<and> (\<forall>e' \<in> set (objects m). oid e' = oid e \<longrightarrow> entry e' = entry e)"
proof -
  have acc: "accounts name (tickets s) m"
    using system_ok_model [OF reachable_ok [OF assms(1)] assms(2)] by blast
  have "entry d \<in># acct m" if "d \<in> set (objects m)" for d using that by (auto simp: acct_def)
  with acc have "inflight d = int (count_list (tickets s) (name, oid d))" if "d \<in> set (objects m)" for d
    using that by (fastforce simp: accounts_def)
  with assms(3) show ?thesis by auto
qed

theorem inflight_counts_outstanding_witness:
  "\<exists>e \<in> set (objects model1). host e = ''h1'' \<and> inflight e = int (count_list (tickets system1) (''m'', oid e))"
proof -
  have "map host (objects model1) = [''h1'']" by code_simp
  then obtain e where "e \<in> set (objects model1)" "host e = ''h1''" by (cases "objects model1") auto
  with inflight_counts_outstanding [OF system1_reachable model1_lookup] show ?thesis by blast
qed

text \<open>
  Recovery after a rejected handshake hands out only a replacement: the enclave it returns has
  a different key than the one that failed, is the pooled enclave of a configured host, was
  accepted by the verifier for the model's repository and is unexpired.
\<close>

theorem recovery_returns_verified_replacement:
  assumes "reachable V cfg s" and "trusts V verifier"
    and "recoverEnclave clk verifier cancelled name h failedKey (manager s) = (Inr e, em')"
  shows "tlsKeyFP e \<noteq> failedKey \<and> attestationValid (at_end clk) e \<and> verified_by V (repo_of cfg name) e
    \<and> host e = h \<and> \<not> cancelled
    \<and> (\<exists>m. map_of (models em') name = Some m \<and> map_of (Enclaves m) h = Some e \<and> map_of (configuredHosts m) h \<noteq> None)"
proof -
  have "serve_step V s (s\<lparr>manager := em'\<rparr>)"
    using serve_step.recover [OF assms(2), of s clk cancelled name h failedKey] unfolding assms(3) by simp
  from reachable_ok [OF reachable.step [OF assms(1) this]]
  have ok: "system_ok V (repo_of cfg) (s\<lparr>manager := em'\<rparr>)" .
  obtain m where m: "map_of (models em') name = Some m" "map_of (Enclaves m) h = Some e"
    "map_of (configuredHosts m) h \<noteq> None" "tlsKeyFP e \<noteq> failedKey" "attestationValid (at_end clk) e" "\<not> cancelled"
    using recoverEnclave_Inr [OF assms(3)] by (elim exE conjE) (rule that)
  have "model_inv V name m" "Repo m = repo_of cfg name" using system_ok_model [OF ok, of name m] m(1) by simp_all
  with model_inv_at [of V name m h e] m show ?thesis by (auto simp: enclave_ok_def)
qed

definition recovery_example :: "(manager_error + Enclave) \<times> EnclaveManager" where
  "recovery_example = recoverEnclave clock_example verifier_example False ''m'' ''h1'' ''old'' (manager system1)"

theorem recovery_returns_verified_replacement_witness:
  "\<exists>e em'. recovery_example = (Inr e, em') \<and> tlsKeyFP e \<noteq> ''old'' \<and> verified_by trust_example ''r'' e"
proof -
  have "(case fst recovery_example of Inl _ \<Rightarrow> False | Inr _ \<Rightarrow> True)" by code_simp
  then obtain e where "fst recovery_example = Inr e" by (cases "fst recovery_example") auto
  then obtain em' where r: "recovery_example = (Inr e, em')" by (metis prod.collapse)
  have "trusts trust_example verifier_example" by (simp add: trusts_def trust_example_def)
  moreover have "repo_of (config_example []) ''m'' = ''r''" by code_simp
  ultimately show ?thesis
    using recovery_returns_verified_replacement [OF system1_reachable _ r [unfolded recovery_example_def]] r by auto
qed

end
