(* ===== verification/Cache_Rank.thy ===== *)
theory Cache_Rank
  imports Model_Pool
begin

text \<open>
  Rendezvous ranking of replicas and the load-capped pick (\<open>cacheroute/hrw.go\<close>), and the routing
  decision \<open>Shadow.Decide\<close> of \<open>cacheroute/shadow.go\<close>. The hash \<open>xxhash64\<close> is third-party and a
  parameter. A panic of the source (indexing an empty slice) is \<open>None\<close>; \<open>Decide\<close> recovers it.
\<close>

section \<open>Ranking\<close>

type_synonym hash64 = "string \<Rightarrow> 64 word"

definition score :: "hash64 \<Rightarrow> string \<Rightarrow> Candidate \<Rightarrow> 64 word" where
  "score xxh key c = xxh (key @ cand_Host c)"

text \<open>The comparison function passed to \<open>slices.SortFunc\<close> is negative.\<close>

definition rank_less :: "hash64 \<Rightarrow> string \<Rightarrow> Candidate \<Rightarrow> Candidate \<Rightarrow> bool" where
  "rank_less xxh key a b \<longleftrightarrow>
     score xxh key b < score xxh key a \<or> score xxh key a = score xxh key b \<and> cand_Host a < cand_Host b"

definition rank_candidates :: "hash64 \<Rightarrow> string \<Rightarrow> Candidate list \<Rightarrow> Candidate list" where
  "rank_candidates xxh key candidates = sort_by (rank_less xxh key) candidates"

text \<open>\<open>float64\<close> rates are exact rationals.\<close>

definition replicationFactor :: "rat \<Rightarrow> rat \<Rightarrow> int \<Rightarrow> int" where
  "replicationFactor rpm thresholdRPM poolSize =
     (if thresholdRPM \<le> 0 \<or> poolSize \<le> 1 then 1
      else
        (let r = \<lceil>rpm / thresholdRPM\<rceil>;
             r1 = (if r < 1 then 1 else r)
         in if poolSize < r1 then poolSize else r1))"

fun leastLoaded :: "Candidate list \<Rightarrow> Candidate option" where
  "leastLoaded [] = None"
| "leastLoaded (c # cs) = Some (first_min InFlight c cs)"

fun minInFlight :: "Candidate list \<Rightarrow> int option" where
  "minInFlight [] = None"
| "minInFlight (c # cs) = Some (fold (\<lambda>d m. if InFlight d < m then InFlight d else m) cs (InFlight c))"

text \<open>The loop over the warm set: the first least loaded candidate within the limit.\<close>

fun capped_scan :: "int \<Rightarrow> Candidate option \<Rightarrow> Candidate list \<Rightarrow> Candidate option" where
  "capped_scan limit best [] = best"
| "capped_scan limit best (c # cs) =
     (if InFlight c \<le> limit \<and> (case best of None \<Rightarrow> True | Some b \<Rightarrow> InFlight c < InFlight b)
      then capped_scan limit (Some c) cs else capped_scan limit best cs)"

definition cappedPick :: "Candidate list \<Rightarrow> nat \<Rightarrow> int \<Rightarrow> (string \<times> bool) option" where
  "cappedPick ranked r delta =
     (if length ranked < r then None
      else if delta < 0 then map_option (\<lambda>c. (cand_Host c, False)) (leastLoaded (take r ranked))
      else
        (case minInFlight ranked of
           None \<Rightarrow> None
         | Some m \<Rightarrow>
             (case capped_scan (m + delta) None (take r ranked) of
                Some c \<Rightarrow> Some (cand_Host c, False)
              | None \<Rightarrow> map_option (\<lambda>c. (cand_Host c, True)) (leastLoaded ranked))))"

section \<open>The decision\<close>

record Decision =
  Order :: "string list"
  dec_pool :: Pool
  dec_home :: string
  dec_r :: int
  dec_demoted :: bool

text \<open>The host preference: the pick, then the hosts within the cap, then the others.\<close>

definition preference :: "Candidate list \<Rightarrow> string \<Rightarrow> int \<Rightarrow> string list" where
  "preference ranked pick delta =
     (if 0 \<le> delta then
        (case minInFlight ranked of
           None \<Rightarrow> [pick]
         | Some m \<Rightarrow>
             pick # map cand_Host (filter (\<lambda>c. cand_Host c \<noteq> pick \<and> InFlight c \<le> m + delta) ranked)
               @ map cand_Host (filter (\<lambda>c. cand_Host c \<noteq> pick \<and> m + delta < InFlight c) ranked))
      else pick # map cand_Host (filter (\<lambda>c. cand_Host c \<noteq> pick) ranked))"

text \<open>
  \<open>keyed\<close> is the request's key when its outcome is \<open>keyed\<close>; \<open>rate\<close> is the key's current request
  rate, which \<open>peekRate\<close> reads from the table.
\<close>

definition Decide ::
  "hash64 \<Rightarrow> rat \<Rightarrow> string option \<Rightarrow> Pool \<Rightarrow> rat \<Rightarrow> int \<Rightarrow> Decision option" where
  "Decide xxh rate keyed pool splitThresholdRPM maxInflightDelta =
     (case keyed of
        None \<Rightarrow> None
      | Some key \<Rightarrow>
          (if Size pool < 2 \<or> Candidates pool = [] then None
           else
             (let ranked = rank_candidates xxh key (Candidates pool);
                  r = replicationFactor rate splitThresholdRPM (int (length ranked))
              in case cappedPick ranked (nat r) maxInflightDelta of
                   None \<Rightarrow> None
                 | Some (pick, demoted) \<Rightarrow>
                     Some \<lparr>Order = preference ranked pick maxInflightDelta, dec_pool = pool,
                           dec_home = cand_Host (hd ranked), dec_r = r, dec_demoted = demoted\<rparr>)))"

section \<open>The ranking is a sorted permutation\<close>

interpretation hrw: total_comparison "rank_less xxh key" "\<lambda>A. inj_on cand_Host A" for xxh key
proof unfold_locales
  fix x y :: Candidate
  assume "rank_less xxh key x y"
  then show "\<not> rank_less xxh key y x" by (auto simp: rank_less_def)
next
  fix x y z :: Candidate
  assume "\<not> rank_less xxh key y x" "\<not> rank_less xxh key z y"
  then show "\<not> rank_less xxh key z x"
    unfolding rank_less_def not_less de_Morgan_disj de_Morgan_conj by (auto intro: order.trans)
next
  fix A :: "Candidate set" and x y
  assume "inj_on cand_Host A" "x \<in> A" "y \<in> A" "x \<noteq> y"
  then show "rank_less xxh key x y \<or> rank_less xxh key y x"
    unfolding rank_less_def using inj_onD [of cand_Host A x y] by (metis linorder_neqE)
qed

lemma rank_candidates_mset [simp]: "mset (rank_candidates xxh key cs) = mset cs"
  and rank_candidates_set [simp]: "set (rank_candidates xxh key cs) = set cs"
  and rank_candidates_length [simp]: "length (rank_candidates xxh key cs) = length cs"
  and rank_candidates_Nil [simp]: "rank_candidates xxh key cs = [] \<longleftrightarrow> cs = []"
  by (simp_all add: rank_candidates_def)

lemma rank_unique:
  assumes "distinct (map cand_Host cs)" and "mset ds = mset cs"
    and "sorted_wrt (\<lambda>a b. \<not> rank_less xxh key b a) ds"
  shows "ds = rank_candidates xxh key cs"
  unfolding rank_candidates_def
  using assms by (intro hrw.sort_by_unique) (auto simp: distinct_map)

lemma rank_filter:
  assumes "distinct (map cand_Host cs)"
  shows "rank_candidates xxh key (filter P cs) = filter P (rank_candidates xxh key cs)"
proof (rule rank_unique [symmetric])
  show "distinct (map cand_Host (filter P cs))" using assms by (simp add: distinct_map_filter)
  show "mset (filter P (rank_candidates xxh key cs)) = mset (filter P cs)" by simp
  have "sorted_wrt (\<lambda>a b. \<not> rank_less xxh key b a) (rank_candidates xxh key cs)"
    unfolding rank_candidates_def by (rule hrw.sort_by_sorted)
  then show "sorted_wrt (\<lambda>a b. \<not> rank_less xxh key b a) (filter P (rank_candidates xxh key cs))"
    by (rule sorted_wrt_filter)
qed

lemma replicationFactor_bounds: "1 \<le> replicationFactor rpm t n \<and> replicationFactor rpm t n \<le> max 1 n"
  by (auto simp: replicationFactor_def Let_def)

lemma minInFlight_le: "minInFlight cs = Some m \<Longrightarrow> (\<forall>c \<in> set cs. m \<le> InFlight c) \<and> (\<exists>c \<in> set cs. InFlight c = m)"
proof (cases cs)
  case (Cons c ds)
  have "(\<forall>d \<in> set ds. fold (\<lambda>d m. if InFlight d < m then InFlight d else m) ds k \<le> InFlight d)
      \<and> fold (\<lambda>d m. if InFlight d < m then InFlight d else m) ds k \<le> k
      \<and> (fold (\<lambda>d m. if InFlight d < m then InFlight d else m) ds k = k
         \<or> (\<exists>d \<in> set ds. InFlight d = fold (\<lambda>d m. if InFlight d < m then InFlight d else m) ds k))" for k
  proof (induction ds arbitrary: k)
    case (Cons d ds)
    show ?case using Cons.IH [of "if InFlight d < k then InFlight d else k"] by (auto split: if_splits)
  qed simp
  from this [of "InFlight c"] show "minInFlight cs = Some m \<Longrightarrow> ?thesis" using Cons by auto
qed simp

lemma capped_scan_spec:
  "capped_scan limit best cs =
     (case best of
        None \<Rightarrow> leastLoaded (filter (\<lambda>c. InFlight c \<le> limit) cs)
      | Some b \<Rightarrow> Some (first_min InFlight b (filter (\<lambda>c. InFlight c \<le> limit) cs)))"
  by (induction cs arbitrary: best) (auto split: option.splits)

lemma leastLoaded_mem: "leastLoaded cs = Some c \<Longrightarrow> c \<in> set cs \<and> (\<forall>d \<in> set cs. InFlight c \<le> InFlight d)"
  using first_min_mem first_min_le first_min_le_start by (cases cs) fastforce+

lemma leastLoaded_total [simp]: "leastLoaded cs = None \<longleftrightarrow> cs = []"
  by (cases cs) simp_all

lemma minInFlight_total [simp]: "minInFlight cs = None \<longleftrightarrow> cs = []"
  by (cases cs) simp_all

text \<open>The pick: defined, a candidate, within the cap, and demoted exactly when no warm host was.\<close>

lemma cappedPick_spec:
  assumes "cs \<noteq> []" and "1 \<le> r" and "r \<le> length cs" and "minInFlight cs = Some m"
  shows "\<exists>c dem. cappedPick cs r delta = Some (cand_Host c, dem) \<and> c \<in> set cs
    \<and> (0 \<le> delta \<longrightarrow> InFlight c \<le> m + delta) \<and> (\<not> dem \<longrightarrow> c \<in> set (take r cs))
    \<and> (dem \<longleftrightarrow> 0 \<le> delta \<and> (\<forall>w \<in> set (take r cs). m + delta < InFlight w))"
proof -
  have warm: "take r cs \<noteq> []" using assms(1,2) by auto
  show ?thesis
  proof (cases "delta < 0")
    case True
    obtain c where c: "leastLoaded (take r cs) = Some c" using warm by (cases "leastLoaded (take r cs)") auto
    with leastLoaded_mem [OF c] True assms(3) show ?thesis
      by (intro exI [of _ c] exI [of _ False]) (auto simp: cappedPick_def dest: in_set_takeD)
  next
    case False
    let ?ok = "filter (\<lambda>c. InFlight c \<le> m + delta) (take r cs)"
    have scan: "capped_scan (m + delta) None (take r cs) = leastLoaded ?ok" by (simp add: capped_scan_spec)
    show ?thesis
    proof (cases "leastLoaded ?ok")
      case None
      then have over: "\<forall>w \<in> set (take r cs). m + delta < InFlight w" by (auto simp: filter_empty_conv)
      obtain c where c: "leastLoaded cs = Some c" using assms(1) by (cases "leastLoaded cs") auto
      have "InFlight c \<le> m" using leastLoaded_mem [OF c] minInFlight_le [OF assms(4)] by auto
      with None over scan c leastLoaded_mem [OF c] False assms(3,4) show ?thesis
        by (intro exI [of _ c] exI [of _ True]) (auto simp: cappedPick_def)
    next
      case (Some c)
      with scan leastLoaded_mem [OF Some] False assms(3,4) show ?thesis
        by (intro exI [of _ c] exI [of _ False]) (auto simp: cappedPick_def not_less dest: in_set_takeD intro!: bexI [of _ c])
    qed
  qed
qed

lemma preference_mset:
  assumes "distinct (map cand_Host cs)" and "c \<in> set cs"
  shows "mset (preference cs (cand_Host c) delta) = mset (map cand_Host cs)"
proof -
  let ?p = "cand_Host c"
  have uniq: "filter (\<lambda>d. cand_Host d = ?p) cs = [c]"
    using assms
  proof (induction cs)
    case (Cons d ds)
    then show ?case by (auto simp: filter_empty_conv image_iff)
  qed simp
  have part: "mset (filter P cs) + mset (filter (\<lambda>x. \<not> P x) cs) = mset cs" for P
    by (metis mset_filter multiset_partition)
  have rest: "add_mset ?p (mset (map cand_Host (filter (\<lambda>d. cand_Host d \<noteq> ?p) cs))) = mset (map cand_Host cs)"
    using arg_cong [OF part [of "\<lambda>d. cand_Host d = ?p"], of "image_mset cand_Host"] by (simp add: uniq del: mset_filter)
  show ?thesis
  proof (cases "minInFlight cs")
    case None
    then show ?thesis using assms(2) by simp
  next
    case (Some m)
    have "mset (filter (\<lambda>d. cand_Host d \<noteq> ?p \<and> InFlight d \<le> m + delta) cs)
        + mset (filter (\<lambda>d. cand_Host d \<noteq> ?p \<and> m + delta < InFlight d) cs)
        = mset (filter (\<lambda>d. cand_Host d \<noteq> ?p) cs)"
      by (induction cs) auto
    from arg_cong [OF this, of "image_mset cand_Host"] rest Some show ?thesis
      by (simp add: preference_def del: mset_filter)
  qed
qed

text \<open>With a cap, the preference list has the hosts within the cap first.\<close>

lemma preference_sorted:
  assumes "distinct (map cand_Host cs)" and "c \<in> set cs" and "minInFlight cs = Some m" and "0 \<le> delta"
    and "InFlight c \<le> m + delta"
  shows "sorted_wrt (\<lambda>a b. \<forall>x y. x \<in> set cs \<and> cand_Host x = a \<and> y \<in> set cs \<and> cand_Host y = b
      \<and> InFlight y \<le> m + delta \<longrightarrow> InFlight x \<le> m + delta) (preference cs (cand_Host c) delta)"
proof -
  let ?R = "\<lambda>a b. \<forall>x y. x \<in> set cs \<and> cand_Host x = a \<and> y \<in> set cs \<and> cand_Host y = b
      \<and> InFlight y \<le> m + delta \<longrightarrow> InFlight x \<le> m + delta"
  have inj: "x = y" if "x \<in> set cs" "y \<in> set cs" "cand_Host x = cand_Host y" for x y
    using that assms(1) by (auto simp: distinct_map dest: inj_onD)
  have within: "sorted_wrt ?R (map cand_Host ds)" if "\<forall>d \<in> set ds. d \<in> set cs \<and> InFlight d \<le> m + delta" for ds
    using that by (induction ds) (auto dest: inj)
  have over: "sorted_wrt ?R (map cand_Host ds)" if "\<forall>d \<in> set ds. d \<in> set cs \<and> m + delta < InFlight d" for ds
    using that by (induction ds; simp) (metis inj not_less)
  have split: "sorted_wrt ?R (map cand_Host xs @ map cand_Host ys)"
    if "\<forall>d \<in> set xs. d \<in> set cs \<and> InFlight d \<le> m + delta" "\<forall>d \<in> set ys. d \<in> set cs \<and> m + delta < InFlight d" for xs ys
    using that within [of xs] over [of ys] by (auto simp: sorted_wrt_append dest: inj)
  let ?xs = "c # filter (\<lambda>d. cand_Host d \<noteq> cand_Host c \<and> InFlight d \<le> m + delta) cs"
  let ?ys = "filter (\<lambda>d. cand_Host d \<noteq> cand_Host c \<and> m + delta < InFlight d) cs"
  have "preference cs (cand_Host c) delta = map cand_Host ?xs @ map cand_Host ?ys"
    using assms(3,4) by (simp add: preference_def)
  moreover have "sorted_wrt ?R (map cand_Host ?xs @ map cand_Host ?ys)"
    by (rule split) (use assms(2,5) in auto)
  ultimately show ?thesis by (simp only:)
qed

lemma Decide_shape:
  assumes "Decide xxh rate keyed pool thr delta = Some d" and "minInFlight (Candidates pool) = Some m"
  obtains key ranked c where "keyed = Some key" "ranked = rank_candidates xxh key (Candidates pool)"
    "minInFlight ranked = Some m" "c \<in> set ranked" "0 \<le> delta \<longrightarrow> InFlight c \<le> m + delta"
    "1 \<le> dec_r d" "dec_r d \<le> int (length ranked)"
    "dec_demoted d \<longleftrightarrow> 0 \<le> delta \<and> (\<forall>w \<in> set (take (nat (dec_r d)) ranked). m + delta < InFlight w)"
    "Order d = preference ranked (cand_Host c) delta"
proof -
  obtain key where key: "keyed = Some key" using assms(1) by (cases keyed) (auto simp: Decide_def)
  define ranked where "ranked = rank_candidates xxh key (Candidates pool)"
  define r where "r = replicationFactor rate thr (int (length ranked))"
  have ne: "Candidates pool \<noteq> []" "ranked \<noteq> []" using assms(2) by (auto simp: ranked_def)
  have "max 1 (int (length ranked)) = int (length ranked)" using ne(2) by (cases ranked) auto
  then have r: "1 \<le> r" "r \<le> int (length ranked)"
    using replicationFactor_bounds [of rate thr "int (length ranked)"] by (simp_all add: r_def)
  obtain m' where m': "minInFlight ranked = Some m'" using ne by (cases "minInFlight ranked") auto
  have "m' = m"
    using minInFlight_le [OF m'] minInFlight_le [OF assms(2)] by (auto simp: ranked_def intro: order.antisym)
  with m' have m: "minInFlight ranked = Some m" by simp
  have "1 \<le> nat r" "nat r \<le> length ranked" using r by linarith+
  from cappedPick_spec [OF ne(2) this m, of delta] obtain c dem where
    c: "cappedPick ranked (nat r) delta = Some (cand_Host c, dem)" "c \<in> set ranked" "0 \<le> delta \<longrightarrow> InFlight c \<le> m + delta"
    "dem \<longleftrightarrow> 0 \<le> delta \<and> (\<forall>w \<in> set (take (nat r) ranked). m + delta < InFlight w)" by blast
  have "\<not> Size pool < 2" using assms(1) key by (auto simp: Decide_def split: if_splits)
  with assms(1) key ne(1) c(1) have "d = \<lparr>Order = preference ranked (cand_Host c) delta, dec_pool = pool,
      dec_home = cand_Host (hd ranked), dec_r = r, dec_demoted = dem\<rparr>"
    by (simp add: Decide_def r_def ranked_def Let_def)
  with that [OF key ranked_def m c(2,3)] r c(4) show thesis by simp
qed

section \<open>Properties\<close>

text \<open>
  The ranking of a key does not depend on the order in which the pool lists its replicas, and
  a change of the pool moves no other replica: after replicas leave, the survivors keep their
  relative order, so a key's home changes only if its home left.
\<close>

theorem ranking_stable_under_pool_changes:
  assumes "distinct (map cand_Host cs)"
  shows "(mset ds = mset cs \<longrightarrow> rank_candidates xxh key ds = rank_candidates xxh key cs)
    \<and> rank_candidates xxh key (filter P cs) = filter P (rank_candidates xxh key cs)
    \<and> (cs \<noteq> [] \<and> P (hd (rank_candidates xxh key cs)) \<longrightarrow>
         hd (rank_candidates xxh key (filter P cs)) = hd (rank_candidates xxh key cs))"
proof -
  have "rank_candidates xxh key ds = rank_candidates xxh key cs" if "mset ds = mset cs"
    using that unfolding rank_candidates_def
    by (intro rank_unique [unfolded rank_candidates_def] assms hrw.sort_by_sorted) simp
  moreover have "hd (filter P (rank_candidates xxh key cs)) = hd (rank_candidates xxh key cs)"
    if "cs \<noteq> []" "P (hd (rank_candidates xxh key cs))"
    using that by (cases "rank_candidates xxh key cs") auto
  ultimately show ?thesis using rank_filter [OF assms] by simp
qed

text \<open>The home is a replica with the greatest score.\<close>

lemma home_greatest_score:
  assumes "c \<in> set cs"
  shows "score xxh key c \<le> score xxh key (hd (rank_candidates xxh key cs))"
proof -
  obtain b bs where "rank_candidates xxh key cs = b # bs" using assms by (cases "rank_candidates xxh key cs") auto
  then have "\<not> rank_less xxh key c b" unfolding rank_candidates_def by (rule hrw.sort_by_head_least [OF _ assms])
  with \<open>rank_candidates xxh key cs = b # bs\<close> show ?thesis by (auto simp: rank_less_def)
qed

definition pool_candidates_example :: "Candidate list" where
  "pool_candidates_example = map (\<lambda>(h, n). \<lparr>cand_Host = h, InFlight = n\<rparr>) [(''a'', 3), (''b'', 0), (''c'', 1)]"

definition hash_example :: hash64 where
  "hash_example s = fold (\<lambda>c acc. acc * 31 + of_nat (of_char c)) s 7"

theorem ranking_stable_under_pool_changes_witness:
  "rank_candidates hash_example ''k'' (filter (\<lambda>c. cand_Host c \<noteq> ''a'') pool_candidates_example)
     = filter (\<lambda>c. cand_Host c \<noteq> ''a'') (rank_candidates hash_example ''k'' pool_candidates_example)"
proof -
  have "distinct (map cand_Host pool_candidates_example)" by (simp add: pool_candidates_example_def)
  from ranking_stable_under_pool_changes [OF this] show ?thesis by blast
qed

text \<open>
  A routing decision is a complete preference list: it names every replica of the pool exactly
  once and starts with a replica of the pool. With a load cap, the first choice is within the cap of
  the least loaded replica and every replica within the cap comes before every replica over it. The
  pick is reported as demoted exactly when the whole warm set was over the cap.
\<close>

theorem decision_order_complete_and_capped:
  assumes "distinct (map cand_Host (Candidates pool))" and "minInFlight (Candidates pool) = Some m"
    and "Decide xxh rate keyed pool thr delta = Some d"
  shows "mset (Order d) = mset (map cand_Host (Candidates pool))
    \<and> (0 \<le> delta \<longrightarrow> sorted_wrt (\<lambda>a b. \<forall>x y. x \<in> set (Candidates pool) \<and> cand_Host x = a \<and> y \<in> set (Candidates pool)
          \<and> cand_Host y = b \<and> InFlight y \<le> m + delta \<longrightarrow> InFlight x \<le> m + delta) (Order d))
    \<and> (dec_demoted d \<longleftrightarrow> 0 \<le> delta \<and>
        (\<forall>w \<in> set (take (nat (dec_r d)) (rank_candidates xxh (the keyed) (Candidates pool))). m + delta < InFlight w))
    \<and> 1 \<le> dec_r d \<and> dec_r d \<le> int (length (Candidates pool))"
proof -
  from assms(3,2) obtain key ranked c where d: "keyed = Some key" "ranked = rank_candidates xxh key (Candidates pool)"
    "minInFlight ranked = Some m" "c \<in> set ranked" "0 \<le> delta \<longrightarrow> InFlight c \<le> m + delta"
    "1 \<le> dec_r d" "dec_r d \<le> int (length ranked)"
    "dec_demoted d \<longleftrightarrow> 0 \<le> delta \<and> (\<forall>w \<in> set (take (nat (dec_r d)) ranked). m + delta < InFlight w)"
    "Order d = preference ranked (cand_Host c) delta" by (rule Decide_shape)
  have dist: "distinct (map cand_Host ranked)"
    using assms(1) d(2) by (metis mset_map mset_eq_imp_distinct_iff rank_candidates_mset)
  have "set ranked = set (Candidates pool)" "mset (map cand_Host ranked) = mset (map cand_Host (Candidates pool))"
    "length ranked = length (Candidates pool)" using d(2) by simp_all
  with preference_mset [OF dist d(4)] preference_sorted [OF dist d(4,3)] d show ?thesis by simp
qed

definition decision_example :: "Decision option" where
  "decision_example =
     Decide hash_example 40 (Some ''k'') \<lparr>Candidates = pool_candidates_example, Size = 3\<rparr> 15 1"

theorem decision_order_complete_and_capped_witness:
  "\<exists>d. decision_example = Some d \<and> mset (Order d) = mset [''a'', ''b'', ''c''] \<and> 1 \<le> dec_r d \<and> dec_r d \<le> 3"
proof -
  have "decision_example \<noteq> None" by code_simp
  then obtain d where d: "decision_example = Some d" by blast
  have "distinct (map cand_Host pool_candidates_example)" "minInFlight pool_candidates_example = Some 0"
    by (simp_all add: pool_candidates_example_def)
  with decision_order_complete_and_capped [of "\<lparr>Candidates = pool_candidates_example, Size = 3\<rparr>" 0 hash_example 40
      "Some ''k''" 15 1 d] d show ?thesis
    by (simp add: decision_example_def) (simp add: pool_candidates_example_def)
qed

end
