(* ===== verification/Json_Value.thy ===== *)
theory Json_Value
  imports Go_Strings
begin

text \<open>
  Decoded JSON as the Go code holds it in an \<open>any\<close>: \<open>nil\<close>, \<open>bool\<close>, \<open>json.Number\<close> (its literal),
  \<open>float64\<close> (a finite one, or a NaN or infinity by the name Go prints for it), the integers the router
  itself writes into a body, \<open>string\<close>, \<open>[]any\<close> and \<open>map[string]any\<close>. A missing map key reads as \<open>nil\<close>, and a failed type assertion with the
  comma-ok form yields the zero value. The decoder itself is a parameter wherever it is called.
\<close>

datatype json =
  JNull
| JBool bool
| JNumber string
| JFloat rat
| JNonFinite string
| JInt int
| JString string
| JArray "json list"
| JObject "(string \<times> json) list"

type_synonym json_object = "(string, json) gomap"

definition field :: "json_object \<Rightarrow> string \<Rightarrow> json" where
  "field m k = (case map_of m k of None \<Rightarrow> JNull | Some v \<Rightarrow> v)"

fun as_string :: "json \<Rightarrow> string" where
  "as_string (JString s) = s"
| "as_string _ = []"

fun as_array :: "json \<Rightarrow> json list option" where
  "as_array (JArray xs) = Some xs"
| "as_array _ = None"

fun as_object :: "json \<Rightarrow> json_object option" where
  "as_object (JObject m) = Some m"
| "as_object _ = None"

definition string_field :: "json_object \<Rightarrow> string \<Rightarrow> string" where
  "string_field m k = as_string (field m k)"

lemma field_update [simp]: "field (AList.update k v m) k' = (if k' = k then v else field m k')"
  by (simp add: field_def)

lemma field_delete [simp]: "field (AList.delete k m) k' = (if k' = k then JNull else field m k')"
  by (simp add: field_def)

lemma as_array_Some [simp]: "as_array v = Some xs \<longleftrightarrow> v = JArray xs"
  by (cases v) auto

lemma as_object_Some [simp]: "as_object v = Some m \<longleftrightarrow> v = JObject m"
  by (cases v) auto

text \<open>Every map inside a value has distinct keys, as a Go map does.\<close>

fun wf_json :: "json \<Rightarrow> bool" where
  "wf_json (JArray xs) = list_all wf_json xs"
| "wf_json (JObject m) = (wf_map m \<and> list_all (\<lambda>p. wf_json (snd p)) m)"
| "wf_json _ = True"

text \<open>Two values are the same up to the iteration order of their maps.\<close>

fun json_eqv :: "json \<Rightarrow> json \<Rightarrow> bool" and json_eqv_list :: "json list \<Rightarrow> json list \<Rightarrow> bool"
  and json_eqv_fields :: "(string \<times> json) list \<Rightarrow> json_object \<Rightarrow> bool" where
  "json_eqv (JArray xs) w = (case w of JArray ys \<Rightarrow> json_eqv_list xs ys | _ \<Rightarrow> False)"
| "json_eqv (JObject m) w =
     (case w of JObject n \<Rightarrow> set (map fst m) = set (map fst n) \<and> json_eqv_fields m n | _ \<Rightarrow> False)"
| "json_eqv v w = (v = w)"
| "json_eqv_list [] ys = (ys = [])"
| "json_eqv_list (x # xs) ys = (case ys of [] \<Rightarrow> False | y # ys' \<Rightarrow> json_eqv x y \<and> json_eqv_list xs ys')"
| "json_eqv_fields [] n = True"
| "json_eqv_fields (p # m) n =
     ((case map_of n (fst p) of None \<Rightarrow> False | Some w \<Rightarrow> json_eqv (snd p) w) \<and> json_eqv_fields m n)"

text \<open>HTTP headers: canonical names with their values in order.\<close>

type_synonym header = "(string, string list) gomap"

definition header_values :: "header \<Rightarrow> string \<Rightarrow> string list" where
  "header_values h name = (case map_of h name of None \<Rightarrow> [] | Some vs \<Rightarrow> vs)"

definition header_get :: "header \<Rightarrow> string \<Rightarrow> string" where
  "header_get h name = (case header_values h name of [] \<Rightarrow> [] | v # _ \<Rightarrow> v)"

end
