(* ===== verification/Cache_Salt.thy ===== *)
theory Cache_Salt
  imports Json_Value
begin

text \<open>
  Partitioning of the engines' prefix cache (\<open>cachesalt/cachesalt.go\<close>, \<open>cache_salt.go\<close> and the
  identity functions of \<open>main.go\<close>): the length-prefixed framing that is hashed, the salt derived from
  it, the identity a bearer token stands for, and the two body fields the router owns. SHA-256 and
  the decoding of JSON into a one-field struct are parameters; the panic on a field of 4 GiB or more
  is \<open>None\<close>. Unpadded URL-safe base64 is defined here, with its decoder and their round trip.
\<close>

section \<open>Unpadded URL-safe base64\<close>

definition b64_alphabet :: string where
  "b64_alphabet = ''ABCDEFGHIJKLMNOPQRSTUVWXYZabcdefghijklmnopqrstuvwxyz0123456789-_''"

definition b64_char :: "nat \<Rightarrow> char" where
  "b64_char n = b64_alphabet ! n"

fun index_of :: "nat \<Rightarrow> 'a \<Rightarrow> 'a list \<Rightarrow> nat option" where
  "index_of i c [] = None"
| "index_of i c (x # xs) = (if x = c then Some i else index_of (Suc i) c xs)"

definition b64_value :: "char \<Rightarrow> nat option" where
  "b64_value c = index_of 0 c b64_alphabet"

fun b64_sextets :: "nat list \<Rightarrow> nat list" where
  "b64_sextets [] = []"
| "b64_sextets [a] = [a div 4, a mod 4 * 16]"
| "b64_sextets [a, b] = [a div 4, a mod 4 * 16 + b div 16, b mod 16 * 4]"
| "b64_sextets (a # b # c # rest) =
     [a div 4, a mod 4 * 16 + b div 16, b mod 16 * 4 + c div 64, c mod 64] @ b64_sextets rest"

fun b64_bytes :: "nat list \<Rightarrow> nat list option" where
  "b64_bytes [] = Some []"
| "b64_bytes [w] = None"
| "b64_bytes [w, x] = Some [w * 4 + x div 16]"
| "b64_bytes [w, x, y] = Some [w * 4 + x div 16, x mod 16 * 16 + y div 4]"
| "b64_bytes (w # x # y # z # rest) =
     map_option (\<lambda>bs. [w * 4 + x div 16, x mod 16 * 16 + y div 4, y mod 4 * 64 + z] @ bs) (b64_bytes rest)"

definition EncodeToString :: "string \<Rightarrow> string" where
  "EncodeToString s = map b64_char (b64_sextets (map of_char s))"

text \<open>The decoder skips line breaks and, not being strict, ignores the unused bits of the last sextet.\<close>

definition DecodeString :: "string \<Rightarrow> string option" where
  "DecodeString s =
     (case those (map b64_value (filter (\<lambda>c. c \<noteq> byte 10 \<and> c \<noteq> byte 13) s)) of
        None \<Rightarrow> None
      | Some ws \<Rightarrow> map_option (map char_of) (b64_bytes ws))"

lemma b64_sextets_bound: "\<forall>b \<in> set bs. b < 256 \<Longrightarrow> \<forall>w \<in> set (b64_sextets bs). w < 64"
  by (induction bs rule: b64_sextets.induct) auto

lemma b64_group: 
  fixes a b c :: nat
  assumes "b < 256" "c < 256"
  shows "a div 4 * 4 + (a mod 4 * 16 + b div 16) div 16 = a"
    "(a mod 4 * 16 + b div 16) mod 16 * 16 + (b mod 16 * 4 + c div 64) div 4 = b"
    "(b mod 16 * 4 + c div 64) mod 4 * 64 + c mod 64 = c"
proof -
  have "b div 16 < 16" "c div 64 < 4" using assms by auto
  then show "a div 4 * 4 + (a mod 4 * 16 + b div 16) div 16 = a"
    "(a mod 4 * 16 + b div 16) mod 16 * 16 + (b mod 16 * 4 + c div 64) div 4 = b"
    "(b mod 16 * 4 + c div 64) mod 4 * 64 + c mod 64 = c"
    by auto
qed

lemma b64_bytes_sextets: "\<forall>b \<in> set bs. b < 256 \<Longrightarrow> b64_bytes (b64_sextets bs) = Some bs"
  by (induction bs rule: b64_sextets.induct) (use b64_group in \<open>auto simp: b64_group\<close>)

lemma index_of_nth:
  "distinct xs \<Longrightarrow> n < length xs \<Longrightarrow> index_of i (xs ! n) xs = Some (i + n)"
  by (induction xs arbitrary: i n) (auto simp: nth_Cons split: nat.splits)

lemma b64_alphabet_facts: "distinct b64_alphabet" "length b64_alphabet = 64"
  "byte 10 \<notin> set b64_alphabet" "byte 13 \<notin> set b64_alphabet"
  by (simp_all add: b64_alphabet_def) (code_simp+)

lemma b64_value_char: "n < 64 \<Longrightarrow> b64_value (b64_char n) = Some n"
  using index_of_nth [of b64_alphabet n 0] by (simp add: b64_value_def b64_char_def b64_alphabet_facts)

lemma b64_char_not_break: "n < 64 \<Longrightarrow> b64_char n \<noteq> byte 10 \<and> b64_char n \<noteq> byte 13"
  by (metis b64_alphabet_facts(2-4) b64_char_def nth_mem)

lemma those_map_b64: "\<forall>w \<in> set ws. w < 64 \<Longrightarrow> those (map (\<lambda>w. b64_value (b64_char w)) ws) = Some ws"
  by (induction ws) (simp_all add: b64_value_char)

lemma DecodeString_EncodeToString: "DecodeString (EncodeToString s) = Some s"
proof -
  let ?bs = "map of_char s :: nat list"
  have bytes: "\<forall>b \<in> set ?bs. b < 256" by auto
  note ws = b64_sextets_bound [OF bytes]
  then have "filter (\<lambda>c. c \<noteq> byte 10 \<and> c \<noteq> byte 13) (EncodeToString s) = EncodeToString s"
    by (auto simp: EncodeToString_def filter_id_conv b64_char_not_break)
  then show ?thesis
    using ws by (simp add: DecodeString_def EncodeToString_def those_map_b64 b64_bytes_sextets [OF bytes] comp_def)
qed

lemma EncodeToString_inj: "EncodeToString s = EncodeToString t \<longleftrightarrow> s = t"
  by (metis DecodeString_EncodeToString option.inject)

lemma EncodeToString_Nil [simp]: "EncodeToString s = [] \<longleftrightarrow> s = []"
proof -
  have "EncodeToString [] = []" by (simp add: EncodeToString_def)
  then show ?thesis using EncodeToString_inj by metis
qed

section \<open>Framing\<close>

text \<open>\<open>binary.BigEndian.PutUint32\<close>: the four bytes of the length, most significant first.\<close>

definition uint32_be :: "nat \<Rightarrow> string" where
  "uint32_be n = [byte (n div 2 ^ 24 mod 256), byte (n div 2 ^ 16 mod 256), byte (n div 2 ^ 8 mod 256), byte (n mod 256)]"

definition lp :: "string \<Rightarrow> string" where
  "lp f = uint32_be (length f) @ f"

definition MaxUint32 :: nat where "MaxUint32 = 2 ^ 32 - 1"

text \<open>The fields written to the hash after the tag; \<open>None\<close> is the panic.\<close>

fun frame_fields :: "string list \<Rightarrow> string option" where
  "frame_fields [] = Some []"
| "frame_fields (f # fs) =
     (if MaxUint32 < length f then None else map_option (\<lambda>rest. lp f @ rest) (frame_fields fs))"

definition Sum :: "(string \<Rightarrow> string) \<Rightarrow> string \<Rightarrow> string list \<Rightarrow> string option" where
  "Sum sha256 tag fields = map_option (\<lambda>b. sha256 (tag @ b)) (frame_fields fields)"

text \<open>
  A framing whose frames cannot be confused with each other, whatever follows them. Inside it the
  concatenation of frames determines the fields.
\<close>

locale framing =
  fixes frame :: "'a \<Rightarrow> 'b list" and ok :: "'a \<Rightarrow> bool"
  assumes frame_nonempty: "ok x \<Longrightarrow> frame x \<noteq> []"
    and frame_cancel: "ok x \<Longrightarrow> ok y \<Longrightarrow> frame x @ r = frame y @ s \<Longrightarrow> x = y \<and> r = s"
begin

lemma frames_inj:
  "list_all ok xs \<Longrightarrow> list_all ok ys \<Longrightarrow> concat (map frame xs) = concat (map frame ys) \<Longrightarrow> xs = ys"
proof (induction xs arbitrary: ys)
  case Nil
  then show ?case by (cases ys) (auto simp: frame_nonempty)
next
  case (Cons x xs)
  then obtain y ys' where ys: "ys = y # ys'" by (cases ys) (auto simp: frame_nonempty)
  with Cons.prems frame_cancel [of x y "concat (map frame xs)" "concat (map frame ys')"]
  have "x = y" "concat (map frame xs) = concat (map frame ys')" by auto
  with Cons ys show ?case by simp
qed

end

lemma uint32_be_length [simp]: "length (uint32_be n) = 4"
  by (simp add: uint32_be_def)

lemma byte_inj: "m < 256 \<Longrightarrow> n < 256 \<Longrightarrow> byte m = byte n \<Longrightarrow> m = n"
  unfolding byte_def by (metis mod_less of_char_of)

lemma uint32_value:
  assumes "n \<le> MaxUint32"
  shows "n = 2 ^ 24 * (n div 2 ^ 24 mod 256) + 2 ^ 16 * (n div 2 ^ 16 mod 256)
    + 2 ^ 8 * (n div 2 ^ 8 mod 256) + n mod 256"
proof -
  define q1 q2 q3 where "q1 = n div 256" and "q2 = q1 div 256" and "q3 = q2 div 256"
  have split: "n = 256 * q1 + n mod 256" "q1 = 256 * q2 + q1 mod 256" "q2 = 256 * q3 + q2 mod 256"
    by (simp_all add: q1_def q2_def q3_def)
  have "q3 < 256"
    using assms by (simp add: q3_def q2_def q1_def MaxUint32_def flip: div_mult2_eq)
  then have "n = 2 ^ 24 * (q3 mod 256) + 2 ^ 16 * (q2 mod 256) + 2 ^ 8 * (q1 mod 256) + n mod 256"
    using split by simp
  moreover have "q3 = n div 2 ^ 24" "q2 = n div 2 ^ 16" "q1 = n div 2 ^ 8"
    by (simp_all add: q1_def q2_def q3_def flip: div_mult2_eq)
  ultimately show ?thesis by simp
qed

lemma uint32_be_inj:
  assumes "m \<le> MaxUint32" "n \<le> MaxUint32" "uint32_be m = uint32_be n"
  shows "m = n"
proof -
  have "m div 2 ^ 24 mod 256 = n div 2 ^ 24 mod 256" "m div 2 ^ 16 mod 256 = n div 2 ^ 16 mod 256"
    "m div 2 ^ 8 mod 256 = n div 2 ^ 8 mod 256" "m mod 256 = n mod 256"
    using assms(3) unfolding uint32_be_def by (auto intro: byte_inj)
  then show ?thesis using uint32_value [OF assms(1)] uint32_value [OF assms(2)] by metis
qed

interpretation lp: framing lp "\<lambda>f. length f \<le> MaxUint32"
proof unfold_locales
  fix x :: string
  show "lp x \<noteq> []" unfolding lp_def by (simp add: uint32_be_def)
next
  fix x y r s :: string
  assume len: "length x \<le> MaxUint32" "length y \<le> MaxUint32" and "lp x @ r = lp y @ s"
  then have "uint32_be (length x) = uint32_be (length y) \<and> x @ r = y @ s" by (simp add: lp_def)
  with len show "x = y \<and> r = s" using uint32_be_inj by auto
qed

lemma frame_fields_Some:
  "frame_fields fs = Some b \<longleftrightarrow> list_all (\<lambda>f. length f \<le> MaxUint32) fs \<and> b = concat (map lp fs)"
  by (induction fs arbitrary: b) auto

lemma frame_fields_inj: "frame_fields fs = Some b \<Longrightarrow> frame_fields gs = Some b \<Longrightarrow> fs = gs"
  using lp.frames_inj [of fs gs] by (auto simp: frame_fields_Some)

section \<open>Derivation\<close>

definition SaltDomainTag :: string where "SaltDomainTag = ''tinfoil/cache-salt/v1''"

datatype salt_mode = ModeNone | ModeTenant | ModeUser

definition Derive :: "(string \<Rightarrow> string) \<Rightarrow> string \<Rightarrow> string \<Rightarrow> (string \<times> salt_mode) option" where
  "Derive sha256 tenantID userCacheSecret =
     (if tenantID = [] then Some ([], ModeNone)
      else if userCacheSecret = [] then
        map_option (\<lambda>sum. (EncodeToString sum, ModeTenant)) (Sum sha256 SaltDomainTag [tenantID])
      else
        map_option (\<lambda>sum. (EncodeToString sum, ModeUser)) (Sum sha256 SaltDomainTag [tenantID, userCacheSecret]))"

text \<open>The bytes that are hashed for an identity and a secret.\<close>

definition salt_fields :: "string \<Rightarrow> string \<Rightarrow> string list" where
  "salt_fields tenantID secret = (if secret = [] then [tenantID] else [tenantID, secret])"

definition salt_message :: "string \<Rightarrow> string \<Rightarrow> string" where
  "salt_message tenantID secret = SaltDomainTag @ concat (map lp (salt_fields tenantID secret))"

lemma salt_fields_inj: "salt_fields t s = salt_fields t' s' \<longleftrightarrow> t = t' \<and> s = s'"
  by (auto simp: salt_fields_def split: if_splits)

lemma Derive_Some:
  assumes "Derive sha256 t s = Some (salt, m)" "t \<noteq> []"
  shows "salt = EncodeToString (sha256 (salt_message t s))
    \<and> list_all (\<lambda>f. length f \<le> MaxUint32) (salt_fields t s)
    \<and> m = (if s = [] then ModeTenant else ModeUser)"
  using assms
  by (auto simp: Derive_def Sum_def salt_message_def salt_fields_def frame_fields_Some split: if_splits)

lemma salt_message_inj:
  assumes "list_all (\<lambda>f. length f \<le> MaxUint32) (salt_fields t s)"
    "list_all (\<lambda>f. length f \<le> MaxUint32) (salt_fields t' s')"
    "salt_message t s = salt_message t' s'"
  shows "t = t' \<and> s = s'"
  using lp.frames_inj [OF assms(1,2)] assms(3) by (simp add: salt_message_def salt_fields_inj)

text \<open>
  C21. Two derived salts agree only for the same identity and the same user secret: if they agree for
  different inputs, then the two hashed messages are different and have the same SHA-256, so no
  choice of secret moves a caller into another tenant's cache namespace without a hash collision.
\<close>
theorem salts_separate_principals:
  assumes "Derive sha256 t s = Some (salt, m)" "Derive sha256 t' s' = Some (salt, m')"
    and "t \<noteq> []" "t' \<noteq> []"
  shows "t = t' \<and> s = s' \<and> m = m'
    \<or> salt_message t s \<noteq> salt_message t' s' \<and> sha256 (salt_message t s) = sha256 (salt_message t' s')"
proof -
  note d = Derive_Some [OF assms(1,3)] and d' = Derive_Some [OF assms(2,4)]
  have hash: "sha256 (salt_message t s) = sha256 (salt_message t' s')"
    using d d' EncodeToString_inj by metis
  show ?thesis
  proof (cases "salt_message t s = salt_message t' s'")
    case True
    then have "t = t' \<and> s = s'" using d d' salt_message_inj by blast
    with d d' show ?thesis by simp
  qed (use hash in blast)
qed

text \<open>A hash that is only a prefix makes the second disjunct real; the identity rules it out.\<close>

theorem salts_separate_principals_witness:
  "Derive (\<lambda>m. m) ''org_1'' ''2345'' \<noteq> Derive (\<lambda>m. m) ''org_12345'' []
   \<and> Derive (\<lambda>m. take 4 m) ''org_1'' ''2345'' = Some (EncodeToString ''tinf'', ModeUser)"
proof
  show "Derive (\<lambda>m. m) ''org_1'' ''2345'' \<noteq> Derive (\<lambda>m. m) ''org_12345'' []"
  proof
    assume eq: "Derive (\<lambda>m. m) ''org_1'' ''2345'' = Derive (\<lambda>m. m) ''org_12345'' []"
    obtain salt m where d: "Derive (\<lambda>m. m) ''org_1'' ''2345'' = Some (salt, m)"
      by (simp add: Derive_def Sum_def MaxUint32_def)
    with eq have "Derive (\<lambda>m. m) ''org_12345'' [] = Some (salt, m)" by simp
    from salts_separate_principals [OF d this] show False by auto
  qed
qed (simp add: Derive_def Sum_def MaxUint32_def SaltDomainTag_def)


section \<open>The caller's identity\<close>

text \<open>\<open>BearerToken\<close> of \<open>manager/bearer.go\<close>.\<close>

definition BearerToken :: "string \<Rightarrow> string" where
  "BearerToken h =
     (let scheme = ''bearer ''
      in if length h < length scheme \<or> \<not> EqualFold (take (length scheme) h) scheme then []
         else TrimSpace (drop (length scheme) h))"

text \<open>
  \<open>json_string tag bytes\<close> stands for \<open>json.Unmarshal\<close> into a struct with one string field of that
  tag: \<open>None\<close> on an error, the empty string when the field is absent.
\<close>

definition jwtSubject :: "(string \<Rightarrow> string \<Rightarrow> string option) \<Rightarrow> string \<Rightarrow> string" where
  "jwtSubject json_string s =
     (case split_on (CHR ''.'') s of
        [h, p, sig] \<Rightarrow>
          (if h = [] \<or> p = [] \<or> sig = [] then []
           else if DecodeString sig = None \<or> DecodeString sig = Some [] then []
           else case DecodeString h of
                  None \<Rightarrow> []
                | Some hdr \<Rightarrow>
                    (case json_string ''typ'' hdr of
                       None \<Rightarrow> []
                     | Some typ \<Rightarrow>
                         (if TrimPrefix (ToLower typ) ''application/'' \<noteq> ''at+jwt'' then []
                          else case DecodeString p of
                                 None \<Rightarrow> []
                               | Some payload \<Rightarrow>
                                   (case json_string ''sub'' payload of None \<Rightarrow> [] | Some sub \<Rightarrow> sub))))
      | _ \<Rightarrow> [])"

definition cacheSaltIdentity :: "(string \<Rightarrow> string \<Rightarrow> string option) \<Rightarrow> string \<Rightarrow> string" where
  "cacheSaltIdentity json_string apiKey =
     (let sub = jwtSubject json_string apiKey in if sub \<noteq> [] then sub else apiKey)"

section \<open>The body fields the router owns\<close>

definition cacheSaltPaths :: "string list" where
  "cacheSaltPaths = [''/v1/chat/completions'', ''/v1/completions'', ''/v1/responses'', ''/v1/decisions'']"

text \<open>A \<open>nil\<close> body is \<open>None\<close> in the first component.\<close>

definition applyCacheSalt ::
  "(string \<Rightarrow> string) \<Rightarrow> (string \<Rightarrow> string \<Rightarrow> string option) \<Rightarrow> json_object option \<Rightarrow> string \<Rightarrow> string \<Rightarrow> bool
     \<Rightarrow> (json_object option \<times> salt_mode) option" where
  "applyCacheSalt sha256 json_string body path apiKey enabled =
     (case body of
        None \<Rightarrow> Some (None, ModeNone)
      | Some b \<Rightarrow>
          (let secret = string_field b ''user_cache_secret'';
               b1 = AList.delete ''cache_salt'' (AList.delete ''user_cache_secret'' b)
           in if \<not> enabled \<or> path \<notin> set cacheSaltPaths then Some (Some b1, ModeNone)
              else case Derive sha256 (cacheSaltIdentity json_string apiKey) secret of
                     None \<Rightarrow> None
                   | Some (salt, mode) \<Rightarrow>
                       if salt = [] then Some (Some b1, ModeNone)
                       else Some (Some (AList.update ''cache_salt'' (JString salt) b1), mode)))"

definition recordCacheSaltInjection ::
  "string \<Rightarrow> salt_mode \<Rightarrow> (string \<times> salt_mode, nat) gomap \<Rightarrow> (string \<times> salt_mode, nat) gomap" where
  "recordCacheSaltInjection model mode counts =
     (if mode = ModeNone then counts
      else AList.update (model, mode) ((case map_of counts (model, mode) of None \<Rightarrow> 0 | Some n \<Rightarrow> n) + 1) counts)"

lemma Derive_mode: "Derive sha256 t s = Some (salt, ModeNone) \<Longrightarrow> salt = []"
  by (auto simp: Derive_def split: if_splits)

lemma string_field_cong: "map_of b k = map_of b' k \<Longrightarrow> string_field b k = string_field b' k"
  by (simp add: string_field_def field_def)

definition strip_salt :: "json_object \<Rightarrow> json_object" where
  "strip_salt b = AList.delete ''cache_salt'' (AList.delete ''user_cache_secret'' b)"

lemma map_of_strip_salt [simp]:
  "map_of (strip_salt b) k = (if k = ''cache_salt'' \<or> k = ''user_cache_secret'' then None else map_of b k)"
  by (simp add: strip_salt_def)

lemma applyCacheSalt_cases:
  assumes "applyCacheSalt sha256 js (Some b) path apiKey enabled = Some (Some b', mode)"
  obtains (plain) "b' = strip_salt b" "mode = ModeNone"
  | (salted) salt where "enabled" "path \<in> set cacheSaltPaths" "mode \<noteq> ModeNone"
      "Derive sha256 (cacheSaltIdentity js apiKey) (string_field b ''user_cache_secret'') = Some (salt, mode)"
      "b' = AList.update ''cache_salt'' (JString salt) (strip_salt b)"
proof -
  let ?d = "Derive sha256 (cacheSaltIdentity js apiKey) (string_field b ''user_cache_secret'')"
  from assms have "b' = strip_salt b \<and> mode = ModeNone
    \<or> enabled \<and> path \<in> set cacheSaltPaths \<and> (\<exists>salt. salt \<noteq> [] \<and> ?d = Some (salt, mode)
        \<and> b' = AList.update ''cache_salt'' (JString salt) (strip_salt b))"
    unfolding applyCacheSalt_def Let_def option.case strip_salt_def [symmetric]
    by (auto split: if_splits option.splits)
  moreover have "salt = []" if "?d = Some (salt, mode)" "mode = ModeNone" for salt
    using that Derive_mode by blast
  ultimately show thesis using plain salted by blast
qed

lemma applyCacheSalt_ignores_client_salt:
  assumes "applyCacheSalt sha256 js (Some b) path apiKey enabled = Some (Some b', mode)"
  shows "\<exists>b''. applyCacheSalt sha256 js (Some (AList.update ''cache_salt'' v b)) path apiKey enabled
      = Some (Some b'', mode) \<and> map_of b'' = map_of b'"
proof -
  let ?b = "AList.update ''cache_salt'' v b"
  have same: "string_field ?b ''user_cache_secret'' = string_field b ''user_cache_secret''"
    by (rule string_field_cong) simp
  have maps: "map_of (strip_salt ?b) = map_of (strip_salt b)" by (rule ext) simp
  show ?thesis
    using assms unfolding applyCacheSalt_def Let_def option.case same strip_salt_def [symmetric]
    by (auto simp: fun_eq_iff maps split: if_splits option.splits)
qed

text \<open>
  The client never chooses the salt and the engine never sees the secret: the forwarded body has
  no \<open>user_cache_secret\<close>, carries a \<open>cache_salt\<close> exactly when a mode is reported, in which case it is
  the one derived from the caller's identity and its secret, is otherwise the client's body, and is
  the same (as a map) whatever \<open>cache_salt\<close> the client sent.
\<close>
theorem cache_salt_owned_by_router:
  assumes "applyCacheSalt sha256 js (Some b) path apiKey enabled = Some (Some b', mode)"
  shows "map_of b' ''user_cache_secret'' = None
    \<and> (mode = ModeNone \<longleftrightarrow> map_of b' ''cache_salt'' = None)
    \<and> (mode \<noteq> ModeNone \<longrightarrow> enabled \<and> path \<in> set cacheSaltPaths
        \<and> (\<exists>salt. Derive sha256 (cacheSaltIdentity js apiKey) (string_field b ''user_cache_secret'') = Some (salt, mode)
             \<and> map_of b' ''cache_salt'' = Some (JString salt)))
    \<and> (\<forall>k. k \<noteq> ''cache_salt'' \<and> k \<noteq> ''user_cache_secret'' \<longrightarrow> map_of b' k = map_of b k)
    \<and> (\<forall>v. \<exists>b''. applyCacheSalt sha256 js (Some (AList.update ''cache_salt'' v b)) path apiKey enabled
                    = Some (Some b'', mode) \<and> map_of b'' = map_of b')"
  using assms
proof (cases rule: applyCacheSalt_cases)
  case plain
  then show ?thesis using applyCacheSalt_ignores_client_salt [OF assms] by simp
next
  case (salted salt)
  then show ?thesis using applyCacheSalt_ignores_client_salt [OF assms] by simp
qed

definition js_example :: "string \<Rightarrow> string \<Rightarrow> string option" where
  "js_example tag bytes = None"

definition salt_body_example :: json_object where
  "salt_body_example =
     [(''cache_salt'', JString ''victim''), (''model'', JString ''m''), (''user_cache_secret'', JString ''s'')]"

theorem cache_salt_owned_by_router_witness:
  "applyCacheSalt (\<lambda>m. take 3 m) js_example (Some salt_body_example) ''/v1/responses'' ''key'' True
     = Some (Some [(''model'', JString ''m''), (''cache_salt'', JString (EncodeToString ''tin''))], ModeUser)
   \<and> map_of [(''model'', JString ''m''), (''cache_salt'', JString (EncodeToString ''tin''))] ''user_cache_secret'' = None"
proof -
  have id: "cacheSaltIdentity js_example ''key'' = ''key''"
    by (simp add: cacheSaltIdentity_def jwtSubject_def)
  have run: "applyCacheSalt (\<lambda>m. take 3 m) js_example (Some salt_body_example) ''/v1/responses'' ''key'' True
     = Some (Some [(''model'', JString ''m''), (''cache_salt'', JString (EncodeToString ''tin''))], ModeUser)"
    by (simp add: applyCacheSalt_def id salt_body_example_def string_field_def field_def Derive_def Sum_def
        MaxUint32_def SaltDomainTag_def cacheSaltPaths_def Let_def)
  show ?thesis using run cache_salt_owned_by_router [OF run] by blast
qed

end
