(* ===== verification/Cache_Key.thy ===== *)
theory Cache_Key
  imports Cache_Salt Overload_Config
begin

text \<open>
  Derivation of a request's routing key (\<open>cacheroute/cacheroute.go\<close>): the resolved settings of a
  model, the prompt fields of the parsed body per endpoint, the bounded flattening of these fields
  into the prefix window, and the classification of the request. \<open>strconv.FormatFloat\<close> with the
  shortest precision is the parameter \<open>fmt\<close>; SHA-256 is a parameter. The recovered panic of \<open>Sum\<close> is the
  outcome \<open>error\<close>.
\<close>

section \<open>Settings\<close>

definition KeyDomainTag :: string where "KeyDomainTag = ''tinfoil/route-key/v1''"
definition prefixWindowCap :: int where "prefixWindowCap = 1024"
definition DefaultRetention :: duration where "DefaultRetention = 10 * minute"
definition DefaultMinPromptBytes :: int where "DefaultMinPromptBytes = 4096"
definition DefaultSplitThresholdRPM :: rat where "DefaultSplitThresholdRPM = 15"

datatype route_mode = ModeOff | ModeShadow | ModeEnforced

definition resolveMode :: "string \<Rightarrow> route_mode" where
  "resolveMode raw =
     (if raw = ''shadow'' then ModeShadow else if raw = ''enforced'' then ModeEnforced else ModeOff)"

record Settings =
  set_Mode :: route_mode
  set_Retention :: duration
  set_MinPromptBytes :: int
  set_SplitThresholdRPM :: rat
  set_MaxInflightDelta :: int
  set_Secret :: string

text \<open>\<open>secret\<close> is the installed routing secret (\<open>currentSecret\<close>), empty when none is.\<close>

definition SettingsFrom :: "string \<Rightarrow> CacheRouteConfig option \<Rightarrow> Settings" where
  "SettingsFrom secret c =
     (let s = \<lparr>set_Mode = ModeOff, set_Retention = DefaultRetention, set_MinPromptBytes = DefaultMinPromptBytes,
               set_SplitThresholdRPM = DefaultSplitThresholdRPM, set_MaxInflightDelta = -1, set_Secret = secret\<rparr>
      in case c of
           None \<Rightarrow> s
         | Some cr \<Rightarrow>
             s\<lparr>set_Mode := resolveMode (crc_Mode cr),
               set_Retention := (if 0 < RetentionWindowMinutes cr
                                 then wrap64 (RetentionWindowMinutes cr * minute) else set_Retention s),
               set_MinPromptBytes := (if 0 < crc_MinPromptBytes cr then crc_MinPromptBytes cr else set_MinPromptBytes s),
               set_SplitThresholdRPM :=
                 (if 0 < crc_SplitThresholdRPM cr then crc_SplitThresholdRPM cr else set_SplitThresholdRPM s),
               set_MaxInflightDelta :=
                 (case crc_MaxInflightDelta cr of
                    Some d \<Rightarrow> if 0 \<le> d then d else set_MaxInflightDelta s
                  | None \<Rightarrow> set_MaxInflightDelta s)\<rparr>)"

section \<open>The prompt fields of a body\<close>

fun firstMessageContent :: "json list \<Rightarrow> string list \<Rightarrow> json" where
  "firstMessageContent [] roles = JNull"
| "firstMessageContent (m # ms) roles =
     (case m of
        JObject msg \<Rightarrow>
          (if string_field msg ''role'' \<in> set roles then field msg ''content'' else firstMessageContent ms roles)
      | _ \<Rightarrow> firstMessageContent ms roles)"

definition promptFields :: "json_object \<Rightarrow> string \<Rightarrow> json \<times> json \<times> json" where
  "promptFields body path =
     (let tools = field body ''tools''
      in if path = ''/v1/responses'' then
           (tools, field body ''instructions'',
            (case field body ''input'' of
               JString s \<Rightarrow> JString s
             | JArray ms \<Rightarrow> firstMessageContent ms [''user'']
             | _ \<Rightarrow> JNull))
         else if path = ''/v1/completions'' then (tools, JNull, field body ''prompt'')
         else case field body ''messages'' of
                JArray ms \<Rightarrow> (tools, firstMessageContent ms [''system'', ''developer''], firstMessageContent ms [''user''])
              | _ \<Rightarrow> (tools, JNull, JNull))"

fun valueLen :: "json \<Rightarrow> int" where
  "valueLen (JString s) = int (length s)"
| "valueLen (JArray xs) = sum_list (map valueLen xs)"
| "valueLen (JObject m) = sum_list (map (\<lambda>p. valueLen (snd p)) m)"
| "valueLen _ = 0"

definition message_len :: "json \<Rightarrow> int" where
  "message_len m = (case m of JObject msg \<Rightarrow> valueLen (field msg ''content'') | _ \<Rightarrow> 0)"

definition messageContentLen :: "json \<Rightarrow> int" where
  "messageContentLen v = (case v of JArray ms \<Rightarrow> sum_list (map message_len ms) | _ \<Rightarrow> valueLen v)"

definition promptLen :: "json_object \<Rightarrow> string \<Rightarrow> json \<Rightarrow> int" where
  "promptLen body path tools =
     valueLen tools +
     (if path = ''/v1/responses'' then valueLen (field body ''instructions'') + messageContentLen (field body ''input'')
      else if path = ''/v1/completions'' then valueLen (field body ''prompt'')
      else messageContentLen (field body ''messages''))"

section \<open>The prefix window\<close>

definition appendFramed :: "string \<Rightarrow> string \<Rightarrow> int \<Rightarrow> string" where
  "appendFramed buf s budget =
     (let room = budget - int (length buf) - 4
      in if room \<le> 0 then buf else buf @ lp (take (nat room) s))"

definition sortedKeys :: "json_object \<Rightarrow> string list" where
  "sortedKeys m = sort (map fst m)"

lemma set_sortedKeys [simp]: "set (sortedKeys m) = fst ` set m"
  by (simp add: sortedKeys_def)

lemma field_in_set: "k \<in> fst ` set m \<Longrightarrow> (k, field m k) \<in> set m"
  by (auto simp: field_def split: option.splits dest: map_of_SomeD)
     (metis domIff dom_map_of_conv_image_fst image_eqI fst_conv)

lemma field_size: "(k, v) \<in> set m \<Longrightarrow> size (field m k) \<le> size_list (size_prod (\<lambda>_. 0) size) m"
  using size_list_estimation' [OF field_in_set, of k m "size (field m k)" "size_prod (\<lambda>_. 0) size"] by force

text \<open>
  The \<open>break\<close> of the two loops is a skip of the remaining elements: the buffer never shrinks, so once
  the budget is reached every later iteration breaks too.
\<close>

function appendFlattened :: "(rat \<Rightarrow> string) \<Rightarrow> string \<Rightarrow> json \<Rightarrow> int \<Rightarrow> string" where
  "appendFlattened fmt buf v budget =
     (if budget \<le> int (length buf) then buf
      else case v of
             JNull \<Rightarrow> buf
           | JString s \<Rightarrow> appendFramed buf s budget
           | JBool b \<Rightarrow> appendFramed buf (if b then ''true'' else ''false'') budget
           | JFloat x \<Rightarrow> appendFramed buf (fmt x) budget
           | JNonFinite t \<Rightarrow> appendFramed buf t budget
           | JNumber s \<Rightarrow> appendFramed buf s budget
           | JInt n \<Rightarrow> buf
           | JArray xs \<Rightarrow>
               fold (\<lambda>e buf. if budget \<le> int (length buf) then buf else appendFlattened fmt buf e budget) xs buf
           | JObject m \<Rightarrow>
               fold (\<lambda>k buf. if budget \<le> int (length buf) then buf
                             else appendFlattened fmt (appendFramed buf k budget) (field m k) budget)
                 (sortedKeys m) buf)"
  by pat_completeness auto
termination
  by (relation "measure (\<lambda>(fmt, buf, v, budget). size v)")
     (auto simp: less_Suc_eq_le intro: field_size dest: size_list_estimation' [where f = size, OF _ order_refl])

declare appendFlattened.simps [simp del]

definition flattenValue :: "(rat \<Rightarrow> string) \<Rightarrow> json \<Rightarrow> int \<Rightarrow> string" where
  "flattenValue fmt v budget = (if budget \<le> 0 then [] else appendFlattened fmt [] v budget)"

section \<open>The key\<close>

definition prompt_window :: "(rat \<Rightarrow> string) \<Rightarrow> json \<Rightarrow> json \<Rightarrow> json \<Rightarrow> string \<times> string \<times> string" where
  "prompt_window fmt tools system user =
     (let toolsB = flattenValue fmt tools prefixWindowCap;
          b1 = prefixWindowCap - int (length toolsB);
          systemB = flattenValue fmt system b1;
          b2 = b1 - int (length systemB)
      in (toolsB, systemB, flattenValue fmt user b2))"

definition deriveKey ::
  "(string \<Rightarrow> string) \<Rightarrow> (rat \<Rightarrow> string) \<Rightarrow> string \<Rightarrow> string \<Rightarrow> string \<Rightarrow> json \<Rightarrow> json \<Rightarrow> json \<Rightarrow> string option" where
  "deriveKey sha256 fmt secret salt promptCacheKey tools system user =
     (case prompt_window fmt tools system user of
        (toolsB, systemB, userB) \<Rightarrow>
          Sum sha256 KeyDomainTag [secret, salt, promptCacheKey, toolsB, systemB, userB])"

datatype Outcome =
  OutcomeKeyed | OutcomeNoSalt | OutcomeNoPrefix | OutcomeBelowFloor | OutcomePoolTooSmall | OutcomeError

record Request =
  req_Outcome :: Outcome
  req_Key :: string
  req_PromptBytes :: int

definition zero_key :: string where "zero_key = replicate 32 (byte 0)"

definition ExtractRequest ::
  "(string \<Rightarrow> string) \<Rightarrow> (rat \<Rightarrow> string) \<Rightarrow> json_object \<Rightarrow> string \<Rightarrow> string \<Rightarrow> Settings \<Rightarrow> Request" where
  "ExtractRequest sha256 fmt body path salt s =
     (let promptCacheKey = string_field body ''prompt_cache_key''
      in case promptFields body path of
           (tools, system, user) \<Rightarrow>
             (let n = promptLen body path tools
              in if salt = [] then \<lparr>req_Outcome = OutcomeNoSalt, req_Key = zero_key, req_PromptBytes = n\<rparr>
                 else if tools = JNull \<and> system = JNull \<and> user = JNull \<and> promptCacheKey = [] then
                   \<lparr>req_Outcome = OutcomeNoPrefix, req_Key = zero_key, req_PromptBytes = n\<rparr>
                 else if n < set_MinPromptBytes s \<and> promptCacheKey = [] then
                   \<lparr>req_Outcome = OutcomeBelowFloor, req_Key = zero_key, req_PromptBytes = n\<rparr>
                 else case deriveKey sha256 fmt (set_Secret s) salt promptCacheKey tools system user of
                        None \<Rightarrow> \<lparr>req_Outcome = OutcomeError, req_Key = zero_key, req_PromptBytes = n\<rparr>
                      | Some k \<Rightarrow> \<lparr>req_Outcome = OutcomeKeyed, req_Key = k, req_PromptBytes = n\<rparr>))"


section \<open>The bounded walk equals framing all leaves\<close>

text \<open>All strings of a value in rendering order, without any bound.\<close>

function leaves :: "(rat \<Rightarrow> string) \<Rightarrow> json \<Rightarrow> string list" where
  "leaves fmt v =
     (case v of
        JNull \<Rightarrow> []
      | JString s \<Rightarrow> [s]
      | JBool b \<Rightarrow> [if b then ''true'' else ''false'']
      | JFloat x \<Rightarrow> [fmt x]
      | JNonFinite t \<Rightarrow> [t]
      | JNumber s \<Rightarrow> [s]
      | JInt n \<Rightarrow> []
      | JArray xs \<Rightarrow> concat (map (leaves fmt) xs)
      | JObject m \<Rightarrow> concat (map (\<lambda>k. k # leaves fmt (field m k)) (sortedKeys m)))"
  by pat_completeness auto
termination
  by (relation "measure (\<lambda>(fmt, v). size v)")
     (auto simp: less_Suc_eq_le intro: field_size dest: size_list_estimation' [where f = size, OF _ order_refl])

declare leaves.simps [simp del]

lemma leaves_containers:
  "leaves fmt (JArray xs) = concat (map (leaves fmt) xs)"
  "leaves fmt (JObject m) = concat (map (\<lambda>k. k # leaves fmt (field m k)) (sortedKeys m))"
  by (subst leaves.simps, simp)+

abbreviation frame_all :: "int \<Rightarrow> string list \<Rightarrow> string \<Rightarrow> string" where
  "frame_all budget ts buf \<equiv> fold (\<lambda>s b. appendFramed b s budget) ts buf"

lemma appendFramed_full: "budget \<le> int (length buf) + 4 \<Longrightarrow> appendFramed buf s budget = buf"
  by (simp add: appendFramed_def)

lemma frame_all_full: "budget \<le> int (length buf) + 4 \<Longrightarrow> frame_all budget ts buf = buf"
  by (induction ts) (simp_all add: appendFramed_full)

lemma frame_all_concat:
  assumes "\<And>x b. x \<in> set xs \<Longrightarrow> int (length b) < budget \<Longrightarrow> f x b = frame_all budget (g x) b"
  shows "fold (\<lambda>x b. if budget \<le> int (length b) then b else f x b) xs buf = frame_all budget (concat (map g xs)) buf"
  using assms
proof (induction xs arbitrary: buf)
  case (Cons x xs)
  have "(if budget \<le> int (length buf) then buf else f x buf) = frame_all budget (g x) buf"
    using Cons.prems [of x buf] by (auto simp: frame_all_full)
  with Cons show ?case by simp
qed simp

lemma appendFlattened_leaves: "appendFlattened fmt buf v budget = frame_all budget (leaves fmt v) buf"
proof (induction fmt buf v budget rule: appendFlattened.induct)
  case (1 fmt buf v budget)
  show ?case
  proof (cases "budget \<le> int (length buf)")
    case True
    then show ?thesis by (subst appendFlattened.simps) (simp add: frame_all_full)
  next
    case room: False
    show ?thesis
    proof (cases v)
      case (JArray xs)
      have "appendFlattened fmt buf v budget = frame_all budget (concat (map (leaves fmt) xs)) buf"
        using room 1(1) [OF room JArray] by (subst appendFlattened.simps) (simp add: JArray frame_all_concat)
      then show ?thesis by (simp add: leaves_containers JArray)
    next
      case (JObject m)
      let ?g = "\<lambda>k. k # leaves fmt (field m k)"
      have "appendFlattened fmt (appendFramed b k budget) (field m k) budget = frame_all budget (?g k) b"
        if "k \<in> set (sortedKeys m)" "int (length b) < budget" for k b
        using 1(2) [OF room JObject that(1)] that(2) by simp
      from frame_all_concat [where f = "\<lambda>k b. appendFlattened fmt (appendFramed b k budget) (field m k) budget"
          and g = ?g and xs = "sortedKeys m", OF this]
      have "appendFlattened fmt buf v budget = frame_all budget (concat (map ?g (sortedKeys m))) buf"
        using room by (subst appendFlattened.simps) (simp add: JObject)
      then show ?thesis by (simp add: leaves_containers JObject)
    qed (use room in \<open>simp_all add: appendFlattened.simps leaves.simps\<close>)
  qed
qed

lemma flattenValue_leaves: "flattenValue fmt v budget = frame_all budget (leaves fmt v) []"
  by (simp add: flattenValue_def appendFlattened_leaves frame_all_full)

lemma lp_length [simp]: "length (lp s) = length s + 4"
  by (simp add: lp_def)

lemma appendFramed_bound: "int (length buf) \<le> max b0 budget \<Longrightarrow> int (length (appendFramed buf s budget)) \<le> max b0 budget"
  by (auto simp: appendFramed_def Let_def)

lemma frame_all_bound: "int (length buf) \<le> max b0 budget \<Longrightarrow> int (length (frame_all budget ts buf)) \<le> max b0 budget"
  by (induction ts arbitrary: buf) (simp_all add: appendFramed_bound)

lemma flattenValue_bound: "int (length (flattenValue fmt v budget)) \<le> max 0 budget"
  unfolding flattenValue_leaves by (rule frame_all_bound) simp

text \<open>A leaf that fills the window hides its own tail and everything after it.\<close>

lemma frame_all_stable:
  assumes "budget \<le> int (length (frame_all budget ts buf)) + 4 + int (length s)"
  shows "frame_all budget (ts @ (s @ rest) # us) buf = frame_all budget (ts @ [s]) buf"
proof -
  let ?b = "frame_all budget ts buf"
  have same: "appendFramed ?b (s @ rest) budget = appendFramed ?b s budget"
    using assms by (simp add: appendFramed_def Let_def)
  have "budget \<le> int (length (appendFramed ?b s budget)) + 4"
    using assms by (auto simp: appendFramed_def Let_def)
  then show ?thesis by (simp add: same frame_all_full)
qed


lemma frame_all_extends: "\<exists>ext. frame_all budget ts buf = buf @ ext"
  by (induction ts arbitrary: buf) (auto simp: appendFramed_def Let_def, metis append_assoc)

lemma flattenValue_stable:
  assumes "leaves fmt v = ts @ [s]" "leaves fmt v' = ts @ (s @ rest) # us"
    and full: "budget \<le> int (length (flattenValue fmt v budget))"
  shows "flattenValue fmt v' budget = flattenValue fmt v budget"
proof -
  let ?b = "frame_all budget ts []"
  have "budget \<le> int (length (appendFramed ?b s budget))" using assms by (simp add: flattenValue_leaves)
  then have "budget \<le> int (length ?b) + 4 + int (length s)"
    by (auto simp: appendFramed_def Let_def split: if_splits)
  then show ?thesis using assms(1,2) frame_all_stable [of budget ts "[]" s rest us] by (simp add: flattenValue_leaves)
qed

text \<open>
  The key reads at most the first 1024 bytes of the flattened prompt, and once that window is full
  it no longer depends on the rest: extending the last string of the user message, or adding further
  parts after it, keeps the key.
\<close>
theorem routing_key_window:
  assumes "leaves fmt user = ts @ [s]" "leaves fmt user' = ts @ (s @ rest) # us"
    and "prompt_window fmt tools system user = (toolsB, systemB, userB)"
  shows "int (length toolsB + length systemB + length userB) \<le> prefixWindowCap
    \<and> (int (length toolsB + length systemB + length userB) = prefixWindowCap \<longrightarrow>
        deriveKey sha256 fmt secret salt pck tools system user' = deriveKey sha256 fmt secret salt pck tools system user)"
proof -
  define b1 where "b1 = prefixWindowCap - int (length toolsB)"
  define b2 where "b2 = b1 - int (length systemB)"
  have parts: "toolsB = flattenValue fmt tools prefixWindowCap" "systemB = flattenValue fmt system b1"
    "userB = flattenValue fmt user b2"
    and w': "prompt_window fmt tools system user' = (toolsB, systemB, flattenValue fmt user' b2)"
    using assms(3) by (auto simp: prompt_window_def Let_def b1_def b2_def)
  have nonneg: "0 \<le> b1" "0 \<le> b2" "int (length userB) \<le> b2"
    using flattenValue_bound [of fmt tools prefixWindowCap, folded parts(1)]
      flattenValue_bound [of fmt system b1, folded parts(2)] flattenValue_bound [of fmt user b2, folded parts(3)]
    by (simp_all add: b1_def b2_def prefixWindowCap_def)
  moreover have "flattenValue fmt user' b2 = userB" if "int (length toolsB + length systemB + length userB) = prefixWindowCap"
    using flattenValue_stable [OF assms(1,2), of b2, folded parts(3)] that by (simp add: b2_def b1_def)
  ultimately show ?thesis using w' assms(3) by (auto simp: deriveKey_def b1_def b2_def)
qed

theorem routing_key_window_witness:
  "deriveKey (\<lambda>m. m) (\<lambda>_. []) [] ''s'' [] JNull JNull (JArray [JString (replicate 1020 CHR ''a'' @ ''tail''), JString ''x''])
   = deriveKey (\<lambda>m. m) (\<lambda>_. []) [] ''s'' [] JNull JNull (JString (replicate 1020 CHR ''a''))"
proof -
  let ?s = "replicate 1020 (CHR ''a'')"
  have l: "leaves (\<lambda>_. []) (JString ?s) = [] @ [?s]"
    "leaves (\<lambda>_. []) (JArray [JString (?s @ ''tail''), JString ''x'']) = [] @ (?s @ ''tail'') # [''x'']"
    by (simp_all add: leaves.simps)
  have w: "prompt_window (\<lambda>_. []) JNull JNull (JString ?s) = ([], [], lp ?s)"
    by (simp add: prompt_window_def flattenValue_leaves leaves.simps appendFramed_def prefixWindowCap_def Let_def)
  have "int (length ([]::string) + length ([]::string) + length (lp ?s)) = prefixWindowCap"
    by (simp add: prefixWindowCap_def)
  with routing_key_window [OF l w] show ?thesis by blast
qed

section \<open>Determinism\<close>

lemma json_eqv_list_iff: "json_eqv_list xs ys \<longleftrightarrow> list_all2 json_eqv xs ys"
  by (induction xs arbitrary: ys) (auto simp: list_all2_Cons1 split: list.splits)

lemma json_eqv_fields_iff:
  "json_eqv_fields m n \<longleftrightarrow> (\<forall>(k, v) \<in> set m. \<exists>w. map_of n k = Some w \<and> json_eqv v w)"
  by (induction m) (auto split: option.splits)

lemma sortedKeys_cong:
  "wf_map m \<Longrightarrow> wf_map n \<Longrightarrow> set (map fst m) = set (map fst n) \<Longrightarrow> sortedKeys m = sortedKeys n"
  unfolding sortedKeys_def wf_map_def by (rule sorted_distinct_set_unique) (auto simp: distinct_map)

lemma leaves_eqv: "json_eqv v w \<Longrightarrow> wf_json v \<Longrightarrow> wf_json w \<Longrightarrow> leaves fmt v = leaves fmt w"
proof (induction v arbitrary: w)
  case (JArray xs)
  then obtain ys where w: "w = JArray ys" and all: "list_all2 json_eqv xs ys"
    by (cases w) (auto simp: json_eqv_list_iff)
  have "list_all2 (\<lambda>x y. leaves fmt x = leaves fmt y) xs ys"
    using all JArray.IH JArray.prems(2,3) unfolding w
    by (auto simp: list_all2_conv_all_nth list_all_length)
  then have "map (leaves fmt) xs = map (leaves fmt) ys"
    by (simp add: list_all2_conv_all_nth list_eq_iff_nth_eq)
  then show ?case by (simp add: leaves_containers w)
next
  case (JObject m)
  then obtain n where w: "w = JObject n" and keys: "set (map fst m) = set (map fst n)"
    and fs: "json_eqv_fields m n" by (cases w) auto
  have wf: "wf_map m" "wf_map n" using JObject.prems w by auto
  have "leaves fmt (field m k) = leaves fmt (field n k)" if "k \<in> fst ` set m" for k
  proof -
    obtain v where v: "(k, v) \<in> set m" using \<open>k \<in> fst ` set m\<close> by force
    then have mk: "map_of m k = Some v" using wf map_of_wf_iff by metis
    from fs v obtain u where u: "map_of n k = Some u" "json_eqv v u" by (auto simp: json_eqv_fields_iff)
    have "wf_json v" "wf_json u"
      using JObject.prems(2,3) v map_of_SomeD [OF u(1)] w by (auto simp: list_all_iff)
    then have "leaves fmt v = leaves fmt u" using JObject.IH [OF v, of v] u(2) by simp
    then show ?thesis using mk u(1) by (simp add: field_def)
  qed
  then have "map (\<lambda>k. k # leaves fmt (field m k)) (sortedKeys m) = map (\<lambda>k. k # leaves fmt (field n k)) (sortedKeys n)"
    using sortedKeys_cong [OF wf keys] by (metis (no_types, lifting) map_cong set_sortedKeys)
  then show ?case by (simp add: leaves_containers w)
qed (auto split: json.splits)


section \<open>Separation and stability of keys\<close>

definition key_fields :: "(rat \<Rightarrow> string) \<Rightarrow> string \<Rightarrow> string \<Rightarrow> string \<Rightarrow> json \<Rightarrow> json \<Rightarrow> json \<Rightarrow> string list" where
  "key_fields fmt secret salt pck tools system user =
     (case prompt_window fmt tools system user of
        (toolsB, systemB, userB) \<Rightarrow> [secret, salt, pck, toolsB, systemB, userB])"

definition key_message :: "(rat \<Rightarrow> string) \<Rightarrow> string \<Rightarrow> string \<Rightarrow> string \<Rightarrow> json \<Rightarrow> json \<Rightarrow> json \<Rightarrow> string" where
  "key_message fmt secret salt pck tools system user =
     KeyDomainTag @ concat (map lp (key_fields fmt secret salt pck tools system user))"

lemma deriveKey_Some:
  "deriveKey sha256 fmt secret salt pck tools system user = Some k \<longleftrightarrow>
     k = sha256 (key_message fmt secret salt pck tools system user)
     \<and> list_all (\<lambda>f. length f \<le> MaxUint32) (key_fields fmt secret salt pck tools system user)"
  by (auto simp: deriveKey_def Sum_def key_message_def key_fields_def frame_fields_Some split: prod.splits)

text \<open>The two domain tags differ before either ends, so no salt message is a key message.\<close>

lemma domain_tags_separate: "key_message fmt secret salt pck tools system user \<noteq> salt_message t s"
  by (simp add: key_message_def salt_message_def KeyDomainTag_def SaltDomainTag_def)

text \<open>
  Equal routing keys come from the same secret, salt and \<open>prompt_cache_key\<close> and the same prompt
  windows, or else exhibit two different messages with the same SHA-256: callers with different salts
  never share a key otherwise. The value of a key does not depend on the iteration order of any map in
  the body, and the messages hashed for keys and for salts are never the same.
\<close>
theorem routing_keys_separate:
  assumes "deriveKey sha256 fmt secret salt pck tools system user = Some k"
    and "deriveKey sha256 fmt secret' salt' pck' tools' system' user' = Some k"
    and "json_eqv user w" "wf_json user" "wf_json w"
  shows "(secret = secret' \<and> salt = salt' \<and> pck = pck'
        \<and> prompt_window fmt tools system user = prompt_window fmt tools' system' user'
      \<or> key_message fmt secret salt pck tools system user \<noteq> key_message fmt secret' salt' pck' tools' system' user'
        \<and> sha256 (key_message fmt secret salt pck tools system user)
          = sha256 (key_message fmt secret' salt' pck' tools' system' user'))
    \<and> deriveKey sha256 fmt secret salt pck tools system w = Some k
    \<and> key_message fmt secret salt pck tools system user \<noteq> salt_message t s"
proof (intro conjI)
  let ?m = "key_message fmt secret salt pck tools system user"
  let ?m' = "key_message fmt secret' salt' pck' tools' system' user'"
  have hash: "sha256 ?m = sha256 ?m'" using assms(1,2) by (simp add: deriveKey_Some)
  have "key_fields fmt secret salt pck tools system user = key_fields fmt secret' salt' pck' tools' system' user'"
    if "?m = ?m'"
    using that assms(1,2) lp.frames_inj by (simp add: deriveKey_Some key_message_def)
  then have "secret = secret' \<and> salt = salt' \<and> pck = pck'
      \<and> prompt_window fmt tools system user = prompt_window fmt tools' system' user'" if "?m = ?m'"
    using that by (auto simp: key_fields_def split: prod.splits)
  then show "secret = secret' \<and> salt = salt' \<and> pck = pck'
      \<and> prompt_window fmt tools system user = prompt_window fmt tools' system' user'
      \<or> ?m \<noteq> ?m' \<and> sha256 ?m = sha256 ?m'" using hash by blast
  show "deriveKey sha256 fmt secret salt pck tools system w = Some k"
    using assms(1) leaves_eqv [OF assms(3-5), of fmt]
    by (simp add: deriveKey_def prompt_window_def flattenValue_leaves)
qed (rule domain_tags_separate)

definition part_example :: "bool \<Rightarrow> json" where
  "part_example flip =
     JArray [JObject (if flip then [(''text'', JString ''hi''), (''type'', JString ''text'')]
                      else [(''type'', JString ''text''), (''text'', JString ''hi'')])]"

theorem routing_keys_separate_witness:
  "deriveKey (\<lambda>m. m) (\<lambda>_. []) [] ''s'' [] JNull JNull (part_example True)
     = deriveKey (\<lambda>m. m) (\<lambda>_. []) [] ''s'' [] JNull JNull (part_example False)
   \<and> deriveKey (\<lambda>m. m) (\<lambda>_. []) [] ''s'' [] JNull JNull (part_example False)
     \<noteq> deriveKey (\<lambda>m. m) (\<lambda>_. []) [] ''t'' [] JNull JNull (part_example False)"
proof -
  let ?k = "\<lambda>salt. deriveKey (\<lambda>m. m) (\<lambda>_. []) [] salt [] JNull JNull (part_example False)"
  have w: "prompt_window (\<lambda>_. []) JNull JNull (part_example False)
      = ([], [], frame_all 1024 [''text'', ''hi'', ''type'', ''text''] [])"
    by (simp add: prompt_window_def flattenValue_leaves part_example_def leaves.simps sortedKeys_def field_def
        prefixWindowCap_def Let_def)
  have b: "length (frame_all 1024 [''text'', ''hi'', ''type'', ''text''] []) \<le> MaxUint32"
    using frame_all_bound [of "[]" 0 1024 "[''text'', ''hi'', ''type'', ''text'']"]
    by (simp add: MaxUint32_def)
  have ok: "?k [c] = Some (key_message (\<lambda>_. []) [] [c] [] JNull JNull (part_example False))" for c
    unfolding deriveKey_Some key_fields_def w using b by (simp add: MaxUint32_def)
  have eqv: "json_eqv (part_example False) (part_example True)" "wf_json (part_example False)" "wf_json (part_example True)"
    by (auto simp: part_example_def wf_map_def)
  have "deriveKey (\<lambda>m. m) (\<lambda>_. []) [] ''s'' [] JNull JNull (part_example True) = ?k ''s''"
    using routing_keys_separate [OF ok ok eqv, of "CHR ''s''"] ok by simp
  moreover have "?k ''s'' \<noteq> ?k ''t''"
  proof
    assume eq: "?k ''s'' = ?k ''t''"
    have "?k ''t'' = Some (key_message (\<lambda>_. []) [] ''s'' [] JNull JNull (part_example False))"
      unfolding eq [symmetric] by (rule ok)
    from routing_keys_separate [OF ok this eqv] this ok show False by simp
  qed
  ultimately show ?thesis by simp
qed


definition has_role :: "string list \<Rightarrow> json \<Rightarrow> bool" where
  "has_role roles m = (case m of JObject msg \<Rightarrow> string_field msg ''role'' \<in> set roles | _ \<Rightarrow> False)"

lemma firstMessageContent_append:
  "firstMessageContent (xs @ ys) roles =
     (if list_ex (has_role roles) xs then firstMessageContent xs roles else firstMessageContent ys roles)"
  by (induction xs) (auto simp: has_role_def split: json.splits)

lemma firstMessageContent_none: "\<not> list_ex (has_role roles) xs \<Longrightarrow> firstMessageContent xs roles = JNull"
  by (induction xs) (auto simp: has_role_def split: json.splits)

lemma valueLen_nonneg: "0 \<le> valueLen v"
  by (induction v rule: valueLen.induct) (auto intro!: sum_list_nonneg)

lemma message_len_nonneg: "0 \<le> message_len m"
  by (simp add: message_len_def valueLen_nonneg split: json.split)

text \<open>
  A conversation keeps its key: on a chat endpoint, appending messages to a request that is keyed
  gives a request that is keyed with the same key, provided the request already has a user message and
  the appended messages do not bring the first system prompt.
\<close>
theorem routing_key_stable_across_turns:
  assumes "field body ''messages'' = JArray xs"
    and path: "path \<noteq> ''/v1/responses''" "path \<noteq> ''/v1/completions''"
    and user: "list_ex (has_role [''user'']) xs"
    and sys: "list_ex (has_role [''system'', ''developer'']) xs \<or> \<not> list_ex (has_role [''system'', ''developer'']) ys"
    and keyed: "req_Outcome (ExtractRequest sha256 fmt body path salt s) = OutcomeKeyed"
  shows "req_Outcome (ExtractRequest sha256 fmt (AList.update ''messages'' (JArray (xs @ ys)) body) path salt s) = OutcomeKeyed
    \<and> req_Key (ExtractRequest sha256 fmt (AList.update ''messages'' (JArray (xs @ ys)) body) path salt s)
      = req_Key (ExtractRequest sha256 fmt body path salt s)"
proof -
  let ?b = "AList.update ''messages'' (JArray (xs @ ys)) body"
  have sysc: "firstMessageContent (xs @ ys) [''system'', ''developer''] = firstMessageContent xs [''system'', ''developer'']"
    using sys firstMessageContent_none [of "[''system'', ''developer'']"] by (auto simp: firstMessageContent_append)
  have same: "promptFields ?b path = promptFields body path"
    using assms(1) path user sysc by (simp add: promptFields_def Let_def firstMessageContent_append)
  have pck: "string_field ?b ''prompt_cache_key'' = string_field body ''prompt_cache_key''"
    by (simp add: string_field_def)
  have "0 \<le> sum_list (map message_len ys)" by (rule sum_list_nonneg) (auto simp: message_len_nonneg)
  then have grows: "promptLen body path tools \<le> promptLen ?b path tools" for tools
    using assms(1) path by (simp add: promptLen_def messageContentLen_def)
  obtain tools system user where pf: "promptFields body path = (tools, system, user)" by (cases "promptFields body path")
  show ?thesis
    using keyed grows [of tools] unfolding ExtractRequest_def same pck pf Let_def prod.case
    by (auto split: if_splits option.splits)
qed

definition turn_example :: "string \<Rightarrow> string \<Rightarrow> json" where
  "turn_example role content = JObject [(''role'', JString role), (''content'', JString content)]"

definition settings_example :: Settings where
  "settings_example = SettingsFrom [] None"

definition chat_example :: json_object where
  "chat_example = [(''messages'', JArray [turn_example ''user'' ''hi'']), (''prompt_cache_key'', JString ''c'')]"

theorem routing_key_stable_across_turns_witness:
  "req_Key (ExtractRequest (\<lambda>m. m) (\<lambda>_. [])
     (AList.update ''messages'' (JArray ([turn_example ''user'' ''hi''] @ [turn_example ''assistant'' ''yes''])) chat_example)
     ''/v1/chat/completions'' ''salt'' settings_example)
   = req_Key (ExtractRequest (\<lambda>m. m) (\<lambda>_. []) chat_example ''/v1/chat/completions'' ''salt'' settings_example)"
proof (rule routing_key_stable_across_turns [THEN conjunct2])
  show "req_Outcome (ExtractRequest (\<lambda>m. m) (\<lambda>_. []) chat_example ''/v1/chat/completions'' ''salt'' settings_example) = OutcomeKeyed"
    by (simp add: ExtractRequest_def chat_example_def turn_example_def promptFields_def field_def string_field_def
        deriveKey_def prompt_window_def flattenValue_leaves leaves.simps appendFramed_def prefixWindowCap_def
        Sum_def MaxUint32_def settings_example_def SettingsFrom_def Let_def)
qed (simp_all add: chat_example_def turn_example_def has_role_def string_field_def field_def)

end
