(* ===== verification/Cache_Shadow.thy ===== *)
theory Cache_Shadow
  imports Cache_Rank Cache_Key
begin

text \<open>
  The table of routing keys (\<open>cacheroute/shadow.go\<close>): per-key warmth and request rate, one LRU list
  per retention window, incrementally maintained group counts, capacity and expiry eviction.

  A list element is its table key, so \<open>elem\<close> needs no field; a list is front first. The eviction
  and request counters are not part of the state.
\<close>

section \<open>State\<close>

definition retentionFactor :: int where "retentionFactor = 4"
definition sweepChunk :: nat where "sweepChunk = 1024"
definition DefaultMaxKeys :: int where "DefaultMaxKeys = 100000"

record key_entry =
  ke_model :: string
  lastSeen :: time
  expiry :: time
  warm :: "(string, time) gomap"
  windowStart :: time
  prevCount :: int
  curCount :: int
  home :: string
  ke_r :: int
  retention :: duration

type_synonym group = "string \<times> string \<times> int"

record Shadow =
  entries :: "(string, key_entry) gomap"
  lists :: "(duration, string list) gomap"
  counts :: "(group, int) gomap"
  maxKeys :: int

definition NewShadow :: "int \<Rightarrow> Shadow" where
  "NewShadow n = \<lparr>entries = [], lists = [], counts = [], maxKeys = n\<rparr>"

text \<open>Reading a missing key of the counts yields zero, of the lists an empty list.\<close>

definition count_of :: "(group, int) gomap \<Rightarrow> group \<Rightarrow> int" where
  "count_of m g = (case map_of m g of None \<Rightarrow> 0 | Some n \<Rightarrow> n)"

definition listFor :: "Shadow \<Rightarrow> duration \<Rightarrow> string list" where
  "listFor s rt = (case map_of (lists s) rt of None \<Rightarrow> [] | Some l \<Rightarrow> l)"

section \<open>Operations\<close>

definition shiftCountLocked :: "string \<Rightarrow> string \<Rightarrow> int \<Rightarrow> string \<Rightarrow> int \<Rightarrow> Shadow \<Rightarrow> Shadow" where
  "shiftCountLocked model oldHome oldR newHome newR s =
     (if oldHome = newHome \<and> oldR = newR then s
      else
        (let c1 = (if oldHome \<noteq> [] then
                     (let g = (model, oldHome, oldR); n = count_of (counts s) g - 1
                      in if n \<le> 0 then AList.delete g (counts s) else AList.update g n (counts s))
                   else counts s);
             c2 = (if newHome \<noteq> [] then
                     (let g = (model, newHome, newR) in AList.update g (count_of c1 g + 1) c1)
                   else c1)
         in s\<lparr>counts := c2\<rparr>))"

definition touchLocked :: "string \<Rightarrow> key_entry \<Rightarrow> duration \<Rightarrow> Shadow \<Rightarrow> Shadow" where
  "touchLocked k e rt s =
     (if retention e = rt then s\<lparr>lists := AList.update rt (k # removeAll k (listFor s rt)) (lists s)\<rparr>
      else
        (let s1 = s\<lparr>lists := AList.update (retention e) (removeAll k (listFor s (retention e))) (lists s)\<rparr>
         in s1\<lparr>lists := AList.update rt (k # listFor s1 rt) (lists s1),
               entries := AList.update k (e\<lparr>retention := rt\<rparr>) (entries s1)\<rparr>))"

definition evictLocked :: "string \<Rightarrow> Shadow \<Rightarrow> Shadow" where
  "evictLocked k s =
     (case map_of (entries s) k of
        None \<Rightarrow> s
      | Some e \<Rightarrow>
          (let s1 = shiftCountLocked (ke_model e) (home e) (ke_r e) [] 0 s
           in s1\<lparr>entries := AList.delete k (entries s1),
                 lists := AList.update (retention e) (removeAll k (listFor s1 (retention e))) (lists s1)\<rparr>))"

text \<open>The scan over the lists for the least recently seen last element.\<close>

definition oldest_step :: "Shadow \<Rightarrow> duration \<times> string list \<Rightarrow> (string \<times> time) option \<Rightarrow> (string \<times> time) option" where
  "oldest_step s rl oldest =
     (case rl of (rt, l) \<Rightarrow>
        (if l = [] then oldest
         else
           (case map_of (entries s) (last l) of
              None \<Rightarrow> oldest
            | Some e \<Rightarrow>
                (case oldest of
                   None \<Rightarrow> Some (last l, lastSeen e)
                 | Some (k, seen) \<Rightarrow> if lastSeen e < seen then Some (last l, lastSeen e) else oldest))))"

definition new_entry :: "string \<Rightarrow> duration \<Rightarrow> key_entry" where
  "new_entry model rt =
     \<lparr>ke_model = model, lastSeen = 0, expiry = 0, warm = [], windowStart = 0, prevCount = 0, curCount = 0,
      home = [], ke_r = 0, retention = rt\<rparr>"

definition insertLocked :: "string \<Rightarrow> string \<Rightarrow> duration \<Rightarrow> Shadow \<Rightarrow> Shadow" where
  "insertLocked model k rt s =
     (let s1 = (if maxKeys s \<le> int (length (entries s)) then
                  (case fold (oldest_step s) (lists s) None of
                     None \<Rightarrow> s
                   | Some (old, _) \<Rightarrow> evictLocked old s)
                else s)
      in s1\<lparr>lists := AList.update rt (k # listFor s1 rt) (lists s1),
            entries := AList.update k (new_entry model rt) (entries s1)\<rparr>)"

text \<open>Request rate over two one-minute buckets.\<close>

definition truncate_minute :: "time \<Rightarrow> time" where
  "truncate_minute t = t - t mod minute"

definition minute_frac :: "time \<Rightarrow> rat" where
  "minute_frac now = of_int (now - truncate_minute now) / of_int minute"

definition bumpRate :: "time \<Rightarrow> key_entry \<Rightarrow> rat \<times> key_entry" where
  "bumpRate now e =
     (let m = truncate_minute now;
          e' = (if windowStart e = m then e\<lparr>curCount := curCount e + 1\<rparr>
                else if time_sub m (windowStart e) = minute
                then e\<lparr>prevCount := curCount e, curCount := 1, windowStart := m\<rparr>
                else e\<lparr>prevCount := 0, curCount := 1, windowStart := m\<rparr>)
      in (of_int (prevCount e') * (1 - minute_frac now) + of_int (curCount e'), e'))"

definition entry_peekRate :: "time \<Rightarrow> key_entry \<Rightarrow> rat" where
  "entry_peekRate now e =
     (let m = truncate_minute now
      in if windowStart e = m then of_int (prevCount e) * (1 - minute_frac now) + of_int (curCount e)
         else if time_sub m (windowStart e) = minute then of_int (curCount e) * (1 - minute_frac now)
         else 0)"

definition table_key :: "string \<Rightarrow> string \<Rightarrow> string" where
  "table_key model key = model @ [CHR 0x00] @ key"

definition peekRate :: "time \<Rightarrow> string \<Rightarrow> string \<Rightarrow> Shadow \<Rightarrow> rat" where
  "peekRate now model key s =
     (case map_of (entries s) (table_key model key) of None \<Rightarrow> 0 | Some e \<Rightarrow> entry_peekRate now e)"

datatype reuse = FirstSeen | RepeatWarm | RepeatCold

record keyedResult =
  kr_reuse :: reuse
  kr_repeat :: bool
  kr_interval :: duration
  kr_rpm :: rat
  kr_pick :: string
  kr_demoted :: bool
  kr_r :: int

text \<open>The classification of a repeat against the warm hosts still within the window.\<close>

definition prune_warm :: "time \<Rightarrow> duration \<Rightarrow> (string, time) gomap \<Rightarrow> (string, time) gomap" where
  "prune_warm now rt w = filter (\<lambda>(h, seen). \<not> rt < time_sub now seen) w"

definition classify_reuse :: "(string, time) gomap \<Rightarrow> string \<Rightarrow> reuse" where
  "classify_reuse w actualHost =
     (if w = [] then FirstSeen
      else if (case map_of w actualHost of None \<Rightarrow> False | Some t \<Rightarrow> \<not> is_zero t) then RepeatWarm
      else RepeatCold)"

text \<open>
  \<open>observeKeyed\<close> for a keyed request that landed on \<open>actualHost\<close>, in its three parts: the table
  access, the group the entry moves to, and the write. \<open>d\<close> is the decision that routed the request,
  if any. The caller has checked that the candidates are not empty, so the pick exists.
\<close>

definition observe_access ::
  "time \<Rightarrow> string \<Rightarrow> string \<Rightarrow> string \<Rightarrow> duration \<Rightarrow> Shadow \<Rightarrow> reuse \<times> bool \<times> duration \<times> key_entry \<times> Shadow" where
  "observe_access now model k actualHost rt s =
     (case map_of (entries s) k of
        None \<Rightarrow> (FirstSeen, False, 0, new_entry model rt, insertLocked model k rt s)
      | Some e0 \<Rightarrow>
          (let w = prune_warm now rt (warm e0)
           in (classify_reuse w actualHost, True, time_sub now (lastSeen e0),
               e0\<lparr>warm := w, retention := rt\<rparr>, touchLocked k e0 rt s)))"

definition observe_group ::
  "hash64 \<Rightarrow> rat \<Rightarrow> string \<Rightarrow> Candidate list \<Rightarrow> Decision option \<Rightarrow> Settings \<Rightarrow> string \<times> int \<times> bool \<times> string" where
  "observe_group xxh rpm key candidates d cfg =
     (case d of
        Some dec \<Rightarrow> (dec_home dec, dec_r dec, dec_demoted dec, [])
      | None \<Rightarrow>
          (let ranked = rank_candidates xxh key candidates;
               r = replicationFactor rpm (set_SplitThresholdRPM cfg) (int (length ranked))
           in case cappedPick ranked (nat r) (set_MaxInflightDelta cfg) of
                None \<Rightarrow> (cand_Host (hd ranked), r, False, [])
              | Some (pick, dem) \<Rightarrow> (cand_Host (hd ranked), r, dem, pick)))"

definition observeKeyed ::
  "hash64 \<Rightarrow> time \<Rightarrow> string \<Rightarrow> string \<Rightarrow> Candidate list \<Rightarrow> string \<Rightarrow> Decision option \<Rightarrow> Settings \<Rightarrow> Shadow
     \<Rightarrow> keyedResult \<times> Shadow" where
  "observeKeyed xxh now model key candidates actualHost d cfg s =
     (let k = table_key model key; rt = set_Retention cfg
      in case observe_access now model k actualHost rt s of
           (reuse, repeated, interval, e, s1) \<Rightarrow>
             (case bumpRate now e of
                (rpm, e1) \<Rightarrow>
                  (let e2 = e1\<lparr>lastSeen := now, expiry := now + retentionFactor * rt,
                                warm := AList.update actualHost now (warm e1)\<rparr>
                   in case observe_group xxh rpm key candidates d cfg of
                        (newHome, r, demoted, pick) \<Rightarrow>
                          (let s2 = shiftCountLocked model (home e2) (ke_r e2) newHome r s1
                           in (\<lparr>kr_reuse = reuse, kr_repeat = repeated, kr_interval = interval, kr_rpm = rpm,
                                kr_pick = pick, kr_demoted = demoted, kr_r = r\<rparr>,
                               s2\<lparr>entries := AList.update k (e2\<lparr>home := newHome, ke_r := r\<rparr>) (entries s2)\<rparr>)))))"

text \<open>The sweeper: one list drained from its back, one pass over the lists, passes until a short one.\<close>

fun drain :: "time \<Rightarrow> nat \<Rightarrow> string list \<Rightarrow> Shadow \<Rightarrow> nat \<times> Shadow" where
  "drain now evicted [] s = (evicted, s)"
| "drain now evicted (k # ks) s =
     (if evicted < sweepChunk then
        (case map_of (entries s) k of
           None \<Rightarrow> (evicted, s)
         | Some e \<Rightarrow> if now < expiry e then (evicted, s) else drain now (evicted + 1) ks (evictLocked k s))
      else (evicted, s))"

definition sweep_list :: "time \<Rightarrow> duration \<times> string list \<Rightarrow> nat \<times> Shadow \<Rightarrow> nat \<times> Shadow" where
  "sweep_list now rl acc =
     (case rl of (rt, l) \<Rightarrow>
        (case acc of (evicted, s) \<Rightarrow>
           (case drain now evicted (rev l) s of
              (evicted', s') \<Rightarrow>
                (evicted', if listFor s' rt = [] then s'\<lparr>lists := AList.delete rt (lists s')\<rparr> else s'))))"

definition sweep_pass :: "time \<Rightarrow> Shadow \<Rightarrow> nat \<times> Shadow" where
  "sweep_pass now s = fold (sweep_list now) (lists s) (0, s)"

section \<open>Invariants of the table\<close>

text \<open>
  Every key is in exactly one list, that of its retention window; the counts are those of a walk
  over the table; the lists are in order of last use, and an entry expires a fixed multiple of its
  window after its last use. \<open>t\<close> bounds the times recorded so far.
\<close>

definition grp :: "key_entry \<Rightarrow> group" where
  "grp e = (ke_model e, home e, ke_r e)"

definition groups :: "Shadow \<Rightarrow> group multiset" where
  "groups s = image_mset (\<lambda>(k, e). grp e) (mset (entries s))"

definition table_inv :: "Shadow \<Rightarrow> bool" where
  "table_inv s \<longleftrightarrow> wf_map (entries s) \<and> wf_map (lists s)
     \<and> (\<forall>rt. distinct (listFor s rt)
          \<and> set (listFor s rt) = {k. \<exists>e. map_of (entries s) k = Some e \<and> retention e = rt})"

definition counts_inv :: "Shadow \<Rightarrow> bool" where
  "counts_inv s \<longleftrightarrow> (\<forall>g n. map_of (counts s) g = Some n \<longrightarrow> 0 < n)
     \<and> (\<forall>m h r. count_of (counts s) (m, h, r) = (if h = [] then 0 else int (count (groups s) (m, h, r))))"

definition seen :: "Shadow \<Rightarrow> string \<Rightarrow> time" where
  "seen s k = (case map_of (entries s) k of None \<Rightarrow> 0 | Some e \<Rightarrow> lastSeen e)"

definition order_inv :: "time \<Rightarrow> Shadow \<Rightarrow> bool" where
  "order_inv t s \<longleftrightarrow> (\<forall>rt. sorted_wrt (\<lambda>a b. seen s b \<le> seen s a) (listFor s rt))
     \<and> (\<forall>k e. map_of (entries s) k = Some e \<longrightarrow> lastSeen e \<le> t \<and> expiry e = lastSeen e + retentionFactor * retention e)"

definition cap_inv :: "Shadow \<Rightarrow> bool" where
  "cap_inv s \<longleftrightarrow> int (length (entries s)) \<le> max 1 (maxKeys s)"

text \<open>A routing key has 32 bytes, so a table key determines its model.\<close>

definition keys_inv :: "Shadow \<Rightarrow> bool" where
  "keys_inv s \<longleftrightarrow> (\<forall>k e. map_of (entries s) k = Some e \<longrightarrow> (\<exists>key. length key = 32 \<and> k = table_key (ke_model e) key))"

definition shadow_inv :: "time \<Rightarrow> Shadow \<Rightarrow> bool" where
  "shadow_inv t s \<longleftrightarrow> table_inv s \<and> counts_inv s \<and> order_inv t s \<and> cap_inv s \<and> keys_inv s"

lemma listFor_update [simp]:
  "listFor (s\<lparr>lists := AList.update rt l (lists s)\<rparr>) rt' = (if rt' = rt then l else listFor s rt')"
  "listFor (s\<lparr>entries := es, lists := AList.update rt l (lists s)\<rparr>) rt' = (if rt' = rt then l else listFor s rt')"
  by (simp_all add: listFor_def)

lemma listFor_update2 [simp]:
  "listFor (s\<lparr>entries := es, lists := AList.update rt l (AList.update rt2 l2 (lists s))\<rparr>) rt'
     = (if rt' = rt then l else if rt' = rt2 then l2 else listFor s rt')"
  "listFor (s\<lparr>lists := AList.update rt l (AList.update rt2 l2 (lists s))\<rparr>) rt'
     = (if rt' = rt then l else if rt' = rt2 then l2 else listFor s rt')"
  by (simp_all add: listFor_def)

lemma listFor_other [simp]:
  "listFor (s\<lparr>entries := es\<rparr>) = listFor s" "listFor (s\<lparr>counts := cs\<rparr>) = listFor s"
  by (simp_all add: listFor_def fun_eq_iff)

lemma listFor_in_lists: "wf_map (lists s) \<Longrightarrow> (rt, l) \<in> set (lists s) \<Longrightarrow> listFor s rt = l"
  by (simp add: listFor_def map_of_wf_iff [symmetric])

lemma in_listFor: "table_inv s \<Longrightarrow> map_of (entries s) k = Some e \<Longrightarrow> k \<in> set (listFor s (retention e))"
  by (auto simp: table_inv_def)

lemma listFor_entry: "table_inv s \<Longrightarrow> k \<in> set (listFor s rt) \<Longrightarrow> map_of (entries s) k \<noteq> None"
  unfolding table_inv_def by blast

lemma shift_fields [simp]:
  "entries (shiftCountLocked m oh ro nh rn s) = entries s" "lists (shiftCountLocked m oh ro nh rn s) = lists s"
  "maxKeys (shiftCountLocked m oh ro nh rn s) = maxKeys s"
  by (simp_all add: shiftCountLocked_def Let_def)

lemma listFor_shift [simp]: "listFor (shiftCountLocked m oh ro nh rn s) = listFor s"
  by (simp add: listFor_def fun_eq_iff)

lemma count_of_update [simp]: "count_of (AList.update g n m) g' = (if g' = g then n else count_of m g')"
  and count_of_delete [simp]: "count_of (AList.delete g m) g' = (if g' = g then 0 else count_of m g')"
  by (simp_all add: count_of_def)

text \<open>The effect of moving one entry between groups, as arithmetic on the counts.\<close>

lemma shift_counts:
  assumes "oh \<noteq> [] \<Longrightarrow> 1 \<le> count_of (counts s) (m, oh, ro)"
  shows "count_of (counts (shiftCountLocked m oh ro nh rn s)) g
    = count_of (counts s) g - (if oh \<noteq> [] \<and> g = (m, oh, ro) then 1 else 0) + (if nh \<noteq> [] \<and> g = (m, nh, rn) then 1 else 0)"
  using assms by (auto simp: shiftCountLocked_def Let_def)

definition positive :: "(group, int) gomap \<Rightarrow> bool" where
  "positive c \<longleftrightarrow> (\<forall>g n. map_of c g = Some n \<longrightarrow> 0 < n)"

lemma positive_nonneg: "positive c \<Longrightarrow> 0 \<le> count_of c g"
  unfolding positive_def count_of_def by (cases g) (auto split: option.split intro: less_imp_le)

lemma positive_update: "positive c \<Longrightarrow> 0 < n \<Longrightarrow> positive (AList.update g n c)"
  and positive_delete: "positive c \<Longrightarrow> positive (AList.delete g c)"
  by (auto simp: positive_def)

lemma shift_positive: "positive (counts s) \<Longrightarrow> positive (counts (shiftCountLocked m oh ro nh rn s))"
  unfolding shiftCountLocked_def Let_def
  by (auto intro!: positive_update positive_delete add_nonneg_pos positive_nonneg simp: not_le)

lemma groups_delete:
  assumes "wf_map (entries s)" and "map_of (entries s) k = Some e" and "entries s' = AList.delete k (entries s)"
  shows "groups s = add_mset (grp e) (groups s')"
  using mset_delete_Some [OF assms(1,2)] assms(3) by (simp add: groups_def)

lemma groups_update:
  assumes "wf_map (entries s)" and "map_of (entries s) k = Some e" and "entries s' = AList.update k e' (entries s)"
  shows "add_mset (grp e) (groups s') = add_mset (grp e') (groups s)"
  using arg_cong [OF mset_update_Some [OF assms(1,2), of e'], of "image_mset (\<lambda>(k, e). grp e)"] assms(3)
  by (simp add: groups_def)

text \<open>A key of the table is counted in its group, if it has a home.\<close>

lemma counted:
  assumes "table_inv s" and "counts_inv s" and "map_of (entries s) k = Some e" and "home e \<noteq> []"
  shows "1 \<le> count_of (counts s) (grp e)"
proof -
  have "grp e \<in># groups s"
    using assms(1,3) by (force simp: groups_def table_inv_def map_of_wf_iff)
  then have "1 \<le> count (groups s) (grp e)" by (simp add: Suc_le_eq)
  with assms(2,4) show ?thesis by (simp add: counts_inv_def grp_def)
qed

section \<open>Eviction\<close>

lemma evict_entries: "entries (evictLocked k s) = AList.delete k (entries s)"
proof (cases "map_of (entries s) k")
  case None
  then have "k \<notin> fst ` set (entries s)" by (simp add: map_of_eq_None_iff)
  with None show ?thesis by (simp add: evictLocked_def delete_id)
qed (simp add: evictLocked_def Let_def)

lemma evict_maxKeys [simp]: "maxKeys (evictLocked k s) = maxKeys s"
  by (simp add: evictLocked_def Let_def split: option.split)

lemma evict_lists:
  assumes "table_inv s"
  shows "listFor (evictLocked k s) rt = removeAll k (listFor s rt)"
proof (cases "map_of (entries s) k")
  case None
  then have "k \<notin> set (listFor s rt)" using assms by (simp add: table_inv_def)
  with None show ?thesis by (simp add: evictLocked_def)
next
  case (Some e)
  then have "k \<notin> set (listFor s rt)" if "rt \<noteq> retention e" using assms that by (simp add: table_inv_def)
  with Some show ?thesis by (auto simp: evictLocked_def Let_def listFor_def removeAll_id split: option.splits)
qed

lemma evict_wf_lists: "wf_map (lists s) \<Longrightarrow> wf_map (lists (evictLocked k s))"
  by (simp add: evictLocked_def Let_def split: option.split)

lemma evict_table: "table_inv s \<Longrightarrow> table_inv (evictLocked k s)"
  unfolding table_inv_def [of "evictLocked k s"] evict_lists evict_entries
  by (auto simp: table_inv_def evict_wf_lists distinct_removeAll)

lemma evict_counts:
  assumes "table_inv s" and "counts_inv s"
  shows "counts_inv (evictLocked k s)"
proof (cases "map_of (entries s) k")
  case None
  with assms show ?thesis by (simp add: evictLocked_def)
next
  case (Some e)
  have groups: "groups s = add_mset (grp e) (groups (evictLocked k s))"
    using assms(1) by (intro groups_delete [OF _ Some evict_entries]) (simp add: table_inv_def)
  have c: "counts (evictLocked k s) = counts (shiftCountLocked (ke_model e) (home e) (ke_r e) [] 0 s)"
    using Some by (simp add: evictLocked_def Let_def)
  have pos: "positive (counts s)" using assms(2) by (simp add: counts_inv_def positive_def)
  have at: "home e \<noteq> [] \<Longrightarrow> 1 \<le> count_of (counts s) (ke_model e, home e, ke_r e)"
    using counted [OF assms Some] by (simp add: grp_def)
  have "count_of (counts (evictLocked k s)) (m, h, r)
      = (if h = [] then 0 else int (count (groups (evictLocked k s)) (m, h, r)))" for m h r
    using assms(2) groups at
    by (auto simp: c shift_counts counts_inv_def grp_def)
  with shift_positive [OF pos] show ?thesis by (simp add: counts_inv_def c positive_def)
qed

lemma seen_evict: "k' \<noteq> k \<Longrightarrow> seen (evictLocked k s) k' = seen s k'"
  by (simp add: seen_def evict_entries)

lemma sorted_wrt_removeAll: "sorted_wrt R xs \<Longrightarrow> sorted_wrt R (removeAll x xs)"
  by (simp add: removeAll_filter_not_eq sorted_wrt_filter)

lemma sorted_wrt_congI:
  "sorted_wrt R xs \<Longrightarrow> (\<And>x y. x \<in> set xs \<Longrightarrow> y \<in> set xs \<Longrightarrow> R x y \<Longrightarrow> R' x y) \<Longrightarrow> sorted_wrt R' xs"
  by (induction xs) auto

lemma evict_order:
  assumes "table_inv s" and "order_inv t s"
  shows "order_inv t (evictLocked k s)"
proof -
  have "sorted_wrt (\<lambda>a b. seen (evictLocked k s) b \<le> seen (evictLocked k s) a) (removeAll k (listFor s rt))" for rt
    by (rule sorted_wrt_congI [OF sorted_wrt_removeAll])
      (use assms(2) in \<open>auto simp: order_inv_def seen_evict\<close>)
  with assms show ?thesis by (auto simp: order_inv_def evict_lists evict_entries split: if_splits)
qed

lemma evict_length: "length (entries (evictLocked k s)) \<le> length (entries s)"
  by (simp add: evict_entries length_delete_le)

lemma evict_keys: "keys_inv s \<Longrightarrow> keys_inv (evictLocked k s)"
  by (simp add: keys_inv_def evict_entries)

lemma evict_inv: "shadow_inv t s \<Longrightarrow> shadow_inv t (evictLocked k s)"
  using evict_length [of k s]
  by (auto simp: shadow_inv_def cap_inv_def evict_table evict_counts evict_order evict_keys)

section \<open>Insertion and touch\<close>

text \<open>The scan finds a key of the table as soon as one list has an element.\<close>

lemma oldest_fold:
  assumes "fold (oldest_step s) ls acc = res"
  shows "(acc \<noteq> None \<or> (\<exists>(rt, l) \<in> set ls. l \<noteq> [] \<and> map_of (entries s) (last l) \<noteq> None)) \<longrightarrow> res \<noteq> None"
    and "res = Some (k, u) \<Longrightarrow> acc = Some (k, u) \<or> map_of (entries s) k \<noteq> None"
  using assms
proof (induction ls arbitrary: acc)
  case (Cons rl ls)
  { case 1
    then show ?case using Cons.IH(1) [of "oldest_step s rl acc"]
      by (auto simp: oldest_step_def split: option.splits prod.splits if_splits) }
  { case 2
    then show ?case using Cons.IH(2) [of "oldest_step s rl acc"]
      by (auto simp: oldest_step_def split: option.splits prod.splits if_splits) }
qed auto

lemma oldest_total:
  assumes "table_inv s" and "entries s \<noteq> []"
  shows "\<exists>k u. fold (oldest_step s) (lists s) None = Some (k, u) \<and> map_of (entries s) k \<noteq> None"
proof -
  obtain k e where "(k, e) \<in> set (entries s)"
    using assms(2) by (metis list.set_intros(1) neq_Nil_conv surj_pair)
  then have "map_of (entries s) k = Some e" using assms(1) by (simp add: table_inv_def map_of_wf_iff)
  then have "k \<in> set (listFor s (retention e))" using assms(1) by (auto simp: table_inv_def)
  then obtain l where "map_of (lists s) (retention e) = Some l" "k \<in> set l"
    by (cases "map_of (lists s) (retention e)") (auto simp: listFor_def)
  then have l: "map_of (lists s) (retention e) = Some l" "l \<noteq> []" by auto
  then have "last l \<in> set (listFor s (retention e))" by (simp add: listFor_def)
  then have "map_of (entries s) (last l) \<noteq> None" using assms(1) by (auto simp: table_inv_def)
  with l have "fold (oldest_step s) (lists s) None \<noteq> None"
    using oldest_fold(1) [of s "lists s" None, OF refl] by (fastforce dest: map_of_SomeD)
  then obtain k' u where "fold (oldest_step s) (lists s) None = Some (k', u)" by auto
  with oldest_fold(2) [of s "lists s" None, OF refl] show ?thesis by auto
qed

text \<open>The state after making room: the invariant, and room for one more key.\<close>

definition make_room :: "Shadow \<Rightarrow> Shadow" where
  "make_room s =
     (if maxKeys s \<le> int (length (entries s)) then
        (case fold (oldest_step s) (lists s) None of None \<Rightarrow> s | Some (old, _) \<Rightarrow> evictLocked old s)
      else s)"

lemma insertLocked_room:
  "insertLocked model k rt s =
     (make_room s)\<lparr>lists := AList.update rt (k # listFor (make_room s) rt) (lists (make_room s)),
                   entries := AList.update k (new_entry model rt) (entries (make_room s))\<rparr>"
  by (simp add: insertLocked_def make_room_def Let_def)

lemma make_room_inv: "shadow_inv t s \<Longrightarrow> shadow_inv t (make_room s)"
  by (auto simp: make_room_def evict_inv split: option.splits)

lemma make_room_None: "map_of (entries s) k = None \<Longrightarrow> map_of (entries (make_room s)) k = None"
  by (auto simp: make_room_def evict_entries split: option.splits)

lemma make_room_maxKeys [simp]: "maxKeys (make_room s) = maxKeys s"
  by (simp add: make_room_def split: option.split)

lemma make_room_length:
  assumes "shadow_inv t s"
  shows "int (length (entries (make_room s))) + 1 \<le> max 1 (maxKeys s)"
proof (cases "maxKeys s \<le> int (length (entries s)) \<and> entries s \<noteq> []")
  case True
  with assms oldest_total [of s] obtain k u where
    k: "fold (oldest_step s) (lists s) None = Some (k, u)" "map_of (entries s) k \<noteq> None"
    by (auto simp: shadow_inv_def)
  then have "length (entries s) = Suc (length (AList.delete k (entries s)))"
    using assms by (auto simp: shadow_inv_def table_inv_def intro: length_delete_Some)
  with k True assms show ?thesis by (auto simp: make_room_def evict_entries shadow_inv_def cap_inv_def)
next
  case False
  then show ?thesis by (auto simp: make_room_def evict_entries split: option.splits)
qed

text \<open>
  Both ways a request reaches the table end in the same shape: the key is at the front of the list
  of the current window, no other list holds it, and its entry is written last.
\<close>

definition placed :: "string \<Rightarrow> duration \<Rightarrow> Shadow \<Rightarrow> Shadow \<Rightarrow> bool" where
  "placed k rt s s' \<longleftrightarrow>
     wf_map (lists s') \<and> (\<forall>rt'. listFor s' rt' = (if rt' = rt then k # removeAll k (listFor s rt) else removeAll k (listFor s rt')))
     \<and> counts s' = counts s \<and> maxKeys s' = maxKeys s \<and> wf_map (entries s')
     \<and> map_of (entries s') k \<noteq> None \<and> (\<forall>k'. k' \<noteq> k \<longrightarrow> map_of (entries s') k' = map_of (entries s) k')"

lemma insert_placed:
  assumes "table_inv (make_room s)" and "map_of (entries s) k = None"
  shows "placed k rt (make_room s) (insertLocked model k rt s)"
proof -
  have "k \<notin> set (listFor (make_room s) rt')" for rt'
    using assms make_room_None [OF assms(2)] by (simp add: table_inv_def)
  then show ?thesis
    using assms(1) by (auto simp: placed_def insertLocked_room table_inv_def removeAll_id)
qed

lemma touch_placed:
  assumes "table_inv s" and "map_of (entries s) k = Some e"
  shows "placed k rt s (touchLocked k e rt s)"
proof -
  have "k \<notin> set (listFor s rt')" if "rt' \<noteq> retention e" for rt'
    using assms that by (simp add: table_inv_def)
  then show ?thesis
    using assms by (auto simp: placed_def touchLocked_def table_inv_def Let_def removeAll_id)
qed

lemma placed_write:
  assumes "placed k rt s s'" and "table_inv s" and "order_inv t s" and "t \<le> now" and "retention e = rt"
    and "lastSeen e = now" and "expiry e = now + retentionFactor * rt"
    and "s'' = s'\<lparr>counts := c, entries := AList.update k e (entries s')\<rparr>"
  shows "table_inv s'' \<and> order_inv now s''"
proof -
  have ent: "map_of (entries s'') k' = (if k' = k then Some e else map_of (entries s) k')" for k'
    using assms(1,8) by (simp add: placed_def)
  have lst: "listFor s'' rt' = (if rt' = rt then k # removeAll k (listFor s rt) else removeAll k (listFor s rt'))" for rt'
    using assms(1,8) by (simp add: placed_def listFor_def)
  have wf: "wf_map (entries s'')" "wf_map (lists s'')" using assms(1,8) by (auto simp: placed_def)
  have dist: "distinct (listFor s rt')" "set (listFor s rt') = {k. \<exists>e. map_of (entries s) k = Some e \<and> retention e = rt'}" for rt'
    using assms(2) by (simp_all add: table_inv_def)
  have "table_inv s''"
    unfolding table_inv_def lst ent using wf dist assms(5) by (auto simp: distinct_removeAll)
  moreover have "sorted_wrt (\<lambda>a b. seen s'' b \<le> seen s'' a) (removeAll k (listFor s rt'))" for rt'
    by (rule sorted_wrt_congI [OF sorted_wrt_removeAll])
      (use assms(3) in \<open>auto simp: order_inv_def seen_def ent\<close>)
  moreover have "\<forall>k' \<in> set (removeAll k (listFor s rt)). seen s'' k' \<le> seen s'' k"
    using assms(3,4,6) dist(2) by (fastforce simp: seen_def ent order_inv_def)
  ultimately show ?thesis
    using assms(3-7) by (force simp: order_inv_def lst ent)
qed

section \<open>The landing of a request\<close>

text \<open>The entry written by \<open>observeKeyed\<close> and the group it moves to, factored out of the definition.\<close>

lemma bumpRate_fields [simp]:
  "ke_model (snd (bumpRate now e)) = ke_model e" "home (snd (bumpRate now e)) = home e"
  "ke_r (snd (bumpRate now e)) = ke_r e" "retention (snd (bumpRate now e)) = retention e"
  "warm (snd (bumpRate now e)) = warm e"
  by (simp_all add: bumpRate_def Let_def)

lemma observe_access_shape:
  assumes "observe_access now model k h rt s = (reuse, rep, iv, e, s1)"
  shows "s1 = (case map_of (entries s) k of None \<Rightarrow> insertLocked model k rt s | Some e0 \<Rightarrow> touchLocked k e0 rt s)"
    and "e0 = (case map_of (entries s) k of None \<Rightarrow> new_entry model rt | Some e0 \<Rightarrow> e0)
      \<Longrightarrow> ke_model e = ke_model e0 \<and> home e = home e0 \<and> ke_r e = ke_r e0 \<and> retention e = rt"
  using assms by (auto simp: observe_access_def Let_def new_entry_def split: option.splits)

lemma observeKeyed_shape:
  obtains s1 e newHome r e3 where
    "s1 = (case map_of (entries s) (table_key model key) of
             None \<Rightarrow> insertLocked model (table_key model key) (set_Retention cfg) s
           | Some e0 \<Rightarrow> touchLocked (table_key model key) e0 (set_Retention cfg) s)"
    "e = (case map_of (entries s) (table_key model key) of None \<Rightarrow> new_entry model (set_Retention cfg) | Some e0 \<Rightarrow> e0)"
    "snd (observeKeyed xxh now model key cands h d cfg s) =
       (shiftCountLocked model (home e) (ke_r e) newHome r s1)
         \<lparr>entries := AList.update (table_key model key) e3 (entries s1)\<rparr>"
    "ke_model e3 = ke_model e" "home e3 = newHome" "ke_r e3 = r" "retention e3 = set_Retention cfg" "lastSeen e3 = now"
    "expiry e3 = now + retentionFactor * set_Retention cfg"
proof -
  let ?k = "table_key model key"
  let ?rt = "set_Retention cfg"
  define e0 where "e0 = (case map_of (entries s) ?k of None \<Rightarrow> new_entry model ?rt | Some e0 \<Rightarrow> e0)"
  obtain reuse rep iv e s1 where acc: "observe_access now model ?k h ?rt s = (reuse, rep, iv, e, s1)"
    by (metis prod_cases5)
  note shape = observe_access_shape [OF acc]
  obtain rpm e1 where b: "bumpRate now e = (rpm, e1)" by fastforce
  obtain newHome r demoted pick where g: "observe_group xxh rpm key cands d cfg = (newHome, r, demoted, pick)"
    by (metis prod_cases4)
  have e1: "ke_model e1 = ke_model e0" "home e1 = home e0" "ke_r e1 = ke_r e0" "retention e1 = ?rt"
    using shape(2) [OF e0_def] bumpRate_fields [of now e] by (simp_all add: b)
  have "snd (observeKeyed xxh now model key cands h d cfg s) =
      (shiftCountLocked model (home e0) (ke_r e0) newHome r s1)
        \<lparr>entries := AList.update ?k (e1\<lparr>lastSeen := now, expiry := now + retentionFactor * ?rt,
           warm := AList.update h now (warm e1), home := newHome, ke_r := r\<rparr>) (entries s1)\<rparr>"
    using e1 by (simp add: observeKeyed_def Let_def acc b g)
  from that [OF shape(1) e0_def this] e1 show thesis by simp
qed

text \<open>The counts follow when one entry changes its group.\<close>

lemma move_counts:
  assumes "counts_inv s" and "table_inv s" and "placed k rt s s1" and "s2 = (shiftCountLocked model (home e) (ke_r e) nh r s1)
      \<lparr>entries := AList.update k e3 (entries s1)\<rparr>"
    and "ke_model e3 = model" "home e3 = nh" "ke_r e3 = r" "ke_model e = model"
    and "map_of (entries s) k = Some e \<or> map_of (entries s) k = None \<and> home e = []"
    and "mset (AList.delete k (entries s1)) = mset (AList.delete k (entries s))"
  shows "counts_inv s2"
proof -
  let ?rest = "image_mset (\<lambda>(k, e). grp e) (mset (AList.delete k (entries s)))"
  have wf: "wf_map (entries s)" using assms(2) by (simp add: table_inv_def)
  have wf2: "wf_map (entries s2)" and at2: "map_of (entries s2) k = Some e3"
    using assms(3,4) by (simp_all add: placed_def)
  have del: "AList.delete k (entries s2) = AList.delete k (entries s1)"
    using assms(4) by (simp add: delete_update_same)
  have g2: "groups s2 = add_mset (grp e3) ?rest"
    using mset_delete_Some [OF wf2 at2] assms(10) by (simp add: groups_def del)
  have g1: "groups s = (if map_of (entries s) k = None then ?rest else add_mset (grp e) ?rest)"
  proof (cases "map_of (entries s) k")
    case None
    then have "AList.delete k (entries s) = entries s" by (simp add: delete_id map_of_eq_None_iff)
    with None show ?thesis by (simp add: groups_def)
  next
    case (Some e')
    with assms(9) mset_delete_Some [OF wf Some] show ?thesis by (simp add: groups_def)
  qed
  have c: "counts s2 = counts (shiftCountLocked model (home e) (ke_r e) nh r s1)" "counts s1 = counts s"
    using assms(3,4) by (simp_all add: placed_def)
  have pos: "positive (counts s1)" using assms(1) c(2) by (simp add: counts_inv_def positive_def)
  have at: "home e \<noteq> [] \<Longrightarrow> 1 \<le> count_of (counts s1) (model, home e, ke_r e)"
    using counted [OF assms(2,1), of k e] assms(8,9) c(2) by (auto simp: grp_def)
  have "count_of (counts s2) (m, h, q) = (if h = [] then 0 else int (count (groups s2) (m, h, q)))" for m h q
  proof -
    have old: "count_of (counts s1) (m, h, q) = (if h = [] then 0 else int (count (groups s) (m, h, q)))"
      using assms(1) c(2) by (simp add: counts_inv_def)
    have "grp e3 = (model, nh, r)" "grp e = (model, home e, ke_r e)" using assms(5-8) by (simp_all add: grp_def)
    moreover have new: "count_of (counts s2) (m, h, q) = count_of (counts s1) (m, h, q)
        - (if home e \<noteq> [] \<and> (m, h, q) = (model, home e, ke_r e) then 1 else 0)
        + (if nh \<noteq> [] \<and> (m, h, q) = (model, nh, r) then 1 else 0)"
      unfolding c(1) by (rule shift_counts) (rule at)
    moreover define R where "R = ?rest"
    moreover define b where "b \<longleftrightarrow> map_of (entries s) k = None"
    moreover have "b \<longrightarrow> home e = []" using assms(9) by (auto simp: b_def)
    ultimately show ?thesis
      unfolding new old g1 g2 R_def [symmetric] b_def [symmetric]
      by (cases b; cases "h = []") (auto split: if_splits)
  qed
  with shift_positive [OF pos] show ?thesis by (simp add: counts_inv_def c(1) positive_def)
qed

lemma table_key_inj: "length key = length key' \<Longrightarrow> table_key m key = table_key m' key' \<Longrightarrow> m = m' \<and> key = key'"
  by (simp add: table_key_def)

lemma length_update_None: "map_of m k = None \<Longrightarrow> length (AList.update k v m) = Suc (length m)"
  by (induction m) auto

lemma length_update_Some: "map_of m k \<noteq> None \<Longrightarrow> length (AList.update k v m) = length m"
  by (induction m) auto

lemma insert_facts:
  assumes "shadow_inv t s" and "map_of (entries s) k = None"
  shows "int (length (entries (insertLocked model k rt s))) \<le> max 1 (maxKeys s)"
    and "mset (AList.delete k (entries (insertLocked model k rt s))) = mset (AList.delete k (entries (make_room s)))"
  using make_room_length [OF assms(1)] make_room_None [OF assms(2)]
  by (simp_all add: insertLocked_room length_update_None delete_update_same)

lemma touch_facts:
  assumes "map_of (entries s) k = Some e"
  shows "length (entries (touchLocked k e rt s)) = length (entries s)"
    and "mset (AList.delete k (entries (touchLocked k e rt s))) = mset (AList.delete k (entries s))"
  using assms by (simp_all add: touchLocked_def Let_def length_update_Some delete_update_same)

text \<open>One write after the key has been placed keeps the whole invariant.\<close>

lemma landing_inv:
  assumes "shadow_inv t s" and "t \<le> now" and "length key = 32" and "k = table_key model key" and "placed k rt s s1"
    and "s2 = (shiftCountLocked model (home e) (ke_r e) nh r s1)\<lparr>entries := AList.update k e3 (entries s1)\<rparr>"
    and "ke_model e3 = ke_model e" "home e3 = nh" "ke_r e3 = r" "retention e3 = rt" "lastSeen e3 = now"
      "expiry e3 = now + retentionFactor * rt"
    and "map_of (entries s) k = Some e \<or> map_of (entries s) k = None \<and> e = new_entry model rt"
    and "int (length (entries s1)) \<le> max 1 (maxKeys s)"
    and "mset (AList.delete k (entries s1)) = mset (AList.delete k (entries s))"
  shows "shadow_inv now s2"
proof -
  have inv: "table_inv s" "counts_inv s" "order_inv t s" "keys_inv s" using assms(1) by (simp_all add: shadow_inv_def)
  have model: "ke_model e = model"
  proof (cases "map_of (entries s) k")
    case None
    with assms(13) show ?thesis by (simp add: new_entry_def)
  next
    case (Some e')
    with assms(13) have "e' = e" by simp
    with Some inv(4) obtain key' where "length key' = 32" "k = table_key (ke_model e) key'"
      unfolding keys_inv_def by blast
    with table_key_inj [of key' key "ke_model e" model] assms(3,4) show ?thesis by simp
  qed
  have "home e = []" if "map_of (entries s) k = None" using that assms(13) by (simp add: new_entry_def)
  then have "counts_inv s2"
    using assms(7-9,13,15) model by (intro move_counts [OF inv(2,1) assms(5,6)]) auto
  moreover have "s2 = s1\<lparr>counts := counts s2, entries := AList.update k e3 (entries s1)\<rparr>"
    by (cases s1) (simp add: assms(6) shiftCountLocked_def Let_def)
  from placed_write [OF assms(5) inv(1,3) assms(2,10-12) this] have "table_inv s2 \<and> order_inv now s2" .
  moreover have "cap_inv s2"
    using assms(5,6,14) by (simp add: cap_inv_def placed_def length_update_Some)
  moreover have "keys_inv s2"
    using inv(4) assms(3-7) model by (auto simp: keys_inv_def placed_def)
  ultimately show ?thesis by (simp add: shadow_inv_def)
qed

lemma observeKeyed_inv:
  assumes "shadow_inv t s" and "t \<le> now" and "length key = 32"
  shows "shadow_inv now (snd (observeKeyed xxh now model key cands h d cfg s))"
proof -
  let ?k = "table_key model key" and ?rt = "set_Retention cfg"
  from observeKeyed_shape [where s = s and model = model and key = key and cfg = cfg and xxh = xxh and now = now and cands = cands and h = h and d = d]
  obtain s1 e nh r e3 where
    s1: "s1 = (case map_of (entries s) ?k of None \<Rightarrow> insertLocked model ?k ?rt s | Some e0 \<Rightarrow> touchLocked ?k e0 ?rt s)"
    and e: "e = (case map_of (entries s) ?k of None \<Rightarrow> new_entry model ?rt | Some e0 \<Rightarrow> e0)"
    and res: "snd (observeKeyed xxh now model key cands h d cfg s) =
      (shiftCountLocked model (home e) (ke_r e) nh r s1)\<lparr>entries := AList.update ?k e3 (entries s1)\<rparr>"
    and e3: "ke_model e3 = ke_model e" "home e3 = nh" "ke_r e3 = r" "retention e3 = ?rt" "lastSeen e3 = now"
      "expiry e3 = now + retentionFactor * ?rt" by metis
  show ?thesis
  proof (cases "map_of (entries s) ?k")
    case None
    have "table_inv (make_room s)" using make_room_inv [OF assms(1)] by (simp add: shadow_inv_def)
    with None s1 have "placed ?k ?rt (make_room s) s1" by (simp add: insert_placed)
    from landing_inv [OF make_room_inv [OF assms(1)] assms(2,3) refl this res e3] None s1 e
      make_room_None [OF None] insert_facts [OF assms(1) None]
    show ?thesis by simp
  next
    case (Some e0)
    then have "placed ?k ?rt s s1" using s1 touch_placed assms(1) by (simp add: shadow_inv_def)
    from landing_inv [OF assms(1-3) refl this res e3] Some s1 e touch_facts [OF Some] assms(1)
    show ?thesis by (simp add: shadow_inv_def cap_inv_def)
  qed
qed

section \<open>The sweeper\<close>

lemma drain_measure:
  assumes "drain now ev ks s = (ev', s')"
  shows "length (entries s') + ev' \<le> length (entries s) + ev \<and> ev \<le> ev'"
  using assms
proof (induction now ev ks s rule: drain.induct)
  case (2 now ev k ks s)
  have "length (entries (evictLocked k s)) < length (entries s)" if "map_of (entries s) k = Some e" for e
    using that length_filter_less [of "(k, e)" "entries s" "\<lambda>(k', _). k \<noteq> k'"]
    by (auto simp: evict_entries AList.delete_eq dest: map_of_SomeD)
  with 2 show ?case by (fastforce split: if_splits option.splits)
qed simp

lemma sweep_list_measure:
  assumes "sweep_list now rl (ev, s) = (ev', s')"
  shows "length (entries s') + ev' \<le> length (entries s) + ev"
  using assms drain_measure [of now ev "rev (snd rl)" s]
  by (auto simp: sweep_list_def split: prod.splits if_splits)

lemma sweep_pass_measure:
  assumes "sweep_pass now s = (ev', s')"
  shows "length (entries s') + ev' \<le> length (entries s)"
proof -
  have "length (entries s2) + ev2 \<le> length (entries s1) + ev1"
    if "fold (sweep_list now) ls (ev1, s1) = (ev2, s2)" for ls ev1 s1 ev2 s2
    using that
  proof (induction ls arbitrary: ev1 s1)
    case (Cons rl ls)
    obtain ev3 s3 where "sweep_list now rl (ev1, s1) = (ev3, s3)" by fastforce
    with Cons sweep_list_measure [OF this] show ?case by fastforce
  qed simp
  from this [of "lists s" 0 s ev' s'] assms show ?thesis by (simp add: sweep_pass_def)
qed

text \<open>Passes repeat while a pass fills its chunk; \<open>nows i\<close> is the clock of the \<open>i\<close>-th pass.\<close>

function sweep :: "(nat \<Rightarrow> time) \<Rightarrow> nat \<Rightarrow> Shadow \<Rightarrow> Shadow" where
  "sweep nows i s =
     (case sweep_pass (nows i) s of
        (evicted, s') \<Rightarrow> if evicted < sweepChunk then s' else sweep nows (Suc i) s')"
  by pat_completeness auto
termination
proof (relation "measure (\<lambda>(nows, i, s). length (entries s))")
  fix nows :: "nat \<Rightarrow> time" and i s evicted s'
  assume "(evicted, s') = sweep_pass (nows i) s" "\<not> evicted < sweepChunk"
  with sweep_pass_measure [of "nows i" s evicted s'] show "((nows, Suc i, s'), nows, i, s) \<in> measure (\<lambda>(nows, i, s). length (entries s))"
    by (simp add: sweepChunk_def)
qed simp

text \<open>Evicting the last element of a list.\<close>

lemma drain_spec:
  assumes "shadow_inv t s" and "ks = rev (listFor s rt)" and "drain now ev ks s = (ev', s')"
  shows "shadow_inv t s' \<and> (\<forall>rt'. rt' \<noteq> rt \<longrightarrow> listFor s' rt' = listFor s rt')
    \<and> (\<forall>k e. map_of (entries s') k = Some e \<longrightarrow> map_of (entries s) k = Some e)
    \<and> (\<forall>k e. map_of (entries s) k = Some e \<and> now < expiry e \<longrightarrow> map_of (entries s') k = Some e)
    \<and> (ev' < sweepChunk \<longrightarrow> (\<forall>k e. map_of (entries s') k = Some e \<and> retention e = rt \<longrightarrow> now < expiry e))"
  using assms
proof (induction ks arbitrary: ev s)
  case Nil
  then have "listFor s rt = []" "s' = s" by simp_all
  then have "retention e \<noteq> rt" if "map_of (entries s) k = Some e" for k e
    using in_listFor [OF _ that] Nil.prems(1) by (auto simp: shadow_inv_def)
  with Nil \<open>s' = s\<close> show ?case by auto
next
  case (Cons k ks)
  have l: "listFor s rt = rev ks @ [k]" using Cons.prems(2) by (metis rev.simps(2) rev_rev_ident)
  have tab: "table_inv s" and ord: "order_inv t s" using Cons.prems(1) by (simp_all add: shadow_inv_def)
  have "k \<in> set (listFor s rt)" by (simp add: l)
  then obtain e where e: "map_of (entries s) k = Some e" "retention e = rt" using tab by (auto simp: table_inv_def)
  show ?case
  proof (cases "ev < sweepChunk \<and> \<not> now < expiry e")
    case False
    have "now < expiry e'" if "now < expiry e" "map_of (entries s) k' = Some e'" "retention e' = rt" for k' e'
    proof -
      have "k' \<in> set (rev ks @ [k])" using in_listFor [OF tab that(2)] that(3) l by simp
      moreover have "sorted_wrt (\<lambda>a b. seen s b \<le> seen s a) (rev ks @ [k])" using ord l by (metis order_inv_def)
      ultimately have "seen s k \<le> seen s k'" by (auto simp: sorted_wrt_append)
      with that e ord show ?thesis by (auto simp: seen_def order_inv_def)
    qed
    moreover have "s' = s" "ev' = ev" using Cons.prems(3) e False by (auto split: if_splits)
    ultimately show ?thesis using Cons.prems(1) False by blast
  next
    case True
    have "distinct (listFor s rt)" using tab by (simp add: table_inv_def)
    then have "ks = rev (listFor (evictLocked k s) rt)" using l by (simp add: evict_lists [OF tab] removeAll_id)
    moreover have "drain now (ev + 1) ks (evictLocked k s) = (ev', s')" using Cons.prems(3) e True by simp
    ultimately have IH: "shadow_inv t s' \<and> (\<forall>rt'. rt' \<noteq> rt \<longrightarrow> listFor s' rt' = listFor (evictLocked k s) rt')
        \<and> (\<forall>k' e. map_of (entries s') k' = Some e \<longrightarrow> map_of (entries (evictLocked k s)) k' = Some e)
        \<and> (\<forall>k' e. map_of (entries (evictLocked k s)) k' = Some e \<and> now < expiry e \<longrightarrow> map_of (entries s') k' = Some e)
        \<and> (ev' < sweepChunk \<longrightarrow> (\<forall>k e. map_of (entries s') k = Some e \<and> retention e = rt \<longrightarrow> now < expiry e))"
      using Cons.IH [OF evict_inv [OF Cons.prems(1)]] by blast
    have "k \<notin> set (listFor s rt')" if "rt' \<noteq> rt" for rt' using that tab e by (simp add: table_inv_def)
    then have "listFor (evictLocked k s) rt' = listFor s rt'" if "rt' \<noteq> rt" for rt'
      using that by (simp add: evict_lists [OF tab] removeAll_id)
    moreover have "map_of (entries (evictLocked k s)) k' = (if k' = k then None else map_of (entries s) k')" for k'
      by (simp add: evict_entries)
    ultimately show ?thesis using IH e(1) True by (smt (verit) option.distinct(1) option.inject)
  qed
qed

text \<open>What one list, one pass and the whole sweep leave in the table.\<close>

definition swept :: "time \<Rightarrow> time \<Rightarrow> Shadow \<Rightarrow> Shadow \<Rightarrow> bool" where
  "swept t now s s' \<longleftrightarrow> shadow_inv t s'
     \<and> (\<forall>k e. map_of (entries s') k = Some e \<longrightarrow> map_of (entries s) k = Some e)
     \<and> (\<forall>k e. map_of (entries s) k = Some e \<and> now < expiry e \<longrightarrow> map_of (entries s') k = Some e)"

lemma swept_trans: "swept t now s1 s2 \<Longrightarrow> swept t now s2 s3 \<Longrightarrow> swept t now s1 s3"
  unfolding swept_def by blast

lemma drop_empty_list:
  assumes "listFor s rt = []"
  shows "listFor (s\<lparr>lists := AList.delete rt (lists s)\<rparr>) = listFor s"
  using assms by (auto simp: listFor_def fun_eq_iff)

lemma drop_empty_inv:
  assumes "shadow_inv t s" and "listFor s rt = []"
  shows "shadow_inv t (s\<lparr>lists := AList.delete rt (lists s)\<rparr>)"
  using assms(1) unfolding shadow_inv_def table_inv_def order_inv_def counts_inv_def groups_def seen_def cap_inv_def keys_inv_def
  by (simp add: drop_empty_list [OF assms(2)])

lemma sweep_list_spec:
  assumes "shadow_inv t s" and "listFor s rt = l" and "sweep_list now (rt, l) (ev, s) = (ev', s')"
  shows "swept t now s s' \<and> (\<forall>rt'. rt' \<noteq> rt \<longrightarrow> listFor s' rt' = listFor s rt') \<and> ev \<le> ev'
    \<and> (ev' < sweepChunk \<longrightarrow> (\<forall>k e. map_of (entries s') k = Some e \<and> retention e = rt \<longrightarrow> now < expiry e))"
proof -
  obtain s1 where d: "drain now ev (rev l) s = (ev', s1)"
    and s': "s' = (if listFor s1 rt = [] then s1\<lparr>lists := AList.delete rt (lists s1)\<rparr> else s1)"
    using assms(3) by (auto simp: sweep_list_def split: prod.splits)
  note spec = drain_spec [OF assms(1) _ d, of rt]
  have "shadow_inv t s1" using spec assms(2) by blast
  then have inv: "shadow_inv t s'" by (simp add: s' drop_empty_inv)
  have same: "entries s' = entries s1" "listFor s' = listFor s1" by (simp_all add: s' drop_empty_list)
  have "ev \<le> ev'" using drain_measure [OF d] by blast
  with spec assms(2) inv show ?thesis unfolding swept_def same by blast
qed

lemma sweep_fold_spec:
  assumes "shadow_inv t s" and "wf_map ls" and "\<forall>(rt, l) \<in> set ls. listFor s rt = l"
    and "fold (sweep_list now) ls (ev, s) = (ev', s')"
  shows "swept t now s s' \<and> ev \<le> ev' \<and> (ev' < sweepChunk \<longrightarrow>
     (\<forall>k e. map_of (entries s') k = Some e \<and> retention e \<in> fst ` set ls \<longrightarrow> now < expiry e))"
  using assms
proof (induction ls arbitrary: ev s)
  case Nil
  then have "s' = s" "ev' = ev" by simp_all
  with Nil.prems(1) show ?case unfolding swept_def by simp
next
  case (Cons rl ls)
  obtain rt l where rl: "rl = (rt, l)" by (cases rl)
  obtain ev1 s1 where s1: "sweep_list now (rt, l) (ev, s) = (ev1, s1)" by fastforce
  have spec: "swept t now s s1 \<and> (\<forall>rt'. rt' \<noteq> rt \<longrightarrow> listFor s1 rt' = listFor s rt') \<and> ev \<le> ev1
      \<and> (ev1 < sweepChunk \<longrightarrow> (\<forall>k e. map_of (entries s1) k = Some e \<and> retention e = rt \<longrightarrow> now < expiry e))"
    using Cons.prems(3) rl by (intro sweep_list_spec [OF Cons.prems(1) _ s1]) auto
  have "\<forall>(rt', l') \<in> set ls. listFor s1 rt' = l'"
    using Cons.prems(2,3) rl spec by (fastforce simp: wf_map_def)
  moreover have "wf_map ls" "shadow_inv t s1" using Cons.prems(2) spec by (auto simp: wf_map_def swept_def)
  ultimately have rest: "swept t now s1 s' \<and> ev1 \<le> ev' \<and> (ev' < sweepChunk \<longrightarrow>
     (\<forall>k e. map_of (entries s') k = Some e \<and> retention e \<in> fst ` set ls \<longrightarrow> now < expiry e))"
    using Cons.IH [of s1 ev1] Cons.prems(4) unfolding rl fold_simps s1 comp_def by blast
  have "now < expiry e" if "ev' < sweepChunk" "map_of (entries s') k = Some e" "retention e = rt" for k e
  proof -
    have "map_of (entries s1) k = Some e" using rest that(2) unfolding swept_def by blast
    moreover have "ev1 < sweepChunk" using that(1) rest by linarith
    ultimately show ?thesis using spec that(3) by blast
  qed
  moreover have "swept t now s s'" using spec rest swept_trans by blast
  moreover have "ev \<le> ev'" using spec rest by linarith
  moreover have "fst ` set (rl # ls) = insert rt (fst ` set ls)" by (simp add: rl)
  ultimately show ?case using rest by blast
qed

lemma sweep_pass_spec:
  assumes "shadow_inv t s" and "sweep_pass now s = (ev', s')"
  shows "swept t now s s' \<and> (ev' < sweepChunk \<longrightarrow> (\<forall>k e. map_of (entries s') k = Some e \<longrightarrow> now < expiry e))"
proof -
  have tab: "table_inv s" using assms(1) by (simp add: shadow_inv_def)
  have "wf_map (lists s)" using tab by (simp add: table_inv_def)
  moreover from this have "\<forall>(rt, l) \<in> set (lists s). listFor s rt = l" by (auto simp: listFor_in_lists)
  ultimately have spec: "swept t now s s' \<and> (ev' < sweepChunk \<longrightarrow>
     (\<forall>k e. map_of (entries s') k = Some e \<and> retention e \<in> fst ` set (lists s) \<longrightarrow> now < expiry e))"
    using sweep_fold_spec [OF assms(1), of "lists s" now 0 ev' s'] assms(2) unfolding sweep_pass_def by blast
  have "retention e \<in> fst ` set (lists s)" if "map_of (entries s') k = Some e" for k e
  proof -
    from that spec have "map_of (entries s) k = Some e" unfolding swept_def by blast
    from in_listFor [OF tab this] show ?thesis
      by (cases "map_of (lists s) (retention e)") (auto simp: listFor_def dest: map_of_SomeD intro: rev_image_eqI)
  qed
  with spec show ?thesis by blast
qed

lemma sweep_spec:
  assumes "shadow_inv t s" and "mono nows"
  shows "shadow_inv t (sweep nows i s)
    \<and> (\<forall>k e. map_of (entries (sweep nows i s)) k = Some e \<longrightarrow> map_of (entries s) k = Some e \<and> nows i < expiry e)
    \<and> (\<forall>k e. map_of (entries s) k = Some e \<and> (\<forall>j. nows j < expiry e) \<longrightarrow> map_of (entries (sweep nows i s)) k = Some e)"
  using assms
proof (induction nows i s rule: sweep.induct)
  case (1 nows i s)
  obtain ev s1 where s1: "sweep_pass (nows i) s = (ev, s1)" by fastforce
  note spec = sweep_pass_spec [OF 1(2) s1]
  show ?case
  proof (cases "ev < sweepChunk")
    case True
    then have "sweep nows i s = s1" using s1 by simp
    with True spec show ?thesis unfolding swept_def by blast
  next
    case False
    then have eq: "sweep nows i s = sweep nows (Suc i) s1" using s1 by simp
    have inv: "shadow_inv t s1" using spec unfolding swept_def by blast
    note IH = 1(1) [OF s1 [symmetric] False inv 1(3)]
    have "nows i \<le> nows (Suc i)" using 1(3) by (simp add: monoD)
    with IH spec show ?thesis unfolding eq swept_def by (meson le_less_trans)
  qed
qed

lemma landing_present: "entries (snd (observeKeyed xxh now model key cands h d cfg s)) \<noteq> []"
proof (rule observeKeyed_shape [where s = s and model = model and key = key and cfg = cfg and xxh = xxh
      and now = now and cands = cands and h = h and d = d])
  fix s1 e newHome r e3
  assume "snd (observeKeyed xxh now model key cands h d cfg s) =
      (shiftCountLocked model (home e) (ke_r e) newHome r s1)\<lparr>entries := AList.update (table_key model key) e3 (entries s1)\<rparr>"
  then have "map_of (entries (snd (observeKeyed xxh now model key cands h d cfg s))) (table_key model key) = Some e3" by simp
  then show ?thesis by auto
qed

section \<open>Properties\<close>

text \<open>The states of the table: any sequence of landings and sweeps, with a clock that never goes back.\<close>

inductive table_reach :: "int \<Rightarrow> time \<Rightarrow> Shadow \<Rightarrow> bool" for n where
  new: "table_reach n t (NewShadow n)"
| landing: "table_reach n t s \<Longrightarrow> t \<le> now \<Longrightarrow> length key = 32
    \<Longrightarrow> table_reach n now (snd (observeKeyed xxh now model key cands h d cfg s))"
| sweep: "table_reach n t s \<Longrightarrow> mono nows \<Longrightarrow> table_reach n t (sweep nows 0 s)"

lemma observeKeyed_maxKeys [simp]: "maxKeys (snd (observeKeyed xxh now model key cands h d cfg s)) = maxKeys s"
proof -
  have "maxKeys (snd (snd (snd (snd (observe_access now model k h rt s))))) = maxKeys s" for k rt
    by (auto simp: observe_access_def insertLocked_room touchLocked_def Let_def split: option.split)
  then show ?thesis
    by (auto simp: observeKeyed_def Let_def split: prod.split) (metis snd_conv)+
qed

lemma drain_maxKeys: "drain now ev ks s = (ev', s') \<Longrightarrow> maxKeys s' = maxKeys s"
  by (induction now ev ks s rule: drain.induct) (auto split: if_splits option.splits)

lemma sweep_pass_maxKeys: "sweep_pass now s = (ev, s') \<Longrightarrow> maxKeys s' = maxKeys s"
proof -
  have "maxKeys (snd (fold (sweep_list now) ls acc)) = maxKeys (snd acc)" for ls acc
  proof (induction ls arbitrary: acc)
    case (Cons rl ls)
    have "maxKeys (snd (sweep_list now rl acc)) = maxKeys (snd acc)"
      by (auto simp: sweep_list_def dest: drain_maxKeys split: prod.splits)
    with Cons show ?case by simp
  qed simp
  from this [of "lists s" "(0, s)"] show "sweep_pass now s = (ev, s') \<Longrightarrow> maxKeys s' = maxKeys s"
    by (simp add: sweep_pass_def)
qed

lemma sweep_maxKeys [simp]: "maxKeys (sweep nows i s) = maxKeys s"
proof (induction nows i s rule: sweep.induct)
  case (1 nows i s)
  then show ?case
    by (subst sweep.simps) (auto dest: sweep_pass_maxKeys split: prod.split simp del: sweep.simps)
qed

lemma table_reach_inv: "table_reach n t s \<Longrightarrow> shadow_inv t s \<and> maxKeys s = n"
proof (induction rule: table_reach.induct)
  case (new t)
  have "shadow_inv t (NewShadow n)"
    by (simp add: shadow_inv_def table_inv_def counts_inv_def order_inv_def cap_inv_def keys_inv_def
        NewShadow_def listFor_def groups_def count_of_def)
  then show ?case by (simp add: NewShadow_def)
next
  case (landing t s now key xxh model cands h d cfg)
  then show ?case using observeKeyed_inv [of t s now key] by simp
next
  case (sweep t s nows)
  then show ?case using sweep_spec by (simp del: sweep.simps)
qed

text \<open>
  The tracked-key counts never drift: after any sequence of landings, capacity evictions and
  sweeps, the count of every (model, home, replication factor) group is the number of keys a walk
  over the table would find in it, groups without keys have no entry, and the table never holds
  more than its capacity.
\<close>

theorem tracked_counts_exact:
  assumes "table_reach n t s" and "h \<noteq> []"
  shows "map_of (counts s) (m, h, r) =
      (let c = length (filter (\<lambda>(k, e). grp e = (m, h, r)) (entries s)) in if c = 0 then None else Some (int c))
    \<and> int (length (entries s)) \<le> max 1 n"
proof -
  have inv: "counts_inv s" "cap_inv s" "maxKeys s = n" using table_reach_inv [OF assms(1)] by (auto simp: shadow_inv_def)
  have "count (image_mset (\<lambda>(k, e). grp e) (mset es)) g = length (filter (\<lambda>(k, e). grp e = g) es)" for g es
    by (induction es) auto
  then have "count (groups s) g = length (filter (\<lambda>(k, e). grp e = g) (entries s))" for g
    by (simp add: groups_def)
  then have "count_of (counts s) (m, h, r) = int (length (filter (\<lambda>(k, e). grp e = (m, h, r)) (entries s)))"
    using inv(1) assms(2) by (simp add: counts_inv_def)
  moreover have "0 < c" if "map_of (counts s) (m, h, r) = Some c" for c
    using that inv(1) unfolding counts_inv_def by blast
  ultimately show ?thesis
    using inv(2,3) by (cases "map_of (counts s) (m, h, r)") (auto simp: count_of_def Let_def cap_inv_def)
qed

definition cfg_example :: "duration \<Rightarrow> Settings" where
  "cfg_example rt =
     \<lparr>set_Mode = ModeShadow, set_Retention = rt, set_MinPromptBytes = 0, set_SplitThresholdRPM = 15,
      set_MaxInflightDelta = -1, set_Secret = []\<rparr>"

definition key_example :: "char \<Rightarrow> string" where
  "key_example c = replicate 32 c"

definition land_example :: "time \<Rightarrow> char \<Rightarrow> duration \<Rightarrow> Shadow \<Rightarrow> Shadow" where
  "land_example now c rt s =
     snd (observeKeyed hash_example now ''m'' (key_example c) pool_candidates_example ''b'' None (cfg_example rt) s)"

definition table_example :: Shadow where
  "table_example =
     land_example (3 * hour) (CHR ''c'') minute (land_example (2 * hour) (CHR ''b'') hour
       (land_example hour (CHR ''a'') minute (NewShadow 2)))"

lemma table_example_reach: "table_reach 2 (3 * hour) table_example"
  unfolding table_example_def land_example_def
  by (intro table_reach.landing [of _ "2 * hour"] table_reach.landing [of _ hour] table_reach.landing [of _ 0] table_reach.new)
    (simp_all add: key_example_def time_simps)

theorem tracked_counts_exact_witness:
  "int (length (entries table_example)) \<le> max 1 2
   \<and> map_of (counts table_example) (''m'', ''b'', 1) =
       (let c = length (filter (\<lambda>(k, e). grp e = (''m'', ''b'', 1)) (entries table_example))
        in if c = 0 then None else Some (int c))"
  using tracked_counts_exact [OF table_example_reach, of "''b''" "''m''" 1] by simp

text \<open>
  A sweep removes exactly what has expired: every key left has an expiry after the start of the
  sweep, and no key is removed before its expiry has passed. This holds across retention windows
  and for any number of chunks, and the sweep always ends.
\<close>

theorem sweep_removes_exactly_expired:
  assumes "table_reach n t s" and "mono nows"
  shows "(\<forall>k e. map_of (entries (sweep nows 0 s)) k = Some e \<longrightarrow> map_of (entries s) k = Some e \<and> nows 0 < expiry e)
    \<and> (\<forall>k e. map_of (entries s) k = Some e \<and> (\<forall>j. nows j < expiry e)
         \<longrightarrow> map_of (entries (sweep nows 0 s)) k = Some e)"
  using sweep_spec [OF conjunct1 [OF table_reach_inv [OF assms(1)]] assms(2), of 0] by blast

lemma none_expired: "\<forall>k e. m k = Some e \<longrightarrow> t < f e \<Longrightarrow> {e. \<exists>k. m k = Some e \<and> f e \<le> t} = {}"
  for f :: "'a \<Rightarrow> int"
  by (force simp: not_less)

theorem sweep_removes_exactly_expired_witness:
  "{e. \<exists>k. map_of (entries (sweep (\<lambda>_. 4 * hour) 0 table_example)) k = Some e \<and> expiry e \<le> 4 * hour} = {}"
proof -
  have "mono (\<lambda>_ :: nat. 4 * hour)" by (simp add: mono_def)
  from sweep_removes_exactly_expired [OF table_example_reach this]
  have "\<forall>k e. map_of (entries (sweep (\<lambda>_. 4 * hour) 0 table_example)) k = Some e \<longrightarrow> 4 * hour < expiry e" by blast
  then show ?thesis by (rule none_expired)
qed

section \<open>Least recently used\<close>

lemma oldest_least:
  assumes "fold (oldest_step s) ls acc = Some (k, u)" and "\<forall>(rt, l) \<in> set ls. l \<noteq> [] \<longrightarrow> map_of (entries s) (last l) \<noteq> None"
  shows "(\<forall>(rt, l) \<in> set ls. l \<noteq> [] \<longrightarrow> u \<le> seen s (last l)) \<and> (\<forall>k' u'. acc = Some (k', u') \<longrightarrow> u \<le> u')
    \<and> (acc = Some (k, u) \<or> u = seen s k)"
  using assms
proof (induction ls arbitrary: acc)
  case (Cons rl ls)
  obtain rt l where rl: "rl = (rt, l)" by (cases rl)
  have IH: "(\<forall>(rt, l) \<in> set ls. l \<noteq> [] \<longrightarrow> u \<le> seen s (last l))
      \<and> (\<forall>k' u'. oldest_step s rl acc = Some (k', u') \<longrightarrow> u \<le> u') \<and> (oldest_step s rl acc = Some (k, u) \<or> u = seen s k)"
    using Cons by auto
  show ?case
  proof (cases "l = []")
    case True
    with IH rl show ?thesis by (simp add: oldest_step_def)
  next
    case False
    with Cons.prems(2) rl obtain e where e: "map_of (entries s) (last l) = Some e" by auto
    then have "seen s (last l) = lastSeen e" by (simp add: seen_def)
    with IH False e rl show ?thesis
      by (cases acc) (auto simp: oldest_step_def split: if_splits)
  qed
qed simp

text \<open>
  A full table makes room by dropping a least recently used key: when an insertion finds the
  table at capacity, it removes one key whose last use is not after that of any other key, whatever
  the retention windows, and keeps all the others.
\<close>

theorem capacity_eviction_is_lru:
  assumes "table_reach n t s" and "map_of (entries s) k = None" and "maxKeys s \<le> int (length (entries s))" and "entries s \<noteq> []"
  shows "\<exists>old eo. map_of (entries s) old = Some eo
    \<and> (\<forall>k' e'. map_of (entries s) k' = Some e' \<longrightarrow> lastSeen eo \<le> lastSeen e')
    \<and> (\<forall>k'. map_of (entries (insertLocked model k rt s)) k'
         = (if k' = k then Some (new_entry model rt) else if k' = old then None else map_of (entries s) k'))"
proof -
  have tab: "table_inv s" and ord: "order_inv t s" using table_reach_inv [OF assms(1)] by (auto simp: shadow_inv_def)
  obtain old u where old: "fold (oldest_step s) (lists s) None = Some (old, u)" "map_of (entries s) old \<noteq> None"
    using oldest_total [OF tab assms(4)] by blast
  have wf: "wf_map (lists s)" using tab by (simp add: table_inv_def)
  have last: "map_of (entries s) (last l) \<noteq> None" if "(rt, l) \<in> set (lists s)" "l \<noteq> []" for rt l
    using listFor_entry [OF tab, of "last l" rt] listFor_in_lists [OF wf that(1)] that(2) by simp
  note least = oldest_least [OF old(1)]
  obtain eo where eo: "map_of (entries s) old = Some eo" using old(2) by blast
  have "lastSeen eo \<le> lastSeen e'" if "map_of (entries s) k' = Some e'" for k' e'
  proof -
    have mem: "k' \<in> set (listFor s (retention e'))" by (rule in_listFor [OF tab that])
    then obtain l where "map_of (lists s) (retention e') = Some l"
      by (cases "map_of (lists s) (retention e')") (auto simp: listFor_def)
    then have l: "(retention e', l) \<in> set (lists s)" "listFor s (retention e') = l"
      by (auto simp: listFor_def dest: map_of_SomeD)
    then have "l \<noteq> []" using mem by auto
    note l = l this
    have "sorted_wrt (\<lambda>a b. seen s b \<le> seen s a) (butlast l @ [last l])" using ord l by (auto simp: order_inv_def)
    moreover have "k' \<in> set (butlast l @ [last l])" using mem l by simp
    ultimately have "seen s (last l) \<le> seen s k'" by (auto simp: sorted_wrt_append)
    moreover have "u \<le> seen s (last l)" "u = seen s old" using least last l by auto
    ultimately show ?thesis using eo that by (simp add: seen_def)
  qed
  moreover have "map_of (entries (insertLocked model k rt s)) k'
      = (if k' = k then Some (new_entry model rt) else if k' = old then None else map_of (entries s) k')" for k'
    using assms(3) old(1) by (simp add: insertLocked_room make_room_def evict_entries)
  ultimately show ?thesis using eo by blast
qed

definition full_example :: Shadow where
  "full_example = land_example hour (CHR ''a'') minute (NewShadow 1)"

theorem capacity_eviction_is_lru_witness:
  "\<exists>old eo. map_of (entries full_example) old = Some eo
    \<and> (\<nexists>k' e'. map_of (entries full_example) k' = Some e' \<and> lastSeen e' < lastSeen eo)"
proof -
  have reach: "table_reach 1 hour full_example"
    unfolding full_example_def land_example_def
    by (intro table_reach.landing [of _ 0] table_reach.new) (simp_all add: key_example_def time_simps)
  have ne: "entries full_example \<noteq> []"
    unfolding full_example_def land_example_def by (rule landing_present)
  have "maxKeys full_example = 1" using table_reach_inv [OF reach] by blast
  moreover have "map_of (entries full_example) [] = None"
    using table_reach_inv [OF reach]
    by (cases "map_of (entries full_example) []") (auto simp: shadow_inv_def keys_inv_def table_key_def)
  moreover have "1 \<le> int (length (entries full_example))" using ne by (cases "entries full_example") auto
  ultimately show ?thesis using capacity_eviction_is_lru [OF reach _ _ ne, of "[]"] by (metis (no_types) not_le)
qed

text \<open>
  Reading a rate agrees with recording it: the rate read right after a recorded request is the
  rate that recording returned, it counts at least that request, and reading changes nothing.
\<close>

theorem peek_agrees_with_bump:
  assumes "0 \<le> prevCount e" and "0 \<le> curCount e"
  shows "entry_peekRate now (snd (bumpRate now e)) = fst (bumpRate now e) \<and> 1 \<le> fst (bumpRate now e)"
proof -
  have "0 \<le> now mod minute" "now mod minute < minute" by (simp_all add: time_simps)
  then have frac: "0 \<le> minute_frac now" "minute_frac now \<le> 1"
    by (simp_all add: minute_frac_def truncate_minute_def time_simps)
  then have "0 \<le> rat_of_int p * (1 - minute_frac now)" if "0 \<le> p" for p using that by simp
  with assms show ?thesis by (simp add: bumpRate_def entry_peekRate_def Let_def)
qed

theorem peek_agrees_with_bump_witness:
  "entry_peekRate hour (snd (bumpRate hour (new_entry ''m'' minute))) = fst (bumpRate hour (new_entry ''m'' minute))
   \<and> 1 \<le> fst (bumpRate hour (new_entry ''m'' minute))"
  by (rule peek_agrees_with_bump) (simp_all add: new_entry_def)

end
