(* ===== verification/Api_Errors.thy ===== *)
theory Api_Errors
  imports Json_Value
begin

text \<open>
  The API errors of the router (\<open>manager/errors.go\<close>): the predeclared errors, the envelope a client
  sees, the \<open>Retry-After\<close> value taken over from a backend, and the normalisation of a backend's error
  body. \<open>json.Unmarshal\<close> into a map and \<open>http.ParseTime\<close> are parameters; decoding \<open>null\<close> yields the
  empty map.
\<close>

section \<open>Errors\<close>

definition ErrTypeInvalidRequest :: string where "ErrTypeInvalidRequest = ''invalid_request_error''"
definition ErrTypeRateLimit :: string where "ErrTypeRateLimit = ''rate_limit_error''"
definition ErrTypeServiceUnavailable :: string where "ErrTypeServiceUnavailable = ''service_unavailable_error''"
definition ErrTypeServer :: string where "ErrTypeServer = ''server_error''"
definition ErrTypeInsufficientQuota :: string where "ErrTypeInsufficientQuota = ''insufficient_quota''"
definition ErrTypeAuthentication :: string where "ErrTypeAuthentication = ''authentication_error''"
definition ErrTypePermission :: string where "ErrTypePermission = ''permission_error''"

lemmas err_types = ErrTypeInvalidRequest_def ErrTypeRateLimit_def ErrTypeServiceUnavailable_def
  ErrTypeServer_def ErrTypeInsufficientQuota_def ErrTypeAuthentication_def ErrTypePermission_def

record APIError =
  Status :: int
  Type :: string
  Code :: string
  Param :: string
  Message :: string
  RetryAfter :: string

text \<open>The literals of the predeclared errors; fields a literal omits are empty.\<close>

definition api_error :: "int \<Rightarrow> string \<Rightarrow> string \<Rightarrow> string \<Rightarrow> string \<Rightarrow> APIError" where
  "api_error st ty code param msg =
     \<lparr>Status = st, Type = ty, Code = code, Param = param, Message = msg, RetryAfter = []\<rparr>"

definition ErrMsgServerError :: string where
  "ErrMsgServerError = ''The server had an error while processing your request.''"

definition ErrServer :: APIError where "ErrServer = api_error 500 ErrTypeServer [] [] ErrMsgServerError"
definition ErrUpstream :: APIError where
  "ErrUpstream = api_error 502 ErrTypeServer ''upstream_error'' [] ErrMsgServerError"
definition ErrServerOverloaded :: APIError where
  "ErrServerOverloaded = api_error 503 ErrTypeServiceUnavailable ''server_is_overloaded'' [] []"
definition ErrModelUnavailable :: APIError where
  "ErrModelUnavailable = api_error 503 ErrTypeServiceUnavailable ''model_unavailable'' [] []"
definition ErrModelNotFound :: APIError where
  "ErrModelNotFound = api_error 404 ErrTypeInvalidRequest ''model_not_found'' ''model'' []"
definition ErrModelMismatch :: APIError where
  "ErrModelMismatch = api_error 400 ErrTypeInvalidRequest ''model_mismatch'' ''model''
     ''The model in the request body does not match the X-Tinfoil-Model header.''"
definition ErrRateLimited :: APIError where
  "ErrRateLimited = api_error 429 ErrTypeRateLimit ''rate_limit_exceeded'' [] []"
definition ErrBodyTooLarge :: APIError where
  "ErrBodyTooLarge = api_error 413 ErrTypeInvalidRequest ''request_too_large'' [] ''Request body is too large.''"
definition ErrBodyReadFailed :: APIError where
  "ErrBodyReadFailed = api_error 400 ErrTypeInvalidRequest ''body_read_failed'' [] ''Could not read request body.''"
definition ErrInvalidJSON :: APIError where
  "ErrInvalidJSON = api_error 400 ErrTypeInvalidRequest ''invalid_json'' [] ''Invalid request body.''"
definition ErrMissingAPIKey :: APIError where
  "ErrMissingAPIKey = api_error 401 ErrTypeInvalidRequest ''missing_api_key'' [] ''You didn't provide an API key.''"
definition ErrMethodNotAllowed :: APIError where
  "ErrMethodNotAllowed = api_error 405 ErrTypeInvalidRequest ''method_not_allowed'' [] ''Method not allowed.''"
definition ErrInvalidRequest :: APIError where
  "ErrInvalidRequest = api_error 400 ErrTypeInvalidRequest [] [] []"

text \<open>\<open>WithMessage\<close> takes the formatted text.\<close>

definition WithMessage :: "APIError \<Rightarrow> string \<Rightarrow> APIError" where "WithMessage e msg = e\<lparr>Message := msg\<rparr>"
definition WithParam :: "APIError \<Rightarrow> string \<Rightarrow> APIError" where "WithParam e p = e\<lparr>Param := p\<rparr>"
definition WithStatus :: "APIError \<Rightarrow> int \<Rightarrow> APIError" where "WithStatus e st = e\<lparr>Status := st\<rparr>"

text \<open>\<open>strconv.ParseUint(s, 10, 64)\<close> accepts digits only, up to the largest \<open>uint64\<close>.\<close>

definition ParseUint64 :: "string \<Rightarrow> int option" where
  "ParseUint64 s =
     (if s = [] then None
      else case digits_val 0 s of None \<Rightarrow> None | Some n \<Rightarrow> if n < 2 ^ 64 then Some n else None)"

definition RetryAfterFromHeader :: "(string \<Rightarrow> bool) \<Rightarrow> header \<Rightarrow> string" where
  "RetryAfterFromHeader parse_time h =
     (case header_values h ''Retry-After'' of
        [v] \<Rightarrow> (let t = TrimSpace v in if ParseUint64 t \<noteq> None then t else if parse_time t then t else [])
      | _ \<Rightarrow> [])"

definition WithRetryAfter :: "(string \<Rightarrow> bool) \<Rightarrow> APIError \<Rightarrow> header \<Rightarrow> APIError" where
  "WithRetryAfter parse_time e h = e\<lparr>RetryAfter := RetryAfterFromHeader parse_time h\<rparr>"

section \<open>The envelope\<close>

record ErrorBody =
  eb_message :: string
  eb_type :: string
  eb_param :: "string option"
  eb_code :: "string option"

definition nullableString :: "string \<Rightarrow> string option" where
  "nullableString s = (if s = [] then None else Some s)"

definition Envelope :: "APIError \<Rightarrow> ErrorBody" where
  "Envelope e = \<lparr>eb_message = Message e, eb_type = Type e,
     eb_param = nullableString (Param e), eb_code = nullableString (Code e)\<rparr>"

definition ErrorBody_Map :: "ErrorBody \<Rightarrow> json_object" where
  "ErrorBody_Map b =
     (let m = [(''message'', JString (eb_message b)), (''type'', JString (eb_type b)),
               (''param'', JNull), (''code'', JNull)];
          m1 = (case eb_param b of None \<Rightarrow> m | Some p \<Rightarrow> AList.update ''param'' (JString p) m)
      in case eb_code b of None \<Rightarrow> m1 | Some c \<Rightarrow> AList.update ''code'' (JString c) m1)"

text \<open>The response \<open>WriteAPIError\<close> writes: headers, status and envelope.\<close>

definition WriteAPIError :: "header \<Rightarrow> APIError \<Rightarrow> header \<times> int \<times> json_object" where
  "WriteAPIError h e =
     (let h1 = (if RetryAfter e \<noteq> [] then AList.update ''Retry-After'' [RetryAfter e] h else h)
      in (AList.update ''Content-Type'' [''application/json''] h1, Status e,
          [(''error'', JObject (ErrorBody_Map (Envelope e)))]))"

section \<open>Errors of a backend\<close>

definition upstreamErrorTypes :: "(string, string) gomap" where
  "upstreamErrorTypes =
     [(''BadRequestError'', ErrTypeInvalidRequest), (''NotFoundError'', ErrTypeInvalidRequest),
      (''ValidationError'', ErrTypeInvalidRequest), (''UnprocessableEntityError'', ErrTypeInvalidRequest),
      (''InternalServerError'', ErrTypeServer), (''ServiceUnavailableError'', ErrTypeServiceUnavailable),
      (''RateLimitError'', ErrTypeRateLimit)]"

definition openAIErrorTypes :: "string list" where
  "openAIErrorTypes =
     [ErrTypeInvalidRequest, ErrTypeRateLimit, ErrTypeServiceUnavailable, ErrTypeServer,
      ErrTypeInsufficientQuota, ErrTypeAuthentication, ErrTypePermission, ''not_found_error'']"

definition errTypeForStatus :: "int \<Rightarrow> string" where
  "errTypeForStatus status =
     (if status = 401 then ErrTypeAuthentication
      else if status = 403 then ErrTypePermission
      else if status = 402 then ErrTypeInsufficientQuota
      else if status = 429 then ErrTypeRateLimit
      else if status = 503 then ErrTypeServiceUnavailable
      else if 500 \<le> status then ErrTypeServer
      else ErrTypeInvalidRequest)"

text \<open>The fields an error body is read from: the nested object, or the flat one marked as an error.\<close>

definition error_fields :: "json_object \<Rightarrow> json_object option" where
  "error_fields parsed =
     (case as_object (field parsed ''error'') of
        Some inner \<Rightarrow> Some inner
      | None \<Rightarrow> if string_field parsed ''object'' \<noteq> ''error'' then None else Some parsed)"

definition normalised_type :: "int \<Rightarrow> string \<Rightarrow> string" where
  "normalised_type status errType =
     (case map_of upstreamErrorTypes errType of
        Some mapped \<Rightarrow> mapped
      | None \<Rightarrow> if errType \<notin> set openAIErrorTypes then errTypeForStatus status else errType)"

definition NormalizeUpstreamError ::
  "(string \<Rightarrow> json_object option) \<Rightarrow> int \<Rightarrow> string \<Rightarrow> APIError \<times> bool" where
  "NormalizeUpstreamError unmarshal status body =
     (case unmarshal body of
        None \<Rightarrow> (WithStatus ErrUpstream status, False)
      | Some parsed \<Rightarrow>
          (case error_fields parsed of
             None \<Rightarrow> (WithStatus ErrUpstream status, False)
           | Some fs \<Rightarrow>
               (let message = string_field fs ''message''
                in if message = [] then (WithStatus ErrUpstream status, False)
                   else (\<lparr>Status = status, Type = normalised_type status (string_field fs ''type''),
                          Code = string_field fs ''code'', Param = string_field fs ''param'',
                          Message = message, RetryAfter = []\<rparr>, True))))"

section \<open>Properties\<close>

lemma errTypeForStatus_known: "errTypeForStatus status \<in> set openAIErrorTypes"
  by (simp add: errTypeForStatus_def openAIErrorTypes_def)

lemma upstreamErrorTypes_known: "map_of upstreamErrorTypes t = Some u \<Longrightarrow> u \<in> set openAIErrorTypes"
  unfolding upstreamErrorTypes_def by (auto simp: openAIErrorTypes_def split: if_splits)

lemma normalised_type_known: "normalised_type status t \<in> set openAIErrorTypes"
  unfolding normalised_type_def
  by (cases "map_of upstreamErrorTypes t") (auto simp: errTypeForStatus_known upstreamErrorTypes_known)

text \<open>Normalising twice changes nothing: a normalised type is never renamed again.\<close>

lemma normalised_type_idem: "normalised_type status (normalised_type status t) = normalised_type status t"
proof -
  have "map_of upstreamErrorTypes u = None" if "u \<in> set openAIErrorTypes" for u
    using that by (auto simp: openAIErrorTypes_def upstreamErrorTypes_def err_types)
  with normalised_type_known [of status t] show ?thesis
    by (simp add: normalised_type_def [of status "normalised_type status t"])
qed

text \<open>The error object a client receives, read back as a backend error body.\<close>

definition error_body :: "APIError \<Rightarrow> json_object" where
  "error_body e = [(''error'', JObject (ErrorBody_Map (Envelope e)))]"

lemma error_fields_error_body [simp]: "error_fields (error_body e) = Some (ErrorBody_Map (Envelope e))"
  by (simp add: error_fields_def error_body_def field_def)

lemma ErrorBody_Map_fields:
  "string_field (ErrorBody_Map (Envelope e)) ''message'' = Message e"
  "string_field (ErrorBody_Map (Envelope e)) ''type'' = Type e"
  "string_field (ErrorBody_Map (Envelope e)) ''param'' = Param e"
  "string_field (ErrorBody_Map (Envelope e)) ''code'' = Code e"
  by (simp_all add: string_field_def ErrorBody_Map_def Envelope_def nullableString_def field_def Let_def)

text \<open>
  Normalisation of a backend error is closed: the status is the backend's, the type is always one
  of OpenAI's, the message is never empty, and a body that is not a recognisable error gives exactly
  the fixed upstream error. Normalising the written envelope of the result again (a router in front
  of a router) gives the same error, so nothing is lost or renamed a second time.
\<close>
theorem upstream_errors_normalised:
  fixes unmarshal :: "string \<Rightarrow> json_object option" and status :: int and body :: string
  defines "e \<equiv> fst (NormalizeUpstreamError unmarshal status body)"
  assumes "unmarshal written = Some (error_body e)"
  shows "Status e = status \<and> Type e \<in> set openAIErrorTypes \<and> Message e \<noteq> []
    \<and> (\<not> snd (NormalizeUpstreamError unmarshal status body) \<longrightarrow> e = WithStatus ErrUpstream status)
    \<and> NormalizeUpstreamError unmarshal status written = (e, True)"
proof -
  have server: "ErrTypeServer \<in> set openAIErrorTypes" "ErrMsgServerError \<noteq> []"
    "normalised_type status ErrTypeServer = ErrTypeServer"
    by (simp_all add: openAIErrorTypes_def ErrMsgServerError_def normalised_type_def upstreamErrorTypes_def err_types)
  have e: "e = WithStatus ErrUpstream status
    \<or> snd (NormalizeUpstreamError unmarshal status body)
      \<and> (\<exists>t. Type e = normalised_type status t) \<and> Status e = status \<and> Message e \<noteq> [] \<and> RetryAfter e = []"
    unfolding e_def NormalizeUpstreamError_def
    by (auto simp: Let_def split: option.splits)
  have props: "Status e = status" "Type e \<in> set openAIErrorTypes" "Message e \<noteq> []" "RetryAfter e = []"
    "normalised_type status (Type e) = Type e"
    using e server normalised_type_known normalised_type_idem
    by (auto simp: WithStatus_def ErrUpstream_def api_error_def)
  have fixed: "\<not> snd (NormalizeUpstreamError unmarshal status body) \<longrightarrow> e = WithStatus ErrUpstream status"
    using e by auto
  have "NormalizeUpstreamError unmarshal status written = (e, True)"
    unfolding NormalizeUpstreamError_def using assms(2) props
    by (simp add: ErrorBody_Map_fields Let_def)
  with props fixed show ?thesis by blast
qed

definition unmarshal_example :: "string \<Rightarrow> json_object option" where
  "unmarshal_example s =
     (if s = ''in'' then Some [(''object'', JString ''error''), (''message'', JString ''bad''),
                                (''type'', JString ''BadRequestError''), (''code'', JNumber ''400'')]
      else if s = ''out'' then
        Some (error_body \<lparr>Status = 400, Type = ErrTypeInvalidRequest, Code = [], Param = [],
                          Message = ''bad'', RetryAfter = []\<rparr>)
      else None)"

lemma normalise_example:
  "NormalizeUpstreamError unmarshal_example 400 ''in'' =
     (\<lparr>Status = 400, Type = ErrTypeInvalidRequest, Code = [], Param = [], Message = ''bad'', RetryAfter = []\<rparr>, True)"
  by (simp add: NormalizeUpstreamError_def unmarshal_example_def error_fields_def string_field_def field_def
      Let_def normalised_type_def upstreamErrorTypes_def)

theorem upstream_errors_normalised_witness:
  "NormalizeUpstreamError unmarshal_example 400 ''out'' = NormalizeUpstreamError unmarshal_example 400 ''in''
   \<and> Type (fst (NormalizeUpstreamError unmarshal_example 400 ''in'')) \<in> set openAIErrorTypes"
  using upstream_errors_normalised [of unmarshal_example "''out''" 400 "''in''"]
  by (simp add: normalise_example) (simp add: unmarshal_example_def)

end
