(* ===== verification/Request_Limits.thy ===== *)
theory Request_Limits
  imports Api_Errors
begin

text \<open>
  The request headers that limit a generation (\<open>max_output_tokens.go\<close>, \<open>completion_count.go\<close>). A
  handler returns the API error it reports, or the rewritten body.
\<close>

definition MaxOutputTokensRequestHeader :: string where
  "MaxOutputTokensRequestHeader = ''X-Tinfoil-Max-Output-Tokens''"
definition CompletionCountRequestHeader :: string where
  "CompletionCountRequestHeader = ''X-Tinfoil-Completion-Count''"

definition maxOutputTokensFields :: "(string, string list) gomap" where
  "maxOutputTokensFields =
     [(''/v1/chat/completions'', [''max_completion_tokens'', ''max_tokens'']),
      (''/v1/completions'', [''max_tokens'']),
      (''/v1/responses'', [''max_output_tokens''])]"

definition positiveIntHeader :: "header \<Rightarrow> string \<Rightarrow> int \<times> bool" where
  "positiveIntHeader h name =
     (case header_values h name of
        [] \<Rightarrow> (0, True)
      | [v] \<Rightarrow>
          (case ParseInt64 (TrimSpace v) of
             None \<Rightarrow> (0, False)
           | Some n \<Rightarrow> if n < 1 then (0, False) else (n, True))
      | _ \<Rightarrow> (0, False))"

definition invalid_header :: "string \<Rightarrow> APIError" where
  "invalid_header name =
     WithMessage ErrInvalidRequest (''Invalid '' @ name @ '' header: must be a single positive integer.'')"

definition applyMaxOutputTokensHeader ::
  "header \<Rightarrow> string \<Rightarrow> json_object \<Rightarrow> APIError + json_object" where
  "applyMaxOutputTokensHeader h path body =
     (case map_of maxOutputTokensFields path of
        None \<Rightarrow> Inr body
      | Some fs \<Rightarrow>
          (case positiveIntHeader h MaxOutputTokensRequestHeader of
             (limit, ok) \<Rightarrow>
               if \<not> ok then Inl (invalid_header MaxOutputTokensRequestHeader)
               else if limit = 0 then Inr body
               else Inr (AList.update (hd fs) (JInt limit) (fold AList.delete fs body))))"

definition applyCompletionCountHeader ::
  "header \<Rightarrow> string \<Rightarrow> json_object \<Rightarrow> APIError + json_object" where
  "applyCompletionCountHeader h path body =
     (if path \<noteq> ''/v1/chat/completions'' then Inr body
      else case positiveIntHeader h CompletionCountRequestHeader of
             (cnt, ok) \<Rightarrow>
               if \<not> ok then Inl (invalid_header CompletionCountRequestHeader)
               else if cnt = 0 then Inr body
               else Inr (AList.update ''n'' (JInt cnt) body))"

lemma map_of_fold_delete [simp]:
  "map_of (fold AList.delete ks m) k = (if k \<in> set ks then None else map_of m k)"
  by (induction ks arbitrary: m) auto

text \<open>The three cases of a limit header.\<close>

definition header_number :: "string list \<Rightarrow> int \<Rightarrow> bool" where
  "header_number vs n \<longleftrightarrow> (\<exists>v. vs = [v] \<and> ParseInt64 (TrimSpace v) = Some n \<and> 0 < n)"

lemma positiveIntHeader_cases:
  obtains (absent) "header_values h name = []" "positiveIntHeader h name = (0, True)"
  | (number) n where "header_number (header_values h name) n" "0 < n" "positiveIntHeader h name = (n, True)"
  | (malformed) "header_values h name \<noteq> []" "\<nexists>n. header_number (header_values h name) n"
      "positiveIntHeader h name = (0, False)"
proof (cases "header_values h name")
  case Nil
  then show thesis using absent by (simp add: positiveIntHeader_def)
next
  case (Cons v vs)
  show thesis
  proof (cases "\<exists>n. header_number (header_values h name) n")
    case True
    then show thesis using number by (auto simp: header_number_def positiveIntHeader_def)
  next
    case False
    then have "positiveIntHeader h name = (0, False)"
      using Cons by (auto simp: header_number_def positiveIntHeader_def split: list.splits option.splits)
    then show thesis using False Cons malformed by simp
  qed
qed

lemma invalid_header_status: "Status (invalid_header name) = 400 \<and> Type (invalid_header name) = ErrTypeInvalidRequest"
  by (simp add: invalid_header_def WithMessage_def ErrInvalidRequest_def api_error_def)

lemma maxOutputTokensFields_nonempty: "map_of maxOutputTokensFields path = Some fs \<Longrightarrow> fs \<noteq> []"
  by (auto simp: maxOutputTokensFields_def split: if_splits)

text \<open>The contract of a limit header: what a handler returns for its values.\<close>

definition header_contract ::
  "string list \<Rightarrow> json_object \<Rightarrow> (int \<Rightarrow> json_object \<Rightarrow> bool) \<Rightarrow> APIError + json_object \<Rightarrow> bool" where
  "header_contract vs body enforced res \<longleftrightarrow>
     (if vs = [] then res = Inr body
      else if \<exists>n. header_number vs n then \<exists>n body'. header_number vs n \<and> res = Inr body' \<and> enforced n body'
      else \<exists>e. res = Inl e \<and> Status e = 400 \<and> Type e = ErrTypeInvalidRequest)"

lemma header_contractI:
  assumes "positiveIntHeader h name = (0, True) \<Longrightarrow> res = Inr body"
    and "\<And>n. positiveIntHeader h name = (n, True) \<Longrightarrow> 0 < n \<Longrightarrow> \<exists>body'. res = Inr body' \<and> enforced n body'"
    and "positiveIntHeader h name = (0, False) \<Longrightarrow> res = Inl (invalid_header name')"
  shows "header_contract (header_values h name) body enforced res"
proof (cases rule: positiveIntHeader_cases [of h name])
  case absent
  with assms(1) show ?thesis by (simp add: header_contract_def)
next
  case (number n)
  with assms(2) [of n] show ?thesis by (auto simp: header_contract_def header_number_def)
next
  case malformed
  with assms(3) show ?thesis by (simp add: header_contract_def invalid_header_status)
qed

text \<open>
  The output limit of the header is the only one the engine sees: when a limit \<open>n\<close> is enforced
  on a generation endpoint, exactly one of the endpoint's limit fields is left, it holds \<open>n\<close>, and every
  other field is the client's. Without the header the body is untouched; a header that is repeated or
  is not one positive \<open>int64\<close> is refused with status 400. The completion count behaves in the same way
  on chat completions.
\<close>
theorem output_limit_enforced:
  assumes "map_of maxOutputTokensFields path = Some fs"
  shows "header_contract (header_values h MaxOutputTokensRequestHeader) body
      (\<lambda>n body'. {k \<in> set fs. map_of body' k \<noteq> None} = {hd fs} \<and> map_of body' (hd fs) = Some (JInt n)
         \<and> (\<forall>k. k \<notin> set fs \<longrightarrow> map_of body' k = map_of body k))
      (applyMaxOutputTokensHeader h path body)
    \<and> header_contract (header_values h CompletionCountRequestHeader) body
      (\<lambda>n body'. map_of body' = (map_of body)(''n'' \<mapsto> JInt n))
      (applyCompletionCountHeader h ''/v1/chat/completions'' body)"
proof (intro conjI header_contractI)
  have "hd fs \<in> set fs" using maxOutputTokensFields_nonempty [OF assms] by simp
  then show "\<exists>body'. applyMaxOutputTokensHeader h path body = Inr body'
      \<and> {k \<in> set fs. map_of body' k \<noteq> None} = {hd fs} \<and> map_of body' (hd fs) = Some (JInt n)
      \<and> (\<forall>k. k \<notin> set fs \<longrightarrow> map_of body' k = map_of body k)"
    if "positiveIntHeader h MaxOutputTokensRequestHeader = (n, True)" "0 < n" for n
    using that assms by (auto simp: applyMaxOutputTokensHeader_def)
qed (use assms in \<open>auto simp: applyMaxOutputTokensHeader_def applyCompletionCountHeader_def update_conv'\<close>)

definition limit_header_example :: header where
  "limit_header_example = [(''X-Tinfoil-Max-Output-Tokens'', ['' 42 ''])]"

definition limit_body_example :: json_object where
  "limit_body_example =
     [(''max_tokens'', JNumber ''9000''), (''model'', JString ''m''), (''max_completion_tokens'', JNumber ''1'')]"

lemma limit_header_number: "header_number (header_values limit_header_example MaxOutputTokensRequestHeader) 42"
proof -
  have "ParseInt64 (TrimSpace '' 42 '') = Some 42" by code_simp
  then show ?thesis
    by (simp add: header_number_def limit_header_example_def header_values_def MaxOutputTokensRequestHeader_def)
qed

theorem output_limit_enforced_witness:
  "\<exists>body'. applyMaxOutputTokensHeader limit_header_example ''/v1/chat/completions'' limit_body_example = Inr body'
     \<and> map_of body' ''max_completion_tokens'' = Some (JInt 42) \<and> map_of body' ''model'' = Some (JString ''m'')"
proof -
  let ?vs = "header_values limit_header_example MaxOutputTokensRequestHeader"
  have path: "map_of maxOutputTokensFields ''/v1/chat/completions'' = Some [''max_completion_tokens'', ''max_tokens'']"
    by (simp add: maxOutputTokensFields_def)
  have uniq: "n = 42" if "header_number ?vs n" for n
    using that limit_header_number by (auto simp: header_number_def)
  have nonempty: "?vs \<noteq> []" using limit_header_number by (auto simp: header_number_def)
  from output_limit_enforced [OF path, of limit_header_example limit_body_example, THEN conjunct1]
  obtain n body' where r: "header_number ?vs n"
    "applyMaxOutputTokensHeader limit_header_example ''/v1/chat/completions'' limit_body_example = Inr body'"
    "map_of body' ''max_completion_tokens'' = Some (JInt n)"
    "\<forall>k. k \<notin> set [''max_completion_tokens'', ''max_tokens''] \<longrightarrow> map_of body' k = map_of limit_body_example k"
    using limit_header_number nonempty unfolding header_contract_def list.sel by (metis (no_types, lifting))
  moreover have "map_of limit_body_example ''model'' = Some (JString ''m'')" by (simp add: limit_body_example_def)
  ultimately show ?thesis using uniq by auto
qed

end
