(* ===== verification/Route_Context.thy ===== *)
theory Route_Context
  imports Api_Errors Cache_Salt
begin

text \<open>
  Admission by the control plane (\<open>route_context.go\<close>, \<open>route_context_cache.go\<close>): the quota decision
  and priority of a caller, the byte-bounded LRU cache of these verdicts, the background refreshes
  that complete in any order, the metadata lookup and the body's priority field.

  The map of the cache points at list elements; here the map holds the entries and the list, front
  first, their keys. SHA-256, the JSON decoders, \<open>http.ParseTime\<close> and the HTTP exchange are
  parameters: an exchange is the reason it failed for, or a response. Sequence numbers are natural
  numbers, since a 64-bit counter of lookups does not wrap. A \<open>nil\<close> dereference is \<open>None\<close>.
\<close>

section \<open>Decisions\<close>

definition routeContextCacheMaxBytes :: int where "routeContextCacheMaxBytes = 50 * 2 ^ 20"
definition routeContextCacheEntryOverhead :: int where "routeContextCacheEntryOverhead = 1024"
definition routeContextCacheStringOverhead :: int where "routeContextCacheStringOverhead = 2"
definition routeContextResponseLimit :: nat where "routeContextResponseLimit = 64 * 2 ^ 10"
definition routeContextMaxRefreshes :: nat where "routeContextMaxRefreshes = 256"
definition routeMetadataRefreshTTL :: duration where "routeMetadataRefreshTTL = minute"
definition demotedPriority :: int where "demotedPriority = 1"
definition decisionAllowed :: string where "decisionAllowed = ''allowed''"
definition decisionDemote :: string where "decisionDemote = ''demote''"
definition decisionRejected :: string where "decisionRejected = ''rejected''"
definition rateReasonRequests :: string where "rateReasonRequests = ''requests''"
definition rateReasonTokens :: string where "rateReasonTokens = ''tokens''"

lemmas decision_names = decisionAllowed_def decisionDemote_def decisionRejected_def
  rateReasonRequests_def rateReasonTokens_def

record routeQuota =
  q_Limit :: "int option"
  q_Used :: "int option"

record routeRateLimit =
  rl_Decision :: string
  rl_Reason :: string
  rl_RetryAfterSeconds :: "int option"
  rl_Requests :: "routeQuota option"
  rl_Tokens :: "routeQuota option"
  rl_observedAt :: time

record routeContext =
  rc_Priority :: "int option"
  rc_OrgID :: string
  rc_RateLimit :: "routeRateLimit option"
  rc_unavailable :: bool
  rc_refreshedAt :: time

definition empty_context :: routeContext where
  "empty_context = \<lparr>rc_Priority = None, rc_OrgID = [], rc_RateLimit = None, rc_unavailable = False, rc_refreshedAt = 0\<rparr>"

definition quota_valid :: "routeQuota option \<Rightarrow> bool" where
  "quota_valid q =
     (case q of
        None \<Rightarrow> True
      | Some x \<Rightarrow> (case (q_Limit x, q_Used x) of (Some l, Some u) \<Rightarrow> 0 \<le> l \<and> 0 \<le> u | _ \<Rightarrow> False))"

definition rate_valid :: "routeRateLimit option \<Rightarrow> bool" where
  "rate_valid rl =
     (case rl of
        None \<Rightarrow> False
      | Some r \<Rightarrow>
          (case rl_RetryAfterSeconds r of
             None \<Rightarrow> False
           | Some retry \<Rightarrow>
               (if retry < 0 \<or> \<not> quota_valid (rl_Requests r) \<or> \<not> quota_valid (rl_Tokens r) then False
                else if rl_Reason r \<noteq> [] \<and> rl_Reason r \<noteq> rateReasonRequests \<and> rl_Reason r \<noteq> rateReasonTokens then False
                else if rl_Decision r = decisionAllowed then rl_Reason r = []
                else if rl_Decision r = decisionDemote then rl_Reason r = rateReasonRequests
                else if rl_Decision r = decisionRejected then rl_Reason r \<noteq> [] \<and> 0 < retry
                else False)))"

record routeContextError =
  re_apiError :: APIError
  re_retryAfter :: string

definition routeContextError_write :: "header \<Rightarrow> routeContextError \<Rightarrow> header \<times> int \<times> json_object" where
  "routeContextError_write h e =
     WriteAPIError (if re_retryAfter e \<noteq> [] then AList.update ''Retry-After'' [re_retryAfter e] h else h) (re_apiError e)"

definition routeContextUnavailable :: routeContext where
  "routeContextUnavailable = empty_context\<lparr>rc_unavailable := True\<rparr>"

definition applyRateDecision :: "routeRateLimit \<Rightarrow> (routeContextError option) option" where
  "applyRateDecision r =
     (if rl_Decision r \<noteq> decisionRejected then Some None
      else case rl_RetryAfterSeconds r of
             None \<Rightarrow> None
           | Some retry \<Rightarrow>
               (let what = (if rl_Reason r = rateReasonTokens then ''tokens'' else ''requests'')
                in Some (Some \<lparr>re_apiError = WithMessage ErrRateLimited
                                 (''Rate limit reached for '' @ what @ ''. Retry after '' @ show_int retry @ '' seconds.''),
                               re_retryAfter = show_int retry\<rparr>)))"

section \<open>The cache\<close>

datatype cache_key = CacheKey (credential: string) (model_digest: string)

definition routeContextKey :: "(string \<Rightarrow> string) \<Rightarrow> string \<Rightarrow> string \<Rightarrow> cache_key" where
  "routeContextKey sha256 apiKey model = CacheKey (sha256 apiKey) (sha256 model)"

record routeContextCacheEntry =
  ce_resolved :: routeContext
  ce_err :: "routeContextError option"
  ce_sequence :: nat
  ce_bytes :: int

record routeContextCache =
  rcc_entries :: "(cache_key, routeContextCacheEntry) gomap"
  rcc_lru :: "cache_key list"
  rcc_bytes :: int
  rcc_maxBytes :: int
  rcc_evictedSequence :: nat

text \<open>The countdown of a cached rejection, as \<open>get\<close> reports it.\<close>

definition countdown :: "time \<Rightarrow> routeContext \<Rightarrow> routeContext option" where
  "countdown now r =
     (case rc_RateLimit r of
        None \<Rightarrow> Some r
      | Some d \<Rightarrow>
          (if rl_Decision d \<noteq> decisionRejected then Some r
           else case rl_RetryAfterSeconds d of
                  None \<Rightarrow> None
                | Some retry \<Rightarrow>
                    (let remaining = wrap64 (retry - go_div (time_sub now (rl_observedAt d)) second)
                     in Some (if remaining \<le> 0 then r\<lparr>rc_RateLimit := None\<rparr>
                              else r\<lparr>rc_RateLimit := Some (d\<lparr>rl_RetryAfterSeconds := Some remaining\<rparr>)\<rparr>))))"

definition move_front :: "'a \<Rightarrow> 'a list \<Rightarrow> 'a list" where
  "move_front x xs = x # filter (\<lambda>y. y \<noteq> x) xs"

definition cache_get ::
  "time \<Rightarrow> cache_key \<Rightarrow> routeContextCache \<Rightarrow> ((routeContext \<times> routeContextError option) \<times> routeContextCache) option" where
  "cache_get now k c =
     (case map_of (rcc_entries c) k of
        None \<Rightarrow> Some ((empty_context, None), c)
      | Some e \<Rightarrow>
          map_option (\<lambda>r. ((r, ce_err e), c\<lparr>rcc_lru := move_front k (rcc_lru c)\<rparr>)) (countdown now (ce_resolved e)))"

definition entry_size :: "routeContext \<Rightarrow> routeContextError option \<Rightarrow> int" where
  "entry_size r err =
     routeContextCacheEntryOverhead + routeContextCacheStringOverhead *
       int (length (rc_OrgID r)
            + (case rc_RateLimit r of None \<Rightarrow> 0 | Some d \<Rightarrow> length (rl_Decision d) + length (rl_Reason d))
            + (case err of
                 None \<Rightarrow> 0
               | Some e \<Rightarrow> length (re_retryAfter e) + length (Type (re_apiError e)) + length (Code (re_apiError e))
                            + length (Param (re_apiError e)) + length (Message (re_apiError e))))"

text \<open>The eviction loop; popping the back of an empty list is the \<open>nil\<close> dereference.\<close>

function evict_loop :: "int \<Rightarrow> routeContextCache \<Rightarrow> routeContextCache option" where
  "evict_loop sz c =
     (if rcc_bytes c + sz \<le> rcc_maxBytes c then Some c
      else if rcc_lru c = [] then None
      else case map_of (rcc_entries c) (last (rcc_lru c)) of
             None \<Rightarrow> None
           | Some e \<Rightarrow>
               evict_loop sz
                 (c\<lparr>rcc_lru := butlast (rcc_lru c),
                    rcc_evictedSequence := max (rcc_evictedSequence c) (ce_sequence e),
                    rcc_entries := AList.delete (last (rcc_lru c)) (rcc_entries c),
                    rcc_bytes := rcc_bytes c - ce_bytes e\<rparr>))"
  by pat_completeness auto
termination
  by (relation "measure (\<lambda>(sz, c). length (rcc_lru c))") auto

declare evict_loop.simps [simp del]

definition cache_put ::
  "cache_key \<Rightarrow> routeContext \<Rightarrow> routeContextError option \<Rightarrow> nat \<Rightarrow> routeContextCache \<Rightarrow> routeContextCache option" where
  "cache_put k r err sequence c =
     (let sz = entry_size r err;
          insert_entry = (\<lambda>c1. map_option
            (\<lambda>c2. c2\<lparr>rcc_lru := k # rcc_lru c2, rcc_bytes := rcc_bytes c2 + sz,
                     rcc_entries := AList.update k
                       \<lparr>ce_resolved = r, ce_err = err, ce_sequence = sequence, ce_bytes = sz\<rparr> (rcc_entries c2)\<rparr>)
            (evict_loop sz c1))
      in if rcc_maxBytes c < sz then Some c
         else case map_of (rcc_entries c) k of
                Some e \<Rightarrow>
                  (if sequence < ce_sequence e then Some c
                   else insert_entry
                     (c\<lparr>rcc_bytes := rcc_bytes c - ce_bytes e, rcc_lru := filter (\<lambda>y. y \<noteq> k) (rcc_lru c),
                        rcc_entries := AList.delete k (rcc_entries c)\<rparr>))
              | None \<Rightarrow> if sequence \<le> rcc_evictedSequence c then Some c else insert_entry c)"

definition new_cache :: "int \<Rightarrow> routeContextCache" where
  "new_cache n = \<lparr>rcc_entries = [], rcc_lru = [], rcc_bytes = 0, rcc_maxBytes = n, rcc_evictedSequence = 0\<rparr>"

section \<open>One lookup at the control plane\<close>

record response =
  rs_StatusCode :: int
  rs_Header :: header
  rs_Body :: "string option"

text \<open>\<open>rs_Body\<close> is \<open>None\<close> when reading it failed; a body over the limit is dropped.\<close>

definition response_data :: "response \<Rightarrow> string option" where
  "response_data resp =
     (case rs_Body resp of
        None \<Rightarrow> None
      | Some b \<Rightarrow> if routeContextResponseLimit < length b then None else Some b)"

definition StatusText :: "int \<Rightarrow> string" where
  "StatusText st =
     (if st = 401 then ''Unauthorized'' else if st = 402 then ''Payment Required''
      else if st = 403 then ''Forbidden'' else if st = 429 then ''Too Many Requests'' else [])"

record codec =
  cd_sha256 :: "string \<Rightarrow> string"
  cd_json_string :: "string \<Rightarrow> string \<Rightarrow> string option"
  cd_object :: "string \<Rightarrow> json_object option"
  cd_context :: "string \<Rightarrow> routeContext option"
  cd_time :: "string \<Rightarrow> bool"

definition denial_error :: "codec \<Rightarrow> int \<Rightarrow> string option \<Rightarrow> APIError" where
  "denial_error cd st data =
     (let quota = (st = 429);
          base = (if quota then WithMessage ErrRateLimited (StatusText st)
                  else WithMessage (WithStatus ErrInvalidRequest st) (StatusText st))
      in case data of
           None \<Rightarrow> base
         | Some d \<Rightarrow>
             (case NormalizeUpstreamError (cd_object cd) st d of
                (normalized, ok) \<Rightarrow>
                  if ok then normalized
                  else if quota then base
                  else case cd_json_string cd ''error'' d of
                         None \<Rightarrow> base
                       | Some msg \<Rightarrow> if msg \<noteq> [] then WithMessage base msg else base))"

definition credentialDenial :: "codec \<Rightarrow> response \<Rightarrow> string option \<Rightarrow> routeContextError option" where
  "credentialDenial cd resp data =
     (let st = rs_StatusCode resp
      in if st \<notin> {401, 403, 402, 429} then None
         else Some \<lparr>re_apiError = denial_error cd st data,
                    re_retryAfter = (if st = 429 then RetryAfterFromHeader (cd_time cd) (rs_Header resp) else [])\<rparr>)"

text \<open>
  \<open>configured\<close>: the client exists and has an endpoint. \<open>startedAt\<close> is the clock before the exchange.
  The model is empty for a metadata lookup, which carries no decision. Decoding JSON cannot set the
  unexported fields of the context.
\<close>

definition decode_context :: "codec \<Rightarrow> string \<Rightarrow> routeContext option" where
  "decode_context cd d = map_option (\<lambda>r. r\<lparr>rc_unavailable := False, rc_refreshedAt := 0\<rparr>) (cd_context cd d)"

definition fetch ::
  "codec \<Rightarrow> bool \<Rightarrow> time \<Rightarrow> string + response \<Rightarrow> string \<Rightarrow> string \<Rightarrow> routeContext \<times> routeContextError option" where
  "fetch cd configured startedAt exchange apiKey model =
     (if jwtSubject (cd_json_string cd) apiKey \<noteq> [] then (empty_context, None)
      else if apiKey = [] then (empty_context, Some \<lparr>re_apiError = ErrMissingAPIKey, re_retryAfter = []\<rparr>)
      else if \<not> configured then (routeContextUnavailable, None)
      else case exchange of
             Inl reason \<Rightarrow> (routeContextUnavailable, None)
           | Inr resp \<Rightarrow>
               (let data = response_data resp
                in case credentialDenial cd resp data of
                     Some denial \<Rightarrow> (empty_context, Some denial)
                   | None \<Rightarrow>
                       (if rs_StatusCode resp \<noteq> 200 then (routeContextUnavailable, None)
                        else case data of
                               None \<Rightarrow> (routeContextUnavailable, None)
                             | Some d \<Rightarrow>
                                 (case decode_context cd d of
                                    None \<Rightarrow> (routeContextUnavailable, None)
                                  | Some resolved \<Rightarrow>
                                      (if model = [] then (resolved, None)
                                       else if \<not> rate_valid (rc_RateLimit resolved) then (routeContextUnavailable, None)
                                       else (resolved\<lparr>rc_RateLimit :=
                                               map_option (\<lambda>d. d\<lparr>rl_observedAt := startedAt\<rparr>) (rc_RateLimit resolved)\<rparr>,
                                             None))))))"


section \<open>The client\<close>

text \<open>
  A refresh in flight holds a slot and its sequence number; it is either the admission lookup of a
  model or the metadata lookup, which remembers the context it found when it started. Refreshes
  complete in any order.
\<close>

datatype flight =
  Admission (fl_seq: nat) (fl_key: string) (fl_model: string)
| MetadataFlight (fl_seq: nat) (fl_key: string) (fl_previous: routeContext)

record routeContextClient =
  cl_cache :: routeContextCache
  cl_flights :: "flight list"
  cl_sequence :: nat

definition newRouteContextClient :: routeContextClient where
  "newRouteContextClient = \<lparr>cl_cache = new_cache routeContextCacheMaxBytes, cl_flights = [], cl_sequence = 0\<rparr>"

text \<open>\<open>refresh\<close> takes a slot if one is free; otherwise the lookup is only counted as unavailable.\<close>

definition refresh :: "string \<Rightarrow> string \<Rightarrow> routeContextClient \<Rightarrow> routeContextClient" where
  "refresh apiKey model cl =
     (if length (cl_flights cl) < routeContextMaxRefreshes
      then cl\<lparr>cl_sequence := cl_sequence cl + 1,
              cl_flights := Admission (cl_sequence cl + 1) apiKey model # cl_flights cl\<rparr>
      else cl)"

definition refresh_complete ::
  "codec \<Rightarrow> time \<Rightarrow> nat \<Rightarrow> string \<Rightarrow> string \<Rightarrow> routeContext \<times> routeContextError option \<Rightarrow> routeContextClient
     \<Rightarrow> routeContextClient option" where
  "refresh_complete cd now sequence apiKey model result cl =
     (case result of
        (resolved, err) \<Rightarrow>
          (let cl1 = cl\<lparr>cl_flights := remove1 (Admission sequence apiKey model) (cl_flights cl)\<rparr>
           in if err \<noteq> None \<or> rc_RateLimit resolved \<noteq> None then
                (let r1 = resolved\<lparr>rc_refreshedAt := now\<rparr>
                 in case cache_put (routeContextKey (cd_sha256 cd) apiKey model) r1 err sequence (cl_cache cl1) of
                      None \<Rightarrow> None
                    | Some c1 \<Rightarrow>
                        (if err \<noteq> None then Some (cl1\<lparr>cl_cache := c1\<rparr>)
                         else map_option (\<lambda>c2. cl1\<lparr>cl_cache := c2\<rparr>)
                           (cache_put (routeContextKey (cd_sha256 cd) apiKey []) (r1\<lparr>rc_RateLimit := None\<rparr>) None sequence c1)))
              else Some cl1))"

definition Lookup ::
  "codec \<Rightarrow> time \<Rightarrow> string \<Rightarrow> string \<Rightarrow> routeContextClient option
     \<Rightarrow> ((routeContext \<times> routeContextError option) \<times> routeContextClient option) option" where
  "Lookup cd now apiKey model client =
     (if apiKey = [] then
        Some ((empty_context, Some \<lparr>re_apiError = ErrMissingAPIKey, re_retryAfter = []\<rparr>), client)
      else if model = [] then
        Some ((empty_context, Some \<lparr>re_apiError = WithMessage (WithParam ErrInvalidRequest ''model'')
                                      ''Missing required parameter: 'model'.'', re_retryAfter = []\<rparr>), client)
      else if jwtSubject (cd_json_string cd) apiKey \<noteq> [] then Some ((empty_context, None), client)
      else case client of
             None \<Rightarrow> Some ((routeContextUnavailable, None), None)
           | Some cl \<Rightarrow>
               (case cache_get now (routeContextKey (cd_sha256 cd) apiKey model) (cl_cache cl) of
                  None \<Rightarrow> None
                | Some ((resolved, err), c1) \<Rightarrow>
                    (let cl1 = refresh apiKey model (cl\<lparr>cl_cache := c1\<rparr>)
                     in if err \<noteq> None then Some ((empty_context, err), Some cl1)
                        else case rc_RateLimit resolved of
                               None \<Rightarrow> Some ((resolved, None), Some cl1)
                             | Some d \<Rightarrow>
                                 map_option (\<lambda>verdict. ((resolved, verdict), Some cl1)) (applyRateDecision d))))"

text \<open>
  The metadata lookup: the part before the exchange, run once per credential at a time, the part
  after it, and what the caller is told. \<open>Inl\<close> is an answer that needs no exchange.
\<close>

definition metadata_start ::
  "codec \<Rightarrow> time \<Rightarrow> string \<Rightarrow> routeContextClient \<Rightarrow> ((routeContext + nat) \<times> routeContextClient) option" where
  "metadata_start cd now apiKey cl =
     (case cache_get now (routeContextKey (cd_sha256 cd) apiKey []) (cl_cache cl) of
        None \<Rightarrow> None
      | Some ((resolved, _), c1) \<Rightarrow>
          (let cl1 = cl\<lparr>cl_cache := c1\<rparr>
           in if time_sub now (rc_refreshedAt resolved) < routeMetadataRefreshTTL then Some (Inl resolved, cl1)
              else if length (cl_flights cl1) < routeContextMaxRefreshes then
                (let n = cl_sequence cl1 + 1
                 in Some (Inr n, cl1\<lparr>cl_sequence := n, cl_flights := MetadataFlight n apiKey resolved # cl_flights cl1\<rparr>))
              else Some (Inl routeContextUnavailable, cl1)))"

definition metadata_complete ::
  "codec \<Rightarrow> time \<Rightarrow> nat \<Rightarrow> string \<Rightarrow> routeContext \<Rightarrow> routeContext \<times> routeContextError option \<Rightarrow> routeContextClient
     \<Rightarrow> ((routeContextError + routeContext) \<times> routeContextClient) option" where
  "metadata_complete cd now sequence apiKey previous result cl =
     (let cl1 = cl\<lparr>cl_flights := remove1 (MetadataFlight sequence apiKey previous) (cl_flights cl)\<rparr>;
          k = routeContextKey (cd_sha256 cd) apiKey []
      in case result of
           (_, Some err) \<Rightarrow>
             map_option (\<lambda>c. (Inl err, cl1\<lparr>cl_cache := c\<rparr>)) (cache_put k empty_context None sequence (cl_cache cl1))
         | (fetched, None) \<Rightarrow>
             (let resolved = (if rc_unavailable fetched \<and> \<not> is_zero (rc_refreshedAt previous) then previous else fetched)
              in if rc_unavailable resolved then Some (Inr resolved, cl1)
                 else (let r1 = resolved\<lparr>rc_refreshedAt := now, rc_RateLimit := None\<rparr>
                       in map_option (\<lambda>c. (Inr r1, cl1\<lparr>cl_cache := c\<rparr>)) (cache_put k r1 None sequence (cl_cache cl1)))))"

text \<open>
  The answer of \<open>Metadata\<close> for a configured client and an opaque key: \<open>cached\<close> is what its first read
  returned; \<open>waited\<close> is, for a first lookup, the result of the shared exchange together with a second
  read, or \<open>None\<close> when the caller's context ended first.
\<close>

definition metadata_answer ::
  "time \<Rightarrow> routeContext
     \<Rightarrow> ((routeContextError + routeContext) \<times> routeContext \<times> routeContextError option) option
     \<Rightarrow> routeContext \<times> routeContextError option" where
  "metadata_answer now cached waited =
     (if time_sub now (rc_refreshedAt cached) < routeMetadataRefreshTTL then (cached, None)
      else if \<not> is_zero (rc_refreshedAt cached) then (cached, None)
      else case waited of
             None \<Rightarrow> (routeContextUnavailable, None)
           | Some (fetched, current, err) \<Rightarrow>
               (if \<not> is_zero (rc_refreshedAt current) then (current, err)
                else case fetched of Inl e \<Rightarrow> (empty_context, Some e) | Inr r \<Rightarrow> (r, None)))"

section \<open>Priority\<close>

definition skipsQueue :: "routeContext \<Rightarrow> bool" where
  "skipsQueue r \<longleftrightarrow> rc_Priority r \<noteq> None"

definition priorityPaths :: "string list" where
  "priorityPaths = [''/v1/chat/completions'', ''/v1/completions'', ''/v1/responses'']"

definition applyPriority :: "routeContext \<Rightarrow> json_object option \<Rightarrow> string \<Rightarrow> json_object option" where
  "applyPriority r body path =
     (case body of
        None \<Rightarrow> None
      | Some b \<Rightarrow>
          (let b1 = AList.delete ''priority'' b
           in Some (if path \<notin> set priorityPaths then b1
                    else case rc_Priority r of
                           Some p \<Rightarrow> AList.update ''priority'' (JInt p) b1
                         | None \<Rightarrow>
                             (case rc_RateLimit r of
                                Some d \<Rightarrow> if rl_Decision d = decisionDemote
                                            then AList.update ''priority'' (JInt demotedPriority) b1 else b1
                              | None \<Rightarrow> b1))))"


section \<open>The cache invariant\<close>

definition total_bytes :: "(cache_key, routeContextCacheEntry) gomap \<Rightarrow> int" where
  "total_bytes es = sum_list (map (\<lambda>p. ce_bytes (snd p)) es)"

lemma total_bytes_mset: "total_bytes es = sum_mset (image_mset (\<lambda>p. ce_bytes (snd p)) (mset es))"
  by (simp add: total_bytes_def flip: sum_mset_sum_list)

lemma total_bytes_delete:
  "wf_map es \<Longrightarrow> map_of es k = Some e \<Longrightarrow> total_bytes (AList.delete k es) = total_bytes es - ce_bytes e"
  using mset_delete_Some [of es k e] by (simp add: total_bytes_mset)

lemma total_bytes_update:
  "map_of es k = None \<Longrightarrow> total_bytes (AList.update k e es) = total_bytes es + ce_bytes e"
  using mset_update_None [of es k e] by (simp add: total_bytes_mset)

definition decision_ok :: "routeContext \<Rightarrow> bool" where
  "decision_ok r \<longleftrightarrow> rc_RateLimit r = None \<or> rate_valid (rc_RateLimit r)"

definition index_inv :: "routeContextCache \<Rightarrow> bool" where
  "index_inv c \<longleftrightarrow> wf_map (rcc_entries c) \<and> distinct (rcc_lru c)
     \<and> (\<forall>k. k \<in> set (rcc_lru c) \<longleftrightarrow> map_of (rcc_entries c) k \<noteq> None)
     \<and> rcc_bytes c = total_bytes (rcc_entries c)
     \<and> (\<forall>k e. map_of (rcc_entries c) k = Some e \<longrightarrow> 0 < ce_bytes e \<and> decision_ok (ce_resolved e))"

definition cache_inv :: "routeContextCache \<Rightarrow> bool" where
  "cache_inv c \<longleftrightarrow> index_inv c \<and> rcc_bytes c \<le> rcc_maxBytes c"

lemma index_invD:
  assumes "index_inv c"
  shows "wf_map (rcc_entries c)" "distinct (rcc_lru c)"
    "k \<in> set (rcc_lru c) \<longleftrightarrow> map_of (rcc_entries c) k \<noteq> None"
    "rcc_bytes c = total_bytes (rcc_entries c)"
    "map_of (rcc_entries c) k = Some e \<Longrightarrow> 0 < ce_bytes e \<and> decision_ok (ce_resolved e)"
  using assms by (auto simp: index_inv_def)

text \<open>Removing one key from list and map.\<close>

definition drop_key :: "cache_key \<Rightarrow> nat \<Rightarrow> routeContextCache \<Rightarrow> routeContextCache" where
  "drop_key k sq c =
     (case map_of (rcc_entries c) k of
        None \<Rightarrow> c
      | Some e \<Rightarrow> c\<lparr>rcc_lru := filter (\<lambda>y. y \<noteq> k) (rcc_lru c), rcc_evictedSequence := sq,
                    rcc_entries := AList.delete k (rcc_entries c), rcc_bytes := rcc_bytes c - ce_bytes e\<rparr>)"

lemma drop_key_inv: "index_inv c \<Longrightarrow> index_inv (drop_key k sq c)"
  unfolding index_inv_def drop_key_def by (auto simp: total_bytes_delete split: option.split)

lemma filter_last: "distinct (xs @ [x]) \<Longrightarrow> filter (\<lambda>y. y \<noteq> x) (xs @ [x]) = xs"
  by (auto simp: filter_id_conv)

lemma evict_step:
  assumes "index_inv c" "\<not> rcc_bytes c + sz \<le> rcc_maxBytes c" "rcc_lru c \<noteq> []"
  obtains e where "map_of (rcc_entries c) (last (rcc_lru c)) = Some e"
    "evict_loop sz c = evict_loop sz (drop_key (last (rcc_lru c)) (max (rcc_evictedSequence c) (ce_sequence e)) c)"
proof -
  obtain ks k where l: "rcc_lru c = ks @ [k]" using assms(3) by (cases "rcc_lru c" rule: rev_cases) auto
  then obtain e where e: "map_of (rcc_entries c) k = Some e" using index_invD(3) [OF assms(1), of k] by auto
  have "filter (\<lambda>y. y \<noteq> k) (rcc_lru c) = butlast (rcc_lru c)"
    using index_invD(2) [OF assms(1)] l filter_last [of ks k] by simp
  then have "evict_loop sz c = evict_loop sz (drop_key k (max (rcc_evictedSequence c) (ce_sequence e)) c)"
    using e assms(2) l by (subst evict_loop.simps) (simp add: drop_key_def)
  then show thesis using that e l by simp
qed

text \<open>What the eviction loop leaves: a front part of the list, with the evicted sequences remembered.\<close>

definition evicted_to :: "routeContextCache \<Rightarrow> routeContextCache \<Rightarrow> bool" where
  "evicted_to c c' \<longleftrightarrow> prefix (rcc_lru c') (rcc_lru c) \<and> rcc_maxBytes c' = rcc_maxBytes c
     \<and> rcc_evictedSequence c \<le> rcc_evictedSequence c'
     \<and> (\<forall>k \<in> set (rcc_lru c'). map_of (rcc_entries c') k = map_of (rcc_entries c) k)
     \<and> (\<forall>k e. map_of (rcc_entries c) k = Some e \<and> k \<notin> set (rcc_lru c') \<longrightarrow> ce_sequence e \<le> rcc_evictedSequence c')"

lemma evicted_to_refl: "index_inv c \<Longrightarrow> evicted_to c c"
  using index_invD(3) by (auto simp: evicted_to_def)

lemma drop_key_evicted:
  assumes "index_inv c" "rcc_lru c = ks @ [k]" "map_of (rcc_entries c) k = Some e"
  shows "rcc_lru (drop_key k sq c) = ks" "rcc_evictedSequence (drop_key k sq c) = sq"
    "rcc_maxBytes (drop_key k sq c) = rcc_maxBytes c"
    "map_of (rcc_entries (drop_key k sq c)) = (map_of (rcc_entries c))(k := None)"
  using assms index_invD(2) [OF assms(1)] filter_last [of ks k] by (auto simp: drop_key_def)

lemma evict_loop_spec:
  assumes "index_inv c" "sz \<le> rcc_maxBytes c"
  shows "\<exists>c'. evict_loop sz c = Some c' \<and> index_inv c' \<and> rcc_bytes c' + sz \<le> rcc_maxBytes c' \<and> evicted_to c c'"
  using assms
proof (induction "length (rcc_lru c)" arbitrary: c)
  case 0
  then have "rcc_entries c = []"
    using index_invD(3) [OF 0(2)] by (metis (no_types, lifting) list.size(3) length_0_conv map_of_eq_empty_iff
        empty_iff list.set(1) ext)
  then have "rcc_bytes c + sz \<le> rcc_maxBytes c"
    using 0 index_invD(4) [OF 0(2)] by (simp add: total_bytes_def)
  then show ?case using 0 by (subst evict_loop.simps) (simp add: evicted_to_refl)
next
  case (Suc n)
  show ?case
  proof (cases "rcc_bytes c + sz \<le> rcc_maxBytes c")
    case True
    then show ?thesis using Suc.prems by (subst evict_loop.simps) (simp add: evicted_to_refl)
  next
    case False
    obtain ks k where l: "rcc_lru c = ks @ [k]" using Suc(2) by (cases "rcc_lru c" rule: rev_cases) auto
    obtain e where e: "map_of (rcc_entries c) k = Some e"
      and step: "evict_loop sz c = evict_loop sz (drop_key k (max (rcc_evictedSequence c) (ce_sequence e)) c)"
      using evict_step [OF Suc.prems(1) False] l by auto
    define c1 where "c1 = drop_key k (max (rcc_evictedSequence c) (ce_sequence e)) c"
    note d = drop_key_evicted [OF Suc.prems(1) l e, of "max (rcc_evictedSequence c) (ce_sequence e)", folded c1_def]
    have "index_inv c1" unfolding c1_def by (rule drop_key_inv [OF Suc.prems(1)])
    then obtain c' where c': "evict_loop sz c1 = Some c'" "index_inv c'" "rcc_bytes c' + sz \<le> rcc_maxBytes c'"
      "evicted_to c1 c'"
      using Suc.hyps(1) [of c1] Suc(2) Suc.prems(2) d(1,3) l by auto
    have "k \<notin> set ks" using index_invD(2) [OF Suc.prems(1)] l by simp
    have "evicted_to c c'"
      using c'(4) d e l \<open>k \<notin> set ks\<close> unfolding evicted_to_def
      by (auto simp: prefix_def split: if_splits) (metis option.inject)
    with c' step show ?thesis by (simp add: c1_def)
  qed
qed


text \<open>The sequence number below which a result for a key is out of date.\<close>

definition floor_seq :: "routeContextCache \<Rightarrow> cache_key \<Rightarrow> nat" where
  "floor_seq c k = (case map_of (rcc_entries c) k of Some e \<Rightarrow> ce_sequence e | None \<Rightarrow> rcc_evictedSequence c)"

lemma evicted_to_floor:
  assumes "evicted_to c c'" "index_inv c'"
  shows "floor_seq c k \<le> floor_seq c' k"
proof (cases "k \<in> set (rcc_lru c')")
  case True
  with assms(1) have "map_of (rcc_entries c') k = map_of (rcc_entries c) k" by (auto simp: evicted_to_def)
  moreover have "map_of (rcc_entries c') k \<noteq> None" using True index_invD(3) [OF assms(2)] by blast
  ultimately show ?thesis by (auto simp: floor_seq_def)
next
  case False
  then have "map_of (rcc_entries c') k = None" using index_invD(3) [OF assms(2)] by blast
  with False assms(1) show ?thesis by (auto simp: floor_seq_def evicted_to_def split: option.splits)
qed

lemma entry_size_pos: "0 < entry_size r err"
  by (simp add: entry_size_def routeContextCacheEntryOverhead_def routeContextCacheStringOverhead_def)

lemma floor_seq_cong:
  "map_of (rcc_entries c) k = map_of (rcc_entries c') k \<Longrightarrow> rcc_evictedSequence c = rcc_evictedSequence c' \<Longrightarrow>
     floor_seq c k = floor_seq c' k"
  by (auto simp: floor_seq_def split: option.splits)

definition with_entry :: "cache_key \<Rightarrow> routeContextCacheEntry \<Rightarrow> routeContextCache \<Rightarrow> routeContextCache" where
  "with_entry k e c =
     c\<lparr>rcc_lru := k # rcc_lru c, rcc_bytes := rcc_bytes c + ce_bytes e, rcc_entries := AList.update k e (rcc_entries c)\<rparr>"

text \<open>The insertion once the old entry of the key is gone.\<close>

lemma put_fresh:
  assumes inv: "index_inv c" and absent: "map_of (rcc_entries c) k = None"
    and e: "0 < ce_bytes e" "ce_bytes e \<le> rcc_maxBytes c" "decision_ok (ce_resolved e)"
  obtains c2 where "evict_loop (ce_bytes e) c = Some c2" "cache_inv (with_entry k e c2)"
    "rcc_maxBytes c2 = rcc_maxBytes c" "\<And>k'. k' \<noteq> k \<Longrightarrow> floor_seq c k' \<le> floor_seq (with_entry k e c2) k'"
proof -
  from evict_loop_spec [OF inv e(2)] obtain c2 where
    c2: "evict_loop (ce_bytes e) c = Some c2" "index_inv c2" "rcc_bytes c2 + ce_bytes e \<le> rcc_maxBytes c2"
      "evicted_to c c2" by blast
  have none: "k \<notin> set (rcc_lru c2)" "map_of (rcc_entries c2) k = None"
    using c2(4) absent index_invD(3) [OF inv, of k] index_invD(3) [OF c2(2), of k]
    by (auto simp: evicted_to_def prefix_def)
  have "index_inv (with_entry k e c2)"
    using c2(2) none e unfolding index_inv_def with_entry_def by (auto simp: total_bytes_update)
  then have "cache_inv (with_entry k e c2)" using c2(3) by (simp add: cache_inv_def with_entry_def)
  moreover have "floor_seq c k' \<le> floor_seq (with_entry k e c2) k'" if "k' \<noteq> k" for k'
    using evicted_to_floor [OF c2(4,2), of k'] floor_seq_cong [of "with_entry k e c2" k' c2] that
    by (simp add: with_entry_def)
  moreover have "rcc_maxBytes c2 = rcc_maxBytes c" using c2(4) by (simp add: evicted_to_def)
  ultimately show thesis using that c2(1) by blast
qed

lemma cache_put_spec:
  assumes inv: "cache_inv c" and ok: "decision_ok r"
  obtains c' where "cache_put k r err sq c = Some c'" "cache_inv c'" "rcc_maxBytes c' = rcc_maxBytes c"
    "\<And>k'. floor_seq c k' \<le> floor_seq c' k'"
    "c' = c \<or> map_of (rcc_entries c') k = Some \<lparr>ce_resolved = r, ce_err = err, ce_sequence = sq, ce_bytes = entry_size r err\<rparr>"
proof -
  define new where "new = \<lparr>ce_resolved = r, ce_err = err, ce_sequence = sq, ce_bytes = entry_size r err\<rparr>"
  have idx: "index_inv c" using inv by (simp add: cache_inv_def)
  have new: "0 < ce_bytes new" "decision_ok (ce_resolved new)" using ok by (simp_all add: new_def entry_size_pos)
  consider (same) "cache_put k r err sq c = Some c"
    | (replace) e where "map_of (rcc_entries c) k = Some e" "ce_sequence e \<le> sq" "entry_size r err \<le> rcc_maxBytes c"
    | (fresh) "map_of (rcc_entries c) k = None" "rcc_evictedSequence c < sq" "entry_size r err \<le> rcc_maxBytes c"
    by (cases "rcc_maxBytes c < entry_size r err"; cases "map_of (rcc_entries c) k")
       (force simp: cache_put_def Let_def not_less not_le)+
  then show thesis
  proof cases
    case same
    then show thesis using that inv by blast
  next
    case (replace e)
    define c1 where "c1 = drop_key k (rcc_evictedSequence c) c"
    have c1: "c1 = c\<lparr>rcc_bytes := rcc_bytes c - ce_bytes e, rcc_lru := filter (\<lambda>y. y \<noteq> k) (rcc_lru c),
        rcc_entries := AList.delete k (rcc_entries c)\<rparr>"
      using replace by (simp add: c1_def drop_key_def)
    have i1: "index_inv c1" unfolding c1_def by (rule drop_key_inv [OF idx])
    have absent: "map_of (rcc_entries c1) k = None" and fits: "ce_bytes new \<le> rcc_maxBytes c1"
      using replace(3) by (simp_all add: c1 new_def)
    obtain c2 where c2: "evict_loop (ce_bytes new) c1 = Some c2" "cache_inv (with_entry k new c2)"
      "rcc_maxBytes c2 = rcc_maxBytes c1" "\<And>k'. k' \<noteq> k \<Longrightarrow> floor_seq c1 k' \<le> floor_seq (with_entry k new c2) k'"
      using put_fresh [OF i1 absent new(1) fits new(2)] by blast
    have "cache_put k r err sq c = Some (with_entry k new c2)"
      using replace c2(1) c1 by (simp add: cache_put_def Let_def new_def with_entry_def)
    moreover have "floor_seq c k' \<le> floor_seq (with_entry k new c2) k'" for k'
    proof (cases "k' = k")
      case True
      then show ?thesis using replace by (simp add: floor_seq_def with_entry_def new_def)
    next
      case False
      then have "floor_seq c k' = floor_seq c1 k'" by (intro floor_seq_cong) (simp_all add: c1)
      with c2(4) [OF False] show ?thesis by simp
    qed
    ultimately show thesis
      using c2 that [of "with_entry k new c2"] by (simp add: c1 with_entry_def new_def)
  next
    case fresh
    have fits: "ce_bytes new \<le> rcc_maxBytes c" using fresh(3) by (simp add: new_def)
    obtain c2 where c2: "evict_loop (ce_bytes new) c = Some c2" "cache_inv (with_entry k new c2)"
      "rcc_maxBytes c2 = rcc_maxBytes c" "\<And>k'. k' \<noteq> k \<Longrightarrow> floor_seq c k' \<le> floor_seq (with_entry k new c2) k'"
      using put_fresh [OF idx fresh(1) new(1) fits new(2)] by blast
    have "cache_put k r err sq c = Some (with_entry k new c2)"
      using fresh c2(1) by (simp add: cache_put_def Let_def new_def with_entry_def)
    moreover have "floor_seq c k' \<le> floor_seq (with_entry k new c2) k'" for k'
      using c2(4) [of k'] fresh by (cases "k' = k") (simp_all add: floor_seq_def [of c k] floor_seq_def [of _ k] with_entry_def new_def)
    ultimately show thesis
      using c2 that [of "with_entry k new c2"] by (simp add: with_entry_def new_def)
  qed
qed

lemma cache_get_spec:
  assumes "cache_inv c"
  obtains r err c' where "cache_get now k c = Some ((r, err), c')" "cache_inv c'"
    "rcc_entries c' = rcc_entries c" "rcc_evictedSequence c' = rcc_evictedSequence c" "rcc_maxBytes c' = rcc_maxBytes c"
proof (cases "map_of (rcc_entries c) k")
  case None
  then show thesis using that assms by (simp add: cache_get_def)
next
  case (Some e)
  have idx: "index_inv c" using assms by (simp add: cache_inv_def)
  have "countdown now (ce_resolved e) \<noteq> None"
    using index_invD(5) [OF idx Some]
    by (auto simp: countdown_def decision_ok_def rate_valid_def Let_def split: option.splits)
  then obtain r where "countdown now (ce_resolved e) = Some r" by blast
  moreover have "cache_inv (c\<lparr>rcc_lru := move_front k (rcc_lru c)\<rparr>)"
    using assms Some unfolding cache_inv_def index_inv_def by (auto simp: move_front_def)
  ultimately show thesis using that Some by (simp add: cache_get_def)
qed


section \<open>What the client relies on\<close>

text \<open>
  The contract between the client and its cache: reads and writes never fail on a good cache, keep
  it good, and never lower the sequence number below which a result is out of date.
\<close>

locale verdict_cache =
  fixes inv :: "'c \<Rightarrow> bool" and newest :: "'c \<Rightarrow> 'k \<Rightarrow> nat" and good :: "'r \<Rightarrow> bool"
    and load :: "time \<Rightarrow> 'k \<Rightarrow> 'c \<Rightarrow> ('a \<times> 'c) option"
    and store :: "'k \<Rightarrow> 'r \<Rightarrow> 'e \<Rightarrow> nat \<Rightarrow> 'c \<Rightarrow> 'c option"
  assumes load_total: "inv c \<Longrightarrow> \<exists>a c'. load now k c = Some (a, c') \<and> inv c' \<and> newest c' = newest c"
    and store_total: "inv c \<Longrightarrow> good r \<Longrightarrow> \<exists>c'. store k r e n c = Some c' \<and> inv c' \<and> (\<forall>k'. newest c k' \<le> newest c' k')"
begin

definition advances :: "'c \<Rightarrow> 'c \<Rightarrow> bool" where
  "advances c c' \<longleftrightarrow> inv c' \<and> (\<forall>k. newest c k \<le> newest c' k)"

lemma advances_trans: "advances a b \<Longrightarrow> advances b c \<Longrightarrow> advances a c"
  by (auto simp: advances_def intro: order_trans)

lemma advances_refl: "inv c \<Longrightarrow> advances c c"
  by (simp add: advances_def)

lemma load_advances: "inv c \<Longrightarrow> load now k c = Some (a, c') \<Longrightarrow> advances c c'"
  using load_total [of c now k] by (auto simp: advances_def)

lemma store_advances: "inv c \<Longrightarrow> good r \<Longrightarrow> store k r e n c = Some c' \<Longrightarrow> advances c c'"
  using store_total [of c r k e n] by (auto simp: advances_def)

lemma two_stores:
  assumes "inv c" "good r" "good r'"
  shows "\<exists>c1 c2. store k r e n c = Some c1 \<and> store k' r' e' n' c1 = Some c2 \<and> advances c c2"
  using store_total [OF assms(1,2)] store_total [OF _ assms(3)] unfolding advances_def
  by (metis order_trans)

end

definition sized :: "int \<Rightarrow> routeContextCache \<Rightarrow> bool" where
  "sized n c \<longleftrightarrow> cache_inv c \<and> rcc_maxBytes c = n"

interpretation verdicts: verdict_cache "sized n" floor_seq decision_ok cache_get cache_put for n
proof unfold_locales
  fix c now k
  assume "sized n c"
  then obtain r err c' where g: "cache_get now k c = Some ((r, err), c')" "sized n c'"
    "rcc_entries c' = rcc_entries c" "rcc_evictedSequence c' = rcc_evictedSequence c"
    using cache_get_spec [of c now k] by (metis sized_def)
  then have "floor_seq c' = floor_seq c" by (intro ext floor_seq_cong) simp_all
  with g show "\<exists>a c'. cache_get now k c = Some (a, c') \<and> sized n c' \<and> floor_seq c' = floor_seq c" by blast
next
  fix c r k e m
  assume "sized n c" "decision_ok r"
  then show "\<exists>c'. cache_put k r e m c = Some c' \<and> sized n c' \<and> (\<forall>k'. floor_seq c k' \<le> floor_seq c' k')"
    using cache_put_spec [of c r k e m] by (metis sized_def)
qed

text \<open>The steps of a client: calls, and completions of refreshes in any order with any answer.\<close>

inductive client_step :: "codec \<Rightarrow> routeContextClient \<Rightarrow> routeContextClient \<Rightarrow> bool" for cd where
  lookup: "Lookup cd now apiKey model (Some cl) = Some (ans, Some cl') \<Longrightarrow> client_step cd cl cl'"
| admission: "Admission n apiKey model \<in> set (cl_flights cl) \<Longrightarrow>
    refresh_complete cd now n apiKey model (fetch cd True started exchange apiKey model) cl = Some cl' \<Longrightarrow>
    client_step cd cl cl'"
| metadata: "metadata_start cd now apiKey cl = Some (res, cl') \<Longrightarrow> client_step cd cl cl'"
| metadata_done: "MetadataFlight n apiKey previous \<in> set (cl_flights cl) \<Longrightarrow>
    metadata_complete cd now n apiKey previous (fetch cd True started exchange apiKey []) cl = Some (res, cl') \<Longrightarrow>
    client_step cd cl cl'"

inductive client_reach :: "codec \<Rightarrow> routeContextClient \<Rightarrow> bool" for cd where
  initial: "client_reach cd newRouteContextClient"
| advance: "client_reach cd cl \<Longrightarrow> client_step cd cl cl' \<Longrightarrow> client_reach cd cl'"

definition flight_ok :: "nat \<Rightarrow> flight \<Rightarrow> bool" where
  "flight_ok n f = (fl_seq f \<le> n \<and> (case f of Admission _ _ model \<Rightarrow> model \<noteq> [] | MetadataFlight _ _ _ \<Rightarrow> True))"

definition client_inv :: "routeContextClient \<Rightarrow> bool" where
  "client_inv cl \<longleftrightarrow> sized routeContextCacheMaxBytes (cl_cache cl)
     \<and> length (cl_flights cl) \<le> routeContextMaxRefreshes
     \<and> distinct (map fl_seq (cl_flights cl)) \<and> list_all (flight_ok (cl_sequence cl)) (cl_flights cl)"

lemma rate_valid_observed: "rate_valid (map_option (\<lambda>d. d\<lparr>rl_observedAt := t\<rparr>) x) = rate_valid x"
  by (cases x) (simp_all add: rate_valid_def split: option.split)

lemma decision_ok_empty: "decision_ok empty_context" "decision_ok routeContextUnavailable"
  by (simp_all add: decision_ok_def empty_context_def routeContextUnavailable_def)

lemma decision_ok_observed:
  "rate_valid (rc_RateLimit r) \<Longrightarrow>
     decision_ok (r\<lparr>rc_RateLimit := map_option (\<lambda>d. d\<lparr>rl_observedAt := t\<rparr>) (rc_RateLimit r)\<rparr>)"
  by (simp add: decision_ok_def rate_valid_observed)

lemma decision_ok_cleared: "decision_ok (r\<lparr>rc_RateLimit := None\<rparr>)"
  by (simp add: decision_ok_def)

lemma decision_ok_refreshed: "decision_ok (r\<lparr>rc_refreshedAt := t\<rparr>) = decision_ok r"
  by (simp add: decision_ok_def)

lemma fetch_decision_ok: "model \<noteq> [] \<Longrightarrow> decision_ok (fst (fetch cd conf started exchange apiKey model))"
  unfolding fetch_def Let_def
  by (simp add: decision_ok_empty decision_ok_observed split: sum.split option.split)


abbreviation cache_advances :: "routeContextCache \<Rightarrow> routeContextCache \<Rightarrow> bool" where
  "cache_advances \<equiv> verdicts.advances routeContextCacheMaxBytes"

text \<open>One step of the client: its invariant is kept and no key's newest sequence goes back.\<close>

definition client_advances :: "routeContextClient \<Rightarrow> routeContextClient \<Rightarrow> bool" where
  "client_advances cl cl' \<longleftrightarrow> client_inv cl' \<and> cache_advances (cl_cache cl) (cl_cache cl')"

lemma client_inv_init: "client_inv newRouteContextClient"
  by (simp add: client_inv_def newRouteContextClient_def sized_def new_cache_def cache_inv_def index_inv_def
      total_bytes_def routeContextCacheMaxBytes_def)

lemma flight_ok_mono: "flight_ok n f \<Longrightarrow> n \<le> m \<Longrightarrow> flight_ok m f"
  by (auto simp: flight_ok_def split: flight.splits)

lemma distinct_map_remove1: "distinct (map f xs) \<Longrightarrow> distinct (map f (remove1 x xs))"
  by (induction xs) (auto dest: set_remove1_subset [THEN subsetD])

lemma start_flight:
  assumes inv: "client_inv cl" and "length (cl_flights cl) < routeContextMaxRefreshes" "flight_ok (cl_sequence cl + 1) f"
    "fl_seq f = cl_sequence cl + 1" "sized routeContextCacheMaxBytes c"
  shows "client_inv (cl\<lparr>cl_cache := c, cl_sequence := cl_sequence cl + 1, cl_flights := f # cl_flights cl\<rparr>)"
proof -
  have old: "flight_ok (cl_sequence cl) g" if "g \<in> set (cl_flights cl)" for g
    using inv that by (auto simp: client_inv_def list_all_iff)
  then have "flight_ok (cl_sequence cl + 1) g" if "g \<in> set (cl_flights cl)" for g
    using that flight_ok_mono by fastforce
  moreover have "fl_seq f \<notin> fl_seq ` set (cl_flights cl)"
    using old assms(4) by (force simp: flight_ok_def)
  ultimately show ?thesis using assms by (simp add: client_inv_def list_all_iff)
qed

lemma end_flight:
  assumes "client_inv cl" "sized routeContextCacheMaxBytes c"
  shows "client_inv (cl\<lparr>cl_flights := remove1 f (cl_flights cl), cl_cache := c\<rparr>)"
  using assms unfolding client_inv_def
  by (auto simp: list_all_iff length_remove1 distinct_map_remove1 dest: notin_set_remove1)


lemma refresh_advances:
  assumes "client_inv cl" "model \<noteq> []" "cache_advances (cl_cache cl) c"
  shows "client_advances cl (refresh apiKey model (cl\<lparr>cl_cache := c\<rparr>))"
proof -
  have sized: "sized routeContextCacheMaxBytes c" using assms(3) by (simp add: verdicts.advances_def)
  have "client_inv (refresh apiKey model (cl\<lparr>cl_cache := c\<rparr>))"
  proof (cases "length (cl_flights cl) < routeContextMaxRefreshes")
    case True
    have "flight_ok (cl_sequence cl + 1) (Admission (cl_sequence cl + 1) apiKey model)"
      using assms(2) by (simp add: flight_ok_def)
    from start_flight [OF assms(1) True this _ sized] True show ?thesis by (simp add: refresh_def)
  next
    case False
    then show ?thesis using assms(1) sized by (simp add: refresh_def client_inv_def)
  qed
  moreover have "cl_cache (refresh apiKey model (cl\<lparr>cl_cache := c\<rparr>)) = c" by (simp add: refresh_def)
  ultimately show ?thesis using assms(3) by (simp add: client_advances_def)
qed

lemma rate_valid_remaining:
  assumes "rate_valid (Some d)" "rl_Decision d = decisionRejected" "0 < n"
  shows "rate_valid (Some (d\<lparr>rl_RetryAfterSeconds := Some n\<rparr>))"
  using assms unfolding rate_valid_def by (auto simp: decision_names split: option.splits if_splits)

lemma countdown_ok:
  assumes "decision_ok r" "countdown now r = Some r'"
  shows "decision_ok r'"
proof (cases "rc_RateLimit r")
  case None
  then show ?thesis using assms by (simp add: countdown_def)
next
  case (Some d)
  then have v: "rate_valid (Some d)" using assms(1) by (simp add: decision_ok_def)
  show ?thesis
    using assms Some rate_valid_remaining [OF v]
    by (simp add: countdown_def Let_def decision_ok_def split: option.splits if_splits) auto
qed

lemma cached_decision_ok:
  assumes "cache_inv c" "cache_get now k c = Some ((r, err), c')"
  shows "decision_ok r"
proof (cases "map_of (rcc_entries c) k")
  case None
  then show ?thesis using assms(2) decision_ok_empty by (auto simp: cache_get_def)
next
  case (Some e)
  then have ok: "decision_ok (ce_resolved e)" using assms(1) index_invD(5) by (auto simp: cache_inv_def)
  have "countdown now (ce_resolved e) = Some r" using Some assms(2) by (auto simp: cache_get_def)
  with ok show ?thesis by (rule countdown_ok)
qed

lemma applyRateDecision_total: "decision_ok r \<Longrightarrow> rc_RateLimit r = Some d \<Longrightarrow> applyRateDecision d \<noteq> None"
  by (auto simp: applyRateDecision_def decision_ok_def rate_valid_def Let_def split: option.splits)

lemma Lookup_step:
  assumes inv: "client_inv cl"
  obtains ans cl' where "Lookup cd now apiKey model (Some cl) = Some (ans, Some cl')" "client_advances cl cl'"
proof -
  have c: "sized routeContextCacheMaxBytes (cl_cache cl)" using inv by (simp add: client_inv_def)
  have refl: "client_advances cl cl" using inv c by (simp add: client_advances_def verdicts.advances_refl)
  show thesis
  proof (cases "apiKey = [] \<or> model = [] \<or> jwtSubject (cd_json_string cd) apiKey \<noteq> []")
    case True
    then have "\<exists>ans. Lookup cd now apiKey model (Some cl) = Some (ans, Some cl)"
      unfolding Lookup_def by (cases "apiKey = []"; cases "model = []") simp_all
    then show thesis using that refl by blast
  next
    case False
    then have cached: "apiKey \<noteq> []" "model \<noteq> []" "jwtSubject (cd_json_string cd) apiKey = []" by auto
    let ?k = "routeContextKey (cd_sha256 cd) apiKey model"
    obtain r err c' where g: "cache_get now ?k (cl_cache cl) = Some ((r, err), c')"
      using verdicts.load_total [OF c] by fast
    have adv: "client_advances cl (refresh apiKey model (cl\<lparr>cl_cache := c'\<rparr>))"
      using refresh_advances [OF inv cached(2)] verdicts.load_advances [OF c g] by blast
    have "decision_ok r" using cached_decision_ok [OF _ g] c by (simp add: sized_def)
    then have "\<exists>ans. Lookup cd now apiKey model (Some cl) = Some (ans, Some (refresh apiKey model (cl\<lparr>cl_cache := c'\<rparr>)))"
      using g cached applyRateDecision_total [of r]
      by (cases err; cases "rc_RateLimit r") (auto simp: Lookup_def Let_def)
    then show thesis using that adv by blast
  qed
qed


lemma refresh_complete_step:
  assumes inv: "client_inv cl" and "model \<noteq> []"
  obtains cl' where
    "refresh_complete cd now n apiKey model (fetch cd conf started exchange apiKey model) cl = Some cl'"
    "client_advances cl cl'"
proof -
  obtain resolved err where f: "fetch cd conf started exchange apiKey model = (resolved, err)" by fastforce
  let ?fl = "Admission n apiKey model" and ?c = "cl_cache cl"
  let ?r = "resolved\<lparr>rc_refreshedAt := now\<rparr>"
  have c: "sized routeContextCacheMaxBytes ?c" using inv by (simp add: client_inv_def)
  have ok: "decision_ok ?r"
    using fetch_decision_ok [OF assms(2), of cd conf started exchange apiKey] f by (simp add: decision_ok_refreshed)
  have done_with: "client_advances cl (cl\<lparr>cl_flights := remove1 ?fl (cl_flights cl), cl_cache := c'\<rparr>)"
    if "cache_advances ?c c'" for c'
    using that end_flight [OF inv] by (simp add: client_advances_def verdicts.advances_def)
  from verdicts.two_stores [OF c ok decision_ok_cleared] obtain c1 c2 where
    two: "cache_put (routeContextKey (cd_sha256 cd) apiKey model) ?r err n ?c = Some c1"
      "cache_put (routeContextKey (cd_sha256 cd) apiKey []) (?r\<lparr>rc_RateLimit := None\<rparr>) None n c1 = Some c2"
      "cache_advances ?c c2" by blast
  have one: "cache_advances ?c c1" by (rule verdicts.store_advances [OF c ok two(1)])
  have none: "cache_advances ?c ?c" by (rule verdicts.advances_refl [OF c])
  show thesis
  proof (cases "err = None \<and> rc_RateLimit resolved = None")
    case True
    then show thesis
      using that [of "cl\<lparr>cl_flights := remove1 ?fl (cl_flights cl)\<rparr>"] done_with [OF none] f by (simp add: refresh_complete_def)
  next
    case False
    show thesis
    proof (cases "err = None")
      case True
      then show thesis using False two that done_with [OF two(3)] f by (simp add: refresh_complete_def Let_def)
    next
      case err: False
      then show thesis using two(1) that done_with [OF one] f by (simp add: refresh_complete_def Let_def)
    qed
  qed
qed

lemma metadata_start_step:
  assumes inv: "client_inv cl"
  obtains res cl' where "metadata_start cd now apiKey cl = Some (res, cl')" "client_advances cl cl'"
proof -
  have c: "sized routeContextCacheMaxBytes (cl_cache cl)" using inv by (simp add: client_inv_def)
  obtain r err c' where g: "cache_get now (routeContextKey (cd_sha256 cd) apiKey []) (cl_cache cl) = Some ((r, err), c')"
    using verdicts.load_total [OF c] by fast
  have adv: "cache_advances (cl_cache cl) c'" by (rule verdicts.load_advances [OF c g])
  then have c': "sized routeContextCacheMaxBytes c'" by (simp add: verdicts.advances_def)
  have plain: "client_advances cl (cl\<lparr>cl_cache := c'\<rparr>)"
    using inv c' adv by (simp add: client_advances_def client_inv_def)
  let ?f = "MetadataFlight (cl_sequence cl + 1) apiKey r"
  have flight: "client_advances cl
      (cl\<lparr>cl_cache := c', cl_sequence := cl_sequence cl + 1, cl_flights := ?f # cl_flights cl\<rparr>)"
    if "length (cl_flights cl) < routeContextMaxRefreshes"
    using start_flight [OF inv that _ _ c', of ?f] adv by (simp add: client_advances_def flight_ok_def)
  have "\<exists>res cl'. metadata_start cd now apiKey cl = Some (res, cl') \<and> client_advances cl cl'"
    using g plain flight
    by (cases "time_sub now (rc_refreshedAt r) < routeMetadataRefreshTTL";
        cases "length (cl_flights cl) < routeContextMaxRefreshes") (simp_all add: metadata_start_def Let_def)
  then show thesis using that by blast
qed

lemma metadata_complete_step:
  assumes inv: "client_inv cl"
  obtains res cl' where "metadata_complete cd now n apiKey previous result cl = Some (res, cl')" "client_advances cl cl'"
proof -
  obtain fetched err where result: "result = (fetched, err)" by fastforce
  let ?fl = "MetadataFlight n apiKey previous" and ?c = "cl_cache cl" and ?k = "routeContextKey (cd_sha256 cd) apiKey []"
  have c: "sized routeContextCacheMaxBytes ?c" using inv by (simp add: client_inv_def)
  have done_with: "client_advances cl (cl\<lparr>cl_flights := remove1 ?fl (cl_flights cl), cl_cache := c'\<rparr>)"
    if "cache_advances ?c c'" for c'
    using that end_flight [OF inv] by (simp add: client_advances_def verdicts.advances_def)
  have put: "\<exists>c'. cache_put ?k r None n ?c = Some c' \<and> cache_advances ?c c'" if "decision_ok r" for r
    using verdicts.store_total [OF c that] by (auto simp: verdicts.advances_def)
  note stay = done_with [OF verdicts.advances_refl [OF c]]
  show thesis
  proof (cases err)
    case (Some e)
    then show thesis
      using put [OF decision_ok_empty(1)] that done_with result by (auto simp: metadata_complete_def Let_def)
  next
    case None
    define r where "r = (if rc_unavailable fetched \<and> \<not> is_zero (rc_refreshedAt previous) then previous else fetched)"
    obtain c' where "cache_put ?k (r\<lparr>rc_refreshedAt := now, rc_RateLimit := None\<rparr>) None n ?c = Some c'" "cache_advances ?c c'"
      using put [OF decision_ok_cleared] by blast
    then show thesis
      using None that done_with [of c'] stay result
      by (cases "rc_unavailable r") (auto simp: metadata_complete_def Let_def simp flip: r_def)
  qed
qed

lemma client_step_advances:
  assumes "client_step cd cl cl'" "client_inv cl"
  shows "client_advances cl cl'"
  using assms(1)
proof cases
  case (lookup now apiKey model ans)
  then show ?thesis using Lookup_step [OF assms(2), of cd now apiKey model] by (metis option.inject prod.inject)
next
  case (admission n apiKey model now started exchange)
  then have "model \<noteq> []" using assms(2) by (auto simp: client_inv_def list_all_iff flight_ok_def)
  then show ?thesis using refresh_complete_step [OF assms(2)] admission(2) by (metis option.inject)
next
  case (metadata now apiKey res)
  then show ?thesis using metadata_start_step [OF assms(2), of cd now apiKey] by (metis option.inject prod.inject)
next
  case (metadata_done n apiKey previous now started exchange res)
  then show ?thesis
    using metadata_complete_step [OF assms(2), of cd now n apiKey previous] by (metis option.inject prod.inject)
qed

lemma client_reach_inv: "client_reach cd cl \<Longrightarrow> client_inv cl"
  by (induction rule: client_reach.induct) (auto simp: client_inv_init client_advances_def dest: client_step_advances)


section \<open>Properties of the client\<close>

text \<open>
  The admission client is total and bounded: in every reachable state, with refreshes completing in
  any order and with any answer, no call dereferences \<open>nil\<close> or pops an empty list, the byte count of
  the cache is exactly the sum over its entries and at most 50 MiB, and at most 256 refreshes are in
  flight, each with its own sequence number.
\<close>
theorem admission_client_bounded:
  assumes "client_reach cd cl"
  shows "rcc_bytes (cl_cache cl) = total_bytes (rcc_entries (cl_cache cl))
    \<and> rcc_bytes (cl_cache cl) \<le> routeContextCacheMaxBytes
    \<and> length (cl_flights cl) \<le> routeContextMaxRefreshes \<and> distinct (map fl_seq (cl_flights cl))
    \<and> Lookup cd now apiKey model (Some cl) \<noteq> None \<and> metadata_start cd now apiKey cl \<noteq> None
    \<and> metadata_complete cd now n apiKey previous result cl \<noteq> None
    \<and> (model \<noteq> [] \<longrightarrow>
        refresh_complete cd now n apiKey model (fetch cd conf started exchange apiKey model) cl \<noteq> None)"
proof -
  have inv: "client_inv cl" by (rule client_reach_inv [OF assms])
  then have "index_inv (cl_cache cl)" "rcc_bytes (cl_cache cl) \<le> routeContextCacheMaxBytes"
    "length (cl_flights cl) \<le> routeContextMaxRefreshes" "distinct (map fl_seq (cl_flights cl))"
    by (simp_all add: client_inv_def sized_def cache_inv_def)
  moreover have "Lookup cd now apiKey model (Some cl) \<noteq> None" using Lookup_step [OF inv] by (metis option.distinct(1))
  moreover have "metadata_start cd now apiKey cl \<noteq> None" using metadata_start_step [OF inv] by (metis option.distinct(1))
  moreover have "metadata_complete cd now n apiKey previous result cl \<noteq> None"
    using metadata_complete_step [OF inv] by (metis option.distinct(1))
  moreover have "refresh_complete cd now n apiKey model (fetch cd conf started exchange apiKey model) cl \<noteq> None"
    if "model \<noteq> []" using refresh_complete_step [OF inv that] by (metis option.distinct(1))
  ultimately show ?thesis using index_invD(4) by blast
qed

lemma client_steps_advance:
  "(client_step cd)\<^sup>*\<^sup>* cl cl' \<Longrightarrow> client_inv cl \<Longrightarrow> client_advances cl cl'"
proof (induction rule: rtranclp_induct)
  case base
  then show ?case by (simp add: client_advances_def client_inv_def verdicts.advances_refl)
next
  case (step y z)
  then have "client_advances cl y" "client_advances y z"
    using client_step_advances by (auto simp: client_advances_def)
  then show ?case using verdicts.advances_trans by (auto simp: client_advances_def)
qed

text \<open>
  C25. A late answer never replaces a newer one: once the verdict of lookup number \<open>n\<close> for a key has been
  cached, every verdict cached for that key in any later state comes from a lookup numbered \<open>n\<close> or
  higher, even when the entry was evicted in between and however the refreshes are interleaved.
\<close>
theorem late_verdicts_lose:
  assumes "client_reach cd cl" "(client_step cd)\<^sup>*\<^sup>* cl cl'"
    and "map_of (rcc_entries (cl_cache cl)) k = Some e" "map_of (rcc_entries (cl_cache cl')) k = Some e'"
  shows "ce_sequence e \<le> ce_sequence e'"
proof -
  have "client_advances cl cl'" using client_steps_advance [OF assms(2)] client_reach_inv [OF assms(1)] by blast
  then have "floor_seq (cl_cache cl) k \<le> floor_seq (cl_cache cl') k"
    by (simp add: client_advances_def verdicts.advances_def)
  with assms(3,4) show ?thesis by (simp add: floor_seq_def)
qed

text \<open>
  A cached rejection is served exactly until it runs out: for a rejection observed at \<open>t\<close> with a retry
  after \<open>R\<close> seconds, a lookup \<open>d\<close> after \<open>t\<close> is refused with status 429 and \<open>Retry-After\<close> equal to \<open>R\<close>
  less the whole seconds of \<open>d\<close>, a positive number, while that is positive, and admitted without a
  decision from then on.
\<close>
theorem cached_rejection_countdown:
  assumes "map_of (rcc_entries (cl_cache cl)) (routeContextKey (cd_sha256 cd) apiKey model) = Some e"
    and "ce_err e = None" "rc_RateLimit (ce_resolved e) = Some r" "rl_Decision r = decisionRejected"
    and "rl_RetryAfterSeconds r = Some R" "0 < R" "R \<le> max_int64" "0 \<le> d" "d \<le> max_int64"
    and "apiKey \<noteq> []" "model \<noteq> []" "jwtSubject (cd_json_string cd) apiKey = []"
  shows "\<exists>resolved verdict cl'. Lookup cd (rl_observedAt r + d) apiKey model (Some cl) = Some ((resolved, verdict), Some cl')
    \<and> (if d div second < R
       then \<exists>err. verdict = Some err \<and> Status (re_apiError err) = 429
              \<and> re_retryAfter err = show_int (R - d div second) \<and> 0 < R - d div second
       else verdict = None \<and> rc_RateLimit resolved = None)"
proof -
  have sub: "time_sub (rl_observedAt r + d) (rl_observedAt r) = d"
    using assms(8,9) by (simp add: time_sub_def int64_defs)
  have "0 \<le> d div 1000000000 \<and> d div 1000000000 \<le> d" using assms(8) by linarith
  then have quot: "go_div d second = d div second" "0 \<le> d div second" "d div second \<le> d"
    using assms(8) by (simp_all add: second_def)
  have wrap: "wrap64 (R - d div second) = R - d div second"
    using assms(6,7,9) quot(2,3) by (intro wrap64_id) (simp_all add: int64_defs)
  show ?thesis
  proof (cases "d div second < R")
    case True
    then show ?thesis
      using assms by (simp add: Lookup_def cache_get_def countdown_def sub quot wrap Let_def applyRateDecision_def
          WithMessage_def ErrRateLimited_def api_error_def)
  next
    case False
    then show ?thesis
      using assms by (simp add: Lookup_def cache_get_def countdown_def sub quot wrap Let_def)
  qed
qed


lemma openAI_base: "ErrTypeInvalidRequest \<in> set openAIErrorTypes" "ErrTypeRateLimit \<in> set openAIErrorTypes"
  by (simp_all add: openAIErrorTypes_def)

text \<open>
  The denials of the control plane, and the one answer that is believed: status 200, a body within the limit, a
  context that decodes and, for a model, a valid decision.
\<close>

definition denies :: "string + response \<Rightarrow> int \<Rightarrow> bool" where
  "denies exchange st \<longleftrightarrow> st \<in> {401, 402, 403, 429} \<and> (\<exists>resp. exchange = Inr resp \<and> rs_StatusCode resp = st)"

definition answers_with :: "codec \<Rightarrow> string + response \<Rightarrow> string \<Rightarrow> routeContext \<Rightarrow> bool" where
  "answers_with cd exchange model r \<longleftrightarrow>
     (\<exists>resp d. exchange = Inr resp \<and> rs_StatusCode resp = 200 \<and> response_data resp = Some d \<and> decode_context cd d = Some r
        \<and> (model \<noteq> [] \<longrightarrow> rate_valid (rc_RateLimit r)))"

definition observed :: "time \<Rightarrow> string \<Rightarrow> routeContext \<Rightarrow> routeContext" where
  "observed t model r =
     (if model = [] then r else r\<lparr>rc_RateLimit := map_option (\<lambda>d. d\<lparr>rl_observedAt := t\<rparr>) (rc_RateLimit r)\<rparr>)"

lemma denial_error_status:
  "st \<in> {401, 402, 403, 429} \<Longrightarrow> Status (denial_error cd st d) = st \<and> Type (denial_error cd st d) \<in> set openAIErrorTypes"
  using normalised_type_known
  by (auto simp: denial_error_def Let_def WithMessage_def WithStatus_def ErrRateLimited_def ErrInvalidRequest_def
      api_error_def NormalizeUpstreamError_def openAI_base split: option.split)

lemma fetch_denied:
  assumes "jwtSubject (cd_json_string cd) apiKey = []" "apiKey \<noteq> []" "denies exchange st"
  shows "\<exists>err. fetch cd True started exchange apiKey model = (empty_context, Some err) \<and> Status (re_apiError err) = st
    \<and> Type (re_apiError err) \<in> set openAIErrorTypes"
proof -
  obtain resp where "exchange = Inr resp" "rs_StatusCode resp = st" "st \<in> {401, 402, 403, 429}"
    using assms(3) by (auto simp: denies_def)
  then show ?thesis using assms(1,2) denial_error_status[of st cd "response_data resp"]
    by (auto simp: fetch_def credentialDenial_def Let_def)
qed

lemma fetch_answered:
  assumes "jwtSubject (cd_json_string cd) apiKey = []" "apiKey \<noteq> []" "answers_with cd exchange model r"
  shows "fetch cd True started exchange apiKey model = (observed started model r, None)"
  using assms by (auto simp: answers_with_def fetch_def credentialDenial_def observed_def Let_def)

lemma fetch_outage:
  assumes "jwtSubject (cd_json_string cd) apiKey = []" "apiKey \<noteq> []"
    "configured \<Longrightarrow> (\<nexists>st. denies exchange st) \<and> (\<nexists>r. answers_with cd exchange model r)"
  shows "fetch cd configured started exchange apiKey model = (routeContextUnavailable, None)"
  using assms by (auto simp: denies_def answers_with_def fetch_def credentialDenial_def Let_def split: sum.split option.split)


text \<open>
  The engine's priority is never the client's: on every endpoint the body's \<open>priority\<close> is removed,
  and where the schema has the field it is the organisation's priority if it has one, otherwise the
  demoted priority for a demoted caller, otherwise absent; all other fields are untouched.
\<close>
theorem priority_owned_by_router:
  "\<exists>b'. applyPriority r (Some b) path = Some b'
     \<and> map_of b' ''priority'' =
         (if path \<notin> set priorityPaths then None
          else if skipsQueue r then map_option JInt (rc_Priority r)
          else if \<exists>d. rc_RateLimit r = Some d \<and> rl_Decision d = decisionDemote then Some (JInt demotedPriority)
          else None)
     \<and> (\<forall>k. k \<noteq> ''priority'' \<longrightarrow> map_of b' k = map_of b k)"
  by (cases "rc_Priority r"; cases "rc_RateLimit r") (auto simp: applyPriority_def skipsQueue_def Let_def)


section \<open>A run\<close>

definition limit_example :: routeRateLimit where
  "limit_example = \<lparr>rl_Decision = ''rejected'', rl_Reason = ''tokens'', rl_RetryAfterSeconds = Some 30,
     rl_Requests = None, rl_Tokens = None, rl_observedAt = 0\<rparr>"

definition context_example :: routeContext where
  "context_example = empty_context\<lparr>rc_OrgID := ''org'', rc_RateLimit := Some limit_example\<rparr>"

definition codec_example :: codec where
  "codec_example = \<lparr>cd_sha256 = (\<lambda>s. s), cd_json_string = (\<lambda>_ _. None), cd_object = (\<lambda>_. None),
     cd_context = (\<lambda>_. Some context_example), cd_time = (\<lambda>_. False)\<rparr>"

definition resp_example :: response where
  "resp_example = \<lparr>rs_StatusCode = 200, rs_Header = [], rs_Body = Some ''{}''\<rparr>"

definition stored_example :: routeContext where
  "stored_example = context_example\<lparr>rc_RateLimit := Some (limit_example\<lparr>rl_observedAt := 100\<rparr>), rc_refreshedAt := 200\<rparr>"

definition entry_example :: "routeContext \<Rightarrow> routeContextCacheEntry" where
  "entry_example r = \<lparr>ce_resolved = r, ce_err = None, ce_sequence = 2, ce_bytes = entry_size r None\<rparr>"

text \<open>Two lookups are in flight; the second is answered first, then the first.\<close>

definition waiting_client_example :: "flight list \<Rightarrow> nat \<Rightarrow> routeContextClient" where
  "waiting_client_example fs n = newRouteContextClient\<lparr>cl_sequence := n, cl_flights := fs\<rparr>"

definition cached_client_example :: "flight list \<Rightarrow> routeContextClient" where
  "cached_client_example fs =
     \<lparr>cl_cache = \<lparr>rcc_entries = [(CacheKey ''key'' ''m'', entry_example stored_example),
                                   (CacheKey ''key'' [], entry_example (stored_example\<lparr>rc_RateLimit := None\<rparr>))],
                  rcc_lru = [CacheKey ''key'' [], CacheKey ''key'' ''m''], rcc_bytes = 2088,
                  rcc_maxBytes = routeContextCacheMaxBytes, rcc_evictedSequence = 0\<rparr>,
      cl_flights = fs, cl_sequence = 2\<rparr>"

abbreviation flight_example :: "nat \<Rightarrow> flight" where
  "flight_example n \<equiv> Admission n ''key'' ''m''"

lemmas run_defs = codec_example_def context_example_def limit_example_def stored_example_def entry_example_def
  empty_context_def routeContextKey_def

lemma opaque_key: "jwtSubject js ''key'' = []"
  by (simp add: jwtSubject_def)

lemma lookups:
  "client_step codec_example newRouteContextClient (waiting_client_example [flight_example 1] 1)"
  "client_step codec_example (waiting_client_example [flight_example 1] 1)
     (waiting_client_example [flight_example 2, flight_example 1] 2)"
proof -
  have "Lookup codec_example 50 ''key'' ''m'' (Some newRouteContextClient)
      = Some ((empty_context, None), Some (waiting_client_example [flight_example 1] 1))"
    "Lookup codec_example 50 ''key'' ''m'' (Some (waiting_client_example [flight_example 1] 1))
      = Some ((empty_context, None), Some (waiting_client_example [flight_example 2, flight_example 1] 2))"
    by (simp_all add: Lookup_def opaque_key newRouteContextClient_def new_cache_def cache_get_def empty_context_def
        refresh_def routeContextMaxRefreshes_def waiting_client_example_def Let_def)
  then show "client_step codec_example newRouteContextClient (waiting_client_example [flight_example 1] 1)"
    "client_step codec_example (waiting_client_example [flight_example 1] 1)
     (waiting_client_example [flight_example 2, flight_example 1] 2)"
    by (blast intro: client_step.lookup)+
qed

lemma fetch_example:
  "fetch codec_example True 100 (Inr resp_example) ''key'' ''m''
     = (context_example\<lparr>rc_RateLimit := Some (limit_example\<lparr>rl_observedAt := 100\<rparr>)\<rparr>, None)"
  by (simp add: fetch_def opaque_key resp_example_def response_data_def routeContextResponseLimit_def
      credentialDenial_def decode_context_def run_defs rate_valid_def quota_valid_def decision_names Let_def)

lemma answers:
  "client_step codec_example (waiting_client_example [flight_example 2, flight_example 1] 2)
     (cached_client_example [flight_example 1])"
  "client_step codec_example (cached_client_example [flight_example 1]) (cached_client_example [])"
proof -
  let ?f = "fetch codec_example True 100 (Inr resp_example) ''key'' ''m''"
  have two: "refresh_complete codec_example 200 2 ''key'' ''m'' ?f (waiting_client_example [flight_example 2, flight_example 1] 2)
      = Some (cached_client_example [flight_example 1])"
    unfolding fetch_example
    by (simp add: refresh_complete_def waiting_client_example_def newRouteContextClient_def new_cache_def
        cached_client_example_def cache_put_def evict_loop.simps entry_size_def routeContextCacheEntryOverhead_def
        routeContextCacheStringOverhead_def routeContextCacheMaxBytes_def run_defs Let_def)
  have one: "refresh_complete codec_example 250 1 ''key'' ''m'' ?f (cached_client_example [flight_example 1])
      = Some (cached_client_example [])"
    unfolding fetch_example
    by (simp add: refresh_complete_def cached_client_example_def cache_put_def entry_size_def
        routeContextCacheEntryOverhead_def routeContextCacheStringOverhead_def routeContextCacheMaxBytes_def run_defs Let_def)
  show "client_step codec_example (waiting_client_example [flight_example 2, flight_example 1] 2)
     (cached_client_example [flight_example 1])"
    by (rule client_step.admission [OF _ two]) (simp add: waiting_client_example_def)
  show "client_step codec_example (cached_client_example [flight_example 1]) (cached_client_example [])"
    by (rule client_step.admission [OF _ one]) (simp add: cached_client_example_def)
qed

lemma run_reach: "client_reach codec_example (cached_client_example [flight_example 1])"
  using client_reach.intros lookups answers(1) by blast

theorem admission_client_bounded_witness:
  "total_bytes (rcc_entries (cl_cache (cached_client_example [flight_example 1]))) = 2088
   \<and> Lookup codec_example 300 ''key'' ''m'' (Some (cached_client_example [flight_example 1])) \<noteq> None"
  using admission_client_bounded [OF run_reach] by (simp add: cached_client_example_def)

theorem late_verdicts_lose_witness:
  "client_step codec_example (cached_client_example [flight_example 1]) (cached_client_example [])
   \<and> ce_sequence (entry_example stored_example) \<le> ce_sequence (entry_example stored_example)"
proof
  have e: "map_of (rcc_entries (cl_cache (cached_client_example fs))) (CacheKey ''key'' ''m'')
    = Some (entry_example stored_example)" for fs by (simp add: cached_client_example_def)
  show "ce_sequence (entry_example stored_example) \<le> ce_sequence (entry_example stored_example)"
    by (rule late_verdicts_lose [OF run_reach r_into_rtranclp [where r = "client_step codec_example", OF answers(2)] e e])
qed (rule answers(2))

theorem cached_rejection_countdown_witness:
  "\<exists>resolved err cl'. Lookup codec_example (100 + 5500000000) ''key'' ''m'' (Some (cached_client_example []))
     = Some ((resolved, Some err), Some cl') \<and> re_retryAfter err = show_int 25"
  using cached_rejection_countdown [of "cached_client_example []" codec_example "''key''" "''m''" "entry_example stored_example"
      "limit_example\<lparr>rl_observedAt := 100\<rparr>" 30 5500000000]
  by (auto simp: cached_client_example_def run_defs decision_names opaque_key int64_defs second_def)

definition denied_example :: response where
  "denied_example = \<lparr>rs_StatusCode = 402, rs_Header = [], rs_Body = None\<rparr>"

definition outage_example :: response where
  "outage_example = \<lparr>rs_StatusCode = 503, rs_Header = [], rs_Body = Some ''{}''\<rparr>"


theorem priority_owned_by_router_witness:
  "\<exists>b'. applyPriority empty_context (Some [(''priority'', JNumber ''-9''), (''model'', JString ''m'')]) ''/v1/responses'' = Some b'
     \<and> map_of b' ''priority'' = None \<and> map_of b' ''model'' = Some (JString ''m'')"
  using priority_owned_by_router [of empty_context "[(''priority'', JNumber ''-9''), (''model'', JString ''m'')]" "''/v1/responses''"]
  by (auto simp: empty_context_def skipsQueue_def)

end
