(* ===== verification/Token_Stream.thy ===== *)
theory Token_Stream
  imports Json_Value
begin

text \<open>
  Token usage read out of responses (\<open>tokencount/extractor.go\<close>): the usage record, the line scanner,
  the rewriting of an event stream line by line, and the accumulating extractor of plain responses.
  The JSON decoders are parameters: \<open>chunk_of\<close> decodes a data line into an object, \<open>usage_of\<close> decodes the
  value of a usage field, and \<open>body_usage\<close> a whole response.
\<close>

section \<open>Usage\<close>

record Usage =
  PromptTokens :: int
  CompletionTokens :: int
  TotalTokens :: int
  InputTokens :: int
  OutputTokens :: int
  PromptTokensDetails :: "int option"
  InputTokensDetails :: "int option"

definition zero_usage :: Usage where
  "zero_usage = \<lparr>PromptTokens = 0, CompletionTokens = 0, TotalTokens = 0, InputTokens = 0, OutputTokens = 0,
     PromptTokensDetails = None, InputTokensDetails = None\<rparr>"

definition Normalize :: "Usage \<Rightarrow> Usage" where
  "Normalize u =
     u\<lparr>PromptTokens := (if PromptTokens u = 0 \<and> 0 < InputTokens u then InputTokens u else PromptTokens u),
       CompletionTokens := (if CompletionTokens u = 0 \<and> 0 < OutputTokens u then OutputTokens u else CompletionTokens u),
       PromptTokensDetails :=
         (if PromptTokensDetails u = None \<and> InputTokensDetails u \<noteq> None then InputTokensDetails u
          else PromptTokensDetails u)\<rparr>"

definition CachedPromptTokens :: "Usage option \<Rightarrow> int \<times> bool" where
  "CachedPromptTokens u =
     (case u of
        None \<Rightarrow> (0, False)
      | Some x \<Rightarrow>
          (case PromptTokensDetails x of
             None \<Rightarrow> (0, False)
           | Some cached \<Rightarrow> (min (PromptTokens x) (max 0 cached), True)))"

section \<open>Lines\<close>

text \<open>
  \<open>bufio.Scanner\<close> with \<open>ScanLines\<close>: lines end at a line feed, one trailing carriage return is dropped,
  a last line without line feed counts, and a line that fills the buffer stops the scan with an error.
\<close>

definition maxSSELineBytes :: nat where "maxSSELineBytes = 2 ^ 22"

definition drop_cr :: "string \<Rightarrow> string" where
  "drop_cr l = (if l \<noteq> [] \<and> last l = byte 13 then butlast l else l)"

function scan_lines :: "nat \<Rightarrow> string \<Rightarrow> string list \<times> bool" where
  "scan_lines limit s =
     (if s = [] then ([], False)
      else
        (let l = takeWhile (\<lambda>c. c \<noteq> byte 10) s;
             rest = dropWhile (\<lambda>c. c \<noteq> byte 10) s
         in if limit \<le> length l then ([], True)
            else case rest of
                   [] \<Rightarrow> ([drop_cr l], False)
                 | _ # after \<Rightarrow> (case scan_lines limit after of (ls, tooLong) \<Rightarrow> (drop_cr l # ls, tooLong))))"
  by pat_completeness auto
termination
proof (relation "measure (\<lambda>(limit, s). length s)")
  fix limit :: nat and s l rest :: string and c after
  assume "rest = dropWhile (\<lambda>c. c \<noteq> byte 10) s" "rest = c # after"
  then have "length (c # after) \<le> length s" by (metis length_dropWhile_le)
  then show "((limit, after), limit, s) \<in> measure (\<lambda>(limit, s). length s)" by simp
qed simp

declare scan_lines.simps [simp del]

section \<open>Streams\<close>

definition isTerminalResponseEvent :: "string \<Rightarrow> bool" where
  "isTerminalResponseEvent t \<longleftrightarrow>
     t \<in> {''response.completed'', ''response.failed'', ''response.incomplete'', ''error''}"

text \<open>The usage value of a chunk, at its top level or under \<open>response\<close>.\<close>

definition chunk_usage :: "json_object \<Rightarrow> json option" where
  "chunk_usage chunk =
     (if field chunk ''usage'' \<noteq> JNull then Some (field chunk ''usage'')
      else case field chunk ''response'' of
             JObject r \<Rightarrow> if field r ''usage'' \<noteq> JNull then Some (field r ''usage'') else None
           | _ \<Rightarrow> None)"

definition merge_usage :: "Usage \<Rightarrow> Usage \<Rightarrow> Usage" where
  "merge_usage u acc =
     acc\<lparr>PromptTokens := (if 0 < PromptTokens u then PromptTokens u else PromptTokens acc),
         CompletionTokens := (if 0 < CompletionTokens u then CompletionTokens u else CompletionTokens acc),
         TotalTokens := (if 0 < TotalTokens u then TotalTokens u else TotalTokens acc),
         PromptTokensDetails := (if PromptTokensDetails u \<noteq> None then PromptTokensDetails u else PromptTokensDetails acc)\<rparr>"

record stream_state =
  lastLineWasFiltered :: bool
  terminalEventPending :: bool
  terminalResponseEvent :: bool
  eventHasData :: bool
  st_usage :: Usage
  st_out :: string

definition new_stream :: stream_state where
  "new_stream = \<lparr>lastLineWasFiltered = False, terminalEventPending = False, terminalResponseEvent = False,
     eventHasData = False, st_usage = zero_usage, st_out = []\<rparr>"

definition end_event :: "stream_state \<Rightarrow> stream_state" where
  "end_event st = st\<lparr>terminalEventPending := False, terminalResponseEvent := False, eventHasData := False\<rparr>"

text \<open>A decoded data line: the flags and the usage it changes, and whether it is written.\<close>

definition empty_choices :: "json_object \<Rightarrow> bool" where
  "empty_choices chunk \<longleftrightarrow> field chunk ''choices'' = JArray []"

definition on_chunk ::
  "(json \<Rightarrow> Usage option) \<Rightarrow> bool \<Rightarrow> json_object \<Rightarrow> stream_state \<Rightarrow> stream_state \<times> bool" where
  "on_chunk usage_of requested chunk st =
     (let st1 = (if isTerminalResponseEvent (string_field chunk ''type'') then st\<lparr>terminalEventPending := True\<rparr> else st)
      in case chunk_usage chunk of
           None \<Rightarrow> (st1, True)
         | Some uv \<Rightarrow>
             (let st2 = (case usage_of uv of
                           None \<Rightarrow> st1
                         | Some u \<Rightarrow> st1\<lparr>st_usage := merge_usage (Normalize u) (st_usage st1)\<rparr>)
              in if \<not> requested \<and> empty_choices chunk then (st2\<lparr>lastLineWasFiltered := True\<rparr>, False)
                 else (st2, True)))"

definition data_of :: "string \<Rightarrow> string" where
  "data_of line = TrimPrefix (TrimPrefix line ''data:'') '' ''"

definition on_data ::
  "(string \<Rightarrow> json_object option) \<Rightarrow> (json \<Rightarrow> Usage option) \<Rightarrow> bool \<Rightarrow> string \<Rightarrow> stream_state
     \<Rightarrow> stream_state \<times> bool" where
  "on_data chunk_of usage_of requested line st =
     (let st1 = st\<lparr>eventHasData := True\<rparr>; data = data_of line
      in if data = ''[DONE]'' then (st1\<lparr>terminalEventPending := True\<rparr>, True)
         else case chunk_of data of
                None \<Rightarrow> (st1, True)
              | Some chunk \<Rightarrow> on_chunk usage_of requested chunk st1)"

text \<open>One iteration of the loop; the flag says that the loop is left.\<close>

definition on_line ::
  "(string \<Rightarrow> json_object option) \<Rightarrow> (json \<Rightarrow> Usage option) \<Rightarrow> bool \<Rightarrow> string \<Rightarrow> stream_state
     \<Rightarrow> stream_state \<times> bool" where
  "on_line chunk_of usage_of requested line st =
     (let st0 = (if HasPrefix line ''event:''
                 then st\<lparr>terminalResponseEvent := isTerminalResponseEvent (TrimSpace (TrimPrefix line ''event:''))\<rparr>
                 else st)
      in if lastLineWasFiltered st0 \<and> line = [] then ((end_event st0)\<lparr>lastLineWasFiltered := False\<rparr>, False)
         else
           (let st1 = st0\<lparr>lastLineWasFiltered := False\<rparr>;
                (st2, shouldWrite) = (if HasPrefix line ''data:'' then on_data chunk_of usage_of requested line st1
                                      else (st1, True));
                st3 = (if shouldWrite then st2\<lparr>st_out := st_out st2 @ line @ [byte 10]\<rparr> else st2)
            in if line = [] then
                 (if (terminalEventPending st3 \<or> terminalResponseEvent st3) \<and> eventHasData st3 then (st3, True)
                  else (end_event st3, False))
               else (st3, False)))"

fun run_lines ::
  "(string \<Rightarrow> json_object option) \<Rightarrow> (json \<Rightarrow> Usage option) \<Rightarrow> bool \<Rightarrow> string list \<Rightarrow> stream_state
     \<Rightarrow> stream_state \<times> bool" where
  "run_lines chunk_of usage_of requested [] st = (st, False)"
| "run_lines chunk_of usage_of requested (l # ls) st =
     (case on_line chunk_of usage_of requested l st of
        (st', stop) \<Rightarrow> if stop then (st', True) else run_lines chunk_of usage_of requested ls st')"

text \<open>The usage handed to the handler, if any.\<close>

definition final_usage :: "Usage \<Rightarrow> Usage option" where
  "final_usage u =
     (if 0 < TotalTokens u \<or> 0 < CompletionTokens u
      then Some (if TotalTokens u = 0 \<and> 0 < CompletionTokens u
                 then u\<lparr>TotalTokens := PromptTokens u + CompletionTokens u\<rparr> else u)
      else None)"

datatype stream_close = CloseClean | CloseWithError

text \<open>
  \<open>processStream\<close> on the bytes the upstream sends before it ends, or fails (\<open>readFailed\<close>). The scanner
  reports an error only if it was reached: leaving the loop at a terminal event hides what follows.
\<close>

definition processStream ::
  "(string \<Rightarrow> json_object option) \<Rightarrow> (json \<Rightarrow> Usage option) \<Rightarrow> bool \<Rightarrow> string \<Rightarrow> bool
     \<Rightarrow> string \<times> Usage option \<times> stream_close" where
  "processStream chunk_of usage_of requested input readFailed =
     (case scan_lines maxSSELineBytes input of
        (lines, tooLong) \<Rightarrow>
          (case run_lines chunk_of usage_of requested lines new_stream of
             (st, stopped) \<Rightarrow>
               (st_out st, final_usage (st_usage st),
                if \<not> stopped \<and> (tooLong \<or> readFailed) then CloseWithError else CloseClean)))"

section \<open>Plain responses\<close>

record JSONTokenExtractor =
  jx_buffer :: string
  jx_usage :: "Usage option"

definition jx_write :: "string \<Rightarrow> JSONTokenExtractor \<Rightarrow> JSONTokenExtractor" where
  "jx_write p j = j\<lparr>jx_buffer := jx_buffer j @ p\<rparr>"

definition ExtractUsage :: "(string \<Rightarrow> Usage option) \<Rightarrow> JSONTokenExtractor \<Rightarrow> JSONTokenExtractor" where
  "ExtractUsage body_usage j =
     (case body_usage (jx_buffer j) of None \<Rightarrow> j | Some u \<Rightarrow> j\<lparr>jx_usage := Some (Normalize u)\<rparr>)"

text \<open>Reading the body in chunks to its end and closing it: what the client gets and the handler is told.\<close>

definition tee_read_close :: "(string \<Rightarrow> Usage option) \<Rightarrow> string list \<Rightarrow> string \<times> Usage option" where
  "tee_read_close body_usage chunks =
     (concat chunks, jx_usage (ExtractUsage body_usage (fold jx_write chunks \<lparr>jx_buffer = [], jx_usage = None\<rparr>)))"

datatype extraction = StreamExtraction | JsonExtraction | PassThrough

definition contains :: "string \<Rightarrow> string \<Rightarrow> bool" where
  "contains s p \<longleftrightarrow> list_ex (\<lambda>i. HasPrefix (drop i s) p) [0 ..< length s + 1]"

definition ExtractTokensFromResponseWithHandler :: "string \<Rightarrow> int \<Rightarrow> extraction" where
  "ExtractTokensFromResponseWithHandler contentType status =
     (if contains contentType ''text/event-stream'' then StreamExtraction
      else if status \<noteq> 200 \<or> \<not> contains contentType ''application/json'' then PassThrough
      else JsonExtraction)"


section \<open>The stream at the level of events\<close>

text \<open>What a single line contributes, independently of the state of the loop.\<close>

definition is_data :: "string \<Rightarrow> bool" where
  "is_data l \<longleftrightarrow> HasPrefix l ''data:''"

definition line_chunk :: "(string \<Rightarrow> json_object option) \<Rightarrow> string \<Rightarrow> json_object option" where
  "line_chunk chunk_of l = (if is_data l \<and> data_of l \<noteq> ''[DONE]'' then chunk_of (data_of l) else None)"

definition marks_end :: "(string \<Rightarrow> json_object option) \<Rightarrow> string \<Rightarrow> bool" where
  "marks_end chunk_of l \<longleftrightarrow> is_data l \<and> (data_of l = ''[DONE]''
     \<or> (case line_chunk chunk_of l of
          None \<Rightarrow> False | Some chunk \<Rightarrow> isTerminalResponseEvent (string_field chunk ''type'')))"

definition usage_only :: "(string \<Rightarrow> json_object option) \<Rightarrow> bool \<Rightarrow> string \<Rightarrow> bool" where
  "usage_only chunk_of requested l \<longleftrightarrow> \<not> requested
     \<and> (case line_chunk chunk_of l of None \<Rightarrow> False | Some chunk \<Rightarrow> chunk_usage chunk \<noteq> None \<and> empty_choices chunk)"

definition line_usages :: "(string \<Rightarrow> json_object option) \<Rightarrow> (json \<Rightarrow> Usage option) \<Rightarrow> string \<Rightarrow> Usage list" where
  "line_usages chunk_of usage_of l =
     (case line_chunk chunk_of l of
        None \<Rightarrow> []
      | Some chunk \<Rightarrow>
          (case chunk_usage chunk of
             None \<Rightarrow> []
           | Some uv \<Rightarrow> (case usage_of uv of None \<Rightarrow> [] | Some u \<Rightarrow> [Normalize u])))"

definition event_types :: "string list \<Rightarrow> bool list" where
  "event_types b =
     map (\<lambda>l. isTerminalResponseEvent (TrimSpace (TrimPrefix l ''event:''))) (filter (\<lambda>l. HasPrefix l ''event:'') b)"

definition terminal_event :: "(string \<Rightarrow> json_object option) \<Rightarrow> string list \<Rightarrow> bool" where
  "terminal_event chunk_of b \<longleftrightarrow> list_ex is_data b
     \<and> (list_ex (marks_end chunk_of) b \<or> event_types b \<noteq> [] \<and> last (event_types b))"

text \<open>
  The event-level specification: an event is a block of lines ended by a blank line. Usage-only lines
  are dropped from it, its blank line is dropped when the line before it was, and the stream ends with
  the first terminal event whose blank line is kept. The result is the lines forwarded, the usages seen
  and whether a terminal event ended the stream.
\<close>

function forward_events ::
  "(string \<Rightarrow> json_object option) \<Rightarrow> (json \<Rightarrow> Usage option) \<Rightarrow> bool \<Rightarrow> string list
     \<Rightarrow> string list \<times> Usage list \<times> bool" where
  "forward_events chunk_of usage_of requested ls =
     (let b = takeWhile (\<lambda>l. l \<noteq> []) ls;
          kept = filter (\<lambda>l. \<not> usage_only chunk_of requested l) b;
          us = concat (map (line_usages chunk_of usage_of) b)
      in case dropWhile (\<lambda>l. l \<noteq> []) ls of
           [] \<Rightarrow> (kept, us, False)
         | _ # rest \<Rightarrow>
             (if b \<noteq> [] \<and> usage_only chunk_of requested (last b) then
                (case forward_events chunk_of usage_of requested rest of (out, us', stop) \<Rightarrow> (kept @ out, us @ us', stop))
              else if terminal_event chunk_of b then (kept @ [[]], us, True)
              else
                (case forward_events chunk_of usage_of requested rest of
                   (out, us', stop) \<Rightarrow> (kept @ [] # out, us @ us', stop))))"
  by pat_completeness auto
termination
proof (relation "measure (\<lambda>(c, u, r, ls). length ls)", simp_all add: Let_def)
  fix ls :: "string list" and x rest
  assume "dropWhile (\<lambda>l. l \<noteq> []) ls = x # rest"
  then have "length (x # rest) \<le> length ls" by (metis length_dropWhile_le)
  then show "length rest < length ls" "length rest < length ls" by simp_all
qed

declare forward_events.simps [simp del]

definition render_lines :: "string list \<Rightarrow> string" where
  "render_lines ls = concat (map (\<lambda>l. l @ [byte 10]) ls)"

lemma render_lines_simps [simp]:
  "render_lines [] = []" "render_lines (l # ls) = l @ byte 10 # render_lines ls"
  "render_lines (xs @ ys) = render_lines xs @ render_lines ys"
  by (simp_all add: render_lines_def)

lemma isTerminal_Nil [simp]: "\<not> isTerminalResponseEvent []"
  by (simp add: isTerminalResponseEvent_def)

text \<open>A line that is not blank: no exit from the loop, and its contributions are added.\<close>

definition absorb ::
  "(string \<Rightarrow> json_object option) \<Rightarrow> (json \<Rightarrow> Usage option) \<Rightarrow> bool \<Rightarrow> string \<Rightarrow> stream_state \<Rightarrow> stream_state" where
  "absorb chunk_of usage_of requested l st =
     st\<lparr>lastLineWasFiltered := usage_only chunk_of requested l,
        terminalEventPending := terminalEventPending st \<or> marks_end chunk_of l,
        terminalResponseEvent := (if HasPrefix l ''event:''
          then isTerminalResponseEvent (TrimSpace (TrimPrefix l ''event:'')) else terminalResponseEvent st),
        eventHasData := eventHasData st \<or> is_data l,
        st_usage := fold merge_usage (line_usages chunk_of usage_of l) (st_usage st),
        st_out := st_out st @ (if usage_only chunk_of requested l then [] else l @ [byte 10])\<rparr>"

lemma on_line_absorb:
  assumes "l \<noteq> []"
  shows "on_line chunk_of usage_of requested l st = (absorb chunk_of usage_of requested l st, False)"
proof (cases "is_data l")
  case False
  then have "\<not> HasPrefix l ''data:''" by (simp add: is_data_def)
  then show ?thesis
    using assms False
    by (cases st) (simp add: on_line_def absorb_def usage_only_def marks_end_def line_usages_def line_chunk_def Let_def)
next
  case data: True
  then have hp: "HasPrefix l ''data:''" by (simp add: is_data_def)
  then have ne: "\<not> HasPrefix l ''event:''" by (cases l) (auto simp: HasPrefix_def)
  show ?thesis
  proof (cases "line_chunk chunk_of l")
    case None
    then show ?thesis
      using assms hp ne data
      by (cases st) (auto simp: on_line_def on_data_def absorb_def usage_only_def marks_end_def line_usages_def
          line_chunk_def Let_def split: if_splits)
  next
    case (Some chunk)
    then have d: "data_of l \<noteq> ''[DONE]''" "chunk_of (data_of l) = Some chunk"
      using data by (auto simp: line_chunk_def split: if_splits)
    show ?thesis
      using assms hp ne data d Some
      by (cases st; cases "chunk_usage chunk"; cases "isTerminalResponseEvent (string_field chunk ''type'')";
          cases "\<not> requested \<and> empty_choices chunk")
        (auto simp: on_line_def on_data_def on_chunk_def absorb_def usage_only_def marks_end_def line_usages_def
          Let_def split: option.split)
  qed
qed


abbreviation absorb_all where
  "absorb_all chunk_of usage_of requested b st \<equiv> fold (absorb chunk_of usage_of requested) b st"

lemma run_block:
  "\<forall>l \<in> set b. l \<noteq> [] \<Longrightarrow>
     run_lines chunk_of usage_of requested (b @ ls) st
     = run_lines chunk_of usage_of requested ls (absorb_all chunk_of usage_of requested b st)"
  by (induction b arbitrary: st) (simp_all add: on_line_absorb)

lemma absorb_all_state:
  fixes st chunk_of usage_of requested
  defines "r \<equiv> \<lambda>b. absorb_all chunk_of usage_of requested b st"
  shows "lastLineWasFiltered (r b) = (if b = [] then lastLineWasFiltered st else usage_only chunk_of requested (last b))
    \<and> terminalEventPending (r b) = (terminalEventPending st \<or> list_ex (marks_end chunk_of) b)
    \<and> terminalResponseEvent (r b) = (if event_types b = [] then terminalResponseEvent st else last (event_types b))
    \<and> eventHasData (r b) = (eventHasData st \<or> list_ex is_data b)
    \<and> st_usage (r b) = fold merge_usage (concat (map (line_usages chunk_of usage_of) b)) (st_usage st)
    \<and> st_out (r b) = st_out st @ render_lines (filter (\<lambda>l. \<not> usage_only chunk_of requested l) b)"
  unfolding r_def
proof (induction b rule: rev_induct)
  case Nil
  then show ?case by (simp add: event_types_def)
next
  case (snoc l b)
  then show ?case by (auto simp: absorb_def event_types_def)
qed

definition fresh_event :: "stream_state \<Rightarrow> bool" where
  "fresh_event st \<longleftrightarrow> \<not> lastLineWasFiltered st \<and> \<not> terminalEventPending st \<and> \<not> terminalResponseEvent st \<and> \<not> eventHasData st"

lemma blank_not_event: "\<not> HasPrefix [] ''event:''" "\<not> HasPrefix [] ''data:''"
  by (simp_all add: HasPrefix_def)

lemma on_blank:
  "on_line chunk_of usage_of requested [] st =
     (if lastLineWasFiltered st then ((end_event st)\<lparr>lastLineWasFiltered := False\<rparr>, False)
      else if (terminalEventPending st \<or> terminalResponseEvent st) \<and> eventHasData st
           then (st\<lparr>st_out := st_out st @ [byte 10]\<rparr>, True)
           else ((end_event st)\<lparr>st_out := st_out st @ [byte 10]\<rparr>, False))"
  by (cases st) (auto simp: on_line_def blank_not_event end_event_def Let_def)

lemma forward_events_step:
  assumes "dropWhile (\<lambda>l. l \<noteq> []) ls = x # rest" "forward_events chunk_of usage_of requested rest = (out', us', stop')"
  shows "forward_events chunk_of usage_of requested ls =
    (let b = takeWhile (\<lambda>l. l \<noteq> []) ls;
         kept = filter (\<lambda>l. \<not> usage_only chunk_of requested l) b;
         us = concat (map (line_usages chunk_of usage_of) b)
     in if b \<noteq> [] \<and> usage_only chunk_of requested (last b) then (kept @ out', us @ us', stop')
        else if terminal_event chunk_of b then (kept @ [[]], us, True)
        else (kept @ [] # out', us @ us', stop'))"
  using assms by (subst forward_events.simps) (simp add: Let_def)

lemma run_lines_events:
  assumes "fresh_event st"
    and "forward_events chunk_of usage_of requested ls = (out, us, stop)"
  shows "\<exists>st'. run_lines chunk_of usage_of requested ls st = (st', stop)
    \<and> st_out st' = st_out st @ render_lines out \<and> st_usage st' = fold merge_usage us (st_usage st)"
  using assms
proof (induction "length ls" arbitrary: ls st out us stop rule: less_induct)
  case less
  define b where "b = takeWhile (\<lambda>l. l \<noteq> []) ls"
  define r where "r = absorb_all chunk_of usage_of requested b st"
  note ab = absorb_all_state [of chunk_of usage_of requested b st, folded r_def]
  have nonblank: "\<forall>l \<in> set b. l \<noteq> []" unfolding b_def by (auto dest: set_takeWhileD)
  show ?case
  proof (cases "dropWhile (\<lambda>l. l \<noteq> []) ls")
    case Nil
    then have "ls = b @ []" by (metis append_Nil2 b_def takeWhile_dropWhile_id)
    then have "run_lines chunk_of usage_of requested ls st = (r, False)"
      using run_block [OF nonblank, of chunk_of usage_of requested "[]" st] by (simp add: r_def)
    moreover have "out = filter (\<lambda>l. \<not> usage_only chunk_of requested l) b"
      "us = concat (map (line_usages chunk_of usage_of) b)" "\<not> stop"
      using less.prems(2) Nil by (auto simp: forward_events.simps [of chunk_of usage_of requested ls] b_def Let_def)
    ultimately show ?thesis using ab by simp
  next
    case (Cons x rest)
    have "x = []" using Cons by (metis (mono_tags, lifting) dropWhile_eq_Cons_conv)
    then have split: "ls = b @ [] # rest" using Cons b_def by (metis takeWhile_dropWhile_id)
    have run: "run_lines chunk_of usage_of requested ls st = run_lines chunk_of usage_of requested ([] # rest) r"
      unfolding split r_def by (rule run_block [OF nonblank])
    have len: "length rest < length ls" by (simp add: split)
    obtain out' us' stop' where rec: "forward_events chunk_of usage_of requested rest = (out', us', stop')"
      by (cases "forward_events chunk_of usage_of requested rest")
    let ?kept = "filter (\<lambda>l. \<not> usage_only chunk_of requested l) b"
    let ?us = "concat (map (line_usages chunk_of usage_of) b)"
    have fwd: "(out, us, stop) =
        (if b \<noteq> [] \<and> usage_only chunk_of requested (last b) then (?kept @ out', ?us @ us', stop')
         else if terminal_event chunk_of b then (?kept @ [[]], ?us, True)
         else (?kept @ [] # out', ?us @ us', stop'))"
      using less.prems(2) forward_events_step [OF Cons rec, folded b_def] unfolding Let_def by simp
    have filt: "lastLineWasFiltered r \<longleftrightarrow> b \<noteq> [] \<and> usage_only chunk_of requested (last b)"
      and terminal: "(terminalEventPending r \<or> terminalResponseEvent r) \<and> eventHasData r \<longleftrightarrow> terminal_event chunk_of b"
      using ab less.prems(1) by (auto simp: fresh_event_def terminal_event_def)
    consider (filtered) "lastLineWasFiltered r" | (final) "\<not> lastLineWasFiltered r" "terminal_event chunk_of b"
      | (next_event) "\<not> lastLineWasFiltered r" "\<not> terminal_event chunk_of b" by blast
    then show ?thesis
    proof cases
      case filtered
      let ?st = "(end_event r)\<lparr>lastLineWasFiltered := False\<rparr>"
      have "out = ?kept @ out'" "us = ?us @ us'" "stop = stop'" using fwd [folded filt] filtered by simp_all
      moreover have "fresh_event ?st" by (simp add: fresh_event_def end_event_def)
      from less.hyps [OF len this rec] obtain st' where
        "run_lines chunk_of usage_of requested rest ?st = (st', stop')"
        "st_out st' = st_out ?st @ render_lines out'" "st_usage st' = fold merge_usage us' (st_usage ?st)" by blast
      ultimately show ?thesis using run filtered ab by (simp add: on_blank end_event_def)
    next
      case final
      then have "out = ?kept @ [[]]" "us = ?us" "stop" using fwd [folded filt] by simp_all
      then show ?thesis using run final terminal ab by (simp add: on_blank)
    next
      case next_event
      let ?st = "(end_event r)\<lparr>st_out := st_out r @ [byte 10]\<rparr>"
      have "out = ?kept @ [] # out'" "us = ?us @ us'" "stop = stop'" using fwd [folded filt] next_event by simp_all
      moreover have "fresh_event ?st" using next_event by (simp add: fresh_event_def end_event_def)
      from less.hyps [OF len this rec] obtain st' where
        "run_lines chunk_of usage_of requested rest ?st = (st', stop')"
        "st_out st' = st_out ?st @ render_lines out'" "st_usage st' = fold merge_usage us' (st_usage ?st)" by blast
      moreover have "run_lines chunk_of usage_of requested ls st = run_lines chunk_of usage_of requested rest ?st"
        using run next_event terminal by (simp add: on_blank)
      ultimately show ?thesis using ab by (simp add: end_event_def)
    qed
  qed
qed

text \<open>
  C16. The line-by-line rewriting of a stream implements its event-level specification: the client gets
  exactly the lines of the upstream, without the usage-only chunks nobody asked for (and their blank
  line), up to the end of the first terminal event; the reported usage is the merge of the usages seen
  in these events; and a read failure or an oversized line before the terminal event is reported to the
  client as an error, never as a clean end.
\<close>
theorem stream_refines_events:
  "case scan_lines maxSSELineBytes input of
     (lines, tooLong) \<Rightarrow>
       (case forward_events chunk_of usage_of requested lines of
          (out, us, stop) \<Rightarrow>
            processStream chunk_of usage_of requested input readFailed =
              (render_lines out, final_usage (fold merge_usage us zero_usage),
               if \<not> stop \<and> (tooLong \<or> readFailed) then CloseWithError else CloseClean))"
proof -
  obtain lines tooLong where s: "scan_lines maxSSELineBytes input = (lines, tooLong)" by fastforce
  obtain out us stop where f: "forward_events chunk_of usage_of requested lines = (out, us, stop)"
    by (cases "forward_events chunk_of usage_of requested lines")
  have "fresh_event new_stream" by (simp add: fresh_event_def new_stream_def)
  from run_lines_events [OF this f] show ?thesis
    unfolding s f prod.case by (auto simp: processStream_def s new_stream_def)
qed

lemma forward_events_requested:
  assumes "requested" "forward_events chunk_of usage_of requested ls = (out, us, stop)"
  shows "prefix out ls \<and> (\<not> stop \<longrightarrow> out = ls)"
  using assms(2)
proof (induction "length ls" arbitrary: ls out us stop rule: less_induct)
  case less
  define b where "b = takeWhile (\<lambda>l. l \<noteq> []) ls"
  have keep: "filter (\<lambda>l. \<not> usage_only chunk_of requested l) b = b" and nd: "\<not> usage_only chunk_of requested l" for l
    using assms(1) by (simp_all add: usage_only_def)
  show ?case
  proof (cases "dropWhile (\<lambda>l. l \<noteq> []) ls")
    case Nil
    then have "ls = b" by (metis append_Nil2 b_def takeWhile_dropWhile_id)
    then show ?thesis
      using less.prems Nil keep by (auto simp: forward_events.simps [of chunk_of usage_of requested ls] b_def Let_def)
  next
    case (Cons x rest)
    have "x = []" using Cons by (metis (mono_tags, lifting) dropWhile_eq_Cons_conv)
    then have split: "ls = b @ [] # rest" using Cons b_def by (metis takeWhile_dropWhile_id)
    obtain out' us' stop' where rec: "forward_events chunk_of usage_of requested rest = (out', us', stop')"
      by (cases "forward_events chunk_of usage_of requested rest")
    have ih: "prefix out' rest \<and> (\<not> stop' \<longrightarrow> out' = rest)" using less.hyps [OF _ rec] by (simp add: split)
    have "out = b @ [[]] \<and> stop \<or> out = b @ [] # out' \<and> stop = stop'"
      using less.prems forward_events_step [OF Cons rec, folded b_def] keep nd unfolding Let_def by (simp split: if_splits)
    then show ?thesis using ih split by auto
  qed
qed


section \<open>Lines survive a round trip\<close>

definition plain_line :: "nat \<Rightarrow> string \<Rightarrow> bool" where
  "plain_line limit l \<longleftrightarrow> byte 10 \<notin> set l \<and> length l < limit \<and> \<not> (l \<noteq> [] \<and> last l = byte 13)"

lemma span_upto: "x \<notin> set l \<Longrightarrow> takeWhile (\<lambda>c. c \<noteq> x) (l @ x # s) = l" "x \<notin> set l \<Longrightarrow> dropWhile (\<lambda>c. c \<noteq> x) (l @ x # s) = x # s"
  by (induction l) auto

lemma scan_lines_line:
  assumes "plain_line limit l"
  shows "scan_lines limit (l @ byte 10 # s) = (case scan_lines limit s of (ls, tooLong) \<Rightarrow> (l # ls, tooLong))"
proof -
  have "takeWhile (\<lambda>c. c \<noteq> byte 10) (l @ byte 10 # s) = l" "dropWhile (\<lambda>c. c \<noteq> byte 10) (l @ byte 10 # s) = byte 10 # s"
    using assms by (simp_all add: plain_line_def span_upto)
  then show ?thesis
    using assms by (subst scan_lines.simps) (auto simp: plain_line_def drop_cr_def Let_def)
qed

lemma scan_lines_render: "list_all (plain_line limit) ls \<Longrightarrow> scan_lines limit (render_lines ls) = (ls, False)"
proof (induction ls)
  case Nil
  then show ?case by (simp add: scan_lines.simps)
next
  case (Cons l ls)
  then show ?case by (simp add: scan_lines_line)
qed

text \<open>
  Byte for byte: when the client asked for usage, a stream of lines without stray carriage returns
  reaches it unchanged up to the end of the first terminal event, and entirely unchanged when the
  upstream sends no terminal event.
\<close>
theorem stream_verbatim_when_requested:
  assumes "list_all (plain_line maxSSELineBytes) ls"
  shows "\<exists>n u. processStream chunk_of usage_of True (render_lines ls) False = (render_lines (take n ls), u, CloseClean)
    \<and> (\<not> snd (run_lines chunk_of usage_of True ls new_stream) \<longrightarrow> take n ls = ls)"
proof -
  obtain out us stop where f: "forward_events chunk_of usage_of True ls = (out, us, stop)"
    by (cases "forward_events chunk_of usage_of True ls")
  have "fresh_event new_stream" by (simp add: fresh_event_def new_stream_def)
  from run_lines_events [OF this f] obtain st' where
    r: "run_lines chunk_of usage_of True ls new_stream = (st', stop)" "st_out st' = render_lines out"
    by (auto simp: new_stream_def)
  have p: "prefix out ls" "\<not> stop \<longrightarrow> out = ls" using forward_events_requested [OF _ f] by auto
  then have "take (length out) ls = out" by (metis append_eq_conv_conj prefix_def)
  with r p show ?thesis
    by (intro exI [of _ "length out"] exI [of _ "final_usage (st_usage st')"])
       (simp add: processStream_def scan_lines_render [OF assms])
qed

definition stream_example :: "string list" where
  "stream_example = [''data: {}'', []]"

theorem stream_verbatim_when_requested_witness:
  "\<exists>u. processStream (\<lambda>_. None) (\<lambda>_. None) True (render_lines stream_example) False
     = (render_lines stream_example, u, CloseClean)"
proof -
  have plain: "list_all (plain_line maxSSELineBytes) stream_example"
    by (simp add: stream_example_def plain_line_def maxSSELineBytes_def) code_simp
  have d: "data_of ''data: {}'' = ''{}''" "is_data ''data: {}''" "\<not> HasPrefix ''data: {}'' ''event:''"
    by (simp_all add: data_of_def TrimPrefix_def HasPrefix_def is_data_def)
  have "\<not> snd (run_lines (\<lambda>_. None) (\<lambda>_. None) True stream_example new_stream)"
    by (simp add: stream_example_def on_line_absorb absorb_def on_blank new_stream_def marks_end_def line_chunk_def d
        usage_only_def)
  then show ?thesis
    using stream_verbatim_when_requested [OF plain, of "\<lambda>_. None" "\<lambda>_. None"] by auto
qed

end
