(* ===== verification/Request_Cost.thy ===== *)
theory Request_Cost
  imports Token_Stream
begin

text \<open>
  Costs reported with a response (\<open>manager/pricing.go\<close>, \<open>FormatUsage\<close> of \<open>manager/proxy.go\<close>). Prices
  are exact rationals; the \<open>int64\<close> sums wrap. \<open>strings.Repeat\<close> panics on a negative count, so
  the formatting of an amount is an option.
\<close>

section \<open>Prices\<close>

definition nanosPerDollar :: int where "nanosPerDollar = 1000000000"
definition nanosPerTokenMultiplier :: rat where "nanosPerTokenMultiplier = 1000"
definition nanodollarDecimalPlaces :: nat where "nanodollarDecimalPlaces = 9"

record ModelPricing =
  InputTokenPricePer1M :: rat
  OutputTokenPricePer1M :: rat
  CachedInputTokenPricePer1M :: "rat option"
  RequestPrice :: rat

definition pricing_valid :: "ModelPricing \<Rightarrow> bool" where
  "pricing_valid p =
     (if InputTokenPricePer1M p < 0 \<or> OutputTokenPricePer1M p < 0 \<or> RequestPrice p < 0 then False
      else case CachedInputTokenPricePer1M p of None \<Rightarrow> True | Some c \<Rightarrow> 0 \<le> c)"

text \<open>\<open>math.Round\<close> rounds half away from zero.\<close>

definition go_round :: "rat \<Rightarrow> int" where
  "go_round x = (if 0 \<le> x then \<lfloor>x + 1 / 2\<rfloor> else - \<lfloor>1 / 2 - x\<rfloor>)"

definition tokenPriceNanos :: "rat \<Rightarrow> int" where
  "tokenPriceNanos pricePer1M = go_round (pricePer1M * nanosPerTokenMultiplier)"

definition requestPriceNanos :: "rat \<Rightarrow> int" where
  "requestPriceNanos price = go_round (price * of_int nanosPerDollar)"

definition CostKnownWithoutUsage :: "ModelPricing \<Rightarrow> bool" where
  "CostKnownWithoutUsage p =
     (if tokenPriceNanos (InputTokenPricePer1M p) \<noteq> 0 \<or> tokenPriceNanos (OutputTokenPricePer1M p) \<noteq> 0 then False
      else case CachedInputTokenPricePer1M p of None \<Rightarrow> True | Some c \<Rightarrow> tokenPriceNanos c = 0)"

record ServiceUsage =
  su_Calls :: int
  su_Pricing :: "ModelPricing option"

record WebSearchUsage =
  ws_Calls :: int
  ws_SessionPricing :: "ModelPricing option"
  ws_Services :: "ServiceUsage list"
  ws_OtherCostUnknown :: bool

definition billed :: "WebSearchUsage option \<Rightarrow> bool" where
  "billed w = (case w of None \<Rightarrow> False | Some x \<Rightarrow> 0 < ws_Calls x)"

definition costKnown :: "WebSearchUsage option \<Rightarrow> bool" where
  "costKnown w =
     (case w of
        None \<Rightarrow> True
      | Some x \<Rightarrow>
          (if ws_OtherCostUnknown x \<or> billed w \<and> ws_SessionPricing x = None then False
           else list_all (\<lambda>s. \<not> (0 < su_Calls s \<and> su_Pricing s = None)) (ws_Services x)))"

text \<open>A billed session without pricing dereferences \<open>nil\<close>; the callers check \<open>costKnown\<close> first.\<close>

definition costNanos :: "WebSearchUsage option \<Rightarrow> int option" where
  "costNanos w =
     (if \<not> billed w then Some 0
      else case w of
             None \<Rightarrow> Some 0
           | Some x \<Rightarrow> map_option (\<lambda>p. requestPriceNanos (RequestPrice p)) (ws_SessionPricing x))"

definition otherBilled :: "WebSearchUsage option \<Rightarrow> bool" where
  "otherBilled w = (case w of None \<Rightarrow> False | Some x \<Rightarrow> list_ex (\<lambda>s. 0 < su_Calls s) (ws_Services x))"

definition service_cost :: "ServiceUsage \<Rightarrow> int" where
  "service_cost s =
     (case su_Pricing s of
        None \<Rightarrow> 0
      | Some p \<Rightarrow> if 0 < su_Calls s then su_Calls s * requestPriceNanos (RequestPrice p) else 0)"

definition otherCostNanos :: "WebSearchUsage option \<Rightarrow> int" where
  "otherCostNanos w =
     (case w of None \<Rightarrow> 0 | Some x \<Rightarrow> wrap64 (sum_list (map service_cost (ws_Services x))))"

definition uncached_tokens :: "Usage \<Rightarrow> int" where
  "uncached_tokens u = max 0 (PromptTokens u - max 0 (fst (CachedPromptTokens (Some u))))"

definition requestCostNanos :: "Usage \<Rightarrow> ModelPricing \<Rightarrow> int" where
  "requestCostNanos u p =
     (let cached = max 0 (fst (CachedPromptTokens (Some u)));
          cachedPrice = (case CachedInputTokenPricePer1M p of
                           None \<Rightarrow> tokenPriceNanos (InputTokenPricePer1M p) | Some c \<Rightarrow> tokenPriceNanos c)
      in wrap64 (requestPriceNanos (RequestPrice p)
           + uncached_tokens u * tokenPriceNanos (InputTokenPricePer1M p)
           + cached * cachedPrice
           + max 0 (CompletionTokens u) * tokenPriceNanos (OutputTokenPricePer1M p)))"

section \<open>Amounts in dollars\<close>

definition go_mod :: "int \<Rightarrow> int \<Rightarrow> int" where
  "go_mod a b = a - b * go_div a b"

fun TrimRight_zeros :: "string \<Rightarrow> string" where
  "TrimRight_zeros s = rev (dropWhile (\<lambda>c. c = CHR ''0'') (rev s))"

definition formatNanosUSD :: "int \<Rightarrow> string option" where
  "formatNanosUSD n =
     (let whole = go_div n nanosPerDollar; frac = go_mod n nanosPerDollar
      in if frac = 0 then Some (show_int whole)
         else (let fraction = show_int frac
               in if nanodollarDecimalPlaces < length fraction then None
                  else Some (show_int whole @ ''.''
                         @ TrimRight_zeros (replicate (nanodollarDecimalPlaces - length fraction) (CHR ''0'') @ fraction))))"

definition formatRequestCostUSD :: "Usage \<Rightarrow> ModelPricing \<Rightarrow> string option" where
  "formatRequestCostUSD u p = formatNanosUSD (requestCostNanos u p)"

definition cost_suffix :: "Usage \<Rightarrow> ModelPricing option \<Rightarrow> WebSearchUsage option \<Rightarrow> string option" where
  "cost_suffix u pricing ws =
     (case pricing of
        None \<Rightarrow> Some []
      | Some p \<Rightarrow>
          (if \<not> costKnown ws then Some []
           else case costNanos ws of
                  None \<Rightarrow> None
                | Some session \<Rightarrow>
                    map_option (\<lambda>s. '',cost_usd='' @ s)
                      (formatNanosUSD (wrap64 (requestCostNanos u p + session + otherCostNanos ws)))))"

definition FormatUsage ::
  "Usage \<Rightarrow> string \<Rightarrow> ModelPricing option \<Rightarrow> WebSearchUsage option \<Rightarrow> string option" where
  "FormatUsage u model pricing ws =
     (let base = ''prompt='' @ show_int (PromptTokens u) @ '',completion='' @ show_int (CompletionTokens u)
                   @ '',total='' @ show_int (TotalTokens u);
          cached = (case CachedPromptTokens (Some u) of
                      (n, ok) \<Rightarrow>
                        if ok then '',cached_prompt_tokens='' @ show_int n
                                     @ '',uncached_prompt_tokens='' @ show_int (max 0 (PromptTokens u - n))
                        else []);
          named = (if model \<noteq> [] then '',model='' @ model else []);
          calls = (case ws of
                     Some w \<Rightarrow> if billed ws then '',web_search_calls='' @ show_int (ws_Calls w) else []
                   | None \<Rightarrow> []);
          other = (if otherBilled ws \<and> costKnown ws
                   then map_option (\<lambda>s. '',other_cost_usd='' @ s) (formatNanosUSD (otherCostNanos ws)) else Some [])
      in case other of
           None \<Rightarrow> None
         | Some o' \<Rightarrow> map_option (\<lambda>c. base @ cached @ named @ calls @ o' @ c) (cost_suffix u pricing ws))"

section \<open>The amount read back\<close>

text \<open>The value of a decimal string: digits, optionally a point and more digits.\<close>

definition usd_value :: "string \<Rightarrow> rat option" where
  "usd_value s =
     (case split2 (CHR ''.'') s of
        (w, None) \<Rightarrow> map_option of_int (digits_val 0 w)
      | (w, Some f) \<Rightarrow>
          (case (digits_val 0 w, digits_val 0 f) of
             (Some a, Some b) \<Rightarrow> Some (of_int a + of_int b / 10 ^ length f)
           | _ \<Rightarrow> None))"

lemma digits_val_acc: "digits_val acc s = map_option (\<lambda>v. acc * 10 ^ length s + v) (digits_val 0 s)"
proof (induction s arbitrary: acc)
  case (Cons c s)
  show ?case
  proof (cases "digit_val c")
    case (Some d)
    have "digits_val acc (c # s) = map_option (\<lambda>v. (10 * acc + d) * 10 ^ length s + v) (digits_val 0 s)"
      using Some Cons [of "10 * acc + d"] by simp
    moreover have "digits_val 0 (c # s) = map_option (\<lambda>v. d * 10 ^ length s + v) (digits_val 0 s)"
      using Some Cons [of d] by simp
    ultimately show ?thesis by (simp add: option.map_comp comp_def algebra_simps)
  qed simp
qed simp

lemma digits_val_zeros: "digits_val 0 (replicate n (CHR ''0'') @ s) = digits_val 0 s"
  by (induction n) (simp_all add: digit_val_def)

lemma digits_val_trailing: "digits_val 0 (s @ replicate k (CHR ''0'')) = map_option (\<lambda>v. v * 10 ^ k) (digits_val 0 s)"
proof (cases "digits_val 0 s")
  case (Some v)
  have "digits_val v (replicate k (CHR ''0'')) = Some (v * 10 ^ k)"
    using digits_val_acc [of v "replicate k (CHR ''0'')"] digits_val_zeros [of k "[]"] by simp
  with Some show ?thesis by (simp add: digits_val_append)
qed (simp add: digits_val_append)

lemma trim_zeros_split: "\<exists>k. s = TrimRight_zeros s @ replicate k (CHR ''0'')"
proof (induction s rule: rev_induct)
  case (snoc c s)
  then obtain k where k: "s = TrimRight_zeros s @ replicate k (CHR ''0'')" by blast
  show ?case
  proof (cases "c = CHR ''0''")
    case True
    then have "TrimRight_zeros (s @ [c]) = TrimRight_zeros s" by simp
    moreover have "s @ [c] = TrimRight_zeros s @ replicate (Suc k) (CHR ''0'')"
      using k True by (metis append_assoc replicate_Suc replicate_append_same)
    ultimately show ?thesis by metis
  next
    case False
    then show ?thesis by (intro exI [of _ 0]) simp
  qed
qed simp

lemma length_show_nat: "n < 10 ^ k \<Longrightarrow> 0 < k \<Longrightarrow> length (show_nat n) \<le> k"
proof (induction n arbitrary: k rule: show_nat.induct)
  case (1 n)
  show ?case
  proof (cases "n < 10")
    case True
    then show ?thesis using 1 by (subst show_nat.simps) simp
  next
    case False
    then obtain j where k: "k = Suc j" "0 < j" using 1(2,3) by (cases k; cases "k - 1") auto
    then have "n div 10 < 10 ^ j" using 1(2) by (simp add: less_mult_imp_div_less mult.commute)
    from 1(1) [OF False this k(2)] show ?thesis using False k by (subst show_nat.simps) simp
  qed
qed

lemma digits_show: "digit_val c = None \<Longrightarrow> c \<notin> set (show_nat n)"
proof (induction n rule: show_nat.induct)
  case (1 n)
  then show ?case by (subst show_nat.simps) (auto simp: digit_val_digit_char)
qed

lemma split2_point: "CHR ''.'' \<notin> set w \<Longrightarrow> split2 (CHR ''.'') (w @ ''.'' @ f) = (w, Some f)"
  using span_upto [of "CHR ''.''" w f] by (simp add: split2_def)

lemma split2_no_point: "CHR ''.'' \<notin> set w \<Longrightarrow> split2 (CHR ''.'') w = (w, None)"
proof -
  assume "CHR ''.'' \<notin> set w"
  then have "dropWhile (\<lambda>c. c \<noteq> CHR ''.'') w = []" by (auto simp: dropWhile_eq_Nil_conv)
  then show ?thesis unfolding split2_def by (simp del: dropWhile_eq_Nil_conv)
qed

lemma fraction_value:
  assumes "0 < f" "f < nanosPerDollar"
  defines "digits \<equiv> show_int f"
  defines "t \<equiv> TrimRight_zeros (replicate (9 - length digits) (CHR ''0'') @ digits)"
  shows "length digits \<le> 9 \<and> (\<exists>v. digits_val 0 t = Some v \<and> (of_int v :: rat) / 10 ^ length t = of_int f / 10 ^ 9)"
proof
  have d: "digits = show_nat (nat f)" using assms(1) by (simp add: digits_def show_int_def)
  show len: "length digits \<le> 9"
    unfolding d using assms(1,2) by (intro length_show_nat) (simp_all add: nanosPerDollar_def)
  let ?p = "replicate (9 - length digits) (CHR ''0'') @ digits"
  have val: "digits_val 0 ?p = Some f" using assms(1) by (simp add: digits_val_zeros d digits_val_show_nat)
  obtain k where k: "?p = t @ replicate k (CHR ''0'')" using trim_zeros_split t_def by blast
  then have lt: "length t + k = 9" using len by (metis length_append length_replicate le_add_diff_inverse2)
  from val k have "map_option (\<lambda>v. v * 10 ^ k) (digits_val 0 t) = Some f" by (metis digits_val_trailing)
  then obtain v where v: "digits_val 0 t = Some v" "v * 10 ^ k = f" by (cases "digits_val 0 t") auto
  have "(of_int v :: rat) / 10 ^ length t = of_int (v * 10 ^ k) / 10 ^ (length t + k)"
    by (simp add: power_add)
  then have "(of_int v :: rat) / 10 ^ length t = of_int f / 10 ^ 9" using v(2) lt by simp
  with v show "\<exists>v. digits_val 0 t = Some v \<and> (of_int v :: rat) / 10 ^ length t = of_int f / 10 ^ 9" by blast
qed

text \<open>
  A formatted amount reads back exactly: for every non-negative amount of nano-dollars the
  formatting succeeds, and the decimal it prints is that amount in dollars, digit for digit.
\<close>
theorem amount_round_trip:
  assumes "0 \<le> n"
  shows "\<exists>s. formatNanosUSD n = Some s \<and> usd_value s = Some (of_int n / of_int nanosPerDollar)"
proof -
  let ?w = "n div nanosPerDollar" and ?f = "n mod nanosPerDollar"
  have pos: "0 < nanosPerDollar" by (simp add: nanosPerDollar_def)
  have parts: "go_div n nanosPerDollar = ?w" "go_mod n nanosPerDollar = ?f"
    using assms pos by (simp_all add: go_mod_def minus_mult_div_eq_mod)
  have nonneg: "\<not> ?w < 0" using assms pos by (simp add: not_less pos_imp_zdiv_nonneg_iff)
  have w: "show_int ?w = show_nat (nat ?w)" "digits_val 0 (show_int ?w) = Some ?w" "CHR ''.'' \<notin> set (show_int ?w)"
    using nonneg digits_show [of "CHR ''.''"] by (simp_all add: show_int_def digits_val_show_nat digit_val_def)
  have n: "(of_int n :: rat) / of_int nanosPerDollar = of_int ?w + of_int ?f / 10 ^ 9"
  proof -
    have "(of_int n :: rat) = of_int (nanosPerDollar * ?w + ?f)" by simp
    also have "\<dots> = of_int nanosPerDollar * of_int ?w + of_int ?f" unfolding of_int_add of_int_mult ..
    finally show ?thesis by (simp add: nanosPerDollar_def add_divide_distrib)
  qed
  show ?thesis
  proof (cases "?f = 0")
    case True
    then show ?thesis using w n by (simp add: formatNanosUSD_def parts usd_value_def split2_no_point)
  next
    case False
    then have f: "0 < ?f" "?f < nanosPerDollar" using pos pos_mod_sign [OF pos, of n] pos_mod_bound [OF pos, of n] by linarith+
    let ?t = "TrimRight_zeros (replicate (9 - length (show_int ?f)) (CHR ''0'') @ show_int ?f)"
    from fraction_value [OF f] obtain v where
      v: "length (show_int ?f) \<le> 9" "digits_val 0 ?t = Some v" "(of_int v :: rat) / 10 ^ length ?t = of_int ?f / 10 ^ 9"
      by blast
    have shown: "formatNanosUSD n = Some (show_int ?w @ ''.'' @ ?t)"
      using False v(1) unfolding formatNanosUSD_def parts Let_def nanodollarDecimalPlaces_def by simp
    have "usd_value (show_int ?w @ ''.'' @ ?t) = Some (of_int n / of_int nanosPerDollar)"
      unfolding usd_value_def split2_point [OF w(3)] prod.case option.case w(2) v(2) v(3) n ..
    with shown show ?thesis by (intro exI conjI)
  qed
qed

theorem amount_round_trip_witness:
  "\<exists>s. formatNanosUSD 1250000 = Some s \<and> usd_value s = Some (of_int 1250000 / of_int nanosPerDollar)"
  by (rule amount_round_trip) simp

end
