(* ===== verification/Auto_Route.thy ===== *)
theory Auto_Route
  imports Api_Errors Request_Cost Model_Pool "HOL-Library.Product_Lexorder"
begin

text \<open>
  The \<open>auto\<close> model (\<open>autoroute/autoroute.go\<close>, \<open>manager/model_metadata.go\<close>, \<open>resolveAutoModel\<close> of
  \<open>main.go\<close>): the requested level, the ranking of models and efforts, the rewriting of the request
  body for the chosen effort, the published catalog, and the walk over the ranking. Loops over a score
  map take its iteration order as an argument. \<open>json.Number.Float64\<close> is a parameter; a float64 is an
  exact rational, which the division of two scores below 100 does not distinguish.
\<close>

section \<open>The requested level\<close>

definition IntelligenceHeader :: string where "IntelligenceHeader = ''X-Tinfoil-Intelligence''"
definition OptionsField :: string where "OptionsField = ''auto_model_options''"
definition IntelligenceKey :: string where "IntelligenceKey = ''intelligence''"
definition MinIntelligence :: int where "MinIntelligence = 0"
definition MaxIntelligence :: int where "MaxIntelligence = 100"
definition DefaultIntelligence :: int where "DefaultIntelligence = 50"
definition effortPlaceholder :: string where "effortPlaceholder = ''$EFFORT''"
definition effortOff :: string where "effortOff = ''off''"
definition effortOn :: string where "effortOn = ''on''"
definition effortHigh :: string where "effortHigh = ''high''"
definition clientEffortField :: string where "clientEffortField = ''reasoning_effort''"
definition clientReasoningField :: string where "clientReasoningField = ''reasoning''"
definition clientEffortKey :: string where "clientEffortKey = ''effort''"

lemmas auto_names = OptionsField_def IntelligenceKey_def clientEffortField_def clientReasoningField_def clientEffortKey_def

record ValidationError =
  ve_Param :: string
  ve_Message :: string

definition intelligenceParam :: string where "intelligenceParam = OptionsField @ ''.'' @ IntelligenceKey"

definition range_text :: string where
  "range_text = show_int MinIntelligence @ '' and '' @ show_int MaxIntelligence @ ''.''"

definition validateIntelligence :: "int \<Rightarrow> string \<Rightarrow> ValidationError + int" where
  "validateIntelligence level param =
     (if level < MinIntelligence \<or> MaxIntelligence < level
      then Inl \<lparr>ve_Param = param, ve_Message = ''Invalid intelligence level '' @ show_int level @ '': must be between '' @ range_text\<rparr>
      else Inr level)"

definition invalid_param :: ValidationError where
  "invalid_param = \<lparr>ve_Param = intelligenceParam,
     ve_Message = ''Invalid parameter: '' @ [byte 39] @ intelligenceParam @ [byte 39] @ '' must be an integer between '' @ range_text\<rparr>"

definition float_level :: "rat \<Rightarrow> ValidationError + int" where
  "float_level x =
     (if x = of_int \<lfloor>x\<rfloor> \<and> of_int min_int64 \<le> x \<and> x < - of_int min_int64 then validateIntelligence \<lfloor>x\<rfloor> intelligenceParam
      else Inl invalid_param)"

definition intelligenceFromJSON :: "(string \<Rightarrow> rat option) \<Rightarrow> json \<Rightarrow> ValidationError + int" where
  "intelligenceFromJSON float64 v =
     (case v of
        JNumber s \<Rightarrow> (case float64 s of Some x \<Rightarrow> float_level x | None \<Rightarrow> Inl invalid_param)
      | JFloat x \<Rightarrow> float_level x
      | _ \<Rightarrow> Inl invalid_param)"

definition ParseIntelligence ::
  "(string \<Rightarrow> rat option) \<Rightarrow> header \<Rightarrow> json_object \<Rightarrow> (ValidationError + int) \<times> json_object" where
  "ParseIntelligence float64 h body =
     ((case (case map_of body OptionsField of Some (JObject options) \<Rightarrow> map_of options IntelligenceKey | _ \<Rightarrow> None) of
         Some v \<Rightarrow> intelligenceFromJSON float64 v
       | None \<Rightarrow>
           (let value = TrimSpace (header_get h IntelligenceHeader)
            in if value = [] then Inr DefaultIntelligence
               else case ParseInt64 value of
                      None \<Rightarrow> Inl \<lparr>ve_Param = [], ve_Message = ''Invalid '' @ IntelligenceHeader @ '' header: must be an integer between '' @ range_text\<rparr>
                    | Some level \<Rightarrow> validateIntelligence level [])),
      AList.delete OptionsField body)"

section \<open>Visual input\<close>

definition visualPartTypes :: "string list" where
  "visualPartTypes = [''image_url'', ''input_image'', ''file'', ''input_file'']"

definition visual_part :: "json \<Rightarrow> bool" where
  "visual_part rawPart = (case rawPart of JObject part \<Rightarrow> string_field part ''type'' \<in> set visualPartTypes | _ \<Rightarrow> False)"

definition visual_item :: "json \<Rightarrow> bool" where
  "visual_item item =
     (case item of
        JObject msg \<Rightarrow> (case field msg ''content'' of JArray parts \<Rightarrow> list_ex visual_part parts | _ \<Rightarrow> False)
      | _ \<Rightarrow> False)"

definition HasVisualInput :: "json_object \<Rightarrow> bool" where
  "HasVisualInput body =
     list_ex (\<lambda>f. case field body f of JArray items \<Rightarrow> list_ex visual_item items | _ \<Rightarrow> False) [''messages'', ''input'']"

section \<open>The catalog\<close>

record EndpointParams =
  Enable :: json_object
  Disable :: "json_object option"

record Reasoning =
  rs_Params :: "(string, EndpointParams) gomap"
  EffortMap :: "(string, string) gomap"

record AutoModel =
  am_Name :: string
  am_Multimodal :: bool
  am_Scores :: "(string, int) gomap"
  am_Reasoning :: "Reasoning option"

record AutoCandidate =
  ac_Model :: AutoModel
  ac_Effort :: string
  ac_Score :: int
  ac_Level :: int

definition normalize :: "int \<Rightarrow> int \<Rightarrow> int" where
  "normalize score maxScore = go_round (of_int score * of_int MaxIntelligence / of_int maxScore)"

definition max_score :: "AutoModel list \<Rightarrow> int" where
  "max_score catalog = fold (\<lambda>s m. if m < s then s else m) (concat (map (\<lambda>m. map snd (am_Scores m)) catalog)) 0"

definition rank_before :: "int \<Rightarrow> AutoCandidate \<Rightarrow> AutoCandidate \<Rightarrow> bool" where
  "rank_before target a b =
     (let da = \<bar>ac_Level a - target\<bar>; db = \<bar>ac_Level b - target\<bar>
      in if da \<noteq> db then da < db
         else if am_Multimodal (ac_Model a) \<noteq> am_Multimodal (ac_Model b) then am_Multimodal (ac_Model a)
         else if ac_Score a \<noteq> ac_Score b then ac_Score b < ac_Score a
         else if am_Name (ac_Model a) \<noteq> am_Name (ac_Model b) then am_Name (ac_Model a) < am_Name (ac_Model b)
         else ac_Effort a < ac_Effort b)"

definition expand :: "(AutoModel \<Rightarrow> (string \<times> int) list) \<Rightarrow> AutoModel list \<Rightarrow> bool \<Rightarrow> AutoCandidate list" where
  "expand iter catalog requireMultimodal =
     concat (map (\<lambda>m. if requireMultimodal \<and> \<not> am_Multimodal m then []
                      else map (\<lambda>(effort, score). \<lparr>ac_Model = m, ac_Effort = effort, ac_Score = score,
                                                  ac_Level = normalize score (max_score catalog)\<rparr>) (iter m)) catalog)"

definition Rank :: "(AutoModel \<Rightarrow> (string \<times> int) list) \<Rightarrow> AutoModel list \<Rightarrow> int \<Rightarrow> bool \<Rightarrow> AutoCandidate list" where
  "Rank iter catalog target requireMultimodal =
     (if max_score catalog = 0 then [] else sort_by (rank_before target) (expand iter catalog requireMultimodal))"

section \<open>Applying an effort\<close>

definition nativeEffort :: "Reasoning \<Rightarrow> string \<Rightarrow> string" where
  "nativeEffort r effort = (case map_of (EffortMap r) effort of Some mapped \<Rightarrow> mapped | None \<Rightarrow> effort)"

fun substituteEffort :: "json \<Rightarrow> string \<Rightarrow> json" where
  "substituteEffort (JString s) native = JString (if s = effortPlaceholder then native else s)"
| "substituteEffort (JObject m) native = JObject (map (\<lambda>p. (fst p, substituteEffort (snd p) native)) m)"
| "substituteEffort (JArray xs) native = JArray (map (\<lambda>x. substituteEffort x native) xs)"
| "substituteEffort v native = v"

definition object_at :: "json_object \<Rightarrow> string \<Rightarrow> json_object" where
  "object_at m k = (case map_of m k of Some (JObject x) \<Rightarrow> x | _ \<Rightarrow> [])"

text \<open>
  \<open>mergeInto\<close> updates \<open>dst\<close> in place; a nested object is merged into the one at the key, or into a new
  one when there is none.
\<close>

function mergeInto :: "json_object \<Rightarrow> (string \<times> json) list \<Rightarrow> json_object" where
  "mergeInto dst [] = dst"
| "mergeInto dst ((k, v) # src) =
     mergeInto (AList.update k (case v of JObject m \<Rightarrow> JObject (mergeInto (object_at dst k) m) | _ \<Rightarrow> v) dst) src"
  by pat_completeness auto
termination
  by (relation "measure (\<lambda>(dst, src). size_list (size_prod (\<lambda>_. 0) size) src)") auto

definition effort_fragment :: "string \<Rightarrow> AutoCandidate \<Rightarrow> json_object option" where
  "effort_fragment path c =
     (case am_Reasoning (ac_Model c) of
        None \<Rightarrow> None
      | Some r \<Rightarrow>
          (case map_of (rs_Params r) path of
             None \<Rightarrow> None
           | Some endpoint \<Rightarrow>
               (if ac_Effort c = effortOff then Disable endpoint
                else as_object (substituteEffort (JObject (Enable endpoint))
                       (nativeEffort r (if ac_Effort c = effortOn then effortHigh else ac_Effort c))))))"

definition strip_client_effort :: "json_object \<Rightarrow> json_object" where
  "strip_client_effort body =
     (let b1 = AList.delete clientEffortField body
      in case field b1 clientReasoningField of
           JObject r \<Rightarrow>
             (let r' = AList.delete clientEffortKey r
              in if r' = [] then AList.delete clientReasoningField b1
                 else AList.update clientReasoningField (JObject r') b1)
         | _ \<Rightarrow> b1)"

definition ApplyEffort :: "json_object \<Rightarrow> string \<Rightarrow> AutoCandidate \<Rightarrow> json_object" where
  "ApplyEffort body path c =
     (case effort_fragment path c of
        None \<Rightarrow> strip_client_effort body
      | Some fragment \<Rightarrow> mergeInto (strip_client_effort body) fragment)"

section \<open>Published metadata\<close>

definition maxIntelligenceScore :: int where "maxIntelligenceScore = 100"

record ModelIntelligence =
  mi_Scores :: "(string, int) gomap"
  mi_Reasoning :: "Reasoning option"

record openAIModelEntry =
  en_ID :: string
  en_Multimodal :: bool
  en_Type :: string
  en_Pricing :: "ModelPricing option"
  en_Intelligence :: "(string, int) gomap"
  en_ReasoningParams :: "Reasoning option"

text \<open>The caches of the manager: the sticky set of multimodal models, prices and intelligence.\<close>

record metadata =
  multimodalModels :: "string list"
  md_pricing :: "(string, ModelPricing) gomap option"
  md_intelligence :: "(string, ModelIntelligence) gomap option"

definition IsMultimodal :: "metadata \<Rightarrow> string \<Rightarrow> bool" where
  "IsMultimodal md name \<longleftrightarrow> name \<in> set (multimodalModels md)"

definition published_pricing :: "metadata \<Rightarrow> string \<Rightarrow> ModelPricing option" where
  "published_pricing md name = (case md_pricing md of None \<Rightarrow> None | Some m \<Rightarrow> map_of m name)"

definition published_intelligence :: "metadata \<Rightarrow> string \<Rightarrow> ModelIntelligence option" where
  "published_intelligence md name = (case md_intelligence md of None \<Rightarrow> None | Some m \<Rightarrow> map_of m name)"

definition AutoRouteCatalog :: "metadata \<Rightarrow> AutoModel list" where
  "AutoRouteCatalog md =
     (case md_intelligence md of
        None \<Rightarrow> []
      | Some m \<Rightarrow>
          sort_by (\<lambda>a b. am_Name a < am_Name b)
            (map (\<lambda>(name, entry). \<lparr>am_Name = name, am_Multimodal = IsMultimodal md name, am_Scores = mi_Scores entry,
                                     am_Reasoning = mi_Reasoning entry\<rparr>) m))"

definition AutoRouteStatus :: "time \<Rightarrow> (string, Model) gomap \<Rightarrow> string \<Rightarrow> string \<Rightarrow> bool \<times> bool" where
  "AutoRouteStatus now ms name orgID =
     (case map_of ms name of
        None \<Rightarrow> (False, False)
      | Some m \<Rightarrow>
          (case ReservationPools orgID m of
             (primary, spill, _) \<Rightarrow>
               if primary = Some [] \<and> (spill = None \<or> spill = Some []) then (False, False)
               else (True, HasHealthyEnclave now primary spill m)))"

definition validIntelligence :: "(string, int) gomap \<Rightarrow> bool" where
  "validIntelligence scores \<longleftrightarrow> scores \<noteq> [] \<and> list_all (\<lambda>(_, s). \<not> (s < 0 \<or> maxIntelligenceScore < s)) scores"

definition metadata_entry ::
  "openAIModelEntry \<Rightarrow> string list \<times> (string, ModelPricing) gomap \<times> (string, ModelIntelligence) gomap
     \<Rightarrow> string list \<times> (string, ModelPricing) gomap \<times> (string, ModelIntelligence) gomap" where
  "metadata_entry e acc =
     (case acc of
        (multimodal, pricing, intelligence) \<Rightarrow>
          (let pricing' = (case en_Pricing e of
                             Some p \<Rightarrow> if en_ID e \<noteq> [] \<and> pricing_valid p then AList.update (en_ID e) p pricing else pricing
                           | None \<Rightarrow> pricing)
           in if en_ID e = [] \<or> (en_Type e \<noteq> [] \<and> en_Type e \<noteq> ''chat'') then (multimodal, pricing', intelligence)
              else
                (if en_Multimodal e then List.insert (en_ID e) multimodal else multimodal, pricing',
                 if validIntelligence (en_Intelligence e)
                 then AList.update (en_ID e) \<lparr>mi_Scores = en_Intelligence e, mi_Reasoning = en_ReasoningParams e\<rparr> intelligence
                 else intelligence)))"

text \<open>\<open>fetched\<close> is the decoded model list, or \<open>None\<close> when the request, its status or the decoding fails.\<close>

definition refreshModelMetadata :: "string \<Rightarrow> openAIModelEntry list option \<Rightarrow> metadata \<Rightarrow> metadata" where
  "refreshModelMetadata controlPlaneURL fetched md =
     (if controlPlaneURL = [] then md
      else case fetched of
             None \<Rightarrow> md
           | Some entries \<Rightarrow>
               (case fold metadata_entry entries (multimodalModels md, [], []) of
                  (multimodal, pricing, intelligence) \<Rightarrow>
                    md\<lparr>multimodalModels := multimodal, md_pricing := Some pricing, md_intelligence := Some intelligence\<rparr>))"

section \<open>Resolving the auto model\<close>

text \<open>
  The walk over the ranking: the position, the best eligible candidate so far, and the result with
  the flag that a healthy backend was found and the model counted as a fallback.
\<close>

datatype walk_result =
    WalkError APIError
  | NoneEligible
  | Chosen AutoCandidate bool "string list"

fun walk ::
  "(string \<Rightarrow> APIError + string) \<Rightarrow> (string \<Rightarrow> string \<Rightarrow> bool \<times> bool) \<Rightarrow> nat \<Rightarrow> AutoCandidate option \<Rightarrow> AutoCandidate list
     \<Rightarrow> walk_result" where
  "walk org status i chosen [] = (case chosen of None \<Rightarrow> NoneEligible | Some c \<Rightarrow> Chosen c False [])"
| "walk org status i chosen (c # cs) =
     (case org (am_Name (ac_Model c)) of
        Inl e \<Rightarrow> WalkError e
      | Inr orgID \<Rightarrow>
          (case status (am_Name (ac_Model c)) orgID of
             (elig, avail) \<Rightarrow>
               if \<not> elig then walk org status (i + 1) chosen cs
               else if avail then Chosen c True (if 0 < i then [am_Name (ac_Model c)] else [])
               else walk org status (i + 1) (case chosen of None \<Rightarrow> Some c | Some d \<Rightarrow> Some d) cs))"

definition ErrMsgAutoNoMultimodal :: string where
  "ErrMsgAutoNoMultimodal = ''Model '' @ [byte 39] @ ''auto'' @ [byte 39] @ '' has no multimodal model available for image or file input.''"
definition ErrMsgAutoNoScores :: string where
  "ErrMsgAutoNoScores = ''Model '' @ [byte 39] @ ''auto'' @ [byte 39] @ '' is not available: no models publish intelligence scores.''"
definition ErrMsgModelUnavailable :: "string \<Rightarrow> string" where
  "ErrMsgModelUnavailable m = ''The model '' @ [byte 39] @ m @ [byte 39] @ '' is temporarily unavailable. Please try again later.''"

definition resolveAutoModel ::
  "(string \<Rightarrow> rat option) \<Rightarrow> (AutoModel \<Rightarrow> (string \<times> int) list) \<Rightarrow> AutoModel list \<Rightarrow> (string \<Rightarrow> string \<Rightarrow> bool \<times> bool)
     \<Rightarrow> (string \<Rightarrow> APIError + string) \<Rightarrow> header \<Rightarrow> string \<Rightarrow> json_object \<Rightarrow> (APIError + string) \<times> json_object" where
  "resolveAutoModel float64 iter catalog status org h path body =
     (case ParseIntelligence float64 h body of
        (Inl e, body1) \<Rightarrow> (Inl (WithMessage (WithParam ErrInvalidRequest (ve_Param e)) (ve_Message e)), body1)
      | (Inr target, body1) \<Rightarrow>
          (let visual = HasVisualInput body1; ranked = Rank iter catalog target visual
           in if ranked = [] then
                (Inl (WithMessage (WithParam ErrInvalidRequest ''model'')
                        (if visual then ErrMsgAutoNoMultimodal else ErrMsgAutoNoScores)), body1)
              else case walk org status 0 None ranked of
                     WalkError e \<Rightarrow> (Inl e, body1)
                   | NoneEligible \<Rightarrow> (Inl (WithMessage ErrModelUnavailable (ErrMsgModelUnavailable ''auto'')), body1)
                   | Chosen c healthy fallbacks \<Rightarrow>
                       (Inr (am_Name (ac_Model c)),
                        AList.update ''model'' (JString (am_Name (ac_Model c))) (ApplyEffort body1 path c))))"

section \<open>The ranking\<close>

text \<open>Without duplicates a total comparison sorts strictly.\<close>

context total_comparison
begin

lemma sort_by_strict:
  assumes "dom_ok (set xs)" "distinct xs"
  shows "sorted_wrt lt (sort_by lt xs)"
proof -
  have "sorted_wrt lt ys" if "sorted_wrt (\<lambda>a b. \<not> lt b a) ys" "distinct ys" "set ys \<subseteq> set xs" for ys
    using that
  proof (induction ys)
    case (Cons y ys)
    have "lt y z" if "z \<in> set ys" for z
      using total [OF assms(1), of y z] Cons.prems that by auto
    with Cons show ?case by simp
  qed simp
  moreover have "distinct (sort_by lt xs)" using assms(2) by (metis mset_eq_imp_distinct_iff mset_sort_by)
  ultimately show ?thesis using sort_by_sorted by simp
qed

end

definition rank_key :: "int \<Rightarrow> AutoCandidate \<Rightarrow> int \<times> bool \<times> int \<times> string \<times> string" where
  "rank_key target c =
     (\<bar>ac_Level c - target\<bar>, \<not> am_Multimodal (ac_Model c), - ac_Score c, am_Name (ac_Model c), ac_Effort c)"

definition pair_of :: "AutoCandidate \<Rightarrow> string \<times> string" where
  "pair_of c = (am_Name (ac_Model c), ac_Effort c)"

lemma rank_before_key: "rank_before target a b \<longleftrightarrow> rank_key target a < rank_key target b"
  by (auto simp: rank_before_def rank_key_def less_prod_def' Let_def)

interpretation auto: total_comparison "rank_before target" "\<lambda>A. inj_on pair_of A" for target
proof unfold_locales
  fix x y z :: AutoCandidate
  show "rank_before target x y \<Longrightarrow> \<not> rank_before target y x" by (simp add: rank_before_key)
  show "\<not> rank_before target y x \<Longrightarrow> \<not> rank_before target z y \<Longrightarrow> \<not> rank_before target z x"
    by (simp add: rank_before_key)
next
  fix A :: "AutoCandidate set" and x y
  assume "inj_on pair_of A" "x \<in> A" "y \<in> A" "x \<noteq> y"
  then have "pair_of x \<noteq> pair_of y" by (meson inj_onD)
  then have "rank_key target x \<noteq> rank_key target y" by (auto simp: pair_of_def rank_key_def)
  then show "rank_before target x y \<or> rank_before target y x" by (auto simp: rank_before_key)
qed

text \<open>A catalog as the manager builds it: distinct names, and no effort twice in a score map.\<close>

definition wf_catalog :: "AutoModel list \<Rightarrow> bool" where
  "wf_catalog catalog \<longleftrightarrow> distinct (map am_Name catalog) \<and> list_all (\<lambda>m. wf_map (am_Scores m)) catalog"

definition iterates :: "(AutoModel \<Rightarrow> (string \<times> int) list) \<Rightarrow> bool" where
  "iterates iter \<longleftrightarrow> (\<forall>m. mset (iter m) = mset (am_Scores m))"

lemma iterates_set: "iterates iter \<Longrightarrow> set (iter m) = set (am_Scores m)"
  unfolding iterates_def by (metis set_mset_mset)

lemma mset_expand:
  "iterates iter \<Longrightarrow> iterates iter' \<Longrightarrow> mset (expand iter catalog req) = mset (expand iter' catalog req)"
  by (auto simp: expand_def mset_concat iterates_def comp_def intro!: arg_cong [where f = sum_list] map_cong)

lemma in_expand:
  assumes "iterates iter"
  shows "c \<in> set (expand iter catalog req) \<longleftrightarrow>
    ac_Model c \<in> set catalog \<and> (req \<longrightarrow> am_Multimodal (ac_Model c)) \<and> (ac_Effort c, ac_Score c) \<in> set (am_Scores (ac_Model c))
    \<and> ac_Level c = normalize (ac_Score c) (max_score catalog)"
  by (cases c) (auto simp: expand_def iterates_set [OF assms] split: if_splits)

lemma expand_pairs_inj:
  assumes "iterates iter" "wf_catalog catalog"
  shows "inj_on pair_of (set (expand iter catalog req))"
proof (rule inj_onI)
  fix x y
  assume xy: "x \<in> set (expand iter catalog req)" "y \<in> set (expand iter catalog req)" "pair_of x = pair_of y"
  then have "ac_Model x = ac_Model y"
    using assms(2) in_expand [OF assms(1)] by (auto simp: wf_catalog_def distinct_map pair_of_def inj_on_def)
  moreover have "ac_Effort x = ac_Effort y" using xy(3) by (simp add: pair_of_def)
  moreover have "ac_Score x = ac_Score y"
    using xy in_expand [OF assms(1)] assms(2) calculation
    by (auto simp: wf_catalog_def list_all_iff wf_map_def dest: eq_key_imp_eq_value)
  ultimately show "x = y" using xy in_expand [OF assms(1)] by (metis AutoCandidate.equality unit.exhaust)
qed

lemma expand_distinct:
  assumes "iterates iter" "wf_catalog catalog"
  shows "distinct (expand iter catalog req)"
proof -
  have it: "distinct (iter m)" if "wf_map (am_Scores m)" for m
    using that assms(1) unfolding iterates_def wf_map_def by (metis distinct_map mset_eq_imp_distinct_iff)
  define f where "f = (\<lambda>m. if req \<and> \<not> am_Multimodal m then []
      else map (\<lambda>(effort, score). \<lparr>ac_Model = m, ac_Effort = effort, ac_Score = score,
                                  ac_Level = normalize score (max_score catalog)\<rparr>) (iter m))"
  have owner: "ac_Model x = m" if "x \<in> set (f m)" for x m
    using that by (auto simp: f_def split: if_splits)
  have each: "distinct (f m)" if "wf_map (am_Scores m)" for m
    using it [OF that] by (auto simp: f_def distinct_map inj_on_def)
  have "distinct (concat (map f ms))" if "distinct ms" "list_all (\<lambda>m. wf_map (am_Scores m)) ms" for ms
    using that
  proof (induction ms)
    case (Cons m ms)
    have "set (f m) \<inter> set (concat (map f ms)) = {}"
    proof -
      have "m \<noteq> m'" if "m' \<in> set ms" for m' using Cons.prems(1) that by auto
      then show ?thesis using owner by (auto dest: owner)
    qed
    with Cons each [of m] show ?case by simp
  qed simp
  then show ?thesis using assms(2) by (simp add: expand_def f_def [symmetric] wf_catalog_def distinct_map)
qed

text \<open>
  The ranking of models and efforts does not depend on the iteration order of the score maps: two
  runs over the same catalog give the same list, sorted by distance to the requested level, then
  multimodality, score, name and effort.
\<close>
theorem auto_rank_deterministic:
  assumes "wf_catalog catalog" "iterates iter" "iterates iter'"
  shows "Rank iter catalog target req = Rank iter' catalog target req
    \<and> sorted_wrt (\<lambda>a b. rank_key target a < rank_key target b) (Rank iter catalog target req)"
proof -
  let ?xs = "expand iter catalog req" and ?ys = "expand iter' catalog req"
  have inj: "inj_on pair_of (set ?xs)" by (rule expand_pairs_inj [OF assms(2,1)])
  have sorted: "sorted_wrt (\<lambda>a b. \<not> rank_before target b a) (sort_by (rank_before target) zs)" for zs by (rule auto.sort_by_sorted)
  have "sort_by (rank_before target) ?ys = sort_by (rank_before target) ?xs"
    by (rule auto.sort_by_unique [OF inj]) (simp_all add: mset_expand [OF assms(3,2)] sorted)
  moreover have "sorted_wrt (\<lambda>a b. rank_key target a < rank_key target b) (sort_by (rank_before target) ?xs)"
  proof -
    have "distinct ?xs" by (rule expand_distinct [OF assms(2,1)])
    then show ?thesis
      using auto.sort_by_strict [OF inj, of target] by (simp flip: rank_before_key)
  qed
  ultimately show ?thesis by (simp add: Rank_def)
qed

definition catalog_example :: "AutoModel list" where
  "catalog_example =
     [\<lparr>am_Name = ''a'', am_Multimodal = True, am_Scores = [(''low'', 10), (''high'', 40)], am_Reasoning = None\<rparr>,
      \<lparr>am_Name = ''b'', am_Multimodal = False, am_Scores = [(''off'', 20)], am_Reasoning = None\<rparr>]"

theorem auto_rank_deterministic_witness:
  "map pair_of (Rank am_Scores catalog_example 50 False) = [(''b'', ''off''), (''a'', ''low''), (''a'', ''high'')]
   \<and> Rank am_Scores catalog_example 50 False = Rank (\<lambda>m. rev (am_Scores m)) catalog_example 50 False"
proof
  show "map pair_of (Rank am_Scores catalog_example 50 False) = [(''b'', ''off''), (''a'', ''low''), (''a'', ''high'')]"
    by code_simp
  have "wf_catalog catalog_example" by code_simp
  then show "Rank am_Scores catalog_example 50 False = Rank (\<lambda>m. rev (am_Scores m)) catalog_example 50 False"
    using auto_rank_deterministic [of catalog_example am_Scores "\<lambda>m. rev (am_Scores m)" 50 False] by (simp add: iterates_def)
qed

section \<open>The choice\<close>

text \<open>A candidate's backend, as the walk asks for it.\<close>

definition backend_status ::
  "(string \<Rightarrow> APIError + string) \<Rightarrow> (string \<Rightarrow> string \<Rightarrow> bool \<times> bool) \<Rightarrow> AutoCandidate \<Rightarrow> bool \<times> bool" where
  "backend_status org status c =
     (case org (am_Name (ac_Model c)) of Inl _ \<Rightarrow> (False, False) | Inr o' \<Rightarrow> status (am_Name (ac_Model c)) o')"

definition healthy_in :: "(AutoCandidate \<Rightarrow> bool \<times> bool) \<Rightarrow> AutoCandidate \<Rightarrow> bool" where
  "healthy_in bs c \<longleftrightarrow> fst (bs c) \<and> snd (bs c)"

text \<open>The walk returns the first healthy candidate, or else the first eligible one.\<close>

lemma walk_Chosen:
  assumes "walk org status i chosen cs = Chosen c h fb"
  defines "bs \<equiv> backend_status org status"
  shows "if h then \<exists>pre post. cs = pre @ c # post \<and> healthy_in bs c \<and> (\<forall>d \<in> set pre. \<not> healthy_in bs d)
         else (\<forall>d \<in> set cs. \<not> healthy_in bs d) \<and>
              (case chosen of Some c' \<Rightarrow> c = c'
               | None \<Rightarrow> \<exists>pre post. cs = pre @ c # post \<and> fst (bs c) \<and> (\<forall>d \<in> set pre. \<not> fst (bs d)))"
  using assms(1)
proof (induction cs arbitrary: i chosen)
  case Nil
  then show ?case by (auto split: option.splits)
next
  case (Cons d cs)
  then obtain o' el av where d: "org (am_Name (ac_Model d)) = Inr o'" "status (am_Name (ac_Model d)) o' = (el, av)"
    by (auto split: sum.splits prod.splits)
  have bs: "bs d = (el, av)" by (simp add: bs_def backend_status_def d)
  consider "\<not> el" | "el" "av" | "el" "\<not> av" by blast
  then show ?case
  proof cases
    case 1
    then have w: "walk org status (i + 1) chosen cs = Chosen c h fb" using Cons.prems d by simp
    from Cons.IH [OF w] 1 bs show ?thesis
      by (auto simp: healthy_in_def split: if_splits option.splits) (metis (no_types, lifting) append_Cons fst_conv set_ConsD)+
  next
    case 2
    then show ?thesis using Cons.prems d bs by (auto simp: healthy_in_def intro: exI [of _ "[]"])
  next
    case 3
    then have w: "walk org status (i + 1) (case chosen of None \<Rightarrow> Some d | Some x \<Rightarrow> Some x) cs = Chosen c h fb"
      using Cons.prems d by simp
    from Cons.IH [OF w] 3 bs show ?thesis
      by (auto simp: healthy_in_def split: if_splits option.splits)
         (metis (no_types, lifting) append_Cons append_Nil empty_iff fst_conv list.set(1) set_ConsD snd_conv)+
  qed
qed

definition closest :: "int \<Rightarrow> (AutoCandidate \<Rightarrow> bool) \<Rightarrow> AutoCandidate set \<Rightarrow> AutoCandidate \<Rightarrow> bool" where
  "closest target P S c \<longleftrightarrow> c \<in> S \<and> P c \<and> (\<forall>d \<in> S. P d \<longrightarrow> \<bar>ac_Level c - target\<bar> \<le> \<bar>ac_Level d - target\<bar>)"

lemma Rank_fit:
  "sorted_wrt (\<lambda>a b. \<bar>ac_Level a - target\<bar> \<le> \<bar>ac_Level b - target\<bar>) (Rank iter catalog target req)"
proof -
  have "\<bar>ac_Level a - target\<bar> \<le> \<bar>ac_Level b - target\<bar>" if "\<not> rank_before target b a" for a b
    using that by (auto simp: rank_before_def Let_def split: if_splits)
  with sorted_wrt_mono_rel [OF _ auto.sort_by_sorted] show ?thesis by (simp add: Rank_def)
qed

lemma sorted_prefix_least:
  assumes "sorted_wrt R (pre @ c # post)" "\<forall>d \<in> set pre. \<not> P d" "d \<in> set (pre @ c # post)" "P d" "\<And>x. R x x"
  shows "R c d"
  using assms by (auto simp: sorted_wrt_append)

text \<open>
  Resolving \<open>auto\<close> chooses, among all pairs of a published model and effort that the request may use
  (multimodal ones only when it carries images or files), one whose level is closest to the requested
  level: among the healthy ones when there are any, otherwise among the eligible ones, so that the
  ordinary serving path reports the outage.
\<close>
theorem auto_choice_closest:
  fixes float64 h body org status iter catalog target
  defines "S \<equiv> set (Rank iter catalog target (HasVisualInput (AList.delete OptionsField body)))"
    and "bs \<equiv> backend_status org status"
  assumes target: "fst (ParseIntelligence float64 h body) = Inr target"
    and resolved: "resolveAutoModel float64 iter catalog status org h path body = (Inr name, body')"
  shows "\<exists>c. am_Name (ac_Model c) = name \<and> closest target (if \<exists>d \<in> S. healthy_in bs d then healthy_in bs else fst \<circ> bs) S c"
proof -
  let ?ranked = "Rank iter catalog target (HasVisualInput (AList.delete OptionsField body))"
  have parse: "ParseIntelligence float64 h body = (Inr target, AList.delete OptionsField body)"
    using target by (simp add: ParseIntelligence_def)
  from resolved obtain c hl fb where w: "walk org status 0 None ?ranked = Chosen c hl fb" and name: "am_Name (ac_Model c) = name"
    by (auto simp: resolveAutoModel_def parse Let_def split: if_splits walk_result.splits)
  note sorted = Rank_fit [of target iter catalog "HasVisualInput (AList.delete OptionsField body)"]
  note ch = walk_Chosen [OF w, folded bs_def]
  have least: "closest target P S c" if "?ranked = pre @ c # post" "\<forall>d \<in> set pre. \<not> P d" "P c" for P pre post
    using that sorted_prefix_least [of _ pre c post P, OF sorted [unfolded that(1)] that(2)]
    by (auto simp: closest_def S_def)
  show ?thesis
  proof (cases hl)
    case True
    with ch obtain pre post where "?ranked = pre @ c # post" "healthy_in bs c" "\<forall>d \<in> set pre. \<not> healthy_in bs d" by auto
    with least [of pre post "healthy_in bs"] have "closest target (healthy_in bs) S c" by simp
    moreover have "\<exists>d \<in> S. healthy_in bs d" using calculation by (auto simp: closest_def)
    ultimately show ?thesis using name by auto
  next
    case False
    with ch obtain pre post where "?ranked = pre @ c # post" "fst (bs c)" "\<forall>d \<in> set pre. \<not> fst (bs d)"
      and none: "\<forall>d \<in> set ?ranked. \<not> healthy_in bs d" by auto
    with least [of pre post "fst \<circ> bs"] have "closest target (fst \<circ> bs) S c" by simp
    then show ?thesis using name none by (auto simp: S_def)
  qed
qed

definition status_example :: "string \<Rightarrow> string \<Rightarrow> bool \<times> bool" where
  "status_example name orgID = (True, name = ''a'')"

theorem auto_choice_closest_witness:
  "\<exists>c. am_Name (ac_Model c) = ''a'' \<and> closest 50
     (if \<exists>d \<in> set (Rank am_Scores catalog_example 50 False). healthy_in (backend_status (\<lambda>_. Inr []) status_example) d
      then healthy_in (backend_status (\<lambda>_. Inr []) status_example) else fst \<circ> backend_status (\<lambda>_. Inr []) status_example)
     (set (Rank am_Scores catalog_example 50 False)) c"
proof -
  obtain body' where r: "resolveAutoModel (\<lambda>_. None) am_Scores catalog_example status_example (\<lambda>_. Inr []) [] ''/v1/chat/completions'' []
      = (Inr ''a'', body')"
  proof -
    have "fst (resolveAutoModel (\<lambda>_. None) am_Scores catalog_example status_example (\<lambda>_. Inr []) [] ''/v1/chat/completions'' []) = Inr ''a''"
      by code_simp
    then show ?thesis using that by (metis prod.collapse)
  qed
  have t: "fst (ParseIntelligence (\<lambda>_. None) [] []) = Inr 50" by code_simp
  have v: "HasVisualInput (AList.delete OptionsField []) = False" by code_simp
  from auto_choice_closest [OF t r] show ?thesis by (simp only: v)
qed

section \<open>Merging\<close>

text \<open>The value at a path of keys, and a path that a value of the fragment cuts off.\<close>

fun at_path :: "json_object \<Rightarrow> string list \<Rightarrow> json option" where
  "at_path m [] = Some (JObject m)"
| "at_path m (k # ks) =
     (case map_of m k of
        None \<Rightarrow> None
      | Some v \<Rightarrow> if ks = [] then Some v else case v of JObject n \<Rightarrow> at_path n ks | _ \<Rightarrow> None)"

fun cut_off :: "json_object \<Rightarrow> string list \<Rightarrow> bool" where
  "cut_off m [] = False"
| "cut_off m (k # ks) =
     (case map_of m k of
        None \<Rightarrow> False
      | Some (JObject n) \<Rightarrow> cut_off n ks
      | Some _ \<Rightarrow> ks \<noteq> [])"

definition merged_value :: "json_object \<Rightarrow> string \<Rightarrow> json \<Rightarrow> json" where
  "merged_value dst k v = (case v of JObject m \<Rightarrow> JObject (mergeInto (object_at dst k) m) | _ \<Rightarrow> v)"

lemma object_at_update [simp]: "k' \<noteq> k \<Longrightarrow> object_at (AList.update k v m) k' = object_at m k'"
  by (simp add: object_at_def)

lemma map_of_mergeInto:
  "distinct (map fst src) \<Longrightarrow>
   map_of (mergeInto dst src) k = (case map_of src k of None \<Rightarrow> map_of dst k | Some v \<Rightarrow> Some (merged_value dst k v))"
proof (induction src arbitrary: dst)
  case (Cons p src)
  obtain k' v where p: "p = (k', v)" by force
  let ?dst = "AList.update k' (merged_value dst k' v) dst"
  have "map_of (mergeInto dst (p # src)) k = map_of (mergeInto ?dst src) k" by (simp add: p merged_value_def)
  also have "\<dots> = (case map_of src k of None \<Rightarrow> map_of ?dst k | Some v \<Rightarrow> Some (merged_value ?dst k v))"
    using Cons by (simp add: p)
  finally have eq: "map_of (mergeInto dst (p # src)) k = \<dots>" .
  show ?case
  proof (cases "k = k'")
    case True
    then have "map_of src k = None" using Cons.prems by (simp add: p map_of_eq_None_iff)
    then show ?thesis using eq True by (simp add: p)
  next
    case False
    then have "merged_value ?dst k w = merged_value dst k w" for w by (cases w) (simp_all add: merged_value_def [of _ k])
    then show ?thesis using eq False by (simp add: p cong: option.case_cong)
  qed
qed simp

text \<open>Reading a merged object: values of the fragment win, everything the fragment does not mention is kept.\<close>

definition overlaid :: "json option \<Rightarrow> bool \<Rightarrow> json option \<Rightarrow> json option" where
  "overlaid s gone d =
     (case s of
        None \<Rightarrow> if gone then None else d
      | Some (JObject m) \<Rightarrow> Some (JObject (mergeInto (case d of Some (JObject n) \<Rightarrow> n | _ \<Rightarrow> []) m))
      | Some v \<Rightarrow> Some v)"

lemma at_path_mergeInto:
  assumes "wf_json (JObject src)" "ks \<noteq> []"
  shows "at_path (mergeInto dst src) ks = overlaid (at_path src ks) (cut_off src ks) (at_path dst ks)"
  using assms
proof (induction ks arbitrary: src dst)
  case (Cons k ks)
  note look = map_of_mergeInto [of src dst k]
  have wf: "distinct (map fst src)" using Cons.prems(1) by (simp add: wf_map_def)
  show ?case
  proof (cases "map_of src k")
    case None
    then show ?thesis using look wf by (simp add: overlaid_def)
  next
    case (Some v)
    show ?thesis
    proof (cases "\<exists>m. v = JObject m")
      case False
      then show ?thesis using Some look wf by (cases v) (auto simp: merged_value_def overlaid_def)
    next
      case True
      then obtain m where v: "v = JObject m" by blast
      have wfm: "wf_json (JObject m)"
        using Cons.prems(1) map_of_SomeD [OF Some] by (force simp: list_all_iff v)
      show ?thesis
      proof (cases "ks = []")
        case True
        then show ?thesis using Some v look wf by (cases "map_of dst k") (auto simp: merged_value_def object_at_def overlaid_def)
      next
        case False
        have dst: "at_path (object_at dst k) ks = at_path dst (k # ks)"
          using False by (cases ks) (auto simp: object_at_def split: option.splits json.splits)
        have "at_path (mergeInto dst src) (k # ks) = at_path (mergeInto (object_at dst k) m) ks"
          using Some v look wf False by (simp add: merged_value_def)
        moreover have "at_path src (k # ks) = at_path m ks" "cut_off src (k # ks) = cut_off m ks"
          using Some v False by simp_all
        ultimately show ?thesis using Cons.IH [OF wfm False, of "object_at dst k"] dst by (simp only:)
      qed
    qed
  qed
qed simp

definition client_effort_paths :: "string list list" where
  "client_effort_paths = [[clientEffortField], [clientReasoningField, clientEffortKey]]"

lemma strip_client_effort_None:
  assumes "q \<in> set client_effort_paths"
  shows "at_path (strip_client_effort body) q = None"
proof -
  have names: "clientEffortField \<noteq> clientReasoningField" by (simp add: auto_names)
  have effort: "map_of (strip_client_effort body) clientEffortField = None"
    using names by (simp add: strip_client_effort_def Let_def split: json.splits)
  have "map_of (AList.delete clientEffortField body) clientReasoningField = map_of body clientReasoningField"
    using names by simp
  then have "map_of (strip_client_effort body) clientReasoningField =
    (case map_of body clientReasoningField of
       Some (JObject r) \<Rightarrow> (let r' = AList.delete clientEffortKey r in if r' = [] then None else Some (JObject r'))
     | v \<Rightarrow> v)"
    by (auto simp: strip_client_effort_def field_def Let_def names split: json.splits option.splits)
  then have "at_path (strip_client_effort body) [clientReasoningField, clientEffortKey] = None"
    by (auto simp: Let_def split: option.splits json.splits if_splits)
  with effort assms show ?thesis by (auto simp: client_effort_paths_def)
qed

text \<open>
  The reasoning effort of an \<open>auto\<close> request is the router's alone: what the rewritten body holds at either
  of the client's effort fields is the same for every body the client could have sent, and every plain
  value of the model's own fragment is in the body as published.
\<close>
theorem effort_owned_by_router:
  assumes wf: "\<And>f. effort_fragment path c = Some f \<Longrightarrow> wf_json (JObject f)" and q: "q \<in> set client_effort_paths"
  shows "at_path (ApplyEffort body path c) q = at_path (ApplyEffort [] path c) q
    \<and> (\<forall>f ks v. effort_fragment path c = Some f \<and> ks \<noteq> [] \<and> at_path f ks = Some v \<and> as_object v = None
         \<longrightarrow> at_path (ApplyEffort body path c) ks = Some v)"
proof (cases "effort_fragment path c")
  case None
  then show ?thesis using strip_client_effort_None [OF q] by (simp add: ApplyEffort_def)
next
  case (Some f)
  have "q \<noteq> []" using q by (auto simp: client_effort_paths_def)
  then have "at_path (ApplyEffort b path c) q = overlaid (at_path f q) (cut_off f q) None" for b
    using at_path_mergeInto [OF wf [OF Some]] strip_client_effort_None [OF q] Some by (simp add: ApplyEffort_def)
  moreover have "at_path (ApplyEffort body path c) ks = Some v"
    if "ks \<noteq> []" "at_path f ks = Some v" "as_object v = None" for ks v
    using that at_path_mergeInto [OF wf [OF Some] that(1)] Some
    by (cases v) (simp_all add: ApplyEffort_def overlaid_def)
  ultimately show ?thesis using Some by simp
qed

definition effort_example :: AutoCandidate where
  "effort_example =
     \<lparr>ac_Model = \<lparr>am_Name = ''a'', am_Multimodal = False, am_Scores = [(''low'', 10)],
        am_Reasoning = Some \<lparr>rs_Params = [(''/v1/chat/completions'',
            \<lparr>Enable = [(''reasoning'', JObject [(''effort'', JString ''$EFFORT'')])], Disable = None\<rparr>)], EffortMap = [(''low'', ''minimal'')]\<rparr>\<rparr>,
      ac_Effort = ''low'', ac_Score = 10, ac_Level = 100\<rparr>"

theorem effort_owned_by_router_witness:
  "at_path (ApplyEffort [(''reasoning'', JObject [(''effort'', JString ''high''), (''summary'', JBool True)]), (''reasoning_effort'', JString ''high'')]
     ''/v1/chat/completions'' effort_example) [''reasoning'', ''effort''] = Some (JString ''minimal'')"
proof -
  let ?b = "[(''reasoning'', JObject [(''effort'', JString ''high''), (''summary'', JBool True)]), (''reasoning_effort'', JString ''high'')]"
  have f: "effort_fragment ''/v1/chat/completions'' effort_example = Some [(''reasoning'', JObject [(''effort'', JString ''minimal'')])]"
    by code_simp
  have "at_path (ApplyEffort ?b ''/v1/chat/completions'' effort_example) [''reasoning'', ''effort'']
      = at_path (ApplyEffort [] ''/v1/chat/completions'' effort_example) [''reasoning'', ''effort'']"
    by (rule conjunct1 [OF effort_owned_by_router]) (simp_all add: f client_effort_paths_def auto_names wf_map_def)
  also have "\<dots> = Some (JString ''minimal'')" by code_simp
  finally show ?thesis .
qed

section \<open>Levels\<close>

lemma go_round_range: "0 \<le> x \<Longrightarrow> x \<le> of_int n \<Longrightarrow> 0 \<le> go_round x \<and> go_round x \<le> n"
  by (auto simp: go_round_def floor_le_iff le_floor_iff)

lemma fold_max_start: "m \<le> fold (\<lambda>s m. if m < s then s else m) xs (m::int)"
proof (induction xs arbitrary: m)
  case (Cons y xs)
  from Cons [of "if m < y then y else m"] show ?case by (auto split: if_splits)
qed simp

lemma fold_max_mem: "x \<in> set xs \<Longrightarrow> x \<le> fold (\<lambda>s m. if m < s then s else m) xs (m::int)"
proof (induction xs arbitrary: m)
  case (Cons y xs)
  have "y \<le> fold (\<lambda>s m. if m < s then s else m) xs (if m < y then y else m)"
    using fold_max_start [of "if m < y then y else m" xs] by (auto split: if_splits)
  with Cons show ?case by auto
qed simp

lemma max_score_bound: "m \<in> set catalog \<Longrightarrow> (e, s) \<in> set (am_Scores m) \<Longrightarrow> s \<le> max_score catalog"
  unfolding max_score_def by (rule fold_max_mem) force

lemma max_score_nonneg: "0 \<le> max_score catalog"
  unfolding max_score_def by (rule fold_max_start)

lemma normalize_range:
  assumes "0 \<le> s" "s \<le> m" "0 < m"
  shows "0 \<le> normalize s m \<and> normalize s m \<le> MaxIntelligence"
proof -
  have "of_int s * (100::rat) \<le> 100 * of_int m" using assms by simp
  then have "of_int s * of_int MaxIntelligence / of_int m \<le> (of_int MaxIntelligence :: rat)"
    using assms(3) by (simp add: MaxIntelligence_def divide_le_eq)
  moreover have "0 \<le> of_int s * of_int MaxIntelligence / (of_int m :: rat)" using assms by (simp add: MaxIntelligence_def)
  ultimately show ?thesis unfolding normalize_def by (rule go_round_range [rotated])
qed

text \<open>What every refresh leaves in the caches; a decoded score map has no key twice.\<close>

definition decoded :: "openAIModelEntry \<Rightarrow> bool" where
  "decoded e \<longleftrightarrow> wf_map (en_Intelligence e)"

definition intelligence_ok :: "(string, ModelIntelligence) gomap \<Rightarrow> bool" where
  "intelligence_ok m \<longleftrightarrow> wf_map m \<and> (\<forall>(k, v) \<in> set m. validIntelligence (mi_Scores v) \<and> wf_map (mi_Scores v))"

definition pricing_ok :: "(string, ModelPricing) gomap \<Rightarrow> bool" where
  "pricing_ok m \<longleftrightarrow> (\<forall>(k, p) \<in> set m. pricing_valid p)"

definition metadata_ok :: "metadata \<Rightarrow> bool" where
  "metadata_ok md \<longleftrightarrow>
     (case md_pricing md of None \<Rightarrow> True | Some m \<Rightarrow> pricing_ok m)
     \<and> (case md_intelligence md of None \<Rightarrow> True | Some m \<Rightarrow> intelligence_ok m)"

inductive metadata_reachable :: "metadata \<Rightarrow> bool" where
  start: "metadata_reachable \<lparr>multimodalModels = [], md_pricing = None, md_intelligence = None\<rparr>"
| refresh: "metadata_reachable md \<Longrightarrow> fetched = None \<or> list_all decoded (the fetched)
    \<Longrightarrow> metadata_reachable (refreshModelMetadata url fetched md)"

lemma metadata_entry_ok:
  assumes "metadata_entry e (mm, pr, it) = (mm', pr', it')" "decoded e"
    and "pricing_ok pr" "intelligence_ok it"
  shows "pricing_ok pr' \<and> intelligence_ok it'"
proof -
  have p: "pricing_ok (AList.update i x pr)" if "pricing_valid x" for i x
    using set_update_subset [of i x pr] assms(3) that by (auto simp: pricing_ok_def)
  have i: "intelligence_ok (AList.update i \<lparr>mi_Scores = en_Intelligence e, mi_Reasoning = r\<rparr> it)"
    if "validIntelligence (en_Intelligence e)" for i r
    using set_update_subset [of i "\<lparr>mi_Scores = en_Intelligence e, mi_Reasoning = r\<rparr>" it] assms(2,4) that
    by (auto simp: intelligence_ok_def decoded_def)
  show ?thesis using assms p i by (auto simp: metadata_entry_def Let_def split: option.splits if_splits)
qed

lemma fold_metadata_ok:
  assumes "list_all decoded es" "pricing_ok pr" "intelligence_ok it"
    and "fold metadata_entry es (mm, pr, it) = (mm', pr', it')"
  shows "pricing_ok pr' \<and> intelligence_ok it'"
  using assms
proof (induction es arbitrary: mm pr it)
  case (Cons e es)
  obtain mm1 pr1 it1 where e: "metadata_entry e (mm, pr, it) = (mm1, pr1, it1)" by (metis prod_cases3)
  have "pricing_ok pr1 \<and> intelligence_ok it1" using metadata_entry_ok [OF e] Cons.prems by simp
  then show ?case using Cons.IH [of pr1 it1 mm1] Cons.prems e by simp
qed simp

lemma metadata_reachable_ok: "metadata_reachable md \<Longrightarrow> metadata_ok md"
proof (induction rule: metadata_reachable.induct)
  case (refresh md fetched url)
  show ?case
  proof (cases "url = [] \<or> fetched = None")
    case True
    then show ?thesis using refresh.IH by (auto simp: refreshModelMetadata_def)
  next
    case False
    then obtain es where es: "fetched = Some es" "list_all decoded es" using refresh.hyps by auto
    obtain mm pr it where f: "fold metadata_entry es (multimodalModels md, [], []) = (mm, pr, it)" by (metis prod_cases3)
    with fold_metadata_ok [OF es(2) _ _ f] False es(1) show ?thesis
      by (simp add: refreshModelMetadata_def metadata_ok_def intelligence_ok_def pricing_ok_def)
  qed
qed (simp add: metadata_ok_def)

lemma AutoRouteCatalog_mem:
  "m \<in> set (AutoRouteCatalog md) \<Longrightarrow> \<exists>im entry. md_intelligence md = Some im \<and> (am_Name m, entry) \<in> set im \<and> am_Scores m = mi_Scores entry"
  by (cases "md_intelligence md") (auto simp: AutoRouteCatalog_def)

text \<open>
  Whatever the control plane publishes, the catalog the router ranks over is well formed, so the ranking is
  deterministic, and every ranked candidate has a score between 0 and 100 and a level between 0 and 100,
  the range of the requested level.
\<close>
theorem auto_levels_in_range:
  assumes "metadata_reachable md" "iterates iter" "c \<in> set (Rank iter (AutoRouteCatalog md) target req)"
  shows "wf_catalog (AutoRouteCatalog md) \<and> 0 \<le> ac_Score c \<and> ac_Score c \<le> maxIntelligenceScore
    \<and> MinIntelligence \<le> ac_Level c \<and> ac_Level c \<le> MaxIntelligence"
proof -
  let ?cat = "AutoRouteCatalog md"
  have ok: "metadata_ok md" using metadata_reachable_ok assms(1) .
  have wf: "wf_catalog ?cat"
  proof (cases "md_intelligence md")
    case (Some im)
    have "distinct (map am_Name ?cat)"
    proof -
      have "mset (map am_Name ?cat) = mset (map fst im)"
        by (simp add: AutoRouteCatalog_def Some multiset.map_comp comp_def case_prod_beta)
      moreover have "distinct (map fst im)" using ok Some by (simp add: metadata_ok_def intelligence_ok_def wf_map_def)
      ultimately show ?thesis by (metis mset_eq_imp_distinct_iff)
    qed
    moreover have "wf_map (am_Scores m)" if "m \<in> set ?cat" for m
      using AutoRouteCatalog_mem [OF that] ok by (auto simp: metadata_ok_def intelligence_ok_def)
    ultimately show ?thesis by (simp add: wf_catalog_def list_all_iff)
  qed (simp add: AutoRouteCatalog_def wf_catalog_def)
  have pos: "max_score ?cat \<noteq> 0" and c: "c \<in> set (expand iter ?cat req)"
    using assms(3) by (auto simp: Rank_def split: if_splits)
  then have mem: "ac_Model c \<in> set ?cat" "(ac_Effort c, ac_Score c) \<in> set (am_Scores (ac_Model c))"
    and level: "ac_Level c = normalize (ac_Score c) (max_score ?cat)"
    using in_expand [OF assms(2)] by auto
  have score: "0 \<le> ac_Score c \<and> ac_Score c \<le> maxIntelligenceScore"
    using AutoRouteCatalog_mem [OF mem(1)] mem(2) ok
    by (force simp: metadata_ok_def intelligence_ok_def validIntelligence_def list_all_iff)
  with normalize_range [of "ac_Score c" "max_score ?cat"] max_score_bound [OF mem] max_score_nonneg [of ?cat] pos level wf
  show ?thesis by (simp add: MinIntelligence_def)
qed

definition entry_example :: openAIModelEntry where
  "entry_example = \<lparr>en_ID = ''a'', en_Multimodal = True, en_Type = ''chat'', en_Pricing = None, en_Intelligence = [(''low'', 30), (''high'', 60)],
     en_ReasoningParams = None\<rparr>"

definition metadata_example :: metadata where
  "metadata_example = refreshModelMetadata ''u'' (Some [entry_example]) \<lparr>multimodalModels = [], md_pricing = None, md_intelligence = None\<rparr>"

theorem auto_levels_in_range_witness:
  "wf_catalog (AutoRouteCatalog metadata_example)
   \<and> map ac_Level (Rank am_Scores (AutoRouteCatalog metadata_example) 100 True) = [100, 50]"
proof
  show "map ac_Level (Rank am_Scores (AutoRouteCatalog metadata_example) 100 True) = [100, 50]" by code_simp
  have r: "metadata_reachable metadata_example"
    unfolding metadata_example_def by (intro metadata_reachable.intros) (simp add: decoded_def entry_example_def wf_map_def)
  let ?c = "hd (Rank am_Scores (AutoRouteCatalog metadata_example) 100 True)"
  have "Rank am_Scores (AutoRouteCatalog metadata_example) 100 True \<noteq> []" by code_simp
  then have "?c \<in> set (Rank am_Scores (AutoRouteCatalog metadata_example) 100 True)" by simp
  from auto_levels_in_range [OF r _ this] show "wf_catalog (AutoRouteCatalog metadata_example)" by (simp add: iterates_def)
qed

end
