(* ===== verification/Billing.thy ===== *)
theory Billing
  imports Json_Value
begin

text \<open>
  Billing (\<open>billing/events.go\<close>, \<open>billing/usage_context.go\<close>, \<open>billing/unknown_model.go\<close>): the events of
  the router and the meters reported for them, the count of customer requests a signed usage context
  may suppress, and the bounded reporter of unknown model names. The usage-reporting client, its
  header verification and its key hash are parameters.
\<close>

section \<open>Events\<close>

record Event =
  ev_Timestamp :: time
  ev_UserID :: string
  ev_Model :: string
  ev_PromptTokens :: int
  ev_CachedPromptTokens :: int
  ev_CompletionTokens :: int
  ev_TotalTokens :: int
  ev_RequestID :: string
  ev_Enclave :: string
  ev_RequestPath :: string
  ev_Streaming :: bool
  ev_APIKey :: string
  ev_CustomerRequests :: int

definition maskAPIKey :: "string \<Rightarrow> string" where
  "maskAPIKey apiKey =
     (if length apiKey \<le> 10 then ''***''
      else take 3 apiKey @ replicate (length apiKey - 7) (CHR ''*'') @ drop (length apiKey - 4) apiKey)"

datatype meter = MeterInputTokens int | MeterOutputTokens int | MeterCachedInputTokens int

definition reported_input :: "Event \<Rightarrow> int" where
  "reported_input e =
     (if ev_PromptTokens e = 0 \<and> ev_CompletionTokens e = 0 \<and> 0 < ev_TotalTokens e then ev_TotalTokens e
      else ev_PromptTokens e)"

definition meters :: "Event \<Rightarrow> meter list" where
  "meters e =
     (let inputTokens = reported_input e;
          outputTokens = ev_CompletionTokens e;
          cachedInputTokens = (if inputTokens < ev_CachedPromptTokens e then inputTokens else ev_CachedPromptTokens e)
      in [MeterInputTokens inputTokens, MeterOutputTokens outputTokens]
           @ (if 0 < cachedInputTokens then [MeterCachedInputTokens cachedInputTokens] else []))"

text \<open>An event as the usage reporter takes it.\<close>

record usage_report =
  ur_RequestID :: string
  ur_OccurredAt :: time
  ur_APIKey :: string
  ur_CustomerRequests :: int
  ur_Meters :: "meter list"
  ur_Attributes :: "(string, string) gomap"

definition report_of :: "Event \<Rightarrow> usage_report" where
  "report_of e =
     \<lparr>ur_RequestID = ev_RequestID e, ur_OccurredAt = ev_Timestamp e, ur_APIKey = ev_APIKey e,
      ur_CustomerRequests = ev_CustomerRequests e, ur_Meters = meters e,
      ur_Attributes = [(''model'', ev_Model e), (''route'', ev_RequestPath e),
                       (''streaming'', if ev_Streaming e then ''true'' else ''false''), (''enclave'', ev_Enclave e)]\<rparr>"

text \<open>
  \<open>AddEvent\<close>: what the reporter is handed and the event that is logged, with its key masked.
  \<open>marshal_ok\<close> says whether \<open>json.Marshal\<close> accepts the masked event; \<open>reporting\<close> whether the collector
  has a reporter.
\<close>

definition AddEvent :: "(Event \<Rightarrow> bool) \<Rightarrow> bool \<Rightarrow> Event \<Rightarrow> usage_report list \<times> Event list" where
  "AddEvent marshal_ok reporting e =
     (let safeEvent = e\<lparr>ev_APIKey := maskAPIKey (ev_APIKey e)\<rparr>
      in if \<not> marshal_ok safeEvent then ([], [])
         else (if reporting then [report_of e] else [], [safeEvent]))"

section \<open>Customer requests\<close>

definition harnessService :: string where "harnessService = ''harness''"
definition harnessCallDepth :: int where "harnessCallDepth = 1"
definition usageContextMaxSkew :: duration where "usageContextMaxSkew = 10 * minute"

record usage_context =
  uc_ParentService :: string
  uc_Depth :: int
  uc_APIKeyHash :: string
  uc_BillCustomerRequest :: bool

datatype context_error = BadContext | WrongService string | WrongDepth int | NoKey | OtherKey

text \<open>
  \<open>fromHeaders\<close> is \<open>usagereporting.FromHeaders\<close> at the current time: \<open>None\<close> when the request carries
  no usage context, otherwise the verified context or an error.
\<close>

definition CustomerRequestCount ::
  "(header \<Rightarrow> string \<Rightarrow> duration \<Rightarrow> (unit + usage_context) option) \<Rightarrow> (string \<Rightarrow> string \<Rightarrow> bool)
     \<Rightarrow> header \<Rightarrow> string \<Rightarrow> string \<Rightarrow> context_error + int" where
  "CustomerRequestCount fromHeaders verifyHash h apiKey secret =
     (case fromHeaders h secret usageContextMaxSkew of
        None \<Rightarrow> Inr 1
      | Some (Inl _) \<Rightarrow> Inl BadContext
      | Some (Inr u) \<Rightarrow>
          (if uc_ParentService u \<noteq> harnessService then Inl (WrongService (uc_ParentService u))
           else if uc_Depth u \<noteq> harnessCallDepth then Inl (WrongDepth (uc_Depth u))
           else if uc_APIKeyHash u = [] then Inl NoKey
           else if \<not> verifyHash apiKey (uc_APIKeyHash u) then Inl OtherKey
           else Inr (if uc_BillCustomerRequest u then 1 else 0)))"

text \<open>The count attached to a request context, one by default.\<close>

definition CustomerRequests :: "int option \<Rightarrow> int" where
  "CustomerRequests n = (case n of Some k \<Rightarrow> k | None \<Rightarrow> 1)"

section \<open>Unknown models\<close>

definition unknownModelMaxInflight :: nat where "unknownModelMaxInflight = 16"
definition UnknownModelPath :: string where "UnknownModelPath = ''/api/internal/unknown-model-requests''"

record UnknownModelReport =
  um_APIKey :: string
  um_Model :: string

text \<open>The reports in flight are the tokens of the channel; a finished \<open>send\<close> takes one out.\<close>

record UnknownModelReporter =
  um_endpoint :: string
  um_inflight :: "UnknownModelReport list"

definition TrimRight_char :: "char \<Rightarrow> string \<Rightarrow> string" where
  "TrimRight_char c s = rev (dropWhile (\<lambda>x. x = c) (rev s))"

definition NewUnknownModelReporter :: "string \<Rightarrow> string \<Rightarrow> UnknownModelReporter option" where
  "NewUnknownModelReporter controlPlaneURL secret =
     (if controlPlaneURL = [] \<or> secret = [] then None
      else Some \<lparr>um_endpoint = TrimRight_char (CHR ''/'') controlPlaneURL @ UnknownModelPath, um_inflight = []\<rparr>)"

definition Report :: "string \<Rightarrow> string \<Rightarrow> UnknownModelReporter option \<Rightarrow> UnknownModelReporter option" where
  "Report apiKey model r =
     (case r of
        None \<Rightarrow> None
      | Some x \<Rightarrow>
          (if apiKey = [] \<or> model = [] then Some x
           else if length (um_inflight x) < unknownModelMaxInflight
           then Some (x\<lparr>um_inflight := um_inflight x @ [\<lparr>um_APIKey = apiKey, um_Model = model\<rparr>]\<rparr>)
           else Some x))"

definition report_sent :: "UnknownModelReport \<Rightarrow> UnknownModelReporter option \<Rightarrow> UnknownModelReporter option" where
  "report_sent rep r = map_option (\<lambda>x. x\<lparr>um_inflight := remove1 rep (um_inflight x)\<rparr>) r"

inductive reporter_run :: "UnknownModelReporter option \<Rightarrow> bool" where
  start: "reporter_run (NewUnknownModelReporter url secret)"
| report: "reporter_run r \<Longrightarrow> reporter_run (Report apiKey model r)"
| sent: "reporter_run r \<Longrightarrow> reporter_run (report_sent rep r)"

section \<open>Properties\<close>

lemma maskAPIKey_length: "10 < length k \<Longrightarrow> length (maskAPIKey k) = length k"
  by (simp add: maskAPIKey_def)

text \<open>Two keys that agree on their length and on the seven visible characters mask alike.\<close>

lemma maskAPIKey_hides:
  assumes "length k = length l" and "take 3 k = take 3 l" and "drop (length k - 4) k = drop (length l - 4) l"
  shows "maskAPIKey k = maskAPIKey l"
  using assms by (simp add: maskAPIKey_def)

lemma reporter_bounded: "reporter_run (Some r) \<Longrightarrow> length (um_inflight r) \<le> unknownModelMaxInflight"
proof -
  have "reporter_run x \<Longrightarrow> (case x of None \<Rightarrow> True | Some r \<Rightarrow>
      length (um_inflight r) \<le> unknownModelMaxInflight \<and> (\<forall>rep \<in> set (um_inflight r). um_APIKey rep \<noteq> [] \<and> um_Model rep \<noteq> []))" for x
  proof (induction rule: reporter_run.induct)
    case (start url secret)
    then show ?case by (simp add: NewUnknownModelReporter_def)
  next
    case (report r apiKey model)
    then show ?case by (auto simp: Report_def split: option.splits)
  next
    case (sent r rep)
    then show ?case
      by (auto simp: report_sent_def length_remove1 split: option.splits dest: notin_set_remove1 set_remove1_subset [THEN subsetD])
  qed
  from this [of "Some r"] show "reporter_run (Some r) \<Longrightarrow> length (um_inflight r) \<le> unknownModelMaxInflight" by simp
qed

text \<open>
  A request counts as a customer request unless a usage context that verifies names the harness as
  its parent, at depth one, for the very key of the request, and asks for suppression; a context that is
  present and not acceptable is refused instead of being ignored. So a count of zero is evidence of such
  a context, and a request without context always counts once.
\<close>
theorem suppression_needs_harness_context:
  assumes "CustomerRequestCount fromHeaders verifyHash h apiKey secret = Inr n"
  shows "n = (if \<exists>u. fromHeaders h secret usageContextMaxSkew = Some (Inr u) \<and> uc_ParentService u = harnessService
                    \<and> uc_Depth u = 1 \<and> uc_APIKeyHash u \<noteq> [] \<and> verifyHash apiKey (uc_APIKeyHash u)
                    \<and> \<not> uc_BillCustomerRequest u
              then 0 else 1)"
  using assms
  by (auto simp: CustomerRequestCount_def harnessCallDepth_def split: option.splits sum.splits if_splits)

definition context_example :: "header \<Rightarrow> string \<Rightarrow> duration \<Rightarrow> (unit + usage_context) option" where
  "context_example h secret skew =
     (if secret = ''s'' then Some (Inr \<lparr>uc_ParentService = ''harness'', uc_Depth = 1, uc_APIKeyHash = ''k'',
                                        uc_BillCustomerRequest = False\<rparr>)
      else None)"

theorem suppression_needs_harness_context_witness:
  "\<exists>u. context_example [] ''s'' usageContextMaxSkew = Some (Inr u) \<and> uc_ParentService u = harnessService
     \<and> uc_Depth u = 1 \<and> uc_APIKeyHash u \<noteq> [] \<and> ''k'' = uc_APIKeyHash u \<and> \<not> uc_BillCustomerRequest u"
proof -
  have c: "CustomerRequestCount context_example (=) [] ''k'' ''s'' = Inr 0" by code_simp
  from suppression_needs_harness_context [OF c] show ?thesis by (auto split: if_splits)
qed

end
