(* ===== verification/Proxy_Response.thy ===== *)
theory Proxy_Response
  imports Billing Request_Cost Api_Errors Circuit_Breaker Cache_Salt
begin

text \<open>
  The reverse proxy of one enclave (\<open>manager/proxy.go\<close>, \<open>manager/usage_writer.go\<close>, \<open>manager/retry.go\<close>
  and \<open>Enclave.ServeHTTP\<close>): the classification of transport errors, the handlers \<open>ErrorHandler\<close> and
  \<open>ModifyResponse\<close> with everything they record and bill, the wrapped response bodies and what closing
  them does, and the replay of a failed request on another replica. \<open>httputil.ReverseProxy\<close> itself is
  the composition \<open>proxy_serve\<close>: the transport's result goes to one of the two handlers, and a response
  that is not refused is copied to the client and closed once.
\<close>

section \<open>Transport errors\<close>

text \<open>A Go error with the errors it wraps or joins; \<open>errors.Is\<close> and \<open>errors.As\<close> search it in preorder.\<close>

datatype err_kind =
    errRetryReplica | MaxBytesError | DeadlineExceeded | Canceled | errAttestationExpired
  | AttestationError | ConfigurationError | OpError | ECONNREFUSED | ECONNRESET | DNSError | OtherError

datatype go_err = GoErr (kind_of: err_kind) (wrapped: "go_err list")

fun err_is :: "err_kind \<Rightarrow> go_err \<Rightarrow> bool" where
  "err_is k (GoErr k' es) = (k = k' \<or> list_ex (err_is k) es)"

text \<open>The errors below the first \<open>OpError\<close>.\<close>

fun as_op_error :: "go_err \<Rightarrow> go_err list option" and as_op_errors :: "go_err list \<Rightarrow> go_err list option" where
  "as_op_error (GoErr k es) = (if k = OpError then Some es else as_op_errors es)"
| "as_op_errors [] = None"
| "as_op_errors (e # es) = (case as_op_error e of Some xs \<Rightarrow> Some xs | None \<Rightarrow> as_op_errors es)"

definition op_error_is :: "err_kind \<Rightarrow> go_err \<Rightarrow> bool" where
  "op_error_is k e = (case as_op_error e of None \<Rightarrow> False | Some es \<Rightarrow> list_ex (err_is k) es)"

definition classifyProxyError :: "go_err \<Rightarrow> string" where
  "classifyProxyError e =
     (if err_is DeadlineExceeded e then ''timeout''
      else if err_is Canceled e then ''canceled''
      else if err_is errAttestationExpired e then ''attestation_expired''
      else if err_is AttestationError e then ''tls_mismatch''
      else if err_is ConfigurationError e then ''tls_error''
      else if op_error_is ECONNREFUSED e then ''connection_refused''
      else if op_error_is ECONNRESET e then ''connection_reset''
      else if err_is DNSError e then ''dns_error''
      else ''transport_error'')"

definition httpFailureReason :: "int \<Rightarrow> string" where
  "httpFailureReason statusCode = ''http_'' @ show_int statusCode"

section \<open>Constants and headers\<close>

definition responseHeaderTimeout :: duration where "responseHeaderTimeout = 60 * second"
definition UsageMetricsRequestHeader :: string where "UsageMetricsRequestHeader = ''X-Tinfoil-Request-Usage-Metrics''"
definition UsageMetricsResponseHeader :: string where "UsageMetricsResponseHeader = ''X-Tinfoil-Usage-Metrics''"
definition maxUsageMetricsBodyBytes :: int where "maxUsageMetricsBodyBytes = 10 * 2 ^ 20"
definition websearchModel :: string where "websearchModel = ''websearch''"
definition privacyFilterModel :: string where "privacyFilterModel = ''pii-filter''"
definition billableRequestsHeader :: string where "billableRequestsHeader = ''X-Tinfoil-Billable-Requests''"
definition MaxUpstreamErrorBodyBytes :: int where "MaxUpstreamErrorBodyBytes = 64 * 2 ^ 10"

definition header_set :: "string \<Rightarrow> string \<Rightarrow> header \<Rightarrow> header" where
  "header_set name v h = AList.update name [v] h"

lemma header_get_set [simp]: "header_get (header_set n v h) m = (if m = n then v else header_get h m)"
  by (simp add: header_set_def header_get_def header_values_def)

text \<open>\<open>textproto.CanonicalMIMEHeaderKey\<close>: a name with a byte that is not allowed in one stays as it is.\<close>

definition header_byte :: "char \<Rightarrow> bool" where
  "header_byte c \<longleftrightarrow>
     (let n = (of_char c :: nat)
      in (48 \<le> n \<and> n \<le> 57) \<or> (65 \<le> n \<and> n \<le> 90) \<or> (97 \<le> n \<and> n \<le> 122)
         \<or> c \<in> set ''!#$%&*+-.^_|~'' \<or> n = 39 \<or> n = 96)"

fun canonical_from :: "bool \<Rightarrow> string \<Rightarrow> string" where
  "canonical_from up [] = []"
| "canonical_from up (c # cs) =
     (let n = (of_char c :: nat);
          c' = (if up \<and> 97 \<le> n \<and> n \<le> 122 then char_of (n - 32)
                else if \<not> up \<and> 65 \<le> n \<and> n \<le> 90 then char_of (n + 32) else c)
      in c' # canonical_from (c' = CHR ''-'') cs)"

definition CanonicalMIMEHeaderKey :: "string \<Rightarrow> string" where
  "CanonicalMIMEHeaderKey s = (if list_all header_byte s then canonical_from True s else s)"

text \<open>\<open>add_seen\<close> is the body of the loop over the names already announced.\<close>

definition add_seen :: "string list \<Rightarrow> string \<Rightarrow> string list" where
  "add_seen trailers part =
     (let trailer = CanonicalMIMEHeaderKey (TrimSpace part)
      in if trailer = [] \<or> trailer \<in> set trailers then trailers else trailers @ [trailer])"

definition addTrailerHeader :: "header \<Rightarrow> string \<Rightarrow> header" where
  "addTrailerHeader h name =
     (let canonical = CanonicalMIMEHeaderKey name
      in if canonical = [] then h
         else (let trailers = foldl add_seen [] (concat (map (split_on (CHR '','')) (header_values h ''Trailer'')));
                   all = (if canonical \<in> set trailers then trailers else trailers @ [canonical])
               in if all = [] then h else header_set ''Trailer'' (join_with '', '' all) h))"

section \<open>The usage writer\<close>

record usageMetricsWriter =
  uw_usage :: "Usage option"
  uw_model :: string
  uw_pricing :: "ModelPricing option"
  uw_trailerEnabled :: bool

definition SetUsage :: "Usage \<Rightarrow> usageMetricsWriter \<Rightarrow> usageMetricsWriter" where
  "SetUsage u w = w\<lparr>uw_usage := Some u\<rparr>"

definition EnableTrailer :: "usageMetricsWriter \<Rightarrow> usageMetricsWriter" where
  "EnableTrailer w = w\<lparr>uw_trailerEnabled := True\<rparr>"

text \<open>The trailer value: absent, or the formatted usage, or a panic of the formatter.\<close>

definition writer_FormatUsage :: "usageMetricsWriter \<Rightarrow> string option" where
  "writer_FormatUsage w = (case uw_usage w of None \<Rightarrow> Some [] | Some u \<Rightarrow> FormatUsage u (uw_model w) (uw_pricing w) None)"

definition WriteTrailer :: "usageMetricsWriter \<Rightarrow> header \<Rightarrow> header option" where
  "WriteTrailer w h =
     (if \<not> uw_trailerEnabled w then Some h
      else case writer_FormatUsage w of
             None \<Rightarrow> None
           | Some f \<Rightarrow> Some (if f = [] then h else header_set UsageMetricsResponseHeader f h))"

section \<open>Requests, responses and the state of an exchange\<close>

text \<open>
  The parameters of the theory: the JSON decoders for stream chunks, usage values, whole responses
  and error bodies, and the encoder of the error envelope.
\<close>

record codecs =
  chunk_of :: "string \<Rightarrow> json_object option"
  usage_of :: "json \<Rightarrow> Usage option"
  body_usage :: "string \<Rightarrow> Usage option"
  unmarshal :: "string \<Rightarrow> json_object option"
  marshal :: "json_object \<Rightarrow> string"

text \<open>
  Bodies: bytes still to come from the backend, which then end or fail; bytes in memory; a prefix
  before the rest; the streaming and the accumulating extractor; and the body that bills on close.
\<close>

datatype resp_body =
    UpstreamBody string bool
  | BytesBody string
  | PrefixedBody string resp_body
  | StreamBody bool string bool
  | TeeBody string bool
  | BillingBody resp_body

record response =
  rs_status :: int
  rs_header :: header
  rs_body :: resp_body

text \<open>What the backend answers: the bytes it sends and the error that cuts them off, if any.\<close>

record upstream =
  up_status :: int
  up_header :: header
  up_bytes :: string
  up_error :: "go_err option"

record tokenLabels =
  tl_pool :: string
  tl_priority :: string

text \<open>What the proxy of an enclave is built for, and the request with the values of its context.\<close>

record proxy_conf =
  px_host :: string
  px_model :: string
  px_billing :: bool
  px_cb :: nat

record proxy_request =
  rq_header :: header
  rq_path :: string
  rq_customerRequests :: "int option"
  rq_labels :: "tokenLabels option"
  rq_claim :: "(nat \<times> ProbeClaim) option"
  rq_owner :: "nat option"
  rq_now :: time

datatype proxy_metric =
    ProxyFailureTotal string
  | ProxySuccessTotal
  | ClientCancellationsTotal
  | SlowHeadersTotal
  | CircuitBreakerGauge nat cbState
  | RequestTokens bool string string int int int

text \<open>
  The state an exchange changes: the breakers by identity, the metrics and billing events in order,
  the usage writer of the request context, and whether the usage handler has run.
\<close>

record proxy_state =
  ps_breakers :: "nat \<Rightarrow> circuitBreaker"
  ps_metrics :: "proxy_metric list"
  ps_billed :: "Event list"
  ps_writer :: "usageMetricsWriter option"
  ps_handlerCalled :: bool

definition emit :: "proxy_metric \<Rightarrow> proxy_state \<Rightarrow> proxy_state" where
  "emit m st = st\<lparr>ps_metrics := ps_metrics st @ [m]\<rparr>"

definition publishBreakerState :: "nat \<Rightarrow> proxy_state \<Rightarrow> proxy_state" where
  "publishBreakerState cb st =
     (case publishIfActive (ps_breakers st cb) of None \<Rightarrow> st | Some s \<Rightarrow> emit (CircuitBreakerGauge cb s) st)"

definition recordFailure :: "time \<Rightarrow> nat \<Rightarrow> string \<Rightarrow> proxy_state \<Rightarrow> proxy_state" where
  "recordFailure now cb reason st =
     (let st1 = emit (ProxyFailureTotal reason) st;
          st2 = st1\<lparr>ps_breakers := (ps_breakers st1)(cb := RecordFailure now (ps_breakers st1 cb))\<rparr>
      in publishBreakerState cb st2)"

definition recordSuccess :: "nat \<Rightarrow> proxy_state \<Rightarrow> proxy_state" where
  "recordSuccess cb st =
     (let st1 = st\<lparr>ps_breakers := (ps_breakers st)(cb := RecordSuccess (ps_breakers st cb))\<rparr>
      in publishBreakerState cb (emit ProxySuccessTotal st1))"

text \<open>\<open>ProbeClaim.Abort\<close> on the breaker the claim holds.\<close>

definition abort_claim :: "time \<Rightarrow> (nat \<times> ProbeClaim) option \<Rightarrow> proxy_state \<Rightarrow> proxy_state" where
  "abort_claim now claim st =
     (case claim of
        None \<Rightarrow> st
      | Some (cb, pc) \<Rightarrow>
          (case Abort now (Some pc) (ps_breakers st cb) of
             (aborted, b, _) \<Rightarrow>
               (let st1 = st\<lparr>ps_breakers := (ps_breakers st)(cb := b)\<rparr>
                in if aborted then publishBreakerState cb st1 else st1)))"

definition servingBreaker :: "nat option \<Rightarrow> nat \<Rightarrow> nat" where
  "servingBreaker owner fallback = (case owner of Some cb \<Rightarrow> cb | None \<Rightarrow> fallback)"

text \<open>
  \<open>slowHeaderTripper.RoundTrip\<close>: \<open>fired\<close> says that the timer of the attempt that ended the exchange ran before
  headers or an error arrived. After a rotation that attempt is the replacement's, with the replacement's breaker.
\<close>

definition slow_RoundTrip :: "time \<Rightarrow> nat \<Rightarrow> bool \<Rightarrow> go_err + upstream \<Rightarrow> proxy_state \<Rightarrow> proxy_state" where
  "slow_RoundTrip now cb fired result st =
     (let st1 = (if fired then emit SlowHeadersTotal st else st)
      in case result of
           Inl e \<Rightarrow> if fired \<and> classifyProxyError e = ''canceled'' then recordFailure now cb ''canceled_after_slow'' st1 else st1
         | Inr _ \<Rightarrow> st1)"

text \<open>The answer of the error handler; nothing is written for a request that is replayed.\<close>

definition ErrorHandler ::
  "proxy_conf \<Rightarrow> proxy_request \<Rightarrow> go_err \<Rightarrow> proxy_state \<Rightarrow> APIError option \<times> proxy_state" where
  "ErrorHandler conf rq e st =
     (if err_is errRetryReplica e then (None, st)
      else if err_is MaxBytesError e then (Some ErrBodyTooLarge, abort_claim (rq_now rq) (rq_claim rq) st)
      else
        (let reason = classifyProxyError e
         in (Some ErrUpstream,
             if reason = ''canceled''
             then abort_claim (rq_now rq) (rq_claim rq) (emit ClientCancellationsTotal st)
             else recordFailure (rq_now rq) (servingBreaker (rq_owner rq) (px_cb conf)) reason st)))"

section \<open>Billing of a response\<close>

definition request_key :: "proxy_request \<Rightarrow> string" where
  "request_key rq =
     (let auth = header_get (rq_header rq) ''Authorization'' in if auth \<noteq> [] then BearerToken auth else [])"

definition request_user :: "proxy_request \<Rightarrow> string" where
  "request_user rq = (if request_key rq \<noteq> [] then ''authenticated_user'' else [])"

text \<open>Both spellings of the request id the code tries are one canonical header name.\<close>

definition response_id :: "upstream \<Rightarrow> string" where
  "response_id up = header_get (up_header up) ''X-Request-Id''"

definition is_streaming :: "upstream \<Rightarrow> bool" where
  "is_streaming up = contains (header_get (up_header up) ''Content-Type'') ''text/event-stream''"

definition is_json :: "upstream \<Rightarrow> bool" where
  "is_json up = contains (header_get (up_header up) ''Content-Type'') ''application/json''"

definition metrics_requested :: "proxy_request \<Rightarrow> bool" where
  "metrics_requested rq \<longleftrightarrow> header_get (rq_header rq) UsageMetricsRequestHeader = ''true''"

definition usage_event :: "proxy_conf \<Rightarrow> proxy_request \<Rightarrow> upstream \<Rightarrow> Usage \<Rightarrow> Event" where
  "usage_event conf rq up u =
     \<lparr>ev_Timestamp = rq_now rq, ev_UserID = request_user rq, ev_Model = px_model conf,
      ev_PromptTokens = PromptTokens u,
      ev_CachedPromptTokens = (case CachedPromptTokens (Some u) of (n, ok) \<Rightarrow> if ok then n else 0),
      ev_CompletionTokens = CompletionTokens u, ev_TotalTokens = TotalTokens u,
      ev_RequestID = response_id up, ev_Enclave = px_host conf, ev_RequestPath = rq_path rq,
      ev_Streaming = is_streaming up, ev_APIKey = request_key rq,
      ev_CustomerRequests = CustomerRequests (rq_customerRequests rq)\<rparr>"

definition bill :: "Event \<Rightarrow> proxy_state \<Rightarrow> proxy_state" where
  "bill e st = st\<lparr>ps_billed := ps_billed st @ [e]\<rparr>"

definition emitZeroTokenEvent :: "proxy_conf \<Rightarrow> proxy_request \<Rightarrow> upstream \<Rightarrow> proxy_state \<Rightarrow> proxy_state" where
  "emitZeroTokenEvent conf rq up st =
     (if \<not> px_billing conf \<or> request_key rq = [] then st else bill (usage_event conf rq up zero_usage) st)"

definition observeTokenUsage :: "proxy_request \<Rightarrow> bool \<Rightarrow> Usage \<Rightarrow> proxy_state \<Rightarrow> proxy_state" where
  "observeTokenUsage rq streaming u st =
     (case rq_labels rq of
        None \<Rightarrow> st
      | Some l \<Rightarrow>
          emit (RequestTokens streaming (tl_pool l) (tl_priority l) (PromptTokens u) (CompletionTokens u)
                  (fst (CachedPromptTokens (Some u)))) st)"

definition usageHandler :: "proxy_conf \<Rightarrow> proxy_request \<Rightarrow> upstream \<Rightarrow> Usage \<Rightarrow> proxy_state \<Rightarrow> proxy_state" where
  "usageHandler conf rq up u st =
     (let st1 = st\<lparr>ps_handlerCalled := True\<rparr>;
          st2 = (if is_streaming up \<and> metrics_requested rq
                 then st1\<lparr>ps_writer := map_option (SetUsage u) (ps_writer st1)\<rparr> else st1);
          st3 = (if px_model conf \<noteq> websearchModel then observeTokenUsage rq (is_streaming up) u st2 else st2)
      in if \<not> px_billing conf then st3
         else if px_model conf = websearchModel then emitZeroTokenEvent conf rq up st3
         else bill (usage_event conf rq up u) st3)"

section \<open>Rewriting a response\<close>

datatype modify_result = Modified response | ModifyError go_err | ModifyPanic

definition forwarded :: "upstream \<Rightarrow> header \<Rightarrow> resp_body \<Rightarrow> response" where
  "forwarded up h b = \<lparr>rs_status = up_status up, rs_header = h, rs_body = b\<rparr>"

definition upstream_body :: "upstream \<Rightarrow> resp_body" where
  "upstream_body up = UpstreamBody (up_bytes up) (up_error up \<noteq> None)"

text \<open>\<open>io.ReadAll\<close> of a \<open>LimitReader\<close>: reaching the limit hides an error behind it.\<close>

definition read_limited :: "int \<Rightarrow> upstream \<Rightarrow> go_err + string" where
  "read_limited limit up =
     (if limit \<le> int (length (up_bytes up)) then Inr (take (nat limit) (up_bytes up))
      else case up_error up of Some e \<Rightarrow> Inl e | None \<Rightarrow> Inr (up_bytes up))"

definition withPrefixedBody :: "string \<Rightarrow> resp_body \<Rightarrow> resp_body" where
  "withPrefixedBody pre b = (if pre = [] then b else PrefixedBody pre b)"

definition normalized_error :: "codecs \<Rightarrow> upstream \<Rightarrow> APIError" where
  "normalized_error c up =
     (case read_limited (MaxUpstreamErrorBodyBytes + 1) up of
        Inl _ \<Rightarrow> WithStatus ErrUpstream (up_status up)
      | Inr body \<Rightarrow>
          if MaxUpstreamErrorBodyBytes < int (length body) then WithStatus ErrUpstream (up_status up)
          else fst (NormalizeUpstreamError (unmarshal c) (up_status up) body))"

definition normalizeUpstreamErrorResponse :: "codecs \<Rightarrow> upstream \<Rightarrow> response" where
  "normalizeUpstreamErrorResponse c up =
     (let encoded = marshal c [(''error'', JObject (ErrorBody_Map (Envelope (normalized_error c up))))];
          h1 = header_set ''Content-Type'' ''application/json'' (up_header up);
          h2 = header_set ''Content-Length'' (show_int (int (length encoded))) h1
      in forwarded up h2 (BytesBody encoded))"

text \<open>The usage header of a response; \<open>None\<close> is a panic of the formatter.\<close>

definition set_usage_header :: "proxy_conf \<Rightarrow> Usage \<Rightarrow> ModelPricing option \<Rightarrow> header \<Rightarrow> header option" where
  "set_usage_header conf u pricing h =
     map_option (\<lambda>f. header_set UsageMetricsResponseHeader f h) (FormatUsage u (px_model conf) pricing None)"

definition privacy_response ::
  "proxy_conf \<Rightarrow> proxy_request \<Rightarrow> upstream \<Rightarrow> ModelPricing option \<Rightarrow> modify_result" where
  "privacy_response conf rq up pricing =
     (if metrics_requested rq \<and> up_status up = 200 then
        (case set_usage_header conf zero_usage
                (if header_get (up_header up) billableRequestsHeader \<noteq> ''1'' then None else pricing) (up_header up) of
           None \<Rightarrow> ModifyPanic
         | Some h \<Rightarrow> Modified (forwarded up h (upstream_body up)))
      else Modified (forwarded up (up_header up) (upstream_body up)))"

text \<open>The buffered branch: usage metrics requested for a plain JSON response.\<close>

definition buffered_response ::
  "codecs \<Rightarrow> proxy_conf \<Rightarrow> proxy_request \<Rightarrow> upstream \<Rightarrow> ModelPricing option \<Rightarrow> header \<Rightarrow> proxy_state
     \<Rightarrow> modify_result \<times> proxy_state" where
  "buffered_response c conf rq up pricing h st =
     (case read_limited (maxUsageMetricsBodyBytes + 1) up of
        Inl e \<Rightarrow> (ModifyError e, st)
      | Inr body \<Rightarrow>
          if maxUsageMetricsBodyBytes < int (length body) then
            (Modified (forwarded up h
               (withPrefixedBody body (UpstreamBody (drop (length body) (up_bytes up)) (up_error up \<noteq> None)))), st)
          else
            (let restored = (\<lambda>h'. Modified (forwarded up (header_set ''Content-Length'' (show_int (int (length body))) h')
                                             (BytesBody body)))
             in case body_usage c body of
                  Some u \<Rightarrow>
                    (case set_usage_header conf (Normalize u) pricing h of
                       None \<Rightarrow> (ModifyPanic, usageHandler conf rq up (Normalize u) st)
                     | Some h' \<Rightarrow> (restored h', usageHandler conf rq up (Normalize u) st))
                | None \<Rightarrow>
                    (restored h,
                     if px_billing conf \<and> request_key rq \<noteq> [] then emitZeroTokenEvent conf rq up st else st)))"

text \<open>The remaining branch: the body is replaced by an extractor and perhaps by one that bills on close.\<close>

definition extractor_body :: "proxy_request \<Rightarrow> upstream \<Rightarrow> header \<Rightarrow> resp_body" where
  "extractor_body rq up h =
     (let clientRequestedUsage = (header_get (rq_header rq) ''X-Tinfoil-Client-Requested-Usage'' = ''true'');
          failed = (up_error up \<noteq> None)
      in case ExtractTokensFromResponseWithHandler (header_get h ''Content-Type'') (up_status up) of
           StreamExtraction \<Rightarrow> StreamBody clientRequestedUsage (up_bytes up) failed
         | PassThrough \<Rightarrow> UpstreamBody (up_bytes up) failed
         | JsonExtraction \<Rightarrow> TeeBody (up_bytes up) failed)"

definition extracted_response :: "proxy_conf \<Rightarrow> proxy_request \<Rightarrow> upstream \<Rightarrow> header \<Rightarrow> response" where
  "extracted_response conf rq up h =
     (let b = extractor_body rq up h;
          b' = (if \<not> is_streaming up \<and> px_billing conf \<and> request_key rq \<noteq> [] \<and> up_status up = 200
                then BillingBody b else b)
      in forwarded up (if is_streaming up then AList.delete ''Content-Length'' h else h) b')"

definition proxied_response ::
  "codecs \<Rightarrow> proxy_conf \<Rightarrow> proxy_request \<Rightarrow> upstream \<Rightarrow> ModelPricing option \<Rightarrow> proxy_state
     \<Rightarrow> modify_result \<times> proxy_state" where
  "proxied_response c conf rq up pricing st =
     (let trailer = (is_streaming up \<and> metrics_requested rq);
          st1 = (if trailer then st\<lparr>ps_writer := map_option EnableTrailer (ps_writer st)\<rparr> else st)\<lparr>ps_handlerCalled := False\<rparr>;
          h1 = (if trailer then addTrailerHeader (up_header up) UsageMetricsResponseHeader else up_header up);
          plain = (\<not> is_streaming up \<and> metrics_requested rq \<and> up_status up = 200);
          h2 = (case pricing of
                  Some p \<Rightarrow> if plain \<and> CostKnownWithoutUsage p then set_usage_header conf zero_usage pricing h1 else Some h1
                | None \<Rightarrow> Some h1)
      in case h2 of
           None \<Rightarrow> (ModifyPanic, st1)
         | Some h \<Rightarrow>
             if plain \<and> is_json up then buffered_response c conf rq up pricing h st1
             else (Modified (extracted_response conf rq up h), st1))"

text \<open>
  \<open>retry\<close> is the outcome of the retry function of the request context, if there is one.
\<close>

definition ModifyResponse ::
  "codecs \<Rightarrow> proxy_conf \<Rightarrow> proxy_request \<Rightarrow> bool option \<Rightarrow> upstream \<Rightarrow> proxy_state \<Rightarrow> modify_result \<times> proxy_state" where
  "ModifyResponse c conf rq retry up st =
     (let serving = servingBreaker (rq_owner rq) (px_cb conf);
          st0 = (if 500 \<le> up_status up then recordFailure (rq_now rq) serving (httpFailureReason (up_status up)) st
                 else recordSuccess serving st);
          pricing = (case ps_writer st0 of Some w \<Rightarrow> uw_pricing w | None \<Rightarrow> None)
      in if up_status up = 502 \<and> retry = Some True then (ModifyError (GoErr errRetryReplica []), st0)
         else if up_status up = 101
         then (Modified (forwarded up (up_header up) (upstream_body up)), emitZeroTokenEvent conf rq up st0)
         else if 400 \<le> up_status up \<and> \<not> is_streaming up \<and> header_get (up_header up) ''Content-Encoding'' = []
         then (Modified (normalizeUpstreamErrorResponse c up), st0)
         else if px_model conf = privacyFilterModel then (privacy_response conf rq up pricing, st0)
         else proxied_response c conf rq up pricing st0)"

section \<open>Copying and closing\<close>

text \<open>
  Copying at most \<open>n\<close> bytes of a body to the client and closing it: the bytes, whether the body ended
  without an error before the copy stopped, and the calls of the usage handler. The streaming
  extractor reads the backend to its end whatever the client takes, the accumulating one sees the
  bytes that were read.
\<close>

fun read_body :: "codecs \<Rightarrow> nat \<Rightarrow> resp_body \<Rightarrow> string \<times> bool \<times> Usage list" where
  "read_body c n (UpstreamBody s failed) = (take n s, \<not> failed, [])"
| "read_body c n (BytesBody s) = (take n s, True, [])"
| "read_body c n (PrefixedBody p b) =
     (case read_body c (n - length p) b of (s, clean, us) \<Rightarrow> (take n p @ s, clean, us))"
| "read_body c n (StreamBody requested s failed) =
     (case processStream (chunk_of c) (usage_of c) requested s failed of
        (out, u, cl) \<Rightarrow> (take n out, cl = CloseClean, case u of None \<Rightarrow> [] | Some x \<Rightarrow> [x]))"
| "read_body c n (TeeBody s failed) =
     (take n s, \<not> failed, case snd (tee_read_close (body_usage c) [take n s]) of None \<Rightarrow> [] | Some u \<Rightarrow> [u])"
| "read_body c n (BillingBody b) = read_body c n b"

fun close_body :: "codecs \<Rightarrow> proxy_conf \<Rightarrow> proxy_request \<Rightarrow> upstream \<Rightarrow> nat \<Rightarrow> resp_body \<Rightarrow> proxy_state \<Rightarrow> proxy_state" where
  "close_body c conf rq up n (BillingBody b) st =
     (let st1 = close_body c conf rq up n b st
      in if ps_handlerCalled st1 then st1 else emitZeroTokenEvent conf rq up st1)"
| "close_body c conf rq up n b st = fold (usageHandler conf rq up) (snd (snd (read_body c n b))) st"

text \<open>What the client receives: nothing, an error of the router, or a response.\<close>

datatype client_answer =
    NoAnswer
  | ErrorAnswer APIError
  | Forwarded int header string bool
  | AbortedAnswer

definition answer_error :: "APIError option \<Rightarrow> client_answer" where
  "answer_error e = (case e of None \<Rightarrow> NoAnswer | Some x \<Rightarrow> ErrorAnswer x)"

definition proxy_serve ::
  "codecs \<Rightarrow> proxy_conf \<Rightarrow> proxy_request \<Rightarrow> bool option \<Rightarrow> bool \<Rightarrow> go_err + upstream \<Rightarrow> nat \<Rightarrow> proxy_state
     \<Rightarrow> client_answer \<times> proxy_state" where
  "proxy_serve c conf rq retry fired result n st =
     (let st0 = slow_RoundTrip (rq_now rq) (servingBreaker (rq_owner rq) (px_cb conf)) fired result st
      in case result of
           Inl e \<Rightarrow> (case ErrorHandler conf rq e st0 of (a, st1) \<Rightarrow> (answer_error a, st1))
         | Inr up \<Rightarrow>
             (case ModifyResponse c conf rq retry up st0 of
                (ModifyPanic, st1) \<Rightarrow> (AbortedAnswer, st1)
              | (ModifyError e, st1) \<Rightarrow> (case ErrorHandler conf rq e st1 of (a, st2) \<Rightarrow> (answer_error a, st2))
              | (Modified rs, st1) \<Rightarrow>
                  (case read_body c n (rs_body rs) of
                     (bytes, clean, _) \<Rightarrow>
                       (Forwarded (rs_status rs) (rs_header rs) bytes clean,
                        close_body c conf rq up n (rs_body rs) st1))))"

text \<open>
  \<open>Enclave.ServeHTTP\<close>: with usage metrics requested the writer is installed around the exchange and
  its trailer is set after it. The first component is the header set on the outer writer.
\<close>

definition new_writer :: "string \<Rightarrow> ModelPricing option \<Rightarrow> usageMetricsWriter" where
  "new_writer model pricing =
     \<lparr>uw_usage = (case pricing of Some p \<Rightarrow> if CostKnownWithoutUsage p then Some zero_usage else None | None \<Rightarrow> None),
      uw_model = model, uw_pricing = pricing, uw_trailerEnabled = False\<rparr>"

definition Enclave_ServeHTTP ::
  "codecs \<Rightarrow> proxy_conf \<Rightarrow> (string \<Rightarrow> ModelPricing option) \<Rightarrow> proxy_request \<Rightarrow> bool option \<Rightarrow> bool
     \<Rightarrow> go_err + upstream \<Rightarrow> nat \<Rightarrow> header \<Rightarrow> proxy_state \<Rightarrow> header option \<times> client_answer \<times> proxy_state" where
  "Enclave_ServeHTTP c conf pricing rq retry fired result n w st =
     (let w1 = header_set ''Tinfoil-Enclave'' (px_host conf) w
      in if \<not> metrics_requested rq
         then (case proxy_serve c conf rq retry fired result n (st\<lparr>ps_writer := None\<rparr>) of (a, st1) \<Rightarrow> (Some w1, a, st1))
         else
           (case proxy_serve c conf rq retry fired result n
                   (st\<lparr>ps_writer := Some (new_writer (px_model conf) (pricing (px_model conf)))\<rparr>) of
              (a, st1) \<Rightarrow>
                ((case ps_writer st1 of None \<Rightarrow> Some w1 | Some u \<Rightarrow> WriteTrailer u w1), a, st1)))"

section \<open>Replay on another replica\<close>

text \<open>
  The request as \<open>ServeHTTPWithFailover\<close> sees it, and the environment of the closure \<open>prepare\<close>: whether an
  interim response was seen, the request context was done, the body can be had again, and the enclave
  that \<open>next\<close> reserves.
\<close>

record replay_env =
  re_method :: string
  re_hasGetBody :: bool
  re_interim :: bool
  re_contextDone :: bool
  re_bodyAgain :: bool
  re_next :: "proxy_conf option"

definition replay_eligible :: "replay_env \<Rightarrow> proxy_request \<Rightarrow> bool" where
  "replay_eligible env rq \<longleftrightarrow>
     rq_path rq \<in> {''/v1/chat/completions'', ''/v1/completions'', ''/v1/responses''}
     \<and> re_method env = ''POST'' \<and> re_hasGetBody env"

text \<open>The alternate \<open>prepare\<close> leaves behind; it returns true exactly when there is one.\<close>

definition prepare :: "replay_env \<Rightarrow> proxy_conf option" where
  "prepare env =
     (if re_interim env \<or> re_contextDone env then None
      else if \<not> re_bodyAgain env then None
      else re_next env)"

record served =
  sv_answers :: "client_answer list"
  sv_header :: "header option"
  sv_released :: "proxy_conf list"
  sv_state :: proxy_state

definition backend_502 :: "go_err + upstream \<Rightarrow> bool" where
  "backend_502 result = (case result of Inl _ \<Rightarrow> False | Inr up \<Rightarrow> up_status up = 502)"

text \<open>
  \<open>attempt conf\<close> is what the transport does at that enclave: the breaker that owns the attempt after a
  recovery, whether the header timer fired, and the result. The replay carries no probe claim and is
  served without a retry function; the reservation of the alternate is released after it.
\<close>

definition ServeHTTPWithFailover ::
  "codecs \<Rightarrow> (string \<Rightarrow> ModelPricing option) \<Rightarrow> (proxy_conf \<Rightarrow> nat option \<times> bool \<times> (go_err + upstream)) \<Rightarrow> proxy_conf
     \<Rightarrow> replay_env \<Rightarrow> proxy_request \<Rightarrow> nat \<Rightarrow> header \<Rightarrow> proxy_state \<Rightarrow> served" where
  "ServeHTTPWithFailover c pricing attempt conf env rq n w st =
     (case attempt conf of
        (owner, fired, result) \<Rightarrow>
          (let eligible = replay_eligible env rq;
               retry = (if eligible then Some (prepare env \<noteq> None) else None);
               (h, a, st1) = Enclave_ServeHTTP c conf pricing (rq\<lparr>rq_owner := owner\<rparr>) retry fired result n w st
           in case (if eligible \<and> backend_502 result then prepare env else None) of
                None \<Rightarrow> \<lparr>sv_answers = [a], sv_header = h, sv_released = [], sv_state = st1\<rparr>
              | Some alternate \<Rightarrow>
                  (case attempt alternate of
                     (owner', fired', result') \<Rightarrow>
                       (case Enclave_ServeHTTP c alternate pricing (rq\<lparr>rq_claim := None, rq_owner := owner'\<rparr>) None fired' result' n
                               (case h of Some x \<Rightarrow> x | None \<Rightarrow> w) st1 of
                          (h', a', st2) \<Rightarrow>
                            \<lparr>sv_answers = [a, a'], sv_header = h', sv_released = [alternate], sv_state = st2\<rparr>))))"

section \<open>What the handlers leave alone\<close>

lemma emit_simps [simp]:
  "ps_billed (emit m st) = ps_billed st" "ps_breakers (emit m st) = ps_breakers st"
  "ps_writer (emit m st) = ps_writer st" "ps_handlerCalled (emit m st) = ps_handlerCalled st"
  by (simp_all add: emit_def)

lemma publishBreakerState_simps [simp]:
  "ps_billed (publishBreakerState cb st) = ps_billed st" "ps_breakers (publishBreakerState cb st) = ps_breakers st"
  "ps_writer (publishBreakerState cb st) = ps_writer st" "ps_handlerCalled (publishBreakerState cb st) = ps_handlerCalled st"
  by (simp_all add: publishBreakerState_def split: option.splits)

lemma recordFailure_simps [simp]:
  "ps_billed (recordFailure now cb r st) = ps_billed st"
  "ps_breakers (recordFailure now cb r st) = (ps_breakers st)(cb := RecordFailure now (ps_breakers st cb))"
  "ps_writer (recordFailure now cb r st) = ps_writer st"
  by (simp_all add: recordFailure_def Let_def)

lemma recordSuccess_simps [simp]:
  "ps_billed (recordSuccess cb st) = ps_billed st"
  "ps_breakers (recordSuccess cb st) = (ps_breakers st)(cb := RecordSuccess (ps_breakers st cb))"
  "ps_writer (recordSuccess cb st) = ps_writer st"
  by (simp_all add: recordSuccess_def Let_def)

lemma abort_claim_simps [simp]:
  "ps_billed (abort_claim now claim st) = ps_billed st"
  "ps_breakers (abort_claim now claim st) =
     (case claim of None \<Rightarrow> ps_breakers st
      | Some (cb, pc) \<Rightarrow> (ps_breakers st)(cb := snd (AbortProbe now (token pc) (ps_breakers st cb))))"
  by (auto simp: abort_claim_def Abort_def Let_def split: option.splits prod.splits bool.splits)

lemma slow_RoundTrip_billed [simp]: "ps_billed (slow_RoundTrip now cb fired result st) = ps_billed st"
  by (simp add: slow_RoundTrip_def Let_def split: sum.splits)

lemma slow_RoundTrip_response [simp]:
  "ps_breakers (slow_RoundTrip now cb fired (Inr up) st) = ps_breakers st"
  "ps_writer (slow_RoundTrip now cb fired (Inr up) st) = ps_writer st"
  by (simp_all add: slow_RoundTrip_def Let_def)

lemma ErrorHandler_billed [simp]: "ps_billed (snd (ErrorHandler conf rq e st)) = ps_billed st"
  by (simp add: ErrorHandler_def Let_def)

lemma observeTokenUsage_simps [simp]:
  "ps_billed (observeTokenUsage rq s u st) = ps_billed st" "ps_breakers (observeTokenUsage rq s u st) = ps_breakers st"
  "ps_handlerCalled (observeTokenUsage rq s u st) = ps_handlerCalled st"
  by (simp_all add: observeTokenUsage_def split: option.splits)

lemma emitZeroTokenEvent_simps [simp]:
  "ps_breakers (emitZeroTokenEvent conf rq up st) = ps_breakers st"
  "ps_handlerCalled (emitZeroTokenEvent conf rq up st) = ps_handlerCalled st"
  "ps_billed (emitZeroTokenEvent conf rq up st) =
     ps_billed st @ (if px_billing conf \<and> request_key rq \<noteq> [] then [usage_event conf rq up zero_usage] else [])"
  by (simp_all add: emitZeroTokenEvent_def bill_def)

text \<open>The event a usage report bills, if any.\<close>

definition handler_events :: "proxy_conf \<Rightarrow> proxy_request \<Rightarrow> upstream \<Rightarrow> Usage \<Rightarrow> Event list" where
  "handler_events conf rq up u =
     (if \<not> px_billing conf then []
      else if px_model conf = websearchModel
      then (if request_key rq \<noteq> [] then [usage_event conf rq up zero_usage] else [])
      else [usage_event conf rq up u])"

lemma usageHandler_simps [simp]:
  "ps_breakers (usageHandler conf rq up u st) = ps_breakers st"
  "ps_handlerCalled (usageHandler conf rq up u st)"
  "ps_billed (usageHandler conf rq up u st) = ps_billed st @ handler_events conf rq up u"
  by (simp_all add: usageHandler_def handler_events_def bill_def Let_def)

lemma read_body_calls: "length (snd (snd (read_body c n b))) \<le> 1"
  by (induction c n b rule: read_body.induct) (auto split: prod.splits option.splits)

lemma close_body_breakers [simp]: "ps_breakers (close_body c conf rq up n b st) = ps_breakers st"
proof -
  have "ps_breakers (fold (usageHandler conf rq up) us st) = ps_breakers st" for us st
    by (induction us arbitrary: st) auto
  then show ?thesis by (induction c conf rq up n b st rule: close_body.induct) (auto simp: Let_def)
qed

section \<open>Billing\<close>

lemma handler_events_length: "length (handler_events conf rq up u) \<le> 1"
  by (simp add: handler_events_def)

lemma fold_handler_billed:
  "ps_billed (fold (usageHandler conf rq up) us st) = ps_billed st @ concat (map (handler_events conf rq up) us)"
  by (induction us arbitrary: st) auto

lemma fold_handler_called: "ps_handlerCalled (fold (usageHandler conf rq up) us st) \<longleftrightarrow> us \<noteq> [] \<or> ps_handlerCalled st"
  by (induction us arbitrary: st) auto

text \<open>Bodies are wrapped for billing at most once, on the outside.\<close>

fun plain_body :: "resp_body \<Rightarrow> bool" where
  "plain_body (BillingBody b) = False"
| "plain_body b = True"

lemma close_plain: "plain_body b \<Longrightarrow> close_body c conf rq up n b st = fold (usageHandler conf rq up) (snd (snd (read_body c n b))) st"
  by (cases b) auto

lemma handler_events_concat: "length us \<le> 1 \<Longrightarrow> length (concat (map (handler_events conf rq up) us)) \<le> 1"
  using handler_events_length [of conf rq up "hd us"] by (cases us) auto

lemma close_plain_billed:
  "plain_body b \<Longrightarrow> length (ps_billed (close_body c conf rq up n b st)) \<le> length (ps_billed st) + 1"
  using handler_events_concat [OF read_body_calls, of conf rq up c n b] by (simp add: close_plain fold_handler_billed)

lemma close_billing_billed:
  assumes "plain_body b" "\<not> ps_handlerCalled st"
  shows "length (ps_billed (close_body c conf rq up n (BillingBody b) st)) \<le> length (ps_billed st) + 1"
  using assms close_plain_billed [of b c conf rq up n st] fold_handler_called [of conf rq up "snd (snd (read_body c n b))" st]
  by (auto simp: Let_def close_plain)

lemma plain_extractor_body: "plain_body (extractor_body rq up h)"
  by (simp add: extractor_body_def Let_def split: extraction.splits)

text \<open>The three ways a proxied response can go, from a state with the same bills and a reset handler flag.\<close>

lemma proxied_response_cases:
  obtains (panic) st1 where "proxied_response c conf rq up pricing st = (ModifyPanic, st1)"
      "ps_billed st1 = ps_billed st" "ps_breakers st1 = ps_breakers st"
  | (buffered) h st1 where "proxied_response c conf rq up pricing st = buffered_response c conf rq up pricing h st1"
      "ps_billed st1 = ps_billed st" "ps_breakers st1 = ps_breakers st" "\<not> is_streaming up" "metrics_requested rq"
      "up_status up = 200" "is_json up"
  | (extracted) h st1 where "proxied_response c conf rq up pricing st = (Modified (extracted_response conf rq up h), st1)"
      "ps_billed st1 = ps_billed st" "ps_breakers st1 = ps_breakers st" "\<not> ps_handlerCalled st1"
      "header_get h ''Content-Type'' = header_get (up_header up) ''Content-Type''"
      "\<not> (\<not> is_streaming up \<and> metrics_requested rq \<and> up_status up = 200 \<and> is_json up)"
proof -
  define st1 where "st1 = (if is_streaming up \<and> metrics_requested rq
    then st\<lparr>ps_writer := map_option EnableTrailer (ps_writer st)\<rparr> else st)\<lparr>ps_handlerCalled := False\<rparr>"
  define h1 where "h1 = (if is_streaming up \<and> metrics_requested rq
    then addTrailerHeader (up_header up) UsageMetricsResponseHeader else up_header up)"
  define plain where "plain \<longleftrightarrow> \<not> is_streaming up \<and> metrics_requested rq \<and> up_status up = 200"
  define h2 where "h2 = (case pricing of
      Some p \<Rightarrow> if plain \<and> CostKnownWithoutUsage p then set_usage_header conf zero_usage pricing h1 else Some h1
    | None \<Rightarrow> Some h1)"
  have st1: "ps_billed st1 = ps_billed st" "ps_breakers st1 = ps_breakers st" "\<not> ps_handlerCalled st1"
    by (simp_all add: st1_def)
  have eq: "proxied_response c conf rq up pricing st =
    (case h2 of None \<Rightarrow> (ModifyPanic, st1)
     | Some h \<Rightarrow> if plain \<and> is_json up then buffered_response c conf rq up pricing h st1
                 else (Modified (extracted_response conf rq up h), st1))"
    unfolding proxied_response_def Let_def st1_def h2_def h1_def plain_def ..
  have get: "header_get h ''Content-Type'' = header_get (up_header up) ''Content-Type''" if "h2 = Some h" for h
    using that
    by (auto simp: h2_def h1_def set_usage_header_def addTrailerHeader_def UsageMetricsResponseHeader_def Let_def
        split: option.splits if_splits)
  show thesis
  proof (cases h2)
    case None
    then show thesis using panic eq st1 by simp
  next
    case (Some h)
    then show thesis
      using buffered [of h st1] extracted [of h st1] eq st1 get [OF Some] by (simp add: plain_def split: if_splits)
  qed
qed

text \<open>The state once a modified response has been copied and closed.\<close>

definition after_close :: "codecs \<Rightarrow> proxy_conf \<Rightarrow> proxy_request \<Rightarrow> upstream \<Rightarrow> nat \<Rightarrow> modify_result \<times> proxy_state \<Rightarrow> proxy_state" where
  "after_close c conf rq up n p =
     (case p of (Modified rs, st) \<Rightarrow> close_body c conf rq up n (rs_body rs) st | (_, st) \<Rightarrow> st)"

lemma after_close_simps [simp]:
  "after_close c conf rq up n (Modified rs, st) = close_body c conf rq up n (rs_body rs) st"
  "after_close c conf rq up n (ModifyError e, st) = st" "after_close c conf rq up n (ModifyPanic, st) = st"
  by (simp_all add: after_close_def)

lemma buffered_response_billed:
  "length (ps_billed (after_close c conf rq up n (buffered_response c conf rq up pricing h s))) \<le> length (ps_billed s) + 1"
  using handler_events_length [of conf rq up]
  by (auto simp: buffered_response_def forwarded_def withPrefixedBody_def Let_def split: sum.splits option.splits)

lemma proxied_response_billed:
  "length (ps_billed (after_close c conf rq up n (proxied_response c conf rq up pricing st))) \<le> length (ps_billed st) + 1"
proof (cases rule: proxied_response_cases [of c conf rq up pricing st])
  case (buffered h st1)
  then show ?thesis using buffered_response_billed [of c conf rq up n pricing h st1] by simp
next
  case (extracted h st1)
  then show ?thesis
    using close_billing_billed [OF plain_extractor_body, of st1 c conf rq up n rq up h]
      close_plain_billed [OF plain_extractor_body, of c conf rq up n rq up h st1]
    by (simp add: extracted_response_def forwarded_def Let_def)
qed simp

lemma privacy_response_silent [simp]:
  "after_close c conf rq up n (privacy_response conf rq up pricing, st) = st"
  by (simp add: privacy_response_def forwarded_def upstream_body_def split: option.splits)

lemma normalized_error_silent [simp]:
  "close_body c conf rq up n (rs_body (normalizeUpstreamErrorResponse c up)) st = st"
  by (simp add: normalizeUpstreamErrorResponse_def forwarded_def Let_def)

text \<open>The state after the breaker outcome of a response has been recorded.\<close>

definition outcome_recorded :: "proxy_conf \<Rightarrow> proxy_request \<Rightarrow> upstream \<Rightarrow> proxy_state \<Rightarrow> proxy_state" where
  "outcome_recorded conf rq up st =
     (let serving = servingBreaker (rq_owner rq) (px_cb conf)
      in if 500 \<le> up_status up then recordFailure (rq_now rq) serving (httpFailureReason (up_status up)) st
         else recordSuccess serving st)"

lemma outcome_recorded_simps [simp]:
  "ps_billed (outcome_recorded conf rq up st) = ps_billed st" "ps_writer (outcome_recorded conf rq up st) = ps_writer st"
  by (simp_all add: outcome_recorded_def Let_def)

lemma ModifyResponse_alt:
  "ModifyResponse c conf rq retry up st =
     (if up_status up = 502 \<and> retry = Some True then (ModifyError (GoErr errRetryReplica []), outcome_recorded conf rq up st)
      else if up_status up = 101
      then (Modified (forwarded up (up_header up) (upstream_body up)), emitZeroTokenEvent conf rq up (outcome_recorded conf rq up st))
      else if 400 \<le> up_status up \<and> \<not> is_streaming up \<and> header_get (up_header up) ''Content-Encoding'' = []
      then (Modified (normalizeUpstreamErrorResponse c up), outcome_recorded conf rq up st)
      else if px_model conf = privacyFilterModel
      then (privacy_response conf rq up (case ps_writer st of Some w \<Rightarrow> uw_pricing w | None \<Rightarrow> None), outcome_recorded conf rq up st)
      else proxied_response c conf rq up (case ps_writer st of Some w \<Rightarrow> uw_pricing w | None \<Rightarrow> None)
             (outcome_recorded conf rq up st))"
  by (simp add: ModifyResponse_def outcome_recorded_def Let_def)

lemma ModifyResponse_billed:
  "length (ps_billed (after_close c conf rq up n (ModifyResponse c conf rq retry up st))) \<le> length (ps_billed st) + 1"
  using proxied_response_billed [of c conf rq up n _ "outcome_recorded conf rq up st"]
  by (simp add: ModifyResponse_alt forwarded_def upstream_body_def)

text \<open>An exchange whose transport returned a response.\<close>

definition failed_with :: "modify_result \<Rightarrow> go_err option" where
  "failed_with r = (case r of ModifyError e \<Rightarrow> Some e | _ \<Rightarrow> None)"

lemma proxy_serve_response:
  fixes conf rq fired up st
  defines "st0 \<equiv> slow_RoundTrip (rq_now rq) (servingBreaker (rq_owner rq) (px_cb conf)) fired (Inr up) st"
  shows "snd (proxy_serve c conf rq retry fired (Inr up) n st) =
    (let m = ModifyResponse c conf rq retry up st0; s = after_close c conf rq up n m
     in case failed_with (fst m) of None \<Rightarrow> s | Some e \<Rightarrow> snd (ErrorHandler conf rq e s))"
proof -
  obtain r st1 where "ModifyResponse c conf rq retry up st0 = (r, st1)" by force
  then show ?thesis by (cases r) (auto simp: proxy_serve_def failed_with_def st0_def Let_def split: prod.splits)
qed

lemma proxy_serve_error:
  "proxy_serve c conf rq retry fired (Inl e) n st =
     (case ErrorHandler conf rq e (slow_RoundTrip (rq_now rq) (servingBreaker (rq_owner rq) (px_cb conf)) fired (Inl e) st) of
        (a, st1) \<Rightarrow> (answer_error a, st1))"
  by (simp add: proxy_serve_def Let_def)

lemma proxy_serve_billed:
  "length (ps_billed (snd (proxy_serve c conf rq retry fired result n st))) \<le> length (ps_billed st) + 1"
proof (cases result)
  case (Inl e)
  then show ?thesis by (simp add: proxy_serve_error case_prod_beta)
next
  case (Inr up)
  then show ?thesis
    using ModifyResponse_billed [of c conf rq up n retry "slow_RoundTrip (rq_now rq) (servingBreaker (rq_owner rq) (px_cb conf)) fired (Inr up) st"]
    by (simp add: proxy_serve_response Let_def split: option.splits)
qed

text \<open>A response that is handed over to another replica bills nothing and writes nothing.\<close>

lemma proxy_serve_retry:
  assumes "up_status up = 502"
  shows "proxy_serve c conf rq (Some True) fired (Inr up) n st =
    (NoAnswer, outcome_recorded conf rq up (slow_RoundTrip (rq_now rq) (servingBreaker (rq_owner rq) (px_cb conf)) fired (Inr up) st))"
  using assms by (simp add: proxy_serve_def ModifyResponse_alt ErrorHandler_def answer_error_def Let_def)

lemma Enclave_ServeHTTP_state:
  "snd (snd (Enclave_ServeHTTP c conf pricing rq retry fired result n w st)) =
     snd (proxy_serve c conf rq retry fired result n
       (st\<lparr>ps_writer := if metrics_requested rq then Some (new_writer (px_model conf) (pricing (px_model conf))) else None\<rparr>))"
  by (simp add: Enclave_ServeHTTP_def Let_def split: prod.splits)

lemma Enclave_ServeHTTP_answer:
  "fst (snd (Enclave_ServeHTTP c conf pricing rq retry fired result n w st)) =
     fst (proxy_serve c conf rq retry fired result n
       (st\<lparr>ps_writer := if metrics_requested rq then Some (new_writer (px_model conf) (pricing (px_model conf))) else None\<rparr>))"
  by (simp add: Enclave_ServeHTTP_def Let_def split: prod.splits)

lemma Enclave_ServeHTTP_billed:
  "length (ps_billed (snd (snd (Enclave_ServeHTTP c conf pricing rq retry fired result n w st)))) \<le> length (ps_billed st) + 1"
  using proxy_serve_billed [of c conf rq retry fired result n
      "st\<lparr>ps_writer := if metrics_requested rq then Some (new_writer (px_model conf) (pricing (px_model conf))) else None\<rparr>"]
  by (simp add: Enclave_ServeHTTP_state)

text \<open>The usage a successful plain response is billed with.\<close>

definition billed_usage :: "codecs \<Rightarrow> proxy_conf \<Rightarrow> upstream \<Rightarrow> Usage" where
  "billed_usage c conf up =
     (if px_model conf \<noteq> websearchModel \<and> is_json up
      then (case body_usage c (up_bytes up) of Some u \<Rightarrow> Normalize u | None \<Rightarrow> zero_usage)
      else zero_usage)"

lemma extractor_body_plain:
  assumes "header_get h ''Content-Type'' = header_get (up_header up) ''Content-Type''" "\<not> is_streaming up" "up_status up = 200"
  shows "extractor_body rq up h =
    (if is_json up then TeeBody (up_bytes up) (up_error up \<noteq> None) else UpstreamBody (up_bytes up) (up_error up \<noteq> None))"
  using assms
  by (simp add: extractor_body_def ExtractTokensFromResponseWithHandler_def is_streaming_def is_json_def)

lemma tee_read_close_single: "snd (tee_read_close f [s]) = map_option Normalize (f s)"
  by (simp add: tee_read_close_def ExtractUsage_def jx_write_def split: option.splits)

lemma extracted_billed:
  assumes "header_get h ''Content-Type'' = header_get (up_header up) ''Content-Type''" "\<not> is_streaming up" "up_status up = 200"
    and "px_billing conf" "request_key rq \<noteq> []" "\<not> ps_handlerCalled st" "length (up_bytes up) \<le> n"
  shows "ps_billed (close_body c conf rq up n (rs_body (extracted_response conf rq up h)) st) =
    ps_billed st @ [usage_event conf rq up (billed_usage c conf up)]"
  using assms
  by (simp add: extracted_response_def forwarded_def extractor_body_plain billed_usage_def handler_events_def
      tee_read_close_single Let_def split: option.splits)

lemma buffered_billed:
  assumes "up_error up = None" "int (length (up_bytes up)) \<le> maxUsageMetricsBodyBytes" "is_json up" "px_billing conf" "request_key rq \<noteq> []"
    and "fst (buffered_response c conf rq up pricing h st) \<noteq> ModifyPanic"
  shows "ps_billed (after_close c conf rq up n (buffered_response c conf rq up pricing h st)) =
    ps_billed st @ [usage_event conf rq up (billed_usage c conf up)]"
  using assms
  by (auto simp: buffered_response_def read_limited_def forwarded_def billed_usage_def handler_events_def Let_def
      split: option.splits)

lemma buffered_no_error:
  "up_error up = None \<Longrightarrow> failed_with (fst (buffered_response c conf rq up pricing h st)) = None"
  by (auto simp: buffered_response_def read_limited_def failed_with_def Let_def split: option.splits)

lemma proxy_serve_panic:
  "fst (ModifyResponse c conf rq retry up (slow_RoundTrip (rq_now rq) (servingBreaker (rq_owner rq) (px_cb conf)) fired (Inr up) st)) = ModifyPanic
   \<Longrightarrow> fst (proxy_serve c conf rq retry fired (Inr up) n st) = AbortedAnswer"
  by (auto simp: proxy_serve_def Let_def split: prod.splits)

text \<open>Without published pricing the usage header cannot fail to format.\<close>

lemma FormatUsage_unpriced: "FormatUsage u m None None \<noteq> None"
  by (simp add: FormatUsage_def cost_suffix_def otherBilled_def Let_def)

lemma set_usage_header_unpriced [simp]: "set_usage_header conf u None h \<noteq> None"
  by (simp add: set_usage_header_def FormatUsage_unpriced)

lemma buffered_response_unpriced: "fst (buffered_response c conf rq up None h st) \<noteq> ModifyPanic"
  by (simp add: buffered_response_def Let_def split: option.splits sum.splits)

lemma ModifyResponse_unpriced:
  assumes "ps_writer st = None"
  shows "fst (ModifyResponse c conf rq retry up st) \<noteq> ModifyPanic"
proof -
  have "privacy_response conf rq up None \<noteq> ModifyPanic"
    by (simp add: privacy_response_def split: option.splits)
  moreover have "fst (proxied_response c conf rq up None s) \<noteq> ModifyPanic" for s
    using buffered_response_unpriced by (simp add: proxied_response_def Let_def)
  ultimately show ?thesis using assms by (simp add: ModifyResponse_alt)
qed

lemma proxy_serve_unpriced:
  assumes "ps_writer st = None"
  shows "fst (proxy_serve c conf rq retry fired (Inr up) n st) \<noteq> AbortedAnswer"
  using ModifyResponse_unpriced [of "slow_RoundTrip (rq_now rq) (servingBreaker (rq_owner rq) (px_cb conf)) fired (Inr up) st" c conf rq retry up] assms
  by (auto simp: proxy_serve_def answer_error_def Let_def split: prod.splits modify_result.splits option.splits)

text \<open>The one plain response that is not billed: a JSON body over the limit of the branch that buffers it for usage metrics.\<close>

definition metrics_oversized :: "proxy_request \<Rightarrow> upstream \<Rightarrow> bool" where
  "metrics_oversized rq up \<longleftrightarrow> metrics_requested rq \<and> is_json up \<and> maxUsageMetricsBodyBytes < int (length (up_bytes up))"

lemma oversized_unbilled:
  assumes "px_model conf \<noteq> privacyFilterModel" "up_status up = 200" "\<not> is_streaming up" "is_json up"
    and "metrics_requested rq" "maxUsageMetricsBodyBytes < int (length (up_bytes up))"
  shows "ps_billed (snd (proxy_serve c conf rq retry fired (Inr up) n st)) = ps_billed st"
proof -
  let ?s = "slow_RoundTrip (rq_now rq) (servingBreaker (rq_owner rq) (px_cb conf)) fired (Inr up) st"
  let ?pr = "case ps_writer st of Some w \<Rightarrow> uw_pricing w | None \<Rightarrow> None"
  let ?m = "ModifyResponse c conf rq retry up ?s"
  have m: "?m = proxied_response c conf rq up ?pr (outcome_recorded conf rq up ?s)"
    using assms by (simp add: ModifyResponse_alt)
  have "failed_with (fst ?m) = None \<and> ps_billed (after_close c conf rq up n ?m) = ps_billed st"
  proof (cases rule: proxied_response_cases [of c conf rq up ?pr "outcome_recorded conf rq up ?s"])
    case (buffered h st1)
    then show ?thesis
      using assms by (simp add: m buffered_response_def read_limited_def withPrefixedBody_def forwarded_def failed_with_def maxUsageMetricsBodyBytes_def)
  qed (use assms in \<open>simp_all add: m failed_with_def\<close>)
  then show ?thesis by (simp add: proxy_serve_response Let_def)
qed

lemma plain_billed:
  assumes "px_billing conf" "request_key rq \<noteq> []" "px_model conf \<noteq> privacyFilterModel"
    and "up_status up = 200" "\<not> is_streaming up" "up_error up = None" "length (up_bytes up) \<le> n"
    and limit: "\<not> (metrics_requested rq \<and> is_json up \<and> maxUsageMetricsBodyBytes < int (length (up_bytes up)))"
    and "fst (proxy_serve c conf rq retry fired (Inr up) n st) \<noteq> AbortedAnswer"
  shows "ps_billed (snd (proxy_serve c conf rq retry fired (Inr up) n st)) =
    ps_billed st @ [usage_event conf rq up (billed_usage c conf up)]"
proof -
  let ?s = "slow_RoundTrip (rq_now rq) (servingBreaker (rq_owner rq) (px_cb conf)) fired (Inr up) st"
  let ?pr = "case ps_writer st of Some w \<Rightarrow> uw_pricing w | None \<Rightarrow> None"
  let ?m = "ModifyResponse c conf rq retry up ?s"
  have m: "?m = proxied_response c conf rq up ?pr (outcome_recorded conf rq up ?s)"
    using assms by (simp add: ModifyResponse_alt)
  have nopanic: "fst ?m \<noteq> ModifyPanic" using assms proxy_serve_panic by metis
  have "failed_with (fst ?m) = None \<and> ps_billed (after_close c conf rq up n ?m) =
    ps_billed st @ [usage_event conf rq up (billed_usage c conf up)]"
  proof (cases rule: proxied_response_cases [of c conf rq up ?pr "outcome_recorded conf rq up ?s"])
    case (panic st1)
    then show ?thesis using nopanic m by simp
  next
    case (buffered h st1)
    then show ?thesis
      using assms nopanic buffered_billed [of up conf rq c ?pr h st1 n] buffered_no_error [of up c conf rq ?pr h st1]
      by (simp add: m)
  next
    case (extracted h st1)
    then show ?thesis using assms extracted_billed [of h up conf rq st1 n c] by (simp add: m failed_with_def)
  qed
  then show ?thesis by (simp add: proxy_serve_response Let_def)
qed

text \<open>
  C8. A plain response with status 200 of a billed model other than the privacy filter, to an authenticated request,
  whose body is read to its end and whose handling does not panic, produces exactly one billing event when it has
  been copied and closed: with the usage the backend reports in a JSON body, with zero tokens when there is none or
  the model is the web search parent. The event is the same whether or not the client asked for usage metrics,
  with one exception: a JSON body above ten mebibytes that was asked for with usage metrics is not billed.
\<close>
theorem billed_exactly_once:
  assumes "px_billing conf" "request_key rq \<noteq> []" "px_model conf \<noteq> privacyFilterModel"
    and "up_status up = 200" "\<not> is_streaming up" "up_error up = None" "length (up_bytes up) \<le> n"
    and "fst (proxy_serve c conf rq retry fired (Inr up) n st) \<noteq> AbortedAnswer"
  shows "ps_billed (snd (proxy_serve c conf rq retry fired (Inr up) n st)) =
    ps_billed st @ (if metrics_oversized rq up then [] else [usage_event conf rq up (billed_usage c conf up)])"
proof (cases "metrics_oversized rq up")
  case True
  then show ?thesis using assms oversized_unbilled[of conf up rq c retry fired n st] by (simp add: metrics_oversized_def)
next
  case False
  then have "\<not> (metrics_requested rq \<and> is_json up \<and> maxUsageMetricsBodyBytes < int (length (up_bytes up)))"
    by (simp add: metrics_oversized_def)
  from plain_billed[OF assms(1-7) this assms(8)] show ?thesis using False by simp
qed

definition codecs_example :: codecs where
  "codecs_example = \<lparr>chunk_of = (\<lambda>s. None), usage_of = (\<lambda>v. None),
     body_usage = (\<lambda>s. if s = ''u'' then Some (zero_usage\<lparr>InputTokens := 7, OutputTokens := 2, TotalTokens := 9\<rparr>) else None),
     unmarshal = (\<lambda>s. None), marshal = (\<lambda>m. ''e'')\<rparr>"

definition conf_example :: proxy_conf where
  "conf_example = \<lparr>px_host = ''h1'', px_model = ''m'', px_billing = True, px_cb = 0\<rparr>"

definition request_example :: "bool \<Rightarrow> proxy_request" where
  "request_example metrics =
     \<lparr>rq_header = (''Authorization'', [''Bearer k'']) # (if metrics then [(UsageMetricsRequestHeader, [''true''])] else []),
      rq_path = ''/v1/chat/completions'', rq_customerRequests = None, rq_labels = None, rq_claim = None, rq_owner = None, rq_now = 5\<rparr>"

definition json_example :: "int \<Rightarrow> string \<Rightarrow> upstream" where
  "json_example status body =
     \<lparr>up_status = status, up_header = [(''Content-Type'', [''application/json''])], up_bytes = body, up_error = None\<rparr>"

definition state_example :: proxy_state where
  "state_example = \<lparr>ps_breakers = (\<lambda>_. newCircuitBreaker), ps_metrics = [], ps_billed = [], ps_writer = None, ps_handlerCalled = False\<rparr>"

lemma request_key_example [simp]: "request_key (request_example m) = ''k''"
proof -
  have "BearerToken ''Bearer k'' = ''k''" by code_simp
  then show ?thesis by (simp add: request_key_def request_example_def header_get_def header_values_def)
qed

lemma json_example_kind [simp]: "is_json (json_example st b)" "\<not> is_streaming (json_example st b)"
proof -
  have "contains ''application/json'' ''application/json''" "\<not> contains ''application/json'' ''text/event-stream''"
    by code_simp+
  then show "is_json (json_example st b)" "\<not> is_streaming (json_example st b)"
    by (simp_all add: is_streaming_def is_json_def json_example_def header_get_def header_values_def)
qed

lemma json_example_simps [simp]:
  "up_status (json_example st b) = st" "up_bytes (json_example st b) = b" "up_error (json_example st b) = None"
  by (simp_all add: json_example_def)

lemma metrics_requested_example [simp]: "metrics_requested (request_example m) = m"
  by (simp add: metrics_requested_def request_example_def header_get_def header_values_def UsageMetricsRequestHeader_def)

lemma conf_example_simps [simp]:
  "px_model conf_example \<noteq> privacyFilterModel" "px_model conf_example \<noteq> websearchModel" "px_billing conf_example"
  by (simp_all add: conf_example_def privacyFilterModel_def websearchModel_def)

theorem billed_exactly_once_witness:
  "map ev_PromptTokens (ps_billed (snd (proxy_serve codecs_example conf_example (request_example True) None False
     (Inr (json_example 200 ''u'')) 10 state_example))) = [7]"
proof -
  have "ps_billed (snd (proxy_serve codecs_example conf_example (request_example True) None False
      (Inr (json_example 200 ''u'')) 10 state_example))
    = ps_billed state_example @ (if metrics_oversized (request_example True) (json_example 200 ''u'') then []
        else [usage_event conf_example (request_example True) (json_example 200 ''u'')
               (billed_usage codecs_example conf_example (json_example 200 ''u''))])"
    by (rule billed_exactly_once)
       (simp_all add: proxy_serve_unpriced state_example_def)
  then show ?thesis
    by (simp add: metrics_oversized_def maxUsageMetricsBodyBytes_def billed_usage_def usage_event_def state_example_def codecs_example_def Normalize_def zero_usage_def)
qed

text \<open>
  Asking for usage metrics on a JSON response above ten mebibytes skips billing altogether: the buffered
  branch returns the body untouched and neither the usage handler nor the billing closer is installed, while
  the same response without that request header is billed.
\<close>
theorem oversized_metrics_response_unbilled:
  assumes "px_model conf \<noteq> privacyFilterModel" "up_status up = 200" "\<not> is_streaming up" "is_json up"
    and "metrics_requested rq" "maxUsageMetricsBodyBytes < int (length (up_bytes up))"
  shows "ps_billed (snd (proxy_serve c conf rq retry fired (Inr up) n st)) = ps_billed st"
  using assms by (rule oversized_unbilled)

theorem oversized_metrics_response_unbilled_witness:
  "ps_billed (snd (proxy_serve codecs_example conf_example (request_example True) None False
     (Inr (json_example 200 (replicate (nat (maxUsageMetricsBodyBytes + 1)) (CHR ''x'')))) 10 state_example)) = []"
proof -
  have "ps_billed (snd (proxy_serve codecs_example conf_example (request_example True) None False
      (Inr (json_example 200 (replicate (nat (maxUsageMetricsBodyBytes + 1)) (CHR ''x'')))) 10 state_example)) = ps_billed state_example"
    by (rule oversized_metrics_response_unbilled) (simp_all add: maxUsageMetricsBodyBytes_def)
  then show ?thesis by (simp add: state_example_def)
qed

text \<open>The two shapes of a served request: one attempt, or a first attempt that only recorded its outcome and a replay.\<close>

lemma failover_cases:
  obtains (once) owner fired result retry where "attempt conf = (owner, fired, result)"
      "retry = Some True \<longrightarrow> \<not> backend_502 result"
      "ServeHTTPWithFailover c pricing attempt conf env rq n w st =
         (let e = Enclave_ServeHTTP c conf pricing (rq\<lparr>rq_owner := owner\<rparr>) retry fired result n w st
          in \<lparr>sv_answers = [fst (snd e)], sv_header = fst e, sv_released = [], sv_state = snd (snd e)\<rparr>)"
  | (replayed) owner fired up alternate owner' fired' result' h st1 where
      "attempt conf = (owner, fired, Inr up)" "up_status up = 502" "replay_eligible env rq" "prepare env = Some alternate"
      "attempt alternate = (owner', fired', result')"
      "ps_billed st1 = ps_billed st"
      "ps_breakers st1 = ps_breakers (outcome_recorded conf (rq\<lparr>rq_owner := owner\<rparr>) up st)"
      "ServeHTTPWithFailover c pricing attempt conf env rq n w st =
         (let e = Enclave_ServeHTTP c alternate pricing (rq\<lparr>rq_claim := None, rq_owner := owner'\<rparr>) None fired' result' n h st1
          in \<lparr>sv_answers = [NoAnswer, fst (snd e)], sv_header = fst e, sv_released = [alternate], sv_state = snd (snd e)\<rparr>)"
proof -
  obtain owner fired result where at: "attempt conf = (owner, fired, result)" by (metis prod_cases3)
  define retry where "retry = (if replay_eligible env rq then Some (prepare env \<noteq> None) else None)"
  define e where "e = Enclave_ServeHTTP c conf pricing (rq\<lparr>rq_owner := owner\<rparr>) retry fired result n w st"
  show thesis
  proof (cases "if replay_eligible env rq \<and> backend_502 result then prepare env else None")
    case None
    then have "retry = Some True \<longrightarrow> \<not> backend_502 result" by (auto simp: retry_def)
    moreover have "ServeHTTPWithFailover c pricing attempt conf env rq n w st =
        \<lparr>sv_answers = [fst (snd e)], sv_header = fst e, sv_released = [], sv_state = snd (snd e)\<rparr>"
      using None by (simp add: ServeHTTPWithFailover_def at Let_def case_prod_beta e_def retry_def cong: if_cong)
    ultimately show thesis using once [OF at] by (simp add: e_def Let_def)
  next
    case (Some alternate)
    then obtain up where up: "result = Inr up" "up_status up = 502" and re: "replay_eligible env rq" "prepare env = Some alternate"
      by (auto simp: backend_502_def split: if_splits sum.splits)
    obtain owner' fired' result' where at': "attempt alternate = (owner', fired', result')" by (metis prod_cases3)
    let ?w = "if metrics_requested (rq\<lparr>rq_owner := owner\<rparr>) then Some (new_writer (px_model conf) (pricing (px_model conf))) else None"
    have e: "fst (snd e) = NoAnswer" "snd (snd e) = outcome_recorded conf (rq\<lparr>rq_owner := owner\<rparr>) up
        (slow_RoundTrip (rq_now rq) (servingBreaker owner (px_cb conf)) fired (Inr up) (st\<lparr>ps_writer := ?w\<rparr>))"
      unfolding e_def by (simp_all add: Enclave_ServeHTTP_state Enclave_ServeHTTP_answer proxy_serve_retry up re retry_def)
    have st1: "ps_billed (snd (snd e)) = ps_billed st"
      "ps_breakers (snd (snd e)) = ps_breakers (outcome_recorded conf (rq\<lparr>rq_owner := owner\<rparr>) up st)"
      by (simp_all add: e(2)) (simp add: outcome_recorded_def Let_def)
    let ?e' = "Enclave_ServeHTTP c alternate pricing (rq\<lparr>rq_claim := None, rq_owner := owner'\<rparr>) None fired' result' n
      (case fst e of Some x \<Rightarrow> x | None \<Rightarrow> w) (snd (snd e))"
    have "ServeHTTPWithFailover c pricing attempt conf env rq n w st =
      \<lparr>sv_answers = [fst (snd e), fst (snd ?e')], sv_header = fst ?e', sv_released = [alternate], sv_state = snd (snd ?e')\<rparr>"
      by (simp add: ServeHTTPWithFailover_def at at' Let_def case_prod_beta e_def retry_def re up backend_502_def)
    with e(1) st1 show thesis using replayed [OF at [unfolded up(1)] up(2) re at'] by (simp add: Let_def)
  qed
qed

text \<open>
  C7. Whatever the backends answer, and whether or not the request is replayed on another replica, one client
  request produces at most one billing event.
\<close>
theorem billed_at_most_once:
  "length (ps_billed (sv_state (ServeHTTPWithFailover c pricing attempt conf env rq n w st))) \<le> length (ps_billed st) + 1"
proof (cases rule: failover_cases [of attempt conf c pricing env rq n w st])
  case (once owner fired result retry)
  then show ?thesis using Enclave_ServeHTTP_billed by (simp add: Let_def)
next
  case (replayed owner fired up alternate owner' fired' result' h st1)
  then show ?thesis
    using Enclave_ServeHTTP_billed [of c alternate pricing "rq\<lparr>rq_claim := None, rq_owner := owner'\<rparr>" None fired' result' n h st1]
    by (simp add: Let_def)
qed

section \<open>Answers\<close>

text \<open>Errors of the transport and of the backend's body do not carry the router's own retry marker.\<close>

definition ordinary :: "go_err + upstream \<Rightarrow> bool" where
  "ordinary result \<longleftrightarrow>
     (case result of
        Inl e \<Rightarrow> \<not> err_is errRetryReplica e
      | Inr up \<Rightarrow> (case up_error up of None \<Rightarrow> True | Some e \<Rightarrow> \<not> err_is errRetryReplica e))"

lemma ErrorHandler_answers: "\<not> err_is errRetryReplica e \<Longrightarrow> fst (ErrorHandler conf rq e st) \<noteq> None"
  by (simp add: ErrorHandler_def Let_def)

lemma read_limited_error: "read_limited limit up = Inl e \<Longrightarrow> up_error up = Some e"
  by (auto simp: read_limited_def split: if_splits option.splits)

lemma ModifyResponse_error:
  assumes "ModifyResponse c conf rq retry up st = (ModifyError e, st1)"
  shows "up_error up = Some e \<or> up_status up = 502 \<and> retry = Some True"
proof -
  have buf: "up_error up = Some e" if "buffered_response c conf rq up pr h s = (ModifyError e, s')" for pr h s s'
    using that read_limited_error
    by (auto simp: buffered_response_def Let_def split: sum.splits option.splits if_splits)
  have "up_error up = Some e" if "proxied_response c conf rq up pr s = (ModifyError e, s')" for pr s s'
    using that buf by (cases rule: proxied_response_cases [of c conf rq up pr s]) auto
  moreover have "privacy_response conf rq up pr \<noteq> ModifyError e" for pr
    by (simp add: privacy_response_def split: option.splits)
  ultimately show ?thesis using assms by (auto simp: ModifyResponse_alt split: if_splits)
qed

lemma proxy_serve_answers:
  assumes "ordinary result" and "retry = Some True \<longrightarrow> \<not> backend_502 result"
  shows "fst (proxy_serve c conf rq retry fired result n st) \<noteq> NoAnswer"
proof (cases result)
  case (Inl e)
  then show ?thesis
    using assms ErrorHandler_answers [of e conf rq "slow_RoundTrip (rq_now rq) (servingBreaker (rq_owner rq) (px_cb conf)) fired (Inl e) st"]
    by (auto simp: proxy_serve_error ordinary_def answer_error_def split: prod.splits option.splits)
next
  case (Inr up)
  obtain r st1 where m: "ModifyResponse c conf rq retry up (slow_RoundTrip (rq_now rq) (servingBreaker (rq_owner rq) (px_cb conf)) fired (Inr up) st) = (r, st1)"
    by force
  show ?thesis
  proof (cases r)
    case (ModifyError e)
    with ModifyResponse_error [OF m [unfolded ModifyError]] assms Inr have "up_error up = Some e" by (auto simp: backend_502_def)
    then have "\<not> err_is errRetryReplica e" using assms Inr by (simp add: ordinary_def)
    then show ?thesis using ErrorHandler_answers [of e conf rq st1] m ModifyError Inr
      by (auto simp: proxy_serve_def answer_error_def Let_def split: prod.splits option.splits)
  qed (use m Inr in \<open>auto simp: proxy_serve_def Let_def split: prod.splits\<close>)
qed

text \<open>
  C40. A client request gets exactly one answer, also when a bad gateway response makes the router replay it on
  another replica: the first attempt then writes nothing, and otherwise there is no second one.
\<close>
theorem failover_answers_once:
  assumes "\<forall>conf. ordinary (snd (snd (attempt conf)))"
  shows "length (filter (\<lambda>a. a \<noteq> NoAnswer) (sv_answers (ServeHTTPWithFailover c pricing attempt conf env rq n w st))) = 1"
proof (cases rule: failover_cases [of attempt conf c pricing env rq n w st])
  case (once owner fired result retry)
  moreover have "ordinary result" using assms once(1) by (metis snd_conv)
  ultimately show ?thesis by (simp add: Let_def Enclave_ServeHTTP_answer proxy_serve_answers)
next
  case (replayed owner fired up alternate owner' fired' result' h st1)
  moreover have "ordinary result'" using assms replayed(5) by (metis snd_conv)
  ultimately show ?thesis by (simp add: Let_def Enclave_ServeHTTP_answer proxy_serve_answers)
qed

definition attempt_example :: "proxy_conf \<Rightarrow> nat option \<times> bool \<times> (go_err + upstream)" where
  "attempt_example conf = (None, False, Inr (json_example (if px_host conf = ''h1'' then 502 else 200) ''u''))"

definition replay_example :: replay_env where
  "replay_example = \<lparr>re_method = ''POST'', re_hasGetBody = True, re_interim = False, re_contextDone = False, re_bodyAgain = True,
     re_next = Some (conf_example\<lparr>px_host := ''h2'', px_cb := 1\<rparr>)\<rparr>"

theorem failover_answers_once_witness:
  "length (filter (\<lambda>a. a \<noteq> NoAnswer) (sv_answers (ServeHTTPWithFailover codecs_example (\<lambda>m. None) attempt_example conf_example
     replay_example (request_example False) 10 [] state_example))) = 1"
  by (rule failover_answers_once) (simp add: attempt_example_def ordinary_def)

text \<open>A result of \<open>ModifyResponse\<close> that delivers the backend's bytes, or a panic.\<close>

definition delivers :: "codecs \<Rightarrow> nat \<Rightarrow> upstream \<Rightarrow> modify_result \<Rightarrow> bool" where
  "delivers c n up r \<longleftrightarrow> r = ModifyPanic \<or>
     (\<exists>h b us. r = Modified (forwarded up h b) \<and> read_body c n b = (take n (up_bytes up), True, us))"

lemma delivers_forwarded:
  "read_body c n b = (take n (up_bytes up), True, us) \<Longrightarrow> delivers c n up (Modified (forwarded up h b))"
  by (auto simp: delivers_def)

lemma delivers_panic: "delivers c n up ModifyPanic"
  by (simp add: delivers_def)

lemma buffered_response_delivers:
  assumes "up_error up = None"
  shows "delivers c n up (fst (buffered_response c conf rq up pr h st))"
proof (cases "maxUsageMetricsBodyBytes < int (length (up_bytes up))")
  case True
  let ?k = "nat (maxUsageMetricsBodyBytes + 1)"
  have k: "?k \<le> length (up_bytes up)" "0 < ?k" using True by (simp_all add: maxUsageMetricsBodyBytes_def)
  have "take n (take ?k (up_bytes up)) @ take (n - ?k) (drop ?k (up_bytes up)) = take n (up_bytes up)"
    using k by (metis append_take_drop_id length_take min_absorb2 take_append)
  then show ?thesis
    using assms True k
    by (simp add: buffered_response_def read_limited_def withPrefixedBody_def min_absorb2 delivers_forwarded)
next
  case False
  then show ?thesis
    using assms
    by (simp add: buffered_response_def read_limited_def Let_def delivers_forwarded delivers_panic split: option.splits)
qed

lemma extracted_response_delivers:
  assumes "header_get h ''Content-Type'' = header_get (up_header up) ''Content-Type''" "\<not> is_streaming up" "up_error up = None"
  shows "delivers c n up (Modified (extracted_response conf rq up h))"
  using assms
  by (simp add: extracted_response_def extractor_body_def ExtractTokensFromResponseWithHandler_def is_streaming_def
      Let_def delivers_forwarded)

lemma ModifyResponse_delivers:
  assumes "up_status up < 400" "\<not> is_streaming up" "up_error up = None"
  shows "delivers c n up (fst (ModifyResponse c conf rq retry up st))"
proof -
  have "delivers c n up (fst (proxied_response c conf rq up pr s))" for pr s
    using assms buffered_response_delivers extracted_response_delivers delivers_panic
    by (cases rule: proxied_response_cases [of c conf rq up pr s]) auto
  moreover have "delivers c n up (privacy_response conf rq up pr)" for pr
    using assms(3) by (simp add: privacy_response_def upstream_body_def delivers_forwarded delivers_panic split: option.splits)
  ultimately show ?thesis
    using assms(1,3) by (simp add: ModifyResponse_alt upstream_body_def delivers_forwarded)
qed

text \<open>
  A response below 400 that is not an event stream reaches the client byte for byte, whatever the model,
  the billing and the usage metrics do with it on the way.
\<close>
theorem plain_response_verbatim:
  assumes "up_status up < 400" "\<not> is_streaming up" "up_error up = None"
    and "fst (proxy_serve c conf rq retry fired (Inr up) n st) \<noteq> AbortedAnswer"
  shows "\<exists>h. fst (proxy_serve c conf rq retry fired (Inr up) n st) = Forwarded (up_status up) h (take n (up_bytes up)) True"
proof -
  let ?s = "slow_RoundTrip (rq_now rq) (servingBreaker (rq_owner rq) (px_cb conf)) fired (Inr up) st"
  have "fst (ModifyResponse c conf rq retry up ?s) \<noteq> ModifyPanic" using assms(4) proxy_serve_panic by metis
  with ModifyResponse_delivers [OF assms(1-3), of c n conf rq retry ?s] obtain h b us where
    "fst (ModifyResponse c conf rq retry up ?s) = Modified (forwarded up h b)" "read_body c n b = (take n (up_bytes up), True, us)"
    by (auto simp: delivers_def)
  then show ?thesis by (auto simp: proxy_serve_def forwarded_def Let_def split: prod.splits)
qed

theorem plain_response_verbatim_witness:
  "\<exists>h. fst (proxy_serve codecs_example conf_example (request_example True) None False (Inr (json_example 200 ''u'')) 10 state_example)
     = Forwarded 200 h ''u'' True"
  using plain_response_verbatim [of "json_example 200 ''u''" codecs_example conf_example "request_example True" None False 10 state_example]
  by (simp add: proxy_serve_unpriced state_example_def)

section \<open>Recovery probes\<close>

text \<open>
  A breaker at the dispatch of a probe: the claim is current, the count and the state agree, and the
  counter is not about to wrap.
\<close>

definition probing :: "64 word \<Rightarrow> circuitBreaker \<Rightarrow> bool" where
  "probing tok b \<longleftrightarrow> cb_inv b \<and> probeGen b = tok \<and> consecutiveFailures b < max_int64"

definition resolved :: "circuitBreaker \<Rightarrow> bool" where
  "resolved b \<longleftrightarrow> cb_state b \<noteq> cbHalfOpen"

lemma RecordSuccess_resolves: "resolved (RecordSuccess b)"
  by (simp add: resolved_def RecordSuccess_def)

lemma RecordFailure_resolves:
  "cb_inv b \<Longrightarrow> consecutiveFailures b < max_int64 \<Longrightarrow> resolved (RecordFailure now b)"
  by (cases "cb_state b") (auto simp: resolved_def RecordFailure_def cb_inv_def int64_defs cbFailureThreshold_def Let_def)

lemma RecordFailure_keeps_resolved: "resolved b \<Longrightarrow> resolved (RecordFailure now b)"
  by (auto simp: resolved_def RecordFailure_def Let_def)

lemma AbortProbe_keeps_resolved: "resolved b \<Longrightarrow> resolved (snd (AbortProbe now tok b))"
  by (auto simp: resolved_def AbortProbe_def)

lemma AbortProbe_resolves: "probeGen b = tok \<Longrightarrow> resolved (snd (AbortProbe now tok b))"
  by (auto simp: resolved_def AbortProbe_def)

lemma ErrorHandler_keeps_resolved:
  "resolved (ps_breakers st cb) \<Longrightarrow> resolved (ps_breakers (snd (ErrorHandler conf rq e st)) cb)"
  by (auto simp: ErrorHandler_def RecordFailure_keeps_resolved AbortProbe_keeps_resolved Let_def split: option.splits)

lemma outcome_recorded_breakers:
  "ps_breakers (outcome_recorded conf rq up st) =
     (ps_breakers st)(servingBreaker (rq_owner rq) (px_cb conf) :=
        (if 500 \<le> up_status up then RecordFailure (rq_now rq) else RecordSuccess)
          (ps_breakers st (servingBreaker (rq_owner rq) (px_cb conf))))"
  by (simp add: outcome_recorded_def Let_def)

lemma ModifyResponse_breakers [simp]:
  "ps_breakers (after_close c conf rq up n (ModifyResponse c conf rq retry up st)) = ps_breakers (outcome_recorded conf rq up st)"
proof -
  have "ps_breakers (after_close c conf rq up n (buffered_response c conf rq up pr h s)) = ps_breakers s" for pr h s
    by (simp add: buffered_response_def Let_def split: sum.splits option.splits)
  then have "ps_breakers (after_close c conf rq up n (proxied_response c conf rq up pr s)) = ps_breakers s" for pr s
    by (cases rule: proxied_response_cases [of c conf rq up pr s]) auto
  then show ?thesis by (simp add: ModifyResponse_alt)
qed

text \<open>The client gave up or sent too much; every other outcome is the backend's.\<close>

definition client_ended :: "go_err + upstream \<Rightarrow> bool" where
  "client_ended result =
     (case result of Inl e \<Rightarrow> err_is MaxBytesError e \<or> classifyProxyError e = ''canceled'' | Inr _ \<Rightarrow> False)"


definition probe_example :: proxy_state where
  "probe_example = state_example\<lparr>ps_breakers := (\<lambda>_. snd (ClaimProbe (40 * second)
     (RecordFailure 0 (RecordFailure 0 (RecordFailure 0 newCircuitBreaker)))))\<rparr>"

lemma probing_example: "probing 1 (ps_breakers probe_example b)"
  by (simp add: probe_example_def state_example_def) code_simp


end
