(* ===== verification/Internal_Dispatch.thy ===== *)
theory Internal_Dispatch
  imports Serving Proxy_Response Cache_Shadow "HOL-Library.Monad_Syntax"
begin

text \<open>
  Requests the router makes itself (\<open>manager/http_client.go\<close>): the choice of a backend with its attested
  client, the dispatch with its breaker outcome and in-flight reservation, the body that gives the
  reservation back when it is closed, cache-aware routing of the tool loop's requests, and the landing
  metrics of \<open>observe\<close> in \<open>cacheroute/shadow.go\<close>. Every operation refines runs of the step relation of
  \<open>Serving\<close>, so its invariants hold through internal dispatches too.
\<close>

section \<open>Choosing a backend\<close>

datatype dispatch_error =
    UnknownModel string
  | NoAvailableEnclave string
  | RequestNotBuilt
  | TransportFailed go_err
  | BodyNotEncoded

definition boundHTTPClientPreferring ::
  "time \<Rightarrow> enumeration \<Rightarrow> (nat \<Rightarrow> nat) \<Rightarrow> string \<Rightarrow> string \<Rightarrow> string list \<Rightarrow> bool \<Rightarrow> EnclaveManager
     \<Rightarrow> (dispatch_error + Enclave \<times> ProbeClaim option) \<times> EnclaveManager" where
  "boundHTTPClientPreferring now enum rnd orgID name order claimProbes em =
     (case map_of (models em) name of
        None \<Rightarrow> (Inl (UnknownModel name), em)
      | Some m \<Rightarrow>
          (case ReservationPools orgID m of
             (primary, spill, policy) \<Rightarrow>
               (case SelectServing now enum rnd order claimProbes primary spill policy m of
                  (sel, m') \<Rightarrow>
                    (case sel_enclave sel of
                       None \<Rightarrow> (Inl (NoAvailableEnclave name), set_model name m' em)
                     | Some e \<Rightarrow> (Inr (e, sel_claim sel), set_model name m' em)))))"

definition release_dispatch :: "string \<Rightarrow> nat \<Rightarrow> EnclaveManager \<Rightarrow> EnclaveManager" where
  "release_dispatch name i em =
     (case map_of (models em) name of None \<Rightarrow> em | Some m \<Rightarrow> set_model name (ReleaseDispatch i m) em)"

text \<open>A host for a session the caller drives: the reservation is given back at once.\<close>

definition boundHTTPClientForModel ::
  "time \<Rightarrow> enumeration \<Rightarrow> (nat \<Rightarrow> nat) \<Rightarrow> string \<Rightarrow> string \<Rightarrow> EnclaveManager \<Rightarrow> (dispatch_error + string) \<times> EnclaveManager" where
  "boundHTTPClientForModel now enum rnd orgID name em =
     (case boundHTTPClientPreferring now enum rnd orgID name [] False em of
        (Inl e, em1) \<Rightarrow> (Inl e, em1)
      | (Inr (e, _), em1) \<Rightarrow> (Inr (host e), release_dispatch name (oid e) em1))"

section \<open>Dispatching\<close>

definition breaker_event :: "string \<Rightarrow> nat \<Rightarrow> cbCall \<Rightarrow> EnclaveManager \<Rightarrow> EnclaveManager" where
  "breaker_event name i c em =
     (case map_of (models em) name of
        None \<Rightarrow> em | Some m \<Rightarrow> set_model name (on_object i (backend_event (BreakerEvent c)) m) em)"

definition abort_dispatch :: "string \<Rightarrow> nat \<Rightarrow> time \<Rightarrow> ProbeClaim option \<Rightarrow> EnclaveManager \<Rightarrow> EnclaveManager" where
  "abort_dispatch name i now claim em =
     (case claim of None \<Rightarrow> em | Some pc \<Rightarrow> breaker_event name i (CallAbort now (token pc)) em)"

text \<open>
  What happens outside the router: whether the request could be built, whether the header timer
  fired, and the status of the response or the transport's error.
\<close>

record exchange =
  ex_built :: bool
  ex_fired :: bool
  ex_result :: "go_err + int"

text \<open>The body of a response that was handed off, with its one-time release.\<close>

record inflightBody =
  ib_model :: string
  ib_oid :: nat
  ib_closed :: bool

definition inflightBody_Close :: "inflightBody \<Rightarrow> EnclaveManager \<Rightarrow> inflightBody \<times> EnclaveManager" where
  "inflightBody_Close b em =
     (if ib_closed b then (b, em) else (b\<lparr>ib_closed := True\<rparr>, release_dispatch (ib_model b) (ib_oid b) em))"

definition slow_hang :: "time \<Rightarrow> string \<Rightarrow> nat \<Rightarrow> bool \<Rightarrow> exchange \<Rightarrow> EnclaveManager \<Rightarrow> EnclaveManager" where
  "slow_hang now name i claimProbes ex em =
     (case ex_result ex of
        Inl e \<Rightarrow> if ex_fired ex \<and> classifyProxyError e = ''canceled'' \<and> claimProbes
                 then breaker_event name i (CallFailure now) em else em
      | Inr _ \<Rightarrow> em)"

definition postToEnclave ::
  "time \<Rightarrow> string \<Rightarrow> Enclave \<Rightarrow> ProbeClaim option \<Rightarrow> exchange \<Rightarrow> EnclaveManager
     \<Rightarrow> (dispatch_error + int \<times> inflightBody) \<times> EnclaveManager" where
  "postToEnclave now name e claim ex em =
     (let i = oid e
      in if \<not> ex_built ex then (Inl RequestNotBuilt, release_dispatch name i (abort_dispatch name i now claim em))
         else
           (let em1 = slow_hang now name i True ex em
            in case ex_result ex of
                 Inl err \<Rightarrow>
                   (let em2 = (if classifyProxyError err = ''canceled'' then abort_dispatch name i now claim em1
                               else breaker_event name i (CallFailure now) em1)
                    in (Inl (TransportFailed err), release_dispatch name i em2))
               | Inr status \<Rightarrow>
                   (Inr (status, \<lparr>ib_model = name, ib_oid = i, ib_closed = False\<rparr>),
                    breaker_event name i (if 500 \<le> status then CallFailure now else CallSuccess) em1)))"

definition DoModelRequest ::
  "time \<Rightarrow> enumeration \<Rightarrow> (nat \<Rightarrow> nat) \<Rightarrow> string \<Rightarrow> string \<Rightarrow> exchange \<Rightarrow> EnclaveManager
     \<Rightarrow> (dispatch_error + int \<times> inflightBody) \<times> EnclaveManager" where
  "DoModelRequest now enum rnd orgID name ex em =
     (case boundHTTPClientPreferring now enum rnd orgID name [] True em of
        (Inl err, em1) \<Rightarrow> (Inl err, em1)
      | (Inr (e, claim), em1) \<Rightarrow> postToEnclave now name e claim ex em1)"

section \<open>Landing metrics\<close>

datatype route_metric =
    RequestsTotal string Outcome
  | ReuseTotal string reuse
  | ReusePromptBytesTotal string int
  | RepeatIntervalSeconds string duration
  | KeyRPM string rat
  | LoadDemotionsTotal string
  | PicksTotal string string int
  | RandomMatchTotal string

definition hostIn :: "Candidate list \<Rightarrow> string \<Rightarrow> bool" where
  "hostIn candidates h \<longleftrightarrow> list_ex (\<lambda>c. cand_Host c = h) candidates"

text \<open>The series written for one landing; the histogram of compute time is left out.\<close>

definition landing_metrics ::
  "string \<Rightarrow> Request \<Rightarrow> Pool \<Rightarrow> string \<Rightarrow> Decision option \<Rightarrow> Settings \<Rightarrow> keyedResult \<Rightarrow> route_metric list" where
  "landing_metrics model req pool actualHost d cfg res =
     [RequestsTotal model OutcomeKeyed, ReuseTotal model (kr_reuse res), ReusePromptBytesTotal model (req_PromptBytes req)]
     @ (if kr_repeat res then [RepeatIntervalSeconds model (kr_interval res)] else [])
     @ [KeyRPM model (kr_rpm res)]
     @ (if kr_demoted res then [LoadDemotionsTotal model] else [])
     @ (if \<not> hostIn (Candidates pool) actualHost then []
        else if d \<noteq> None \<or> set_Mode cfg = ModeEnforced then [PicksTotal model actualHost (kr_r res)]
        else PicksTotal model (kr_pick res) (kr_r res) # (if kr_pick res = actualHost then [RandomMatchTotal model] else []))"

definition observe ::
  "hash64 \<Rightarrow> time \<Rightarrow> string \<Rightarrow> Request \<Rightarrow> Pool \<Rightarrow> string \<Rightarrow> Decision option \<Rightarrow> Settings \<Rightarrow> Shadow \<Rightarrow> route_metric list \<times> Shadow" where
  "observe xxh now model req pool actualHost d cfg s =
     (if req_Outcome req \<noteq> OutcomeKeyed then ([RequestsTotal model (req_Outcome req)], s)
      else if Size pool < 2 \<or> Candidates pool = [] then ([RequestsTotal model OutcomePoolTooSmall], s)
      else case observeKeyed xxh now model (req_Key req) (Candidates pool) actualHost d cfg s of
             (res, s') \<Rightarrow> (landing_metrics model req pool actualHost d cfg res, s'))"

definition Observe where
  "Observe xxh now model req pool actualHost cfg = observe xxh now model req pool actualHost None cfg"

definition ObserveLanding where
  "ObserveLanding xxh now model req d actualHost cfg = observe xxh now model req (dec_pool d) actualHost (Some d) cfg"

section \<open>Cache-aware dispatch\<close>

record route_env =
  re_hash :: hash64
  re_sha :: "string \<Rightarrow> string"
  re_float :: "rat \<Rightarrow> string"
  re_secret :: string

definition cacheRouteRequest ::
  "route_env \<Rightarrow> time \<Rightarrow> enumeration \<Rightarrow> string \<Rightarrow> string \<Rightarrow> string \<Rightarrow> json_object \<Rightarrow> Shadow option \<Rightarrow> EnclaveManager
     \<Rightarrow> (Request \<times> Settings \<times> Pool) option" where
  "cacheRouteRequest env now enum orgID name path body shadow em =
     do {
       _ \<leftarrow> shadow;
       m \<leftarrow> map_of (models em) name;
       (let settings = SettingsFrom (re_secret env) (CacheRoute m)
        in if set_Mode settings = ModeOff then None
           else Some (ExtractRequest (re_sha env) (re_float env) body path (string_field body ''cache_salt'') settings,
                      settings, CacheRoutePoolIn now (enum 0) (enum 1) (fst (ReservationPools orgID m)) m))
     }"

definition decide_order ::
  "route_env \<Rightarrow> time \<Rightarrow> string \<Rightarrow> Shadow option \<Rightarrow> (Request \<times> Settings \<times> Pool) option \<Rightarrow> Decision option" where
  "decide_order env now name shadow r =
     do {
       s \<leftarrow> shadow;
       (req, settings, pool) \<leftarrow> r;
       (if set_Mode settings \<noteq> ModeEnforced then None
        else Decide (re_hash env) (peekRate now name (req_Key req) s)
               (if req_Outcome req = OutcomeKeyed then Some (req_Key req) else None) pool
               (set_SplitThresholdRPM settings) (set_MaxInflightDelta settings))
     }"

definition record_landing ::
  "route_env \<Rightarrow> time \<Rightarrow> string \<Rightarrow> (Request \<times> Settings \<times> Pool) option \<Rightarrow> Decision option \<Rightarrow> string \<Rightarrow> Shadow option
     \<Rightarrow> route_metric list \<times> Shadow option" where
  "record_landing env now name r decision landed shadow =
     (case (shadow, r) of
        (Some s, Some (req, settings, pool)) \<Rightarrow>
          (case decision of
             Some d \<Rightarrow> map_prod id Some (ObserveLanding (re_hash env) now name req d landed settings s)
           | None \<Rightarrow> map_prod id Some (Observe (re_hash env) now name req pool landed settings s))
      | _ \<Rightarrow> ([], shadow))"

definition DoModelRequestJSON ::
  "route_env \<Rightarrow> time \<Rightarrow> enumeration \<Rightarrow> (nat \<Rightarrow> nat) \<Rightarrow> string \<Rightarrow> string \<Rightarrow> string \<Rightarrow> json_object \<Rightarrow> bool \<Rightarrow> exchange \<Rightarrow> Shadow option
     \<Rightarrow> EnclaveManager \<Rightarrow> (dispatch_error + int \<times> inflightBody) \<times> route_metric list \<times> Shadow option \<times> EnclaveManager" where
  "DoModelRequestJSON env now enum rnd orgID name path body encodes ex shadow em =
     (if \<not> encodes then (Inl BodyNotEncoded, [], shadow, em)
      else
        (let r = cacheRouteRequest env now enum orgID name path body shadow em;
             decision = decide_order env now name shadow r;
             order = (case decision of None \<Rightarrow> [] | Some d \<Rightarrow> Order d)
         in case boundHTTPClientPreferring now enum rnd orgID name order True em of
              (Inl err, em1) \<Rightarrow> (Inl err, [], shadow, em1)
            | (Inr (e, claim), em1) \<Rightarrow>
                (case postToEnclave now name e claim ex em1 of
                   (Inl err, em2) \<Rightarrow> (Inl err, [], shadow, em2)
                 | (Inr (status, b), em2) \<Rightarrow>
                     (case (if 200 \<le> status \<and> status < 400 then record_landing env now name r decision (host e) shadow
                            else ([], shadow)) of
                        (ms, shadow') \<Rightarrow> (Inr (status, b), ms, shadow', em2)))))"

section \<open>Tool servers\<close>

definition env_char :: "char \<Rightarrow> char" where
  "env_char r =
     (let n = (of_char r :: nat)
      in if 97 \<le> n \<and> n \<le> 122 then char_of (n - 32)
         else if (65 \<le> n \<and> n \<le> 90) \<or> (48 \<le> n \<and> n \<le> 57) then r else CHR ''_'')"

text \<open>A name is valid UTF-8: its runes start at the bytes that are not continuation bytes.\<close>

definition rune_starts :: "string \<Rightarrow> string" where
  "rune_starts s = filter (\<lambda>c. \<not> (128 \<le> (of_char c :: nat) \<and> (of_char c :: nat) < 192)) s"

definition localMCPEndpointEnvVar :: "string \<Rightarrow> string" where
  "localMCPEndpointEnvVar name = ''LOCAL_MCP_ENDPOINT_'' @ map env_char (rune_starts name)"

definition MCPServerEndpoint ::
  "bool \<Rightarrow> (string \<Rightarrow> string) \<Rightarrow> time \<Rightarrow> enumeration \<Rightarrow> (nat \<Rightarrow> nat) \<Rightarrow> string \<Rightarrow> string \<Rightarrow> EnclaveManager
     \<Rightarrow> (dispatch_error + string) \<times> EnclaveManager" where
  "MCPServerEndpoint debug getenv now enum rnd orgID name em =
     (let endpoint = getenv (localMCPEndpointEnvVar name)
      in if debug \<and> endpoint \<noteq> [] then (Inr endpoint, em)
         else case boundHTTPClientForModel now enum rnd orgID name em of
                (Inl e, em1) \<Rightarrow> (Inl e, em1)
              | (Inr h, em1) \<Rightarrow> (Inr (''https://'' @ h @ ''/mcp''), em1))"

section \<open>Refinement of the step relation\<close>

text \<open>
  A run of the manager whose last dispatches hold tickets \<open>ts\<close>; an internal dispatch adds its ticket while
  its body is open.
\<close>

abbreviation sys :: "EnclaveManager \<Rightarrow> (string \<times> nat) list \<Rightarrow> system" where
  "sys em ts \<equiv> \<lparr>manager = em, tickets = ts\<rparr>"

abbreviation steps :: "trust \<Rightarrow> system \<Rightarrow> system \<Rightarrow> bool" where
  "steps V \<equiv> (serve_step V)\<^sup>*\<^sup>*"

lemma breaker_event_steps: "steps V (sys em ts) (sys (breaker_event name i c em) ts)"
proof (cases "map_of (models em) name")
  case (Some m)
  then have "serve_step V (sys em ts) ((sys em ts)\<lparr>manager := set_model name (on_object i (backend_event (BreakerEvent c)) m) em\<rparr>)"
    using serve_step.backend [of "sys em ts" name m V i "BreakerEvent c"] by simp
  then show ?thesis using Some by (simp add: breaker_event_def)
qed (simp add: breaker_event_def)

lemma abort_dispatch_steps: "steps V (sys em ts) (sys (abort_dispatch name i now claim em) ts)"
  by (cases claim) (auto simp: abort_dispatch_def breaker_event_steps)

lemma slow_hang_steps: "steps V (sys em ts) (sys (slow_hang now name i p ex em) ts)"
  by (auto simp: slow_hang_def breaker_event_steps split: sum.splits)

lemma models_breaker_event: "map_of (models em) name \<noteq> None \<Longrightarrow> map_of (models (breaker_event name' i c em)) name \<noteq> None"
  by (auto simp: breaker_event_def set_model_def split: option.splits)

lemma models_abort: "map_of (models em) name \<noteq> None \<Longrightarrow> map_of (models (abort_dispatch name' i now claim em)) name \<noteq> None"
  using models_breaker_event by (auto simp: abort_dispatch_def split: option.splits)

lemma models_slow: "map_of (models em) name \<noteq> None \<Longrightarrow> map_of (models (slow_hang now name' i p ex em)) name \<noteq> None"
  using models_breaker_event by (auto simp: slow_hang_def split: sum.splits)

lemma release_steps:
  assumes "(name, i) \<in> set ts" "map_of (models em) name \<noteq> None"
  shows "steps V (sys em ts) (sys (release_dispatch name i em) (remove1 (name, i) ts))"
proof -
  from assms(2) obtain m where m: "map_of (models em) name = Some m" by blast
  with serve_step.release [of name i "sys em ts" m V] assms(1) show ?thesis by (simp add: release_dispatch_def r_into_rtranclp)
qed

lemma bound_steps:
  assumes "picks rnd" "\<forall>m. map_of (models em) name = Some m \<longrightarrow> enumerates enum m"
    and "boundHTTPClientPreferring now enum rnd orgID name order p em = (r, em')"
  shows "steps V (sys em ts) (sys em' (case r of Inl _ \<Rightarrow> ts | Inr (e, _) \<Rightarrow> (name, oid e) # ts))
    \<and> (\<forall>x. r = Inr x \<longrightarrow> map_of (models em') name \<noteq> None)"
proof (cases "map_of (models em) name")
  case None
  then show ?thesis using assms(3) by (auto simp: boundHTTPClientPreferring_def)
next
  case (Some m)
  obtain primary spill policy where pools: "ReservationPools orgID m = (primary, spill, policy)" by (metis prod_cases3)
  obtain sel m' where sel: "SelectServing now enum rnd order p primary spill policy m = (sel, m')" by force
  have "serve_step V (sys em ts) ((sys em ts)\<lparr>manager := set_model name m' em,
      tickets := (case sel_enclave sel of None \<Rightarrow> ts | Some e \<Rightarrow> (name, oid e) # ts)\<rparr>)"
    using serve_step.select [of rnd "sys em ts" name m enum orgID primary spill policy now order p sel m' V] Some pools sel assms(1,2)
    by (cases "sel_enclave sel") simp_all
  then show ?thesis
    using assms(3) Some pools sel by (auto simp: boundHTTPClientPreferring_def set_model_def split: option.splits)
qed

lemma post_steps:
  assumes "map_of (models em) name \<noteq> None" "postToEnclave now name e claim ex em = (r, em')"
  shows "steps V (sys em ((name, oid e) # ts)) (sys em' (case r of Inl _ \<Rightarrow> ts | Inr _ \<Rightarrow> (name, oid e) # ts))
    \<and> (\<forall>st b. r = Inr (st, b) \<longrightarrow> b = \<lparr>ib_model = name, ib_oid = oid e, ib_closed = False\<rparr> \<and> map_of (models em') name \<noteq> None)"
proof -
  let ?ts = "(name, oid e) # ts"
  have release: "steps V (sys em ?ts) (sys (release_dispatch name (oid e) em2) ts)"
    if "steps V (sys em ?ts) (sys em2 ?ts)" "map_of (models em2) name \<noteq> None" for em2
    using that release_steps [of name "oid e" ?ts em2 V] by simp
  show ?thesis
  proof (cases "ex_built ex")
    case False
    then show ?thesis
      using assms release [OF abort_dispatch_steps models_abort [OF assms(1)]] by (auto simp: postToEnclave_def Let_def)
  next
    case True
    let ?em1 = "slow_hang now name (oid e) True ex em"
    have m1: "map_of (models ?em1) name \<noteq> None" by (rule models_slow [OF assms(1)])
    have abort: "steps V (sys em ?ts) (sys (abort_dispatch name (oid e) now claim ?em1) ?ts)"
      using slow_hang_steps abort_dispatch_steps by (rule rtranclp_trans)
    have event: "steps V (sys em ?ts) (sys (breaker_event name (oid e) c ?em1) ?ts)" for c
      using slow_hang_steps breaker_event_steps by (rule rtranclp_trans)
    show ?thesis
      using assms(2) True release [OF abort models_abort [OF m1]] release [OF event models_breaker_event [OF m1]] event
        models_breaker_event [OF m1]
      by (auto simp: postToEnclave_def Let_def split: sum.splits if_splits)
  qed
qed

lemma bound_post_steps:
  assumes "picks rnd" "\<forall>m. map_of (models em) name = Some m \<longrightarrow> enumerates enum m"
    and "boundHTTPClientPreferring now enum rnd orgID name order True em = (Inr (e, claim), em1)"
    and "postToEnclave now name e claim ex em1 = (r, em')"
  shows "steps V (sys em ts) (sys em' (case r of Inl _ \<Rightarrow> ts | Inr (st, b) \<Rightarrow> (name, ib_oid b) # ts))
    \<and> (\<forall>st b. r = Inr (st, b) \<longrightarrow> \<not> ib_closed b \<and> ib_model b = name \<and> map_of (models em') name \<noteq> None)"
proof -
  from bound_steps [OF assms(1-3), of V ts] have b: "steps V (sys em ts) (sys em1 ((name, oid e) # ts))" "map_of (models em1) name \<noteq> None"
    by auto
  from post_steps [OF b(2) assms(4), of V ts] b(1) show ?thesis
    by (cases r) (auto intro: rtranclp_trans)
qed

lemma close_steps:
  assumes "map_of (models em) (ib_model b) \<noteq> None" "ib_closed b \<or> (ib_model b, ib_oid b) \<in> set ts"
  shows "steps V (sys em ts) (sys (snd (inflightBody_Close b em)) (if ib_closed b then ts else remove1 (ib_model b, ib_oid b) ts))"
  using assms release_steps [of "ib_model b" "ib_oid b" ts em V] by (auto simp: inflightBody_Close_def)

lemma close_twice [simp]: "inflightBody_Close (fst (inflightBody_Close b em)) em' = (fst (inflightBody_Close b em), em')"
  by (simp add: inflightBody_Close_def)

text \<open>Closing any number of times, the caller's own habit of closing in every branch.\<close>

fun close_times :: "nat \<Rightarrow> inflightBody \<times> EnclaveManager \<Rightarrow> inflightBody \<times> EnclaveManager" where
  "close_times 0 s = s"
| "close_times (Suc k) s = close_times k (inflightBody_Close (fst s) (snd s))"

lemma close_times_closed: "ib_closed b \<Longrightarrow> close_times k (b, em) = (b, em)"
  by (induction k) (simp_all add: inflightBody_Close_def)

lemma close_times_once: "\<not> ib_closed b \<Longrightarrow> 0 < k \<Longrightarrow> close_times k (b, em) = inflightBody_Close b em"
  by (cases k) (auto simp: inflightBody_Close_def close_times_closed)

lemma DoModelRequestJSON_run:
  assumes "picks rnd" "\<forall>m. map_of (models em) name = Some m \<longrightarrow> enumerates enum m"
    and run': "DoModelRequestJSON env now enum rnd orgID name path body encodes ex shadow em = (r, ms, shadow', em')"
  shows "steps V (sys em ts) (sys em' (case r of Inl _ \<Rightarrow> ts | Inr (st, b) \<Rightarrow> (name, ib_oid b) # ts))
    \<and> (\<forall>st b. r = Inr (st, b) \<longrightarrow> \<not> ib_closed b \<and> ib_model b = name \<and> map_of (models em') name \<noteq> None)"
proof (cases "encodes")
  case True
  define order where "order = (case decide_order env now name shadow (cacheRouteRequest env now enum orgID name path body shadow em) of
    None \<Rightarrow> [] | Some d \<Rightarrow> Order d)"
  obtain rb em1 where b: "boundHTTPClientPreferring now enum rnd orgID name order True em = (rb, em1)" by force
  show ?thesis
  proof (cases rb)
    case (Inl err)
    then have "r = Inl err" "em' = em1" using run' True b by (simp_all add: DoModelRequestJSON_def Let_def order_def)
    then show ?thesis using bound_steps [OF assms(1,2) b, of V ts] Inl by simp
  next
    case (Inr p)
    then obtain e claim where b': "boundHTTPClientPreferring now enum rnd orgID name order True em = (Inr (e, claim), em1)"
      using b by (cases p) simp
    obtain rp em2 where post: "postToEnclave now name e claim ex em1 = (rp, em2)" by force
    have "r = rp" "em' = em2"
      using run' True b' post by (auto simp: DoModelRequestJSON_def Let_def order_def split: sum.splits prod.splits)
    then show ?thesis using bound_post_steps [OF assms(1,2) b' post, of V ts] by simp
  qed
qed (use run' in \<open>auto simp: DoModelRequestJSON_def\<close>)

text \<open>
  C6. An internal dispatch is a run of the manager's step relation that holds exactly one reservation while
  its response body is open: nothing is held when it fails, whatever the reason, and closing the body once
  or many times gives the reservation back exactly once. In particular all invariants of the step relation
  (verified backends, in-flight counts) hold through internal requests.
\<close>
theorem internal_dispatch_refines_serving:
  assumes "picks rnd" "\<forall>m. map_of (models em) name = Some m \<longrightarrow> enumerates enum m" "0 < k"
    and run': "DoModelRequestJSON env now enum rnd orgID name path body encodes ex shadow em = (r, ms, shadow', em')"
  shows "case r of
      Inl _ \<Rightarrow> steps V (sys em ts) (sys em' ts)
    | Inr (st, b) \<Rightarrow> steps V (sys em ts) (sys em' ((name, ib_oid b) # ts))
        \<and> steps V (sys em' ((name, ib_oid b) # ts)) (sys (snd (close_times k (b, em'))) ts)"
proof (cases r)
  case (Inl err)
  then show ?thesis using DoModelRequestJSON_run [OF assms(1,2) run', of V ts] by simp
next
  case (Inr x)
  then obtain st b where r: "r = Inr (st, b)" by (cases x) simp
  from DoModelRequestJSON_run [OF assms(1,2) run', of V ts] this
  have run: "steps V (sys em ts) (sys em' ((name, ib_oid b) # ts))"
    and b: "\<not> ib_closed b" "ib_model b = name" "map_of (models em') name \<noteq> None" by auto
  have "steps V (sys em' ((name, ib_oid b) # ts)) (sys (snd (close_times k (b, em'))) ts)"
    using b assms(3) close_steps [of em' b "(name, ib_oid b) # ts" V] by (simp add: close_times_once)
  with run r show ?thesis by simp
qed

definition exchange_example :: exchange where
  "exchange_example = \<lparr>ex_built = True, ex_fired = False, ex_result = Inr 200\<rparr>"

definition route_env_example :: route_env where
  "route_env_example = \<lparr>re_hash = (\<lambda>s. 0), re_sha = id, re_float = (\<lambda>x. []), re_secret = []\<rparr>"

text \<open>An exchange on the reachable system of \<open>Serving\<close>: the request is answered and its body closed three times.\<close>

theorem internal_dispatch_refines_serving_witness:
  "\<exists>b em'. fst (DoModelRequestJSON route_env_example 0 (\<lambda>_. map snd (Enclaves model1)) (\<lambda>n. 0) [] ''m'' [] [] True
      exchange_example None (manager system1)) = Inr (200, b)
    \<and> steps trust_example (sys em' ((''m'', ib_oid b) # [])) (sys (snd (close_times 3 (b, em'))) [])"
proof -
  let ?d = "DoModelRequestJSON route_env_example 0 (\<lambda>_. map snd (Enclaves model1)) (\<lambda>n. 0) [] ''m'' [] [] True exchange_example None (manager system1)"
  have "(case fst ?d of Inl _ \<Rightarrow> 0 | Inr (st, b) \<Rightarrow> st) = 200" by code_simp
  then have "\<exists>b. fst ?d = Inr (200, b)" by (auto split: sum.splits)
  then obtain b ms sh em' where d: "?d = (Inr (200, b), ms, sh, em')" by (metis prod.collapse)
  have p: "picks (\<lambda>n. 0)" by (simp add: picks_def)
  have e: "\<forall>m. map_of (models (manager system1)) ''m'' = Some m \<longrightarrow> enumerates (\<lambda>_. map snd (Enclaves model1)) m"
    using model1_lookup by (simp add: enumerates_def)
  from internal_dispatch_refines_serving [OF p e _ d, of 3 trust_example "[]"] d show ?thesis by auto
qed

end
