(* ===== verification/Go_Utf8.thy ===== *)
theory Go_Utf8
  imports Go_Strings
begin

text \<open>
  Go's \<open>utf8.EncodeRune\<close>, \<open>utf8.DecodeRuneInString\<close>, the conversion \<open>string([]rune)\<close> and the loop
  \<open>for _, r := range s\<close>. A rune is its code point, an \<open>int\<close>; an ill-formed byte decodes to U+FFFD with
  width one, and a rune that is no scalar value encodes as U+FFFD.
\<close>

type_synonym rune = int

definition RuneError :: rune where "RuneError = 0xFFFD"

definition valid_rune :: "rune \<Rightarrow> bool" where
  "valid_rune r \<longleftrightarrow> 0 \<le> r \<and> r \<le> 0x10FFFF \<and> \<not> (0xD800 \<le> r \<and> r \<le> 0xDFFF)"

definition byte_of :: "int \<Rightarrow> char" where "byte_of n = char_of n"

definition byte_val :: "char \<Rightarrow> int" where "byte_val c = of_char c"

section \<open>Encoding\<close>

definition encode_scalar :: "rune \<Rightarrow> string" where
  "encode_scalar r =
     (if r \<le> 0x7F then [byte_of r]
      else if r \<le> 0x7FF then [byte_of (0xC0 + r div 64), byte_of (0x80 + r mod 64)]
      else if r \<le> 0xFFFF then
        [byte_of (0xE0 + r div 4096), byte_of (0x80 + r div 64 mod 64), byte_of (0x80 + r mod 64)]
      else
        [byte_of (0xF0 + r div 262144), byte_of (0x80 + r div 4096 mod 64),
         byte_of (0x80 + r div 64 mod 64), byte_of (0x80 + r mod 64)])"

definition encode_rune :: "rune \<Rightarrow> string" where
  "encode_rune r = encode_scalar (if valid_rune r then r else RuneError)"

definition string_of_runes :: "rune list \<Rightarrow> string" where
  "string_of_runes rs = concat (map encode_rune rs)"

section \<open>Decoding\<close>

definition continuation :: "char \<Rightarrow> bool" where
  "continuation c \<longleftrightarrow> 0x80 \<le> byte_val c \<and> byte_val c \<le> 0xBF"

text \<open>The range the second byte of a three or four byte sequence must lie in.\<close>

definition second_ok :: "int \<Rightarrow> char \<Rightarrow> bool" where
  "second_ok lead c \<longleftrightarrow>
     continuation c \<and>
     (lead = 0xE0 \<longrightarrow> 0xA0 \<le> byte_val c) \<and> (lead = 0xED \<longrightarrow> byte_val c \<le> 0x9F) \<and>
     (lead = 0xF0 \<longrightarrow> 0x90 \<le> byte_val c) \<and> (lead = 0xF4 \<longrightarrow> byte_val c \<le> 0x8F)"

definition decode2 :: "int \<Rightarrow> string \<Rightarrow> rune \<times> nat" where
  "decode2 b rest =
     (case rest of
        c1 # _ \<Rightarrow> if continuation c1 then ((b - 0xC0) * 64 + (byte_val c1 - 0x80), 2) else (RuneError, 1)
      | [] \<Rightarrow> (RuneError, 1))"

definition decode3 :: "int \<Rightarrow> string \<Rightarrow> rune \<times> nat" where
  "decode3 b rest =
     (case rest of
        c1 # c2 # _ \<Rightarrow>
          if second_ok b c1 \<and> continuation c2
          then ((b - 0xE0) * 4096 + (byte_val c1 - 0x80) * 64 + (byte_val c2 - 0x80), 3)
          else (RuneError, 1)
      | _ \<Rightarrow> (RuneError, 1))"

definition decode4 :: "int \<Rightarrow> string \<Rightarrow> rune \<times> nat" where
  "decode4 b rest =
     (case rest of
        c1 # c2 # c3 # _ \<Rightarrow>
          if second_ok b c1 \<and> continuation c2 \<and> continuation c3
          then ((b - 0xF0) * 262144 + (byte_val c1 - 0x80) * 4096 + (byte_val c2 - 0x80) * 64
                + (byte_val c3 - 0x80), 4)
          else (RuneError, 1)
      | _ \<Rightarrow> (RuneError, 1))"

definition decode_rune :: "string \<Rightarrow> rune \<times> nat" where
  "decode_rune s =
     (case s of
        [] \<Rightarrow> (RuneError, 0)
      | c # rest \<Rightarrow>
          let b = byte_val c in
          if b < 0x80 then (b, 1)
          else if b < 0xC2 then (RuneError, 1)
          else if b \<le> 0xDF then decode2 b rest
          else if b \<le> 0xEF then decode3 b rest
          else if b \<le> 0xF4 then decode4 b rest
          else (RuneError, 1))"

lemmas decode_defs = decode_rune_def decode2_def decode3_def decode4_def

lemma decode_rune_width:
  assumes "s \<noteq> []"
  shows "1 \<le> snd (decode_rune s)" and "snd (decode_rune s) \<le> length s"
  using assms by (auto simp: decode_defs Let_def split: list.splits)

function runes_of :: "string \<Rightarrow> rune list" where
  "runes_of s =
     (if s = [] then [] else fst (decode_rune s) # runes_of (drop (snd (decode_rune s)) s))"
  by pat_completeness auto
termination
proof (relation "measure length")
  fix s :: string
  assume "s \<noteq> []"
  then show "(drop (snd (decode_rune s)) s, s) \<in> measure length"
    using decode_rune_width(1)[of s] by simp
qed simp

declare runes_of.simps [simp del]

section \<open>Decoding inverts encoding\<close>

lemma byte_val_byte_of: "0 \<le> n \<Longrightarrow> n < 256 \<Longrightarrow> byte_val (byte_of n) = n"
  by (simp add: byte_val_def byte_of_def)

lemma byte_val_range: "0 \<le> byte_val c" "byte_val c < 256"
proof -
  have "byte_val c = byte_val c mod 256" by (simp add: byte_val_def)
  then show "0 \<le> byte_val c" "byte_val c < 256" by (metis pos_mod_sign pos_mod_bound zero_less_numeral)+
qed

lemma runes_of_Nil [simp]: "runes_of [] = []"
  by (simp add: runes_of.simps)

lemma continuation_byte_of: "0 \<le> n \<Longrightarrow> n < 64 \<Longrightarrow> continuation (byte_of (0x80 + n))"
  by (simp add: continuation_def byte_val_byte_of)

lemma decode_encode_scalar2:
  assumes "0x7F < r" and "r \<le> 0x7FF"
  shows "decode_rune (encode_scalar r @ s) = (r, 2)"
proof -
  have h: "2 \<le> r div 64" "r div 64 < 32" using assms by auto
  have m: "r div 64 * 64 + r mod 64 = r" by simp
  show ?thesis
    using assms h m
    by (simp add: encode_scalar_def decode_defs byte_val_byte_of continuation_byte_of)
qed

lemma decode_seq3:
  assumes "0 \<le> a" "a < 16" "0 \<le> b" "b < 64" "0 \<le> c" "c < 64"
    and "second_ok (0xE0 + a) (byte_of (0x80 + b))"
  shows "decode_rune (byte_of (0xE0 + a) # byte_of (0x80 + b) # byte_of (0x80 + c) # s)
           = (a * 4096 + b * 64 + c, 3)"
  using assms by (simp add: decode_rune_def decode3_def Let_def byte_val_byte_of continuation_byte_of)

lemma decode_seq4:
  assumes "0 \<le> a" "a < 5" "0 \<le> b" "b < 64" "0 \<le> c" "c < 64" "0 \<le> d" "d < 64"
    and "second_ok (0xF0 + a) (byte_of (0x80 + b))"
  shows "decode_rune (byte_of (0xF0 + a) # byte_of (0x80 + b) # byte_of (0x80 + c) # byte_of (0x80 + d) # s)
           = (a * 262144 + b * 4096 + c * 64 + d, 4)"
  using assms by (simp add: decode_rune_def decode4_def Let_def byte_val_byte_of continuation_byte_of)

lemma decode_encode_scalar3:
  assumes "0x7FF < r" and "r \<le> 0xFFFF" and "\<not> (0xD800 \<le> r \<and> r \<le> 0xDFFF)"
  shows "decode_rune (encode_scalar r @ s) = (r, 3)"
proof -
  let ?a = "r div 4096" and ?b = "r div 64 mod 64" and ?c = "r mod 64"
  have a: "0 \<le> ?a" "?a < 16" using assms by auto
  have div64: "r div 4096 = r div 64 div 64" using zdiv_zmult2_eq[of 64 r 64] by simp
  have m: "?a * 4096 + ?b * 64 + ?c = r"
    using div64 div_mult_mod_eq[of r 64] div_mult_mod_eq[of "r div 64" 64]
    by linarith
  have b: "0 \<le> ?b" "?b < 64" "0 \<le> ?c" "?c < 64" by simp_all
  have e0: "?a = 0 \<Longrightarrow> 32 \<le> ?b" using assms m b by linarith
  have ed: "?a = 13 \<Longrightarrow> ?b \<le> 31" using assms m b by linarith
  have ok: "second_ok (0xE0 + ?a) (byte_of (0x80 + ?b))"
    using a b e0 ed by (auto simp: second_ok_def continuation_byte_of byte_val_byte_of)
  have "encode_scalar r = [byte_of (0xE0 + ?a), byte_of (0x80 + ?b), byte_of (0x80 + ?c)]"
    unfolding encode_scalar_def using assms by auto
  then show ?thesis
    using decode_seq3[OF a b ok, of s] m by (metis append_Cons append_Nil)
qed

lemma decode_encode_scalar4:
  assumes "0xFFFF < r" and "r \<le> 0x10FFFF"
  shows "decode_rune (encode_scalar r @ s) = (r, 4)"
proof -
  let ?a = "r div 262144" and ?b = "r div 4096 mod 64" and ?c = "r div 64 mod 64" and ?d = "r mod 64"
  have a: "0 \<le> ?a" "?a < 5" using assms by auto
  have div64: "r div 4096 = r div 64 div 64" "r div 262144 = r div 4096 div 64"
    using zdiv_zmult2_eq[of 64 r 64] zdiv_zmult2_eq[of 64 r 4096] by simp_all
  have m: "?a * 262144 + ?b * 4096 + ?c * 64 + ?d = r"
    using div64 div_mult_mod_eq[of r 64]
      div_mult_mod_eq[of "r div 64" 64] div_mult_mod_eq[of "r div 4096" 64]
    by linarith
  have b: "0 \<le> ?b" "?b < 64" "0 \<le> ?c" "?c < 64" "0 \<le> ?d" "?d < 64" by simp_all
  have f0: "?a = 0 \<Longrightarrow> 16 \<le> ?b" using assms m b by linarith
  have f4: "?a = 4 \<Longrightarrow> ?b \<le> 15" using assms m b by linarith
  have ok: "second_ok (0xF0 + ?a) (byte_of (0x80 + ?b))"
    using a b f0 f4 by (auto simp: second_ok_def continuation_byte_of byte_val_byte_of)
  have "encode_scalar r = [byte_of (0xF0 + ?a), byte_of (0x80 + ?b), byte_of (0x80 + ?c), byte_of (0x80 + ?d)]"
    unfolding encode_scalar_def using assms by auto
  then show ?thesis
    using decode_seq4[OF a b ok, of s] m by (metis append_Cons append_Nil)
qed

lemma decode_encode_rune:
  assumes "valid_rune r"
  shows "decode_rune (encode_rune r @ s) = (r, length (encode_rune r))"
proof -
  consider "0 \<le> r \<and> r \<le> 0x7F" | "0x7F < r \<and> r \<le> 0x7FF" | "0x7FF < r \<and> r \<le> 0xFFFF"
    | "0xFFFF < r \<and> r \<le> 0x10FFFF"
    using assms by (force simp: valid_rune_def)
  then show ?thesis
  proof cases
    case 1
    then show ?thesis
      using assms by (simp add: encode_rune_def encode_scalar_def decode_defs byte_val_byte_of)
  next
    case 2
    then show ?thesis
      using assms decode_encode_scalar2[of r s] by (simp add: encode_rune_def encode_scalar_def)
  next
    case 3
    then show ?thesis
      using assms decode_encode_scalar3[of r s]
      by (simp add: encode_rune_def encode_scalar_def valid_rune_def)
  next
    case 4
    then show ?thesis
      using assms decode_encode_scalar4[of r s] by (simp add: encode_rune_def encode_scalar_def)
  qed
qed

lemma encode_rune_nonempty [simp]: "encode_rune r \<noteq> []"
  by (simp add: encode_rune_def encode_scalar_def)

lemma runes_of_encode: "list_all valid_rune rs \<Longrightarrow> runes_of (string_of_runes rs) = rs"
  by (induction rs) (auto simp: string_of_runes_def runes_of.simps decode_encode_rune)

lemma string_of_runes_append [simp]:
  "string_of_runes (xs @ ys) = string_of_runes xs @ string_of_runes ys"
  by (simp add: string_of_runes_def)

lemma string_of_runes_Nil [simp]: "string_of_runes [] = []"
  by (simp add: string_of_runes_def)

lemma string_of_runes_Cons: "string_of_runes (x # xs) = encode_rune x @ string_of_runes xs"
  by (simp add: string_of_runes_def)

lemma decode3_valid:
  assumes "0xE0 \<le> b" and "b \<le> 0xEF"
  shows "valid_rune (fst (decode3 b rest))"
proof (cases "\<exists>c1 c2 t. rest = c1 # c2 # t \<and> second_ok b c1 \<and> continuation c2")
  case True
  then obtain c1 c2 t where r: "rest = c1 # c2 # t" and s: "second_ok b c1" and c: "continuation c2"
    by blast
  consider "b \<le> 0xEC" | "b = 0xED" | "0xEE \<le> b" by linarith
  then show ?thesis
    using r s c assms
    by cases (auto simp: decode3_def valid_rune_def second_ok_def continuation_def)
next
  case False
  then have "fst (decode3 b rest) = RuneError"
    by (auto simp: decode3_def split: list.splits)
  then show ?thesis by (simp add: RuneError_def valid_rune_def)
qed

lemma decode4_valid:
  assumes "0xF0 \<le> b" and "b \<le> 0xF4"
  shows "valid_rune (fst (decode4 b rest))"
proof (cases "\<exists>c1 c2 c3 t. rest = c1 # c2 # c3 # t \<and> second_ok b c1 \<and> continuation c2 \<and> continuation c3")
  case True
  then obtain c1 c2 c3 t where r: "rest = c1 # c2 # c3 # t" and s: "second_ok b c1"
    and c: "continuation c2" "continuation c3"
    by blast
  have "0x10000 \<le> fst (decode4 b rest) \<and> fst (decode4 b rest) \<le> 0x10FFFF"
    using assms r s c by (cases "b = 0xF0"; cases "b = 0xF4") (auto simp: decode4_def second_ok_def continuation_def)
  then show ?thesis by (simp add: valid_rune_def)
next
  case False
  then have "fst (decode4 b rest) = RuneError"
    by (auto simp: decode4_def split: list.splits)
  then show ?thesis by (simp add: RuneError_def valid_rune_def)
qed

lemma decode2_valid: "0xC2 \<le> b \<Longrightarrow> b \<le> 0xDF \<Longrightarrow> valid_rune (fst (decode2 b rest))"
  by (auto simp: decode2_def RuneError_def valid_rune_def continuation_def split: list.splits)

lemma decode_rune_valid: "valid_rune (fst (decode_rune s))"
proof (cases s)
  case Nil
  then show ?thesis by (simp add: decode_rune_def RuneError_def valid_rune_def)
next
  case (Cons c rest)
  have "valid_rune RuneError" by (simp add: RuneError_def valid_rune_def)
  moreover have "byte_val c < 0x80 \<Longrightarrow> valid_rune (byte_val c)"
    using byte_val_range(1)[of c] by (simp add: valid_rune_def)
  ultimately show ?thesis
    by (simp add: Cons decode_rune_def Let_def decode2_valid decode3_valid decode4_valid)
qed

lemma runes_of_valid: "list_all valid_rune (runes_of s)"
proof (induction s rule: runes_of.induct)
  case (1 s)
  then show ?case
    by (cases "s = []") (simp_all add: runes_of.simps[of s] decode_rune_valid)
qed

end
