(* ===== verification/Citation_State.thy ===== *)
theory Citation_State
  imports Json_Value Go_Utf8
begin

text \<open>
  The citation state of \<open>toolruntime/citations/state.go\<close>: the sources recorded during a tool loop, the
  lookup of a source by URL, and the passes over finished text that rewrite Harmony citations and
  fullwidth links and find the links to annotate.

  Text is a byte list. The package's regular expressions are written out as matchers on bytes: each
  of them excludes its own delimiters from its repeated classes, so the leftmost match is unique and
  needs no backtracking, and the multi-byte delimiters start with a UTF-8 lead byte, so a byte
  position where they occur is a rune boundary. A \<open>nil\<close> state is \<open>None\<close>. The functions of \<open>net/url\<close> and
  \<open>strings.ToLower\<close> on host names are the fields of a parameter \<open>url_lib\<close>.
\<close>

section \<open>Sources\<close>

record Source =
  Index :: int
  URL :: string
  Title :: string

record State =
  NextIndex :: int
  Sources :: "Source list"
  Harmony :: bool

definition CitationTitle :: "Source \<Rightarrow> string" where
  "CitationTitle s = (if TrimSpace (Title s) = [] then URL s else Title s)"

definition Record :: "string \<Rightarrow> string \<Rightarrow> State option \<Rightarrow> int \<times> State option" where
  "Record url title c =
     (case c of
        None \<Rightarrow> (1, None)
      | Some st \<Rightarrow>
          let index = (if NextIndex st \<le> 0 then 1 else NextIndex st) in
          (index,
           Some (st\<lparr>NextIndex := index + 1,
                    Sources := Sources st @ [\<lparr>Index = index, URL = url, Title = title\<rparr>]\<rparr>)))"

section \<open>URL normalisation\<close>

text \<open>\<open>url.URL\<close> of the standard library; \<open>User\<close> is kept as its encoded text.\<close>

record goURL =
  Scheme :: string
  Opaque :: string
  User :: "string option"
  Host :: string
  Path :: string
  RawPath :: string
  OmitHost :: bool
  ForceQuery :: bool
  RawQuery :: string
  Fragment :: string
  RawFragment :: string

record url_lib =
  lib_Parse :: "string \<Rightarrow> goURL option"
  lib_ParseQuery :: "string \<Rightarrow> (string, string list) gomap"
  lib_Encode :: "(string, string list) gomap \<Rightarrow> string"
  lib_String :: "goURL \<Rightarrow> string"
  lib_ToLower :: "string \<Rightarrow> string"

definition citationTrackingParams :: "string list" where
  "citationTrackingParams =
     [''utm_source'', ''utm_medium'', ''utm_campaign'', ''utm_term'', ''utm_content'', ''utm_id'',
      ''fbclid'', ''gclid'', ''mc_cid'', ''mc_eid'', ''ref'', ''ref_src'']"

text \<open>The ranges of \<open>unicode.Cf\<close>.\<close>

definition unicode_Cf :: "(rune \<times> rune) list" where
  "unicode_Cf =
     [(0xAD, 0xAD), (0x600, 0x605), (0x61C, 0x61C), (0x6DD, 0x6DD), (0x70F, 0x70F), (0x890, 0x891),
      (0x8E2, 0x8E2), (0x180E, 0x180E), (0x200B, 0x200F), (0x202A, 0x202E), (0x2060, 0x2064),
      (0x2066, 0x206F), (0xFEFF, 0xFEFF), (0xFFF9, 0xFFFB), (0x110BD, 0x110BD), (0x110CD, 0x110CD),
      (0x13430, 0x1343F), (0x1BCA0, 0x1BCA3), (0x1D173, 0x1D17A), (0xE0001, 0xE0001),
      (0xE0020, 0xE007F)]"

definition shouldStripRune :: "rune \<Rightarrow> bool" where
  "shouldStripRune r \<longleftrightarrow>
     r \<in> set [0x200B, 0x200C, 0x200D, 0x200E, 0x200F, 0x2028, 0x2029, 0x202A, 0x202B, 0x202C, 0x202D,
             0x202E, 0x2060, 0x2061, 0x2062, 0x2063, 0x2064, 0xFEFF]
     \<or> list_ex (\<lambda>(lo, hi). lo \<le> r \<and> r \<le> hi) unicode_Cf"

definition stripInvisibleRunes :: "string \<Rightarrow> string" where
  "stripInvisibleRunes raw =
     (let rs = runes_of raw in
      if list_ex shouldStripRune rs
      then string_of_runes (filter (\<lambda>r. \<not> shouldStripRune r) rs) else raw)"

definition TrimRightChar :: "char \<Rightarrow> string \<Rightarrow> string" where
  "TrimRightChar c s = rev (dropWhile (\<lambda>x. x = c) (rev s))"

definition NormalizeURL :: "url_lib \<Rightarrow> string \<Rightarrow> string" where
  "NormalizeURL lib raw0 =
     (let raw = TrimSpace (stripInvisibleRunes raw0) in
      if raw = [] then []
      else case lib_Parse lib raw of
             None \<Rightarrow> raw
           | Some u \<Rightarrow>
               let query = lib_ParseQuery lib (RawQuery u);
                   kept = filter (\<lambda>(k, _). lib_ToLower lib k \<notin> set citationTrackingParams) query
               in lib_String lib
                    (u\<lparr>Scheme := lib_ToLower lib (Scheme u),
                       Host := TrimPrefix (lib_ToLower lib (Host u)) ''www.'',
                       Path := (if 1 < length (Path u) then TrimRightChar CHR ''/'' (Path u) else Path u),
                       RawQuery := (if query = [] then RawQuery u else lib_Encode lib kept),
                       Fragment := [], RawFragment := []\<rparr>))"

section \<open>Resolving a URL\<close>

text \<open>One iteration of the loop over the sources: keep the first match, replaced by a titled one.\<close>

definition better :: "Source option \<Rightarrow> Source \<Rightarrow> Source option" where
  "better best s =
     (case best of
        None \<Rightarrow> Some s
      | Some b \<Rightarrow> if Title b = [] \<and> Title s \<noteq> [] then Some s else Some b)"

definition ResolveSource :: "url_lib \<Rightarrow> State option \<Rightarrow> string \<Rightarrow> Source option" where
  "ResolveSource lib c url =
     (case c of
        None \<Rightarrow> None
      | Some st \<Rightarrow>
          if url = [] then None
          else let target = NormalizeURL lib url in
               if target = [] then None
               else foldl (\<lambda>best s. if NormalizeURL lib (URL s) \<noteq> target then best else better best s)
                      None (Sources st))"

text \<open>The table \<open>MatchesFor\<close> builds before it looks at the text.\<close>

definition add_by_URL :: "url_lib \<Rightarrow> (string, Source) gomap \<Rightarrow> Source \<Rightarrow> (string, Source) gomap" where
  "add_by_URL lib m s =
     (if URL s = [] then m
      else let key = NormalizeURL lib (URL s) in
           if key = [] then m
           else case map_of m key of
                  None \<Rightarrow> AList.update key s m
                | Some existing \<Rightarrow>
                    if Title existing = [] \<and> Title s \<noteq> [] then AList.update key s m else m)"

definition by_URL :: "url_lib \<Rightarrow> State \<Rightarrow> (string, Source) gomap" where
  "by_URL lib st = foldl (add_by_URL lib) [] (Sources st)"

section \<open>Harmony citations and fullwidth links\<close>

definition fullwidth_open :: string where "fullwidth_open = [byte 0xE3, byte 0x80, byte 0x90]"
definition fullwidth_close :: string where "fullwidth_close = [byte 0xE3, byte 0x80, byte 0x91]"
definition dagger :: string where "dagger = [byte 0xE2, byte 0x80, byte 0xA0]"

fun contains :: "string \<Rightarrow> string \<Rightarrow> bool" where
  "contains p [] = (p = [])"
| "contains p (c # cs) = (HasPrefix (c # cs) p \<or> contains p cs)"

text \<open>
  \<open>ReplaceAll\<close> over a matcher that returns the replacement and the number of bytes it consumes; a
  match is never empty.
\<close>

function replace_all :: "(string \<Rightarrow> (string \<times> nat) option) \<Rightarrow> string \<Rightarrow> string" where
  "replace_all m [] = []"
| "replace_all m (c # cs) =
     (case m (c # cs) of
        Some (rep, n) \<Rightarrow> rep @ replace_all m (drop (n - 1) cs)
      | None \<Rightarrow> c # replace_all m cs)"
  by pat_completeness auto
termination by (relation "measure (\<lambda>(_, s). length s)") auto

definition is_digit :: "char \<Rightarrow> bool" where "is_digit c \<longleftrightarrow> digit_val c \<noteq> None"

text \<open>\<open>L\d+\<close>: the rest of the text after it.\<close>

definition line_ref :: "string \<Rightarrow> string option" where
  "line_ref s =
     (case s of
        c # rest \<Rightarrow>
          if c = CHR ''L'' \<and> takeWhile is_digit rest \<noteq> [] then Some (dropWhile is_digit rest) else None
      | [] \<Rightarrow> None)"

text \<open>The optional \<open>\<dagger>L\d+(-L\d+)?\<close>, followed by the closing bracket.\<close>

definition harmony_tail :: "string \<Rightarrow> string option" where
  "harmony_tail s =
     (case CutPrefix s fullwidth_close of
        Some rest \<Rightarrow> Some rest
      | None \<Rightarrow>
          (case CutPrefix s dagger of
             None \<Rightarrow> None
           | Some s1 \<Rightarrow>
               (case line_ref s1 of
                  None \<Rightarrow> None
                | Some s2 \<Rightarrow>
                    (case CutPrefix s2 fullwidth_close of
                       Some rest \<Rightarrow> Some rest
                     | None \<Rightarrow>
                         (case CutPrefix s2 ''-'' of
                            None \<Rightarrow> None
                          | Some s3 \<Rightarrow>
                              (case line_ref s3 of
                                 None \<Rightarrow> None
                               | Some s4 \<Rightarrow> CutPrefix s4 fullwidth_close))))))"

text \<open>\<open>harmonyCitationPattern\<close> at the start of \<open>s\<close>: the cursor digits and the text after the match.\<close>

definition harmony_match :: "string \<Rightarrow> (string \<times> string) option" where
  "harmony_match s =
     (case CutPrefix s fullwidth_open of
        None \<Rightarrow> None
      | Some s1 \<Rightarrow>
          let ds = takeWhile is_digit s1 in
          if ds = [] then None
          else case harmony_tail (dropWhile is_digit s1) of None \<Rightarrow> None | Some rest \<Rightarrow> Some (ds, rest))"

definition harmony_rewrite :: "State \<Rightarrow> string \<Rightarrow> (string \<times> nat) option" where
  "harmony_rewrite st s =
     (case harmony_match s of
        None \<Rightarrow> None
      | Some (ds, rest) \<Rightarrow>
          let n = length s - length rest in
          (case ParseInt64 ds of
             None \<Rightarrow> Some (take n s, n)
           | Some cursor \<Rightarrow>
               (case find (\<lambda>src. Index src = cursor) (Sources st) of
                  None \<Rightarrow> Some (take n s, n)
                | Some src \<Rightarrow>
                    let title = (if Title src = [] then ''Source'' else Title src) in
                    Some (''['' @ title @ '']('' @ URL src @ '')'', n))))"

definition ResolveHarmonyCitations :: "State option \<Rightarrow> string \<Rightarrow> string" where
  "ResolveHarmonyCitations c text =
     (case c of
        None \<Rightarrow> text
      | Some st \<Rightarrow>
          if \<not> Harmony st \<or> \<not> contains fullwidth_open text then text
          else replace_all (harmony_rewrite st) text)"

text \<open>\<open>https?://[^\s)]+\)\<close>: the URL and the text after the closing parenthesis. \<open>\s\<close> is tab, line feed, form feed, carriage return and space.\<close>

definition regex_space :: "char \<Rightarrow> bool" where
  "regex_space c \<longleftrightarrow> c \<in> set [byte 9, byte 10, byte 12, byte 13, byte 32]"

definition url_part :: "string \<Rightarrow> (string \<times> string) option" where
  "url_part s =
     (let stop = (\<lambda>c. regex_space c \<or> c = CHR '')'');
          u = takeWhile (\<lambda>c. \<not> stop c) s;
          after = dropWhile (\<lambda>c. \<not> stop c) s;
          scheme = (if HasPrefix u ''https://'' then 8 else if HasPrefix u ''http://'' then 7 else 0)
      in if scheme = 0 \<or> length u \<le> scheme then None
         else case after of
                c # rest \<Rightarrow> if c = CHR '')'' then Some (u, rest) else None
              | [] \<Rightarrow> None)"

text \<open>\<open>[^\u3011\]]+\<close> followed by either closing bracket: the label and the text after the bracket.\<close>

fun wide_label :: "string \<Rightarrow> (string \<times> string) option" where
  "wide_label [] = None"
| "wide_label (c # cs) =
     (if c = CHR '']'' then Some ([], cs)
      else case CutPrefix (c # cs) fullwidth_close of
             Some rest \<Rightarrow> Some ([], rest)
           | None \<Rightarrow> (case wide_label cs of None \<Rightarrow> None | Some (l, rest) \<Rightarrow> Some (c # l, rest)))"

definition wide_rewrite :: "string \<Rightarrow> (string \<times> nat) option" where
  "wide_rewrite s =
     (case CutPrefix s fullwidth_open of
        None \<Rightarrow> None
      | Some s1 \<Rightarrow>
          (case wide_label s1 of
             None \<Rightarrow> None
           | Some (label, s2) \<Rightarrow>
               if label = [] then None
               else case CutPrefix s2 ''('' of
                      None \<Rightarrow> None
                    | Some s3 \<Rightarrow>
                        (case url_part s3 of
                           None \<Rightarrow> None
                         | Some (u, rest) \<Rightarrow>
                             Some (''['' @ label @ '']('' @ u @ '')'', length s - length rest))))"

definition NormalizeLinks :: "string \<Rightarrow> string" where
  "NormalizeLinks text =
     (if text = [] \<or> \<not> contains fullwidth_open text then text else replace_all wide_rewrite text)"

section \<open>Matching links in finished text\<close>

text \<open>\<open>MarkdownLinkPattern\<close> at the start of \<open>s\<close>: the label, the URL and the text after the match.\<close>

definition markdown_match :: "string \<Rightarrow> (string \<times> string \<times> string) option" where
  "markdown_match s =
     (case s of
        [] \<Rightarrow> None
      | c # s1 \<Rightarrow>
          if c \<noteq> CHR ''['' then None
          else let label = takeWhile (\<lambda>x. x \<noteq> CHR '']'') s1 in
               if label = [] then None
               else case CutPrefix (dropWhile (\<lambda>x. x \<noteq> CHR '']'') s1) ''](''  of
                      None \<Rightarrow> None
                    | Some s2 \<Rightarrow>
                        (case url_part s2 of None \<Rightarrow> None | Some (u, rest) \<Rightarrow> Some (label, u, rest)))"

text \<open>
  \<open>FindAllStringSubmatchIndex\<close>: for each match the start and end of the label, and the URL; \<open>pos\<close> is the
  byte offset of the text still to scan.
\<close>

function find_links :: "nat \<Rightarrow> string \<Rightarrow> (nat \<times> nat \<times> string) list" where
  "find_links pos [] = []"
| "find_links pos (c # cs) =
     (case markdown_match (c # cs) of
        None \<Rightarrow> find_links (pos + 1) cs
      | Some (label, u, rest) \<Rightarrow>
          let n = length (c # cs) - length rest in
          (pos + 1, pos + 1 + length label, u) # find_links (pos + max 1 n) (drop (n - 1) cs))"
  by pat_completeness auto
termination by (relation "measure (\<lambda>(_, s). length s)") auto

record byteToRuneIndex =
  bri_text :: string
  lastByte :: nat
  lastRune :: nat

definition newByteToRuneIndex :: "string \<Rightarrow> byteToRuneIndex" where
  "newByteToRuneIndex text = \<lparr>bri_text = text, lastByte = 0, lastRune = 0\<rparr>"

function advance :: "string \<Rightarrow> nat \<Rightarrow> nat \<Rightarrow> nat \<Rightarrow> nat \<times> nat" where
  "advance text off b r =
     (if b < off \<and> b < length text
      then let size = snd (decode_rune (drop b text)) in
           if size = 0 then (b, r) else advance text off (b + size) (r + 1)
      else (b, r))"
  by pat_completeness auto
termination by (relation "measure (\<lambda>(text, off, b, r). length text - b)") auto

declare advance.simps [simp del]

definition convert :: "nat \<Rightarrow> byteToRuneIndex \<Rightarrow> nat \<times> byteToRuneIndex" where
  "convert off i =
     (let (b0, r0) = (if off \<le> lastByte i then (0, 0) else (lastByte i, lastRune i));
          (b, r) = advance (bri_text i) off b0 r0
      in (r, i\<lparr>lastByte := b, lastRune := r\<rparr>))"

record Annotation =
  StartIndex :: int
  EndIndex :: int
  ann_source :: Source

fun match_links ::
  "url_lib \<Rightarrow> (string, Source) gomap \<Rightarrow> byteToRuneIndex \<Rightarrow> (nat \<times> nat \<times> string) list \<Rightarrow> Annotation list" where
  "match_links lib m i [] = []"
| "match_links lib m i ((ls, le, u) # more_links) =
     (case map_of m (NormalizeURL lib u) of
        None \<Rightarrow> match_links lib m i more_links
      | Some src \<Rightarrow>
          let (s, i1) = convert ls i; (e, i2) = convert le i1 in
          \<lparr>StartIndex = int s, EndIndex = int e, ann_source = src\<lparr>URL := u\<rparr>\<rparr> # match_links lib m i2 more_links)"

definition MatchesFor :: "url_lib \<Rightarrow> State option \<Rightarrow> string \<Rightarrow> Annotation list" where
  "MatchesFor lib c text =
     (case c of
        None \<Rightarrow> []
      | Some st \<Rightarrow>
          if Sources st = [] \<or> text = [] then []
          else if by_URL lib st = [] then []
          else match_links lib (by_URL lib st) (newByteToRuneIndex text) (find_links 0 text))"

section \<open>Annotations on the wire\<close>

definition nested_annotation :: "Annotation \<Rightarrow> json" where
  "nested_annotation a =
     JObject
       [(''type'', JString ''url_citation''),
        (''url_citation'',
         JObject
           [(''url'', JString (URL (ann_source a))), (''title'', JString (CitationTitle (ann_source a))),
            (''start_index'', JInt (StartIndex a)), (''end_index'', JInt (EndIndex a))])]"

definition NestedAnnotationsFor :: "url_lib \<Rightarrow> State option \<Rightarrow> string \<Rightarrow> json list" where
  "NestedAnnotationsFor lib c text = map nested_annotation (MatchesFor lib c text)"

definition flat_annotation :: "Annotation \<Rightarrow> json" where
  "flat_annotation a =
     JObject
       [(''type'', JString ''url_citation''), (''start_index'', JInt (StartIndex a)),
        (''end_index'', JInt (EndIndex a)), (''url'', JString (URL (ann_source a))),
        (''title'', JString (CitationTitle (ann_source a)))]"

definition FlatAnnotationsFor :: "url_lib \<Rightarrow> State option \<Rightarrow> string \<Rightarrow> json list" where
  "FlatAnnotationsFor lib c text = map flat_annotation (MatchesFor lib c text)"

definition shift_int :: "string \<Rightarrow> int \<Rightarrow> json_object \<Rightarrow> json_object" where
  "shift_int k offset m = (case field m k of JInt n \<Rightarrow> AList.update k (JInt (n + offset)) m | _ \<Rightarrow> m)"

definition shift_indices :: "int \<Rightarrow> json_object \<Rightarrow> json_object" where
  "shift_indices offset m = shift_int ''end_index'' offset (shift_int ''start_index'' offset m)"

definition ShiftNestedAnnotationIndices :: "json list \<Rightarrow> int \<Rightarrow> json list" where
  "ShiftNestedAnnotationIndices annotations offset =
     (if offset = 0 then annotations
      else map (\<lambda>raw.
             case raw of
               JObject ann \<Rightarrow>
                 (case field ann ''url_citation'' of
                    JObject inner \<Rightarrow>
                      JObject (AList.update ''url_citation'' (JObject (shift_indices offset inner)) ann)
                  | _ \<Rightarrow> raw)
             | _ \<Rightarrow> raw) annotations)"

definition ShiftFlatAnnotationIndices :: "json list \<Rightarrow> int \<Rightarrow> json list" where
  "ShiftFlatAnnotationIndices annotations offset =
     (if offset = 0 then annotations
      else map (\<lambda>raw. case raw of JObject ann \<Rightarrow> JObject (shift_indices offset ann) | _ \<Rightarrow> raw) annotations)"

section \<open>The two lookups agree\<close>

lemma NormalizeURL_Nil [simp]: "NormalizeURL lib [] = []"
  by (simp add: NormalizeURL_def stripInvisibleRunes_def)

lemma map_of_add_by_URL:
  "k \<noteq> [] \<Longrightarrow>
   map_of (add_by_URL lib m s) k = (if NormalizeURL lib (URL s) \<noteq> k then map_of m k else better (map_of m k) s)"
  by (auto simp: add_by_URL_def better_def Let_def split: option.splits)

lemma map_of_by_URL:
  assumes "k \<noteq> []"
  shows "map_of (foldl (add_by_URL lib) m ss) k
           = foldl (\<lambda>best s. if NormalizeURL lib (URL s) \<noteq> k then best else better best s) (map_of m k) ss"
  using assms by (induction ss arbitrary: m) (simp_all add: map_of_add_by_URL)

lemma map_of_by_URL_Nil: "map_of m [] = None \<Longrightarrow> map_of (foldl (add_by_URL lib) m ss) [] = None"
proof (induction ss arbitrary: m)
  case (Cons s ss)
  have "map_of (add_by_URL lib m s) [] = None"
    using Cons.prems by (auto simp: add_by_URL_def Let_def split: option.splits)
  then show ?case using Cons.IH by simp
qed simp

lemma by_URL_is_ResolveSource: "map_of (by_URL lib st) (NormalizeURL lib u) = ResolveSource lib (Some st) u"
  by (cases "NormalizeURL lib u = []")
    (auto simp: by_URL_def ResolveSource_def Let_def map_of_by_URL_Nil map_of_by_URL)

lemma foldl_better:
  "foldl (\<lambda>best s. if P s then best else better best s) b ss = foldl better b (filter (\<lambda>s. \<not> P s) ss)"
  by (induction ss arbitrary: b) simp_all

lemma foldl_better_Some:
  "foldl better (Some b) ss
     = Some (if Title b = [] then (case find (\<lambda>s. Title s \<noteq> []) ss of None \<Rightarrow> b | Some s \<Rightarrow> s) else b)"
  by (induction ss arbitrary: b) (simp_all add: better_def)

text \<open>The source chosen: the first titled one among those with the URL, the first of them if none is titled.\<close>

definition best_source :: "url_lib \<Rightarrow> Source list \<Rightarrow> string \<Rightarrow> Source option" where
  "best_source lib ss target =
     (case filter (\<lambda>s. NormalizeURL lib (URL s) = target) ss of
        [] \<Rightarrow> None
      | s # rest \<Rightarrow> (case find (\<lambda>s. Title s \<noteq> []) (s # rest) of None \<Rightarrow> Some s | Some t \<Rightarrow> Some t))"

lemma ResolveSource_best:
  "ResolveSource lib (Some st) u =
     (if NormalizeURL lib u = [] then None else best_source lib (Sources st) (NormalizeURL lib u))"
  by (cases "u = []")
    (auto simp: ResolveSource_def Let_def foldl_better best_source_def better_def foldl_better_Some
          split: list.splits option.splits)

lemma ResolveSource_SomeD:
  assumes "ResolveSource lib (Some st) u = Some s"
  shows "s \<in> set (Sources st)" and "NormalizeURL lib (URL s) = NormalizeURL lib u"
proof -
  have "best_source lib (Sources st) (NormalizeURL lib u) = Some s"
    using assms by (simp add: ResolveSource_best split: if_splits)
  moreover have "find P xs = Some s \<Longrightarrow> s \<in> set xs" for P xs
    by (auto simp: find_Some_iff)
  ultimately have "s \<in> set (filter (\<lambda>s. NormalizeURL lib (URL s) = NormalizeURL lib u) (Sources st))"
    unfolding best_source_def by (auto simp del: set_filter split: list.splits option.splits if_splits)
  then show "s \<in> set (Sources st)" and "NormalizeURL lib (URL s) = NormalizeURL lib u" by auto
qed

section \<open>Byte offsets and rune offsets\<close>

definition rune_offset :: "string \<Rightarrow> nat \<Rightarrow> nat" where
  "rune_offset text off = snd (advance text off 0 0)"

definition index_ok :: "byteToRuneIndex \<Rightarrow> bool" where
  "index_ok i \<longleftrightarrow> advance (bri_text i) (lastByte i) 0 0 = (lastByte i, lastRune i)"

lemma advance_mono_target:
  assumes "advance t b1 b r = (b1, r1)" and "b1 \<le> off"
  shows "advance t off b r = advance t off b1 r1"
  using assms
proof (induction t b1 b r rule: advance.induct)
  case (1 t b1 b r)
  let ?size = "snd (decode_rune (drop b t))"
  show ?case
  proof (cases "b < b1 \<and> b < length t")
    case True
    then have sz: "?size \<noteq> 0" using decode_rune_width(1)[of "drop b t"] by simp
    have step: "advance t b1 b r = advance t b1 (b + ?size) (r + 1)"
      using True sz by (subst advance.simps) (simp add: Let_def)
    have "advance t off b r = advance t off (b + ?size) (r + 1)"
      using True sz 1(3) by (subst advance.simps) (simp add: Let_def)
    also have "\<dots> = advance t off b1 r1"
      using 1(1)[OF True refl sz] 1(2,3) step by simp
    finally show ?thesis .
  next
    case False
    then have "advance t b1 b r = (b, r)" by (subst advance.simps) auto
    then show ?thesis using 1(2) by simp
  qed
qed

lemma advance_le: "advance t off b r = (b1, r1) \<Longrightarrow> b \<le> b1"
proof (induction t off b r rule: advance.induct)
  case (1 t off b r)
  let ?size = "snd (decode_rune (drop b t))"
  show ?case
  proof (cases "b < off \<and> b < length t \<and> ?size \<noteq> 0")
    case True
    then have "advance t off (b + ?size) (r + 1) = (b1, r1)"
      using 1(2) by (subst (asm) advance.simps) (simp add: Let_def)
    then show ?thesis using True 1(1)[OF _ refl] by fastforce
  next
    case False
    then show ?thesis using 1(2) by (subst (asm) advance.simps) (auto simp: Let_def split: if_splits)
  qed
qed

lemma advance_reaches:
  assumes "advance t off b r = (b1, r1)" and "b \<le> b1"
  shows "advance t b1 b r = (b1, r1)"
  using assms
proof (induction t off b r rule: advance.induct)
  case (1 t off b r)
  let ?size = "snd (decode_rune (drop b t))"
  show ?case
  proof (cases "b < off \<and> b < length t")
    case True
    then have sz: "?size \<noteq> 0" using decode_rune_width(1)[of "drop b t"] by simp
    have step: "advance t off (b + ?size) (r + 1) = (b1, r1)"
      using True sz 1(2) by (subst (asm) advance.simps) (simp add: Let_def)
    show ?thesis
    proof (cases "b + ?size \<le> b1")
      case le: True
      then show ?thesis
        using 1(1)[OF True refl sz step le] sz True by (subst advance.simps) (simp add: Let_def)
    next
      case False
      then show ?thesis using step advance_le[OF step] by simp
    qed
  next
    case False
    then have "(b1, r1) = (b, r)" using 1(2) by (subst (asm) advance.simps) auto
    then show ?thesis by (subst advance.simps) simp
  qed
qed

lemma convert_correct:
  assumes "index_ok i"
  shows "fst (convert off i) = rune_offset (bri_text i) off"
    and "index_ok (snd (convert off i))" and "bri_text (snd (convert off i)) = bri_text i"
proof -
  let ?start = "if off \<le> lastByte i then (0, 0) else (lastByte i, lastRune i)"
  obtain b r where br: "advance (bri_text i) off 0 0 = (b, r)" by fastforce
  have same: "advance (bri_text i) off (fst ?start) (snd ?start) = (b, r)"
    using assms br advance_mono_target[of "bri_text i" "lastByte i" 0 0 "lastRune i" off]
    by (auto simp: index_ok_def)
  then have conv: "convert off i = (r, i\<lparr>lastByte := b, lastRune := r\<rparr>)"
    by (auto simp: convert_def Let_def split: if_splits)
  then show "fst (convert off i) = rune_offset (bri_text i) off"
    and "bri_text (snd (convert off i)) = bri_text i"
    using br by (simp_all add: rune_offset_def)
  show "index_ok (snd (convert off i))"
    using conv advance_reaches[OF br] by (simp add: index_ok_def)
qed

lemma index_ok_new [simp]: "index_ok (newByteToRuneIndex t)"
  by (simp add: index_ok_def newByteToRuneIndex_def advance.simps)

lemma decode_rune_before_ascii:
  assumes "pre \<noteq> []" and "byte_val c < 0x80"
  shows "decode_rune (pre @ c # rest) = decode_rune pre"
proof -
  have nc: "\<not> continuation c" using assms by (simp add: continuation_def)
  obtain x xs where pre: "pre = x # xs" using assms by (cases pre) auto
  have "decode2 b (xs @ c # rest) = decode2 b xs" "decode3 b (xs @ c # rest) = decode3 b xs"
    "decode4 b (xs @ c # rest) = decode4 b xs" for b
    using nc by (auto simp: decode2_def decode3_def decode4_def second_ok_def Cons_eq_append_conv
                      split: list.splits)
  then show ?thesis by (simp add: pre decode_rune_def Let_def)
qed

lemma runes_of_ascii: "byte_val c < 0x80 \<Longrightarrow> runes_of (c # rest) = byte_val c # runes_of rest"
  by (subst runes_of.simps) (simp add: decode_rune_def)

lemma runes_of_split_ascii:
  assumes "byte_val c < 0x80"
  shows "runes_of (pre @ c # rest) = runes_of pre @ byte_val c # runes_of rest"
proof (induction pre rule: runes_of.induct)
  case (1 pre)
  show ?case
  proof (cases "pre = []")
    case True
    then show ?thesis using assms by (simp add: runes_of_ascii)
  next
    case False
    then have "runes_of (pre @ c # rest)
        = fst (decode_rune pre) # runes_of (drop (snd (decode_rune pre)) pre @ c # rest)"
      using assms decode_rune_width(2)[OF False]
      by (subst runes_of.simps) (simp add: decode_rune_before_ascii)
    also have "\<dots> = runes_of pre @ byte_val c # runes_of rest"
      using False 1 by (simp add: runes_of.simps[of pre])
    finally show ?thesis .
  qed
qed

lemma advance_over:
  assumes "byte_val c < 0x80"
  shows "advance (p @ pre @ c # rest) (length p + length pre) (length p) r
           = (length p + length pre, r + length (runes_of pre))"
proof (induction pre arbitrary: p r rule: runes_of.induct)
  case (1 pre)
  show ?case
  proof (cases "pre = []")
    case True
    then show ?thesis by (simp add: advance.simps)
  next
    case False
    let ?n = "snd (decode_rune pre)"
    have n: "1 \<le> ?n" "?n \<le> length pre" using decode_rune_width[OF False] by auto
    have split: "take ?n pre @ drop ?n pre @ c # rest = pre @ c # rest" by (metis append.assoc append_take_drop_id)
    have "advance (p @ pre @ c # rest) (length p + length pre) (length p) r
        = advance (p @ pre @ c # rest) (length p + length pre) (length p + ?n) (r + 1)"
      using False n assms by (subst advance.simps) (simp add: decode_rune_before_ascii Let_def)
    also have "\<dots> = (length p + length pre, r + 1 + length (runes_of (drop ?n pre)))"
      using 1(1)[OF False, of "p @ take ?n pre" "r + 1"] n by (simp add: min_absorb2 split)
    finally show ?thesis using False by (simp add: runes_of.simps[of pre])
  qed
qed

lemma rune_offset_ascii: "byte_val c < 0x80 \<Longrightarrow> rune_offset (pre @ c # rest) (length pre) = length (runes_of pre)"
  using advance_over[of c "[]" pre rest 0] by (simp add: rune_offset_def)

lemma rune_offset_after_ascii:
  assumes "byte_val c < 0x80"
  shows "rune_offset (pre @ c # rest) (length pre + 1) = length (runes_of pre) + 1"
proof -
  let ?t = "pre @ c # rest" and ?n = "length (runes_of pre)"
  have at_c: "advance ?t (length pre) 0 0 = (length pre, ?n)"
    using advance_over[OF assms, of "[]" pre rest 0] by simp
  have "advance ?t (length pre + 1) 0 0 = advance ?t (length pre + 1) (length pre) ?n"
    by (rule advance_mono_target[OF at_c]) simp
  also have "\<dots> = advance ?t (length pre + 1) (length pre + 1) (?n + 1)"
    using assms by (subst advance.simps) (simp add: decode_rune_def)
  also have "\<dots> = (length pre + 1, ?n + 1)" by (subst advance.simps) simp
  finally show ?thesis by (simp add: rune_offset_def)
qed

section \<open>What the links of a finished text are\<close>

lemma url_part_SomeD: "url_part s = Some (u, rest) \<Longrightarrow> s = u @ CHR '')'' # rest"
  unfolding url_part_def Let_def
  by (auto split: if_splits list.splits simp: dropWhile_eq_Cons_conv)

lemma CutPrefix_SomeD: "CutPrefix s p = Some r \<Longrightarrow> s = p @ r"
  unfolding CutPrefix_def HasPrefix_def by (metis append_take_drop_id option.distinct(1) option.inject)

lemma markdown_match_SomeD:
  assumes "markdown_match s = Some (label, u, rest)"
  shows "s = ''['' @ label @ '']('' @ u @ '')'' @ rest" and "label \<noteq> []"
proof -
  obtain s1 s2 where s1: "s = CHR ''['' # s1" and label: "label = takeWhile (\<lambda>x. x \<noteq> CHR '']'') s1"
    and ne: "label \<noteq> []"
    and s2: "CutPrefix (dropWhile (\<lambda>x. x \<noteq> CHR '']'') s1) ''](''  = Some s2"
    and u: "url_part s2 = Some (u, rest)"
    using assms unfolding markdown_match_def Let_def by (auto split: list.splits if_splits option.splits)
  have "s1 = label @ '']('' @ s2"
    using CutPrefix_SomeD[OF s2] takeWhile_dropWhile_id[of "\<lambda>x. x \<noteq> CHR '']''" s1] label by simp
  then show "s = ''['' @ label @ '']('' @ u @ '')'' @ rest" using url_part_SomeD[OF u] s1 by simp
  show "label \<noteq> []" by (rule ne)
qed

lemma find_links_mem:
  assumes "(ls, le, u) \<in> set (find_links pos s)"
  shows "\<exists>pre label rest. s = pre @ ''['' @ label @ '']('' @ u @ '')'' @ rest \<and> label \<noteq> []
           \<and> ls = pos + length pre + 1 \<and> le = ls + length label"
  using assms
proof (induction pos s rule: find_links.induct)
  case (2 pos c cs)
  show ?case
  proof (cases "markdown_match (c # cs)")
    case None
    then obtain pre label rest where "cs = pre @ ''['' @ label @ '']('' @ u @ '')'' @ rest" "label \<noteq> []"
      "ls = pos + 1 + length pre + 1" "le = ls + length label"
      using 2(1)[OF None] 2(3) by auto
    then show ?thesis by (intro exI[of _ "c # pre"] exI[of _ label] exI[of _ rest]) auto
  next
    case (Some m)
    obtain l u' r where m: "m = (l, u', r)" by (cases m) auto
    note eq = markdown_match_SomeD[OF Some[unfolded m]]
    let ?n = "length (c # cs) - length r"
    have n: "?n = length l + length u' + 4" using arg_cong[OF eq(1), of length] by simp
    consider "(ls, le, u) = (pos + 1, pos + 1 + length l, u')"
      | "(ls, le, u) \<in> set (find_links (pos + max 1 ?n) (drop (?n - 1) cs))"
      using 2(3) Some m by (auto simp: Let_def)
    then show ?thesis
    proof cases
      case 1
      then show ?thesis using eq by (intro exI[of _ "[]"] exI[of _ l] exI[of _ r]) auto
    next
      case b: 2
      obtain pre label rest where split: "drop (?n - 1) cs = pre @ ''['' @ label @ '']('' @ u @ '')'' @ rest"
        and lab: "label \<noteq> []" and ls: "ls = pos + max 1 ?n + length pre + 1" "le = ls + length label"
        using 2(2)[OF Some m[symmetric] refl refl b] by blast
      have "c # cs = take ?n (c # cs) @ pre @ ''['' @ label @ '']('' @ u @ '')'' @ rest"
        using split n by (metis append_take_drop_id drop_Cons' One_nat_def add_is_0 numeral_eq_Suc Zero_not_Suc)
      moreover have "length (take ?n (c # cs)) = max 1 ?n" using n by simp
      ultimately show ?thesis
        using lab ls by (intro exI[of _ "take ?n (c # cs) @ pre"] exI[of _ label] exI[of _ rest]) auto
    qed
  qed
qed simp

lemma match_links_mem:
  assumes "a \<in> set (match_links lib m i links)" and "index_ok i"
  shows "\<exists>ls le u src. (ls, le, u) \<in> set links \<and> map_of m (NormalizeURL lib u) = Some src
           \<and> StartIndex a = int (rune_offset (bri_text i) ls) \<and> EndIndex a = int (rune_offset (bri_text i) le)
           \<and> ann_source a = src\<lparr>URL := u\<rparr>"
  using assms
proof (induction lib m i links rule: match_links.induct)
  case (2 lib m i ls le u links)
  show ?case
  proof (cases "map_of m (NormalizeURL lib u)")
    case None
    then have "a \<in> set (match_links lib m i links)" using 2(3) by simp
    then show ?thesis using 2(1)[OF None _ 2(4)] unfolding set_simps(2) by blast
  next
    case (Some src)
    let ?i1 = "snd (convert ls i)" and ?i2 = "snd (convert le (snd (convert ls i)))"
    note c1 = convert_correct[OF 2(4), of ls]
    note c2 = convert_correct[OF c1(2), of le]
    have "a = \<lparr>StartIndex = int (rune_offset (bri_text i) ls), EndIndex = int (rune_offset (bri_text i) le),
               ann_source = src\<lparr>URL := u\<rparr>\<rparr> \<or> a \<in> set (match_links lib m ?i2 links)"
      using 2(3) c1(1,3) c2(1) by (simp add: Some Let_def split_beta)
    then show ?thesis
    proof
      assume "a \<in> set (match_links lib m ?i2 links)"
      then show ?thesis
        using 2(2)[OF Some _ _ _ _ _ c2(2), of "convert ls i" "fst (convert ls i)" ?i1 "convert le ?i1" "fst (convert le ?i1)"]
        unfolding set_simps(2) c1(3) c2(3) by auto
    qed (use Some in force)
  qed
qed simp

text \<open>
  An annotation of a finished text points at a link of that text: counted in runes, it covers
  exactly the link's label, it carries the link's own URL, and its title is that of the source the
  URL resolves to.
\<close>

theorem annotation_spans_label:
  assumes "a \<in> set (MatchesFor lib (Some st) text)"
  shows "\<exists>pre label u rest src.
           text = pre @ ''['' @ label @ '']('' @ u @ '')'' @ rest
           \<and> take (nat (EndIndex a) - nat (StartIndex a)) (drop (nat (StartIndex a)) (runes_of text)) = runes_of label
           \<and> StartIndex a < EndIndex a
           \<and> ResolveSource lib (Some st) u = Some src \<and> src \<in> set (Sources st)
           \<and> ann_source a = src\<lparr>URL := u\<rparr>"
proof -
  have a: "a \<in> set (match_links lib (by_URL lib st) (newByteToRuneIndex text) (find_links 0 text))"
    using assms by (auto simp: MatchesFor_def split: if_splits)
  have tx: "bri_text (newByteToRuneIndex text) = text" by (simp add: newByteToRuneIndex_def)
  obtain ls le u src where m: "(ls, le, u) \<in> set (find_links 0 text)"
    and src: "ResolveSource lib (Some st) u = Some src"
    and idx: "StartIndex a = int (rune_offset text ls)" "EndIndex a = int (rune_offset text le)"
    and as: "ann_source a = src\<lparr>URL := u\<rparr>"
    using match_links_mem[OF a index_ok_new] unfolding tx by_URL_is_ResolveSource by blast
  obtain pre label rest where split: "text = pre @ ''['' @ label @ '']('' @ u @ '')'' @ rest"
    and ne: "label \<noteq> []" and pos: "ls = length pre + 1" "le = ls + length label"
    using find_links_mem[OF m] by auto
  obtain x xs where x: "label = x # xs" using ne by (cases label) auto
  let ?tail = "'']('' @ u @ '')'' @ rest"
  have brackets: "byte_val (CHR ''['') < 0x80" "byte_val (CHR '']'') < 0x80" by (simp_all add: byte_val_def)
  have e: "rune_offset text le = length (runes_of (pre @ ''['' @ label))"
    using rune_offset_ascii[OF brackets(2), of "pre @ ''['' @ label" "''('' @ u @ '')'' @ rest"] split pos by simp
  have rp: "runes_of (pre @ ''['' @ label) = runes_of pre @ byte_val (CHR ''['') # runes_of label"
    using runes_of_split_ascii[OF brackets(1), of pre label] by simp
  have rt: "runes_of text = runes_of pre @ byte_val (CHR ''['') # runes_of label @ runes_of ?tail"
    using runes_of_split_ascii[OF brackets(1), of pre "label @ ?tail"]
      runes_of_split_ascii[OF brackets(2), of label "''('' @ u @ '')'' @ rest"]
      runes_of_ascii[OF brackets(2), of "''('' @ u @ '')'' @ rest"] split by simp
  have s: "rune_offset text ls = length (runes_of pre) + 1"
    using rune_offset_after_ascii[OF brackets(1), of pre "label @ ?tail"] split pos by simp
  have nat_idx: "nat (StartIndex a) = Suc (length (runes_of pre))"
    "nat (EndIndex a) = Suc (length (runes_of pre) + length (runes_of label))"
    using idx s e rp by (simp_all only: nat_int length_append list.size)
  have "0 < length (runes_of label)" by (subst runes_of.simps) (simp add: x)
  then have "StartIndex a < EndIndex a" using idx s e rp by simp
  moreover have "take (nat (EndIndex a) - nat (StartIndex a)) (drop (nat (StartIndex a)) (runes_of text)) = runes_of label"
    unfolding nat_idx rt by simp
  ultimately show ?thesis
    using split src as ResolveSource_SomeD(1)[OF src] by blast
qed

definition plain_urls :: url_lib where
  "plain_urls = \<lparr>lib_Parse = \<lambda>_. None, lib_ParseQuery = \<lambda>_. [], lib_Encode = \<lambda>_. [], lib_String = Path,
                  lib_ToLower = ToLower\<rparr>"

definition one_source :: State where
  "one_source = \<lparr>NextIndex = 2, Sources = [\<lparr>Index = 1, URL = ''http://x'', Title = ''X''\<rparr>], Harmony = True\<rparr>"

lemma NormalizeURL_x: "NormalizeURL plain_urls ''http://x'' = ''http://x''"
  by code_simp

lemma ResolveSource_x: "ResolveSource plain_urls (Some one_source) ''http://x'' = Some \<lparr>Index = 1, URL = ''http://x'', Title = ''X''\<rparr>"
  by (simp add: ResolveSource_def one_source_def NormalizeURL_x better_def)

lemma find_links_x: "find_links 0 ''see [it](http://x)'' = [(5, 7, ''http://x'')]"
  by code_simp

lemma MatchesFor_x:
  "MatchesFor plain_urls (Some one_source) ''see [it](http://x)''
     = [\<lparr>StartIndex = 5, EndIndex = 7, ann_source = \<lparr>Index = 1, URL = ''http://x'', Title = ''X''\<rparr>\<rparr>]"
proof -
  have "by_URL plain_urls one_source = [(''http://x'', \<lparr>Index = 1, URL = ''http://x'', Title = ''X''\<rparr>)]"
    by (simp add: by_URL_def one_source_def add_by_URL_def NormalizeURL_x Let_def)
  moreover have "Sources one_source \<noteq> []" by (simp add: one_source_def)
  moreover have "fst (convert 5 (newByteToRuneIndex ''see [it](http://x)'')) = 5" by code_simp
  moreover have "fst (convert 7 (snd (convert 5 (newByteToRuneIndex ''see [it](http://x)'')))) = 7" by code_simp
  ultimately show ?thesis
    by (simp add: MatchesFor_def find_links_x NormalizeURL_x Let_def split_beta del: find_links.simps)
qed

theorem annotation_spans_label_witness:
  "\<exists>pre label u rest src.
     ''see [it](http://x)'' = pre @ ''['' @ label @ '']('' @ u @ '')'' @ rest
     \<and> take 2 (drop 5 (runes_of ''see [it](http://x)'')) = runes_of label
     \<and> ResolveSource plain_urls (Some one_source) u = Some src \<and> src \<in> set (Sources one_source)
     \<and> \<lparr>Index = 1, URL = ''http://x'', Title = ''X''\<rparr> = src\<lparr>URL := u\<rparr>"
proof -
  let ?a = "\<lparr>StartIndex = 5, EndIndex = 7, ann_source = \<lparr>Index = 1, URL = ''http://x'', Title = ''X''\<rparr>\<rparr>"
  have "?a \<in> set (MatchesFor plain_urls (Some one_source) ''see [it](http://x)'')"
    by (simp add: MatchesFor_x)
  from annotation_spans_label[OF this] show ?thesis by simp
qed

section \<open>Cursors and Harmony citations\<close>

definition state_ok :: "State \<Rightarrow> bool" where
  "state_ok st \<longleftrightarrow>
     (\<forall>j < length (Sources st). Index (Sources st ! j) = int j + 1) \<and>
     (if Sources st = [] then NextIndex st \<le> 1 else NextIndex st = int (length (Sources st)) + 1)"

lemma Record_ok:
  assumes "state_ok st" and "Record url title (Some st) = (i, Some st')"
  shows "state_ok st'" and "i = int (length (Sources st)) + 1"
    and "Sources st' = Sources st @ [\<lparr>Index = i, URL = url, Title = title\<rparr>]" and "Harmony st' = Harmony st"
  using assms by (auto simp: state_ok_def Record_def Let_def nth_append less_Suc_eq split: if_splits)

text \<open>Any number of records, as a tool loop makes them.\<close>

fun Record_all :: "(string \<times> string) list \<Rightarrow> State \<Rightarrow> State" where
  "Record_all [] st = st"
| "Record_all ((url, title) # rs) st =
     (case snd (Record url title (Some st)) of None \<Rightarrow> st | Some st' \<Rightarrow> Record_all rs st')"

lemma Record_Some: "\<exists>i st'. Record url title (Some st) = (i, Some st')"
  by (simp add: Record_def Let_def)

lemma Record_all_ok:
  assumes "state_ok st"
  shows "state_ok (Record_all rs st)
    \<and> map (\<lambda>s. (URL s, Title s)) (Sources (Record_all rs st)) = map (\<lambda>s. (URL s, Title s)) (Sources st) @ rs
    \<and> Harmony (Record_all rs st) = Harmony st"
  using assms
proof (induction rs arbitrary: st)
  case (Cons r rs)
  obtain url title where r: "r = (url, title)" by fastforce
  obtain i st' where rec: "Record url title (Some st) = (i, Some st')" using Record_Some by blast
  have "Record_all (r # rs) st = Record_all rs st'" by (simp add: r rec)
  then show ?case using Cons.IH[of st'] Record_ok[OF Cons.prems rec] r by simp
qed simp

lemma find_Index:
  assumes "state_ok st" and "k < length (Sources st)"
  shows "find (\<lambda>s. Index s = int k + 1) (Sources st) = Some (Sources st ! k)"
proof -
  have "j < length (Sources st) \<Longrightarrow> Index (Sources st ! j) = int j + 1" for j
    using assms(1) by (simp add: state_ok_def)
  then show ?thesis using assms(2) by (auto simp: find_Some_iff intro!: exI[of _ k])
qed

lemma takeWhile_digits_show_nat: "list_all is_digit (show_nat n)"
proof (induction n rule: show_nat.induct)
  case (1 n)
  then show ?case by (subst show_nat.simps) (auto simp: is_digit_def[of "digit_char _"] digit_val_digit_char)
qed

lemma CutPrefix_append [simp]: "CutPrefix (p @ s) p = Some s"
  by (simp add: CutPrefix_def HasPrefix_def)

lemma fullwidth_not_digit: "\<not> is_digit (byte 0xE3)"
  by (simp add: is_digit_def digit_val_def byte_def)

lemma harmony_match_cursor:
  "harmony_match (fullwidth_open @ show_nat n @ fullwidth_close @ rest) = Some (show_nat n, rest)"
proof -
  let ?t = "show_nat n @ fullwidth_close @ rest"
  have "takeWhile is_digit ?t = show_nat n" "dropWhile is_digit ?t = fullwidth_close @ rest"
    using takeWhile_digits_show_nat[of n] fullwidth_not_digit
    by (simp_all add: takeWhile_append2 dropWhile_append2 list_all_iff fullwidth_close_def)
  then show ?thesis by (simp add: harmony_match_def harmony_tail_def)
qed

lemma contains_prefix: "contains p (p @ s)"
  by (cases p; cases s) (simp_all add: HasPrefix_def)

lemma harmony_rewrite_cursor:
  assumes "state_ok st" and "k < length (Sources st)" and "int k < max_int64"
    and "show_nat (Suc k) = show_int (int k + 1)"
  shows "harmony_rewrite st (fullwidth_open @ show_nat (Suc k) @ fullwidth_close @ rest)
           = Some (''['' @ (if Title (Sources st ! k) = [] then ''Source'' else Title (Sources st ! k)) @ '']('' @
                   URL (Sources st ! k) @ '')'', length (fullwidth_open @ show_nat (Suc k) @ fullwidth_close))"
proof -
  have p: "ParseInt64 (show_nat (Suc k)) = Some (int k + 1)"
    using assms(3,4) ParseInt64_show_int[of "int k + 1"] by (simp add: int64_defs)
  show ?thesis
    using find_Index[OF assms(1,2)] p by (simp add: harmony_rewrite_def harmony_match_cursor Let_def)
qed

text \<open>
  Recording and citing round-trips. However many sources a tool loop records, the Harmony
  citation of the \<open>k\<close>-th of them by its cursor is rewritten to a markdown link with that source's
  title and URL, and with no other's.
\<close>

theorem harmony_citation_roundtrip:
  assumes "k < length rs" and "int (length rs) < max_int64"
  shows "ResolveHarmonyCitations
           (Some (Record_all rs \<lparr>NextIndex = 0, Sources = [], Harmony = True\<rparr>))
           (fullwidth_open @ show_int (int k + 1) @ fullwidth_close)
         = ''['' @ (if snd (rs ! k) = [] then ''Source'' else snd (rs ! k)) @ '']('' @ fst (rs ! k) @ '')''"
proof -
  let ?init = "\<lparr>NextIndex = 0, Sources = [], Harmony = True\<rparr>"
  let ?st = "Record_all rs ?init"
  have ok0: "state_ok ?init" by (simp add: state_ok_def)
  note ok = Record_all_ok[OF ok0, of rs, THEN conjunct1] Record_all_ok[OF ok0, of rs, THEN conjunct2, THEN conjunct1]
    Record_all_ok[OF ok0, of rs, THEN conjunct2, THEN conjunct2]
  have len: "length (Sources ?st) = length rs" using arg_cong[OF ok(2), of length] by simp
  have kth: "(URL (Sources ?st ! k), Title (Sources ?st ! k)) = rs ! k"
    using arg_cong[OF ok(2), of "\<lambda>xs. xs ! k"] assms(1) len by simp
  have shown: "show_nat (Suc k) = show_int (int k + 1)" by (simp add: show_int_def nat_add_distrib)
  let ?t = "fullwidth_open @ show_nat (Suc k) @ fullwidth_close"
  have rw: "harmony_rewrite ?st ?t = Some (''['' @ (if snd (rs ! k) = [] then ''Source'' else snd (rs ! k)) @ '']('' @
              fst (rs ! k) @ '')'', length ?t)"
    using harmony_rewrite_cursor[OF ok(1), of k "[]"] assms len shown kth[symmetric] by simp
  obtain c cs where c: "?t = c # cs" by (simp add: fullwidth_open_def)
  have "replace_all (harmony_rewrite ?st) ?t
      = ''['' @ (if snd (rs ! k) = [] then ''Source'' else snd (rs ! k)) @ '']('' @ fst (rs ! k) @ '')''"
    using rw unfolding c by simp
  then show ?thesis
    using contains_prefix ok(3) shown by (simp add: ResolveHarmonyCitations_def)
qed

theorem harmony_citation_roundtrip_witness:
  "ResolveHarmonyCitations
     (Some (Record_all [(''http://x'', ''X''), (''http://y'', [])] \<lparr>NextIndex = 0, Sources = [], Harmony = True\<rparr>))
     (fullwidth_open @ show_int (int 1 + 1) @ fullwidth_close)
   = ''[Source](http://y)''"
  using harmony_citation_roundtrip[of 1 "[(''http://x'', ''X''), (''http://y'', [])]"]
  by (simp add: int64_defs)

end
