(* ===== verification/Citation_Stream.thy ===== *)
theory Citation_Stream
  imports Citation_State
begin

text \<open>
  The streaming citation emitter of \<open>toolruntime/citations/stream.go\<close>. The emitter keeps the whole
  text as runes and the number of runes it has sent; \<open>Push\<close> appends a delta and \<open>drain\<close> sends what
  can no longer become a link. The citation state is shared with the tool loop, which records
  sources between two deltas, so every call takes it as an argument.
\<close>

section \<open>Scanning for a link\<close>

definition open_bracket :: "rune \<Rightarrow> bool" where "open_bracket r \<longleftrightarrow> r = 0x5B \<or> r = 0x3010"
definition close_bracket :: "rune \<Rightarrow> bool" where "close_bracket r \<longleftrightarrow> r = 0x5D \<or> r = 0x3011"

text \<open>The scanning loops of the file: the first index from \<open>i\<close> on whose rune satisfies \<open>P\<close>.\<close>

function index_from :: "(rune \<Rightarrow> bool) \<Rightarrow> rune list \<Rightarrow> nat \<Rightarrow> nat option" where
  "index_from P t i = (if i < length t then if P (t ! i) then Some i else index_from P t (i + 1) else None)"
  by pat_completeness auto
termination by (relation "measure (\<lambda>(_, t, i). length t - i)") auto

declare index_from.simps [simp del]

definition findNextLinkOpen :: "rune list \<Rightarrow> nat \<Rightarrow> nat option" where
  "findNextLinkOpen t from_idx = index_from open_bracket t from_idx"

definition isSpaceRune :: "rune \<Rightarrow> bool" where
  "isSpaceRune r \<longleftrightarrow> r \<in> set [0x20, 0x09, 0x0A, 0x0D, 0x0C, 0x0B]"

definition IsSupportedURL :: "string \<Rightarrow> bool" where
  "IsSupportedURL url \<longleftrightarrow> HasPrefix url ''http://'' \<or> HasPrefix url ''https://''"

text \<open>\<open>LinkMatch\<close> carries the results that are meaningful with it: end, label start, label end and URL.\<close>

datatype LinkMatchOutcome =
  LinkMatch nat nat nat string
| LinkIncomplete
| LinkInvalid

definition slice :: "'a list \<Rightarrow> nat \<Rightarrow> nat \<Rightarrow> 'a list" where
  "slice xs i j = take (j - i) (drop i xs)"

definition match_url :: "rune list \<Rightarrow> nat \<Rightarrow> nat \<Rightarrow> nat \<Rightarrow> LinkMatchOutcome" where
  "match_url t labelStart labelEnd urlStart =
     (case index_from (\<lambda>r. r = 0x29 \<or> isSpaceRune r) t urlStart of
        None \<Rightarrow> LinkIncomplete
      | Some urlEnd \<Rightarrow>
          if t ! urlEnd \<noteq> 0x29 then LinkInvalid
          else let url = string_of_runes (slice t urlStart urlEnd) in
               if \<not> IsSupportedURL url then LinkInvalid
               else LinkMatch (urlEnd + 1) labelStart labelEnd url)"

definition MatchMarkdownLink :: "rune list \<Rightarrow> nat \<Rightarrow> LinkMatchOutcome" where
  "MatchMarkdownLink t start =
     (if length t \<le> start then LinkIncomplete
      else if \<not> open_bracket (t ! start) then LinkInvalid
      else let labelStart = start + 1 in
           (case index_from close_bracket t labelStart of
              None \<Rightarrow> LinkIncomplete
            | Some labelEnd \<Rightarrow>
                if labelEnd = labelStart then LinkInvalid
                else let parenIdx = labelEnd + 1 in
                     if length t \<le> parenIdx then LinkIncomplete
                     else if t ! parenIdx \<noteq> 0x28 then LinkInvalid
                     else match_url t labelStart labelEnd (parenIdx + 1)))"

text \<open>The bounds are those of the only call, \<open>start\<close> before \<open>end\<close> and both inside the text.\<close>

definition NormalizeLinkBrackets :: "rune list \<Rightarrow> nat \<Rightarrow> nat \<Rightarrow> rune list" where
  "NormalizeLinkBrackets t start end_idx =
     (if length t < end_idx \<or> end_idx \<le> start then t
      else let t1 = (if t ! start = 0x3010 then t[start := 0x5B] else t) in
           (case index_from (\<lambda>r. r = 0x3011) t1 (start + 1) of
              None \<Rightarrow> t1
            | Some i \<Rightarrow> if i < end_idx then t1[i := 0x5D] else t1))"

section \<open>The emitter\<close>

record Emitter =
  em_text :: "rune list"
  flushedRunes :: nat

definition NewEmitter :: Emitter where
  "NewEmitter = \<lparr>em_text = [], flushedRunes = 0\<rparr>"

definition MaxLinkBufferRunes :: int where "MaxLinkBufferRunes = 4096"

definition Buffered :: "Emitter \<Rightarrow> int" where
  "Buffered e = int (length (em_text e)) - int (flushedRunes e)"

definition resolveHarmonyTokens :: "State option \<Rightarrow> Emitter \<Rightarrow> Emitter" where
  "resolveHarmonyTokens c e =
     (case c of
        None \<Rightarrow> e
      | Some st \<Rightarrow>
          if \<not> Harmony st \<or> length (em_text e) \<le> flushedRunes e then e
          else let suffix = string_of_runes (drop (flushedRunes e) (em_text e));
                   resolved = ResolveHarmonyCitations c suffix
               in if resolved = suffix then e
                  else e\<lparr>em_text := take (flushedRunes e) (em_text e) @ runes_of resolved\<rparr>)"

definition annotate :: "url_lib \<Rightarrow> State option \<Rightarrow> nat \<Rightarrow> nat \<Rightarrow> string \<Rightarrow> Annotation list" where
  "annotate lib c labelStart labelEnd url =
     (case ResolveSource lib c url of
        None \<Rightarrow> []
      | Some src \<Rightarrow>
          [\<lparr>StartIndex = int labelStart, EndIndex = int labelEnd, ann_source = src\<lparr>URL := url\<rparr>\<rparr>])"

lemma index_from_SomeD:
  "index_from P t i = Some j \<Longrightarrow> i \<le> j \<and> j < length t \<and> P (t ! j) \<and> (\<forall>k. i \<le> k \<longrightarrow> k < j \<longrightarrow> \<not> P (t ! k))"
proof (induction P t i rule: index_from.induct)
  case (1 P t i)
  then show ?case
    by (subst (asm) index_from.simps) (auto split: if_splits, metis Suc_leI le_neq_implies_less)
qed

lemma index_from_NoneD: "index_from P t i = None \<Longrightarrow> i \<le> k \<Longrightarrow> k < length t \<Longrightarrow> \<not> P (t ! k)"
proof (induction P t i rule: index_from.induct)
  case (1 P t i)
  show ?case
  proof (cases "k = i")
    case True
    then show ?thesis using 1(2,4) by (subst (asm) index_from.simps) (simp split: if_splits)
  next
    case False
    have "i < length t" using 1 by simp
    moreover have "\<not> P (t ! i)" "index_from P t (i + 1) = None"
      using 1(2) \<open>i < length t\<close> by (subst (asm) index_from.simps, simp split: if_splits)+
    ultimately show ?thesis using 1 False by simp
  qed
qed

lemma MatchMarkdownLink_bounds:
  assumes "MatchMarkdownLink t start = LinkMatch e ls le u"
  shows "start < e" and "e \<le> length t" and "ls = start + 1" and "ls < le" and "le + 1 < e"
proof -
  have "start < e \<and> e \<le> length t \<and> ls = start + 1 \<and> ls < le \<and> le + 1 < e"
    using assms
    by (auto simp: MatchMarkdownLink_def match_url_def Let_def split: if_splits option.splits
             dest!: index_from_SomeD)
  then show "start < e" and "e \<le> length t" and "ls = start + 1" and "ls < le" and "le + 1 < e" by auto
qed

lemma length_NormalizeLinkBrackets [simp]: "length (NormalizeLinkBrackets t s e) = length t"
  by (auto simp: NormalizeLinkBrackets_def Let_def split: option.splits)

text \<open>
  The loop of \<open>drain\<close>: the content sent, the annotations, and the text and the position it leaves.
\<close>

function drain_loop ::
  "url_lib \<Rightarrow> State option \<Rightarrow> bool \<Rightarrow> rune list \<Rightarrow> nat \<Rightarrow> string \<times> Annotation list \<times> rune list \<times> nat" where
  "drain_loop lib c final t flushed =
     (if length t \<le> flushed then ([], [], t, flushed)
      else case findNextLinkOpen t flushed of
        None \<Rightarrow> (string_of_runes (drop flushed t), [], t, length t)
      | Some openIndex \<Rightarrow>
          let before = string_of_runes (slice t flushed openIndex) in
          (case MatchMarkdownLink t openIndex of
             LinkMatch endIndex labelStart labelEnd url \<Rightarrow>
               (let t1 = NormalizeLinkBrackets t openIndex endIndex;
                    link = string_of_runes (slice t1 openIndex endIndex);
                    (content, anns, t2, flushed2) = drain_loop lib c final t1 endIndex
                in (before @ link @ content, annotate lib c labelStart labelEnd url @ anns, t2, flushed2))
           | LinkIncomplete \<Rightarrow>
               if final \<or> MaxLinkBufferRunes < int (length t - openIndex)
               then (let (content, anns, t2, flushed2) = drain_loop lib c final t (openIndex + 1)
                     in (before @ encode_rune (t ! openIndex) @ content, anns, t2, flushed2))
               else (before, [], t, openIndex)
           | LinkInvalid \<Rightarrow>
               (let (content, anns, t2, flushed2) = drain_loop lib c final t (openIndex + 1)
                in (before @ encode_rune (t ! openIndex) @ content, anns, t2, flushed2))))"
  by pat_completeness auto
termination
  by (relation "measure (\<lambda>(_, _, _, t, flushed). length t - flushed)")
    (auto simp: findNextLinkOpen_def dest!: index_from_SomeD dest: MatchMarkdownLink_bounds)

declare drain_loop.simps [simp del]

definition drain ::
  "url_lib \<Rightarrow> State option \<Rightarrow> bool \<Rightarrow> Emitter \<Rightarrow> string \<times> Annotation list \<times> Emitter" where
  "drain lib c final e =
     (let e1 = resolveHarmonyTokens c e;
          (content, anns, t, flushed) = drain_loop lib c final (em_text e1) (flushedRunes e1)
      in (content, anns, e1\<lparr>em_text := t, flushedRunes := flushed\<rparr>))"

definition Push ::
  "url_lib \<Rightarrow> State option \<Rightarrow> string \<Rightarrow> Emitter \<Rightarrow> string \<times> Annotation list \<times> Emitter" where
  "Push lib c delta e =
     (if delta = [] then ([], [], e) else drain lib c False (e\<lparr>em_text := em_text e @ runes_of delta\<rparr>))"

definition Flush :: "url_lib \<Rightarrow> State option \<Rightarrow> Emitter \<Rightarrow> string \<times> Annotation list \<times> Emitter" where
  "Flush lib c e = drain lib c True e"

section \<open>Specification: rendering the unsent text\<close>

text \<open>
  What the emitter has to do, read off the unsent suffix of the text alone. \<open>parse_link\<close> is the grammar
  of a link at the start of a text: bracket, label, bracket, URL in parentheses.
\<close>

datatype parsed =
  PMatch "rune list" rune "rune list" "rune list"
| PIncomplete
| PInvalid

definition url_stop :: "rune \<Rightarrow> bool" where "url_stop r \<longleftrightarrow> r = 0x29 \<or> isSpaceRune r"

definition parse_url :: "rune list \<Rightarrow> rune \<Rightarrow> rune list \<Rightarrow> parsed" where
  "parse_url label cl us =
     (let u = takeWhile (\<lambda>r. \<not> url_stop r) us in
      case dropWhile (\<lambda>r. \<not> url_stop r) us of
        [] \<Rightarrow> PIncomplete
      | e # rest \<Rightarrow>
          if e \<noteq> 0x29 \<or> \<not> IsSupportedURL (string_of_runes u) then PInvalid else PMatch label cl u rest)"

definition parse_link :: "rune list \<Rightarrow> parsed" where
  "parse_link xs =
     (case xs of
        [] \<Rightarrow> PIncomplete
      | b # ys \<Rightarrow>
          if \<not> open_bracket b then PInvalid
          else let label = takeWhile (\<lambda>r. \<not> close_bracket r) ys in
               (case dropWhile (\<lambda>r. \<not> close_bracket r) ys of
                  [] \<Rightarrow> PIncomplete
                | cl # zs \<Rightarrow>
                    if label = [] then PInvalid
                    else (case zs of
                            [] \<Rightarrow> PIncomplete
                          | p # us \<Rightarrow> if p \<noteq> 0x28 then PInvalid else parse_url label cl us)))"

fun replace_first :: "'a \<Rightarrow> 'a \<Rightarrow> 'a list \<Rightarrow> 'a list" where
  "replace_first a b [] = []"
| "replace_first a b (x # xs) = (if x = a then b # xs else x # replace_first a b xs)"

definition fix_brackets :: "rune list \<Rightarrow> rune list" where
  "fix_brackets xs =
     (case xs of [] \<Rightarrow> [] | b # ys \<Rightarrow> (if b = 0x3010 then 0x5B else b) # replace_first 0x3011 0x5D ys)"

lemma length_replace_first [simp]: "length (replace_first a b xs) = length xs"
  by (induction xs) auto

lemma length_fix_brackets [simp]: "length (fix_brackets xs) = length xs"
  by (simp add: fix_brackets_def split: list.splits)

lemma parse_link_MatchD:
  assumes "parse_link xs = PMatch label cl u rest"
  shows "\<exists>b. xs = b # label @ cl # 0x28 # u @ 0x29 # rest \<and> open_bracket b \<and> close_bracket cl \<and> label \<noteq> []
           \<and> list_all (\<lambda>r. \<not> close_bracket r) label \<and> list_all (\<lambda>r. \<not> url_stop r) u"
proof -
  obtain b ys zs us where x: "xs = b # ys" and b: "open_bracket b"
    and l: "takeWhile (\<lambda>r. \<not> close_bracket r) ys = label" "dropWhile (\<lambda>r. \<not> close_bracket r) ys = cl # 0x28 # us"
    and u: "takeWhile (\<lambda>r. \<not> url_stop r) us = u" "dropWhile (\<lambda>r. \<not> url_stop r) us = 0x29 # rest" and ne: "label \<noteq> []"
    using assms by (auto simp: parse_link_def parse_url_def Let_def split: list.splits if_splits)
  have "ys = label @ cl # 0x28 # us" "us = u @ 0x29 # rest"
    using takeWhile_dropWhile_id[of _ ys] takeWhile_dropWhile_id[of _ us] l u by metis+
  moreover have "close_bracket cl" using l(2) by (metis hd_dropWhile list.distinct(1) list.sel(1))
  moreover have "list_all (\<lambda>r. \<not> close_bracket r) label" "list_all (\<lambda>r. \<not> url_stop r) u"
    using l(1) u(1) by (auto simp: list_all_iff dest: set_takeWhileD)
  ultimately show ?thesis using x b ne by auto
qed

lemma dropWhile_Cons_less: "dropWhile P xs = y # ys \<Longrightarrow> length ys < length xs"
  using length_dropWhile_le[of P xs] by simp

lemma parse_link_shorter:
  assumes "dropWhile P xs = b # ys" and "parse_link (b # ys) = PMatch label cl u rest"
  shows "length rest < length xs"
  using dropWhile_Cons_less[OF assms(1)] parse_link_MatchD[OF assms(2)] by auto

function render ::
  "url_lib \<Rightarrow> State option \<Rightarrow> bool \<Rightarrow> nat \<Rightarrow> rune list \<Rightarrow> rune list \<times> Annotation list \<times> rune list" where
  "render lib c final off xs =
     (let before = takeWhile (\<lambda>r. \<not> open_bracket r) xs in
      case dropWhile (\<lambda>r. \<not> open_bracket r) xs of
        [] \<Rightarrow> (xs, [], [])
      | b # ys \<Rightarrow>
          let off1 = off + length before in
          (case parse_link (b # ys) of
             PMatch label cl u rest \<Rightarrow>
               (let link = fix_brackets (b # label @ cl # 0x28 # u @ [0x29]);
                    (out, anns, rem) = render lib c final (off1 + length link) rest
                in (before @ link @ out,
                    annotate lib c (off1 + 1) (off1 + 1 + length label) (string_of_runes u) @ anns, rem))
           | PIncomplete \<Rightarrow>
               if final \<or> MaxLinkBufferRunes < int (length (b # ys))
               then (let (out, anns, rem) = render lib c final (off1 + 1) ys in (before @ b # out, anns, rem))
               else (before, [], b # ys)
           | PInvalid \<Rightarrow>
               (let (out, anns, rem) = render lib c final (off1 + 1) ys in (before @ b # out, anns, rem))))"
  by pat_completeness auto
termination
  by (relation "measure (\<lambda>(_, _, _, _, xs). length xs)")
    (auto dest: dropWhile_Cons_less parse_link_shorter)

declare render.simps [simp del]

section \<open>The emitter refines the specification\<close>

declare dropWhile_eq_Nil_conv [simp del]

lemma index_from_eq:
  "index_from P t i =
     (case dropWhile (\<lambda>r. \<not> P r) (drop i t) of
        [] \<Rightarrow> None
      | _ # _ \<Rightarrow> Some (i + length (takeWhile (\<lambda>r. \<not> P r) (drop i t))))"
proof (induction P t i rule: index_from.induct)
  case (1 P t i)
  show ?case
  proof (cases "i < length t \<and> \<not> P (t ! i)")
    case True
    then have "drop i t = t ! i # drop (i + 1) t" by (simp add: Cons_nth_drop_Suc)
    moreover have "index_from P t i = index_from P t (i + 1)"
      using True by (subst index_from.simps) simp
    ultimately show ?thesis using 1 True by (simp split: list.splits)
  next
    case False
    then show ?thesis
      using Cons_nth_drop_Suc[of i t, symmetric] by (subst index_from.simps) (auto split: list.splits)
  qed
qed

lemma drop_takeWhile:
  "drop (i + length (takeWhile P (drop i t))) t = dropWhile P (drop i t)"
  by (simp add: dropWhile_eq_drop add.commute)

lemma nth_drop_Cons: "drop i t = x # xs \<Longrightarrow> i < length t \<and> t ! i = x \<and> drop (i + 1) t = xs"
  by (metis Cons_nth_drop_Suc Suc_eq_plus1 drop_eq_Nil2 linorder_not_le list.distinct(1) list.inject)

fun outcome_of :: "rune list \<Rightarrow> nat \<Rightarrow> parsed \<Rightarrow> LinkMatchOutcome" where
  "outcome_of t start (PMatch label cl u rest) =
     LinkMatch (length t - length rest) (start + 1) (start + 1 + length label) (string_of_runes u)"
| "outcome_of t start PIncomplete = LinkIncomplete"
| "outcome_of t start PInvalid = LinkInvalid"

lemma match_url_refines:
  assumes "drop urlStart t = us"
  shows "match_url t (start + 1) (start + 1 + length label) urlStart = outcome_of t start (parse_url label cl us)"
proof (cases "dropWhile (\<lambda>r. \<not> url_stop r) us")
  case Nil
  then show ?thesis
    using assms by (simp add: match_url_def parse_url_def index_from_eq url_stop_def[symmetric] Let_def)
next
  case (Cons e rest)
  let ?n = "length (takeWhile (\<lambda>r. \<not> url_stop r) us)"
  have d: "drop (urlStart + ?n) t = e # rest" using Cons assms drop_takeWhile[of urlStart _ t] by simp
  have "slice t urlStart (urlStart + ?n) = takeWhile (\<lambda>r. \<not> url_stop r) us"
    using assms by (simp add: slice_def takeWhile_eq_take[symmetric])
  moreover have "length t - length rest = urlStart + ?n + 1"
    using arg_cong[OF d, of length] by simp
  ultimately show ?thesis
    using Cons assms nth_drop_Cons[OF d]
    by (simp add: match_url_def parse_url_def index_from_eq url_stop_def[symmetric] Let_def)
qed

lemma MatchMarkdownLink_refines: "MatchMarkdownLink t start = outcome_of t start (parse_link (drop start t))"
proof (cases "drop start t")
  case Nil
  then show ?thesis by (simp add: MatchMarkdownLink_def parse_link_def)
next
  case (Cons b ys)
  note b = nth_drop_Cons[OF Cons]
  let ?n = "length (takeWhile (\<lambda>r. \<not> close_bracket r) ys)"
  have idx: "index_from close_bracket t (start + 1)
      = (case dropWhile (\<lambda>r. \<not> close_bracket r) ys of [] \<Rightarrow> None | _ # _ \<Rightarrow> Some (start + 1 + ?n))"
    using b by (simp only: index_from_eq)
  show ?thesis
  proof (cases "open_bracket b \<and> dropWhile (\<lambda>r. \<not> close_bracket r) ys \<noteq> []")
    case False
    then show ?thesis
      using b idx Cons by (auto simp: MatchMarkdownLink_def parse_link_def Let_def)
  next
    case True
    then obtain cl zs where cl: "dropWhile (\<lambda>r. \<not> close_bracket r) ys = cl # zs"
      by (cases "dropWhile (\<lambda>r. \<not> close_bracket r) ys") auto
    have d: "drop (start + 1 + ?n) t = cl # zs" using cl b drop_takeWhile[of "start + 1" _ t] by simp
    note d1 = nth_drop_Cons[OF d]
    show ?thesis
    proof (cases zs)
      case Nil
      then have "length t = start + 1 + ?n + 1" using d1 by simp
      then show ?thesis
        using b idx Cons True cl Nil by (simp add: MatchMarkdownLink_def parse_link_def Let_def)
    next
      case z: (Cons p us)
      have d2: "drop (start + 1 + ?n + 1) t = p # us" using d1 z by simp
      note d3 = nth_drop_Cons[OF d2]
      have "match_url t (start + 1) (start + 1 + ?n) (start + 1 + ?n + 1 + 1)
          = outcome_of t start (parse_url (takeWhile (\<lambda>r. \<not> close_bracket r) ys) cl us)"
        by (rule match_url_refines) (use d3 in simp)
      then show ?thesis
        using b idx Cons True cl z d3 by (simp add: MatchMarkdownLink_def parse_link_def Let_def)
    qed
  qed
qed

lemma replace_first_update:
  "replace_first a b xs = (if a \<in> set xs then xs[length (takeWhile (\<lambda>x. x \<noteq> a) xs) := b] else xs)"
  by (induction xs) auto

lemma takeWhile_less: "a \<in> set xs \<Longrightarrow> length (takeWhile (\<lambda>x. x \<noteq> a) xs) < length xs"
  by (induction xs) auto

lemma NormalizeLinkBrackets_refines:
  assumes "l \<noteq> []"
  shows "NormalizeLinkBrackets (p @ l @ r) (length p) (length p + length l) = p @ fix_brackets l @ r"
proof -
  obtain b ys where l: "l = b # ys" using assms by (cases l) auto
  let ?b = "if b = 0x3010 then 0x5B else b"
  let ?t1 = "p @ ?b # ys @ r"
  let ?i = "index_from (\<lambda>r. r = 0x3011) ?t1 (length p + 1)"
  have t1: "(if (p @ l @ r) ! length p = 0x3010 then (p @ l @ r)[length p := 0x5B] else p @ l @ r) = ?t1"
    by (simp add: l list_update_append)
  have "(case ?i of None \<Rightarrow> ?t1 | Some i \<Rightarrow> if i < length p + length l then ?t1[i := 0x5D] else ?t1)
      = p @ ?b # replace_first 0x3011 0x5D ys @ r"
  proof (cases "0x3011 \<in> set ys")
    case True
    let ?n = "length (takeWhile (\<lambda>x. x \<noteq> 0x3011) ys)"
    have n: "?n < length ys" using takeWhile_less[OF True] .
    have "dropWhile (\<lambda>x. x \<noteq> 0x3011) (ys @ r) \<noteq> []" "takeWhile (\<lambda>x. x \<noteq> 0x3011) (ys @ r) = takeWhile (\<lambda>x. x \<noteq> 0x3011) ys"
      using True by (auto simp: dropWhile_eq_Nil_conv takeWhile_append1)
    then have "?i = Some (length p + 1 + ?n)"
      by (auto simp: index_from_eq split: list.splits)
    moreover have "?t1[length p + 1 + ?n := 0x5D] = p @ ?b # ys[?n := 0x5D] @ r"
      using n by (simp add: list_update_append)
    ultimately show ?thesis using True n l by (simp add: replace_first_update)
  next
    case False
    have "takeWhile (\<lambda>x. x \<noteq> 0x3011) (ys @ r) = ys @ takeWhile (\<lambda>x. x \<noteq> 0x3011) r"
      by (rule takeWhile_append2) (use False in blast)
    then have "?i = None \<or> (\<exists>k. ?i = Some (length p + 1 + length ys + k))"
      by (auto simp: index_from_eq split: list.splits)
    then show ?thesis using False l by (auto simp: replace_first_update)
  qed
  moreover have "\<not> (length (p @ l @ r) < length p + length l \<or> length p + length l \<le> length p)"
    by (simp add: l)
  ultimately have "NormalizeLinkBrackets (p @ l @ r) (length p) (length p + length l)
      = p @ ?b # replace_first 0x3011 0x5D ys @ r"
    by (simp only: NormalizeLinkBrackets_def Let_def t1 if_False)
  then show ?thesis by (simp add: l fix_brackets_def)
qed

lemma slice_append: "slice (p @ l @ r) (length p) (length p + length l) = l"
  by (simp add: slice_def)

text \<open>What a drain makes of the result of \<open>render\<close> on the unsent suffix.\<close>

definition sent :: "rune list \<Rightarrow> nat \<Rightarrow> rune list \<times> Annotation list \<times> rune list
    \<Rightarrow> string \<times> Annotation list \<times> rune list \<times> nat" where
  "sent t flushed res =
     (case res of (out, anns, rem) \<Rightarrow>
        (string_of_runes out, anns, take flushed t @ out @ rem, flushed + length out))"

lemma sent_Nil: "length t \<le> flushed \<Longrightarrow> flushed \<le> length t \<Longrightarrow> sent t flushed ([], [], []) = ([], [], t, flushed)"
  by (simp add: sent_def)

lemma findNextLinkOpen_eq:
  "findNextLinkOpen t i =
     (case dropWhile (\<lambda>r. \<not> open_bracket r) (drop i t) of
        [] \<Rightarrow> None
      | _ # _ \<Rightarrow> Some (i + length (takeWhile (\<lambda>r. \<not> open_bracket r) (drop i t))))"
  by (simp only: findNextLinkOpen_def index_from_eq)

lemma drain_loop_refines:
  assumes "flushed \<le> length t"
  shows "drain_loop lib c final t flushed = sent t flushed (render lib c final flushed (drop flushed t))"
  using assms
proof (induction lib c final t flushed rule: drain_loop.induct)
  case (1 lib c final t flushed)
  let ?xs = "drop flushed t"
  let ?before = "takeWhile (\<lambda>r. \<not> open_bracket r) ?xs"
  show ?case
  proof (cases "dropWhile (\<lambda>r. \<not> open_bracket r) ?xs")
    case Nil
    then show ?thesis
      using 1(4) by (subst drain_loop.simps, subst render.simps) (auto simp: sent_def findNextLinkOpen_eq Let_def)
  next
    case (Cons b ys)
    let ?o = "flushed + length ?before"
    have lt: "\<not> length t \<le> flushed" using Cons by auto
    have op: "findNextLinkOpen t flushed = Some ?o" using Cons by (simp add: findNextLinkOpen_eq)
    have d: "drop ?o t = b # ys" using Cons drop_takeWhile[of flushed _ t] by simp
    note bo = nth_drop_Cons[OF d]
    have t: "t = take flushed t @ ?before @ b # ys"
      using Cons takeWhile_dropWhile_id[of "\<lambda>r. \<not> open_bracket r" ?xs] append_take_drop_id[of flushed t] by simp
    have bef: "slice t flushed ?o = ?before" by (simp add: slice_def takeWhile_eq_take[symmetric])
    have tk: "take (?o + 1) t = take flushed t @ ?before @ [b]"
      using t 1(4) by (metis (no_types, lifting) append_assoc append_take_drop_id bo bef d take_Suc_conv_app_nth
          Suc_eq_plus1 slice_def add_diff_cancel_left' take_add)
    have m: "MatchMarkdownLink t ?o = outcome_of t ?o (parse_link (b # ys))"
      by (simp only: MatchMarkdownLink_refines d)
    note unf = drain_loop.simps[of lib c final t flushed] render.simps[of lib c final flushed ?xs]
    show ?thesis
    proof (cases "parse_link (b # ys)")
      case PInvalid
      then show ?thesis
        using 1(3)[OF lt op refl] m lt op Cons bo tk bef unf
        by (auto simp: Let_def sent_def string_of_runes_Cons split: prod.splits)
    next
      case PIncomplete
      have "length t - ?o = length (b # ys)" using arg_cong[OF d, of length] by simp
      then show ?thesis
        using PIncomplete 1(2)[OF lt op refl] m lt op Cons bo tk bef unf t
        by (auto simp: Let_def sent_def string_of_runes_Cons split: prod.splits)
    next
      case (PMatch label cl u rest)
      obtain l where l: "l = b # label @ cl # 0x28 # u @ [0x29]" and ys: "b # ys = l @ rest"
        using parse_link_MatchD[OF PMatch] by auto
      let ?p = "take flushed t @ ?before"
      have tt: "t = ?p @ l @ rest" using t ys by simp
      have lp: "length ?p = ?o" using 1(4) by simp
      have "length t = length (?p @ l @ rest)" by (rule arg_cong[OF tt, of length])
      also have "\<dots> = length ?p + length l + length rest" by simp
      finally have "length t = ?o + length l + length rest" unfolding lp .
      then have e: "length t - length rest = ?o + length l" by linarith
      let ?t1 = "NormalizeLinkBrackets t ?o (?o + length l)"
      have "NormalizeLinkBrackets (?p @ l @ rest) (length ?p) (length ?p + length l) = ?p @ fix_brackets l @ rest"
        by (rule NormalizeLinkBrackets_refines) (simp add: l)
      then have t1: "?t1 = ?p @ fix_brackets l @ rest" unfolding tt[symmetric] lp .
      have "slice (?p @ fix_brackets l @ rest) (length ?p) (length ?p + length l) = fix_brackets l"
        using slice_append[of ?p "fix_brackets l" rest] by simp
      then have sl: "slice ?t1 ?o (?o + length l) = fix_brackets l" unfolding t1 lp .
      have dr: "drop (?o + length l) ?t1 = rest" and tk1: "take (?o + length l) ?t1 = ?p @ fix_brackets l"
        unfolding t1 unfolding lp[symmetric] using 1(4) by (simp_all add: min_absorb1 min_absorb2)
      have le: "?o + length l \<le> length ?t1" unfolding t1 unfolding lp[symmetric] by simp
      have IH: "drain_loop lib c final ?t1 (?o + length l)
          = sent ?t1 (?o + length l) (render lib c final (?o + length l) rest)"
        using 1(1)[OF lt op refl m[unfolded PMatch outcome_of.simps e] refl refl le] unfolding dr .
      show ?thesis
        unfolding unf Let_def Cons op list.case option.case m PMatch outcome_of.simps LinkMatchOutcome.case
          parsed.case e bef sl IH l[symmetric]
        using lt by (simp add: sent_def tk1 split: prod.splits)
    qed
  qed
qed

section \<open>Properties of the specification\<close>

lemma render_induct [case_names plain link skip hold]:
  assumes "\<And>lib c final off xs. dropWhile (\<lambda>r. \<not> open_bracket r) xs = [] \<Longrightarrow>
             render lib c final off xs = (xs, [], []) \<Longrightarrow> P lib c final off xs"
    and "\<And>lib c final off before b label cl u rest link.
           list_all (\<lambda>r. \<not> open_bracket r) before \<Longrightarrow>
           parse_link (b # label @ cl # 0x28 # u @ 0x29 # rest) = PMatch label cl u rest \<Longrightarrow>
           link = fix_brackets (b # label @ cl # 0x28 # u @ [0x29]) \<Longrightarrow>
           render lib c final off (before @ b # label @ cl # 0x28 # u @ 0x29 # rest)
             = (case render lib c final (off + length before + length link) rest of (out, anns, rem) \<Rightarrow>
                  (before @ link @ out,
                   annotate lib c (off + length before + 1) (off + length before + 1 + length label)
                     (string_of_runes u) @ anns, rem)) \<Longrightarrow>
           P lib c final (off + length before + length link) rest \<Longrightarrow>
           P lib c final off (before @ b # label @ cl # 0x28 # u @ 0x29 # rest)"
    and "\<And>lib c final off before b ys.
           list_all (\<lambda>r. \<not> open_bracket r) before \<Longrightarrow> open_bracket b \<Longrightarrow>
           parse_link (b # ys) = PInvalid \<or>
             parse_link (b # ys) = PIncomplete \<and> (final \<or> MaxLinkBufferRunes < int (length (b # ys))) \<Longrightarrow>
           render lib c final off (before @ b # ys)
             = (case render lib c final (off + length before + 1) ys of (out, anns, rem) \<Rightarrow>
                  (before @ b # out, anns, rem)) \<Longrightarrow>
           P lib c final (off + length before + 1) ys \<Longrightarrow>
           P lib c final off (before @ b # ys)"
    and "\<And>lib c final off before b ys.
           list_all (\<lambda>r. \<not> open_bracket r) before \<Longrightarrow> open_bracket b \<Longrightarrow>
           parse_link (b # ys) = PIncomplete \<Longrightarrow> \<not> final \<Longrightarrow> int (length (b # ys)) \<le> MaxLinkBufferRunes \<Longrightarrow>
           render lib c final off (before @ b # ys) = (before, [], b # ys) \<Longrightarrow>
           P lib c final off (before @ b # ys)"
  shows "P lib c final off xs"
proof (induction lib c final off xs rule: render.induct)
  case (1 lib c final off xs)
  let ?before = "takeWhile (\<lambda>r. \<not> open_bracket r) xs"
  have before: "list_all (\<lambda>r. \<not> open_bracket r) ?before" by (auto simp: list_all_iff dest: set_takeWhileD)
  show ?case
  proof (cases "dropWhile (\<lambda>r. \<not> open_bracket r) xs")
    case Nil
    then show ?thesis by (intro assms(1)) (simp_all add: render.simps[of lib c final off xs])
  next
    case (Cons b ys)
    have xs: "xs = ?before @ b # ys" using takeWhile_dropWhile_id[of _ xs] Cons by metis
    have b: "open_bracket b" using Cons by (metis hd_dropWhile list.distinct(1) list.sel(1))
    note unf = render.simps[of lib c final off xs]
    show ?thesis
    proof (cases "parse_link (b # ys)")
      case (PMatch label cl u rest)
      obtain b' where eq: "b # ys = b' # label @ cl # 0x28 # u @ 0x29 # rest" using parse_link_MatchD[OF PMatch] by blast
      show ?thesis
        using assms(2)[OF before, of b label cl u rest _ lib c final off] 1(1)[OF refl Cons refl PMatch refl]
          PMatch unf Cons eq xs
        by (simp add: Let_def add.assoc)
    next
      case PIncomplete
      show ?thesis
      proof (cases "final \<or> MaxLinkBufferRunes < int (length (b # ys))")
        case True
        have "render lib c final off xs
            = (case render lib c final (off + length ?before + 1) ys of (out, anns, rem) \<Rightarrow> (?before @ b # out, anns, rem))"
          using True PIncomplete unf Cons by (auto simp: Let_def)
        then show ?thesis
          using assms(3)[OF before b, of ys final lib c off] 1(2)[OF refl Cons refl PIncomplete True] PIncomplete True xs
          by metis
      next
        case False
        then have "render lib c final off xs = (?before, [], b # ys)"
          using PIncomplete unf Cons by (auto simp: Let_def)
        then show ?thesis
          using assms(4)[OF before b PIncomplete, of final lib c off] False xs by (metis linorder_not_le)
      qed
    next
      case PInvalid
      have "render lib c final off xs
          = (case render lib c final (off + length ?before + 1) ys of (out, anns, rem) \<Rightarrow> (?before @ b # out, anns, rem))"
        using PInvalid unf Cons by (auto simp: Let_def)
      then show ?thesis
        using assms(3)[OF before b, of ys final lib c off] 1(3)[OF refl Cons refl PInvalid] PInvalid xs by metis
    qed
  qed
qed

text \<open>Rendering keeps every rune, up to the two fullwidth brackets of a link.\<close>

definition same_rune :: "rune \<Rightarrow> rune \<Rightarrow> bool" where
  "same_rune r r' \<longleftrightarrow> r' = r \<or> r = 0x3010 \<and> r' = 0x5B \<or> r = 0x3011 \<and> r' = 0x5D"

lemma same_rune_refl [simp]: "same_rune r r"
  by (simp add: same_rune_def)

lemma list_all2_same_refl [simp]: "list_all2 same_rune xs xs"
  by (simp add: list_all2_refl)

lemma replace_first_same: "list_all2 same_rune xs (replace_first 0x3011 0x5D xs)"
  by (induction xs) (auto simp: same_rune_def list_all2_refl)

lemma fix_brackets_same: "list_all2 same_rune xs (fix_brackets xs)"
  by (cases xs) (auto simp: fix_brackets_def replace_first_same same_rune_def)

definition rendered :: "rune list \<times> Annotation list \<times> rune list \<Rightarrow> rune list" where
  "rendered res = fst res @ snd (snd res)"

lemma render_same: "list_all2 same_rune xs (rendered (render lib c final off xs))"
proof (induction lib c final off xs rule: render_induct)
  case (link lib c final off before b label cl u rest link)
  have "list_all2 same_rune (before @ (b # label @ cl # 0x28 # u @ [0x29]) @ rest)
          (before @ link @ rendered (render lib c final (off + length before + length link) rest))"
    using link(5) fix_brackets_same by (intro list_all2_appendI) (auto simp only: link(3) list_all2_same_refl)
  then show ?case by (simp add: link(4) rendered_def split_beta)
next
  case (skip lib c final off before b ys)
  have "list_all2 same_rune (before @ [b] @ ys)
          (before @ [b] @ rendered (render lib c final (off + length before + 1) ys))"
    using skip(5) by (intro list_all2_appendI) simp_all
  then show ?case by (simp add: skip(4) rendered_def split_beta)
qed (simp_all add: rendered_def)

lemma render_length:
  "render lib c final off xs = (out, anns, rem) \<Longrightarrow> length out + length rem = length xs"
  using list_all2_lengthD[OF render_same[of xs lib c final off]] by (simp add: rendered_def)

lemma render_final: "final \<Longrightarrow> snd (snd (render lib c final off xs)) = []"
  by (induction lib c final off xs rule: render_induct) (simp_all add: split_beta)

lemma render_held: "\<not> final \<Longrightarrow> int (length (snd (snd (render lib c final off xs)))) \<le> MaxLinkBufferRunes"
  by (induction lib c final off xs rule: render_induct) (simp_all add: MaxLinkBufferRunes_def split_beta)

lemma render_rem_suffix: "suffix (snd (snd (render lib c final off xs))) xs"
proof (induction lib c final off xs rule: render_induct)
  case (link lib c final off before b label cl u rest link)
  have "suffix rest (before @ b # label @ cl # 0x28 # u @ 0x29 # rest)"
    unfolding suffix_def by (intro exI[of _ "before @ b # label @ cl # 0x28 # u @ [0x29]"]) simp
  with link(5) have "suffix (snd (snd (render lib c final (off + length before + length link) rest)))
      (before @ b # label @ cl # 0x28 # u @ 0x29 # rest)"
    by (rule suffix_order.trans)
  then show ?case by (simp add: link(4) split_beta)
next
  case (skip lib c final off before b ys)
  have "suffix ys (before @ b # ys)" unfolding suffix_def by (intro exI[of _ "before @ [b]"]) simp
  with skip(5) have "suffix (snd (snd (render lib c final (off + length before + 1) ys))) (before @ b # ys)"
    by (rule suffix_order.trans)
  then show ?case by (simp add: skip(4) split_beta)
qed (simp_all add: suffix_def)

section \<open>Chunks of the text\<close>

fun extended :: "parsed \<Rightarrow> rune list \<Rightarrow> parsed" where
  "extended (PMatch label cl u rest) ys = PMatch label cl u (rest @ ys)"
| "extended p ys = p"

lemma dropWhile_Cons_append:
  assumes "dropWhile P xs = x # rest"
  shows "dropWhile P (xs @ ys) = x # rest @ ys" and "takeWhile P (xs @ ys) = takeWhile P xs"
proof -
  have x: "x \<in> set xs" "\<not> P x"
    using assms by (metis in_set_conv_decomp set_dropWhileD list.set_intros(1), metis hd_dropWhile list.distinct(1) list.sel(1))
  show "dropWhile P (xs @ ys) = x # rest @ ys" using dropWhile_append1[of x xs P, OF x] assms by simp
  show "takeWhile P (xs @ ys) = takeWhile P xs" using takeWhile_append1[of x xs P, OF x] .
qed

lemma parse_link_decided:
  assumes "parse_link xs \<noteq> PIncomplete"
  shows "parse_link (xs @ ys) = extended (parse_link xs) ys"
proof -
  obtain b zs where x: "xs = b # zs" using assms by (cases xs) (auto simp: parse_link_def)
  show ?thesis
  proof (cases "open_bracket b")
    case False
    then show ?thesis by (simp add: x parse_link_def)
  next
    case True
    then obtain cl ws where d: "dropWhile (\<lambda>r. \<not> close_bracket r) zs = cl # ws"
      using assms x by (auto simp: parse_link_def Let_def split: list.splits)
    note d' = dropWhile_Cons_append[OF d, of ys]
    have u: "parse_url l cl us \<noteq> PIncomplete \<Longrightarrow> parse_url l cl (us @ ys) = extended (parse_url l cl us) ys" for l us
      using dropWhile_Cons_append[of "\<lambda>r. \<not> url_stop r" us _ _ ys]
      by (auto simp: parse_url_def Let_def split: list.splits)
    show ?thesis
      using assms True d d' u[of "takeWhile (\<lambda>r. \<not> close_bracket r) zs" "tl ws"]
      by (cases ws) (auto simp: x parse_link_def Let_def split: list.splits if_splits)
  qed
qed

text \<open>Every opening bracket is decided to start a link or not within the buffer's limit.\<close>

definition links_decided :: "rune list \<Rightarrow> bool" where
  "links_decided t \<longleftrightarrow>
     (\<forall>s. suffix s t \<longrightarrow> MaxLinkBufferRunes < int (length s) \<longrightarrow>
          parse_link (take (Suc (nat MaxLinkBufferRunes)) s) \<noteq> PIncomplete)"

lemma links_decided_suffix: "links_decided t \<Longrightarrow> suffix s t \<Longrightarrow> links_decided s"
  unfolding links_decided_def by (meson suffix_order.trans)

lemma parse_link_incomplete_prefix: "parse_link (xs @ ys) = PIncomplete \<Longrightarrow> parse_link xs = PIncomplete"
  using parse_link_decided[of xs ys] by (cases "parse_link xs") auto

lemma links_decided_short:
  assumes "links_decided (b # ys @ zs)" and "parse_link (b # ys) = PIncomplete"
  shows "int (length (b # ys)) \<le> MaxLinkBufferRunes"
proof (rule ccontr)
  let ?n = "Suc (nat MaxLinkBufferRunes)"
  assume long: "\<not> ?thesis"
  then have n: "?n \<le> length (b # ys)" by simp
  have "parse_link (take ?n (b # ys @ zs)) \<noteq> PIncomplete"
    using assms(1) long unfolding links_decided_def by auto
  moreover have "take ?n (b # ys @ zs) = take ?n (b # ys)" using n take_append[of ?n "b # ys" zs] by simp
  moreover have "parse_link (take ?n (b # ys)) = PIncomplete"
    using parse_link_incomplete_prefix[of "take ?n (b # ys)" "drop ?n (b # ys)"] assms(2)
    by (simp only: append_take_drop_id)
  ultimately show False by metis
qed

lemma render_skip:
  assumes "list_all (\<lambda>r. \<not> open_bracket r) before"
  shows "render lib c final off (before @ ys)
           = (case render lib c final (off + length before) ys of (out, anns, rem) \<Rightarrow> (before @ out, anns, rem))"
proof -
  have "takeWhile (\<lambda>r. \<not> open_bracket r) (before @ ys) = before @ takeWhile (\<lambda>r. \<not> open_bracket r) ys"
    "dropWhile (\<lambda>r. \<not> open_bracket r) (before @ ys) = dropWhile (\<lambda>r. \<not> open_bracket r) ys"
    using assms by (auto simp: list_all_iff takeWhile_append2 dropWhile_append2)
  then show ?thesis
    by (subst (1 2) render.simps) (auto simp: Let_def add.assoc split: list.splits parsed.splits prod.splits)
qed

lemma render_link:
  assumes "parse_link (b # ys) = PMatch label cl u rest"
  shows "render lib c final off (b # ys) =
     (let link = fix_brackets (b # label @ cl # 0x28 # u @ [0x29]);
          (out, anns, rem) = render lib c final (off + length link) rest
      in (link @ out, annotate lib c (off + 1) (off + 1 + length label) (string_of_runes u) @ anns, rem))"
proof -
  have "open_bracket b" using parse_link_MatchD[OF assms] by auto
  then show ?thesis using assms by (subst render.simps) (simp add: Let_def split: prod.splits)
qed

lemma render_invalid:
  assumes "open_bracket b" and "parse_link (b # ys) = PInvalid"
  shows "render lib c final off (b # ys)
           = (case render lib c final (off + 1) ys of (out, anns, rem) \<Rightarrow> (b # out, anns, rem))"
  using assms by (subst render.simps) (simp add: Let_def split: prod.splits)

text \<open>Rendering a text in two pieces: what the first leaves over is rendered with the second.\<close>

lemma render_append:
  assumes "\<not> f" and "links_decided (xs @ zs)" and "render lib c f off xs = (out, anns, rem)"
  shows "render lib c final off (xs @ zs)
           = (case render lib c final (off + length out) (rem @ zs) of (out2, anns2, rem2) \<Rightarrow>
                (out @ out2, anns @ anns2, rem2))"
  using assms
proof (induction lib c f off xs arbitrary: out anns rem rule: render_induct)
  case (plain lib c f off xs)
  then have "list_all (\<lambda>r. \<not> open_bracket r) xs" by (simp add: dropWhile_eq_Nil_conv list_all_iff)
  from render_skip[OF this] show ?case using plain by simp
next
  case (link lib c f off before b label cl u rest link)
  let ?l = "b # label @ cl # 0x28 # u @ [0x29]"
  obtain out1 anns1 rem1 where r: "render lib c f (off + length before + length link) rest = (out1, anns1, rem1)"
    by (metis prod_cases3)
  have res: "out = before @ link @ out1" "rem = rem1"
    "anns = annotate lib c (off + length before + 1) (off + length before + 1 + length label) (string_of_runes u) @ anns1"
    using link(4,8) r by auto
  have "suffix (rest @ zs) ((before @ b # label @ cl # 0x28 # u @ 0x29 # rest) @ zs)"
    unfolding suffix_def by (intro exI[of _ "before @ ?l"]) simp
  then have IH: "render lib c final (off + length before + length link) (rest @ zs)
      = (case render lib c final (off + length before + length link + length out1) (rem1 @ zs) of (out2, anns2, rem2) \<Rightarrow>
           (out1 @ out2, anns1 @ anns2, rem2))"
    using link(5)[OF link(6) links_decided_suffix[OF link(7)] r] by blast
  have p: "parse_link (b # label @ cl # 0x28 # u @ 0x29 # rest @ zs) = PMatch label cl u (rest @ zs)"
    using parse_link_decided[of "b # label @ cl # 0x28 # u @ 0x29 # rest" zs] link(2) by simp
  show ?case
    using render_skip[OF link(1), of lib c final off "b # label @ cl # 0x28 # u @ 0x29 # rest @ zs"]
      render_link[OF p, of lib c final "off + length before"] IH res
    by (simp add: Let_def link(3)[symmetric] add.assoc split: prod.splits)
next
  case (skip lib c f off before b ys)
  have s: "suffix (b # ys @ zs) ((before @ b # ys) @ zs)" "suffix (ys @ zs) ((before @ b # ys) @ zs)"
    unfolding suffix_def by (intro exI[of _ before], simp, intro exI[of _ "before @ [b]"], simp)
  have p: "parse_link (b # ys) = PInvalid"
    using skip(3,6) links_decided_short[OF links_decided_suffix[OF skip(7) s(1)]] by force
  obtain out1 anns1 rem1 where r: "render lib c f (off + length before + 1) ys = (out1, anns1, rem1)"
    by (metis prod_cases3)
  have res: "out = before @ b # out1" "anns = anns1" "rem = rem1" using skip(4,8) r by auto
  have IH: "render lib c final (off + length before + 1) (ys @ zs)
      = (case render lib c final (off + length before + 1 + length out1) (rem1 @ zs) of (out2, anns2, rem2) \<Rightarrow>
           (out1 @ out2, anns1 @ anns2, rem2))"
    using skip(5)[OF skip(6) links_decided_suffix[OF skip(7) s(2)] r] .
  have "parse_link (b # ys @ zs) = PInvalid" using parse_link_decided[of "b # ys" zs] p by simp
  then show ?case
    using render_skip[OF skip(1), of lib c final off "b # ys @ zs"]
      render_invalid[OF skip(2), of "ys @ zs" lib c final "off + length before"] IH res
    by (simp add: add.assoc split: prod.splits)
next
  case (hold lib c f off before b ys)
  have "out = before" "anns = []" "rem = b # ys" using hold(6) hold(9) by auto
  then show ?case using render_skip[OF hold(1), of lib c final off "b # ys @ zs"] by simp
qed

section \<open>Runs of the emitter\<close>

text \<open>A stream: the deltas, each with the citation state at the time it arrives, then the flush.\<close>

fun push_all :: "url_lib \<Rightarrow> (State option \<times> string) list \<Rightarrow> Emitter \<Rightarrow> string \<times> Annotation list \<times> Emitter" where
  "push_all lib [] e = ([], [], e)"
| "push_all lib ((c, delta) # ds) e =
     (let (s, a, e1) = Push lib c delta e; (s2, a2, e2) = push_all lib ds e1 in (s @ s2, a @ a2, e2))"

definition stream_text ::
  "url_lib \<Rightarrow> (State option \<times> string) list \<Rightarrow> State option \<Rightarrow> string \<times> Annotation list \<times> Emitter" where
  "stream_text lib ds c =
     (let (s, a, e) = push_all lib ds NewEmitter; (s2, a2, e2) = Flush lib c e in (s @ s2, a @ a2, e2))"

definition emitter_ok :: "Emitter \<Rightarrow> bool" where
  "emitter_ok e \<longleftrightarrow> flushedRunes e \<le> length (em_text e)"

text \<open>One drain in terms of \<open>render\<close>: the text already sent stays, and the content is what is added to it.\<close>

lemma drain_render:
  assumes "emitter_ok e" and "drain lib c final e = (s, a, e')"
  defines "e1 \<equiv> resolveHarmonyTokens c e"
  shows "emitter_ok e1" and "take (flushedRunes e) (em_text e1) = take (flushedRunes e) (em_text e)"
    and "flushedRunes e1 = flushedRunes e"
    and "\<exists>out rem. render lib c final (flushedRunes e) (drop (flushedRunes e) (em_text e1)) = (out, a, rem)
           \<and> s = string_of_runes out \<and> em_text e' = take (flushedRunes e) (em_text e) @ out @ rem
           \<and> flushedRunes e' = flushedRunes e + length out"
proof -
  show f: "flushedRunes e1 = flushedRunes e"
    by (simp add: e1_def resolveHarmonyTokens_def Let_def split: option.splits)
  show t: "take (flushedRunes e) (em_text e1) = take (flushedRunes e) (em_text e)"
    using assms(1) by (simp add: e1_def resolveHarmonyTokens_def emitter_ok_def Let_def split: option.splits)
  show ok: "emitter_ok e1"
    using assms(1) by (simp add: e1_def resolveHarmonyTokens_def emitter_ok_def Let_def split: option.splits)
  obtain out an rem where r: "render lib c final (flushedRunes e) (drop (flushedRunes e) (em_text e1)) = (out, an, rem)"
    by (metis prod_cases3)
  have "drain_loop lib c final (em_text e1) (flushedRunes e)
      = (string_of_runes out, an, take (flushedRunes e) (em_text e1) @ out @ rem, flushedRunes e + length out)"
    using drain_loop_refines[of "flushedRunes e" "em_text e1" lib c final] ok f r
    by (simp add: emitter_ok_def sent_def)
  then show "\<exists>out rem. render lib c final (flushedRunes e) (drop (flushedRunes e) (em_text e1)) = (out, a, rem)
           \<and> s = string_of_runes out \<and> em_text e' = take (flushedRunes e) (em_text e) @ out @ rem
           \<and> flushedRunes e' = flushedRunes e + length out"
    using assms(2) r t f by (auto simp: drain_def e1_def[symmetric] Let_def)
qed

lemma drain_grows:
  assumes "emitter_ok e" and "drain lib c final e = (s, a, e')"
  shows "emitter_ok e'" and "string_of_runes (take (flushedRunes e') (em_text e'))
           = string_of_runes (take (flushedRunes e) (em_text e)) @ s"
    and "prefix (take (flushedRunes e) (em_text e)) (take (flushedRunes e') (em_text e'))"
proof -
  obtain out rem where r: "s = string_of_runes out" "em_text e' = take (flushedRunes e) (em_text e) @ out @ rem"
    "flushedRunes e' = flushedRunes e + length out"
    using drain_render(4)[OF assms] by blast
  then show "emitter_ok e'" using assms(1) by (simp add: emitter_ok_def)
  have eq: "take (flushedRunes e') (em_text e') = take (flushedRunes e) (em_text e) @ out"
    using r assms(1) by (simp add: emitter_ok_def min_absorb2 min_absorb1)
  show "string_of_runes (take (flushedRunes e') (em_text e'))
      = string_of_runes (take (flushedRunes e) (em_text e)) @ s"
    and "prefix (take (flushedRunes e) (em_text e)) (take (flushedRunes e') (em_text e'))"
    unfolding eq r(1) by simp_all
qed

lemma Push_grows:
  assumes "emitter_ok e" and "Push lib c delta e = (s, a, e')"
  shows "emitter_ok e'" and "string_of_runes (take (flushedRunes e') (em_text e'))
           = string_of_runes (take (flushedRunes e) (em_text e)) @ s"
    and "prefix (take (flushedRunes e) (em_text e)) (take (flushedRunes e') (em_text e'))"
proof -
  let ?e = "e\<lparr>em_text := em_text e @ runes_of delta\<rparr>"
  have ok: "emitter_ok ?e" and t: "take (flushedRunes ?e) (em_text ?e) = take (flushedRunes e) (em_text e)"
    using assms(1) by (simp_all add: emitter_ok_def)
  show "emitter_ok e'" and "string_of_runes (take (flushedRunes e') (em_text e'))
           = string_of_runes (take (flushedRunes e) (em_text e)) @ s"
    and "prefix (take (flushedRunes e) (em_text e)) (take (flushedRunes e') (em_text e'))"
    using assms drain_grows[OF ok, of lib c False s a e'] t
    by (auto simp: Push_def split: if_splits)
qed

lemma push_all_grows:
  assumes "emitter_ok e" and "push_all lib ds e = (s, a, e')"
  shows "emitter_ok e' \<and> string_of_runes (take (flushedRunes e') (em_text e'))
             = string_of_runes (take (flushedRunes e) (em_text e)) @ s
           \<and> prefix (take (flushedRunes e) (em_text e)) (take (flushedRunes e') (em_text e'))"
  using assms
proof (induction ds arbitrary: e s a e')
  case (Cons d ds)
  obtain c delta where d: "d = (c, delta)" by fastforce
  obtain s1 a1 e1 where p: "Push lib c delta e = (s1, a1, e1)" by (metis prod_cases3)
  obtain s2 a2 e2 where q: "push_all lib ds e1 = (s2, a2, e2)" by (metis prod_cases3)
  have res: "s = s1 @ s2" "e' = e2" using Cons.prems(2) by (simp_all add: d p q)
  note g = Push_grows[OF Cons.prems(1) p]
  show ?case using Cons.IH[OF g(1) q] g res by (auto intro: prefix_order.trans)
qed simp

lemma NewEmitter_ok [simp]: "emitter_ok NewEmitter" and NewEmitter_text [simp]: "em_text NewEmitter = []"
  and NewEmitter_flushed [simp]: "flushedRunes NewEmitter = 0"
  by (simp_all add: NewEmitter_def emitter_ok_def)

lemma Flush_empties:
  assumes "emitter_ok e" and "Flush lib c e = (s, a, e')"
  shows "flushedRunes e' = length (em_text e')"
proof -
  obtain out rem where r: "render lib c True (flushedRunes e) (drop (flushedRunes e) (em_text (resolveHarmonyTokens c e))) = (out, a, rem)"
    and e': "em_text e' = take (flushedRunes e) (em_text e) @ out @ rem" "flushedRunes e' = flushedRunes e + length out"
    using drain_render(4)[OF assms(1) assms(2)[unfolded Flush_def]] by blast
  have "rem = []" using render_final[of True lib c "flushedRunes e"] r by (metis snd_conv)
  then show ?thesis using e' assms(1) by (simp add: emitter_ok_def min_absorb2)
qed

text \<open>
  The client receives the whole text: whatever the deltas and whatever sources are recorded
  between them, the content chunks of a stream and of its flush, put together, are the emitter's text.
\<close>

theorem streamed_content_complete:
  "fst (stream_text lib ds c) = string_of_runes (em_text (snd (snd (stream_text lib ds c))))"
proof -
  obtain s a e where p: "push_all lib ds NewEmitter = (s, a, e)" by (metis prod_cases3)
  obtain s2 a2 e2 where q: "Flush lib c e = (s2, a2, e2)" by (metis prod_cases3)
  note g = push_all_grows[OF NewEmitter_ok p]
  have "string_of_runes (take (flushedRunes e2) (em_text e2)) = s @ s2"
    using drain_grows(2)[of e lib c True s2 a2 e2] g q by (simp add: Flush_def)
  then show ?thesis
    using Flush_empties[OF _ q] g by (simp add: stream_text_def p q)
qed

lemma Push_held:
  assumes "emitter_ok e" and "delta \<noteq> []" and "Push lib c delta e = (s, a, e')"
  shows "Buffered e' \<le> MaxLinkBufferRunes"
proof -
  let ?e = "e\<lparr>em_text := em_text e @ runes_of delta\<rparr>"
  have ok: "emitter_ok ?e" using assms(1) by (simp add: emitter_ok_def)
  have "drain lib c False ?e = (s, a, e')" using assms(2,3) by (simp add: Push_def)
  from drain_render(4)[OF ok this] obtain out rem where
    r: "render lib c False (flushedRunes ?e) (drop (flushedRunes ?e) (em_text (resolveHarmonyTokens c ?e))) = (out, a, rem)"
    and e': "em_text e' = take (flushedRunes ?e) (em_text ?e) @ out @ rem" "flushedRunes e' = flushedRunes ?e + length out"
    by blast
  have "int (length rem) \<le> MaxLinkBufferRunes"
    using render_held[of False lib c "flushedRunes ?e"] r by (metis snd_conv)
  then show ?thesis using e' assms(1) by (simp add: Buffered_def emitter_ok_def)
qed

text \<open>
  The emitter never holds back more than \<open>MaxLinkBufferRunes\<close> runes: after any deltas, its buffer
  is between empty and that limit.
\<close>

theorem link_buffer_bounded:
  "0 \<le> Buffered (snd (snd (push_all lib ds NewEmitter)))
   \<and> Buffered (snd (snd (push_all lib ds NewEmitter))) \<le> 4096"
proof -
  have "emitter_ok e \<Longrightarrow> Buffered e \<le> MaxLinkBufferRunes \<Longrightarrow>
      emitter_ok (snd (snd (push_all lib ds e))) \<and> Buffered (snd (snd (push_all lib ds e))) \<le> MaxLinkBufferRunes" for e
  proof (induction ds arbitrary: e)
    case (Cons d ds)
    obtain c delta where d: "d = (c, delta)" by fastforce
    obtain s1 a1 e1 where p: "Push lib c delta e = (s1, a1, e1)" by (metis prod_cases3)
    have "Buffered e1 \<le> MaxLinkBufferRunes"
    proof (cases "delta = []")
      case True
      then show ?thesis using p Cons.prems by (simp add: Push_def)
    next
      case False
      then show ?thesis using Push_held[OF Cons.prems(1) False p] by simp
    qed
    then show ?case using Cons.IH[OF Push_grows(1)[OF Cons.prems(1) p]] by (simp add: d p split_beta)
  qed simp
  from this[of NewEmitter] show ?thesis
    by (simp add: Buffered_def emitter_ok_def MaxLinkBufferRunes_def NewEmitter_def)
qed

section \<open>Streaming and batch agree\<close>

definition no_harmony :: "State option \<Rightarrow> bool" where
  "no_harmony c \<longleftrightarrow> (case c of None \<Rightarrow> True | Some st \<Rightarrow> \<not> Harmony st)"

lemma resolveHarmonyTokens_id [simp]: "no_harmony c \<Longrightarrow> resolveHarmonyTokens c e = e"
  by (simp add: no_harmony_def resolveHarmonyTokens_def split: option.splits)

lemma Push_render:
  assumes "no_harmony c" and "emitter_ok e" and "delta \<noteq> []" and "Push lib c delta e = (s, a, e')"
  shows "\<exists>out rem. render lib c False (flushedRunes e) (drop (flushedRunes e) (em_text e) @ runes_of delta) = (out, a, rem)
           \<and> s = string_of_runes out \<and> em_text e' = take (flushedRunes e) (em_text e) @ out @ rem
           \<and> flushedRunes e' = flushedRunes e + length out"
proof -
  let ?e = "e\<lparr>em_text := em_text e @ runes_of delta\<rparr>"
  have ok: "emitter_ok ?e" using assms(2) by (simp add: emitter_ok_def)
  have "drain lib c False ?e = (s, a, e')" using assms(3,4) by (simp add: Push_def)
  from drain_render(4)[OF ok this] show ?thesis using assms(1,2) by (simp add: emitter_ok_def)
qed

lemma stream_render:
  assumes "no_harmony c" and "emitter_ok e"
    and "links_decided (drop (flushedRunes e) (em_text e) @ concat (map runes_of ds))"
    and "push_all lib (map (Pair c) ds) e = (s, a, e1)" and "Flush lib c e1 = (s2, a2, e2)"
    and "render lib c True (flushedRunes e) (drop (flushedRunes e) (em_text e) @ concat (map runes_of ds)) = (out, an, rem)"
  shows "s @ s2 = string_of_runes out \<and> a @ a2 = an \<and> em_text e2 = take (flushedRunes e) (em_text e) @ out @ rem"
  using assms(2-)
proof (induction ds arbitrary: e s a out an rem)
  case Nil
  then have "drain lib c True e = (s2, a2, e2)" by (simp add: Flush_def)
  from drain_render(4)[OF Nil(1) this] show ?case using Nil assms(1) by auto
next
  case (Cons d ds)
  show ?case
  proof (cases "d = []")
    case True
    then have "push_all lib (map (Pair c) ds) e = (s, a, e1)" using Cons.prems(3) by (simp add: Push_def split_beta)
    then show ?thesis using Cons.IH[OF Cons.prems(1) _ _ Cons.prems(4)] Cons.prems(2,5) True by simp
  next
    case False
    let ?xs = "drop (flushedRunes e) (em_text e) @ runes_of d" and ?zs = "concat (map runes_of ds)"
    obtain s0 a0 e0 where p: "Push lib c d e = (s0, a0, e0)" by (metis prod_cases3)
    obtain s1 a1 e1' where q: "push_all lib (map (Pair c) ds) e0 = (s1, a1, e1')" by (metis prod_cases3)
    have res: "s = s0 @ s1" "a = a0 @ a1" "e1 = e1'" using Cons.prems(3) by (simp_all add: p q)
    obtain out0 rem0 where r0: "render lib c False (flushedRunes e) ?xs = (out0, a0, rem0)"
      and s0: "s0 = string_of_runes out0" and e0: "em_text e0 = take (flushedRunes e) (em_text e) @ out0 @ rem0"
        "flushedRunes e0 = flushedRunes e + length out0"
      using Push_render[OF assms(1) Cons.prems(1) False p] by blast
    have ok0: "emitter_ok e0" by (rule Push_grows(1)[OF Cons.prems(1) p])
    have d0: "drop (flushedRunes e0) (em_text e0) = rem0"
      and t0: "take (flushedRunes e0) (em_text e0) = take (flushedRunes e) (em_text e) @ out0"
      using e0 Cons.prems(1) by (simp_all add: emitter_ok_def min_absorb1 min_absorb2)
    have dec: "links_decided (?xs @ ?zs)" using Cons.prems(2) by simp
    have "suffix rem0 ?xs" using render_rem_suffix[of lib c False "flushedRunes e" ?xs] r0 by simp
    then have dec0: "links_decided (rem0 @ ?zs)"
      using links_decided_suffix[OF dec] by (simp add: suffix_def)
    obtain out1 an1 rem1 where r1: "render lib c True (flushedRunes e0) (rem0 @ ?zs) = (out1, an1, rem1)"
      by (metis prod_cases3)
    have "render lib c True (flushedRunes e) (?xs @ ?zs) = (out0 @ out1, a0 @ an1, rem1)"
      using render_append[OF _ dec r0, of True] r1 e0(2) by simp
    then have "out = out0 @ out1" "an = a0 @ an1" "rem = rem1" using Cons.prems(5) by simp_all
    then show ?thesis
      using Cons.IH[OF ok0, unfolded d0 t0, OF dec0 q[folded res(3)] Cons.prems(4) r1] res s0 by simp
  qed
qed

lemma runes_of_concat:
  assumes "\<forall>d \<in> set ds. string_of_runes (runes_of d) = d"
  shows "runes_of (concat ds) = concat (map runes_of ds)"
proof -
  have "string_of_runes (concat (map runes_of ds)) = concat ds" using assms by (induction ds) auto
  moreover have "list_all valid_rune (concat (map runes_of ds))"
    using runes_of_valid by (auto simp: list_all_iff)
  ultimately show ?thesis using runes_of_encode by metis
qed

lemma stream_text_render:
  assumes "no_harmony c" and "links_decided (concat (map runes_of ds))"
    and "render lib c True 0 (concat (map runes_of ds)) = (out, an, rem)"
  shows "fst (stream_text lib (map (Pair c) ds) c) = string_of_runes out
           \<and> fst (snd (stream_text lib (map (Pair c) ds) c)) = an"
proof -
  obtain s a e where p: "push_all lib (map (Pair c) ds) NewEmitter = (s, a, e)" by (metis prod_cases3)
  obtain s2 a2 e2 where q: "Flush lib c e = (s2, a2, e2)" by (metis prod_cases3)
  show ?thesis
    using stream_render[OF assms(1) NewEmitter_ok _ p q, of out an rem] assms(2,3)
    by (simp add: stream_text_def p q)
qed

text \<open>
  C37. Streaming does not change the answer of a model without Harmony citation tokens. If every delta is well-formed
  UTF-8, every bracket is decided within the buffer's limit of 4096 runes and the sources do not change while the
  text streams, the content and the annotations sent do not depend on how the model's text was cut into deltas:
  they are those of the whole text pushed at once.
\<close>

theorem streaming_independent_of_chunks:
  assumes "no_harmony c" and "\<forall>d \<in> set ds. string_of_runes (runes_of d) = d"
    and "links_decided (runes_of (concat ds))"
  shows "fst (stream_text lib (map (Pair c) ds) c) = fst (stream_text lib [(c, concat ds)] c)
         \<and> fst (snd (stream_text lib (map (Pair c) ds) c)) = fst (snd (stream_text lib [(c, concat ds)] c))"
proof -
  let ?rs = "concat (map runes_of ds)"
  obtain out an rem where r: "render lib c True 0 ?rs = (out, an, rem)" by (metis prod_cases3)
  have eq: "runes_of (concat ds) = ?rs" by (rule runes_of_concat[OF assms(2)])
  show ?thesis
    using stream_text_render[OF assms(1) _ r] stream_text_render[OF assms(1), of "[concat ds]" lib out an rem]
      assms(3) r eq by simp
qed

lemma links_decided_if_short: "int (length t) \<le> MaxLinkBufferRunes \<Longrightarrow> links_decided t"
  unfolding links_decided_def by (auto dest: suffix_length_le)

theorem streaming_independent_of_chunks_witness:
  "fst (stream_text plain_urls (map (Pair None) [''see [i'', ''t](http://x)'']) None)
     = fst (stream_text plain_urls [(None, concat [''see [i'', ''t](http://x)''])] None)
   \<and> fst (snd (stream_text plain_urls (map (Pair None) [''see [i'', ''t](http://x)'']) None))
     = fst (snd (stream_text plain_urls [(None, concat [''see [i'', ''t](http://x)''])] None))"
proof (rule streaming_independent_of_chunks)
  show "no_harmony None" by (simp add: no_harmony_def)
  have "string_of_runes (runes_of ''see [i'') = ''see [i''" "string_of_runes (runes_of ''t](http://x)'') = ''t](http://x)''"
    by code_simp+
  then show "\<forall>d \<in> set [''see [i'', ''t](http://x)'']. string_of_runes (runes_of d) = d" by simp
  have "length (runes_of (concat [''see [i'', ''t](http://x)''])) = 18" by code_simp
  then show "links_decided (runes_of (concat [''see [i'', ''t](http://x)'']))"
    by (intro links_decided_if_short) (simp add: MaxLinkBufferRunes_def)
qed

section \<open>Where annotations point\<close>

text \<open>
  A link of the text \<open>t\<close> that annotation \<open>a\<close> marks: ASCII brackets around the label the annotation spans,
  then a URL in parentheses; the annotation's source is what the link's URL resolves to. The URL in
  the text is the one in the annotation unless it holds a fullwidth closing bracket.
\<close>

definition marks_link :: "url_lib \<Rightarrow> State option \<Rightarrow> rune list \<Rightarrow> Annotation \<Rightarrow> bool" where
  "marks_link lib c t a \<longleftrightarrow>
     (\<exists>p label u shown q src.
        t = p @ 0x5B # label @ 0x5D # 0x28 # shown @ 0x29 # q \<and> label \<noteq> []
        \<and> StartIndex a = int (length p) + 1 \<and> EndIndex a = int (length p) + 1 + int (length label)
        \<and> ResolveSource lib c (string_of_runes u) = Some src \<and> ann_source a = src\<lparr>URL := string_of_runes u\<rparr>
        \<and> (shown = u \<or> 0x3011 \<in> set u))"

lemma marks_link_prefix: "marks_link lib c t a \<Longrightarrow> prefix t t' \<Longrightarrow> marks_link lib c t' a"
proof -
  assume "marks_link lib c t a" and "prefix t t'"
  then obtain r p label u shown q src where
    "t' = p @ 0x5B # label @ 0x5D # 0x28 # shown @ 0x29 # q @ r" "label \<noteq> []"
    "StartIndex a = int (length p) + 1" "EndIndex a = int (length p) + 1 + int (length label)"
    "ResolveSource lib c (string_of_runes u) = Some src" "ann_source a = src\<lparr>URL := string_of_runes u\<rparr>"
    "shown = u \<or> 0x3011 \<in> set u"
    unfolding marks_link_def prefix_def by auto
  then show ?thesis unfolding marks_link_def by blast
qed

lemma replace_first_append:
  "replace_first a b (xs @ ys) = (if a \<in> set xs then replace_first a b xs @ ys else xs @ replace_first a b ys)"
  by (induction xs) auto

lemma replace_first_notin: "a \<notin> set xs \<Longrightarrow> replace_first a b xs = xs"
  by (induction xs) auto

lemma fix_brackets_link:
  assumes "open_bracket b" and "close_bracket cl" and "list_all (\<lambda>r. \<not> close_bracket r) label"
  shows "\<exists>shown. fix_brackets (b # label @ cl # 0x28 # u @ [0x29]) = 0x5B # label @ 0x5D # 0x28 # shown @ [0x29]
           \<and> (shown = u \<or> 0x3011 \<in> set u)"
proof -
  have b: "(if b = 0x3010 then 0x5B else b) = 0x5B" using assms(1) by (auto simp: open_bracket_def)
  have l: "0x3011 \<notin> set label" using assms(3) by (auto simp: list_all_iff close_bracket_def)
  show ?thesis
  proof (cases "cl = 0x3011")
    case True
    then show ?thesis using b l by (simp add: fix_brackets_def replace_first_append)
  next
    case False
    then have "cl = 0x5D" using assms(2) by (simp add: close_bracket_def)
    then show ?thesis
      using b l by (intro exI[of _ "replace_first 0x3011 0x5D u"])
        (auto simp: fix_brackets_def replace_first_append replace_first_notin)
  qed
qed

lemma render_marks:
  assumes "render lib c final off xs = (out, anns, rem)" and "a \<in> set anns" and "length t = off"
  shows "marks_link lib c (t @ out) a"
  using assms
proof (induction lib c final off xs arbitrary: out anns rem t rule: render_induct)
  case (link lib c final off before b label cl u rest link)
  obtain out1 anns1 rem1 where r: "render lib c final (off + length before + length link) rest = (out1, anns1, rem1)"
    by (metis prod_cases3)
  have out: "out = before @ link @ out1"
    and anns: "anns = annotate lib c (off + length before + 1) (off + length before + 1 + length label) (string_of_runes u) @ anns1"
    using link(4,6) r by auto
  show ?case
  proof (cases "a \<in> set anns1")
    case True
    then show ?thesis using link(5)[OF r True, of "t @ before @ link"] link(8) out by simp
  next
    case False
    then have "a \<in> set (annotate lib c (off + length before + 1) (off + length before + 1 + length label) (string_of_runes u))"
      using anns link(7) by simp
    then obtain src where src: "ResolveSource lib c (string_of_runes u) = Some src"
      and a: "StartIndex a = int (off + length before) + 1" "EndIndex a = int (off + length before) + 1 + int (length label)"
        "ann_source a = src\<lparr>URL := string_of_runes u\<rparr>"
      by (cases "ResolveSource lib c (string_of_runes u)") (auto simp: annotate_def)
    obtain b' where "b # label @ cl # 0x28 # u @ 0x29 # rest = b' # label @ cl # 0x28 # u @ 0x29 # rest"
      "open_bracket b'" "close_bracket cl" "label \<noteq> []" "list_all (\<lambda>r. \<not> close_bracket r) label"
      using parse_link_MatchD[OF link(2)] by blast
    then obtain shown where shown: "link = 0x5B # label @ 0x5D # 0x28 # shown @ [0x29]" "shown = u \<or> 0x3011 \<in> set u"
      and "label \<noteq> []"
      using fix_brackets_link[of b cl label u] link(3) by auto
    have "t @ out = (t @ before) @ 0x5B # label @ 0x5D # 0x28 # shown @ 0x29 # out1" using out shown by simp
    then show ?thesis
      unfolding marks_link_def using src a shown \<open>label \<noteq> []\<close> link(8)
      by (intro exI[of _ "t @ before"] exI[of _ label] exI[of _ u] exI[of _ shown] exI[of _ out1] exI[of _ src]) simp
  qed
next
  case (skip lib c final off before b ys)
  obtain out1 anns1 rem1 where r: "render lib c final (off + length before + 1) ys = (out1, anns1, rem1)"
    by (metis prod_cases3)
  then have "out = before @ b # out1" "anns = anns1" using skip(4,6) by auto
  then show ?case using skip(5)[OF r, of "t @ before @ [b]"] skip(7,8) by simp
qed simp_all

lemma drain_marks:
  assumes "emitter_ok e" and "drain lib c final e = (s, a, e')" and "x \<in> set a"
  shows "marks_link lib c (take (flushedRunes e') (em_text e')) x"
proof -
  obtain out rem where r: "render lib c final (flushedRunes e) (drop (flushedRunes e) (em_text (resolveHarmonyTokens c e))) = (out, a, rem)"
    and e': "em_text e' = take (flushedRunes e) (em_text e) @ out @ rem" "flushedRunes e' = flushedRunes e + length out"
    using drain_render(4)[OF assms(1,2)] by blast
  have eq: "take (flushedRunes e') (em_text e') = take (flushedRunes e) (em_text e) @ out"
    using e' assms(1) by (simp add: emitter_ok_def min_absorb1 min_absorb2)
  show ?thesis
    unfolding eq by (rule render_marks[OF r assms(3)]) (use assms(1) in \<open>simp add: emitter_ok_def\<close>)
qed

lemma Push_marks:
  assumes "emitter_ok e" and "Push lib c delta e = (s, a, e')" and "x \<in> set a"
  shows "marks_link lib c (take (flushedRunes e') (em_text e')) x"
proof -
  let ?e = "e\<lparr>em_text := em_text e @ runes_of delta\<rparr>"
  have "emitter_ok ?e" using assms(1) by (simp add: emitter_ok_def)
  moreover have "drain lib c False ?e = (s, a, e')" using assms(2,3) by (auto simp: Push_def split: if_splits)
  ultimately show ?thesis using assms(3) by (rule drain_marks)
qed

lemma push_all_marks:
  assumes "emitter_ok e" and "push_all lib ds e = (s, a, e')" and "x \<in> set a"
  shows "\<exists>c \<in> fst ` set ds. marks_link lib c (take (flushedRunes e') (em_text e')) x"
  using assms
proof (induction ds arbitrary: e s a e')
  case (Cons d ds)
  obtain c delta where d: "d = (c, delta)" by fastforce
  obtain s1 a1 e1 where p: "Push lib c delta e = (s1, a1, e1)" by (metis prod_cases3)
  obtain s2 a2 e2 where q: "push_all lib ds e1 = (s2, a2, e2)" by (metis prod_cases3)
  have res: "a = a1 @ a2" "e' = e2" using Cons.prems(2) by (simp_all add: d p q)
  have ok1: "emitter_ok e1" by (rule Push_grows(1)[OF Cons.prems(1) p])
  show ?case
  proof (cases "x \<in> set a2")
    case True
    then show ?thesis using Cons.IH[OF ok1 q True] res by auto
  next
    case False
    then have "marks_link lib c (take (flushedRunes e1) (em_text e1)) x"
      using Push_marks[OF Cons.prems(1) p] Cons.prems(3) res by simp
    then have "marks_link lib c (take (flushedRunes e2) (em_text e2)) x"
      using push_all_grows[OF ok1 q] marks_link_prefix by blast
    then show ?thesis using d res by auto
  qed
qed simp

text \<open>
  Every annotation a stream sends marks a link of the text the client has received: an ASCII
  bracketed label at exactly the rune span the annotation names, whose URL resolved to the
  annotation's source with the sources recorded at some moment of the stream.
\<close>

theorem streamed_annotation_marks_link:
  assumes "a \<in> set (fst (snd (stream_text lib ds c)))"
  shows "\<exists>c' \<in> insert c (fst ` set ds). \<exists>p label u shown q src.
           em_text (snd (snd (stream_text lib ds c))) = p @ 0x5B # label @ 0x5D # 0x28 # shown @ 0x29 # q
           \<and> label \<noteq> [] \<and> StartIndex a = int (length p) + 1
           \<and> EndIndex a = int (length p) + 1 + int (length label)
           \<and> ResolveSource lib c' (string_of_runes u) = Some src \<and> ann_source a = src\<lparr>URL := string_of_runes u\<rparr>
           \<and> (shown = u \<or> 0x3011 \<in> set u)"
proof -
  obtain s a1 e where p: "push_all lib ds NewEmitter = (s, a1, e)" by (metis prod_cases3)
  obtain s2 a2 e2 where q: "drain lib c True e = (s2, a2, e2)" by (metis prod_cases3)
  have ok: "emitter_ok e" using push_all_grows[OF NewEmitter_ok p] by simp
  have full: "take (flushedRunes e2) (em_text e2) = em_text e2"
    using Flush_empties[OF ok] q by (simp add: Flush_def)
  have "a \<in> set a1 \<or> a \<in> set a2" using assms by (simp add: stream_text_def p q Flush_def)
  then have "\<exists>c' \<in> insert c (fst ` set ds). marks_link lib c' (em_text e2) a"
  proof
    assume "a \<in> set a1"
    then obtain c' where "c' \<in> fst ` set ds" "marks_link lib c' (take (flushedRunes e) (em_text e)) a"
      using push_all_marks[OF NewEmitter_ok p] by blast
    then show ?thesis using drain_grows(3)[OF ok q] marks_link_prefix full by (metis insertCI)
  next
    assume "a \<in> set a2"
    then show ?thesis using drain_marks[OF ok q] full by (metis insertI1)
  qed
  then show ?thesis by (simp add: stream_text_def p q Flush_def marks_link_def)
qed

definition plain_source :: State where
  "plain_source = one_source\<lparr>Harmony := False\<rparr>"

definition link_runes :: "rune list" where
  "link_runes = [91, 105, 116, 93, 40, 104, 116, 116, 112, 58, 47, 47, 120, 41]"

lemma runes_of_link: "runes_of ''[it](http://x)'' = link_runes"
  by code_simp

lemma parse_link_x: "parse_link link_runes = PMatch [105, 116] 93 [104, 116, 116, 112, 58, 47, 47, 120] []"
  by code_simp

lemma string_of_url_runes: "string_of_runes [104, 116, 116, 112, 58, 47, 47, 120] = ''http://x''"
  by code_simp

lemma annotate_x:
  "annotate plain_urls (Some plain_source) 1 3 ''http://x''
     = [\<lparr>StartIndex = 1, EndIndex = 3, ann_source = \<lparr>Index = 1, URL = ''http://x'', Title = ''X''\<rparr>\<rparr>]"
  by (simp add: annotate_def ResolveSource_def plain_source_def one_source_def NormalizeURL_x better_def)

lemma stream_text_x:
  "fst (snd (stream_text plain_urls [(Some plain_source, ''[it](http://x)'')] (Some plain_source)))
     = [\<lparr>StartIndex = 1, EndIndex = 3, ann_source = \<lparr>Index = 1, URL = ''http://x'', Title = ''X''\<rparr>\<rparr>]"
proof -
  obtain out an rem where r: "render plain_urls (Some plain_source) True 0 link_runes = (out, an, rem)"
    by (metis prod_cases3)
  have "render plain_urls (Some plain_source) True n [] = ([], [], [])" for n by (simp add: render.simps)
  then have "an = annotate plain_urls (Some plain_source) 1 3 ''http://x''"
    using r parse_link_x
    by (auto simp: link_runes_def render_link string_of_url_runes Let_def numeral_3_eq_3)
  moreover have "links_decided link_runes"
    by (rule links_decided_if_short) (simp add: link_runes_def MaxLinkBufferRunes_def)
  moreover have "no_harmony (Some plain_source)" by (simp add: no_harmony_def plain_source_def)
  ultimately show ?thesis
    using stream_text_render[of "Some plain_source" "[''[it](http://x)'']" plain_urls out an rem] r annotate_x
    by (simp add: runes_of_link)
qed

theorem streamed_annotation_marks_link_witness:
  "\<exists>c' \<in> {Some plain_source}. \<exists>p label u shown q src.
     em_text (snd (snd (stream_text plain_urls [(Some plain_source, ''[it](http://x)'')] (Some plain_source))))
       = p @ 0x5B # label @ 0x5D # 0x28 # shown @ 0x29 # q
     \<and> label \<noteq> [] \<and> (1::int) = int (length p) + 1 \<and> 3 = int (length p) + 1 + int (length label)
     \<and> ResolveSource plain_urls c' (string_of_runes u) = Some src
     \<and> \<lparr>Index = 1, URL = ''http://x'', Title = ''X''\<rparr> = src\<lparr>URL := string_of_runes u\<rparr>
     \<and> (shown = u \<or> 0x3011 \<in> set u)"
proof -
  let ?a = "\<lparr>StartIndex = 1, EndIndex = 3, ann_source = \<lparr>Index = 1, URL = ''http://x'', Title = ''X''\<rparr>\<rparr>"
  have "?a \<in> set (fst (snd (stream_text plain_urls [(Some plain_source, ''[it](http://x)'')] (Some plain_source))))"
    by (simp add: stream_text_x)
  from streamed_annotation_marks_link[OF this] show ?thesis by simp
qed

text \<open>
  The closing bracket that \<open>NormalizeLinkBrackets\<close> rewrites is the first fullwidth one of the whole link:
  when the label closes with an ASCII bracket, that is one inside the URL, and the client receives a
  different URL from the one the model wrote.
\<close>

lemma url_bracket_rewritten:
  "fst (stream_text plain_urls [(None, ''[a](http://x/'' @ fullwidth_close @ '')'')] None) = ''[a](http://x/])''"
  by code_simp

end
