(* ===== verification/Citation_Format.thy ===== *)
theory Citation_Format
  imports Citation_State
begin

text \<open>
  The text of a tool output (\<open>toolruntime/citations/format.go\<close>) and its way back: the formatters write
  one block per result and record its source, and \<open>ExtractToolOutputSources\<close> of \<open>state.go\<close> reads the
  sources out of the text again.
\<close>

abbreviation newline :: char where "newline \<equiv> char_of (10 :: nat)"

definition trimmed_field :: "json_object \<Rightarrow> string \<Rightarrow> string" where
  "trimmed_field m k = TrimSpace (string_field m k)"

section \<open>Formatting\<close>

definition labelled :: "string \<Rightarrow> string \<Rightarrow> string" where
  "labelled name v = (if v = [] then [] else name @ '': '' @ v @ [newline])"

definition search_block :: "string \<Rightarrow> string \<Rightarrow> string \<Rightarrow> string \<Rightarrow> string" where
  "search_block title url published content =
     ''Source: '' @ (if title = [] then ''Search result'' else title) @ [newline] @
     labelled ''URL'' url @ labelled ''Published'' published @
     (if content = [] then [] else content @ [newline]) @ [newline]"

definition numbered_lines :: "string \<Rightarrow> string" where
  "numbered_lines content =
     (if content = [] then []
      else concat (map (\<lambda>(i, line). ''L'' @ show_nat (i + 1) @ '': '' @ line @ [newline])
                    (List.enumerate 0 (split_on newline content))))"

definition harmony_search_block :: "int \<Rightarrow> string \<Rightarrow> string \<Rightarrow> string \<Rightarrow> string \<Rightarrow> string" where
  "harmony_search_block cursor title url published content =
     ''['' @ show_int cursor @ ''] '' @ (if title = [] then ''Search result'' else title) @ [newline] @
     labelled ''URL'' url @ labelled ''Published'' published @ numbered_lines content @ [newline]"

fun search_blocks :: "json list \<Rightarrow> State option \<Rightarrow> string \<times> State option" where
  "search_blocks [] c = ([], c)"
| "search_blocks (r # rs) c =
     (case r of
        JObject result \<Rightarrow>
          let title = trimmed_field result ''title''; url = trimmed_field result ''url'';
              content = trimmed_field result ''content''; published = trimmed_field result ''published_date'';
              c1 = snd (Record url title c);
              (out, c2) = search_blocks rs c1
          in (search_block title url published content @ out, c2)
      | _ \<Rightarrow> search_blocks rs c)"

fun harmony_search_blocks :: "json list \<Rightarrow> State option \<Rightarrow> string \<times> State option" where
  "harmony_search_blocks [] c = ([], c)"
| "harmony_search_blocks (r # rs) c =
     (case r of
        JObject result \<Rightarrow>
          let title = trimmed_field result ''title''; url = trimmed_field result ''url'';
              content = trimmed_field result ''content''; published = trimmed_field result ''published_date'';
              (cursor, c1) = Record url title c;
              (out, c2) = harmony_search_blocks rs c1
          in (harmony_search_block cursor title url published content @ out, c2)
      | _ \<Rightarrow> harmony_search_blocks rs c)"

definition harmony_on :: "State option \<Rightarrow> bool" where
  "harmony_on c = (case c of None \<Rightarrow> False | Some st \<Rightarrow> Harmony st)"

definition array_or_empty :: "json \<Rightarrow> json list" where
  "array_or_empty raw = (case as_array raw of None \<Rightarrow> [] | Some xs \<Rightarrow> xs)"

definition FormatSearchOutput :: "json \<Rightarrow> State option \<Rightarrow> string \<times> State option" where
  "FormatSearchOutput raw c =
     (let results = array_or_empty raw in
      if results = [] then (''No safe search results were found.'', c)
      else if harmony_on c
      then (case harmony_search_blocks results c of (out, c') \<Rightarrow> (TrimSpace out, c'))
      else (case search_blocks results c of (out, c') \<Rightarrow> (TrimSpace out, c')))"

definition fetch_block :: "string \<Rightarrow> string \<Rightarrow> string" where
  "fetch_block url content =
     ''Source: Fetched page'' @ [newline] @ labelled ''URL'' url @
     (if content = [] then [] else content @ [newline]) @ [newline]"

definition harmony_fetch_block :: "int \<Rightarrow> string \<Rightarrow> string \<Rightarrow> string" where
  "harmony_fetch_block cursor url content =
     ''['' @ show_int cursor @ ''] Fetched page'' @ [newline] @ labelled ''URL'' url @
     numbered_lines content @ [newline]"

fun fetch_blocks :: "json list \<Rightarrow> State option \<Rightarrow> string \<times> State option" where
  "fetch_blocks [] c = ([], c)"
| "fetch_blocks (r # rs) c =
     (case r of
        JObject page \<Rightarrow>
          let url = trimmed_field page ''url''; content = trimmed_field page ''content'';
              (out, c2) = fetch_blocks rs (snd (Record url ''Fetched page'' c))
          in (fetch_block url content @ out, c2)
      | _ \<Rightarrow> fetch_blocks rs c)"

fun harmony_fetch_blocks :: "json list \<Rightarrow> State option \<Rightarrow> string \<times> State option" where
  "harmony_fetch_blocks [] c = ([], c)"
| "harmony_fetch_blocks (r # rs) c =
     (case r of
        JObject page \<Rightarrow>
          let url = trimmed_field page ''url''; content = trimmed_field page ''content'';
              (cursor, c1) = Record url ''Fetched page'' c;
              (out, c2) = harmony_fetch_blocks rs c1
          in (harmony_fetch_block cursor url content @ out, c2)
      | _ \<Rightarrow> harmony_fetch_blocks rs c)"

definition FormatFetchOutput :: "json \<Rightarrow> State option \<Rightarrow> string \<times> State option" where
  "FormatFetchOutput raw c =
     (let pages = array_or_empty raw in
      if pages = [] then ([], c)
      else if harmony_on c
      then (case harmony_fetch_blocks pages c of (out, c') \<Rightarrow> (TrimSpace out, c'))
      else (case fetch_blocks pages c of (out, c') \<Rightarrow> (TrimSpace out, c')))"

definition fetch_failure :: "json \<Rightarrow> string list" where
  "fetch_failure r =
     (case r of
        JObject result \<Rightarrow>
          let url = trimmed_field result ''url''; errText = trimmed_field result ''error'' in
          if trimmed_field result ''status'' = ''completed'' then []
          else if url \<noteq> [] \<and> errText \<noteq> [] then [''Fetch failed for '' @ url @ '': '' @ errText]
          else if url \<noteq> [] then [''Fetch failed for '' @ url @ ''.'']
          else if errText \<noteq> [] then [''Fetch failed: '' @ errText] else []
      | _ \<Rightarrow> [])"

definition FormatFetchFailures :: "json \<Rightarrow> string" where
  "FormatFetchFailures raw = join_with [newline] (concat (map fetch_failure (array_or_empty raw)))"

section \<open>Extraction\<close>

record ToolOutputSource =
  tos_URL :: string
  tos_Title :: string

definition trim_cr :: "string \<Rightarrow> string" where
  "trim_cr line = TrimRightChar (char_of (13 :: nat)) line"

text \<open>The loop over the lines, with the title pending for the next URL and the URLs seen.\<close>

fun extract_lines :: "string list \<Rightarrow> string \<Rightarrow> string list \<Rightarrow> ToolOutputSource list" where
  "extract_lines [] pendingTitle seen = []"
| "extract_lines (line # ls) pendingTitle seen =
     (case CutPrefix (trim_cr line) ''Source:'' of
        Some after \<Rightarrow> extract_lines ls (TrimSpace after) seen
      | None \<Rightarrow>
          (case CutPrefix (trim_cr line) ''URL:'' of
             None \<Rightarrow> extract_lines ls pendingTitle seen
           | Some after \<Rightarrow>
               let url = TrimSpace after in
               if url = [] then extract_lines ls [] seen
               else if url \<in> set seen then extract_lines ls [] seen
               else \<lparr>tos_URL = url, tos_Title = pendingTitle\<rparr> # extract_lines ls [] (url # seen)))"

definition ExtractToolOutputSources :: "string \<Rightarrow> ToolOutputSource list" where
  "ExtractToolOutputSources output =
     (if output = [] then [] else extract_lines (split_on newline output) [] [])"

text \<open>
  \<open>(?m)^URL:\s*(\S+)\<close>: the URLs at the starts of lines; \<open>\s*\<close> may run over line ends. \<open>bol\<close> tells
  whether the text to scan starts a line.
\<close>

function url_lines :: "bool \<Rightarrow> string \<Rightarrow> string list" where
  "url_lines bol [] = []"
| "url_lines bol (ch # cs) =
     (let after = dropWhile regex_space (drop 4 (ch # cs));
          u = takeWhile (\<lambda>x. \<not> regex_space x) after
      in if bol \<and> HasPrefix (ch # cs) ''URL:'' \<and> u \<noteq> []
         then u # url_lines False (dropWhile (\<lambda>x. \<not> regex_space x) after)
         else url_lines (ch = newline) cs)"
  by pat_completeness auto
termination
proof (relation "measure (\<lambda>(_, s). length s)", simp, goal_cases)
  case (1 bol ch cs after u)
  have "length (dropWhile (\<lambda>x. \<not> regex_space x) after) \<le> length after" by (rule length_dropWhile_le)
  also have "\<dots> \<le> length (drop 4 (ch # cs))" using 1 length_dropWhile_le by blast
  finally show ?case by simp
qed simp

fun dedup_trimmed :: "string list \<Rightarrow> string list \<Rightarrow> string list" where
  "dedup_trimmed [] seen = []"
| "dedup_trimmed (u # us) seen =
     (let url = TrimSpace u in
      if url = [] \<or> url \<in> set seen then dedup_trimmed us seen else url # dedup_trimmed us (url # seen))"

definition ExtractToolOutputURLs :: "string \<Rightarrow> string list" where
  "ExtractToolOutputURLs output = dedup_trimmed (url_lines True output) []"

section \<open>Trimming\<close>

lemma trim_left_None: "find (HasPrefix s) space_codes = None \<Longrightarrow> trim_left s = s"
  by (subst trim_left.simps) simp

lemma trim_right_None: "find (HasSuffix s) space_codes = None \<Longrightarrow> trim_right s = s"
  by (subst trim_right.simps) simp

lemma trim_left_no_space: "s \<noteq> [] \<Longrightarrow> trim_left s = s \<Longrightarrow> find (HasPrefix s) space_codes = None"
proof (rule ccontr)
  assume s: "s \<noteq> []" "trim_left s = s" "find (HasPrefix s) space_codes \<noteq> None"
  then obtain p where p: "find (HasPrefix s) space_codes = Some p" by auto
  then have "trim_left s = trim_left (drop (length p) s)" using s(1) by (subst trim_left.simps) simp
  then have "length s \<le> length s - length p"
    using s(2) suffix_length_le[OF trim_left_suffix, of "drop (length p) s"] by simp
  then show False using find_space_SomeD[OF p] s(1) by (cases p; cases s) auto
qed

lemma trim_right_no_space: "s \<noteq> [] \<Longrightarrow> trim_right s = s \<Longrightarrow> find (HasSuffix s) space_codes = None"
proof (rule ccontr)
  assume s: "s \<noteq> []" "trim_right s = s" "find (HasSuffix s) space_codes \<noteq> None"
  then obtain p where p: "find (HasSuffix s) space_codes = Some p" by auto
  then have "trim_right s = trim_right (take (length s - length p) s)" using s(1) by (subst trim_right.simps) simp
  then have "length s \<le> length s - length p"
    using s(2) prefix_length_le[OF trim_right_prefix, of "take (length s - length p) s"] by simp
  then show False using find_space_SomeD[OF p] s(1) by (cases p; cases s) auto
qed

lemma trim_left_idem: "trim_left (trim_left s) = trim_left s"
proof (induction s rule: trim_left.induct)
  case (1 s)
  show ?case
  proof (cases "s = [] \<or> find (HasPrefix s) space_codes = None")
    case True
    then have "trim_left s = s" by (subst trim_left.simps) auto
    then show ?thesis by simp
  next
    case False
    then obtain p where "find (HasPrefix s) space_codes = Some p" by auto
    then show ?thesis using 1 False by (simp add: trim_left.simps[of s])
  qed
qed

lemma trim_right_idem: "trim_right (trim_right s) = trim_right s"
proof (induction s rule: trim_right.induct)
  case (1 s)
  show ?case
  proof (cases "s = [] \<or> find (HasSuffix s) space_codes = None")
    case True
    then have "trim_right s = s" by (subst trim_right.simps) auto
    then show ?thesis by simp
  next
    case False
    then obtain p where "find (HasSuffix s) space_codes = Some p" by auto
    then show ?thesis using 1 False by (simp add: trim_right.simps[of s])
  qed
qed

lemma HasPrefix_prefix: "HasPrefix t p \<Longrightarrow> prefix t s \<Longrightarrow> HasPrefix s p"
  unfolding HasPrefix_def prefix_def by (metis append_take_drop_id append.assoc take_append append_eq_conv_conj)

lemma trim_left_trim_right:
  assumes "trim_left s = s"
  shows "trim_left (trim_right s) = trim_right s"
proof (cases "trim_right s = []")
  case True
  then show ?thesis by (simp add: trim_left.simps)
next
  case False
  then have "s \<noteq> []" using trim_right_prefix[of s] by auto
  then have "\<forall>p \<in> set space_codes. \<not> HasPrefix s p"
    using trim_left_no_space[OF _ assms] by (simp add: find_None_iff)
  then have "\<forall>p \<in> set space_codes. \<not> HasPrefix (trim_right s) p"
    using HasPrefix_prefix trim_right_prefix by blast
  then show ?thesis by (intro trim_left_None) (simp add: find_None_iff)
qed

lemma TrimSpace_idem [simp]: "TrimSpace (TrimSpace s) = TrimSpace s"
  using trim_left_trim_right[OF trim_left_idem] trim_right_idem by (simp add: TrimSpace_def)

lemma TrimSpace_fixed:
  assumes "TrimSpace s = s"
  shows "trim_left s = s" and "trim_right s = s"
proof -
  have "length s \<le> length (trim_left s)"
    using prefix_length_le[OF trim_right_prefix, of "trim_left s"] assms by (simp add: TrimSpace_def)
  then show l: "trim_left s = s"
    using trim_left_suffix[of s] by (metis append_eq_append_conv append_self_conv2 le_antisym suffix_def suffix_length_le)
  show "trim_right s = s" using assms l by (simp add: TrimSpace_def)
qed

lemma trim_left_space: "trim_left (CHR '' '' # s) = trim_left s"
proof -
  have "find (HasPrefix (CHR '' '' # s)) space_codes = Some '' ''"
    by (simp add: space_codes_def HasPrefix_def byte_def char_of_def bit_Suc_0_iff)
  then show ?thesis by (subst trim_left.simps) simp
qed

lemma TrimSpace_space: "TrimSpace (CHR '' '' # s) = TrimSpace s"
  by (simp add: TrimSpace_def trim_left_space)

lemma HasSuffix_iff: "HasSuffix s p \<longleftrightarrow> suffix p s"
  unfolding HasSuffix_def suffix_def
  by (metis append_take_drop_id diff_diff_cancel length_append length_drop le_add2 suffix_def append_eq_conv_conj
      append_same_eq diff_add_inverse2 add_diff_cancel_right' drop_append drop_all append_Nil diff_self_eq_0 drop0 order_refl)

lemma suffix_longer_cases:
  assumes "suffix p (pre @ x # v)"
  shows "suffix p v \<or> x \<in> set p"
proof -
  have "suffix p v \<or> (\<exists>q. p = q @ x # v)"
    using assms by (auto simp: suffix_append suffix_Cons)
  then show ?thesis by auto
qed

lemma space_codes_ascii: "p \<in> set space_codes \<Longrightarrow> length p = 1 \<or> newline \<notin> set p \<and> CHR '' '' \<notin> set p"
  by (auto simp: space_codes_def byte_def char_of_def bit_Suc_0_iff)

lemma trim_right_append:
  assumes "trim_right v = v" and "v \<noteq> []" and "x = newline \<or> x = CHR '' ''"
  shows "trim_right (pre @ x # v) = pre @ x # v"
proof (rule trim_right_None)
  have nv: "p \<in> set space_codes \<Longrightarrow> \<not> suffix p v" for p
    using trim_right_no_space[OF assms(2,1)] by (auto simp: find_None_iff HasSuffix_iff)
  have "\<not> suffix p (pre @ x # v)" if p: "p \<in> set space_codes" for p
  proof
    assume sfx: "suffix p (pre @ x # v)"
    then have "x \<in> set p" using nv[OF p] suffix_longer_cases[of p pre x v] by blast
    then have "length p = 1" using space_codes_ascii[OF p] assms(3) by blast
    then have "suffix p v"
      using sfx assms(2) by (cases v rule: rev_cases; cases p) (auto simp: suffix_def)
    then show False using nv[OF p] by blast
  qed
  then show "find (HasSuffix (pre @ x # v)) space_codes = None" by (simp add: find_None_iff HasSuffix_iff)
qed

lemma trim_right_newline: "trim_right (s @ [newline]) = trim_right s"
proof -
  have "find (HasSuffix (s @ [newline])) space_codes = Some [newline]"
    by (simp add: space_codes_def HasSuffix_iff byte_def char_of_def bit_Suc_0_iff)
  then show ?thesis by (subst trim_right.simps) simp
qed

section \<open>Lines\<close>

lemma split_on_sep: "split_on sep (a @ sep # b) = split_on sep a @ split_on sep b"
proof (induction a)
  case (Cons x a)
  then show ?case by (cases "split_on sep a") (auto split: list.splits)
qed simp

lemma split_on_none: "sep \<notin> set l \<Longrightarrow> split_on sep l = [l]"
  by (induction l) auto

definition header_line :: "string \<Rightarrow> bool" where
  "header_line l \<longleftrightarrow> HasPrefix (trim_cr l) ''Source:'' \<or> HasPrefix (trim_cr l) ''URL:''"

lemma extract_neutral:
  "list_all (\<lambda>l. \<not> header_line l) ls \<Longrightarrow> extract_lines (ls @ ls2) t seen = extract_lines ls2 t seen"
  by (induction ls) (auto simp: header_line_def CutPrefix_def)

lemma dropWhile_snoc_keep: "\<not> P x \<Longrightarrow> dropWhile P (xs @ [x]) = dropWhile P xs @ [x]"
  by (induction xs) auto

lemma trim_cr_Cons: "x \<noteq> char_of (13 :: nat) \<Longrightarrow> trim_cr (x # l) = x # trim_cr l"
  by (simp add: trim_cr_def TrimRightChar_def dropWhile_snoc_keep)

lemma trim_cr_trimmed:
  assumes "TrimSpace v = v"
  shows "trim_cr v = v"
proof (cases v rule: rev_cases)
  case Nil
  then show ?thesis by (simp add: trim_cr_def TrimRightChar_def)
next
  case (snoc w x)
  have "find (HasSuffix v) space_codes = None"
    by (rule trim_right_no_space[OF _ TrimSpace_fixed(2)[OF assms]]) (simp add: snoc)
  moreover have "[char_of (13 :: nat)] \<in> set space_codes" by (simp add: space_codes_def byte_def)
  ultimately have "\<not> suffix [char_of (13 :: nat)] v" unfolding find_None_iff HasSuffix_iff by blast
  then have "x \<noteq> char_of (13 :: nat)" by (simp add: snoc)
  then show ?thesis unfolding snoc by (simp add: trim_cr_def TrimRightChar_def)
qed

lemma trim_cr_label:
  assumes "TrimSpace v = v" and "char_of (13 :: nat) \<notin> set name"
  shows "trim_cr (name @ v) = name @ v"
  using assms(2) by (induction name) (auto simp: trim_cr_trimmed[OF assms(1)] trim_cr_Cons)

lemma extract_Source:
  assumes "TrimSpace title = title"
  shows "extract_lines ((''Source: '' @ title) # ls) t seen = extract_lines ls title seen"
proof -
  have "trim_cr (''Source: '' @ title) = ''Source: '' @ title"
    by (rule trim_cr_label[OF assms]) (simp add: char_of_def bit_Suc_0_iff)
  then show ?thesis
    using assms TrimSpace_space[of title] by (simp add: CutPrefix_def HasPrefix_def)
qed

lemma extract_URL:
  assumes "TrimSpace url = url" and "url \<noteq> []"
  shows "extract_lines ((''URL: '' @ url) # ls) t seen =
           (if url \<in> set seen then extract_lines ls [] seen
            else \<lparr>tos_URL = url, tos_Title = t\<rparr> # extract_lines ls [] (url # seen))"
proof -
  have "trim_cr (''URL: '' @ url) = ''URL: '' @ url"
    by (rule trim_cr_label[OF assms(1)]) (simp add: char_of_def bit_Suc_0_iff)
  then show ?thesis
    using assms TrimSpace_space[of url] by (simp add: CutPrefix_def HasPrefix_def)
qed

section \<open>Extraction inverts formatting\<close>

text \<open>
  A result whose title, URL and date are single lines and whose content has no line that reads as a
  \<open>Source:\<close> or \<open>URL:\<close> header.
\<close>

fun clean_result :: "json \<Rightarrow> bool" where
  "clean_result (JObject m) =
     (newline \<notin> set (trimmed_field m ''title'') \<and> newline \<notin> set (trimmed_field m ''url'')
      \<and> newline \<notin> set (trimmed_field m ''published_date'')
      \<and> list_all (\<lambda>l. \<not> header_line l) (split_on newline (trimmed_field m ''content'')))"
| "clean_result _ = True"

text \<open>The sources of a result list: the first result of each URL, with its title or the default one.\<close>

fun result_sources :: "json list \<Rightarrow> string list \<Rightarrow> ToolOutputSource list" where
  "result_sources [] seen = []"
| "result_sources (JObject m # rs) seen =
     (let url = trimmed_field m ''url''; title = trimmed_field m ''title'' in
      if url = [] \<or> url \<in> set seen then result_sources rs seen
      else \<lparr>tos_URL = url, tos_Title = (if title = [] then ''Search result'' else title)\<rparr>
             # result_sources rs (url # seen))"
| "result_sources (_ # rs) seen = result_sources rs seen"

lemma trimmed_field_TrimSpace [simp]: "TrimSpace (trimmed_field m k) = trimmed_field m k"
  by (simp add: trimmed_field_def)

lemma TrimSpace_default: "TrimSpace ''Search result'' = ''Search result''"
  by (rule TrimSpace_graphic) (simp_all add: graphic_def)

lemma newline_chars: "newline \<notin> set ''Source: ''" "newline \<notin> set ''URL: ''" "newline \<notin> set ''Published: ''"
  "newline \<notin> set ''Search result''"
  by (simp_all add: char_of_def bit_Suc_0_iff)

lemma split_line: "newline \<notin> set l \<Longrightarrow> split_on newline (l @ newline # rest) = l # split_on newline rest"
  using split_on_sep[of newline l rest] by (simp add: split_on_none)

definition block_lines :: "string \<Rightarrow> string \<Rightarrow> string \<Rightarrow> string \<Rightarrow> string list" where
  "block_lines title url published content =
     (''Source: '' @ title) # (if url = [] then [] else [''URL: '' @ url])
     @ (if published = [] then [] else [''Published: '' @ published])
     @ (if content = [] then [] else split_on newline content) @ [[]]"

lemma split_labelled:
  assumes "newline \<notin> set name" and "newline \<notin> set v"
  shows "split_on newline (labelled name v @ rest)
           = (if v = [] then [] else [name @ '': '' @ v]) @ split_on newline rest"
proof (cases "v = []")
  case False
  have "newline \<notin> set (name @ '': '' @ v)" using assms by (simp add: char_of_def bit_Suc_0_iff)
  from split_line[OF this, of rest] show ?thesis using False by (simp add: labelled_def)
qed (simp add: labelled_def)

lemma split_search_block:
  assumes "newline \<notin> set title" and "newline \<notin> set url" and "newline \<notin> set published"
  shows "split_on newline (search_block title url published content @ rest)
           = block_lines (if title = [] then ''Search result'' else title) url published content
             @ split_on newline rest"
proof -
  let ?t = "if title = [] then ''Search result'' else title"
  let ?c = "(if content = [] then [] else content @ [newline]) @ newline # rest"
  have t: "newline \<notin> set (''Source: '' @ ?t)" using assms(1) newline_chars by simp
  have n: "newline \<notin> set ''URL''" "newline \<notin> set ''Published''" by (simp_all add: char_of_def bit_Suc_0_iff)
  have c: "split_on newline ?c = (if content = [] then [] else split_on newline content) @ [[]] @ split_on newline rest"
    using split_on_sep[of newline content "newline # rest"] by simp
  show ?thesis
    using split_line[OF t, of "labelled ''URL'' url @ labelled ''Published'' published @ ?c"]
      split_labelled[OF n(1) assms(2), of "labelled ''Published'' published @ ?c"]
      split_labelled[OF n(2) assms(3), of ?c] c
    by (simp add: search_block_def block_lines_def)
qed

lemma published_neutral: "\<not> header_line (''Published: '' @ v)"
proof -
  have "trim_cr (''Published: '' @ v) = CHR ''P'' # trim_cr (''ublished: '' @ v)"
    using trim_cr_Cons[of "CHR ''P''" "''ublished: '' @ v"] by (simp add: char_of_def bit_Suc_0_iff)
  then show ?thesis by (simp add: header_line_def HasPrefix_def)
qed

lemma empty_neutral: "\<not> header_line []"
  by (simp add: header_line_def HasPrefix_def trim_cr_def TrimRightChar_def)

lemma extract_block:
  assumes "TrimSpace title = title" and "TrimSpace url = url"
    and "list_all (\<lambda>l. \<not> header_line l) (split_on newline content)"
  shows "\<exists>t'. extract_lines (block_lines title url published content @ ls) t seen =
           (if url = [] \<or> url \<in> set seen then extract_lines ls t' seen
            else \<lparr>tos_URL = url, tos_Title = title\<rparr> # extract_lines ls t' (url # seen))"
proof -
  let ?tail = "(if published = [] then [] else [''Published: '' @ published])
     @ (if content = [] then [] else split_on newline content) @ [[]]"
  have "list_all (\<lambda>l. \<not> header_line l) ?tail"
    using assms(3) published_neutral[of published] empty_neutral by (simp split: if_splits)
  from extract_neutral[OF this] have tail: "extract_lines (?tail @ ls) t seen = extract_lines ls t seen" for t seen .
  show ?thesis
    using extract_Source[OF assms(1)] extract_URL[OF assms(2)] tail
    by (auto simp: block_lines_def simp del: extract_lines.simps)
qed

lemma extract_search_blocks:
  "list_all clean_result rs \<Longrightarrow>
   extract_lines (split_on newline (fst (search_blocks rs c))) t seen = result_sources rs seen"
proof (induction rs arbitrary: c t seen)
  case Nil
  then show ?case using extract_neutral[of "[[]]" "[]"] empty_neutral by simp
next
  case (Cons r rs)
  show ?case
  proof (cases "\<exists>m. r = JObject m")
    case False
    then show ?thesis using Cons by (cases r) auto
  next
    case True
    then obtain m where r: "r = JObject m" by blast
    let ?title = "trimmed_field m ''title''" and ?url = "trimmed_field m ''url''"
    let ?content = "trimmed_field m ''content''" and ?published = "trimmed_field m ''published_date''"
    let ?t = "if ?title = [] then ''Search result'' else ?title"
    obtain c1 where out: "fst (search_blocks (r # rs) c) = search_block ?title ?url ?published ?content @ fst (search_blocks rs c1)"
      by (simp add: r Let_def split_beta)
    have clean: "newline \<notin> set ?title" "newline \<notin> set ?url" "newline \<notin> set ?published"
      "list_all (\<lambda>l. \<not> header_line l) (split_on newline ?content)" "list_all clean_result rs"
      using Cons.prems r by simp_all
    have "TrimSpace ?t = ?t" using TrimSpace_default by simp
    from extract_block[OF this _ clean(4), where url = ?url and published = ?published
        and ls = "split_on newline (fst (search_blocks rs c1))" and t = t and seen = seen]
    show ?thesis
      using Cons.IH[OF clean(5)] unfolding out split_search_block[OF clean(1-3)] by (auto simp: r Let_def)
  qed
qed

text \<open>The text of the blocks ends with two line ends after a trimmed, non-empty piece.\<close>

definition ends_trimmed :: "string \<Rightarrow> bool" where
  "ends_trimmed out \<longleftrightarrow>
     (\<exists>pre x v. out = pre @ x # v @ [newline, newline] \<and> (x = newline \<or> x = CHR '' '')
        \<and> v \<noteq> [] \<and> trim_right v = v)"

lemma ends_trimmedI: "TrimSpace v = v \<Longrightarrow> v \<noteq> [] \<Longrightarrow> x = newline \<or> x = CHR '' '' \<Longrightarrow>
    ends_trimmed (pre @ x # v @ [newline, newline])"
  unfolding ends_trimmed_def using TrimSpace_fixed(2) by blast

lemma ends_trimmed_append: "ends_trimmed b \<Longrightarrow> ends_trimmed (a @ b)"
  unfolding ends_trimmed_def by (metis append.assoc)

lemma search_block_ends_trimmed:
  assumes "TrimSpace title = title" "TrimSpace url = url" "TrimSpace published = published" "TrimSpace content = content"
  shows "ends_trimmed (search_block title url published content)"
proof -
  let ?t = "if title = [] then ''Search result'' else title"
  let ?a = "''Source: '' @ ?t @ [newline]" and ?u = "labelled ''URL'' url" and ?p = "labelled ''Published'' published"
  have t: "TrimSpace ?t = ?t" "?t \<noteq> []" using assms(1) TrimSpace_default by simp_all
  consider "content \<noteq> []" | "content = []" "published \<noteq> []" | "content = []" "published = []" "url \<noteq> []"
    | "content = []" "published = []" "url = []" by blast
  then show ?thesis
  proof cases
    case 1
    have "\<exists>w. ?a @ ?u @ ?p = w @ [newline]" by (simp add: labelled_def)
    then obtain w where "?a @ ?u @ ?p = w @ [newline]" ..
    then have "search_block title url published content = w @ newline # content @ [newline, newline]"
      using 1 by (simp add: search_block_def)
    then show ?thesis by (simp only: ends_trimmedI[OF assms(4) 1 disjI1[OF refl]])
  next
    case 2
    then have "search_block title url published content = (?a @ ?u @ ''Published:'') @ CHR '' '' # published @ [newline, newline]"
      by (simp add: search_block_def labelled_def)
    then show ?thesis by (simp only: ends_trimmedI[OF assms(3) 2(2) disjI2[OF refl]])
  next
    case 3
    then have "search_block title url published content = (?a @ ''URL:'') @ CHR '' '' # url @ [newline, newline]"
      by (simp add: search_block_def labelled_def)
    then show ?thesis by (simp only: ends_trimmedI[OF assms(2) 3(3) disjI2[OF refl]])
  next
    case 4
    then have "search_block title url published content = ''Source:'' @ CHR '' '' # ?t @ [newline, newline]"
      by (simp add: search_block_def labelled_def)
    then show ?thesis by (simp only: ends_trimmedI[OF t disjI2[OF refl]])
  qed
qed

lemma search_blocks_shape:
  "fst (search_blocks rs c) = [] \<or> (\<exists>w. fst (search_blocks rs c) = CHR ''S'' # w) \<and> ends_trimmed (fst (search_blocks rs c))"
proof (induction rs arbitrary: c)
  case (Cons r rs)
  show ?case
  proof (cases "\<exists>m. r = JObject m")
    case False
    then show ?thesis using Cons by (cases r) auto
  next
    case True
    then obtain m where r: "r = JObject m" by blast
    let ?b = "search_block (trimmed_field m ''title'') (trimmed_field m ''url'') (trimmed_field m ''published_date'')
                (trimmed_field m ''content'')"
    obtain c1 where out: "fst (search_blocks (r # rs) c) = ?b @ fst (search_blocks rs c1)"
      by (simp add: r Let_def split_beta)
    have "ends_trimmed ?b" by (rule search_block_ends_trimmed) simp_all
    then show ?thesis
      using Cons[of c1] ends_trimmed_append[of "fst (search_blocks rs c1)" ?b] unfolding out
      by (auto simp: search_block_def)
  qed
qed simp

lemma extract_trailing:
  "list_all (\<lambda>l. \<not> header_line l) ls2 \<Longrightarrow> extract_lines (ls @ ls2) t seen = extract_lines ls t seen"
proof (induction ls arbitrary: t seen)
  case Nil
  then show ?case using extract_neutral[of ls2 "[]"] by simp
qed (simp add: Let_def split: option.splits)

lemma extract_TrimSpace:
  assumes "out = CHR ''S'' # w" and "ends_trimmed out"
  shows "extract_lines (split_on newline (TrimSpace out)) t seen = extract_lines (split_on newline out) t seen"
proof -
  obtain pre x v where out: "out = pre @ x # v @ [newline, newline]" and x: "x = newline \<or> x = CHR '' ''"
    and v: "v \<noteq> []" "trim_right v = v"
    using assms(2) unfolding ends_trimmed_def by blast
  have "find (HasPrefix out) space_codes = None"
    by (simp add: assms(1) space_codes_def HasPrefix_def byte_def char_of_def bit_Suc_0_iff)
  then have "TrimSpace out = trim_right ((pre @ x # v) @ [newline, newline])"
    using out by (simp add: TrimSpace_def trim_left_None)
  also have "\<dots> = pre @ x # v"
    using trim_right_newline[of "(pre @ x # v) @ [newline]"] trim_right_newline[of "pre @ x # v"]
      trim_right_append[OF v(2,1) x, of pre] by simp
  finally have t: "TrimSpace out = pre @ x # v" .
  have "split_on newline out = split_on newline (pre @ x # v) @ [[], []]"
    using split_on_sep[of newline "pre @ x # v" "[newline]"] split_on_sep[of newline "[]" "[]"] out by simp
  then show ?thesis using extract_trailing[of "[[], []]"] empty_neutral t by simp
qed

lemma extract_plain_line: "newline \<notin> set l \<Longrightarrow> \<not> header_line l \<Longrightarrow> ExtractToolOutputSources l = []"
  using extract_neutral[of "[l]" "[]"] by (simp add: ExtractToolOutputSources_def split_on_none)

text \<open>
  What the formatter writes, the extractor reads back: for search results with one-line titles,
  URLs and dates and no header-like line in their content, the sources extracted from the text the
  model sees are the results' own, one for each URL, in order, with their titles.
\<close>

theorem search_sources_roundtrip:
  assumes "\<not> harmony_on c" and "list_all clean_result rs"
  shows "ExtractToolOutputSources (fst (FormatSearchOutput (JArray rs) c)) = result_sources rs []"
proof (cases "rs = []")
  case True
  let ?none = "''No safe search results were found.''"
  have "newline \<notin> set ?none" "\<not> header_line ?none"
    by (simp_all add: header_line_def trim_cr_def TrimRightChar_def HasPrefix_def char_of_def bit_Suc_0_iff)
  then have "ExtractToolOutputSources ?none = []" by (rule extract_plain_line)
  then show ?thesis using True by (simp add: FormatSearchOutput_def array_or_empty_def)
next
  case False
  let ?out = "fst (search_blocks rs c)"
  have f: "fst (FormatSearchOutput (JArray rs) c) = TrimSpace ?out"
    using False assms(1) by (simp add: FormatSearchOutput_def array_or_empty_def Let_def split_beta)
  have e: "extract_lines (split_on newline (TrimSpace ?out)) [] [] = result_sources rs []"
    using search_blocks_shape[of rs c] extract_TrimSpace[of ?out _ "[]" "[]"]
      extract_search_blocks[OF assms(2), of c "[]" "[]"] by auto
  show ?thesis
  proof (cases "TrimSpace ?out = []")
    case True
    then have "extract_lines [[]] [] [] = result_sources rs []" using e by simp
    then show ?thesis
      using True f extract_neutral[of "[[]]" "[]" "[]" "[]"] empty_neutral by (simp add: ExtractToolOutputSources_def)
  qed (simp add: f e ExtractToolOutputSources_def)
qed

definition two_results :: "json list" where
  "two_results =
     [JObject [(''url'', JString ''http://x''), (''title'', JString ''X'')],
      JObject [(''url'', JString ''http://y'')]]"

lemma two_results_fields:
  "TrimSpace ''http://x'' = ''http://x''" "TrimSpace ''http://y'' = ''http://y''" "TrimSpace ''X'' = ''X''"
  by (rule TrimSpace_graphic; simp add: graphic_def)+

lemmas field_defs = trimmed_field_def string_field_def field_def

lemma clean_two_results: "list_all clean_result two_results"
  by (simp add: two_results_def two_results_fields field_defs empty_neutral char_of_def bit_Suc_0_iff)

theorem search_sources_roundtrip_witness:
  "ExtractToolOutputSources (fst (FormatSearchOutput (JArray two_results) None))
     = [\<lparr>tos_URL = ''http://x'', tos_Title = ''X''\<rparr>, \<lparr>tos_URL = ''http://y'', tos_Title = ''Search result''\<rparr>]"
proof -
  have "\<not> harmony_on None" by (simp add: harmony_on_def)
  moreover have "result_sources two_results []
      = [\<lparr>tos_URL = ''http://x'', tos_Title = ''X''\<rparr>, \<lparr>tos_URL = ''http://y'', tos_Title = ''Search result''\<rparr>]"
    by (simp add: two_results_def two_results_fields field_defs Let_def)
  ultimately show ?thesis using search_sources_roundtrip[OF _ clean_two_results, of None] by simp
qed

text \<open>
  Without the hypothesis on the content the extraction is not limited to the sources the tool
  reported: a line of a fetched page that reads \<open>URL:\<close> becomes a source of its own.
\<close>

lemma page_line_becomes_source:
  "extract_lines (split_on newline (TrimSpace (fetch_block ''u'' (''t'' @ newline # ''URL: e'')))) [] []
   = [\<lparr>tos_URL = ''u'', tos_Title = ''Fetched page''\<rparr>, \<lparr>tos_URL = ''e'', tos_Title = []\<rparr>]"
proof -
  let ?out = "fetch_block ''u'' (''t'' @ newline # ''URL: e'')"
  have trimmed: "TrimSpace ''u'' = ''u''" "TrimSpace ''e'' = ''e''" "TrimSpace ''Fetched page'' = ''Fetched page''"
    by (rule TrimSpace_graphic; simp add: graphic_def)+
  have shape: "?out = (''Source: Fetched page'' @ newline # ''URL: u'' @ newline # ''t'' @ newline # ''URL:'') @ CHR '' '' # ''e'' @ [newline, newline]"
    by (simp add: fetch_block_def labelled_def)
  have "\<not> header_line ''t''"
    by (simp add: header_line_def trim_cr_def TrimRightChar_def HasPrefix_def char_of_def bit_Suc_0_iff)
  then have skip: "extract_lines (''t'' # ls) t seen = extract_lines ls t seen" for ls t seen
    using extract_neutral[of "[''t'']" ls] by simp
  have rest: "extract_lines [[], []] t seen = []" for t seen
    using extract_neutral[of "[[], []]" "[]"] empty_neutral by simp
  have src: "extract_lines (''Source: Fetched page'' # ls) t seen = extract_lines ls ''Fetched page'' seen" for ls t seen
    using extract_Source[OF trimmed(3)] by (simp del: extract_lines.simps)
  have url: "extract_lines (''URL: u'' # ls) t seen = (if ''u'' \<in> set seen then extract_lines ls [] seen
      else \<lparr>tos_URL = ''u'', tos_Title = t\<rparr> # extract_lines ls [] (''u'' # seen))"
    "extract_lines (''URL: e'' # ls) t seen = (if ''e'' \<in> set seen then extract_lines ls [] seen
      else \<lparr>tos_URL = ''e'', tos_Title = t\<rparr> # extract_lines ls [] (''e'' # seen))" for ls t seen
    using extract_URL[OF trimmed(1)] extract_URL[OF trimmed(2)] by (simp_all del: extract_lines.simps)
  have "ends_trimmed ?out" unfolding shape by (rule ends_trimmedI[OF trimmed(2)]) simp_all
  then have "extract_lines (split_on newline (TrimSpace ?out)) [] [] = extract_lines (split_on newline ?out) [] []"
    by (rule extract_TrimSpace[rotated]) (simp add: fetch_block_def)
  also have "split_on newline ?out = [''Source: '' @ ''Fetched page'', ''URL: '' @ ''u'', ''t'', ''URL: '' @ ''e'', [], []]"
    by (simp add: fetch_block_def labelled_def char_of_def bit_Suc_0_iff)
  also have "extract_lines \<dots> [] [] = [\<lparr>tos_URL = ''u'', tos_Title = ''Fetched page''\<rparr>, \<lparr>tos_URL = ''e'', tos_Title = []\<rparr>]"
    by (simp add: src url skip rest del: extract_lines.simps)
  finally show ?thesis .
qed

end
