(* ===== verification/Tool_Options.thy ===== *)
theory Tool_Options
  imports Api_Errors
begin

text \<open>
  The tool settings of a request (\<open>toolruntime/options.go\<close>, \<open>websearch_options.go\<close>, \<open>profile.go\<close>,
  \<open>router_tool_names.go\<close>): extraction and validation of the router-only fields, the web search options
  of both API surfaces, the active profiles, and how the options reach the arguments of a tool call.

  Unicode case mapping, date parsing and \<open>json.Number.Float64\<close> are the fields of a parameter \<open>go_lib\<close>.
  A pointer or map that may be \<open>nil\<close> is an option.
\<close>

record go_lib =
  lib_lower :: "string \<Rightarrow> string"
  lib_upper :: "string \<Rightarrow> string"
  lib_number :: "string \<Rightarrow> rat option"
  lib_date :: "string \<Rightarrow> int option"
  lib_rfc3339 :: "string \<Rightarrow> int option"
  lib_format :: "int \<Rightarrow> string"

section \<open>Profiles and tool names\<close>

record Profile =
  pr_Name :: string
  ToolServerModel :: string

record RouterOptions =
  WebSearch :: "json_object option option"
  PIICheck :: bool

record Descriptor =
  desc_Profile :: Profile
  ResponsesToolType :: string
  OptionsActive :: "RouterOptions \<Rightarrow> bool"
  Aliases :: "(string, string) gomap"

definition routerSearchToolName :: string where "routerSearchToolName = ''router_search''"
definition routerFetchToolName :: string where "routerFetchToolName = ''router_fetch''"
definition mcpSearchToolName :: string where "mcpSearchToolName = ''search''"
definition mcpFetchToolName :: string where "mcpFetchToolName = ''fetch''"

definition WebSearchProfile :: Profile where
  "WebSearchProfile = \<lparr>pr_Name = ''web_search'', ToolServerModel = ''websearch''\<rparr>"

definition profiles :: "Descriptor list" where
  "profiles =
     [\<lparr>desc_Profile = WebSearchProfile, ResponsesToolType = ''web_search'',
       OptionsActive = (\<lambda>opts. WebSearch opts \<noteq> None),
       Aliases = [(mcpSearchToolName, routerSearchToolName), (mcpFetchToolName, routerFetchToolName)]\<rparr>]"

definition descriptorForProfile :: "string \<Rightarrow> Descriptor option" where
  "descriptorForProfile profileName = find (\<lambda>d. pr_Name (desc_Profile d) = profileName) profiles"

definition outwardRouterToolName :: "string \<Rightarrow> string \<Rightarrow> string" where
  "outwardRouterToolName profileName toolName =
     (case descriptorForProfile profileName of
        None \<Rightarrow> toolName
      | Some d \<Rightarrow> (case map_of (Aliases d) toolName of None \<Rightarrow> toolName | Some outward \<Rightarrow> outward))"

definition dispatchRouterToolName :: "string \<Rightarrow> string" where
  "dispatchRouterToolName toolName =
     (case find (\<lambda>(_, outward). outward = toolName) (concat (map Aliases profiles)) of
        None \<Rightarrow> toolName
      | Some (mcp, _) \<Rightarrow> mcp)"

definition isRouterSearchToolName :: "string \<Rightarrow> bool" where
  "isRouterSearchToolName toolName \<longleftrightarrow> dispatchRouterToolName toolName = mcpSearchToolName"

definition isRouterFetchToolName :: "string \<Rightarrow> bool" where
  "isRouterFetchToolName toolName \<longleftrightarrow> dispatchRouterToolName toolName = mcpFetchToolName"

definition obj_or_empty :: "json \<Rightarrow> json_object" where
  "obj_or_empty v = (case as_object v of None \<Rightarrow> [] | Some m \<Rightarrow> m)"

definition list_or_empty :: "json \<Rightarrow> json list" where
  "list_or_empty v = (case as_array v of None \<Rightarrow> [] | Some xs \<Rightarrow> xs)"

definition responsesToolTypePresent :: "json_object \<Rightarrow> string \<Rightarrow> bool" where
  "responsesToolTypePresent body toolType \<longleftrightarrow>
     list_ex (\<lambda>t. field (obj_or_empty t) ''type'' = JString toolType) (list_or_empty (field body ''tools''))"

fun detect :: "string \<Rightarrow> RouterOptions \<Rightarrow> json_object \<Rightarrow> Descriptor list \<Rightarrow> string list \<Rightarrow> Profile list" where
  "detect path opts body [] seen = []"
| "detect path opts body (d # ds) seen =
     (let activated =
            path = ''/v1/chat/completions'' \<and> OptionsActive d opts
            \<or> path = ''/v1/responses'' \<and> ResponsesToolType d \<noteq> [] \<and> responsesToolTypePresent body (ResponsesToolType d);
          name = pr_Name (desc_Profile d)
      in if activated \<and> name \<notin> set seen then desc_Profile d # detect path opts body ds (name # seen)
         else detect path opts body ds seen)"

definition DetectProfiles :: "string \<Rightarrow> RouterOptions \<Rightarrow> json_object \<Rightarrow> Profile list" where
  "DetectProfiles path opts body = detect path opts body profiles []"

section \<open>Router-only fields\<close>

definition fieldWebSearchOptions :: string where "fieldWebSearchOptions = ''web_search_options''"
definition fieldPIICheckOptions :: string where "fieldPIICheckOptions = ''pii_check_options''"
definition fieldExternalWebAccess :: string where "fieldExternalWebAccess = ''external_web_access''"

definition optionsParamError :: "string \<Rightarrow> string \<Rightarrow> APIError" where
  "optionsParamError param detail =
     WithMessage (WithParam ErrInvalidRequest param) (''Invalid parameter: '' @ [CHR 0x27] @ param @ [CHR 0x27] @ '' '' @ detail @ ''.'')"

definition validateExternalWebAccess :: "json_object \<Rightarrow> string \<Rightarrow> APIError option" where
  "validateExternalWebAccess settings param =
     (case field settings fieldExternalWebAccess of
        JNull \<Rightarrow> None
      | JBool _ \<Rightarrow> None
      | _ \<Rightarrow> Some (optionsParamError (param @ ''.'' @ fieldExternalWebAccess) ''must be a boolean''))"

fun validate_tools :: "string \<Rightarrow> nat \<Rightarrow> json list \<Rightarrow> APIError option" where
  "validate_tools toolType i [] = None"
| "validate_tools toolType i (t # ts) =
     (let tool = obj_or_empty t in
      if string_field tool ''type'' \<noteq> toolType then validate_tools toolType (i + 1) ts
      else case validateExternalWebAccess tool (''tools['' @ show_nat i @ '']'') of
             Some err \<Rightarrow> Some err
           | None \<Rightarrow> validate_tools toolType (i + 1) ts)"

text \<open>\<open>descriptorForProfile(WebSearch.Name)\<close> is never \<open>nil\<close>: see \<open>descriptor_web_search\<close> below.\<close>

definition validateWebSearchTools :: "json_object \<Rightarrow> APIError option" where
  "validateWebSearchTools body =
     (case descriptorForProfile (pr_Name WebSearchProfile) of
        None \<Rightarrow> None
      | Some d \<Rightarrow> validate_tools (ResponsesToolType d) 0 (list_or_empty (field body ''tools'')))"

definition ExtractRouterOptions :: "json_object \<Rightarrow> APIError + RouterOptions \<times> json_object" where
  "ExtractRouterOptions body =
     (let ws = map_of body fieldWebSearchOptions;
          raw = (case ws of None \<Rightarrow> None | Some v \<Rightarrow> as_object v);
          body1 = (if ws = None then body else AList.delete fieldWebSearchOptions body)
      in case (if ws = None then None
               else validateExternalWebAccess (case raw of None \<Rightarrow> [] | Some m \<Rightarrow> m) fieldWebSearchOptions) of
           Some err \<Rightarrow> Inl err
         | None \<Rightarrow>
             (case validateWebSearchTools body1 of
                Some err \<Rightarrow> Inl err
              | None \<Rightarrow>
                  Inr (\<lparr>WebSearch = (if ws = None then None else Some raw),
                        PIICheck = (map_of body1 fieldPIICheckOptions \<noteq> None)\<rparr>,
                       AList.delete fieldPIICheckOptions body1)))"

section \<open>Web search options\<close>

record webSearchOptions =
  userLocationCountry :: string
  allowedDomains :: "string list"
  excludedDomains :: "string list"
  searchContextSize :: string
  contentMode :: string
  maxContentChars :: int
  wsCategory :: string
  startPublishedDate :: string
  endPublishedDate :: string
  maxAgeHours :: "int option"
  piiCheck :: "bool option"
  injectionCheck :: "bool option"
  includeActionSources :: bool
  cacheOnly :: bool

definition no_options :: webSearchOptions where
  "no_options =
     \<lparr>userLocationCountry = [], allowedDomains = [], excludedDomains = [], searchContextSize = [],
      contentMode = [], maxContentChars = 0, wsCategory = [], startPublishedDate = [],
      endPublishedDate = [], maxAgeHours = None, piiCheck = None, injectionCheck = None,
      includeActionSources = False, cacheOnly = False\<rparr>"

definition normalizedContextSize :: "webSearchOptions \<Rightarrow> string" where
  "normalizedContextSize o1 = ToLower (TrimSpace (searchContextSize o1))"

definition maxResults :: "webSearchOptions \<Rightarrow> int" where
  "maxResults o1 =
     (let s = normalizedContextSize o1 in
      if s = ''low'' then 10 else if s = ''medium'' then 20 else if s = ''high'' then 30 else 0)"

definition contentModeHighlights :: string where "contentModeHighlights = ''highlights''"
definition contentModeText :: string where "contentModeText = ''text''"

definition tierContentMode :: "webSearchOptions \<Rightarrow> string" where
  "tierContentMode o1 =
     (let s = normalizedContextSize o1 in
      if s = ''low'' \<or> s = ''medium'' then contentModeHighlights
      else if s = ''high'' then contentModeText else [])"

definition tierMaxContentChars :: "webSearchOptions \<Rightarrow> int" where
  "tierMaxContentChars o1 =
     (let s = normalizedContextSize o1 in
      if s = ''low'' then 500 else if s = ''medium'' then 700 else if s = ''high'' then 2000 else 0)"

definition effectiveContentMode :: "go_lib \<Rightarrow> webSearchOptions \<Rightarrow> string" where
  "effectiveContentMode lib o1 =
     (let mode = lib_lower lib (TrimSpace (contentMode o1)) in if mode \<noteq> [] then mode else tierContentMode o1)"

definition effectiveMaxContentChars :: "webSearchOptions \<Rightarrow> int" where
  "effectiveMaxContentChars o1 = (if 0 < maxContentChars o1 then maxContentChars o1 else tierMaxContentChars o1)"

text \<open>\<open>if _, set := arguments[k]; !set { arguments[k] = v }\<close>.\<close>

definition set_default :: "string \<times> json \<Rightarrow> json_object \<Rightarrow> json_object" where
  "set_default kv m = (if map_of m (fst kv) = None then AList.update (fst kv) (snd kv) m else m)"

definition set_defaults :: "(string \<times> json) list \<Rightarrow> json_object \<Rightarrow> json_object" where
  "set_defaults kvs m = fold set_default kvs m"

definition string_default :: "string \<Rightarrow> string \<Rightarrow> (string \<times> json) list" where
  "string_default k s = (if s = [] then [] else [(k, JString s)])"

definition int_default :: "string \<Rightarrow> int \<Rightarrow> (string \<times> json) list" where
  "int_default k n = (if 0 < n then [(k, JInt n)] else [])"

definition list_default :: "string \<Rightarrow> string list \<Rightarrow> (string \<times> json) list" where
  "list_default k xs = (if xs = [] then [] else [(k, JArray (map JString xs))])"

definition search_defaults :: "go_lib \<Rightarrow> webSearchOptions \<Rightarrow> (string \<times> json) list" where
  "search_defaults lib o1 =
     int_default ''max_results'' (maxResults o1) @
     string_default ''content_mode'' (effectiveContentMode lib o1) @
     int_default ''max_content_chars'' (effectiveMaxContentChars o1) @
     string_default ''user_location_country'' (userLocationCountry o1) @
     list_default ''allowed_domains'' (allowedDomains o1) @
     list_default ''excluded_domains'' (excludedDomains o1) @
     string_default ''category'' (wsCategory o1) @
     string_default ''start_published_date'' (startPublishedDate o1) @
     string_default ''end_published_date'' (endPublishedDate o1)"

definition maxAgeHoursCacheOnly :: int where "maxAgeHoursCacheOnly = -1"

definition applyToSearchArgs :: "go_lib \<Rightarrow> webSearchOptions \<Rightarrow> json_object option \<Rightarrow> json_object option" where
  "applyToSearchArgs lib o1 arguments =
     (case arguments of
        None \<Rightarrow> None
      | Some m \<Rightarrow>
          let m1 = set_defaults (search_defaults lib o1) m in
          Some (if cacheOnly o1 then AList.update ''max_age_hours'' (JInt maxAgeHoursCacheOnly) m1
                else case maxAgeHours o1 of
                       None \<Rightarrow> m1
                     | Some n \<Rightarrow> set_default (''max_age_hours'', JInt n) m1))"

definition disabledRouterTools :: "webSearchOptions \<Rightarrow> string list" where
  "disabledRouterTools o1 = (if cacheOnly o1 then [routerFetchToolName] else [])"

definition applyToFetchArgs :: "webSearchOptions \<Rightarrow> json_object option \<Rightarrow> json_object option" where
  "applyToFetchArgs o1 arguments =
     (case arguments of
        None \<Rightarrow> None
      | Some m \<Rightarrow>
          Some (set_defaults (list_default ''allowed_domains'' (allowedDomains o1) @
                              list_default ''excluded_domains'' (excludedDomains o1)) m))"

definition applyWebSearchOptionsToToolCall ::
  "go_lib \<Rightarrow> string \<Rightarrow> json_object option \<Rightarrow> webSearchOptions \<Rightarrow> json_object option" where
  "applyWebSearchOptionsToToolCall lib toolName arguments o1 =
     (if isRouterSearchToolName toolName then applyToSearchArgs lib o1 arguments
      else if isRouterFetchToolName toolName then applyToFetchArgs o1 arguments
      else arguments)"

section \<open>Parsing the options\<close>

definition float_int :: "rat \<Rightarrow> int option" where
  "float_int v =
     (if v \<noteq> of_int (floor v) then None
      else if v < - (2 ^ 63) \<or> 2 ^ 63 \<le> v then None else Some (floor v))"

fun intValue :: "go_lib \<Rightarrow> json \<Rightarrow> int option" where
  "intValue lib (JInt n) = Some n"
| "intValue lib (JFloat v) = float_int v"
| "intValue lib (JNumber lit) = (case lib_number lib lit of None \<Rightarrow> None | Some v \<Rightarrow> float_int v)"
| "intValue lib (JString t) = ParseInt64 (TrimSpace t)"
| "intValue lib _ = None"

definition normalizePublishedDate :: "go_lib \<Rightarrow> json \<Rightarrow> string" where
  "normalizePublishedDate lib raw =
     (let str = TrimSpace (as_string raw) in
      if str = [] then []
      else case lib_date lib str of
             Some t \<Rightarrow> lib_format lib t
           | None \<Rightarrow> (case lib_rfc3339 lib str of Some t \<Rightarrow> lib_format lib t | None \<Rightarrow> []))"

definition extractUserLocationCountry :: "go_lib \<Rightarrow> json \<Rightarrow> string" where
  "extractUserLocationCountry lib raw =
     (let loc = obj_or_empty raw;
          country = (case as_object (field loc ''approximate'') of
                       None \<Rightarrow> [] | Some approx \<Rightarrow> TrimSpace (string_field approx ''country''))
      in if loc = [] then []
         else if country \<noteq> [] then lib_upper lib country
         else lib_upper lib (TrimSpace (string_field loc ''country'')))"

fun domain_list :: "go_lib \<Rightarrow> json list \<Rightarrow> string list \<Rightarrow> string list" where
  "domain_list lib [] seen = []"
| "domain_list lib (item # items) seen =
     (let domain = lib_lower lib (TrimSpace (as_string item)) in
      if domain = [] \<or> domain \<in> set seen then domain_list lib items seen
      else domain # domain_list lib items (domain # seen))"

definition extractDomainListFromFilterMap :: "go_lib \<Rightarrow> json_object \<Rightarrow> string \<Rightarrow> string list" where
  "extractDomainListFromFilterMap lib filters key = domain_list lib (list_or_empty (field filters key)) []"

definition extractAllowedDomains :: "go_lib \<Rightarrow> json \<Rightarrow> string list" where
  "extractAllowedDomains lib raw =
     (case as_object raw of None \<Rightarrow> [] | Some filters \<Rightarrow> extractDomainListFromFilterMap lib filters ''allowed_domains'')"

definition extractExcludedDomains :: "go_lib \<Rightarrow> json \<Rightarrow> string list" where
  "extractExcludedDomains lib raw =
     (case as_object raw of None \<Rightarrow> [] | Some filters \<Rightarrow> extractDomainListFromFilterMap lib filters ''excluded_domains'')"

definition positive_or :: "int option \<Rightarrow> int \<Rightarrow> int" where
  "positive_or n d = (case n of Some v \<Rightarrow> if 0 < v then v else d | None \<Rightarrow> d)"

definition nonempty_or :: "string \<Rightarrow> string \<Rightarrow> string" where
  "nonempty_or s d = (if s = [] then d else s)"

definition applyAdvancedSearchFields :: "go_lib \<Rightarrow> json_object \<Rightarrow> webSearchOptions \<Rightarrow> webSearchOptions" where
  "applyAdvancedSearchFields lib raw o1 =
     o1\<lparr>contentMode := nonempty_or (TrimSpace (string_field raw ''content_mode'')) (contentMode o1),
        maxContentChars := positive_or (intValue lib (field raw ''max_content_chars'')) (maxContentChars o1),
        wsCategory := nonempty_or (TrimSpace (string_field raw ''category'')) (wsCategory o1),
        startPublishedDate :=
          nonempty_or (normalizePublishedDate lib (field raw ''start_published_date'')) (startPublishedDate o1),
        endPublishedDate :=
          nonempty_or (normalizePublishedDate lib (field raw ''end_published_date'')) (endPublishedDate o1),
        maxAgeHours :=
          (case intValue lib (field raw ''max_age_hours'') of None \<Rightarrow> maxAgeHours o1 | Some n \<Rightarrow> Some n),
        cacheOnly := (if field raw fieldExternalWebAccess = JBool False then True else cacheOnly o1)\<rparr>"

definition parseSafetyOptIn :: "json \<Rightarrow> bool option" where
  "parseSafetyOptIn raw = (if raw = JNull then None else Some True)"

definition includeActionSourcesFlag :: string where
  "includeActionSourcesFlag = ''web_search_call.action.sources''"

definition parseIncludeActionSources :: "json_object \<Rightarrow> bool" where
  "parseIncludeActionSources body \<longleftrightarrow>
     list_ex (\<lambda>item. as_string item = includeActionSourcesFlag) (list_or_empty (field body ''include''))"

definition stripRouterOwnedIncludes :: "json_object \<Rightarrow> json_object" where
  "stripRouterOwnedIncludes body =
     (case as_array (field body ''include'') of
        None \<Rightarrow> body
      | Some raw \<Rightarrow>
          let filtered = filter (\<lambda>item. as_string item \<noteq> includeActionSourcesFlag) raw in
          if filtered = [] then AList.delete ''include'' body
          else AList.update ''include'' (JArray filtered) body)"

definition pii_opt_in :: "RouterOptions option \<Rightarrow> bool option" where
  "pii_opt_in ro = (case ro of Some r \<Rightarrow> if PIICheck r then Some True else None | None \<Rightarrow> None)"

definition web_search_raw :: "RouterOptions option \<Rightarrow> json_object option" where
  "web_search_raw ro =
     (case ro of
        None \<Rightarrow> None
      | Some r \<Rightarrow> (case WebSearch r of None \<Rightarrow> None | Some raw \<Rightarrow> raw))"

definition settings_options :: "go_lib \<Rightarrow> json_object \<Rightarrow> webSearchOptions" where
  "settings_options lib raw =
     applyAdvancedSearchFields lib raw
       (no_options\<lparr>searchContextSize := string_field raw ''search_context_size'',
                   userLocationCountry := extractUserLocationCountry lib (field raw ''user_location''),
                   allowedDomains := extractAllowedDomains lib (field raw ''filters''),
                   excludedDomains := extractExcludedDomains lib (field raw ''filters'')\<rparr>)"

definition request_options :: "RouterOptions option \<Rightarrow> json_object \<Rightarrow> webSearchOptions \<Rightarrow> webSearchOptions" where
  "request_options ro body o1 =
     o1\<lparr>piiCheck := pii_opt_in ro,
        injectionCheck := parseSafetyOptIn (field body ''prompt_injection_check_options''),
        includeActionSources := parseIncludeActionSources body\<rparr>"

definition parseChatWebSearchOptions :: "go_lib \<Rightarrow> RouterOptions option \<Rightarrow> json_object \<Rightarrow> webSearchOptions" where
  "parseChatWebSearchOptions lib ro body =
     (let o0 = (case web_search_raw ro of None \<Rightarrow> no_options | Some raw \<Rightarrow> settings_options lib raw);
          o1 = (case as_object (field body ''filters'') of
                  None \<Rightarrow> o0
                | Some filters \<Rightarrow>
                    o0\<lparr>allowedDomains :=
                         (if allowedDomains o0 = []
                          then extractDomainListFromFilterMap lib filters ''allowed_domains'' else allowedDomains o0),
                       excludedDomains :=
                         (if excludedDomains o0 = []
                          then extractDomainListFromFilterMap lib filters ''excluded_domains'' else excludedDomains o0)\<rparr>)
      in request_options ro body o1)"

definition parseResponsesWebSearchOptions :: "go_lib \<Rightarrow> RouterOptions option \<Rightarrow> json_object \<Rightarrow> webSearchOptions" where
  "parseResponsesWebSearchOptions lib ro body =
     (case find (\<lambda>t. string_field (obj_or_empty t) ''type'' = ''web_search'') (list_or_empty (field body ''tools'')) of
        None \<Rightarrow> no_options
      | Some t \<Rightarrow> request_options ro body (settings_options lib (obj_or_empty t)))"

definition parseWebSearchOptions :: "go_lib \<Rightarrow> string \<Rightarrow> RouterOptions option \<Rightarrow> json_object \<Rightarrow> webSearchOptions" where
  "parseWebSearchOptions lib path ro body =
     (if path = ''/v1/responses'' then parseResponsesWebSearchOptions lib ro body
      else parseChatWebSearchOptions lib ro body)"

record safetyOptIns =
  so_pii :: "bool option"
  so_injection :: "bool option"

definition parseSafetyOptIns :: "RouterOptions option \<Rightarrow> json_object \<Rightarrow> safetyOptIns" where
  "parseSafetyOptIns ro body =
     \<lparr>so_pii = pii_opt_in ro, so_injection = parseSafetyOptIn (field body ''prompt_injection_check_options'')\<rparr>"

section \<open>Names\<close>

lemma descriptor_web_search: "descriptorForProfile (pr_Name WebSearchProfile) \<noteq> None"
  by (simp add: descriptorForProfile_def profiles_def WebSearchProfile_def)

lemmas tool_name_defs = routerSearchToolName_def routerFetchToolName_def mcpSearchToolName_def mcpFetchToolName_def

lemma dispatch_simps [simp]:
  "dispatchRouterToolName ''router_search'' = ''search''" "dispatchRouterToolName ''router_fetch'' = ''fetch''"
  "isRouterSearchToolName ''router_search''" "isRouterFetchToolName ''router_fetch''"
  "\<not> isRouterFetchToolName ''router_search''" "\<not> isRouterSearchToolName ''router_fetch''"
  by (simp_all add: dispatchRouterToolName_def profiles_def tool_name_defs isRouterSearchToolName_def isRouterFetchToolName_def)

lemma search_not_fetch: "isRouterSearchToolName n \<Longrightarrow> \<not> isRouterFetchToolName n"
  by (simp add: isRouterSearchToolName_def isRouterFetchToolName_def tool_name_defs)

text \<open>Naming a tool outward and dispatching it are inverse for the tools of the web search profile.\<close>

lemma dispatch_outward:
  "n \<notin> {routerSearchToolName, routerFetchToolName} \<Longrightarrow>
   dispatchRouterToolName (outwardRouterToolName (pr_Name WebSearchProfile) n) = n"
  by (auto simp: dispatchRouterToolName_def outwardRouterToolName_def descriptorForProfile_def profiles_def
        WebSearchProfile_def tool_name_defs)

section \<open>Arguments\<close>

lemma map_of_set_default:
  "map_of (set_default kv m) k =
     (if k = fst kv \<and> map_of m k = None then Some (snd kv) else map_of m k)"
  by (auto simp: set_default_def)

lemma map_of_set_defaults:
  "map_of (set_defaults kvs m) k = (case map_of m k of Some v \<Rightarrow> Some v | None \<Rightarrow> map_of kvs k)"
proof (induction kvs arbitrary: m)
  case (Cons kv kvs)
  obtain a b where kv: "kv = (a, b)" by fastforce
  show ?case
    using Cons.IH[of "set_default kv m"] by (auto simp: set_defaults_def map_of_set_default kv split: option.splits)
qed (simp add: set_defaults_def split: option.splits)

text \<open>
  The arguments of a search call after the request's options: an argument the model gave keeps
  its value and an option fills in only what is missing, except that with \<open>external_web_access: false\<close>
  the freshness bound is always the cache-only one.
\<close>

theorem search_arguments_merged:
  "\<exists>m'. applyToSearchArgs lib o1 (Some m) = Some m' \<and>
     (\<forall>k. map_of m' k =
        (if k = ''max_age_hours'' \<and> cacheOnly o1 then Some (JInt (-1))
         else case map_of m k of
                Some v \<Rightarrow> Some v
              | None \<Rightarrow> if k = ''max_age_hours'' then map_option JInt (maxAgeHours o1)
                        else map_of (search_defaults lib o1) k))"
proof -
  have "map_of (search_defaults lib o1) ''max_age_hours'' = None"
    by (auto simp: search_defaults_def int_default_def string_default_def list_default_def map_add_def)
  then show ?thesis
    by (auto simp: applyToSearchArgs_def Let_def map_of_set_defaults map_of_set_default maxAgeHoursCacheOnly_def
          split: option.splits)
qed

section \<open>Opting out of live web access\<close>

lemma settings_cacheOnly: "cacheOnly (settings_options lib raw) \<longleftrightarrow> field raw fieldExternalWebAccess = JBool False"
  by (simp add: settings_options_def applyAdvancedSearchFields_def no_options_def)

lemma parseChat_cacheOnly:
  "cacheOnly (parseChatWebSearchOptions lib ro body) \<longleftrightarrow>
     (case web_search_raw ro of None \<Rightarrow> False | Some raw \<Rightarrow> field raw fieldExternalWebAccess = JBool False)"
  by (auto simp: parseChatWebSearchOptions_def request_options_def Let_def settings_cacheOnly no_options_def
        split: option.splits)

lemma validateExternalWebAccess_None:
  "validateExternalWebAccess m p = None \<longleftrightarrow>
     field m fieldExternalWebAccess = JNull \<or> (\<exists>b. field m fieldExternalWebAccess = JBool b)"
  by (auto simp: validateExternalWebAccess_def split: json.splits)

text \<open>
  A caller's setting of \<open>external_web_access\<close> is never ignored on chat completions: a request that
  sets it is either rejected, or the setting was a boolean, live access is withheld exactly when it
  is false, and then the fetch tool is disabled too.
\<close>

theorem web_access_setting_honoured:
  assumes "map_of body fieldWebSearchOptions = Some (JObject ws)" and "field ws fieldExternalWebAccess \<noteq> JNull"
  shows "case ExtractRouterOptions body of
           Inl err \<Rightarrow> Status err = 400
         | Inr (ro, body') \<Rightarrow>
             \<exists>v. field ws fieldExternalWebAccess = JBool v
               \<and> cacheOnly (parseChatWebSearchOptions lib (Some ro) body') = (\<not> v)
               \<and> (routerFetchToolName \<in> set (disabledRouterTools (parseChatWebSearchOptions lib (Some ro) body'))) = (\<not> v)"
proof -
  have status: "Status (optionsParamError p d) = 400" for p d
    by (simp add: optionsParamError_def WithMessage_def WithParam_def ErrInvalidRequest_def api_error_def)
  have tools: "validate_tools ty i ts = Some err \<Longrightarrow> Status err = 400" for ty i ts err
    by (induction ts arbitrary: i)
      (auto simp: Let_def validateExternalWebAccess_def status split: if_splits option.splits json.splits)
  show ?thesis
  proof (cases "validateExternalWebAccess ws fieldWebSearchOptions")
    case (Some err)
    then have "ExtractRouterOptions body = Inl err" using assms by (simp add: ExtractRouterOptions_def Let_def)
    moreover have "Status err = 400"
      using Some by (auto simp: validateExternalWebAccess_def status split: json.splits)
    ultimately show ?thesis by simp
  next
    case None
    then obtain v where v: "field ws fieldExternalWebAccess = JBool v"
      using assms(2) by (auto simp: validateExternalWebAccess_None)
    show ?thesis
      using assms None v tools
      by (auto simp: ExtractRouterOptions_def Let_def parseChat_cacheOnly web_search_raw_def disabledRouterTools_def
            validateWebSearchTools_def split: option.splits)
  qed
qed

definition plain_lib :: go_lib where
  "plain_lib =
     \<lparr>lib_lower = ToLower, lib_upper = id, lib_number = \<lambda>_. None, lib_date = \<lambda>_. None, lib_rfc3339 = \<lambda>_. None,
      lib_format = \<lambda>_. []\<rparr>"

theorem web_access_setting_honoured_witness:
  "case ExtractRouterOptions [(fieldWebSearchOptions, JObject [(fieldExternalWebAccess, JBool False)])] of
     Inl err \<Rightarrow> Status err = 400
   | Inr (ro, body') \<Rightarrow>
       \<exists>v. field [(fieldExternalWebAccess, JBool False)] fieldExternalWebAccess = JBool v
         \<and> cacheOnly (parseChatWebSearchOptions plain_lib (Some ro) body') = (\<not> v)
         \<and> (routerFetchToolName \<in> set (disabledRouterTools (parseChatWebSearchOptions plain_lib (Some ro) body'))) = (\<not> v)"
  by (rule web_access_setting_honoured) (simp_all add: field_def)

text \<open>
  On the Responses surface only the first \<open>web_search\<close> entry is read, although every entry is validated:
  an opt-out on a second one is accepted and has no effect.
\<close>

definition two_search_tools :: json_object where
  "two_search_tools =
     [(''tools'', JArray [JObject [(''type'', JString ''web_search'')],
                          JObject [(''type'', JString ''web_search''), (fieldExternalWebAccess, JBool False)]])]"

lemma second_opt_out_ignored:
  "validateWebSearchTools two_search_tools = None \<and> \<not> cacheOnly (parseResponsesWebSearchOptions lib ro two_search_tools)"
  by (simp add: two_search_tools_def validateWebSearchTools_def descriptorForProfile_def profiles_def WebSearchProfile_def
      list_or_empty_def obj_or_empty_def field_def string_field_def validateExternalWebAccess_def fieldExternalWebAccess_def
      parseResponsesWebSearchOptions_def request_options_def settings_options_def applyAdvancedSearchFields_def no_options_def Let_def)

end
