(* ===== verification/Tool_Coerce.thy ===== *)
theory Tool_Coerce
  imports Json_Value
begin

text \<open>
  Coercion of tool-call arguments to the tool's published schema (\<open>toolruntime/coerce.go\<close>).

  A parsed \<open>jsonschema.Schema\<close> is a tree with the keywords the code reads; a nil branch declares
  nothing and is left out of the lists. Objects and arrays are rewritten in place by the code: the
  value a definition returns is the value the caller's map holds afterwards, whether or not the call
  reports a change. A nil slice or map is an empty one. \<open>JInt\<close> is an \<open>int\<close> or \<open>int64\<close>, and no value
  is a \<open>float32\<close>.

  Number parsing and printing, rounding of \<open>int64\<close> to \<open>float64\<close>, conversions out of the range of
  \<open>int64\<close> and the JSON decoder are fields of the parameter \<open>coerce_lib\<close>.

  The mutual recursion of the code goes through \<open>coerceValue\<close>: every other function takes it as the
  argument \<open>rec\<close>, and calls it on a smaller schema only.
\<close>

section \<open>Floating point and schemas\<close>

datatype float64 = Fin rat | NegInf | PosInf | NaN

fun flt :: "float64 \<Rightarrow> float64 \<Rightarrow> bool" where
  "flt (Fin a) (Fin b) = (a < b)"
| "flt NegInf (Fin b) = True"
| "flt NegInf PosInf = True"
| "flt (Fin a) PosInf = True"
| "flt _ _ = False"

fun feq :: "float64 \<Rightarrow> float64 \<Rightarrow> bool" where
  "feq NaN b = False"
| "feq a b = (a = b)"

definition fle :: "float64 \<Rightarrow> float64 \<Rightarrow> bool" where "fle a b \<longleftrightarrow> flt a b \<or> feq a b"

text \<open>\<open>math.Mod(f, m) == 0\<close> for a non-zero \<open>m\<close>: the remainder of an infinity or a NaN is a NaN.\<close>

fun multiple_of :: "float64 \<Rightarrow> rat \<Rightarrow> bool" where
  "multiple_of (Fin a) m = (a / m = of_int \<lfloor>a / m\<rfloor>)"
| "multiple_of _ m = False"

fun float_json :: "float64 \<Rightarrow> json" where
  "float_json (Fin a) = JFloat a"
| "float_json PosInf = JNonFinite ''+Inf''"
| "float_json NegInf = JNonFinite ''-Inf''"
| "float_json NaN = JNonFinite ''NaN''"

fun json_float :: "json \<Rightarrow> float64 option" where
  "json_float (JFloat a) = Some (Fin a)"
| "json_float (JNonFinite n) = Some (if n = ''+Inf'' then PosInf else if n = ''-Inf'' then NegInf else NaN)"
| "json_float _ = None"

record coerce_lib =
  lib_ParseFloat :: "string \<Rightarrow> float64 option"
  lib_float64 :: "int \<Rightarrow> rat"
  lib_int64 :: "float64 \<Rightarrow> int"
  lib_FormatFloat :: "float64 \<Rightarrow> string"
  lib_array :: "string \<Rightarrow> json list option"
  lib_object :: "string \<Rightarrow> json_object option"

record bounds =
  Minimum :: "rat option"
  Maximum :: "rat option"
  ExclusiveMinimum :: "rat option"
  ExclusiveMaximum :: "rat option"
  MultipleOf :: "rat option"

datatype schema =
  Schema (sch_Type: string) (sch_Types: "string list") (sch_Properties: "(string \<times> schema option) list")
    (sch_Items: "schema option") (sch_AllOf: "schema list") (sch_AnyOf: "schema list")
    (sch_OneOf: "schema list") (sch_Bounds: bounds) (sch_Enum: "json list")

text \<open>The first answer of a loop that returns as soon as a step has one.\<close>

fun first_some :: "'a option list \<Rightarrow> 'a option" where
  "first_some [] = None"
| "first_some (x # xs) = (case x of Some y \<Rightarrow> Some y | None \<Rightarrow> first_some xs)"

fun propertySchema :: "schema \<Rightarrow> string \<Rightarrow> schema option" where
  "propertySchema (Schema ty tys props its al an on b en) key =
     (case map_of props key of
        Some (Some sub) \<Rightarrow> Some sub
      | _ \<Rightarrow>
          (case first_some (map (\<lambda>branch. propertySchema branch key) al) of
             Some sub \<Rightarrow> Some sub
           | None \<Rightarrow>
               (case first_some (map (\<lambda>branch. propertySchema branch key) an) of
                  Some sub \<Rightarrow> Some sub
                | None \<Rightarrow> first_some (map (\<lambda>branch. propertySchema branch key) on))))"

definition declaredTypes :: "schema \<Rightarrow> string list" where
  "declaredTypes sch =
     (if sch_Type sch \<noteq> [] then [sch_Type sch]
      else rev (fold (\<lambda>t out. if t \<in> set out then out else t # out) (sch_Types sch) []))"

section \<open>Matching\<close>

fun isNumericValue :: "json \<Rightarrow> bool" where
  "isNumericValue (JFloat _) = True"
| "isNumericValue (JNonFinite _) = True"
| "isNumericValue (JInt _) = True"
| "isNumericValue (JNumber _) = True"
| "isNumericValue _ = False"

fun isIntegerValue :: "json \<Rightarrow> bool" where
  "isIntegerValue (JInt _) = True"
| "isIntegerValue (JNumber lit) = (ParseInt64 lit \<noteq> None)"
| "isIntegerValue _ = False"

definition valueMatchesType :: "json \<Rightarrow> string \<Rightarrow> bool" where
  "valueMatchesType v t =
     (if t = ''string'' then (case v of JString _ \<Rightarrow> True | _ \<Rightarrow> False)
      else if t = ''boolean'' then (case v of JBool _ \<Rightarrow> True | _ \<Rightarrow> False)
      else if t = ''integer'' then isIntegerValue v
      else if t = ''number'' then isNumericValue v
      else if t = ''array'' then (case v of JArray _ \<Rightarrow> True | _ \<Rightarrow> False)
      else if t = ''object'' then (case v of JObject _ \<Rightarrow> True | _ \<Rightarrow> False)
      else if t = ''null'' then v = JNull
      else False)"

definition valueMatchesAnyType :: "json \<Rightarrow> string list \<Rightarrow> bool" where
  "valueMatchesAnyType v types = list_ex (valueMatchesType v) types"

fun enum_entry :: "coerce_lib \<Rightarrow> float64 \<Rightarrow> json \<Rightarrow> bool" where
  "enum_entry lib candidate (JFloat e) = feq (Fin e) candidate"
| "enum_entry lib candidate (JInt n) = feq (Fin (lib_float64 lib n)) candidate"
| "enum_entry lib candidate (JNumber lit) = (case lib_ParseFloat lib lit of Some f \<Rightarrow> feq f candidate | None \<Rightarrow> False)"
| "enum_entry lib candidate _ = False"

definition enumContainsNumeric :: "coerce_lib \<Rightarrow> json list \<Rightarrow> float64 \<Rightarrow> bool" where
  "enumContainsNumeric lib enum candidate \<longleftrightarrow> enum = [] \<or> list_ex (enum_entry lib candidate) enum"

definition unless_set :: "rat option \<Rightarrow> (rat \<Rightarrow> bool) \<Rightarrow> bool" where
  "unless_set b viol \<longleftrightarrow> (case b of None \<Rightarrow> True | Some m \<Rightarrow> \<not> viol m)"

definition numberSatisfiesSchema :: "coerce_lib \<Rightarrow> float64 \<Rightarrow> schema \<Rightarrow> bool" where
  "numberSatisfiesSchema lib f sch \<longleftrightarrow>
     unless_set (Minimum (sch_Bounds sch)) (\<lambda>m. flt f (Fin m))
     \<and> unless_set (Maximum (sch_Bounds sch)) (\<lambda>m. flt (Fin m) f)
     \<and> unless_set (ExclusiveMinimum (sch_Bounds sch)) (\<lambda>m. fle f (Fin m))
     \<and> unless_set (ExclusiveMaximum (sch_Bounds sch)) (\<lambda>m. fle (Fin m) f)
     \<and> unless_set (MultipleOf (sch_Bounds sch)) (\<lambda>m. m \<noteq> 0 \<and> \<not> multiple_of f m)
     \<and> enumContainsNumeric lib (sch_Enum sch) f"

definition integerSatisfiesSchema :: "coerce_lib \<Rightarrow> int \<Rightarrow> schema \<Rightarrow> bool" where
  "integerSatisfiesSchema lib n sch = numberSatisfiesSchema lib (Fin (lib_float64 lib n)) sch"

section \<open>Primitive coercions\<close>

definition coerceMaxIntFromFloat :: rat where "coerceMaxIntFromFloat = 2 ^ 53"

fun floatToBoundedInt64 :: "float64 \<Rightarrow> int option" where
  "floatToBoundedInt64 (Fin f) =
     (if of_int \<lfloor>f\<rfloor> \<noteq> f then None else if \<bar>f\<bar> > coerceMaxIntFromFloat then None else Some \<lfloor>f\<rfloor>)"
| "floatToBoundedInt64 _ = None"

definition bounded_integer :: "coerce_lib \<Rightarrow> schema \<Rightarrow> float64 option \<Rightarrow> int option" where
  "bounded_integer lib sch f =
     (case f of
        None \<Rightarrow> None
      | Some x \<Rightarrow>
          (case floatToBoundedInt64 x of
             None \<Rightarrow> None
           | Some n \<Rightarrow> if integerSatisfiesSchema lib n sch then Some n else None))"

fun coerceToInteger :: "coerce_lib \<Rightarrow> schema \<Rightarrow> json \<Rightarrow> int option" where
  "coerceToInteger lib sch (JString v) =
     (let t = TrimSpace v in
      if t = [] then None
      else case ParseInt64 t of
             Some n \<Rightarrow> if integerSatisfiesSchema lib n sch then Some n else None
           | None \<Rightarrow> bounded_integer lib sch (lib_ParseFloat lib t))"
| "coerceToInteger lib sch (JNumber lit) =
     (case ParseInt64 lit of
        Some n \<Rightarrow> if integerSatisfiesSchema lib n sch then Some n else None
      | None \<Rightarrow> None)"
| "coerceToInteger lib sch v = bounded_integer lib sch (json_float v)"

fun coerceToNumber :: "coerce_lib \<Rightarrow> schema \<Rightarrow> json \<Rightarrow> float64 option" where
  "coerceToNumber lib sch (JString v) =
     (let t = TrimSpace v in
      if t = [] then None
      else case lib_ParseFloat lib t of
             Some f \<Rightarrow> if numberSatisfiesSchema lib f sch then Some f else None
           | None \<Rightarrow> None)"
| "coerceToNumber lib sch (JNumber lit) =
     (case lib_ParseFloat lib lit of
        Some f \<Rightarrow> if numberSatisfiesSchema lib f sch then Some f else None
      | None \<Rightarrow> None)"
| "coerceToNumber lib sch v = None"

fun coerceToBoolean :: "json \<Rightarrow> bool option" where
  "coerceToBoolean (JString v) =
     (let t = ToLower (TrimSpace v) in
      if t \<in> set [''true'', ''1'', ''yes'', ''on'', ''y'', ''t''] then Some True
      else if t \<in> set [''false'', ''0'', ''no'', ''off'', ''n'', ''f''] then Some False
      else None)"
| "coerceToBoolean (JFloat v) = (if v = 1 then Some True else if v = 0 then Some False else None)"
| "coerceToBoolean (JInt v) = (if v = 1 then Some True else if v = 0 then Some False else None)"
| "coerceToBoolean v = None"

text \<open>\<open>int64(v)\<close> of a whole number; out of range the result is the platform's.\<close>

fun to_int64 :: "coerce_lib \<Rightarrow> float64 \<Rightarrow> int" where
  "to_int64 lib (Fin v) = (if - (2 ^ 63) \<le> v \<and> v < 2 ^ 63 then \<lfloor>v\<rfloor> else lib_int64 lib (Fin v))"
| "to_int64 lib v = lib_int64 lib v"

text \<open>\<open>v == math.Trunc(v)\<close>: true of the infinities, false of a NaN.\<close>

fun whole :: "float64 \<Rightarrow> bool" where
  "whole (Fin v) = (v = of_int \<lfloor>v\<rfloor>)"
| "whole NaN = False"
| "whole _ = True"

fun coerceToString :: "coerce_lib \<Rightarrow> json \<Rightarrow> string option" where
  "coerceToString lib (JBool b) = Some (if b then ''true'' else ''false'')"
| "coerceToString lib (JNumber lit) = Some lit"
| "coerceToString lib v =
     (case json_float v of
        None \<Rightarrow> None
      | Some f \<Rightarrow> Some (if whole f then show_int (to_int64 lib f) else lib_FormatFloat lib f))"

definition splitCSV :: "string \<Rightarrow> string list" where
  "splitCSV s = filter (\<lambda>p. p \<noteq> []) (map TrimSpace (split_on (CHR '','') s))"

definition looksLikeCSV :: "string \<Rightarrow> bool" where
  "looksLikeCSV s \<longleftrightarrow> CHR '','' \<in> set s \<and> 2 \<le> length (splitCSV s)"

fun coerceToNull :: "json \<Rightarrow> json option" where
  "coerceToNull (JString v) = (if EqualFold (TrimSpace v) ''null'' then Some JNull else None)"
| "coerceToNull v = None"

section \<open>Containers\<close>

type_synonym coercion = "schema \<Rightarrow> json \<Rightarrow> json \<times> bool"

definition coerceObject :: "coercion \<Rightarrow> schema \<Rightarrow> json_object \<Rightarrow> json_object" where
  "coerceObject rec sch obj =
     map (\<lambda>(key, v). (key, case propertySchema sch key of None \<Rightarrow> v | Some prop \<Rightarrow> fst (rec prop v))) obj"

definition coerce_items :: "coercion \<Rightarrow> schema \<Rightarrow> json list \<Rightarrow> json list" where
  "coerce_items rec sch xs = (case sch_Items sch of None \<Rightarrow> xs | Some its \<Rightarrow> map (\<lambda>item. fst (rec its item)) xs)"

definition descendIntoContainers :: "coercion \<Rightarrow> schema \<Rightarrow> json \<Rightarrow> json \<times> bool" where
  "descendIntoContainers rec sch v =
     (case v of
        JObject m \<Rightarrow> (JObject (coerceObject rec sch m), False)
      | JArray xs \<Rightarrow> (JArray (coerce_items rec sch xs), False)
      | _ \<Rightarrow> (v, False))"

text \<open>
  The first case of the code, a value that is already an array (object), is never reached: such a
  value matches the declared type.
\<close>

definition coerceToArray :: "coerce_lib \<Rightarrow> coercion \<Rightarrow> schema \<Rightarrow> json \<Rightarrow> json list option" where
  "coerceToArray lib rec sch v =
     (case v of
        JString s \<Rightarrow>
          let t = TrimSpace s in
          if t = [] then None
          else (case lib_array lib t of
                  Some parsed \<Rightarrow> Some (coerce_items rec sch parsed)
                | None \<Rightarrow>
                    if looksLikeCSV t then Some (coerce_items rec sch (map JString (splitCSV t))) else None)
      | _ \<Rightarrow> None)"

definition coerceToObject :: "coerce_lib \<Rightarrow> coercion \<Rightarrow> schema \<Rightarrow> json \<Rightarrow> json_object option" where
  "coerceToObject lib rec sch v =
     (case v of
        JString s \<Rightarrow>
          let t = TrimSpace s in
          if t = [] then None
          else map_option (coerceObject rec sch) (lib_object lib t)
      | _ \<Rightarrow> None)"

definition coerce_to :: "coerce_lib \<Rightarrow> coercion \<Rightarrow> schema \<Rightarrow> json \<Rightarrow> string \<Rightarrow> json option" where
  "coerce_to lib rec sch v t =
     (if t = ''integer'' then map_option JInt (coerceToInteger lib sch v)
      else if t = ''number'' then map_option float_json (coerceToNumber lib sch v)
      else if t = ''boolean'' then map_option JBool (coerceToBoolean v)
      else if t = ''string'' then map_option JString (coerceToString lib v)
      else if t = ''array'' then map_option JArray (coerceToArray lib rec sch v)
      else if t = ''object'' then map_option JObject (coerceToObject lib rec sch v)
      else if t = ''null'' then coerceToNull v
      else None)"

definition coerce_body :: "coerce_lib \<Rightarrow> coercion \<Rightarrow> coercion" where
  "coerce_body lib rec sch v =
     (let types = declaredTypes sch in
      if types = [] then descendIntoContainers rec sch v
      else if valueMatchesAnyType v types then descendIntoContainers rec sch v
      else case first_some (map (coerce_to lib rec sch v) types) of
             Some v' \<Rightarrow> (v', True)
           | None \<Rightarrow> descendIntoContainers rec sch v)"

text \<open>Recursive calls are on sub-schemas only.\<close>

lemma first_some_in: "first_some xs = Some y \<Longrightarrow> Some y \<in> set xs"
  by (induction xs) (auto split: option.splits)

lemma propertySchema_smaller: "propertySchema sch key = Some sub \<Longrightarrow> size sub < size sch"
proof (induction sch arbitrary: sub)
  case (Schema ty tys props its al an on b en)
  have branch: "size sub < Suc (size_list size brs)"
    if "first_some (map (\<lambda>br. propertySchema br key) brs) = Some sub" and "brs = al \<or> brs = an \<or> brs = on" for brs
  proof -
    from first_some_in[OF that(1)] obtain br where br: "br \<in> set brs" "propertySchema br key = Some sub" by auto
    then have "size sub < size br" using Schema.IH(3-5) that(2) by auto
    then show ?thesis using br(1) size_list_estimation'[of br brs "size br" size] by simp
  qed
  have declared: "size sub < Suc (size_list (size_prod (\<lambda>_. 0) (size_option size)) props)"
    if "map_of props key = Some (Some sub)"
    using size_list_estimation'[OF map_of_SomeD[OF that], of "size sub" "size_prod (\<lambda>_. 0) (size_option size)"] by simp
  show ?case
    using Schema.prems branch[of al] branch[of an] branch[of on] declared by (auto split: option.splits intro: less_le_trans)
qed

lemma items_smaller: "sch_Items sch = Some its \<Longrightarrow> size its < size sch"
  by (cases sch) auto

lemma coerceObject_cong [fundef_cong]:
  "\<lbrakk>sch = sch'; m = m'; \<And>p w. size p < size sch' \<Longrightarrow> rec p w = rec' p w\<rbrakk> \<Longrightarrow>
   coerceObject rec sch m = coerceObject rec' sch' m'"
  by (auto simp: coerceObject_def propertySchema_smaller split: option.splits)

lemma coerce_items_cong [fundef_cong]:
  "\<lbrakk>sch = sch'; xs = xs'; \<And>p w. size p < size sch' \<Longrightarrow> rec p w = rec' p w\<rbrakk> \<Longrightarrow>
   coerce_items rec sch xs = coerce_items rec' sch' xs'"
  by (auto simp: coerce_items_def items_smaller split: option.splits)

lemma coerce_body_cong [fundef_cong]:
  assumes "sch = sch'" "v = v'" and eq: "\<And>p w. size p < size sch' \<Longrightarrow> rec p w = rec' p w"
  shows "coerce_body lib rec sch v = coerce_body lib rec' sch' v'"
proof -
  have obj: "coerceObject rec sch' = coerceObject rec' sch'"
    by (rule ext, rule coerceObject_cong[OF refl refl]) (rule eq)
  have its: "coerce_items rec sch' = coerce_items rec' sch'"
    by (rule ext, rule coerce_items_cong[OF refl refl]) (rule eq)
  have desc: "descendIntoContainers rec sch' = descendIntoContainers rec' sch'"
    by (rule ext) (unfold descendIntoContainers_def obj its, rule refl)
  have cto: "coerce_to lib rec sch' = coerce_to lib rec' sch'"
    by (intro ext) (unfold coerce_to_def coerceToArray_def coerceToObject_def obj its, rule refl)
  show ?thesis unfolding coerce_body_def assms(1,2) desc cto by (rule refl)
qed

function coerceValue :: "coerce_lib \<Rightarrow> coercion" where
  "coerceValue lib sch v = coerce_body lib (coerceValue lib) sch v"
  by pat_completeness auto
termination by (relation "measure (\<lambda>(_, sch, _). size sch)") auto

declare coerceValue.simps [simp del]

definition coerceArgumentsToSchema ::
  "coerce_lib \<Rightarrow> string \<Rightarrow> json_object \<Rightarrow> (string, schema) gomap \<Rightarrow> json_object" where
  "coerceArgumentsToSchema lib toolName arguments schemas =
     (if arguments = [] \<or> schemas = [] then arguments
      else case map_of schemas toolName of
             None \<Rightarrow> arguments
           | Some sch \<Rightarrow> coerceObject (coerceValue lib) sch arguments)"

section \<open>Schemas of the advertised tools and validator errors\<close>

record mcp_tool =
  tool_Name :: string
  tool_Description :: string
  InputSchema :: json

text \<open>
  \<open>parse\<close> stands for \<open>parseInputSchema\<close>'s round trip of an \<open>any\<close> through JSON into the schema type. A tool
  pointer or a schema may be nil.
\<close>

fun schema_lookup_loop ::
  "(json \<Rightarrow> schema option) \<Rightarrow> mcp_tool option list \<Rightarrow> (string, schema) gomap \<Rightarrow> (string, schema) gomap" where
  "schema_lookup_loop parse [] out = out"
| "schema_lookup_loop parse (None # tools) out = schema_lookup_loop parse tools out"
| "schema_lookup_loop parse (Some t # tools) out =
     (if InputSchema t = JNull then schema_lookup_loop parse tools out
      else case parse (InputSchema t) of
             None \<Rightarrow> schema_lookup_loop parse tools out
           | Some sch \<Rightarrow> schema_lookup_loop parse tools (AList.update (tool_Name t) sch out))"

definition schemaLookup :: "(json \<Rightarrow> schema option) \<Rightarrow> mcp_tool option list \<Rightarrow> (string, schema) gomap" where
  "schemaLookup parse tools = schema_lookup_loop parse tools []"

text \<open>\<open>strings.Index\<close>, \<open>strings.Trim\<close> and \<open>strings.TrimRight\<close> with an ASCII cutset.\<close>

fun str_index :: "string \<Rightarrow> string \<Rightarrow> nat option" where
  "str_index [] p = (if p = [] then Some 0 else None)"
| "str_index (c # cs) p = (if HasPrefix (c # cs) p then Some 0 else map_option Suc (str_index cs p))"

definition trim_right_set :: "string \<Rightarrow> string \<Rightarrow> string" where
  "trim_right_set s cutset = rev (dropWhile (\<lambda>c. c \<in> set cutset) (rev s))"

definition trim_set :: "string \<Rightarrow> string \<Rightarrow> string" where
  "trim_set s cutset = trim_right_set (dropWhile (\<lambda>c. c \<in> set cutset) s) cutset"

definition parseTypeMismatch :: "string \<Rightarrow> string \<times> string" where
  "parseTypeMismatch s =
     (case str_index s ''want '' of
        None \<Rightarrow> ([], [])
      | Some wantIdx \<Rightarrow>
          let want = trim_set (TrimSpace (drop (wantIdx + 5) s)) [CHR 0x22, CHR 0x27, CHR '' '', CHR ''.'', CHR '',''] in
          (case str_index (take wantIdx s) ''has type '' of
             None \<Rightarrow> (want, [])
           | Some has \<Rightarrow> (want, trim_right_set (TrimSpace (drop (has + 9) (take wantIdx s))) '' ,'')))"

text \<open>\<open>q\<close> is the formatting verb \<open>%q\<close>.\<close>

definition extractValidatorSummary :: "(string \<Rightarrow> string) \<Rightarrow> string \<Rightarrow> string" where
  "extractValidatorSummary q raw =
     (case str_index raw ''/properties/'' of
        None \<Rightarrow> []
      | Some fieldIdx \<Rightarrow>
          let rest2 = drop (fieldIdx + 12) raw in
          (case str_index rest2 '':'' of
             None \<Rightarrow> []
           | Some colon \<Rightarrow>
               let f = TrimSpace (take colon rest2); rest = drop (colon + 1) rest2;
                   invalid = ''Invalid field '' @ q f @ ''.'' in
               (case str_index rest ''type:'' of
                  None \<Rightarrow> invalid
                | Some typeIdx \<Rightarrow>
                    let (expected, actualQuoted) = parseTypeMismatch (drop (typeIdx + 5) rest) in
                    if expected = [] \<or> actualQuoted = [] then invalid
                    else ''Field '' @ q f @ '' must be '' @ expected @ '' (received '' @ actualQuoted @
                           ''). Retry with the corrected type.'')))"

text \<open>\<open>debugPreview\<close> is empty in production builds, so the preview is the JSON of the arguments.\<close>

definition humanizeToolArgError ::
  "(string \<Rightarrow> string) \<Rightarrow> (json_object \<Rightarrow> string option) \<Rightarrow> string \<Rightarrow> string option \<Rightarrow> json_object \<Rightarrow> string" where
  "humanizeToolArgError q marshal toolName err arguments =
     (case err of
        None \<Rightarrow> []
      | Some raw \<Rightarrow>
          let summary = extractValidatorSummary q raw in
          if summary = [] then ''Tool '' @ q toolName @ '' rejected the arguments: '' @ raw
          else ''Tool '' @ q toolName @ '' rejected the arguments. '' @ summary @ '' Original args: ''
                 @ (case marshal arguments of None \<Rightarrow> [] | Some b \<Rightarrow> b))"

section \<open>What a rewritten argument satisfies\<close>

lemma json_float_json [simp]: "json_float (float_json f) = Some f"
  by (cases f) auto

lemma numeric_float_json [simp]: "isNumericValue (float_json f)"
  by (cases f) auto

lemma float_json_simps [simp]: "float_json f \<noteq> JInt n" "float_json f \<noteq> JNull"
  by (cases f; simp)+

lemma coerceToNull_Some: "coerceToNull v = Some v' \<Longrightarrow> v' = JNull"
  by (cases v) (auto split: if_splits)

lemma coerce_to_matches: "coerce_to lib rec sch v t = Some v' \<Longrightarrow> valueMatchesType v' t"
  by (auto simp: coerce_to_def valueMatchesType_def dest: coerceToNull_Some split: if_splits)

lemma bounded_integer_ok: "bounded_integer lib sch f = Some n \<Longrightarrow> integerSatisfiesSchema lib n sch"
  by (auto simp: bounded_integer_def split: option.splits if_splits)

lemma coerceToInteger_ok: "coerceToInteger lib sch v = Some n \<Longrightarrow> integerSatisfiesSchema lib n sch"
  by (induction lib sch v rule: coerceToInteger.induct)
    (auto simp: Let_def bounded_integer_ok split: option.splits if_splits)

lemma coerceToNumber_ok: "coerceToNumber lib sch v = Some f \<Longrightarrow> numberSatisfiesSchema lib f sch"
  by (induction lib sch v rule: coerceToNumber.induct) (auto simp: Let_def split: option.splits if_splits)

lemma coerce_to_integer_ok: "coerce_to lib rec sch v t = Some (JInt n) \<Longrightarrow> integerSatisfiesSchema lib n sch"
  by (auto simp: coerce_to_def dest: coerceToNull_Some coerceToInteger_ok split: if_splits)

lemma coerce_to_number_ok:
  assumes "coerce_to lib rec sch v t = Some v'" and "json_float v' = Some f"
  shows "numberSatisfiesSchema lib f sch"
  using assms by (auto simp: coerce_to_def dest: coerceToNull_Some coerceToNumber_ok split: if_splits)

lemma descend_unchanged [simp]: "\<not> snd (descendIntoContainers rec sch v)"
  by (simp add: descendIntoContainers_def split: json.splits)

lemma coerceValue_changed:
  assumes "snd (coerceValue lib sch v)"
  obtains t where "t \<in> set (declaredTypes sch)"
    and "coerce_to lib (coerceValue lib) sch v t = Some (fst (coerceValue lib sch v))"
proof -
  from assms obtain v' where first: "first_some (map (coerce_to lib (coerceValue lib) sch v) (declaredTypes sch)) = Some v'"
    and "fst (coerceValue lib sch v) = v'"
    by (auto simp: coerceValue.simps[of lib sch v] coerce_body_def Let_def split: if_splits option.splits)
  with first_some_in[OF first] that show thesis by auto
qed

text \<open>
  A tool argument the router rewrites ends up well typed: its value has one of the types the
  tool's schema declares for it, and a number is within the declared bounds and enumeration.
\<close>

theorem rewritten_argument_well_typed:
  assumes "coerceValue lib sch v = (v', True)"
  shows "valueMatchesAnyType v' (declaredTypes sch)
    \<and> (\<forall>n. v' = JInt n \<longrightarrow> integerSatisfiesSchema lib n sch)
    \<and> (\<forall>f. json_float v' = Some f \<longrightarrow> numberSatisfiesSchema lib f sch)"
proof -
  have "snd (coerceValue lib sch v)" using assms by simp
  then obtain t where t: "t \<in> set (declaredTypes sch)" "coerce_to lib (coerceValue lib) sch v t = Some v'"
    by (rule coerceValue_changed) (simp add: assms)
  then show ?thesis
    by (auto simp: valueMatchesAnyType_def list_ex_iff dest: coerce_to_matches coerce_to_integer_ok coerce_to_number_ok)
qed

section \<open>Coercion happens once\<close>

lemma coerceObject_stable:
  assumes "\<And>p w. size p < size sch \<Longrightarrow> fst (rec p (fst (rec p w))) = fst (rec p w)"
  shows "coerceObject rec sch (coerceObject rec sch m) = coerceObject rec sch m"
  by (auto simp: coerceObject_def assms propertySchema_smaller split: option.splits)

lemma coerce_items_stable:
  assumes "\<And>p w. size p < size sch \<Longrightarrow> fst (rec p (fst (rec p w))) = fst (rec p w)"
  shows "coerce_items rec sch (coerce_items rec sch xs) = coerce_items rec sch xs"
  by (auto simp: coerce_items_def assms items_smaller split: option.splits)

lemma matches_descend [simp]:
  "valueMatchesAnyType (fst (descendIntoContainers rec sch v)) types = valueMatchesAnyType v types"
  by (cases v) (simp_all add: descendIntoContainers_def valueMatchesAnyType_def valueMatchesType_def list_ex_iff)

lemma coerce_to_descend [simp]:
  "coerce_to lib rec sch (fst (descendIntoContainers rec sch v)) = coerce_to lib rec sch v"
  by (rule ext, cases v) (simp_all add: descendIntoContainers_def coerce_to_def bounded_integer_def coerceToArray_def coerceToObject_def)

lemma coerceToArray_stable:
  assumes "\<And>xs. coerce_items rec sch (coerce_items rec sch xs) = coerce_items rec sch xs"
    and "coerceToArray lib rec sch v = Some xs"
  shows "coerce_items rec sch xs = xs"
  using assms by (auto simp: coerceToArray_def Let_def split: json.splits if_splits option.splits)

lemma coerceToObject_stable:
  assumes "\<And>m. coerceObject rec sch (coerceObject rec sch m) = coerceObject rec sch m"
    and "coerceToObject lib rec sch v = Some m"
  shows "coerceObject rec sch m = m"
  using assms by (auto simp: coerceToObject_def Let_def split: json.splits if_splits)

lemma coerce_to_stable:
  assumes "\<And>m. coerceObject rec sch (coerceObject rec sch m) = coerceObject rec sch m"
    and "\<And>xs. coerce_items rec sch (coerce_items rec sch xs) = coerce_items rec sch xs"
    and "coerce_to lib rec sch v t = Some v'"
  shows "fst (descendIntoContainers rec sch v') = v'"
proof -
  have "fst (descendIntoContainers rec sch (float_json f)) = float_json f" for f
    by (cases f) (simp_all add: descendIntoContainers_def)
  then show ?thesis
    using assms(3) coerceToArray_stable[OF assms(2)] coerceToObject_stable[OF assms(1)]
    by (auto simp: coerce_to_def descendIntoContainers_def dest: coerceToNull_Some split: if_splits)
qed

lemma coerceValue_idempotent: "fst (coerceValue lib sch (fst (coerceValue lib sch v))) = fst (coerceValue lib sch v)"
proof (induction "size sch" arbitrary: sch v rule: less_induct)
  case less
  let ?C = "coerceValue lib" and ?D = "\<lambda>w. fst (descendIntoContainers (coerceValue lib) sch w)"
  have obj: "coerceObject ?C sch (coerceObject ?C sch m) = coerceObject ?C sch m" for m
    by (rule coerceObject_stable) (rule less)
  have its: "coerce_items ?C sch (coerce_items ?C sch xs) = coerce_items ?C sch xs" for xs
    by (rule coerce_items_stable) (rule less)
  have desc: "?D (?D w) = ?D w" for w
    by (cases w) (simp_all add: descendIntoContainers_def obj its)
  have typed: "?D v' = v' \<and> valueMatchesAnyType v' (declaredTypes sch)"
    if "first_some (map (coerce_to lib ?C sch v) (declaredTypes sch)) = Some v'" for v'
  proof -
    from first_some_in[OF that] obtain t where t: "t \<in> set (declaredTypes sch)" "coerce_to lib ?C sch v t = Some v'"
      by auto
    from t(2) coerce_to_matches[OF t(2)] t(1) show ?thesis
      using coerce_to_stable[OF obj its t(2)] by (auto simp: valueMatchesAnyType_def list_ex_iff)
  qed
  show ?case
    by (simp add: coerceValue.simps[of lib sch] coerce_body_def Let_def desc typed comp_def split: option.splits)
qed

text \<open>
  Coercing the arguments of a tool call a second time changes nothing: one pass reaches a fixed
  point, however deeply strings were nested in the arguments.
\<close>

theorem coercion_idempotent:
  "coerceArgumentsToSchema lib tool (coerceArgumentsToSchema lib tool args schemas) schemas =
   coerceArgumentsToSchema lib tool args schemas"
proof -
  have "coerceObject (coerceValue lib) sch (coerceObject (coerceValue lib) sch m) = coerceObject (coerceValue lib) sch m"
    for sch m
    by (rule coerceObject_stable) (rule coerceValue_idempotent)
  then show ?thesis by (simp add: coerceArgumentsToSchema_def split: option.splits)
qed

definition plain_coerce_lib :: coerce_lib where
  "plain_coerce_lib =
     \<lparr>lib_ParseFloat = (\<lambda>t. if t = ''NaN'' then Some NaN else None), lib_float64 = of_int, lib_int64 = (\<lambda>_. 0),
      lib_FormatFloat = (\<lambda>_. []), lib_array = (\<lambda>_. None), lib_object = (\<lambda>_. None)\<rparr>"

definition no_bounds :: bounds where
  "no_bounds = \<lparr>Minimum = None, Maximum = None, ExclusiveMinimum = None, ExclusiveMaximum = None, MultipleOf = None\<rparr>"

definition typed_schema :: "string \<Rightarrow> bounds \<Rightarrow> json list \<Rightarrow> schema" where
  "typed_schema t b en = Schema t [] [] None [] [] [] b en"

lemma trim_small: "TrimSpace ''7'' = ''7''" "TrimSpace ''NaN'' = ''NaN''" "TrimSpace ''yes'' = ''yes''"
  by (rule TrimSpace_graphic; simp add: graphic_def)+

lemma coerce_seven:
  "coerceValue plain_coerce_lib (typed_schema ''integer'' (no_bounds\<lparr>Maximum := Some 30\<rparr>) []) (JString ''7'') = (JInt 7, True)"
  by (simp add: coerceValue.simps coerce_body_def declaredTypes_def typed_schema_def valueMatchesAnyType_def
      valueMatchesType_def coerce_to_def trim_small ParseInt64_def digit_val_def plain_coerce_lib_def no_bounds_def
      integerSatisfiesSchema_def numberSatisfiesSchema_def unless_set_def enumContainsNumeric_def max_int64_def min_int64_def)

theorem rewritten_argument_well_typed_witness:
  "valueMatchesAnyType (JInt 7) (declaredTypes (typed_schema ''integer'' (no_bounds\<lparr>Maximum := Some 30\<rparr>) []))
   \<and> integerSatisfiesSchema plain_coerce_lib 7 (typed_schema ''integer'' (no_bounds\<lparr>Maximum := Some 30\<rparr>) [])"
  using rewritten_argument_well_typed[OF coerce_seven] by simp

section \<open>Limits of the coercion\<close>

text \<open>
  A string that spells a NaN passes every numeric bound and becomes a \<open>float64\<close> that has no JSON form;
  a boolean coercion does not look at the enumeration.
\<close>

lemma nan_passes_bounds:
  "coerceValue plain_coerce_lib (typed_schema ''number'' (no_bounds\<lparr>Minimum := Some 0, Maximum := Some 1\<rparr>) []) (JString ''NaN'')
     = (JNonFinite ''NaN'', True)"
  by (simp add: coerceValue.simps coerce_body_def declaredTypes_def typed_schema_def valueMatchesAnyType_def
      valueMatchesType_def coerce_to_def trim_small plain_coerce_lib_def no_bounds_def
      numberSatisfiesSchema_def unless_set_def enumContainsNumeric_def)

lemma boolean_ignores_enum:
  "coerceValue plain_coerce_lib (typed_schema ''boolean'' no_bounds [JBool False]) (JString ''yes'') = (JBool True, True)"
  by (simp add: coerceValue.simps coerce_body_def declaredTypes_def typed_schema_def valueMatchesAnyType_def
      valueMatchesType_def coerce_to_def trim_small ToLower_def to_lower_char_def)

end
