(* ===== verification/Tool_Arguments.thy ===== *)
theory Tool_Arguments
  imports Tool_Options Tool_Coerce Citation_State
begin

text \<open>
  The tool calls of a model response (\<open>toolruntime/tool_call.go\<close>) and the repairs of their arguments
  (\<open>toolruntime/quirks.go\<close>).

  \<open>json.Valid\<close> and \<open>json.Unmarshal\<close> are parameters: \<open>valid\<close>, and \<open>unmarshal\<close> whose result is \<open>None\<close> for
  an error and \<open>Some None\<close> for the nil map of a JSON null. The repairs rewrite maps and slices in place;
  the definitions return the rewritten value. What \<open>deepStripURLTokens\<close> reports feeds a debug log only.
\<close>

section \<open>Control tokens\<close>

text \<open>\<open>controlTokenPattern\<close> at the start of the text: the number of bytes it covers.\<close>

definition token_inner :: "char \<Rightarrow> bool" where
  "token_inner c \<longleftrightarrow> c \<noteq> CHR ''|'' \<and> c \<noteq> CHR ''<'' \<and> c \<noteq> CHR ''>''"

definition control_token :: "string \<Rightarrow> (string \<times> nat) option" where
  "control_token s =
     (case CutPrefix s ''<|'' of
        None \<Rightarrow> None
      | Some rest \<Rightarrow>
          let inner = takeWhile token_inner rest; after = dropWhile token_inner rest in
          if 64 < length (runes_of inner) then None
          else (case CutPrefix after ''|'' of
                  None \<Rightarrow> None
                | Some rest2 \<Rightarrow> Some ([], 3 + length inner + (if HasPrefix rest2 ''>'' then 1 else 0))))"

definition stripModelControlTokens :: "string \<Rightarrow> string" where
  "stripModelControlTokens s = (if \<not> contains ''<|'' s then s else replace_all control_token s)"

definition looksLikeLeakedURL :: "string \<Rightarrow> bool" where
  "looksLikeLeakedURL s \<longleftrightarrow>
     contains ''<|'' s \<and>
     (let stripped = stripModelControlTokens s in HasPrefix stripped ''http://'' \<or> HasPrefix stripped ''https://'')"

definition urlFieldAllowlist :: "string list" where
  "urlFieldAllowlist = [''url'', ''urls'', ''fetch_url'', ''page_url'', ''href'', ''link'']"

definition strip_string :: "bool \<Rightarrow> string \<Rightarrow> string" where
  "strip_string isURLField s = (if isURLField \<or> looksLikeLeakedURL s then stripModelControlTokens s else s)"

lemma size_pair_in: "(k, v) \<in> set m \<Longrightarrow> size v < Suc (size_list (size_prod (\<lambda>_. 0) size) m)"
  using size_list_estimation'[of "(k, v)" m "size v" "size_prod (\<lambda>_. 0) size"] by simp

lemma size_in: "x \<in> set xs \<Longrightarrow> size x < Suc (size_list size xs)"
  using size_list_estimation'[of x xs "size x" size] by simp

function (sequential) deepStripURLTokens :: "(string \<Rightarrow> string) \<Rightarrow> json \<Rightarrow> json"
  and strip_child :: "(string \<Rightarrow> string) \<Rightarrow> bool \<Rightarrow> json \<Rightarrow> json"
  and strip_item :: "(string \<Rightarrow> string) \<Rightarrow> bool \<Rightarrow> json \<Rightarrow> json" where
  "deepStripURLTokens lower (JObject m) =
     JObject (map (\<lambda>(key, child). (key, strip_child lower (lower key \<in> set urlFieldAllowlist) child)) m)"
| "deepStripURLTokens lower (JArray xs) = JArray (map (deepStripURLTokens lower) xs)"
| "deepStripURLTokens lower v = v"
| "strip_child lower isURLField (JString c) = JString (strip_string isURLField c)"
| "strip_child lower isURLField (JArray c) = JArray (map (strip_item lower isURLField) c)"
| "strip_child lower isURLField (JObject c) = deepStripURLTokens lower (JObject c)"
| "strip_child lower isURLField v = v"
| "strip_item lower isURLField (JString s) = JString (strip_string isURLField s)"
| "strip_item lower isURLField item = deepStripURLTokens lower item"
  by pat_completeness auto
termination
  by (relation "measures [\<lambda>x. case x of Inl (_, v) \<Rightarrow> size v | Inr (Inl (_, _, v)) \<Rightarrow> size v | Inr (Inr (_, _, v)) \<Rightarrow> size v,
                          \<lambda>x. case x of Inl _ \<Rightarrow> 0 | Inr _ \<Rightarrow> 1]")
    (auto dest: size_in size_pair_in)

definition sanitizeToolCallArguments :: "(string \<Rightarrow> string) \<Rightarrow> json_object \<Rightarrow> json_object" where
  "sanitizeToolCallArguments lower args = obj_or_empty (deepStripURLTokens lower (JObject args))"

section \<open>Malformed argument text\<close>

fun object_end :: "string \<Rightarrow> int \<Rightarrow> bool \<Rightarrow> bool \<Rightarrow> nat option" where
  "object_end [] depth inString escaped = None"
| "object_end (c # cs) depth inString escaped =
     (if escaped then map_option Suc (object_end cs depth inString False)
      else if inString then
        map_option Suc (object_end cs depth (c \<noteq> CHR 0x22) (c = CHR 0x5C))
      else if c = CHR 0x22 then map_option Suc (object_end cs depth True False)
      else if c = CHR ''{'' then map_option Suc (object_end cs (depth + 1) False False)
      else if c = CHR ''}'' then
        (if depth - 1 = 0 then Some 1
         else if depth - 1 < 0 then None
         else map_option Suc (object_end cs (depth - 1) False False))
      else map_option Suc (object_end cs depth False False))"

definition extractFirstJSONObject :: "string \<Rightarrow> string option" where
  "extractFirstJSONObject s =
     (case s of
        [] \<Rightarrow> None
      | c # _ \<Rightarrow> if c \<noteq> CHR ''{'' then None else map_option (\<lambda>n. take n s) (object_end s 0 False False))"

definition sanitizeToolCallArgumentsJSON :: "(string \<Rightarrow> bool) \<Rightarrow> string \<Rightarrow> string \<times> bool" where
  "sanitizeToolCallArgumentsJSON valid raw =
     (let trimmed = TrimSpace raw in
      if raw = [] \<or> trimmed = [] then (raw, False)
      else if valid trimmed then (raw, False)
      else if hd trimmed \<noteq> CHR ''{'' then (raw, False)
      else case extractFirstJSONObject trimmed of
             None \<Rightarrow> (raw, False)
           | Some obj \<Rightarrow> (obj, True))"

definition repair_arguments :: "(string \<Rightarrow> bool) \<Rightarrow> string \<Rightarrow> string" where
  "repair_arguments valid args =
     (if args = [] \<or> valid args then args
      else let (repaired, repairedOK) = sanitizeToolCallArgumentsJSON valid args in
           if repairedOK \<and> valid repaired then repaired else ''{}'')"

definition repair_call :: "(string \<Rightarrow> bool) \<Rightarrow> json \<Rightarrow> json" where
  "repair_call valid rawCall =
     (case rawCall of
        JObject call \<Rightarrow>
          (case field call ''function'' of
             JObject fn \<Rightarrow>
               (case field fn ''arguments'' of
                  JString args \<Rightarrow>
                    JObject (AList.update ''function''
                      (JObject (AList.update ''arguments'' (JString (repair_arguments valid args)) fn)) call)
                | _ \<Rightarrow> rawCall)
           | _ \<Rightarrow> rawCall)
      | _ \<Rightarrow> rawCall)"

definition repair_message :: "(string \<Rightarrow> bool) \<Rightarrow> json \<Rightarrow> json" where
  "repair_message valid msg =
     (case msg of
        JObject m \<Rightarrow>
          if field m ''role'' \<noteq> JString ''assistant'' then msg
          else (case field m ''tool_calls'' of
                  JArray toolCalls \<Rightarrow> JObject (AList.update ''tool_calls'' (JArray (map (repair_call valid) toolCalls)) m)
                | _ \<Rightarrow> msg)
      | _ \<Rightarrow> msg)"

definition sanitizeAssistantToolCallsInMessages :: "(string \<Rightarrow> bool) \<Rightarrow> json list \<Rightarrow> json list" where
  "sanitizeAssistantToolCallsInMessages valid messages = map (repair_message valid) messages"

section \<open>Tool calls\<close>

record toolCall =
  call_id :: string
  call_name :: string
  call_arguments :: "json_object option"

type_synonym unmarshal = "string \<Rightarrow> json_object option option"

definition parseArguments :: "(string \<Rightarrow> bool) \<Rightarrow> unmarshal \<Rightarrow> json \<Rightarrow> json_object option" where
  "parseArguments valid unmarshal raw =
     (case raw of
        JString v \<Rightarrow>
          (case unmarshal (fst (sanitizeToolCallArgumentsJSON valid v)) of
             Some parsed \<Rightarrow> parsed
           | None \<Rightarrow> Some [])
      | JObject m \<Rightarrow> Some m
      | _ \<Rightarrow> Some [])"

definition chat_call :: "(string \<Rightarrow> bool) \<Rightarrow> unmarshal \<Rightarrow> json \<Rightarrow> toolCall" where
  "chat_call valid unmarshal rawCall =
     (let callMap = obj_or_empty rawCall; functionMap = obj_or_empty (field callMap ''function'') in
      \<lparr>call_id = string_field callMap ''id'', call_name = string_field functionMap ''name'',
       call_arguments = parseArguments valid unmarshal (field functionMap ''arguments'')\<rparr>)"

definition parseChatToolCalls ::
  "(string \<Rightarrow> bool) \<Rightarrow> unmarshal \<Rightarrow> json_object \<Rightarrow> json_object option \<times> toolCall list" where
  "parseChatToolCalls valid unmarshal response =
     (case list_or_empty (field response ''choices'') of
        [] \<Rightarrow> (None, [])
      | c # _ \<Rightarrow>
          (case as_object (field (obj_or_empty c) ''message'') of
             None \<Rightarrow> (None, [])
           | Some message \<Rightarrow>
               (Some message, map (chat_call valid unmarshal) (list_or_empty (field message ''tool_calls'')))))"

definition is_call_item :: "json \<Rightarrow> bool" where
  "is_call_item item \<longleftrightarrow> string_field (obj_or_empty item) ''type'' \<in> set [''function_call'', ''mcp_call'']"

definition responses_call :: "(string \<Rightarrow> bool) \<Rightarrow> unmarshal \<Rightarrow> json \<Rightarrow> toolCall" where
  "responses_call valid unmarshal item =
     (let itemMap = obj_or_empty item; callID = string_field itemMap ''call_id'' in
      \<lparr>call_id = (if callID = [] then string_field itemMap ''id'' else callID),
       call_name = string_field itemMap ''name'',
       call_arguments = parseArguments valid unmarshal (field itemMap ''arguments'')\<rparr>)"

definition parseResponsesToolCalls :: "(string \<Rightarrow> bool) \<Rightarrow> unmarshal \<Rightarrow> json_object \<Rightarrow> toolCall list" where
  "parseResponsesToolCalls valid unmarshal response =
     map (responses_call valid unmarshal) (filter is_call_item (list_or_empty (field response ''output'')))"

definition splitToolCalls :: "string list \<Rightarrow> toolCall list \<Rightarrow> toolCall list \<times> toolCall list" where
  "splitToolCalls ownedTools toolCalls =
     (filter (\<lambda>c. call_name c \<in> set ownedTools) toolCalls, filter (\<lambda>c. call_name c \<notin> set ownedTools) toolCalls)"

definition existingTools :: "json \<Rightarrow> json list" where "existingTools raw = list_or_empty raw"

definition routedToolDescription :: "mcp_tool \<Rightarrow> string" where
  "routedToolDescription tool =
     (let description = TrimSpace (tool_Description tool) in
      if description = [] then ''Use the '' @ tool_Name tool @ '' tool when it would improve the answer.''
      else description)"

definition named_tools :: "mcp_tool option list \<Rightarrow> mcp_tool list" where
  "named_tools tools = filter (\<lambda>t. tool_Name t \<noteq> []) (List.map_filter id tools)"

definition ownedToolNames :: "mcp_tool option list \<Rightarrow> string list" where
  "ownedToolNames tools = map tool_Name (named_tools tools)"

definition chatTools :: "mcp_tool option list \<Rightarrow> json list" where
  "chatTools tools =
     map (\<lambda>tool. JObject [(''type'', JString ''function''),
                          (''function'', JObject [(''name'', JString (tool_Name tool)),
                                                  (''description'', JString (routedToolDescription tool)),
                                                  (''parameters'', InputSchema tool)])])
       (named_tools tools)"

definition responseTools :: "mcp_tool option list \<Rightarrow> json list" where
  "responseTools tools =
     map (\<lambda>tool. JObject [(''type'', JString ''function''), (''name'', JString (tool_Name tool)),
                          (''description'', JString (routedToolDescription tool)),
                          (''parameters'', InputSchema tool)])
       (named_tools tools)"

definition routerOwnedToolTypes :: "string list" where "routerOwnedToolTypes = [''web_search'']"

fun replace_owned :: "json list \<Rightarrow> bool \<Rightarrow> json list \<Rightarrow> json list" where
  "replace_owned replacements injected [] = []"
| "replace_owned replacements injected (tool # tools) =
     (if string_field (obj_or_empty tool) ''type'' \<in> set routerOwnedToolTypes
      then (if injected then [] else replacements) @ replace_owned replacements True tools
      else tool # replace_owned replacements injected tools)"

definition replaceRouterOwnedResponsesTools :: "json \<Rightarrow> json list \<Rightarrow> json list" where
  "replaceRouterOwnedResponsesTools raw replacements =
     (case list_or_empty raw of
        [] \<Rightarrow> replacements
      | tools \<Rightarrow> replace_owned replacements False tools)"

section \<open>Control tokens are not nested\<close>

text \<open>
  Stripping is not idempotent: removing a token can put the two halves of another one together.
\<close>

lemma strip_not_idempotent:
  "stripModelControlTokens ''<<|a|>|b|>'' = ''<|b|>'' \<and> stripModelControlTokens ''<|b|>'' = []"
  by (simp add: stripModelControlTokens_def HasPrefix_def control_token_def CutPrefix_def token_inner_def runes_of_ascii byte_val_def)

section \<open>Repairing argument text\<close>

text \<open>
  The texts of the JSON grammar of RFC 8259, with its restrictions on control characters, escapes and
  the form of numbers left out, so that every JSON text is one.
\<close>

inductive string_body :: "string \<Rightarrow> bool" where
  "string_body []"
| "\<lbrakk>c \<noteq> CHR 0x22; c \<noteq> CHR 0x5C; string_body b\<rbrakk> \<Longrightarrow> string_body (c # b)"
| "string_body b \<Longrightarrow> string_body (CHR 0x5C # c # b)"

definition blank :: "string \<Rightarrow> bool" where
  "blank t \<longleftrightarrow> set t \<subseteq> {CHR '' '', CHR 0x09, CHR 0x0A, CHR 0x0D}"

definition string_text :: "string \<Rightarrow> bool" where
  "string_text t \<longleftrightarrow> (\<exists>b. string_body b \<and> t = CHR 0x22 # b @ [CHR 0x22])"

inductive json_text :: "string \<Rightarrow> bool" and elements :: "string \<Rightarrow> bool" and members :: "string \<Rightarrow> bool" where
  "t \<in> {''null'', ''true'', ''false''} \<Longrightarrow> json_text t"
| "set t \<subseteq> set ''0123456789+-.eE'' \<Longrightarrow> json_text t"
| "string_text t \<Longrightarrow> json_text t"
| "blank t \<Longrightarrow> json_text (''['' @ t @ '']'')"
| "elements t \<Longrightarrow> json_text (''['' @ t @ '']'')"
| "blank t \<Longrightarrow> json_text (''{'' @ t @ ''}'')"
| "members t \<Longrightarrow> json_text (''{'' @ t @ ''}'')"
| "\<lbrakk>blank a; json_text t; blank b\<rbrakk> \<Longrightarrow> elements (a @ t @ b)"
| "\<lbrakk>blank a; json_text t; blank b; elements ts\<rbrakk> \<Longrightarrow> elements (a @ t @ b @ '','' @ ts)"
| "\<lbrakk>blank a; string_text k; blank b; blank c; json_text t; blank d\<rbrakk> \<Longrightarrow> members (a @ k @ b @ '':'' @ c @ t @ d)"
| "\<lbrakk>blank a; string_text k; blank b; blank c; json_text t; blank d; members ts\<rbrakk> \<Longrightarrow>
   members (a @ k @ b @ '':'' @ c @ t @ d @ '','' @ ts)"

text \<open>What the scanner does on such a text inside an object: it consumes it and is back where it was.\<close>

definition skipped :: "string \<Rightarrow> bool" where
  "skipped t \<longleftrightarrow>
     (\<forall>rest depth. 1 \<le> depth \<longrightarrow>
        object_end (t @ rest) depth False False = map_option ((+) (length t)) (object_end rest depth False False))"

lemma skipped_append: "skipped a \<Longrightarrow> skipped b \<Longrightarrow> skipped (a @ b)"
  by (auto simp: skipped_def option.map_comp intro!: option.map_cong0)

lemma skipped_Nil: "skipped []"
  by (simp add: skipped_def option.map_ident_strong)

lemma skipped_char: "c \<notin> {CHR 0x22, CHR ''{'', CHR ''}''} \<Longrightarrow> skipped [c]"
  by (auto simp: skipped_def option.map_comp intro!: option.map_cong0)

lemma skipped_chars: "set t \<inter> {CHR 0x22, CHR ''{'', CHR ''}''} = {} \<Longrightarrow> skipped t"
proof (induction t)
  case (Cons c t)
  then have "skipped [c]" and "skipped t" by (auto intro: skipped_char)
  then show ?case using skipped_append[of "[c]" t] by simp
qed (rule skipped_Nil)

lemma object_end_string_body:
  "string_body b \<Longrightarrow>
   object_end (b @ CHR 0x22 # rest) depth True False = map_option ((+) (Suc (length b))) (object_end rest depth False False)"
  by (induction rule: string_body.induct) (simp_all add: option.map_comp comp_def)

lemma skipped_string: "string_text t \<Longrightarrow> skipped t"
  by (auto simp: skipped_def string_text_def object_end_string_body option.map_comp intro!: option.map_cong0)

lemma skipped_object: "skipped t \<Longrightarrow> skipped (''{'' @ t @ ''}'')"
  by (auto simp: skipped_def option.map_comp intro!: option.map_cong0)

lemma skipped_blank: "blank t \<Longrightarrow> skipped t"
  by (rule skipped_chars) (auto simp: blank_def)

lemma json_text_skipped:
  "json_text t \<Longrightarrow> skipped t"
  "elements t \<Longrightarrow> skipped t"
  "members t \<Longrightarrow> skipped t"
proof (induction rule: json_text_elements_members.inducts)
  case (1 t) then show ?case by (intro skipped_chars) auto
next
  case (2 t) then show ?case by (intro skipped_chars) auto
next
  case (6 t) then show ?case by (intro skipped_object skipped_blank)
next
  case (7 t) then show ?case by (intro skipped_object)
qed (assumption | erule skipped_blank skipped_string | rule skipped_append | (rule skipped_char; simp))+

lemma object_end_object: "skipped t \<Longrightarrow> object_end (''{'' @ t @ ''}'' @ rest) 0 False False = Some (length t + 2)"
  by (simp add: skipped_def)

lemma object_text_cases:
  assumes "json_text (CHR ''{'' # t)"
  obtains u where "t = u @ ''}''" and "skipped u"
  using assms by cases (auto simp: string_text_def intro: that skipped_blank json_text_skipped)

text \<open>
  Repairing the arguments of a streamed call recovers exactly the first JSON object: whatever
  object text the model wrote and whatever it appended to it, the scanner returns that object and
  drops the rest.
\<close>

theorem appended_text_dropped:
  assumes "json_text obj" and "HasPrefix obj ''{''"
  shows "extractFirstJSONObject (obj @ prose) = Some obj"
proof -
  obtain t where obj: "obj = CHR ''{'' # t" using assms(2) by (cases obj) (auto simp: HasPrefix_def)
  with assms(1) obtain u where u: "t = u @ ''}''" "skipped u" using object_text_cases by blast
  show ?thesis using object_end_object[OF u(2), of prose] by (simp add: extractFirstJSONObject_def obj u(1))
qed

theorem appended_text_dropped_witness: "extractFirstJSONObject (''{ }'' @ ''Now I will search'') = Some ''{ }''"
proof (rule appended_text_dropped)
  show "json_text ''{ }''" using json_text_elements_members.intros(6)[of "'' ''"] by (simp add: blank_def)
qed (simp add: HasPrefix_def)

definition arguments_valid :: "(string \<Rightarrow> bool) \<Rightarrow> json \<Rightarrow> bool" where
  "arguments_valid valid rawCall =
     (case field (obj_or_empty (field (obj_or_empty rawCall) ''function'')) ''arguments'' of
        JString args \<Rightarrow> args = [] \<or> valid args
      | _ \<Rightarrow> True)"

definition history_valid :: "(string \<Rightarrow> bool) \<Rightarrow> json \<Rightarrow> bool" where
  "history_valid valid msg \<longleftrightarrow>
     (field (obj_or_empty msg) ''role'' = JString ''assistant'' \<longrightarrow>
      list_all (arguments_valid valid) (list_or_empty (field (obj_or_empty msg) ''tool_calls'')))"

lemma repair_arguments_valid: "valid ''{}'' \<Longrightarrow> repair_arguments valid args = [] \<or> valid (repair_arguments valid args)"
  by (auto simp: repair_arguments_def Let_def split: prod.splits)

lemma field_Nil [simp]: "field [] k = JNull"
  by (simp add: field_def)

lemma repair_call_valid: "valid ''{}'' \<Longrightarrow> arguments_valid valid (repair_call valid rawCall)"
  using repair_arguments_valid[of valid]
  by (auto simp: repair_call_def arguments_valid_def obj_or_empty_def split: json.splits option.splits)

lemma repair_message_valid: "valid ''{}'' \<Longrightarrow> history_valid valid (repair_message valid msg)"
proof (cases msg)
  case (JObject m)
  assume "valid ''{}''"
  with JObject show ?thesis
    by (cases "field m ''tool_calls''")
      (auto simp: repair_message_def history_valid_def obj_or_empty_def list_or_empty_def list_all_iff repair_call_valid)
qed (simp_all add: repair_message_def history_valid_def obj_or_empty_def field_def)

text \<open>
  One malformed tool call cannot poison the conversation: after the repair every assistant message
  carries only tool calls whose arguments are empty or valid JSON, and valid arguments are kept as
  they were.
\<close>

theorem history_never_poisoned:
  assumes "valid ''{}''"
  shows "list_all (history_valid valid) (sanitizeAssistantToolCallsInMessages valid messages)
    \<and> (\<forall>args. valid args \<longrightarrow> repair_arguments valid args = args)"
  using assms
  by (auto simp: sanitizeAssistantToolCallsInMessages_def list_all_iff repair_message_valid repair_arguments_def)

definition broken_history :: "json list" where
  "broken_history =
     [JObject [(''role'', JString ''assistant''),
               (''tool_calls'', JArray [JObject [(''function'', JObject [(''arguments'', JString ''bad'')])]])]]"

theorem history_never_poisoned_witness:
  "list_all (history_valid (\<lambda>t. t = ''{}'')) (sanitizeAssistantToolCallsInMessages (\<lambda>t. t = ''{}'') broken_history)"
  using history_never_poisoned[of "\<lambda>t. t = ''{}''" broken_history] by simp

section \<open>Tools of a Responses request\<close>

lemma replace_owned_injected:
  "replace_owned reps True tools =
   filter (\<lambda>t. string_field (obj_or_empty t) ''type'' \<notin> set routerOwnedToolTypes) tools"
  by (induction tools) auto

lemma placeholder_replaced_once:
  assumes "string_field (obj_or_empty t) ''type'' \<in> set routerOwnedToolTypes"
    and "list_all (\<lambda>t. string_field (obj_or_empty t) ''type'' \<notin> set routerOwnedToolTypes) before"
  shows "replaceRouterOwnedResponsesTools (JArray (before @ t # after)) reps =
         before @ reps @ filter (\<lambda>t. string_field (obj_or_empty t) ''type'' \<notin> set routerOwnedToolTypes) after"
proof -
  have "replace_owned reps False (before @ t # after) =
        before @ reps @ filter (\<lambda>t. string_field (obj_or_empty t) ''type'' \<notin> set routerOwnedToolTypes) after"
    using assms(2) by (induction before) (use assms(1) in \<open>auto simp: replace_owned_injected\<close>)
  then show ?thesis
    by (cases "before @ t # after") (simp_all add: replaceRouterOwnedResponsesTools_def list_or_empty_def)
qed

section \<open>Arguments that are null\<close>

text \<open>
  A call whose arguments are the text \<open>null\<close> has a nil map, which the options skip: the cache-only
  bound is not written into it.
\<close>

lemma null_arguments_skip_options:
  assumes "valid ''null''" and "unmarshal ''null'' = Some None"
  shows "applyToSearchArgs lib o1 (parseArguments valid unmarshal (JString ''null'')) = None"
proof -
  have "TrimSpace ''null'' = ''null''" by (rule TrimSpace_graphic; simp add: graphic_def)
  then show ?thesis
    using assms by (simp add: parseArguments_def sanitizeToolCallArgumentsJSON_def Let_def applyToSearchArgs_def)
qed

end
