(* ===== verification/Tool_Events.thy ===== *)
theory Tool_Events
  imports Tool_Arguments Citation_Format
begin

text \<open>
  What a client sees of the tool calls the router made (\<open>toolruntime/events.go\<close>,
  \<open>toolruntime/search_evidence.go\<close>): the log of calls, the privacy-filter report, progress markers in
  chat text, \<open>web_search_call\<close> items of the Responses API, and the finalisation of a response with its
  citations.

  \<open>json.Marshal\<close> is the parameter \<open>marshal\<close>; the identifiers of markers and items are drawn from the
  sequence \<open>uuid\<close>, one per item in order. Maps built here are association lists without repeated keys.
\<close>

section \<open>Records of calls\<close>

record serviceBilling =
  bill_calls :: int
  bill_unknown :: bool

record piiRedaction =
  red_kind :: string
  red_start :: int
  red_end :: int

record piiCheckResult =
  masked :: bool
  redactedQuery :: string
  redactions :: "piiRedaction list"

record toolCallSource =
  src_url :: string
  src_title :: string
  snippet :: string
  publishedDate :: string
  author :: string

record toolCallRecord =
  rec_name :: string
  rec_arguments :: "json_object option"
  resultURLs :: "string list"
  resultSources :: "toolCallSource list"
  errorReason :: string
  rec_pii :: "piiCheckResult option"
  piiBilling :: serviceBilling

definition args_of :: "json_object option \<Rightarrow> json_object" where
  "args_of a = (case a of None \<Rightarrow> [] | Some m \<Rightarrow> m)"

definition isWebSearchTool :: "string \<Rightarrow> bool" where
  "isWebSearchTool name \<longleftrightarrow> isRouterSearchToolName name \<or> isRouterFetchToolName name"

definition webSearchCalls :: "toolCallRecord list \<Rightarrow> int" where
  "webSearchCalls records = int (length (filter (\<lambda>r. isWebSearchTool (rec_name r)) records))"

definition piiFilterCalls :: "toolCallRecord list \<Rightarrow> int" where
  "piiFilterCalls records = sum_list (map (\<lambda>r. bill_calls (piiBilling r)) records)"

definition piiFilterRequestsField :: string where "piiFilterRequestsField = ''pii_filter_requests''"

definition no_billing :: serviceBilling where "no_billing = \<lparr>bill_calls = 0, bill_unknown = False\<rparr>"

definition piiBillingFromStructured :: "string \<Rightarrow> json \<Rightarrow> bool \<Rightarrow> serviceBilling" where
  "piiBillingFromStructured name structured failed =
     (if \<not> isRouterSearchToolName name then no_billing
      else
        let content = obj_or_empty structured in
        (case map_of content piiFilterRequestsField of
           Some v \<Rightarrow>
             if v = JInt 0 \<or> v = JFloat 0 then no_billing
             else if v = JInt 1 \<or> v = JFloat 1 then \<lparr>bill_calls = 1, bill_unknown = False\<rparr>
             else \<lparr>bill_calls = 0, bill_unknown = True\<rparr>
         | None \<Rightarrow> \<lparr>bill_calls = 0, bill_unknown = (field content ''pii_checked'' = JBool True \<or> failed)\<rparr>))"

definition redaction_of :: "go_lib \<Rightarrow> json \<Rightarrow> piiRedaction list" where
  "redaction_of lib raw =
     (let span = obj_or_empty raw in
      case (intValue lib (field span ''start''), intValue lib (field span ''end'')) of
        (Some s, Some e) \<Rightarrow> [\<lparr>red_kind = string_field span ''type'', red_start = s, red_end = e\<rparr>]
      | _ \<Rightarrow> [])"

definition piiCheckResultFromStructured :: "go_lib \<Rightarrow> string \<Rightarrow> json \<Rightarrow> piiCheckResult option" where
  "piiCheckResultFromStructured lib name structured =
     (let content = obj_or_empty structured in
      if \<not> isRouterSearchToolName name then None
      else if field content ''pii_checked'' \<noteq> JBool True then None
      else Some \<lparr>masked = (field content ''pii_masked'' = JBool True),
                 redactedQuery = string_field content ''redacted_query'',
                 redactions = concat (map (redaction_of lib) (list_or_empty (field content ''pii_redactions'')))\<rparr>)"

definition encode_redaction :: "piiRedaction \<Rightarrow> json" where
  "encode_redaction sp =
     JObject [(''type'', JString (red_kind sp)), (''start'', JInt (red_start sp)), (''end'', JInt (red_end sp))]"

definition encodePIICheckResult :: "piiCheckResult option \<Rightarrow> json option" where
  "encodePIICheckResult pii =
     map_option (\<lambda>p. JObject [(''masked'', JBool (masked p)), (''redacted_query'', JString (redactedQuery p)),
                              (''redactions'', JArray (map encode_redaction (redactions p)))]) pii"

definition publicToolErrorReasonString :: string where "publicToolErrorReasonString = ''tool_error''"

definition publicToolErrorReason :: "string option \<Rightarrow> string" where
  "publicToolErrorReason err = (case err of None \<Rightarrow> [] | Some _ \<Rightarrow> publicToolErrorReasonString)"

section \<open>Sources of a call\<close>

definition toolOutputSourcesToToolCallSources :: "ToolOutputSource list \<Rightarrow> toolCallSource list" where
  "toolOutputSourcesToToolCallSources sources =
     map (\<lambda>s. \<lparr>src_url = tos_URL s, src_title = tos_Title s, snippet = [], publishedDate = [], author = []\<rparr>) sources"

fun search_source_loop :: "json list \<Rightarrow> string list \<Rightarrow> toolCallSource list" where
  "search_source_loop [] seen = []"
| "search_source_loop (rawResult # rs) seen =
     (let result = obj_or_empty rawResult; url = TrimSpace (string_field result ''url'') in
      if url = [] \<or> url \<in> set seen then search_source_loop rs seen
      else \<lparr>src_url = url, src_title = TrimSpace (string_field result ''title''),
            snippet = string_field result ''content'',
            publishedDate = TrimSpace (string_field result ''published_date''),
            author = TrimSpace (string_field result ''author'')\<rparr> # search_source_loop rs (url # seen))"

definition structuredSearchToolCallSources :: "string \<Rightarrow> json \<Rightarrow> toolCallSource list" where
  "structuredSearchToolCallSources name structured =
     (if \<not> isRouterSearchToolName name then []
      else search_source_loop (list_or_empty (field (obj_or_empty structured) ''results'')) [])"

definition fetch_source :: "json \<Rightarrow> toolCallSource list" where
  "fetch_source raw =
     (let page = obj_or_empty raw; url = TrimSpace (string_field page ''url'') in
      if url = [] then []
      else [\<lparr>src_url = url, src_title = ''Fetched page'', snippet = string_field page ''content'',
             publishedDate = [], author = []\<rparr>])"

definition structuredFetchToolCallSources :: "string \<Rightarrow> json \<Rightarrow> toolCallSource list" where
  "structuredFetchToolCallSources name structured =
     (if \<not> isRouterFetchToolName name then []
      else concat (map fetch_source (list_or_empty (field (obj_or_empty structured) ''pages''))))"

definition sourcesForURL :: "toolCallSource list \<Rightarrow> string \<Rightarrow> toolCallSource list" where
  "sourcesForURL sources url = filter (\<lambda>s. src_url s = url) sources"

definition toolCallSourcesForResult :: "string \<Rightarrow> json \<Rightarrow> string \<Rightarrow> toolCallSource list" where
  "toolCallSourcesForResult name structured output =
     (let search = structuredSearchToolCallSources name structured;
          pages = structuredFetchToolCallSources name structured in
      if search \<noteq> [] then search
      else if pages \<noteq> [] then pages
      else toolOutputSourcesToToolCallSources (ExtractToolOutputSources output))"

definition toolCallSourceURLs :: "toolCallSource list \<Rightarrow> string list" where
  "toolCallSourceURLs sources = filter (\<lambda>u. u \<noteq> []) (map src_url sources)"

definition statusForRecord :: "toolCallRecord \<Rightarrow> string" where
  "statusForRecord r = (if errorReason r = [] then ''completed'' else ''failed'')"

definition fetchArgumentURLs :: "json_object option \<Rightarrow> string list" where
  "fetchArgumentURLs arguments =
     filter (\<lambda>u. u \<noteq> []) (map (\<lambda>item. TrimSpace (as_string item)) (list_or_empty (field (args_of arguments) ''urls'')))"

section \<open>Markers in chat text\<close>

definition tinfoilEventsHeader :: string where "tinfoilEventsHeader = ''X-Tinfoil-Events''"
definition tinfoilEventsWebSearch :: string where "tinfoilEventsWebSearch = ''web_search''"
definition tinfoilEventOpenTag :: string where "tinfoilEventOpenTag = ''<tinfoil-event>''"
definition tinfoilEventCloseTag :: string where "tinfoilEventCloseTag = ''</tinfoil-event>''"
definition tinfoilEventPayloadType :: string where "tinfoilEventPayloadType = ''tinfoil.web_search_call''"

record tinfoilEventFlags =
  webSearch :: bool

definition parseTinfoilEventFlags :: "header option \<Rightarrow> tinfoilEventFlags" where
  "parseTinfoilEventFlags h =
     (case h of
        None \<Rightarrow> \<lparr>webSearch = False\<rparr>
      | Some hd1 \<Rightarrow>
          let raw = header_get hd1 tinfoilEventsHeader in
          if raw = [] then \<lparr>webSearch = False\<rparr>
          else \<lparr>webSearch = list_ex (\<lambda>part. EqualFold (TrimSpace part) tinfoilEventsWebSearch) (split_on (CHR '','') raw)\<rparr>)"

definition tinfoilEventsEnabled :: "header option \<Rightarrow> bool" where
  "tinfoilEventsEnabled h = webSearch (parseTinfoilEventFlags h)"

definition optional_field :: "string \<Rightarrow> string \<Rightarrow> json_object" where
  "optional_field k v = (if v = [] then [] else [(k, JString v)])"

definition encodeMarkerSources :: "toolCallSource list \<Rightarrow> json list" where
  "encodeMarkerSources sources =
     map (\<lambda>s. JObject ([(''url'', JString (src_url s)), (''title'', JString (src_title s))] @ optional_field ''snippet'' (snippet s)))
       (filter (\<lambda>s. src_url s \<noteq> []) sources)"

definition marker_payload ::
  "string \<Rightarrow> string \<Rightarrow> json_object \<Rightarrow> string \<Rightarrow> toolCallSource list \<Rightarrow> piiCheckResult option \<Rightarrow> json_object" where
  "marker_payload id1 status action reason sources pii =
     [(''type'', JString tinfoilEventPayloadType), (''item_id'', JString id1), (''status'', JString status),
      (''action'', JObject action)]
     @ (if reason = [] then [] else [(''error'', JObject [(''code'', JString reason)])])
     @ (if encodeMarkerSources sources = [] then [] else [(''sources'', JArray (encodeMarkerSources sources))])
     @ (case encodePIICheckResult pii of None \<Rightarrow> [] | Some p \<Rightarrow> [(''pii'', p)])"

definition newline_char :: char where "newline_char = CHR 0x0A"

definition tinfoilEventMarker ::
  "(json \<Rightarrow> string option) \<Rightarrow> string \<Rightarrow> string \<Rightarrow> json_object \<Rightarrow> string \<Rightarrow> toolCallSource list \<Rightarrow> piiCheckResult option \<Rightarrow> string"
where
  "tinfoilEventMarker marshal id1 status action reason sources pii =
     (let data = (case marshal (JObject (marker_payload id1 status action reason sources pii)) of
                    Some d \<Rightarrow> d
                  | None \<Rightarrow> ''{'' @ [CHR 0x22] @ ''type'' @ [CHR 0x22] @ '':'' @ [CHR 0x22] @ tinfoilEventPayloadType @ [CHR 0x22] @ ''}'')
      in [newline_char] @ tinfoilEventOpenTag @ data @ tinfoilEventCloseTag @ [newline_char])"

text \<open>The items a recorded call is shown as: its action, sources and privacy report.\<close>

type_synonym shown_action = "json_object \<times> toolCallSource list \<times> piiCheckResult option"

definition marker_actions :: "toolCallRecord \<Rightarrow> shown_action list" where
  "marker_actions r =
     (if isRouterSearchToolName (rec_name r)
      then [((''type'', JString ''search'') # optional_field ''query'' (string_field (args_of (rec_arguments r)) ''query''),
             resultSources r, rec_pii r)]
      else if isRouterFetchToolName (rec_name r)
      then map (\<lambda>url. ([(''type'', JString ''open_page''), (''url'', JString url)], sourcesForURL (resultSources r) url, None))
             (fetchArgumentURLs (rec_arguments r))
      else [])"

definition write_pair ::
  "(json \<Rightarrow> string option) \<Rightarrow> string \<Rightarrow> toolCallRecord \<Rightarrow> shown_action \<Rightarrow> string" where
  "write_pair marshal id1 r a =
     (case a of (action, sources, pii) \<Rightarrow>
        tinfoilEventMarker marshal id1 ''in_progress'' action [] [] None @
        tinfoilEventMarker marshal id1 (statusForRecord r) action (errorReason r) sources pii)"

fun number_from :: "nat \<Rightarrow> 'a list \<Rightarrow> (nat \<times> 'a) list" where
  "number_from n [] = []"
| "number_from n (x # xs) = (n, x) # number_from (n + 1) xs"

definition tinfoilEventMarkersForRecords ::
  "(json \<Rightarrow> string option) \<Rightarrow> (nat \<Rightarrow> string) \<Rightarrow> toolCallRecord list \<Rightarrow> string" where
  "tinfoilEventMarkersForRecords marshal uuid records =
     concat (map (\<lambda>(i, r, a). write_pair marshal (''ws_'' @ uuid i) r a)
       (number_from 0 (concat (map (\<lambda>r. map (Pair r) (marker_actions r)) records))))"

section \<open>Output items of the Responses API\<close>

definition action_source :: "toolCallSource \<Rightarrow> json" where
  "action_source s =
     JObject ([(''type'', JString ''url''), (''url'', JString (src_url s))] @ optional_field ''snippet'' (snippet s) @
              optional_field ''title'' (src_title s) @ optional_field ''published_date'' (publishedDate s) @
              optional_field ''author'' (author s))"

definition toActionSources :: "toolCallSource list \<Rightarrow> json list" where
  "toActionSources results = map action_source (filter (\<lambda>s. src_url s \<noteq> []) results)"

definition tinfoilSidecar :: "string \<Rightarrow> piiCheckResult option \<Rightarrow> json_object option" where
  "tinfoilSidecar errorCode pii =
     (if errorCode = [] \<and> pii = None then None
      else Some ((if errorCode = [] then [] else [(''error'', JObject [(''code'', JString errorCode)])]) @
                 (case encodePIICheckResult pii of None \<Rightarrow> [] | Some p \<Rightarrow> [(''pii'', p)])))"

definition webSearchCallEvent ::
  "string \<Rightarrow> string \<Rightarrow> string \<Rightarrow> json_object \<Rightarrow> piiCheckResult option \<Rightarrow> json_object" where
  "webSearchCallEvent id1 status errorCode action pii =
     [(''type'', JString ''web_search_call''), (''id'', JString id1), (''status'', JString status), (''action'', JObject action)]
     @ (case tinfoilSidecar errorCode pii of None \<Rightarrow> [] | Some s \<Rightarrow> [(''_tinfoil'', JObject s)])"

definition url_only :: "string \<Rightarrow> toolCallSource" where
  "url_only url = \<lparr>src_url = url, src_title = [], snippet = [], publishedDate = [], author = []\<rparr>"

definition search_sources :: "toolCallRecord \<Rightarrow> bool \<Rightarrow> json list" where
  "search_sources r includeSources =
     (if \<not> includeSources then []
      else toActionSources (if resultSources r = [] then map url_only (resultURLs r) else resultSources r))"

definition item_actions :: "bool \<Rightarrow> toolCallRecord \<Rightarrow> (json_object \<times> piiCheckResult option) list" where
  "item_actions includeSources r =
     (if isRouterSearchToolName (rec_name r)
      then [((''type'', JString ''search'') # optional_field ''query'' (string_field (args_of (rec_arguments r)) ''query'') @
             (if search_sources r includeSources = [] then [] else [(''sources'', JArray (search_sources r includeSources))]),
             rec_pii r)]
      else if isRouterFetchToolName (rec_name r)
      then map (\<lambda>url. ([(''type'', JString ''open_page''), (''url'', JString url)], None)) (fetchArgumentURLs (rec_arguments r))
      else [])"

definition buildWebSearchCallOutputItems :: "(nat \<Rightarrow> string) \<Rightarrow> toolCallRecord list \<Rightarrow> bool \<Rightarrow> json list" where
  "buildWebSearchCallOutputItems uuid records includeSources =
     map (\<lambda>(i, r, action, pii). JObject (webSearchCallEvent (''ws_'' @ uuid i) (statusForRecord r) (errorReason r) action pii))
       (number_from 0 (concat (map (\<lambda>r. map (Pair r) (item_actions includeSources r)) records)))"

definition routerSynthesizedResponseItemTypes :: "string list" where
  "routerSynthesizedResponseItemTypes = [''web_search_call'']"

definition synthesized :: "json \<Rightarrow> bool" where
  "synthesized raw =
     (case raw of JObject item \<Rightarrow> string_field item ''type'' \<in> set routerSynthesizedResponseItemTypes | _ \<Rightarrow> False)"

definition stripClientSyntheticResponseItems :: "json \<Rightarrow> json" where
  "stripClientSyntheticResponseItems inp =
     (case inp of JArray items \<Rightarrow> JArray (filter (\<lambda>raw. \<not> synthesized raw) items) | _ \<Rightarrow> inp)"

section \<open>Finalising a response\<close>

definition finish_text :: "State option \<Rightarrow> string \<Rightarrow> string" where
  "finish_text st content = NormalizeLinks (ResolveHarmonyCitations st content)"

definition attach_message :: "url_lib \<Rightarrow> State option \<Rightarrow> string \<Rightarrow> json_object \<Rightarrow> json_object" where
  "attach_message ulib st marker message =
     (let content = finish_text st (string_field message ''content'');
          annotations = NestedAnnotationsFor ulib st content;
          shifted = (if marker = [] then annotations
                     else ShiftNestedAnnotationIndices annotations (int (length (runes_of marker))));
          message1 = AList.update ''content'' (JString (marker @ content)) message
      in if shifted = [] then message1 else AList.update ''annotations'' (JArray shifted) message1)"

definition attach_choice :: "url_lib \<Rightarrow> State option \<Rightarrow> string \<Rightarrow> json \<Rightarrow> json" where
  "attach_choice ulib st marker rawChoice =
     (case rawChoice of
        JObject choice \<Rightarrow>
          (case field choice ''message'' of
             JObject message \<Rightarrow> JObject (AList.update ''message'' (JObject (attach_message ulib st marker message)) choice)
           | _ \<Rightarrow> rawChoice)
      | _ \<Rightarrow> rawChoice)"

text \<open>
  The identifiers of markers are drawn anew for every choice; choice number \<open>c\<close> uses the sequence
  \<open>uuid c\<close>. Without a choice list the body is unchanged.
\<close>

definition attachChatOutput ::
  "url_lib \<Rightarrow> (json \<Rightarrow> string option) \<Rightarrow> (nat \<Rightarrow> nat \<Rightarrow> string) \<Rightarrow> State option \<Rightarrow> toolCallRecord list \<Rightarrow>
   tinfoilEventFlags \<Rightarrow> json_object \<Rightarrow> json_object"
where
  "attachChatOutput ulib marshal uuid st records eventFlags body =
     (if st = None then body
      else case field body ''choices'' of
             JArray choices \<Rightarrow>
               AList.update ''choices''
                 (JArray (map (\<lambda>(c, choice).
                    attach_choice ulib st
                      (if webSearch eventFlags then tinfoilEventMarkersForRecords marshal (uuid c) records else []) choice)
                    (number_from 0 choices))) body
           | _ \<Rightarrow> body)"

definition attach_text :: "url_lib \<Rightarrow> State option \<Rightarrow> json \<Rightarrow> json" where
  "attach_text ulib st rawContent =
     (case rawContent of
        JObject m \<Rightarrow>
          if string_field m ''type'' \<noteq> ''output_text'' then rawContent
          else
            let t = finish_text st (string_field m ''text'');
                annotations = FlatAnnotationsFor ulib st t;
                m1 = AList.update ''text'' (JString t) m
            in JObject (if annotations = [] then m1 else AList.update ''annotations'' (JArray annotations) m1)
      | _ \<Rightarrow> rawContent)"

definition attach_item :: "url_lib \<Rightarrow> State option \<Rightarrow> json \<Rightarrow> json" where
  "attach_item ulib st rawItem =
     (case rawItem of
        JObject item \<Rightarrow>
          if string_field item ''type'' \<noteq> ''message'' then rawItem
          else (case field item ''content'' of
                  JArray contents \<Rightarrow> JObject (AList.update ''content'' (JArray (map (attach_text ulib st) contents)) item)
                | _ \<Rightarrow> rawItem)
      | _ \<Rightarrow> rawItem)"

definition attachResponsesOutput ::
  "url_lib \<Rightarrow> (nat \<Rightarrow> string) \<Rightarrow> State option \<Rightarrow> toolCallRecord list \<Rightarrow> bool \<Rightarrow> json_object \<Rightarrow> json_object" where
  "attachResponsesOutput ulib uuid st records includeSources body =
     (if st = None then body
      else
        let items = map (attach_item ulib st) (list_or_empty (field body ''output''));
            body1 = (case field body ''output'' of JArray _ \<Rightarrow> AList.update ''output'' (JArray items) body | _ \<Rightarrow> body);
            events = buildWebSearchCallOutputItems uuid records includeSources
        in if records = [] \<or> events = [] then body1 else AList.update ''output'' (JArray (events @ items)) body1)"

section \<open>Markers end a line\<close>

definition line_end :: "string \<Rightarrow> bool" where
  "line_end t \<longleftrightarrow> t = [] \<or> (\<exists>u. t = u @ [newline_char])"

lemma line_end_append: "line_end a \<Longrightarrow> line_end b \<Longrightarrow> line_end (a @ b)"
  by (auto simp: line_end_def)

lemma line_end_concat: "list_all line_end ts \<Longrightarrow> line_end (concat ts)"
  by (induction ts) (simp_all add: line_end_append, simp add: line_end_def)

lemma line_end_marker: "line_end (tinfoilEventMarker marshal i s a r srcs p)"
  unfolding line_end_def tinfoilEventMarker_def Let_def by (rule disjI2) (metis append.assoc)

lemma line_end_markers: "line_end (tinfoilEventMarkersForRecords marshal uuid records)"
  unfolding tinfoilEventMarkersForRecords_def
  by (rule line_end_concat)
    (auto simp: list_all_iff write_pair_def case_prod_beta intro: line_end_append line_end_marker)

lemma runes_of_line_end:
  assumes "line_end marker"
  shows "runes_of (marker @ content) = runes_of marker @ runes_of content"
proof (cases "marker = []")
  case False
  with assms obtain u where u: "marker = u @ [newline_char]" by (auto simp: line_end_def)
  have ascii: "byte_val newline_char < 0x80" by (simp add: newline_char_def byte_val_def)
  show ?thesis using runes_of_split_ascii[OF ascii, of u content] runes_of_split_ascii[OF ascii, of u "[]"] by (simp add: u)
qed simp

section \<open>Annotations of a delivered message\<close>

lemma shift_nested:
  "ShiftNestedAnnotationIndices (map nested_annotation as) n =
   map (\<lambda>a. nested_annotation (a\<lparr>StartIndex := StartIndex a + n, EndIndex := EndIndex a + n\<rparr>)) as"
  by (cases "n = 0")
    (simp_all add: ShiftNestedAnnotationIndices_def nested_annotation_def field_def shift_indices_def shift_int_def CitationTitle_def)

text \<open>The annotations of a message, with the shift of the marker, are those of its matches.\<close>

lemma attach_message_annotations:
  assumes "field message ''annotations'' = JNull"
  shows "list_or_empty (field (attach_message ulib st marker message) ''annotations'') =
         map (\<lambda>a. nested_annotation (a\<lparr>StartIndex := StartIndex a + int (length (runes_of marker)),
                                        EndIndex := EndIndex a + int (length (runes_of marker))\<rparr>))
           (MatchesFor ulib st (finish_text st (string_field message ''content'')))"
  using assms
  by (auto simp: attach_message_def Let_def list_or_empty_def NestedAnnotationsFor_def shift_nested)

lemma attach_message_content:
  "string_field (attach_message ulib st marker message) ''content'' = marker @ finish_text st (string_field message ''content'')"
  by (simp add: attach_message_def Let_def string_field_def)

lemma match_nonnegative: "a \<in> set (MatchesFor lib (Some st) t) \<Longrightarrow> 0 \<le> StartIndex a \<and> 0 \<le> EndIndex a"
  using match_links_mem[OF _ index_ok_new, of a lib "by_URL lib st" t "find_links 0 t"]
  by (auto simp: MatchesFor_def split: if_splits)

text \<open>
  The citations of a delivered chat message point at its text: with the progress markers in
  front, every annotation still spans, in runes of the message the client receives, the label of a
  markdown link in it, and names the source that link resolves to.
\<close>

theorem delivered_annotations_mark_links:
  assumes "field message ''annotations'' = JNull"
    and "marker = (if enabled then tinfoilEventMarkersForRecords marshal uuid records else [])"
    and "ann \<in> set (list_or_empty (field (attach_message ulib (Some st) marker message) ''annotations''))"
  defines "content \<equiv> string_field (attach_message ulib (Some st) marker message) ''content''"
  shows "\<exists>a pre label u rest src.
           ann = nested_annotation a \<and> content = pre @ ''['' @ label @ '']('' @ u @ '')'' @ rest
           \<and> StartIndex a < EndIndex a
           \<and> take (nat (EndIndex a - StartIndex a)) (drop (nat (StartIndex a)) (runes_of content)) = runes_of label
           \<and> ResolveSource ulib (Some st) u = Some src \<and> ann_source a = src\<lparr>URL := u\<rparr>"
proof -
  let ?t = "finish_text (Some st) (string_field message ''content'')" and ?n = "int (length (runes_of marker))"
  from assms(3) obtain b where b: "b \<in> set (MatchesFor ulib (Some st) ?t)"
    and ann: "ann = nested_annotation (b\<lparr>StartIndex := StartIndex b + ?n, EndIndex := EndIndex b + ?n\<rparr>)"
    unfolding attach_message_annotations[OF assms(1)] by auto
  from annotation_spans_label[OF b] obtain pre label u rest src
    where t: "?t = pre @ ''['' @ label @ '']('' @ u @ '')'' @ rest"
      and slice: "take (nat (EndIndex b) - nat (StartIndex b)) (drop (nat (StartIndex b)) (runes_of ?t)) = runes_of label"
      and lt: "StartIndex b < EndIndex b" and src: "ResolveSource ulib (Some st) u = Some src" "ann_source b = src\<lparr>URL := u\<rparr>"
    by blast
  have content: "content = marker @ ?t" by (simp add: content_def attach_message_content)
  have "line_end marker" using assms(2) line_end_markers by (auto simp: line_end_def)
  then have runes: "runes_of content = runes_of marker @ runes_of ?t" by (simp add: content runes_of_line_end)
  have pos: "0 \<le> StartIndex b" using match_nonnegative[OF b] by simp
  have "nat (StartIndex b + ?n) = length (runes_of marker) + nat (StartIndex b)" using pos by simp
  moreover have "nat (EndIndex b - StartIndex b) = nat (EndIndex b) - nat (StartIndex b)" using pos lt by simp
  ultimately have "take (nat (EndIndex b - StartIndex b)) (drop (nat (StartIndex b + ?n)) (runes_of content)) = runes_of label"
    using slice by (simp add: runes)
  with ann content t lt src show ?thesis
    by (intro exI[of _ "b\<lparr>StartIndex := StartIndex b + ?n, EndIndex := EndIndex b + ?n\<rparr>"] exI[of _ "marker @ pre"]
        exI[of _ label] exI[of _ u] exI[of _ rest] exI[of _ src]) simp
qed

definition cited_message :: json_object where
  "cited_message = [(''content'', JString ''see [it](http://x)'')]"

lemma finish_cited: "finish_text (Some one_source) ''see [it](http://x)'' = ''see [it](http://x)''"
proof -
  have "\<not> contains fullwidth_open ''see [it](http://x)''" by code_simp
  then show ?thesis by (simp add: finish_text_def ResolveHarmonyCitations_def NormalizeLinks_def)
qed

theorem delivered_annotations_mark_links_witness:
  "\<exists>a pre label u rest src.
     list_or_empty (field (attach_message plain_urls (Some one_source) [] cited_message) ''annotations'') = [nested_annotation a]
     \<and> ''see [it](http://x)'' = pre @ ''['' @ label @ '']('' @ u @ '')'' @ rest
     \<and> ResolveSource plain_urls (Some one_source) u = Some src"
proof -
  let ?a = "\<lparr>StartIndex = 5, EndIndex = 7, ann_source = \<lparr>Index = 1, URL = ''http://x'', Title = ''X''\<rparr>\<rparr>"
  have none: "field cited_message ''annotations'' = JNull" by (simp add: cited_message_def field_def)
  have tx: "string_field cited_message ''content'' = ''see [it](http://x)''" by (simp add: cited_message_def string_field_def field_def)
  have anns: "list_or_empty (field (attach_message plain_urls (Some one_source) [] cited_message) ''annotations'') = [nested_annotation ?a]"
    by (simp add: attach_message_annotations[OF none] tx finish_cited MatchesFor_x)
  have content: "string_field (attach_message plain_urls (Some one_source) [] cited_message) ''content'' = ''see [it](http://x)''"
    by (simp add: attach_message_content tx finish_cited)
  show ?thesis
    using delivered_annotations_mark_links[OF none, of "[]" False "\<lambda>_. None" "\<lambda>_. []" "[]" "nested_annotation ?a" plain_urls one_source]
    unfolding content anns by auto
qed

section \<open>Items the client echoes back\<close>

lemma built_items_synthesized: "i \<in> set (buildWebSearchCallOutputItems uuid records inc) \<Longrightarrow> synthesized i"
  by (auto simp: buildWebSearchCallOutputItems_def synthesized_def webSearchCallEvent_def string_field_def field_def
      routerSynthesizedResponseItemTypes_def)

text \<open>
  What the router adds to a Responses output it takes away again when the client sends the output
  back as input: of an echoed response the upstream model sees its own items only.
\<close>

theorem echoed_items_removed:
  assumes "field body ''output'' = JArray items" and "list_all (\<lambda>i. \<not> synthesized i) items"
  shows "stripClientSyntheticResponseItems (field (attachResponsesOutput ulib uuid (Some st) records inc body) ''output'') =
         JArray (map (attach_item ulib (Some st)) items)"
proof -
  have "\<not> synthesized (attach_item ulib (Some st) i)" if "\<not> synthesized i" for i
    using that by (auto simp: attach_item_def synthesized_def string_field_def split: json.splits)
  then have keep: "filter (\<lambda>i. \<not> synthesized i) (map (attach_item ulib (Some st)) items) = map (attach_item ulib (Some st)) items"
    using assms(2) by (simp add: filter_id_conv list_all_iff)
  have "filter (\<lambda>i. \<not> synthesized i) (buildWebSearchCallOutputItems uuid records inc) = []"
    using built_items_synthesized by (simp add: filter_empty_conv)
  with keep assms(1) show ?thesis
    by (simp add: attachResponsesOutput_def Let_def list_or_empty_def stripClientSyntheticResponseItems_def)
qed

theorem echoed_items_removed_witness:
  "stripClientSyntheticResponseItems
     (field (attachResponsesOutput plain_urls (\<lambda>_. ''1'') (Some one_source)
        [\<lparr>rec_name = ''router_search'', rec_arguments = None, resultURLs = [], resultSources = [], errorReason = [],
          rec_pii = None, piiBilling = no_billing\<rparr>] True [(''output'', JArray [JNull])]) ''output'') =
   JArray [JNull]"
  by (subst echoed_items_removed[where items = "[JNull]"]) (simp_all add: field_def synthesized_def attach_item_def)

end
