(* ===== verification/Tool_Runtime.thy ===== *)
theory Tool_Runtime
  imports Tool_Events Tool_Prompt Proxy_Response
begin

text \<open>
  The parts of \<open>toolruntime/runtime.go\<close> around the tool loop: usage accounting over the turns of a request,
  billing, usage metrics, the requests to the model and what is written back, and the headers of tool
  sessions.

  Decoding of a usage object is the parameter \<open>decode\<close>; \<open>pricing\<close> is \<open>EnclaveManager.ModelPricing\<close>. A nil
  body map is \<open>None\<close> and reads as an empty one. Token counts are 64-bit and wrap.
\<close>

section \<open>Responses and errors\<close>

record upstreamJSONResponse =
  rs_body :: "json_object option"
  rs_header :: header
  rs_status :: int

datatype runtime_error =
    UpstreamError (ue_status: int) (ue_header: header) (ue_body: string)
  | OtherError string
  | StreamAbortedError runtime_error

definition on_body :: "(json_object \<Rightarrow> json_object) \<Rightarrow> upstreamJSONResponse \<Rightarrow> upstreamJSONResponse" where
  "on_body f r = r\<lparr>rs_body := map_option f (rs_body r)\<rparr>"

record http_answer =
  ha_status :: int
  ha_header :: header
  ha_body :: "string option"

text \<open>
  \<open>sent\<close> is what \<open>DoModelRequestJSON\<close> returns: an error, or a response whose body may fail to be read.
  \<open>decode_map\<close> decodes a body; \<open>Some None\<close> is a JSON null.
\<close>

definition postJSON :: "unmarshal \<Rightarrow> (string + http_answer) \<Rightarrow> runtime_error + upstreamJSONResponse" where
  "postJSON decode_map sent =
     (case sent of
        Inl err \<Rightarrow> Inl (OtherError err)
      | Inr resp \<Rightarrow>
          (case ha_body resp of
             None \<Rightarrow> Inl (OtherError ''read'')
           | Some respBody \<Rightarrow>
               if ha_status resp < 200 \<or> 300 \<le> ha_status resp
               then Inl (UpstreamError (ha_status resp) (ha_header resp) respBody)
               else case decode_map respBody of
                      None \<Rightarrow> Inl (OtherError ''decode'')
                    | Some parsed \<Rightarrow>
                        Inr \<lparr>rs_body = parsed, rs_header = ha_header resp, rs_status = ha_status resp\<rparr>))"

section \<open>Usage\<close>

definition usageFromRaw :: "(json \<Rightarrow> Usage option) \<Rightarrow> json \<Rightarrow> Usage option" where
  "usageFromRaw decode raw =
     (if raw = JNull then None
      else case decode raw of
             None \<Rightarrow> None
           | Some u0 \<Rightarrow>
               let u1 = Normalize u0;
                   u = (if TotalTokens u1 = 0 then u1\<lparr>TotalTokens := wrap64 (PromptTokens u1 + CompletionTokens u1)\<rparr> else u1)
               in if PromptTokens u = 0 \<and> CompletionTokens u = 0 \<and> TotalTokens u = 0 then None else Some u)"

record usageAccumulator =
  promptTokens :: int
  cachedPromptTokens :: int
  completionTokens :: int
  totalTokens :: int

definition no_usage :: usageAccumulator where
  "no_usage = \<lparr>promptTokens = 0, cachedPromptTokens = 0, completionTokens = 0, totalTokens = 0\<rparr>"

definition acc_Add :: "(json \<Rightarrow> Usage option) \<Rightarrow> upstreamJSONResponse \<Rightarrow> usageAccumulator \<Rightarrow> usageAccumulator" where
  "acc_Add decode response a =
     (case usageFromRaw decode (field (args_of (rs_body response)) ''usage'') of
        None \<Rightarrow> a
      | Some u \<Rightarrow>
          let cached = (case CachedPromptTokens (Some u) of (n, ok) \<Rightarrow> if ok then n else 0);
              turn = (if 0 < TotalTokens u then TotalTokens u else PromptTokens u + CompletionTokens u)
          in \<lparr>promptTokens = wrap64 (promptTokens a + PromptTokens u),
              cachedPromptTokens = wrap64 (cachedPromptTokens a + cached),
              completionTokens = wrap64 (completionTokens a + CompletionTokens u),
              totalTokens = wrap64 (totalTokens a + turn)\<rparr>)"

definition acc_Usage :: "usageAccumulator \<Rightarrow> Usage option" where
  "acc_Usage a =
     (if promptTokens a = 0 \<and> completionTokens a = 0 \<and> totalTokens a = 0 then None
      else
        let total = (if totalTokens a = 0 then wrap64 (promptTokens a + completionTokens a) else totalTokens a);
            details = (if 0 < cachedPromptTokens a then Some (cachedPromptTokens a) else None)
        in Some \<lparr>PromptTokens = promptTokens a, CompletionTokens = completionTokens a, TotalTokens = total,
                 InputTokens = promptTokens a, OutputTokens = completionTokens a,
                 PromptTokensDetails = details, InputTokensDetails = details\<rparr>)"

definition usageMap :: "Usage \<Rightarrow> string \<Rightarrow> string \<Rightarrow> string \<Rightarrow> json_object" where
  "usageMap u inputTokensKey outputTokensKey detailsKey =
     [(inputTokensKey, JInt (PromptTokens u)), (outputTokensKey, JInt (CompletionTokens u)),
      (''total_tokens'', JInt (TotalTokens u))] @
     (case CachedPromptTokens (Some u) of
        (cached, ok) \<Rightarrow> if ok then [(detailsKey, JObject [(''cached_tokens'', JInt cached)])] else [])"

definition chatUsageMap :: "Usage \<Rightarrow> json_object" where
  "chatUsageMap u = usageMap u ''prompt_tokens'' ''completion_tokens'' ''prompt_tokens_details''"

definition responsesUsageMap :: "Usage \<Rightarrow> json_object" where
  "responsesUsageMap u = usageMap u ''input_tokens'' ''output_tokens'' ''input_tokens_details''"

definition piiFilterModel :: string where "piiFilterModel = ''pii-filter''"

definition webSearchUsage :: "(string \<Rightarrow> ModelPricing option) \<Rightarrow> toolCallRecord list \<Rightarrow> WebSearchUsage" where
  "webSearchUsage pricing records =
     \<lparr>ws_Calls = webSearchCalls records,
      ws_SessionPricing = pricing (ToolServerModel WebSearchProfile),
      ws_Services =
        (if 0 < piiFilterCalls records
         then [\<lparr>su_Calls = piiFilterCalls records, su_Pricing = pricing piiFilterModel\<rparr>] else []),
      ws_OtherCostUnknown = list_ex (\<lambda>r. bill_unknown (piiBilling r)) records\<rparr>"

text \<open>\<open>FormatUsage\<close> may panic, which is the outer \<open>None\<close>.\<close>

definition formatUsageMetrics ::
  "(string \<Rightarrow> ModelPricing option) \<Rightarrow> Usage option \<Rightarrow> string \<Rightarrow> WebSearchUsage option \<Rightarrow> string option" where
  "formatUsageMetrics pricing usage modelName ws =
     (case usage of
        Some u \<Rightarrow> FormatUsage u modelName (pricing modelName) ws
      | None \<Rightarrow>
          (case pricing modelName of
             None \<Rightarrow> Some []
           | Some p \<Rightarrow> if \<not> CostKnownWithoutUsage p then Some [] else FormatUsage zero_usage modelName (Some p) ws))"

definition applyUsageMetrics ::
  "(json \<Rightarrow> Usage option) \<Rightarrow> (string \<Rightarrow> ModelPricing option) \<Rightarrow> bool \<Rightarrow> string \<Rightarrow> WebSearchUsage option \<Rightarrow>
   upstreamJSONResponse \<Rightarrow> upstreamJSONResponse option" where
  "applyUsageMetrics decode pricing requested modelName ws response =
     (let r1 = response\<lparr>rs_header := AList.delete UsageMetricsResponseHeader (rs_header response)\<rparr> in
      if \<not> requested then Some r1
      else
        map_option (\<lambda>formatted.
            if formatted = [] then r1
            else r1\<lparr>rs_header := header_set UsageMetricsResponseHeader formatted (rs_header r1)\<rparr>)
          (formatUsageMetrics pricing (usageFromRaw decode (field (args_of (rs_body response)) ''usage'')) modelName ws))"

section \<open>Billing\<close>

record tool_request =
  tr_path :: string
  tr_header :: header
  tr_customerRequests :: "int option"

text \<open>The lookups of \<open>X-Request-Id\<close> and \<open>X-Request-ID\<close> are the same, since names are canonical.\<close>

definition responseRequestID :: "header option list \<Rightarrow> string" where
  "responseRequestID headers =
     (case find (\<lambda>t. t \<noteq> []) (map (\<lambda>h. case h of None \<Rightarrow> [] | Some x \<Rightarrow> header_get x ''X-Request-Id'') headers) of
        None \<Rightarrow> [] | Some t \<Rightarrow> t)"

definition emitBillingEvent ::
  "(json \<Rightarrow> Usage option) \<Rightarrow> time \<Rightarrow> tool_request \<Rightarrow> upstreamJSONResponse option \<Rightarrow> string \<Rightarrow> bool \<Rightarrow> Event list" where
  "emitBillingEvent decode now r response modelName streaming =
     (case response of
        None \<Rightarrow> []
      | Some resp \<Rightarrow>
          let apiKey = BearerToken (header_get (tr_header r) ''Authorization'');
              u = usageFromRaw decode (field (args_of (rs_body resp)) ''usage'')
          in if apiKey = [] then []
             else [\<lparr>ev_Timestamp = now, ev_UserID = ''authenticated_user'', ev_Model = modelName,
                    ev_PromptTokens = (case u of None \<Rightarrow> 0 | Some x \<Rightarrow> PromptTokens x),
                    ev_CachedPromptTokens = fst (CachedPromptTokens u),
                    ev_CompletionTokens = (case u of None \<Rightarrow> 0 | Some x \<Rightarrow> CompletionTokens x),
                    ev_TotalTokens = (case u of None \<Rightarrow> 0 | Some x \<Rightarrow> TotalTokens x),
                    ev_RequestID = responseRequestID [Some (rs_header resp), Some (tr_header r)],
                    ev_Enclave = header_get (rs_header resp) ''Tinfoil-Enclave'',
                    ev_RequestPath = tr_path r, ev_Streaming = streaming, ev_APIKey = apiKey,
                    ev_CustomerRequests = CustomerRequests (tr_customerRequests r)\<rparr>])"

section \<open>Headers\<close>

definition hop_by_hop :: "string list" where
  "hop_by_hop =
     [''Connection'', ''Keep-Alive'', ''Proxy-Authenticate'', ''Proxy-Authorization'', ''Te'', ''Trailer'',
      ''Transfer-Encoding'', ''Upgrade'']"

definition shouldSkipRequestHeader :: "string \<Rightarrow> bool" where
  "shouldSkipRequestHeader key =
     (let canonical = CanonicalMIMEHeaderKey key in
      canonical \<in> set [''Accept-Encoding'', ''Content-Length'', ''Content-Type'', ''Host''] \<or> canonical \<in> set hop_by_hop
      \<or> canonical = CanonicalMIMEHeaderKey UsageMetricsRequestHeader
      \<or> canonical = CanonicalMIMEHeaderKey ''X-Tinfoil-Client-Requested-Usage'')"

definition modelRequestHeaders :: "header \<Rightarrow> header" where
  "modelRequestHeaders source = filter (\<lambda>(key, _). \<not> shouldSkipRequestHeader key) source"

definition shouldSkipResponseHeader :: "string \<Rightarrow> bool" where
  "shouldSkipResponseHeader key \<longleftrightarrow> CanonicalMIMEHeaderKey key \<in> set hop_by_hop"

text \<open>The keys of both headers are canonical; a key with no values only deletes.\<close>

definition copyResponseHeaders :: "header \<Rightarrow> header \<Rightarrow> header" where
  "copyResponseHeaders dst src =
     fold (\<lambda>(key, vs) h. if shouldSkipResponseHeader key then h
                          else if vs = [] then AList.delete key h else AList.update key vs h) src dst"

definition writeJSONBytes :: "header \<Rightarrow> header \<Rightarrow> int \<Rightarrow> string \<Rightarrow> header \<times> int \<times> string" where
  "writeJSONBytes w h status data =
     (header_set ''Content-Length'' (show_nat (length data))
        (header_set ''Content-Type'' ''application/json'' (copyResponseHeaders w h)), status, data)"

text \<open>What is written (\<open>Inr\<close>) or handed to the caller (\<open>Inl\<close>).\<close>

definition writeJSONResponse ::
  "(json \<Rightarrow> string option) \<Rightarrow> header \<Rightarrow> upstreamJSONResponse \<Rightarrow> runtime_error + header \<times> int \<times> string" where
  "writeJSONResponse encode w response =
     (case encode (case rs_body response of None \<Rightarrow> JNull | Some m \<Rightarrow> JObject m) of
        None \<Rightarrow> Inl (OtherError ''encode'')
      | Some data \<Rightarrow> Inr (writeJSONBytes w (rs_header response) (rs_status response) data))"

definition writeUpstreamError ::
  "(string \<Rightarrow> json_object option) \<Rightarrow> (json_object \<Rightarrow> string) \<Rightarrow> header \<Rightarrow> runtime_error \<Rightarrow> runtime_error + header \<times> int \<times> string"
where
  "writeUpstreamError decode_map mustMarshal w err =
     (case err of
        UpstreamError status h body \<Rightarrow>
          let apiErr = fst (NormalizeUpstreamError decode_map status body) in
          Inr (writeJSONBytes w h (Status apiErr) (mustMarshal (error_body apiErr)))
      | _ \<Rightarrow> Inl err)"

section \<open>Tool sessions\<close>

definition HeaderRequestID :: string where "HeaderRequestID = ''X-Tinfoil-Tool-Request-Id''"
definition HeaderModel :: string where "HeaderModel = ''X-Tinfoil-Tool-Model''"
definition HeaderRoute :: string where "HeaderRoute = ''X-Tinfoil-Tool-Route''"
definition HeaderStreaming :: string where "HeaderStreaming = ''X-Tinfoil-Tool-Streaming''"
definition HeaderPIICheck :: string where "HeaderPIICheck = ''X-Tinfoil-Tool-Pii-Check''"
definition HeaderInjectionCheck :: string where "HeaderInjectionCheck = ''X-Tinfoil-Tool-Injection-Check''"

record usage_context =
  uc_ContextID :: string
  uc_RootRequestID :: string
  uc_ParentService :: string
  uc_Depth :: int
  uc_BillCustomerRequest :: bool

definition isStream :: "json_object \<Rightarrow> bool" where "isStream body \<longleftrightarrow> field body ''stream'' = JBool True"

definition format_bool :: "bool \<Rightarrow> string" where "format_bool b = (if b then ''true'' else ''false'')"

definition set_opt :: "string \<Rightarrow> bool option \<Rightarrow> header \<Rightarrow> header" where
  "set_opt name b h = (case b of None \<Rightarrow> h | Some v \<Rightarrow> header_set name (format_bool v) h)"

text \<open>\<open>requestID\<close> is the value of \<open>newToolSessionRequestID\<close>, a fresh identifier that reads nothing of the request.\<close>

definition toolSessionHeaders ::
  "string \<Rightarrow> tool_request \<Rightarrow> string \<Rightarrow> string \<Rightarrow> json_object \<Rightarrow> safetyOptIns \<Rightarrow> header \<times> usage_context" where
  "toolSessionHeaders serviceRouter r requestID modelName body safety =
     (let h0 = header_set HeaderStreaming (format_bool (isStream body))
                 (header_set HeaderRoute (tr_path r) (header_set HeaderModel modelName (header_set HeaderRequestID requestID [])));
          h1 = set_opt HeaderInjectionCheck (so_injection safety) (set_opt HeaderPIICheck (so_pii safety) h0);
          auth = header_get (tr_header r) ''Authorization''
      in (if auth = [] then h1 else header_set ''Authorization'' auth h1,
          \<lparr>uc_ContextID = requestID, uc_RootRequestID = requestID, uc_ParentService = serviceRouter,
           uc_Depth = 1, uc_BillCustomerRequest = True\<rparr>))"

section \<open>Accumulated usage is the sum of the turns\<close>

lemma wrap64_cong: "x mod 2 ^ 64 = y mod 2 ^ 64 \<Longrightarrow> wrap64 x = wrap64 y"
  unfolding wrap64_def by (metis mod_add_left_eq)

lemma wrap64_mod: "wrap64 x mod 2 ^ 64 = x mod 2 ^ 64"
  unfolding wrap64_def by (simp add: mod_diff_left_eq)

lemma wrap64_add_left [simp]: "wrap64 (wrap64 x + y) = wrap64 (x + y)"
  by (rule wrap64_cong) (metis mod_add_left_eq wrap64_mod)

lemma wrap64_0 [simp]: "wrap64 0 = 0"
  by (simp add: wrap64_def)

text \<open>What one turn adds: prompt, cached, completion and total tokens.\<close>

definition turn_usage :: "(json \<Rightarrow> Usage option) \<Rightarrow> upstreamJSONResponse \<Rightarrow> int \<times> int \<times> int \<times> int" where
  "turn_usage decode response =
     (case usageFromRaw decode (field (args_of (rs_body response)) ''usage'') of
        None \<Rightarrow> (0, 0, 0, 0)
      | Some u \<Rightarrow>
          (PromptTokens u, (case CachedPromptTokens (Some u) of (n, ok) \<Rightarrow> if ok then n else 0), CompletionTokens u,
           if 0 < TotalTokens u then TotalTokens u else PromptTokens u + CompletionTokens u))"

definition usage_sums :: "(int \<times> int \<times> int \<times> int) list \<Rightarrow> usageAccumulator" where
  "usage_sums ts =
     \<lparr>promptTokens = wrap64 (sum_list (map fst ts)), cachedPromptTokens = wrap64 (sum_list (map (fst \<circ> snd) ts)),
      completionTokens = wrap64 (sum_list (map (fst \<circ> snd \<circ> snd) ts)),
      totalTokens = wrap64 (sum_list (map (snd \<circ> snd \<circ> snd) ts))\<rparr>"

lemma usage_sums_Nil: "usage_sums [] = no_usage"
  by (simp add: usage_sums_def no_usage_def)

lemma acc_Add_sums: "acc_Add decode r (usage_sums ts) = usage_sums (ts @ [turn_usage decode r])"
  by (auto simp: acc_Add_def usage_sums_def turn_usage_def Let_def split: option.splits)

end
