(* ===== verification/Tool_Registry.thy ===== *)
theory Tool_Registry
  imports Tool_Arguments "HOL-Library.Multiset"
begin

text \<open>
  The MCP sessions of a request (\<open>toolruntime/session_registry.go\<close>). A session is an opaque value of
  type \<open>'s\<close>; dialling a profile and listing the tools of a session are parameters that may fail. The
  construction returns the sessions it opened and closed, in order, beside its result.
\<close>

record 's sessionEntry =
  entry_profile :: Profile
  entry_session :: 's
  entry_tools :: "mcp_tool list"

record 's sessionRegistry =
  entries :: "'s sessionEntry list"
  byTool :: "(string, 's) gomap"
  dispatchByTool :: "(string, string) gomap"
  owned :: "string list"
  reg_tools :: "mcp_tool list"

datatype 's event = Opened 's | Closed 's

datatype registry_error = NoProfiles | DialFailed string string | ListFailed string string | NameClash string

definition outwardRouterTool :: "string \<Rightarrow> mcp_tool \<Rightarrow> mcp_tool" where
  "outwardRouterTool profileName tool = tool\<lparr>tool_Name := outwardRouterToolName profileName (tool_Name tool)\<rparr>"

definition CloseAll :: "'s sessionRegistry \<Rightarrow> 's event list" where
  "CloseAll r = map (\<lambda>e. Closed (entry_session e)) (entries r)"

text \<open>The loop over the tools of one session: an advertised name twice is an error.\<close>

fun register_tools ::
  "string \<Rightarrow> string list \<Rightarrow> 's \<Rightarrow> mcp_tool list \<Rightarrow> 's sessionRegistry \<Rightarrow> registry_error + 's sessionRegistry \<times> mcp_tool list"
where
  "register_tools profileName disabledTools session [] r = Inr (r, [])"
| "register_tools profileName disabledTools session (tool # ts) r =
     (let outwardName = outwardRouterToolName profileName (tool_Name tool) in
      if outwardName \<in> set disabledTools then register_tools profileName disabledTools session ts r
      else if map_of (byTool r) outwardName \<noteq> None then Inl (NameClash outwardName)
      else case register_tools profileName disabledTools session ts
                  (r\<lparr>byTool := AList.update outwardName session (byTool r),
                     dispatchByTool := AList.update outwardName (tool_Name tool) (dispatchByTool r),
                     owned := owned r @ [outwardName]\<rparr>) of
             Inl err \<Rightarrow> Inl err
           | Inr (r', tools) \<Rightarrow> Inr (r', tool # tools))"

definition add_entry :: "Profile \<Rightarrow> 's \<Rightarrow> mcp_tool list \<Rightarrow> 's sessionRegistry \<Rightarrow> 's sessionRegistry" where
  "add_entry profile session tools r =
     r\<lparr>entries := entries r @ [\<lparr>entry_profile = profile, entry_session = session, entry_tools = tools\<rparr>],
       reg_tools := reg_tools r @ map (outwardRouterTool (pr_Name profile)) tools\<rparr>"

fun build_loop ::
  "(Profile \<Rightarrow> string + 's) \<Rightarrow> ('s \<Rightarrow> string + mcp_tool list) \<Rightarrow> string list \<Rightarrow> Profile list \<Rightarrow> 's sessionRegistry \<Rightarrow>
   (registry_error + 's sessionRegistry) \<times> 's event list"
where
  "build_loop dial listTools disabledTools [] r = (Inr r, [])"
| "build_loop dial listTools disabledTools (profile # ps) r =
     (case dial profile of
        Inl err \<Rightarrow> (Inl (DialFailed (pr_Name profile) err), CloseAll r)
      | Inr session \<Rightarrow>
          (case listTools session of
             Inl err \<Rightarrow> (Inl (ListFailed (pr_Name profile) err), Opened session # Closed session # CloseAll r)
           | Inr advertised \<Rightarrow>
               (case register_tools (pr_Name profile) disabledTools session advertised r of
                  Inl err \<Rightarrow> (Inl err, Opened session # Closed session # CloseAll r)
                | Inr (r', tools) \<Rightarrow>
                    (let (res, evs) = build_loop dial listTools disabledTools ps (add_entry profile session tools r')
                     in (res, Opened session # evs)))))"

definition empty_registry :: "'s sessionRegistry" where
  "empty_registry = \<lparr>entries = [], byTool = [], dispatchByTool = [], owned = [], reg_tools = []\<rparr>"

definition buildSessionRegistry ::
  "(Profile \<Rightarrow> string + 's) \<Rightarrow> ('s \<Rightarrow> string + mcp_tool list) \<Rightarrow> string list \<Rightarrow> Profile list \<Rightarrow>
   (registry_error + 's sessionRegistry) \<times> 's event list"
where
  "buildSessionRegistry dial listTools disabledTools ps =
     (if ps = [] then (Inl NoProfiles, []) else build_loop dial listTools disabledTools ps empty_registry)"

definition sessionFor :: "'s sessionRegistry option \<Rightarrow> string \<Rightarrow> 's option" where
  "sessionFor r toolName = (case r of None \<Rightarrow> None | Some reg \<Rightarrow> map_of (byTool reg) toolName)"

definition dispatchName :: "'s sessionRegistry option \<Rightarrow> string \<Rightarrow> string" where
  "dispatchName r toolName =
     (case r of
        None \<Rightarrow> dispatchRouterToolName toolName
      | Some reg \<Rightarrow>
          (case map_of (dispatchByTool reg) toolName of
             Some name \<Rightarrow> name
           | None \<Rightarrow> dispatchRouterToolName toolName))"

definition ownedTools :: "'s sessionRegistry option \<Rightarrow> string list" where
  "ownedTools r = (case r of None \<Rightarrow> [] | Some reg \<Rightarrow> owned reg)"

definition allTools :: "'s sessionRegistry option \<Rightarrow> mcp_tool list" where
  "allTools r = (case r of None \<Rightarrow> [] | Some reg \<Rightarrow> reg_tools reg)"

definition profileNames :: "'s sessionRegistry option \<Rightarrow> string list" where
  "profileNames r = (case r of None \<Rightarrow> [] | Some reg \<Rightarrow> map (\<lambda>e. pr_Name (entry_profile e)) (entries reg))"

section \<open>Sessions are not leaked\<close>

fun opened :: "'s event list \<Rightarrow> 's list" where
  "opened [] = []"
| "opened (Opened s # evs) = s # opened evs"
| "opened (Closed s # evs) = opened evs"

fun closed_sessions :: "'s event list \<Rightarrow> 's list" where
  "closed_sessions [] = []"
| "closed_sessions (Closed s # evs) = s # closed_sessions evs"
| "closed_sessions (Opened s # evs) = closed_sessions evs"

definition sessions :: "'s sessionRegistry \<Rightarrow> 's list" where
  "sessions r = map entry_session (entries r)"

lemma CloseAll_events [simp]: "opened (CloseAll r) = []" "closed_sessions (CloseAll r) = sessions r"
proof -
  have "opened (map (\<lambda>e. Closed (entry_session e)) es) = []"
    and "closed_sessions (map (\<lambda>e. Closed (entry_session e)) es) = map entry_session es" for es :: "'a sessionEntry list"
    by (induction es) auto
  then show "opened (CloseAll r) = []" "closed_sessions (CloseAll r) = sessions r"
    by (simp_all add: CloseAll_def sessions_def)
qed

lemma register_tools_entries: "register_tools p ds s ts r = Inr (r', tools) \<Longrightarrow> entries r' = entries r"
  by (induction ts arbitrary: r tools) (auto simp: Let_def split: if_splits sum.splits)

lemma build_loop_sessions:
  "case build_loop dial listTools ds ps r of
     (Inl err, evs) \<Rightarrow> mset (closed_sessions evs) = mset (sessions r @ opened evs)
   | (Inr r', evs) \<Rightarrow> closed_sessions evs = [] \<and> sessions r' = sessions r @ opened evs"
proof (induction ps arbitrary: r)
  case (Cons p ps)
  show ?case
  proof (cases "dial p")
    case (Inr s)
    show ?thesis
    proof (cases "\<exists>adv r1 tools. listTools s = Inr adv \<and> register_tools (pr_Name p) ds s adv r = Inr (r1, tools)")
      case True
      then obtain adv r1 tools where ok: "listTools s = Inr adv" "register_tools (pr_Name p) ds s adv r = Inr (r1, tools)"
        by blast
      then have "sessions (add_entry p s tools r1) = sessions r @ [s]"
        by (simp add: sessions_def add_entry_def register_tools_entries)
      with Inr ok Cons.IH[of "add_entry p s tools r1"] show ?thesis
        by (auto split: prod.splits sum.splits)
    next
      case False
      with Inr show ?thesis by (auto split: sum.splits)
    qed
  qed simp
qed simp

text \<open>
  Building the registry never leaks a session: when it fails, every session it opened has been
  closed exactly once, and when it succeeds none has been closed and the registry holds them all.
\<close>

theorem no_session_leaked:
  "case buildSessionRegistry dial listTools disabled ps of
     (Inl err, evs) \<Rightarrow> mset (closed_sessions evs) = mset (opened evs)
   | (Inr r, evs) \<Rightarrow> closed_sessions evs = [] \<and> sessions r = opened evs"
  using build_loop_sessions[where dial = dial and listTools = listTools and ds = disabled and ps = ps and r = empty_registry]
  by (auto simp: buildSessionRegistry_def sessions_def empty_registry_def split: prod.splits sum.splits)

section \<open>Routing of tools\<close>

text \<open>
  The invariant of a registry, after the tools in \<open>todo\<close> of a session have been registered for the entry
  that is about to be added.
\<close>

definition entry_names :: "'s sessionEntry \<Rightarrow> (string \<times> 's \<times> string) list" where
  "entry_names e =
     map (\<lambda>t. (outwardRouterToolName (pr_Name (entry_profile e)) (tool_Name t), entry_session e, tool_Name t)) (entry_tools e)"

definition routes :: "'s sessionRegistry \<Rightarrow> (string \<times> 's \<times> string) list" where
  "routes r = concat (map entry_names (entries r))"

definition tables_ok :: "string list \<Rightarrow> 's sessionRegistry \<Rightarrow> (string \<times> 's \<times> string) list \<Rightarrow> bool" where
  "tables_ok ds r rs \<longleftrightarrow>
     distinct (map fst rs) \<and> set (map fst rs) \<inter> set ds = {} \<and> owned r = map fst rs \<and>
     map_of (byTool r) = map_of (map (\<lambda>(n, s, t). (n, s)) rs) \<and>
     map_of (dispatchByTool r) = map_of (map (\<lambda>(n, s, t). (n, t)) rs)"

lemma map_of_snoc: "k \<notin> fst ` set xs \<Longrightarrow> map_of (xs @ [(k, v)]) = (map_of xs)(k \<mapsto> v)"
  by (induction xs) (auto simp: fun_upd_twist)

lemma tables_ok_add:
  assumes "tables_ok ds r rs" and "n \<notin> set ds" and "map_of (byTool r) n = None"
  shows "tables_ok ds (r\<lparr>byTool := AList.update n s (byTool r), dispatchByTool := AList.update n t (dispatchByTool r),
                          owned := owned r @ [n]\<rparr>) (rs @ [(n, s, t)])"
proof -
  have "n \<notin> fst ` set rs"
    using assms(1,3) by (force simp: tables_ok_def map_of_eq_None_iff image_iff)
  then have "map_of (map (\<lambda>(n, s, t). (n, s)) rs @ [(n, s)]) = (map_of (map (\<lambda>(n, s, t). (n, s)) rs))(n \<mapsto> s)"
    and "map_of (map (\<lambda>(n, s, t). (n, t)) rs @ [(n, t)]) = (map_of (map (\<lambda>(n, s, t). (n, t)) rs))(n \<mapsto> t)"
    by (intro map_of_snoc; force)+
  with \<open>n \<notin> fst ` set rs\<close> assms(1,2) show ?thesis
    by (auto simp: tables_ok_def update_conv')
qed

lemma register_tools_ok:
  assumes "tables_ok ds r rs" and "register_tools p ds s ts r = Inr (r', tools)"
  shows "tables_ok ds r' (rs @ map (\<lambda>t. (outwardRouterToolName p (tool_Name t), s, tool_Name t)) tools)
    \<and> tools = filter (\<lambda>t. outwardRouterToolName p (tool_Name t) \<notin> set ds) ts \<and> reg_tools r' = reg_tools r"
  using assms
proof (induction ts arbitrary: r rs tools)
  case (Cons t ts)
  let ?n = "outwardRouterToolName p (tool_Name t)"
  show ?case
  proof (cases "?n \<in> set ds")
    case False
    with Cons.prems obtain tools1 where new: "map_of (byTool r) ?n = None" and tools: "tools = t # tools1"
      and rest: "register_tools p ds s ts
        (r\<lparr>byTool := AList.update ?n s (byTool r), dispatchByTool := AList.update ?n (tool_Name t) (dispatchByTool r),
           owned := owned r @ [?n]\<rparr>) = Inr (r', tools1)"
      by (auto simp: Let_def split: if_splits sum.splits)
    from Cons.IH[OF tables_ok_add[OF Cons.prems(1) False new] rest] False show ?thesis unfolding tools by auto
  qed (use Cons in \<open>auto simp: Let_def\<close>)
qed simp

definition registry_ok ::
  "(Profile \<Rightarrow> string + 's) \<Rightarrow> ('s \<Rightarrow> string + mcp_tool list) \<Rightarrow> string list \<Rightarrow> 's sessionRegistry \<Rightarrow> bool" where
  "registry_ok dial listTools ds r \<longleftrightarrow>
     tables_ok ds r (routes r)
     \<and> map tool_Name (reg_tools r) = owned r
     \<and> (\<forall>e \<in> set (entries r).
          dial (entry_profile e) = Inr (entry_session e)
          \<and> (\<exists>advertised. listTools (entry_session e) = Inr advertised
               \<and> entry_tools e =
                   filter (\<lambda>t. outwardRouterToolName (pr_Name (entry_profile e)) (tool_Name t) \<notin> set ds) advertised))"

lemma routes_add_entry:
  "routes (add_entry p s tools r) =
   routes r @ map (\<lambda>t. (outwardRouterToolName (pr_Name p) (tool_Name t), s, tool_Name t)) tools"
  by (simp add: routes_def add_entry_def entry_names_def)

lemma routes_cong: "entries r' = entries r \<Longrightarrow> routes r' = routes r"
  by (simp add: routes_def)

lemma tables_ok_add_entry [simp]: "tables_ok ds (add_entry p s tools r) rs = tables_ok ds r rs"
  by (simp add: tables_ok_def add_entry_def)

lemma build_loop_ok:
  "registry_ok dial listTools ds r \<Longrightarrow> build_loop dial listTools ds ps r = (Inr r', evs) \<Longrightarrow>
   registry_ok dial listTools ds r' \<and> map entry_profile (entries r') = map entry_profile (entries r) @ ps"
proof (induction ps arbitrary: r evs)
  case (Cons p ps)
  from Cons.prems(2) obtain s adv r1 tools evs1 where dial: "dial p = Inr s" and list: "listTools s = Inr adv"
    and reg: "register_tools (pr_Name p) ds s adv r = Inr (r1, tools)"
    and rest: "build_loop dial listTools ds ps (add_entry p s tools r1) = (Inr r', evs1)"
    by (auto split: sum.splits prod.splits)
  note ents = register_tools_entries[OF reg]
  have ok: "tables_ok ds r (routes r)" using Cons.prems(1) by (simp add: registry_ok_def)
  note step = register_tools_ok[OF ok reg]
  have owned: "owned r = map fst (routes r)" and "map tool_Name (reg_tools r) = owned r"
    using Cons.prems(1) by (simp_all add: registry_ok_def tables_ok_def)
  moreover have "owned r1 = map fst (routes r @ map (\<lambda>t. (outwardRouterToolName (pr_Name p) (tool_Name t), s, tool_Name t)) tools)"
    using step unfolding tables_ok_def by blast
  ultimately have names: "map tool_Name (reg_tools (add_entry p s tools r1)) = owned (add_entry p s tools r1)"
    using step by (simp add: add_entry_def outwardRouterTool_def comp_def)
  have tables: "tables_ok ds (add_entry p s tools r1) (routes (add_entry p s tools r1))"
    using step by (auto simp: routes_add_entry routes_cong[OF ents])
  have "registry_ok dial listTools ds (add_entry p s tools r1)"
    using step Cons.prems(1) dial list unfolding registry_ok_def
    by (intro conjI tables names) (auto simp: add_entry_def ents)
  from Cons.IH[OF this rest] show ?case by (simp add: add_entry_def ents)
qed simp

lemma empty_registry_ok: "registry_ok dial listTools ds empty_registry"
  by (simp add: registry_ok_def tables_ok_def routes_def empty_registry_def)

lemma build_ok:
  assumes "buildSessionRegistry dial listTools ds ps = (Inr r, evs)"
  shows "registry_ok dial listTools ds r \<and> map entry_profile (entries r) = ps"
  using assms build_loop_ok[OF empty_registry_ok, where dial = dial and listTools = listTools and ds = ds and ps = ps]
  by (auto simp: buildSessionRegistry_def empty_registry_def split: if_splits)

lemma route_found:
  assumes "tables_ok ds r rs" and "(n, s, t) \<in> set rs"
  shows "sessionFor (Some r) n = Some s \<and> dispatchName (Some r) n = t"
proof -
  have "map_of (map (\<lambda>(n, s, t). (n, s)) rs) n = Some s" and "map_of (map (\<lambda>(n, s, t). (n, t)) rs) n = Some t"
    using assms by (force simp: tables_ok_def comp_def case_prod_beta intro!: map_of_is_SomeI)+
  with assms(1) show ?thesis by (simp add: tables_ok_def sessionFor_def dispatchName_def)
qed

text \<open>
  In a built registry every tool a session of the request advertises, unless the request disabled
  it, is routed back to that session under the name its server knows, and a disabled tool has no
  route and is not shown to the model.
\<close>

theorem tools_routed_to_advertiser:
  assumes "buildSessionRegistry dial listTools disabled ps = (Inr r, evs)"
    and "p \<in> set ps" and "dial p = Inr s" and "listTools s = Inr advertised" and "t \<in> set advertised"
  defines "n \<equiv> outwardRouterToolName (pr_Name p) (tool_Name t)"
  shows "if n \<in> set disabled
         then sessionFor (Some r) n = None \<and> n \<notin> set (ownedTools (Some r)) \<and> n \<notin> tool_Name ` set (allTools (Some r))
         else sessionFor (Some r) n = Some s \<and> dispatchName (Some r) n = tool_Name t
              \<and> n \<in> set (ownedTools (Some r)) \<and> n \<in> tool_Name ` set (allTools (Some r))"
proof -
  from build_ok[OF assms(1)] have ok: "registry_ok dial listTools disabled r" and ps: "map entry_profile (entries r) = ps"
    by simp_all
  then have tables: "tables_ok disabled r (routes r)" and names: "map tool_Name (reg_tools r) = owned r"
    by (simp_all add: registry_ok_def)
  have shown: "tool_Name ` set (allTools (Some r)) = set (owned r)"
    using arg_cong[OF names, of set] by (simp add: allTools_def)
  show ?thesis
  proof (cases "n \<in> set disabled")
    case True
    then have "n \<notin> set (owned r)" using tables by (auto simp: tables_ok_def)
    moreover have "map_of (byTool r) n = None"
      using \<open>n \<notin> set (owned r)\<close> tables by (auto simp: tables_ok_def map_of_eq_None_iff image_image case_prod_beta)
    ultimately show ?thesis using True by (simp add: shown sessionFor_def ownedTools_def)
  next
    case False
    from assms(2) ps obtain e where e: "e \<in> set (entries r)" "entry_profile e = p" by auto
    with ok assms(3-5) False have "(n, s, tool_Name t) \<in> set (entry_names e)"
      by (auto simp: registry_ok_def entry_names_def n_def)
    with e(1) have route: "(n, s, tool_Name t) \<in> set (routes r)" by (auto simp: routes_def)
    then have "n \<in> set (owned r)" using tables by (force simp: tables_ok_def)
    with route_found[OF tables route] False show ?thesis by (simp add: shown ownedTools_def)
  qed
qed

definition search_tool :: mcp_tool where
  "search_tool = \<lparr>tool_Name = ''search'', tool_Description = [], InputSchema = JNull\<rparr>"

theorem tools_routed_to_advertiser_witness:
  "\<exists>r. fst (buildSessionRegistry (\<lambda>_. Inr (7::nat)) (\<lambda>_. Inr [search_tool]) [] [WebSearchProfile]) = Inr r
     \<and> sessionFor (Some r) ''router_search'' = Some 7 \<and> dispatchName (Some r) ''router_search'' = ''search''"
proof -
  have tool: "tool_Name search_tool = ''search''" by (simp add: search_tool_def)
  have name: "outwardRouterToolName (pr_Name WebSearchProfile) (tool_Name search_tool) = ''router_search''"
    by (simp add: outwardRouterToolName_def descriptorForProfile_def profiles_def WebSearchProfile_def tool_name_defs search_tool_def)
  obtain r evs where r: "buildSessionRegistry (\<lambda>_. Inr (7::nat)) (\<lambda>_. Inr [search_tool]) [] [WebSearchProfile] = (Inr r, evs)"
    by (simp add: buildSessionRegistry_def empty_registry_def name Let_def)
  show ?thesis
    using tools_routed_to_advertiser[OF r, of WebSearchProfile 7 "[search_tool]" search_tool] r
    unfolding name by (simp add: tool)
qed

end
