(* ===== verification/Tool_Loop.thy ===== *)
theory Tool_Loop
  imports Tool_Runtime Tool_Registry
begin

text \<open>
  The tool loop (\<open>toolruntime/tool_loop.go\<close>): a request is posted to the model, its router-owned tool
  calls are executed and their outputs posted back, until the model answers, calls a tool of the
  client, fails, or the budget of ten turns is used up and a final answer is forced.

  The Go interface \<open>toolLoopAdapter\<close> is a record of functions with the adapter's own state \<open>'a\<close> passed
  through it; \<open>chatLoopAdapter\<close> and \<open>responsesLoopAdapter\<close> are its two values. The model and the tool
  servers are the parameter \<open>loop_env\<close>: functions on a world \<open>'w\<close> that return the new world, so that an
  answer may depend on everything that happened before. Library code is collected in \<open>loop_lib\<close>.

  Tool arguments that arrive as a JSON object instead of text are copied here, where the code shares
  the map with the replayed message. Tracing and debug output are left out.
\<close>

section \<open>Parameters\<close>

record mcp_result =
  cr_IsError :: bool
  cr_Content :: "string option list"
  cr_Structured :: json

record ('s, 'w) loop_env =
  env_send :: "'w \<Rightarrow> string \<Rightarrow> json_object \<Rightarrow> (string + http_answer) \<times> 'w"
  env_call :: "'w \<Rightarrow> 's \<Rightarrow> string \<Rightarrow> json_object option \<Rightarrow> (string + mcp_result) \<times> 'w"

record loop_lib =
  ll_go :: go_lib
  ll_coerce :: coerce_lib
  ll_url :: url_lib
  ll_valid :: "string \<Rightarrow> bool"
  ll_unmarshal :: unmarshal
  ll_encode :: "json \<Rightarrow> string option"
  ll_quote :: "string \<Rightarrow> string"
  ll_usage :: "json \<Rightarrow> Usage option"
  ll_schema :: "json \<Rightarrow> schema option"
  ll_fmt :: "rat \<Rightarrow> string"
  ll_uuid :: "nat \<Rightarrow> nat \<Rightarrow> string"
  ll_now :: string
  ll_pricing :: "string \<Rightarrow> ModelPricing option"

section \<open>Calling a tool\<close>

definition toolResultErrorMessage :: "mcp_result \<Rightarrow> string" where
  "toolResultErrorMessage result =
     join_with [newline_char] (filter (\<lambda>t. t \<noteq> []) (map TrimSpace (List.map_filter id (cr_Content result))))"

definition callTool ::
  "('s, 'w) loop_env \<Rightarrow> 'w \<Rightarrow> 's \<Rightarrow> string \<Rightarrow> json_object option \<Rightarrow> (string \<times> json \<times> string option) \<times> 'w" where
  "callTool env w session name arguments =
     (case env_call env w session name arguments of
        (Inl err, w') \<Rightarrow> (([], JNull, Some err), w')
      | (Inr result, w') \<Rightarrow>
          (if cr_IsError result then
             let message = toolResultErrorMessage result in
             ([], cr_Structured result, Some (if message = [] then ''tool call failed'' else message))
           else if cr_Structured result \<noteq> JNull then ([], cr_Structured result, None)
           else (join_with [newline_char] (List.map_filter id (cr_Content result)), JNull, None), w'))"

definition formatStructuredToolOutput :: "string \<Rightarrow> json \<Rightarrow> State option \<Rightarrow> string \<times> State option" where
  "formatStructuredToolOutput name raw st =
     (let content = obj_or_empty raw in
      if content = [] then ([], st)
      else if isRouterSearchToolName name then FormatSearchOutput (field content ''results'') st
      else if isRouterFetchToolName name then
        (case FormatFetchOutput (field content ''pages'') st of
           (formatted, st') \<Rightarrow>
             if formatted \<noteq> [] then (formatted, st') else (FormatFetchFailures (field content ''results''), st'))
      else ([], st))"

definition applyStructuredFormat ::
  "(json \<Rightarrow> string option) \<Rightarrow> string \<Rightarrow> string \<Rightarrow> json \<Rightarrow> State option \<Rightarrow> string \<times> State option" where
  "applyStructuredFormat encode name plain structured st =
     (if structured = JNull then (plain, st)
      else case formatStructuredToolOutput name structured st of
             (formatted, st') \<Rightarrow>
               (if formatted \<noteq> [] then formatted
                else case encode structured of None \<Rightarrow> plain | Some body \<Rightarrow> body, st'))"

text \<open>The arguments as they are sent: the request's options, the repair of leaked tokens, the schema.\<close>

definition prepare_arguments ::
  "loop_lib \<Rightarrow> webSearchOptions \<Rightarrow> (string, schema) gomap \<Rightarrow> toolCall \<Rightarrow> json_object option" where
  "prepare_arguments lib opts schemas call =
     map_option (\<lambda>m. coerceArgumentsToSchema (ll_coerce lib) (call_name call)
                       (sanitizeToolCallArguments (lib_lower (ll_go lib)) m) schemas)
       (applyWebSearchOptionsToToolCall (ll_go lib) (call_name call) (call_arguments call) opts)"

definition json_args :: "json_object option \<Rightarrow> json" where
  "json_args a = (case a of None \<Rightarrow> JNull | Some m \<Rightarrow> JObject m)"

definition humanized :: "loop_lib \<Rightarrow> string \<Rightarrow> string \<Rightarrow> json_object option \<Rightarrow> string" where
  "humanized lib name err args =
     humanizeToolArgError (ll_quote lib) (\<lambda>_. ll_encode lib (json_args args)) name (Some err) (args_of args)"

record tool_state =
  ts_cite :: State
  ts_log :: "toolCallRecord list"

definition executeRouterToolCall ::
  "loop_lib \<Rightarrow> ('s, 'w) loop_env \<Rightarrow> 's sessionRegistry \<Rightarrow> webSearchOptions \<Rightarrow> (string, schema) gomap \<Rightarrow> toolCall \<Rightarrow>
   tool_state \<Rightarrow> 'w \<Rightarrow> string \<times> tool_state \<times> 'w"
where
  "executeRouterToolCall lib env reg opts schemas call ts w =
     (let name = call_name call; args = prepare_arguments lib opts schemas call;
          base = \<lparr>rec_name = name, rec_arguments = args, resultURLs = [], resultSources = [], errorReason = [],
                  rec_pii = None, piiBilling = no_billing\<rparr>
      in case sessionFor (Some reg) name of
           None \<Rightarrow>
             (humanized lib name (''no MCP session registered for tool '' @ ll_quote lib name) args,
              ts\<lparr>ts_log := ts_log ts @ [base\<lparr>errorReason := publicToolErrorReasonString\<rparr>]\<rparr>, w)
         | Some session \<Rightarrow>
             (case callTool env w session (dispatchName (Some reg) name) args of
                ((plain, structured, err), w') \<Rightarrow>
                  (case applyStructuredFormat (ll_encode lib) name plain structured (Some (ts_cite ts)) of
                     (output, cite) \<Rightarrow>
                       let cite' = (case cite of None \<Rightarrow> ts_cite ts | Some c \<Rightarrow> c);
                           record0 = base\<lparr>piiBilling := piiBillingFromStructured name structured (err \<noteq> None)\<rparr>
                       in (case err of
                             Some e \<Rightarrow>
                               (humanized lib name e args,
                                \<lparr>ts_cite = cite', ts_log = ts_log ts @ [record0\<lparr>errorReason := publicToolErrorReason err\<rparr>]\<rparr>, w')
                           | None \<Rightarrow>
                               let sources = toolCallSourcesForResult name structured output in
                               (output,
                                \<lparr>ts_cite = cite',
                                 ts_log = ts_log ts @
                                   [record0\<lparr>resultSources := sources, resultURLs := toolCallSourceURLs sources,
                                            rec_pii := piiCheckResultFromStructured (ll_go lib) name structured\<rparr>]\<rparr>, w')))))"

section \<open>The interface of a surface\<close>

record toolOutput =
  out_callID :: string
  out_name :: string
  out_text :: string

record 'a toolLoopAdapter =
  upstreamPath :: string
  buildInitialRequest :: "json_object \<times> 'a"
  preIteration :: "json_object \<Rightarrow> json_object"
  onUpstreamResponse :: "json_object \<Rightarrow> toolCall list \<times> bool \<times> json"
  applyToolOutputs :: "'a \<Rightarrow> json_object \<Rightarrow> json \<Rightarrow> toolOutput list \<Rightarrow> json_object \<times> 'a"
  stripRouterToolCallsFromResponse :: "json_object \<Rightarrow> json_object"
  forcedFinalRequest :: "json_object \<Rightarrow> json_object"
  applyUsage :: "Usage option \<Rightarrow> json_object \<Rightarrow> json_object"
  attachCitations :: "State \<Rightarrow> toolCallRecord list \<Rightarrow> tinfoilEventFlags \<Rightarrow> json_object \<Rightarrow> json_object"
  loop_options :: webSearchOptions
  loop_schemas :: "(string, schema) gomap"

section \<open>The loop\<close>

definition maxToolIterations :: nat where "maxToolIterations = 10"

type_synonym loop_result = "upstreamJSONResponse option \<times> WebSearchUsage option \<times> runtime_error option"
type_synonym post = "json_object \<times> (runtime_error + upstreamJSONResponse)"

record ('a, 'w) loop_state =
  ls_req :: json_object
  ls_adapter :: 'a
  ls_usage :: usageAccumulator
  ls_tools :: tool_state
  ls_headers :: header
  ls_world :: 'w

definition completedUsageResponse ::
  "'a toolLoopAdapter \<Rightarrow> usageAccumulator \<Rightarrow> header \<Rightarrow> upstreamJSONResponse option" where
  "completedUsageResponse adapter acc headers =
     (case acc_Usage acc of
        None \<Rightarrow> None
      | Some u \<Rightarrow>
          Some (on_body (applyUsage adapter (Some u)) \<lparr>rs_body = Some [], rs_header = headers, rs_status = 0\<rparr>))"

definition finish ::
  "loop_lib \<Rightarrow> 'a toolLoopAdapter \<Rightarrow> tinfoilEventFlags \<Rightarrow> usageAccumulator \<Rightarrow> tool_state \<Rightarrow> upstreamJSONResponse \<Rightarrow> loop_result"
where
  "finish lib adapter flags acc ts response =
     (Some (on_body (attachCitations adapter (ts_cite ts) (ts_log ts) flags)
              (on_body (applyUsage adapter (acc_Usage acc)) response)),
      Some (webSearchUsage (ll_pricing lib) (ts_log ts)), None)"

text \<open>The calls of a turn are executed one after the other.\<close>

fun execute_calls ::
  "loop_lib \<Rightarrow> ('s, 'w) loop_env \<Rightarrow> 's sessionRegistry \<Rightarrow> webSearchOptions \<Rightarrow> (string, schema) gomap \<Rightarrow> toolCall list \<Rightarrow>
   tool_state \<Rightarrow> 'w \<Rightarrow> toolOutput list \<times> tool_state \<times> 'w"
where
  "execute_calls lib env reg opts schemas [] ts w = ([], ts, w)"
| "execute_calls lib env reg opts schemas (call # calls) ts w =
     (case executeRouterToolCall lib env reg opts schemas call ts w of
        (output, ts', w') \<Rightarrow>
          (case execute_calls lib env reg opts schemas calls ts' w' of
             (outs, ts'', w'') \<Rightarrow>
               (\<lparr>out_callID = call_id call, out_name = call_name call, out_text = output\<rparr> # outs, ts'', w'')))"

definition post :: "loop_lib \<Rightarrow> ('s, 'w) loop_env \<Rightarrow> 'w \<Rightarrow> string \<Rightarrow> json_object \<Rightarrow> (runtime_error + upstreamJSONResponse) \<times> 'w" where
  "post lib env w path req = (case env_send env w path req of (sent, w') \<Rightarrow> (postJSON (ll_unmarshal lib) sent, w'))"

text \<open>One turn: it ends the loop (\<open>Inl\<close>) or leaves the state of the next one.\<close>

definition turn ::
  "loop_lib \<Rightarrow> ('s, 'w) loop_env \<Rightarrow> 's sessionRegistry \<Rightarrow> 'a toolLoopAdapter \<Rightarrow> tinfoilEventFlags \<Rightarrow> ('a, 'w) loop_state \<Rightarrow>
   (loop_result + ('a, 'w) loop_state) \<times> post"
where
  "turn lib env reg adapter flags s =
     (let req = preIteration adapter (ls_req s) in
      case post lib env (ls_world s) (upstreamPath adapter) req of
        (Inl err, w) \<Rightarrow>
          (Inl (completedUsageResponse adapter (ls_usage s) (ls_headers s), None, Some err), (req, Inl err))
      | (Inr response, w) \<Rightarrow>
          let acc = acc_Add (ll_usage lib) response (ls_usage s) in
          (case onUpstreamResponse adapter (args_of (rs_body response)) of
             (routerCalls, hasClient, state) \<Rightarrow>
               if routerCalls = [] then (Inl (finish lib adapter flags acc (ls_tools s) response), (req, Inr response))
               else (case execute_calls lib env reg (loop_options adapter) (loop_schemas adapter) routerCalls (ls_tools s) w of
                       (outputs, ts, w') \<Rightarrow>
                         if hasClient
                         then (Inl (finish lib adapter flags acc ts (on_body (stripRouterToolCallsFromResponse adapter) response)),
                               (req, Inr response))
                         else (case applyToolOutputs adapter (ls_adapter s) req state outputs of
                                 (req', ad) \<Rightarrow>
                                   (Inr \<lparr>ls_req = req', ls_adapter = ad, ls_usage = acc, ls_tools = ts,
                                         ls_headers = rs_header response, ls_world = w'\<rparr>, (req, Inr response))))))"

definition final_turn ::
  "loop_lib \<Rightarrow> ('s, 'w) loop_env \<Rightarrow> 'a toolLoopAdapter \<Rightarrow> tinfoilEventFlags \<Rightarrow> ('a, 'w) loop_state \<Rightarrow> loop_result \<times> post" where
  "final_turn lib env adapter flags s =
     (let req = forcedFinalRequest adapter (ls_req s) in
      case post lib env (ls_world s) (upstreamPath adapter) req of
        (Inl err, w) \<Rightarrow> ((completedUsageResponse adapter (ls_usage s) (ls_headers s), None, Some err), (req, Inl err))
      | (Inr response, w) \<Rightarrow>
          (finish lib adapter flags (acc_Add (ll_usage lib) response (ls_usage s)) (ls_tools s) response, (req, Inr response)))"

fun iterations ::
  "loop_lib \<Rightarrow> ('s, 'w) loop_env \<Rightarrow> 's sessionRegistry \<Rightarrow> 'a toolLoopAdapter \<Rightarrow> tinfoilEventFlags \<Rightarrow> nat \<Rightarrow> ('a, 'w) loop_state \<Rightarrow>
   loop_result \<times> post list"
where
  "iterations lib env reg adapter flags 0 s =
     (case final_turn lib env adapter flags s of (res, p) \<Rightarrow> (res, [p]))"
| "iterations lib env reg adapter flags (Suc n) s =
     (case turn lib env reg adapter flags s of
        (Inl res, p) \<Rightarrow> (res, [p])
      | (Inr s', p) \<Rightarrow> (case iterations lib env reg adapter flags n s' of (res, ps) \<Rightarrow> (res, p # ps)))"

definition initial_state :: "'a toolLoopAdapter \<Rightarrow> bool \<Rightarrow> 'w \<Rightarrow> ('a, 'w) loop_state" where
  "initial_state adapter harmony w =
     \<lparr>ls_req = fst (buildInitialRequest adapter), ls_adapter = snd (buildInitialRequest adapter), ls_usage = no_usage,
      ls_tools = \<lparr>ts_cite = \<lparr>NextIndex = 1, Sources = [], Harmony = harmony\<rparr>, ts_log = []\<rparr>, ls_headers = [], ls_world = w\<rparr>"

text \<open>The result, and every request posted with its answer.\<close>

definition runToolLoop ::
  "loop_lib \<Rightarrow> ('s, 'w) loop_env \<Rightarrow> 's sessionRegistry \<Rightarrow> 'a toolLoopAdapter \<Rightarrow> tinfoilEventFlags \<Rightarrow> bool \<Rightarrow> 'w \<Rightarrow>
   loop_result \<times> post list"
where
  "runToolLoop lib env reg adapter flags harmony w =
     iterations lib env reg adapter flags maxToolIterations (initial_state adapter harmony w)"

section \<open>The chat surface\<close>

definition applyParallelToolCallsPolicy :: "json_object \<Rightarrow> json_object" where
  "applyParallelToolCallsPolicy reqBody = set_default (''parallel_tool_calls'', JBool True) reqBody"

definition delete_all :: "string list \<Rightarrow> json_object \<Rightarrow> json_object" where
  "delete_all ks m = fold AList.delete ks m"

definition buildChatUpstreamRequest ::
  "(rat \<Rightarrow> string) \<Rightarrow> string \<Rightarrow> json_object \<Rightarrow> mcp_tool list \<Rightarrow> prompt_result \<Rightarrow> json_object" where
  "buildChatUpstreamRequest fmt now body tools prompt =
     (let b = delete_all [''web_search_options'', ''filters'', ''stream_options'', ''pii_check_options'',
                          ''prompt_injection_check_options''] (cloneJSONMap fmt body);
          b1 = applyParallelToolCallsPolicy (stripRouterOwnedIncludes b);
          b2 = AList.update ''tools'' (JArray (existingTools (field b1 ''tools'') @ chatTools (map Some tools))) b1
      in AList.update ''messages'' (JArray (prependChatPrompt now prompt (field b2 ''messages''))) b2)"

definition chat_preIteration :: "(string \<Rightarrow> bool) \<Rightarrow> json_object \<Rightarrow> json_object" where
  "chat_preIteration valid reqBody =
     (case field reqBody ''messages'' of
        JArray msgs \<Rightarrow> AList.update ''messages'' (JArray (sanitizeAssistantToolCallsInMessages valid msgs)) reqBody
      | _ \<Rightarrow> reqBody)"

definition chat_onUpstreamResponse :: "loop_lib \<Rightarrow> string list \<Rightarrow> json_object \<Rightarrow> toolCall list \<times> bool \<times> json" where
  "chat_onUpstreamResponse lib own body =
     (case parseChatToolCalls (ll_valid lib) (ll_unmarshal lib) body of
        (message, calls) \<Rightarrow>
          (case splitToolCalls own calls of (routerCalls, clientCalls) \<Rightarrow> (routerCalls, clientCalls \<noteq> [], json_args message)))"

definition chat_call_name :: "json_object \<Rightarrow> string" where
  "chat_call_name call = string_field (obj_or_empty (field call ''function'')) ''name''"

definition client_call :: "string list \<Rightarrow> json \<Rightarrow> bool" where
  "client_call own raw = (case raw of JObject call \<Rightarrow> chat_call_name call \<notin> set own | _ \<Rightarrow> True)"

definition strip_message :: "string list \<Rightarrow> json_object \<Rightarrow> json_object" where
  "strip_message own message =
     (let filtered = filter (client_call own) (list_or_empty (field message ''tool_calls'')) in
      if filtered = [] then AList.delete ''tool_calls'' message else AList.update ''tool_calls'' (JArray filtered) message)"

definition chat_strip :: "string list \<Rightarrow> json_object \<Rightarrow> json_object" where
  "chat_strip own body =
     (case field body ''choices'' of
        JArray (JObject choice # rest) \<Rightarrow>
          (case field choice ''message'' of
             JObject message \<Rightarrow>
               if list_or_empty (field message ''tool_calls'') = [] then body
               else AList.update ''choices''
                      (JArray (JObject (AList.update ''finish_reason'' (JString ''tool_calls'')
                                 (AList.update ''message'' (JObject (strip_message own message)) choice)) # rest)) body
           | _ \<Rightarrow> body)
      | _ \<Rightarrow> body)"

definition chat_applyToolOutputs :: "json_object \<Rightarrow> json \<Rightarrow> toolOutput list \<Rightarrow> json_object" where
  "chat_applyToolOutputs reqBody state outputs =
     AList.update ''messages''
       (JArray (list_or_empty (field reqBody ''messages'') @ (case state of JObject _ \<Rightarrow> [state] | _ \<Rightarrow> []) @
                map (\<lambda>out. JObject [(''role'', JString ''tool''), (''tool_call_id'', JString (out_callID out)),
                                    (''content'', JString (out_text out))]) outputs)) reqBody"

definition chat_applyUsage :: "Usage option \<Rightarrow> json_object \<Rightarrow> json_object" where
  "chat_applyUsage u body = (case u of None \<Rightarrow> body | Some x \<Rightarrow> AList.update ''usage'' (JObject (chatUsageMap x)) body)"

definition newChatLoopAdapter ::
  "loop_lib \<Rightarrow> json_object \<Rightarrow> prompt_result \<Rightarrow> mcp_tool list \<Rightarrow> string list \<Rightarrow> RouterOptions option \<Rightarrow> unit toolLoopAdapter" where
  "newChatLoopAdapter lib body prompt tools own routerOpts =
     \<lparr>upstreamPath = ''/v1/chat/completions'',
      buildInitialRequest =
        (AList.update ''stream'' (JBool False) (buildChatUpstreamRequest (ll_fmt lib) (ll_now lib) body tools prompt), ()),
      preIteration = chat_preIteration (ll_valid lib),
      onUpstreamResponse = chat_onUpstreamResponse lib own,
      applyToolOutputs = (\<lambda>a reqBody state outputs. (chat_applyToolOutputs reqBody state outputs, a)),
      stripRouterToolCallsFromResponse = chat_strip own,
      forcedFinalRequest = forcedFinalChatRequest (ll_fmt lib),
      applyUsage = chat_applyUsage,
      attachCitations = (\<lambda>st log flags. attachChatOutput (ll_url lib) (ll_encode lib) (ll_uuid lib) (Some st) log flags),
      loop_options = parseChatWebSearchOptions (ll_go lib) routerOpts body,
      loop_schemas = schemaLookup (ll_schema lib) (map Some tools)\<rparr>"

section \<open>The Responses surface\<close>

definition buildResponsesUpstreamRequest ::
  "(rat \<Rightarrow> string) \<Rightarrow> string \<Rightarrow> json_object \<Rightarrow> mcp_tool list \<Rightarrow> prompt_result \<Rightarrow> json_object" where
  "buildResponsesUpstreamRequest fmt now body tools prompt =
     (let b = delete_all [''pii_check_options'', ''prompt_injection_check_options''] (cloneJSONMap fmt body);
          b1 = applyParallelToolCallsPolicy (stripRouterOwnedIncludes b);
          b2 = AList.update ''tools''
                 (JArray (replaceRouterOwnedResponsesTools (field b1 ''tools'') (responseTools (map Some tools)))) b1
      in AList.update ''input'' (stripClientSyntheticResponseItems (prependResponsesPrompt now prompt (field b2 ''input''))) b2)"

definition responses_onUpstreamResponse :: "loop_lib \<Rightarrow> string list \<Rightarrow> json_object \<Rightarrow> toolCall list \<times> bool \<times> json" where
  "responses_onUpstreamResponse lib own body =
     (case splitToolCalls own (parseResponsesToolCalls (ll_valid lib) (ll_unmarshal lib) body) of
        (routerCalls, clientCalls) \<Rightarrow>
          (routerCalls, clientCalls \<noteq> [], JArray (list_or_empty (field body ''output''))))"

definition router_item :: "string list \<Rightarrow> json \<Rightarrow> bool" where
  "router_item own raw =
     (case raw of JObject item \<Rightarrow> is_call_item raw \<and> string_field item ''name'' \<in> set own | _ \<Rightarrow> False)"

definition responses_strip :: "string list \<Rightarrow> json_object \<Rightarrow> json_object" where
  "responses_strip own body =
     (case list_or_empty (field body ''output'') of
        [] \<Rightarrow> body
      | items \<Rightarrow> AList.update ''output'' (JArray (filter (\<lambda>raw. \<not> router_item own raw) items)) body)"

definition responses_applyToolOutputs ::
  "(rat \<Rightarrow> string) \<Rightarrow> json_object \<times> json list \<Rightarrow> json \<Rightarrow> toolOutput list \<Rightarrow> json_object \<times> json_object \<times> json list" where
  "responses_applyToolOutputs fmt a state outputs =
     (case a of (base, accumulated) \<Rightarrow>
        let accumulated' = accumulated @ normalizeResponsesOutputItems (list_or_empty state) @
              map (\<lambda>out. JObject [(''type'', JString ''function_call_output''), (''call_id'', JString (out_callID out)),
                                  (''output'', JString (out_text out))]) outputs
        in (AList.update ''input'' (JArray accumulated') (cloneJSONMap fmt base), base, accumulated'))"

definition responses_applyUsage :: "Usage option \<Rightarrow> json_object \<Rightarrow> json_object" where
  "responses_applyUsage u body =
     (case u of None \<Rightarrow> body | Some x \<Rightarrow> AList.update ''usage'' (JObject (responsesUsageMap x)) body)"

definition responses_initial :: "loop_lib \<Rightarrow> json_object \<Rightarrow> prompt_result \<Rightarrow> mcp_tool list \<Rightarrow> json_object" where
  "responses_initial lib body prompt tools =
     AList.delete ''stream_options''
       (AList.update ''stream'' (JBool False) (buildResponsesUpstreamRequest (ll_fmt lib) (ll_now lib) body tools prompt))"

definition newResponsesLoopAdapter ::
  "loop_lib \<Rightarrow> json_object \<Rightarrow> prompt_result \<Rightarrow> mcp_tool list \<Rightarrow> string list \<Rightarrow> RouterOptions option \<Rightarrow>
   (json_object \<times> json list) toolLoopAdapter" where
  "newResponsesLoopAdapter lib body prompt tools own routerOpts =
     (let base = responses_initial lib body prompt tools;
          opts = parseResponsesWebSearchOptions (ll_go lib) routerOpts body in
      \<lparr>upstreamPath = ''/v1/responses'',
       buildInitialRequest = (base, base, list_or_empty (field base ''input'')),
       preIteration = (\<lambda>reqBody. reqBody),
       onUpstreamResponse = responses_onUpstreamResponse lib own,
       applyToolOutputs = (\<lambda>a _ state outputs. responses_applyToolOutputs (ll_fmt lib) a state outputs),
       stripRouterToolCallsFromResponse = responses_strip own,
       forcedFinalRequest = forcedFinalResponsesRequest (ll_fmt lib),
       applyUsage = responses_applyUsage,
       attachCitations =
         (\<lambda>st log _. attachResponsesOutput (ll_url lib) (ll_uuid lib 0) (Some st) log (includeActionSources opts)),
       loop_options = opts,
       loop_schemas = schemaLookup (ll_schema lib) (map Some tools)\<rparr>)"

section \<open>The loop ends\<close>

definition answered :: "post \<Rightarrow> bool" where
  "answered p \<longleftrightarrow> (\<exists>r. snd p = Inr r)"

lemma turn_continues: "turn lib env reg adapter flags s = (Inr s', p) \<Longrightarrow> answered p"
  by (auto simp: turn_def answered_def Let_def split: prod.splits sum.splits if_splits)

lemma iterations_bounded:
  "iterations lib env reg adapter flags n s = (res, ps) \<Longrightarrow>
   ps \<noteq> [] \<and> length ps \<le> Suc n \<and> list_all answered (butlast ps)"
proof (induction n arbitrary: s ps)
  case (Suc n)
  show ?case
  proof -
    obtain out p where t: "turn lib env reg adapter flags s = (out, p)"
    by (cases "turn lib env reg adapter flags s")
    show ?thesis
    proof (cases out)
      case (Inr s')
      with Suc.prems t obtain ps1 where rest: "iterations lib env reg adapter flags n s' = (res, ps1)" and ps: "ps = p # ps1"
        by (auto split: prod.splits)
      have "answered p" using turn_continues t Inr by blast
      with Suc.IH[OF rest] show ?thesis by (auto simp: ps)
    qed (use Suc.prems t in auto)
  qed
qed (auto split: prod.splits)

text \<open>
  C17. The tool loop ends: whatever the model and the tools answer, it returns after posting at most
  eleven requests to the model, and it goes on only after a request that was answered.
\<close>

theorem tool_loop_terminates:
  "\<exists>res ps. runToolLoop lib env reg adapter flags harmony w = (res, ps)
     \<and> 1 \<le> length ps \<and> length ps \<le> 11 \<and> list_all answered (butlast ps)"
proof -
  obtain res ps where run: "runToolLoop lib env reg adapter flags harmony w = (res, ps)" by fastforce
  from iterations_bounded[OF run[unfolded runToolLoop_def]] show ?thesis
    by (intro exI[of _ res] exI[of _ ps]) (auto simp: run maxToolIterations_def Suc_le_eq)
qed

section \<open>What every surface guarantees\<close>

definition successes :: "post list \<Rightarrow> upstreamJSONResponse list" where
  "successes ps = List.map_filter (\<lambda>(q, a). case a of Inr r \<Rightarrow> Some r | Inl _ \<Rightarrow> None) ps"

lemma successes_simps [simp]:
  "successes [] = []" "successes ((q, Inr r) # ps) = r # successes ps" "successes ((q, Inl e) # ps) = successes ps"
  by (simp_all add: successes_def List.map_filter_def)

text \<open>The usage a loop reports: on success and on failure, whenever any turn used tokens.\<close>

definition usage_reported :: "(Usage \<Rightarrow> json_object) \<Rightarrow> usageAccumulator \<Rightarrow> loop_result \<Rightarrow> bool" where
  "usage_reported umap acc res =
     (case acc_Usage acc of
        None \<Rightarrow> snd (snd res) \<noteq> None \<longrightarrow> fst res = None
      | Some u \<Rightarrow> (\<exists>r. fst res = Some r \<and> (rs_body r \<noteq> None \<longrightarrow> field (args_of (rs_body r)) ''usage'' = JObject (umap u))))"

text \<open>The calls of a response whose body may be nil.\<close>

definition body_calls :: "(json_object \<Rightarrow> toolCall list) \<Rightarrow> upstreamJSONResponse \<Rightarrow> toolCall list" where
  "body_calls calls r = (case rs_body r of None \<Rightarrow> [] | Some b \<Rightarrow> calls b)"

locale metered_surface =
  fixes adapter :: "'a toolLoopAdapter" and umap :: "Usage \<Rightarrow> json_object"
  assumes usage_written: "field (applyUsage adapter (Some u) b) ''usage'' = JObject (umap u)"
    and usage_kept: "field (attachCitations adapter st lg flags b) ''usage'' = field b ''usage''"
begin

lemma finish_usage: "finish lib adapter flags acc ts response = res \<Longrightarrow> usage_reported umap acc res"
  by (cases "acc_Usage acc"; cases "rs_body response")
    (auto simp: usage_reported_def finish_def on_body_def args_of_def usage_written usage_kept)

lemma completed_usage: "usage_reported umap acc (completedUsageResponse adapter acc h, ws, Some err)"
  by (auto simp: usage_reported_def completedUsageResponse_def on_body_def args_of_def usage_written split: option.splits)

lemma turn_usage_step:
  assumes "ls_usage s = usage_sums ts" and "turn lib env reg adapter flags s = (out, p)"
  shows "case out of
           Inl res \<Rightarrow> usage_reported umap (usage_sums (ts @ map (turn_usage (ll_usage lib)) (successes [p]))) res
         | Inr s' \<Rightarrow> ls_usage s' = usage_sums (ts @ map (turn_usage (ll_usage lib)) (successes [p]))"
  using assms
  by (auto simp: turn_def Let_def completed_usage acc_Add_sums intro: finish_usage split: prod.splits sum.splits if_splits)

lemma iterations_usage:
  assumes "ls_usage s = usage_sums ts" and "iterations lib env reg adapter flags n s = (res, ps)"
  shows "usage_reported umap (usage_sums (ts @ map (turn_usage (ll_usage lib)) (successes ps))) res"
  using assms
proof (induction n arbitrary: s ts ps)
  case 0
  then show ?case
    by (auto simp: final_turn_def Let_def completed_usage acc_Add_sums intro: finish_usage split: prod.splits sum.splits)
next
  case (Suc n)
  obtain out p where t: "turn lib env reg adapter flags s = (out, p)"
    by (cases "turn lib env reg adapter flags s")
  note step = turn_usage_step[OF Suc.prems(1) t]
  show ?case
  proof (cases out)
    case (Inl res')
    with Suc.prems(2) t step show ?thesis by simp
  next
    case (Inr s')
    with Suc.prems(2) t obtain ps1 where rest: "iterations lib env reg adapter flags n s' = (res, ps1)" and ps: "ps = p # ps1"
      by (auto split: prod.splits)
    have "successes ps = successes [p] @ successes ps1" by (auto simp: ps successes_def List.map_filter_def)
    then show ?thesis
      using Suc.IH[of s' "ts @ map (turn_usage (ll_usage lib)) (successes [p])", OF _ rest] step Inr by simp
  qed
qed

lemma run_usage:
  assumes "runToolLoop lib env reg adapter flags harmony w = (res, ps)"
  shows "usage_reported umap (usage_sums (map (turn_usage (ll_usage lib)) (successes ps))) res"
  using iterations_usage[where ts = "[]", OF _ assms[unfolded runToolLoop_def]] by (simp add: initial_state_def usage_sums_Nil)

end

text \<open>
  The calls a client is given of the model's last response: its own ones when the model settled within the budget,
  and all of them after the forced final turn, whose request offers no tools and whose response is not stripped.
\<close>

definition delivered_calls :: "string list \<Rightarrow> bool \<Rightarrow> toolCall list \<Rightarrow> toolCall list" where
  "delivered_calls own settled cs = (if settled then filter (\<lambda>c. call_name c \<notin> set own) cs else cs)"

locale tool_surface = metered_surface adapter umap
  for adapter :: "'a toolLoopAdapter" and umap :: "Usage \<Rightarrow> json_object" +
  fixes calls :: "json_object \<Rightarrow> toolCall list" and own :: "string list"
  assumes none_own: "\<lbrakk>fst (onUpstreamResponse adapter b) = []; c \<in> set (calls b)\<rbrakk> \<Longrightarrow> call_name c \<notin> set own"
    and strip_calls: "calls (stripRouterToolCallsFromResponse adapter b) = filter (\<lambda>c. call_name c \<notin> set own) (calls b)"
    and usage_calls: "calls (applyUsage adapter u b) = calls b"
    and attach_calls: "calls (attachCitations adapter st lg flags b) = calls b"
begin

lemma finish_calls:
  "\<exists>r ws. finish lib adapter flags acc ts response = (Some r, ws, None) \<and> body_calls calls r = body_calls calls response"
  by (auto simp: finish_def body_calls_def on_body_def usage_calls attach_calls split: option.splits)

lemma body_calls_strip:
  "body_calls calls (on_body (stripRouterToolCallsFromResponse adapter) response) =
   filter (\<lambda>c. call_name c \<notin> set own) (body_calls calls response)"
  by (simp add: body_calls_def on_body_def strip_calls split: option.splits)

lemma client_calls_kept:
  assumes "turn lib env reg adapter flags s = (Inl (Some r, ws, None), p)"
  shows "\<exists>q resp. p = (q, Inr resp) \<and> body_calls calls r = filter (\<lambda>c. call_name c \<notin> set own) (body_calls calls resp)"
proof -
  let ?req = "preIteration adapter (ls_req s)"
  obtain a w where po: "post lib env (ls_world s) (upstreamPath adapter) ?req = (a, w)" by fastforce
  from assms po obtain resp where a: "a = Inr resp" by (cases a) (auto simp: turn_def Let_def)
  obtain rc hc st where on: "onUpstreamResponse adapter (args_of (rs_body resp)) = (rc, hc, st)" by (metis prod_cases3)
  show ?thesis
  proof (cases "rc = []")
    case True
    have "filter (\<lambda>c. call_name c \<notin> set own) (body_calls calls resp) = body_calls calls resp"
      using none_own[of "args_of (rs_body resp)"] True on
      by (auto simp: body_calls_def args_of_def filter_id_conv split: option.splits)
    moreover have "finish lib adapter flags (acc_Add (ll_usage lib) resp (ls_usage s)) (ls_tools s) resp = (Some r, ws, None)"
      and "p = (?req, Inr resp)"
      using assms po a on True by (auto simp: turn_def Let_def)
    ultimately show ?thesis
      using finish_calls[of lib flags "acc_Add (ll_usage lib) resp (ls_usage s)" "ls_tools s" resp] by auto
  next
    case False
    obtain outs ts w' where ex: "execute_calls lib env reg (loop_options adapter) (loop_schemas adapter) rc (ls_tools s) w = (outs, ts, w')"
      by (metis prod_cases3)
    have "hc" using assms po a on False ex by (auto simp: turn_def Let_def split: prod.splits if_splits)
    then have "finish lib adapter flags (acc_Add (ll_usage lib) resp (ls_usage s)) ts
        (on_body (stripRouterToolCallsFromResponse adapter) resp) = (Some r, ws, None)"
      and "p = (?req, Inr resp)"
      using assms po a on False ex by (auto simp: turn_def Let_def)
    then show ?thesis
      using finish_calls[of lib flags "acc_Add (ll_usage lib) resp (ls_usage s)" ts "on_body (stripRouterToolCallsFromResponse adapter) resp"]
      by (auto simp: body_calls_strip)
  qed
qed

lemma iterations_client_calls:
  assumes "iterations lib env reg adapter flags n s = ((Some r, ws, None), ps)"
  shows "\<exists>q resp. last ps = (q, Inr resp) \<and> body_calls calls r = delivered_calls own (length ps \<le> n) (body_calls calls resp)"
  using assms
proof (induction n arbitrary: s ps)
  case 0
  let ?req = "forcedFinalRequest adapter (ls_req s)"
  obtain a w where po: "post lib env (ls_world s) (upstreamPath adapter) ?req = (a, w)" by fastforce
  with 0 obtain resp where a: "a = Inr resp" by (cases a) (auto simp: final_turn_def Let_def)
  with 0 po have "finish lib adapter flags (acc_Add (ll_usage lib) resp (ls_usage s)) (ls_tools s) resp = (Some r, ws, None)"
    and "ps = [(?req, Inr resp)]"
    by (auto simp: final_turn_def Let_def split: prod.splits)
  then show ?case
    using finish_calls[of lib flags "acc_Add (ll_usage lib) resp (ls_usage s)" "ls_tools s" resp] by (auto simp: delivered_calls_def)
next
  case (Suc n)
  obtain out p where t: "turn lib env reg adapter flags s = (out, p)"
    by (cases "turn lib env reg adapter flags s")
  show ?case
  proof (cases out)
    case (Inl res')
    with Suc.prems(1) t have "turn lib env reg adapter flags s = (Inl (Some r, ws, None), p)" and "ps = [p]" by simp_all
    then show ?thesis using client_calls_kept by (simp add: delivered_calls_def)
  next
    case (Inr s')
    with Suc.prems(1) t obtain ps1 where rest: "iterations lib env reg adapter flags n s' = ((Some r, ws, None), ps1)" and ps: "ps = p # ps1"
      by (auto split: prod.splits)
    from Suc.IH[OF rest] iterations_bounded[OF rest] show ?thesis by (auto simp: ps)
  qed
qed

lemma run_client_calls:
  assumes "runToolLoop lib env reg adapter flags harmony w = ((Some r, ws, None), ps)"
  shows "\<exists>q resp. last ps = (q, Inr resp)
    \<and> body_calls calls r = delivered_calls own (length ps \<le> maxToolIterations) (body_calls calls resp)"
  using iterations_client_calls assms unfolding runToolLoop_def by blast

end

section \<open>The chat surface\<close>

definition is_object :: "json \<Rightarrow> bool" where
  "is_object raw = (case raw of JObject _ \<Rightarrow> True | _ \<Rightarrow> False)"

text \<open>The tool calls of a chat response: those of its first choice.\<close>

definition first_message :: "json_object \<Rightarrow> json_object" where
  "first_message body =
     (case list_or_empty (field body ''choices'') of
        [] \<Rightarrow> []
      | c # _ \<Rightarrow> obj_or_empty (field (obj_or_empty c) ''message''))"

definition chat_calls :: "loop_lib \<Rightarrow> json_object \<Rightarrow> toolCall list" where
  "chat_calls lib body =
     map (chat_call (ll_valid lib) (ll_unmarshal lib))
       (filter is_object (list_or_empty (field (first_message body) ''tool_calls'')))"

lemma chat_calls_cong:
  "field (first_message b) ''tool_calls'' = field (first_message b') ''tool_calls'' \<Longrightarrow> chat_calls lib b = chat_calls lib b'"
  by (simp add: chat_calls_def)

lemma obj_or_empty_simps [simp]:
  "obj_or_empty (JObject m) = m" "\<not> is_object v \<Longrightarrow> obj_or_empty v = []"
  by (simp add: obj_or_empty_def) (cases v; simp add: obj_or_empty_def is_object_def)

lemma list_or_empty_simps [simp]: "list_or_empty (JArray xs) = xs" "list_or_empty JNull = []"
  by (simp_all add: list_or_empty_def)

lemma chat_parse_calls:
  "set (chat_calls lib b) \<subseteq> set (snd (parseChatToolCalls (ll_valid lib) (ll_unmarshal lib) b))"
proof (cases "list_or_empty (field b ''choices'')")
  case (Cons c cs)
  show ?thesis
  proof (cases "field (obj_or_empty c) ''message''")
    case (JObject m)
    with Cons show ?thesis
      by (auto simp: chat_calls_def first_message_def parseChatToolCalls_def as_object_Some)
  qed (simp_all add: chat_calls_def first_message_def Cons obj_or_empty_def)
qed (simp add: chat_calls_def first_message_def)

lemma chat_strip_first:
  "chat_calls lib (chat_strip own b) = filter (\<lambda>c. call_name c \<notin> set own) (chat_calls lib b)"
proof (cases "\<exists>choice rest message. field b ''choices'' = JArray (JObject choice # rest) \<and> field choice ''message'' = JObject message
    \<and> list_or_empty (field message ''tool_calls'') \<noteq> []")
  case True
  then obtain choice rest message where b: "field b ''choices'' = JArray (JObject choice # rest)" "field choice ''message'' = JObject message"
    and ne: "list_or_empty (field message ''tool_calls'') \<noteq> []" by blast
  let ?f = "filter (client_call own) (list_or_empty (field message ''tool_calls''))"
  have "list_or_empty (field (strip_message own message) ''tool_calls'') = ?f"
    by (simp add: strip_message_def Let_def)
  then have "list_or_empty (field (first_message (chat_strip own b)) ''tool_calls'') = ?f"
    by (simp add: chat_strip_def b ne first_message_def)
  moreover have "client_call own raw = (call_name (chat_call (ll_valid lib) (ll_unmarshal lib) raw) \<notin> set own)" if "is_object raw" for raw
    using that by (cases raw) (simp_all add: client_call_def chat_call_def chat_call_name_def Let_def is_object_def)
  ultimately show ?thesis
    by (simp add: chat_calls_def first_message_def b filter_map comp_def conj_commute cong: conj_cong)
next
  case False
  then have "list_or_empty (field (first_message b) ''tool_calls'') = []"
    by (auto simp: first_message_def list_or_empty_def obj_or_empty_def field_def
        split: list.splits json.splits option.splits)
  moreover have "chat_strip own b = b"
    using False by (auto simp: chat_strip_def split: json.splits list.splits)
  ultimately show ?thesis by (simp add: chat_calls_def)
qed

lemma attach_message_tool_calls: "field (attach_message ulib st marker message) ''tool_calls'' = field message ''tool_calls''"
  by (simp add: attach_message_def Let_def)

lemma attach_choice_tool_calls:
  "field (obj_or_empty (field (obj_or_empty (attach_choice ulib st marker c)) ''message'')) ''tool_calls'' =
   field (obj_or_empty (field (obj_or_empty c) ''message'')) ''tool_calls''"
  by (auto simp: attach_choice_def attach_message_tool_calls split: json.splits)

lemma attach_chat_first:
  "field (first_message (attachChatOutput ulib enc uuid (Some st) lg flags b)) ''tool_calls'' =
   field (first_message b) ''tool_calls''"
proof (cases "\<exists>c cs. field b ''choices'' = JArray (c # cs)")
  case True
  then obtain c cs where "field b ''choices'' = JArray (c # cs)" by blast
  then show ?thesis by (simp add: attachChatOutput_def first_message_def attach_choice_tool_calls)
next
  case False
  then show ?thesis
    by (cases "field b ''choices''"; simp add: attachChatOutput_def first_message_def list_or_empty_def)
      (auto split: list.splits)
qed

interpretation chat: tool_surface "newChatLoopAdapter lib body prompt tools own ro" chatUsageMap "chat_calls lib" own
  for lib body prompt tools own ro
proof unfold_locales
  fix u b st lg flags c
  let ?A = "newChatLoopAdapter lib body prompt tools own ro"
  show "field (applyUsage ?A (Some u) b) ''usage'' = JObject (chatUsageMap u)"
    by (simp add: newChatLoopAdapter_def chat_applyUsage_def)
  show "field (attachCitations ?A st lg flags b) ''usage'' = field b ''usage''"
    by (simp add: newChatLoopAdapter_def attachChatOutput_def split: json.splits)
  show "call_name c \<notin> set own" if "fst (onUpstreamResponse ?A b) = []" and "c \<in> set (chat_calls lib b)"
  proof -
    have "c \<in> set (snd (parseChatToolCalls (ll_valid lib) (ll_unmarshal lib) b))"
      using that(2) chat_parse_calls by blast
    then show ?thesis
      using that(1)
      by (auto simp: newChatLoopAdapter_def chat_onUpstreamResponse_def splitToolCalls_def filter_empty_conv split: prod.splits)
  qed
  show "chat_calls lib (stripRouterToolCallsFromResponse ?A b) = filter (\<lambda>c. call_name c \<notin> set own) (chat_calls lib b)"
    by (simp add: newChatLoopAdapter_def chat_strip_first)
  show "chat_calls lib (attachCitations ?A st lg flags b) = chat_calls lib b"
    by (rule chat_calls_cong) (simp add: newChatLoopAdapter_def attach_chat_first)
next
  fix u :: "Usage option" and b
  show "chat_calls lib (applyUsage (newChatLoopAdapter lib body prompt tools own ro) u b) = chat_calls lib b"
    by (rule chat_calls_cong) (simp add: newChatLoopAdapter_def chat_applyUsage_def first_message_def split: option.splits)
qed

section \<open>The Responses surface\<close>

definition responses_calls :: "loop_lib \<Rightarrow> json_object \<Rightarrow> toolCall list" where
  "responses_calls lib body = parseResponsesToolCalls (ll_valid lib) (ll_unmarshal lib) body"

lemma responses_calls_alt:
  "responses_calls lib b =
   map (responses_call (ll_valid lib) (ll_unmarshal lib)) (filter is_call_item (list_or_empty (field b ''output'')))"
  by (simp add: responses_calls_def parseResponsesToolCalls_def)

lemma is_call_item_object: "is_call_item raw \<Longrightarrow> is_object raw"
  by (cases raw) (simp_all add: is_call_item_def is_object_def obj_or_empty_def string_field_def)

lemma responses_strip_calls:
  "responses_calls lib (responses_strip own b) = filter (\<lambda>c. call_name c \<notin> set own) (responses_calls lib b)"
proof -
  have "list_or_empty (field (responses_strip own b) ''output'') =
        filter (\<lambda>raw. \<not> router_item own raw) (list_or_empty (field b ''output''))"
    by (auto simp: responses_strip_def split: list.splits)
  moreover have "router_item own raw = (call_name (responses_call (ll_valid lib) (ll_unmarshal lib) raw) \<in> set own)"
    if "is_call_item raw" for raw
    using that is_call_item_object[OF that]
    by (cases raw) (simp_all add: router_item_def responses_call_def Let_def is_object_def)
  ultimately show ?thesis
    by (simp add: responses_calls_alt filter_map comp_def conj_commute cong: conj_cong)
qed

lemma attach_item_call [simp]: "is_call_item (attach_item ulib st raw) = is_call_item raw"
  by (auto simp: attach_item_def is_call_item_def string_field_def split: json.splits)

lemma attach_item_same: "is_call_item raw \<Longrightarrow> attach_item ulib st raw = raw"
  by (auto simp: attach_item_def is_call_item_def string_field_def split: json.splits)

lemma attach_items_filter: "filter is_call_item (map (attach_item ulib st) items) = filter is_call_item items"
  by (induction items) (simp_all add: attach_item_same)

lemma built_items_no_call: "filter is_call_item (buildWebSearchCallOutputItems uuid records inc) = []"
  by (auto simp: filter_empty_conv buildWebSearchCallOutputItems_def is_call_item_def webSearchCallEvent_def string_field_def field_def)

lemma attach_responses_calls:
  "filter is_call_item (list_or_empty (field (attachResponsesOutput ulib uuid (Some st) lg inc b) ''output'')) =
   filter is_call_item (list_or_empty (field b ''output''))"
  by (cases "field b ''output''")
    (simp_all add: attachResponsesOutput_def Let_def attach_items_filter built_items_no_call list_or_empty_def)

interpretation responses: tool_surface "newResponsesLoopAdapter lib body prompt tools own ro" responsesUsageMap "responses_calls lib" own
  for lib body prompt tools own ro
proof unfold_locales
  fix u b st lg flags c
  let ?A = "newResponsesLoopAdapter lib body prompt tools own ro"
  show "field (applyUsage ?A (Some u) b) ''usage'' = JObject (responsesUsageMap u)"
    by (simp add: newResponsesLoopAdapter_def Let_def responses_applyUsage_def)
  show "field (attachCitations ?A st lg flags b) ''usage'' = field b ''usage''"
    by (simp add: newResponsesLoopAdapter_def attachResponsesOutput_def Let_def split: json.splits)
  show "call_name c \<notin> set own" if "fst (onUpstreamResponse ?A b) = []" and "c \<in> set (responses_calls lib b)"
    using that
    by (auto simp: newResponsesLoopAdapter_def responses_onUpstreamResponse_def splitToolCalls_def responses_calls_def
        filter_empty_conv Let_def split: prod.splits)
  show "responses_calls lib (stripRouterToolCallsFromResponse ?A b) = filter (\<lambda>c. call_name c \<notin> set own) (responses_calls lib b)"
    by (simp add: newResponsesLoopAdapter_def Let_def responses_strip_calls)
  show "responses_calls lib (attachCitations ?A st lg flags b) = responses_calls lib b"
    by (simp add: newResponsesLoopAdapter_def Let_def responses_calls_alt attach_responses_calls)
next
  fix u :: "Usage option" and b
  show "responses_calls lib (applyUsage (newResponsesLoopAdapter lib body prompt tools own ro) u b) = responses_calls lib b"
    by (simp add: newResponsesLoopAdapter_def Let_def responses_calls_alt responses_applyUsage_def split: option.splits)
qed

section \<open>Client tool calls\<close>


text \<open>
  The same on the Responses API, where router-owned calls are replaced by \<open>web_search_call\<close> items.
\<close>

theorem responses_client_calls_delivered:
  assumes "runToolLoop lib env reg (newResponsesLoopAdapter lib body prompt tools own ro) flags harmony w = ((Some r, ws, None), ps)"
  shows "\<exists>q resp. last ps = (q, Inr resp)
    \<and> body_calls (responses_calls lib) r = delivered_calls own (length ps \<le> maxToolIterations) (body_calls (responses_calls lib) resp)"
  using assms by (rule responses.run_client_calls)

section \<open>Billing over the turns\<close>

text \<open>
  What is used of the decoder: the usage object the router writes is read back with its token counts.
\<close>

definition decodes_usage :: "(json \<Rightarrow> Usage option) \<Rightarrow> bool" where
  "decodes_usage decode \<longleftrightarrow>
     (\<forall>u. \<exists>d. decode (JObject (chatUsageMap u)) = Some d \<and> PromptTokens d = PromptTokens u
        \<and> CompletionTokens d = CompletionTokens u \<and> TotalTokens d = TotalTokens u \<and> InputTokens d = 0 \<and> OutputTokens d = 0)"

lemma usage_read_back:
  assumes "decodes_usage decode" and "acc_Usage acc = Some u"
  shows "\<exists>d. usageFromRaw decode (JObject (chatUsageMap u)) = Some d \<and> PromptTokens d = promptTokens acc
           \<and> CompletionTokens d = completionTokens acc \<and> TotalTokens d = TotalTokens u"
proof -
  from assms(1) obtain d where d: "decode (JObject (chatUsageMap u)) = Some d" "PromptTokens d = PromptTokens u"
    "CompletionTokens d = CompletionTokens u" "TotalTokens d = TotalTokens u" "InputTokens d = 0" "OutputTokens d = 0"
    unfolding decodes_usage_def by blast
  from assms(2) have u: "PromptTokens u = promptTokens acc" "CompletionTokens u = completionTokens acc"
    "\<not> (promptTokens acc = 0 \<and> completionTokens acc = 0 \<and> totalTokens acc = 0)"
    "TotalTokens u = (if totalTokens acc = 0 then wrap64 (promptTokens acc + completionTokens acc) else totalTokens acc)"
    by (auto simp: acc_Usage_def Let_def split: if_splits)
  show ?thesis
    using d u by (auto simp: usageFromRaw_def Let_def Normalize_def)
qed

text \<open>
  C11. A customer is billed for every turn of the loop: the billing event of a chat request carries the
  sums of the prompt and completion tokens of all answered turns, whether the loop succeeded or failed.
\<close>

theorem every_turn_billed:
  assumes "runToolLoop lib env reg (newChatLoopAdapter lib body prompt tools own ro) flags harmony w = (res, ps)"
    and "decodes_usage (ll_usage lib)"
    and "ev \<in> set (emitBillingEvent (ll_usage lib) now req (fst res) model False)"
    and "\<forall>r. fst res = Some r \<longrightarrow> rs_body r \<noteq> None"
    and "acc_Usage (usage_sums (map (turn_usage (ll_usage lib)) (successes ps))) \<noteq> None"
  shows "ev_PromptTokens ev = wrap64 (sum_list (map (fst \<circ> turn_usage (ll_usage lib)) (successes ps)))
    \<and> ev_CompletionTokens ev = wrap64 (sum_list (map (fst \<circ> snd \<circ> snd \<circ> turn_usage (ll_usage lib)) (successes ps)))"
proof -
  let ?acc = "usage_sums (map (turn_usage (ll_usage lib)) (successes ps))"
  from assms(5) obtain u where u: "acc_Usage ?acc = Some u" by blast
  from chat.run_usage[OF assms(1)] u assms(4) obtain r where r: "fst res = Some r"
    "field (args_of (rs_body r)) ''usage'' = JObject (chatUsageMap u)"
    by (auto simp: usage_reported_def)
  from usage_read_back[OF assms(2) u] obtain d where d: "usageFromRaw (ll_usage lib) (JObject (chatUsageMap u)) = Some d"
    "PromptTokens d = promptTokens ?acc" "CompletionTokens d = completionTokens ?acc" by blast
  have "ev_PromptTokens ev = promptTokens ?acc \<and> ev_CompletionTokens ev = completionTokens ?acc"
    using assms(3) r d by (auto simp: emitBillingEvent_def Let_def split: if_splits)
  then show ?thesis by (simp add: usage_sums_def comp_def)
qed

section \<open>Replayed turns\<close>

lemma execute_calls_ids:
  "execute_calls lib env reg opts schemas calls ts w = (outs, ts', w') \<Longrightarrow> map out_callID outs = map call_id calls"
  by (induction calls arbitrary: outs ts w) (auto split: prod.splits)

text \<open>
  No tool call is left unanswered in the history the model sees: when a chat turn is replayed, the
  assistant message is followed by one tool message for each of its calls, in their order and under
  their identifiers.
\<close>

theorem replayed_calls_answered:
  assumes "turn lib env reg (newChatLoopAdapter lib body prompt tools own ro) flags s = (Inr s', p)"
  shows "\<exists>req resp message calls outs.
           p = (req, Inr resp) \<and> parseChatToolCalls (ll_valid lib) (ll_unmarshal lib) (args_of (rs_body resp)) = (Some message, calls)
           \<and> ls_req s' = chat_applyToolOutputs req (JObject message) outs \<and> map out_callID outs = map call_id calls"
proof -
  let ?A = "newChatLoopAdapter lib body prompt tools own ro" and ?req = "chat_preIteration (ll_valid lib) (ls_req s)"
  have fields: "preIteration ?A = chat_preIteration (ll_valid lib)" "onUpstreamResponse ?A = chat_onUpstreamResponse lib own"
    "applyToolOutputs ?A = (\<lambda>a reqBody state outputs. (chat_applyToolOutputs reqBody state outputs, a))"
    by (simp_all add: newChatLoopAdapter_def)
  obtain a w where po: "post lib env (ls_world s) (upstreamPath ?A) ?req = (a, w)"
    by (cases "post lib env (ls_world s) (upstreamPath ?A) ?req")
  with assms obtain resp where a: "a = Inr resp" by (cases a) (auto simp: turn_def Let_def fields)
  obtain m calls where parse: "parseChatToolCalls (ll_valid lib) (ll_unmarshal lib) (args_of (rs_body resp)) = (m, calls)"
    by (cases "parseChatToolCalls (ll_valid lib) (ll_unmarshal lib) (args_of (rs_body resp))")
  let ?rc = "filter (\<lambda>c. call_name c \<in> set own) calls"
  have on: "chat_onUpstreamResponse lib own (args_of (rs_body resp)) =
      (?rc, filter (\<lambda>c. call_name c \<notin> set own) calls \<noteq> [], json_args m)"
    by (simp add: chat_onUpstreamResponse_def parse splitToolCalls_def)
  obtain outs ts w' where ex: "execute_calls lib env reg (loop_options ?A) (loop_schemas ?A) ?rc (ls_tools s) w = (outs, ts, w')"
    by (metis prod_cases3)
  have step: "?rc \<noteq> []" "filter (\<lambda>c. call_name c \<notin> set own) calls = []" "p = (?req, Inr resp)"
    "ls_req s' = chat_applyToolOutputs ?req (json_args m) outs"
    using assms po a on ex by (auto simp: turn_def Let_def fields split: if_splits)
  have all: "?rc = calls" using step(2) by (simp add: filter_id_conv filter_empty_conv)
  have "\<exists>message. m = Some message"
    using step(1) parse by (cases m) (auto simp: parseChatToolCalls_def split: list.splits option.splits)
  then obtain message where "m = Some message" by blast
  with step parse all execute_calls_ids[OF ex] show ?thesis by (auto simp: json_args_def)
qed

section \<open>Cache-only searches\<close>

lemma coerceValue_int: "n \<noteq> 0 \<Longrightarrow> n \<noteq> 1 \<Longrightarrow> coerceValue lib sch (JInt n) = (JInt n, False)"
proof -
  assume n: "n \<noteq> 0" "n \<noteq> 1"
  have none: "coerce_to lib rec sch (JInt n) t = None" for rec t
    using n by (simp add: coerce_to_def bounded_integer_def coerceToArray_def coerceToObject_def)
  have "first_some (map (coerce_to lib rec sch (JInt n)) ts) = None" for rec ts
    by (induction ts) (simp_all add: none)
  then show ?thesis by (simp add: coerceValue.simps coerce_body_def Let_def descendIntoContainers_def)
qed

lemma map_of_coerceObject:
  "map_of (coerceObject rec sch m) k =
   map_option (\<lambda>v. case propertySchema sch k of None \<Rightarrow> v | Some p \<Rightarrow> fst (rec p v)) (map_of m k)"
  by (induction m) (auto simp: coerceObject_def split: option.splits)

lemma map_of_sanitize:
  "map_of (sanitizeToolCallArguments lower m) k =
   map_option (strip_child lower (lower k \<in> set urlFieldAllowlist)) (map_of m k)"
  by (induction m) (auto simp: sanitizeToolCallArguments_def)


section \<open>A concrete run\<close>

text \<open>A model that answers at once with one call of a client tool and three prompt and two completion tokens.\<close>

definition read_int :: "json_object \<Rightarrow> string \<Rightarrow> int" where
  "read_int m k = (case field m k of JInt n \<Rightarrow> n | _ \<Rightarrow> 0)"

definition read_usage :: "json \<Rightarrow> Usage option" where
  "read_usage raw =
     (case raw of
        JObject m \<Rightarrow>
          Some \<lparr>PromptTokens = read_int m ''prompt_tokens'', CompletionTokens = read_int m ''completion_tokens'',
                TotalTokens = read_int m ''total_tokens'', InputTokens = 0, OutputTokens = 0,
                PromptTokensDetails = None, InputTokensDetails = None\<rparr>
      | _ \<Rightarrow> None)"

lemma read_usage_ok: "decodes_usage read_usage"
  by (simp add: decodes_usage_def read_usage_def chatUsageMap_def usageMap_def read_int_def field_def)

definition demo_chat :: json_object where
  "demo_chat =
     [(''choices'', JArray [JObject [(''message'', JObject [(''tool_calls'',
         JArray [JObject [(''id'', JString ''c1''), (''function'', JObject [(''name'', JString ''lookup'')])]])])]]),
      (''usage'', JObject [(''prompt_tokens'', JInt 3), (''completion_tokens'', JInt 2)])]"

definition demo_responses :: json_object where
  "demo_responses =
     [(''output'', JArray [JObject [(''type'', JString ''function_call''), (''call_id'', JString ''c1''), (''name'', JString ''lookup'')]])]"

definition demo_lib :: "json_object \<Rightarrow> loop_lib" where
  "demo_lib answer =
     \<lparr>ll_go = plain_lib, ll_coerce = plain_coerce_lib, ll_url = plain_urls, ll_valid = (\<lambda>_. True),
      ll_unmarshal = (\<lambda>t. if t = ''x'' then Some (Some answer) else None), ll_encode = (\<lambda>_. None), ll_quote = id,
      ll_usage = read_usage, ll_schema = (\<lambda>_. None), ll_fmt = (\<lambda>_. []), ll_uuid = (\<lambda>_ _. []), ll_now = [],
      ll_pricing = (\<lambda>_. None)\<rparr>"

definition demo_env :: "(nat, nat) loop_env" where
  "demo_env =
     \<lparr>env_send = (\<lambda>w path req. (Inr \<lparr>ha_status = 200, ha_header = [], ha_body = Some ''x''\<rparr>, w + 1)),
      env_call = (\<lambda>w s name args. (Inl ''down'', w))\<rparr>"

definition demo_response :: "json_object \<Rightarrow> upstreamJSONResponse" where
  "demo_response answer = \<lparr>rs_body = Some answer, rs_header = [], rs_status = 200\<rparr>"

lemma demo_post [simp]: "post (demo_lib answer) demo_env w path req = (Inr (demo_response answer), w + 1)"
  by (simp add: post_def demo_env_def demo_lib_def postJSON_def demo_response_def)

lemma demo_body [simp]: "rs_body (demo_response answer) = Some answer" "args_of (Some answer) = answer"
  by (simp_all add: demo_response_def args_of_def)

lemma one_turn:
  assumes "onUpstreamResponse adapter answer = ([], hc, st)"
  shows "runToolLoop (demo_lib answer) demo_env reg adapter flags harmony w =
    (finish (demo_lib answer) adapter flags (acc_Add read_usage (demo_response answer) no_usage)
       \<lparr>ts_cite = \<lparr>NextIndex = 1, Sources = [], Harmony = harmony\<rparr>, ts_log = []\<rparr> (demo_response answer),
     [(preIteration adapter (fst (buildInitialRequest adapter)), Inr (demo_response answer))])"
proof -
  have "ll_usage (demo_lib answer) = read_usage" by (simp add: demo_lib_def)
  then show ?thesis
    by (simp add: runToolLoop_def maxToolIterations_def numeral_eq_Suc turn_def Let_def initial_state_def assms)
qed

abbreviation demo_chat_adapter :: "unit toolLoopAdapter" where
  "demo_chat_adapter \<equiv> newChatLoopAdapter (demo_lib demo_chat) [] None [] [''router_search''] None"

abbreviation demo_responses_adapter :: "(json_object \<times> json list) toolLoopAdapter" where
  "demo_responses_adapter \<equiv> newResponsesLoopAdapter (demo_lib demo_responses) [] None [] [''router_search''] None"

lemma demo_chat_on: "\<exists>hc st. onUpstreamResponse demo_chat_adapter demo_chat = ([], hc, st)"
  by (auto simp: newChatLoopAdapter_def chat_onUpstreamResponse_def demo_chat_def parseChatToolCalls_def splitToolCalls_def
      chat_call_def Let_def field_def string_field_def)

lemma demo_responses_on: "\<exists>hc st. onUpstreamResponse demo_responses_adapter demo_responses = ([], hc, st)"
  by (auto simp: newResponsesLoopAdapter_def responses_onUpstreamResponse_def demo_responses_def parseResponsesToolCalls_def
      splitToolCalls_def responses_call_def is_call_item_def Let_def field_def string_field_def)


theorem responses_client_calls_delivered_witness:
  "\<exists>r ws ps q resp. runToolLoop (demo_lib demo_responses) demo_env empty_registry demo_responses_adapter \<lparr>webSearch = False\<rparr> False 0
       = ((Some r, ws, None), ps) \<and> last ps = (q, Inr resp)
     \<and> body_calls (responses_calls (demo_lib demo_responses)) r =
       filter (\<lambda>c. call_name c \<notin> set [''router_search'']) (body_calls (responses_calls (demo_lib demo_responses)) resp)"
proof -
  obtain hc st where "onUpstreamResponse demo_responses_adapter demo_responses = ([], hc, st)" using demo_responses_on by blast
  from one_turn[OF this, of empty_registry "\<lparr>webSearch = False\<rparr>" False 0] obtain r ws ps
    where run: "runToolLoop (demo_lib demo_responses) demo_env empty_registry demo_responses_adapter \<lparr>webSearch = False\<rparr> False 0 = ((Some r, ws, None), ps)"
      and len: "length ps \<le> maxToolIterations"
    by (simp add: finish_def maxToolIterations_def)
  from responses_client_calls_delivered[OF run] len run show ?thesis by (auto simp: delivered_calls_def)
qed

definition demo_request :: tool_request where
  "demo_request = \<lparr>tr_path = ''/v1/chat/completions'', tr_header = [(''Authorization'', [''Bearer k''])], tr_customerRequests = None\<rparr>"

lemma demo_bearer: "BearerToken ''Bearer k'' = ''k''"
proof -
  have "TrimSpace ''k'' = ''k''" by (rule TrimSpace_graphic; simp add: graphic_def)
  moreover have "EqualFold ''Bearer '' ''bearer ''" by code_simp
  ultimately show ?thesis by (simp add: BearerToken_def Let_def)
qed

theorem every_turn_billed_witness:
  "\<exists>res ps ev. runToolLoop (demo_lib demo_chat) demo_env empty_registry demo_chat_adapter \<lparr>webSearch = False\<rparr> False 0 = (res, ps)
     \<and> emitBillingEvent read_usage 0 demo_request (fst res) ''m'' False = [ev] \<and> ev_PromptTokens ev = 3 \<and> ev_CompletionTokens ev = 2"
proof -
  obtain hc st where "onUpstreamResponse demo_chat_adapter demo_chat = ([], hc, st)" using demo_chat_on by blast
  note one = one_turn[OF this, of empty_registry "\<lparr>webSearch = False\<rparr>" False 0]
  let ?run = "runToolLoop (demo_lib demo_chat) demo_env empty_registry demo_chat_adapter \<lparr>webSearch = False\<rparr> False 0"
  obtain res ps where run: "?run = (res, ps)" by (cases ?run)
  have dec: "ll_usage (demo_lib demo_chat) = read_usage" by (simp add: demo_lib_def)
  have succ: "successes ps = [demo_response demo_chat]" using one run by simp
  have turn: "turn_usage read_usage (demo_response demo_chat) = (3, 0, 2, 5)"
    by (simp add: turn_usage_def demo_chat_def usageFromRaw_def read_usage_def read_int_def field_def Normalize_def Let_def
        CachedPromptTokens_def wrap64_def)
  have body: "\<forall>r. fst res = Some r \<longrightarrow> rs_body r \<noteq> None" using one run by (auto simp: finish_def on_body_def)
  have some: "acc_Usage (usage_sums (map (turn_usage (ll_usage (demo_lib demo_chat))) (successes ps))) \<noteq> None"
    by (simp add: dec succ turn usage_sums_def acc_Usage_def wrap64_def Let_def)
  obtain ev where ev: "emitBillingEvent read_usage 0 demo_request (fst res) ''m'' False = [ev]"
    using one run by (auto simp: finish_def emitBillingEvent_def demo_request_def header_get_def header_values_def demo_bearer Let_def)
  from every_turn_billed[OF run _ _ body some, of ev 0 demo_request "''m''"] ev read_usage_ok
  have "ev_PromptTokens ev = 3 \<and> ev_CompletionTokens ev = 2" by (simp add: dec succ turn wrap64_def)
  with run ev show ?thesis by blast
qed


definition demo_router :: json_object where
  "demo_router =
     [(''choices'', JArray [JObject [(''message'', JObject [(''tool_calls'',
         JArray [JObject [(''id'', JString ''c1''), (''function'', JObject [(''name'', JString ''router_search'')])]])])]])]"

lemma demo_router_turn:
  "\<exists>s' p. turn (demo_lib demo_router) demo_env empty_registry
      (newChatLoopAdapter (demo_lib demo_router) [] None [] [''router_search''] None) \<lparr>webSearch = False\<rparr>
      (initial_state (newChatLoopAdapter (demo_lib demo_router) [] None [] [''router_search''] None) False 0) = (Inr s', p)"
  by (simp add: turn_def Let_def newChatLoopAdapter_def chat_onUpstreamResponse_def parseChatToolCalls_def splitToolCalls_def
      chat_call_def demo_router_def field_def string_field_def executeRouterToolCall_def sessionFor_def empty_registry_def)

theorem replayed_calls_answered_witness:
  "\<exists>s' req resp message (calls :: toolCall list) outs.
     turn (demo_lib demo_router) demo_env empty_registry
       (newChatLoopAdapter (demo_lib demo_router) [] None [] [''router_search''] None) \<lparr>webSearch = False\<rparr>
       (initial_state (newChatLoopAdapter (demo_lib demo_router) [] None [] [''router_search''] None) False 0) = (Inr s', req, Inr resp)
     \<and> ls_req s' = chat_applyToolOutputs req (JObject message) outs \<and> map out_callID outs = map call_id calls"
proof -
  obtain s' p where t: "turn (demo_lib demo_router) demo_env empty_registry
       (newChatLoopAdapter (demo_lib demo_router) [] None [] [''router_search''] None) \<lparr>webSearch = False\<rparr>
       (initial_state (newChatLoopAdapter (demo_lib demo_router) [] None [] [''router_search''] None) False 0) = (Inr s', p)"
    using demo_router_turn by blast
  from replayed_calls_answered[OF t] obtain req resp message and calls :: "toolCall list" and outs where r: "p = (req, Inr resp)"
    "ls_req s' = chat_applyToolOutputs req (JObject message) outs" "map out_callID outs = map call_id calls" by blast
  from t r show ?thesis by blast
qed

section \<open>The history of posted requests\<close>

lemma chat_preIteration_valid:
  assumes "valid ''{}''"
  shows "list_all (history_valid valid) (list_or_empty (field (chat_preIteration valid req) ''messages''))"
  by (cases "field req ''messages''")
    (simp_all add: chat_preIteration_def sanitizeAssistantToolCallsInMessages_def list_all_iff repair_message_valid assms list_or_empty_def)

lemma turn_posts_preIteration: "turn lib env reg adapter flags s = (out, (q, a)) \<Longrightarrow> q = preIteration adapter (ls_req s)"
  by (auto simp: turn_def Let_def split: prod.splits sum.splits if_splits)

text \<open>
  Every chat request of the first ten is repaired before it is posted. The forced final request is
  not: the history it carries is the one the last turn left.
\<close>

lemma posted_history_valid:
  assumes "turn lib env reg (newChatLoopAdapter lib body prompt tools own ro) flags s = (out, (q, a))" and "ll_valid lib ''{}''"
  shows "list_all (history_valid (ll_valid lib)) (list_or_empty (field q ''messages''))"
  using turn_posts_preIteration[OF assms(1)] chat_preIteration_valid[of "ll_valid lib", OF assms(2)] by (simp add: newChatLoopAdapter_def)

lemma forced_final_not_repaired:
  "let q = forcedFinalChatRequest fmt [(''messages'', JArray broken_history)] in
   \<not> list_all (history_valid (\<lambda>t. t = ''{}'')) (list_or_empty (field q ''messages''))"
  by (simp add: forcedFinalChatRequest_def Let_def cloneJSONMap_def clone_value.simps all_some_def broken_history_def
      history_valid_def arguments_valid_def field_def)

section \<open>Tool errors\<close>

text \<open>The record of a failed call, which clients see, does not depend on what the tool said.\<close>

lemma error_text_not_recorded:
  assumes "env_call env w = (\<lambda>s n a. (Inl e, w1))" and "env_call env' w = (\<lambda>s n a. (Inl e', w1))"
  shows "snd (executeRouterToolCall lib env reg opts schemas call ts w) = snd (executeRouterToolCall lib env' reg opts schemas call ts w)"
  by (simp add: executeRouterToolCall_def Let_def callTool_def assms applyStructuredFormat_def publicToolErrorReason_def split: option.splits)

end
