(* ===== verification/Sse_Reader.thy ===== *)
theory Sse_Reader
  imports Token_Stream
begin

text \<open>
  Server-sent events as the tool runtime reads and prints them (\<open>toolruntime/sse_reader.go\<close>, \<open>sseData\<close> and
  \<open>sseEvent\<close> of \<open>toolruntime/runtime.go\<close>). The reader works on the lines of a \<open>bufio.Scanner\<close>, which
  \<open>scan_lines\<close> models with the same limit of 4 MiB; the scanner's error, if any, comes after its last line.

  The specification of the reader is the dispatch rule of the event-stream grammar: lines are grouped into
  blocks ended by blank lines, and a block with a data field is one event. The printed form of an event is
  read back unchanged, with heartbeats anywhere between events.
\<close>

section \<open>The reader\<close>

record sseFrame =
  frame_event :: string
  frame_data :: string

text \<open>What the scanner has left: its lines, and the error reported after them.\<close>

record sseReader =
  sr_lines :: "string list"
  sr_err :: "string option"

definition newSSEReader :: "string \<Rightarrow> string option \<Rightarrow> sseReader" where
  "newSSEReader input readErr =
     (case scan_lines maxSSELineBytes input of
        (ls, tooLong) \<Rightarrow> \<lparr>sr_lines = ls, sr_err = (if tooLong then Some ''bufio.Scanner: token too long'' else readErr)\<rparr>)"

definition splitSSEField :: "string \<Rightarrow> string \<times> string" where
  "splitSSEField line =
     (case dropWhile (\<lambda>c. c \<noteq> CHR '':'') line of
        [] \<Rightarrow> (line, [])
      | _ # value \<Rightarrow> (takeWhile (\<lambda>c. c \<noteq> CHR '':'') line, TrimPrefix value '' ''))"

datatype read_result = ReadFrame sseFrame | ReadEOF | ReadError string

text \<open>The loop of \<open>next\<close>; \<open>dataLines\<close> is \<open>Some\<close> once \<open>haveData\<close> is set.\<close>

fun next_loop :: "string option \<Rightarrow> string list \<Rightarrow> string \<Rightarrow> string list option \<Rightarrow> read_result \<times> string list" where
  "next_loop err [] event dataLines =
     (case err of
        Some e \<Rightarrow> (ReadError e, [])
      | None \<Rightarrow>
          (case dataLines of
             None \<Rightarrow> (ReadEOF, [])
           | Some ds \<Rightarrow> (ReadFrame \<lparr>frame_event = event, frame_data = join_with [byte 10] ds\<rparr>, [])))"
| "next_loop err (line # rest) event dataLines =
     (if line = [] then
        (case dataLines of
           Some ds \<Rightarrow> (ReadFrame \<lparr>frame_event = event, frame_data = join_with [byte 10] ds\<rparr>, rest)
         | None \<Rightarrow> next_loop err rest [] None)
      else if HasPrefix line '':'' then next_loop err rest event dataLines
      else case splitSSEField line of
             (name, value) \<Rightarrow>
               if name = ''event'' then next_loop err rest value dataLines
               else if name = ''data''
               then next_loop err rest event (Some ((case dataLines of None \<Rightarrow> [] | Some ds \<Rightarrow> ds) @ [value]))
               else next_loop err rest event dataLines)"

definition next_frame :: "sseReader \<Rightarrow> read_result \<times> sseReader" where
  "next_frame r =
     (case next_loop (sr_err r) (sr_lines r) [] None of (res, rest) \<Rightarrow> (res, r\<lparr>sr_lines := rest\<rparr>))"

lemma next_loop_shorter:
  "next_loop err ls event None = (ReadFrame f, rest) \<Longrightarrow> length rest < length ls"
  "next_loop err ls event d = (ReadFrame f, rest) \<Longrightarrow> length rest \<le> length ls"
proof -
  have le: "next_loop err ls event d = (ReadFrame f, rest) \<Longrightarrow> length rest \<le> length ls" for d
    by (induction err ls event d rule: next_loop.induct)
      (fastforce split: if_splits option.splits prod.splits)+
  then show "next_loop err ls event d = (ReadFrame f, rest) \<Longrightarrow> length rest \<le> length ls" .
  show "next_loop err ls event None = (ReadFrame f, rest) \<Longrightarrow> length rest < length ls"
  proof (induction ls arbitrary: event)
    case (Cons line ls)
    have le': "next_loop err ls event d = (ReadFrame f, rest) \<Longrightarrow> length rest \<le> length ls" for event d
      by (induction err ls event d rule: next_loop.induct)
        (fastforce split: if_splits option.splits prod.splits)+
    show ?case using Cons le' by (fastforce split: if_splits prod.splits)
  qed (simp split: option.splits)
qed

text \<open>A reader read to its end, as the loops that call \<open>next\<close> do.\<close>

function read_all :: "sseReader \<Rightarrow> sseFrame list \<times> string option" where
  "read_all r =
     (case next_frame r of
        (ReadFrame f, r') \<Rightarrow> (case read_all r' of (fs, e) \<Rightarrow> (f # fs, e))
      | (ReadEOF, _) \<Rightarrow> ([], None)
      | (ReadError e, _) \<Rightarrow> ([], Some e))"
  by pat_completeness auto
termination
  by (relation "measure (\<lambda>r. length (sr_lines r))")
    (auto simp: next_frame_def split: prod.splits dest: next_loop_shorter(1))

declare read_all.simps [simp del]

section \<open>Printing\<close>

definition sseHeartbeatFrame :: string where "sseHeartbeatFrame = '': ping'' @ [byte 10, byte 10]"

definition done_frame :: string where "done_frame = ''data: [DONE]'' @ [byte 10, byte 10]"

definition sseData :: "(json \<Rightarrow> string option) \<Rightarrow> json_object \<Rightarrow> string option" where
  "sseData encode body = map_option (\<lambda>data. ''data: '' @ data @ [byte 10, byte 10]) (encode (JObject body))"

definition body_value :: "json_object option \<Rightarrow> json" where
  "body_value body = (case body of None \<Rightarrow> JNull | Some b \<Rightarrow> JObject b)"

definition sseEvent :: "(json \<Rightarrow> string option) \<Rightarrow> string \<Rightarrow> json_object option \<Rightarrow> string option" where
  "sseEvent encode event body =
     map_option (\<lambda>data. ''event: '' @ event @ [byte 10] @ ''data: '' @ data @ [byte 10, byte 10]) (encode (body_value body))"

section \<open>Specification of the reader\<close>

text \<open>The fields of a block of lines, comments left out.\<close>

definition block_fields :: "string list \<Rightarrow> (string \<times> string) list" where
  "block_fields ls = map splitSSEField (filter (\<lambda>l. \<not> HasPrefix l '':'') ls)"

definition values_of :: "string \<Rightarrow> string list \<Rightarrow> string list" where
  "values_of name ls = map snd (filter (\<lambda>p. fst p = name) (block_fields ls))"

text \<open>One event per block that has data; its name is the last one given.\<close>

definition dispatch_block :: "string list \<Rightarrow> sseFrame list" where
  "dispatch_block ls =
     (if values_of ''data'' ls = [] then []
      else [\<lparr>frame_event = last ([] # values_of ''event'' ls), frame_data = join_with [byte 10] (values_of ''data'' ls)\<rparr>])"

text \<open>The events of a stream of lines: an unfinished last block counts when the stream ended without error.\<close>

function events_of :: "string option \<Rightarrow> string list \<Rightarrow> sseFrame list" where
  "events_of err ls =
     (let b = takeWhile (\<lambda>l. l \<noteq> []) ls in
      case dropWhile (\<lambda>l. l \<noteq> []) ls of
        [] \<Rightarrow> if err = None then dispatch_block b else []
      | _ # rest \<Rightarrow> dispatch_block b @ events_of err rest)"
  by pat_completeness auto
termination
proof (relation "measure (\<lambda>(_, ls). length ls)")
  fix err :: "string option" and ls b rest :: "string list" and x
  assume "dropWhile (\<lambda>l. l \<noteq> []) ls = x # rest"
  then have "length (x # rest) \<le> length ls" by (metis length_dropWhile_le)
  then show "((err, rest), err, ls) \<in> measure (\<lambda>(_, ls). length ls)" by simp
qed simp

declare events_of.simps [simp del]

lemma values_of_Nil [simp]: "values_of name [] = []"
  by (simp add: values_of_def block_fields_def)

lemma values_of_Cons:
  "values_of name (l # ls) =
     (if \<not> HasPrefix l '':'' \<and> fst (splitSSEField l) = name then snd (splitSSEField l) # values_of name ls
      else values_of name ls)"
  by (simp add: values_of_def block_fields_def)

definition more_data :: "string list option \<Rightarrow> string list \<Rightarrow> string list option" where
  "more_data d vs = (if d = None \<and> vs = [] then None else Some ((case d of None \<Rightarrow> [] | Some ds \<Rightarrow> ds) @ vs))"

lemma more_data_simps:
  "more_data d [] = d"
  "more_data (Some ((case d of None \<Rightarrow> [] | Some ds \<Rightarrow> ds) @ [v])) vs = more_data d (v # vs)"
  by (auto simp: more_data_def split: option.splits)

lemma last_Cons_values: "last (x # vs) = (if vs = [] then x else last vs)"
  by simp

text \<open>Within a block the loop only collects.\<close>

lemma next_loop_block:
  "\<forall>l \<in> set b. l \<noteq> [] \<Longrightarrow>
   next_loop err (b @ ls) event d =
     next_loop err ls (last (event # values_of ''event'' b)) (more_data d (values_of ''data'' b))"
proof (induction b arbitrary: event d)
  case (Cons l b)
  obtain name v where s: "splitSSEField l = (name, v)" by fastforce
  have [simp]: "(''data'' :: string) \<noteq> ''event''" by simp
  show ?case
    using Cons s by (simp add: values_of_Cons more_data_simps del: last.simps) (auto simp: last_Cons_values)
qed (simp add: more_data_simps)

lemma next_loop_start:
  "\<forall>l \<in> set b. l \<noteq> [] \<Longrightarrow>
   next_loop err (b @ ls) [] None =
     next_loop err ls (last ([] # values_of ''event'' b)) (if values_of ''data'' b = [] then None else Some (values_of ''data'' b))"
  by (simp add: next_loop_block more_data_def del: last.simps)

lemma takeWhile_nonblank: "\<forall>l \<in> set (takeWhile (\<lambda>l. l \<noteq> []) ls). l \<noteq> []"
  by (auto dest: set_takeWhileD)

lemma blank_block:
  assumes "\<forall>l \<in> set b. l \<noteq> []"
  shows "read_all \<lparr>sr_lines = b @ [] # rest, sr_err = err\<rparr> =
           (case read_all \<lparr>sr_lines = rest, sr_err = err\<rparr> of (fs, e) \<Rightarrow> (dispatch_block b @ fs, e))"
proof (cases "values_of ''data'' b = []")
  case True
  then have "next_frame \<lparr>sr_lines = b @ [] # rest, sr_err = err\<rparr> = next_frame \<lparr>sr_lines = rest, sr_err = err\<rparr>"
    using assms by (simp add: next_frame_def next_loop_start)
  then have "read_all \<lparr>sr_lines = b @ [] # rest, sr_err = err\<rparr> = read_all \<lparr>sr_lines = rest, sr_err = err\<rparr>"
    by (metis read_all.simps)
  then show ?thesis using True by (simp add: dispatch_block_def)
next
  case False
  then show ?thesis
    using assms by (subst read_all.simps) (simp add: next_frame_def next_loop_start dispatch_block_def)
qed

lemma events_of_last:
  assumes "\<forall>l \<in> set b. l \<noteq> []"
  shows "events_of err b = (if err = None then dispatch_block b else [])"
proof -
  have w: "takeWhile (\<lambda>l. l \<noteq> []) b = b" "dropWhile (\<lambda>l. l \<noteq> []) b = []"
    using assms by (auto simp: takeWhile_eq_all_conv dropWhile_eq_Nil_conv)
  show ?thesis by (subst events_of.simps) (simp only: w Let_def list.case)
qed

lemma events_of_block:
  assumes "\<forall>l \<in> set b. l \<noteq> []"
  shows "events_of err (b @ [] # rest) = dispatch_block b @ events_of err rest"
proof -
  have w: "takeWhile (\<lambda>l. l \<noteq> []) (b @ [] # rest) = b" "dropWhile (\<lambda>l. l \<noteq> []) (b @ [] # rest) = [] # rest"
    using assms by (simp_all add: takeWhile_append dropWhile_append)
  show ?thesis by (subst events_of.simps) (simp only: w Let_def list.case)
qed

lemma read_last_block:
  assumes "\<forall>l \<in> set b. l \<noteq> []"
  shows "read_all \<lparr>sr_lines = b, sr_err = err\<rparr> = (if err = None then dispatch_block b else [], err)"
proof -
  have n: "next_loop err b [] None =
      next_loop err [] (last ([] # values_of ''event'' b)) (if values_of ''data'' b = [] then None else Some (values_of ''data'' b))"
    using next_loop_start[OF assms, of err "[]"] by simp
  have e: "read_all \<lparr>sr_lines = [], sr_err = None\<rparr> = ([], None)"
    by (subst read_all.simps) (simp add: next_frame_def)
  show ?thesis
    by (subst read_all.simps) (auto simp: next_frame_def n dispatch_block_def e split: option.splits)
qed

lemma read_all_refines: "read_all \<lparr>sr_lines = ls, sr_err = err\<rparr> = (events_of err ls, err)"
proof (induction "length ls" arbitrary: ls rule: less_induct)
  case less
  show ?case
  proof (cases "dropWhile (\<lambda>l. l \<noteq> []) ls")
    case Nil
    then have "\<forall>l \<in> set ls. l \<noteq> []" by (simp add: dropWhile_eq_Nil_conv)
    then show ?thesis by (simp add: read_last_block events_of_last)
  next
    case (Cons x rest)
    then have "ls = takeWhile (\<lambda>l. l \<noteq> []) ls @ [] # rest" unfolding dropWhile_eq_Cons_conv by blast
    then obtain b where b: "\<forall>l \<in> set b. l \<noteq> []" and ls: "ls = b @ [] # rest"
      using takeWhile_nonblank by blast
    then have "read_all \<lparr>sr_lines = rest, sr_err = err\<rparr> = (events_of err rest, err)" by (intro less) simp
    then show ?thesis by (simp only: ls blank_block[OF b] events_of_block[OF b] prod.case)
  qed
qed

text \<open>
  C35. Reading an event stream to its end yields exactly the events of the event-stream grammar, for every
  input: one event per block of lines that has a data field, its data lines joined, its name the last one
  given, comments and unknown fields ignored, and nothing carried from one block to the next. An unfinished
  last block is delivered when the stream ends cleanly and dropped when it ends with an error, which is
  reported after the events.
\<close>

theorem reader_follows_grammar:
  "read_all (newSSEReader input readErr) =
     (case scan_lines maxSSELineBytes input of
        (ls, tooLong) \<Rightarrow>
          let err = (if tooLong then Some ''bufio.Scanner: token too long'' else readErr) in (events_of err ls, err))"
  unfolding newSSEReader_def Let_def by (cases "scan_lines maxSSELineBytes input") (simp only: prod.case read_all_refines)

section \<open>What is printed is read back\<close>

text \<open>Everything the streamers write to a client after the headers.\<close>

datatype client_write = WData json_object | WEvent string "json_object option" | WDone | WPing

definition print_write :: "(json \<Rightarrow> string option) \<Rightarrow> client_write \<Rightarrow> string option" where
  "print_write encode x =
     (case x of
        WData body \<Rightarrow> sseData encode body
      | WEvent event body \<Rightarrow> sseEvent encode event body
      | WDone \<Rightarrow> Some done_frame
      | WPing \<Rightarrow> Some sseHeartbeatFrame)"

definition sent_frames :: "(json \<Rightarrow> string option) \<Rightarrow> client_write \<Rightarrow> sseFrame list" where
  "sent_frames encode x =
     (case x of
        WData body \<Rightarrow> [\<lparr>frame_event = [], frame_data = the (encode (JObject body))\<rparr>]
      | WEvent event body \<Rightarrow> [\<lparr>frame_event = event, frame_data = the (encode (body_value body))\<rparr>]
      | WDone \<Rightarrow> [\<lparr>frame_event = [], frame_data = ''[DONE]''\<rparr>]
      | WPing \<Rightarrow> [])"

text \<open>The encoder writes one line (JSON escapes control characters), within the limit of the reader.\<close>

definition one_line :: "string \<Rightarrow> bool" where
  "one_line t \<longleftrightarrow> byte 10 \<notin> set t \<and> byte 13 \<notin> set t \<and> length t + 7 < maxSSELineBytes"

definition printable :: "(json \<Rightarrow> string option) \<Rightarrow> client_write \<Rightarrow> bool" where
  "printable encode x =
     (case x of
        WData body \<Rightarrow> (case encode (JObject body) of None \<Rightarrow> False | Some t \<Rightarrow> one_line t)
      | WEvent event body \<Rightarrow> one_line event \<and> (case encode (body_value body) of None \<Rightarrow> False | Some t \<Rightarrow> one_line t)
      | _ \<Rightarrow> True)"

lemma scan_lines_Nil [simp]: "scan_lines limit [] = ([], False)"
  by (subst scan_lines.simps) simp

lemma sse_scan_line:
  assumes "byte 10 \<notin> set l" "byte 13 \<notin> set l" "length l < limit"
  shows "scan_lines limit (l @ byte 10 # rest) = (case scan_lines limit rest of (ls, e) \<Rightarrow> (l # ls, e))"
proof -
  have t: "takeWhile (\<lambda>c. c \<noteq> byte 10) (l @ byte 10 # rest) = l"
    "dropWhile (\<lambda>c. c \<noteq> byte 10) (l @ byte 10 # rest) = byte 10 # rest"
    using assms(1) by (auto simp: takeWhile_append dropWhile_append takeWhile_eq_all_conv dropWhile_eq_Nil_conv)
  have "drop_cr l = l" using assms(2) last_in_set by (fastforce simp: drop_cr_def)
  then show ?thesis
    using assms(3) by (subst scan_lines.simps) (simp add: t Let_def)
qed

definition write_lines :: "(json \<Rightarrow> string option) \<Rightarrow> client_write \<Rightarrow> string list" where
  "write_lines encode x =
     (case x of
        WData body \<Rightarrow> [''data: '' @ the (encode (JObject body))]
      | WEvent event body \<Rightarrow> [''event: '' @ event, ''data: '' @ the (encode (body_value body))]
      | WDone \<Rightarrow> [''data: [DONE]'']
      | WPing \<Rightarrow> ['': ping''])"

lemma small_lines: "17 < maxSSELineBytes"
  by (simp add: maxSSELineBytes_def)

lemma line_bytes: "byte 10 = CHR 0x0A" "byte 13 = CHR 0x0D"
  by code_simp+

definition short_line :: "string \<Rightarrow> bool" where
  "short_line l \<longleftrightarrow> byte 10 \<notin> set l \<and> byte 13 \<notin> set l \<and> length l < maxSSELineBytes"

abbreviation text_of_lines :: "string list \<Rightarrow> string" where
  "text_of_lines ls \<equiv> concat (map (\<lambda>l. l @ [byte 10]) ls)"

lemma scan_text_of_lines:
  "\<forall>l \<in> set ls. short_line l \<Longrightarrow> scan_lines maxSSELineBytes (text_of_lines ls) = (ls, False)"
  by (induction ls) (auto simp: sse_scan_line short_line_def)

lemma write_lines_short: "printable encode x \<Longrightarrow> l \<in> set (write_lines encode x) \<Longrightarrow> short_line l \<and> l \<noteq> []"
  using small_lines
  by (cases x) (auto simp: printable_def one_line_def write_lines_def short_line_def line_bytes split: option.splits)

lemma print_write_lines:
  "printable encode x \<Longrightarrow> print_write encode x = Some (text_of_lines (write_lines encode x @ [[]]))"
  by (cases x) (auto simp: printable_def print_write_def sseData_def sseEvent_def done_frame_def sseHeartbeatFrame_def
      write_lines_def split: option.splits)

lemma dispatch_write: "dispatch_block (write_lines encode x) = sent_frames encode x"
  by (cases x)
    (simp_all add: dispatch_block_def write_lines_def sent_frames_def values_of_Cons splitSSEField_def HasPrefix_def
       TrimPrefix_def join_with_def)

lemma events_of_writes:
  "list_all (printable encode) ws \<Longrightarrow>
   events_of None (concat (map (\<lambda>x. write_lines encode x @ [[]]) ws)) = concat (map (sent_frames encode) ws)"
proof (induction ws)
  case (Cons x ws)
  then have "\<forall>l \<in> set (write_lines encode x). l \<noteq> []" using write_lines_short by auto
  then show ?case using Cons by (simp add: events_of_block dispatch_write)
qed (simp add: events_of_last dispatch_block_def)

text \<open>
  C31. Every frame written to a streaming client is read back by the event-stream reader as it was meant: for
  any sequence of data frames, named events, end markers and heartbeats, the reader sees the frames in order
  with their names and payloads, and no trace of the heartbeats.
\<close>

theorem printed_stream_read_back:
  assumes "list_all (printable encode) ws"
  shows "\<exists>ts. map (print_write encode) ws = map Some ts
           \<and> read_all (newSSEReader (concat ts) None) = (concat (map (sent_frames encode) ws), None)"
proof -
  let ?ls = "concat (map (\<lambda>x. write_lines encode x @ [[]]) ws)"
  let ?ts = "map (\<lambda>x. text_of_lines (write_lines encode x @ [[]])) ws"
  have p: "map (print_write encode) ws = map Some ?ts"
    using assms by (simp add: print_write_lines list_all_iff del: map_append concat_append)
  have "\<forall>l \<in> set ?ls. short_line l"
    using assms write_lines_short small_lines by (auto simp: list_all_iff short_line_def)
  moreover have "concat ?ts = text_of_lines ?ls" by (induction ws) simp_all
  ultimately have "scan_lines maxSSELineBytes (concat ?ts) = (?ls, False)" using scan_text_of_lines by metis
  then have "read_all (newSSEReader (concat ?ts) None) = (events_of None ?ls, None)"
    by (simp only: newSSEReader_def prod.case if_False read_all_refines)
  then show ?thesis using p events_of_writes[OF assms] by metis
qed

theorem printed_stream_read_back_witness:
  "\<exists>ts. map (print_write (\<lambda>_. Some ''{}'')) [WEvent ''response.created'' (Some []), WPing, WData [], WDone] = map Some ts
     \<and> read_all (newSSEReader (concat ts) None) =
         ([\<lparr>frame_event = ''response.created'', frame_data = ''{}''\<rparr>, \<lparr>frame_event = [], frame_data = ''{}''\<rparr>,
           \<lparr>frame_event = [], frame_data = ''[DONE]''\<rparr>], None)"
  using printed_stream_read_back[of "\<lambda>_. Some ''{}''" "[WEvent ''response.created'' (Some []), WPing, WData [], WDone]"]
  by (simp add: printable_def one_line_def line_bytes maxSSELineBytes_def sent_frames_def)

end
