(* ===== verification/Sse_Heartbeat.thy ===== *)
theory Sse_Heartbeat
  imports Sse_Reader
begin

text \<open>
  Heartbeats of a client stream (\<open>toolruntime/sse_heartbeat.go\<close>). The writer of the stream and the heartbeat
  goroutine share one response writer under a mutex, so their operations are atomic steps and any order of
  them is possible: \<open>hb_step\<close> is the step relation, with a clock that only \<open>tick\<close> advances. The outcome of a
  write on the connection is an argument of the operation. The goroutine is live from the moment the stream
  is armed until it exits; its timer is the deadline at which it next wakes.

  The bound \<open>eps\<close> on the time between a deadline and the goroutine's handling of it is the only thing assumed
  of the scheduler.
\<close>

section \<open>State and operations\<close>

definition sseHeartbeatInterval :: duration where "sseHeartbeatInterval = 15 * second"

text \<open>What reached the client, with the time.\<close>

datatype sent = SentHeader int | SentBytes string

record heartbeatWriter =
  hb_armed :: bool
  hb_lastWrite :: time
  hb_failed :: "string option"
  hb_stop :: bool
  hb_done :: bool
  hb_timer :: time
  hb_sent :: "(time \<times> sent) list"

definition newHeartbeatWriter :: heartbeatWriter where
  "newHeartbeatWriter = \<lparr>hb_armed = False, hb_lastWrite = 0, hb_failed = None, hb_stop = False, hb_done = False,
     hb_timer = 0, hb_sent = []\<rparr>"

text \<open>\<open>started\<close> is the time at which the new goroutine creates its timer.\<close>

definition WriteHeader :: "int \<Rightarrow> string \<Rightarrow> time \<Rightarrow> time \<Rightarrow> heartbeatWriter \<Rightarrow> heartbeatWriter" where
  "WriteHeader status contentType now started h =
     (let h1 = h\<lparr>hb_sent := hb_sent h @ [(now, SentHeader status)]\<rparr> in
      if hb_armed h \<or> status < 200 \<or> 300 \<le> status then h1
      else if \<not> HasPrefix contentType ''text/event-stream'' then h1
      else h1\<lparr>hb_armed := True, hb_lastWrite := now, hb_timer := started + sseHeartbeatInterval\<rparr>)"

definition fail :: "string \<Rightarrow> heartbeatWriter \<Rightarrow> heartbeatWriter" where
  "fail err h = (if hb_failed h \<noteq> None then h else h\<lparr>hb_failed := Some err\<rparr>)"

text \<open>The error returned to the writer, and the new state; \<open>res\<close> is the error of the connection.\<close>

definition Write :: "string \<Rightarrow> time \<Rightarrow> string option \<Rightarrow> heartbeatWriter \<Rightarrow> string option \<times> heartbeatWriter" where
  "Write p now res h =
     (case hb_failed h of
        Some err \<Rightarrow> (Some err, h)
      | None \<Rightarrow>
          (case res of
             None \<Rightarrow> (None, h\<lparr>hb_lastWrite := now, hb_sent := hb_sent h @ [(now, SentBytes p)]\<rparr>)
           | Some err \<Rightarrow> (Some err, fail err (h\<lparr>hb_lastWrite := now\<rparr>))))"

text \<open>\<open>now\<close> is the time the timer fired and \<open>clock\<close> the time at which the frame is written.\<close>

definition beat :: "time \<Rightarrow> time \<Rightarrow> string option \<Rightarrow> heartbeatWriter \<Rightarrow> duration option \<times> heartbeatWriter" where
  "beat now clock res h =
     (if hb_failed h \<noteq> None then (None, h)
      else let idle = time_sub now (hb_lastWrite h) in
        if idle < sseHeartbeatInterval then (Some (sseHeartbeatInterval - idle), h)
        else (case res of
                Some err \<Rightarrow> (None, fail err h)
              | None \<Rightarrow> (Some sseHeartbeatInterval,
                         h\<lparr>hb_lastWrite := now, hb_sent := hb_sent h @ [(clock, SentBytes sseHeartbeatFrame)]\<rparr>)))"

text \<open>One round of the goroutine's loop, on its timer and on the closed stop channel.\<close>

definition run_timer :: "time \<Rightarrow> time \<Rightarrow> string option \<Rightarrow> heartbeatWriter \<Rightarrow> heartbeatWriter" where
  "run_timer now clock res h =
     (case beat now clock res h of
        (None, h') \<Rightarrow> h'\<lparr>hb_done := True\<rparr>
      | (Some wait, h') \<Rightarrow> h'\<lparr>hb_timer := clock + wait\<rparr>)"

definition run_stop :: "heartbeatWriter \<Rightarrow> heartbeatWriter" where
  "run_stop h = h\<lparr>hb_done := True\<rparr>"

definition Stop :: "heartbeatWriter \<Rightarrow> heartbeatWriter" where
  "Stop h = h\<lparr>hb_stop := True\<rparr>"

definition Stop_returns :: "heartbeatWriter \<Rightarrow> bool" where
  "Stop_returns h \<longleftrightarrow> hb_stop h \<and> (hb_armed h \<longrightarrow> hb_done h)"

section \<open>Interleavings\<close>

definition live :: "heartbeatWriter \<Rightarrow> bool" where
  "live h \<longleftrightarrow> hb_armed h \<and> \<not> hb_done h"

inductive hb_step :: "duration \<Rightarrow> time \<times> heartbeatWriter \<Rightarrow> time \<times> heartbeatWriter \<Rightarrow> bool" for eps where
  tick: "t \<le> t' \<Longrightarrow> (live h \<Longrightarrow> t' \<le> hb_timer h + eps) \<Longrightarrow> hb_step eps (t, h) (t', h)"
| header: "t \<le> started \<Longrightarrow> started \<le> t + eps \<Longrightarrow> hb_step eps (t, h) (t, WriteHeader status contentType t started h)"
| bytes: "Write p t res h = (e, h') \<Longrightarrow> hb_step eps (t, h) (t, h')"
| timer: "live h \<Longrightarrow> hb_timer h \<le> now \<Longrightarrow> now \<le> t \<Longrightarrow> hb_step eps (t, h) (t, run_timer now t res h)"
| stop: "hb_step eps (t, h) (t, Stop h)"
| quit: "live h \<Longrightarrow> hb_stop h \<Longrightarrow> hb_step eps (t, h) (t, run_stop h)"

inductive_cases hb_stepE: "hb_step eps s s'"

abbreviation hb_steps :: "duration \<Rightarrow> time \<times> heartbeatWriter \<Rightarrow> time \<times> heartbeatWriter \<Rightarrow> bool" where
  "hb_steps eps \<equiv> (hb_step eps)\<^sup>*\<^sup>*"

lemmas hb_ops = WriteHeader_def Write_def fail_def run_timer_def beat_def Stop_def run_stop_def live_def

section \<open>The stream is never silent for long\<close>

text \<open>The deadline follows the last write by at most an interval and the latency of the goroutine.\<close>

definition hb_inv :: "duration \<Rightarrow> time \<Rightarrow> heartbeatWriter \<Rightarrow> bool" where
  "hb_inv eps t h \<longleftrightarrow>
     (live h \<longrightarrow> hb_lastWrite h \<le> t \<and> hb_timer h \<le> hb_lastWrite h + sseHeartbeatInterval + eps \<and> t \<le> hb_timer h + eps
        \<and> (hb_failed h = None \<longrightarrow> (\<exists>u x. (u, x) \<in> set (hb_sent h) \<and> hb_lastWrite h \<le> u)))"

lemma hb_inv_timer:
  assumes "hb_inv eps t h" "live h" "hb_timer h \<le> now" "now \<le> t" "0 \<le> eps" "eps \<le> max_int64"
  shows "hb_inv eps t (run_timer now t res h)"
proof -
  have i: "hb_lastWrite h \<le> t" "t \<le> hb_timer h + eps" using assms(1,2) by (auto simp: hb_inv_def)
  have lo: "min_int64 \<le> now - hb_lastWrite h"
    using i assms(3,6) by (simp add: min_int64_def max_int64_def)
  have s: "time_sub now (hb_lastWrite h) < sseHeartbeatInterval \<longleftrightarrow> now - hb_lastWrite h < sseHeartbeatInterval"
    by (rule time_sub_less_iff) (simp_all add: min_int64_def max_int64_def sseHeartbeatInterval_def second_def)
  have e: "time_sub now (hb_lastWrite h) = now - hb_lastWrite h" if "now - hb_lastWrite h < sseHeartbeatInterval"
    using that lo by (simp add: time_sub_def min_int64_def max_int64_def sseHeartbeatInterval_def second_def)
  have p: "0 < sseHeartbeatInterval" by (simp add: sseHeartbeatInterval_def second_def)
  show ?thesis
    using assms i p s e
    by (cases "hb_failed h"; cases "now - hb_lastWrite h < sseHeartbeatInterval"; cases res)
      (fastforce simp: hb_inv_def hb_ops)+
qed

lemma hb_inv_step:
  assumes "hb_step eps (t, h) (t', h')" "hb_inv eps t h" "0 \<le> eps" "eps \<le> max_int64"
  shows "hb_inv eps t' h'"
  using assms(1)
proof (cases rule: hb_step.cases)
  case (timer now res)
  then show ?thesis using assms hb_inv_timer by simp
next
  case (header started status contentType)
  have "0 < sseHeartbeatInterval" by (simp add: sseHeartbeatInterval_def second_def)
  then show ?thesis using header assms by (auto simp: hb_inv_def hb_ops Let_def)
next
  case (bytes p res e)
  then show ?thesis using assms by (fastforce simp: hb_inv_def hb_ops split: option.splits if_splits)
qed (use assms in \<open>auto simp: hb_inv_def hb_ops split: option.splits if_splits\<close>)

lemma hb_inv_steps:
  "hb_steps eps s s' \<Longrightarrow> 0 \<le> eps \<Longrightarrow> eps \<le> max_int64 \<Longrightarrow> hb_inv eps (fst s) (snd s) \<Longrightarrow> hb_inv eps (fst s') (snd s')"
proof (induction rule: rtranclp_induct)
  case (step y z)
  then show ?case using hb_inv_step[of eps "fst y" "snd y" "fst z" "snd z"] by simp
qed

text \<open>
  C20. While the heartbeat goroutine lives and no write has failed, something was sent to the client within the
  last heartbeat interval of fifteen seconds plus twice the latency with which the scheduler lets the goroutine
  run, whatever the streamer writes and whenever it does.
\<close>

theorem heartbeat_silence_bounded:
  assumes "hb_steps eps (t0, newHeartbeatWriter) (t, h)" and "0 \<le> eps" "eps \<le> max_int64"
    and "live h" and "hb_failed h = None"
  shows "\<exists>u x. (u, x) \<in> set (hb_sent h) \<and> t - u \<le> sseHeartbeatInterval + 2 * eps"
proof -
  have "hb_inv eps t0 newHeartbeatWriter" by (simp add: hb_inv_def live_def newHeartbeatWriter_def)
  then have "hb_inv eps t h" using hb_inv_steps[OF assms(1-3)] by simp
  then show ?thesis using assms(4,5) unfolding hb_inv_def by force
qed

text \<open>A stream armed at time zero and idle for one interval.\<close>

definition idle_writer :: heartbeatWriter where
  "idle_writer = run_timer (15 * second) (15 * second) None (WriteHeader 200 ''text/event-stream'' 0 0 newHeartbeatWriter)"

lemma idle_writer_eq:
  "idle_writer = \<lparr>hb_armed = True, hb_lastWrite = 15 * second, hb_failed = None, hb_stop = False, hb_done = False,
     hb_timer = 30 * second, hb_sent = [(0, SentHeader 200), (15 * second, SentBytes sseHeartbeatFrame)]\<rparr>"
  by (simp add: idle_writer_def hb_ops newHeartbeatWriter_def HasPrefix_def sseHeartbeatInterval_def second_def
      time_sub_def min_int64_def max_int64_def)

lemma idle_writer_reached: "hb_steps 0 (0, newHeartbeatWriter) (15 * second, idle_writer)"
proof -
  let ?h = "WriteHeader 200 ''text/event-stream'' 0 0 newHeartbeatWriter"
  have l: "live ?h" "hb_timer ?h = 15 * second"
    by (simp_all add: hb_ops newHeartbeatWriter_def HasPrefix_def sseHeartbeatInterval_def)
  have "hb_step 0 (0, newHeartbeatWriter) (0, ?h)" by (rule hb_step.header) simp_all
  moreover have "hb_step 0 (0, ?h) (15 * second, ?h)" using l by (intro hb_step.tick) (simp_all add: second_def)
  moreover have "hb_step 0 (15 * second, ?h) (15 * second, idle_writer)"
    unfolding idle_writer_def using l by (intro hb_step.timer) simp_all
  ultimately show ?thesis by (meson converse_rtranclp_into_rtranclp r_into_rtranclp)
qed

theorem heartbeat_silence_bounded_witness:
  "hb_steps 0 (0, newHeartbeatWriter) (15 * second, idle_writer) \<and> live idle_writer
   \<and> (\<exists>u x. (u, x) \<in> set (hb_sent idle_writer) \<and> 15 * second - u \<le> sseHeartbeatInterval + 2 * 0)"
  using heartbeat_silence_bounded[OF idle_writer_reached] idle_writer_reached
  by (simp add: idle_writer_eq live_def max_int64_def)

section \<open>A failed write ends the stream\<close>

definition bytes_sent :: "heartbeatWriter \<Rightarrow> (time \<times> sent) list" where
  "bytes_sent h = filter (\<lambda>(_, x). case x of SentBytes _ \<Rightarrow> True | SentHeader _ \<Rightarrow> False) (hb_sent h)"

lemma failed_step:
  "hb_step eps (t, h) (t', h') \<Longrightarrow> hb_failed h = Some e \<Longrightarrow> hb_failed h' = Some e \<and> bytes_sent h' = bytes_sent h"
  by (erule hb_step.cases) (auto simp: hb_ops Let_def bytes_sent_def split: option.splits if_splits)

text \<open>
  Once a write to the client has failed, be it a heartbeat or a frame, no further byte reaches the client,
  every later write returns that first error, and the goroutine exits the next time it wakes.
\<close>

theorem failed_write_latched:
  assumes "hb_steps eps (t, h) (t', h')" and "hb_failed h = Some e"
  shows "hb_failed h' = Some e \<and> bytes_sent h' = bytes_sent h \<and> Write p now res h' = (Some e, h')
           \<and> hb_done (run_timer now clock res h')"
proof -
  have "hb_failed (snd (t', h')) = Some e \<and> bytes_sent (snd (t', h')) = bytes_sent h"
    using assms(1)
  proof (induction rule: rtranclp_induct)
    case (step y z)
    then show ?case using failed_step[of eps "fst y" "snd y" "fst z" "snd z" e] by simp
  qed (simp add: assms(2))
  then show ?thesis by (simp add: Write_def run_timer_def beat_def)
qed

theorem failed_write_latched_witness:
  "let h = snd (Write ''x'' 0 (Some ''closed'') newHeartbeatWriter) in
   Write ''y'' 1 None h = (Some ''closed'', h) \<and> bytes_sent h = []"
  using failed_write_latched[of 0 0 "snd (Write ''x'' 0 (Some ''closed'') newHeartbeatWriter)" 0
      "snd (Write ''x'' 0 (Some ''closed'') newHeartbeatWriter)" "''closed''" "''y''" 1 None 0]
  by (simp add: Write_def fail_def newHeartbeatWriter_def bytes_sent_def)

end
