(* ===== verification/Stream_Base.thy ===== *)
theory Stream_Base
  imports Tool_Loop Sse_Heartbeat
begin

text \<open>
  What both streaming surfaces share (\<open>toolruntime/stream_base.go\<close> and the embedded part of the two
  streamers): the client connection with its latched write error, the response headers, the pinned model
  name, the usage totals, and the opening of an upstream stream.

  The outside world is the parameter \<open>stream_env\<close>: opening a stream returns all the bytes the model will send
  with the error that ends them, and a write to the client returns the error of the connection; both thread a
  world, so that an answer may depend on everything before it. \<open>sb_out\<close> records the frames the connection
  accepted, \<open>sb_posts\<close> the requests sent to the model and \<open>sb_bills\<close> the billing events. Flushing has no
  effect of its own here, and the heartbeat that wraps the connection is the subject of its own theory.
\<close>

section \<open>Parameters\<close>

record stream_answer =
  sa_status :: int
  sa_header :: header
  sa_body :: string
  sa_readErr :: "string option"

record ('s, 'w) stream_env =
  se_tools :: "('s, 'w) loop_env"
  se_open :: "'w \<Rightarrow> string \<Rightarrow> json_object \<Rightarrow> header \<Rightarrow> (string + stream_answer) \<times> 'w"
  se_write :: "'w \<Rightarrow> string \<Rightarrow> string option \<times> 'w"
  se_unix :: "'w \<Rightarrow> int"
  se_uuid :: "nat \<Rightarrow> string"
  se_time :: "'w \<Rightarrow> time"

section \<open>State\<close>

record 'w streamBase =
  sb_world :: 'w
  sb_out :: "client_write list"
  sb_header :: header
  sb_status :: "int option"
  usageMetricsRequested :: bool
  sb_tools :: tool_state
  usageTotals :: usageAccumulator
  headersWritten :: bool
  upstreamHeaders :: "header option"
  sb_model :: string
  writeErr :: "string option"
  sb_posts :: "json_object list"
  sb_bills :: "Event list"
  sb_uuids :: nat

section \<open>Writing to the client\<close>

text \<open>The common body of \<open>emitData\<close>, \<open>emitEvent\<close> and the writes of the end marker.\<close>

definition emit_frame ::
  "loop_lib \<Rightarrow> ('s, 'w) stream_env \<Rightarrow> client_write \<Rightarrow> ('w, 'a) streamBase_scheme \<Rightarrow> ('w, 'a) streamBase_scheme" where
  "emit_frame lib env x s =
     (if writeErr s \<noteq> None then s
      else case print_write (ll_encode lib) x of
             None \<Rightarrow> s\<lparr>writeErr := Some ''encode''\<rparr>
           | Some t \<Rightarrow>
               (case se_write env (sb_world s) t of
                  (Some err, w) \<Rightarrow> s\<lparr>sb_world := w, writeErr := Some err\<rparr>
                | (None, w) \<Rightarrow> s\<lparr>sb_world := w, sb_out := sb_out s @ [x]\<rparr>))"

text \<open>\<open>addTrailerHeader\<close> of this package.\<close>

definition addTrailerHeader :: "header \<Rightarrow> string \<Rightarrow> header" where
  "addTrailerHeader h name =
     (let existing = header_values h ''Trailer'' in
      if list_ex (\<lambda>part. CanonicalMIMEHeaderKey (TrimSpace part) = CanonicalMIMEHeaderKey name)
           (concat (map (split_on (CHR '','')) existing)) then h
      else if existing = [] then header_set ''Trailer'' name h
      else header_set ''Trailer'' (join_with '', '' (existing @ [name])) h)"

definition writeSSEHeaders :: "header \<Rightarrow> ('w, 'a) streamBase_scheme \<Rightarrow> ('w, 'a) streamBase_scheme" where
  "writeSSEHeaders up s =
     (let h0 = AList.delete UsageMetricsResponseHeader (AList.delete ''Content-Length'' (copyResponseHeaders (sb_header s) up));
          h1 = header_set ''Connection'' ''keep-alive'' (header_set ''Cache-Control'' ''no-cache''
                 (header_set ''Content-Type'' ''text/event-stream'' h0));
          h2 = (if usageMetricsRequested s then addTrailerHeader h1 UsageMetricsResponseHeader else h1)
      in s\<lparr>sb_header := h2, sb_status := Some 200, headersWritten := True\<rparr>)"

definition streamAborted :: "runtime_error option \<Rightarrow> ('w, 'a) streamBase_scheme \<Rightarrow> runtime_error option" where
  "streamAborted err s =
     (case err of
        None \<Rightarrow> None
      | Some e \<Rightarrow> if \<not> headersWritten s then Some e else Some (StreamAbortedError e))"

definition validateStreamModel :: "string \<Rightarrow> ('w, 'a) streamBase_scheme \<Rightarrow> string \<times> ('w, 'a) streamBase_scheme" where
  "validateStreamModel fieldPath s =
     (sb_model s,
      if sb_model s = [] \<and> writeErr s = None
      then s\<lparr>writeErr := Some (''upstream stream missing '' @ fieldPath @ '' field'')\<rparr> else s)"

section \<open>Errors of the upstream stream\<close>

definition mustMarshal :: "(json \<Rightarrow> string option) \<Rightarrow> json \<Rightarrow> string" where
  "mustMarshal encode v = (case encode v of None \<Rightarrow> [] | Some t \<Rightarrow> t)"

definition newUpstreamJSONError :: "(json \<Rightarrow> string option) \<Rightarrow> json_object \<Rightarrow> runtime_error" where
  "newUpstreamJSONError encode errObj =
     UpstreamError 502 [(''Content-Type'', [''application/json''])] (mustMarshal encode (JObject [(''error'', JObject errObj)]))"

definition newUpstreamStreamError :: "(json \<Rightarrow> string option) \<Rightarrow> runtime_error" where
  "newUpstreamStreamError encode = newUpstreamJSONError encode (ErrorBody_Map (Envelope ErrUpstream))"

definition upstreamErrorPayload :: "(string \<Rightarrow> json_object option) \<Rightarrow> runtime_error \<Rightarrow> json_object" where
  "upstreamErrorPayload decode_map err =
     ErrorBody_Map (Envelope
       (case err of
          UpstreamError status _ body \<Rightarrow> fst (NormalizeUpstreamError decode_map status body)
        | _ \<Rightarrow> ErrUpstream))"

section \<open>Opening a stream\<close>

definition openUpstreamSSE ::
  "('s, 'w) stream_env \<Rightarrow> string \<Rightarrow> json_object \<Rightarrow> header \<Rightarrow> ('w, 'a) streamBase_scheme \<Rightarrow>
   (runtime_error + sseReader) \<times> ('w, 'a) streamBase_scheme" where
  "openUpstreamSSE env path reqBody requestHeaders s =
     (let hdrs = header_set ''Accept'' ''text/event-stream'' (header_set ''Content-Type'' ''application/json'' requestHeaders);
          s0 = s\<lparr>sb_posts := sb_posts s @ [reqBody]\<rparr>
      in case se_open env (sb_world s) path reqBody hdrs of
           (Inl err, w) \<Rightarrow> (Inl (OtherError err), s0\<lparr>sb_world := w\<rparr>)
         | (Inr resp, w) \<Rightarrow>
             if sa_status resp < 200 \<or> 300 \<le> sa_status resp
             then (Inl (UpstreamError (sa_status resp) (sa_header resp)
                          (take (nat MaxUpstreamErrorBodyBytes) (sa_body resp))), s0\<lparr>sb_world := w\<rparr>)
             else let s1 = s0\<lparr>sb_world := w, upstreamHeaders := Some (sa_header resp)\<rparr> in
               (Inr (newSSEReader (sa_body resp) (sa_readErr resp)),
                if headersWritten s1 then s1 else writeSSEHeaders (sa_header resp) s1))"

text \<open>\<open>usage\<close> is nil or an object.\<close>

definition bill_stream ::
  "loop_lib \<Rightarrow> ('s, 'w) stream_env \<Rightarrow> tool_request \<Rightarrow> string \<Rightarrow> json \<Rightarrow> ('w, 'a) streamBase_scheme \<Rightarrow> ('w, 'a) streamBase_scheme" where
  "bill_stream lib env r modelName usage s =
     s\<lparr>sb_bills := sb_bills s @
         emitBillingEvent (ll_usage lib) (se_time env (sb_world s)) r
           (Some \<lparr>rs_body = Some [(''usage'', usage)],
                  rs_header = (case upstreamHeaders s of None \<Rightarrow> [] | Some h \<Rightarrow> h), rs_status = 0\<rparr>) modelName True\<rparr>"

text \<open>Usage of a turn is added to the totals.\<close>

definition add_usage :: "loop_lib \<Rightarrow> json \<Rightarrow> ('w, 'a) streamBase_scheme \<Rightarrow> ('w, 'a) streamBase_scheme" where
  "add_usage lib usage s =
     s\<lparr>usageTotals := acc_Add (ll_usage lib) \<lparr>rs_body = Some [(''usage'', usage)], rs_header = [], rs_status = 0\<rparr> (usageTotals s)\<rparr>"

text \<open>The totals that usages add up to, whatever their order and their gaps.\<close>

definition usage_total :: "loop_lib \<Rightarrow> json list \<Rightarrow> usageAccumulator" where
  "usage_total lib us =
     usage_sums (map (\<lambda>u. turn_usage (ll_usage lib) \<lparr>rs_body = Some [(''usage'', u)], rs_header = [], rs_status = 0\<rparr>) us)"

lemma usage_total_Nil: "usage_total lib [] = no_usage"
  by (simp add: usage_total_def usage_sums_Nil)

lemma usage_total_add:
  "usageTotals s = usage_total lib us \<Longrightarrow> usageTotals (add_usage lib u s) = usage_total lib (us @ [u])"
  by (simp add: add_usage_def usage_total_def acc_Add_sums)

lemma usage_total_null [simp]: "usage_total lib (us @ [JNull]) = usage_total lib us"
  by (simp add: usage_total_def usage_sums_def turn_usage_def usageFromRaw_def args_of_def field_def)

text \<open>An event that bills the prompt and completion tokens of these usages.\<close>

definition tokens_billed :: "loop_lib \<Rightarrow> json list \<Rightarrow> Event \<Rightarrow> bool" where
  "tokens_billed lib us ev \<longleftrightarrow>
     ev_PromptTokens ev = promptTokens (usage_total lib us) \<and> ev_CompletionTokens ev = completionTokens (usage_total lib us)"

section \<open>Values\<close>

text \<open>
  \<open>int(numberValue(v))\<close>: truncation towards zero; a value outside of the 64-bit range gives the least
  integer, as the conversion instruction of amd64 does.
\<close>

definition trunc :: "rat \<Rightarrow> int" where
  "trunc q = (let n = (if q < 0 then - \<lfloor>- q\<rfloor> else \<lfloor>q\<rfloor>) in if n < min_int64 \<or> max_int64 < n then min_int64 else n)"

definition int_value :: "json \<Rightarrow> int" where
  "int_value v = (case v of JFloat q \<Rightarrow> trunc q | _ \<Rightarrow> 0)"

definition keep_or :: "string \<Rightarrow> string \<Rightarrow> string" where
  "keep_or old new = (if old = [] then new else old)"

end
