(* ===== verification/Chat_Calls.thy ===== *)
theory Chat_Calls
  imports Stream_Base
begin

text \<open>
  Tool calls of a chat stream (the builder and the forwarder of \<open>toolruntime/chat_stream.go\<close>). The model sends
  a call in fragments under an index. The builder assembles them for the tool loop; the forwarder classifies
  each call by its name, passes the fragments of a client-owned call on under an index of the client's
  stream, holds fragments that come before the name, and drops the fragments of a router-owned call.

  The forwarder's callback is modelled by the list of fragments it is called with. The set of streamed
  identifiers is a list.
\<close>

section \<open>The builder\<close>

record chatToolCallEntry =
  en_id :: string
  en_type :: string
  en_name :: string
  en_args :: string

definition empty_entry :: chatToolCallEntry where
  "empty_entry = \<lparr>en_id = [], en_type = [], en_name = [], en_args = []\<rparr>"

definition merge_delta :: "json_object \<Rightarrow> chatToolCallEntry \<Rightarrow> chatToolCallEntry" where
  "merge_delta m e =
     (let e1 = (if string_field m ''id'' = [] then e else e\<lparr>en_id := string_field m ''id''\<rparr>);
          e2 = (if string_field m ''type'' = [] then e1 else e1\<lparr>en_type := string_field m ''type''\<rparr>)
      in case field m ''function'' of
           JObject fn \<Rightarrow>
             let e3 = (if string_field fn ''name'' = [] then e2 else e2\<lparr>en_name := string_field fn ''name''\<rparr>)
             in e3\<lparr>en_args := en_args e3 @ string_field fn ''arguments''\<rparr>
         | _ \<Rightarrow> e2)"

definition grow_to :: "nat \<Rightarrow> chatToolCallEntry list \<Rightarrow> chatToolCallEntry list" where
  "grow_to i es = es @ replicate (i + 1 - length es) empty_entry"

definition builder_toolCalls :: "loop_lib \<Rightarrow> chatToolCallEntry list \<Rightarrow> toolCall list" where
  "builder_toolCalls lib es =
     map (\<lambda>e. \<lparr>call_id = en_id e, call_name = en_name e,
               call_arguments =
                 (if en_args e = [] then Some []
                  else case ll_unmarshal lib (fst (sanitizeToolCallArgumentsJSON (ll_valid lib) (en_args e))) of
                         None \<Rightarrow> Some [] | Some parsed \<Rightarrow> parsed)\<rparr>)
       (filter (\<lambda>e. en_name e \<noteq> []) es)"

definition builder_raw :: "chatToolCallEntry list \<Rightarrow> json list" where
  "builder_raw es =
     map (\<lambda>e. JObject [(''id'', JString (en_id e)), (''type'', JString (keep_or (en_type e) ''function'')),
                       (''function'', JObject [(''name'', JString (en_name e)), (''arguments'', JString (en_args e))])])
       (filter (\<lambda>e. en_name e \<noteq> []) es)"

section \<open>The forwarder\<close>

datatype clientToolCallForwardMode = ForwardPending | ForwardLive | ForwardDrop

record clientToolCallDeltaState =
  ds_pending :: "json_object list"
  ds_mode :: clientToolCallForwardMode

record clientToolCallDeltaForwarder =
  stateByUpstreamIndex :: "(int, clientToolCallDeltaState) gomap"
  clientIndexByUpstream :: "(int, int) gomap"
  nextClientIndex :: int
  streamedIDs :: "string list"
  streamedWithoutIDs :: "(string, int) gomap"

definition newClientToolCallDeltaForwarder :: clientToolCallDeltaForwarder where
  "newClientToolCallDeltaForwarder = \<lparr>stateByUpstreamIndex = [], clientIndexByUpstream = [], nextClientIndex = 0,
     streamedIDs = [], streamedWithoutIDs = []\<rparr>"

definition resetIteration :: "clientToolCallDeltaForwarder \<Rightarrow> clientToolCallDeltaForwarder" where
  "resetIteration f = f\<lparr>stateByUpstreamIndex := [], clientIndexByUpstream := [], streamedWithoutIDs := []\<rparr>"

definition fw_state :: "int \<Rightarrow> clientToolCallDeltaForwarder \<Rightarrow> clientToolCallDeltaState" where
  "fw_state i f =
     (case map_of (stateByUpstreamIndex f) i of
        None \<Rightarrow> \<lparr>ds_pending = [], ds_mode = ForwardPending\<rparr> | Some st \<Rightarrow> st)"

definition set_state :: "int \<Rightarrow> clientToolCallDeltaState \<Rightarrow> clientToolCallDeltaForwarder \<Rightarrow> clientToolCallDeltaForwarder" where
  "set_state i st f = f\<lparr>stateByUpstreamIndex := AList.update i st (stateByUpstreamIndex f)\<rparr>"

definition clientIndex :: "int \<Rightarrow> clientToolCallDeltaForwarder \<Rightarrow> int \<times> clientToolCallDeltaForwarder" where
  "clientIndex i f =
     (case map_of (clientIndexByUpstream f) i of
        Some k \<Rightarrow> (k, f)
      | None \<Rightarrow> (nextClientIndex f,
                 f\<lparr>clientIndexByUpstream := AList.update i (nextClientIndex f) (clientIndexByUpstream f),
                   nextClientIndex := nextClientIndex f + 1\<rparr>))"

definition forwarded_delta :: "int \<Rightarrow> json_object \<Rightarrow> json_object" where
  "forwarded_delta k raw =
     [(''index'', JInt k)] @ optional_field ''id'' (string_field raw ''id'') @ optional_field ''type'' (string_field raw ''type'') @
     (case field raw ''function'' of JObject fn \<Rightarrow> if fn = [] then [] else [(''function'', JObject fn)] | _ \<Rightarrow> [])"

definition forward :: "int \<Rightarrow> json_object \<Rightarrow> clientToolCallDeltaForwarder \<Rightarrow> json_object \<times> clientToolCallDeltaForwarder" where
  "forward i raw f =
     (case clientIndex i f of
        (k, f1) \<Rightarrow>
          (forwarded_delta k raw,
           if string_field raw ''id'' = [] then f1 else f1\<lparr>streamedIDs := string_field raw ''id'' # streamedIDs f1\<rparr>))"

fun forward_all ::
  "int \<Rightarrow> json_object list \<Rightarrow> clientToolCallDeltaForwarder \<Rightarrow> json_object list \<times> clientToolCallDeltaForwarder" where
  "forward_all i [] f = ([], f)"
| "forward_all i (raw # raws) f =
     (case forward i raw f of (m, f1) \<Rightarrow> (case forward_all i raws f1 of (ms, f2) \<Rightarrow> (m # ms, f2)))"

definition fw_ingest ::
  "string list \<Rightarrow> int \<Rightarrow> string \<Rightarrow> json_object \<Rightarrow> clientToolCallDeltaForwarder \<Rightarrow> json_object list \<times> clientToolCallDeltaForwarder" where
  "fw_ingest own i toolName rawDelta f =
     (let st = fw_state i f; f0 = set_state i st f in
      case ds_mode st of
        ForwardLive \<Rightarrow> forward_all i [rawDelta] f0
      | ForwardDrop \<Rightarrow> ([], f0)
      | ForwardPending \<Rightarrow>
          if toolName = [] then ([], set_state i (st\<lparr>ds_pending := ds_pending st @ [rawDelta]\<rparr>) f0)
          else if toolName \<in> set own then ([], set_state i \<lparr>ds_pending = [], ds_mode = ForwardDrop\<rparr> f0)
          else forward_all i (ds_pending st @ [rawDelta]) (set_state i \<lparr>ds_pending = [], ds_mode = ForwardLive\<rparr> f0))"

section \<open>Ingesting fragments\<close>

type_synonym call_state = "chatToolCallEntry list \<times> clientToolCallDeltaForwarder"

definition ingest_delta :: "string list \<Rightarrow> json \<Rightarrow> call_state \<Rightarrow> json_object list \<times> call_state" where
  "ingest_delta own item cs =
     (case (item, cs) of
        (JObject m, es, f) \<Rightarrow>
          (let idx = int_value (field m ''index'') in
           if idx < 0 then ([], cs)
           else let es1 = grow_to (nat idx) es;
                    e = merge_delta m (es1 ! nat idx)
                in case fw_ingest own idx (en_name e) m f of (out, f') \<Rightarrow> (out, es1[nat idx := e], f'))
      | _ \<Rightarrow> ([], cs))"

fun ingest :: "string list \<Rightarrow> json list \<Rightarrow> call_state \<Rightarrow> json_object list \<times> call_state" where
  "ingest own [] cs = ([], cs)"
| "ingest own (item # items) cs =
     (case ingest_delta own item cs of
        (out, cs1) \<Rightarrow> (case ingest own items cs1 of (outs, cs2) \<Rightarrow> (out @ outs, cs2)))"

section \<open>Calls not streamed\<close>

definition count_of :: "string \<Rightarrow> (string, int) gomap \<Rightarrow> int" where
  "count_of n m = (case map_of m n of None \<Rightarrow> 0 | Some c \<Rightarrow> c)"

definition count_entry :: "nat \<times> chatToolCallEntry \<Rightarrow> clientToolCallDeltaForwarder \<Rightarrow> clientToolCallDeltaForwarder" where
  "count_entry p f =
     (case p of (i, e) \<Rightarrow>
        case map_of (stateByUpstreamIndex f) (int i) of
          None \<Rightarrow> f
        | Some st \<Rightarrow>
            if en_id e = [] \<and> ds_mode st = ForwardLive
            then f\<lparr>streamedWithoutIDs := AList.update (en_name e) (count_of (en_name e) (streamedWithoutIDs f) + 1) (streamedWithoutIDs f)\<rparr>
            else f)"

definition recordStreamedWithoutIDs ::
  "chatToolCallEntry list \<Rightarrow> clientToolCallDeltaForwarder \<Rightarrow> clientToolCallDeltaForwarder" where
  "recordStreamedWithoutIDs es f = fold count_entry (number_from 0 es) f"

fun unstreamed_loop :: "string list \<Rightarrow> toolCall list \<Rightarrow> (string, int) gomap \<Rightarrow> toolCall list \<times> (string, int) gomap" where
  "unstreamed_loop ids [] counts = ([], counts)"
| "unstreamed_loop ids (call # calls) counts =
     (if call_id call \<noteq> [] \<and> call_id call \<in> set ids then unstreamed_loop ids calls counts
      else if call_id call = [] \<and> 0 < count_of (call_name call) counts
      then unstreamed_loop ids calls (AList.update (call_name call) (count_of (call_name call) counts - 1) counts)
      else case unstreamed_loop ids calls counts of (out, counts') \<Rightarrow> (call # out, counts'))"

definition unstreamed ::
  "toolCall list \<Rightarrow> clientToolCallDeltaForwarder \<Rightarrow> toolCall list \<times> clientToolCallDeltaForwarder" where
  "unstreamed calls f =
     (if streamedIDs f = [] \<and> streamedWithoutIDs f = [] then (calls, f)
      else case unstreamed_loop (streamedIDs f) calls (streamedWithoutIDs f) of
             (out, counts) \<Rightarrow> (out, f\<lparr>streamedWithoutIDs := counts\<rparr>))"

definition rawToolCallMatchesParsed :: "json_object \<Rightarrow> toolCall \<Rightarrow> bool" where
  "rawToolCallMatchesParsed source call \<longleftrightarrow>
     (case field source ''function'' of
        JObject fn \<Rightarrow>
          string_field fn ''name'' = call_name call \<and> (call_id call = [] \<or> string_field source ''id'' = call_id call)
      | _ \<Rightarrow> False)"

fun rawToolCallsFromParsedAt :: "toolCall list \<Rightarrow> json list \<Rightarrow> int \<Rightarrow> json list" where
  "rawToolCallsFromParsedAt parsed [] startIndex = []"
| "rawToolCallsFromParsedAt [] (item # raw) startIndex = rawToolCallsFromParsedAt [] raw startIndex"
| "rawToolCallsFromParsedAt (call # parsed) (item # raw) startIndex =
     (case item of
        JObject source \<Rightarrow>
          if rawToolCallMatchesParsed source call
          then JObject [(''index'', JInt startIndex), (''id'', field source ''id''), (''type'', field source ''type''),
                        (''function'', field source ''function'')]
               # rawToolCallsFromParsedAt parsed raw (startIndex + 1)
          else rawToolCallsFromParsedAt (call # parsed) raw startIndex
      | _ \<Rightarrow> rawToolCallsFromParsedAt (call # parsed) raw startIndex)"

section \<open>What the client assembles\<close>

text \<open>A client merges the fragments it receives under an index by the rule the builder uses.\<close>

definition delta_index :: "json_object \<Rightarrow> int" where
  "delta_index m = (case field m ''index'' of JInt k \<Rightarrow> k | _ \<Rightarrow> 0)"

definition client_view :: "json_object list \<Rightarrow> int \<Rightarrow> chatToolCallEntry" where
  "client_view out k = fold merge_delta (filter (\<lambda>m. delta_index m = k) out) empty_entry"

definition entry_at :: "chatToolCallEntry list \<Rightarrow> int \<Rightarrow> chatToolCallEntry" where
  "entry_at es i = (if 0 \<le> i \<and> nat i < length es then es ! nat i else empty_entry)"

lemma delta_index_forwarded [simp]: "delta_index (forwarded_delta k raw) = k"
  by (simp add: delta_index_def forwarded_delta_def field_def)

lemma merge_forwarded [simp]: "merge_delta (forwarded_delta k raw) e = merge_delta raw e"
proof -
  have "string_field (forwarded_delta k raw) ''id'' = string_field raw ''id''"
    "string_field (forwarded_delta k raw) ''type'' = string_field raw ''type''"
    by (auto simp: forwarded_delta_def string_field_def field_def optional_field_def split: option.splits json.splits)
  moreover have "field (forwarded_delta k raw) ''function'' =
      (case field raw ''function'' of JObject fn \<Rightarrow> if fn = [] then JNull else JObject fn | _ \<Rightarrow> JNull)"
    by (auto simp: forwarded_delta_def optional_field_def field_def split: option.splits json.splits)
  ultimately show ?thesis
    by (auto simp: merge_delta_def string_field_def field_def Let_def split: json.splits)
qed

lemma client_view_append: "client_view (out @ out') k = fold merge_delta (filter (\<lambda>m. delta_index m = k) out') (client_view out k)"
  by (simp add: client_view_def)

lemma client_view_forwarded:
  "client_view (out @ map (forwarded_delta k) raws) k' =
     (if k' = k then fold merge_delta raws (client_view out k) else client_view out k')"
proof (cases "k' = k")
  case True
  have "fold merge_delta (map (forwarded_delta k) raws) e = fold merge_delta raws e" for e
    by (induction raws arbitrary: e) simp_all
  moreover have "filter (\<lambda>m. delta_index m = k) (map (forwarded_delta k) raws) = map (forwarded_delta k) raws"
    by (simp add: filter_map o_def)
  ultimately show ?thesis using True by (simp add: client_view_append)
next
  case False
  then show ?thesis by (simp add: client_view_append filter_map o_def)
qed

section \<open>The forwarder's invariant\<close>

definition ids_of :: "json_object list \<Rightarrow> string set" where
  "ids_of raws = (\<lambda>r. string_field r ''id'') ` set raws - {[]}"

lemma forward_all_eq:
  "raws \<noteq> [] \<Longrightarrow> clientIndex i f = (k, f1) \<Longrightarrow>
   \<exists>ids. forward_all i raws f = (map (forwarded_delta k) raws, f1\<lparr>streamedIDs := ids\<rparr>)
         \<and> set ids = ids_of raws \<union> set (streamedIDs f1)"
proof (induction raws arbitrary: f f1)
  case (Cons raw raws)
  define f2 where "f2 = (if string_field raw ''id'' = [] then f1 else f1\<lparr>streamedIDs := string_field raw ''id'' # streamedIDs f1\<rparr>)"
  have f: "forward i raw f = (forwarded_delta k raw, f2)" using Cons.prems by (simp add: forward_def f2_def)
  have k: "clientIndex i f2 = (k, f2)"
    using Cons.prems by (auto simp: clientIndex_def f2_def split: option.splits)
  have ids: "set (streamedIDs f2) = ids_of [raw] \<union> set (streamedIDs f1)" by (simp add: f2_def ids_of_def)
  have eq: "f2\<lparr>streamedIDs := ids\<rparr> = f1\<lparr>streamedIDs := ids\<rparr>" for ids by (simp add: f2_def)
  show ?case
  proof (cases "raws = []")
    case True
    have "f2 = f1\<lparr>streamedIDs := streamedIDs f2\<rparr>" by (simp add: f2_def)
    then show ?thesis using True f ids by (intro exI[of _ "streamedIDs f2"]) simp
  next
    case False
    then obtain ids' where i: "forward_all i raws f2 = (map (forwarded_delta k) raws, f2\<lparr>streamedIDs := ids'\<rparr>)"
      "set ids' = ids_of raws \<union> set (streamedIDs f2)"
      using Cons.IH[OF _ k] by blast
    have "set ids' = ids_of (raw # raws) \<union> set (streamedIDs f1)" using i(2) ids by (auto simp: ids_of_def)
    then show ?thesis using f i eq by auto
  qed
qed simp

text \<open>What holds of one call, by the mode of its index.\<close>

definition slot_ok :: "chatToolCallEntry list \<Rightarrow> clientToolCallDeltaForwarder \<Rightarrow> json_object list \<Rightarrow> int \<Rightarrow> bool" where
  "slot_ok es f out i \<longleftrightarrow>
     (let e = entry_at es i; c = map_of (clientIndexByUpstream f) i in
      case ds_mode (fw_state i f) of
        ForwardPending \<Rightarrow> en_name e = [] \<and> fold merge_delta (ds_pending (fw_state i f)) empty_entry = e \<and> c = None
      | ForwardLive \<Rightarrow> en_name e \<noteq> [] \<and> (\<exists>k. c = Some k \<and> client_view out k = e) \<and> (en_id e \<noteq> [] \<longrightarrow> en_id e \<in> set (streamedIDs f))
      | ForwardDrop \<Rightarrow> en_name e \<noteq> [] \<and> c = None)"

text \<open>The indexes given to the client: consecutive, one per forwarded call, and the only ones used.\<close>

definition indexes_ok :: "int \<Rightarrow> clientToolCallDeltaForwarder \<Rightarrow> json_object list \<Rightarrow> bool" where
  "indexes_ok base f out \<longleftrightarrow>
     base \<le> nextClientIndex f \<and> ran (map_of (clientIndexByUpstream f)) = {base..<nextClientIndex f}
     \<and> inj_on (map_of (clientIndexByUpstream f)) (dom (map_of (clientIndexByUpstream f)))
     \<and> delta_index ` set out \<subseteq> {base..<nextClientIndex f}"

definition calls_ok :: "int \<Rightarrow> call_state \<Rightarrow> json_object list \<Rightarrow> bool" where
  "calls_ok base cs out \<longleftrightarrow> (case cs of (es, f) \<Rightarrow> indexes_ok base f out \<and> (\<forall>i. slot_ok es f out i))"

lemma calls_okD: "calls_ok base (es, f) out \<Longrightarrow> slot_ok es f out i"
  by (simp add: calls_ok_def)

lemma slot_pending: "slot_ok es f out i \<Longrightarrow> ds_mode (fw_state i f) = ForwardPending \<Longrightarrow> en_name (entry_at es i) = []"
  by (simp add: slot_ok_def Let_def)

lemma fw_state_set [simp]: "fw_state j (set_state i st f) = (if j = i then st else fw_state j f)"
  by (simp add: fw_state_def set_state_def)

lemma set_state_sel [simp]:
  "clientIndexByUpstream (set_state i st f) = clientIndexByUpstream f" "nextClientIndex (set_state i st f) = nextClientIndex f"
  "streamedIDs (set_state i st f) = streamedIDs f"
  by (simp_all add: set_state_def)

lemma update_again: "AList.update k v (AList.update k v' m) = AList.update k v m"
  by (induction m) auto

lemma set_state_twice [simp]: "set_state i st (set_state i st' f) = set_state i st f"
  by (simp add: set_state_def update_again)

lemma merge_delta_name: "en_name e \<noteq> [] \<Longrightarrow> en_name (merge_delta m e) \<noteq> []"
  by (auto simp: merge_delta_def Let_def split: json.splits)

lemma merge_delta_id: "en_id (merge_delta m e) = (if string_field m ''id'' = [] then en_id e else string_field m ''id'')"
  by (auto simp: merge_delta_def Let_def split: json.splits)

lemma merge_deltas_id:
  "en_id (fold merge_delta raws e) \<noteq> [] \<Longrightarrow> en_id (fold merge_delta raws e) \<in> ids_of raws \<or> en_id (fold merge_delta raws e) = en_id e"
proof (induction raws arbitrary: e)
  case (Cons r raws)
  then show ?case using Cons.IH[of "merge_delta r e"] by (auto simp: merge_delta_id ids_of_def split: if_splits)
qed simp

lemma entry_at_grow [simp]: "entry_at (grow_to n es) i = entry_at es i"
  by (auto simp: entry_at_def grow_to_def nth_append empty_entry_def)

lemma entry_at_set:
  "0 \<le> i \<Longrightarrow> entry_at ((grow_to (nat i) es)[nat i := e]) j = (if j = i then e else entry_at es j)"
proof -
  assume i: "0 \<le> i"
  then have l: "nat i < length (grow_to (nat i) es)" by (simp add: grow_to_def)
  have "entry_at ((grow_to (nat i) es)[nat i := e]) j = (if j = i then e else entry_at (grow_to (nat i) es) j)"
    using i l by (auto simp: entry_at_def nth_list_update)
  then show ?thesis by simp
qed

lemma entry_at_nth: "0 \<le> i \<Longrightarrow> grow_to (nat i) es ! nat i = entry_at es i"
  by (auto simp: entry_at_def grow_to_def nth_append)

lemma slot_ok_other:
  assumes "slot_ok es f out j" "fw_state j f' = fw_state j f" "entry_at es' j = entry_at es j"
    "map_of (clientIndexByUpstream f') j = map_of (clientIndexByUpstream f) j" "set (streamedIDs f) \<subseteq> set (streamedIDs f')"
    "\<And>k. map_of (clientIndexByUpstream f) j = Some k \<Longrightarrow> client_view out' k = client_view out k"
  shows "slot_ok es' f' out' j"
  using assms by (auto simp: slot_ok_def Let_def split: clientToolCallForwardMode.splits)

text \<open>A step that forwards nothing changes one state only.\<close>

lemma calls_ok_silent:
  assumes ok: "calls_ok base (es, f) out" and i: "0 \<le> i"
    and es': "es' = (grow_to (nat i) es)[nat i := e]" and f': "f' = set_state i st f"
    and slot: "slot_ok es' f' out i"
  shows "calls_ok base (es', f') out"
proof -
  have "slot_ok es' f' out j" for j
  proof (cases "j = i")
    case False
    have "slot_ok es f out j" using ok by (simp add: calls_ok_def)
    then show ?thesis by (rule slot_ok_other) (use False i es' f' in \<open>simp_all add: entry_at_set\<close>)
  qed (simp add: slot)
  then show ?thesis using ok f' by (auto simp: calls_ok_def indexes_ok_def)
qed

lemma clientIndex_ok:
  assumes ok: "indexes_ok base f out" and c: "clientIndex i f = (k, f1)"
  shows "indexes_ok base (f1\<lparr>streamedIDs := ids\<rparr>) (out @ map (forwarded_delta k) raws)"
    and "map_of (clientIndexByUpstream f1) i = Some k"
    and "j \<noteq> i \<Longrightarrow> map_of (clientIndexByUpstream f1) j = map_of (clientIndexByUpstream f) j"
    and "j \<noteq> i \<Longrightarrow> map_of (clientIndexByUpstream f) j = Some k' \<Longrightarrow> k' \<noteq> k"
    and "map_of (clientIndexByUpstream f) i = None \<Longrightarrow> client_view out k = empty_entry"
    and "stateByUpstreamIndex f1 = stateByUpstreamIndex f" "streamedIDs f1 = streamedIDs f"
proof -
  have d: "delta_index ` set (map (forwarded_delta k) raws) \<subseteq> {k}" by auto
  have ran: "ran (map_of (clientIndexByUpstream f)) = {base..<nextClientIndex f}" using ok by (simp add: indexes_ok_def)
  show "map_of (clientIndexByUpstream f1) i = Some k"
    "j \<noteq> i \<Longrightarrow> map_of (clientIndexByUpstream f1) j = map_of (clientIndexByUpstream f) j"
    "stateByUpstreamIndex f1 = stateByUpstreamIndex f" "streamedIDs f1 = streamedIDs f"
    using c by (auto simp: clientIndex_def split: option.splits)
  show "k' \<noteq> k" if j: "j \<noteq> i" "map_of (clientIndexByUpstream f) j = Some k'"
  proof (cases "map_of (clientIndexByUpstream f) i")
    case None
    moreover have "k' \<in> ran (map_of (clientIndexByUpstream f))" using j(2) by (rule ranI)
    ultimately show ?thesis using c ran by (auto simp: clientIndex_def)
  next
    case (Some m)
    then have "m = k" using c by (simp add: clientIndex_def)
    then show ?thesis
      using ok j Some unfolding indexes_ok_def inj_on_def by (metis domI)
  qed
  show "client_view out k = empty_entry" if "map_of (clientIndexByUpstream f) i = None"
  proof -
    have "k = nextClientIndex f" using that c by (simp add: clientIndex_def)
    then have "\<forall>m \<in> set out. delta_index m \<noteq> k" using ok by (auto simp: indexes_ok_def)
    then have "filter (\<lambda>m. delta_index m = k) out = []" by (simp add: filter_empty_conv)
    then show ?thesis by (simp add: client_view_def)
  qed
  show "indexes_ok base (f1\<lparr>streamedIDs := ids\<rparr>) (out @ map (forwarded_delta k) raws)"
  proof (cases "map_of (clientIndexByUpstream f) i")
    case None
    then have f1: "f1 = f\<lparr>clientIndexByUpstream := AList.update i (nextClientIndex f) (clientIndexByUpstream f),
                         nextClientIndex := nextClientIndex f + 1\<rparr>" and k: "k = nextClientIndex f"
      using c by (auto simp: clientIndex_def)
    have "ran (map_of (clientIndexByUpstream f1)) = insert k {base..<nextClientIndex f}"
      using None ran by (simp add: f1 k update_conv')
    moreover have "inj_on (map_of (clientIndexByUpstream f1)) (dom (map_of (clientIndexByUpstream f1)))"
    proof -
      have "map_of (clientIndexByUpstream f) x \<noteq> Some (nextClientIndex f)" for x
        using ran ranI[of "map_of (clientIndexByUpstream f)" x] by fastforce
      then show ?thesis
        using ok None unfolding f1 k indexes_ok_def by (auto simp: update_conv' inj_on_def)
    qed
    ultimately show ?thesis using ok d unfolding f1 k indexes_ok_def by auto
  next
    case (Some m)
    then have "f1 = f" "m = k" using c by (auto simp: clientIndex_def)
    moreover have "k \<in> {base..<nextClientIndex f}" using ran Some \<open>m = k\<close> by (metis ranI)
    ultimately show ?thesis using ok d by (auto simp: indexes_ok_def)
  qed
qed

lemma calls_ok_forward:
  assumes ok: "calls_ok base (es, f) out" and i: "0 \<le> i" and raws: "raws \<noteq> []"
    and es': "es' = (grow_to (nat i) es)[nat i := e]"
    and fwd: "forward_all i raws (set_state i st f) = (o', f')"
    and st: "ds_mode st = ForwardLive" and name: "en_name e \<noteq> []"
    and e: "e = fold merge_delta raws (if map_of (clientIndexByUpstream f) i = None then empty_entry else entry_at es i)"
    and slot: "map_of (clientIndexByUpstream f) i \<noteq> None \<Longrightarrow> ds_mode (fw_state i f) = ForwardLive"
  shows "calls_ok base (es', f') (out @ o')"
proof -
  let ?f0 = "set_state i st f"
  obtain k f1 where c: "clientIndex i ?f0 = (k, f1)" by (cases "clientIndex i ?f0")
  obtain ids where fw: "o' = map (forwarded_delta k) raws" "f' = f1\<lparr>streamedIDs := ids\<rparr>"
      "set ids = ids_of raws \<union> set (streamedIDs f1)"
    using forward_all_eq[OF raws c] fwd by auto
  have iok: "indexes_ok base ?f0 out" using ok by (simp add: calls_ok_def indexes_ok_def)
  note ci = clientIndex_ok[OF iok c]
  have old: "slot_ok es f out j" for j using ok by (simp add: calls_ok_def)
  have fs: "fw_state j f' = fw_state j ?f0" for j using ci(6) fw(2) by (simp add: fw_state_def)
  have sub: "set (streamedIDs f) \<subseteq> set (streamedIDs f')" using ci(7) fw by simp
  have "slot_ok es' f' (out @ o') j" for j
  proof (cases "j = i")
    case False
    from old[of j] show ?thesis
    proof (rule slot_ok_other)
      fix k' assume "map_of (clientIndexByUpstream f) j = Some k'"
      then have "k' \<noteq> k" using ci(4)[of j k'] False by simp
      then show "client_view (out @ o') k' = client_view out k'" by (simp add: fw(1) client_view_forwarded)
    qed (use False i es' fs ci(3) fw sub in \<open>simp_all add: entry_at_set\<close>)
  next
    case True
    have view: "client_view (out @ o') k = e"
    proof (cases "map_of (clientIndexByUpstream f) i")
      case None
      then show ?thesis using ci(5) e by (simp add: fw(1) client_view_forwarded)
    next
      case (Some k0)
      then have "k0 = k" using c by (simp add: clientIndex_def)
      moreover have "client_view out k0 = entry_at es i"
        using old[of i] slot Some by (simp add: slot_ok_def Let_def)
      ultimately show ?thesis using e Some by (simp add: fw(1) client_view_forwarded)
    qed
    have "en_id e \<in> set (streamedIDs f')" if "en_id e \<noteq> []"
    proof -
      have "en_id e \<in> ids_of raws \<or> en_id e = en_id (if map_of (clientIndexByUpstream f) i = None then empty_entry else entry_at es i)"
        using merge_deltas_id[of raws] that unfolding e by blast
      then show ?thesis
        using that old[of i] slot sub fw
        by (auto simp: slot_ok_def Let_def empty_entry_def split: if_splits)
    qed
    then show ?thesis
      using True i es' fs[of i] st name view ci(2) fw(2) by (simp add: slot_ok_def Let_def entry_at_set)
  qed
  then show ?thesis using ci(1)[of ids raws] fw by (auto simp: calls_ok_def)
qed

lemma ingest_delta_ok:
  assumes "calls_ok base cs out" "ingest_delta own item cs = (o', cs')"
  shows "calls_ok base cs' (out @ o')"
proof (cases "\<exists>m. item = JObject m \<and> 0 \<le> int_value (field m ''index'')")
  case False
  then have "o' = []" "cs' = cs"
    using assms(2) by (auto simp: ingest_delta_def Let_def split: json.splits prod.splits if_splits)
  then show ?thesis using assms(1) by simp
next
  case True
  then obtain m where m: "item = JObject m" "0 \<le> int_value (field m ''index'')" by blast
  obtain es f where cs: "cs = (es, f)" by (cases cs)
  define i where "i = int_value (field m ''index'')"
  define e where "e = merge_delta m (entry_at es i)"
  let ?es' = "(grow_to (nat i) es)[nat i := e]"
  obtain f' where f': "fw_ingest own i (en_name e) m f = (o', f')" and cs': "cs' = (?es', f')"
    using assms(2) m unfolding ingest_delta_def cs
    by (auto simp: Let_def i_def[symmetric] entry_at_nth e_def[symmetric] split: prod.splits)
  have i: "0 \<le> i" using m i_def by simp
  have slot: "slot_ok es f out i" and ok: "calls_ok base (es, f) out" using assms(1) by (auto simp: cs calls_ok_def)
  show ?thesis
  proof (cases "ds_mode (fw_state i f)")
    case ForwardLive
    have "calls_ok base (?es', f') (out @ o')"
      by (rule calls_ok_forward[OF ok i _ refl, of "[m]" "fw_state i f"])
        (use f' slot ForwardLive in \<open>auto simp: fw_ingest_def Let_def slot_ok_def e_def merge_delta_name\<close>)
    then show ?thesis by (simp add: cs')
  next
    case ForwardDrop
    have "calls_ok base (?es', f') out"
      by (rule calls_ok_silent[OF ok i refl, of f' "fw_state i f"])
        (use f' slot ForwardDrop i in \<open>auto simp: fw_ingest_def Let_def slot_ok_def entry_at_set e_def merge_delta_name\<close>)
    then show ?thesis using f' ForwardDrop by (simp add: cs' fw_ingest_def)
  next
    case ForwardPending
    have p: "fold merge_delta (ds_pending (fw_state i f)) empty_entry = entry_at es i" "map_of (clientIndexByUpstream f) i = None"
      using slot ForwardPending by (simp_all add: slot_ok_def Let_def)
    consider "en_name e = []" | "en_name e \<noteq> []" "en_name e \<in> set own" | "en_name e \<noteq> []" "en_name e \<notin> set own" by blast
    then show ?thesis
    proof cases
      case 1
      have "calls_ok base (?es', f') out"
        by (rule calls_ok_silent[OF ok i refl, of f' "(fw_state i f)\<lparr>ds_pending := ds_pending (fw_state i f) @ [m]\<rparr>"])
          (use f' p 1 ForwardPending i in \<open>auto simp: fw_ingest_def Let_def slot_ok_def entry_at_set e_def\<close>)
      then show ?thesis using f' ForwardPending 1 by (simp add: cs' fw_ingest_def Let_def)
    next
      case 2
      have "calls_ok base (?es', f') out"
        by (rule calls_ok_silent[OF ok i refl, of f' "\<lparr>ds_pending = [], ds_mode = ForwardDrop\<rparr>"])
          (use f' p 2 ForwardPending i in \<open>auto simp: fw_ingest_def Let_def slot_ok_def entry_at_set\<close>)
      then show ?thesis using f' ForwardPending 2 by (simp add: cs' fw_ingest_def)
    next
      case 3
      have "calls_ok base (?es', f') (out @ o')"
        by (rule calls_ok_forward[OF ok i _ refl, of "ds_pending (fw_state i f) @ [m]" "\<lparr>ds_pending = [], ds_mode = ForwardLive\<rparr>"])
          (use f' p 3 ForwardPending in \<open>auto simp: fw_ingest_def Let_def e_def\<close>)
      then show ?thesis by (simp add: cs')
    qed
  qed
qed

section \<open>Classification\<close>

definition delta_name :: "json_object \<Rightarrow> string" where
  "delta_name m = (case field m ''function'' of JObject fn \<Rightarrow> string_field fn ''name'' | _ \<Rightarrow> [])"

lemma merge_delta_en_name: "en_name (merge_delta m e) = (if delta_name m = [] then en_name e else delta_name m)"
  by (auto simp: merge_delta_def delta_name_def Let_def split: json.splits)

text \<open>The names announced under an index.\<close>

definition names_at :: "json list \<Rightarrow> int \<Rightarrow> string set" where
  "names_at items i = {delta_name m | m. JObject m \<in> set items \<and> int_value (field m ''index'') = i \<and> 0 \<le> i \<and> delta_name m \<noteq> []}"

definition classified :: "string list \<Rightarrow> json list \<Rightarrow> call_state \<Rightarrow> bool" where
  "classified own items cs \<longleftrightarrow>
     (case cs of (es, f) \<Rightarrow>
        \<forall>i. (ds_mode (fw_state i f) = ForwardLive \<longrightarrow> names_at items i - set own \<noteq> {})
          \<and> (ds_mode (fw_state i f) = ForwardDrop \<longrightarrow> names_at items i \<inter> set own \<noteq> {})
          \<and> (en_name (entry_at es i) = [] \<or> en_name (entry_at es i) \<in> names_at items i))"

lemma names_at_append: "names_at (items @ items') i = names_at items i \<union> names_at items' i"
  by (auto simp: names_at_def)

lemma forward_all_state: "fw_state j (snd (forward_all i raws f)) = fw_state j f"
proof (induction raws arbitrary: f)
  case (Cons r raws)
  have "fw_state j (snd (forward i r f)) = fw_state j f"
    by (auto simp: forward_def clientIndex_def fw_state_def split: option.splits)
  then show ?case using Cons[of "snd (forward i r f)"] by (auto split: prod.splits)
qed simp

lemma forward_all_stateD: "forward_all i raws f = (o', f') \<Longrightarrow> fw_state j f' = fw_state j f"
  using forward_all_state by (metis snd_conv)

lemma fw_ingest_mode:
  "fw_ingest own i name m f = (o', f') \<Longrightarrow>
   ds_mode (fw_state j f') =
     (if j = i \<and> ds_mode (fw_state i f) = ForwardPending \<and> name \<noteq> []
      then if name \<in> set own then ForwardDrop else ForwardLive else ds_mode (fw_state j f))"
  by (auto simp: fw_ingest_def Let_def simp del: forward_all.simps dest!: forward_all_stateD[of _ _ _ _ _ j]
      split: clientToolCallForwardMode.splits if_splits)

lemma ingest_delta_classified:
  assumes "classified own items cs" "calls_ok base cs out" "ingest_delta own item cs = (o', cs')"
  shows "classified own (items @ [item]) cs'"
proof (cases "\<exists>m. item = JObject m \<and> 0 \<le> int_value (field m ''index'')")
  case False
  then have "cs' = cs"
    using assms(3) by (auto simp: ingest_delta_def Let_def split: json.splits prod.splits if_splits)
  then show ?thesis using assms(1) by (auto simp: classified_def names_at_append)
next
  case True
  then obtain m where m: "item = JObject m" "0 \<le> int_value (field m ''index'')" by blast
  obtain es f where cs: "cs = (es, f)" by (cases cs)
  define i where "i = int_value (field m ''index'')"
  define e where "e = merge_delta m (entry_at es i)"
  obtain f' where f': "fw_ingest own i (en_name e) m f = (o', f')" and cs': "cs' = ((grow_to (nat i) es)[nat i := e], f')"
    using assms(3) m unfolding ingest_delta_def cs
    by (auto simp: Let_def i_def[symmetric] entry_at_nth e_def[symmetric] split: prod.splits)
  have i: "0 \<le> i" using m i_def by simp
  have new: "names_at [item] j = (if j = i \<and> delta_name m \<noteq> [] then {delta_name m} else {})" for j
    using m i by (auto simp: names_at_def i_def)
  have "ds_mode (fw_state i f) = ForwardPending \<Longrightarrow> en_name (entry_at es i) = []"
    using assms(2) slot_pending[OF calls_okD] by (simp add: cs)
  then show ?thesis
    using assms(1) i new fw_ingest_mode[OF f']
    by (auto simp: classified_def cs cs' names_at_append entry_at_set e_def merge_delta_en_name split: if_splits)
qed

lemma ingest_ok:
  assumes "ingest own items cs = (o', cs')" "calls_ok base cs out" "classified own seen cs"
  shows "calls_ok base cs' (out @ o') \<and> classified own (seen @ items) cs'"
  using assms
proof (induction own items cs arbitrary: out seen o' rule: ingest.induct)
  case (2 own item items cs)
  obtain o1 cs1 where d: "ingest_delta own item cs = (o1, cs1)" by (cases "ingest_delta own item cs")
  obtain o2 where i: "ingest own items cs1 = (o2, cs')" and o': "o' = o1 @ o2"
    using "2.prems"(1) d by (auto split: prod.splits)
  have "calls_ok base cs1 (out @ o1)" "classified own (seen @ [item]) cs1"
    using ingest_delta_ok[OF "2.prems"(2) d] ingest_delta_classified[OF "2.prems"(3,2) d] by simp_all
  then show ?case using "2.IH"[OF d[symmetric] i, of "out @ o1" "seen @ [item]"] o' by simp
qed simp

lemma start_ok:
  "calls_ok (nextClientIndex f) ([], resetIteration f) []" "classified own [] ([], resetIteration f)"
  by (simp_all add: calls_ok_def indexes_ok_def slot_ok_def Let_def resetIteration_def fw_state_def entry_at_def
      classified_def empty_entry_def)

text \<open>A turn in which no call changes its name once it is announced.\<close>

definition names_stable :: "json list \<Rightarrow> chatToolCallEntry list \<Rightarrow> bool" where
  "names_stable items es \<longleftrightarrow> (\<forall>i. names_at items i \<subseteq> {en_name (entry_at es i)})"

definition client_owned :: "string list \<Rightarrow> chatToolCallEntry \<Rightarrow> bool" where
  "client_owned own e \<longleftrightarrow> en_name e \<noteq> [] \<and> en_name e \<notin> set own"

lemma live_iff_client:
  assumes "calls_ok base (es, f) out" "classified own items (es, f)" "names_stable items es"
  shows "ds_mode (fw_state i f) = ForwardLive \<longleftrightarrow> client_owned own (entry_at es i)"
proof -
  have s: "slot_ok es f out i" using assms(1) by (rule calls_okD)
  have n: "names_at items i \<subseteq> {en_name (entry_at es i)}" using assms(3) by (simp add: names_stable_def)
  have c: "ds_mode (fw_state i f) = ForwardLive \<Longrightarrow> names_at items i - set own \<noteq> {}"
    "ds_mode (fw_state i f) = ForwardDrop \<Longrightarrow> names_at items i \<inter> set own \<noteq> {}"
    using assms(2) by (auto simp: classified_def)
  show ?thesis
  proof (cases "ds_mode (fw_state i f)")
    case ForwardPending
    then show ?thesis using slot_pending[OF s] by (simp add: client_owned_def)
  next
    case ForwardLive
    then show ?thesis using s n c(1) by (auto simp: slot_ok_def Let_def client_owned_def)
  next
    case ForwardDrop
    then show ?thesis using n c(2) by (auto simp: client_owned_def)
  qed
qed

section \<open>Nothing is sent twice\<close>

lemma unstreamed_loop_Nil:
  "\<forall>c \<in> set calls. call_id c = [] \<or> call_id c \<in> set ids \<Longrightarrow>
   \<forall>n. int (length (filter (\<lambda>c. call_id c = [] \<and> call_name c = n) calls)) \<le> count_of n counts \<Longrightarrow>
   fst (unstreamed_loop ids calls counts) = []"
proof (induction ids calls counts rule: unstreamed_loop.induct)
  case (2 ids call calls counts)
  show ?case
  proof (cases "call_id call = []")
    case True
    have "int (length (filter (\<lambda>c. call_id c = [] \<and> call_name c = call_name call) (call # calls))) \<le> count_of (call_name call) counts"
      using "2.prems"(2) by blast
    then have "0 < count_of (call_name call) counts" using True by simp
    moreover have "int (length (filter (\<lambda>c. call_id c = [] \<and> call_name c = n) calls)) \<le>
        count_of n (AList.update (call_name call) (count_of (call_name call) counts - 1) counts)" for n
      using "2.prems"(2)[rule_format, of n] True by (auto simp: count_of_def)
    ultimately show ?thesis using 2 True by simp
  next
    case False
    then have "call_id call \<in> set ids" using "2.prems"(1) by simp
    moreover have "int (length (filter (\<lambda>c. call_id c = [] \<and> call_name c = n) calls)) \<le> count_of n counts" for n
      using "2.prems"(2)[rule_format, of n] False by simp
    ultimately show ?thesis using 2 False by simp
  qed
qed simp

lemma count_entry_eq:
  "count_entry (i, e) f =
     (if en_id e = [] \<and> ds_mode (fw_state (int i) f) = ForwardLive
      then f\<lparr>streamedWithoutIDs := AList.update (en_name e) (count_of (en_name e) (streamedWithoutIDs f) + 1) (streamedWithoutIDs f)\<rparr>
      else f)"
  by (auto simp: count_entry_def fw_state_def split: option.splits)

lemma fold_count_entry:
  "count_of n (streamedWithoutIDs (fold count_entry ps f)) =
     count_of n (streamedWithoutIDs f) +
     int (length (filter (\<lambda>(i, e). en_id e = [] \<and> en_name e = n \<and> ds_mode (fw_state (int i) f) = ForwardLive) ps))
   \<and> streamedIDs (fold count_entry ps f) = streamedIDs f"
proof (induction ps arbitrary: f)
  case (Cons p ps)
  obtain i e where p: "p = (i, e)" by (cases p)
  have "fw_state j (count_entry p f) = fw_state j f" for j by (simp add: p count_entry_eq fw_state_def)
  then show ?case using Cons[of "count_entry p f"] by (auto simp: p count_entry_eq count_of_def)
qed simp

lemma number_from_set: "(i, e) \<in> set (number_from k es) \<Longrightarrow> k \<le> i \<and> i - k < length es \<and> e = es ! (i - k)"
proof (induction k es rule: number_from.induct)
  case (2 n x xs)
  then show ?case by (auto simp: nth_Cons' Suc_diff_Suc)
qed simp

lemma length_filter_number_from:
  "(\<And>i e. (i, e) \<in> set (number_from k es) \<Longrightarrow> P (i, e) \<longleftrightarrow> Q e) \<Longrightarrow>
   length (filter P (number_from k es)) = length (filter Q es)"
  by (induction k es rule: number_from.induct) auto

lemma all_calls_streamed:
  assumes ok: "calls_ok base (es, f) out" and cl: "classified own items (es, f)" and st: "names_stable items es"
    and none: "streamedWithoutIDs f = []"
  shows "fst (unstreamed (snd (splitToolCalls own (builder_toolCalls lib es))) (recordStreamedWithoutIDs es f)) = []"
proof -
  let ?calls = "snd (splitToolCalls own (builder_toolCalls lib es))"
  let ?f = "recordStreamedWithoutIDs es f"
  have live: "ds_mode (fw_state i f) = ForwardLive \<longleftrightarrow> client_owned own (entry_at es i)" for i
    by (rule live_iff_client[OF ok cl st])
  have calls: "map (\<lambda>c. (call_id c, call_name c)) ?calls = map (\<lambda>e. (en_id e, en_name e)) (filter (client_owned own) es)"
    by (simp add: splitToolCalls_def builder_toolCalls_def filter_map o_def client_owned_def[abs_def] conj_commute)
  have ids: "streamedIDs ?f = streamedIDs f" by (simp add: recordStreamedWithoutIDs_def fold_count_entry)
  have "call_id c = [] \<or> call_id c \<in> set (streamedIDs ?f)" if "c \<in> set ?calls" for c
  proof -
    have "(call_id c, call_name c) \<in> set (map (\<lambda>e. (en_id e, en_name e)) (filter (client_owned own) es))"
      using that calls by (metis (mono_tags, lifting) image_eqI image_set)
    then obtain k where k: "k < length es" "client_owned own (es ! k)" "call_id c = en_id (es ! k)"
      by (auto simp: in_set_conv_nth)
    then have e: "entry_at es (int k) = es ! k" by (simp add: entry_at_def)
    then have "ds_mode (fw_state (int k) f) = ForwardLive" using live k by simp
    then show ?thesis using calls_okD[OF ok, of "int k"] e k ids by (auto simp: slot_ok_def Let_def)
  qed
  moreover have "int (length (filter (\<lambda>c. call_id c = [] \<and> call_name c = n) ?calls)) \<le> count_of n (streamedWithoutIDs ?f)" for n
  proof -
    have "length (filter (\<lambda>c. call_id c = [] \<and> call_name c = n) ?calls) =
        length (filter (\<lambda>(i, m). i = [] \<and> m = n) (map (\<lambda>c. (call_id c, call_name c)) ?calls))"
      by (simp add: filter_map o_def)
    also have "\<dots> = length (filter (\<lambda>e. en_id e = [] \<and> en_name e = n \<and> client_owned own e) es)"
      by (simp add: calls filter_map o_def conj_ac)
    also have "\<dots> = length (filter (\<lambda>(i, e). en_id e = [] \<and> en_name e = n \<and> ds_mode (fw_state (int i) f) = ForwardLive) (number_from 0 es))"
      by (rule length_filter_number_from[symmetric]) (auto simp: live entry_at_def dest: number_from_set)
    finally have "length (filter (\<lambda>c. call_id c = [] \<and> call_name c = n) ?calls) =
        length (filter (\<lambda>(i, e). en_id e = [] \<and> en_name e = n \<and> ds_mode (fw_state (int i) f) = ForwardLive) (number_from 0 es))" .
    moreover have "count_of n (streamedWithoutIDs f) = 0" by (simp add: none count_of_def)
    ultimately show ?thesis by (simp add: recordStreamedWithoutIDs_def fold_count_entry)
  qed
  ultimately have loop: "fst (unstreamed_loop (streamedIDs ?f) ?calls (streamedWithoutIDs ?f)) = []"
    by (intro unstreamed_loop_Nil) auto
  moreover have "fst (unstreamed_loop [] cs []) = cs" for cs
    by (induction cs) (auto simp: count_of_def split: prod.splits)
  ultimately show ?thesis by (auto simp: unstreamed_def split: prod.splits)
qed

lemma ingest_without_ids: "ingest own items (es, f) = (out, es', f') \<Longrightarrow> streamedWithoutIDs f' = streamedWithoutIDs f"
proof (induction own items "(es, f)" arbitrary: es f out rule: ingest.induct)
  case (2 own item items)
  have fa: "streamedWithoutIDs (snd (forward_all i raws g)) = streamedWithoutIDs g" for i raws g
  proof (induction raws arbitrary: g)
    case (Cons r raws)
    have "streamedWithoutIDs (snd (forward i r g)) = streamedWithoutIDs g"
      by (auto simp: forward_def clientIndex_def split: option.splits)
    then show ?case using Cons[of "snd (forward i r g)"] by (auto split: prod.splits)
  qed simp
  have "streamedWithoutIDs (snd (fw_ingest own i n m g)) = streamedWithoutIDs g" for i n m g
    by (auto simp: fw_ingest_def fa set_state_def Let_def simp del: forward_all.simps split: clientToolCallForwardMode.splits)
  then have "streamedWithoutIDs (snd (snd (ingest_delta own item (es, f)))) = streamedWithoutIDs f"
    by (auto simp: ingest_delta_def Let_def split: json.splits prod.splits) (metis snd_conv)
  then show ?case using 2 by (fastforce split: prod.splits)
qed simp

lemma positions_bij:
  fixes c :: "int \<Rightarrow> int option"
  assumes dom: "\<And>i. c i \<noteq> None \<longleftrightarrow> 0 \<le> i \<and> nat i \<in> S" and inj: "inj_on c (dom c)"
  shows "bij_betw (\<lambda>k. the (c (int k))) S (ran c)"
proof -
  have at: "c (int k) = Some (the (c (int k)))" if "k \<in> S" for k
    using dom[of "int k"] that by auto
  have "inj_on (\<lambda>k. the (c (int k))) S"
  proof (rule inj_onI)
    fix j k assume jk: "j \<in> S" "k \<in> S" "the (c (int j)) = the (c (int k))"
    have "int j = int k"
      by (rule inj_onD[OF inj]) (use at[OF jk(1)] at[OF jk(2)] jk(3) in auto)
    then show "j = k" by simp
  qed
  moreover have "y \<in> (\<lambda>k. the (c (int k))) ` S" if "c i = Some y" for i y
    using dom[of i] that by (intro image_eqI[of _ _ "nat i"]) auto
  moreover have "the (c (int k)) \<in> ran c" if "k \<in> S" for k using at[OF that] by (rule ranI)
  ultimately show ?thesis by (auto simp: bij_betw_def ran_def)
qed

text \<open>
  C12. In a streamed chat turn the client receives each of its own tool calls exactly once and nothing of the
  router's: the fragments it gets, merged under their indexes, are the calls the builder assembled whose names
  the router does not own, one index each; the indexes continue without gap or collision those of earlier
  turns; and no call is left to be sent again at the end. The model must not rename a call it has announced.
\<close>

theorem streamed_client_calls_exact:
  assumes run: "ingest own items ([], resetIteration f) = (out, es, f')" and names: "names_stable items es"
  shows "(\<exists>pos. bij_betw pos {i. i < length es \<and> client_owned own (es ! i)} {nextClientIndex f..<nextClientIndex f'}
            \<and> (\<forall>i < length es. client_owned own (es ! i) \<longrightarrow> client_view out (pos i) = es ! i))
         \<and> delta_index ` set out \<subseteq> {nextClientIndex f..<nextClientIndex f'}
         \<and> fst (unstreamed (snd (splitToolCalls own (builder_toolCalls lib es))) (recordStreamedWithoutIDs es f')) = []"
proof -
  have inv: "calls_ok (nextClientIndex f) (es, f') out" "classified own items (es, f')"
    using ingest_ok[OF run start_ok] by simp_all
  let ?c = "map_of (clientIndexByUpstream f')"
  let ?S = "{i. i < length es \<and> client_owned own (es ! i)}"
  have idx: "indexes_ok (nextClientIndex f) f' out" using inv(1) by (simp add: calls_ok_def)
  have slot: "slot_ok es f' out i" for i using inv(1) by (rule calls_okD)
  have live: "ds_mode (fw_state i f') = ForwardLive \<longleftrightarrow> client_owned own (entry_at es i)" for i
    by (rule live_iff_client[OF inv names])
  have dom: "?c i \<noteq> None \<longleftrightarrow> 0 \<le> i \<and> nat i \<in> ?S" for i
    using slot[of i] live[of i]
    by (auto simp: slot_ok_def Let_def entry_at_def client_owned_def empty_entry_def
        split: clientToolCallForwardMode.splits if_splits)
  define pos where "pos k = the (?c (int k))" for k
  have at: "?c (int k) = Some (pos k)" if "k \<in> ?S" for k
    using dom[of "int k"] that by (auto simp: pos_def)
  have "bij_betw pos ?S {nextClientIndex f..<nextClientIndex f'}"
    using positions_bij[of ?c ?S, OF dom] idx by (simp add: indexes_ok_def pos_def[abs_def])
  moreover have "client_view out (pos i) = es ! i" if "i < length es" "client_owned own (es ! i)" for i
    using slot[of "int i"] live[of "int i"] at[of i] that by (simp add: slot_ok_def Let_def entry_at_def)
  moreover have "streamedWithoutIDs f' = []" using ingest_without_ids[OF run] by (simp add: resetIteration_def)
  ultimately show ?thesis
    using idx all_calls_streamed[OF inv names] unfolding indexes_ok_def by blast
qed

text \<open>A turn with a call of the client in two fragments around a call of the router.\<close>

definition demo_deltas :: "json list" where
  "demo_deltas =
     [JObject [(''index'', JFloat 0), (''id'', JString ''a''), (''function'', JObject [(''name'', JString ''clock'')])],
      JObject [(''index'', JFloat 1), (''id'', JString ''b''), (''function'', JObject [(''name'', JString ''search'')])],
      JObject [(''index'', JFloat 0), (''function'', JObject [(''arguments'', JString ''{}'')])]]"

definition demo_entries :: "chatToolCallEntry list" where
  "demo_entries =
     [\<lparr>en_id = ''a'', en_type = [], en_name = ''clock'', en_args = ''{}''\<rparr>,
      \<lparr>en_id = ''b'', en_type = [], en_name = ''search'', en_args = []\<rparr>]"

lemma trunc_01 [simp]: "trunc 0 = 0" "trunc 1 = 1"
  by (simp_all add: trunc_def min_int64_def max_int64_def)

lemma demo_ingest:
  "\<exists>out f'. ingest [''search''] demo_deltas ([], resetIteration newClientToolCallDeltaForwarder) = (out, demo_entries, f')"
  by (simp add: demo_deltas_def demo_entries_def ingest_delta_def int_value_def field_def grow_to_def merge_delta_def
      string_field_def empty_entry_def fw_ingest_def fw_state_def resetIteration_def newClientToolCallDeltaForwarder_def
      set_state_def forward_def clientIndex_def split: prod.splits)

lemma demo_names: "names_stable demo_deltas demo_entries"
  by (auto simp: names_stable_def names_at_def demo_deltas_def demo_entries_def delta_name_def int_value_def field_def
      string_field_def entry_at_def)

theorem streamed_client_calls_exact_witness:
  "\<exists>out f' pos.
     ingest [''search''] demo_deltas ([], resetIteration newClientToolCallDeltaForwarder) = (out, demo_entries, f')
     \<and> bij_betw pos {i. i < 2 \<and> client_owned [''search''] (demo_entries ! i)} {0..<nextClientIndex f'}
     \<and> client_view out (pos 0) = demo_entries ! 0"
proof -
  obtain out f' where r: "ingest [''search''] demo_deltas ([], resetIteration newClientToolCallDeltaForwarder) = (out, demo_entries, f')"
    using demo_ingest by blast
  have d: "length demo_entries = 2" "client_owned [''search''] (demo_entries ! 0)" "nextClientIndex newClientToolCallDeltaForwarder = 0"
    by (simp_all add: demo_entries_def client_owned_def newClientToolCallDeltaForwarder_def)
  have "\<exists>pos. bij_betw pos {i. i < 2 \<and> client_owned [''search''] (demo_entries ! i)} {0..<nextClientIndex f'}
            \<and> (\<forall>i < 2. client_owned [''search''] (demo_entries ! i) \<longrightarrow> client_view out (pos i) = demo_entries ! i)"
    using streamed_client_calls_exact[OF r demo_names] unfolding d by blast
  then show ?thesis using r d(2) pos2 by blast
qed

section \<open>The index of a fragment sizes the builder\<close>

text \<open>One fragment with a large index makes the builder allocate an entry for every smaller one.\<close>

lemma index_sizes_builder:
  assumes "int n \<le> max_int64"
  shows "length (fst (snd (ingest_delta own (JObject [(''index'', JFloat (of_nat n))]) ([], f)))) = n + 1"
proof -
  have "trunc (of_nat n) = int n" using assms by (simp add: trunc_def Let_def min_int64_def)
  moreover have "length (grow_to n []) = n + 1" by (simp add: grow_to_def)
  ultimately show ?thesis by (simp add: ingest_delta_def int_value_def field_def Let_def split: prod.split)
qed

end
