(* ===== verification/Tool_Progress.thy ===== *)
theory Tool_Progress
  imports Stream_Base
begin

text \<open>
  Router-owned tool calls of a stream, with their progress shown to the client
  (\<open>toolruntime/tool_progress.go\<close>). The Go interface \<open>toolProgressEmitter\<close> is a record of functions on the
  streamer's state; the chat and the Responses streamer provide one each. Trace output is left out.
\<close>

section \<open>The interface\<close>

record toolProgressHandle =
  h_id :: string
  h_outputIndex :: int

record toolProgressResult =
  pr_sources :: "toolCallSource list"
  pr_pii :: "piiCheckResult option"

record toolExecution =
  ex_output :: string
  ex_sources :: "toolCallSource list"
  ex_pii :: "piiCheckResult option"
  ex_piiBilling :: serviceBilling

definition no_execution :: toolExecution where
  "no_execution = \<lparr>ex_output = [], ex_sources = [], ex_pii = None, ex_piiBilling = no_billing\<rparr>"

record 'st toolProgressEmitter =
  pe_open :: "string \<Rightarrow> json_object \<Rightarrow> 'st \<Rightarrow> toolProgressHandle \<times> 'st"
  pe_phase :: "toolProgressHandle \<Rightarrow> string \<Rightarrow> 'st \<Rightarrow> 'st"
  pe_close :: "toolProgressHandle \<Rightarrow> string \<Rightarrow> json_object \<Rightarrow> toolProgressResult \<Rightarrow> string \<Rightarrow> string \<Rightarrow> 'st \<Rightarrow> 'st"

record toolPhaseConfig =
  idPrefix :: string
  preCallPhases :: "string list"
  completedPhase :: string

definition toolPhaseConfigs :: "(string, toolPhaseConfig) gomap" where
  "toolPhaseConfigs =
     [(''search'', \<lparr>idPrefix = ''ws_'',
         preCallPhases = [''response.web_search_call.in_progress'', ''response.web_search_call.searching''],
         completedPhase = ''response.web_search_call.completed''\<rparr>),
      (''fetch'', \<lparr>idPrefix = ''ws_'', preCallPhases = [''response.web_search_call.in_progress''],
         completedPhase = ''response.web_search_call.completed''\<rparr>)]"

definition toolPhasesFor :: "string \<Rightarrow> toolPhaseConfig" where
  "toolPhasesFor name =
     (case map_of toolPhaseConfigs (dispatchRouterToolName name) of
        None \<Rightarrow> \<lparr>idPrefix = [], preCallPhases = [], completedPhase = []\<rparr>
      | Some c \<Rightarrow> c)"

section \<open>Calls\<close>

type_synonym ('w, 'a) streamer = "('w, 'a) streamBase_scheme"

text \<open>A fresh identifier.\<close>

definition new_uuid :: "('s, 'w) stream_env \<Rightarrow> ('w, 'a) streamer \<Rightarrow> string \<times> ('w, 'a) streamer" where
  "new_uuid env s = (se_uuid env (sb_uuids s), s\<lparr>sb_uuids := sb_uuids s + 1\<rparr>)"

definition stream_callTool ::
  "('s, 'w) stream_env \<Rightarrow> 's \<Rightarrow> string \<Rightarrow> json_object option \<Rightarrow> ('w, 'a) streamer \<Rightarrow>
   (string \<times> json \<times> string option) \<times> ('w, 'a) streamer" where
  "stream_callTool env session name args s =
     (case callTool (se_tools env) (sb_world s) session name args of (res, w) \<Rightarrow> (res, s\<lparr>sb_world := w\<rparr>))"

definition stream_format ::
  "loop_lib \<Rightarrow> string \<Rightarrow> string \<Rightarrow> json \<Rightarrow> ('w, 'a) streamer \<Rightarrow> string \<times> ('w, 'a) streamer" where
  "stream_format lib name output structured s =
     (case applyStructuredFormat (ll_encode lib) name output structured (Some (ts_cite (sb_tools s))) of
        (formatted, cite) \<Rightarrow>
          (formatted, s\<lparr>sb_tools := (sb_tools s)\<lparr>ts_cite := (case cite of None \<Rightarrow> ts_cite (sb_tools s) | Some c \<Rightarrow> c)\<rparr>\<rparr>))"

text \<open>An execution with the error of the call.\<close>

type_synonym execution_result = "toolExecution \<times> string option"

definition executeSingleToolWithProgress ::
  "loop_lib \<Rightarrow> ('s, 'w) stream_env \<Rightarrow> ('w, 'a) streamer toolProgressEmitter \<Rightarrow> 's \<Rightarrow> toolCall \<Rightarrow> string \<Rightarrow> toolPhaseConfig \<Rightarrow>
   json_object \<Rightarrow> ('w, 'a) streamer \<Rightarrow> execution_result \<times> ('w, 'a) streamer"
where
  "executeSingleToolWithProgress lib env emitter session call dname phases details s =
     (let (fresh, s0) = new_uuid env s;
          (handle, s1) = pe_open emitter (idPrefix phases @ fresh) details s0;
          s2 = fold (pe_phase emitter handle) (preCallPhases phases) s1;
          ((output, structured, err), s3) = stream_callTool env session dname (call_arguments call) s2;
          billing = piiBillingFromStructured (call_name call) structured (err \<noteq> None)
      in case err of
           Some e \<Rightarrow>
             ((no_execution\<lparr>ex_piiBilling := billing\<rparr>, Some e),
              pe_close emitter handle (call_name call) details \<lparr>pr_sources = [], pr_pii = None\<rparr> ''failed''
                (publicToolErrorReason err) s3)
         | None \<Rightarrow>
             (case stream_format lib (call_name call) output structured s3 of
                (formatted, s4) \<Rightarrow>
                  let execution = \<lparr>ex_output = formatted,
                        ex_sources = toolCallSourcesForResult (call_name call) structured formatted,
                        ex_pii = piiCheckResultFromStructured (ll_go lib) (call_name call) structured,
                        ex_piiBilling = billing\<rparr>
                  in ((execution, None),
                      pe_close emitter handle (call_name call) details
                        \<lparr>pr_sources = ex_sources execution, pr_pii = ex_pii execution\<rparr> ''completed'' []
                        (pe_phase emitter handle (completedPhase phases) s4))))"

definition page_details :: "string \<Rightarrow> json_object" where
  "page_details url = [(''type'', JString ''open_page''), (''url'', JString url)]"

text \<open>One handle per URL is opened, in order.\<close>

fun open_pages ::
  "('s, 'w) stream_env \<Rightarrow> ('w, 'a) streamer toolProgressEmitter \<Rightarrow> toolPhaseConfig \<Rightarrow> string list \<Rightarrow> ('w, 'a) streamer \<Rightarrow>
   (string \<times> toolProgressHandle) list \<times> ('w, 'a) streamer"
where
  "open_pages env emitter phases [] s = ([], s)"
| "open_pages env emitter phases (url # urls) s =
     (let (fresh, s0) = new_uuid env s;
          (handle, s1) = pe_open emitter (idPrefix phases @ fresh) (page_details url) s0;
          s2 = fold (pe_phase emitter handle) (preCallPhases phases) s1;
          (hs, s3) = open_pages env emitter phases urls s2
      in ((url, handle) # hs, s3))"

definition executeFetchWithProgress ::
  "loop_lib \<Rightarrow> ('s, 'w) stream_env \<Rightarrow> ('w, 'a) streamer toolProgressEmitter \<Rightarrow> 's \<Rightarrow> toolCall \<Rightarrow> string \<Rightarrow> toolPhaseConfig \<Rightarrow>
   ('w, 'a) streamer \<Rightarrow> execution_result \<times> ('w, 'a) streamer"
where
  "executeFetchWithProgress lib env emitter session call dname phases s =
     (let urls = fetchArgumentURLs (call_arguments call) in
      if urls = [] then
        (case stream_callTool env session dname (call_arguments call) s of
           ((output, structured, err), s1) \<Rightarrow>
             (case err of
                Some e \<Rightarrow> ((no_execution, Some e), s1)
              | None \<Rightarrow>
                  (case stream_format lib (call_name call) output structured s1 of
                     (formatted, s2) \<Rightarrow> ((no_execution\<lparr>ex_output := formatted\<rparr>, None), s2))))
      else
        let (handles, s1) = open_pages env emitter phases urls s;
            ((output, structured, err), s2) = stream_callTool env session dname (call_arguments call) s1
        in case err of
             Some e \<Rightarrow>
               ((no_execution, Some e),
                fold (\<lambda>(url, h). pe_close emitter h (call_name call) (page_details url) \<lparr>pr_sources = [], pr_pii = None\<rparr> ''failed''
                                   (publicToolErrorReason err)) handles s2)
           | None \<Rightarrow>
               (case stream_format lib (call_name call) output structured s2 of
                  (formatted, s3) \<Rightarrow>
                    let sources = toolCallSourcesForResult (call_name call) structured formatted in
                    ((no_execution\<lparr>ex_output := formatted, ex_sources := sources\<rparr>, None),
                     fold (\<lambda>(url, h) st.
                             pe_close emitter h (call_name call) (page_details url)
                               \<lparr>pr_sources = sourcesForURL sources url, pr_pii = None\<rparr> ''completed'' []
                               (pe_phase emitter h (completedPhase phases) st)) handles s3)))"

definition executeToolWithProgress ::
  "loop_lib \<Rightarrow> ('s, 'w) stream_env \<Rightarrow> 's sessionRegistry \<Rightarrow> ('w, 'a) streamer toolProgressEmitter \<Rightarrow> toolCall \<Rightarrow> ('w, 'a) streamer \<Rightarrow>
   execution_result \<times> ('w, 'a) streamer"
where
  "executeToolWithProgress lib env reg emitter call s =
     (let name = call_name call; dname = dispatchName (Some reg) name; phases = toolPhasesFor name in
      case sessionFor (Some reg) name of
        None \<Rightarrow> ((no_execution, Some (''no MCP session registered for tool '' @ ll_quote lib name)), s)
      | Some session \<Rightarrow>
          if isRouterSearchToolName name then
            executeSingleToolWithProgress lib env emitter session call dname phases
              [(''type'', JString ''search''), (''query'', JString (string_field (args_of (call_arguments call)) ''query''))] s
          else if isRouterFetchToolName name then executeFetchWithProgress lib env emitter session call dname phases s
          else (case stream_callTool env session dname (call_arguments call) s of
                  ((output, structured, err), s1) \<Rightarrow>
                    (case err of
                       Some e \<Rightarrow> ((no_execution, Some e), s1)
                     | None \<Rightarrow>
                         (case stream_format lib name output structured s1 of
                            (formatted, s2) \<Rightarrow> ((no_execution\<lparr>ex_output := formatted\<rparr>, None), s2)))))"

text \<open>The executor is an argument; the arguments the call is sent with are recorded.\<close>

definition resolveStreamingRouterToolCall ::
  "loop_lib \<Rightarrow> webSearchOptions \<Rightarrow> (string, schema) gomap \<Rightarrow>
   (toolCall \<Rightarrow> ('w, 'a) streamer \<Rightarrow> execution_result \<times> ('w, 'a) streamer) \<Rightarrow> toolCall \<Rightarrow> ('w, 'a) streamer \<Rightarrow> string \<times> ('w, 'a) streamer"
where
  "resolveStreamingRouterToolCall lib opts schemas executor call s =
     (let args = prepare_arguments lib opts schemas call; name = call_name call;
          ((execution, err), s1) = executor (call\<lparr>call_arguments := args\<rparr>) s;
          base = \<lparr>rec_name = name, rec_arguments = args, resultURLs = [], resultSources = [], errorReason = [],
                  rec_pii = None, piiBilling = ex_piiBilling execution\<rparr>;
          logged = (\<lambda>r. s1\<lparr>sb_tools := (sb_tools s1)\<lparr>ts_log := ts_log (sb_tools s1) @ [r]\<rparr>\<rparr>)
      in case err of
           Some e \<Rightarrow> (humanized lib name e args, logged (base\<lparr>errorReason := publicToolErrorReason err\<rparr>))
         | None \<Rightarrow>
             (ex_output execution,
              logged (base\<lparr>resultSources := ex_sources execution, resultURLs := toolCallSourceURLs (ex_sources execution),
                           rec_pii := ex_pii execution\<rparr>)))"

text \<open>What stays fixed over the turns of a request, and the execution of the calls of one turn.\<close>

record 's stream_job =
  job_reg :: "'s sessionRegistry"
  job_opts :: webSearchOptions
  job_schemas :: "(string, schema) gomap"
  job_headers :: header
  job_request :: tool_request
  job_model :: string

fun resolve_calls ::
  "loop_lib \<Rightarrow> 's stream_job \<Rightarrow> (toolCall \<Rightarrow> ('w, 'a) streamer \<Rightarrow> execution_result \<times> ('w, 'a) streamer) \<Rightarrow> toolCall list \<Rightarrow>
   ('w, 'a) streamer \<Rightarrow> toolOutput list \<times> ('w, 'a) streamer"
where
  "resolve_calls lib job executor [] s = ([], s)"
| "resolve_calls lib job executor (call # calls) s =
     (case resolveStreamingRouterToolCall lib (job_opts job) (job_schemas job) executor call s of
        (output, s1) \<Rightarrow>
          (case resolve_calls lib job executor calls s1 of
             (outs, s2) \<Rightarrow> (\<lparr>out_callID = call_id call, out_name = call_name call, out_text = output\<rparr> # outs, s2)))"

section \<open>Properties kept by tool calls\<close>

text \<open>
  The contract of a surface: announcing a call, a phase or a result keeps a property of the streamer, and so
  do the updates of the world, the tool state and the identifiers. Then executing tools keeps it.
\<close>

definition phase_name :: "string \<Rightarrow> bool" where
  "phase_name ph \<longleftrightarrow> ph \<in> {[], ''response.web_search_call.in_progress'', ''response.web_search_call.searching'', ''response.web_search_call.completed''}"

definition phases_known :: "toolPhaseConfig \<Rightarrow> bool" where
  "phases_known c \<longleftrightarrow> list_all phase_name (preCallPhases c) \<and> phase_name (completedPhase c)"

lemma toolPhasesFor_known: "phases_known (toolPhasesFor name)"
  by (simp add: phases_known_def toolPhasesFor_def toolPhaseConfigs_def phase_name_def)

locale progress_surface =
  fixes lib :: loop_lib and env :: "('s, 'w) stream_env" and emitter :: "('w, 'a) streamer toolProgressEmitter"
    and I :: "('w, 'a) streamer \<Rightarrow> bool"
  assumes opens: "I s \<Longrightarrow> pe_open emitter i d s = (h, s') \<Longrightarrow> I s'"
    and phases: "I s \<Longrightarrow> phase_name ph \<Longrightarrow> I (pe_phase emitter h ph s)"
    and closes: "I s \<Longrightarrow> I (pe_close emitter h n d res status reason s)"
    and worlds: "I s \<Longrightarrow> I (s\<lparr>sb_world := w\<rparr>)"
    and tool_states: "I s \<Longrightarrow> I (s\<lparr>sb_tools := t\<rparr>)"
    and counters: "I s \<Longrightarrow> I (s\<lparr>sb_uuids := k\<rparr>)"
begin

lemma keeps_fold: "(\<And>x s. I s \<Longrightarrow> I (g x s)) \<Longrightarrow> I s \<Longrightarrow> I (fold g xs s)"
  by (induction xs arbitrary: s) simp_all

lemma keeps_call: "I s \<Longrightarrow> stream_callTool env session n a s = (res, s') \<Longrightarrow> I s'"
  by (auto simp: stream_callTool_def worlds split: prod.splits)

lemma keeps_format: "I s \<Longrightarrow> stream_format lib n o1 st s = (res, s') \<Longrightarrow> I s'"
  by (auto simp: stream_format_def tool_states split: prod.splits)

lemma keeps_uuid: "I s \<Longrightarrow> new_uuid env s = (u, s') \<Longrightarrow> I s'"
  by (auto simp: new_uuid_def counters)

lemma keeps_phases: "I s \<Longrightarrow> phases_known phs \<Longrightarrow> I (fold (pe_phase emitter h) (preCallPhases phs) s)"
proof -
  have "list_all phase_name xs \<Longrightarrow> I s \<Longrightarrow> I (fold (pe_phase emitter h) xs s)" for xs s
    by (induction xs arbitrary: s) (simp_all add: phases)
  then show "I s \<Longrightarrow> phases_known phs \<Longrightarrow> ?thesis" by (simp add: phases_known_def)
qed

lemma keeps_completed: "I s \<Longrightarrow> phases_known phs \<Longrightarrow> I (pe_phase emitter h (completedPhase phs) s)"
  by (simp add: phases_known_def phases)

lemmas keeps = keeps_call keeps_format keeps_uuid keeps_phases opens keeps_completed closes

lemma keeps_pages: "I s \<Longrightarrow> phases_known phs \<Longrightarrow> open_pages env emitter phs urls s = (hs, s') \<Longrightarrow> I s'"
proof (induction urls arbitrary: s hs)
  case (Cons url urls)
  obtain u s0 where u: "new_uuid env s = (u, s0)" by (cases "new_uuid env s")
  obtain h s1 where h: "pe_open emitter (idPrefix phs @ u) (page_details url) s0 = (h, s1)"
    by (cases "pe_open emitter (idPrefix phs @ u) (page_details url) s0")
  have "I (fold (pe_phase emitter h) (preCallPhases phs) s1)" using Cons.prems(1,2) u h keeps by metis
  then show ?case using Cons.IH Cons.prems(2,3) u h by (auto split: prod.splits)
qed simp

lemma keeps_single:
  assumes "I s" "executeSingleToolWithProgress lib env emitter session call dn phs details s = (res, s')" "phases_known phs"
  shows "I s'"
proof -
  obtain u s0 where u: "new_uuid env s = (u, s0)" by (cases "new_uuid env s")
  obtain h s1 where h: "pe_open emitter (idPrefix phs @ u) details s0 = (h, s1)"
    by (cases "pe_open emitter (idPrefix phs @ u) details s0")
  obtain x s3 where x: "stream_callTool env session dn (call_arguments call) (fold (pe_phase emitter h) (preCallPhases phs) s1) = (x, s3)"
    by (cases "stream_callTool env session dn (call_arguments call) (fold (pe_phase emitter h) (preCallPhases phs) s1)")
  have "I s3" using assms(1,3) u h x keeps by metis
  then show ?thesis
    using assms(2) u h x keeps_format keeps_completed[OF _ assms(3)] closes
    by (auto simp: executeSingleToolWithProgress_def Let_def split: prod.splits option.splits)
qed

lemma keeps_fetch:
  assumes "I s" "executeFetchWithProgress lib env emitter session call dn phs s = (res, s')" "phases_known phs"
  shows "I s'"
proof (cases "fetchArgumentURLs (call_arguments call) = []")
  case True
  then show ?thesis
    using assms by (auto simp: executeFetchWithProgress_def split: prod.splits option.splits dest: keeps_call keeps_format)
next
  case False
  obtain hs s1 where h: "open_pages env emitter phs (fetchArgumentURLs (call_arguments call)) s = (hs, s1)"
    by (cases "open_pages env emitter phs (fetchArgumentURLs (call_arguments call)) s")
  obtain x s2 where x: "stream_callTool env session dn (call_arguments call) s1 = (x, s2)"
    by (cases "stream_callTool env session dn (call_arguments call) s1")
  have "I s2" using assms(1,3) h x keeps_pages keeps_call by metis
  then show ?thesis
    using assms(2) False h x keeps_format
    by (auto simp: executeFetchWithProgress_def Let_def split: prod.splits option.splits intro!: keeps_fold closes keeps_completed[OF _ assms(3)])
qed

lemma keeps_execute:
  assumes "I s" "executeToolWithProgress lib env reg emitter call s = (res, s')"
  shows "I s'"
  using assms keeps_single[OF assms(1) _ toolPhasesFor_known] keeps_fetch[OF assms(1) _ toolPhasesFor_known]
  by (auto simp: executeToolWithProgress_def Let_def split: prod.splits option.splits if_splits dest: keeps_call keeps_format)

lemma keeps_resolve:
  assumes "I s" "resolveStreamingRouterToolCall lib opts schemas (executeToolWithProgress lib env reg emitter) call s = (res, s')"
  shows "I s'"
  using assms keeps_execute[OF assms(1)] tool_states
  by (auto simp: resolveStreamingRouterToolCall_def Let_def split: prod.splits option.splits)

lemma keeps_resolve_calls:
  "I s \<Longrightarrow> resolve_calls lib job (executeToolWithProgress lib env reg emitter) calls s = (outs, s') \<Longrightarrow> I s'"
proof (induction calls arbitrary: s outs)
  case (Cons call calls)
  obtain x s1 where x: "resolveStreamingRouterToolCall lib (job_opts job) (job_schemas job)
      (executeToolWithProgress lib env reg emitter) call s = (x, s1)"
    by (cases "resolveStreamingRouterToolCall lib (job_opts job) (job_schemas job) (executeToolWithProgress lib env reg emitter) call s")
  have "I s1" using keeps_resolve[OF Cons.prems(1) x] .
  then show ?case using Cons.IH Cons.prems(2) x by (auto split: prod.splits)
qed simp

end

end
