(* ===== verification/Chat_Stream.thy ===== *)
theory Chat_Stream
  imports Chat_Calls Tool_Progress Citation_Stream
begin

text \<open>
  The chat completions stream (\<open>toolruntime/chat_stream.go\<close>): the streamer, the pump that forwards one upstream
  stream, the tool loop over several of them, and the terminal frames. The calls of \<open>reader.next\<close> are the list
  of frames \<open>read_all\<close> returns, with the error that ends it. The forwarder is created with the streamer.
  Development logs and traces are left out.
\<close>

section \<open>State\<close>

record chat_conf =
  cc_owned :: "string list"
  clientRequestedUsage :: bool
  cc_eventFlags :: tinfoilEventFlags

record 'w chatStreamer = "'w streamBase" +
  cs_emitter :: Emitter
  roleEmitted :: bool
  cs_id :: string
  cs_created :: int
  identityPinned :: bool
  cs_forwarder :: clientToolCallDeltaForwarder
  cs_read :: "json_object list list"

record chatIterationResult =
  it_content :: string
  it_reasoning :: "(string, string) gomap"
  it_toolCalls :: "toolCall list"
  it_rawToolCalls :: "json list"
  it_finishReason :: string
  it_usage :: json
  it_read :: "json_object list"

definition empty_result :: chatIterationResult where
  "empty_result = \<lparr>it_content = [], it_reasoning = [], it_toolCalls = [], it_rawToolCalls = [], it_finishReason = [],
     it_usage = JNull, it_read = []\<rparr>"

definition chatReasoningField :: string where "chatReasoningField = ''reasoning''"
definition chatReasoningContentField :: string where "chatReasoningContentField = ''reasoning_content''"

definition reasoning_of :: "chatIterationResult \<Rightarrow> string \<Rightarrow> string" where
  "reasoning_of r k = (case map_of (it_reasoning r) k of None \<Rightarrow> [] | Some t \<Rightarrow> t)"

definition assistantMessage :: "chatIterationResult \<Rightarrow> json_object" where
  "assistantMessage r =
     [(''role'', JString ''assistant''), (''content'', JString (it_content r))]
     @ optional_field chatReasoningContentField (reasoning_of r chatReasoningContentField)
     @ optional_field chatReasoningField (reasoning_of r chatReasoningField)
     @ (if it_rawToolCalls r = [] then [] else [(''tool_calls'', JArray (it_rawToolCalls r))])"

definition accumulateReasoning :: "json_object \<Rightarrow> string \<Rightarrow> chatIterationResult \<Rightarrow> chatIterationResult" where
  "accumulateReasoning delta k r =
     (let t = string_field delta k in
      if t = [] then r else r\<lparr>it_reasoning := AList.update k (reasoning_of r k @ t) (it_reasoning r)\<rparr>)"

section \<open>Identity\<close>

definition ensureStreamIdentity :: "json_object \<Rightarrow> 'w chatStreamer \<Rightarrow> 'w chatStreamer" where
  "ensureStreamIdentity chunk s =
     (if identityPinned s then s
      else
        let s1 = s\<lparr>cs_id := keep_or (cs_id s) (string_field chunk ''id'')\<rparr>;
            created = int_value (field chunk ''created'');
            s2 = (if cs_created s1 = 0 \<and> 0 < created then s1\<lparr>cs_created := created\<rparr> else s1);
            s3 = s2\<lparr>sb_model := keep_or (sb_model s2) (string_field chunk ''model'')\<rparr>
        in if cs_id s3 \<noteq> [] \<and> cs_created s3 \<noteq> 0 \<and> sb_model s3 \<noteq> [] then s3\<lparr>identityPinned := True\<rparr> else s3)"

definition streamID :: "('s, 'w) stream_env \<Rightarrow> 'w chatStreamer \<Rightarrow> string \<times> 'w chatStreamer" where
  "streamID env s =
     (if cs_id s \<noteq> [] then (cs_id s, s)
      else case new_uuid env s of (u, s1) \<Rightarrow> (''chatcmpl-'' @ u, s1\<lparr>cs_id := ''chatcmpl-'' @ u\<rparr>))"

definition streamCreated :: "('s, 'w) stream_env \<Rightarrow> 'w chatStreamer \<Rightarrow> int \<times> 'w chatStreamer" where
  "streamCreated env s =
     (if cs_created s \<noteq> 0 then (cs_created s, s)
      else (se_unix env (sb_world s), s\<lparr>cs_created := se_unix env (sb_world s)\<rparr>))"

section \<open>Frames\<close>

definition chunk_of :: "string \<Rightarrow> int \<Rightarrow> string \<Rightarrow> json_object \<Rightarrow> json_object" where
  "chunk_of i created model partial =
     [(''id'', JString i), (''object'', JString ''chat.completion.chunk''), (''created'', JInt created), (''model'', JString model)]
     @ partial"

definition writeChunk :: "loop_lib \<Rightarrow> ('s, 'w) stream_env \<Rightarrow> json_object \<Rightarrow> 'w chatStreamer \<Rightarrow> 'w chatStreamer" where
  "writeChunk lib env partial s =
     (let (i, s1) = streamID env s;
          (created, s2) = streamCreated env s1;
          (model, s3) = validateStreamModel ''chunk.model'' s2
      in emit_frame lib env (WData (chunk_of i created model partial)) s3)"

definition delta_choice :: "json_object \<Rightarrow> json_object" where
  "delta_choice d = [(''choices'', JArray [JObject [(''index'', JInt 0), (''delta'', JObject d)]])]"

definition ensureRoleEmitted :: "loop_lib \<Rightarrow> ('s, 'w) stream_env \<Rightarrow> 'w chatStreamer \<Rightarrow> 'w chatStreamer" where
  "ensureRoleEmitted lib env s =
     (if roleEmitted s then s
      else writeChunk lib env (delta_choice [(''role'', JString ''assistant'')]) (s\<lparr>roleEmitted := True\<rparr>))"

definition nested_annotation :: "Annotation \<Rightarrow> json" where
  "nested_annotation a =
     JObject [(''type'', JString ''url_citation''),
              (''url_citation'', JObject [(''url'', JString (URL (ann_source a))), (''title'', JString (CitationTitle (ann_source a))),
                                          (''start_index'', JInt (StartIndex a)), (''end_index'', JInt (EndIndex a))])]"

definition nestedAnnotationsFromMatches :: "Annotation list \<Rightarrow> json list" where
  "nestedAnnotationsFromMatches ms = map nested_annotation ms"

text \<open>What the citation emitter released: the text, then the annotations.\<close>

definition emit_released ::
  "loop_lib \<Rightarrow> ('s, 'w) stream_env \<Rightarrow> string \<times> Annotation list \<times> Emitter \<Rightarrow> 'w chatStreamer \<Rightarrow> 'w chatStreamer" where
  "emit_released lib env released s =
     (case released of (contentChunk, annotations, em) \<Rightarrow>
        let s0 = s\<lparr>cs_emitter := em\<rparr>;
            s1 = (if contentChunk = [] then s0
                  else writeChunk lib env (delta_choice [(''content'', JString contentChunk)]) s0)
        in if annotations = [] then s1
           else writeChunk lib env (delta_choice [(''annotations'', JArray (nestedAnnotationsFromMatches annotations))]) s1)"

definition emitContentDelta :: "loop_lib \<Rightarrow> ('s, 'w) stream_env \<Rightarrow> string \<Rightarrow> 'w chatStreamer \<Rightarrow> 'w chatStreamer" where
  "emitContentDelta lib env fragment s =
     emit_released lib env (Push (ll_url lib) (Some (ts_cite (sb_tools s))) fragment (cs_emitter s)) s"

definition flushCitations :: "loop_lib \<Rightarrow> ('s, 'w) stream_env \<Rightarrow> 'w chatStreamer \<Rightarrow> 'w chatStreamer" where
  "flushCitations lib env s =
     emit_released lib env (Flush (ll_url lib) (Some (ts_cite (sb_tools s))) (cs_emitter s)) s"

definition emitReasoningDelta :: "loop_lib \<Rightarrow> ('s, 'w) stream_env \<Rightarrow> json_object \<Rightarrow> 'w chatStreamer \<Rightarrow> 'w chatStreamer" where
  "emitReasoningDelta lib env delta s =
     (let d = optional_field chatReasoningContentField (string_field delta chatReasoningContentField)
              @ optional_field chatReasoningField (string_field delta chatReasoningField)
      in if d = [] then s else writeChunk lib env (delta_choice d) s)"

definition emitClientToolCallDelta :: "loop_lib \<Rightarrow> ('s, 'w) stream_env \<Rightarrow> json_object \<Rightarrow> 'w chatStreamer \<Rightarrow> 'w chatStreamer" where
  "emitClientToolCallDelta lib env fwd s =
     (if fwd = [] then s
      else writeChunk lib env (delta_choice [(''tool_calls'', JArray [JObject fwd])]) s)"

definition emitTinfoilEventMarker ::
  "loop_lib \<Rightarrow> ('s, 'w) stream_env \<Rightarrow> chat_conf \<Rightarrow> string \<Rightarrow> string \<Rightarrow> json_object \<Rightarrow> string \<Rightarrow> toolCallSource list \<Rightarrow>
   piiCheckResult option \<Rightarrow> 'w chatStreamer \<Rightarrow> 'w chatStreamer" where
  "emitTinfoilEventMarker lib env conf i status action reason sources pii s =
     (if \<not> webSearch (cc_eventFlags conf) then s
      else writeChunk lib env
             (delta_choice [(''content'', JString (tinfoilEventMarker (ll_encode lib) i status action reason sources pii))]) s)"

definition chatToolProgressEmitter :: "loop_lib \<Rightarrow> ('s, 'w) stream_env \<Rightarrow> chat_conf \<Rightarrow> 'w chatStreamer toolProgressEmitter" where
  "chatToolProgressEmitter lib env conf =
     \<lparr>pe_open = (\<lambda>i details s. (\<lparr>h_id = i, h_outputIndex = 0\<rparr>, emitTinfoilEventMarker lib env conf i ''in_progress'' details [] [] None s)),
      pe_phase = (\<lambda>_ _ s. s),
      pe_close = (\<lambda>h _ details res status reason s.
        emitTinfoilEventMarker lib env conf (h_id h) status details reason (pr_sources res) (pr_pii res) s)\<rparr>"

section \<open>One upstream stream\<close>

type_synonym 'w pump_state = "chatIterationResult \<times> chatToolCallEntry list \<times> 'w chatStreamer"

text \<open>A delta: reasoning, text, tool calls, in this order.\<close>

definition on_delta :: "loop_lib \<Rightarrow> ('s, 'w) stream_env \<Rightarrow> chat_conf \<Rightarrow> json_object \<Rightarrow> 'w pump_state \<Rightarrow> 'w pump_state" where
  "on_delta lib env conf delta st =
     (case st of (res, es, s) \<Rightarrow>
        let res1 = accumulateReasoning delta chatReasoningField (accumulateReasoning delta chatReasoningContentField res);
            s1 = emitReasoningDelta lib env delta s;
            content = string_field delta ''content'';
            res2 = res1\<lparr>it_content := it_content res1 @ content\<rparr>;
            s2 = (if content = [] then s1 else emitContentDelta lib env content s1)
        in case as_array (field delta ''tool_calls'') of
             Some rawCalls \<Rightarrow>
               (case ingest (cc_owned conf) rawCalls (es, cs_forwarder s2) of
                  (out, es', f) \<Rightarrow> (res2, es', fold (emitClientToolCallDelta lib env) out (s2\<lparr>cs_forwarder := f\<rparr>)))
           | None \<Rightarrow> (res2, es, s2))"

definition on_choice :: "loop_lib \<Rightarrow> ('s, 'w) stream_env \<Rightarrow> chat_conf \<Rightarrow> json_object \<Rightarrow> 'w pump_state \<Rightarrow> 'w pump_state" where
  "on_choice lib env conf choice st =
     (case st of (res, es, s) \<Rightarrow>
        let reason = string_field choice ''finish_reason'';
            res1 = (if reason = [] then res else res\<lparr>it_finishReason := reason\<rparr>)
        in case as_object (field choice ''delta'') of
             Some delta \<Rightarrow> on_delta lib env conf delta (res1, es, s)
           | None \<Rightarrow> (res1, es, s))"

definition first_choice :: "json_object \<Rightarrow> json_object option" where
  "first_choice chunk = (case field chunk ''choices'' of JArray (c # _) \<Rightarrow> as_object c | _ \<Rightarrow> None)"

definition note_usage :: "json_object \<Rightarrow> chatIterationResult \<Rightarrow> chatIterationResult" where
  "note_usage chunk res = (case field chunk ''usage'' of JObject u \<Rightarrow> res\<lparr>it_usage := JObject u\<rparr> | _ \<Rightarrow> res)"

definition on_chunk ::
  "loop_lib \<Rightarrow> ('s, 'w) stream_env \<Rightarrow> chat_conf \<Rightarrow> json_object \<Rightarrow> 'w pump_state \<Rightarrow> runtime_error option \<times> 'w pump_state" where
  "on_chunk lib env conf chunk st =
     (case st of (res, es, s) \<Rightarrow>
        case as_object (field chunk ''error'') of
          Some errObj \<Rightarrow> (Some (newUpstreamJSONError (ll_encode lib) errObj), st)
        | None \<Rightarrow>
            let s1 = ensureRoleEmitted lib env (ensureStreamIdentity chunk s);
                res1 = (note_usage chunk res)\<lparr>it_read := it_read res @ [chunk]\<rparr>
            in (None,
                case first_choice chunk of
                  Some choice \<Rightarrow> on_choice lib env conf choice (res1, es, s1)
                | None \<Rightarrow> (res1, es, s1)))"

text \<open>The loop; \<open>Inr True\<close> is the end marker, \<open>Inr False\<close> a bare end of stream.\<close>

fun pump_loop ::
  "loop_lib \<Rightarrow> ('s, 'w) stream_env \<Rightarrow> chat_conf \<Rightarrow> sseFrame list \<Rightarrow> string option \<Rightarrow> 'w pump_state \<Rightarrow> (runtime_error + bool) \<times> 'w pump_state"
where
  "pump_loop lib env conf frames ending (res, es, s) =
     (case writeErr s of
        Some err \<Rightarrow> (Inl (OtherError err), res, es, s)
      | None \<Rightarrow>
          (case frames of
             [] \<Rightarrow> (case ending of None \<Rightarrow> Inr False | Some e \<Rightarrow> Inl (OtherError e), res, es, s)
           | frame # rest \<Rightarrow>
               if frame_data frame = ''[DONE]'' then (Inr True, res, es, s)
               else if frame_data frame = [] then pump_loop lib env conf rest ending (res, es, s)
               else case ll_unmarshal lib (frame_data frame) of
                      None \<Rightarrow> (Inl (newUpstreamStreamError (ll_encode lib)), res, es, s)
                    | Some chunk \<Rightarrow>
                        (case on_chunk lib env conf (args_of chunk) (res, es, s) of
                           (Some err, st) \<Rightarrow> (Inl err, st)
                         | (None, st) \<Rightarrow> pump_loop lib env conf rest ending st)))"

declare pump_loop.simps [simp del]

text \<open>The usage of the turn is added on every exit. The chunks that were handled are logged with it.\<close>

definition turn_read :: "json_object list \<Rightarrow> 'w chatStreamer \<Rightarrow> 'w chatStreamer" where
  "turn_read chunks s = s\<lparr>cs_read := cs_read s @ [chunks]\<rparr>"

definition pumpUpstream ::
  "loop_lib \<Rightarrow> ('s, 'w) stream_env \<Rightarrow> chat_conf \<Rightarrow> sseReader \<Rightarrow> 'w chatStreamer \<Rightarrow>
   (runtime_error + chatIterationResult) \<times> 'w chatStreamer"
where
  "pumpUpstream lib env conf reader s =
     (case read_all reader of
        (frames, ending) \<Rightarrow>
          (case pump_loop lib env conf frames ending (empty_result, [], s\<lparr>cs_forwarder := resetIteration (cs_forwarder s)\<rparr>) of
             (outcome, res, es, s1) \<Rightarrow>
               let s2 = turn_read (it_read res) (if it_usage res = JNull then s1 else add_usage lib (it_usage res) s1);
                   res1 = res\<lparr>it_toolCalls := builder_toolCalls lib es, it_rawToolCalls := builder_raw es\<rparr>
               in case outcome of
                    Inl err \<Rightarrow> (Inl err, s2)
                  | Inr doneSeen \<Rightarrow>
                      if \<not> doneSeen then (Inl (newUpstreamStreamError (ll_encode lib)), s2)
                      else (Inr res1, s2\<lparr>cs_forwarder := recordStreamedWithoutIDs es (cs_forwarder s2)\<rparr>)))"

definition runIteration ::
  "loop_lib \<Rightarrow> ('s, 'w) stream_env \<Rightarrow> chat_conf \<Rightarrow> json_object \<Rightarrow> header \<Rightarrow> 'w chatStreamer \<Rightarrow>
   (runtime_error + chatIterationResult) \<times> 'w chatStreamer"
where
  "runIteration lib env conf reqBody requestHeaders s =
     (case openUpstreamSSE env ''/v1/chat/completions'' reqBody requestHeaders s of
        (Inl err, s1) \<Rightarrow> (Inl err, s1)
      | (Inr reader, s1) \<Rightarrow> pumpUpstream lib env conf reader s1)"

section \<open>Ending the stream\<close>

definition finalUsage :: "'w chatStreamer \<Rightarrow> json" where
  "finalUsage s = (case acc_Usage (usageTotals s) of None \<Rightarrow> JNull | Some u \<Rightarrow> JObject (chatUsageMap u))"

definition send_unstreamed ::
  "loop_lib \<Rightarrow> ('s, 'w) stream_env \<Rightarrow> chatIterationResult \<Rightarrow> toolCall list \<Rightarrow> 'w chatStreamer \<Rightarrow> 'w chatStreamer" where
  "send_unstreamed lib env result clientToolCalls s =
     (if clientToolCalls = [] then s
      else case unstreamed clientToolCalls (cs_forwarder s) of
             (pending, f) \<Rightarrow>
               if pending = [] then s\<lparr>cs_forwarder := f\<rparr>
               else let raw = rawToolCallsFromParsedAt pending (it_rawToolCalls result) (nextClientIndex f);
                        s1 = s\<lparr>cs_forwarder := f\<lparr>nextClientIndex := nextClientIndex f + int (length raw)\<rparr>\<rparr>
                    in if raw = [] then s1 else writeChunk lib env (delta_choice [(''tool_calls'', JArray raw)]) s1)"

definition finish_chunk :: "string \<Rightarrow> json_object" where
  "finish_chunk reason =
     [(''choices'', JArray [JObject [(''index'', JInt 0), (''delta'', JObject []), (''finish_reason'', JString reason)]])]"

text \<open>The trailer with the usage metrics; a panic of the formatter is \<open>None\<close>.\<close>

definition metrics_trailer ::
  "loop_lib \<Rightarrow> string \<Rightarrow> json \<Rightarrow> ('w, 'a) streamBase_scheme \<Rightarrow> ('w, 'a) streamBase_scheme option" where
  "metrics_trailer lib modelName usage s =
     (if \<not> usageMetricsRequested s then Some s
      else map_option (\<lambda>formatted.
               if formatted = [] then s else s\<lparr>sb_header := header_set UsageMetricsResponseHeader formatted (sb_header s)\<rparr>)
             (formatUsageMetrics (ll_pricing lib) (usageFromRaw (ll_usage lib) usage) modelName
                (Some (webSearchUsage (ll_pricing lib) (ts_log (sb_tools s))))))"

text \<open>What the handler returns; \<open>None\<close> is a panic.\<close>

type_synonym stream_result = "runtime_error option option"

definition stream_end :: "('w, 'a) streamBase_scheme \<Rightarrow> runtime_error option" where
  "stream_end s = streamAborted (map_option OtherError (writeErr s)) s"

text \<open>The frames that end a stream, and the usage they report.\<close>

definition final_frames ::
  "loop_lib \<Rightarrow> ('s, 'w) stream_env \<Rightarrow> chat_conf \<Rightarrow> chatIterationResult \<Rightarrow> toolCall list \<Rightarrow> 'w chatStreamer \<Rightarrow> json \<times> 'w chatStreamer"
where
  "final_frames lib env conf result clientToolCalls s =
     (let s1 = flushCitations lib env (ensureRoleEmitted lib env s);
          s2 = send_unstreamed lib env result clientToolCalls s1;
          finishReason = (if clientToolCalls \<noteq> [] then ''tool_calls'' else keep_or (it_finishReason result) ''stop'');
          s3 = writeChunk lib env (finish_chunk finishReason) s2;
          usage = finalUsage s3;
          s4 = (if clientRequestedUsage conf \<and> usage \<noteq> JNull
                then writeChunk lib env [(''choices'', JArray []), (''usage'', usage)] s3 else s3)
      in (usage, emit_frame lib env WDone s4))"

definition finalize ::
  "loop_lib \<Rightarrow> ('s, 'w) stream_env \<Rightarrow> chat_conf \<Rightarrow> tool_request \<Rightarrow> string \<Rightarrow> chatIterationResult \<Rightarrow> toolCall list \<Rightarrow>
   'w chatStreamer \<Rightarrow> stream_result \<times> 'w chatStreamer"
where
  "finalize lib env conf r modelName result clientToolCalls s =
     (case final_frames lib env conf result clientToolCalls s of
        (usage, s5) \<Rightarrow>
          (case metrics_trailer lib modelName usage s5 of
             None \<Rightarrow> (None, s5)
           | Some s6 \<Rightarrow> (Some (stream_end s6), bill_stream lib env r modelName usage s6)))"

definition terminateWithError ::
  "loop_lib \<Rightarrow> ('s, 'w) stream_env \<Rightarrow> tool_request \<Rightarrow> string \<Rightarrow> runtime_error \<Rightarrow> 'w chatStreamer \<Rightarrow> stream_result \<times> 'w chatStreamer" where
  "terminateWithError lib env r modelName err s =
     (if \<not> headersWritten s then (Some (Some err), s)
      else
        let s1 = flushCitations lib env s;
            payload = upstreamErrorPayload (\<lambda>b. case ll_unmarshal lib b of Some parsed \<Rightarrow> parsed | None \<Rightarrow> None) err;
            s2 = emit_frame lib env (WData [(''error'', JObject payload)]) s1;
            s3 = emit_frame lib env WDone s2;
            s4 = bill_stream lib env r modelName (finalUsage s3) s3
        in (Some (stream_end s4), s4))"

section \<open>The loop\<close>

definition streamUsageOptions :: json where
  "streamUsageOptions = JObject [(''include_usage'', JBool True), (''continuous_usage_stats'', JBool True)]"

definition force_stream :: "json_object \<Rightarrow> json_object" where
  "force_stream b = AList.update ''stream_options'' streamUsageOptions (AList.update ''stream'' (JBool True) b)"

definition buildChatStreamRequest ::
  "loop_lib \<Rightarrow> json_object \<Rightarrow> mcp_tool list \<Rightarrow> prompt_result \<Rightarrow> json_object" where
  "buildChatStreamRequest lib body tools prompt =
     force_stream (buildChatUpstreamRequest (ll_fmt lib) (ll_now lib) body tools prompt)"

text \<open>The messages of the next turn.\<close>

definition chat_replay :: "chatIterationResult \<Rightarrow> toolOutput list \<Rightarrow> json_object \<Rightarrow> json_object" where
  "chat_replay result outputs reqBody = chat_applyToolOutputs reqBody (JObject (assistantMessage result)) outputs"

definition chat_executor ::
  "loop_lib \<Rightarrow> ('s, 'w) stream_env \<Rightarrow> chat_conf \<Rightarrow> 's stream_job \<Rightarrow> toolCall \<Rightarrow> 'w chatStreamer \<Rightarrow> execution_result \<times> 'w chatStreamer" where
  "chat_executor lib env conf job = executeToolWithProgress lib env (job_reg job) (chatToolProgressEmitter lib env conf)"

text \<open>One turn: it ends the request (\<open>Inl\<close>) or leaves the next request body.\<close>

definition stream_turn ::
  "loop_lib \<Rightarrow> ('s, 'w) stream_env \<Rightarrow> chat_conf \<Rightarrow> 's stream_job \<Rightarrow> json_object \<Rightarrow> 'w chatStreamer \<Rightarrow>
   (stream_result + json_object) \<times> 'w chatStreamer"
where
  "stream_turn lib env conf job reqBody0 s =
     (let reqBody = chat_preIteration (ll_valid lib) reqBody0 in
      case runIteration lib env conf reqBody (job_headers job) s of
        (Inl err, s1) \<Rightarrow>
          (case terminateWithError lib env (job_request job) (job_model job) err s1 of (e, s2) \<Rightarrow> (Inl e, s2))
      | (Inr result, s1) \<Rightarrow>
          if writeErr s1 \<noteq> None
          then (Inl (Some None), bill_stream lib env (job_request job) (job_model job) (finalUsage s1) s1)
          else (case splitToolCalls (cc_owned conf) (it_toolCalls result) of
                  (routerCalls, clientCalls) \<Rightarrow>
                    if routerCalls = []
                    then (case finalize lib env conf (job_request job) (job_model job) result clientCalls s1 of (e, s2) \<Rightarrow> (Inl e, s2))
                    else (case resolve_calls lib job (chat_executor lib env conf job) routerCalls s1 of
                            (outputs, s2) \<Rightarrow>
                              if clientCalls \<noteq> []
                              then (case finalize lib env conf (job_request job) (job_model job) result clientCalls s2 of
                                      (e, s3) \<Rightarrow> (Inl e, s3))
                              else (Inr (chat_replay result outputs reqBody), s2))))"

fun stream_turns ::
  "loop_lib \<Rightarrow> ('s, 'w) stream_env \<Rightarrow> chat_conf \<Rightarrow> 's stream_job \<Rightarrow> nat \<Rightarrow> json_object \<Rightarrow> 'w chatStreamer \<Rightarrow>
   stream_result \<times> 'w chatStreamer"
where
  "stream_turns lib env conf job 0 reqBody s =
     (case runIteration lib env conf (force_stream (forcedFinalChatRequest (ll_fmt lib) reqBody)) (job_headers job) s of
        (Inl err, s1) \<Rightarrow> terminateWithError lib env (job_request job) (job_model job) err s1
      | (Inr result, s1) \<Rightarrow> finalize lib env conf (job_request job) (job_model job) result [] s1)"
| "stream_turns lib env conf job (Suc n) reqBody s =
     (case stream_turn lib env conf job reqBody s of
        (Inl e, s1) \<Rightarrow> (e, s1)
      | (Inr reqBody', s1) \<Rightarrow> stream_turns lib env conf job n reqBody' s1)"

definition new_base :: "bool \<Rightarrow> bool \<Rightarrow> header \<Rightarrow> 'w \<Rightarrow> 'w streamBase" where
  "new_base metrics harmony h w =
     \<lparr>sb_world = w, sb_out = [], sb_header = h, sb_status = None, usageMetricsRequested = metrics,
      sb_tools = \<lparr>ts_cite = \<lparr>NextIndex = 1, Sources = [], Harmony = harmony\<rparr>, ts_log = []\<rparr>,
      usageTotals = no_usage, headersWritten = False, upstreamHeaders = None, sb_model = [], writeErr = None,
      sb_posts = [], sb_bills = [], sb_uuids = 0\<rparr>"

definition new_chat :: "bool \<Rightarrow> bool \<Rightarrow> header \<Rightarrow> 'w \<Rightarrow> 'w chatStreamer" where
  "new_chat metrics harmony h w =
     streamBase.extend (new_base metrics harmony h w)
       \<lparr>cs_emitter = NewEmitter, roleEmitted = False, cs_id = [], cs_created = 0, identityPinned = False,
        cs_forwarder = newClientToolCallDeltaForwarder, cs_read = []\<rparr>"

text \<open>\<open>w0\<close> is the client's response header before the call; the connection must support flushing.\<close>

definition runChatStreaming ::
  "loop_lib \<Rightarrow> ('s, 'w) stream_env \<Rightarrow> bool \<Rightarrow> 's sessionRegistry \<Rightarrow> tool_request \<Rightarrow> json_object \<Rightarrow> string \<Rightarrow> header \<Rightarrow>
   prompt_result \<Rightarrow> RouterOptions option \<Rightarrow> header \<Rightarrow> 'w \<Rightarrow> stream_result \<times> 'w chatStreamer"
where
  "runChatStreaming lib env flusher reg r body modelName requestHeaders prompt routerOpts w0 w =
     (let s0 = new_chat (header_get (tr_header r) UsageMetricsRequestHeader = ''true'') (isHarmonyModel modelName) w0 w;
          conf = \<lparr>cc_owned = ownedTools (Some reg),
                  clientRequestedUsage = (header_get (tr_header r) ''X-Tinfoil-Client-Requested-Usage'' = ''true''),
                  cc_eventFlags = parseTinfoilEventFlags (Some (tr_header r))\<rparr>;
          job = \<lparr>job_reg = reg, job_opts = parseChatWebSearchOptions (ll_go lib) routerOpts body,
                 job_schemas = schemaLookup (ll_schema lib) (map Some (reg_tools reg)),
                 job_headers = requestHeaders, job_request = r, job_model = modelName\<rparr>
      in if \<not> flusher then (Some (Some (OtherError ''streaming not supported'')), s0)
         else stream_turns lib env conf job maxToolIterations
                (buildChatStreamRequest lib body (reg_tools reg) prompt) s0)"

section \<open>What the operations leave alone\<close>

lemma emit_frame_sel [simp]:
  "headersWritten (emit_frame lib env x s) = headersWritten s" "upstreamHeaders (emit_frame lib env x s) = upstreamHeaders s"
  "sb_model (emit_frame lib env x s) = sb_model s" "usageTotals (emit_frame lib env x s) = usageTotals s"
  "sb_posts (emit_frame lib env x s) = sb_posts s" "sb_bills (emit_frame lib env x s) = sb_bills s"
  "sb_tools (emit_frame lib env x s) = sb_tools s" "sb_uuids (emit_frame lib env x s) = sb_uuids s"
  "sb_header (emit_frame lib env x s) = sb_header s" "usageMetricsRequested (emit_frame lib env x s) = usageMetricsRequested s"
  by (simp_all add: emit_frame_def split: option.splits prod.splits)

lemma emit_frame_chat [simp]:
  "cs_emitter (emit_frame lib env x s) = cs_emitter s" "roleEmitted (emit_frame lib env x s) = roleEmitted s"
  "cs_id (emit_frame lib env x s) = cs_id s" "cs_created (emit_frame lib env x s) = cs_created s"
  "identityPinned (emit_frame lib env x s) = identityPinned s" "cs_forwarder (emit_frame lib env x s) = cs_forwarder s"
  "cs_read (emit_frame lib env x s) = cs_read s"
  by (simp_all add: emit_frame_def split: option.splits prod.splits)

lemmas chunk_ops = writeChunk_def streamID_def streamCreated_def validateStreamModel_def new_uuid_def

lemma writeChunk_sel [simp]:
  "headersWritten (writeChunk lib env part s) = headersWritten s" "upstreamHeaders (writeChunk lib env part s) = upstreamHeaders s"
  "usageTotals (writeChunk lib env part s) = usageTotals s" "sb_posts (writeChunk lib env part s) = sb_posts s"
  "sb_bills (writeChunk lib env part s) = sb_bills s" "sb_tools (writeChunk lib env part s) = sb_tools s"
  "cs_emitter (writeChunk lib env part s) = cs_emitter s" "roleEmitted (writeChunk lib env part s) = roleEmitted s"
  "cs_forwarder (writeChunk lib env part s) = cs_forwarder s" "sb_model (writeChunk lib env part s) = sb_model s"
  "cs_read (writeChunk lib env part s) = cs_read s"
  by (simp_all add: chunk_ops)

lemma ensureStreamIdentity_sel [simp]:
  "sb_out (ensureStreamIdentity c s) = sb_out s" "roleEmitted (ensureStreamIdentity c s) = roleEmitted s"
  "cs_emitter (ensureStreamIdentity c s) = cs_emitter s" "writeErr (ensureStreamIdentity c s) = writeErr s"
  "sb_bills (ensureStreamIdentity c s) = sb_bills s" "usageTotals (ensureStreamIdentity c s) = usageTotals s"
  "headersWritten (ensureStreamIdentity c s) = headersWritten s" "sb_posts (ensureStreamIdentity c s) = sb_posts s"
  "cs_read (ensureStreamIdentity c s) = cs_read s"
  by (simp_all add: ensureStreamIdentity_def Let_def)

lemma ensureStreamIdentity_keeps:
  "cs_id s \<noteq> [] \<Longrightarrow> cs_id (ensureStreamIdentity c s) = cs_id s"
  "cs_created s \<noteq> 0 \<Longrightarrow> cs_created (ensureStreamIdentity c s) = cs_created s"
  "sb_model s \<noteq> [] \<Longrightarrow> sb_model (ensureStreamIdentity c s) = sb_model s"
  by (simp_all add: ensureStreamIdentity_def keep_or_def Let_def)

lemma openUpstreamSSE_sel:
  assumes "openUpstreamSSE env path req hdr s = (res, s')"
  shows "sb_out s' = sb_out s" "writeErr s' = writeErr s" "sb_model s' = sb_model s" "usageTotals s' = usageTotals s"
    "sb_bills s' = sb_bills s" "sb_posts s' = sb_posts s @ [req]"
  using assms
  by (simp_all add: openUpstreamSSE_def writeSSEHeaders_def Let_def split: sum.splits prod.splits if_splits)
    (auto simp: openUpstreamSSE_def writeSSEHeaders_def Let_def)

lemma openUpstreamSSE_chat:
  fixes s :: "'w chatStreamer"
  assumes "openUpstreamSSE env path req hdr s = (res, s')"
  shows "cs_emitter s' = cs_emitter s" "roleEmitted s' = roleEmitted s" "cs_id s' = cs_id s" "cs_created s' = cs_created s"
    "cs_read s' = cs_read s"
  using assms
  by (simp_all add: openUpstreamSSE_def writeSSEHeaders_def Let_def split: sum.splits prod.splits if_splits)
    (auto simp: openUpstreamSSE_def writeSSEHeaders_def Let_def)

definition role_part :: json_object where
  "role_part = delta_choice [(''role'', JString ''assistant'')]"

text \<open>A chunk that tells a role in the delta of any choice.\<close>

definition delta_role :: "json \<Rightarrow> json" where
  "delta_role choice =
     (case as_object choice of None \<Rightarrow> JNull
      | Some c \<Rightarrow> (case as_object (field c ''delta'') of None \<Rightarrow> JNull | Some d \<Rightarrow> field d ''role''))"

definition is_role :: "json_object \<Rightarrow> bool" where
  "is_role b \<longleftrightarrow> list_ex (\<lambda>c. delta_role c \<noteq> JNull) (list_or_empty (field b ''choices''))"

lemmas role_simps = is_role_def delta_role_def role_part_def delta_choice_def field_def

definition with_role :: "('w chatStreamer \<Rightarrow> bool) \<Rightarrow> 'w chatStreamer \<Rightarrow> bool" where
  "with_role P s \<longleftrightarrow> P s \<and> roleEmitted s"

lemmas pump_Nil = pump_loop.simps[of _ _ _ "[]", unfolded list.case]
lemmas pump_Cons = pump_loop.simps[of _ _ _ "f # fs" for f fs, unfolded list.case]

lemma pump_step:
  assumes "pump_loop lib env conf (frame # frames) ending (res, es, s) = (e, res', es', s')"
  shows "(\<exists>ch er re x t. on_chunk lib env conf ch (res, es, s) = (er, re, x, t)
            \<and> pump_loop lib env conf frames ending (re, x, t) = (e, res', es', s'))
         \<or> (\<exists>ch er. on_chunk lib env conf ch (res, es, s) = (er, res', es', s'))
         \<or> pump_loop lib env conf frames ending (res, es, s) = (e, res', es', s')
         \<or> res' = res \<and> es' = es \<and> s' = s"
  using assms by (auto simp: pump_Cons split: option.splits if_splits prod.splits)

lemma Flush_new: "Flush lib c NewEmitter = ([], [], NewEmitter)"
  by (simp add: Flush_def drain_def resolveHarmonyTokens_def NewEmitter_def drain_loop.simps split: option.splits)

text \<open>
  A property of the streamer that every frame and every internal update keeps. The initial role frame comes
  first: other chunks are only required to keep it once the role is out.
\<close>

locale chat_frames =
  fixes lib :: loop_lib and env :: "('s, 'w) stream_env" and P :: "'w chatStreamer \<Rightarrow> bool"
  assumes chunk: "P s \<Longrightarrow> roleEmitted s \<Longrightarrow> \<not> is_role part \<Longrightarrow> P (writeChunk lib env part s)"
    and role: "P s \<Longrightarrow> \<not> roleEmitted s \<Longrightarrow> P (ensureRoleEmitted lib env s)"
    and ident: "P s \<Longrightarrow> P (ensureStreamIdentity c s)"
    and emitter: "P s \<Longrightarrow> roleEmitted s \<Longrightarrow> P (s\<lparr>cs_emitter := e\<rparr>)"
    and fresh: "P s \<Longrightarrow> \<not> roleEmitted s \<Longrightarrow> cs_emitter s = NewEmitter"
    and forwarder: "P s \<Longrightarrow> P (s\<lparr>cs_forwarder := f\<rparr>)"
    and tools: "P s \<Longrightarrow> P (s\<lparr>sb_tools := t\<rparr>)"
    and world: "P s \<Longrightarrow> P (s\<lparr>sb_world := w\<rparr>)"
    and uuids: "P s \<Longrightarrow> P (s\<lparr>sb_uuids := n\<rparr>)"
    and error_sent: "P s \<Longrightarrow> P (emit_frame lib env (WData [(''error'', v)]) s)"
    and end_sent: "P s \<Longrightarrow> P (emit_frame lib env WDone s)"
begin

lemma Q_chunk: "with_role P s \<Longrightarrow> \<not> is_role part \<Longrightarrow> with_role P (writeChunk lib env part s)"
  by (simp add: with_role_def chunk)

lemma Q_ensureRole: "P s \<Longrightarrow> with_role P (ensureRoleEmitted lib env s)"
  using role[of s] by (cases "roleEmitted s") (auto simp: with_role_def ensureRoleEmitted_def)

lemma Q_released: "with_role P s \<Longrightarrow> with_role P (emit_released lib env r s)"
proof -
  assume "with_role P s"
  then have "with_role P (s\<lparr>cs_emitter := e\<rparr>)" for e by (simp add: with_role_def emitter)
  then show ?thesis
    unfolding emit_released_def by (auto simp: Let_def role_simps intro!: Q_chunk split: prod.splits)
qed

lemma Q_reasoning: "with_role P s \<Longrightarrow> with_role P (emitReasoningDelta lib env d s)"
  by (auto simp: emitReasoningDelta_def Let_def role_simps optional_field_def chatReasoningField_def
      chatReasoningContentField_def intro!: Q_chunk)

lemma Q_call_delta: "with_role P s \<Longrightarrow> with_role P (emitClientToolCallDelta lib env d s)"
  by (auto simp: emitClientToolCallDelta_def role_simps intro!: Q_chunk)

lemma Q_fold: "(\<And>x s. with_role P s \<Longrightarrow> with_role P (g x s)) \<Longrightarrow> with_role P s \<Longrightarrow> with_role P (fold g xs s)"
  by (induction xs arbitrary: s) simp_all

lemma Q_delta:
  assumes "with_role P s" "on_delta lib env conf delta (res, es, s) = (res', es', s')"
  shows "with_role P s'"
proof -
  have 1: "with_role P (emitReasoningDelta lib env delta s)" using assms(1) by (rule Q_reasoning)
  have 2: "with_role P t \<Longrightarrow> with_role P (emitContentDelta lib env c t)" for t c
    by (simp add: emitContentDelta_def Q_released)
  have 3: "with_role P t \<Longrightarrow> with_role P (fold (emitClientToolCallDelta lib env) out (t\<lparr>cs_forwarder := f\<rparr>))" for t f out
    by (intro Q_fold Q_call_delta) (simp_all add: with_role_def forwarder)
  have 4: "with_role P (if c = [] then emitReasoningDelta lib env delta s else emitContentDelta lib env c (emitReasoningDelta lib env delta s))" for c
    using 1 2 by simp
  show ?thesis
    using assms(2) 4 3[OF 4] unfolding on_delta_def Let_def prod.case
    by (auto split: prod.splits option.splits)
qed

lemma Q_choice:
  assumes "with_role P s" "on_choice lib env conf choice (res, es, s) = (res', es', s')"
  shows "with_role P s'"
  using assms Q_delta[OF assms(1)] unfolding on_choice_def Let_def prod.case
  by (auto split: option.splits)

lemma P_chunk:
  assumes "P s" "on_chunk lib env conf chunk (res, es, s) = (e, res', es', s')"
  shows "P s'" and "e = None \<Longrightarrow> roleEmitted s'" and "e \<noteq> None \<Longrightarrow> s' = s \<and> es' = es"
proof -
  let ?s = "ensureRoleEmitted lib env (ensureStreamIdentity chunk s)"
  have q: "with_role P ?s" using assms(1) by (intro Q_ensureRole ident)
  have c: "P t \<and> roleEmitted t" if "on_choice lib env conf choice (r', es, ?s) = (r2, es2, t)" for choice r' r2 es2 t
    using Q_choice[OF q that] by (simp add: with_role_def)
  have "P ?s" "roleEmitted ?s" using q by (simp_all add: with_role_def)
  then show "P s'" "e = None \<Longrightarrow> roleEmitted s'" "e \<noteq> None \<Longrightarrow> s' = s \<and> es' = es"
    using assms c unfolding on_chunk_def Let_def prod.case by (auto split: option.splits)
qed

lemma P_pump:
  assumes "P s" "es \<noteq> [] \<longrightarrow> roleEmitted s" "pump_loop lib env conf frames ending (res, es, s) = (e, res', es', s')"
  shows "P s' \<and> (es' \<noteq> [] \<longrightarrow> roleEmitted s')"
  using assms
proof (induction frames arbitrary: res es s)
  case Nil
  then show ?case by (auto simp: pump_Nil split: option.splits)
next
  case (Cons frame frames)
  have c: "P t \<and> (x \<noteq> [] \<longrightarrow> roleEmitted t)" if "on_chunk lib env conf ch (res, es, s) = (er, re, x, t)" for ch er re x t
    using P_chunk[OF Cons.prems(1) that] Cons.prems(2) by (cases er) auto
  show ?case
    using pump_step[OF Cons.prems(3)]
  proof (elim disjE exE conjE)
    fix ch er re x t
    assume o: "on_chunk lib env conf ch (res, es, s) = (er, re, x, t)"
      and "pump_loop lib env conf frames ending (re, x, t) = (e, res', es', s')"
    then show ?thesis using Cons.IH[of t x re] c[OF o] by blast
  next
    fix ch er assume "on_chunk lib env conf ch (res, es, s) = (er, res', es', s')"
    then show ?thesis by (rule c)
  qed (use Cons in blast)+
qed

lemma Q_marker: "with_role P s \<Longrightarrow> with_role P (emitTinfoilEventMarker lib env conf i st a r src pii s)"
  by (auto simp: emitTinfoilEventMarker_def role_simps intro!: Q_chunk)

lemma P_flush: "P s \<Longrightarrow> P (flushCitations lib env s)"
proof (cases "roleEmitted s")
  case True
  assume "P s"
  then have "with_role P s" using True by (simp add: with_role_def)
  then have "with_role P (flushCitations lib env s)" by (simp add: flushCitations_def Q_released)
  then show ?thesis by (simp add: with_role_def)
next
  case False
  assume p: "P s"
  then have e: "cs_emitter s = NewEmitter" using False by (rule fresh)
  have "s\<lparr>cs_emitter := NewEmitter\<rparr> = s" using e by (cases s) simp
  moreover have "flushCitations lib env s = s\<lparr>cs_emitter := NewEmitter\<rparr>"
    by (simp add: flushCitations_def Flush_new emit_released_def Let_def e)
  ultimately show ?thesis using p by (simp only:)
qed

lemma Q_unstreamed: "with_role P s \<Longrightarrow> with_role P (send_unstreamed lib env result calls s)"
proof -
  assume q: "with_role P s"
  then have "with_role P (s\<lparr>cs_forwarder := f\<rparr>)" for f by (simp add: with_role_def forwarder)
  then show ?thesis
    using q unfolding send_unstreamed_def
    by (auto simp: Let_def role_simps intro!: Q_chunk split: prod.splits)
qed

lemma P_final_frames: "P s \<Longrightarrow> final_frames lib env conf result calls s = (u, s') \<Longrightarrow> P s'"
proof -
  assume p: "P s" and f: "final_frames lib env conf result calls s = (u, s')"
  let ?s2 = "send_unstreamed lib env result calls (flushCitations lib env (ensureRoleEmitted lib env s))"
  have "with_role P ?s2"
    using p by (intro Q_unstreamed) (simp add: flushCitations_def Q_released Q_ensureRole)
  then have s3: "with_role P (writeChunk lib env (finish_chunk x) ?s2)" for x
    by (rule Q_chunk) (simp add: finish_chunk_def role_simps)
  then have s4: "with_role P (writeChunk lib env [(''choices'', JArray []), (''usage'', v)] (writeChunk lib env (finish_chunk x) ?s2))" for x v
    by (rule Q_chunk) (simp add: role_simps)
  show "P s'"
    using f s3 s4 unfolding final_frames_def Let_def by (auto simp: with_role_def intro!: end_sent split: if_splits)
qed

end

sublocale chat_frames \<subseteq> progress: progress_surface lib env "chatToolProgressEmitter lib env conf" "with_role P" for conf
  by unfold_locales
    (auto simp: chatToolProgressEmitter_def intro!: Q_marker, auto simp: with_role_def world tools uuids)

text \<open>A property that the opening of streams and the accounting keep as well.\<close>

locale chat_run = chat_frames lib env P
  for lib :: loop_lib and env :: "('s, 'w) stream_env" and P :: "'w chatStreamer \<Rightarrow> bool" +
  assumes opened: "P s \<Longrightarrow> openUpstreamSSE env path req hdr s = (res, s') \<Longrightarrow> P s'"
    and usage_added: "P s \<Longrightarrow> P (add_usage lib u s)"
    and read_logged: "P s \<Longrightarrow> P (turn_read cs s)"
    and billed: "P s \<Longrightarrow> P (bill_stream lib env r m u s)"
    and trailer: "P s \<Longrightarrow> metrics_trailer lib m u s = Some s' \<Longrightarrow> P s'"
begin

lemma P_iteration:
  assumes "P s" "runIteration lib env conf req hdr s = (res, s')"
  shows "P s' \<and> (\<forall>r. res = Inr r \<longrightarrow> it_toolCalls r \<noteq> [] \<longrightarrow> roleEmitted s')"
proof -
  obtain o1 s1 where o: "openUpstreamSSE env ''/v1/chat/completions'' req hdr s = (o1, s1)"
    by (cases "openUpstreamSSE env ''/v1/chat/completions'' req hdr s")
  have 1: "P s1" using opened[OF assms(1) o] .
  show ?thesis
  proof (cases o1)
    case (Inl e)
    then show ?thesis using assms o 1 by (auto simp: runIteration_def)
  next
    case (Inr reader)
    obtain frames ending where rd: "read_all reader = (frames, ending)" by (cases "read_all reader")
    let ?s = "s1\<lparr>cs_forwarder := resetIteration (cs_forwarder s1)\<rparr>"
    obtain oc r' es t where p: "pump_loop lib env conf frames ending (empty_result, [], ?s) = (oc, r', es, t)"
      by (cases "pump_loop lib env conf frames ending (empty_result, [], ?s)")
    have "P ?s" using 1 by (rule forwarder)
    then have t: "P t" "es \<noteq> [] \<Longrightarrow> roleEmitted t" using P_pump[OF _ _ p] by auto
    have u: "P (add_usage lib v t)" "roleEmitted (add_usage lib v t) = roleEmitted t" for v
      using usage_added[OF t(1)] by (simp_all add: add_usage_def)
    define s2 where "s2 = turn_read (it_read r') (if it_usage r' = JNull then t else add_usage lib (it_usage r') t)"
    have s2: "P s2" "es \<noteq> [] \<Longrightarrow> roleEmitted s2" using t u read_logged by (simp_all add: s2_def) (simp_all add: turn_read_def)
    have e: "builder_toolCalls lib es \<noteq> [] \<Longrightarrow> es \<noteq> []" by (auto simp: builder_toolCalls_def)
    have "(res, s') = (case oc of Inl err \<Rightarrow> (Inl err, s2)
        | Inr d \<Rightarrow> if \<not> d then (Inl (newUpstreamStreamError (ll_encode lib)), s2)
                 else (Inr (r'\<lparr>it_toolCalls := builder_toolCalls lib es, it_rawToolCalls := builder_raw es\<rparr>),
                       s2\<lparr>cs_forwarder := recordStreamedWithoutIDs es (cs_forwarder s2)\<rparr>))"
      using assms(2) unfolding runIteration_def o Inr pumpUpstream_def rd p Let_def prod.case sum.case s2_def[symmetric]
      by (rule sym)
    then show ?thesis
      using s2 e forwarder[OF s2(1)] by (auto split: sum.splits if_splits)
  qed
qed

lemma P_terminate: "P s \<Longrightarrow> terminateWithError lib env r m e s = (res, s') \<Longrightarrow> P s'"
  by (auto simp: terminateWithError_def Let_def split: if_splits intro!: billed end_sent error_sent P_flush)

lemma P_finalize: "P s \<Longrightarrow> finalize lib env conf r m result calls s = (res, s') \<Longrightarrow> P s'"
  by (auto simp: finalize_def split: prod.splits option.splits dest: P_final_frames trailer intro: billed)

lemma P_turn: "P s \<Longrightarrow> stream_turn lib env conf job req s = (res, s') \<Longrightarrow> P s'"
proof -
  assume p: "P s" and t: "stream_turn lib env conf job req s = (res, s')"
  obtain x s1 where i: "runIteration lib env conf (chat_preIteration (ll_valid lib) req) (job_headers job) s = (x, s1)"
    by (cases "runIteration lib env conf (chat_preIteration (ll_valid lib) req) (job_headers job) s")
  note it = P_iteration[OF p i]
  show "P s'"
  proof (cases x)
    case (Inl e)
    then show ?thesis using t i it by (auto simp: stream_turn_def split: prod.splits dest: P_terminate)
  next
    case (Inr result)
    obtain rc cc where sp: "splitToolCalls (cc_owned conf) (it_toolCalls result) = (rc, cc)"
      by (cases "splitToolCalls (cc_owned conf) (it_toolCalls result)")
    obtain outs s2 where rv: "resolve_calls lib job (chat_executor lib env conf job) rc s1 = (outs, s2)"
      by (cases "resolve_calls lib job (chat_executor lib env conf job) rc s1")
    have "P s2" if "rc \<noteq> []"
    proof -
      have "it_toolCalls result \<noteq> []" using that sp by (auto simp: splitToolCalls_def)
      then have "with_role P s1" using it Inr by (simp add: with_role_def)
      then have "with_role P s2"
        using progress.keeps_resolve_calls[of s1 job "job_reg job" conf rc outs s2] rv
        by (simp add: chat_executor_def)
      then show ?thesis by (simp add: with_role_def)
    qed
    moreover have "P t'" if "finalize lib env conf r m result cs t = (e, t')" "P t" for r m cs t e t'
      using P_finalize[OF that(2,1)] .
    ultimately show ?thesis
      using t it billed[of s1] unfolding stream_turn_def Let_def i Inr prod.case sum.case sp rv
      by (auto split: prod.splits if_splits)
  qed
qed

lemma P_turns: "P s \<Longrightarrow> stream_turns lib env conf job n req s = (res, s') \<Longrightarrow> P s'"
proof (induction n arbitrary: req s)
  case 0
  obtain x s1 where i: "runIteration lib env conf (force_stream (forcedFinalChatRequest (ll_fmt lib) req)) (job_headers job) s = (x, s1)"
    by (cases "runIteration lib env conf (force_stream (forcedFinalChatRequest (ll_fmt lib) req)) (job_headers job) s")
  have p: "P s1" using P_iteration[OF 0(1) i] by blast
  show ?case
  proof (cases x)
    case (Inl e)
    show ?thesis by (rule P_terminate[OF p]) (use 0(2) i Inl in simp)
  next
    case (Inr result)
    show ?thesis by (rule P_finalize[OF p]) (use 0(2) i Inr in simp)
  qed
next
  case (Suc n)
  obtain x s1 where t: "stream_turn lib env conf job req s = (x, s1)" by (cases "stream_turn lib env conf job req s")
  have p: "P s1" using P_turn[OF Suc.prems(1) t] .
  show ?case
  proof (cases x)
    case (Inl e)
    then show ?thesis using Suc.prems(2) t p by simp
  next
    case (Inr req')
    show ?thesis by (rule Suc.IH[OF p]) (use Suc.prems(2) t Inr in simp)
  qed
qed

end

section \<open>One identity\<close>

definition is_chunk :: "json_object \<Rightarrow> bool" where
  "is_chunk body \<longleftrightarrow> field body ''object'' = JString ''chat.completion.chunk''"

definition chunks :: "client_write list \<Rightarrow> json_object list" where
  "chunks out = filter is_chunk (List.map_filter (\<lambda>x. case x of WData b \<Rightarrow> Some b | _ \<Rightarrow> None) out)"

definition identity_ok :: "'w chatStreamer \<Rightarrow> bool" where
  "identity_ok s \<longleftrightarrow>
     (\<forall>body. WData body \<in> set (sb_out s) \<longrightarrow> is_chunk body \<longrightarrow>
        cs_id s \<noteq> [] \<and> cs_created s \<noteq> 0 \<and> sb_model s \<noteq> []
        \<and> field body ''id'' = JString (cs_id s) \<and> field body ''created'' = JInt (cs_created s) \<and> field body ''model'' = JString (sb_model s))
     \<and> (\<not> roleEmitted s \<longrightarrow> cs_emitter s = NewEmitter)"

lemma is_chunk_chunk_of [simp]: "is_chunk (chunk_of i c m part)"
  by (simp add: is_chunk_def chunk_of_def field_def)

lemma chunk_of_fields [simp]:
  "field (chunk_of i c m part) ''id'' = JString i" "field (chunk_of i c m part) ''created'' = JInt c"
  "field (chunk_of i c m part) ''model'' = JString m"
  by (simp_all add: chunk_of_def field_def)

lemma emit_frame_out: "sb_out (emit_frame lib env x s) = sb_out s \<or> sb_out (emit_frame lib env x s) = sb_out s @ [x] \<and> writeErr s = None"
  by (simp add: emit_frame_def split: option.splits prod.splits)

lemma writeChunk_cases:
  assumes "\<And>w. se_unix env w \<noteq> 0"
  obtains (silent) "sb_out (writeChunk lib env part s) = sb_out s"
  | (sent) "sb_out (writeChunk lib env part s) =
        sb_out s @ [WData (chunk_of (cs_id (writeChunk lib env part s)) (cs_created (writeChunk lib env part s))
                      (sb_model (writeChunk lib env part s)) part)]"
      "cs_id (writeChunk lib env part s) \<noteq> []" "cs_created (writeChunk lib env part s) \<noteq> 0" "sb_model (writeChunk lib env part s) \<noteq> []"
proof -
  obtain i s1 where i: "streamID env s = (i, s1)" by (cases "streamID env s")
  obtain c s2 where c: "streamCreated env s1 = (c, s2)" by (cases "streamCreated env s1")
  obtain m s3 where m: "validateStreamModel ''chunk.model'' s2 = (m, s3)" by (cases "validateStreamModel ''chunk.model'' s2")
  have w: "writeChunk lib env part s = emit_frame lib env (WData (chunk_of i c m part)) s3"
    by (simp add: writeChunk_def i c m)
  have 1: "i \<noteq> []" "cs_id s1 = i" "sb_out s1 = sb_out s" using i by (auto simp: streamID_def new_uuid_def split: if_splits)
  have 2: "c \<noteq> 0" "cs_created s2 = c" "cs_id s2 = i" "sb_out s2 = sb_out s"
    using c 1 assms by (auto simp: streamCreated_def split: if_splits)
  have 3: "cs_id s3 = i" "cs_created s3 = c" "sb_model s3 = m" "sb_out s3 = sb_out s" "writeErr s3 = None \<Longrightarrow> m \<noteq> []"
    using m 2 by (auto simp: validateStreamModel_def split: if_splits)
  show thesis using emit_frame_out[of lib env "WData (chunk_of i c m part)" s3] silent sent 1 2 3 by (auto simp: w)
qed

lemma writeChunk_identity:
  "cs_id s \<noteq> [] \<Longrightarrow> cs_id (writeChunk lib env part s) = cs_id s"
  "cs_created s \<noteq> 0 \<Longrightarrow> cs_created (writeChunk lib env part s) = cs_created s"
  by (simp_all add: chunk_ops)

lemma identity_ok_chunk:
  assumes unix: "\<And>w. se_unix env w \<noteq> 0" and ok: "identity_ok s"
  shows "identity_ok (writeChunk lib env part s)"
proof -
  have keep: "cs_id (writeChunk lib env part s) = cs_id s \<and> cs_created (writeChunk lib env part s) = cs_created s"
    if "WData body \<in> set (sb_out s)" "is_chunk body" for body
  proof -
    have "cs_id s \<noteq> [] \<and> cs_created s \<noteq> 0" using ok that unfolding identity_ok_def by blast
    then show ?thesis by (simp add: writeChunk_identity)
  qed
  show ?thesis
    by (rule writeChunk_cases[OF unix, of lib part s]) (use ok keep in \<open>auto simp: identity_ok_def\<close>)
qed

lemma identity_ok_keep:
  assumes ok: "identity_ok s"
    and out: "sb_out s' = sb_out s" and role: "roleEmitted s' = roleEmitted s" "cs_emitter s' = cs_emitter s"
    and keep: "cs_id s \<noteq> [] \<Longrightarrow> cs_id s' = cs_id s" "cs_created s \<noteq> 0 \<Longrightarrow> cs_created s' = cs_created s"
      "sb_model s \<noteq> [] \<Longrightarrow> sb_model s' = sb_model s"
  shows "identity_ok s'"
proof (cases "\<exists>body. WData body \<in> set (sb_out s) \<and> is_chunk body")
  case True
  then have "cs_id s \<noteq> []" "cs_created s \<noteq> 0" "sb_model s \<noteq> []" using ok unfolding identity_ok_def by blast+
  then show ?thesis using ok out role keep by (simp add: identity_ok_def)
next
  case False
  then have "\<And>body. WData body \<in> set (sb_out s') \<Longrightarrow> \<not> is_chunk body" using out by auto
  then show ?thesis using ok role by (simp add: identity_ok_def)
qed

lemma chat_run_identity:
  fixes env :: "('s, 'w) stream_env"
  assumes unix: "\<And>w. se_unix env w \<noteq> 0"
  shows "chat_run lib env identity_ok"
proof
  fix s :: "'w chatStreamer"
  assume ok: "identity_ok s"
  show "identity_ok (writeChunk lib env part s)" for part using identity_ok_chunk[OF unix ok] .
  show "identity_ok (ensureRoleEmitted lib env s)"
  proof (cases "roleEmitted s")
    case False
    have "identity_ok (s\<lparr>roleEmitted := True\<rparr>)" using ok by (simp add: identity_ok_def)
    then show ?thesis using False identity_ok_chunk[OF unix] by (simp add: ensureRoleEmitted_def)
  qed (simp add: ensureRoleEmitted_def ok)
  show "identity_ok (ensureStreamIdentity c s)" for c
    by (rule identity_ok_keep[OF ok]) (simp_all add: ensureStreamIdentity_keeps)
  show "identity_ok (emit_frame lib env WDone s)" "identity_ok (emit_frame lib env (WData [(''error'', v)]) s)" for v
    using ok emit_frame_out[of lib env WDone s] emit_frame_out[of lib env "WData [(''error'', v)]" s]
    by (auto simp: identity_ok_def is_chunk_def field_def)
  show "identity_ok s'" if "openUpstreamSSE env path req hdr s = (res, s')" for path req hdr res s'
    using ok by (simp add: identity_ok_def openUpstreamSSE_sel[OF that] openUpstreamSSE_chat[OF that])
  show "identity_ok s'" if "metrics_trailer lib m u s = Some s'" for m u s'
    using that ok by (auto simp: metrics_trailer_def identity_ok_def split: if_splits)
qed (auto simp: identity_ok_def add_usage_def bill_stream_def turn_read_def)

text \<open>
  C22. Every chunk a chat client receives over the whole of a streamed request carries the same identifier,
  creation time and model, across all upstream turns and tool calls and whatever identities the model's
  turns report.
\<close>

theorem chunk_identity_constant:
  assumes "\<And>w. se_unix env w \<noteq> 0"
  shows "\<exists>i created model. list_all (\<lambda>chunk. field chunk ''id'' = JString i \<and> field chunk ''created'' = JInt created
             \<and> field chunk ''model'' = JString model)
           (chunks (sb_out (snd (runChatStreaming lib env flusher reg r body modelName hdr prompt opts w0 w))))"
proof -
  have n: "identity_ok (new_chat a b h w)" for a b h
    by (simp add: identity_ok_def new_chat_def new_base_def streamBase.extend_def)
  obtain res s where e: "runChatStreaming lib env flusher reg r body modelName hdr prompt opts w0 w = (res, s)"
    by (cases "runChatStreaming lib env flusher reg r body modelName hdr prompt opts w0 w")
  then have "identity_ok s"
    using chat_run.P_turns[OF chat_run_identity[OF assms] n]
    by (auto simp: runChatStreaming_def Let_def n split: if_splits)
  moreover have "WData b \<in> set (sb_out s) \<and> is_chunk b" if "b \<in> set (chunks (sb_out s))" for b
    using that by (auto simp: chunks_def List.map_filter_def split: client_write.splits)
  ultimately have "list_all (\<lambda>chunk. field chunk ''id'' = JString (cs_id s) \<and> field chunk ''created'' = JInt (cs_created s)
      \<and> field chunk ''model'' = JString (sb_model s)) (chunks (sb_out s))"
    by (simp add: identity_ok_def list_all_iff)
  then show ?thesis unfolding e by auto
qed

definition demo_chunk :: json_object where
  "demo_chunk =
     [(''id'', JString ''up''), (''created'', JInt 7), (''model'', JString ''m''),
      (''choices'', JArray [JObject [(''delta'', JObject [(''content'', JString ''hi'')])]])]"

definition demo_body_bytes :: string where
  "demo_body_bytes = ''data: x'' @ [byte 10, byte 10] @ done_frame"

definition demo_stream_env :: "(unit, nat) stream_env" where
  "demo_stream_env =
     \<lparr>se_tools = \<lparr>env_send = (\<lambda>w path req. (Inl ''down'', w)), env_call = (\<lambda>w s name args. (Inl ''down'', w))\<rparr>,
      se_open = (\<lambda>w path req h.
        (Inr \<lparr>sa_status = 200, sa_header = [],
              sa_body = demo_body_bytes,
              sa_readErr = None\<rparr>, w + 1)),
      se_write = (\<lambda>w bytes. (None, w + 1)), se_unix = (\<lambda>w. 9), se_uuid = (\<lambda>n. ''u''), se_time = (\<lambda>w. 0)\<rparr>"

abbreviation demo_chat_run :: "stream_result \<times> nat chatStreamer" where
  "demo_chat_run \<equiv> runChatStreaming (demo_lib demo_chunk) demo_stream_env True empty_registry demo_request [] ''m'' [] None None [] 0"

theorem chunk_identity_constant_witness:
  "(\<forall>w. se_unix demo_stream_env w \<noteq> 0)
   \<and> (\<exists>i created model. list_all (\<lambda>chunk. field chunk ''id'' = JString i \<and> field chunk ''created'' = JInt created
             \<and> field chunk ''model'' = JString model) (chunks (sb_out (snd demo_chat_run))))"
  using chunk_identity_constant[of demo_stream_env] by (simp add: demo_stream_env_def)

section \<open>The role comes first, and once\<close>

text \<open>The chunk that tells the assistant's role and nothing else.\<close>

definition opens :: "json_object \<Rightarrow> bool" where
  "opens b \<longleftrightarrow> field b ''choices'' = field role_part ''choices''"

definition role_ok :: "'w chatStreamer \<Rightarrow> bool" where
  "role_ok s \<longleftrightarrow>
     (roleEmitted s \<longrightarrow>
        (chunks (sb_out s) = [] \<longrightarrow> writeErr s \<noteq> None)
        \<and> (\<forall>b bs. chunks (sb_out s) = b # bs \<longrightarrow> opens b \<and> (\<forall>b' \<in> set bs. \<not> is_role b')))
     \<and> (\<not> roleEmitted s \<longrightarrow> cs_emitter s = NewEmitter \<and> chunks (sb_out s) = [])"

lemma chunks_append: "chunks (out @ out') = chunks out @ chunks out'"
  by (simp add: chunks_def List.map_filter_def)

lemma chunks_simps [simp]:
  "chunks [] = []" "chunks [WDone] = []" "chunks [WData b] = (if is_chunk b then [b] else [])"
  by (simp_all add: chunks_def map_filter_simps)

lemma is_role_chunk_of [simp]: "is_role (chunk_of i c m part) \<longleftrightarrow> is_role part"
  by (simp add: chunk_of_def is_role_def field_def)

lemma opens_chunk_of [simp]: "opens (chunk_of i c m part) \<longleftrightarrow> opens part"
  by (simp add: chunk_of_def opens_def field_def)

lemma emit_frame_cases:
  obtains (skipped) "writeErr s \<noteq> None" "emit_frame lib env x s = s"
  | (failed) "writeErr s = None" "sb_out (emit_frame lib env x s) = sb_out s" "writeErr (emit_frame lib env x s) \<noteq> None"
  | (sent) "writeErr s = None" "sb_out (emit_frame lib env x s) = sb_out s @ [x]" "writeErr (emit_frame lib env x s) = None"
proof -
  have "writeErr s \<noteq> None \<and> emit_frame lib env x s = s
      \<or> writeErr s = None \<and> sb_out (emit_frame lib env x s) = sb_out s \<and> writeErr (emit_frame lib env x s) \<noteq> None
      \<or> writeErr s = None \<and> sb_out (emit_frame lib env x s) = sb_out s @ [x] \<and> writeErr (emit_frame lib env x s) = None"
    by (auto simp: emit_frame_def split: prod.splits option.splits)
  then show thesis using skipped failed sent by blast
qed

lemma writeChunk_out:
  obtains (skipped) "writeErr s \<noteq> None" "sb_out (writeChunk lib env part s) = sb_out s" "writeErr (writeChunk lib env part s) = writeErr s"
  | (failed) "writeErr s = None" "sb_out (writeChunk lib env part s) = sb_out s" "writeErr (writeChunk lib env part s) \<noteq> None"
  | (sent) i c m where "writeErr s = None" "sb_out (writeChunk lib env part s) = sb_out s @ [WData (chunk_of i c m part)]"
      "writeErr (writeChunk lib env part s) = None"
proof -
  obtain i s1 where i: "streamID env s = (i, s1)" by (cases "streamID env s")
  obtain c s2 where c: "streamCreated env s1 = (c, s2)" by (cases "streamCreated env s1")
  obtain m s3 where m: "validateStreamModel ''chunk.model'' s2 = (m, s3)" by (cases "validateStreamModel ''chunk.model'' s2")
  have w: "writeChunk lib env part s = emit_frame lib env (WData (chunk_of i c m part)) s3"
    by (simp add: writeChunk_def i c m)
  have 2: "sb_out s2 = sb_out s" "writeErr s2 = writeErr s"
    using i c by (auto simp: streamID_def new_uuid_def streamCreated_def split: if_splits)
  have 3: "sb_out s3 = sb_out s" "writeErr s \<noteq> None \<Longrightarrow> writeErr s3 = writeErr s"
    using m 2 by (auto simp: validateStreamModel_def split: if_splits)
  show thesis
    by (rule emit_frame_cases[of s3 lib env "WData (chunk_of i c m part)"]; cases "writeErr s")
      (use skipped failed sent 2 3 w in auto)
qed

lemma role_ok_chunk:
  assumes "role_ok s" "roleEmitted s" "\<not> is_role part"
  shows "role_ok (writeChunk lib env part s)"
  by (rule writeChunk_out[of s lib env part])
    (use assms in \<open>auto simp: role_ok_def chunks_append append_eq_Cons_conv\<close>)

lemma role_ok_first:
  assumes "role_ok s" "\<not> roleEmitted s"
  shows "role_ok (ensureRoleEmitted lib env s)"
proof -
  let ?s = "s\<lparr>roleEmitted := True\<rparr>"
  have e: "ensureRoleEmitted lib env s = writeChunk lib env role_part ?s"
    using assms(2) by (simp add: ensureRoleEmitted_def role_part_def)
  have c: "chunks (sb_out ?s) = []" using assms by (simp add: role_ok_def)
  have r: "opens role_part" by (simp add: opens_def)
  show ?thesis unfolding e
    by (rule writeChunk_out[of ?s lib env role_part]) (use c r in \<open>auto simp: role_ok_def chunks_append\<close>)
qed

lemma role_ok_frame: "role_ok s \<Longrightarrow> chunks [x] = [] \<Longrightarrow> role_ok (emit_frame lib env x s)"
  by (rule emit_frame_cases[of s lib env x]) (auto simp: role_ok_def chunks_append)

interpretation roles: chat_run lib env role_ok for lib env
proof
  fix s :: "'b chatStreamer"
  assume ok: "role_ok s"
  show "role_ok (writeChunk lib env part s)" if "roleEmitted s" "\<not> is_role part" for part
    using role_ok_chunk[OF ok that] .
  show "role_ok (ensureRoleEmitted lib env s)" if "\<not> roleEmitted s" using role_ok_first[OF ok that] .
  show "role_ok (emit_frame lib env WDone s)" "role_ok (emit_frame lib env (WData [(''error'', v)]) s)" for v
    using ok by (auto intro!: role_ok_frame simp: is_chunk_def field_def)
  show "role_ok s'" if "openUpstreamSSE env path req hdr s = (res, s')" for path req hdr res s'
    using ok unfolding role_ok_def openUpstreamSSE_sel[OF that] openUpstreamSSE_chat[OF that] .
  show "role_ok s'" if "metrics_trailer lib m u s = Some s'" for m u s'
    using that ok by (auto simp: metrics_trailer_def role_ok_def split: if_splits list.splits)
qed (auto simp: role_ok_def add_usage_def bill_stream_def turn_read_def)

text \<open>
  C38. A chat client that receives any chunk receives the assistant role in the first one, which tells nothing else;
  no choice of any later chunk carries a role, over all turns of the request.
\<close>

theorem role_first_and_once:
  "case chunks (sb_out (snd (runChatStreaming lib env flusher reg r body modelName hdr prompt opts w0 w))) of
     [] \<Rightarrow> True
   | b # bs \<Rightarrow> opens b \<and> filter is_role bs = []"
proof -
  have n: "role_ok (new_chat a b h w)" for a b h
    by (simp add: role_ok_def new_chat_def new_base_def streamBase.extend_def)
  obtain res s where e: "runChatStreaming lib env flusher reg r body modelName hdr prompt opts w0 w = (res, s)"
    by (cases "runChatStreaming lib env flusher reg r body modelName hdr prompt opts w0 w")
  then have "role_ok s"
    using roles.P_turns[OF n] by (auto simp: runChatStreaming_def Let_def n split: if_splits)
  then show ?thesis unfolding e by (auto simp: role_ok_def filter_empty_conv split: list.splits if_splits)
qed

section \<open>Accounts and completion\<close>

text \<open>The frames of a stream do not touch the accounts of the request.\<close>

definition same_accounts :: "'w chatStreamer \<Rightarrow> 'w chatStreamer \<Rightarrow> bool" where
  "same_accounts s0 s \<longleftrightarrow>
     sb_bills s = sb_bills s0 \<and> usageTotals s = usageTotals s0 \<and> headersWritten s = headersWritten s0
     \<and> sb_posts s = sb_posts s0 \<and> cs_read s = cs_read s0 \<and> (\<not> roleEmitted s \<longrightarrow> cs_emitter s = NewEmitter)"

interpretation accounts: chat_frames lib env "same_accounts s0" for lib env s0
proof
  fix s :: "'b chatStreamer"
  assume ok: "same_accounts s0 s"
  show "same_accounts s0 (ensureRoleEmitted lib env s)"
    using ok by (simp add: same_accounts_def ensureRoleEmitted_def)
  show "same_accounts s0 (ensureStreamIdentity c s)" for c
    using ok by (simp add: same_accounts_def)
qed (auto simp: same_accounts_def)

lemma pump_done: "pump_loop lib env conf frames ending (res, es, s) = (Inr d, res', es', s') \<Longrightarrow> writeErr s' = None"
proof (induction frames arbitrary: res es s)
  case Nil
  then show ?case by (auto simp: pump_Nil split: option.splits)
next
  case (Cons frame frames)
  then show ?case by (auto simp: pump_Cons split: option.splits if_splits prod.splits)
qed

text \<open>
  The loop's own test for a disconnected client never fires: the pump has reported the failed write as an
  error before it can return a result.
\<close>

lemma disconnect_check_never_fires:
  "runIteration lib env conf req hdr s = (Inr result, s') \<Longrightarrow> writeErr s' = None"
  by (auto simp: runIteration_def pumpUpstream_def add_usage_def turn_read_def Let_def dest: pump_done
      split: prod.splits sum.splits if_splits)

text \<open>A turn is posted although the client is known to be gone.\<close>

lemma disconnected_client_still_posts:
  assumes "writeErr s = Some err" "runIteration lib env conf req hdr s = (res, s')"
  shows "sb_posts s' = sb_posts s @ [req] \<and> (\<exists>e. res = Inl e)"
proof -
  obtain o1 s1 where o: "openUpstreamSSE env ''/v1/chat/completions'' req hdr s = (o1, s1)"
    by (cases "openUpstreamSSE env ''/v1/chat/completions'' req hdr s")
  note sel = openUpstreamSSE_sel[OF o]
  have "pump_loop lib env conf frames ending (empty_result, [], s1\<lparr>cs_forwarder := f\<rparr>) =
      (Inl (OtherError err), empty_result, [], s1\<lparr>cs_forwarder := f\<rparr>)" for frames ending f
    using sel(2) assms(1) by (simp add: pump_loop.simps)
  then show ?thesis
    using assms(2) o sel by (cases o1) (auto simp: runIteration_def pumpUpstream_def empty_result_def turn_read_def Let_def split: prod.splits)
qed

lemma openUpstreamSSE_headers:
  "openUpstreamSSE env path req hdr s = (res, s') \<Longrightarrow> headersWritten s' = (headersWritten s \<or> (\<exists>r. res = Inr r))"
  by (auto simp: openUpstreamSSE_def writeSSEHeaders_def Let_def split: sum.splits prod.splits if_splits)

text \<open>The usage a turn reports is the last usage object among the chunks it has read.\<close>

definition last_usage :: "json_object list \<Rightarrow> json" where
  "last_usage cs = last (JNull # filter is_object (map (\<lambda>c. field c ''usage'') cs))"

lemma last_usage_simps [simp]:
  "last_usage [] = JNull"
  "last_usage (cs @ [c]) = (if is_object (field c ''usage'') then field c ''usage'' else last_usage cs)"
  by (simp_all add: last_usage_def)

lemma on_choice_usage:
  "on_choice lib env conf choice (res, es, s) = (res', es', s') \<Longrightarrow> it_usage res' = it_usage res \<and> it_read res' = it_read res"
  by (auto simp: on_choice_def on_delta_def accumulateReasoning_def Let_def split: option.splits prod.splits if_splits)

lemma on_chunk_usage:
  assumes "it_usage res = last_usage (it_read res)" "on_chunk lib env conf chunk (res, es, s) = (er, res', es', s')"
  shows "it_usage res' = last_usage (it_read res')"
proof -
  have "it_usage (note_usage chunk res) = (if is_object (field chunk ''usage'') then field chunk ''usage'' else it_usage res)"
    by (simp add: note_usage_def is_object_def split: json.splits)
  then show ?thesis
    using assms by (auto simp: on_chunk_def Let_def dest: on_choice_usage split: option.splits)
qed

lemma pump_usage:
  "it_usage res = last_usage (it_read res) \<Longrightarrow> pump_loop lib env conf frames ending (res, es, s) = (e, res', es', s') \<Longrightarrow>
   it_usage res' = last_usage (it_read res')"
proof (induction frames arbitrary: res es s)
  case Nil
  then show ?case by (auto simp: pump_Nil split: option.splits)
next
  case (Cons frame frames)
  from pump_step[OF Cons.prems(2)] Cons.IH Cons.prems(1) on_chunk_usage show ?case by metis
qed

text \<open>The totals are the sums over all turns, those that failed included.\<close>

definition turn_usages :: "'w chatStreamer \<Rightarrow> json list" where
  "turn_usages s = map last_usage (cs_read s)"

definition metered :: "loop_lib \<Rightarrow> 'w chatStreamer \<Rightarrow> bool" where
  "metered lib s \<longleftrightarrow> usageTotals s = usage_total lib (turn_usages s)"

lemma metered_forwarder [simp]: "metered lib (s\<lparr>cs_forwarder := g\<rparr>) = metered lib s"
  by (simp add: metered_def turn_usages_def)

lemma metered_same: "metered lib s \<Longrightarrow> same_accounts s s' \<Longrightarrow> metered lib s'"
  by (simp add: metered_def turn_usages_def same_accounts_def)

lemma metered_read:
  assumes "metered lib s" "same_accounts s s1" "it_usage res = last_usage (it_read res)"
  shows "metered lib (turn_read (it_read res) (if it_usage res = JNull then s1 else add_usage lib (it_usage res) s1))"
proof -
  have "usageTotals s1 = usage_total lib (turn_usages s1)"
    using metered_same[OF assms(1,2)] by (simp add: metered_def)
  from usage_total_add[OF this, of "it_usage res"] this show ?thesis
    by (simp add: metered_def turn_usages_def turn_read_def assms(3) add_usage_def)
qed

lemma runIteration_accounts:
  assumes "runIteration lib env conf req hdr s = (res, s')" "role_ok s"
  shows "sb_bills s' = sb_bills s" "sb_posts s' = sb_posts s @ [req]" "headersWritten s \<Longrightarrow> headersWritten s'"
    "\<exists>r. res = Inr r \<Longrightarrow> headersWritten s'" "role_ok s'" "metered lib s \<Longrightarrow> metered lib s'"
proof -
  obtain o1 s1 where o: "openUpstreamSSE env ''/v1/chat/completions'' req hdr s = (o1, s1)"
    by (cases "openUpstreamSSE env ''/v1/chat/completions'' req hdr s")
  note sel = openUpstreamSSE_sel[OF o] openUpstreamSSE_headers[OF o]
  have "role_ok s1" using roles.opened[OF assms(2) o] .
  then have f: "\<not> roleEmitted s1 \<longrightarrow> cs_emitter s1 = NewEmitter" by (simp add: role_ok_def split: if_splits)
  have same: "same_accounts s1 t"
    if "pump_loop lib env conf frames ending (empty_result, [], s1\<lparr>cs_forwarder := g\<rparr>) = (oc, r', es, t)" for frames ending g oc r' es t
    using accounts.P_pump[OF _ _ that, of s1] f by (simp add: same_accounts_def)
  have a: "sb_bills t = sb_bills s1 \<and> sb_posts t = sb_posts s1 \<and> headersWritten t = headersWritten s1"
    if "pump_loop lib env conf frames ending (empty_result, [], s1\<lparr>cs_forwarder := g\<rparr>) = (oc, r', es, t)" for frames ending g oc r' es t
    using same[OF that] by (simp add: same_accounts_def)
  have "sb_bills s' = sb_bills s \<and> sb_posts s' = sb_posts s @ [req] \<and> (headersWritten s \<longrightarrow> headersWritten s')
      \<and> ((\<exists>r. res = Inr r) \<longrightarrow> headersWritten s')"
  proof (cases o1)
    case (Inl e)
    then show ?thesis using assms(1) o sel by (auto simp: runIteration_def)
  next
    case (Inr reader)
    then show ?thesis
      using assms(1) o sel a
      by (auto simp: runIteration_def pumpUpstream_def add_usage_def turn_read_def Let_def split: prod.splits sum.splits if_splits)
  qed
  then show "sb_bills s' = sb_bills s" "sb_posts s' = sb_posts s @ [req]" "headersWritten s \<Longrightarrow> headersWritten s'"
    "\<exists>r. res = Inr r \<Longrightarrow> headersWritten s'" by auto
  show "role_ok s'" using roles.P_iteration[OF assms(2,1)] by blast
  assume m: "metered lib s"
  have m1: "metered lib s1" using m openUpstreamSSE_sel[OF o] openUpstreamSSE_chat[OF o] by (simp add: metered_def turn_usages_def)
  have read: "metered lib (turn_read (it_read r') (if it_usage r' = JNull then t else add_usage lib (it_usage r') t))"
    if "pump_loop lib env conf frames ending (empty_result, [], s1\<lparr>cs_forwarder := g\<rparr>) = (oc, r', es, t)" for frames ending g oc r' es t
    using metered_read[OF m1 same[OF that] pump_usage[OF _ that]] by (simp add: empty_result_def)
  show "metered lib s'"
    using assms(1) o m1 by (auto simp: runIteration_def pumpUpstream_def Let_def dest!: read split: prod.splits sum.splits if_splits)
qed

lemma frames_accounts:
  assumes "role_ok s"
  shows "same_accounts s (flushCitations lib env s)"
    and "final_frames lib env conf result calls s = (u, s') \<Longrightarrow> same_accounts s s' \<and> u = finalUsage s'"
proof -
  have f: "same_accounts s s" using assms by (simp add: same_accounts_def role_ok_def split: if_splits)
  show "same_accounts s (flushCitations lib env s)" using accounts.P_flush[OF f] .
  assume r: "final_frames lib env conf result calls s = (u, s')"
  have "same_accounts s s'" using accounts.P_final_frames[OF f r] .
  moreover have "usageTotals (writeChunk lib env part t) = usageTotals t" for part t by simp
  ultimately show "same_accounts s s' \<and> u = finalUsage s'"
    using r by (auto simp: final_frames_def finalUsage_def Let_def split: if_splits)
qed

text \<open>How a request ends, once its stream has started.\<close>

definition ended ::
  "loop_lib \<Rightarrow> ('s, 'w) stream_env \<Rightarrow> tool_request \<Rightarrow> string \<Rightarrow> Event list \<Rightarrow> runtime_error option \<Rightarrow> 'w chatStreamer \<Rightarrow> bool" where
  "ended lib env r m bills e s \<longleftrightarrow>
     headersWritten s
     \<and> (\<exists>t. sb_bills s = sb_bills (bill_stream lib (env\<lparr>se_time := \<lambda>_. t\<rparr>) r m (finalUsage s) (s\<lparr>sb_bills := bills\<rparr>)))
     \<and> metered lib s
     \<and> (decodes_usage (ll_usage lib) \<longrightarrow> list_all (tokens_billed lib (turn_usages s)) (drop (length bills) (sb_bills s)))
     \<and> e = map_option (\<lambda>x. StreamAbortedError (OtherError x)) (writeErr s)
     \<and> (writeErr s = None \<longrightarrow> (\<exists>out. sb_out s = out @ [WDone]))"

lemma stream_end_eq: "headersWritten s \<Longrightarrow> stream_end s = map_option (\<lambda>x. StreamAbortedError (OtherError x)) (writeErr s)"
  by (simp add: stream_end_def streamAborted_def split: option.splits)

lemma emit_done: "writeErr (emit_frame lib env WDone s) = None \<Longrightarrow> \<exists>out. sb_out (emit_frame lib env WDone s) = out @ [WDone]"
  by (rule emit_frame_cases[of s lib env WDone]) auto

lemma final_tokens:
  assumes "decodes_usage (ll_usage lib)" "metered lib s"
    "ev \<in> set (emitBillingEvent (ll_usage lib) t r (Some \<lparr>rs_body = Some [(''usage'', finalUsage s)], rs_header = h, rs_status = 0\<rparr>) m True)"
  shows "tokens_billed lib (turn_usages s) ev"
proof (cases "acc_Usage (usageTotals s)")
  case None
  then have "promptTokens (usageTotals s) = 0" "completionTokens (usageTotals s) = 0" by (auto simp: acc_Usage_def Let_def split: if_splits)
  then show ?thesis
    using assms None by (auto simp: emitBillingEvent_def tokens_billed_def metered_def finalUsage_def args_of_def field_def usageFromRaw_def
        Let_def split: if_splits)
next
  case (Some u)
  from usage_read_back[OF assms(1) Some] obtain d where d: "usageFromRaw (ll_usage lib) (JObject (chatUsageMap u)) = Some d"
    "PromptTokens d = promptTokens (usageTotals s)" "CompletionTokens d = completionTokens (usageTotals s)" by blast
  then show ?thesis
    using assms Some by (auto simp: emitBillingEvent_def tokens_billed_def metered_def finalUsage_def args_of_def field_def Let_def
        split: if_splits)
qed

lemma bill_ended:
  assumes "headersWritten s" "sb_bills s = bills" "writeErr s = None \<longrightarrow> (\<exists>out. sb_out s = out @ [WDone])" "metered lib s"
  shows "ended lib env r m bills (stream_end (bill_stream lib env r m (finalUsage s) s))
           (bill_stream lib env r m (finalUsage s) s)"
proof -
  let ?b = "bill_stream lib env r m (finalUsage s) s"
  have "finalUsage ?b = finalUsage s" by (simp add: finalUsage_def bill_stream_def)
  moreover have "stream_end ?b = map_option (\<lambda>x. StreamAbortedError (OtherError x)) (writeErr ?b)"
    using assms(1) by (intro stream_end_eq) (simp add: bill_stream_def)
  moreover have "metered lib ?b" "turn_usages ?b = turn_usages s" using assms(4) by (simp_all add: metered_def turn_usages_def bill_stream_def)
  moreover have "list_all (tokens_billed lib (turn_usages s)) (drop (length bills) (sb_bills ?b))" if "decodes_usage (ll_usage lib)"
    using final_tokens[OF that assms(4)] assms(2) by (auto simp: bill_stream_def list_all_iff)
  ultimately show ?thesis
    using assms unfolding ended_def
    by (intro conjI exI[of _ "se_time env (sb_world s)"]) (simp_all add: bill_stream_def)
qed

lemma terminate_ended:
  assumes "role_ok s" "headersWritten s" "terminateWithError lib env r m err s = (Some e, s')" "metered lib s"
  shows "ended lib env r m (sb_bills s) e s'"
proof -
  define s3 where "s3 = emit_frame lib env WDone (emit_frame lib env
    (WData [(''error'', JObject (upstreamErrorPayload (\<lambda>b. case ll_unmarshal lib b of Some parsed \<Rightarrow> parsed | None \<Rightarrow> None) err))])
    (flushCitations lib env s))"
  have same: "same_accounts s (flushCitations lib env s)" using frames_accounts(1)[OF assms(1)] .
  then have a: "headersWritten s3" "sb_bills s3 = sb_bills s" using assms(2) by (simp_all add: s3_def same_accounts_def)
  have m3: "metered lib s3" using metered_same[OF assms(4) same] by (simp add: metered_def turn_usages_def s3_def)
  have "writeErr s3 = None \<longrightarrow> (\<exists>out. sb_out s3 = out @ [WDone])" unfolding s3_def using emit_done by blast
  then have "ended lib env r m (sb_bills s) (stream_end (bill_stream lib env r m (finalUsage s3) s3))
      (bill_stream lib env r m (finalUsage s3) s3)"
    using a m3 by (intro bill_ended)
  then show ?thesis using assms(2,3) by (auto simp: terminateWithError_def Let_def s3_def[symmetric])
qed

lemma finalize_ended:
  assumes "role_ok s" "headersWritten s" "finalize lib env conf r m result calls s = (Some e, s')" "metered lib s"
  shows "ended lib env r m (sb_bills s) e s'"
proof -
  obtain u s5 where f: "final_frames lib env conf result calls s = (u, s5)" by (cases "final_frames lib env conf result calls s")
  note fa = frames_accounts(2)[OF assms(1) f]
  obtain s6 where mt: "metrics_trailer lib m u s5 = Some s6" and e: "e = stream_end s6"
    and s': "s' = bill_stream lib env r m u s6"
    using assms(3) f by (auto simp: finalize_def split: option.splits)
  have s6: "headersWritten s6" "sb_bills s6 = sb_bills s" "finalUsage s6 = u" "sb_out s6 = sb_out s5" "writeErr s6 = writeErr s5"
    using mt fa assms(2) by (auto simp: metrics_trailer_def same_accounts_def finalUsage_def split: if_splits)
  have "same_accounts s s5" using fa by blast
  then have m6: "metered lib s6"
    using mt metered_same[OF assms(4)] by (auto simp: metrics_trailer_def metered_def turn_usages_def split: if_splits)
  have "writeErr s5 = None \<longrightarrow> (\<exists>out. sb_out s5 = out @ [WDone])"
    using f emit_done by (auto simp: final_frames_def Let_def)
  then have "ended lib env r m (sb_bills s) (stream_end (bill_stream lib env r m (finalUsage s6) s6))
      (bill_stream lib env r m (finalUsage s6) s6)"
    using s6 m6 by (intro bill_ended) auto
  moreover have "stream_end s' = stream_end s6" by (simp add: s' stream_end_def streamAborted_def bill_stream_def split: option.splits)
  ultimately show ?thesis using s6(3) e s' by simp
qed

definition closed_properly ::
  "loop_lib \<Rightarrow> ('s, 'w) stream_env \<Rightarrow> tool_request \<Rightarrow> string \<Rightarrow> runtime_error option \<Rightarrow> 'w chatStreamer \<Rightarrow> bool" where
  "closed_properly lib env r m e s \<longleftrightarrow> (if headersWritten s then ended lib env r m [] e s else e \<noteq> None \<and> sb_bills s = [])"

lemma terminate_closed:
  assumes "role_ok s" "sb_bills s = []" "metered lib s" "terminateWithError lib env r m err s = (Some e, s')"
  shows "closed_properly lib env r m e s'"
proof (cases "headersWritten s")
  case True
  then show ?thesis using terminate_ended[OF assms(1) True assms(4,3)] assms(2) by (simp add: closed_properly_def ended_def)
next
  case False
  then show ?thesis using assms by (auto simp: terminateWithError_def closed_properly_def)
qed

lemma finalize_closed:
  assumes "role_ok s" "sb_bills s = []" "metered lib s" "headersWritten s" "finalize lib env conf r m result calls s = (Some e, s')"
  shows "closed_properly lib env r m e s'"
  using finalize_ended[OF assms(1,4,5,3)] assms(2) by (simp add: closed_properly_def ended_def)

lemma resolve_accounts:
  assumes "role_ok s" "roleEmitted s" "resolve_calls lib job (chat_executor lib env conf job) calls s = (outs, s')"
  shows "same_accounts s s' \<and> role_ok s'"
proof -
  have "with_role (same_accounts s) s" "with_role role_ok s" using assms(1,2) by (simp_all add: with_role_def same_accounts_def)
  then show ?thesis
    using accounts.progress.keeps_resolve_calls[of s s lib job env "job_reg job" conf calls outs s']
      roles.progress.keeps_resolve_calls[of s lib job env "job_reg job" conf calls outs s'] assms(3)
    by (simp add: chat_executor_def with_role_def)
qed

lemma turn_closed:
  assumes ok: "role_ok s" "sb_bills s = []" "metered lib s" and t: "stream_turn lib env conf job req s = (res, s')"
  shows "case res of Inl e' \<Rightarrow> (\<forall>e. e' = Some e \<longrightarrow> closed_properly lib env (job_request job) (job_model job) e s')
                   | Inr _ \<Rightarrow> role_ok s' \<and> sb_bills s' = [] \<and> metered lib s'"
proof -
  obtain x s1 where i: "runIteration lib env conf (chat_preIteration (ll_valid lib) req) (job_headers job) s = (x, s1)"
    by (cases "runIteration lib env conf (chat_preIteration (ll_valid lib) req) (job_headers job) s")
  note it = runIteration_accounts[OF i ok(1)]
  have b1: "sb_bills s1 = []" using it(1) ok(2) by simp
  have m1: "metered lib s1" using it(6) ok(3) by blast
  show ?thesis
  proof (cases x)
    case (Inl err)
    then show ?thesis
      using t i terminate_closed[OF it(5) b1 m1] by (auto simp: stream_turn_def split: prod.splits)
  next
    case (Inr result)
    have h: "headersWritten s1" using it(4) Inr by blast
    have w: "writeErr s1 = None" using disconnect_check_never_fires i Inr by blast
    obtain rc cc where sp: "splitToolCalls (cc_owned conf) (it_toolCalls result) = (rc, cc)"
      by (cases "splitToolCalls (cc_owned conf) (it_toolCalls result)")
    obtain outs s2 where rv: "resolve_calls lib job (chat_executor lib env conf job) rc s1 = (outs, s2)"
      by (cases "resolve_calls lib job (chat_executor lib env conf job) rc s1")
    have r2: "role_ok s2" "sb_bills s2 = []" "metered lib s2" "headersWritten s2" if "rc \<noteq> []"
    proof -
      have "it_toolCalls result \<noteq> []" using that sp by (auto simp: splitToolCalls_def)
      then have "roleEmitted s1" using roles.P_iteration[OF ok(1) i] Inr by simp
      then have "same_accounts s1 s2 \<and> role_ok s2" by (rule resolve_accounts[OF it(5) _ rv])
      then show "role_ok s2" "sb_bills s2 = []" "metered lib s2" "headersWritten s2"
        using b1 h metered_same[OF m1] by (simp_all add: same_accounts_def)
    qed
    have f1: "closed_properly lib env (job_request job) (job_model job) e t"
      if "finalize lib env conf (job_request job) (job_model job) result cc s1 = (Some e, t)" for e t
      using finalize_closed[OF it(5) b1 m1 h that] .
    have f2: "closed_properly lib env (job_request job) (job_model job) e t"
      if "rc \<noteq> []" "finalize lib env conf (job_request job) (job_model job) result cc s2 = (Some e, t)" for e t
      using finalize_closed[OF r2[OF that(1)] that(2)] .
    show ?thesis
      using t w r2 f1 f2 unfolding stream_turn_def Let_def i Inr prod.case sum.case sp rv
      by (auto split: prod.splits if_splits)
  qed
qed

lemma turns_closed:
  "role_ok s \<Longrightarrow> sb_bills s = [] \<Longrightarrow> metered lib s \<Longrightarrow> stream_turns lib env conf job n req s = (Some e, s') \<Longrightarrow>
   closed_properly lib env (job_request job) (job_model job) e s'"
proof (induction n arbitrary: req s)
  case 0
  obtain x s1 where i: "runIteration lib env conf (force_stream (forcedFinalChatRequest (ll_fmt lib) req)) (job_headers job) s = (x, s1)"
    by (cases "runIteration lib env conf (force_stream (forcedFinalChatRequest (ll_fmt lib) req)) (job_headers job) s")
  note it = runIteration_accounts[OF i 0(1)]
  have b1: "sb_bills s1 = []" using it(1) 0(2) by simp
  have m1: "metered lib s1" using it(6) 0(3) by blast
  show ?case
  proof (cases x)
    case (Inl err)
    show ?thesis by (rule terminate_closed[OF it(5) b1 m1]) (use 0(4) i Inl in simp)
  next
    case (Inr result)
    show ?thesis by (rule finalize_closed[OF it(5) b1 m1]) (use 0(4) i Inr it(4) in auto)
  qed
next
  case (Suc n)
  obtain x s1 where t: "stream_turn lib env conf job req s = (x, s1)" by (cases "stream_turn lib env conf job req s")
  note tc = turn_closed[OF Suc.prems(1-3) t]
  show ?case
  proof (cases x)
    case (Inl e')
    then show ?thesis using Suc.prems(4) t tc by simp
  next
    case (Inr req')
    then have "role_ok s1" "sb_bills s1 = []" "metered lib s1" using tc by simp_all
    then show ?thesis by (rule Suc.IH) (use Suc.prems(4) t Inr in simp)
  qed
qed

text \<open>
  C10. A streamed chat request that has started to answer the client ends in one of two ways: without an error,
  and then the last frame is the end marker and no write failed; or with the failed write reported as an
  aborted stream. Either way one billing event is emitted for an authenticated caller, and its prompt and completion
  tokens are the sums over all turns, interrupted ones included, of what each turn's last usage object reports (read
  back with a decoder that inverts the encoder). A request that has not started returns an error and bills nothing.
\<close>

theorem stream_closed_and_billed:
  "case runChatStreaming lib env flusher reg r body modelName hdr prompt opts w0 w of
     (None, s) \<Rightarrow> True
   | (Some e, s) \<Rightarrow> closed_properly lib env r modelName e s"
proof -
  have n: "role_ok (new_chat a b h w) \<and> sb_bills (new_chat a b h w) = [] \<and> metered lib (new_chat a b h w)
      \<and> \<not> headersWritten (new_chat a b h w)" for a b h
    by (simp add: role_ok_def metered_def turn_usages_def usage_total_Nil new_chat_def new_base_def streamBase.extend_def)
  have "closed_properly lib env r modelName e s"
    if "runChatStreaming lib env flusher reg r body modelName hdr prompt opts w0 w = (Some e, s)" for e s
  proof (cases flusher)
    case True
    then show ?thesis
      using that turns_closed[of "new_chat (header_get (tr_header r) UsageMetricsRequestHeader = ''true'') (isHarmonyModel modelName) w0 w" lib env] n
      by (fastforce simp: runChatStreaming_def Let_def)
  next
    case False
    then show ?thesis using that n by (auto simp: runChatStreaming_def Let_def closed_properly_def)
  qed
  then show ?thesis by (auto split: prod.splits option.splits)
qed

section \<open>At most eleven upstream streams\<close>

lemma ending_posts:
  assumes "role_ok s"
  shows "terminateWithError lib env r m err s = (res, s') \<Longrightarrow> sb_posts s' = sb_posts s"
    and "finalize lib env conf r m result calls s = (res, s') \<Longrightarrow> sb_posts s' = sb_posts s"
proof -
  have "sb_posts (flushCitations lib env s) = sb_posts s" using frames_accounts(1)[OF assms, of lib env] by (simp add: same_accounts_def)
  then show "terminateWithError lib env r m err s = (res, s') \<Longrightarrow> sb_posts s' = sb_posts s"
    by (auto simp: terminateWithError_def Let_def bill_stream_def split: if_splits)
  obtain u s5 where f: "final_frames lib env conf result calls s = (u, s5)" by (cases "final_frames lib env conf result calls s")
  have "sb_posts s5 = sb_posts s" using frames_accounts(2)[OF assms f] by (simp add: same_accounts_def)
  then show "finalize lib env conf r m result calls s = (res, s') \<Longrightarrow> sb_posts s' = sb_posts s"
    using f by (auto simp: finalize_def bill_stream_def metrics_trailer_def split: if_splits option.splits)
qed

lemma turn_posts:
  assumes ok: "role_ok s" and t: "stream_turn lib env conf job req s = (res, s')"
  shows "sb_posts s' = sb_posts s @ [chat_preIteration (ll_valid lib) req] \<and> (\<forall>q. res = Inr q \<longrightarrow> role_ok s')"
proof -
  obtain x s1 where i: "runIteration lib env conf (chat_preIteration (ll_valid lib) req) (job_headers job) s = (x, s1)"
    by (cases "runIteration lib env conf (chat_preIteration (ll_valid lib) req) (job_headers job) s")
  note it = runIteration_accounts[OF i ok]
  show ?thesis
  proof (cases x)
    case (Inl err)
    then show ?thesis
      using t i it(2) ending_posts(1)[OF it(5)] by (auto simp: stream_turn_def split: prod.splits)
  next
    case (Inr result)
    obtain rc cc where sp: "splitToolCalls (cc_owned conf) (it_toolCalls result) = (rc, cc)"
      by (cases "splitToolCalls (cc_owned conf) (it_toolCalls result)")
    obtain outs s2 where rv: "resolve_calls lib job (chat_executor lib env conf job) rc s1 = (outs, s2)"
      by (cases "resolve_calls lib job (chat_executor lib env conf job) rc s1")
    have r2: "role_ok s2 \<and> sb_posts s2 = sb_posts s1" if "rc \<noteq> []"
    proof -
      have "it_toolCalls result \<noteq> []" using that sp by (auto simp: splitToolCalls_def)
      then have "roleEmitted s1" using roles.P_iteration[OF ok i] Inr by simp
      then have "same_accounts s1 s2 \<and> role_ok s2" by (rule resolve_accounts[OF it(5) _ rv])
      then show ?thesis by (simp add: same_accounts_def)
    qed
    have f1: "sb_posts t = sb_posts s1" if "finalize lib env conf (job_request job) (job_model job) result cc s1 = (e, t)" for e t
      using ending_posts(2)[OF it(5) that] .
    have f2: "sb_posts t = sb_posts s1" if "rc \<noteq> []" "finalize lib env conf (job_request job) (job_model job) result cc s2 = (e, t)" for e t
      using ending_posts(2)[OF conjunct1[OF r2[OF that(1)]] that(2)] r2[OF that(1)] by simp
    show ?thesis
      using t it(2) r2 f1 f2 unfolding stream_turn_def Let_def i Inr prod.case sum.case sp rv
      by (auto simp: bill_stream_def split: prod.splits if_splits)
  qed
qed

lemma turns_posts:
  "role_ok s \<Longrightarrow> stream_turns lib env conf job n req s = (res, s') \<Longrightarrow>
   length (sb_posts s') \<le> length (sb_posts s) + n
   \<or> length (sb_posts s') = length (sb_posts s) + n + 1 \<and> (\<exists>q. last (sb_posts s') = force_stream (forcedFinalChatRequest (ll_fmt lib) q))"
proof (induction n arbitrary: req s)
  case 0
  obtain x s1 where i: "runIteration lib env conf (force_stream (forcedFinalChatRequest (ll_fmt lib) req)) (job_headers job) s = (x, s1)"
    by (cases "runIteration lib env conf (force_stream (forcedFinalChatRequest (ll_fmt lib) req)) (job_headers job) s")
  note it = runIteration_accounts[OF i 0(1)]
  have "sb_posts s' = sb_posts s1"
    using 0(2) i ending_posts[OF it(5)] by (cases x) auto
  then show ?case using it(2) by auto
next
  case (Suc n)
  obtain x s1 where t: "stream_turn lib env conf job req s = (x, s1)" by (cases "stream_turn lib env conf job req s")
  note tp = turn_posts[OF Suc.prems(1) t]
  show ?case
  proof (cases x)
    case (Inl e)
    then show ?thesis using Suc.prems(2) t tp by simp
  next
    case (Inr req')
    then show ?thesis using Suc.IH[of s1 req'] Suc.prems(2) t tp by simp
  qed
qed

lemma forced_final_fields:
  "field (force_stream (forcedFinalChatRequest fmt q)) ''tools'' = JNull"
  "field (force_stream (forcedFinalChatRequest fmt q)) ''tool_choice'' = JNull"
  "field (force_stream (forcedFinalChatRequest fmt q)) ''stream'' = JBool True"
  by (simp_all add: field_def force_stream_def forcedFinalChatRequest_def Let_def update_conv' delete_conv')

text \<open>
  C24. A streamed chat request opens at most eleven upstream streams, whatever the model and the tool servers
  answer; when it opens all eleven, the request for the last one offers the model no tools, so that its answer
  ends the loop.
\<close>

theorem chat_stream_terminates:
  "case snd (runChatStreaming lib env flusher reg r body modelName hdr prompt opts w0 w) of s \<Rightarrow>
     length (sb_posts s) \<le> 10
     \<or> length (sb_posts s) = 11 \<and> field (last (sb_posts s)) ''tools'' = JNull
        \<and> field (last (sb_posts s)) ''tool_choice'' = JNull"
proof -
  have n: "role_ok (new_chat a b h w) \<and> sb_posts (new_chat a b h w) = []" for a b h
    by (simp add: role_ok_def new_chat_def new_base_def streamBase.extend_def)
  obtain res s where e: "runChatStreaming lib env flusher reg r body modelName hdr prompt opts w0 w = (res, s)"
    by (cases "runChatStreaming lib env flusher reg r body modelName hdr prompt opts w0 w")
  show ?thesis
  proof (cases flusher)
    case True
    then show ?thesis
      using e turns_posts[of "new_chat (header_get (tr_header r) UsageMetricsRequestHeader = ''true'') (isHarmonyModel modelName) w0 w" lib env] n
      by (fastforce simp: runChatStreaming_def Let_def maxToolIterations_def forced_final_fields)
  next
    case False
    then show ?thesis using n by (simp add: runChatStreaming_def Let_def)
  qed
qed

end
