(* ===== verification/Responses_Stream.thy ===== *)
theory Responses_Stream
  imports Chat_Stream
begin

text \<open>
  The streamed tool loop for the Responses API (\<open>toolruntime/responses_stream.go\<close> and the Responses emitter of
  \<open>tool_progress.go\<close>). The upstream restarts its indexes and identifiers with each turn; the streamer gives the
  client one stream with its own output indexes and sequence numbers, hides the calls the router answers
  itself, and ends with one terminal event. The second half shows this for every stream the model can send.

  A decoded event is \<open>None\<close> for the JSON value null, which Go reads as a nil map: writing to it panics. Output
  items that are missing are \<open>JNull\<close>.
\<close>

section \<open>State\<close>

text \<open>\<open>rr_read\<close> logs the events a turn has handled and \<open>turns_read\<close> those of every turn; nothing reads them.\<close>

type_synonym itemContentKey = "string \<times> int"

record responses_conf =
  rc_owned :: "string list"
  rc_includeSources :: bool

record 'w responsesStreamer = "'w streamBase" +
  upstreamIDCaptured :: bool
  responseID :: string
  createdAt :: int
  responseCreatedEmitted :: bool
  outputIndex :: int
  sequenceNumber :: int
  outputIndexMap :: "(int, int) gomap"
  suppressedItems :: "int list"
  functionCallArguments :: "(int, string) gomap"
  text_emitters :: "(itemContentKey, Emitter) gomap"
  annotationCounts :: "(itemContentKey, int) gomap"
  finalOutput :: "json list"
  aggregatedUsage :: json
  turns_read :: "(string \<times> json_object) list list"

record responsesIterationResult =
  rr_outputItems :: "json list"
  rr_toolCalls :: "toolCall list"
  rr_usage :: json
  rr_read :: "(string \<times> json_object) list"

definition empty_turn :: responsesIterationResult where
  "empty_turn = \<lparr>rr_outputItems = [], rr_toolCalls = [], rr_usage = JNull, rr_read = []\<rparr>"

definition resetPerIterationState :: "'w responsesStreamer \<Rightarrow> 'w responsesStreamer" where
  "resetPerIterationState s = s\<lparr>outputIndexMap := [], suppressedItems := [], finalOutput := []\<rparr>"

section \<open>Frames\<close>

definition emitEvent ::
  "loop_lib \<Rightarrow> ('s, 'w) stream_env \<Rightarrow> string \<Rightarrow> json_object option \<Rightarrow> 'w responsesStreamer \<Rightarrow> 'w responsesStreamer" where
  "emitEvent lib env eventType body s =
     (if writeErr s \<noteq> None then s
      else case body of
             None \<Rightarrow> emit_frame lib env (WEvent eventType None) s
           | Some b \<Rightarrow>
               emit_frame lib env (WEvent eventType (Some (AList.update ''sequence_number'' (JInt (sequenceNumber s)) b)))
                 (s\<lparr>sequenceNumber := sequenceNumber s + 1\<rparr>))"

definition streamResponseID :: "('s, 'w) stream_env \<Rightarrow> 'w responsesStreamer \<Rightarrow> string \<times> 'w responsesStreamer" where
  "streamResponseID env s =
     (if responseID s \<noteq> [] then (responseID s, s)
      else case new_uuid env s of (u, s1) \<Rightarrow> (''resp_'' @ u, s1\<lparr>responseID := ''resp_'' @ u\<rparr>))"

definition streamCreatedAt :: "('s, 'w) stream_env \<Rightarrow> 'w responsesStreamer \<Rightarrow> int \<times> 'w responsesStreamer" where
  "streamCreatedAt env s =
     (if createdAt s \<noteq> 0 then (createdAt s, s)
      else (se_unix env (sb_world s), s\<lparr>createdAt := se_unix env (sb_world s)\<rparr>))"

text \<open>The fields a response object starts with.\<close>

definition response_head ::
  "('s, 'w) stream_env \<Rightarrow> string \<Rightarrow> 'w responsesStreamer \<Rightarrow> json_object \<times> 'w responsesStreamer" where
  "response_head env status s =
     (let (i, s1) = streamResponseID env s;
          (created, s2) = streamCreatedAt env s1;
          (model, s3) = validateStreamModel ''response.model'' s2
      in ([(''id'', JString i), (''object'', JString ''response''), (''created_at'', JInt created),
           (''status'', JString status), (''model'', JString model)], s3))"

definition response_event :: "string \<Rightarrow> json_object \<Rightarrow> json_object" where
  "response_event eventType response = [(''type'', JString eventType), (''response'', JObject response)]"

definition ensureResponseCreated :: "loop_lib \<Rightarrow> ('s, 'w) stream_env \<Rightarrow> 'w responsesStreamer \<Rightarrow> 'w responsesStreamer" where
  "ensureResponseCreated lib env s =
     (if responseCreatedEmitted s then s
      else case response_head env ''in_progress'' (s\<lparr>responseCreatedEmitted := True\<rparr>) of
             (head, s1) \<Rightarrow>
               emitEvent lib env ''response.created''
                 (Some (response_event ''response.created'' (head @ [(''output'', JArray [])]))) s1)"

definition captureIdentity :: "json_object \<Rightarrow> 'w responsesStreamer \<Rightarrow> 'w responsesStreamer" where
  "captureIdentity event s =
     (case as_object (field event ''response'') of
        None \<Rightarrow> s
      | Some response \<Rightarrow>
          let i = string_field response ''id'';
              s1 = (if \<not> upstreamIDCaptured s \<and> i \<noteq> [] then s\<lparr>responseID := i, upstreamIDCaptured := True\<rparr> else s);
              created = int_value (field response ''created_at'');
              s2 = (if createdAt s1 = 0 \<and> 0 < created then s1\<lparr>createdAt := created\<rparr> else s1)
          in s2\<lparr>sb_model := keep_or (sb_model s2) (string_field response ''model'')\<rparr>)"

section \<open>Output items\<close>

definition is_tool_type :: "string \<Rightarrow> bool" where
  "is_tool_type t \<longleftrightarrow> t = ''function_call'' \<or> t = ''mcp_call''"

definition isRouterOwnedToolItem :: "string list \<Rightarrow> json_object option \<Rightarrow> bool" where
  "isRouterOwnedToolItem own item =
     (case item of
        None \<Rightarrow> False
      | Some m \<Rightarrow> is_tool_type (string_field m ''type'') \<and> string_field m ''name'' \<in> set own)"

text \<open>\<open>cloneJSONMap\<close>; \<open>None\<close> is a nil result.\<close>

definition clone_event :: "(rat \<Rightarrow> string) \<Rightarrow> json_object option \<Rightarrow> json_object option" where
  "clone_event fmt event =
     (case event of
        None \<Rightarrow> None
      | Some m \<Rightarrow> (case clone_value fmt (JObject m) of Some (JObject m') \<Rightarrow> Some m' | _ \<Rightarrow> None))"

text \<open>The event with its output index replaced, sent under the given name; writing to a nil clone panics.\<close>

definition send_indexed ::
  "loop_lib \<Rightarrow> ('s, 'w) stream_env \<Rightarrow> string \<Rightarrow> json_object option \<Rightarrow> int \<Rightarrow> 'w responsesStreamer \<Rightarrow> 'w responsesStreamer option" where
  "send_indexed lib env eventType event k s =
     map_option (\<lambda>payload. emitEvent lib env eventType (Some (AList.update ''output_index'' (JInt k) payload)) s)
       (clone_event (ll_fmt lib) event)"

definition upstream_index :: "json_object option \<Rightarrow> int" where
  "upstream_index event = int_value (field (args_of event) ''output_index'')"

definition assign_index :: "int \<Rightarrow> 'w responsesStreamer \<Rightarrow> int \<times> 'w responsesStreamer" where
  "assign_index u s =
     (outputIndex s, s\<lparr>outputIndexMap := AList.update u (outputIndex s) (outputIndexMap s), outputIndex := outputIndex s + 1\<rparr>)"

definition client_index :: "int \<Rightarrow> 'w responsesStreamer \<Rightarrow> int \<times> 'w responsesStreamer" where
  "client_index u s = (case map_of (outputIndexMap s) u of Some k \<Rightarrow> (k, s) | None \<Rightarrow> assign_index u s)"

definition handleOutputItemAdded ::
  "loop_lib \<Rightarrow> ('s, 'w) stream_env \<Rightarrow> string list \<Rightarrow> json_object option \<Rightarrow> 'w responsesStreamer \<Rightarrow> 'w responsesStreamer option" where
  "handleOutputItemAdded lib env own event s =
     (let u = upstream_index event in
      if isRouterOwnedToolItem own (as_object (field (args_of event) ''item''))
      then Some (s\<lparr>suppressedItems := List.insert u (suppressedItems s)\<rparr>)
      else case assign_index u s of
             (k, s1) \<Rightarrow> send_indexed lib env ''response.output_item.added'' event k s1)"

definition router_item_arguments ::
  "loop_lib \<Rightarrow> string option \<Rightarrow> json_object \<Rightarrow> json_object option \<times> json_object" where
  "router_item_arguments lib buf item =
     (let parse = parseArguments (ll_valid lib) (ll_unmarshal lib);
          arguments = parse (field item ''arguments'')
      in if args_of arguments \<noteq> [] then (arguments, item)
         else case buf of
                None \<Rightarrow> (arguments, item)
              | Some b \<Rightarrow>
                  (parse (JString b),
                   if string_field item ''arguments'' = [] then AList.update ''arguments'' (JString b) item else item))"

definition client_item_arguments :: "string option \<Rightarrow> json_object \<Rightarrow> json_object" where
  "client_item_arguments buf item =
     (case buf of
        Some b \<Rightarrow>
          if is_tool_type (string_field item ''type'') \<and> string_field item ''arguments'' = [] \<and> b \<noteq> []
          then AList.update ''arguments'' (JString b) item else item
      | None \<Rightarrow> item)"

type_synonym 'w turn_state = "responsesIterationResult \<times> 'w responsesStreamer"

definition router_item_done ::
  "loop_lib \<Rightarrow> int \<Rightarrow> json_object \<Rightarrow> 'w turn_state \<Rightarrow> 'w turn_state" where
  "router_item_done lib u item st =
     (case st of (result, s) \<Rightarrow>
        case router_item_arguments lib (map_of (functionCallArguments s) u) item of
          (arguments, item1) \<Rightarrow>
            (result\<lparr>rr_outputItems := rr_outputItems result @ [JObject item1],
                    rr_toolCalls := rr_toolCalls result @
                      [\<lparr>call_id = keep_or (string_field item1 ''call_id'') (string_field item1 ''id''),
                        call_name = string_field item1 ''name'', call_arguments = arguments\<rparr>]\<rparr>,
             s\<lparr>functionCallArguments := AList.delete u (functionCallArguments s)\<rparr>))"

text \<open>The item and the event it came in, with the reassembled arguments spliced in.\<close>

definition client_item_done ::
  "loop_lib \<Rightarrow> ('s, 'w) stream_env \<Rightarrow> int \<Rightarrow> json_object option \<Rightarrow> json_object option \<Rightarrow> 'w turn_state \<Rightarrow> 'w turn_state option" where
  "client_item_done lib env u event item st =
     (case st of (result, s) \<Rightarrow>
        let tool = is_tool_type (string_field (args_of item) ''type'');
            item1 = map_option (client_item_arguments (map_of (functionCallArguments s) u)) item;
            itemv = (case item1 of None \<Rightarrow> JNull | Some m \<Rightarrow> JObject m);
            event1 = (case item1 of None \<Rightarrow> event | Some m \<Rightarrow> map_option (AList.update ''item'' (JObject m)) event);
            s1 = (if tool then s\<lparr>functionCallArguments := AList.delete u (functionCallArguments s)\<rparr> else s);
            result1 = result\<lparr>rr_outputItems := rr_outputItems result @ [itemv]\<rparr>;
            result2 = (if tool then result1\<lparr>rr_toolCalls := rr_toolCalls result1 @ [responses_call (ll_valid lib) (ll_unmarshal lib) itemv]\<rparr>
                       else result1)
        in case client_index u s1 of
             (k, s2) \<Rightarrow>
               map_option (\<lambda>s3. (result2, s3\<lparr>finalOutput := finalOutput s3 @ [itemv]\<rparr>))
                 (send_indexed lib env ''response.output_item.done'' event1 k s2))"

definition handleOutputItemDone ::
  "loop_lib \<Rightarrow> ('s, 'w) stream_env \<Rightarrow> string list \<Rightarrow> json_object option \<Rightarrow> 'w turn_state \<Rightarrow> 'w turn_state option" where
  "handleOutputItemDone lib env own event st =
     (let item = as_object (field (args_of event) ''item''); u = upstream_index event in
      if isRouterOwnedToolItem own item then Some (router_item_done lib u (args_of item) st)
      else if u \<in> set (suppressedItems (snd st)) then Some st
      else client_item_done lib env u event item st)"

definition handleFunctionCallArgumentsDelta :: "json_object option \<Rightarrow> 'w responsesStreamer \<Rightarrow> 'w responsesStreamer" where
  "handleFunctionCallArgumentsDelta event s =
     (let u = upstream_index event; delta = string_field (args_of event) ''delta'' in
      if delta = [] then s
      else s\<lparr>functionCallArguments :=
               AList.update u ((case map_of (functionCallArguments s) u of None \<Rightarrow> [] | Some b \<Rightarrow> b) @ delta) (functionCallArguments s)\<rparr>)"

section \<open>Text and annotations\<close>

definition text_key :: "json_object option \<Rightarrow> itemContentKey" where
  "text_key event = (string_field (args_of event) ''item_id'', int_value (field (args_of event) ''content_index''))"

definition text_delta :: "int \<Rightarrow> itemContentKey \<Rightarrow> string \<Rightarrow> json_object" where
  "text_delta k key chunk =
     [(''type'', JString ''response.output_text.delta''), (''output_index'', JInt k), (''item_id'', JString (fst key)),
      (''content_index'', JInt (snd key)), (''delta'', JString chunk)]"

definition annotation_event :: "int \<Rightarrow> itemContentKey \<Rightarrow> int \<Rightarrow> Annotation \<Rightarrow> json_object" where
  "annotation_event k key n a =
     [(''type'', JString ''response.output_text.annotation.added''), (''output_index'', JInt k), (''item_id'', JString (fst key)),
      (''content_index'', JInt (snd key)), (''annotation_index'', JInt n),
      (''annotation'', JObject [(''type'', JString ''url_citation''), (''url'', JString (URL (ann_source a))),
         (''title'', JString (CitationTitle (ann_source a))), (''start_index'', JInt (StartIndex a)), (''end_index'', JInt (EndIndex a))])]"

definition annotation_count :: "itemContentKey \<Rightarrow> 'w responsesStreamer \<Rightarrow> int" where
  "annotation_count key s = (case map_of (annotationCounts s) key of None \<Rightarrow> 0 | Some n \<Rightarrow> n)"

definition emitAnnotationEvents ::
  "loop_lib \<Rightarrow> ('s, 'w) stream_env \<Rightarrow> Annotation list \<Rightarrow> int \<Rightarrow> itemContentKey \<Rightarrow> 'w responsesStreamer \<Rightarrow> 'w responsesStreamer" where
  "emitAnnotationEvents lib env matches k key s =
     fold (\<lambda>a s. emitEvent lib env ''response.output_text.annotation.added'' (Some (annotation_event k key (annotation_count key s) a))
                   (s\<lparr>annotationCounts := AList.update key (annotation_count key s + 1) (annotationCounts s)\<rparr>)) matches s"

definition send_text ::
  "loop_lib \<Rightarrow> ('s, 'w) stream_env \<Rightarrow> int \<Rightarrow> itemContentKey \<Rightarrow> string \<Rightarrow> Annotation list \<Rightarrow> 'w responsesStreamer \<Rightarrow> 'w responsesStreamer" where
  "send_text lib env k key chunk annotations s =
     emitAnnotationEvents lib env annotations k key
       (if chunk = [] then s else emitEvent lib env ''response.output_text.delta'' (Some (text_delta k key chunk)) s)"

definition handleOutputTextDelta ::
  "loop_lib \<Rightarrow> ('s, 'w) stream_env \<Rightarrow> json_object option \<Rightarrow> 'w responsesStreamer \<Rightarrow> 'w responsesStreamer" where
  "handleOutputTextDelta lib env event s =
     (let u = upstream_index event in
      if u \<in> set (suppressedItems s) then s
      else case client_index u s of
             (k, s1) \<Rightarrow>
               let key = text_key event;
                   em = (case map_of (text_emitters s1) key of Some em \<Rightarrow> em | None \<Rightarrow> NewEmitter)
               in case Push (ll_url lib) (Some (ts_cite (sb_tools s1))) (string_field (args_of event) ''delta'') em of
                    (chunk, annotations, em') \<Rightarrow>
                      send_text lib env k key chunk annotations (s1\<lparr>text_emitters := AList.update key em' (text_emitters s1)\<rparr>))"

definition flush_text ::
  "loop_lib \<Rightarrow> ('s, 'w) stream_env \<Rightarrow> int \<Rightarrow> itemContentKey \<Rightarrow> 'w responsesStreamer \<Rightarrow> 'w responsesStreamer" where
  "flush_text lib env k key s =
     (case map_of (text_emitters s) key of
        None \<Rightarrow> s
      | Some em \<Rightarrow>
          (case Flush (ll_url lib) (Some (ts_cite (sb_tools s))) em of
             (chunk, annotations, _) \<Rightarrow>
               let s1 = send_text lib env k key chunk annotations s
               in s1\<lparr>text_emitters := AList.delete key (text_emitters s1)\<rparr>))"

definition handleOutputTextDone ::
  "loop_lib \<Rightarrow> ('s, 'w) stream_env \<Rightarrow> json_object option \<Rightarrow> 'w responsesStreamer \<Rightarrow> 'w responsesStreamer option" where
  "handleOutputTextDone lib env event s =
     (let u = upstream_index event in
      if u \<in> set (suppressedItems s) then Some s
      else case client_index u s of
             (k, s1) \<Rightarrow> send_indexed lib env ''response.output_text.done'' event k (flush_text lib env k (text_key event) s1))"

definition forwardEvent ::
  "loop_lib \<Rightarrow> ('s, 'w) stream_env \<Rightarrow> string \<Rightarrow> json_object option \<Rightarrow> 'w responsesStreamer \<Rightarrow> 'w responsesStreamer option" where
  "forwardEvent lib env eventType event s =
     (case map_of (args_of event) ''output_index'' of
        None \<Rightarrow> Some (emitEvent lib env eventType event s)
      | Some rawIndex \<Rightarrow>
          let u = int_value rawIndex in
          if u \<in> set (suppressedItems s) then Some s
          else case map_of (outputIndexMap s) u of
                 Some k \<Rightarrow> send_indexed lib env eventType event k s
               | None \<Rightarrow> Some (emitEvent lib env eventType event s))"

section \<open>Progress of tool calls\<close>

definition openWebSearchCallItem ::
  "loop_lib \<Rightarrow> ('s, 'w) stream_env \<Rightarrow> string \<Rightarrow> json_object \<Rightarrow> 'w responsesStreamer \<Rightarrow> int \<times> 'w responsesStreamer" where
  "openWebSearchCallItem lib env i action s =
     (outputIndex s,
      emitEvent lib env ''response.output_item.added''
        (Some [(''type'', JString ''response.output_item.added''), (''output_index'', JInt (outputIndex s)),
               (''item'', JObject [(''id'', JString i), (''type'', JString ''web_search_call''), (''status'', JString ''in_progress''),
                                   (''action'', JObject action)])])
        (s\<lparr>outputIndex := outputIndex s + 1\<rparr>))"

definition emitToolCallPhase ::
  "loop_lib \<Rightarrow> ('s, 'w) stream_env \<Rightarrow> string \<Rightarrow> string \<Rightarrow> int \<Rightarrow> 'w responsesStreamer \<Rightarrow> 'w responsesStreamer" where
  "emitToolCallPhase lib env eventType itemID k s =
     emitEvent lib env eventType
       (Some [(''type'', JString eventType), (''item_id'', JString itemID), (''output_index'', JInt k)]) s"

definition closeWebSearchCallItem ::
  "loop_lib \<Rightarrow> ('s, 'w) stream_env \<Rightarrow> string \<Rightarrow> int \<Rightarrow> json_object \<Rightarrow> string \<Rightarrow> string \<Rightarrow> piiCheckResult option \<Rightarrow>
   'w responsesStreamer \<Rightarrow> 'w responsesStreamer" where
  "closeWebSearchCallItem lib env i k action status errorCode pii s =
     emitEvent lib env ''response.output_item.done''
       (Some [(''type'', JString ''response.output_item.done''), (''output_index'', JInt k),
              (''item'', JObject (webSearchCallEvent i status errorCode action pii))]) s"

definition closing_action :: "responses_conf \<Rightarrow> string \<Rightarrow> toolProgressResult \<Rightarrow> json_object \<Rightarrow> json_object" where
  "closing_action conf toolName res details =
     (if isRouterSearchToolName toolName \<and> rc_includeSources conf \<and> toActionSources (pr_sources res) \<noteq> []
      then AList.update ''sources'' (JArray (toActionSources (pr_sources res))) details else details)"

definition responsesToolProgressEmitter ::
  "loop_lib \<Rightarrow> ('s, 'w) stream_env \<Rightarrow> responses_conf \<Rightarrow> 'w responsesStreamer toolProgressEmitter" where
  "responsesToolProgressEmitter lib env conf =
     \<lparr>pe_open = (\<lambda>i details s. case openWebSearchCallItem lib env i details s of (k, s1) \<Rightarrow> (\<lparr>h_id = i, h_outputIndex = k\<rparr>, s1)),
      pe_phase = (\<lambda>h phase s. emitToolCallPhase lib env phase (h_id h) (h_outputIndex h) s),
      pe_close = (\<lambda>h toolName details res status reason s.
        closeWebSearchCallItem lib env (h_id h) (h_outputIndex h) (closing_action conf toolName res details) status reason (pr_pii res) s)\<rparr>"

section \<open>One upstream stream\<close>

definition extractResponsesUsage :: "json_object \<Rightarrow> json" where
  "extractResponsesUsage event =
     (case as_object (field event ''response'') of
        None \<Rightarrow> JNull
      | Some response \<Rightarrow> (case as_object (field response ''usage'') of None \<Rightarrow> JNull | Some u \<Rightarrow> JObject u))"

definition extractResponsesErrorMessage :: "json_object \<Rightarrow> string" where
  "extractResponsesErrorMessage event =
     (case as_object (field event ''response'') of
        None \<Rightarrow> []
      | Some response \<Rightarrow>
          keep_or (string_field (args_of (as_object (field response ''error''))) ''message'')
            (string_field (args_of (as_object (field response ''incomplete_details''))) ''reason''))"

definition note_turn_usage :: "loop_lib \<Rightarrow> json \<Rightarrow> 'w turn_state \<Rightarrow> 'w turn_state" where
  "note_turn_usage lib usage st =
     (case st of (result, s) \<Rightarrow>
        if usage = JNull then (result, s)
        else (result\<lparr>rr_usage := usage\<rparr>, add_usage lib usage (s\<lparr>aggregatedUsage := usage\<rparr>)))"

text \<open>What one event does to the loop.\<close>

datatype event_outcome = EvNext | EvTerminal | EvError runtime_error | EvPanic

definition stepped :: "responsesIterationResult \<Rightarrow> 'w responsesStreamer \<Rightarrow> 'w responsesStreamer option \<Rightarrow> event_outcome \<times> 'w turn_state" where
  "stepped result s after = (case after of None \<Rightarrow> (EvPanic, result, s) | Some s' \<Rightarrow> (EvNext, result, s'))"

definition on_event ::
  "loop_lib \<Rightarrow> ('s, 'w) stream_env \<Rightarrow> string list \<Rightarrow> bool \<Rightarrow> string \<Rightarrow> json_object option \<Rightarrow> 'w turn_state \<Rightarrow> event_outcome \<times> 'w turn_state"
where
  "on_event lib env own isFirst eventType event st =
     (case st of (result, s) \<Rightarrow>
        if eventType = ''response.created'' then (EvNext, result, if isFirst then ensureResponseCreated lib env s else s)
        else if eventType = ''response.in_progress'' then (EvNext, result, s)
        else if eventType = ''response.output_item.added'' then stepped result s (handleOutputItemAdded lib env own event s)
        else if eventType = ''response.output_item.done'' then
          (case handleOutputItemDone lib env own event (result, s) of None \<Rightarrow> (EvPanic, result, s) | Some st' \<Rightarrow> (EvNext, st'))
        else if eventType = ''response.output_text.delta'' then (EvNext, result, handleOutputTextDelta lib env event s)
        else if eventType = ''response.output_text.done'' then stepped result s (handleOutputTextDone lib env event s)
        else if eventType = ''response.function_call_arguments.delta'' then
          (let s1 = handleFunctionCallArgumentsDelta event s in
           if upstream_index event \<in> set (suppressedItems s1) then (EvNext, result, s1)
           else stepped result s1 (forwardEvent lib env eventType event s1))
        else if eventType = ''response.function_call_arguments.done'' then
          (if upstream_index event \<in> set (suppressedItems s) then (EvNext, result, s)
           else stepped result s (forwardEvent lib env eventType event s))
        else if eventType = ''response.completed'' then (EvTerminal, note_turn_usage lib (extractResponsesUsage (args_of event)) (result, s))
        else if eventType = ''response.failed'' \<or> eventType = ''response.incomplete'' then
          (EvError (newUpstreamJSONError (ll_encode lib)
             [(''message'', JString (keep_or (extractResponsesErrorMessage (args_of event)) (''upstream response '' @ eventType)))]),
           note_turn_usage lib (extractResponsesUsage (args_of event)) (result, s))
        else stepped result s (forwardEvent lib env eventType event s))"

definition log_event :: "string \<Rightarrow> json_object option \<Rightarrow> responsesIterationResult \<Rightarrow> responsesIterationResult" where
  "log_event eventType event result = result\<lparr>rr_read := rr_read result @ [(eventType, args_of event)]\<rparr>"

text \<open>The loop; \<open>None\<close> is a panic, \<open>Inr True\<close> an end of stream after a terminal event.\<close>

fun event_loop ::
  "loop_lib \<Rightarrow> ('s, 'w) stream_env \<Rightarrow> string list \<Rightarrow> bool \<Rightarrow> sseFrame list \<Rightarrow> string option \<Rightarrow> bool \<Rightarrow> 'w turn_state \<Rightarrow>
   (runtime_error + bool) option \<times> 'w turn_state"
where
  "event_loop lib env own isFirst frames ending terminalSeen (result, s) =
     (case writeErr s of
        Some err \<Rightarrow> (Some (Inl (OtherError err)), result, s)
      | None \<Rightarrow>
          (case frames of
             [] \<Rightarrow> (Some (case ending of None \<Rightarrow> Inr terminalSeen | Some e \<Rightarrow> Inl (OtherError e)), result, s)
           | frame # rest \<Rightarrow>
               if frame_data frame = [] \<or> frame_data frame = ''[DONE]''
               then event_loop lib env own isFirst rest ending terminalSeen (result, s)
               else case ll_unmarshal lib (frame_data frame) of
                      None \<Rightarrow> (Some (Inl (newUpstreamStreamError (ll_encode lib))), result, s)
                    | Some event \<Rightarrow>
                        let eventType = keep_or (string_field (args_of event) ''type'') (frame_event frame) in
                        (case on_event lib env own isFirst eventType event (log_event eventType event result, captureIdentity (args_of event) s) of
                           (EvNext, st) \<Rightarrow> event_loop lib env own isFirst rest ending terminalSeen st
                         | (EvTerminal, st) \<Rightarrow> event_loop lib env own isFirst rest ending True st
                         | (EvError err, st) \<Rightarrow> (Some (Inl err), st)
                         | (EvPanic, st) \<Rightarrow> (None, st))))"

declare event_loop.simps [simp del]

definition resp_pumpUpstream ::
  "loop_lib \<Rightarrow> ('s, 'w) stream_env \<Rightarrow> string list \<Rightarrow> bool \<Rightarrow> sseReader \<Rightarrow> 'w responsesStreamer \<Rightarrow>
   (runtime_error + responsesIterationResult) option \<times> 'w responsesStreamer"
where
  "resp_pumpUpstream lib env own isFirst reader s =
     (case read_all reader of
        (frames, ending) \<Rightarrow>
          (case event_loop lib env own isFirst frames ending False (empty_turn, s) of
             (outcome, result, s1) \<Rightarrow>
               (map_option (\<lambda>o1. case o1 of
                    Inl err \<Rightarrow> Inl err
                  | Inr terminalSeen \<Rightarrow> if terminalSeen then Inr result else Inl (newUpstreamStreamError (ll_encode lib))) outcome,
                s1\<lparr>turns_read := turns_read s1 @ [rr_read result]\<rparr>)))"

definition resp_runIteration ::
  "loop_lib \<Rightarrow> ('s, 'w) stream_env \<Rightarrow> string list \<Rightarrow> bool \<Rightarrow> json_object \<Rightarrow> header \<Rightarrow> 'w responsesStreamer \<Rightarrow>
   (runtime_error + responsesIterationResult) option \<times> 'w responsesStreamer"
where
  "resp_runIteration lib env own isFirst reqBody requestHeaders s =
     (case openUpstreamSSE env ''/v1/responses'' reqBody requestHeaders s of
        (Inl err, s1) \<Rightarrow> (Some (Inl err), s1)
      | (Inr reader, s1) \<Rightarrow>
          resp_pumpUpstream lib env own isFirst reader ((resetPerIterationState s1)\<lparr>functionCallArguments := []\<rparr>))"

section \<open>Ending the stream\<close>

definition totalsBillingUsage :: "'w responsesStreamer \<Rightarrow> json" where
  "totalsBillingUsage s =
     (case acc_Usage (usageTotals s) of Some totals \<Rightarrow> JObject (responsesUsageMap totals) | None \<Rightarrow> aggregatedUsage s)"

definition closing_usage :: "responsesIterationResult \<Rightarrow> 'w responsesStreamer \<Rightarrow> json" where
  "closing_usage result s =
     (case acc_Usage (usageTotals s) of
        Some totals \<Rightarrow> JObject (responsesUsageMap totals)
      | None \<Rightarrow> if rr_usage result = JNull then aggregatedUsage s else rr_usage result)"

text \<open>The output of the closing event: the items of the last turn with citations, after the searches made.\<close>

definition closing_output ::
  "loop_lib \<Rightarrow> ('s, 'w) stream_env \<Rightarrow> responses_conf \<Rightarrow> 'w responsesStreamer \<Rightarrow> json list \<times> 'w responsesStreamer" where
  "closing_output lib env conf s =
     (let records = ts_log (sb_tools s);
          uuid = (\<lambda>n. se_uuid env (sb_uuids s + n));
          body = attachResponsesOutput (ll_url lib) uuid (Some (ts_cite (sb_tools s))) records (rc_includeSources conf)
                   [(''output'', JArray (finalOutput s))]
      in (list_or_empty (field body ''output''),
          s\<lparr>sb_uuids := sb_uuids s + length (buildWebSearchCallOutputItems uuid records (rc_includeSources conf))\<rparr>))"

definition resp_finalize ::
  "loop_lib \<Rightarrow> ('s, 'w) stream_env \<Rightarrow> responses_conf \<Rightarrow> tool_request \<Rightarrow> string \<Rightarrow> responsesIterationResult \<Rightarrow>
   'w responsesStreamer \<Rightarrow> stream_result \<times> 'w responsesStreamer"
where
  "resp_finalize lib env conf r modelName result s =
     (let s1 = (ensureResponseCreated lib env s)\<lparr>text_emitters := []\<rparr>;
          usage = closing_usage result s1;
          (output, s2) = closing_output lib env conf s1;
          (head, s3) = response_head env ''completed'' s2;
          s4 = emitEvent lib env ''response.completed''
                 (Some (response_event ''response.completed''
                    (head @ [(''output'', JArray output)] @ (if usage = JNull then [] else [(''usage'', usage)])))) s3
      in case metrics_trailer lib modelName usage s4 of
           None \<Rightarrow> (None, s4)
         | Some s5 \<Rightarrow> (Some (stream_end s5), bill_stream lib env r modelName usage s5))"

definition resp_terminateWithError ::
  "loop_lib \<Rightarrow> ('s, 'w) stream_env \<Rightarrow> tool_request \<Rightarrow> string \<Rightarrow> runtime_error \<Rightarrow> 'w responsesStreamer \<Rightarrow> stream_result \<times> 'w responsesStreamer" where
  "resp_terminateWithError lib env r modelName err s =
     (if \<not> headersWritten s then (Some (Some err), s)
      else
        let s1 = ensureResponseCreated lib env s;
            (head, s2) = response_head env ''failed'' s1;
            payload = upstreamErrorPayload (\<lambda>b. case ll_unmarshal lib b of Some parsed \<Rightarrow> parsed | None \<Rightarrow> None) err;
            s3 = emitEvent lib env ''response.failed''
                   (Some (response_event ''response.failed''
                      (head @ [(''output'', if finalOutput s2 = [] then JNull else JArray (finalOutput s2)), (''error'', JObject payload)]))) s2;
            s4 = bill_stream lib env r modelName (totalsBillingUsage s3) s3
        in (Some (stream_end s4), s4))"

section \<open>The loop\<close>

definition buildResponsesStreamRequest :: "loop_lib \<Rightarrow> json_object \<Rightarrow> mcp_tool list \<Rightarrow> prompt_result \<Rightarrow> json_object" where
  "buildResponsesStreamRequest lib body tools prompt =
     AList.update ''stream'' (JBool True) (buildResponsesUpstreamRequest (ll_fmt lib) (ll_now lib) body tools prompt)"

definition responses_executor ::
  "loop_lib \<Rightarrow> ('s, 'w) stream_env \<Rightarrow> responses_conf \<Rightarrow> 's stream_job \<Rightarrow> toolCall \<Rightarrow> 'w responsesStreamer \<Rightarrow>
   execution_result \<times> 'w responsesStreamer" where
  "responses_executor lib env conf job = executeToolWithProgress lib env (job_reg job) (responsesToolProgressEmitter lib env conf)"

text \<open>The input of the next turn: the original request with the accumulated items.\<close>

definition responses_replay ::
  "loop_lib \<Rightarrow> json_object \<Rightarrow> json list \<Rightarrow> responsesIterationResult \<Rightarrow> toolOutput list \<Rightarrow> json_object \<times> json list" where
  "responses_replay lib base accumulated result outputs =
     (case responses_applyToolOutputs (ll_fmt lib) (base, accumulated) (JArray (rr_outputItems result)) outputs of
        (reqBody, _, accumulated') \<Rightarrow> (reqBody, accumulated'))"

type_synonym turn_request = "json_object \<times> json list"

definition resp_turn ::
  "loop_lib \<Rightarrow> ('s, 'w) stream_env \<Rightarrow> responses_conf \<Rightarrow> 's stream_job \<Rightarrow> json_object \<Rightarrow> bool \<Rightarrow> turn_request \<Rightarrow> 'w responsesStreamer \<Rightarrow>
   (stream_result + turn_request) \<times> 'w responsesStreamer"
where
  "resp_turn lib env conf job base isFirst req s =
     (case resp_runIteration lib env (rc_owned conf) isFirst (fst req) (job_headers job) s of
        (None, s1) \<Rightarrow> (Inl None, s1)
      | (Some (Inl err), s1) \<Rightarrow>
          (case resp_terminateWithError lib env (job_request job) (job_model job) err s1 of (e, s2) \<Rightarrow> (Inl e, s2))
      | (Some (Inr result), s1) \<Rightarrow>
          if writeErr s1 \<noteq> None
          then (Inl (Some None), bill_stream lib env (job_request job) (job_model job) (totalsBillingUsage s1) s1)
          else (case splitToolCalls (rc_owned conf) (rr_toolCalls result) of
                  (routerCalls, clientCalls) \<Rightarrow>
                    if routerCalls = []
                    then (case resp_finalize lib env conf (job_request job) (job_model job) result s1 of (e, s2) \<Rightarrow> (Inl e, s2))
                    else (case resolve_calls lib job (responses_executor lib env conf job) routerCalls s1 of
                            (outputs, s2) \<Rightarrow>
                              if clientCalls \<noteq> []
                              then (case resp_finalize lib env conf (job_request job) (job_model job) result s2 of (e, s3) \<Rightarrow> (Inl e, s3))
                              else (Inr (responses_replay lib base (snd req) result outputs), s2))))"

fun resp_turns ::
  "loop_lib \<Rightarrow> ('s, 'w) stream_env \<Rightarrow> responses_conf \<Rightarrow> 's stream_job \<Rightarrow> json_object \<Rightarrow> nat \<Rightarrow> bool \<Rightarrow> turn_request \<Rightarrow>
   'w responsesStreamer \<Rightarrow> stream_result \<times> 'w responsesStreamer"
where
  "resp_turns lib env conf job base 0 isFirst req s =
     (case resp_runIteration lib env (rc_owned conf) False
             (AList.update ''stream'' (JBool True) (forcedFinalResponsesRequest (ll_fmt lib) (fst req))) (job_headers job) s of
        (None, s1) \<Rightarrow> (None, s1)
      | (Some (Inl err), s1) \<Rightarrow> resp_terminateWithError lib env (job_request job) (job_model job) err s1
      | (Some (Inr result), s1) \<Rightarrow> resp_finalize lib env conf (job_request job) (job_model job) result s1)"
| "resp_turns lib env conf job base (Suc n) isFirst req s =
     (case resp_turn lib env conf job base isFirst req s of
        (Inl e, s1) \<Rightarrow> (e, s1)
      | (Inr req', s1) \<Rightarrow> resp_turns lib env conf job base n False req' s1)"

definition new_responses :: "bool \<Rightarrow> bool \<Rightarrow> header \<Rightarrow> 'w \<Rightarrow> 'w responsesStreamer" where
  "new_responses metrics harmony h w =
     streamBase.extend (new_base metrics harmony h w)
       \<lparr>upstreamIDCaptured = False, responseID = [], createdAt = 0, responseCreatedEmitted = False, outputIndex = 0,
        sequenceNumber = 0, outputIndexMap = [], suppressedItems = [], functionCallArguments = [], text_emitters = [],
        annotationCounts = [], finalOutput = [], aggregatedUsage = JNull, turns_read = []\<rparr>"

definition runResponsesStreaming ::
  "loop_lib \<Rightarrow> ('s, 'w) stream_env \<Rightarrow> bool \<Rightarrow> 's sessionRegistry \<Rightarrow> tool_request \<Rightarrow> json_object \<Rightarrow> string \<Rightarrow> header \<Rightarrow>
   prompt_result \<Rightarrow> RouterOptions option \<Rightarrow> header \<Rightarrow> 'w \<Rightarrow> stream_result \<times> 'w responsesStreamer"
where
  "runResponsesStreaming lib env flusher reg r body modelName requestHeaders prompt routerOpts w0 w =
     (let s0 = new_responses (header_get (tr_header r) UsageMetricsRequestHeader = ''true'') (isHarmonyModel modelName) w0 w;
          opts = parseResponsesWebSearchOptions (ll_go lib) routerOpts body;
          conf = \<lparr>rc_owned = ownedTools (Some reg), rc_includeSources = includeActionSources opts\<rparr>;
          job = \<lparr>job_reg = reg, job_opts = opts, job_schemas = schemaLookup (ll_schema lib) (map Some (reg_tools reg)),
                 job_headers = requestHeaders, job_request = r, job_model = modelName\<rparr>;
          base = buildResponsesStreamRequest lib body (reg_tools reg) prompt
      in if \<not> flusher then (Some (Some (OtherError ''streaming not supported'')), s0)
         else resp_turns lib env conf job base maxToolIterations True (base, list_or_empty (field base ''input'')) s0)"

section \<open>The trace of a stream\<close>

definition numbered :: "client_write list \<Rightarrow> (string \<times> json_object) list" where
  "numbered out = List.map_filter (\<lambda>x. case x of WEvent t (Some b) \<Rightarrow> Some (t, b) | _ \<Rightarrow> None) out"

definition named :: "string \<Rightarrow> client_write list \<Rightarrow> json_object list" where
  "named t out = map snd (filter (\<lambda>e. fst e = t) (numbered out))"

definition sequence_ok :: "client_write list \<Rightarrow> bool" where
  "sequence_ok out \<longleftrightarrow>
     map (\<lambda>e. field (snd e) ''sequence_number'') (numbered out) = map (\<lambda>n. JInt (int n)) [0..<length (numbered out)]"

definition item_indexes :: "client_write list \<Rightarrow> json list" where
  "item_indexes out = map (\<lambda>b. field b ''output_index'') (named ''response.output_item.added'' out)"

definition shows_owned :: "string list \<Rightarrow> json_object \<Rightarrow> bool" where
  "shows_owned own b \<longleftrightarrow> isRouterOwnedToolItem own (as_object (field b ''item''))"

text \<open>
  What every client sees: consecutive sequence numbers, one opening event at most, items announced under
  strictly increasing indexes, and no item the router answers itself announced or closed. The output listed in
  the closing event is not part of this predicate.
\<close>

definition trace_ok :: "string list \<Rightarrow> client_write list \<Rightarrow> bool" where
  "trace_ok own out \<longleftrightarrow>
     sequence_ok out \<and> length (named ''response.created'' out) \<le> 1
     \<and> (\<exists>ns. item_indexes out = map JInt ns \<and> sorted_wrt (<) ns)
     \<and> filter (shows_owned own) (named ''response.output_item.added'' out @ named ''response.output_item.done'' out) = []"

lemma numbered_append: "numbered (out @ out') = numbered out @ numbered out'"
  by (simp add: numbered_def List.map_filter_def)

lemma numbered_simps [simp]:
  "numbered [] = []" "numbered [WEvent t None] = []" "numbered [WEvent t (Some b)] = [(t, b)]"
  by (simp_all add: numbered_def map_filter_simps)

lemma named_append [simp]:
  "named u (out @ [WEvent t None]) = named u out"
  "named u (out @ [WEvent t (Some b)]) = named u out @ (if t = u then [b] else [])"
  by (simp_all add: named_def numbered_append)

lemma named_Nil [simp]: "named t [] = []"
  by (simp add: named_def)

lemma sequence_ok_append:
  "sequence_ok out \<Longrightarrow> sequence_ok (out @ [WEvent t None])"
  "sequence_ok out \<Longrightarrow> field b ''sequence_number'' = JInt (int (length (numbered out))) \<Longrightarrow> sequence_ok (out @ [WEvent t (Some b)])"
  by (simp_all add: sequence_ok_def numbered_append)

section \<open>The invariant\<close>

text \<open>The usage an event of the upstream reports, and the last one reported.\<close>

definition terminal_usage :: "string \<times> json_object \<Rightarrow> json" where
  "terminal_usage e =
     (if fst e \<in> {''response.completed'', ''response.failed'', ''response.incomplete''} then extractResponsesUsage (snd e) else JNull)"

definition last_reported :: "json list \<Rightarrow> json" where
  "last_reported us = last (JNull # filter (\<lambda>u. u \<noteq> JNull) us)"

lemma last_reported_simps [simp]:
  "last_reported [] = JNull" "last_reported (us @ [u]) = (if u = JNull then last_reported us else u)"
  by (simp_all add: last_reported_def)

text \<open>
  What has been billed, posted and counted: the bills, the posts, whether the headers are out, the totals, the last
  usage and the events read. \<open>booked\<close> is the account of a stream that has read these events, \<open>old\<close> by turn.
\<close>

type_synonym accounts =
  "Event list \<times> json_object list \<times> bool \<times> usageAccumulator \<times> json \<times> (string \<times> json_object) list list"

definition booked ::
  "loop_lib \<Rightarrow> Event list \<times> json_object list \<times> bool \<Rightarrow> (string \<times> json_object) list list \<Rightarrow> (string \<times> json_object) list \<Rightarrow> accounts"
where
  "booked lib acc old new =
     (case acc of (bills, posts, hw) \<Rightarrow>
        (bills, posts, hw, usage_total lib (map terminal_usage (concat old @ new)),
         last_reported (map terminal_usage (concat old @ new)), old))"

lemma booked_silent: "terminal_usage e = JNull \<Longrightarrow> booked lib acc old (new @ [e]) = booked lib acc old new"
  by (cases acc) (simp add: booked_def flip: append_assoc)

definition resp_ok :: "string list \<Rightarrow> accounts \<Rightarrow> 'w responsesStreamer \<Rightarrow> bool" where
  "resp_ok own acc s \<longleftrightarrow>
     (sb_bills s, sb_posts s, headersWritten s, usageTotals s, aggregatedUsage s, turns_read s) = acc
     \<and> sequence_ok (sb_out s)
     \<and> (writeErr s = None \<longrightarrow> sequenceNumber s = int (length (numbered (sb_out s))))
     \<and> length (named ''response.created'' (sb_out s)) \<le> 1
     \<and> (\<not> responseCreatedEmitted s \<longrightarrow> named ''response.created'' (sb_out s) = [])
     \<and> (responseCreatedEmitted s \<and> writeErr s = None \<longrightarrow> named ''response.created'' (sb_out s) \<noteq> [])
     \<and> named ''response.completed'' (sb_out s) = [] \<and> named ''response.failed'' (sb_out s) = []
     \<and> (\<exists>ns. item_indexes (sb_out s) = map JInt ns \<and> sorted_wrt (<) ns \<and> (\<forall>n \<in> set ns. n < outputIndex s))
     \<and> filter (shows_owned own) (named ''response.output_item.added'' (sb_out s) @ named ''response.output_item.done'' (sb_out s)) = []"

lemma resp_ok_trace: "resp_ok own acc s \<Longrightarrow> trace_ok own (sb_out s)"
  by (auto simp: resp_ok_def trace_ok_def)

text \<open>Updates that send nothing.\<close>

definition quiet :: "'w responsesStreamer \<Rightarrow> 'w responsesStreamer \<Rightarrow> bool" where
  "quiet s s' \<longleftrightarrow>
     sb_bills s' = sb_bills s \<and> sb_posts s' = sb_posts s \<and> headersWritten s' = headersWritten s \<and> sb_out s' = sb_out s
     \<and> usageTotals s' = usageTotals s \<and> aggregatedUsage s' = aggregatedUsage s \<and> turns_read s' = turns_read s
     \<and> responseCreatedEmitted s' = responseCreatedEmitted s \<and> outputIndex s \<le> outputIndex s'
     \<and> (writeErr s' = None \<longrightarrow> writeErr s = None \<and> sequenceNumber s' = sequenceNumber s)"

lemma resp_ok_quiet:
  assumes "quiet s s'" "resp_ok own acc s"
  shows "resp_ok own acc s'"
proof -
  obtain ns where "item_indexes (sb_out s) = map JInt ns" "sorted_wrt (<) ns" "\<forall>n \<in> set ns. n < outputIndex s"
    using assms(2) by (auto simp: resp_ok_def)
  then have "\<exists>ns. item_indexes (sb_out s') = map JInt ns \<and> sorted_wrt (<) ns \<and> (\<forall>n \<in> set ns. n < outputIndex s')"
    using assms(1) by (intro exI[of _ ns]) (auto simp: quiet_def)
  then show ?thesis using assms by (auto simp: resp_ok_def quiet_def)
qed

lemma resp_ok_dead:
  assumes "resp_ok own acc s" "quiet (s\<lparr>responseCreatedEmitted := True\<rparr>) s'" "writeErr s' \<noteq> None"
  shows "resp_ok own acc s'"
proof -
  have "quiet s (s'\<lparr>responseCreatedEmitted := responseCreatedEmitted s\<rparr>)" using assms(2) by (simp add: quiet_def)
  then have "resp_ok own acc (s'\<lparr>responseCreatedEmitted := responseCreatedEmitted s\<rparr>)" using assms(1) by (rule resp_ok_quiet)
  moreover have "responseCreatedEmitted s'" using assms(2) by (simp add: quiet_def)
  ultimately show ?thesis using assms(3) unfolding resp_ok_def by auto
qed

lemma quiet_failed: "quiet s (s\<lparr>sb_world := w, sequenceNumber := q, writeErr := Some err\<rparr>)"
  by (simp add: quiet_def)

lemma quiet_trans: "quiet s s' \<Longrightarrow> quiet s' s'' \<Longrightarrow> quiet s s''"
  by (auto simp: quiet_def)

lemma emitEvent_cases:
  obtains (latched) "writeErr s \<noteq> None" "emitEvent lib env t body s = s"
  | (failed) w q err where "emitEvent lib env t body s = s\<lparr>sb_world := w, sequenceNumber := q, writeErr := Some err\<rparr>"
  | (sent) w where "writeErr s = None"
      "emitEvent lib env t body s =
         s\<lparr>sb_world := w, sequenceNumber := (if body = None then sequenceNumber s else sequenceNumber s + 1),
           sb_out := sb_out s @ [WEvent t (map_option (AList.update ''sequence_number'' (JInt (sequenceNumber s))) body)]\<rparr>"
proof (cases "writeErr s")
  case (Some e)
  then show ?thesis by (intro latched) (simp_all add: emitEvent_def)
next
  case None
  let ?s = "s\<lparr>sequenceNumber := (if body = None then sequenceNumber s else sequenceNumber s + 1)\<rparr>"
  let ?x = "WEvent t (map_option (AList.update ''sequence_number'' (JInt (sequenceNumber s))) body)"
  have e: "emitEvent lib env t body s = emit_frame lib env ?x ?s"
    using None by (cases body) (simp_all add: emitEvent_def)
  show ?thesis
  proof (cases "print_write (ll_encode lib) ?x")
    case print: None
    then have "emitEvent lib env t body s =
        s\<lparr>sb_world := sb_world s, sequenceNumber := sequenceNumber ?s, writeErr := Some ''encode''\<rparr>"
      using None e by (simp add: emit_frame_def)
    then show ?thesis by (rule failed)
  next
    case (Some bytes)
    obtain err w where w: "se_write env (sb_world s) bytes = (err, w)" by (cases "se_write env (sb_world s) bytes")
    show ?thesis
    proof (cases err)
      case err: None
      have "emitEvent lib env t body s = s\<lparr>sb_world := w, sequenceNumber := sequenceNumber ?s, sb_out := sb_out s @ [?x]\<rparr>"
        using w err None Some e by (simp add: emit_frame_def)
      then show ?thesis using sent[OF None] by simp
    next
      case err: (Some x)
      have "emitEvent lib env t body s = s\<lparr>sb_world := w, sequenceNumber := sequenceNumber ?s, writeErr := Some x\<rparr>"
        using w err None Some e by (simp add: emit_frame_def)
      then show ?thesis by (rule failed)
    qed
  qed
qed

lemma emit_failed_ok: "resp_ok own acc s \<Longrightarrow> resp_ok own acc (s\<lparr>sb_world := w, sequenceNumber := q, writeErr := Some err\<rparr>)"
  by (auto simp: resp_ok_def)

definition marker_type :: "string \<Rightarrow> bool" where
  "marker_type t \<longleftrightarrow> t \<in> {''response.created'', ''response.completed'', ''response.failed'', ''response.output_item.added''}"

lemma emit_ok:
  assumes ok: "resp_ok own acc s" and t: "\<not> marker_type t"
    and item: "t = ''response.output_item.done'' \<Longrightarrow> \<not> shows_owned own (args_of body)"
  shows "resp_ok own acc (emitEvent lib env t body s)"
proof (rule emitEvent_cases[of s lib env t body])
  fix w assume w: "writeErr s = None"
    and e: "emitEvent lib env t body s =
         s\<lparr>sb_world := w, sequenceNumber := (if body = None then sequenceNumber s else sequenceNumber s + 1),
           sb_out := sb_out s @ [WEvent t (map_option (AList.update ''sequence_number'' (JInt (sequenceNumber s))) body)]\<rparr>"
  show ?thesis
  proof (cases body)
    case None
    then show ?thesis using ok w t unfolding e by (auto simp: resp_ok_def numbered_append sequence_ok_append item_indexes_def)
  next
    case (Some b)
    have q: "sequenceNumber s = int (length (numbered (sb_out s)))" using ok w by (simp add: resp_ok_def)
    show ?thesis
      using ok w t item Some q unfolding e
      by (auto simp: resp_ok_def numbered_append sequence_ok_append item_indexes_def marker_type_def shows_owned_def args_of_def)
  qed
qed (use ok emit_failed_ok[OF ok] in simp_all)

lemma emit_added_ok:
  assumes ok: "resp_ok own acc s" and b: "field b ''output_index'' = JInt (outputIndex s)" "\<not> shows_owned own b"
    and s': "quiet s s'" "outputIndex s' = outputIndex s + 1"
  shows "resp_ok own acc (emitEvent lib env ''response.output_item.added'' (Some b) s')"
proof (rule emitEvent_cases[of s' lib env "''response.output_item.added''" "Some b"])
  fix w assume w: "writeErr s' = None"
    and e: "emitEvent lib env ''response.output_item.added'' (Some b) s' =
         s'\<lparr>sb_world := w, sequenceNumber := (if Some b = None then sequenceNumber s' else sequenceNumber s' + 1),
           sb_out := sb_out s' @ [WEvent ''response.output_item.added''
             (map_option (AList.update ''sequence_number'' (JInt (sequenceNumber s'))) (Some b))]\<rparr>"
  obtain ns where ns: "item_indexes (sb_out s) = map JInt ns" "sorted_wrt (<) ns" "\<forall>n \<in> set ns. n < outputIndex s"
    using ok by (auto simp: resp_ok_def)
  have "item_indexes (sb_out (emitEvent lib env ''response.output_item.added'' (Some b) s')) = map JInt (ns @ [outputIndex s])"
    using ns(1) s' b unfolding e by (simp add: item_indexes_def quiet_def)
  moreover have "sorted_wrt (<) (ns @ [outputIndex s])" using ns by (simp add: sorted_wrt_append)
  moreover have "\<forall>n \<in> set (ns @ [outputIndex s]). n < outputIndex (emitEvent lib env ''response.output_item.added'' (Some b) s')"
    using ns(3) s' unfolding e by auto
  ultimately have x: "\<exists>ns. item_indexes (sb_out (emitEvent lib env ''response.output_item.added'' (Some b) s')) = map JInt ns
      \<and> sorted_wrt (<) ns \<and> (\<forall>n \<in> set ns. n < outputIndex (emitEvent lib env ''response.output_item.added'' (Some b) s'))"
    by blast
  have "sequenceNumber s' = int (length (numbered (sb_out s')))" using ok w s' by (simp add: resp_ok_def quiet_def)
  then show ?thesis
    using ok w s' b x unfolding e resp_ok_def
    by (auto simp: numbered_append sequence_ok_append quiet_def shows_owned_def)
next
  assume "emitEvent lib env ''response.output_item.added'' (Some b) s' = s'"
  then show ?thesis using resp_ok_quiet[OF s'(1) ok] by simp
next
  fix w q err assume "emitEvent lib env ''response.output_item.added'' (Some b) s' =
     s'\<lparr>sb_world := w, sequenceNumber := q, writeErr := Some err\<rparr>"
  then show ?thesis using emit_failed_ok[OF resp_ok_quiet[OF s'(1) ok]] by simp
qed

section \<open>Every operation keeps the invariant\<close>

lemma response_head_quiet: "response_head env status s = (h, s') \<Longrightarrow> quiet s s'"
  by (auto simp: response_head_def streamResponseID_def streamCreatedAt_def validateStreamModel_def new_uuid_def quiet_def Let_def
      split: prod.splits if_splits)

lemma captureIdentity_quiet: "quiet s (captureIdentity event s)"
  by (auto simp: captureIdentity_def quiet_def Let_def split: option.splits)

lemma created_ok:
  assumes ok: "resp_ok own acc s"
  shows "resp_ok own acc (ensureResponseCreated lib env s)" "responseCreatedEmitted (ensureResponseCreated lib env s)"
proof -
  obtain h s1 where h: "response_head env ''in_progress'' (s\<lparr>responseCreatedEmitted := True\<rparr>) = (h, s1)"
    by (cases "response_head env ''in_progress'' (s\<lparr>responseCreatedEmitted := True\<rparr>)")
  let ?b = "response_event ''response.created'' (h @ [(''output'', JArray [])])"
  let ?s = "emitEvent lib env ''response.created'' (Some ?b) s1"
  have q: "quiet (s\<lparr>responseCreatedEmitted := True\<rparr>) s1" using response_head_quiet[OF h] .
  have "resp_ok own acc ?s \<and> responseCreatedEmitted ?s" if n: "\<not> responseCreatedEmitted s"
  proof -
    have ix: "\<exists>ns. item_indexes (sb_out s) = map JInt ns \<and> sorted_wrt (<) ns \<and> (\<forall>n \<in> set ns. n < outputIndex s1)"
    proof -
      obtain ns where ns: "item_indexes (sb_out s) = map JInt ns" "sorted_wrt (<) ns" "\<forall>n \<in> set ns. n < outputIndex s"
        using ok unfolding resp_ok_def by blast
      moreover have "outputIndex s \<le> outputIndex s1" using q by (simp add: quiet_def)
      ultimately show ?thesis by (intro exI[of _ ns]) auto
    qed
    show ?thesis
    proof (rule emitEvent_cases[of s1 lib env "''response.created''" "Some ?b"])
      fix w assume w: "writeErr s1 = None"
        and e: "?s = s1\<lparr>sb_world := w, sequenceNumber := (if Some ?b = None then sequenceNumber s1 else sequenceNumber s1 + 1),
           sb_out := sb_out s1 @ [WEvent ''response.created''
             (map_option (AList.update ''sequence_number'' (JInt (sequenceNumber s1))) (Some ?b))]\<rparr>"
      have sel: "sb_bills s1 = sb_bills s" "sb_posts s1 = sb_posts s" "headersWritten s1 = headersWritten s" "sb_out s1 = sb_out s"
        "usageTotals s1 = usageTotals s" "aggregatedUsage s1 = aggregatedUsage s" "turns_read s1 = turns_read s"
        "responseCreatedEmitted s1" "writeErr s = None" "sequenceNumber s1 = sequenceNumber s"
        using q w by (simp_all add: quiet_def)
      have "sequenceNumber s = int (length (numbered (sb_out s)))" "named ''response.created'' (sb_out s) = []"
        using ok n sel(9) by (simp_all add: resp_ok_def)
      then show ?thesis
        using ok ix w unfolding e resp_ok_def
        by (simp add: sel numbered_append sequence_ok_append item_indexes_def)
    next
      assume "writeErr s1 \<noteq> None" "?s = s1"
      then show ?thesis using resp_ok_dead[OF ok q] q by (simp add: quiet_def)
    next
      fix w k err assume e: "?s = s1\<lparr>sb_world := w, sequenceNumber := k, writeErr := Some err\<rparr>"
      then show ?thesis using resp_ok_dead[OF ok quiet_trans[OF q quiet_failed]] q by (simp add: quiet_def)
    qed
  qed
  then show "resp_ok own acc (ensureResponseCreated lib env s)" "responseCreatedEmitted (ensureResponseCreated lib env s)"
    using ok h by (auto simp: ensureResponseCreated_def)
qed

lemma clone_object:
  assumes "clone_value fmt (JObject m) = Some v"
  shows "\<exists>f. v = JObject (map (\<lambda>(k, x). (k, f x)) m) \<and> (\<forall>p \<in> set m. clone_value fmt (snd p) = Some (f (snd p)))"
proof -
  let ?f = "\<lambda>x. the (clone_value fmt x)"
  have n: "\<forall>p \<in> set m. clone_value fmt (snd p) \<noteq> None"
    using assms by (force simp: clone_value.simps[of fmt "JObject m"] all_some_def split: if_splits)
  have "v = JObject (zip (map fst m) (map (\<lambda>p. ?f (snd p)) m))"
    using assms by (auto simp: clone_value.simps[of fmt "JObject m"] all_some_def o_def split: if_splits)
  moreover have "zip (map fst m) (map (\<lambda>p. ?f (snd p)) m) = map (\<lambda>(k, x). (k, ?f x)) m"
    by (induction m) auto
  ultimately show ?thesis using n by (intro exI[of _ ?f]) auto
qed

lemma clone_field:
  assumes "clone_value fmt (JObject m) = Some (JObject m')"
  shows "field m' k = field m k \<and> field m k = JNull \<or> clone_value fmt (field m k) = Some (field m' k)"
proof -
  obtain f where f: "m' = map (\<lambda>(k, x). (k, f x)) m" "\<forall>p \<in> set m. clone_value fmt (snd p) = Some (f (snd p))"
    using clone_object[OF assms] by auto
  have "map_of m' k = map_option f (map_of m k)" by (simp add: f(1) map_of_map)
  moreover have "clone_value fmt a = Some (f a)" if "map_of m k = Some a" for a
    using f(2) map_of_SomeD[OF that] by force
  ultimately show ?thesis by (cases "map_of m k") (simp_all add: field_def)
qed

lemma clone_string: "clone_value fmt v = Some v' \<Longrightarrow> as_string v' = as_string v"
  using clone_value.simps[of fmt v] by (cases v) (auto simp: map_option_case split: option.splits)

lemma clone_string_field:
  "clone_value fmt (JObject m) = Some (JObject m') \<Longrightarrow> string_field m' k = string_field m k"
  using clone_field[of fmt m m' k] clone_string[of fmt "field m k"] by (auto simp: string_field_def)

lemma clone_as_object:
  "clone_value fmt v = Some v' \<Longrightarrow>
   (case as_object v of None \<Rightarrow> as_object v' = None
    | Some m \<Rightarrow> \<exists>m'. as_object v' = Some m' \<and> clone_value fmt (JObject m) = Some (JObject m'))"
  using clone_value.simps[of fmt v] by (cases v) (auto simp: map_option_case split: option.splits)

lemma owned_cong:
  "(\<And>k. k \<in> {''type'', ''name''} \<Longrightarrow> string_field m' k = string_field m k) \<Longrightarrow>
   isRouterOwnedToolItem own (Some m') = isRouterOwnedToolItem own (Some m)"
  by (simp add: isRouterOwnedToolItem_def)

lemma clone_shows_owned:
  assumes "clone_event fmt (Some m) = Some m'"
  shows "shows_owned own m' = shows_owned own m"
proof -
  have c: "clone_value fmt (JObject m) = Some (JObject m')"
    using assms by (auto simp: clone_event_def split: option.splits json.splits)
  show ?thesis
  proof (cases "as_object (field m ''item'')")
    case None
    then have "as_object (field m' ''item'') = None"
      using clone_field[OF c, of "''item''"] clone_as_object[of fmt "field m ''item''"] by auto
    then show ?thesis using None by (simp add: shows_owned_def)
  next
    case (Some i)
    then obtain i' where i: "as_object (field m' ''item'') = Some i'" "clone_value fmt (JObject i) = Some (JObject i')"
      using clone_field[OF c, of "''item''"] clone_as_object[of fmt "field m ''item''"] by fastforce
    then show ?thesis using Some owned_cong[of i' i own] clone_string_field[OF i(2)] by (simp add: shows_owned_def)
  qed
qed

lemma send_indexed_ok:
  assumes "resp_ok own acc s" "send_indexed lib env t event k s = Some s'" "\<not> marker_type t"
    "t = ''response.output_item.done'' \<Longrightarrow> \<not> shows_owned own (args_of event)"
  shows "resp_ok own acc s'"
proof -
  obtain p where p: "clone_event (ll_fmt lib) event = Some p"
    and s': "s' = emitEvent lib env t (Some (AList.update ''output_index'' (JInt k) p)) s"
    using assms(2) by (auto simp: send_indexed_def)
  obtain m where m: "event = Some m" using p by (cases event) (auto simp: clone_event_def)
  have "shows_owned own p = shows_owned own m" using clone_shows_owned p m by blast
  then show ?thesis
    unfolding s' using assms m by (intro emit_ok) (auto simp: args_of_def shows_owned_def)
qed

lemma assign_quiet: "assign_index u s = (k, s') \<Longrightarrow> quiet s s' \<and> k = outputIndex s \<and> outputIndex s' = outputIndex s + 1"
  by (auto simp: assign_index_def quiet_def)

lemma client_index_quiet: "client_index u s = (k, s') \<Longrightarrow> quiet s s'"
  by (auto simp: client_index_def assign_index_def quiet_def split: option.splits)

lemma added_ok:
  assumes ok: "resp_ok own acc s" and "handleOutputItemAdded lib env own event s = Some s'"
  shows "resp_ok own acc s'"
proof (cases "isRouterOwnedToolItem own (as_object (field (args_of event) ''item''))")
  case True
  then have "quiet s s'" using assms(2) by (auto simp: handleOutputItemAdded_def Let_def quiet_def)
  then show ?thesis using ok by (rule resp_ok_quiet)
next
  case False
  obtain k s1 where k: "assign_index (upstream_index event) s = (k, s1)" by (cases "assign_index (upstream_index event) s")
  then obtain p where p: "clone_event (ll_fmt lib) event = Some p"
    and s': "s' = emitEvent lib env ''response.output_item.added'' (Some (AList.update ''output_index'' (JInt k) p)) s1"
    using assms(2) False by (auto simp: handleOutputItemAdded_def Let_def send_indexed_def)
  obtain m where m: "event = Some m" using p by (cases event) (auto simp: clone_event_def)
  have "shows_owned own p = shows_owned own m" using clone_shows_owned p m by blast
  then have "\<not> shows_owned own p" using False m by (simp add: shows_owned_def args_of_def)
  then show ?thesis
    unfolding s' using assign_quiet[OF k] by (intro emit_added_ok[OF ok]) (auto simp: shows_owned_def)
qed

lemma client_item_owned:
  "isRouterOwnedToolItem own (map_option (client_item_arguments buf) item) = isRouterOwnedToolItem own item"
  by (cases item) (simp_all add: isRouterOwnedToolItem_def client_item_arguments_def string_field_def split: option.splits)

lemma done_ok:
  assumes ok: "resp_ok own acc s" and d: "handleOutputItemDone lib env own event (result, s) = Some (result', s')"
  shows "resp_ok own acc s'"
proof -
  let ?item = "as_object (field (args_of event) ''item'')"
  let ?u = "upstream_index event"
  consider (router) "isRouterOwnedToolItem own ?item"
    | (hidden) "\<not> isRouterOwnedToolItem own ?item" "?u \<in> set (suppressedItems s)"
    | (client) "\<not> isRouterOwnedToolItem own ?item" "?u \<notin> set (suppressedItems s)" by blast
  then show ?thesis
  proof cases
    case router
    then have "quiet s s'" using d
      by (auto simp: handleOutputItemDone_def Let_def router_item_done_def quiet_def split: prod.splits)
    then show ?thesis using ok by (rule resp_ok_quiet)
  next
    case hidden
    then show ?thesis using ok d by (auto simp: handleOutputItemDone_def Let_def)
  next
    case client
    define item1 where "item1 = map_option (client_item_arguments (map_of (functionCallArguments s) ?u)) ?item"
    define event1 where "event1 = (case item1 of None \<Rightarrow> event | Some m \<Rightarrow> map_option (AList.update ''item'' (JObject m)) event)"
    define s1 where "s1 = (if is_tool_type (string_field (args_of ?item) ''type'')
      then s\<lparr>functionCallArguments := AList.delete ?u (functionCallArguments s)\<rparr> else s)"
    obtain k s2 where k: "client_index ?u s1 = (k, s2)" by (cases "client_index ?u s1")
    obtain s3 v where s3: "send_indexed lib env ''response.output_item.done'' event1 k s2 = Some s3"
      and s': "s' = s3\<lparr>finalOutput := finalOutput s3 @ [v]\<rparr>"
      using d client k unfolding handleOutputItemDone_def client_item_done_def Let_def prod.case
        item1_def[symmetric] event1_def[symmetric] s1_def[symmetric] by (auto split: if_splits)
    have "\<not> shows_owned own (args_of event1)"
    proof (cases event)
      case None
      then show ?thesis by (simp add: event1_def args_of_def shows_owned_def isRouterOwnedToolItem_def field_def split: option.splits)
    next
      case (Some m)
      have "\<not> isRouterOwnedToolItem own item1" using client(1) client_item_owned by (simp add: item1_def)
      then show ?thesis
        using client(1) Some by (auto simp: event1_def item1_def args_of_def shows_owned_def split: option.splits)
    qed
    moreover have "quiet s s2" using client_index_quiet[OF k] by (auto simp: s1_def quiet_def split: if_splits)
    ultimately have "resp_ok own acc s3"
      using send_indexed_ok[OF resp_ok_quiet[OF _ ok] s3] by (simp add: marker_type_def)
    moreover have "quiet s3 s'" by (simp add: s' quiet_def)
    ultimately show ?thesis using resp_ok_quiet by blast
  qed
qed

lemma send_text_ok:
  assumes "resp_ok own acc s"
  shows "resp_ok own acc (send_text lib env k key chunk annotations s)"
proof -
  have f: "resp_ok own acc s \<Longrightarrow> resp_ok own acc (emitAnnotationEvents lib env as k key s)" for as s
  proof (induction as arbitrary: s)
    case (Cons a as)
    have "resp_ok own acc (s\<lparr>annotationCounts := c\<rparr>)" for c by (rule resp_ok_quiet[OF _ Cons.prems]) (simp add: quiet_def)
    then have "resp_ok own acc (emitEvent lib env ''response.output_text.annotation.added'' body (s\<lparr>annotationCounts := c\<rparr>))" for body c
      by (rule emit_ok) (simp_all add: marker_type_def)
    then show ?case using Cons.IH by (simp add: emitAnnotationEvents_def)
  qed (simp add: emitAnnotationEvents_def)
  have "resp_ok own acc (emitEvent lib env ''response.output_text.delta'' body s)" for body
    using assms by (rule emit_ok) (simp_all add: marker_type_def)
  then show ?thesis using assms f by (simp add: send_text_def)
qed

lemma text_delta_ok: "resp_ok own acc s \<Longrightarrow> resp_ok own acc (handleOutputTextDelta lib env event s)"
proof -
  assume ok: "resp_ok own acc s"
  obtain k s1 where k: "client_index (upstream_index event) s = (k, s1)" by (cases "client_index (upstream_index event) s")
  have "quiet s (s1\<lparr>text_emitters := e\<rparr>)" for e using client_index_quiet[OF k] by (simp add: quiet_def)
  then have "resp_ok own acc (send_text lib env k key c a (s1\<lparr>text_emitters := e\<rparr>))" for key c a e
    using ok resp_ok_quiet by (intro send_text_ok) blast
  then show ?thesis using ok k by (auto simp: handleOutputTextDelta_def Let_def split: prod.splits)
qed

lemma flush_text_ok: "resp_ok own acc s \<Longrightarrow> resp_ok own acc (flush_text lib env k key s)"
proof -
  assume ok: "resp_ok own acc s"
  have "quiet t (t\<lparr>text_emitters := e\<rparr>)" for t :: "'a responsesStreamer" and e by (simp add: quiet_def)
  then have "resp_ok own acc ((send_text lib env k key c a s)\<lparr>text_emitters := e\<rparr>)" for c a e
    using resp_ok_quiet send_text_ok[OF ok] by blast
  then show ?thesis using ok by (auto simp: flush_text_def Let_def split: option.splits prod.splits)
qed

lemma text_done_ok: "resp_ok own acc s \<Longrightarrow> handleOutputTextDone lib env event s = Some s' \<Longrightarrow> resp_ok own acc s'"
proof -
  assume ok: "resp_ok own acc s" and d: "handleOutputTextDone lib env event s = Some s'"
  obtain k s1 where k: "client_index (upstream_index event) s = (k, s1)" by (cases "client_index (upstream_index event) s")
  have "resp_ok own acc s1" using resp_ok_quiet[OF client_index_quiet[OF k] ok] .
  then have f: "resp_ok own acc (flush_text lib env k (text_key event) s1)" by (rule flush_text_ok)
  have "resp_ok own acc s'" if "send_indexed lib env ''response.output_text.done'' event k (flush_text lib env k (text_key event) s1) = Some s'"
    by (rule send_indexed_ok[OF f that]) (simp_all add: marker_type_def)
  then show ?thesis using ok d k by (auto simp: handleOutputTextDone_def Let_def split: if_splits)
qed

lemma forward_ok:
  assumes "resp_ok own acc s" "forwardEvent lib env t event s = Some s'" "\<not> marker_type t" "t \<noteq> ''response.output_item.done''"
  shows "resp_ok own acc s'"
proof -
  have "resp_ok own acc (emitEvent lib env t event s)" using assms by (intro emit_ok) auto
  moreover have "resp_ok own acc s'" if "send_indexed lib env t event k s = Some s'" for k
    by (rule send_indexed_ok[OF assms(1) that assms(3)]) (use assms(4) in simp)
  ultimately show ?thesis using assms(1,2) by (auto simp: forwardEvent_def Let_def split: option.splits if_splits)
qed

lemma if_elim: "(if c then x else y) = z \<Longrightarrow> (c \<Longrightarrow> x = z \<Longrightarrow> P) \<Longrightarrow> (\<not> c \<Longrightarrow> y = z \<Longrightarrow> P) \<Longrightarrow> P"
  by (cases c) simp_all

lemma on_event_ok:
  assumes ok: "resp_ok own acc s" and e: "on_event lib env own isFirst t event (result, s) = (oc, result', s')"
    and t: "t \<notin> {''response.completed'', ''response.failed'', ''response.incomplete''}"
  shows "resp_ok own acc s'"
proof -
  have "quiet s (handleFunctionCallArgumentsDelta event s)"
    by (simp add: handleFunctionCallArgumentsDelta_def quiet_def Let_def)
  then have q: "resp_ok own acc (handleFunctionCallArgumentsDelta event s)" using ok by (rule resp_ok_quiet)
  have f: "resp_ok own acc s'" if "stepped result t1 (forwardEvent lib env t event t1) = (oc, result', s')" "resp_ok own acc t1"
    "\<not> marker_type t" "t \<noteq> ''response.output_item.done''" for t1
    using that forward_ok[OF that(2) _ that(3,4)] by (auto simp: stepped_def split: option.splits)
  have g: "resp_ok own acc s'" if "stepped result s x = (oc, result', s')" "\<And>y. x = Some y \<Longrightarrow> resp_ok own acc y" for x
    using that ok by (auto simp: stepped_def split: option.splits)
  have i: "resp_ok own acc s'" if "(case handleOutputItemDone lib env own event (result, s) of None \<Rightarrow> (EvPanic, result, s) | Some st' \<Rightarrow> (EvNext, st')) = (oc, result', s')"
    using that ok done_ok[OF ok] by (auto split: option.splits)
  from e show ?thesis
    unfolding on_event_def prod.case Let_def
  proof (elim if_elim, goal_cases)
    case 1
    then show ?case using ok created_ok(1)[OF ok] by (auto split: if_splits)
  next
    case 3
    then show ?case using added_ok[OF ok] by (intro g)
  next
    case 5
    then show ?case using text_delta_ok[OF ok] by auto
  next
    case 6
    then show ?case using text_done_ok[OF ok] by (intro g)
  next
    case 7
    then show ?case using q by auto
  next
    case 8
    then show ?case using f[OF _ q] by (simp add: marker_type_def)
  next
    case 10
    then show ?case using f[OF _ ok] by (simp add: marker_type_def)
  next
    case 13
    then show ?case using f[OF _ ok] by (simp add: marker_type_def)
  next
    case 2
    then show ?case using ok by simp
  next
    case 4
    then show ?case by (intro i)
  next
    case 9
    then show ?case using ok by simp
  next
    case 11
    then show ?case using t by simp
  next
    case 12
    then show ?case using t by simp
  qed
qed

lemma on_event_terminal:
  assumes "t \<in> {''response.completed'', ''response.failed'', ''response.incomplete''}"
    "on_event lib env own isFirst t event st = (oc, st')"
  shows "st' = note_turn_usage lib (terminal_usage (t, args_of event)) st"
  using assms by (cases st) (auto simp: on_event_def terminal_usage_def)

text \<open>An event is booked with the usage it reports, and the turn remembers the last one.\<close>

definition turn_usage_ok :: "responsesIterationResult \<Rightarrow> 'w responsesStreamer \<Rightarrow> bool" where
  "turn_usage_ok result s \<longleftrightarrow> rr_usage result = JNull \<or> rr_usage result = aggregatedUsage s"

lemma done_result:
  "handleOutputItemDone lib env own event (result, s) = Some (result', s') \<Longrightarrow>
   rr_read result' = rr_read result \<and> rr_usage result' = rr_usage result"
  by (auto simp: handleOutputItemDone_def router_item_done_def client_item_done_def Let_def
      split: if_splits prod.splits)

lemma stepped_result: "stepped result s x = (oc, result', s') \<Longrightarrow> result' = result"
  by (auto simp: stepped_def split: option.splits)

lemma on_event_result:
  assumes "on_event lib env own isFirst t event (result, s) = (oc, result', s')"
  shows "rr_read result' = rr_read result
    \<and> (t \<notin> {''response.completed'', ''response.failed'', ''response.incomplete''} \<longrightarrow> rr_usage result' = rr_usage result)"
proof -
  have d: "rr_read result' = rr_read result \<and> rr_usage result' = rr_usage result"
    if "(case handleOutputItemDone lib env own event (result, s) of None \<Rightarrow> (EvPanic, result, s) | Some st' \<Rightarrow> (EvNext, st')) = (oc, result', s')"
    using that by (cases "handleOutputItemDone lib env own event (result, s)") (auto dest: done_result)
  have u: "rr_read result' = rr_read result" if "note_turn_usage lib u (result, s) = (result', s')" for u
    using that by (auto simp: note_turn_usage_def split: if_splits)
  show ?thesis
    using assms unfolding on_event_def prod.case Let_def
    by (elim if_elim) (use d in \<open>auto dest!: stepped_result u\<close>)
qed

lemma on_event_booked:
  assumes ok: "resp_ok own (booked lib acc old new) s" "turn_usage_ok result s"
    and e: "on_event lib env own isFirst t event (result, s) = (oc, result', s')"
  shows "resp_ok own (booked lib acc old (new @ [(t, args_of event)])) s' \<and> turn_usage_ok result' s'"
proof (cases "t \<in> {''response.completed'', ''response.failed'', ''response.incomplete''}")
  case True
  let ?u = "terminal_usage (t, args_of event)"
  obtain bills posts hw where acc: "acc = (bills, posts, hw)" by (cases acc)
  have s': "(result', s') = note_turn_usage lib ?u (result, s)" using on_event_terminal[OF True e] .
  show ?thesis
  proof (cases "?u = JNull")
    case True
    then show ?thesis using s' ok by (simp add: note_turn_usage_def booked_silent)
  next
    case False
    have "usageTotals s = usage_total lib (map terminal_usage (concat old @ new))"
      using ok(1) by (simp add: resp_ok_def booked_def acc)
    from usage_total_add[of "s\<lparr>aggregatedUsage := ?u\<rparr>", OF _, of lib "map terminal_usage (concat old @ new)" ?u] this
    have "usageTotals s' = usage_total lib (map terminal_usage (concat old @ new @ [(t, args_of event)]))"
      using s' False by (simp add: note_turn_usage_def)
    moreover have "last_reported (map terminal_usage (concat old @ new @ [(t, args_of event)])) = ?u"
      using last_reported_simps(2)[of "map terminal_usage (concat old @ new)" ?u] False by simp
    ultimately show ?thesis
      using s' ok False by (simp add: note_turn_usage_def booked_def acc resp_ok_def turn_usage_ok_def add_usage_def)
  qed
next
  case False
  then have "terminal_usage (t, args_of event) = JNull" by (simp add: terminal_usage_def)
  moreover have "resp_ok own (booked lib acc old new) s'" using on_event_ok[OF ok(1) e False] .
  moreover have "aggregatedUsage s' = aggregatedUsage s" using calculation(2) ok(1) by (auto simp: resp_ok_def booked_def split: prod.splits)
  moreover have "rr_usage result' = rr_usage result" using on_event_result[OF e] False by blast
  ultimately show ?thesis using ok(2) by (simp add: booked_silent turn_usage_ok_def)
qed

lemma event_loop_Nil:
  "event_loop lib env own isFirst [] ending seen (result, s) =
     (case writeErr s of
        Some err \<Rightarrow> (Some (Inl (OtherError err)), result, s)
      | None \<Rightarrow> (Some (case ending of None \<Rightarrow> Inr seen | Some e \<Rightarrow> Inl (OtherError e)), result, s))"
  by (simp add: event_loop.simps split: option.splits)

lemma event_loop_step:
  assumes "event_loop lib env own isFirst (frame # rest) ending seen (result, s) = (oc, result', s')"
  shows "(s' = s \<and> result' = result \<and> (\<exists>e. oc = Some (Inl e)))
     \<or> event_loop lib env own isFirst rest ending seen (result, s) = (oc, result', s')
     \<or> (\<exists>t event ev r1 s1. on_event lib env own isFirst t event (log_event t event result, captureIdentity (args_of event) s) = (ev, r1, s1)
          \<and> ((s' = s1 \<and> result' = r1 \<and> (oc = None \<or> (\<exists>e. oc = Some (Inl e))))
             \<or> (\<exists>seen'. event_loop lib env own isFirst rest ending seen' (r1, s1) = (oc, result', s'))))"
proof (cases "writeErr s \<noteq> None \<or> frame_data frame = [] \<or> frame_data frame = ''[DONE]'' \<or> ll_unmarshal lib (frame_data frame) = None")
  case True
  then show ?thesis
    using assms by (auto simp: event_loop.simps[of lib env own isFirst "frame # rest"] split: option.splits if_splits)
next
  case False
  then obtain event where u: "ll_unmarshal lib (frame_data frame) = Some event" by auto
  let ?t = "keep_or (string_field (args_of event) ''type'') (frame_event frame)"
  obtain ev r1 s1 where o: "on_event lib env own isFirst ?t event (log_event ?t event result, captureIdentity (args_of event) s) = (ev, r1, s1)"
    by (cases "on_event lib env own isFirst ?t event (log_event ?t event result, captureIdentity (args_of event) s)")
  have "(s' = s1 \<and> result' = r1 \<and> (oc = None \<or> (\<exists>e. oc = Some (Inl e))))
      \<or> (\<exists>seen'. event_loop lib env own isFirst rest ending seen' (r1, s1) = (oc, result', s'))"
    using assms False u o
    by (cases ev) (auto simp: event_loop.simps[of lib env own isFirst "frame # rest"] Let_def)
  then show ?thesis using o by blast
qed

lemma event_loop_ok:
  "resp_ok own (booked lib acc old (rr_read result)) s \<Longrightarrow> turn_usage_ok result s \<Longrightarrow>
   event_loop lib env own isFirst frames ending seen (result, s) = (oc, result', s') \<Longrightarrow>
   resp_ok own (booked lib acc old (rr_read result')) s' \<and> turn_usage_ok result' s' \<and> (\<forall>b. oc = Some (Inr b) \<longrightarrow> writeErr s' = None)"
proof (induction frames arbitrary: seen result s)
  case Nil
  then show ?case by (auto simp: event_loop_Nil split: option.splits)
next
  case (Cons frame frames)
  have ev: "resp_ok own (booked lib acc old (rr_read r1)) s1 \<and> turn_usage_ok r1 s1"
    if "on_event lib env own isFirst t event (log_event t event result, captureIdentity (args_of event) s) = (e, r1, s1)"
    for t event e r1 s1
  proof -
    have "resp_ok own (booked lib acc old (rr_read result)) (captureIdentity (args_of event) s)"
      by (rule resp_ok_quiet[OF captureIdentity_quiet Cons.prems(1)])
    moreover have "turn_usage_ok (log_event t event result) (captureIdentity (args_of event) s)"
      using Cons.prems(2) captureIdentity_quiet[of s "args_of event"] by (simp add: turn_usage_ok_def log_event_def quiet_def)
    ultimately show ?thesis
      using on_event_booked[OF _ _ that] on_event_result[OF that] by (simp add: log_event_def)
  qed
  show ?case
    using event_loop_step[OF Cons.prems(3)]
  proof (elim disjE exE conjE)
    assume "event_loop lib env own isFirst frames ending seen (result, s) = (oc, result', s')"
    then show ?thesis by (rule Cons.IH[OF Cons.prems(1,2)])
  next
    fix t event e r1 s1 seen'
    assume o: "on_event lib env own isFirst t event (log_event t event result, captureIdentity (args_of event) s) = (e, r1, s1)"
      and l: "event_loop lib env own isFirst frames ending seen' (r1, s1) = (oc, result', s')"
    show ?thesis using Cons.IH[OF _ _ l] ev[OF o] by blast
  qed (use Cons.prems(1,2) ev in simp_all)
qed

text \<open>The account of a stream between turns.\<close>

abbreviation ledger ::
  "loop_lib \<Rightarrow> Event list \<times> json_object list \<times> bool \<Rightarrow> (string \<times> json_object) list list \<Rightarrow> accounts" where
  "ledger lib acc read \<equiv> booked lib acc read []"

lemma runIteration_ok:
  assumes ok: "resp_ok own (ledger lib (bills, posts, hw) old) s" and r: "resp_runIteration lib env own isFirst req hdr s = (res, s')"
  shows "\<exists>hw' read. resp_ok own (ledger lib (bills, posts @ [req], hw') read) s'
     \<and> (\<forall>x. res = Some (Inr x) \<longrightarrow> hw' \<and> writeErr s' = None \<and> turn_usage_ok x s')"
proof -
  obtain o1 s1 where o: "openUpstreamSSE env ''/v1/responses'' req hdr s = (o1, s1)"
    by (cases "openUpstreamSSE env ''/v1/responses'' req hdr s")
  let ?s = "(resetPerIterationState s1)\<lparr>functionCallArguments := []\<rparr>"
  have sel: "sb_out s1 = sb_out s" "writeErr s1 = writeErr s" "sb_bills s1 = sb_bills s" "sb_posts s1 = sb_posts s @ [req]"
    "sequenceNumber s1 = sequenceNumber s" "responseCreatedEmitted s1 = responseCreatedEmitted s" "outputIndex s1 = outputIndex s"
    "usageTotals s1 = usageTotals s" "aggregatedUsage s1 = aggregatedUsage s" "turns_read s1 = turns_read s"
    "headersWritten s1 = (headersWritten s \<or> (\<exists>r. o1 = Inr r))"
    using o by (auto simp: openUpstreamSSE_def writeSSEHeaders_def Let_def split: sum.splits prod.splits if_splits)
  have ok1: "resp_ok own (ledger lib (bills, posts @ [req], headersWritten s1) old) s1"
    using ok unfolding resp_ok_def by (simp add: sel booked_def)
  show ?thesis
  proof (cases o1)
    case (Inl e)
    then show ?thesis using r o ok1 by (auto simp: resp_runIteration_def)
  next
    case (Inr reader)
    obtain frames ending where rd: "read_all reader = (frames, ending)" by (cases "read_all reader")
    obtain oc r' s2 where p: "event_loop lib env own isFirst frames ending False (empty_turn, ?s) = (oc, r', s2)"
      and s': "s' = s2\<lparr>turns_read := turns_read s2 @ [rr_read r']\<rparr>"
      and res: "res = map_option (\<lambda>o1. case o1 of Inl err \<Rightarrow> Inl err
          | Inr terminalSeen \<Rightarrow> if terminalSeen then Inr r' else Inl (newUpstreamStreamError (ll_encode lib))) oc"
      using r o Inr rd by (auto simp: resp_runIteration_def resp_pumpUpstream_def split: prod.splits)
    have hw: "headersWritten s1" using sel(11) Inr by blast
    have "quiet s1 ?s" by (simp add: quiet_def resetPerIterationState_def)
    then have "resp_ok own (booked lib (bills, posts @ [req], True) old (rr_read empty_turn)) ?s"
      using ok1 hw resp_ok_quiet by (simp add: empty_turn_def)
    from event_loop_ok[OF this _ p]
    have l: "resp_ok own (booked lib (bills, posts @ [req], True) old (rr_read r')) s2" "turn_usage_ok r' s2"
      "\<And>b. oc = Some (Inr b) \<Longrightarrow> writeErr s2 = None"
      by (simp_all add: turn_usage_ok_def empty_turn_def)
    have "resp_ok own (ledger lib (bills, posts @ [req], True) (old @ [rr_read r'])) s'"
      using l(1) by (simp add: s' resp_ok_def booked_def)
    moreover have "x = r' \<and> (\<exists>b. oc = Some (Inr b))" if "res = Some (Inr x)" for x
      using that res by (cases oc) (auto split: sum.splits if_splits)
    ultimately show ?thesis using l by (intro exI[of _ True] exI[of _ "old @ [rr_read r']"]) (auto simp: s' turn_usage_ok_def)
  qed
qed

interpretation responses_surface: progress_surface lib env "responsesToolProgressEmitter lib env conf" "resp_ok own acc"
  for lib env conf own acc
proof
  fix s :: "'b responsesStreamer"
  assume ok: "resp_ok own acc s"
  show "resp_ok own acc s'" if "pe_open (responsesToolProgressEmitter lib env conf) i d s = (h, s')" for i d h s'
  proof -
    let ?b = "[(''type'', JString ''response.output_item.added''), (''output_index'', JInt (outputIndex s)),
               (''item'', JObject [(''id'', JString i), (''type'', JString ''web_search_call''), (''status'', JString ''in_progress''),
                                   (''action'', JObject d)])]"
    have "s' = emitEvent lib env ''response.output_item.added'' (Some ?b) (s\<lparr>outputIndex := outputIndex s + 1\<rparr>)"
      using that by (simp add: responsesToolProgressEmitter_def openWebSearchCallItem_def)
    then show ?thesis
      by (auto intro!: emit_added_ok[OF ok] simp: field_def shows_owned_def isRouterOwnedToolItem_def is_tool_type_def string_field_def quiet_def)
  qed
  show "resp_ok own acc (pe_phase (responsesToolProgressEmitter lib env conf) h ph s)" if "phase_name ph" for h ph
    using that ok unfolding responsesToolProgressEmitter_def emitToolCallPhase_def
    by (auto intro!: emit_ok simp: marker_type_def phase_name_def)
  show "resp_ok own acc (pe_close (responsesToolProgressEmitter lib env conf) h n d res status reason s)" for h n d res status reason
    using ok unfolding responsesToolProgressEmitter_def closeWebSearchCallItem_def
    by (auto intro!: emit_ok simp: marker_type_def shows_owned_def args_of_def field_def webSearchCallEvent_def isRouterOwnedToolItem_def
        is_tool_type_def string_field_def)
  show "resp_ok own acc (s\<lparr>sb_world := w\<rparr>)" for w by (rule resp_ok_quiet[OF _ ok]) (simp add: quiet_def)
  show "resp_ok own acc (s\<lparr>sb_tools := t\<rparr>)" for t by (rule resp_ok_quiet[OF _ ok]) (simp add: quiet_def)
  show "resp_ok own acc (s\<lparr>sb_uuids := k\<rparr>)" for k by (rule resp_ok_quiet[OF _ ok]) (simp add: quiet_def)
qed

section \<open>How a stream ends\<close>

definition terminal_type :: "string \<Rightarrow> bool" where
  "terminal_type t \<longleftrightarrow> t = ''response.completed'' \<or> t = ''response.failed''"

text \<open>One opening event, then one terminal event, which is the last frame.\<close>

definition closed_trace :: "client_write list \<Rightarrow> bool" where
  "closed_trace out \<longleftrightarrow>
     (\<exists>pre t b. out = pre @ [WEvent t (Some b)] \<and> terminal_type t \<and> length (named ''response.created'' pre) = 1
        \<and> named ''response.completed'' pre = [] \<and> named ''response.failed'' pre = [])"

definition accounts_of :: "'w responsesStreamer \<Rightarrow> accounts" where
  "accounts_of s = (sb_bills s, sb_posts s, headersWritten s, usageTotals s, aggregatedUsage s, turns_read s)"

lemma emit_terminal:
  assumes ok: "resp_ok own acc s" "responseCreatedEmitted s" and t: "terminal_type t"
  shows "trace_ok own (sb_out (emitEvent lib env t (Some b) s))"
    and "writeErr (emitEvent lib env t (Some b) s) = None \<Longrightarrow> closed_trace (sb_out (emitEvent lib env t (Some b) s))"
    and "accounts_of (emitEvent lib env t (Some b) s) = acc"
proof -
  let ?s = "emitEvent lib env t (Some b) s"
  have acc: "accounts_of s = acc" using ok(1) by (simp add: resp_ok_def accounts_of_def)
  have "trace_ok own (sb_out ?s) \<and> (writeErr ?s = None \<longrightarrow> closed_trace (sb_out ?s))
      \<and> accounts_of ?s = acc"
  proof (rule emitEvent_cases[of s lib env t "Some b"])
    fix w assume w: "writeErr s = None"
      and e: "?s = s\<lparr>sb_world := w, sequenceNumber := (if Some b = None then sequenceNumber s else sequenceNumber s + 1),
           sb_out := sb_out s @ [WEvent t (map_option (AList.update ''sequence_number'' (JInt (sequenceNumber s))) (Some b))]\<rparr>"
    have n: "sequenceNumber s = int (length (numbered (sb_out s)))" "length (named ''response.created'' (sb_out s)) = 1"
      "named ''response.completed'' (sb_out s) = []" "named ''response.failed'' (sb_out s) = []" "sequence_ok (sb_out s)"
      using ok w by (auto simp: resp_ok_def le_Suc_eq)
    have d: "t \<noteq> ''response.created''" "t \<noteq> ''response.output_item.added''" "t \<noteq> ''response.output_item.done''"
      using t by (auto simp: terminal_type_def)
    have "trace_ok own (sb_out ?s)"
      using resp_ok_trace[OF ok(1)] n d unfolding e trace_ok_def by (simp add: item_indexes_def sequence_ok_append)
    moreover have "closed_trace (sb_out ?s)"
      using n t unfolding e closed_trace_def by auto
    moreover have "accounts_of ?s = acc"
      using acc unfolding e by (simp add: accounts_of_def)
    ultimately show ?thesis by blast
  qed (use acc resp_ok_trace[OF ok(1)] in \<open>auto simp: accounts_of_def\<close>)
  then show "trace_ok own (sb_out ?s)" "writeErr ?s = None \<Longrightarrow> closed_trace (sb_out ?s)"
    "accounts_of ?s = acc" by blast+
qed

text \<open>
  The usages the terminal events of all turns reported, and the usage object the stream is billed with: their sum,
  or the last one when they add up to nothing.
\<close>

definition stream_usages :: "'w responsesStreamer \<Rightarrow> json list" where
  "stream_usages s = map terminal_usage (concat (turns_read s))"

definition billing_usage :: "loop_lib \<Rightarrow> json list \<Rightarrow> json" where
  "billing_usage lib us =
     (case acc_Usage (usage_total lib us) of Some totals \<Rightarrow> JObject (responsesUsageMap totals) | None \<Rightarrow> last_reported us)"

text \<open>A decoder that reads the Responses names of the counts, as the usage type's JSON tags have them.\<close>

definition decodes_responses :: "(json \<Rightarrow> Usage option) \<Rightarrow> bool" where
  "decodes_responses decode \<longleftrightarrow>
     (\<forall>u. \<exists>d. decode (JObject (responsesUsageMap u)) = Some d \<and> InputTokens d = PromptTokens u
        \<and> OutputTokens d = CompletionTokens u \<and> TotalTokens d = TotalTokens u \<and> PromptTokens d = 0 \<and> CompletionTokens d = 0)"

text \<open>Sums that are not all zero and that have not overflowed.\<close>

definition counted :: "usageAccumulator \<Rightarrow> bool" where
  "counted a \<longleftrightarrow> acc_Usage a \<noteq> None \<and> 0 \<le> promptTokens a \<and> 0 \<le> completionTokens a"

definition resp_closed ::
  "loop_lib \<Rightarrow> ('s, 'w) stream_env \<Rightarrow> tool_request \<Rightarrow> string \<Rightarrow> runtime_error option \<Rightarrow> 'w responsesStreamer \<Rightarrow> bool" where
  "resp_closed lib env r m e s \<longleftrightarrow>
     (if headersWritten s
      then (\<exists>t. sb_bills s = sb_bills (bill_stream lib (env\<lparr>se_time := \<lambda>_. t\<rparr>) r m (billing_usage lib (stream_usages s)) (s\<lparr>sb_bills := []\<rparr>)))
           \<and> (decodes_responses (ll_usage lib) \<and> counted (usage_total lib (stream_usages s)) \<longrightarrow>
                list_all (tokens_billed lib (stream_usages s)) (sb_bills s))
           \<and> e = map_option (\<lambda>x. StreamAbortedError (OtherError x)) (writeErr s)
           \<and> (writeErr s = None \<longrightarrow> closed_trace (sb_out s))
      else e \<noteq> None \<and> sb_bills s = [])"

lemma billing_tokens:
  assumes "decodes_responses (ll_usage lib)" "counted (usage_total lib us)"
    "ev \<in> set (emitBillingEvent (ll_usage lib) t r (Some \<lparr>rs_body = Some [(''usage'', billing_usage lib us)], rs_header = h, rs_status = 0\<rparr>) m True)"
  shows "tokens_billed lib us ev"
proof -
  let ?acc = "usage_total lib us"
  obtain totals where a: "acc_Usage ?acc = Some totals" "0 \<le> promptTokens ?acc" "0 \<le> completionTokens ?acc"
    using assms(2) by (auto simp: counted_def)
  from assms(1) obtain d where d: "ll_usage lib (JObject (responsesUsageMap totals)) = Some d" "InputTokens d = PromptTokens totals"
    "OutputTokens d = CompletionTokens totals" "TotalTokens d = TotalTokens totals" "PromptTokens d = 0" "CompletionTokens d = 0"
    unfolding decodes_responses_def by blast
  have t: "PromptTokens totals = promptTokens ?acc" "CompletionTokens totals = completionTokens ?acc"
    "\<not> (promptTokens ?acc = 0 \<and> completionTokens ?acc = 0 \<and> totalTokens ?acc = 0)"
    "TotalTokens totals = (if totalTokens ?acc = 0 then wrap64 (promptTokens ?acc + completionTokens ?acc) else totalTokens ?acc)"
    using a(1) by (auto simp: acc_Usage_def Let_def split: if_splits)
  have "\<exists>d. usageFromRaw (ll_usage lib) (JObject (responsesUsageMap totals)) = Some d \<and> PromptTokens d = promptTokens ?acc
      \<and> CompletionTokens d = completionTokens ?acc"
    using d t a(2,3) by (auto simp: usageFromRaw_def Normalize_def Let_def split: if_splits)
  then show ?thesis
    using a(1) assms(3) by (auto simp: emitBillingEvent_def tokens_billed_def billing_usage_def args_of_def field_def Let_def split: if_splits)
qed

lemma bill_closed:
  assumes "sb_bills s = []" "headersWritten s" "writeErr s = None \<Longrightarrow> closed_trace (sb_out s)" "u = billing_usage lib (stream_usages s)"
  shows "resp_closed lib env r m (stream_end s) (bill_stream lib env r m u s)"
proof -
  let ?b = "bill_stream lib env r m u s"
  have us: "stream_usages ?b = stream_usages s" by (simp add: stream_usages_def bill_stream_def)
  have "sb_bills ?b = sb_bills (bill_stream lib (env\<lparr>se_time := \<lambda>_. se_time env (sb_world s)\<rparr>) r m u (?b\<lparr>sb_bills := []\<rparr>))"
    using assms(1) by (simp add: bill_stream_def)
  moreover have "list_all (tokens_billed lib (stream_usages s)) (sb_bills ?b)"
    if "decodes_responses (ll_usage lib)" "counted (usage_total lib (stream_usages s))"
    using billing_tokens[OF that] assms(1,4) by (auto simp: bill_stream_def list_all_iff)
  ultimately show ?thesis
    using assms unfolding resp_closed_def us by (auto simp: stream_end_eq bill_stream_def)
qed

text \<open>Both ways to end a stream compute that usage object.\<close>

lemma booked_usage:
  assumes "accounts_of s = ledger lib (bills, posts, hw) read"
  shows "totalsBillingUsage s = billing_usage lib (stream_usages s)"
    and "turn_usage_ok result s \<Longrightarrow> closing_usage result s = billing_usage lib (stream_usages s)"
  using assms
  by (auto simp: accounts_of_def booked_def totalsBillingUsage_def closing_usage_def billing_usage_def stream_usages_def turn_usage_ok_def
      split: option.splits)

definition settled ::
  "loop_lib \<Rightarrow> ('s, 'w) stream_env \<Rightarrow> string list \<Rightarrow> tool_request \<Rightarrow> string \<Rightarrow> json_object list \<Rightarrow> stream_result \<Rightarrow> 'w responsesStreamer \<Rightarrow> bool" where
  "settled lib env own r m posts res s \<longleftrightarrow>
     trace_ok own (sb_out s) \<and> sb_posts s = posts
     \<and> (case res of None \<Rightarrow> True | Some e \<Rightarrow> resp_closed lib env r m e s)"

lemma bill_stream_sel [simp]:
  "sb_out (bill_stream lib env r m u s) = sb_out s" "sb_posts (bill_stream lib env r m u s) = sb_posts s"
  by (simp_all add: bill_stream_def)

lemma terminate_settled:
  assumes ok: "resp_ok own (ledger lib ([], posts, hw) read) s" and t: "resp_terminateWithError lib env r m err s = (res, s')"
  shows "settled lib env own r m posts res s'"
proof (cases "headersWritten s")
  case False
  then show ?thesis
    using t ok resp_ok_trace[OF ok] by (auto simp: resp_terminateWithError_def settled_def resp_closed_def resp_ok_def booked_def)
next
  case True
  define s1 where "s1 = ensureResponseCreated lib env s"
  note c = created_ok[OF ok, of lib env, folded s1_def]
  obtain h s2 where h: "response_head env ''failed'' s1 = (h, s2)" by (cases "response_head env ''failed'' s1")
  have q: "resp_ok own (ledger lib ([], posts, hw) read) s2" "responseCreatedEmitted s2"
    using resp_ok_quiet[OF response_head_quiet[OF h] c(1)] c(2) response_head_quiet[OF h] by (simp_all add: quiet_def)
  obtain b where s': "res = Some (stream_end (bill_stream lib env r m (totalsBillingUsage (emitEvent lib env ''response.failed'' (Some b) s2))
        (emitEvent lib env ''response.failed'' (Some b) s2)))"
      "s' = bill_stream lib env r m (totalsBillingUsage (emitEvent lib env ''response.failed'' (Some b) s2))
        (emitEvent lib env ''response.failed'' (Some b) s2)"
    using t True h unfolding resp_terminateWithError_def Let_def s1_def[symmetric] by auto
  define s3 where "s3 = emitEvent lib env ''response.failed'' (Some b) s2"
  have "terminal_type ''response.failed''" by (simp add: terminal_type_def)
  note e = emit_terminal[OF q this, of lib env b, folded s3_def]
  have h3: "headersWritten s3" "sb_bills s3 = []" "sb_posts s3 = posts"
    using e(3) ok True by (simp_all add: resp_ok_def booked_def accounts_of_def)
  then have "resp_closed lib env r m (stream_end s3) (bill_stream lib env r m (totalsBillingUsage s3) s3)"
    using e booked_usage(1)[OF e(3)] by (intro bill_closed) auto
  moreover have "stream_end (bill_stream lib env r m u s3) = stream_end s3" for u
    by (simp add: stream_end_def streamAborted_def bill_stream_def split: option.splits)
  ultimately show ?thesis using e s' h3 by (simp add: settled_def s3_def[symmetric])
qed

lemma closing_output_quiet: "closing_output lib env conf s = (out, s') \<Longrightarrow> quiet s s'"
proof -
  assume "closing_output lib env conf s = (out, s')"
  then obtain k where "s' = s\<lparr>sb_uuids := k\<rparr>" unfolding closing_output_def Let_def prod.inject by blast
  then show ?thesis by (simp add: quiet_def)
qed

lemma finalize_settled:
  assumes ok: "resp_ok own (ledger lib ([], posts, True) read) s" "turn_usage_ok result s" and f: "resp_finalize lib env conf r m result s = (res, s')"
  shows "settled lib env own r m posts res s'"
proof -
  define s1 where "s1 = (ensureResponseCreated lib env s)\<lparr>text_emitters := []\<rparr>"
  have "quiet (ensureResponseCreated lib env s) s1" by (simp add: s1_def quiet_def)
  then have c: "resp_ok own (ledger lib ([], posts, True) read) s1" by (rule resp_ok_quiet) (rule created_ok(1)[OF ok(1)])
  have c2: "responseCreatedEmitted s1" using created_ok(2)[OF ok(1), of lib env] by (simp add: s1_def)
  obtain out s2 where o: "closing_output lib env conf s1 = (out, s2)" by (cases "closing_output lib env conf s1")
  obtain h s3 where h: "response_head env ''completed'' s2 = (h, s3)" by (cases "response_head env ''completed'' s2")
  have q: "quiet s1 s3" using closing_output_quiet[OF o] response_head_quiet[OF h] quiet_trans by blast
  have c3: "resp_ok own (ledger lib ([], posts, True) read) s3" "responseCreatedEmitted s3"
    using resp_ok_quiet[OF q c] c2 q by (simp_all add: quiet_def)
  define u where "u = closing_usage result s1"
  have "aggregatedUsage s1 = aggregatedUsage s" using c ok(1) by (simp add: resp_ok_def booked_def)
  then have "turn_usage_ok result s1" using ok(2) by (simp add: turn_usage_ok_def)
  moreover have acc: "accounts_of s1 = ledger lib ([], posts, True) read" using c by (simp add: resp_ok_def accounts_of_def)
  ultimately have u: "u = billing_usage lib (stream_usages s1)" using booked_usage(2) unfolding u_def by blast
  obtain b where f': "(case metrics_trailer lib m u (emitEvent lib env ''response.completed'' (Some b) s3) of
      None \<Rightarrow> (None, emitEvent lib env ''response.completed'' (Some b) s3)
    | Some s5 \<Rightarrow> (Some (stream_end s5), bill_stream lib env r m u s5)) = (res, s')"
    using f unfolding resp_finalize_def Let_def s1_def[symmetric] u_def[symmetric] o prod.case h by blast
  define s4 where "s4 = emitEvent lib env ''response.completed'' (Some b) s3"
  have "terminal_type ''response.completed''" by (simp add: terminal_type_def)
  note e = emit_terminal[OF c3 this, of lib env b, folded s4_def]
  show ?thesis
  proof (cases "metrics_trailer lib m u s4")
    case None
    then show ?thesis using f' e by (simp add: s4_def[symmetric] settled_def accounts_of_def booked_def)
  next
    case (Some s5)
    have s5: "sb_out s5 = sb_out s4" "sb_bills s5 = []" "sb_posts s5 = posts" "headersWritten s5" "writeErr s5 = writeErr s4"
      "turns_read s5 = turns_read s1"
      using Some e acc by (auto simp: metrics_trailer_def accounts_of_def booked_def split: if_splits)
    then have "resp_closed lib env r m (stream_end s5) (bill_stream lib env r m u s5)"
      using e u by (intro bill_closed) (auto simp: stream_usages_def)
    moreover have "res = Some (stream_end s5)" "s' = bill_stream lib env r m u s5" using f' Some by (simp_all add: s4_def[symmetric])
    ultimately show ?thesis using e(1) s5 by (simp add: settled_def)
  qed
qed

section \<open>The whole request\<close>

lemma turn_settled:
  assumes ok: "resp_ok (rc_owned conf) (ledger lib ([], posts, hw) old) s" and t: "resp_turn lib env conf job base isFirst req s = (res, s')"
  shows "case res of
           Inl e \<Rightarrow> settled lib env (rc_owned conf) (job_request job) (job_model job) (posts @ [fst req]) e s'
         | Inr req' \<Rightarrow> \<exists>read. resp_ok (rc_owned conf) (ledger lib ([], posts @ [fst req], True) read) s'"
proof -
  let ?own = "rc_owned conf" and ?posts = "posts @ [fst req]"
  obtain x s1 where i: "resp_runIteration lib env ?own isFirst (fst req) (job_headers job) s = (x, s1)"
    by (cases "resp_runIteration lib env ?own isFirst (fst req) (job_headers job) s")
  obtain hw1 read where it: "resp_ok ?own (ledger lib ([], ?posts, hw1) read) s1"
    "\<And>r. x = Some (Inr r) \<Longrightarrow> hw1 \<and> writeErr s1 = None \<and> turn_usage_ok r s1"
    using runIteration_ok[OF ok i] by blast
  consider (panic) "x = None" | (err) e where "x = Some (Inl e)" | (turn) result where "x = Some (Inr result)"
    by (metis option.exhaust sum.exhaust)
  then show ?thesis
  proof cases
    case panic
    then show ?thesis using t i resp_ok_trace[OF it(1)] it(1) by (auto simp: resp_turn_def settled_def resp_ok_def booked_def)
  next
    case (err e)
    obtain e' s2 where e': "resp_terminateWithError lib env (job_request job) (job_model job) e s1 = (e', s2)"
      by (cases "resp_terminateWithError lib env (job_request job) (job_model job) e s1")
    then have "res = Inl e'" "s' = s2" using t i err by (simp_all add: resp_turn_def)
    then show ?thesis using terminate_settled[OF it(1) e'] by simp
  next
    case (turn result)
    have h: "resp_ok ?own (ledger lib ([], ?posts, True) read) s1" "writeErr s1 = None" "turn_usage_ok result s1" using it turn by auto
    obtain rc cc where sp: "splitToolCalls ?own (rr_toolCalls result) = (rc, cc)" by (cases "splitToolCalls ?own (rr_toolCalls result)")
    obtain outs s2 where rv: "resolve_calls lib job (responses_executor lib env conf job) rc s1 = (outs, s2)"
      by (cases "resolve_calls lib job (responses_executor lib env conf job) rc s1")
    have r2: "resp_ok ?own (ledger lib ([], ?posts, True) read) s2"
      using responses_surface.keeps_resolve_calls[OF h(1)] rv unfolding responses_executor_def by blast
    have u2: "turn_usage_ok result s2" using h r2 by (simp add: turn_usage_ok_def resp_ok_def booked_def)
    have f: "settled lib env ?own (job_request job) (job_model job) ?posts e t'"
      if "resp_finalize lib env conf (job_request job) (job_model job) result s3 = (e, t')"
        "resp_ok ?own (ledger lib ([], ?posts, True) read) s3" "turn_usage_ok result s3" for e t' s3
      using finalize_settled[OF that(2,3,1)] .
    show ?thesis
      using t h r2 u2 f unfolding resp_turn_def i turn prod.case option.case sum.case sp rv
      by (auto split: prod.splits if_splits)
  qed
qed

lemma turns_settled:
  "resp_ok (rc_owned conf) (ledger lib ([], posts, hw) old) s \<Longrightarrow> resp_turns lib env conf job base n isFirst req s = (res, s') \<Longrightarrow>
   \<exists>more. settled lib env (rc_owned conf) (job_request job) (job_model job) (posts @ more) res s'
     \<and> (length more \<le> n \<or> length more = n + 1 \<and> field (last more) ''tools'' = JNull)"
proof (induction n arbitrary: isFirst req s posts hw old)
  case 0
  let ?body = "AList.update ''stream'' (JBool True) (forcedFinalResponsesRequest (ll_fmt lib) (fst req))"
  obtain x s1 where i: "resp_runIteration lib env (rc_owned conf) False ?body (job_headers job) s = (x, s1)"
    by (cases "resp_runIteration lib env (rc_owned conf) False ?body (job_headers job) s")
  obtain hw1 read where it: "resp_ok (rc_owned conf) (ledger lib ([], posts @ [?body], hw1) read) s1"
    "\<And>r. x = Some (Inr r) \<Longrightarrow> hw1 \<and> turn_usage_ok r s1"
    using runIteration_ok[OF 0(1) i] by blast
  have p: "field ?body ''tools'' = JNull"
    by (simp add: field_def forcedFinalResponsesRequest_def Let_def update_conv' delete_conv')
  consider (panic) "x = None" | (err) e where "x = Some (Inl e)" | (turn) result where "x = Some (Inr result)"
    by (metis option.exhaust sum.exhaust)
  then have "settled lib env (rc_owned conf) (job_request job) (job_model job) (posts @ [?body]) res s'"
  proof cases
    case panic
    then show ?thesis using 0(2) i resp_ok_trace[OF it(1)] it(1) by (simp add: settled_def resp_ok_def booked_def)
  next
    case (err e)
    show ?thesis by (rule terminate_settled[OF it(1)]) (use 0(2) i err in simp)
  next
    case (turn result)
    then have "resp_ok (rc_owned conf) (ledger lib ([], posts @ [?body], True) read) s1" "turn_usage_ok result s1" using it by simp_all
    then show ?thesis by (rule finalize_settled) (use 0(2) i turn in simp)
  qed
  then show ?case using p by (intro exI[of _ "[?body]"]) simp
next
  case (Suc n)
  obtain x s1 where t: "resp_turn lib env conf job base isFirst req s = (x, s1)" by (cases "resp_turn lib env conf job base isFirst req s")
  note ts = turn_settled[OF Suc.prems(1) t]
  show ?case
  proof (cases x)
    case (Inl e)
    then show ?thesis using Suc.prems(2) t ts by (intro exI[of _ "[fst req]"]) simp
  next
    case (Inr req')
    then obtain read where "resp_ok (rc_owned conf) (ledger lib ([], posts @ [fst req], True) read) s1" using ts by auto
    moreover have "resp_turns lib env conf job base n False req' s1 = (res, s')" using Suc.prems(2) t Inr by simp
    ultimately obtain rest where "settled lib env (rc_owned conf) (job_request job) (job_model job) ((posts @ [fst req]) @ rest) res s'"
      "length rest \<le> n \<or> length rest = n + 1 \<and> field (last rest) ''tools'' = JNull"
      using Suc.IH by blast
    then show ?thesis by (intro exI[of _ "fst req # rest"]) auto
  qed
qed

lemma run_settled:
  assumes "runResponsesStreaming lib env flusher reg r body modelName hdr prompt opts w0 w = (res, s)"
  shows "settled lib env (ownedTools (Some reg)) r modelName (sb_posts s) res s
     \<and> (length (sb_posts s) \<le> 10 \<or> length (sb_posts s) = 11 \<and> field (last (sb_posts s)) ''tools'' = JNull)"
proof (cases flusher)
  case False
  then show ?thesis
    using assms by (auto simp: runResponsesStreaming_def Let_def settled_def trace_ok_def sequence_ok_def item_indexes_def resp_closed_def
        new_responses_def new_base_def streamBase.extend_def)
next
  case True
  define conf where "conf = \<lparr>rc_owned = ownedTools (Some reg),
    rc_includeSources = includeActionSources (parseResponsesWebSearchOptions (ll_go lib) opts body)\<rparr>"
  define job where "job = \<lparr>job_reg = reg, job_opts = parseResponsesWebSearchOptions (ll_go lib) opts body,
    job_schemas = schemaLookup (ll_schema lib) (map Some (reg_tools reg)), job_headers = hdr, job_request = r, job_model = modelName\<rparr>"
  define s0 where "s0 = new_responses (header_get (tr_header r) UsageMetricsRequestHeader = ''true'') (isHarmonyModel modelName) w0 w"
  have ok: "resp_ok (rc_owned conf) (ledger lib ([], [], False) []) s0"
    by (simp add: s0_def resp_ok_def booked_def usage_total_Nil new_responses_def new_base_def streamBase.extend_def sequence_ok_def item_indexes_def)
  obtain base n acc where run: "resp_turns lib env conf job base maxToolIterations True (n, acc) s0 = (res, s)"
    using assms True unfolding runResponsesStreaming_def Let_def conf_def job_def s0_def by auto
  obtain more1 where "settled lib env (rc_owned conf) (job_request job) (job_model job) more1 res s"
    "length more1 \<le> 10 \<or> length more1 = 11 \<and> field (last more1) ''tools'' = JNull"
    using turns_settled[OF ok run] by (auto simp: maxToolIterations_def)
  then show ?thesis by (auto simp: conf_def job_def settled_def)
qed

text \<open>
  C13. Whatever the model streams, a Responses client sees one well-formed stream over all turns: numbered events
  carry consecutive sequence numbers from zero, the response is opened at most once, output items are announced
  under strictly increasing indexes, and no item for a tool the router runs itself is announced or closed.
\<close>

theorem responses_trace_well_formed:
  "trace_ok (ownedTools (Some reg)) (sb_out (snd (runResponsesStreaming lib env flusher reg r body modelName hdr prompt opts w0 w)))"
  using run_settled[of lib env flusher reg r body modelName hdr prompt opts w0 w]
  by (cases "runResponsesStreaming lib env flusher reg r body modelName hdr prompt opts w0 w") (simp add: settled_def)


text \<open>A Responses request opens at most eleven upstream streams, the eleventh without tools.\<close>

lemma responses_stream_terminates:
  "case snd (runResponsesStreaming lib env flusher reg r body modelName hdr prompt opts w0 w) of s \<Rightarrow>
     length (sb_posts s) \<le> 10 \<or> length (sb_posts s) = 11 \<and> field (last (sb_posts s)) ''tools'' = JNull"
  using run_settled[of lib env flusher reg r body modelName hdr prompt opts w0 w]
  by (cases "runResponsesStreaming lib env flusher reg r body modelName hdr prompt opts w0 w") simp

section \<open>Two defects\<close>

text \<open>A null event named as the announcement of an item writes to a nil map.\<close>

lemma null_item_panics:
  "on_event lib env own isFirst ''response.output_item.added'' None (result, s) = (EvPanic, result, s)"
  by (simp add: on_event_def stepped_def handleOutputItemAdded_def Let_def send_indexed_def clone_event_def isRouterOwnedToolItem_def
      args_of_def field_def assign_index_def)

text \<open>A stream that fails before the model is known tells the client nothing: no frame is written.\<close>

lemma early_failure_is_silent:
  assumes "headersWritten s" "sb_model s = []" "\<not> responseCreatedEmitted s" "writeErr s = None"
    "resp_terminateWithError lib env r m err s = (res, s')"
  shows "sb_out s' = sb_out s \<and> (\<exists>e. res = Some (Some e))"
proof -
  obtain i s1 where i: "streamResponseID env (s\<lparr>responseCreatedEmitted := True\<rparr>) = (i, s1)"
    by (cases "streamResponseID env (s\<lparr>responseCreatedEmitted := True\<rparr>)")
  obtain c s2 where c: "streamCreatedAt env s1 = (c, s2)" by (cases "streamCreatedAt env s1")
  have s1: "sb_model s1 = [] \<and> writeErr s1 = None \<and> sb_out s1 = sb_out s \<and> headersWritten s1"
    using i assms by (auto simp: streamResponseID_def new_uuid_def split: if_splits)
  have s2: "sb_model s2 = [] \<and> writeErr s2 = None \<and> sb_out s2 = sb_out s \<and> headersWritten s2"
    using c s1 by (auto simp: streamCreatedAt_def split: if_splits)
  define t where "t = s2\<lparr>writeErr := Some (''upstream stream missing '' @ ''response.model'' @ '' field'')\<rparr>"
  have "ensureResponseCreated lib env s = t"
    using assms(3) i c s2 by (simp add: ensureResponseCreated_def response_head_def validateStreamModel_def emitEvent_def t_def)
  moreover obtain h t1 where h: "response_head env ''failed'' t = (h, t1)" by (cases "response_head env ''failed'' t")
  moreover have "writeErr t1 \<noteq> None \<and> sb_out t1 = sb_out s \<and> headersWritten t1"
    using response_head_quiet[OF h] s2 by (auto simp: quiet_def t_def)
  ultimately show ?thesis
    using assms(1,5) by (auto simp: resp_terminateWithError_def Let_def emitEvent_def stream_end_def streamAborted_def bill_stream_def
        split: option.splits)
qed

end
