(* ===== verification/Latency.thy ===== *)
theory Latency
  imports Json_Value
begin

text \<open>
  Latency metrics of streamed requests (\<open>latency.go\<close>): the scan of the bytes sent to the client for the first
  event with generated output, and the writer that records when it was sent or why it never was. Observations
  are a log in the state. The decoder of a chunk and the parser of media types are arguments; a raw JSON field
  is its value, \<open>None\<close> when absent.
\<close>

section \<open>Outcomes\<close>

definition latencyMetricPaths :: "string list" where
  "latencyMetricPaths = [''/v1/chat/completions'', ''/v1/completions'', ''/v1/responses'']"

definition priorityClass :: "bool \<Rightarrow> string" where
  "priorityClass hasConfiguredPriority = (if hasConfiguredPriority then ''configured'' else ''none'')"

datatype ctx_err = CtxCanceled | CtxDeadlineExceeded

definition requestOutcome :: "ctx_err option \<Rightarrow> int \<Rightarrow> bool \<Rightarrow> string" where
  "requestOutcome ctx status aborted =
     (if ctx = Some CtxCanceled then ''canceled''
      else if ctx = Some CtxDeadlineExceeded then ''timeout''
      else if aborted \<or> 500 \<le> status then ''error''
      else if 400 \<le> status then ''http_4xx''
      else ''ok'')"

section \<open>The detector\<close>

definition maxSSEBufferBytes :: nat where "maxSSEBufferBytes = 65536"

record sseTokenDetector =
  det_line :: string
  det_data :: string
  hasData :: bool
  skipLine :: bool
  skipEvent :: bool
  sawError :: bool

definition new_detector :: sseTokenDetector where
  "new_detector = \<lparr>det_line = [], det_data = [], hasData = False, skipLine = False, skipEvent = False, sawError = False\<rparr>"

record chunk_choice =
  ch_Text :: string
  ch_Content :: string
  ch_ReasoningContent :: string
  ch_Reasoning :: string
  ch_Refusal :: string
  ch_ToolCalls :: "json option"
  ch_FunctionCall :: "json option"

record streamChunk =
  sc_Type :: string
  sc_Delta :: "json option"
  sc_Text :: string
  sc_Error :: "json option"
  sc_Choices :: "chunk_choice list"

definition jsonPresent :: "json option \<Rightarrow> bool" where
  "jsonPresent raw \<longleftrightarrow> raw \<noteq> None \<and> raw \<noteq> Some JNull"

definition nonEmptyJSONArray :: "json option \<Rightarrow> bool" where
  "nonEmptyJSONArray raw = (case raw of Some (JArray (_ # _)) \<Rightarrow> True | _ \<Rightarrow> False)"

definition nonEmptyString :: "json option \<Rightarrow> bool" where
  "nonEmptyString raw = (case raw of Some (JString (_ # _)) \<Rightarrow> True | _ \<Rightarrow> False)"

definition choice_has_output :: "chunk_choice \<Rightarrow> bool" where
  "choice_has_output c \<longleftrightarrow>
     ch_Text c \<noteq> [] \<or> ch_Content c \<noteq> [] \<or> ch_ReasoningContent c \<noteq> [] \<or> ch_Reasoning c \<noteq> [] \<or> ch_Refusal c \<noteq> []
     \<or> nonEmptyJSONArray (ch_ToolCalls c) \<or> jsonPresent (ch_FunctionCall c)"

definition classifyEvent :: "(string \<Rightarrow> streamChunk option) \<Rightarrow> string \<Rightarrow> sseTokenDetector \<Rightarrow> bool \<times> sseTokenDetector" where
  "classifyEvent decode data d =
     (if \<not> HasPrefix data ''{'' then (False, d)
      else case decode data of
             None \<Rightarrow> (False, d)
           | Some chunk \<Rightarrow>
               if jsonPresent (sc_Error chunk) then (False, d\<lparr>sawError := True\<rparr>)
               else if sc_Type chunk \<noteq> [] then
                 (if sc_Type chunk = ''error'' \<or> sc_Type chunk = ''response.failed'' then (False, d\<lparr>sawError := True\<rparr>)
                  else if HasSuffix (sc_Type chunk) ''.delta'' then (nonEmptyString (sc_Delta chunk), d)
                  else if sc_Type chunk = ''response.output_text.done'' then (sc_Text chunk \<noteq> [], d)
                  else (False, d))
               else (list_ex choice_has_output (sc_Choices chunk), d))"

definition processLine :: "(string \<Rightarrow> streamChunk option) \<Rightarrow> string \<Rightarrow> sseTokenDetector \<Rightarrow> bool \<times> sseTokenDetector" where
  "processLine decode line0 d =
     (let line = TrimSuffix line0 [byte 13] in
      if line = [] then
        (case (if \<not> skipEvent d \<and> hasData d then classifyEvent decode (det_data d) d else (False, d)) of
           (token, d1) \<Rightarrow> (token, d1\<lparr>det_data := [], hasData := False, skipEvent := False\<rparr>))
      else case CutPrefix line ''data:'' of
             None \<Rightarrow> (False, d)
           | Some value0 \<Rightarrow>
               if skipEvent d then (False, d)
               else let content = TrimPrefix value0 '' '' in
                 if maxSSEBufferBytes \<le> length (det_data d) + length content
                 then (False, d\<lparr>det_data := [], hasData := False, skipEvent := True\<rparr>)
                 else (False, d\<lparr>det_data := (if hasData d then det_data d @ [byte 10] else det_data d) @ content, hasData := True\<rparr>))"

definition bufferPartial :: "string \<Rightarrow> sseTokenDetector \<Rightarrow> sseTokenDetector" where
  "bufferPartial p d =
     (if skipLine d then d
      else if maxSSEBufferBytes < length (det_line d) + length p
      then d\<lparr>det_line := [], skipLine := True, skipEvent := True\<rparr>
      else d\<lparr>det_line := det_line d @ p\<rparr>)"

text \<open>A segment that ends with a newline.\<close>

definition feed_line :: "(string \<Rightarrow> streamChunk option) \<Rightarrow> string \<Rightarrow> sseTokenDetector \<Rightarrow> bool \<times> sseTokenDetector" where
  "feed_line decode segment d =
     (if skipLine d then (False, d\<lparr>skipLine := False\<rparr>)
      else let line = det_line d @ segment; d1 = d\<lparr>det_line := []\<rparr> in
        if maxSSEBufferBytes < length line then (False, d1\<lparr>skipEvent := True\<rparr>)
        else processLine decode line d1)"

function feed :: "(string \<Rightarrow> streamChunk option) \<Rightarrow> string \<Rightarrow> sseTokenDetector \<Rightarrow> bool \<times> sseTokenDetector" where
  "feed decode p d =
     (if p = [] then (False, d)
      else case dropWhile (\<lambda>c. c \<noteq> byte 10) p of
             [] \<Rightarrow> (False, bufferPartial p d)
           | _ # rest \<Rightarrow>
               (case feed_line decode (takeWhile (\<lambda>c. c \<noteq> byte 10) p) d of
                  (token, d1) \<Rightarrow> (case feed decode rest d1 of (token', d2) \<Rightarrow> (token \<or> token', d2))))"
  by pat_completeness auto
termination
proof (relation "measure (\<lambda>(_, p, _). length p)")
  fix decode d p c rest
  assume "p \<noteq> []" "dropWhile (\<lambda>c. c \<noteq> byte 10) p = c # rest"
  then show "((decode, rest, d), decode, p, d') \<in> measure (\<lambda>(_, p, _). length p)" for d'
    using length_dropWhile_le[of "\<lambda>c. c \<noteq> byte 10" p] by simp
qed simp

declare feed.simps [simp del]

section \<open>The writer\<close>

datatype observation =
  ObsTTFT duration
| ObsReplicaTTFT duration
| ObsInterToken duration
| ObsFirstToken duration
| ObsNoFirstToken string
| ObsDuration string string duration

definition observeRequestDuration :: "ctx_err option \<Rightarrow> bool \<Rightarrow> int \<Rightarrow> bool \<Rightarrow> time \<Rightarrow> time \<Rightarrow> observation" where
  "observeRequestDuration ctx streaming status aborted start now =
     ObsDuration (if streaming then ''streaming'' else ''non_streaming'') (requestOutcome ctx status aborted) (time_sub now start)"

record latencyWriter =
  lw_arrival :: time
  lw_start :: time
  lw_status :: int
  lw_last :: "time option"
  observeLegacy :: bool
  detector :: "sseTokenDetector option"
  tokenSeen :: bool
  lw_aborted :: bool
  lw_log :: "observation list"

definition note_observation :: "observation \<Rightarrow> latencyWriter \<Rightarrow> latencyWriter" where
  "note_observation x lw = lw\<lparr>lw_log := lw_log lw @ [x]\<rparr>"

definition newLatencyWriter :: "time \<Rightarrow> time \<Rightarrow> latencyWriter" where
  "newLatencyWriter arrival start =
     \<lparr>lw_arrival = arrival, lw_start = start, lw_status = 0, lw_last = None, observeLegacy = True, detector = None,
      tokenSeen = False, lw_aborted = False, lw_log = []\<rparr>"

definition newToolLatencyWriter :: "time \<Rightarrow> time \<Rightarrow> latencyWriter" where
  "newToolLatencyWriter arrival start = (newLatencyWriter arrival start)\<lparr>observeLegacy := False\<rparr>"

definition lw_WriteHeader :: "int \<Rightarrow> latencyWriter \<Rightarrow> latencyWriter" where
  "lw_WriteHeader code lw = (if lw_status lw < 200 then lw\<lparr>lw_status := code\<rparr> else lw)"

text \<open>\<open>mime.ParseMediaType\<close>: the media type and the error it came with.\<close>

datatype media_err = ErrInvalidMediaParameter | OtherMediaError

definition isEventStream :: "(string \<Rightarrow> string \<times> media_err option) \<Rightarrow> string \<Rightarrow> bool" where
  "isEventStream parse contentType =
     (case parse contentType of
        (mediaType, err) \<Rightarrow> err \<noteq> Some OtherMediaError \<and> mediaType = ''text/event-stream'')"

definition observeFirstToken :: "time \<Rightarrow> latencyWriter \<Rightarrow> latencyWriter" where
  "observeFirstToken now lw =
     note_observation (ObsFirstToken (time_sub now (lw_arrival lw))) (lw\<lparr>tokenSeen := True, detector := None\<rparr>)"

text \<open>Before the delegated write.\<close>

definition before_write :: "(string \<Rightarrow> string \<times> media_err option) \<Rightarrow> string \<Rightarrow> time \<Rightarrow> latencyWriter \<Rightarrow> latencyWriter" where
  "before_write parse contentType now lw =
     (let lw1 =
        (case lw_last lw of
           None \<Rightarrow>
             let lwa = (if observeLegacy lw
                        then note_observation (ObsReplicaTTFT (time_sub now (lw_start lw))) (note_observation (ObsTTFT (time_sub now (lw_start lw))) lw)
                        else lw)
             in if isEventStream parse contentType then lwa\<lparr>detector := Some new_detector\<rparr> else lwa
         | Some t \<Rightarrow> if observeLegacy lw then note_observation (ObsInterToken (time_sub now t)) lw else lw)
      in lw1\<lparr>lw_last := Some now\<rparr>)"

text \<open>\<open>ok\<close> is the outcome of the delegated write, which then wrote all of \<open>b\<close>.\<close>

definition lw_Write ::
  "(string \<Rightarrow> streamChunk option) \<Rightarrow> (string \<Rightarrow> string \<times> media_err option) \<Rightarrow> string \<Rightarrow> time \<Rightarrow> string \<Rightarrow> bool \<Rightarrow> latencyWriter \<Rightarrow> latencyWriter" where
  "lw_Write decode parse contentType now b ok lw =
     (if 300 \<le> lw_status lw then lw
      else let lw1 = before_write parse contentType now lw in
        if \<not> ok \<or> tokenSeen lw1 then lw1
        else case detector lw1 of
               None \<Rightarrow> if b = [] then lw1 else observeFirstToken now lw1
             | Some d \<Rightarrow>
                 (case feed decode b d of
                    (token, d') \<Rightarrow>
                      if token then observeFirstToken now lw1 else lw1\<lparr>detector := Some d'\<rparr>))"

definition finish_reason :: "ctx_err option \<Rightarrow> latencyWriter \<Rightarrow> string" where
  "finish_reason ctx lw =
     (if ctx = Some CtxCanceled then ''canceled''
      else if ctx = Some CtxDeadlineExceeded then ''timeout''
      else if 300 \<le> lw_status lw \<or> lw_aborted lw \<or> (case detector lw of None \<Rightarrow> False | Some d \<Rightarrow> sawError d) then ''error''
      else ''no_output'')"

definition lw_finish :: "ctx_err option \<Rightarrow> latencyWriter \<Rightarrow> latencyWriter" where
  "lw_finish ctx lw = (if tokenSeen lw then lw else note_observation (ObsNoFirstToken (finish_reason ctx lw)) lw)"

text \<open>What a handler does with the writer; the content type is the header at the time of the write.\<close>

datatype writer_op =
  OpHeader int
| OpWrite string time string bool
| OpAbort

definition do_op :: "(string \<Rightarrow> streamChunk option) \<Rightarrow> (string \<Rightarrow> string \<times> media_err option) \<Rightarrow> writer_op \<Rightarrow> latencyWriter \<Rightarrow> latencyWriter" where
  "do_op decode parse op lw =
     (case op of
        OpHeader code \<Rightarrow> lw_WriteHeader code lw
      | OpWrite contentType now b ok \<Rightarrow> lw_Write decode parse contentType now b ok lw
      | OpAbort \<Rightarrow> lw\<lparr>lw_aborted := True\<rparr>)"

section \<open>Detection does not depend on how the stream is cut\<close>

lemma feed_Nil [simp]: "feed decode [] d = (False, d)"
  by (simp add: feed.simps)

lemma feed_partial: "byte 10 \<notin> set p \<Longrightarrow> p \<noteq> [] \<Longrightarrow> feed decode p d = (False, bufferPartial p d)"
proof -
  assume "byte 10 \<notin> set p" "p \<noteq> []"
  then have d: "dropWhile (\<lambda>c. c \<noteq> byte 10) p = []" by auto
  show ?thesis unfolding feed.simps[of decode p d] d using \<open>p \<noteq> []\<close> by simp
qed

lemma take_line:
  "byte 10 \<notin> set l \<Longrightarrow> takeWhile (\<lambda>c. c \<noteq> byte 10) (l @ byte 10 # rest) = l"
  "byte 10 \<notin> set l \<Longrightarrow> dropWhile (\<lambda>c. c \<noteq> byte 10) (l @ byte 10 # rest) = byte 10 # rest"
  by (induction l) auto

lemma feed_complete:
  assumes "byte 10 \<notin> set l"
  shows "feed decode (l @ byte 10 # rest) d =
    (case feed_line decode l d of (token, d1) \<Rightarrow> (case feed decode rest d1 of (token', d2) \<Rightarrow> (token \<or> token', d2)))"
  unfolding feed.simps[of decode "l @ byte 10 # rest" d] take_line[OF assms] by simp

lemma feed_line_buffered: "feed_line decode (p @ seg) d = feed_line decode seg (bufferPartial p d)"
  by (auto simp: feed_line_def bufferPartial_def Let_def)

lemma bufferPartial_append: "bufferPartial (p @ q) d = bufferPartial q (bufferPartial p d)"
  by (auto simp: bufferPartial_def)

lemma split_newline: "byte 10 \<in> set p \<Longrightarrow> \<exists>l rest. p = l @ byte 10 # rest \<and> byte 10 \<notin> set l"
  by (rule split_list_first)

lemma feed_append:
  "feed decode (p @ q) d =
     (case feed decode p d of (token, d1) \<Rightarrow> (case feed decode q d1 of (token', d2) \<Rightarrow> (token \<or> token', d2)))"
proof (induction "length p" arbitrary: p d rule: less_induct)
  case less
  consider (empty) "p = []" | (newline) "byte 10 \<in> set p" | (part) "p \<noteq> []" "byte 10 \<notin> set p" by blast
  then show ?case
  proof cases
    case newline
    then obtain l rest where p: "p = l @ byte 10 # rest" "byte 10 \<notin> set l" using split_newline by blast
    show ?thesis
      using less[of rest] p by (auto simp: feed_complete split: prod.splits)
  next
    case part
    show ?thesis
    proof (cases "byte 10 \<in> set q")
      case True
      then obtain l rest where q: "q = l @ byte 10 # rest" "byte 10 \<notin> set l" using split_newline by blast
      have "feed decode ((p @ l) @ byte 10 # rest) d =
        (case feed_line decode (p @ l) d of (token, d1) \<Rightarrow> (case feed decode rest d1 of (token', d2) \<Rightarrow> (token \<or> token', d2)))"
        using part q by (intro feed_complete) auto
      then show ?thesis using part q by (simp add: feed_partial feed_complete feed_line_buffered split: prod.splits)
    next
      case False
      then show ?thesis using part by (cases "q = []") (simp_all add: feed_partial bufferPartial_append)
    qed
  qed (simp split: prod.splits)
qed

fun feed_all :: "(string \<Rightarrow> streamChunk option) \<Rightarrow> string list \<Rightarrow> sseTokenDetector \<Rightarrow> bool \<times> sseTokenDetector" where
  "feed_all decode [] d = (False, d)"
| "feed_all decode (b # bs) d =
     (case feed decode b d of (token, d1) \<Rightarrow> (case feed_all decode bs d1 of (token', d2) \<Rightarrow> (token \<or> token', d2)))"

text \<open>
  C36. Whether and where the first generated token is found in a stream does not depend on how the proxy cuts the
  bytes into writes: feeding the chunks one by one leaves the detector in the state, and with the answer, of
  feeding the whole stream at once. This includes lines and events over the buffer limit.
\<close>

theorem detection_independent_of_chunks: "feed_all decode bs d = feed decode (concat bs) d"
proof (induction bs arbitrary: d)
  case (Cons b bs)
  then show ?case by (simp add: feed_append split: prod.splits)
qed simp

section \<open>The memory of the detector is bounded\<close>

definition det_ok :: "sseTokenDetector \<Rightarrow> bool" where
  "det_ok d \<longleftrightarrow> length (det_line d) \<le> maxSSEBufferBytes \<and> length (det_data d) \<le> maxSSEBufferBytes"

lemma classify_line:
  "classifyEvent decode data d = (token, d') \<Longrightarrow> det_line d' = det_line d"
  by (auto simp: classifyEvent_def split: option.splits if_splits)

lemma processLine_ok: "det_ok d \<Longrightarrow> det_ok (snd (processLine decode line d))"
  by (auto simp: processLine_def det_ok_def Let_def dest: classify_line split: option.splits prod.splits)

lemma feed_line_ok: "det_ok d \<Longrightarrow> det_ok (snd (feed_line decode seg d))"
proof -
  assume ok: "det_ok d"
  have "det_ok (d\<lparr>det_line := []\<rparr>)" using ok by (simp add: det_ok_def)
  then show ?thesis using ok processLine_ok by (auto simp: feed_line_def Let_def det_ok_def)
qed

lemma bufferPartial_ok: "det_ok d \<Longrightarrow> det_ok (bufferPartial p d)"
  by (auto simp: bufferPartial_def det_ok_def)

lemma feed_ok:
  assumes "det_ok d"
  shows "det_ok (snd (feed decode p d))"
  using assms
proof (induction decode p d rule: feed.induct)
  case (1 decode p d)
  show ?case
  proof (cases "p = [] \<or> byte 10 \<notin> set p")
    case True
    then show ?thesis using 1(2) bufferPartial_ok by (cases "p = []") (simp_all add: feed_partial)
  next
    case False
    then obtain l rest where p: "p = l @ byte 10 # rest" "byte 10 \<notin> set l" using split_newline by blast
    obtain t d1 where f: "feed_line decode l d = (t, d1)" by (cases "feed_line decode l d")
    have d: "takeWhile (\<lambda>c. c \<noteq> byte 10) p = l" "dropWhile (\<lambda>c. c \<noteq> byte 10) p = byte 10 # rest"
      using p by (simp_all add: take_line)
    have "det_ok d1" using feed_line_ok[OF 1(2), of decode l] f by simp
    then have "det_ok (snd (feed decode rest d1))" using 1(1)[of "byte 10" rest t d1] False d f by auto
    then show ?thesis using p f by (auto simp: feed_complete split: prod.splits)
  qed
qed

text \<open>
  However long the lines and events of a stream are, and however it is cut, the detector never holds more than
  64 KiB of a line and 64 KiB of an event.
\<close>

theorem detector_memory_bounded:
  "length (det_line (snd (feed_all decode bs new_detector))) \<le> 65536
   \<and> length (det_data (snd (feed_all decode bs new_detector))) \<le> 65536"
proof -
  have "det_ok d \<Longrightarrow> det_ok (snd (feed_all decode bs d))" for d
  proof (induction bs arbitrary: d)
    case (Cons b bs)
    obtain t d1 where f: "feed decode b d = (t, d1)" by (cases "feed decode b d")
    have "det_ok d1" using feed_ok[OF Cons.prems, of decode b] f by simp
    then show ?case using Cons.IH[of d1] f by (auto split: prod.splits)
  qed simp
  moreover have "det_ok new_detector" by (simp add: det_ok_def new_detector_def)
  ultimately show ?thesis by (simp add: det_ok_def maxSSEBufferBytes_def)
qed

section \<open>Every request is counted once\<close>

definition is_verdict :: "observation \<Rightarrow> bool" where
  "is_verdict x = (case x of ObsFirstToken _ \<Rightarrow> True | ObsNoFirstToken _ \<Rightarrow> True | _ \<Rightarrow> False)"

definition verdicts :: "latencyWriter \<Rightarrow> observation list" where
  "verdicts lw = filter is_verdict (lw_log lw)"

lemma before_write_sel [simp]:
  "verdicts (before_write parse ct now lw) = verdicts lw" "tokenSeen (before_write parse ct now lw) = tokenSeen lw"
  by (simp_all add: before_write_def verdicts_def note_observation_def is_verdict_def Let_def split: option.splits)

definition counted :: "latencyWriter \<Rightarrow> bool" where
  "counted lw \<longleftrightarrow> (if tokenSeen lw then \<exists>d. verdicts lw = [ObsFirstToken d] else verdicts lw = [])"

lemma first_token_counted: "counted lw \<Longrightarrow> \<not> tokenSeen lw \<Longrightarrow> counted (observeFirstToken now lw)"
  by (simp add: counted_def observeFirstToken_def note_observation_def verdicts_def is_verdict_def)

lemma op_counted: "counted lw \<Longrightarrow> counted (do_op decode parse op lw)"
proof -
  assume c: "counted lw"
  have s: "counted lw'" if "verdicts lw' = verdicts lw" "tokenSeen lw' = tokenSeen lw" for lw' using c that by (simp add: counted_def)
  have w: "counted (lw_Write decode parse ct now b ok lw)" for ct now b ok
  proof -
    let ?w = "before_write parse ct now lw"
    have k: "counted ?w" by (rule s) simp_all
    have "verdicts (?w\<lparr>detector := x\<rparr>) = verdicts ?w" for x by (simp add: verdicts_def)
    then have "counted (?w\<lparr>detector := x\<rparr>)" for x using k by (simp add: counted_def split: if_splits)
    then show ?thesis
      using c k first_token_counted[OF k] by (auto simp: lw_Write_def Let_def split: option.splits prod.splits)
  qed
  have "counted (lw_WriteHeader code lw)" "counted (lw\<lparr>lw_aborted := True\<rparr>)" for code
    by (rule s; simp add: lw_WriteHeader_def verdicts_def)+
  then show ?thesis using w by (cases op) (simp_all add: do_op_def)
qed

text \<open>
  C32. Every streamed request is counted exactly once: after any sequence of headers, writes (delivered or refused)
  and an abort, finishing the request leaves either one first-token latency or one count of a request without a
  token, never both and never neither.
\<close>

theorem first_token_counted_once:
  "length (verdicts (lw_finish ctx (fold (do_op decode parse) ops (newLatencyWriter arrival start)))) = 1"
proof -
  have "counted (newLatencyWriter arrival start)" by (simp add: counted_def verdicts_def newLatencyWriter_def)
  then have "counted (fold (do_op decode parse) ops (newLatencyWriter arrival start))"
    by (induction ops arbitrary: arrival start rule: rev_induct) (simp_all add: op_counted)
  then show ?thesis
    by (auto simp: lw_finish_def counted_def note_observation_def verdicts_def is_verdict_def split: if_splits)
qed

end
