(* ===== verification/Request_Entry.thy ===== *)
theory Request_Entry
  imports Api_Errors Proxy_Response Cache_Salt
begin

text \<open>
  The helpers of \<open>main.go\<close> and \<open>cache_salt.go\<close> a request passes before it is routed: the limit on its body,
  the decoding of that body, the answers to a body that cannot be read, the usage options forced on a stream,
  the model named by a header, a form or a query, and the list of models. The JSON and MIME codecs are arguments.
\<close>

section \<open>The body\<close>

definition maxRequestBodySize :: int where "maxRequestBodySize = 64 * 1024 * 1024"

text \<open>
  The errors a body can fail with: the limit of \<open>http.MaxBytesReader\<close>, an error of the decoder or an end of
  input with the text shown to the client, and any other.
\<close>

datatype body_error = MaxBytesExceeded | DescribedError string | OtherBodyError string

text \<open>A body as it arrives: its announced length, its bytes and the error its transport ends with, if any.\<close>

record wire_body =
  wb_length :: int
  wb_bytes :: string
  wb_error :: "body_error option"

text \<open>The answer is an error, or the limit the reader enforces; no body has no limit.\<close>

definition limitRequestBody :: "wire_body option \<Rightarrow> APIError + int option" where
  "limitRequestBody body =
     (case body of
        None \<Rightarrow> Inr None
      | Some b \<Rightarrow> if maxRequestBodySize < wb_length b then Inl ErrBodyTooLarge else Inr (Some maxRequestBodySize))"

text \<open>\<open>io.ReadAll\<close> on a body behind \<open>http.MaxBytesReader\<close>.\<close>

definition read_all :: "int option \<Rightarrow> wire_body option \<Rightarrow> body_error + string" where
  "read_all limit body =
     (case body of
        None \<Rightarrow> Inr []
      | Some b \<Rightarrow>
          if (case limit of None \<Rightarrow> False | Some n \<Rightarrow> n < int (length (wb_bytes b))) then Inl MaxBytesExceeded
          else case wb_error b of None \<Rightarrow> Inr (wb_bytes b) | Some e \<Rightarrow> Inl e)"

definition writeRequestBodyError :: "body_error \<Rightarrow> APIError" where
  "writeRequestBodyError err = (case err of MaxBytesExceeded \<Rightarrow> ErrBodyTooLarge | _ \<Rightarrow> ErrBodyReadFailed)"

definition invalidJSONError :: "body_error \<Rightarrow> APIError" where
  "invalidJSONError err =
     (case err of
        MaxBytesExceeded \<Rightarrow> ErrBodyTooLarge
      | DescribedError txt \<Rightarrow> WithMessage ErrInvalidJSON (''Invalid request body: '' @ txt @ ''.'')
      | OtherBodyError _ \<Rightarrow> ErrInvalidJSON)"

text \<open>\<open>json.Decoder\<close> gives a value and the bytes left; a follow-up token is \<open>io.EOF\<close> only after white space.\<close>

definition decodeConsumedAll :: "string \<Rightarrow> bool" where
  "decodeConsumedAll rest = list_all (\<lambda>c. c \<in> {CHR '' '', CHR 0x09, CHR 0x0A, CHR 0x0D}) rest"

definition errBodyNotObject :: body_error where
  "errBodyNotObject = DescribedError ''request body must be one JSON object''"

definition decodeJSONBody ::
  "(string \<Rightarrow> body_error + json_object option \<times> string) \<Rightarrow> string \<Rightarrow> body_error + json_object" where
  "decodeJSONBody decode bodyBytes =
     (case decode bodyBytes of
        Inl e \<Rightarrow> Inl e
      | Inr (body, rest) \<Rightarrow>
          (case body of
             None \<Rightarrow> Inl errBodyNotObject
           | Some b \<Rightarrow> if decodeConsumedAll rest then Inr b else Inl errBodyNotObject))"

section \<open>Errors of the helpers\<close>

text \<open>An error is an API error or another one with its text.\<close>

datatype go_error = GoAPIError APIError | GoError string

definition asAPIError :: "go_error \<Rightarrow> APIError" where
  "asAPIError err = (case err of GoAPIError e \<Rightarrow> e | GoError txt \<Rightarrow> WithMessage ErrInvalidRequest txt)"

definition writeUpstreamError :: "(string \<Rightarrow> json_object option) \<Rightarrow> int \<Rightarrow> string \<Rightarrow> APIError" where
  "writeUpstreamError dec status body = fst (NormalizeUpstreamError dec status body)"

section \<open>Headers, forms and queries\<close>

definition ModelRequestHeader :: string where "ModelRequestHeader = ''X-Tinfoil-Model''"

definition modelHeaderMatches :: "header \<Rightarrow> string \<Rightarrow> bool" where
  "modelHeaderMatches h bodyModel =
     (let expected = TrimSpace (header_get h ModelRequestHeader) in expected = [] \<or> expected = bodyModel)"

definition isWebSocketUpgrade :: "header \<Rightarrow> bool" where
  "isWebSocketUpgrade h \<longleftrightarrow>
     EqualFold (header_get h ''Upgrade'') ''websocket''
     \<and> list_ex (\<lambda>v. EqualFold (TrimSpace v) ''upgrade'') (split_on (CHR '','') (header_get h ''Connection''))"

definition subprotoPrefix :: string where "subprotoPrefix = ''openai-insecure-api-key.''"

text \<open>The loop over the offered subprotocols: the key found last, and the others.\<close>

fun subprotocols :: "string \<Rightarrow> string list \<Rightarrow> string list \<Rightarrow> string \<times> string list" where
  "subprotocols apiKey cleaned [] = (apiKey, cleaned)"
| "subprotocols apiKey cleaned (p # ps) =
     (let proto = TrimSpace p in
      if HasPrefix proto subprotoPrefix then subprotocols (TrimPrefix proto subprotoPrefix) cleaned ps
      else if proto \<noteq> [] then subprotocols apiKey (cleaned @ [proto]) ps
      else subprotocols apiKey cleaned ps)"

definition websocket_key :: "header \<Rightarrow> string \<Rightarrow> header \<times> string" where
  "websocket_key h apiKey =
     (if apiKey \<noteq> [] then (h, apiKey)
      else case subprotocols [] [] (split_on (CHR '','') (header_get h ''Sec-WebSocket-Protocol'')) of
             (key, cleaned) \<Rightarrow>
               if key = [] then (h, [])
               else let h1 = header_set ''Authorization'' (''Bearer '' @ key) h in
                    (if cleaned = [] then AList.delete ''Sec-WebSocket-Protocol'' h1
                     else header_set ''Sec-WebSocket-Protocol'' (join_with '', '' cleaned) h1, key))"

text \<open>The model a realtime connection asks for; the query is a function of a parameter's name.\<close>

definition realtime_model :: "(string \<Rightarrow> string) \<Rightarrow> APIError + string" where
  "realtime_model query =
     (let m = query ''model'';
          m1 = (if m = [] \<and> query ''intent'' = ''transcription'' then ''voxtral-mini-4b-realtime'' else m)
      in if m1 = [] then Inl (WithMessage (WithParam ErrInvalidRequest ''model'')
             ''Missing required parameter: 'model' (use ?model=<name> query parameter for WebSocket requests).'')
         else Inr m1)"

text \<open>
  \<open>mime.ParseMediaType\<close> gives the parameters of a content type, \<open>multipart.Reader\<close> the named parts read before
  the end of the input or the first malformed part.
\<close>

fun model_part :: "(string \<times> string) list \<Rightarrow> string" where
  "model_part [] = []"
| "model_part ((name, content) # parts) = (if name = ''model'' then TrimSpace content else model_part parts)"

text \<open>The error of the reader is wrapped, which its text shows.\<close>

definition wrapped_read :: "body_error \<Rightarrow> body_error" where
  "wrapped_read e =
     (case e of
        MaxBytesExceeded \<Rightarrow> MaxBytesExceeded
      | DescribedError txt \<Rightarrow> DescribedError (''failed to read request body: '' @ txt)
      | OtherBodyError txt \<Rightarrow> OtherBodyError (''failed to read request body: '' @ txt))"

definition extractModelFromMultipart ::
  "(string \<Rightarrow> (string, string) gomap option) \<Rightarrow> (string \<Rightarrow> string \<Rightarrow> (string \<times> string) list) \<Rightarrow> header
     \<Rightarrow> body_error + string \<Rightarrow> body_error + string \<times> string" where
  "extractModelFromMultipart media multipart h body =
     (case body of
        Inl e \<Rightarrow> Inl (wrapped_read e)
      | Inr bytes \<Rightarrow>
          (case media (header_get h ''Content-Type'') of
             None \<Rightarrow> Inr ([], bytes)
           | Some params \<Rightarrow>
               (case map_of params ''boundary'' of
                  None \<Rightarrow> Inr ([], bytes)
                | Some boundary \<Rightarrow> if boundary = [] then Inr ([], bytes)
                    else Inr (model_part (multipart boundary bytes), bytes))))"

section \<open>Usage of a stream\<close>

definition ensureStreamingUsageOptions :: "json_object \<Rightarrow> header \<Rightarrow> json_object \<times> header" where
  "ensureStreamingUsageOptions body h =
     (let streamOptions = (case as_object (field body ''stream_options'') of None \<Rightarrow> [] | Some m \<Rightarrow> m);
          asked = (field streamOptions ''include_usage'' = JBool True \<or> field streamOptions ''continuous_usage_stats'' = JBool True);
          streamOptions1 = AList.update ''continuous_usage_stats'' (JBool True) (AList.update ''include_usage'' (JBool True) streamOptions)
      in (AList.update ''stream_options'' (JObject streamOptions1) body,
          if asked then header_set ''X-Tinfoil-Client-Requested-Usage'' ''true'' h else h))"

section \<open>The list of models\<close>

text \<open>\<open>decode_models\<close> is \<open>json.Unmarshal\<close> into the object name and the entries; a null entry is the empty map.\<close>

definition filterModelsToServed ::
  "(string \<Rightarrow> (string \<times> json_object list) option) \<Rightarrow> (json \<Rightarrow> string option) \<Rightarrow> string \<Rightarrow> (string, 'm) gomap \<Rightarrow> string option" where
  "filterModelsToServed decode_models encode body served =
     (case decode_models body of
        None \<Rightarrow> None
      | Some (object, entries) \<Rightarrow>
          let kept = filter (\<lambda>entry. case field entry ''id'' of JString i \<Rightarrow> has_key served i | _ \<Rightarrow> False) entries
          in encode (JObject [(''object'', JString (if object = [] then ''list'' else object)),
                              (''data'', JArray (map JObject kept))]))"

section \<open>What the helpers guarantee\<close>

lemma limited_body_bounded:
  assumes "limitRequestBody body = Inr limit" "read_all limit body = Inr bytes"
  shows "int (length bytes) \<le> maxRequestBodySize"
  using assms
  by (auto simp: limitRequestBody_def read_all_def maxRequestBodySize_def split: option.splits if_splits)

lemma decodeJSONBody_whole:
  assumes "decodeJSONBody decode bytes = Inr body"
  shows "\<exists>rest. decode bytes = Inr (Some body, rest) \<and> set rest \<subseteq> {CHR '' '', CHR 0x09, CHR 0x0A, CHR 0x0D}"
  using assms unfolding decodeJSONBody_def decodeConsumedAll_def
  by (auto simp: list_all_iff split: sum.splits option.splits if_splits)

lemma usage_forced:
  "\<exists>opts. field (fst (ensureStreamingUsageOptions body h)) ''stream_options'' = JObject opts
     \<and> field opts ''include_usage'' = JBool True \<and> field opts ''continuous_usage_stats'' = JBool True"
  by (simp add: ensureStreamingUsageOptions_def Let_def)

lemma usage_keeps_fields:
  "k \<noteq> ''stream_options'' \<Longrightarrow> map_of (fst (ensureStreamingUsageOptions body h)) k = map_of body k"
  by (simp add: ensureStreamingUsageOptions_def Let_def)

text \<open>The key a browser offers as a subprotocol is not forwarded as one.\<close>

lemma subprotocols_clean:
  assumes "list_all (\<lambda>p. \<not> HasPrefix p subprotoPrefix) cleaned"
  shows "list_all (\<lambda>p. \<not> HasPrefix p subprotoPrefix) (snd (subprotocols apiKey cleaned ps))"
  using assms by (induction apiKey cleaned ps rule: subprotocols.induct) (auto simp: Let_def)

end
