(* ===== verification/Input_Tokens.thy ===== *)
theory Input_Tokens
  imports Request_Entry
begin

text \<open>
  Counting of input tokens (\<open>input_tokens.go\<close>): a chat or Responses request
  is turned into a request of the backend's tokenizer. The resolver of the \<open>auto\<close> model, the dispatch to a
  backend, \<open>%q\<close> quoting and the JSON codecs are arguments. A body that decodes to null reads as an empty map.
\<close>

definition chatInputTokensPath :: string where "chatInputTokensPath = ''/v1/chat/completions/input_tokens''"
definition responsesInputTokensPath :: string where "responsesInputTokensPath = ''/v1/responses/input_tokens''"
definition tokenizePath :: string where "tokenizePath = ''/tokenize''"

definition tokenizeChatFields :: "string list" where
  "tokenizeChatFields =
     [''add_generation_prompt'', ''continue_final_message'', ''add_special_tokens'', ''chat_template'',
      ''chat_template_kwargs'', ''mm_processor_kwargs'', ''media_io_kwargs'']"

definition unsupportedResponsesCountFields :: "string list" where
  "unsupportedResponsesCountFields = [''conversation'', ''previous_response_id'', ''previous_input_messages'']"

definition inputTokensParamError :: "string \<Rightarrow> string \<Rightarrow> APIError" where
  "inputTokensParamError param msg = WithMessage (WithParam ErrInvalidRequest param) msg"

definition quoted :: "string \<Rightarrow> string" where "quoted s = [CHR 0x27] @ s @ [CHR 0x27]"

definition missing_param :: "string \<Rightarrow> string" where
  "missing_param p = ''Missing required parameter: '' @ quoted p @ ''.''"

definition invalid_parameter :: "string \<Rightarrow> string \<Rightarrow> string" where
  "invalid_parameter p detail = ''Invalid parameter: '' @ quoted p @ '' '' @ detail @ ''.''"

definition isInputTokensPath :: "string \<Rightarrow> bool" where
  "isInputTokensPath path \<longleftrightarrow> path = chatInputTokensPath \<or> path = responsesInputTokensPath"

definition inputTokensCompletionPath :: "string \<Rightarrow> string" where
  "inputTokensCompletionPath path =
     (if path = chatInputTokensPath then ''/v1/chat/completions''
      else if path = responsesInputTokensPath then ''/v1/responses'' else path)"

section \<open>The model\<close>

text \<open>
  \<open>resolveModel\<close> is nil or an operation on the state of the request that rewrites the body it is given.
\<close>

type_synonym 's resolver = "json_object \<Rightarrow> 's \<Rightarrow> (go_error + string \<times> json_object) \<times> 's"

definition inputTokensModel ::
  "json_object \<Rightarrow> 's resolver option \<Rightarrow> 's \<Rightarrow> (APIError + string \<times> json_object) \<times> 's" where
  "inputTokensModel body resolveModel s =
     (case map_of body ''model'' of
        None \<Rightarrow> (Inl (inputTokensParamError ''model'' (missing_param ''model'')), s)
      | Some v \<Rightarrow>
          let name = as_string v in
          if name = [] then (Inl (inputTokensParamError ''model'' (invalid_parameter ''model'' ''must be a non-empty string'')), s)
          else if name \<noteq> ''auto'' then (Inr (name, body), s)
          else case resolveModel of
                 None \<Rightarrow> (Inl (inputTokensParamError ''model'' ''Model 'auto' is not available for this request.''), s)
               | Some resolve \<Rightarrow>
                   (case resolve body s of (Inl e, s1) \<Rightarrow> (Inl (asAPIError e), s1) | (Inr r, s1) \<Rightarrow> (Inr r, s1)))"

section \<open>Messages of a Responses request\<close>

definition in_error :: "string \<Rightarrow> APIError" where "in_error msg = inputTokensParamError ''input'' msg"

definition responsesContent_part :: "(string \<Rightarrow> string) \<Rightarrow> json \<Rightarrow> APIError + json" where
  "responsesContent_part quote rawPart =
     (case as_object rawPart of
        None \<Rightarrow> Inl (in_error ''Invalid Responses content part: expected an object.'')
      | Some part \<Rightarrow>
          let partType = string_field part ''type'' in
          if partType = ''input_text'' \<or> partType = ''output_text'' then
            (case field part ''text'' of
               JString txt \<Rightarrow> Inr (JObject [(''type'', JString ''text''), (''text'', JString txt)])
             | _ \<Rightarrow> Inl (in_error (''Responses '' @ partType @ '' content requires string 'text'.'')))
          else if partType = ''input_image'' then
            (let url = string_field part ''image_url''; detail = string_field part ''detail'' in
             if url = [] then Inl (in_error ''Responses input_image content requires string 'image_url'.'')
             else Inr (JObject [(''type'', JString ''image_url''),
                    (''image_url'', JObject ([(''url'', JString url)] @ (if detail = [] then [] else [(''detail'', JString detail)])))]))
          else if partType = ''refusal'' then
            (case field part ''refusal'' of
               JString refusal \<Rightarrow> Inr (JObject [(''type'', JString ''text''), (''text'', JString refusal)])
             | _ \<Rightarrow> Inl (in_error ''Responses refusal content requires string 'refusal'.''))
          else Inl (in_error (''Unsupported Responses content part type '' @ quote partType @ ''.'')))"

text \<open>A loop that collects results and stops at the first error.\<close>

fun collect :: "('a \<Rightarrow> 'e + 'b) \<Rightarrow> 'a list \<Rightarrow> 'e + 'b list" where
  "collect f [] = Inr []"
| "collect f (x # xs) =
     (case f x of Inl e \<Rightarrow> Inl e | Inr y \<Rightarrow> (case collect f xs of Inl e \<Rightarrow> Inl e | Inr ys \<Rightarrow> Inr (y # ys)))"

definition responsesContent :: "(string \<Rightarrow> string) \<Rightarrow> json \<Rightarrow> APIError + json" where
  "responsesContent quote content =
     (case content of
        JString txt \<Rightarrow> Inr (JString txt)
      | JArray parts \<Rightarrow> (case collect (responsesContent_part quote) parts of Inl e \<Rightarrow> Inl e | Inr ps \<Rightarrow> Inr (JArray ps))
      | _ \<Rightarrow> Inl (in_error ''Responses message 'content' must be a string or array.''))"

definition responsesMessage :: "(string \<Rightarrow> string) \<Rightarrow> json_object \<Rightarrow> APIError + json_object" where
  "responsesMessage quote item =
     (let role = string_field item ''role'' in
      if role = [] then Inl (in_error ''Responses message items require a non-empty 'role'.'')
      else case map_of item ''content'' of
             None \<Rightarrow> Inl (in_error ''Responses message items require 'content'.'')
           | Some content \<Rightarrow>
               (case responsesContent quote content of
                  Inl e \<Rightarrow> Inl e
                | Inr converted \<Rightarrow> Inr [(''role'', JString role), (''content'', converted)]))"

definition call_message :: "json list \<Rightarrow> json_object" where
  "call_message calls = [(''role'', JString ''assistant''), (''content'', JNull), (''tool_calls'', JArray calls)]"

definition function_call_of :: "json_object \<Rightarrow> APIError + json" where
  "function_call_of item =
     (case field item ''arguments'' of
        JString arguments \<Rightarrow>
          if string_field item ''call_id'' = [] \<or> string_field item ''name'' = []
          then Inl (in_error ''Responses function_call items require string 'call_id', 'name', and 'arguments'.'')
          else Inr (JObject [(''id'', JString (string_field item ''call_id'')), (''type'', JString ''function''),
                 (''function'', JObject [(''name'', JString (string_field item ''name'')), (''arguments'', JString arguments)])])
      | _ \<Rightarrow> Inl (in_error ''Responses function_call items require string 'call_id', 'name', and 'arguments'.''))"

definition responsesFunctionCall :: "json_object \<Rightarrow> APIError + json_object" where
  "responsesFunctionCall item = (case function_call_of item of Inl e \<Rightarrow> Inl e | Inr call \<Rightarrow> Inr (call_message [call]))"

definition appendFunctionCall :: "json list \<Rightarrow> json_object \<Rightarrow> json list" where
  "appendFunctionCall messages message =
     (if messages = [] then [JObject message]
      else case as_object (last messages) of
             None \<Rightarrow> messages @ [JObject message]
           | Some previous \<Rightarrow>
               if field previous ''role'' \<noteq> JString ''assistant'' \<or> field previous ''content'' \<noteq> JNull
               then messages @ [JObject message]
               else case (as_array (field previous ''tool_calls''), as_array (field message ''tool_calls'')) of
                      (Some previousCalls, Some newCalls) \<Rightarrow>
                        butlast messages @ [JObject (AList.update ''tool_calls'' (JArray (previousCalls @ newCalls)) previous)]
                    | _ \<Rightarrow> messages @ [JObject message])"

definition responsesFunctionCallOutput :: "(string \<Rightarrow> string) \<Rightarrow> json_object \<Rightarrow> APIError + json_object" where
  "responsesFunctionCallOutput quote item =
     (let callID = string_field item ''call_id'' in
      if callID = [] then Inl (in_error ''Responses function_call_output items require string 'call_id'.'')
      else case map_of item ''output'' of
             None \<Rightarrow> Inl (in_error ''Responses function_call_output items require 'output'.'')
           | Some output \<Rightarrow>
               (case responsesContent quote output of
                  Inl e \<Rightarrow> Inl (in_error (''Invalid function_call_output output: '' @ Message e))
                | Inr converted \<Rightarrow>
                    Inr [(''role'', JString ''tool''), (''tool_call_id'', JString callID), (''content'', converted)]))"

text \<open>The loop over the input items; \<open>messages\<close> is the accumulator.\<close>

fun input_loop :: "(string \<Rightarrow> string) \<Rightarrow> json list \<Rightarrow> json list \<Rightarrow> APIError + json list" where
  "input_loop quote messages [] = Inr messages"
| "input_loop quote messages (rawItem # items) =
     (case as_object rawItem of
        None \<Rightarrow> Inl (in_error ''Invalid item in 'input': expected an object.'')
      | Some item \<Rightarrow>
          let itemType = string_field item ''type'' in
          if itemType = [] \<or> itemType = ''message'' then
            (case responsesMessage quote item of
               Inl e \<Rightarrow> Inl e
             | Inr message \<Rightarrow> input_loop quote (messages @ [JObject message]) items)
          else if itemType = ''function_call'' then
            (case responsesFunctionCall item of
               Inl e \<Rightarrow> Inl e
             | Inr message \<Rightarrow> input_loop quote (appendFunctionCall messages message) items)
          else if itemType = ''function_call_output'' then
            (case responsesFunctionCallOutput quote item of
               Inl e \<Rightarrow> Inl e
             | Inr message \<Rightarrow> input_loop quote (messages @ [JObject message]) items)
          else Inl (in_error (''Unsupported Responses input item type '' @ quote itemType @ ''.'')))"

definition instruction_messages :: "json_object \<Rightarrow> APIError + json list" where
  "instruction_messages body =
     (case field body ''instructions'' of
        JNull \<Rightarrow> Inr []
      | JString txt \<Rightarrow>
          Inr (if txt = [] then [] else [JObject [(''role'', JString ''system''), (''content'', JString txt)]])
      | _ \<Rightarrow> Inl (inputTokensParamError ''instructions'' (invalid_parameter ''instructions'' ''must be a string'')))"

definition responsesMessages :: "(string \<Rightarrow> string) \<Rightarrow> json_object \<Rightarrow> APIError + json list" where
  "responsesMessages quote body =
     (case instruction_messages body of
        Inl e \<Rightarrow> Inl e
      | Inr messages \<Rightarrow>
          (case map_of body ''input'' of
             None \<Rightarrow> Inl (in_error (missing_param ''input''))
           | Some (JString txt) \<Rightarrow> Inr (messages @ [JObject [(''role'', JString ''user''), (''content'', JString txt)]])
           | Some (JArray items) \<Rightarrow> input_loop quote messages items
           | Some _ \<Rightarrow> Inl (in_error (invalid_parameter ''input'' ''must be a string or array''))))"

section \<open>The tokenizer request\<close>

definition tool_error :: "string \<Rightarrow> APIError" where "tool_error msg = inputTokensParamError ''tools'' msg"

definition copied :: "string list \<Rightarrow> json_object \<Rightarrow> json_object" where
  "copied keys source = List.map_filter (\<lambda>k. map_option (Pair k) (map_of source k)) keys"

definition responses_tool :: "(string \<Rightarrow> string) \<Rightarrow> json \<Rightarrow> APIError + json" where
  "responses_tool quote rawTool =
     (case as_object rawTool of
        None \<Rightarrow> Inl (tool_error ''Invalid tool: expected an object.'')
      | Some t \<Rightarrow>
          let toolType = string_field t ''type''; name = string_field t ''name'' in
          if toolType \<noteq> ''function'' then Inl (tool_error (''Unsupported Responses tool type '' @ quote toolType @ ''.''))
          else if name = [] then Inl (tool_error ''Responses function tools require a non-empty string 'name'.'')
          else Inr (JObject [(''type'', JString ''function''),
                 (''function'', JObject ([(''name'', JString name)] @ copied [''description'', ''parameters'', ''strict''] t))]))"

definition responsesTools :: "(string \<Rightarrow> string) \<Rightarrow> json \<Rightarrow> APIError + json list" where
  "responsesTools quote tools =
     (case as_array tools of
        None \<Rightarrow> Inl (tool_error (invalid_parameter ''tools'' ''must be an array''))
      | Some items \<Rightarrow> collect (responses_tool quote) items)"

definition copyTokenizeChatFields :: "json_object \<Rightarrow> json_object \<Rightarrow> json_object" where
  "copyTokenizeChatFields target source = fold (\<lambda>(k, v). AList.update k v) (copied tokenizeChatFields source) target"

definition chatTokenizeBody :: "json_object \<Rightarrow> string \<Rightarrow> APIError + json_object" where
  "chatTokenizeBody body modelName =
     (case as_array (field body ''messages'') of
        None \<Rightarrow> Inl (inputTokensParamError ''messages'' ''Missing or invalid required parameter: 'messages'.'')
      | Some messages \<Rightarrow>
          Inr (copyTokenizeChatFields
                 ([(''model'', JString modelName), (''messages'', JArray messages)] @ copied [''tools''] body) body))"

definition responsesContinuesFinalMessage :: "json \<Rightarrow> bool" where
  "responsesContinuesFinalMessage input =
     (case as_array input of
        None \<Rightarrow> False
      | Some items \<Rightarrow>
          items \<noteq> []
          \<and> (case as_object (last items) of
               None \<Rightarrow> False
             | Some item \<Rightarrow>
                 string_field item ''type'' \<in> {[], ''message'', ''reasoning''}
                 \<and> string_field item ''status'' \<in> {''in_progress'', ''incomplete''}))"

text \<open>The reasoning effort becomes template arguments.\<close>

definition with_effort :: "json_object \<Rightarrow> json_object \<Rightarrow> json_object" where
  "with_effort body tokenizeBody =
     (case as_object (field body ''reasoning'') of
        None \<Rightarrow> tokenizeBody
      | Some reasoning \<Rightarrow>
          let effort = string_field reasoning ''effort'' in
          if effort = [] then tokenizeBody
          else
            let kwargs0 = (case as_object (field tokenizeBody ''chat_template_kwargs'') of None \<Rightarrow> [] | Some k \<Rightarrow> k);
                kwargs1 = AList.update ''reasoning_effort'' (JString effort) kwargs0;
                kwargs2 = (if map_of kwargs1 ''enable_thinking'' = None
                           then AList.update ''enable_thinking'' (JBool (effort \<noteq> ''none'')) kwargs1 else kwargs1)
            in AList.update ''chat_template_kwargs'' (JObject kwargs2) tokenizeBody)"

definition with_continuation :: "json_object \<Rightarrow> json_object \<Rightarrow> json_object" where
  "with_continuation body tokenizeBody =
     (if responsesContinuesFinalMessage (field body ''input'')
      then AList.update ''continue_final_message'' (JBool True) (AList.update ''add_generation_prompt'' (JBool False) tokenizeBody)
      else tokenizeBody)"

definition responsesTokenizeBody :: "(string \<Rightarrow> string) \<Rightarrow> json_object \<Rightarrow> string \<Rightarrow> APIError + json_object" where
  "responsesTokenizeBody quote body modelName =
     (case find (\<lambda>k. field body k \<noteq> JNull) unsupportedResponsesCountFields of
        Some k \<Rightarrow> Inl (inputTokensParamError k (''Input-token counting does not support Responses parameter '' @ quote k @ ''.''))
      | None \<Rightarrow>
          (case responsesMessages quote body of
             Inl e \<Rightarrow> Inl e
           | Inr messages \<Rightarrow>
               let base = [(''model'', JString modelName), (''messages'', JArray messages)];
                   rest = (\<lambda>b. with_continuation body (with_effort body (copyTokenizeChatFields b body)))
               in case map_of body ''tools'' of
                    None \<Rightarrow> Inr (rest base)
                  | Some tools \<Rightarrow>
                      if string_field body ''tool_choice'' = ''none'' then Inr (rest base)
                      else (case responsesTools quote tools of
                              Inl e \<Rightarrow> Inl e
                            | Inr converted \<Rightarrow> Inr (rest (base @ [(''tools'', JArray converted)])))))"

section \<open>The endpoint\<close>

record ('e, 's) token_env =
  te_quote :: "string \<Rightarrow> string"
  te_decode :: "string \<Rightarrow> body_error + json_object option"
  te_encode :: "json \<Rightarrow> string option"
  te_unmarshal :: "string \<Rightarrow> json_object option"
  te_count :: "string \<Rightarrow> int option option"
  te_resolve :: "'s resolver option"
  te_dispatch :: "string \<Rightarrow> string \<Rightarrow> string \<Rightarrow> header \<Rightarrow> 's \<Rightarrow> ('e + int \<times> string option) \<times> 's"

text \<open>The error of a dispatch: a lookup error that writes itself, an API error, or any other.\<close>

datatype 'l count_dispatch_error = LookupError 'l | DispatchAPIError APIError | OtherDispatchError

datatype 'l count_answer = CountError APIError | CountLookup 'l | Count string int

record count_request =
  cr_method :: string
  cr_path :: string
  cr_key :: string
  cr_read :: "body_error + string"

definition forwardInputTokensError :: "(string \<Rightarrow> json_object option) \<Rightarrow> int \<Rightarrow> string option \<Rightarrow> APIError" where
  "forwardInputTokensError dec status body =
     (case body of
        None \<Rightarrow> ErrUpstream
      | Some b \<Rightarrow>
          if MaxUpstreamErrorBodyBytes < int (length b) then ErrUpstream else writeUpstreamError dec status b)"

definition tokenize_headers :: "string \<Rightarrow> header" where
  "tokenize_headers key = header_set ''Content-Type'' ''application/json'' (header_set ''Authorization'' (''Bearer '' @ key) [])"

definition answer_of ::
  "('l count_dispatch_error, 's) token_env \<Rightarrow> string \<Rightarrow> 'l count_dispatch_error + int \<times> string option \<Rightarrow> 'l count_answer" where
  "answer_of env path resp =
     (case resp of
        Inl (LookupError l) \<Rightarrow> CountLookup l
      | Inl (DispatchAPIError e) \<Rightarrow> CountError e
      | Inl OtherDispatchError \<Rightarrow> CountError ErrUpstream
      | Inr (status, body) \<Rightarrow>
          if status < 200 \<or> 300 \<le> status then CountError (forwardInputTokensError (te_unmarshal env) status body)
          else case Option.bind body (te_count env) of
                 Some (Some n) \<Rightarrow>
                   if n < 0 then CountError ErrUpstream
                   else Count (if path = responsesInputTokensPath then ''response.input_tokens'' else ''chat.completion.input_tokens'') n
               | _ \<Rightarrow> CountError ErrUpstream)"

definition tokenize_body :: "('e, 's) token_env \<Rightarrow> string \<Rightarrow> json_object \<Rightarrow> string \<Rightarrow> APIError + json_object" where
  "tokenize_body env path body modelName =
     (if path = chatInputTokensPath then chatTokenizeBody body modelName
      else if path = responsesInputTokensPath then responsesTokenizeBody (te_quote env) body modelName
      else Inl (WithMessage ErrInvalidRequest (''Unsupported input-token route: '' @ path @ ''.'')))"

text \<open>The answer, and the request that was dispatched: model, path, body and headers.\<close>

type_synonym dispatched = "string \<times> string \<times> json_object \<times> header"

definition handleInputTokens ::
  "('l count_dispatch_error, 's) token_env \<Rightarrow> count_request \<Rightarrow> 's \<Rightarrow> ('l count_answer \<times> dispatched option) \<times> 's" where
  "handleInputTokens env r s =
     (if cr_method r \<noteq> ''POST'' then ((CountError ErrMethodNotAllowed, None), s)
      else if cr_key r = [] then ((CountError ErrMissingAPIKey, None), s)
      else case cr_read r of
             Inl e \<Rightarrow> ((CountError (writeRequestBodyError e), None), s)
           | Inr bytes \<Rightarrow>
               (case te_decode env bytes of
                  Inl e \<Rightarrow> ((CountError (invalidJSONError e), None), s)
                | Inr dfields \<Rightarrow>
                    let body = (case dfields of None \<Rightarrow> [] | Some b \<Rightarrow> b) in
                    (case inputTokensModel body (te_resolve env) s of
                       (Inl e, s1) \<Rightarrow> ((CountError e, None), s1)
                     | (Inr (name, body1), s1) \<Rightarrow>
                         (case tokenize_body env (cr_path r) body1 name of
                            Inl e \<Rightarrow> ((CountError e, None), s1)
                          | Inr tokenizeBody \<Rightarrow>
                              (case te_encode env (JObject tokenizeBody) of
                                 None \<Rightarrow> ((CountError ErrServer, None), s1)
                               | Some encoded \<Rightarrow>
                                   (case te_dispatch env name tokenizePath encoded (tokenize_headers (cr_key r)) s1 of
                                      (resp, s2) \<Rightarrow>
                                        ((answer_of env (cr_path r) resp,
                                          Some (name, tokenizePath, tokenizeBody, tokenize_headers (cr_key r))), s2)))))))"

section \<open>Messages as groups of items\<close>

text \<open>
  The reference: each item is converted on its own, in order and up to the first error; then every run of
  adjacent function calls is one assistant message and every other item a message of its own.
\<close>

datatype converted = Whole json_object | Call json

definition convert_item :: "(string \<Rightarrow> string) \<Rightarrow> json \<Rightarrow> APIError + converted" where
  "convert_item quote rawItem =
     (case as_object rawItem of
        None \<Rightarrow> Inl (in_error ''Invalid item in 'input': expected an object.'')
      | Some item \<Rightarrow>
          let itemType = string_field item ''type'' in
          if itemType = [] \<or> itemType = ''message'' then map_sum id Whole (responsesMessage quote item)
          else if itemType = ''function_call'' then map_sum id Call (function_call_of item)
          else if itemType = ''function_call_output'' then map_sum id Whole (responsesFunctionCallOutput quote item)
          else Inl (in_error (''Unsupported Responses input item type '' @ quote itemType @ ''.'')))"

datatype run = Message_run json_object | Calls_run "json list"

fun runs :: "converted list \<Rightarrow> run list" where
  "runs [] = []"
| "runs (Whole m # cs) = Message_run m # runs cs"
| "runs (Call c # cs) =
     (case runs cs of
        Calls_run calls # rs \<Rightarrow> Calls_run (c # calls) # rs
      | rs \<Rightarrow> Calls_run [c] # rs)"

fun run_message :: "run \<Rightarrow> json" where
  "run_message (Message_run m) = JObject m"
| "run_message (Calls_run calls) = JObject (call_message calls)"

text \<open>Only a message of calls has null content, so only such a message is extended.\<close>

definition closed_message :: "json \<Rightarrow> bool" where
  "closed_message m = (case m of JObject fs \<Rightarrow> field fs ''content'' \<noteq> JNull | _ \<Rightarrow> True)"

definition closed_end :: "json list \<Rightarrow> bool" where "closed_end ms = (ms = [] \<or> closed_message (last ms))"

fun whole_closed :: "converted \<Rightarrow> bool" where
  "whole_closed (Whole m) = closed_message (JObject m)"
| "whole_closed (Call _) = True"

fun extend_runs :: "run list \<Rightarrow> json \<Rightarrow> run list" where
  "extend_runs [] c = [Calls_run [c]]"
| "extend_runs [Calls_run calls] c = [Calls_run (calls @ [c])]"
| "extend_runs (r # rs) c = r # extend_runs rs c"

lemma runs_snoc_whole: "runs (cs @ [Whole m]) = runs cs @ [Message_run m]"
  by (induction cs rule: runs.induct) (auto split: list.splits run.splits)

lemma extend_runs_Cons: "rs \<noteq> [] \<Longrightarrow> extend_runs (r # rs) c = r # extend_runs rs c"
  by (cases rs; cases r) simp_all

lemma extend_runs_snoc:
  "extend_runs (rs @ [r]) c = (case r of Calls_run calls \<Rightarrow> rs @ [Calls_run (calls @ [c])] | _ \<Rightarrow> rs @ [r, Calls_run [c]])"
  by (induction rs) (auto simp: extend_runs_Cons split: run.splits)

lemma runs_snoc_call: "runs (cs @ [Call c]) = extend_runs (runs cs) c"
proof (induction cs rule: runs.induct)
  case (2 m cs)
  then show ?case by (cases "runs cs") simp_all
next
  case (3 c0 cs)
  then show ?case
    by (cases "runs cs"; cases "tl (runs cs)"; cases "hd (runs cs)") (auto split: run.splits)
qed simp

lemma append_to_closed: "closed_end ms \<Longrightarrow> appendFunctionCall ms m = ms @ [JObject m]"
  by (auto simp: appendFunctionCall_def closed_end_def closed_message_def split: option.splits json.splits)

lemma append_to_call:
  "appendFunctionCall (ms @ [JObject (call_message calls)]) (call_message [c]) = ms @ [JObject (call_message (calls @ [c]))]"
  by (simp add: appendFunctionCall_def call_message_def field_def)

fun run_closed :: "run \<Rightarrow> bool" where
  "run_closed (Message_run m) = closed_message (JObject m)"
| "run_closed (Calls_run _) = True"

lemma runs_closed: "list_all whole_closed cs \<Longrightarrow> list_all run_closed (runs cs)"
  by (induction cs rule: runs.induct) (auto split: list.splits run.splits)

lemma append_call_runs:
  assumes "list_all whole_closed cs" "closed_end ms"
  shows "appendFunctionCall (ms @ map run_message (runs cs)) (call_message [c])
    = ms @ map run_message (runs (cs @ [Call c]))"
proof (cases "runs cs" rule: rev_cases)
  case Nil
  then show ?thesis using assms by (simp add: append_to_closed runs_snoc_call)
next
  case (snoc rs r)
  have "run_closed r" using runs_closed [OF assms(1)] snoc by simp
  then show ?thesis
    by (cases r) (simp_all add: snoc runs_snoc_call extend_runs_snoc append_to_closed closed_end_def
        append_to_call flip: append_assoc)
qed

lemma responsesContent_not_null: "responsesContent quote content = Inr v \<Longrightarrow> v \<noteq> JNull"
  by (auto simp: responsesContent_def split: json.splits sum.splits)

lemma map_sum_Inr: "map_sum f g v = Inr c \<longleftrightarrow> (\<exists>x. v = Inr x \<and> c = g x)"
  by (cases v) auto

lemma convert_item_closed: "convert_item quote x = Inr c \<Longrightarrow> whole_closed c"
  unfolding convert_item_def responsesMessage_def responsesFunctionCallOutput_def Let_def
  by (auto simp: closed_message_def field_def map_sum_Inr dest: responsesContent_not_null
      split: option.splits if_splits sum.splits)

lemma input_loop_step:
  "input_loop quote ms (x # xs) =
     (case convert_item quote x of
        Inl e \<Rightarrow> Inl e
      | Inr (Whole m) \<Rightarrow> input_loop quote (ms @ [JObject m]) xs
      | Inr (Call c) \<Rightarrow> input_loop quote (appendFunctionCall ms (call_message [c])) xs)"
  by (auto simp: convert_item_def responsesFunctionCall_def Let_def split: option.splits sum.splits)

lemma input_loop_runs:
  assumes "list_all whole_closed cs" "closed_end ms"
  shows "input_loop quote (ms @ map run_message (runs cs)) xs =
    map_sum id (\<lambda>cs'. ms @ map run_message (runs (cs @ cs'))) (collect (convert_item quote) xs)"
  using assms(1)
proof (induction xs arbitrary: cs)
  case (Cons x xs)
  show ?case
  proof (cases "convert_item quote x")
    case (Inl e)
    then show ?thesis by (simp add: input_loop_step del: input_loop.simps)
  next
    case (Inr c)
    have "list_all whole_closed (cs @ [c])" using Cons.prems convert_item_closed [OF Inr] by simp
    note ih = Cons.IH [OF this]
    show ?thesis using ih append_call_runs [OF Cons.prems assms(2)]
      by (cases c; cases "collect (convert_item quote) xs")
        (simp_all add: input_loop_step Inr runs_snoc_whole del: input_loop.simps)
  qed
qed simp

text \<open>
  C29. The messages sent to the tokenizer for an array of input items are those of the reference: the
  instructions as a system message, then the items converted one by one in order, the first invalid item
  failing the request, with every run of adjacent function calls merged into one assistant message.
\<close>

theorem messages_are_grouped_items:
  "responsesMessages quote (AList.update ''input'' (JArray items) body) =
     (case instruction_messages body of
        Inl e \<Rightarrow> Inl e
      | Inr ms \<Rightarrow> map_sum id (\<lambda>cs. ms @ map run_message (runs cs)) (collect (convert_item quote) items))"
proof -
  have same: "instruction_messages (AList.update ''input'' (JArray items) body) = instruction_messages body"
    by (simp add: instruction_messages_def)
  have "closed_end ms" if "instruction_messages body = Inr ms" for ms
    using that by (auto simp: instruction_messages_def closed_end_def closed_message_def field_def
        split: json.splits if_splits)
  then show ?thesis
    unfolding responsesMessages_def same using input_loop_runs [of "[]" _ quote items]
    by (auto split: sum.splits)
qed

section \<open>What reaches a backend\<close>

definition tokenize_keys :: "string set" where
  "tokenize_keys = {''model'', ''messages'', ''tools''} \<union> set tokenizeChatFields"

lemma copied_keys: "fst ` set (copied keys source) \<subseteq> set keys"
  by (auto simp: copied_def List.map_filter_def split: option.splits)

lemma fold_update_keys: "fst ` set (fold (\<lambda>(k, v). AList.update k v) ps m) = fst ` set m \<union> fst ` set ps"
  by (induction ps arbitrary: m) (auto simp: dom_update simp flip: dom_map_of_conv_image_fst)

lemma copyTokenizeChatFields_keys:
  "fst ` set m \<subseteq> tokenize_keys \<Longrightarrow> fst ` set (copyTokenizeChatFields m source) \<subseteq> tokenize_keys"
  using copied_keys [of tokenizeChatFields source]
  unfolding copyTokenizeChatFields_def fold_update_keys tokenize_keys_def by auto

lemma update_keys: "fst ` set (AList.update k v m) = insert k (fst ` set m)"
  by (auto simp: dom_update simp flip: dom_map_of_conv_image_fst)

lemma with_effort_keys: "fst ` set m \<subseteq> tokenize_keys \<Longrightarrow> fst ` set (with_effort body m) \<subseteq> tokenize_keys"
  by (auto simp: with_effort_def Let_def update_keys tokenize_keys_def tokenizeChatFields_def split: option.splits)

lemma with_continuation_keys:
  "fst ` set m \<subseteq> tokenize_keys \<Longrightarrow> fst ` set (with_continuation body m) \<subseteq> tokenize_keys"
  by (auto simp: with_continuation_def update_keys tokenize_keys_def tokenizeChatFields_def)

text \<open>The model of the tokenizer request is the resolved one: no copied field overrides it.\<close>

lemma fold_update_other:
  "k \<notin> fst ` set ps \<Longrightarrow> map_of (fold (\<lambda>(k, v). AList.update k v) ps m) k = map_of m k"
  by (induction ps arbitrary: m) auto

lemma copy_keeps: "k \<notin> set tokenizeChatFields \<Longrightarrow> map_of (copyTokenizeChatFields m source) k = map_of m k"
  unfolding copyTokenizeChatFields_def using copied_keys [of tokenizeChatFields source]
  by (intro fold_update_other) blast

lemma with_effort_keeps: "k \<noteq> ''chat_template_kwargs'' \<Longrightarrow> map_of (with_effort body m) k = map_of m k"
  by (simp add: with_effort_def Let_def split: option.splits)

lemma with_continuation_keeps:
  "k \<noteq> ''continue_final_message'' \<Longrightarrow> k \<noteq> ''add_generation_prompt'' \<Longrightarrow> map_of (with_continuation body m) k = map_of m k"
  by (simp add: with_continuation_def)

lemma chatTokenizeBody_ok:
  assumes "chatTokenizeBody body m = Inr b"
  shows "fst ` set b \<subseteq> tokenize_keys \<and> field b ''model'' = JString m"
proof -
  obtain ms where b: "b = copyTokenizeChatFields ([(''model'', JString m), (''messages'', JArray ms)] @ copied [''tools''] body) body"
    using assms by (auto simp: chatTokenizeBody_def split: option.splits)
  have "''model'' \<notin> set tokenizeChatFields" by (simp add: tokenizeChatFields_def)
  moreover have "fst ` set ([(''model'', JString m), (''messages'', JArray ms)] @ copied [''tools''] body) \<subseteq> tokenize_keys"
    using copied_keys [of "[''tools'']" body] by (auto simp: tokenize_keys_def)
  ultimately show ?thesis unfolding b by (simp add: copyTokenizeChatFields_keys copy_keeps field_def)
qed

lemma responsesTokenizeBody_ok:
  assumes "responsesTokenizeBody quote body m = Inr b"
  shows "fst ` set b \<subseteq> tokenize_keys \<and> field b ''model'' = JString m"
proof -
  obtain ms ts where b: "b = with_continuation body (with_effort body
      (copyTokenizeChatFields ([(''model'', JString m), (''messages'', JArray ms)] @ ts) body))"
    and ts: "fst ` set ts \<subseteq> {''tools''}"
    using assms unfolding responsesTokenizeBody_def Let_def
    by (fastforce split: option.splits sum.splits if_splits)
  have "''model'' \<notin> set tokenizeChatFields" by (simp add: tokenizeChatFields_def)
  moreover have "fst ` set ([(''model'', JString m), (''messages'', JArray ms)] @ ts) \<subseteq> tokenize_keys"
    using ts by (auto simp: tokenize_keys_def)
  ultimately show ?thesis
    unfolding b by (simp add: with_continuation_keys with_effort_keys copyTokenizeChatFields_keys
        with_continuation_keeps with_effort_keeps copy_keeps field_def)
qed

lemma tokenize_headers_ok: "header_get (tokenize_headers key) ''Authorization'' = ''Bearer '' @ key"
  by (simp add: tokenize_headers_def header_get_def header_values_def header_set_def)

lemma handleInputTokens_dispatched:
  assumes "snd (fst (handleInputTokens env r s)) = Some (m, path, b, h)"
  shows "cr_method r = ''POST'' \<and> cr_key r \<noteq> [] \<and> path = tokenizePath \<and> h = tokenize_headers (cr_key r)
    \<and> (\<exists>body. tokenize_body env (cr_path r) body m = Inr b)"
  using assms unfolding handleInputTokens_def Let_def by (auto split: if_splits sum.splits option.splits prod.splits)

text \<open>
  C34. A request to count tokens reaches a backend only as a tokenizer call made with the caller's own key: the
  method was POST, a key was given, the path is \<open>/tokenize\<close>, the model of the body is the resolved one, and the
  body holds nothing but that model, the messages, the tools and the fields of the chat template; in particular
  no field that would start a generation, name a cache partition or set a priority.
\<close>

theorem count_reaches_tokenizer_only:
  assumes "snd (fst (handleInputTokens env r s)) = Some (m, path, b, h)"
  shows "cr_method r = ''POST'' \<and> cr_key r \<noteq> [] \<and> path = ''/tokenize''
    \<and> header_get h ''Authorization'' = ''Bearer '' @ cr_key r \<and> field b ''model'' = JString m
    \<and> fst ` set b \<subseteq> {''model'', ''messages'', ''tools''} \<union> set tokenizeChatFields"
proof -
  note d = handleInputTokens_dispatched [OF assms]
  then obtain body where "tokenize_body env (cr_path r) body m = Inr b" by blast
  then have "fst ` set b \<subseteq> tokenize_keys \<and> field b ''model'' = JString m"
    unfolding tokenize_body_def using chatTokenizeBody_ok responsesTokenizeBody_ok by (auto split: if_splits)
  then show ?thesis using d by (simp add: tokenize_headers_ok tokenizePath_def tokenize_keys_def)
qed

definition count_body_example :: json_object where
  "count_body_example = [(''model'', JString ''m''), (''input'', JArray
     [JObject [(''type'', JString ''function_call''), (''call_id'', JString ''a''), (''name'', JString ''f''), (''arguments'', JString ''{}'')],
      JObject [(''type'', JString ''function_call''), (''call_id'', JString ''b''), (''name'', JString ''g''), (''arguments'', JString ''{}'')]]),
     (''priority'', JInt 1)]"

definition count_env_example :: "(unit count_dispatch_error, nat) token_env" where
  "count_env_example = \<lparr>te_quote = id, te_decode = (\<lambda>_. Inr (Some count_body_example)), te_encode = (\<lambda>_. Some ''b''),
     te_unmarshal = (\<lambda>_. None), te_count = (\<lambda>_. Some (Some 7)), te_resolve = None,
     te_dispatch = (\<lambda>_ _ _ _ n. (Inr (200, Some ''c''), n + 1))\<rparr>"

definition count_request_example :: count_request where
  "count_request_example = \<lparr>cr_method = ''POST'', cr_path = responsesInputTokensPath, cr_key = ''k'', cr_read = Inr []\<rparr>"

definition count_sent_example :: json_object where
  "count_sent_example = [(''model'', JString ''m''), (''messages'', JArray [JObject (call_message
     [JObject [(''id'', JString ''a''), (''type'', JString ''function''),
        (''function'', JObject [(''name'', JString ''f''), (''arguments'', JString ''{}'')])],
      JObject [(''id'', JString ''b''), (''type'', JString ''function''),
        (''function'', JObject [(''name'', JString ''g''), (''arguments'', JString ''{}'')])]])])]"

lemma count_example_run:
  "handleInputTokens count_env_example count_request_example 0
     = ((Count ''response.input_tokens'' 7, Some (''m'', ''/tokenize'', count_sent_example, tokenize_headers ''k'')), 1)"
  by code_simp

theorem count_reaches_tokenizer_only_witness:
  "snd (fst (handleInputTokens count_env_example count_request_example 0))
     = Some (''m'', ''/tokenize'', count_sent_example, tokenize_headers ''k'')
   \<and> fst ` set count_sent_example \<subseteq> {''model'', ''messages'', ''tools''} \<union> set tokenizeChatFields"
  using count_reaches_tokenizer_only [of count_env_example count_request_example 0 "''m''" "''/tokenize''" count_sent_example "tokenize_headers ''k''"]
    count_example_run by simp

text \<open>A count is answered only when the tokenizer gave one, and it is not negative.\<close>

lemma count_not_negative: "fst (fst (handleInputTokens env r s)) = Count obj n \<Longrightarrow> 0 \<le> n"
  unfolding handleInputTokens_def answer_of_def Let_def
  by (auto split: if_splits sum.splits option.splits prod.splits count_dispatch_error.splits)

text \<open>
  A trailing item of type \<open>reasoning\<close> would be continued by \<open>responsesContinuesFinalMessage\<close>, yet the conversion
  of the messages has refused it before.
\<close>

lemma reasoning_item_refused:
  "input_loop quote ms [JObject [(''type'', JString ''reasoning''), (''status'', JString ''incomplete'')]]
     = Inl (in_error (''Unsupported Responses input item type '' @ quote ''reasoning'' @ ''.''))
   \<and> responsesContinuesFinalMessage (JArray [JObject [(''type'', JString ''reasoning''), (''status'', JString ''incomplete'')]])"
  by (simp add: string_field_def field_def responsesContinuesFinalMessage_def)

end
