(* ===== verification/File_Inputs.thy ===== *)
theory File_Inputs
  imports Internal_Dispatch Auto_Route Request_Entry Go_Utf8
begin

text \<open>
  Files attached to chat and Responses requests (\<open>responses_file_inputs.go\<close>, \<open>manager/file_inputs.go\<close>): the
  decoding of a file part, the choice of the conversion mode, the conversion by the document backend and the
  content parts that replace the file. The MIME, multipart and JSON codecs and the transport are arguments; the
  conversion passes the state of the manager through. A failed rewrite leaves no body behind: its caller answers
  the error.
\<close>

section \<open>Strings and base64\<close>

text \<open>\<open>utf8.Valid\<close>, and \<open>strings.ToValidUTF8\<close> with an empty replacement.\<close>

definition bad_rune :: "string \<Rightarrow> bool" where "bad_rune s = (decode_rune s = (RuneError, 1))"

function utf8_Valid :: "string \<Rightarrow> bool" where
  "utf8_Valid s = (if s = [] then True else if bad_rune s then False else utf8_Valid (drop (snd (decode_rune s)) s))"
  by pat_completeness auto
termination
proof (relation "measure length")
  fix s :: string
  assume "s \<noteq> []"
  then show "(drop (snd (decode_rune s)) s, s) \<in> measure length" using decode_rune_width(1) [of s] by simp
qed simp

function ToValidUTF8 :: "string \<Rightarrow> string" where
  "ToValidUTF8 s =
     (if s = [] then []
      else (if bad_rune s then [] else take (snd (decode_rune s)) s) @ ToValidUTF8 (drop (snd (decode_rune s)) s))"
  by pat_completeness auto
termination
proof (relation "measure length")
  fix s :: string
  assume "s \<noteq> []"
  then show "(drop (snd (decode_rune s)) s, s) \<in> measure length" using decode_rune_width(1) [of s] by simp
qed simp

declare utf8_Valid.simps [simp del] ToValidUTF8.simps [simp del]

text \<open>\<open>base64.StdEncoding\<close> and \<open>base64.RawStdEncoding\<close>: line breaks are skipped, padding is required or refused.\<close>

definition std_alphabet :: string where
  "std_alphabet = ''ABCDEFGHIJKLMNOPQRSTUVWXYZabcdefghijklmnopqrstuvwxyz0123456789+/''"

definition unbroken :: "string \<Rightarrow> string" where "unbroken s = filter (\<lambda>c. c \<noteq> byte 10 \<and> c \<noteq> byte 13) s"

definition raw_decode :: "string \<Rightarrow> string option" where
  "raw_decode s =
     (case those (map (\<lambda>c. index_of 0 c std_alphabet) s) of
        None \<Rightarrow> None
      | Some ws \<Rightarrow> map_option (map char_of) (b64_bytes ws))"

definition RawStdEncoding_DecodeString :: "string \<Rightarrow> string option" where
  "RawStdEncoding_DecodeString s = raw_decode (unbroken s)"

definition unpadded :: "string \<Rightarrow> string" where
  "unpadded s = (if HasSuffix s ''=='' then take (length s - 2) s else if HasSuffix s ''='' then take (length s - 1) s else s)"

definition StdEncoding_DecodeString :: "string \<Rightarrow> string option" where
  "StdEncoding_DecodeString s =
     (let t = unbroken s in if length t mod 4 \<noteq> 0 then None else raw_decode (unpadded t))"

text \<open>\<open>filepath.Ext\<close>: the suffix from the last dot of the last path element.\<close>

definition Ext :: "string \<Rightarrow> string" where
  "Ext path =
     (let stem = takeWhile (\<lambda>c. c \<noteq> CHR ''/'') (rev path);
          suffix = takeWhile (\<lambda>c. c \<noteq> CHR ''.'') stem
      in if length suffix = length stem then [] else CHR ''.'' # rev suffix)"

section \<open>Conversion modes and results\<close>

definition FileConversionModeText :: string where "FileConversionModeText = ''text''"
definition FileConversionModeVision :: string where "FileConversionModeVision = ''vision''"
definition FileConversionModeImages :: string where "FileConversionModeImages = ''images''"
definition FileConversionModeRaw :: string where "FileConversionModeRaw = ''raw''"
definition FileConversionModeVLM :: string where "FileConversionModeVLM = ''vlm''"

definition FileConversionMode_IsValid :: "string \<Rightarrow> bool" where
  "FileConversionMode_IsValid m \<longleftrightarrow>
     m \<in> {[], FileConversionModeText, FileConversionModeVision, FileConversionModeImages, FileConversionModeRaw, FileConversionModeVLM}"

record ConvertedPage =
  cp_Page :: int
  cp_Text :: string
  cp_Image :: string
  cp_IsScanned :: bool

record ConvertedFile =
  MDContent :: string
  Pages :: "ConvertedPage list"

definition maxDocumentErrorDetailBytes :: nat where "maxDocumentErrorDetailBytes = 512"

definition errMsgDocumentInvalidResponse :: string where "errMsgDocumentInvalidResponse = ''Document processing returned an invalid response.''"
definition errMsgDocumentNoPages :: string where "errMsgDocumentNoPages = ''Document processing returned no pages.''"
definition errMsgDocumentEmpty :: string where "errMsgDocumentEmpty = ''Document processing returned no text content.''"
definition errMsgDocumentNotConfigured :: string where
  "errMsgDocumentNotConfigured = ''Document processing is not available on this deployment.''"
definition errMsgDocumentUnavailable :: string where
  "errMsgDocumentUnavailable = ''Document processing is temporarily unavailable. Please try again later.''"
definition errMsgDocumentBuildRequest :: string where "errMsgDocumentBuildRequest = ''Could not prepare the document for processing.''"
definition errMsgDocumentRequestFailed :: string where "errMsgDocumentRequestFailed = ''Document processing request failed.''"
definition errMsgDocumentReadResponse :: string where "errMsgDocumentReadResponse = ''Could not read the document processing response.''"
definition errMsgDocumentFailed :: string where "errMsgDocumentFailed = ''Document processing failed.''"
definition errMsgDocumentRateLimited :: string where
  "errMsgDocumentRateLimited = ''Rate limit reached for document processing. Please retry later.''"
definition errMsgDocumentFailedDetail :: string where "errMsgDocumentFailedDetail = ''Document processing failed: ''"

definition fileConversionError :: "int \<Rightarrow> string \<Rightarrow> APIError" where
  "fileConversionError status message =
     \<lparr>Status = status, Type = errTypeForStatus status, Code = ''document_processing_failed'', Param = [],
      Message = message, RetryAfter = []\<rparr>"

definition parseDocUploadResponse ::
  "(string \<Rightarrow> ConvertedFile option) \<Rightarrow> string \<Rightarrow> string \<Rightarrow> APIError + ConvertedFile" where
  "parseDocUploadResponse decode respBody mode =
     (case decode respBody of
        None \<Rightarrow> Inl (fileConversionError 502 errMsgDocumentInvalidResponse)
      | Some out \<Rightarrow>
          if mode = FileConversionModeImages
          then (if Pages out = [] then Inl (fileConversionError 502 errMsgDocumentNoPages) else Inr out)
          else if TrimSpace (MDContent out) = [] then Inl (fileConversionError 502 errMsgDocumentEmpty)
          else Inr out)"

definition maxHTTPErrorStatus :: int where "maxHTTPErrorStatus = 599"

definition error_detail :: "string \<Rightarrow> string" where
  "error_detail respBody =
     (let detail = TrimSpace respBody in
      if maxDocumentErrorDetailBytes < length detail
      then ToValidUTF8 (take maxDocumentErrorDetailBytes detail) @ ''...'' else detail)"

definition upstreamDocumentError ::
  "(string \<Rightarrow> bool) \<Rightarrow> (string \<Rightarrow> json_object option) \<Rightarrow> int \<Rightarrow> header \<Rightarrow> string \<Rightarrow> APIError" where
  "upstreamDocumentError parse_time dec status h respBody =
     (if status < 400 \<or> maxHTTPErrorStatus < status then fileConversionError 502 errMsgDocumentFailed
      else case NormalizeUpstreamError dec status respBody of
             (nerr, True) \<Rightarrow>
               WithRetryAfter parse_time
                 (if 500 \<le> status then nerr\<lparr>Message := errMsgDocumentFailed\<rparr> else nerr) h
           | (_, False) \<Rightarrow>
               if 500 \<le> status then WithRetryAfter parse_time (fileConversionError status errMsgDocumentFailed) h
               else if status = 429 then WithRetryAfter parse_time (WithMessage ErrRateLimited errMsgDocumentRateLimited) h
               else let detail = error_detail respBody in
                    if detail = [] then WithRetryAfter parse_time (fileConversionError status errMsgDocumentFailed) h
                    else WithRetryAfter parse_time (fileConversionError status (errMsgDocumentFailedDetail @ detail)) h)"

fun escape_byte :: "char \<Rightarrow> string" where
  "escape_byte c =
     (if c = CHR 0x5C then [CHR 0x5C, CHR 0x5C]
      else if c = CHR 0x22 then [CHR 0x5C, CHR 0x22]
      else if c = CHR 0x0D \<or> c = CHR 0x0A then ''_'' else [c])"

definition escapeMultipartFilename :: "string \<Rightarrow> string" where
  "escapeMultipartFilename filename = concat (map escape_byte filename)"

text \<open>\<open>media\<close> is \<open>mime.ParseMediaType\<close>, \<open>format\<close> is \<open>mime.FormatMediaType\<close>.\<close>

definition sanitizeMultipartContentType ::
  "(string \<Rightarrow> (string \<times> (string, string) gomap) option) \<Rightarrow> (string \<Rightarrow> (string, string) gomap \<Rightarrow> string) \<Rightarrow> string \<Rightarrow> string" where
  "sanitizeMultipartContentType media format contentType =
     (if contentType = [] \<or> CHR 0x0D \<in> set contentType \<or> CHR 0x0A \<in> set contentType then []
      else case media contentType of None \<Rightarrow> [] | Some (mediaType, params) \<Rightarrow> format mediaType params)"

section \<open>The document backend\<close>

record doc_request =
  dr_url :: string
  dr_header :: header
  dr_body :: string

text \<open>
  The world of a conversion: the multipart writer (content type and bytes of a part with these headers followed by
  the field \<open>to_format=md\<close>), the construction of the request, the exchange with the host (status, header and body
  read, bodies cut at the limit for errors), and the codecs.
\<close>

record doc_env =
  de_multipart :: "header \<Rightarrow> string \<Rightarrow> (string \<times> string) option"
  de_built :: "string \<Rightarrow> bool"
  de_exchange :: "doc_request \<Rightarrow> (int \<times> header \<times> string option) option"
  de_media :: "string \<Rightarrow> (string \<times> (string, string) gomap) option"
  de_format :: "string \<Rightarrow> (string, string) gomap \<Rightarrow> string"
  de_document :: "string \<Rightarrow> ConvertedFile option"
  de_errors :: "string \<Rightarrow> json_object option"
  de_time :: "string \<Rightarrow> bool"

definition part_headers :: "doc_env \<Rightarrow> string \<Rightarrow> string \<Rightarrow> header" where
  "part_headers env filename contentType =
     (let h = [(''Content-Disposition'', [''form-data; name=\"files\"; filename=\"'' @ escapeMultipartFilename filename @ [CHR 0x22]])];
          ct = sanitizeMultipartContentType (de_media env) (de_format env) contentType
      in if ct = [] then h else header_set ''Content-Type'' ct h)"

definition doc_reply :: "doc_env \<Rightarrow> string \<Rightarrow> (int \<times> header \<times> string option) option \<Rightarrow> APIError + ConvertedFile" where
  "doc_reply env mode resp =
     (case resp of
        None \<Rightarrow> Inl (fileConversionError 502 errMsgDocumentRequestFailed)
      | Some (status, h, body) \<Rightarrow>
          if status \<noteq> 200 then
            Inl (upstreamDocumentError (de_time env) (de_errors env) status h
                   (case body of None \<Rightarrow> [] | Some b \<Rightarrow> if MaxUpstreamErrorBodyBytes < int (length b) then [] else b))
          else case body of
                 None \<Rightarrow> Inl (fileConversionError 502 errMsgDocumentReadResponse)
               | Some b \<Rightarrow> parseDocUploadResponse (de_document env) b mode)"

definition convert_on :: "doc_env \<Rightarrow> string \<Rightarrow> string \<Rightarrow> string \<Rightarrow> string \<Rightarrow> string \<Rightarrow> string \<Rightarrow> APIError + ConvertedFile" where
  "convert_on env hostName authHeader filename contentType data mode =
     (case de_multipart env (part_headers env filename contentType) data of
        None \<Rightarrow> Inl (fileConversionError 500 errMsgDocumentBuildRequest)
      | Some (formType, body) \<Rightarrow>
          let url = ''https://'' @ hostName @ ''/v1/convert/file'' @ (if mode = [] then [] else ''?mode='' @ mode);
              h = header_set ''Content-Length'' (show_nat (length body)) (header_set ''Content-Type'' formType []);
              h1 = (if authHeader = [] then h else header_set ''Authorization'' authHeader h)
          in if \<not> de_built env url then Inl (fileConversionError 500 errMsgDocumentBuildRequest)
             else doc_reply env mode (de_exchange env \<lparr>dr_url = url, dr_header = h1, dr_body = body\<rparr>))"

definition ConvertFile ::
  "doc_env \<Rightarrow> time \<Rightarrow> enumeration \<Rightarrow> (nat \<Rightarrow> nat) \<Rightarrow> string \<Rightarrow> string \<Rightarrow> string \<Rightarrow> string \<Rightarrow> string \<Rightarrow> string \<Rightarrow> EnclaveManager
     \<Rightarrow> (APIError + ConvertedFile) \<times> EnclaveManager" where
  "ConvertFile env now enum rnd orgID authHeader filename contentType data mode em =
     (case map_of (models em) ''doc-upload'' of
        None \<Rightarrow> (Inl (fileConversionError 502 errMsgDocumentNotConfigured), em)
      | Some m \<Rightarrow>
          (case ReservationPools orgID m of
             (primary, spill, policy) \<Rightarrow>
               (case SelectServing now enum rnd [] False primary spill policy m of
                  (sel, m') \<Rightarrow>
                    (case sel_enclave sel of
                       None \<Rightarrow> (Inl (WithMessage ErrModelUnavailable errMsgDocumentUnavailable), set_model ''doc-upload'' m' em)
                     | Some e \<Rightarrow>
                         (convert_on env (host e) authHeader filename contentType data mode,
                          release_dispatch ''doc-upload'' (oid e) (set_model ''doc-upload'' m' em))))))"

section \<open>Decoding a file part\<close>

definition tinfoilModeFieldName :: string where "tinfoilModeFieldName = ''tinfoil_mode''"
definition paramResponsesFileData :: string where "paramResponsesFileData = ''input_file.file_data''"
definition paramResponsesFileID :: string where "paramResponsesFileID = ''input_file.file_id''"
definition paramChatFile :: string where "paramChatFile = ''file''"
definition paramChatFileData :: string where "paramChatFileData = ''file.file_data''"
definition paramChatFileID :: string where "paramChatFileID = ''file.file_id''"
definition paramResponsesTinfoilMode :: string where "paramResponsesTinfoilMode = ''input_file.'' @ tinfoilModeFieldName"
definition paramChatTinfoilMode :: string where "paramChatTinfoilMode = ''file.'' @ tinfoilModeFieldName"

definition fileInputError :: "string \<Rightarrow> string \<Rightarrow> APIError" where
  "fileInputError param msg = WithMessage (WithParam ErrInvalidRequest param) msg"

record decodedFileInput =
  fi_filename :: string
  fi_contentType :: string
  fi_data :: string

definition decodeBase64Payload :: "string \<Rightarrow> string option" where
  "decodeBase64Payload raw =
     (let trimmed = TrimSpace raw in
      if trimmed = [] then None
      else case StdEncoding_DecodeString trimmed of
             Some dfile \<Rightarrow> Some dfile
           | None \<Rightarrow> RawStdEncoding_DecodeString trimmed)"

definition decodeFileInput :: "string \<Rightarrow> string \<Rightarrow> string \<Rightarrow> APIError + decodedFileInput" where
  "decodeFileInput filename fileData paramName =
     (let finish = (\<lambda>contentType rawBase64.
            case decodeBase64Payload rawBase64 of
              None \<Rightarrow> Inl (fileInputError paramName (''Invalid base64 payload in '' @ paramName @ ''.''))
            | Some dfile \<Rightarrow>
                Inr \<lparr>fi_filename = (if filename = [] then ''uploaded-file'' else filename),
                     fi_contentType = contentType, fi_data = dfile\<rparr>)
      in if \<not> HasPrefix fileData ''data:'' then finish [] fileData
         else case split2 (CHR '','') fileData of
                (_, None) \<Rightarrow> Inl (fileInputError paramName (''Invalid data URL in '' @ paramName @ ''.''))
              | (mediaType, Some payload) \<Rightarrow>
                  if \<not> HasSuffix mediaType '';base64''
                  then Inl (fileInputError paramName (paramName @ '' must be base64-encoded.''))
                  else finish (TrimPrefix (TrimSuffix mediaType '';base64'') ''data:'') payload)"

text \<open>\<open>quote\<close> is the \<open>%q\<close> verb. The field is consumed: the part it was read from is replaced.\<close>

definition readTinfoilModeOverride :: "(string \<Rightarrow> string) \<Rightarrow> json_object \<Rightarrow> string \<Rightarrow> APIError + string" where
  "readTinfoilModeOverride quote holder param =
     (case map_of holder tinfoilModeFieldName of
        None \<Rightarrow> Inr []
      | Some JNull \<Rightarrow> Inr []
      | Some (JString v) \<Rightarrow>
          let mode = TrimSpace (ToLower v) in
          if mode = ''auto'' then Inr []
          else if \<not> FileConversionMode_IsValid mode
          then Inl (fileInputError param (''Invalid '' @ tinfoilModeFieldName @ '' value: '' @ quote v
                 @ ''. Valid values are auto, text, vision, images, raw, vlm.''))
          else Inr mode
      | Some _ \<Rightarrow> Inl (fileInputError param (tinfoilModeFieldName @ '' must be a string.'')))"

text \<open>The steps the two decoders share, on the object that holds the file.\<close>

definition decode_holder ::
  "(string \<Rightarrow> string) \<Rightarrow> string \<Rightarrow> string \<Rightarrow> string \<Rightarrow> json_object \<Rightarrow> APIError + decodedFileInput \<times> string" where
  "decode_holder quote paramID paramData paramMode holder =
     (if map_of holder ''file_id'' \<noteq> None
      then Inl (fileInputError paramID (''Only '' @ paramData @ '' is supported on this endpoint.''))
      else let fileData = string_field holder ''file_data'' in
           if fileData = []
           then Inl (fileInputError paramData (''Missing required parameter: '' @ [CHR 0x27] @ paramData @ [CHR 0x27] @ ''.''))
           else case readTinfoilModeOverride quote holder paramMode of
                  Inl e \<Rightarrow> Inl e
                | Inr mode \<Rightarrow>
                    (case decodeFileInput (string_field holder ''filename'') fileData paramData of
                       Inl e \<Rightarrow> Inl e
                     | Inr dfile \<Rightarrow> Inr (dfile, mode)))"

definition decodeResponsesInputFilePart :: "(string \<Rightarrow> string) \<Rightarrow> json_object \<Rightarrow> APIError + decodedFileInput \<times> string" where
  "decodeResponsesInputFilePart quote part =
     decode_holder quote paramResponsesFileID paramResponsesFileData paramResponsesTinfoilMode part"

definition decodeChatCompletionsFilePart :: "(string \<Rightarrow> string) \<Rightarrow> json_object \<Rightarrow> APIError + decodedFileInput \<times> string" where
  "decodeChatCompletionsFilePart quote part =
     (case as_object (field part ''file'') of
        None \<Rightarrow> Inl (fileInputError paramChatFile ''Missing required parameter: 'file' on file content part.'')
      | Some fileObj \<Rightarrow> decode_holder quote paramChatFileID paramChatFileData paramChatTinfoilMode fileObj)"

section \<open>Rendering\<close>

definition isInlineTextFile ::
  "(string \<Rightarrow> (string \<times> (string, string) gomap) option) \<Rightarrow> string \<Rightarrow> string \<Rightarrow> string \<Rightarrow> bool" where
  "isInlineTextFile media filename contentType data \<longleftrightarrow>
     utf8_Valid data
     \<and> (contentType \<noteq> []
          \<and> (let mediaType = (case media contentType of Some (m, _) \<Rightarrow> m | None \<Rightarrow> contentType)
             in HasPrefix mediaType ''text/''
                \<or> mediaType \<in> {''application/json'', ''application/xml'', ''application/yaml'', ''application/x-yaml''})
        \<or> ToLower (Ext filename) \<in> {''.txt'', ''.md'', ''.json'', ''.xml'', ''.yaml'', ''.yml'', ''.csv'', ''.html'', ''.htm''})"

definition renderFileInputText :: "string \<Rightarrow> string \<Rightarrow> string" where
  "renderFileInputText filename markdown =
     (if markdown = [] then ''[Attached file: '' @ filename @ '']''
      else ''[Attached file: '' @ filename @ '']'' @ [CHR 0x0A, CHR 0x0A] @ markdown)"

definition renderPageHeader :: "ConvertedPage \<Rightarrow> string" where
  "renderPageHeader p =
     (let label = ''Page '' @ show_int (cp_Page p) @ (if cp_IsScanned p then '' (scanned)'' else [])
      in if TrimSpace (cp_Text p) = [] then label @ '':'' else label @ '':'' @ [CHR 0x0A] @ cp_Text p)"

record partShape =
  textType :: string
  imagePart :: "string \<Rightarrow> json"

definition responsesPartShape :: partShape where
  "responsesPartShape = \<lparr>textType = ''input_text'',
     imagePart = (\<lambda>url. JObject [(''type'', JString ''input_image''), (''image_url'', JString url), (''detail'', JString ''auto'')])\<rparr>"

definition chatPartShape :: partShape where
  "chatPartShape = \<lparr>textType = ''text'',
     imagePart = (\<lambda>url. JObject [(''type'', JString ''image_url''),
                                  (''image_url'', JObject [(''url'', JString url), (''detail'', JString ''auto'')])])\<rparr>"

text \<open>What a rewrite is made with: the models that see images, the model, and the conversion.\<close>

type_synonym 'w processor = "string \<Rightarrow> string \<Rightarrow> string \<Rightarrow> string \<Rightarrow> string \<Rightarrow> 'w \<Rightarrow> (APIError + ConvertedFile) \<times> 'w"

record 'w rewriteContext =
  rc_isMultimodal :: "string \<Rightarrow> bool"
  rc_model :: string
  rc_process :: "'w processor"
  rc_media :: "string \<Rightarrow> (string \<times> (string, string) gomap) option"
  rc_quote :: "string \<Rightarrow> string"

definition newRewriteContext ::
  "doc_env \<Rightarrow> (string \<Rightarrow> string) \<Rightarrow> metadata \<Rightarrow> time \<Rightarrow> enumeration \<Rightarrow> (nat \<Rightarrow> nat) \<Rightarrow> string \<Rightarrow> string \<Rightarrow> EnclaveManager rewriteContext" where
  "newRewriteContext env quote md now enum rnd orgID name =
     \<lparr>rc_isMultimodal = IsMultimodal md, rc_model = name, rc_process = ConvertFile env now enum rnd orgID,
      rc_media = de_media env, rc_quote = quote\<rparr>"

definition visionCapable :: "'w rewriteContext \<Rightarrow> bool" where
  "visionCapable rc \<longleftrightarrow> rc_model rc \<noteq> [] \<and> rc_isMultimodal rc (rc_model rc)"

definition resolveFileMode :: "decodedFileInput \<Rightarrow> string \<Rightarrow> 'w rewriteContext \<Rightarrow> APIError + string \<times> bool" where
  "resolveFileMode dfile override rc =
     (if isInlineTextFile (rc_media rc) (fi_filename dfile) (fi_contentType dfile) (fi_data dfile) then Inr ([], True)
      else if override \<noteq> [] then
        (if override = FileConversionModeImages \<and> \<not> visionCapable rc
         then Inl (fileInputError tinfoilModeFieldName
                (tinfoilModeFieldName @ ''=images requires a vision-capable model; '' @ rc_quote rc (rc_model rc) @ '' is text-only.''))
         else Inr (override, False))
      else Inr (if visionCapable rc then FileConversionModeImages else FileConversionModeText, False))"

definition text_part :: "partShape \<Rightarrow> string \<Rightarrow> json" where
  "text_part shape txt = JObject [(''type'', JString (textType shape)), (''text'', JString txt)]"

definition page_parts :: "partShape \<Rightarrow> ConvertedPage \<Rightarrow> json list" where
  "page_parts shape p =
     text_part shape (renderPageHeader p)
     # (if cp_Image p = [] then [] else [imagePart shape (''data:image/png;base64,'' @ cp_Image p)])"

definition renderDecodedFile ::
  "string \<Rightarrow> decodedFileInput \<Rightarrow> string \<Rightarrow> 'w rewriteContext \<Rightarrow> partShape \<Rightarrow> 'w \<Rightarrow> (APIError + json list) \<times> 'w" where
  "renderDecodedFile authHeader dfile override rc shape w =
     (case resolveFileMode dfile override rc of
        Inl e \<Rightarrow> (Inl e, w)
      | Inr (mode, True) \<Rightarrow> (Inr [text_part shape (renderFileInputText (fi_filename dfile) (fi_data dfile))], w)
      | Inr (mode, False) \<Rightarrow>
          (case rc_process rc authHeader (fi_filename dfile) (fi_contentType dfile) (fi_data dfile) mode w of
             (Inl e, w1) \<Rightarrow> (Inl e, w1)
           | (Inr result, w1) \<Rightarrow>
               (Inr (if mode \<noteq> FileConversionModeImages
                     then [text_part shape (renderFileInputText (fi_filename dfile) (MDContent result))]
                     else text_part shape (''[Attached file: '' @ fi_filename dfile @ '']'')
                          # concat (map (page_parts shape) (Pages result))), w1)))"

section \<open>Rewriting a body\<close>

record endpoint =
  ep_items :: string
  ep_file :: string
  ep_decode :: "(string \<Rightarrow> string) \<Rightarrow> json_object \<Rightarrow> APIError + decodedFileInput \<times> string"
  ep_shape :: partShape

definition responses_endpoint :: endpoint where
  "responses_endpoint = \<lparr>ep_items = ''input'', ep_file = ''input_file'', ep_decode = decodeResponsesInputFilePart,
     ep_shape = responsesPartShape\<rparr>"

definition chat_endpoint :: endpoint where
  "chat_endpoint = \<lparr>ep_items = ''messages'', ep_file = ''file'', ep_decode = decodeChatCompletionsFilePart,
     ep_shape = chatPartShape\<rparr>"

definition is_file :: "endpoint \<Rightarrow> json \<Rightarrow> bool" where
  "is_file ep rawPart = (case as_object rawPart of None \<Rightarrow> False | Some part \<Rightarrow> string_field part ''type'' = ep_file ep)"

definition rewrite_part ::
  "endpoint \<Rightarrow> string \<Rightarrow> 'w rewriteContext \<Rightarrow> json \<Rightarrow> 'w \<Rightarrow> (APIError + json list) \<times> 'w" where
  "rewrite_part ep authHeader rc rawPart w =
     (case as_object rawPart of
        None \<Rightarrow> (Inr [rawPart], w)
      | Some part \<Rightarrow>
          if string_field part ''type'' \<noteq> ep_file ep then (Inr [rawPart], w)
          else case ep_decode ep (rc_quote rc) part of
                 Inl e \<Rightarrow> (Inl e, w)
               | Inr (dfile, mode) \<Rightarrow> renderDecodedFile authHeader dfile mode rc (ep_shape ep) w)"

fun rewrite_parts ::
  "endpoint \<Rightarrow> string \<Rightarrow> 'w rewriteContext \<Rightarrow> json list \<Rightarrow> 'w \<Rightarrow> (APIError + json list) \<times> 'w" where
  "rewrite_parts ep authHeader rc [] w = (Inr [], w)"
| "rewrite_parts ep authHeader rc (p # ps) w =
     (case rewrite_part ep authHeader rc p w of
        (Inl e, w1) \<Rightarrow> (Inl e, w1)
      | (Inr qs, w1) \<Rightarrow>
          (case rewrite_parts ep authHeader rc ps w1 of
             (Inl e, w2) \<Rightarrow> (Inl e, w2)
           | (Inr rs, w2) \<Rightarrow> (Inr (qs @ rs), w2)))"

definition rewrite_item ::
  "endpoint \<Rightarrow> string \<Rightarrow> 'w rewriteContext \<Rightarrow> json \<Rightarrow> 'w \<Rightarrow> (APIError + json) \<times> 'w" where
  "rewrite_item ep authHeader rc item w =
     (case as_object item of
        None \<Rightarrow> (Inr item, w)
      | Some msg \<Rightarrow>
          (case as_array (field msg ''content'') of
             None \<Rightarrow> (Inr item, w)
           | Some contentItems \<Rightarrow>
               (case rewrite_parts ep authHeader rc contentItems w of
                  (Inl e, w1) \<Rightarrow> (Inl e, w1)
                | (Inr newContent, w1) \<Rightarrow> (Inr (JObject (AList.update ''content'' (JArray newContent) msg)), w1))))"

fun rewrite_items ::
  "endpoint \<Rightarrow> string \<Rightarrow> 'w rewriteContext \<Rightarrow> json list \<Rightarrow> 'w \<Rightarrow> (APIError + json list) \<times> 'w" where
  "rewrite_items ep authHeader rc [] w = (Inr [], w)"
| "rewrite_items ep authHeader rc (i # is) w =
     (case rewrite_item ep authHeader rc i w of
        (Inl e, w1) \<Rightarrow> (Inl e, w1)
      | (Inr j, w1) \<Rightarrow>
          (case rewrite_items ep authHeader rc is w1 of
             (Inl e, w2) \<Rightarrow> (Inl e, w2)
           | (Inr js, w2) \<Rightarrow> (Inr (j # js), w2)))"

definition contents_of :: "json \<Rightarrow> json list" where
  "contents_of item =
     (case as_object item of
        None \<Rightarrow> []
      | Some msg \<Rightarrow> (case as_array (field msg ''content'') of None \<Rightarrow> [] | Some ps \<Rightarrow> ps))"

definition rewrite_body ::
  "endpoint \<Rightarrow> string \<Rightarrow> 'w rewriteContext \<Rightarrow> json_object \<Rightarrow> 'w \<Rightarrow> (APIError + json_object \<times> bool) \<times> 'w" where
  "rewrite_body ep authHeader rc body w =
     (case as_array (field body (ep_items ep)) of
        None \<Rightarrow> (Inr (body, False), w)
      | Some items \<Rightarrow>
          (case rewrite_items ep authHeader rc items w of
             (Inl e, w1) \<Rightarrow> (Inl e, w1)
           | (Inr items1, w1) \<Rightarrow>
               (Inr (AList.update (ep_items ep) (JArray items1) body,
                     list_ex (\<lambda>i. list_ex (is_file ep) (contents_of i)) items), w1)))"

definition rewriteResponsesBase64FilesWithProcessor where
  "rewriteResponsesBase64FilesWithProcessor body authHeader rc = rewrite_body responses_endpoint authHeader rc body"

definition rewriteChatCompletionsBase64FilesWithProcessor where
  "rewriteChatCompletionsBase64FilesWithProcessor body authHeader rc = rewrite_body chat_endpoint authHeader rc body"

definition rewriteResponsesBase64Files where
  "rewriteResponsesBase64Files env quote md now enum rnd orgID body authHeader name =
     rewriteResponsesBase64FilesWithProcessor body authHeader (newRewriteContext env quote md now enum rnd orgID name)"

definition rewriteChatCompletionsBase64Files where
  "rewriteChatCompletionsBase64Files env quote md now enum rnd orgID body authHeader name =
     rewriteChatCompletionsBase64FilesWithProcessor body authHeader (newRewriteContext env quote md now enum rnd orgID name)"

section \<open>The name of a file in the form\<close>

text \<open>A reader of a quoted string: a backslash takes the next byte as it is, an unescaped quote ends it.\<close>

fun read_quoted :: "string \<Rightarrow> (string \<times> string) option" where
  "read_quoted [] = None"
| "read_quoted [c] = (if c = CHR 0x22 then Some ([], []) else None)"
| "read_quoted (c # d # cs) =
     (if c = CHR 0x22 then Some ([], d # cs)
      else if c = CHR 0x5C then map_option (map_prod (Cons d) id) (read_quoted cs)
      else map_option (map_prod (Cons c) id) (read_quoted (d # cs)))"

definition one_line :: "string \<Rightarrow> string" where
  "one_line f = map (\<lambda>c. if c = CHR 0x0D \<or> c = CHR 0x0A then CHR ''_'' else c) f"

lemma read_quoted_plain:
  "c \<noteq> CHR 0x22 \<Longrightarrow> c \<noteq> CHR 0x5C \<Longrightarrow> s \<noteq> [] \<Longrightarrow> read_quoted (c # s) = map_option (map_prod (Cons c) id) (read_quoted s)"
  by (cases s) simp_all

lemma read_quoted_escape:
  "s \<noteq> [] \<Longrightarrow> read_quoted (escape_byte c @ s) = map_option (map_prod (Cons (hd (one_line [c]))) id) (read_quoted s)"
  by (cases s) (auto simp: one_line_def read_quoted_plain)

text \<open>
  C33. A file name cannot break out of the form it is sent in: a reader of the quoted \<open>filename\<close> parameter gets the
  name back with its line breaks replaced, and goes on exactly behind the closing quote; no line break is written.
\<close>

theorem filename_read_back:
  "read_quoted (escapeMultipartFilename f @ CHR 0x22 # rest) = Some (one_line f, rest)
   \<and> set (escapeMultipartFilename f) \<inter> {CHR 0x0D, CHR 0x0A} = {}"
proof (induction f)
  case Nil
  then show ?case by (cases rest) (simp_all add: escapeMultipartFilename_def one_line_def)
next
  case (Cons c f)
  have "read_quoted (escape_byte c @ (escapeMultipartFilename f @ CHR 0x22 # rest))
      = map_option (map_prod (Cons (hd (one_line [c]))) id) (read_quoted (escapeMultipartFilename f @ CHR 0x22 # rest))"
    by (rule read_quoted_escape) simp
  then show ?case using Cons by (auto simp: escapeMultipartFilename_def one_line_def)
qed

section \<open>What replaces a file\<close>

definition part_type :: "json \<Rightarrow> string" where
  "part_type p = (case as_object p of None \<Rightarrow> [] | Some part \<Rightarrow> string_field part ''type'')"

definition image_type :: "partShape \<Rightarrow> string" where
  "image_type shape = part_type (imagePart shape [])"

text \<open>The parts that may stand for \<open>p\<close>: itself when it is no file, otherwise text, and images for models that see.\<close>

definition replaced :: "endpoint \<Rightarrow> 'w rewriteContext \<Rightarrow> json \<Rightarrow> json list \<Rightarrow> bool" where
  "replaced ep rc p qs =
     (if is_file ep p
      then qs \<noteq> [] \<and> list_all (\<lambda>q. part_type q = textType (ep_shape ep)
                \<or> visionCapable rc \<and> part_type q = image_type (ep_shape ep)) qs
      else qs = [p])"

definition item_replaced :: "endpoint \<Rightarrow> 'w rewriteContext \<Rightarrow> json \<Rightarrow> json \<Rightarrow> bool" where
  "item_replaced ep rc i j =
     (\<exists>qss. list_all2 (replaced ep rc) (contents_of i) qss
        \<and> (case as_object i of
             None \<Rightarrow> j = i
           | Some msg \<Rightarrow> if as_array (field msg ''content'') = None then j = i
                          else j = JObject (AList.update ''content'' (JArray (concat qss)) msg)))"

definition known_endpoint :: "endpoint \<Rightarrow> bool" where
  "known_endpoint ep \<longleftrightarrow> ep = responses_endpoint \<or> ep = chat_endpoint"

lemma text_part_type [simp]: "part_type (text_part shape t) = textType shape"
  by (simp add: part_type_def text_part_def string_field_def field_def)

lemma image_part_type: "known_endpoint ep \<Longrightarrow> part_type (imagePart (ep_shape ep) u) = image_type (ep_shape ep)"
  by (auto simp: known_endpoint_def responses_endpoint_def chat_endpoint_def responsesPartShape_def chatPartShape_def
      image_type_def part_type_def string_field_def field_def)

lemma resolved_images: "resolveFileMode dfile override rc = Inr (FileConversionModeImages, False) \<Longrightarrow> visionCapable rc"
  by (auto simp: resolveFileMode_def FileConversionModeImages_def FileConversionModeText_def split: if_splits)

lemma renderDecodedFile_parts:
  assumes "known_endpoint ep" "renderDecodedFile authHeader dfile override rc (ep_shape ep) w = (Inr qs, w')"
  shows "qs \<noteq> [] \<and> list_all (\<lambda>q. part_type q = textType (ep_shape ep)
    \<or> visionCapable rc \<and> part_type q = image_type (ep_shape ep)) qs"
  using assms(2) resolved_images [of dfile override rc] image_part_type [OF assms(1)]
  unfolding renderDecodedFile_def
  by (auto simp: list_all_iff page_parts_def split: sum.splits prod.splits bool.splits if_splits)

lemma rewrite_part_replaced:
  assumes "known_endpoint ep" "rewrite_part ep authHeader rc p w = (Inr qs, w')"
  shows "replaced ep rc p qs"
  using assms(2)
  by (auto simp: rewrite_part_def replaced_def is_file_def dest!: renderDecodedFile_parts [OF assms(1)]
      split: option.splits if_splits sum.splits)

lemma rewrite_parts_replaced:
  assumes "known_endpoint ep"
  shows "rewrite_parts ep authHeader rc ps w = (Inr qs, w') \<Longrightarrow> \<exists>qss. list_all2 (replaced ep rc) ps qss \<and> qs = concat qss"
proof (induction ps arbitrary: w qs w')
  case (Cons p ps)
  then obtain q w1 rs w2 where q: "rewrite_part ep authHeader rc p w = (Inr q, w1)"
    and rs: "rewrite_parts ep authHeader rc ps w1 = (Inr rs, w2)" and qs: "qs = q @ rs"
    by (auto split: prod.splits sum.splits)
  obtain qss where "list_all2 (replaced ep rc) ps qss" "rs = concat qss" using Cons.IH [OF rs] by blast
  then have "list_all2 (replaced ep rc) (p # ps) (q # qss) \<and> qs = concat (q # qss)"
    using rewrite_part_replaced [OF assms q] qs by simp
  then show ?case by blast
qed simp

lemma rewrite_item_replaced:
  assumes "known_endpoint ep" "rewrite_item ep authHeader rc i w = (Inr j, w')"
  shows "item_replaced ep rc i j"
proof (cases "as_object i")
  case None
  then show ?thesis using assms(2) by (simp add: rewrite_item_def item_replaced_def contents_of_def)
next
  case (Some msg)
  show ?thesis
  proof (cases "as_array (field msg ''content'')")
    case None
    then show ?thesis using assms(2) Some by (simp add: rewrite_item_def item_replaced_def contents_of_def)
  next
    case (Some ps)
    then obtain qs w1 where "rewrite_parts ep authHeader rc ps w = (Inr qs, w1)"
      and "j = JObject (AList.update ''content'' (JArray qs) msg)"
      using assms(2) \<open>as_object i = Some msg\<close> by (auto simp: rewrite_item_def split: prod.splits sum.splits)
    then show ?thesis
      using rewrite_parts_replaced [OF assms(1)] \<open>as_object i = Some msg\<close> Some
      by (fastforce simp: item_replaced_def contents_of_def)
  qed
qed

lemma rewrite_items_replaced:
  assumes "known_endpoint ep"
  shows "rewrite_items ep authHeader rc is w = (Inr js, w') \<Longrightarrow> list_all2 (item_replaced ep rc) is js"
proof (induction "is" arbitrary: w js w')
  case (Cons i "is")
  then show ?case using rewrite_item_replaced [OF assms]
    by (auto split: prod.splits sum.splits)
qed simp

lemma endpoint_types:
  "known_endpoint ep \<Longrightarrow> ep_file ep \<noteq> [] \<and> textType (ep_shape ep) \<noteq> ep_file ep \<and> image_type (ep_shape ep) \<noteq> ep_file ep"
  by (auto simp: known_endpoint_def image_type_def part_type_def responses_endpoint_def chat_endpoint_def
      responsesPartShape_def chatPartShape_def string_field_def field_def)

lemma is_file_type: "is_file ep q \<Longrightarrow> part_type q = ep_file ep"
  by (auto simp: is_file_def part_type_def split: option.splits)

lemma replaced_no_file: "known_endpoint ep \<Longrightarrow> replaced ep rc p qs \<Longrightarrow> q \<in> set qs \<Longrightarrow> \<not> is_file ep q"
  using endpoint_types [of ep] is_file_type [of ep q] by (auto simp: replaced_def list_all_iff split: if_splits)

lemma list_all2_source: "list_all2 P xs ys \<Longrightarrow> y \<in> set ys \<Longrightarrow> \<exists>x\<in>set xs. P x y"
  by (induction rule: list_all2_induct) auto

lemma item_replaced_no_file:
  assumes "known_endpoint ep" "item_replaced ep rc i j" "q \<in> set (contents_of j)"
  shows "\<not> is_file ep q"
proof -
  obtain qss where r: "list_all2 (replaced ep rc) (contents_of i) qss"
    and j: "contents_of j = concat qss"
    using assms(2) by (cases "as_object i"; cases "as_array (field (the (as_object i)) ''content'')")
      (auto simp: item_replaced_def contents_of_def)
  then obtain qs where "qs \<in> set qss" "q \<in> set qs" using assms(3) by auto
  then obtain p where "replaced ep rc p qs" using list_all2_source [OF r] by blast
  then show ?thesis using replaced_no_file [OF assms(1)] \<open>q \<in> set qs\<close> by blast
qed

text \<open>
  C27. A body that was rewritten has its files replaced in place: message for message and part for part, a part that
  is no file stays as it is, and a file becomes one or more text parts, with images only when the model is one that
  takes images; no file part is left. All other fields of the messages and of the body are kept.
\<close>

theorem files_replaced_in_place:
  assumes "ep = responses_endpoint \<or> ep = chat_endpoint"
    and "rewrite_body ep authHeader rc body w = (Inr (body', rewritten), w')"
  shows "(case as_array (field body (ep_items ep)) of
            None \<Rightarrow> body' = body
          | Some items \<Rightarrow> \<exists>items'. body' = AList.update (ep_items ep) (JArray items') body
              \<and> list_all2 (item_replaced ep rc) items items'
              \<and> list_all (\<lambda>j. list_all (\<lambda>q. \<not> is_file ep q) (contents_of j)) items')"
proof (cases "as_array (field body (ep_items ep))")
  case None
  then show ?thesis using assms(2) by (simp add: rewrite_body_def)
next
  case (Some items)
  then obtain items' w1 where "rewrite_items ep authHeader rc items w = (Inr items', w1)"
    and b: "body' = AList.update (ep_items ep) (JArray items') body"
    using assms(2) by (auto simp: rewrite_body_def split: prod.splits sum.splits)
  moreover have ep: "known_endpoint ep" using assms(1) by (simp add: known_endpoint_def)
  ultimately have r: "list_all2 (item_replaced ep rc) items items'" by (intro rewrite_items_replaced)
  have "\<not> is_file ep q" if j: "j \<in> set items'" and q: "q \<in> set (contents_of j)" for j q
  proof -
    obtain i where "item_replaced ep rc i j" using list_all2_source [OF r j] by blast
    then show ?thesis using item_replaced_no_file [OF ep] q by blast
  qed
  then have "list_all (\<lambda>j. list_all (\<lambda>q. \<not> is_file ep q) (contents_of j)) items'" by (simp add: list_all_iff)
  then show ?thesis using b r Some by auto
qed

definition context_for :: "bool \<Rightarrow> nat rewriteContext" where
  "context_for sees = \<lparr>rc_isMultimodal = (\<lambda>_. sees), rc_model = ''m'',
     rc_process = (\<lambda>_ _ _ _ mode n. (Inr \<lparr>MDContent = ''md'', Pages = [\<lparr>cp_Page = 1, cp_Text = [], cp_Image = ''aa'', cp_IsScanned = False\<rparr>]\<rparr>, n + 1)),
     rc_media = (\<lambda>_. None), rc_quote = id\<rparr>"

definition file_body_example :: json_object where
  "file_body_example = [(''messages'', JArray [JObject [(''role'', JString ''user''), (''content'', JArray
     [JObject [(''type'', JString ''text''), (''text'', JString ''hi'')],
      JObject [(''type'', JString ''file''), (''file'', JObject [(''file_data'', JString ''AA''), (''filename'', JString ''a.pdf'')])]])]])]"

definition rewritten_example :: json_object where
  "rewritten_example = [(''messages'', JArray [JObject [(''role'', JString ''user''), (''content'', JArray
     [JObject [(''type'', JString ''text''), (''text'', JString ''hi'')],
      text_part chatPartShape ''[Attached file: a.pdf]'', text_part chatPartShape ''Page 1:'',
      imagePart chatPartShape ''data:image/png;base64,aa''])]])]"

lemma payload_example: "decodeBase64Payload ''AA'' = Some [CHR 0x00]"
proof -
  have "TrimSpace ''AA'' = ''AA''" by (rule TrimSpace_graphic) (simp_all add: graphic_def)
  moreover have "StdEncoding_DecodeString ''AA'' = None" "RawStdEncoding_DecodeString ''AA'' = Some [CHR 0x00]" by code_simp+
  ultimately show ?thesis by (simp add: decodeBase64Payload_def)
qed

lemma not_inline_example: "\<not> isInlineTextFile (\<lambda>_. None) ''a.pdf'' [] [CHR 0x00]"
  by (simp add: isInlineTextFile_def Ext_def ToLower_def to_lower_char_def)

lemma show_one: "show_nat (Suc 0) = ''1''"
  by code_simp

lemma rewrite_example: "rewrite_body chat_endpoint [] (context_for True) file_body_example 0 = (Inr (rewritten_example, True), 1)"
  by (simp add: rewrite_body_def chat_endpoint_def file_body_example_def field_def string_field_def rewrite_item_def
      rewrite_part_def decodeChatCompletionsFilePart_def decode_holder_def readTinfoilModeOverride_def tinfoilModeFieldName_def
      decodeFileInput_def HasPrefix_def payload_example renderDecodedFile_def resolveFileMode_def context_for_def
      not_inline_example visionCapable_def page_parts_def renderPageHeader_def show_int_def show_one rewritten_example_def
      chatPartShape_def text_part_def is_file_def contents_of_def)

theorem files_replaced_in_place_witness:
  "rewrite_body chat_endpoint [] (context_for True) file_body_example 0 = (Inr (rewritten_example, True), 1)
   \<and> (\<exists>items'. rewritten_example = AList.update ''messages'' (JArray items') file_body_example
        \<and> list_all (\<lambda>j. list_all (\<lambda>q. \<not> is_file chat_endpoint q) (contents_of j)) items')"
  using files_replaced_in_place [OF _ rewrite_example] rewrite_example
  by (auto simp: chat_endpoint_def [THEN arg_cong, of ep_items] file_body_example_def field_def)

section \<open>Errors of the document backend\<close>

lemma length_ToValidUTF8: "length (ToValidUTF8 s) \<le> length s"
proof (induction s rule: ToValidUTF8.induct)
  case (1 s)
  show ?case
  proof (cases "s = []")
    case False
    note w = decode_rune_width [OF False]
    have "length (ToValidUTF8 s) \<le> snd (decode_rune s) + length (drop (snd (decode_rune s)) s)"
      using 1 [OF False] False by (subst ToValidUTF8.simps) auto
    then show ?thesis using w by simp
  qed (simp add: ToValidUTF8.simps)
qed

lemma error_detail_bounded: "length (error_detail body) \<le> 515"
  using length_ToValidUTF8 [of "take maxDocumentErrorDetailBytes (TrimSpace body)"]
  by (auto simp: error_detail_def Let_def maxDocumentErrorDetailBytes_def)



section \<open>Reservations of the document backend\<close>

lemma ConvertFile_bound:
  "snd (ConvertFile env now enum rnd orgID authHeader filename contentType data mode em)
     = (case boundHTTPClientPreferring now enum rnd orgID ''doc-upload'' [] False em of
          (Inl _, em1) \<Rightarrow> em1
        | (Inr (e, _), em1) \<Rightarrow> release_dispatch ''doc-upload'' (oid e) em1)"
  by (auto simp: ConvertFile_def boundHTTPClientPreferring_def split: option.splits prod.splits)

text \<open>
  A conversion is a run of the manager's step relation that gives its reservation back on every path.
\<close>

lemma ConvertFile_run:
  assumes "picks rnd" "\<forall>m. map_of (models em) ''doc-upload'' = Some m \<longrightarrow> enumerates enum m"
  shows "steps V (sys em ts)
    (sys (snd (ConvertFile env now enum rnd orgID authHeader filename contentType data mode em)) ts)"
proof -
  obtain r em1 where b: "boundHTTPClientPreferring now enum rnd orgID ''doc-upload'' [] False em = (r, em1)" by force
  note st = bound_steps [OF assms b, of V ts]
  show ?thesis
  proof (cases r)
    case (Inl e)
    then show ?thesis using st b by (simp add: ConvertFile_bound)
  next
    case (Inr x)
    obtain e claim where x: "x = (e, claim)" by force
    from st Inr x have "steps V (sys em ts) (sys em1 ((''doc-upload'', oid e) # ts))" and "map_of (models em1) ''doc-upload'' \<noteq> None"
      by auto
    moreover have "steps V (sys em1 ((''doc-upload'', oid e) # ts)) (sys (release_dispatch ''doc-upload'' (oid e) em1) ts)"
      using release_steps [of "''doc-upload''" "oid e" "(''doc-upload'', oid e) # ts" em1 V] calculation(2) by simp
    ultimately show ?thesis using b Inr x by (simp add: ConvertFile_bound)
  qed
qed

end
