(* ===== verification/Router_Entry.thy ===== *)
theory Router_Entry
  imports Request_Limits Route_Context Tool_Options Billing Input_Tokens File_Inputs
begin

text \<open>
  The way of a request to a model (\<open>newRouterHandler\<close> of \<open>main.go\<close>, up to the choice of a backend): endpoints the
  router answers itself, the model of the request, its admission, and the body that is forwarded. The shared services
  (the table of models, the control-plane client, the document backend, the published catalog) are operations on a
  state of any type, so other requests may act in between; \<open>hs_trace\<close> records what the request did to them, the
  latest first. A
  request stops with an answer or, where the code panics, without one.
\<close>

section \<open>Requests, answers and the state of a request\<close>

record http_request =
  hq_method :: string
  hq_path :: string
  hq_query :: "string \<Rightarrow> string"
  hq_header :: header
  hq_body :: "wire_body option"

datatype answer =
    ErrorAnswer APIError
  | JsonAnswer int json
  | RedirectAnswer string
  | MetricsAnswer
  | ModelsAnswer string
  | CountedTokens string int

datatype stop = Answered answer | Panicked

text \<open>What a request does to the shared services; an admission carries its verdict.\<close>

datatype event =
    AskedMetadata
  | AskedAdmission string string bool
  | ReportedUnknown string
  | ConvertedFile string
  | CountedAt string
  | RanTools string
  | Dispatched string string

record 'w hstate =
  hs_world :: 'w
  hs_org :: "routeContext option"
  hs_resp :: header
  hs_trace :: "event list"

record 'w services =
  sx_models :: "'w \<Rightarrow> (string, Model) gomap"
  sx_ready :: "'w \<Rightarrow> bool"
  sx_status :: "'w \<Rightarrow> json_object"
  sx_targets :: "'w \<Rightarrow> json"
  sx_client :: bool
  sx_lookup :: "string \<Rightarrow> string \<Rightarrow> 'w \<Rightarrow> ((routeContext \<times> routeContextError option) \<times> 'w) option"
  sx_metadata :: "string \<Rightarrow> 'w \<Rightarrow> (routeContext \<times> routeContextError option) \<times> 'w"
  sx_cached_org :: "string \<Rightarrow> string \<Rightarrow> 'w \<Rightarrow> string \<times> 'w"
  sx_convert :: "string \<Rightarrow> 'w processor"
  sx_multimodal :: "'w \<Rightarrow> string \<Rightarrow> bool"
  sx_catalog :: "'w \<Rightarrow> AutoModel list"
  sx_auto_status :: "'w \<Rightarrow> string \<Rightarrow> string \<Rightarrow> bool \<times> bool"
  sx_count :: "string \<Rightarrow> string \<Rightarrow> string \<Rightarrow> string \<Rightarrow> header \<Rightarrow> 'w \<Rightarrow> (go_error + int \<times> string option) \<times> 'w"

datatype models_fetch = BadURL | FetchFailed | Fetched int "string option"

text \<open>Codecs, hashes and the settings of the process; \<open>ge_models_list\<close> is the control plane's answer to a list of models.\<close>

record gateway =
  ge_decode :: "string \<Rightarrow> body_error + json_object option \<times> string"
  ge_unmarshal :: "string \<Rightarrow> body_error + json_object option"
  ge_encode :: "json \<Rightarrow> string option"
  ge_quote :: "string \<Rightarrow> string"
  ge_media :: "string \<Rightarrow> (string \<times> (string, string) gomap) option"
  ge_multipart :: "string \<Rightarrow> string \<Rightarrow> (string \<times> string) list"
  ge_error_body :: "string \<Rightarrow> json_object option"
  ge_count :: "string \<Rightarrow> int option option"
  ge_entries :: "string \<Rightarrow> (string \<times> json_object list) option"
  ge_sha :: "string \<Rightarrow> string"
  ge_json_string :: "string \<Rightarrow> string \<Rightarrow> string option"
  ge_float :: "string \<Rightarrow> rat option"
  ge_scores :: "AutoModel \<Rightarrow> (string \<times> int) list"
  ge_usage_context :: "header \<Rightarrow> string \<Rightarrow> duration \<Rightarrow> (unit + usage_context) option"
  ge_key_hash :: "string \<Rightarrow> string \<Rightarrow> bool"
  ge_context_secret :: string
  ge_context_text :: "context_error \<Rightarrow> string"
  ge_models_list :: models_fetch
  ge_salting :: bool
  ge_version :: string

text \<open>A step that may stop the request.\<close>

definition andThen :: "('e + 'a) \<times> 's \<Rightarrow> ('a \<Rightarrow> 's \<Rightarrow> ('e + 'b) \<times> 's) \<Rightarrow> ('e + 'b) \<times> 's" where
  "andThen m f = (case m of (Inl e, s) \<Rightarrow> (Inl e, s) | (Inr x, s) \<Rightarrow> f x s)"

lemma andThen_Inl [simp]: "andThen (Inl e, s) f = (Inl e, s)"
  by (simp add: andThen_def)

lemma andThen_Inr [simp]: "andThen (Inr x, s) f = f x s"
  by (simp add: andThen_def)

definition reply_error :: "APIError \<Rightarrow> 's \<Rightarrow> (stop + 'a) \<times> 's" where
  "reply_error e s = (Inl (Answered (ErrorAnswer e)), s)"

definition or_error :: "APIError + 'a \<Rightarrow> 's \<Rightarrow> (stop + 'a) \<times> 's" where
  "or_error r s = (case r of Inl e \<Rightarrow> reply_error e s | Inr x \<Rightarrow> (Inr x, s))"

definition traced :: "event \<Rightarrow> 'w hstate \<Rightarrow> 'w hstate" where
  "traced e s = s\<lparr>hs_trace := e # hs_trace s\<rparr>"

section \<open>The caller's organisation and its admission\<close>

definition retry_header :: "string \<Rightarrow> 'w hstate \<Rightarrow> 'w hstate" where
  "retry_header v s = (if v = [] then s else s\<lparr>hs_resp := header_set ''Retry-After'' v (hs_resp s)\<rparr>)"

definition org_of :: "'w services \<Rightarrow> string \<Rightarrow> string \<Rightarrow> routeContext \<Rightarrow> 'w hstate \<Rightarrow> (APIError + string) \<times> 'w hstate" where
  "org_of sx apiKey name r s =
     (if rc_unavailable r \<and> sx_client sx
      then case sx_cached_org sx apiKey name (hs_world s) of (org, w) \<Rightarrow> (Inr org, s\<lparr>hs_world := w\<rparr>)
      else (Inr (rc_OrgID r), s))"

definition resolveOrg :: "'w services \<Rightarrow> string \<Rightarrow> string \<Rightarrow> 'w hstate \<Rightarrow> (APIError + string) \<times> 'w hstate" where
  "resolveOrg sx apiKey name s =
     (case hs_org s of
        Some r \<Rightarrow> org_of sx apiKey name r s
      | None \<Rightarrow>
          (case sx_metadata sx apiKey (hs_world s) of
             ((r, err), w) \<Rightarrow>
               let s1 = traced AskedMetadata (s\<lparr>hs_world := w\<rparr>) in
               (case err of
                  Some e \<Rightarrow> (Inl (re_apiError e), retry_header (re_retryAfter e) s1)
                | None \<Rightarrow> org_of sx apiKey name r (s1\<lparr>hs_org := Some r\<rparr>))))"

definition org_for_model :: "'w services \<Rightarrow> string \<Rightarrow> string \<Rightarrow> 'w hstate \<Rightarrow> (APIError + string) \<times> 'w hstate" where
  "org_for_model sx apiKey name s =
     (case map_of (sx_models sx (hs_world s)) name of
        Some m \<Rightarrow> if HasReservations m then resolveOrg sx apiKey name s else (Inr [], s)
      | None \<Rightarrow> (Inr [], s))"

text \<open>The organisation of a verdict: looked up when the verdict has none, and always the one already known.\<close>

definition verdict_org :: "'w services \<Rightarrow> string \<Rightarrow> string \<Rightarrow> routeContext \<Rightarrow> 'w hstate \<Rightarrow> (APIError + routeContext) \<times> 'w hstate" where
  "verdict_org sx apiKey name verdict s =
     andThen
       (if rc_OrgID verdict = [] \<and> rc_RateLimit verdict = None
        then (case map_of (sx_models sx (hs_world s)) name of
                Some m \<Rightarrow> if HasReservations m
                  then (case resolveOrg sx apiKey name s of (Inl e, s1) \<Rightarrow> (Inl e, s1) | (Inr org, s1) \<Rightarrow> (Inr (verdict\<lparr>rc_OrgID := org\<rparr>), s1))
                  else (Inr verdict, s)
              | None \<Rightarrow> (Inr verdict, s))
        else (Inr verdict, s))
       (\<lambda>r s1. case hs_org s1 of
                 Some c \<Rightarrow> (Inr (if rc_unavailable c then r else r\<lparr>rc_OrgID := rc_OrgID c\<rparr>), s1)
               | None \<Rightarrow> (Inr r, s1))"

definition admit :: "'w services \<Rightarrow> string \<Rightarrow> string \<Rightarrow> 'w hstate \<Rightarrow> (stop + routeContext) \<times> 'w hstate" where
  "admit sx apiKey name s =
     (case sx_lookup sx apiKey name (hs_world s) of
        None \<Rightarrow> (Inl Panicked, s)
      | Some ((verdict, err), w) \<Rightarrow>
          let s1 = traced (AskedAdmission apiKey name (err = None)) (s\<lparr>hs_world := w\<rparr>) in
          (case err of
             Some e \<Rightarrow> reply_error (re_apiError e) (retry_header (re_retryAfter e) s1)
           | None \<Rightarrow>
               (case verdict_org sx apiKey name verdict s1 of
                  (Inl e, s2) \<Rightarrow> reply_error e s2
                | (Inr r, s2) \<Rightarrow> (Inr r, s2))))"

section \<open>The auto model\<close>

fun walk_with ::
  "(string \<Rightarrow> 's \<Rightarrow> (APIError + string) \<times> 's) \<Rightarrow> ('s \<Rightarrow> string \<Rightarrow> string \<Rightarrow> bool \<times> bool) \<Rightarrow> nat \<Rightarrow> AutoCandidate option
     \<Rightarrow> AutoCandidate list \<Rightarrow> 's \<Rightarrow> walk_result \<times> 's" where
  "walk_with org status i chosen [] s = ((case chosen of None \<Rightarrow> NoneEligible | Some c \<Rightarrow> Chosen c False []), s)"
| "walk_with org status i chosen (c # cs) s =
     (case org (am_Name (ac_Model c)) s of
        (Inl e, s1) \<Rightarrow> (WalkError e, s1)
      | (Inr orgID, s1) \<Rightarrow>
          (case status s1 (am_Name (ac_Model c)) orgID of
             (elig, avail) \<Rightarrow>
               if \<not> elig then walk_with org status (i + 1) chosen cs s1
               else if avail then (Chosen c True (if 0 < i then [am_Name (ac_Model c)] else []), s1)
               else walk_with org status (i + 1) (case chosen of None \<Rightarrow> Some c | Some d \<Rightarrow> Some d) cs s1))"

definition resolveAuto ::
  "gateway \<Rightarrow> 'w services \<Rightarrow> string \<Rightarrow> header \<Rightarrow> string \<Rightarrow> json_object \<Rightarrow> 'w hstate \<Rightarrow> (APIError + string \<times> json_object) \<times> 'w hstate" where
  "resolveAuto ge sx apiKey h path body s =
     (case ParseIntelligence (ge_float ge) h body of
        (Inl e, body1) \<Rightarrow> (Inl (WithMessage (WithParam ErrInvalidRequest (ve_Param e)) (ve_Message e)), s)
      | (Inr target, body1) \<Rightarrow>
          let visual = HasVisualInput body1; ranked = Rank (ge_scores ge) (sx_catalog sx (hs_world s)) target visual in
          if ranked = [] then
            (Inl (WithMessage (WithParam ErrInvalidRequest ''model'') (if visual then ErrMsgAutoNoMultimodal else ErrMsgAutoNoScores)), s)
          else case walk_with (org_for_model sx apiKey) (\<lambda>s. sx_auto_status sx (hs_world s)) 0 None ranked s of
                 (WalkError e, s1) \<Rightarrow> (Inl e, s1)
               | (NoneEligible, s1) \<Rightarrow> (Inl (WithMessage ErrModelUnavailable (ErrMsgModelUnavailable ''auto'')), s1)
               | (Chosen c healthy fallbacks, s1) \<Rightarrow>
                   (Inr (am_Name (ac_Model c),
                         AList.update ''model'' (JString (am_Name (ac_Model c))) (ApplyEffort body1 path c)), s1))"

section \<open>OpenAI-compatible requests\<close>

definition read_json :: "gateway \<Rightarrow> int option \<Rightarrow> wire_body option \<Rightarrow> 's \<Rightarrow> (stop + json_object) \<times> 's" where
  "read_json ge limit body s =
     (case read_all limit body of
        Inl e \<Rightarrow> reply_error (writeRequestBodyError e) s
      | Inr bytes \<Rightarrow>
          (case decodeJSONBody (ge_decode ge) bytes of
             Inl e \<Rightarrow> reply_error (invalidJSONError e) s
           | Inr b \<Rightarrow> (Inr b, s)))"

definition body_model :: "json_object \<Rightarrow> APIError + string" where
  "body_model body =
     (case map_of body ''model'' of
        None \<Rightarrow> Inl (WithMessage (WithParam ErrInvalidRequest ''model'') (missing_param ''model''))
      | Some v \<Rightarrow>
          (case v of
             JString name \<Rightarrow>
               if TrimSpace name = []
               then Inl (WithMessage (WithParam ErrInvalidRequest ''model'') (invalid_parameter ''model'' ''must be a string''))
               else Inr name
           | _ \<Rightarrow> Inl (WithMessage (WithParam ErrInvalidRequest ''model'') (invalid_parameter ''model'' ''must be a string''))))"

definition model_not_found :: "string \<Rightarrow> APIError" where
  "model_not_found name =
     WithMessage ErrModelNotFound (''The model '' @ [CHR 0x27] @ name @ [CHR 0x27] @ '' does not exist or you do not have access to it.'')"

definition unknown_model :: "string \<Rightarrow> 'w hstate \<Rightarrow> (stop + 'a) \<times> 'w hstate" where
  "unknown_model name s = reply_error (model_not_found name) (traced (ReportedUnknown name) s)"

definition apply_limits :: "header \<Rightarrow> string \<Rightarrow> string \<Rightarrow> json_object \<Rightarrow> APIError + json_object" where
  "apply_limits h path name body =
     (if \<not> modelHeaderMatches h name then Inl ErrModelMismatch
      else case applyMaxOutputTokensHeader h path body of
             Inl e \<Rightarrow> Inl e
           | Inr b \<Rightarrow> applyCompletionCountHeader h path b)"

text \<open>The conversion as the rewrite calls it: every call is recorded.\<close>

definition convert_context :: "gateway \<Rightarrow> 'w services \<Rightarrow> string \<Rightarrow> string \<Rightarrow> 'w hstate \<Rightarrow> 'w hstate rewriteContext" where
  "convert_context ge sx orgID name s =
     \<lparr>rc_isMultimodal = sx_multimodal sx (hs_world s), rc_model = name,
      rc_process = (\<lambda>auth filename contentType data mode s.
        case sx_convert sx orgID auth filename contentType data mode (hs_world s) of
          (r, w) \<Rightarrow> (r, traced (ConvertedFile name) (s\<lparr>hs_world := w\<rparr>))),
      rc_media = ge_media ge, rc_quote = ge_quote ge\<rparr>"

definition rewrite_files ::
  "gateway \<Rightarrow> 'w services \<Rightarrow> header \<Rightarrow> string \<Rightarrow> string \<Rightarrow> string \<Rightarrow> json_object \<Rightarrow> 'w hstate \<Rightarrow> (stop + json_object) \<times> 'w hstate" where
  "rewrite_files ge sx h path orgID name body s =
     (let rc = convert_context ge sx orgID name s; auth = header_get h ''Authorization'';
          run = (if path = ''/v1/responses'' then rewriteResponsesBase64FilesWithProcessor body auth rc s
                 else if path = ''/v1/chat/completions'' then rewriteChatCompletionsBase64FilesWithProcessor body auth rc s
                 else (Inr (body, False), s))
      in case run of (Inl e, s1) \<Rightarrow> reply_error e s1 | (Inr (b, _), s1) \<Rightarrow> (Inr b, s1))"

definition with_priority :: "routeContext \<Rightarrow> string \<Rightarrow> json_object \<Rightarrow> json_object" where
  "with_priority admission path body = (case applyPriority admission (Some body) path of None \<Rightarrow> body | Some b \<Rightarrow> b)"

definition with_salt :: "gateway \<Rightarrow> string \<Rightarrow> string \<Rightarrow> bool \<Rightarrow> json_object \<Rightarrow> 's \<Rightarrow> (stop + json_object) \<times> 's" where
  "with_salt ge path apiKey enabled body s =
     (case applyCacheSalt (ge_sha ge) (ge_json_string ge) (Some body) path apiKey enabled of
        Some (Some b, _) \<Rightarrow> (Inr b, s)
      | _ \<Rightarrow> (Inl Panicked, s))"

text \<open>A request on its way to a backend.\<close>

record target =
  tg_model :: string
  tg_key :: string
  tg_header :: header
  tg_bytes :: "string option"
  tg_json :: "json_object option"
  tg_speech :: "json_object option"
  tg_admission :: "routeContext option"
  tg_streaming :: bool
  tg_profiles :: "Profile list"
  tg_options :: "RouterOptions option"

definition plain_target :: "string \<Rightarrow> string \<Rightarrow> header \<Rightarrow> string option \<Rightarrow> json_object option \<Rightarrow> target" where
  "plain_target name apiKey h bytes speech =
     \<lparr>tg_model = name, tg_key = apiKey, tg_header = h, tg_bytes = bytes, tg_json = None, tg_speech = speech,
      tg_admission = None, tg_streaming = False, tg_profiles = [], tg_options = None\<rparr>"

definition is_streaming :: "json_object \<Rightarrow> bool" where "is_streaming body \<longleftrightarrow> field body ''stream'' = JBool True"

definition final_body :: "json_object \<Rightarrow> header \<Rightarrow> json_object \<times> header" where
  "final_body body h = (if is_streaming body then ensureStreamingUsageOptions body h else (body, h))"

definition encode_target ::
  "gateway \<Rightarrow> string \<Rightarrow> string \<Rightarrow> header \<Rightarrow> routeContext \<Rightarrow> Profile list \<Rightarrow> RouterOptions \<Rightarrow> json_object \<Rightarrow> 's \<Rightarrow> (stop + target) \<times> 's" where
  "encode_target ge name apiKey h admission active opts body s =
     (case final_body body h of
        (b, h1) \<Rightarrow>
          (case ge_encode ge (JObject b) of
             None \<Rightarrow> reply_error ErrServer s
           | Some bytes \<Rightarrow>
               (Inr \<lparr>tg_model = name, tg_key = apiKey, tg_header = header_set ''Content-Length'' (show_nat (length bytes)) h1,
                     tg_bytes = Some bytes, tg_json = Some b, tg_speech = None, tg_admission = Some admission,
                     tg_streaming = is_streaming body, tg_profiles = active, tg_options = Some opts\<rparr>, s)))"

text \<open>From the admission of the known model to the encoded body.\<close>

definition admitted_request ::
  "gateway \<Rightarrow> 'w services \<Rightarrow> string \<Rightarrow> string \<Rightarrow> header \<Rightarrow> string \<Rightarrow> RouterOptions \<Rightarrow> json_object \<Rightarrow> 'w hstate \<Rightarrow> (stop + target) \<times> 'w hstate" where
  "admitted_request ge sx path apiKey h name opts body s =
     (let active = DetectProfiles path opts body; body1 = AList.delete ''priority'' body in
      if map_of (sx_models sx (hs_world s)) name = None then unknown_model name s
      else andThen (admit sx apiKey name s) (\<lambda>admission s1.
           andThen (rewrite_files ge sx h path (rc_OrgID admission) name (with_priority admission path body1) s1) (\<lambda>body2 s2.
           andThen (with_salt ge path apiKey (ge_salting ge) body2 s2) (\<lambda>body3 s3.
           encode_target ge name apiKey h admission active opts body3 s3))))"

definition openai_request ::
  "gateway \<Rightarrow> 'w services \<Rightarrow> http_request \<Rightarrow> int option \<Rightarrow> string \<Rightarrow> 'w hstate \<Rightarrow> (stop + target) \<times> 'w hstate" where
  "openai_request ge sx rq limit apiKey s =
     (let path = hq_path rq; h = hq_header rq in
      andThen (read_json ge limit (hq_body rq) s) (\<lambda>body s1.
      andThen (or_error (ExtractRouterOptions body) s1) (\<lambda>(opts, body1) s2.
      andThen (or_error (body_model body1) s2) (\<lambda>name s3.
      andThen (or_error (apply_limits h path name body1) s3) (\<lambda>body2 s4.
      andThen (if name = ''auto''
               then (case resolveAuto ge sx apiKey h path body2 s4 of (Inl e, s5) \<Rightarrow> reply_error e s5 | (Inr r, s5) \<Rightarrow> (Inr r, s5))
               else (Inr (name, body2), s4)) (\<lambda>(name1, body3) s5.
      admitted_request ge sx path apiKey h name1 opts body3 s5))))))"

section \<open>Other endpoints\<close>

definition usage_count :: "gateway \<Rightarrow> header \<Rightarrow> string \<Rightarrow> 's \<Rightarrow> (stop + int) \<times> 's" where
  "usage_count ge h apiKey s =
     (case CustomerRequestCount (ge_usage_context ge) (ge_key_hash ge) h apiKey (ge_context_secret ge) of
        Inl err \<Rightarrow> reply_error (WithMessage ErrInvalidRequest (''Invalid usage context: '' @ ge_context_text ge err @ ''.'')) s
      | Inr n \<Rightarrow> (Inr n, s))"

definition count_dispatch ::
  "'w services \<Rightarrow> string \<Rightarrow> string \<Rightarrow> string \<Rightarrow> string \<Rightarrow> header \<Rightarrow> 'w hstate
     \<Rightarrow> (routeContextError count_dispatch_error + int \<times> string option) \<times> 'w hstate" where
  "count_dispatch sx apiKey name path bytes h s =
     (if map_of (sx_models sx (hs_world s)) name = None then (Inl (DispatchAPIError (model_not_found name)), s)
      else case resolveOrg sx apiKey name s of
             (Inl e, s1) \<Rightarrow> (Inl (DispatchAPIError e), s1)
           | (Inr orgID, s1) \<Rightarrow>
               (case sx_count sx orgID name path bytes h (hs_world s1) of
                  (r, w) \<Rightarrow>
                    ((case r of
                        Inl (GoAPIError e) \<Rightarrow> Inl (DispatchAPIError e)
                      | Inl (GoError _) \<Rightarrow> Inl OtherDispatchError
                      | Inr resp \<Rightarrow> Inr resp), traced (CountedAt name) (s1\<lparr>hs_world := w\<rparr>))))"

definition count_env :: "gateway \<Rightarrow> 'w services \<Rightarrow> http_request \<Rightarrow> string \<Rightarrow> (routeContextError count_dispatch_error, 'w hstate) token_env" where
  "count_env ge sx rq apiKey =
     \<lparr>te_quote = ge_quote ge, te_decode = ge_unmarshal ge, te_encode = ge_encode ge, te_unmarshal = ge_error_body ge,
      te_count = ge_count ge,
      te_resolve = Some (\<lambda>body s. case resolveAuto ge sx apiKey (hq_header rq) (inputTokensCompletionPath (hq_path rq)) body s of
        (Inl e, s1) \<Rightarrow> (Inl (GoAPIError e), s1) | (Inr r, s1) \<Rightarrow> (Inr r, s1)),
      te_dispatch = count_dispatch sx apiKey\<rparr>"

definition count_tokens :: "gateway \<Rightarrow> 'w services \<Rightarrow> http_request \<Rightarrow> int option \<Rightarrow> string \<Rightarrow> 'w hstate \<Rightarrow> (stop + target) \<times> 'w hstate" where
  "count_tokens ge sx rq limit apiKey s =
     (let s0 = (if hq_method rq \<noteq> ''POST'' then s\<lparr>hs_resp := header_set ''Allow'' ''POST'' (hs_resp s)\<rparr> else s);
          r = \<lparr>cr_method = hq_method rq, cr_path = hq_path rq, cr_key = apiKey, cr_read = read_all limit (hq_body rq)\<rparr>
      in case handleInputTokens (count_env ge sx rq apiKey) r s0 of
           ((CountError e, _), s1) \<Rightarrow> reply_error e s1
         | ((CountLookup e, _), s1) \<Rightarrow> reply_error (re_apiError e) (retry_header (re_retryAfter e) s1)
         | ((Count object n, _), s1) \<Rightarrow> (Inl (Answered (CountedTokens object n)), s1))"

definition realtime_request :: "http_request \<Rightarrow> string \<Rightarrow> 's \<Rightarrow> (stop + target) \<times> 's" where
  "realtime_request rq apiKey s =
     (case realtime_model (hq_query rq) of
        Inl e \<Rightarrow> reply_error e s
      | Inr name \<Rightarrow>
          (case websocket_key (hq_header rq) apiKey of (h, key) \<Rightarrow> (Inr (plain_target name key h None None), s)))"

definition list_models :: "gateway \<Rightarrow> 'w services \<Rightarrow> 'w hstate \<Rightarrow> answer" where
  "list_models ge sx s =
     (case ge_models_list ge of
        BadURL \<Rightarrow> ErrorAnswer ErrServer
      | FetchFailed \<Rightarrow> ErrorAnswer ErrUpstream
      | Fetched status None \<Rightarrow> ErrorAnswer ErrUpstream
      | Fetched status (Some body) \<Rightarrow>
          if status \<noteq> 200 then ErrorAnswer (writeUpstreamError (ge_error_body ge) status body)
          else case filterModelsToServed (ge_entries ge) (ge_encode ge) body (sx_models sx (hs_world s)) of
                 None \<Rightarrow> ErrorAnswer ErrUpstream
               | Some out \<Rightarrow> ModelsAnswer out)"

definition speech_request :: "gateway \<Rightarrow> http_request \<Rightarrow> int option \<Rightarrow> string \<Rightarrow> 's \<Rightarrow> (stop + target) \<times> 's" where
  "speech_request ge rq limit apiKey s =
     andThen (read_json ge limit (hq_body rq) s) (\<lambda>body s1.
       let m = string_field body ''model'' in
       (Inr (plain_target (if m \<noteq> [] then m else ''qwen3-tts'') apiKey (hq_header rq) None (Some body)), s1))"

definition audio_request :: "gateway \<Rightarrow> http_request \<Rightarrow> int option \<Rightarrow> string \<Rightarrow> 's \<Rightarrow> (stop + target) \<times> 's" where
  "audio_request ge rq limit apiKey s =
     (case extractModelFromMultipart (\<lambda>t. map_option snd (ge_media ge t)) (ge_multipart ge) (hq_header rq) (read_all limit (hq_body rq)) of
        Inl MaxBytesExceeded \<Rightarrow> reply_error (writeRequestBodyError MaxBytesExceeded) s
      | Inl e \<Rightarrow> reply_error (invalidJSONError e) s
      | Inr (m, bytes) \<Rightarrow>
          (Inr (plain_target (if m = [] then ''voxtral-small-24b'' else m) apiKey (hq_header rq) (Some bytes) None), s))"

section \<open>Routing by path\<close>

definition route_path :: "gateway \<Rightarrow> 'w services \<Rightarrow> http_request \<Rightarrow> int option \<Rightarrow> string \<Rightarrow> 'w hstate \<Rightarrow> (stop + target) \<times> 'w hstate" where
  "route_path ge sx rq limit apiKey s =
     (let path = hq_path rq; answered = (\<lambda>a. (Inl (Answered a), s)) in
      if isInputTokensPath path then count_tokens ge sx rq limit apiKey s
      else if isWebSocketUpgrade (hq_header rq) \<and> path = ''/v1/realtime'' then realtime_request rq apiKey s
      else if path = ''/'' then answered (RedirectAnswer ''https://docs.tinfoil.sh'')
      else if path = ''/health'' then
        answered (if sx_ready sx (hs_world s)
                  then JsonAnswer 200 (JObject [(''status'', JString ''ok''), (''version'', JString (ge_version ge))])
                  else JsonAnswer 503 (JObject [(''status'', JString ''not ready'')]))
      else if path = ''/.well-known/tinfoil-proxy'' then
        answered (JsonAnswer 200 (JObject (AList.update ''version'' (JString (ge_version ge)) (sx_status sx (hs_world s)))))
      else if path = ''/.well-known/prometheus-targets'' then answered (JsonAnswer 200 (sx_targets sx (hs_world s)))
      else if path = ''/metrics'' then answered MetricsAnswer
      else if path = ''/v1/models'' then answered (list_models ge sx s)
      else if path = ''/v1/audio/speech'' then speech_request ge rq limit apiKey s
      else if path = ''/v1/audio/transcriptions'' \<or> HasPrefix path ''/v1/audio/'' then audio_request ge rq limit apiKey s
      else if path = ''/v1/convert/file'' then (Inr (plain_target ''doc-upload'' apiKey (hq_header rq) None None), s)
      else openai_request ge sx rq limit apiKey s)"

definition route_request :: "gateway \<Rightarrow> 'w services \<Rightarrow> http_request \<Rightarrow> 'w hstate \<Rightarrow> (stop + target) \<times> 'w hstate" where
  "route_request ge sx rq s =
     (case limitRequestBody (hq_body rq) of
        Inl e \<Rightarrow> reply_error e s
      | Inr limit \<Rightarrow>
          let apiKey = BearerToken (header_get (hq_header rq) ''Authorization'') in
          andThen (usage_count ge (hq_header rq) apiKey s) (\<lambda>_ s1. route_path ge sx rq limit apiKey s1))"

text \<open>
  The model is looked up again before a backend is chosen, and requests that were not admitted on the way are
  admitted now; the body of a speech request is rewritten then.
\<close>

definition speech_body ::
  "gateway \<Rightarrow> string \<Rightarrow> routeContext \<Rightarrow> target \<Rightarrow> 's \<Rightarrow> (stop + target) \<times> 's" where
  "speech_body ge path admission t s =
     (case tg_speech t of
        None \<Rightarrow> (Inr t, s)
      | Some body \<Rightarrow>
          andThen (with_salt ge path (tg_key t) False body s) (\<lambda>b s1.
            let b1 = with_priority admission path b in
            case ge_encode ge (JObject b1) of
              None \<Rightarrow> reply_error ErrServer s1
            | Some bytes \<Rightarrow>
                (Inr (t\<lparr>tg_bytes := Some bytes, tg_speech := Some b1,
                        tg_header := header_set ''Content-Length'' (show_nat (length bytes)) (tg_header t)\<rparr>), s1)))"

definition admit_target ::
  "gateway \<Rightarrow> 'w services \<Rightarrow> string \<Rightarrow> target \<Rightarrow> 'w hstate \<Rightarrow> (stop + Model \<times> routeContext \<times> target) \<times> 'w hstate" where
  "admit_target ge sx path t s =
     (case map_of (sx_models sx (hs_world s)) (tg_model t) of
        None \<Rightarrow> unknown_model (tg_model t) s
      | Some m \<Rightarrow>
          (case tg_admission t of
             Some admission \<Rightarrow> (Inr (m, admission, t), s)
           | None \<Rightarrow>
               andThen (admit sx (tg_key t) (tg_model t) s) (\<lambda>admission s1.
               andThen (speech_body ge path admission t s1) (\<lambda>t1 s2. (Inr (m, admission, t1\<lparr>tg_admission := Some admission\<rparr>), s2)))))"

end
