(* ===== verification/Router_Admission.thy ===== *)
theory Router_Admission
  imports Router_Entry
begin

text \<open>
  What the router guarantees of a request on its way to a backend: the order of admission and dispatches, and the
  fields of the forwarded body that belong to the router.
\<close>

section \<open>What a request does before it is admitted\<close>

text \<open>The state after a step extends the trace by events of one kind.\<close>

definition extends :: "(event \<Rightarrow> bool) \<Rightarrow> 'w hstate \<Rightarrow> 'w hstate \<Rightarrow> bool" where
  "extends P s s' \<longleftrightarrow> (\<exists>es. hs_trace s' = es @ hs_trace s \<and> list_all P es)"

lemma extends_refl [simp, intro]: "extends P s s"
  by (simp add: extends_def)

lemma extends_same: "hs_trace s' = hs_trace s \<Longrightarrow> extends P s s'"
  by (simp add: extends_def)

lemma extends_trans: "extends P s s1 \<Longrightarrow> extends P s1 s2 \<Longrightarrow> extends P s s2"
  unfolding extends_def by (metis append.assoc list_all_append)

lemma extends_mono: "extends P s s' \<Longrightarrow> (\<And>e. P e \<Longrightarrow> Q e) \<Longrightarrow> extends Q s s'"
  unfolding extends_def list_all_iff by blast

lemma traced_trace [simp]: "hs_trace (traced e s) = e # hs_trace s"
  by (simp add: traced_def)

lemma retry_header_trace [simp]: "hs_trace (retry_header v s) = hs_trace s"
  by (simp add: retry_header_def)

lemma org_of_trace: "hs_trace (snd (org_of sx apiKey name r s)) = hs_trace s"
  by (simp add: org_of_def split: prod.splits)

lemma resolveOrg_extends: "extends (\<lambda>e. e = AskedMetadata) s (snd (resolveOrg sx apiKey name s))"
proof (cases "hs_org s")
  case None
  obtain r err w where m: "sx_metadata sx apiKey (hs_world s) = ((r, err), w)" by (metis surj_pair)
  have "hs_trace (snd (resolveOrg sx apiKey name s)) = AskedMetadata # hs_trace s"
    using None m by (cases err) (simp_all add: resolveOrg_def Let_def org_of_trace)
  then show ?thesis by (simp add: extends_def)
next
  case (Some r)
  then show ?thesis by (simp add: resolveOrg_def org_of_trace extends_same)
qed

lemma org_for_model_extends: "extends (\<lambda>e. e = AskedMetadata) s (snd (org_for_model sx apiKey name s))"
  by (auto simp: org_for_model_def resolveOrg_extends split: option.splits)

lemma walk_with_extends:
  assumes "\<And>name s. extends P s (snd (org name s))"
  shows "extends P s (snd (walk_with org status i chosen cs s))"
proof (induction cs arbitrary: i chosen s)
  case (Cons c cs)
  obtain r s1 where r: "org (am_Name (ac_Model c)) s = (r, s1)" by force
  then have s1: "extends P s s1" using assms [of s "am_Name (ac_Model c)"] by simp
  show ?case
  proof (cases r)
    case (Inr orgID)
    obtain elig avail where "status s1 (am_Name (ac_Model c)) orgID = (elig, avail)" by force
    then show ?thesis using r Inr s1 Cons.IH extends_trans [OF s1] by (cases elig; cases avail) simp_all
  qed (use r s1 in simp)
qed simp

lemma resolveAuto_extends: "extends (\<lambda>e. e = AskedMetadata) s (snd (resolveAuto ge sx apiKey h path body s))"
proof -
  have w: "extends (\<lambda>e. e = AskedMetadata) s (snd (walk_with (org_for_model sx apiKey) st i c cs s))" for st i c cs
    by (rule walk_with_extends) (rule org_for_model_extends)
  show ?thesis
    unfolding resolveAuto_def Let_def using w
    by (auto split: prod.splits sum.splits walk_result.splits) (metis snd_conv)+
qed

lemma verdict_org_extends: "extends (\<lambda>e. e = AskedMetadata) s (snd (verdict_org sx apiKey name r s))"
proof -
  have "extends (\<lambda>e. e = AskedMetadata) s s1" if "resolveOrg sx apiKey name s = (x, s1)" for x s1
    using resolveOrg_extends [of s sx apiKey name] that by simp
  then show ?thesis
    unfolding verdict_org_def andThen_def
    by (auto split: prod.splits sum.splits option.splits if_splits)
qed

section \<open>Lawful traces\<close>

fun is_admission :: "event \<Rightarrow> bool" where
  "is_admission (AskedAdmission _ _ _) = True"
| "is_admission _ = False"

fun admits :: "string \<Rightarrow> event \<Rightarrow> bool" where
  "admits m (AskedAdmission _ m' ok) = (m' = m \<and> ok)"
| "admits m _ = False"

definition admitted :: "string \<Rightarrow> event list \<Rightarrow> bool" where "admitted m past = list_ex (admits m) past"

text \<open>
  The latest event comes first: one admission at most, nothing is dispatched for a model before its admission, and
  tokens are not counted. A request that counts tokens does that and looks up its organisation, and nothing else.
\<close>

fun lawful :: "event list \<Rightarrow> bool" where
  "lawful [] = True"
| "lawful (e # past) =
     (lawful past
      \<and> (case e of
           AskedAdmission _ _ _ \<Rightarrow> \<not> list_ex is_admission past
         | ConvertedFile m \<Rightarrow> admitted m past
         | RanTools m \<Rightarrow> admitted m past
         | Dispatched m _ \<Rightarrow> admitted m past
         | CountedAt _ \<Rightarrow> False
         | _ \<Rightarrow> True))"

fun counting :: "event \<Rightarrow> bool" where
  "counting AskedMetadata = True"
| "counting (CountedAt _) = True"
| "counting _ = False"

fun harmless :: "event \<Rightarrow> bool" where
  "harmless AskedMetadata = True"
| "harmless (ReportedUnknown _) = True"
| "harmless _ = False"

lemma harmless_append: "list_all harmless es \<Longrightarrow> lawful (es @ tr) = lawful tr"
  by (induction es) (auto elim!: harmless.elims)

lemma harmless_unasked: "list_all harmless es \<Longrightarrow> \<not> list_ex is_admission es"
  by (induction es) (auto elim!: harmless.elims)

lemma admitted_append [intro]: "admitted m tr \<Longrightarrow> admitted m (es @ tr)"
  by (simp add: admitted_def)

lemma converted_append: "list_all (\<lambda>e. e = ConvertedFile m) es \<Longrightarrow> admitted m tr \<Longrightarrow> lawful tr \<Longrightarrow> lawful (es @ tr)"
  by (induction es) auto

definition unasked :: "'w hstate \<Rightarrow> bool" where
  "unasked s \<longleftrightarrow> lawful (hs_trace s) \<and> \<not> list_ex is_admission (hs_trace s)"

definition asked :: "string \<Rightarrow> 'w hstate \<Rightarrow> bool" where
  "asked m s \<longleftrightarrow> lawful (hs_trace s) \<and> admitted m (hs_trace s)"

lemma unasked_extends: "unasked s \<Longrightarrow> extends harmless s s' \<Longrightarrow> unasked s'"
  by (auto simp: unasked_def extends_def harmless_append harmless_unasked)

lemma asked_extends: "asked m s \<Longrightarrow> extends harmless s s' \<Longrightarrow> asked m s'"
  by (auto simp: asked_def extends_def harmless_append)

lemma asked_converts: "asked m s \<Longrightarrow> extends (\<lambda>e. e = ConvertedFile m) s s' \<Longrightarrow> asked m s'"
  by (auto simp: asked_def extends_def intro: converted_append)

lemma unasked_lawful: "unasked s \<Longrightarrow> lawful (hs_trace s)" and asked_lawful: "asked m s \<Longrightarrow> lawful (hs_trace s)"
  by (simp_all add: unasked_def asked_def)

lemma metadata_harmless: "extends (\<lambda>e. e = AskedMetadata) s s' \<Longrightarrow> extends harmless s s'"
  by (erule extends_mono) simp

lemma metadata_counting: "extends (\<lambda>e. e = AskedMetadata) s s' \<Longrightarrow> extends counting s s'"
  by (erule extends_mono) simp

text \<open>An admission asks once; when it succeeds the model is admitted.\<close>

lemma admit_asked:
  assumes "unasked s" "admit sx apiKey name s = (r, s')"
  shows "lawful (hs_trace s') \<and> (\<forall>x. r = Inr x \<longrightarrow> asked name s')"
proof (cases "sx_lookup sx apiKey name (hs_world s)")
  case None
  then show ?thesis using assms by (auto simp: admit_def unasked_lawful)
next
  case (Some x)
  obtain r0 err w where x: "x = ((r0, err), w)" by (metis surj_pair)
  define s1 where "s1 = traced (AskedAdmission apiKey name (err = None)) (s\<lparr>hs_world := w\<rparr>)"
  have l1: "lawful (hs_trace s1)" and a1: "err = None \<Longrightarrow> asked name s1"
    using assms(1) by (simp_all add: s1_def unasked_def asked_def admitted_def)
  show ?thesis
  proof (cases err)
    case (Some e)
    then show ?thesis using assms(2) \<open>sx_lookup _ _ _ _ = _\<close> x l1 by (auto simp: admit_def reply_error_def Let_def s1_def)
  next
    case None
    obtain v s2 where v: "verdict_org sx apiKey name r0 s1 = (v, s2)" by force
    then have "extends (\<lambda>e. e = AskedMetadata) s1 s2" using verdict_org_extends [of s1 sx apiKey name r0] by simp
    then have "asked name s2" by (intro asked_extends [OF a1 [OF None]] metadata_harmless)
    moreover have "verdict_org sx apiKey name r0 (traced (AskedAdmission apiKey name True) (s\<lparr>hs_world := w\<rparr>)) = (v, s2)"
      using v None by (simp add: s1_def)
    then have "s' = s2" using assms(2) Some x None by (cases v) (simp_all add: admit_def Let_def reply_error_def)
    ultimately show ?thesis using asked_lawful by blast
  qed
qed

section \<open>Conversions keep what every call of the backend keeps\<close>

locale kept_world =
  fixes rc :: "'w rewriteContext" and R :: "'w \<Rightarrow> 'w \<Rightarrow> bool"
  assumes kept_refl: "R w w"
    and kept_trans: "R w w1 \<Longrightarrow> R w1 w2 \<Longrightarrow> R w w2"
    and kept_process: "R w (snd (rc_process rc auth filename contentType data mode w))"
begin

lemma render_kept: "R w (snd (renderDecodedFile auth d override rc shape w))"
proof -
  have "R w w1" if "rc_process rc a f c dd m w = (x, w1)" for a f c dd m x w1
    using kept_process [of w a f c dd m] that by simp
  then show ?thesis
    unfolding renderDecodedFile_def by (auto simp: kept_refl split: sum.splits prod.splits bool.splits)
qed

lemma part_kept: "R w (snd (rewrite_part ep auth rc p w))"
  unfolding rewrite_part_def by (auto simp: kept_refl render_kept split: option.splits sum.splits prod.splits)

lemma parts_kept: "R w (snd (rewrite_parts ep auth rc ps w))"
proof (induction ps arbitrary: w)
  case (Cons p ps)
  obtain x w1 where x: "rewrite_part ep auth rc p w = (x, w1)" by force
  then have w1: "R w w1" using part_kept [of w ep auth p] by simp
  obtain y w2 where y: "rewrite_parts ep auth rc ps w1 = (y, w2)" by force
  then have "R w1 w2" using Cons [of w1] by simp
  then show ?case using x y w1 kept_trans by (cases x; cases y) auto
qed (simp add: kept_refl)

lemma item_kept: "R w (snd (rewrite_item ep auth rc i w))"
proof -
  have "R w w1" if "rewrite_parts ep auth rc ps w = (x, w1)" for ps x w1
    using parts_kept [of w ep auth ps] that by simp
  then show ?thesis unfolding rewrite_item_def by (auto simp: kept_refl split: option.splits sum.splits prod.splits)
qed

lemma items_kept: "R w (snd (rewrite_items ep auth rc is w))"
proof (induction "is" arbitrary: w)
  case (Cons i "is")
  obtain x w1 where x: "rewrite_item ep auth rc i w = (x, w1)" by force
  then have w1: "R w w1" using item_kept [of w ep auth i] by simp
  obtain y w2 where y: "rewrite_items ep auth rc is w1 = (y, w2)" by force
  then have "R w1 w2" using Cons [of w1] by simp
  then show ?case using x y w1 kept_trans by (cases x; cases y) auto
qed (simp add: kept_refl)

lemma body_kept: "R w (snd (rewrite_body ep auth rc body w))"
proof -
  have "R w w1" if "rewrite_items ep auth rc is w = (x, w1)" for "is" x w1
    using items_kept [of w ep auth "is"] that by simp
  then show ?thesis unfolding rewrite_body_def by (auto simp: kept_refl split: option.splits sum.splits prod.splits)
qed

end

interpretation conversion: kept_world "convert_context ge sx orgID name s0" "extends (\<lambda>e. e = ConvertedFile name)" for ge sx orgID name s0
proof unfold_locales
  fix s s1 s2 :: "'a hstate" and auth filename contentType data mode :: string
  show "extends (\<lambda>e. e = ConvertedFile name) s s2"
    if "extends (\<lambda>e. e = ConvertedFile name) s s1" "extends (\<lambda>e. e = ConvertedFile name) s1 s2"
    using that by (rule extends_trans)
  show "extends (\<lambda>e. e = ConvertedFile name) s (snd (rc_process (convert_context ge sx orgID name s0) auth filename contentType data mode s))"
    by (simp add: convert_context_def extends_def split: prod.splits)
qed simp

lemma rewrite_files_extends: "extends (\<lambda>e. e = ConvertedFile name) s (snd (rewrite_files ge sx h path orgID name body s))"
  unfolding rewrite_files_def Let_def reply_error_def rewriteResponsesBase64FilesWithProcessor_def
    rewriteChatCompletionsBase64FilesWithProcessor_def
  using conversion.body_kept [of name s _ _ ge sx orgID s] 
  by (auto split: prod.splits sum.splits) (metis snd_conv)+

lemma andThen_E:
  assumes "andThen m f = (r, s')"
  obtains (stopped) e where "m = (Inl e, s')" "r = Inl e"
  | (next_step) x s where "m = (Inr x, s)" "f x s = (r, s')"
  using assms by (auto simp: andThen_def split: prod.splits sum.splits)

lemma with_salt_state: "snd (with_salt ge path apiKey on body s) = s"
  by (simp add: with_salt_def split: option.splits prod.splits)

lemma encode_target_state:
  assumes "encode_target ge name apiKey h admission active opts body s = (r, s')"
  shows "s' = s \<and> (\<forall>t. r = Inr t \<longrightarrow> tg_model t = name \<and> tg_admission t = Some admission)"
  using assms by (auto simp: encode_target_def reply_error_def split: prod.splits option.splits)

lemma unknown_model_state: "unasked s \<Longrightarrow> unknown_model name s = (r, s') \<Longrightarrow> lawful (hs_trace s') \<and> (\<forall>t. r \<noteq> Inr t)"
  by (auto simp: unknown_model_def reply_error_def unasked_def)

lemma admitted_request_asked:
  assumes "unasked s" "admitted_request ge sx path apiKey h name opts body s = (r, s')"
  shows "lawful (hs_trace s') \<and> (\<forall>t. r = Inr t \<longrightarrow> asked (tg_model t) s' \<and> tg_admission t \<noteq> None)"
proof (cases "map_of (sx_models sx (hs_world s)) name")
  case None
  then have "unknown_model name s = (r, s')" using assms(2) by (simp add: admitted_request_def Let_def)
  from unknown_model_state [OF assms(1) this] show ?thesis by blast
next
  case (Some m)
  from assms(2) have "andThen (admit sx apiKey name s) (\<lambda>admission s1.
      andThen (rewrite_files ge sx h path (rc_OrgID admission) name (with_priority admission path (AList.delete ''priority'' body)) s1) (\<lambda>body2 s2.
      andThen (with_salt ge path apiKey (ge_salting ge) body2 s2) (\<lambda>body3 s3.
      encode_target ge name apiKey h admission (DetectProfiles path opts body) opts body3 s3))) = (r, s')"
    using Some by (simp add: admitted_request_def Let_def)
  then show ?thesis
  proof (elim andThen_E, goal_cases)
    case (1 e)
    then show ?case using admit_asked [OF assms(1) 1(1)] by blast
  next
    case (2 admission s1 e)
    have "asked name s1" using admit_asked [OF assms(1) 2(1)] by blast
    then have "asked name s'" using rewrite_files_extends asked_converts 2(2) by (metis snd_conv)
    then show ?case using 2(3) asked_lawful by auto
  next
    case (3 admission s1 body2 s2 e)
    have "asked name s1" using admit_asked [OF assms(1) 3(1)] by blast
    then have "asked name s2" using rewrite_files_extends asked_converts 3(2) by (metis snd_conv)
    moreover have "s' = s2" using with_salt_state 3(3) by (metis snd_conv)
    ultimately show ?case using 3(4) asked_lawful by auto
  next
    case (4 admission s1 body2 s2 body3 s3)
    have "asked name s1" using admit_asked [OF assms(1) 4(1)] by blast
    then have "asked name s2" using rewrite_files_extends asked_converts 4(2) by (metis snd_conv)
    moreover have "s3 = s2" using with_salt_state 4(3) by (metis snd_conv)
    ultimately show ?case using encode_target_state [OF 4(4)] asked_lawful by auto
  qed
qed

lemma read_json_state: "snd (read_json ge limit body s) = s"
  by (simp add: read_json_def reply_error_def split: sum.splits)

lemma or_error_state: "snd (or_error v s) = s"
  by (simp add: or_error_def reply_error_def split: sum.splits)

lemma openai_request_asked:
  assumes "unasked s" "openai_request ge sx rq limit apiKey s = (r, s')"
  shows "lawful (hs_trace s') \<and> (\<forall>t. r = Inr t \<longrightarrow> asked (tg_model t) s' \<and> tg_admission t \<noteq> None)"
proof -
  have same: "s1 = s0" if "read_json ge limit b s0 = (x, s1)" for b x and s0 s1 :: "'a hstate"
    using that read_json_state [of ge limit b s0] by simp
  have same': "s1 = s0" if "or_error v s0 = (x, s1)" for v x and s0 s1 :: "'a hstate"
    using that or_error_state [of v s0] by simp
  have l: "lawful (hs_trace s)" by (rule unasked_lawful [OF assms(1)])
  have auto_step: "unasked s5" if "(if name = ''auto''
        then (case resolveAuto ge sx apiKey h path b s of (Inl e, s5) \<Rightarrow> reply_error e s5 | (Inr r, s5) \<Rightarrow> (Inr r, s5))
        else (Inr (name, b), s)) = (x, s5)" for name h path b x s5
  proof (cases "name = ''auto''")
    case True
    obtain y s6 where y: "resolveAuto ge sx apiKey h path b s = (y, s6)" by force
    then have "unasked s6" using unasked_extends [OF assms(1)] metadata_harmless resolveAuto_extends by (metis snd_conv)
    then show ?thesis using that True y by (cases y) (auto simp: reply_error_def)
  qed (use that assms(1) in simp)
  show ?thesis
    using assms(2) unfolding openai_request_def Let_def
  proof (elim andThen_E, goal_cases)
    case (1 e)
    then show ?case using same [OF 1(1)] l by simp
  next
    case (2 body s1 e)
    then show ?case using same [OF 2(1)] same' [OF 2(2)] l by simp
  next
    case (3 body s1 x s2)
    note h0 = 3
    obtain opts body1 where x: "x = (opts, body1)" by force
    have s: "s2 = s" using same [OF 3(1)] same' [OF 3(2)] by simp
    from 3(3) [unfolded x prod.case] show ?case
    proof (elim andThen_E, goal_cases)
      case (1 e)
      then show ?case using same' [OF 1(1)] s l by simp
    next
      case (2 name s3 e)
      then show ?case using same' [OF 2(1)] same' [OF 2(2)] s l by simp
    next
      case (3 name s3 body2 s4 e)
      have "s4 = s" using same' [OF 3(1)] same' [OF 3(2)] s by simp
      then have "unasked s'" using auto_step 3(3) by blast
      then show ?case using 3(4) unasked_lawful by simp
    next
      case (4 name s3 body2 s4 y s5)
      obtain name1 body3 where y: "y = (name1, body3)" by force
      have "s4 = s" using same' [OF 4(1)] same' [OF 4(2)] s by simp
      then have "unasked s5" using auto_step 4(3) by blast
      from admitted_request_asked [OF this 4(4) [unfolded y prod.case]] show ?case .
    qed
  qed
qed

lemma handleInputTokens_kept:
  assumes refl: "\<And>s. R s s" and trans: "\<And>s s1 s2. R s s1 \<Longrightarrow> R s1 s2 \<Longrightarrow> R s s2"
    and res: "\<And>f b s. te_resolve env = Some f \<Longrightarrow> R s (snd (f b s))"
    and disp: "\<And>m p e h s. R s (snd (te_dispatch env m p e h s))"
  shows "R s (snd (handleInputTokens env r s))"
proof -
  have model: "R s s1" if "inputTokensModel b (te_resolve env) s = (x, s1)" for b x s1
  proof (cases "te_resolve env")
    case None
    then show ?thesis using that by (auto simp: inputTokensModel_def Let_def refl split: option.splits if_splits)
  next
    case (Some f)
    have "R s s2" if "f b s = (y, s2)" for y s2 using res [OF Some, of s b] that by simp
    then show ?thesis using that Some
      by (auto simp: inputTokensModel_def Let_def refl split: option.splits if_splits prod.splits sum.splits)
  qed
  have dispatch': "R s1 s2" if "te_dispatch env m p e h s1 = (y, s2)" for m p e h s1 s2 y
    using disp [of s1 m p e h] that by simp
  show ?thesis
  proof (cases "cr_method r \<noteq> ''POST'' \<or> cr_key r = []")
    case False
    show ?thesis
    proof (cases "cr_read r")
      case (Inr bytes)
      show ?thesis
      proof (cases "te_decode env bytes")
        case (Inr fs)
        define b where "b = (case fs of None \<Rightarrow> [] | Some b \<Rightarrow> b)"
        obtain x s1 where x: "inputTokensModel b (te_resolve env) s = (x, s1)" by force
        note s1 = model [OF x]
        have d: "R s (snd (te_dispatch env m p e h s1))" for m p e h by (rule trans [OF s1 disp])
        show ?thesis
          using False \<open>cr_read r = Inr bytes\<close> Inr x s1 d
          by (auto simp: handleInputTokens_def Let_def simp flip: b_def split: sum.splits option.splits prod.splits) (metis snd_conv)+
      qed (use False Inr refl in \<open>simp add: handleInputTokens_def\<close>)
    qed (use False refl in \<open>simp add: handleInputTokens_def\<close>)
  qed (auto simp: handleInputTokens_def refl)
qed

lemma count_dispatch_extends: "extends counting s (snd (count_dispatch sx apiKey name path bytes h s))"
proof -
  obtain r s1 where r: "resolveOrg sx apiKey name s = (r, s1)" by force
  then have "extends (\<lambda>e. e = AskedMetadata) s s1" using resolveOrg_extends [of s sx apiKey name] by simp
  then have s1: "extends counting s s1" by (rule metadata_counting)
  moreover have "extends counting s1 (traced (CountedAt name) (s1\<lparr>hs_world := w\<rparr>))" for w
    by (simp add: extends_def)
  ultimately show ?thesis using r extends_trans [OF s1]
    by (cases r) (auto simp: count_dispatch_def split: prod.splits)
qed

lemma count_tokens_extends: "extends counting s (snd (count_tokens ge sx rq limit apiKey s))"
proof -
  let ?env = "count_env ge sx rq apiKey"
  have auto_kept: "extends counting s (snd (resolveAuto ge sx apiKey h p b s))" for h p b and s :: "'a hstate"
    by (rule metadata_counting) (rule resolveAuto_extends)
  have res: "extends counting s (snd (f b s))" if "te_resolve ?env = Some f" for f b and s :: "'a hstate"
  proof -
    have f: "f = (\<lambda>body s. case resolveAuto ge sx apiKey (hq_header rq) (inputTokensCompletionPath (hq_path rq)) body s of
        (Inl e, s1) \<Rightarrow> (Inl (GoAPIError e), s1) | (Inr r, s1) \<Rightarrow> (Inr r, s1))"
      using that by (simp add: count_env_def)
    show ?thesis unfolding f using auto_kept [of s "hq_header rq" "inputTokensCompletionPath (hq_path rq)" b]
      by (auto split: prod.splits sum.splits)
  qed
  have disp: "extends counting s (snd (te_dispatch ?env m p e h s))" for m p e h and s :: "'a hstate"
    by (simp add: count_env_def count_dispatch_extends)
  have k: "extends counting s0 (snd (handleInputTokens ?env r s0))" for r and s0 :: "'a hstate"
    by (rule handleInputTokens_kept [where R = "extends counting" and env = ?env])
      (rule extends_refl, erule (1) extends_trans, erule res, rule disp)
  have start: "extends counting s s1" if "extends counting s0 s1"
    "s0 = (if hq_method rq \<noteq> ''POST'' then s\<lparr>hs_resp := header_set ''Allow'' ''POST'' (hs_resp s)\<rparr> else s)" for s0 s1
    using that by (auto simp: extends_def split: if_splits)
  obtain a d s1 where h: "handleInputTokens ?env
      \<lparr>cr_method = hq_method rq, cr_path = hq_path rq, cr_key = apiKey, cr_read = read_all limit (hq_body rq)\<rparr>
      (if hq_method rq \<noteq> ''POST'' then s\<lparr>hs_resp := header_set ''Allow'' ''POST'' (hs_resp s)\<rparr> else s) = ((a, d), s1)"
    by (metis surj_pair)
  have "extends counting s s1" using start [OF k refl] h by (metis snd_conv)
  then show ?thesis using h by (cases a) (auto simp: count_tokens_def Let_def reply_error_def extends_def)
qed

text \<open>Where a routed request stands: admitted, or with its admission still to be asked.\<close>

definition stands :: "(stop + target) \<Rightarrow> 'w hstate \<Rightarrow> bool" where
  "stands r s =
     (case r of
        Inl _ \<Rightarrow> lawful (hs_trace s)
      | Inr t \<Rightarrow> if tg_admission t = None then unasked s else asked (tg_model t) s)"

lemma stands_same: "unasked s \<Longrightarrow> hs_trace s' = hs_trace s \<Longrightarrow> (\<And>t. r = Inr t \<Longrightarrow> tg_admission t = None) \<Longrightarrow> stands r s'"
  by (cases r) (auto simp: stands_def unasked_def)

lemma count_tokens_stops: "fst (count_tokens ge sx rq limit apiKey s) \<noteq> Inr t"
  by (simp add: count_tokens_def Let_def reply_error_def split: prod.splits count_answer.splits)

lemma route_path_stands:
  assumes "unasked s" "route_path ge sx rq limit apiKey s = (r, s')" "\<not> isInputTokensPath (hq_path rq)"
  shows "stands r s'"
proof -
  have plain: "stands r s'" if "f = (r, s')" "hs_trace (snd f) = hs_trace s" "\<And>t. fst f = Inr t \<Longrightarrow> tg_admission t = None" for f
    using that stands_same [OF assms(1)] by auto
  have openai: "stands r s'" if "openai_request ge sx rq limit apiKey s = (r, s')"
    using openai_request_asked [OF assms(1) that] by (cases r) (auto simp: stands_def)
  have speech: "stands r s'" if "speech_request ge rq limit apiKey s = (r, s')"
    by (rule plain [OF that]) (auto simp: speech_request_def read_json_def andThen_def reply_error_def plain_target_def Let_def
        split: sum.splits)
  have audio: "stands r s'" if "audio_request ge rq limit apiKey s = (r, s')"
    by (rule plain [OF that]) (auto simp: audio_request_def reply_error_def plain_target_def
        split: sum.splits body_error.splits prod.splits)
  have realtime: "stands r s'" if "realtime_request rq apiKey s = (r, s')"
    by (rule plain [OF that]) (auto simp: realtime_request_def reply_error_def plain_target_def split: sum.splits prod.splits)
  have fixed: "stands r s'" if "(Inl a, s) = (r, s')" for a
    using that by (intro plain [OF that]) auto
  have convert: "stands r s'" if "(Inr (plain_target m k h None None), s) = (r, s')" for m k h
    by (rule plain [OF that]) (auto simp: plain_target_def)
  show ?thesis
    using assms(2,3) openai speech audio realtime fixed convert unfolding route_path_def Let_def by metis
qed

lemma route_request_stands:
  assumes "unasked s" "route_request ge sx rq s = (r, s')" "\<not> isInputTokensPath (hq_path rq)"
  shows "stands r s'"
proof -
  have stopped: "stands (Inl e) s" for e using unasked_lawful [OF assms(1)] by (simp add: stands_def)
  have u: "s1 = s" if "usage_count ge h k s = (x, s1)" for h k x s1
    using that by (auto simp: usage_count_def reply_error_def split: sum.splits)
  show ?thesis
  proof (cases "limitRequestBody (hq_body rq)")
    case (Inl e)
    then show ?thesis using assms(2) stopped by (auto simp: route_request_def reply_error_def)
  next
    case (Inr limit)
    then have "andThen (usage_count ge (hq_header rq) (BearerToken (header_get (hq_header rq) ''Authorization'')) s)
        (\<lambda>_ s1. route_path ge sx rq limit (BearerToken (header_get (hq_header rq) ''Authorization'')) s1) = (r, s')"
      using assms(2) by (simp add: route_request_def Let_def)
    then show ?thesis
    proof (cases rule: andThen_E)
      case (stopped e)
      then show ?thesis using u \<open>\<And>e. stands (Inl e) s\<close> by blast
    next
      case (next_step n s1)
      then show ?thesis using u assms(1,3) route_path_stands by blast
    qed
  qed
qed

text \<open>A count is answered here, without an admission and without anything else than the count itself.\<close>

lemma route_request_counting:
  assumes "route_request ge sx rq s = (r, s')" "isInputTokensPath (hq_path rq)"
  shows "extends counting s s' \<and> (\<nexists>t. r = Inr t)"
proof (cases "limitRequestBody (hq_body rq)")
  case (Inl e)
  then show ?thesis using assms(1) by (auto simp: route_request_def reply_error_def)
next
  case (Inr limit)
  let ?k = "BearerToken (header_get (hq_header rq) ''Authorization'')"
  have "route_path ge sx rq limit ?k = count_tokens ge sx rq limit ?k"
    using assms(2) by (intro ext) (simp add: route_path_def Let_def)
  then have "andThen (usage_count ge (hq_header rq) ?k s) (\<lambda>_. count_tokens ge sx rq limit ?k) = (r, s')"
    using Inr assms(1) by (simp add: route_request_def Let_def)
  moreover have u: "s1 = s" if "usage_count ge (hq_header rq) ?k s = (x, s1)" for x s1
    using that by (auto simp: usage_count_def reply_error_def split: sum.splits)
  moreover have "extends counting s s2 \<and> (\<nexists>t. x = Inr t)" if "count_tokens ge sx rq limit ?k s = (x, s2)" for x s2
    using that count_tokens_extends [of s ge sx rq limit ?k] count_tokens_stops [of ge sx rq limit ?k s] by auto
  ultimately show ?thesis by (elim andThen_E) (auto dest!: u)
qed

section \<open>Admission before every dispatch\<close>

lemma speech_body_state: "snd (speech_body ge path admission t s) = s"
proof -
  have "s1 = s" if "with_salt ge path k False b s = (x, s1)" for k b x s1
    using with_salt_state [of ge path k False b s] that by simp
  then show ?thesis
    by (auto simp: speech_body_def andThen_def reply_error_def Let_def split: option.splits prod.splits sum.splits)
qed

lemma admit_target_asked:
  assumes "stands (Inr t) s" "admit_target ge sx path t s = (r, s')"
  shows "lawful (hs_trace s') \<and> (\<forall>m a t'. r = Inr (m, a, t') \<longrightarrow> asked (tg_model t) s')"
proof (cases "map_of (sx_models sx (hs_world s)) (tg_model t)")
  case None
  have "lawful (hs_trace s)" using assms(1) unasked_lawful asked_lawful by (auto simp: stands_def split: if_splits)
  then show ?thesis using assms(2) None by (auto simp: admit_target_def unknown_model_def reply_error_def)
next
  case (Some m)
  show ?thesis
  proof (cases "tg_admission t")
    case None
    with assms(1) have u: "unasked s" by (simp add: stands_def)
    have "andThen (admit sx (tg_key t) (tg_model t) s) (\<lambda>admission s1.
        andThen (speech_body ge path admission t s1) (\<lambda>t1 s2. (Inr (m, admission, t1\<lparr>tg_admission := Some admission\<rparr>), s2))) = (r, s')"
      using assms(2) Some None by (simp add: admit_target_def)
    then show ?thesis
    proof (cases rule: andThen_E)
      case (stopped e)
      then show ?thesis using admit_asked [OF u] by blast
    next
      case (next_step admission s1)
      have a: "asked (tg_model t) s1" using admit_asked [OF u next_step(1)] by blast
      have "s' = s1"
        using next_step(2) speech_body_state [of ge path admission t s1]
        by (auto simp: andThen_def split: prod.splits sum.splits)
      then show ?thesis using a asked_lawful by blast
    qed
  next
    case (Some a)
    then show ?thesis using assms \<open>map_of _ _ = Some m\<close> asked_lawful by (auto simp: admit_target_def stands_def)
  qed
qed

section \<open>The body that is forwarded\<close>

definition endpoint_of :: "string \<Rightarrow> endpoint option" where
  "endpoint_of path =
     (if path = ''/v1/responses'' then Some responses_endpoint
      else if path = ''/v1/chat/completions'' then Some chat_endpoint else None)"

text \<open>
  The items of a body on its path: what the conversions for the admitted caller and model render from the items that
  were sent, in which no file part is left.
\<close>

definition items_rendered ::
  "gateway \<Rightarrow> 'w services \<Rightarrow> header \<Rightarrow> routeContext \<Rightarrow> string \<Rightarrow> endpoint \<Rightarrow> json_object \<Rightarrow> json_object \<Rightarrow> bool" where
  "items_rendered ge sx h a name ep sent b \<longleftrightarrow>
     (case as_array (field sent (ep_items ep)) of
        None \<Rightarrow> map_of b (ep_items ep) = map_of sent (ep_items ep)
      | Some items \<Rightarrow>
          \<exists>items' s1 s2. rewrite_items ep (header_get h ''Authorization'') (convert_context ge sx (rc_OrgID a) name s1) items s1 = (Inr items', s2)
            \<and> map_of b (ep_items ep) = Some (JArray items')
            \<and> list_all (\<lambda>j. list_all (\<lambda>q. \<not> is_file ep q) (contents_of j)) items')"

definition files_rendered ::
  "gateway \<Rightarrow> 'w services \<Rightarrow> header \<Rightarrow> string \<Rightarrow> routeContext \<Rightarrow> string \<Rightarrow> json_object \<Rightarrow> json_object \<Rightarrow> bool" where
  "files_rendered ge sx h path a name sent b =
     (case endpoint_of path of None \<Rightarrow> True | Some ep \<Rightarrow> items_rendered ge sx h a name ep sent b)"

definition item_fields :: "string \<Rightarrow> string set" where
  "item_fields path = (case endpoint_of path of None \<Rightarrow> {} | Some ep \<Rightarrow> {ep_items ep})"

lemma endpoint_items: "endpoint_of path = Some ep \<Longrightarrow> known_endpoint ep \<and> ep_items ep \<in> {''input'', ''messages''}"
  by (auto simp: endpoint_of_def known_endpoint_def responses_endpoint_def chat_endpoint_def split: if_splits)

lemma rewrite_body_rendered:
  assumes "known_endpoint ep"
    "rewrite_body ep (header_get h ''Authorization'') (convert_context ge sx (rc_OrgID a) name s) body s = (Inr (b, x), s')"
  shows "items_rendered ge sx h a name ep body b \<and> (\<forall>k. k \<noteq> ep_items ep \<longrightarrow> map_of b k = map_of body k)"
proof (cases "as_array (field body (ep_items ep))")
  case None
  then show ?thesis using assms(2) by (simp add: rewrite_body_def items_rendered_def)
next
  case (Some items)
  let ?rc = "convert_context ge sx (rc_OrgID a) name s"
  obtain items' where r: "rewrite_items ep (header_get h ''Authorization'') ?rc items s = (Inr items', s')"
    and b: "b = AList.update (ep_items ep) (JArray items') body"
    using Some assms(2) by (auto simp: rewrite_body_def split: prod.splits sum.splits)
  note rep = rewrite_items_replaced [OF assms(1) r]
  have "\<not> is_file ep q" if j: "j \<in> set items'" and q: "q \<in> set (contents_of j)" for j q
    using list_all2_source [OF rep j] item_replaced_no_file [OF assms(1)] q by blast
  then have "list_all (\<lambda>j. list_all (\<lambda>q. \<not> is_file ep q) (contents_of j)) items'" by (simp add: list_all_iff)
  then show ?thesis using r Some b by (auto simp: items_rendered_def)
qed

lemma rewrite_files_ok:
  assumes "rewrite_files ge sx h path (rc_OrgID a) name body s = (Inr b, s')"
  shows "files_rendered ge sx h path a name body b \<and> (\<forall>k. k \<notin> item_fields path \<longrightarrow> map_of b k = map_of body k)"
proof (cases "endpoint_of path")
  case None
  then show ?thesis
    using assms by (auto simp: endpoint_of_def files_rendered_def rewrite_files_def Let_def split: if_splits)
next
  case (Some ep)
  then obtain x where "rewrite_body ep (header_get h ''Authorization'') (convert_context ge sx (rc_OrgID a) name s) body s = (Inr (b, x), s')"
    using assms by (auto simp: endpoint_of_def rewrite_files_def Let_def rewriteResponsesBase64FilesWithProcessor_def
        rewriteChatCompletionsBase64FilesWithProcessor_def reply_error_def split: prod.splits sum.splits if_splits)
  from rewrite_body_rendered [OF _ this] endpoint_items [OF Some] Some show ?thesis
    by (simp add: files_rendered_def item_fields_def)
qed

lemma files_rendered_cong:
  assumes "\<And>k. k \<in> item_fields path \<Longrightarrow> map_of b k = map_of b' k" "\<And>k. k \<in> item_fields path \<Longrightarrow> map_of body k = map_of body' k"
    "files_rendered ge sx h path a name body b"
  shows "files_rendered ge sx h path a name body' b'"
  using assms unfolding files_rendered_def items_rendered_def item_fields_def field_def by (auto split: option.splits) blast

text \<open>
  The salt of a body that was sent with this cache secret: where salting is on, the one derived from the caller's key
  and the secret (none when there is no identity to derive it from), and none elsewhere.
\<close>

definition salt_owned :: "gateway \<Rightarrow> string \<Rightarrow> string \<Rightarrow> string \<Rightarrow> json_object \<Rightarrow> bool" where
  "salt_owned ge path apiKey secret b \<longleftrightarrow>
     map_of b ''user_cache_secret'' = None
     \<and> (if ge_salting ge \<and> path \<in> set cacheSaltPaths
        then \<exists>salt mode. Derive (ge_sha ge) (cacheSaltIdentity (ge_json_string ge) apiKey) secret = Some (salt, mode)
               \<and> map_of b ''cache_salt'' = (if salt = [] then None else Some (JString salt))
        else map_of b ''cache_salt'' = None)"

lemma with_salt_ok:
  assumes "with_salt ge path apiKey (ge_salting ge) body s = (Inr b, s')"
  shows "salt_owned ge path apiKey (string_field body ''user_cache_secret'') b
    \<and> (\<forall>k. k \<noteq> ''cache_salt'' \<and> k \<noteq> ''user_cache_secret'' \<longrightarrow> map_of b k = map_of body k)"
proof -
  obtain mode where "applyCacheSalt (ge_sha ge) (ge_json_string ge) (Some body) path apiKey (ge_salting ge) = Some (Some b, mode)"
    using assms by (auto simp: with_salt_def split: option.splits prod.splits)
  then have a: "(if \<not> ge_salting ge \<or> path \<notin> set cacheSaltPaths then Some (Some (strip_salt body), ModeNone)
      else case Derive (ge_sha ge) (cacheSaltIdentity (ge_json_string ge) apiKey) (string_field body ''user_cache_secret'') of
             None \<Rightarrow> None
           | Some (salt, mode) \<Rightarrow> if salt = [] then Some (Some (strip_salt body), ModeNone)
               else Some (Some (AList.update ''cache_salt'' (JString salt) (strip_salt body)), mode)) = Some (Some b, mode)"
    unfolding applyCacheSalt_def Let_def option.case strip_salt_def [symmetric] .
  show ?thesis
  proof (cases "ge_salting ge \<and> path \<in> set cacheSaltPaths")
    case True
    with a obtain salt m where d: "Derive (ge_sha ge) (cacheSaltIdentity (ge_json_string ge) apiKey) (string_field body ''user_cache_secret'')
        = Some (salt, m)" and b: "b = (if salt = [] then strip_salt body else AList.update ''cache_salt'' (JString salt) (strip_salt body))"
      by (auto split: option.splits if_splits)
    then show ?thesis using True by (simp add: salt_owned_def)
  next
    case False
    then have "b = strip_salt body" using a by auto
    then show ?thesis using False by (auto simp: salt_owned_def)
  qed
qed

lemma salt_owned_cong:
  "map_of b ''user_cache_secret'' = map_of b' ''user_cache_secret'' \<Longrightarrow> map_of b ''cache_salt'' = map_of b' ''cache_salt'' \<Longrightarrow>
   salt_owned ge path apiKey secret b = salt_owned ge path apiKey secret b'"
  by (simp add: salt_owned_def)

definition priority_owned :: "routeContext \<Rightarrow> string \<Rightarrow> json_object \<Rightarrow> bool" where
  "priority_owned r path b \<longleftrightarrow>
     map_of b ''priority'' =
       (if path \<notin> set priorityPaths then None
        else if skipsQueue r then map_option JInt (rc_Priority r)
        else if \<exists>d. rc_RateLimit r = Some d \<and> rl_Decision d = decisionDemote then Some (JInt demotedPriority)
        else None)"

lemma with_priority_owned: "priority_owned r path (with_priority r path b)"
  by (cases "rc_Priority r"; cases "rc_RateLimit r")
    (auto simp: with_priority_def priority_owned_def applyPriority_def skipsQueue_def Let_def)

definition usage_included :: "json_object \<Rightarrow> bool" where
  "usage_included b \<longleftrightarrow>
     (is_streaming b \<longrightarrow> (\<exists>opts. field b ''stream_options'' = JObject opts
        \<and> field opts ''include_usage'' = JBool True \<and> field opts ''continuous_usage_stats'' = JBool True))"

lemma final_body_ok:
  assumes "final_body body h = (b, h')"
  shows "usage_included b \<and> is_streaming b = is_streaming body \<and> (\<forall>k. k \<noteq> ''stream_options'' \<longrightarrow> map_of b k = map_of body k)"
proof (cases "is_streaming body")
  case True
  then have b: "b = fst (ensureStreamingUsageOptions body h)" using assms by (simp add: final_body_def)
  have "is_streaming b" using True usage_keeps_fields [of "''stream''" body h] by (simp add: b is_streaming_def field_def)
  then show ?thesis using usage_forced [of body h] usage_keeps_fields [of _ body h] True by (simp add: b usage_included_def)
next
  case False
  then show ?thesis using assms by (simp add: final_body_def usage_included_def)
qed

text \<open>Every field the router may write or remove once the model is known; the rest of a body is forwarded as it is.\<close>

definition router_fields :: "string \<Rightarrow> string set" where
  "router_fields path = {''priority'', ''cache_salt'', ''user_cache_secret'', ''stream_options''} \<union> item_fields path"

lemma item_fields_apart: "k \<in> item_fields path \<Longrightarrow> k \<notin> {''priority'', ''cache_salt'', ''user_cache_secret'', ''stream_options''}"
  using endpoint_items [of path] by (auto simp: item_fields_def split: option.splits)

definition body_owned ::
  "gateway \<Rightarrow> 'w services \<Rightarrow> http_request \<Rightarrow> target \<Rightarrow> json_object \<Rightarrow> json_object \<Rightarrow> bool" where
  "body_owned ge sx rq t sent b \<longleftrightarrow>
     salt_owned ge (hq_path rq) (tg_key t) (string_field sent ''user_cache_secret'') b
     \<and> (\<exists>a. tg_admission t = Some a \<and> priority_owned a (hq_path rq) b
           \<and> files_rendered ge sx (hq_header rq) (hq_path rq) a (tg_model t) sent b)
     \<and> usage_included b \<and> (\<forall>k. k \<notin> router_fields (hq_path rq) \<longrightarrow> map_of b k = map_of sent k)
     \<and> tg_bytes t \<noteq> None \<and> tg_bytes t = ge_encode ge (JObject b)"

lemma with_priority_other: "k \<noteq> ''priority'' \<Longrightarrow> map_of (with_priority a path b) k = map_of b k"
  by (simp add: with_priority_def applyPriority_def Let_def split: option.splits)

lemma string_field_same: "map_of b k = map_of b' k \<Longrightarrow> string_field b k = string_field b' k"
  by (simp add: string_field_def field_def)

lemma admitted_request_owned:
  assumes "admitted_request ge sx (hq_path rq) apiKey (hq_header rq) name opts body s = (Inr t, s')"
  shows "tg_key t = apiKey \<and> (\<exists>b. tg_json t = Some b \<and> body_owned ge sx rq t body b)"
proof (cases "map_of (sx_models sx (hs_world s)) name")
  case None
  then show ?thesis using assms by (simp add: admitted_request_def Let_def unknown_model_def reply_error_def)
next
  case (Some m)
  let ?path = "hq_path rq" and ?h = "hq_header rq"
  from Some assms have "andThen (admit sx apiKey name s) (\<lambda>admission s1.
      andThen (rewrite_files ge sx ?h ?path (rc_OrgID admission) name (with_priority admission ?path (AList.delete ''priority'' body)) s1) (\<lambda>body2 s2.
      andThen (with_salt ge ?path apiKey (ge_salting ge) body2 s2) (\<lambda>body3 s3.
      encode_target ge name apiKey ?h admission (DetectProfiles ?path opts body) opts body3 s3))) = (Inr t, s')"
    by (simp add: admitted_request_def Let_def)
  then show ?thesis
  proof (elim andThen_E, goal_cases)
    case (4 a s1 body2 s2 body3 s3)
    define body1 where "body1 = with_priority a ?path (AList.delete ''priority'' body)"
    obtain b h1 where f: "final_body body3 ?h = (b, h1)" by force
    have t: "tg_key t = apiKey" "tg_json t = Some b" "tg_admission t = Some a" "tg_model t = name"
      "tg_bytes t \<noteq> None" "tg_bytes t = ge_encode ge (JObject b)"
      using 4(4) f by (auto simp: encode_target_def reply_error_def split: option.splits)
    have k1: "map_of body1 k = map_of body k" if "k \<noteq> ''priority''" for k
      using that by (simp add: body1_def with_priority_other)
    note files = rewrite_files_ok [OF 4(2), folded body1_def] and salt = with_salt_ok [OF 4(3)] and ok = final_body_ok [OF f]
    have k3: "map_of b k = map_of body2 k" if "k \<notin> {''cache_salt'', ''user_cache_secret'', ''stream_options''}" for k
      using that salt ok by simp
    have apart: "''user_cache_secret'' \<notin> item_fields ?path" "''priority'' \<notin> item_fields ?path" using item_fields_apart by blast+
    have "string_field body2 ''user_cache_secret'' = string_field body ''user_cache_secret''"
      using files k1 apart by (intro string_field_same) simp
    then have "salt_owned ge ?path apiKey (string_field body ''user_cache_secret'') b"
      using salt ok salt_owned_cong [of b body3] by simp
    moreover have "priority_owned a ?path b"
      using with_priority_owned [of a ?path "AList.delete ''priority'' body", folded body1_def] files apart k3 by (simp add: priority_owned_def)
    moreover have "files_rendered ge sx ?h ?path a name body b"
      by (rule files_rendered_cong [of ?path body2 b body1]) (use files k1 k3 item_fields_apart in auto)
    moreover have "\<forall>k. k \<notin> router_fields ?path \<longrightarrow> map_of b k = map_of body k"
      using files k1 k3 by (simp add: router_fields_def)
    ultimately show ?case using t ok by (auto simp: body_owned_def)
  qed simp_all
qed

section \<open>The body that was sent\<close>

text \<open>The JSON body of a request, as the client sent it.\<close>

definition client_body :: "gateway \<Rightarrow> http_request \<Rightarrow> json_object \<Rightarrow> bool" where
  "client_body ge rq cbody \<longleftrightarrow>
     (\<exists>limit bytes. limitRequestBody (hq_body rq) = Inr limit \<and> read_all limit (hq_body rq) = Inr bytes
        \<and> decodeJSONBody (ge_decode ge) bytes = Inr cbody)"

text \<open>The fields of the client that the router reads, and what the published parameters of an effort could do to them.\<close>

definition client_fields :: "string set" where
  "client_fields = {''user_cache_secret'', ''input'', ''messages''}"

definition efforts_apart :: "gateway \<Rightarrow> 'w services \<Rightarrow> string \<Rightarrow> 'w hstate \<Rightarrow> bool" where
  "efforts_apart ge sx path s \<longleftrightarrow>
     (\<forall>target visual. \<forall>c \<in> set (Rank (ge_scores ge) (sx_catalog sx (hs_world s)) target visual).
        \<forall>fragment. effort_fragment path c = Some fragment \<longrightarrow> fst ` set fragment \<inter> client_fields = {})"

lemma mergeInto_other: "k \<notin> fst ` set src \<Longrightarrow> map_of (mergeInto dst src) k = map_of dst k"
  by (induction src arbitrary: dst) auto

lemma ApplyEffort_other:
  assumes "k \<in> client_fields" "\<And>fragment. effort_fragment path c = Some fragment \<Longrightarrow> k \<notin> fst ` set fragment"
  shows "map_of (ApplyEffort body path c) k = map_of body k"
proof -
  have "map_of (strip_client_effort body) k = map_of body k"
    using assms(1) by (auto simp: client_fields_def strip_client_effort_def clientEffortField_def clientReasoningField_def Let_def split: json.splits)
  then show ?thesis using assms(2) by (auto simp: ApplyEffort_def mergeInto_other split: option.splits)
qed

lemma walk_chosen:
  "walk_with org status i chosen cs s = (Chosen c healthy fallbacks, s') \<Longrightarrow> c \<in> set cs \<union> set_option chosen"
  by (induction cs arbitrary: i chosen s) (fastforce split: prod.splits sum.splits if_splits option.splits)+

lemma resolveAuto_other:
  assumes "resolveAuto ge sx apiKey h path body s = (Inr (name, b), s')" "efforts_apart ge sx path s" "k \<in> client_fields"
  shows "map_of b k = map_of body k"
proof -
  obtain target body1 where p: "ParseIntelligence (ge_float ge) h body = (Inr target, body1)"
    using assms(1) by (auto simp: resolveAuto_def split: prod.splits sum.splits)
  let ?ranked = "Rank (ge_scores ge) (sx_catalog sx (hs_world s)) target (HasVisualInput body1)"
  obtain c healthy fallbacks where c: "walk_with (org_for_model sx apiKey) (\<lambda>s. sx_auto_status sx (hs_world s)) 0 None ?ranked s
      = (Chosen c healthy fallbacks, s')" and b: "b = AList.update ''model'' (JString (am_Name (ac_Model c))) (ApplyEffort body1 path c)"
    using assms(1) p by (auto simp: resolveAuto_def Let_def split: prod.splits walk_result.splits if_splits)
  have "c \<in> set ?ranked" using walk_chosen [OF c] by simp
  then have "map_of (ApplyEffort body1 path c) k = map_of body1 k"
    using assms(2,3) unfolding efforts_apart_def by (intro ApplyEffort_other) blast+
  moreover have "map_of body1 k = map_of body k" "k \<noteq> ''model''"
    using p assms(3) by (auto simp: ParseIntelligence_def client_fields_def OptionsField_def)
  ultimately show ?thesis by (simp add: b)
qed

lemma apply_limits_other:
  assumes "apply_limits h path name body = Inr b" "k \<in> client_fields"
  shows "map_of b k = map_of body k"
  using assms
  by (auto simp: apply_limits_def applyMaxOutputTokensHeader_def applyCompletionCountHeader_def maxOutputTokensFields_def client_fields_def
      split: if_splits sum.splits option.splits prod.splits)

lemma ExtractRouterOptions_other:
  "ExtractRouterOptions body = Inr (opts, b) \<Longrightarrow> k \<in> insert ''model'' client_fields \<Longrightarrow> map_of b k = map_of body k"
  by (auto simp: ExtractRouterOptions_def Let_def fieldWebSearchOptions_def fieldPIICheckOptions_def client_fields_def
      split: if_splits option.splits)

text \<open>
  What the router admits and forwards was sent by the client: its cache secret and its items are the client's (for the
  model auto, provided no published effort parameter is named like one of them).
\<close>

definition sent_by_client :: "gateway \<Rightarrow> 'w services \<Rightarrow> http_request \<Rightarrow> 'w hstate \<Rightarrow> json_object \<Rightarrow> bool" where
  "sent_by_client ge sx rq s sent \<longleftrightarrow>
     (\<exists>cbody. client_body ge rq cbody
        \<and> (string_field cbody ''model'' \<noteq> ''auto'' \<or> efforts_apart ge sx (hq_path rq) s \<longrightarrow>
             (\<forall>k \<in> client_fields. map_of sent k = map_of cbody k)))"

lemma body_model_field: "body_model body = Inr name \<Longrightarrow> string_field body ''model'' = name"
  by (auto simp: body_model_def string_field_def field_def split: option.splits json.splits if_splits)

lemma openai_request_owned:
  assumes "openai_request ge sx rq limit apiKey s = (Inr t, s')" "limitRequestBody (hq_body rq) = Inr limit"
  shows "tg_key t = apiKey \<and> (\<exists>sent b. sent_by_client ge sx rq s sent \<and> tg_json t = Some b \<and> body_owned ge sx rq t sent b)"
proof -
  let ?h = "hq_header rq" and ?path = "hq_path rq"
  obtain cbody s1 opts body1 s2 name s3 body2 s4 name1 sent s5 where
    steps: "read_json ge limit (hq_body rq) s = (Inr cbody, s1)" "or_error (ExtractRouterOptions cbody) s1 = (Inr (opts, body1), s2)"
      "or_error (body_model body1) s2 = (Inr name, s3)" "or_error (apply_limits ?h ?path name body1) s3 = (Inr body2, s4)"
      "(if name = ''auto'' then (case resolveAuto ge sx apiKey ?h ?path body2 s4 of (Inl e, s5) \<Rightarrow> reply_error e s5 | (Inr r, s5) \<Rightarrow> (Inr r, s5))
        else (Inr (name, body2), s4)) = (Inr (name1, sent), s5)"
      "admitted_request ge sx ?path apiKey ?h name1 opts sent s5 = (Inr t, s')"
    using assms(1) unfolding openai_request_def Let_def
    by (elim andThen_E) (auto elim!: andThen_E split: prod.splits)
  have r: "client_body ge rq cbody" "s1 = s"
    using steps(1) assms(2) by (auto simp: read_json_def reply_error_def client_body_def split: sum.splits)
  have o: "ExtractRouterOptions cbody = Inr (opts, body1)" "body_model body1 = Inr name" "apply_limits ?h ?path name body1 = Inr body2" "s4 = s"
    using steps(2,3,4) r(2) by (auto simp: or_error_def reply_error_def split: sum.splits)
  have model: "string_field cbody ''model'' = name"
    using body_model_field [OF o(2)] string_field_same [OF ExtractRouterOptions_other [OF o(1), of "''model''"]] by simp
  have "map_of sent k = map_of cbody k" if "k \<in> client_fields" "name \<noteq> ''auto'' \<or> efforts_apart ge sx ?path s" for k
  proof -
    have "map_of sent k = map_of body2 k"
      using steps(5) that resolveAuto_other [of ge sx apiKey ?h ?path body2 s name1 sent s5 k] o(4)
      by (auto simp: reply_error_def split: if_splits prod.splits sum.splits)
    then show ?thesis using apply_limits_other [OF o(3) that(1)] ExtractRouterOptions_other [OF o(1), of k] that(1) by simp
  qed
  then have "sent_by_client ge sx rq s sent" using r(1) model by (auto simp: sent_by_client_def)
  then show ?thesis using admitted_request_owned [OF steps(6)] by blast
qed

lemma route_path_openai:
  assumes "route_path ge sx rq limit apiKey s = (Inr t, s')" "tg_json t \<noteq> None \<or> tg_profiles t \<noteq> []"
  shows "openai_request ge sx rq limit apiKey s = (Inr t, s')"
proof -
  have count: "count_tokens ge sx rq limit apiKey s \<noteq> (Inr t, s')"
    using count_tokens_stops [of ge sx rq limit apiKey s t] by auto
  have plain: "tg_json (plain_target m k h by' sp) = None" "tg_profiles (plain_target m k h by' sp) = []" for m k h by' sp
    by (simp_all add: plain_target_def)
  have speech: "speech_request ge rq limit apiKey s \<noteq> (Inr t, s')"
    using assms(2) plain by (auto simp: speech_request_def andThen_def Let_def split: prod.splits sum.splits)
  have audio: "audio_request ge rq limit apiKey s \<noteq> (Inr t, s')"
    using assms(2) plain by (auto simp: audio_request_def reply_error_def split: prod.splits sum.splits body_error.splits)
  have realtime: "realtime_request rq apiKey s \<noteq> (Inr t, s')"
    using assms(2) plain by (auto simp: realtime_request_def reply_error_def split: prod.splits sum.splits)
  have convert: "(Inr (plain_target m k h None None), s) \<noteq> (Inr t, s')" for m k h
    using assms(2) plain by auto
  show ?thesis
    using assms(1) count speech audio realtime convert unfolding route_path_def Let_def by (auto split: if_splits)
qed


section \<open>A run\<close>

definition gateway_example :: gateway where
  "gateway_example = \<lparr>ge_decode = (\<lambda>_. Inr (Some [(''model'', JString ''m''), (''stream'', JBool True), (''priority'', JInt 9),
       (''cache_salt'', JString ''mine'')], [])),
     ge_unmarshal = (\<lambda>_. Inr None), ge_encode = (\<lambda>_. Some ''{}''), ge_quote = id, ge_media = (\<lambda>_. None), ge_multipart = (\<lambda>_ _. []),
     ge_error_body = (\<lambda>_. None), ge_count = (\<lambda>_. None), ge_entries = (\<lambda>_. None), ge_sha = (\<lambda>_. ''h''),
     ge_json_string = (\<lambda>_ _. None), ge_float = (\<lambda>_. None), ge_scores = am_Scores, ge_usage_context = (\<lambda>_ _ _. None),
     ge_key_hash = (\<lambda>_ _. False), ge_context_secret = [], ge_context_text = (\<lambda>_. []), ge_models_list = FetchFailed,
     ge_salting = False, ge_version = ''dev''\<rparr>"

definition services_example :: "nat services" where
  "services_example = \<lparr>sx_models = (\<lambda>_. [(''m'', tier_example)]), sx_ready = (\<lambda>_. True), sx_status = (\<lambda>_. []), sx_targets = (\<lambda>_. JNull),
     sx_client = True, sx_lookup = (\<lambda>_ _ n. Some ((empty_context\<lparr>rc_Priority := Some 3\<rparr>, None), n + 1)),
     sx_metadata = (\<lambda>_ n. ((empty_context, None), n)), sx_cached_org = (\<lambda>_ _ n. ([], n)),
     sx_convert = (\<lambda>_ _ _ _ _ _ n. (Inl ErrUpstream, n)), sx_multimodal = (\<lambda>_ _. False), sx_catalog = (\<lambda>_. []),
     sx_auto_status = (\<lambda>_ _ _. (False, False)), sx_count = (\<lambda>_ _ _ _ _ n. (Inl (GoError []), n))\<rparr>"

definition request_example :: http_request where
  "request_example = \<lparr>hq_method = ''POST'', hq_path = ''/v1/chat/completions'', hq_query = (\<lambda>_. []), hq_header = [],
     hq_body = Some \<lparr>wb_length = 2, wb_bytes = ''{}'', wb_error = None\<rparr>\<rparr>"

definition start_of :: "'w \<Rightarrow> 'w hstate" where
  "start_of w = \<lparr>hs_world = w, hs_org = None, hs_resp = [], hs_trace = []\<rparr>"

definition sent_example :: json_object where
  "sent_example = [(''model'', JString ''m''), (''stream'', JBool True), (''priority'', JInt 3),
     (''stream_options'', JObject [(''include_usage'', JBool True), (''continuous_usage_stats'', JBool True)])]"

definition target_example :: target where
  "target_example = \<lparr>tg_model = ''m'', tg_key = [], tg_header = [(''Content-Length'', [''2''])], tg_bytes = Some ''{}'',
     tg_json = Some sent_example, tg_speech = None, tg_admission = Some (empty_context\<lparr>rc_Priority := Some 3\<rparr>), tg_streaming = True,
     tg_profiles = [], tg_options = Some \<lparr>WebSearch = None, PIICheck = False\<rparr>\<rparr>"

lemma route_example: "fst (route_request gateway_example services_example request_example (start_of 0)) = Inr target_example"
  by code_simp


end
