(* ===== verification/Router_Handler.thy ===== *)
theory Router_Handler
  imports Router_Admission Internal_Dispatch Latency
begin

text \<open>
  The handler of the router (\<open>newRouterHandler\<close> of \<open>main.go\<close>) over the state of the process: the manager, the
  control-plane client, the table of routing keys and the published metadata. It routes and admits a request
  (\<open>Router_Entry\<close>), then runs the tool loop, which talks to the manager through internal dispatches, or chooses a
  backend, proxies to it and, on a replayable failure, to another one, with every reservation it takes
  and gives back. Clocks, iteration orders, the network, the calls a tool loop makes and what an exchange reports to
  the breakers are arguments; the bodies of exchanges are those of \<open>Proxy_Response\<close>.
\<close>

section \<open>The process\<close>

record route_world =
  rw_manager :: EnclaveManager
  rw_client :: "routeContextClient option"
  rw_shadow :: Shadow
  rw_metadata :: metadata

datatype tool_outcome = ToolsServed | ToolsStreamAborted | ToolsFailed

text \<open>
  What the tool loop asks of the manager: the endpoint of a tool server, and turns with the model of the request, each
  of which reads the answer and closes its body.
\<close>

datatype tool_step =
    ToolServer string
  | ToolTurn string json_object bool exchange

record network =
  nx_now :: time
  nx_enum :: "Model \<Rightarrow> enumeration"
  nx_rnd :: "nat \<Rightarrow> nat"
  nx_codec :: codec
  nx_metadata :: "string \<Rightarrow> routeContextClient option \<Rightarrow> (routeContext \<times> routeContextError option) \<times> routeContextClient option"
  nx_document :: doc_env
  nx_count :: "string \<Rightarrow> string \<Rightarrow> exchange"
  nx_count_body :: "string \<Rightarrow> string \<Rightarrow> string option"
  nx_status :: "EnclaveManager \<Rightarrow> json_object"
  nx_route :: route_env
  nx_outcomes :: "string \<Rightarrow> cbCall list"
  nx_bad_gateway :: bool
  nx_tools :: "target \<Rightarrow> route_world \<Rightarrow> tool_outcome \<times> tool_step list"
  nx_debug :: bool
  nx_getenv :: "string \<Rightarrow> string"

definition enum_of :: "network \<Rightarrow> EnclaveManager \<Rightarrow> string \<Rightarrow> enumeration" where
  "enum_of nx em name = (case map_of (models em) name of None \<Rightarrow> (\<lambda>_. []) | Some m \<Rightarrow> nx_enum nx m)"

text \<open>No group at all is encoded as null.\<close>

definition PrometheusTargets :: "EnclaveManager \<Rightarrow> json" where
  "PrometheusTargets em =
     (let groups = map (\<lambda>(name, m).
            JObject [(''targets'', JArray (map (\<lambda>(h, _). JString h) (Enclaves m))),
                     (''labels'', JObject [(''model_name'', JString name), (''__param_model'', JString name)])])
            (filter (\<lambda>(_, m). Enclaves m \<noteq> []) (models em))
      in if groups = [] then JNull else JArray groups)"

text \<open>The services of \<open>Router_Entry\<close>, as the process has them.\<close>

definition convert_service :: "network \<Rightarrow> string \<Rightarrow> route_world processor" where
  "convert_service nx orgID auth filename contentType data mode w =
     (case ConvertFile (nx_document nx) (nx_now nx) (enum_of nx (rw_manager w) ''doc-upload'') (nx_rnd nx) orgID auth filename contentType
             data mode (rw_manager w) of
        (r, em) \<Rightarrow> (r, w\<lparr>rw_manager := em\<rparr>))"

definition count_service ::
  "network \<Rightarrow> string \<Rightarrow> string \<Rightarrow> string \<Rightarrow> string \<Rightarrow> header \<Rightarrow> route_world \<Rightarrow> (go_error + int \<times> string option) \<times> route_world" where
  "count_service nx orgID name path bytes h w =
     (case DoModelRequest (nx_now nx) (enum_of nx (rw_manager w) name) (nx_rnd nx) orgID name (nx_count nx name bytes) (rw_manager w) of
        (Inl _, em) \<Rightarrow> (Inl (GoError ''dispatch failed''), w\<lparr>rw_manager := em\<rparr>)
      | (Inr (status, b), em) \<Rightarrow> (Inr (status, nx_count_body nx name bytes), w\<lparr>rw_manager := snd (inflightBody_Close b em)\<rparr>))"

definition lookup_service ::
  "network \<Rightarrow> string \<Rightarrow> string \<Rightarrow> route_world \<Rightarrow> ((routeContext \<times> routeContextError option) \<times> route_world) option" where
  "lookup_service nx apiKey name w =
     map_option (\<lambda>(r, cl). (r, w\<lparr>rw_client := cl\<rparr>)) (Lookup (nx_codec nx) (nx_now nx) apiKey name (rw_client w))"

text \<open>Reading the cache fails only on an ill-formed cache, which no client has.\<close>

definition cached_org_service :: "network \<Rightarrow> string \<Rightarrow> string \<Rightarrow> route_world \<Rightarrow> string \<times> route_world" where
  "cached_org_service nx apiKey name w =
     (case rw_client w of
        None \<Rightarrow> ([], w)
      | Some cl \<Rightarrow>
          (case cache_get (nx_now nx) (routeContextKey (cd_sha256 (nx_codec nx)) apiKey name) (cl_cache cl) of
             None \<Rightarrow> ([], w)
           | Some ((r, _), c) \<Rightarrow> (rc_OrgID r, w\<lparr>rw_client := Some (cl\<lparr>cl_cache := c\<rparr>)\<rparr>)))"

definition router_services :: "network \<Rightarrow> route_world \<Rightarrow> route_world services" where
  "router_services nx w0 =
     \<lparr>sx_models = (\<lambda>w. models (rw_manager w)), sx_ready = (\<lambda>w. Ready (rw_manager w)), sx_status = (\<lambda>w. nx_status nx (rw_manager w)),
      sx_targets = (\<lambda>w. PrometheusTargets (rw_manager w)), sx_client = (rw_client w0 \<noteq> None), sx_lookup = lookup_service nx,
      sx_metadata = (\<lambda>apiKey w. case nx_metadata nx apiKey (rw_client w) of (r, cl) \<Rightarrow> (r, w\<lparr>rw_client := cl\<rparr>)),
      sx_cached_org = cached_org_service nx, sx_convert = convert_service nx,
      sx_multimodal = (\<lambda>w. IsMultimodal (rw_metadata w)), sx_catalog = (\<lambda>w. AutoRouteCatalog (rw_metadata w)),
      sx_auto_status = (\<lambda>w. AutoRouteStatus (nx_now nx) (models (rw_manager w))), sx_count = count_service nx\<rparr>"

section \<open>Choosing a backend\<close>

definition on_manager :: "(EnclaveManager \<Rightarrow> EnclaveManager) \<Rightarrow> route_world hstate \<Rightarrow> route_world hstate" where
  "on_manager f s = s\<lparr>hs_world := (hs_world s)\<lparr>rw_manager := f (rw_manager (hs_world s))\<rparr>\<rparr>"

definition manager_of :: "route_world hstate \<Rightarrow> EnclaveManager" where "manager_of s = rw_manager (hs_world s)"

definition modelUnavailableRetryAfterSeconds :: int where "modelUnavailableRetryAfterSeconds = 30"
definition defaultOverloadRetryAfterSeconds :: int where "defaultOverloadRetryAfterSeconds = 60"

definition overload_seconds :: "duration \<Rightarrow> int" where
  "overload_seconds retryAfter =
     (let secs = go_div retryAfter second in if secs \<le> 0 then defaultOverloadRetryAfterSeconds else secs)"

definition overloaded_error :: "string \<Rightarrow> int \<Rightarrow> APIError" where
  "overloaded_error name secs =
     WithMessage ErrServerOverloaded (''The model '' @ [CHR 0x27] @ name @ [CHR 0x27] @ '' is currently overloaded. Retry after ''
       @ show_int secs @ '' seconds.'')"

definition pool_label :: "poolFilter \<Rightarrow> poolFilter \<Rightarrow> string \<Rightarrow> string" where
  "pool_label primary spill h =
     (if primary = None then ''none''
      else if spill = None then ''shared''
      else if host_in primary h then ''reserved'' else ''spilled'')"

text \<open>The cache-route request of a plain JSON request, with the settings of its model.\<close>

definition cache_request :: "network \<Rightarrow> string \<Rightarrow> target \<Rightarrow> Model \<Rightarrow> (Request \<times> Settings) option" where
  "cache_request nx path t m =
     (case tg_json t of
        None \<Rightarrow> None
      | Some body \<Rightarrow>
          if path \<notin> set cacheSaltPaths then None
          else let settings = SettingsFrom (re_secret (nx_route nx)) (CacheRoute m) in
               if set_Mode settings = ModeOff then None
               else Some (ExtractRequest (re_sha (nx_route nx)) (re_float (nx_route nx)) body path (string_field body ''cache_salt'') settings,
                          settings))"

definition route_pool :: "network \<Rightarrow> poolFilter \<Rightarrow> Model \<Rightarrow> Pool" where
  "route_pool nx primary m = CacheRoutePoolIn (nx_now nx) (nx_enum nx m 0) (nx_enum nx m 1) primary m"

definition with_pool :: "network \<Rightarrow> poolFilter \<Rightarrow> Model \<Rightarrow> (Request \<times> Settings) option \<Rightarrow> (Request \<times> Settings \<times> Pool) option" where
  "with_pool nx primary m r = map_option (\<lambda>(req, settings). (req, settings, route_pool nx primary m)) r"

definition route_decision :: "network \<Rightarrow> string \<Rightarrow> poolFilter \<Rightarrow> Model \<Rightarrow> (Request \<times> Settings) option \<Rightarrow> Shadow \<Rightarrow> Decision option" where
  "route_decision nx name primary m r shadow =
     decide_order (nx_route nx) (nx_now nx) name (Some shadow) (with_pool nx primary m r)"

text \<open>A landing at a backend: recorded in the table of routing keys and in the trace.\<close>

definition landed ::
  "network \<Rightarrow> string \<Rightarrow> poolFilter \<Rightarrow> (Request \<times> Settings) option \<Rightarrow> Decision option \<Rightarrow> string \<Rightarrow> route_world hstate \<Rightarrow> route_world hstate" where
  "landed nx name primary r decision h s =
     (let w = hs_world s;
          pooled = (case map_of (models (rw_manager w)) name of None \<Rightarrow> None | Some m \<Rightarrow> with_pool nx primary m r);
          shadow = (case record_landing (nx_route nx) (nx_now nx) name pooled decision h (Some (rw_shadow w)) of
                      (_, Some sh) \<Rightarrow> sh | (_, None) \<Rightarrow> rw_shadow w)
      in traced (Dispatched name h) (s\<lparr>hs_world := w\<lparr>rw_shadow := shadow\<rparr>\<rparr>))"

definition attempt_at :: "network \<Rightarrow> string \<Rightarrow> Enclave \<Rightarrow> EnclaveManager \<Rightarrow> EnclaveManager" where
  "attempt_at nx name e em = fold (breaker_event name (oid e)) (nx_outcomes nx (host e)) em"

text \<open>
  Only an upgraded connection outside of the timed streams is served without failover. \<open>ServeHTTPWithFailover\<close> asks
  for another backend for replayable requests only, and when the first one answered 502 before anything of the answer
  was sent and while the client waits (\<open>nx_bad_gateway\<close>).
\<close>

definition with_failover :: "http_request \<Rightarrow> target \<Rightarrow> bool" where
  "with_failover rq t \<longleftrightarrow> (tg_streaming t \<and> hq_path rq \<in> set latencyMetricPaths) \<or> \<not> isWebSocketUpgrade (tg_header t)"

definition replayable :: "http_request \<Rightarrow> target \<Rightarrow> bool" where
  "replayable rq t \<longleftrightarrow>
     hq_path rq \<in> {''/v1/chat/completions'', ''/v1/completions'', ''/v1/responses''}
     \<and> hq_method rq = ''POST'' \<and> tg_bytes t \<noteq> None"

definition retry_backend ::
  "network \<Rightarrow> string \<Rightarrow> string list \<Rightarrow> poolFilter \<Rightarrow> poolFilter \<Rightarrow> policy \<Rightarrow> (Request \<times> Settings) option \<Rightarrow> Decision option \<Rightarrow> Enclave
     \<Rightarrow> route_world hstate \<Rightarrow> (string \<times> string) list \<times> route_world hstate" where
  "retry_backend nx name order primary spill p r decision e s =
     (case map_of (models (manager_of s)) name of
        None \<Rightarrow> ([], on_manager (release_dispatch name (oid e)) s)
      | Some m \<Rightarrow>
          (case SelectRetry (nx_now nx) (nx_enum nx m) (nx_rnd nx) (host e) order primary spill p m of
             (None, m') \<Rightarrow> ([], on_manager (release_dispatch name (oid e) \<circ> set_model name m') s)
           | (Some e', m') \<Rightarrow>
               let s1 = on_manager (release_dispatch name (oid e) \<circ> set_model name m') s;
                   s2 = landed nx name primary r decision (host e') s1
               in ([(host e', pool_label primary spill (host e'))],
                   on_manager (release_dispatch name (oid e') \<circ> attempt_at nx name e') s2)))"

definition proxy_to ::
  "network \<Rightarrow> http_request \<Rightarrow> target \<Rightarrow> string \<Rightarrow> string list \<Rightarrow> poolFilter \<Rightarrow> poolFilter \<Rightarrow> policy \<Rightarrow> (Request \<times> Settings) option \<Rightarrow> Decision option
     \<Rightarrow> Enclave \<Rightarrow> route_world hstate \<Rightarrow> (string \<times> string) list \<times> route_world hstate" where
  "proxy_to nx rq t name order primary spill p r decision e s =
     (let s1 = on_manager (attempt_at nx name e) (landed nx name primary r decision (host e) s);
          first = (host e, pool_label primary spill (host e))
      in if with_failover rq t \<and> replayable rq t \<and> nx_bad_gateway nx
         then (case retry_backend nx name order primary spill p r decision e s1 of (hs, s2) \<Rightarrow> (first # hs, s2))
         else ([first], on_manager (release_dispatch name (oid e)) s1))"

definition serve_target ::
  "network \<Rightarrow> http_request \<Rightarrow> Model \<Rightarrow> routeContext \<Rightarrow> target \<Rightarrow> route_world hstate \<Rightarrow> (stop + (string \<times> string) list) \<times> route_world hstate" where
  "serve_target nx rq m admission t s =
     (let name = tg_model t; r = cache_request nx (hq_path rq) t m in
      case ReservationPools (rc_OrgID admission) m of
        (primary, spill, p) \<Rightarrow>
          let decision = route_decision nx name primary m r (rw_shadow (hs_world s));
              order = (case decision of None \<Rightarrow> [] | Some d \<Rightarrow> Order d)
          in (case SelectServing (nx_now nx) (nx_enum nx m) (nx_rnd nx) order True primary spill p m of
                (sel, m') \<Rightarrow>
                  let s1 = on_manager (set_model name m') s in
                  (case sel_enclave sel of
                     None \<Rightarrow> reply_error (WithMessage ErrModelUnavailable (ErrMsgModelUnavailable name))
                               (retry_header (show_int modelUnavailableRetryAfterSeconds) s1)
                   | Some e \<Rightarrow>
                       if sel_overloaded sel \<and> \<not> skipsQueue admission then
                         let secs = overload_seconds (sel_retryAfter sel) in
                         reply_error (overloaded_error name secs)
                           (retry_header (show_int secs) (on_manager (release_dispatch name (oid e)) s1))
                       else
                         (case proxy_to nx rq t name order primary spill p r decision e s1 of (hs, s2) \<Rightarrow> (Inr hs, s2)))))"

section \<open>The handler\<close>

datatype reply =
    Replied answer
  | Crashed
  | ToolsReplied
  | Proxied "(string \<times> string) list"

fun reply_of :: "stop \<Rightarrow> reply" where
  "reply_of (Answered a) = Replied a"
| "reply_of Panicked = Crashed"

fun run_step :: "network \<Rightarrow> string \<Rightarrow> string \<Rightarrow> tool_step \<Rightarrow> route_world \<Rightarrow> route_world" where
  "run_step nx orgID name (ToolServer server) w =
     (let em = rw_manager w in
      w\<lparr>rw_manager := snd (MCPServerEndpoint (nx_debug nx) (nx_getenv nx) (nx_now nx) (enum_of nx em server) (nx_rnd nx) orgID server em)\<rparr>)"
| "run_step nx orgID name (ToolTurn path body encodes ex) w =
     (let em = rw_manager w in
      case DoModelRequestJSON (nx_route nx) (nx_now nx) (enum_of nx em name) (nx_rnd nx) orgID name path body encodes ex
             (Some (rw_shadow w)) em of
        (r, _, shadow, em1) \<Rightarrow>
          w\<lparr>rw_shadow := (case shadow of None \<Rightarrow> rw_shadow w | Some sh \<Rightarrow> sh),
            rw_manager := (case r of Inl _ \<Rightarrow> em1 | Inr (_, b) \<Rightarrow> snd (inflightBody_Close b em1))\<rparr>)"

definition run_tools :: "network \<Rightarrow> target \<Rightarrow> route_world hstate \<Rightarrow> reply \<times> route_world hstate" where
  "run_tools nx t s =
     (case nx_tools nx t (hs_world s) of
        (outcome, calls) \<Rightarrow>
          let orgID = (case tg_admission t of None \<Rightarrow> [] | Some a \<Rightarrow> rc_OrgID a);
              w = fold (run_step nx orgID (tg_model t)) calls (hs_world s)
          in (case outcome of ToolsFailed \<Rightarrow> Replied (ErrorAnswer ErrUpstream) | _ \<Rightarrow> ToolsReplied,
              traced (RanTools (tg_model t)) (s\<lparr>hs_world := w\<rparr>)))"

definition serve_routed :: "gateway \<Rightarrow> network \<Rightarrow> http_request \<Rightarrow> route_world services \<Rightarrow> target \<Rightarrow> route_world hstate \<Rightarrow> reply \<times> route_world hstate" where
  "serve_routed ge nx rq sx t s =
     (if tg_profiles t \<noteq> [] then run_tools nx t s
      else case admit_target ge sx (hq_path rq) t s of
             (Inl st, s1) \<Rightarrow> (reply_of st, s1)
           | (Inr (m, admission, t1), s1) \<Rightarrow>
               (case serve_target nx rq m admission t1 s1 of
                  (Inl st, s2) \<Rightarrow> (reply_of st, s2)
                | (Inr hs, s2) \<Rightarrow> (Proxied hs, s2)))"

definition newRouterHandler :: "gateway \<Rightarrow> network \<Rightarrow> http_request \<Rightarrow> route_world \<Rightarrow> reply \<times> route_world hstate" where
  "newRouterHandler ge nx rq w =
     (let sx = router_services nx w in
      case route_request ge sx rq (start_of w) of
        (Inl st, s) \<Rightarrow> (reply_of st, s)
      | (Inr t, s) \<Rightarrow> serve_routed ge nx rq sx t s)"

section \<open>Admission before every dispatch\<close>

lemma on_manager_trace [simp]: "hs_trace (on_manager f s) = hs_trace s"
  by (simp add: on_manager_def)

lemma landed_trace [simp]: "hs_trace (landed nx name primary r d h s) = Dispatched name h # hs_trace s"
  by (simp add: landed_def Let_def)

definition dispatches_only :: "string \<Rightarrow> route_world hstate \<Rightarrow> route_world hstate \<Rightarrow> bool" where
  "dispatches_only name s s' \<longleftrightarrow> extends (\<lambda>e. \<exists>h. e = Dispatched name h) s s'"

lemma dispatched_append:
  "list_all (\<lambda>e. \<exists>h. e = Dispatched m h) es \<Longrightarrow> admitted m tr \<Longrightarrow> lawful tr \<Longrightarrow> lawful (es @ tr)"
  by (induction es) auto

lemma asked_dispatches: "asked m s \<Longrightarrow> dispatches_only m s s' \<Longrightarrow> asked m s'"
  by (auto simp: asked_def dispatches_only_def extends_def intro: dispatched_append)

lemma dispatches_traced:
  "hs_trace s' = es @ hs_trace s \<Longrightarrow> list_all (\<lambda>e. \<exists>h. e = Dispatched name h) es \<Longrightarrow> dispatches_only name s s'"
  by (auto simp: dispatches_only_def extends_def)

lemma retry_backend_trace: "dispatches_only name s (snd (retry_backend nx name order primary spill p r d e s))"
proof -
  have "\<exists>es. hs_trace (snd (retry_backend nx name order primary spill p r d e s)) = es @ hs_trace s
      \<and> list_all (\<lambda>e. \<exists>h. e = Dispatched name h) es"
    by (auto simp: retry_backend_def Let_def split: option.splits prod.splits)
  then show ?thesis by (auto intro: dispatches_traced)
qed

lemma proxy_to_trace: "dispatches_only name s (snd (proxy_to nx rq t name order primary spill p r d e s))"
proof -
  let ?s1 = "on_manager (attempt_at nx name e) (landed nx name primary r d (host e) s)"
  have one: "dispatches_only name s ?s1" by (rule dispatches_traced [of _ "[Dispatched name (host e)]"]) simp_all
  have two: "dispatches_only name s (snd (retry_backend nx name order primary spill p r d e ?s1))"
    using one retry_backend_trace [of name ?s1 nx order primary spill p r d e]
    unfolding dispatches_only_def by (rule extends_trans)
  obtain hs s2 where r: "retry_backend nx name order primary spill p r d e ?s1 = (hs, s2)" by force
  have one': "dispatches_only name s (on_manager f ?s1)" for f
    using one by (simp add: dispatches_only_def extends_def)
  show ?thesis using one' two r by (simp add: proxy_to_def Let_def)
qed

lemma serve_target_trace: "dispatches_only (tg_model t) s (snd (serve_target nx rq m admission t s))"
proof -
  have same: "dispatches_only (tg_model t) s s'" if "hs_trace s' = hs_trace s" for s'
    using that by (simp add: dispatches_only_def extends_same)
  have proxy: "dispatches_only (tg_model t) s s2"
    if "proxy_to nx rq t (tg_model t) order primary spill p r d e (on_manager f s) = (hs, s2)" for order primary spill p r d e f hs s2
    using proxy_to_trace [of "tg_model t" "on_manager f s" nx rq t order primary spill p r d e] that
    by (simp add: dispatches_only_def extends_def)
  show ?thesis
    unfolding serve_target_def Let_def reply_error_def
    by (auto intro: same proxy split: prod.splits option.splits if_splits)
qed

lemma serve_target_asked: "asked (tg_model t) s \<Longrightarrow> asked (tg_model t) (snd (serve_target nx rq m admission t s))"
  by (rule asked_dispatches [OF _ serve_target_trace])

lemma admit_target_model: "admit_target ge sx path t s = (Inr (m, a, t'), s') \<Longrightarrow> tg_model t' = tg_model t"
  by (auto simp: admit_target_def unknown_model_def reply_error_def andThen_def speech_body_def Let_def
      split: option.splits prod.splits sum.splits)

text \<open>The tool loop is entered only for an admitted request.\<close>

lemma openai_profiles:
  assumes "route_request ge sx rq s = (Inr t, s')" "unasked s" "tg_profiles t \<noteq> []"
  shows "tg_admission t \<noteq> None"
proof -
  obtain limit where l: "limitRequestBody (hq_body rq) = Inr limit"
    using assms(1) by (cases "limitRequestBody (hq_body rq)") (simp_all add: route_request_def reply_error_def)
  with assms(1) have "andThen (usage_count ge (hq_header rq) (BearerToken (header_get (hq_header rq) ''Authorization'')) s)
      (\<lambda>_ s1. route_path ge sx rq limit (BearerToken (header_get (hq_header rq) ''Authorization'')) s1) = (Inr t, s')"
    by (simp add: route_request_def Let_def)
  then show ?thesis
  proof (cases rule: andThen_E)
    case (next_step n s1)
    have "s1 = s" using next_step(1) by (auto simp: usage_count_def reply_error_def split: sum.splits)
    moreover have "openai_request ge sx rq limit (BearerToken (header_get (hq_header rq) ''Authorization'')) s1 = (Inr t, s')"
      using next_step(2) assms(3) by (intro route_path_openai) simp_all
    ultimately show ?thesis using openai_request_asked assms(2) by blast
  qed simp
qed

lemma handler_lawful:
  assumes path: "\<not> isInputTokensPath (hq_path rq)"
  shows "lawful (hs_trace (snd (newRouterHandler ge nx rq w)))"
proof -
  have u: "unasked (start_of w)" by (simp add: unasked_def start_of_def)
  obtain r s where r: "route_request ge (router_services nx w) rq (start_of w) = (r, s)" by force
  note st = route_request_stands [OF u r path]
  show ?thesis
  proof (cases r)
    case (Inl e)
    then show ?thesis using st r by (simp add: newRouterHandler_def stands_def)
  next
    case (Inr t)
    show ?thesis
    proof (cases "tg_profiles t = []")
      case False
      then have "tg_admission t \<noteq> None" using openai_profiles r u Inr by blast
      then have "asked (tg_model t) s" using st Inr by (simp add: stands_def)
      then show ?thesis using r Inr False
        by (auto simp: newRouterHandler_def serve_routed_def run_tools_def Let_def asked_def split: prod.splits)
    next
      case True
      obtain x s1 where x: "admit_target ge (router_services nx w) (hq_path rq) t s = (x, s1)" by force
      note a = admit_target_asked [OF st [unfolded Inr] x]
      have "lawful (hs_trace s2)" if "x = Inr (m, adm, t1)" "serve_target nx rq m adm t1 s1 = (y, s2)" for m adm t1 y s2
        using a that serve_target_asked [of t1 s1 nx rq m adm] admit_target_model x asked_lawful by (metis snd_conv)
      then show ?thesis using r Inr True x a
        by (auto simp: newRouterHandler_def serve_routed_def split: prod.splits sum.splits)
    qed
  qed
qed

text \<open>
  C2. On every path but the token counts, the router asks for the admission of a request at most once, every conversion
  of a file, every run of the tool loop and every dispatch to a backend it makes for a model comes after a successful
  admission for this very model, and no tokens are counted. A request for a token count is the one that dispatches
  without an admission: it looks up the caller's organisation, dispatches the count to the tokenizer, and does nothing
  else (no admission, no conversion, no tool loop, no completion).
\<close>

theorem admitted_once_before_dispatch:
  "if isInputTokensPath (hq_path rq) then list_all counting (hs_trace (snd (newRouterHandler ge nx rq w)))
   else lawful (hs_trace (snd (newRouterHandler ge nx rq w)))"
proof (cases "isInputTokensPath (hq_path rq)")
  case True
  obtain r s where r: "route_request ge (router_services nx w) rq (start_of w) = (r, s)" by force
  from route_request_counting [OF this True] have "list_all counting (hs_trace s)" "\<nexists>t. r = Inr t"
    by (auto simp: extends_def start_of_def)
  then show ?thesis using True r by (cases r) (simp_all add: newRouterHandler_def)
qed (simp add: handler_lawful)

end
