(* ===== verification/Router_Runs.thy ===== *)
theory Router_Runs
  imports Router_Handler
begin

text \<open>
  What a request leaves behind in the manager. \<open>kept_services\<close> is the interface between the handler and the shared
  services: a relation on their state that every single operation keeps is kept by the whole way of a request to a
  backend. Its interpretation takes for the relation the runs of the step relation of \<open>Serving\<close> that end with the
  reservations they started with.
\<close>

locale kept_admission =
  fixes sx :: "'w services" and K :: "'w \<Rightarrow> 'w \<Rightarrow> bool"
  assumes K_refl: "K w w"
    and K_trans: "K w w1 \<Longrightarrow> K w1 w2 \<Longrightarrow> K w w2"
    and K_lookup: "sx_lookup sx k m w = Some (r, w') \<Longrightarrow> K w w'"
    and K_metadata: "K w (snd (sx_metadata sx k w))"
    and K_cached: "K w (snd (sx_cached_org sx k m w))"
begin

definition kept :: "'w hstate \<Rightarrow> 'w hstate \<Rightarrow> bool" where
  "kept s s' \<longleftrightarrow> K (hs_world s) (hs_world s')"

lemma kept_refl [simp, intro]: "kept s s"
  by (simp add: kept_def K_refl)

lemma kept_trans: "kept s s1 \<Longrightarrow> kept s1 s2 \<Longrightarrow> kept s s2"
  unfolding kept_def by (rule K_trans)

lemma kept_same: "hs_world s' = hs_world s \<Longrightarrow> kept s s'"
  by (simp add: kept_def K_refl)

lemma kept_to: "kept s s1 \<Longrightarrow> hs_world s' = hs_world s1 \<Longrightarrow> kept s s'"
  by (simp add: kept_def)

lemma traced_world [simp]: "hs_world (traced e s) = hs_world s"
  by (simp add: traced_def)

lemma retry_header_world [simp]: "hs_world (retry_header v s) = hs_world s"
  by (simp add: retry_header_def)

lemma org_of_kept: "kept s (snd (org_of sx k m r s))"
  using K_cached [of "hs_world s" k m] by (auto simp: org_of_def kept_def K_refl split: prod.splits)

lemma resolveOrg_kept: "kept s (snd (resolveOrg sx k m s))"
proof (cases "hs_org s")
  case None
  obtain r err w where q: "sx_metadata sx k (hs_world s) = ((r, err), w)" by (metis surj_pair)
  have w: "K (hs_world s) w" using K_metadata [of "hs_world s" k] q by simp
  then have "kept s (traced AskedMetadata (s\<lparr>hs_world := w\<rparr>)\<lparr>hs_org := Some r\<rparr>)" by (simp add: kept_def)
  from kept_trans [OF this org_of_kept] w show ?thesis
    using None q by (cases err) (simp_all add: resolveOrg_def Let_def kept_def)
next
  case (Some r)
  then show ?thesis by (simp add: resolveOrg_def org_of_kept)
qed

lemma org_for_model_kept: "kept s (snd (org_for_model sx k m s))"
  by (auto simp: org_for_model_def resolveOrg_kept split: option.splits)

lemma walk_with_kept: "kept s (snd (walk_with (org_for_model sx k) status i chosen cs s))"
proof (induction cs arbitrary: i chosen s)
  case (Cons c cs)
  obtain r s1 where r: "org_for_model sx k (am_Name (ac_Model c)) s = (r, s1)" by force
  then have s1: "kept s s1" using org_for_model_kept [of s k "am_Name (ac_Model c)"] by simp
  show ?case
  proof (cases r)
    case (Inr orgID)
    obtain elig avail where "status s1 (am_Name (ac_Model c)) orgID = (elig, avail)" by force
    then show ?thesis using r Inr s1 Cons.IH kept_trans [OF s1] by (cases elig; cases avail) simp_all
  qed (use r s1 in simp)
qed simp

lemma resolveAuto_kept: "kept s (snd (resolveAuto ge sx k h path body s))"
proof -
  have "kept s s1" if "walk_with (org_for_model sx k) st i c cs s = (x, s1)" for st i c cs x s1
    using walk_with_kept [of s k st i c cs] that by simp
  then show ?thesis
    unfolding resolveAuto_def Let_def by (auto split: prod.splits sum.splits walk_result.splits)
qed

lemma verdict_org_kept: "kept s (snd (verdict_org sx k m r s))"
proof -
  have "kept s s1" if "resolveOrg sx k m s = (x, s1)" for x s1
    using resolveOrg_kept [of s k m] that by simp
  then show ?thesis
    unfolding verdict_org_def andThen_def by (auto split: prod.splits sum.splits option.splits if_splits)
qed

lemma admit_kept: "kept s (snd (admit sx k m s))"
proof (cases "sx_lookup sx k m (hs_world s)")
  case (Some x)
  obtain r0 err w where x: "x = ((r0, err), w)" by (metis surj_pair)
  define s1 where "s1 = traced (AskedAdmission k m (err = None)) (s\<lparr>hs_world := w\<rparr>)"
  have s1: "kept s s1" using K_lookup Some x by (auto simp: s1_def kept_def)
  obtain v s2 where v: "verdict_org sx k m r0 s1 = (v, s2)" by force
  have s2: "kept s s2" using kept_trans [OF s1] verdict_org_kept [of s1 k m r0] v by simp
  show ?thesis
  proof (cases err)
    case None
    have "verdict_org sx k m r0 (traced (AskedAdmission k m True) (s\<lparr>hs_world := w\<rparr>)) = (v, s2)"
      using v None by (simp add: s1_def)
    then show ?thesis using Some x None s2 by (cases v) (simp_all add: admit_def Let_def reply_error_def)
  next
    case (Some e)
    then show ?thesis using \<open>sx_lookup _ _ _ _ = _\<close> x s1
      by (auto simp: admit_def Let_def reply_error_def s1_def intro: kept_to)
  qed
qed (simp add: admit_def)

lemma andThen_kept:
  assumes "kept s (snd m)" "\<And>x s1. m = (Inr x, s1) \<Longrightarrow> kept s1 (snd (f x s1))"
  shows "kept s (snd (andThen m f))"
proof -
  obtain r s1 where m: "m = (r, s1)" by force
  show ?thesis
    using assms m by (cases r) (auto intro: kept_trans)
qed

lemma state_kept: "snd x = s \<Longrightarrow> kept s (snd x)"
  by simp

lemma admit_target_kept: "kept s (snd (admit_target ge sx path t s))"
proof -
  have speech: "kept s (snd (speech_body ge path a t s))" for a and s :: "'w hstate"
    by (simp add: speech_body_state)
  show ?thesis
    unfolding admit_target_def
    by (auto simp: unknown_model_def reply_error_def intro!: kept_same andThen_kept [OF admit_kept] andThen_kept [OF speech]
        split: option.splits)
qed

end

locale kept_services = kept_admission sx K
  for sx :: "'w services" and K :: "'w \<Rightarrow> 'w \<Rightarrow> bool" +
  assumes K_convert: "K w (snd (sx_convert sx org auth filename contentType data mode w))"
    and K_count: "K w (snd (sx_count sx org m path bytes h w))"
begin

lemma conversions_kept: "kept_world (convert_context ge sx org m s0) kept"
proof unfold_locales
  fix s s1 s2 :: "'w hstate" and auth filename contentType data mode :: string
  show "kept s s2" if "kept s s1" "kept s1 s2" using that by (rule kept_trans)
  show "kept s (snd (rc_process (convert_context ge sx org m s0) auth filename contentType data mode s))"
    using K_convert [of "hs_world s" org auth filename contentType data mode]
    by (auto simp: convert_context_def kept_def split: prod.splits)
qed simp

lemma rewrite_files_kept: "kept s (snd (rewrite_files ge sx h path org m body s))"
proof -
  have "kept s s1" if "rewrite_body ep auth (convert_context ge sx org m s) body s = (x, s1)" for ep auth x s1
    using kept_world.body_kept [OF conversions_kept [of ge org m s], of s ep auth body] that by simp
  then show ?thesis
    unfolding rewrite_files_def Let_def reply_error_def rewriteResponsesBase64FilesWithProcessor_def
      rewriteChatCompletionsBase64FilesWithProcessor_def
    by (auto split: prod.splits sum.splits)
qed

lemma admitted_request_kept: "kept s (snd (admitted_request ge sx path k h m opts body s))"
proof -
  have encode: "kept s (snd (encode_target ge m k h a act opts b s))" for a act b and s :: "'w hstate"
    using encode_target_state [of ge m k h a act opts b s] by (metis kept_refl prod.collapse)
  have salt: "kept s (snd (with_salt ge path k on b s))" for on b and s :: "'w hstate"
    by (rule state_kept) (rule with_salt_state)
  have unknown: "kept s (snd (unknown_model m s))" by (simp add: unknown_model_def reply_error_def kept_same)
  show ?thesis
    unfolding admitted_request_def Let_def
    by (auto intro!: unknown andThen_kept admit_kept rewrite_files_kept salt encode)
qed

lemma openai_request_kept: "kept s (snd (openai_request ge sx rq limit k s))"
proof -
  have auto_step: "kept s (snd (if m = ''auto''
      then (case resolveAuto ge sx k h path b s of (Inl e, s5) \<Rightarrow> reply_error e s5 | (Inr r, s5) \<Rightarrow> (Inr r, s5))
      else (Inr (m, b), s)))" for m h path b and s :: "'w hstate"
    using resolveAuto_kept [of s ge k h path b] by (auto simp: reply_error_def split: prod.splits sum.splits)
  have read: "kept s (snd (read_json ge limit b s))" and err: "kept s (snd (or_error v s))"
    for b v and s :: "'w hstate"
    by (simp_all add: read_json_state or_error_state)
  show ?thesis
    unfolding openai_request_def Let_def
    by (intro andThen_kept read) (auto intro!: andThen_kept read err auto_step admitted_request_kept split: prod.splits)
qed

lemma count_tokens_kept: "kept s (snd (count_tokens ge sx rq limit k s))"
proof -
  let ?env = "count_env ge sx rq k"
  have res: "kept s (snd (f b s))" if "te_resolve ?env = Some f" for f b and s :: "'w hstate"
  proof -
    have f: "f = (\<lambda>body s. case resolveAuto ge sx k (hq_header rq) (inputTokensCompletionPath (hq_path rq)) body s of
        (Inl e, s1) \<Rightarrow> (Inl (GoAPIError e), s1) | (Inr r, s1) \<Rightarrow> (Inr r, s1))"
      using that by (simp add: count_env_def)
    show ?thesis unfolding f using resolveAuto_kept [of s ge k "hq_header rq" "inputTokensCompletionPath (hq_path rq)" b]
      by (auto split: prod.splits sum.splits)
  qed
  have disp: "kept s (snd (te_dispatch ?env m p e h s))" for m p e h and s :: "'w hstate"
  proof -
    obtain r s1 where r: "resolveOrg sx k m s = (r, s1)" by force
    then have s1: "kept s s1" using resolveOrg_kept [of s k m] by simp
    have "kept s (traced (CountedAt m) (s1\<lparr>hs_world := w\<rparr>))" if "sx_count sx org m p e h (hs_world s1) = (y, w)" for org y w
      using s1 K_count [of "hs_world s1" org m p e h] that K_trans by (auto simp: kept_def)
    then show ?thesis using r s1 by (cases r) (auto simp: count_env_def count_dispatch_def split: prod.splits)
  qed
  have k: "kept s0 (snd (handleInputTokens ?env r s0))" for r and s0 :: "'w hstate"
    by (rule handleInputTokens_kept [where R = kept and env = ?env])
      (rule kept_refl, erule (1) kept_trans, erule res, rule disp)
  define s0 where "s0 = (if hq_method rq \<noteq> ''POST'' then s\<lparr>hs_resp := header_set ''Allow'' ''POST'' (hs_resp s)\<rparr> else s)"
  define r where "r = \<lparr>cr_method = hq_method rq, cr_path = hq_path rq, cr_key = k, cr_read = read_all limit (hq_body rq)\<rparr>"
  obtain a d s1 where h: "handleInputTokens ?env r s0 = ((a, d), s1)" by (metis surj_pair)
  have "hs_world s0 = hs_world s" by (simp add: s0_def)
  then have "kept s s1" using k [of s0 r] h by (simp add: kept_def)
  then show ?thesis using h
    by (cases a) (auto simp: count_tokens_def Let_def reply_error_def simp flip: s0_def r_def intro: kept_to)
qed

lemma route_path_kept: "kept s (snd (route_path ge sx rq limit k s))"
proof -
  have speech: "kept s (snd (speech_request ge rq limit k s))"
    by (rule kept_same) (auto simp: speech_request_def read_json_def andThen_def reply_error_def Let_def split: sum.splits)
  have audio: "kept s (snd (audio_request ge rq limit k s))"
    by (rule kept_same) (auto simp: audio_request_def reply_error_def split: sum.splits body_error.splits prod.splits)
  have realtime: "kept s (snd (realtime_request rq k s))"
    by (rule kept_same) (auto simp: realtime_request_def reply_error_def split: sum.splits prod.splits)
  show ?thesis
    unfolding route_path_def Let_def using speech audio realtime count_tokens_kept openai_request_kept by simp
qed

lemma route_request_kept: "kept s (snd (route_request ge sx rq s))"
proof -
  have "kept s (snd (usage_count ge h k s))" for h k
    by (rule kept_same) (auto simp: usage_count_def reply_error_def split: sum.splits)
  then show ?thesis
    unfolding route_request_def Let_def by (auto simp: reply_error_def intro!: andThen_kept route_path_kept split: sum.splits)
qed

end

section \<open>Runs of the manager\<close>

definition fair :: "network \<Rightarrow> bool" where
  "fair nx \<longleftrightarrow> picks (nx_rnd nx) \<and> (\<forall>m. enumerates (nx_enum nx m) m)"

definition ticket_run :: "trust \<Rightarrow> EnclaveManager \<Rightarrow> EnclaveManager \<Rightarrow> bool" where
  "ticket_run V em em' \<longleftrightarrow> (\<forall>ts. steps V (sys em ts) (sys em' ts))"

definition manager_run :: "trust \<Rightarrow> network \<Rightarrow> route_world \<Rightarrow> route_world \<Rightarrow> bool" where
  "manager_run V nx w w' \<longleftrightarrow> (fair nx \<longrightarrow> ticket_run V (rw_manager w) (rw_manager w'))"

lemma ticket_run_refl [simp]: "ticket_run V em em"
  by (simp add: ticket_run_def)

lemma ticket_run_trans: "ticket_run V em em1 \<Longrightarrow> ticket_run V em1 em2 \<Longrightarrow> ticket_run V em em2"
  unfolding ticket_run_def by (meson rtranclp_trans)

lemma fair_enum: "fair nx \<Longrightarrow> map_of (models em) name = Some m \<Longrightarrow> enumerates (enum_of nx em name) m"
  by (simp add: fair_def enum_of_def)

lemma convert_run:
  assumes "fair nx"
  shows "ticket_run V (rw_manager w) (rw_manager (snd (convert_service nx org auth filename contentType data mode w)))"
proof -
  let ?em = "rw_manager w" and ?enum = "enum_of nx (rw_manager w) ''doc-upload''"
  have p: "picks (nx_rnd nx)" using assms by (simp add: fair_def)
  have "steps V (sys ?em ts) (sys (snd (ConvertFile (nx_document nx) (nx_now nx) ?enum (nx_rnd nx) org auth filename contentType
      data mode ?em)) ts)" for ts
    by (rule ConvertFile_run [OF p]) (use fair_enum [OF assms] in blast)
  then show ?thesis by (auto simp: convert_service_def ticket_run_def split: prod.splits)
qed

lemma count_run:
  assumes "fair nx"
  shows "ticket_run V (rw_manager w) (rw_manager (snd (count_service nx org name path bytes h w)))"
proof -
  let ?em = "rw_manager w" and ?enum = "enum_of nx (rw_manager w) name"
  have p: "picks (nx_rnd nx)" using assms by (simp add: fair_def)
  have e: "\<forall>m. map_of (models ?em) name = Some m \<longrightarrow> enumerates ?enum m" using fair_enum [OF assms] by blast
  obtain rb em1 where b: "boundHTTPClientPreferring (nx_now nx) ?enum (nx_rnd nx) org name [] True ?em = (rb, em1)" by force
  show ?thesis
  proof (cases rb)
    case (Inl err)
    then show ?thesis using b bound_steps [OF p e b, of V]
      by (simp add: count_service_def DoModelRequest_def ticket_run_def)
  next
    case (Inr x)
    then obtain en claim where x: "rb = Inr (en, claim)" by (cases x) simp
    obtain rp em2 where post: "postToEnclave (nx_now nx) name en claim (nx_count nx name bytes) em1 = (rp, em2)" by force
    note run = bound_post_steps [OF p e b [unfolded x] post, of V]
    have d: "DoModelRequest (nx_now nx) ?enum (nx_rnd nx) org name (nx_count nx name bytes) ?em = (rp, em2)"
      using b x post by (simp add: DoModelRequest_def)
    show ?thesis
    proof (cases rp)
      case (Inl err)
      then show ?thesis using d run by (simp add: count_service_def ticket_run_def)
    next
      case (Inr y)
      obtain st bd where y: "rp = Inr (st, bd)" using Inr by (cases y) simp
      have "steps V (sys ?em ts) (sys (snd (inflightBody_Close bd em2)) ts)" for ts
      proof -
        have "steps V (sys em2 ((name, ib_oid bd) # ts)) (sys (snd (inflightBody_Close bd em2)) ts)"
          using run [of ts] y close_steps [of em2 bd "(name, ib_oid bd) # ts" V] by simp
        with run [of ts] y show ?thesis by (auto intro: rtranclp_trans)
      qed
      then show ?thesis using d y by (simp add: count_service_def ticket_run_def)
    qed
  qed
qed

interpretation runs: kept_services "router_services nx init" "manager_run V nx" for nx init V
proof unfold_locales
  fix w w1 w2 :: route_world and k m org auth filename contentType data mode path bytes :: string and h :: header
    and r :: "routeContext \<times> routeContextError option" and w' :: route_world
  show "manager_run V nx w w" by (simp add: manager_run_def)
  show "manager_run V nx w w2" if "manager_run V nx w w1" "manager_run V nx w1 w2"
    using that ticket_run_trans by (auto simp: manager_run_def)
  show "manager_run V nx w w'" if "sx_lookup (router_services nx init) k m w = Some (r, w')"
    using that by (auto simp: router_services_def lookup_service_def manager_run_def)
  show "manager_run V nx w (snd (sx_metadata (router_services nx init) k w))"
    by (simp add: router_services_def manager_run_def split: prod.splits)
  show "manager_run V nx w (snd (sx_cached_org (router_services nx init) k m w))"
    by (simp add: router_services_def cached_org_service_def manager_run_def split: option.splits prod.splits)
  show "manager_run V nx w (snd (sx_convert (router_services nx init) org auth filename contentType data mode w))"
    by (simp add: router_services_def manager_run_def convert_run)
  show "manager_run V nx w (snd (sx_count (router_services nx init) org m path bytes h w))"
    by (simp add: router_services_def manager_run_def count_run)
qed

text \<open>An admission does not touch the manager.\<close>

interpretation admission: kept_admission "router_services nx init" "\<lambda>w w'. rw_manager w' = rw_manager w" for nx init
  by unfold_locales (auto simp: router_services_def lookup_service_def cached_org_service_def split: option.splits prod.splits)

section \<open>Serving\<close>

lemma set_model_twice: "set_model name m' (set_model name m em) = set_model name m' em"
  by (simp add: set_model_def)

lemma manager_on_manager [simp]: "manager_of (on_manager f s) = f (manager_of s)"
  by (simp add: manager_of_def on_manager_def)

lemma manager_landed [simp]: "manager_of (landed nx name primary r d h s) = manager_of s"
  by (simp add: landed_def Let_def manager_of_def traced_def)

lemma manager_retry_header [simp]: "manager_of (retry_header v s) = manager_of s"
  by (simp add: retry_header_def manager_of_def)

lemma attempt_steps: "steps V (sys em ts) (sys (attempt_at nx name e em) ts)"
proof -
  have "steps V (sys em ts) (sys (fold (breaker_event name (oid e)) cs em) ts)" for cs
  proof (induction cs arbitrary: em)
    case (Cons c cs)
    have "steps V (sys em ts) (sys (breaker_event name (oid e) c em) ts)" by (rule breaker_event_steps)
    then show ?case using Cons [of "breaker_event name (oid e) c em"] by (auto intro: rtranclp_trans)
  qed simp
  then show ?thesis by (simp add: attempt_at_def)
qed

lemma attempt_models: "map_of (models em) name \<noteq> None \<Longrightarrow> map_of (models (attempt_at nx name' e em)) name \<noteq> None"
proof -
  have "map_of (models em) name \<noteq> None \<Longrightarrow> map_of (models (fold (breaker_event name' (oid e)) cs em)) name \<noteq> None" for cs
  proof (induction cs arbitrary: em)
    case (Cons c cs)
    show ?case using Cons.IH [OF models_breaker_event [OF Cons.prems]] by simp
  qed simp
  then show "map_of (models em) name \<noteq> None \<Longrightarrow> map_of (models (attempt_at nx name' e em)) name \<noteq> None"
    by (simp add: attempt_at_def)
qed

text \<open>The pools of a caller depend on the configuration of the model, which no exchange changes.\<close>

definition pools_in :: "string \<Rightarrow> string \<Rightarrow> EnclaveManager \<Rightarrow> poolFilter \<times> poolFilter \<times> policy \<Rightarrow> bool" where
  "pools_in org name em pools \<longleftrightarrow> (\<exists>m. map_of (models em) name = Some m \<and> ReservationPools org m = pools)"

lemma ReservationPools_cong:
  "reservedByOrg m' = reservedByOrg m \<Longrightarrow> sharedHosts m' = sharedHosts m \<Longrightarrow> policiesByOrg m' = policiesByOrg m
    \<Longrightarrow> Overload m' = Overload m \<Longrightarrow> ReservationPools org m' = ReservationPools org m"
  by (simp add: ReservationPools_def split: option.splits)

lemma on_object_pools: "ReservationPools org (on_object i f m) = ReservationPools org m"
  by (rule ReservationPools_cong) (simp_all add: on_object_def)

lemma SelectServing_pools:
  "SelectServing now enum rnd order c primary spill p m = (sel, m') \<Longrightarrow> ReservationPools org m' = ReservationPools org m"
  by (rule ReservationPools_cong) (auto simp: SelectServing_def store_enclave_def Let_def split: option.splits)

lemma breaker_pools: "pools_in org name em pools \<Longrightarrow> pools_in org name (breaker_event name' i c em) pools"
  by (auto simp: pools_in_def breaker_event_def set_model_def on_object_pools split: option.splits)

lemma attempt_pools: "pools_in org name em pools \<Longrightarrow> pools_in org name (attempt_at nx name' e em) pools"
proof -
  have "pools_in org name em pools \<Longrightarrow> pools_in org name (fold (breaker_event name' (oid e)) cs em) pools" for cs
    by (induction cs arbitrary: em) (auto intro: breaker_pools)
  then show "pools_in org name em pools \<Longrightarrow> pools_in org name (attempt_at nx name' e em) pools"
    by (simp add: attempt_at_def)
qed

text \<open>Another backend is reserved before the first one is given back; both are given back in the end.\<close>

lemma retry_run:
  assumes "fair nx" "pools_in org name (manager_of s) (primary, spill, p)"
  shows "steps V (sys (manager_of s) ((name, oid e) # ts))
    (sys (manager_of (snd (retry_backend nx name order primary spill p r d e s))) ts)"
proof -
  let ?em = "manager_of s"
  obtain m where m: "map_of (models ?em) name = Some m" and pools: "ReservationPools org m = (primary, spill, p)"
    using assms(2) by (auto simp: pools_in_def)
  have fairs: "picks (nx_rnd nx)" "enumerates (nx_enum nx m) m" using assms(1) by (simp_all add: fair_def)
  obtain x m' where x: "SelectRetry (nx_now nx) (nx_enum nx m) (nx_rnd nx) (host e) order primary spill p m = (x, m')" by force
  let ?em1 = "set_model name m' ?em"
  have m1: "map_of (models ?em1) name \<noteq> None" by (simp add: set_model_def)
  have sel: "steps V (sys ?em ((name, oid e) # ts)) (sys ?em1 ((case x of None \<Rightarrow> [] | Some e' \<Rightarrow> [(name, oid e')]) @ (name, oid e) # ts))"
    using serve_step.retry [of "nx_rnd nx" "sys ?em ((name, oid e) # ts)" name m "nx_enum nx m" org primary spill p
        "nx_now nx" "host e" order x m' V] fairs m pools x
    by (cases x) (simp_all add: r_into_rtranclp)
  show ?thesis
  proof (cases x)
    case None
    have "steps V (sys ?em1 ((name, oid e) # ts)) (sys (release_dispatch name (oid e) ?em1) ts)"
      using release_steps [of name "oid e" "(name, oid e) # ts" ?em1 V] m1 by simp
    with sel None show ?thesis using m x by (auto simp: retry_backend_def intro: rtranclp_trans)
  next
    case (Some e')
    let ?em2 = "release_dispatch name (oid e) ?em1"
    have m2: "map_of (models ?em2) name \<noteq> None" by (simp add: release_dispatch_def set_model_def)
    let ?em3 = "attempt_at nx name e' ?em2"
    have "steps V (sys ?em1 ((name, oid e') # (name, oid e) # ts)) (sys ?em2 (remove1 (name, oid e) ((name, oid e') # (name, oid e) # ts)))"
      by (rule release_steps) (use m1 in simp_all)
    moreover have "remove1 (name, oid e) ((name, oid e') # (name, oid e) # ts) = (name, oid e') # ts"
      by (cases "oid e = oid e'") simp_all
    ultimately have rel: "steps V (sys ?em1 ((name, oid e') # (name, oid e) # ts)) (sys ?em2 ((name, oid e') # ts))" by simp
    have att: "steps V (sys ?em2 ((name, oid e') # ts)) (sys ?em3 ((name, oid e') # ts))" by (rule attempt_steps)
    have "steps V (sys ?em3 ((name, oid e') # ts)) (sys (release_dispatch name (oid e') ?em3) ts)"
      using release_steps [of name "oid e'" "(name, oid e') # ts" ?em3 V] attempt_models [OF m2] by simp
    with sel Some rel att have "steps V (sys ?em ((name, oid e) # ts)) (sys (release_dispatch name (oid e') ?em3) ts)"
      by (auto intro: rtranclp_trans)
    then show ?thesis using m x Some by (simp add: retry_backend_def Let_def)
  qed
qed

lemma proxy_run:
  assumes "fair nx" "pools_in org name (manager_of s) (primary, spill, p)"
  shows "steps V (sys (manager_of s) ((name, oid e) # ts))
    (sys (manager_of (snd (proxy_to nx rq t name order primary spill p r d e s))) ts)"
proof -
  let ?s1 = "on_manager (attempt_at nx name e) (landed nx name primary r d (host e) s)"
  let ?ts = "(name, oid e) # ts"
  have att: "steps V (sys (manager_of s) ?ts) (sys (manager_of ?s1) ?ts)" by (simp add: attempt_steps)
  have pools: "pools_in org name (manager_of ?s1) (primary, spill, p)" using attempt_pools [OF assms(2)] by simp
  then have m: "map_of (models (manager_of ?s1)) name \<noteq> None" by (auto simp: pools_in_def)
  have rel: "steps V (sys (manager_of ?s1) ?ts) (sys (release_dispatch name (oid e) (manager_of ?s1)) ts)"
    using release_steps [of name "oid e" ?ts "manager_of ?s1" V] m by simp
  have re: "steps V (sys (manager_of ?s1) ?ts) (sys (manager_of (snd (retry_backend nx name order primary spill p r d e ?s1))) ts)"
    by (rule retry_run [OF assms(1) pools])
  show ?thesis
    using rtranclp_trans [OF att rel] rtranclp_trans [OF att re]
    by (auto simp: proxy_to_def Let_def split: prod.splits)
qed

lemma serve_target_run:
  assumes "fair nx" "map_of (models (manager_of s)) (tg_model t) = Some m"
  shows "ticket_run V (manager_of s) (manager_of (snd (serve_target nx rq m admission t s)))"
  unfolding ticket_run_def
proof
  fix ts
  let ?name = "tg_model t" and ?org = "rc_OrgID admission" and ?em = "manager_of s"
  obtain primary spill p where pools: "ReservationPools ?org m = (primary, spill, p)" by (metis prod_cases3)
  define r where "r = cache_request nx (hq_path rq) t m"
  define d where "d = route_decision nx ?name primary m r (rw_shadow (hs_world s))"
  define order where "order = (case d of None \<Rightarrow> [] | Some d \<Rightarrow> Order d)"
  obtain sel m' where sel: "SelectServing (nx_now nx) (nx_enum nx m) (nx_rnd nx) order True primary spill p m = (sel, m')" by force
  let ?s1 = "on_manager (set_model ?name m') s"
  have fairs: "picks (nx_rnd nx)" "enumerates (nx_enum nx m) m" using assms(1) by (simp_all add: fair_def)
  have step: "steps V (sys ?em ts) (sys (set_model ?name m' ?em) (case sel_enclave sel of None \<Rightarrow> ts | Some e \<Rightarrow> (?name, oid e) # ts))"
    using serve_step.select [of "nx_rnd nx" "sys ?em ts" ?name m "nx_enum nx m" ?org primary spill p "nx_now nx" order True sel m' V]
      fairs assms(2) pools sel by (cases "sel_enclave sel") (simp_all add: r_into_rtranclp)
  have pools1: "pools_in ?org ?name (manager_of ?s1) (primary, spill, p)"
    using SelectServing_pools [OF sel, of ?org] pools by (simp add: pools_in_def set_model_def)
  note unfolded = serve_target_def Let_def pools prod.case r_def [symmetric] d_def [symmetric] order_def [symmetric] sel
  show "steps V (sys ?em ts) (sys (manager_of (snd (serve_target nx rq m admission t s))) ts)"
  proof (cases "sel_enclave sel")
    case None
    then show ?thesis using step unfolding unfolded by (simp add: reply_error_def)
  next
    case (Some e)
    have rel: "steps V (sys (set_model ?name m' ?em) ((?name, oid e) # ts)) (sys (release_dispatch ?name (oid e) (set_model ?name m' ?em)) ts)"
      using release_steps [of ?name "oid e" "(?name, oid e) # ts" "set_model ?name m' ?em" V] by (simp add: set_model_def)
    have px: "steps V (sys (manager_of ?s1) ((?name, oid e) # ts))
        (sys (manager_of (snd (proxy_to nx rq t ?name order primary spill p r d e ?s1))) ts)"
      by (rule proxy_run [OF assms(1) pools1])
    obtain hs s2 where h: "proxy_to nx rq t ?name order primary spill p r d e ?s1 = (hs, s2)" by force
    show ?thesis
      using Some step rel px h unfolding unfolded by (auto simp: reply_error_def intro: rtranclp_trans)
  qed
qed

section \<open>The whole handler\<close>

lemma admit_target_found:
  assumes "admit_target ge (router_services nx w0) path t s = (Inr (m, a, t'), s')"
  shows "map_of (models (manager_of s)) (tg_model t) = Some m"
  using assms by (auto simp: admit_target_def router_services_def manager_of_def unknown_model_def reply_error_def andThen_def
      split: option.splits prod.splits sum.splits)

lemma admit_target_manager:
  assumes "admit_target ge (router_services nx w0) path t s = (x, s')"
  shows "manager_of s' = manager_of s"
  using admission.admit_target_kept [where nx = nx and init = w0 and s = s and ge = ge and path = path and t = t] assms by (simp add: admission.kept_def manager_of_def)

text \<open>A turn of the tool loop holds a reservation until its body is closed; a tool server none.\<close>

lemma turn_run:
  assumes "fair nx"
  shows "ticket_run V (rw_manager w) (rw_manager (run_step nx org name (ToolTurn path body encodes ex) w))"
proof -
  let ?em = "rw_manager w" and ?enum = "enum_of nx (rw_manager w) name"
  have p: "picks (nx_rnd nx)" using assms by (simp add: fair_def)
  have e: "\<forall>m. map_of (models ?em) name = Some m \<longrightarrow> enumerates ?enum m" using fair_enum [OF assms] by blast
  obtain r ms sh em1 where d: "DoModelRequestJSON (nx_route nx) (nx_now nx) ?enum (nx_rnd nx) org name path body encodes ex
      (Some (rw_shadow w)) ?em = (r, ms, sh, em1)" by (metis prod_cases4)
  note run = DoModelRequestJSON_run [OF p e d, of V]
  show ?thesis
  proof (cases r)
    case (Inl err)
    then show ?thesis using run d by (simp add: ticket_run_def)
  next
    case (Inr x)
    obtain st b where r: "r = Inr (st, b)" using Inr by (cases x) simp
    have "steps V (sys ?em ts) (sys (snd (inflightBody_Close b em1)) ts)" for ts
      using run [of ts] r close_steps [of em1 b "(name, ib_oid b) # ts" V] by (auto intro: rtranclp_trans)
    then show ?thesis using d r by (simp add: ticket_run_def)
  qed
qed

lemma server_run:
  assumes "fair nx"
  shows "ticket_run V (rw_manager w) (rw_manager (run_step nx org name (ToolServer server) w))"
proof -
  let ?em = "rw_manager w" and ?enum = "enum_of nx (rw_manager w) server"
  have p: "picks (nx_rnd nx)" using assms by (simp add: fair_def)
  have e: "\<forall>m. map_of (models ?em) server = Some m \<longrightarrow> enumerates ?enum m" using fair_enum [OF assms] by blast
  obtain r em1 where b: "boundHTTPClientPreferring (nx_now nx) ?enum (nx_rnd nx) org server [] False ?em = (r, em1)" by force
  note run = bound_steps [OF p e b, of V]
  show ?thesis
  proof (cases r)
    case (Inl err)
    then show ?thesis using run b by (simp add: Let_def MCPServerEndpoint_def boundHTTPClientForModel_def ticket_run_def)
  next
    case (Inr x)
    obtain en c where r: "r = Inr (en, c)" using Inr by (cases x) simp
    have "steps V (sys ?em ts) (sys (release_dispatch server (oid en) em1) ts)" for ts
      using run [of ts] r release_steps [of server "oid en" "(server, oid en) # ts" em1 V] by (auto intro: rtranclp_trans)
    then show ?thesis using b r by (simp add: Let_def MCPServerEndpoint_def boundHTTPClientForModel_def ticket_run_def)
  qed
qed

lemma loop_run:
  assumes "fair nx"
  shows "ticket_run V (rw_manager w) (rw_manager (fold (run_step nx org name) calls w))"
proof (induction calls arbitrary: w)
  case (Cons c calls)
  have "ticket_run V (rw_manager w) (rw_manager (run_step nx org name c w))"
    using turn_run [OF assms] server_run [OF assms] by (cases c) metis+
  then show ?case using Cons ticket_run_trans by fastforce
qed simp

lemma serve_routed_run:
  assumes "fair nx"
  shows "ticket_run V (manager_of s) (manager_of (snd (serve_routed ge nx rq (router_services nx w0) t s)))"
proof (cases "tg_profiles t = []")
  case False
  then show ?thesis using loop_run [OF assms]
    by (auto simp: serve_routed_def run_tools_def Let_def manager_of_def traced_def split: prod.splits)
next
  case True
  obtain x s1 where x: "admit_target ge (router_services nx w0) (hq_path rq) t s = (x, s1)" by force
  note same = admit_target_manager [OF x]
  show ?thesis
  proof (cases x)
    case (Inl e)
    then show ?thesis using True x same by (simp add: serve_routed_def)
  next
    case (Inr y)
    obtain m a t1 where y: "y = (m, a, t1)" by (metis prod_cases3)
    have "map_of (models (manager_of s1)) (tg_model t1) = Some m"
      using admit_target_found [of ge nx w0 "hq_path rq" t s m a t1 s1] admit_target_model [of ge _ "hq_path rq" t s m a t1 s1] x Inr y same
      by simp
    from serve_target_run [OF assms this, of V rq a] show ?thesis
      using True x Inr y same by (auto simp: serve_routed_def split: prod.splits sum.splits)
  qed
qed

text \<open>
  C3. A request, on every path through the router and whatever the backends answer, is a run of the manager's step
  relation that ends with the reservations it started with: what it reserves for conversions, token counts, turns of
  the tool loop, the first backend and the one it fails over to is given back. So all invariants of the step relation, such as that a request
  reaches verified backends only, hold at every step of every request.
\<close>

theorem request_is_manager_run:
  assumes "fair nx"
  shows "steps V (sys (rw_manager w) ts) (sys (manager_of (snd (newRouterHandler ge nx rq w))) ts)"
proof -
  let ?sx = "router_services nx w"
  obtain r s where r: "route_request ge ?sx rq (start_of w) = (r, s)" by force
  have "manager_run V nx w (hs_world s)"
    using runs.route_request_kept [where V = V and nx = nx and init = w and s = "start_of w" and ge = ge and rq = rq] r by (simp add: runs.kept_def start_of_def)
  then have route: "ticket_run V (rw_manager w) (manager_of s)" using assms by (simp add: manager_run_def manager_of_def)
  have "ticket_run V (rw_manager w) (manager_of (snd (newRouterHandler ge nx rq w)))"
  proof (cases r)
    case (Inl e)
    then show ?thesis using r route by (simp add: newRouterHandler_def)
  next
    case (Inr t)
    from ticket_run_trans [OF route serve_routed_run [OF assms, of V s ge rq w t]] show ?thesis
      using r Inr by (simp add: newRouterHandler_def)
  qed
  then show ?thesis by (simp add: ticket_run_def)
qed

definition network_example :: network where
  "network_example = \<lparr>nx_now = hour, nx_enum = (\<lambda>m _. map snd (Enclaves m)), nx_rnd = (\<lambda>_. 0), nx_codec = codec_example,
     nx_metadata = (\<lambda>_ c. ((empty_context, None), c)),
     nx_document = \<lparr>de_multipart = (\<lambda>_ _. None), de_built = (\<lambda>_. False), de_exchange = (\<lambda>_. None), de_media = (\<lambda>_. None),
       de_format = (\<lambda>t _. t), de_document = (\<lambda>_. None), de_errors = (\<lambda>_. None), de_time = (\<lambda>_. False)\<rparr>,
     nx_count = (\<lambda>_ _. exchange_example), nx_count_body = (\<lambda>_ _. None), nx_status = (\<lambda>_. []), nx_route = route_env_example,
     nx_outcomes = (\<lambda>_. [CallFailure hour]), nx_bad_gateway = True, nx_tools = (\<lambda>_ _. (ToolsServed, [])),
     nx_debug = False, nx_getenv = (\<lambda>_. [])\<rparr>"

definition manager_example :: EnclaveManager where
  "manager_example = \<lparr>models = [(''m'', tier_example)], refreshInterval = hour, em_errors = [], lastSuccessfulUpdate = hour,
     lastAttemptedUpdate = hour\<rparr>"

definition world_example :: route_world where
  "world_example = \<lparr>rw_manager = manager_example, rw_client = None, rw_shadow = NewShadow 8, rw_metadata = metadata_example\<rparr>"

definition keyed_example :: http_request where
  "keyed_example = request_example\<lparr>hq_header := [(''Authorization'', [''Bearer k''])]\<rparr>"

text \<open>The first backend fails and the request is replayed on another one.\<close>

lemma key_example: "BearerToken (header_get (hq_header keyed_example) ''Authorization'') = ''k''"
proof -
  have "TrimSpace ''k'' = ''k''" by (rule TrimSpace_graphic; simp add: graphic_def)
  moreover have "EqualFold ''Bearer '' ''bearer ''" by code_simp
  moreover have "header_get (hq_header keyed_example) ''Authorization'' = ''Bearer k''" by code_simp
  ultimately show ?thesis by (simp add: BearerToken_def Let_def)
qed

lemma routed_example:
  "route_request gateway_example sx keyed_example s = route_path gateway_example sx keyed_example (Some maxRequestBodySize) ''k'' s"
proof -
  have "limitRequestBody (hq_body keyed_example) = Inr (Some maxRequestBodySize)" by code_simp
  moreover have "CustomerRequestCount (ge_usage_context gateway_example) (ge_key_hash gateway_example) (hq_header keyed_example) ''k''
      (ge_context_secret gateway_example) = Inr 1" by code_simp
  ultimately show ?thesis by (simp add: route_request_def key_example andThen_def usage_count_def)
qed

lemma proxied_example:
  "fst (newRouterHandler gateway_example network_example keyed_example world_example) = Proxied [(''h1'', ''none''), (''h2'', ''none'')]"
  unfolding newRouterHandler_def routed_example by code_simp

theorem request_is_manager_run_witness:
  "fst (newRouterHandler gateway_example network_example keyed_example world_example) = Proxied [(''h1'', ''none''), (''h2'', ''none'')]
   \<and> steps trust_example (sys manager_example [])
       (sys (manager_of (snd (newRouterHandler gateway_example network_example keyed_example world_example))) [])"
proof -
  have "fair network_example" by (simp add: fair_def network_example_def picks_def enumerates_def)
  from request_is_manager_run [OF this, of trust_example world_example "[]" gateway_example keyed_example]
  show ?thesis using proxied_example by (simp add: world_example_def)
qed

end
