(* ===== verification/Spec2Isabelle.thy ===== *)
theory Spec2Isabelle
  imports Serving Cache_Shadow Request_Limits Route_Context Auto_Route Internal_Dispatch
    Citation_Stream Citation_Format Tool_Loop Responses_Stream Latency Input_Tokens File_Inputs Router_Runs
begin

text \<open>
  A verification development for the confidential model router.

  The program is an HTTP router in front of attested inference backends. A request names a model; the
  router decides whether the caller may be served (\<open>route_context.go\<close>), rewrites the body fields it
  owns (\<open>cache_salt.go\<close>, \<open>max_output_tokens.go\<close>, \<open>completion_count.go\<close>), derives a routing key
  (\<open>cacheroute/\<close>), selects a verified backend of the model (\<open>manager/\<close>) and proxies the request; a
  worker keeps re-verifying the backends against the pinned repository.

  Theories, in the order of the dependencies:
  \<^item> \<open>Router_Prelude\<close>: time, 64-bit wrap-around, Go maps as association lists, sorting with a
    comparison function (locales \<open>comparison\<close> and \<open>total_comparison\<close>), argmin scans.
  \<^item> \<open>Go_Strings\<close>, \<open>Json_Value\<close>: the functions of Go's string packages and decoded JSON values.
  \<^item> \<open>Circuit_Breaker\<close> (\<open>manager/circuitbreaker.go\<close>): the breaker as sequential operations and as
    interleaved atomic instructions; failures, probes and their tokens.
  \<^item> \<open>Overload_Config\<close> (\<open>config/config.go\<close>): parsing and validation of the configuration, the
    pinned digest, overload thresholds with their hysteresis.
  \<^item> \<open>Load_Metrics\<close> (\<open>manager/metrics.go\<close>, \<open>manager/routing_tiers.go\<close>): polled load samples, the
    overload flag and the tier of a backend.
  \<^item> \<open>Model_Pool\<close>, \<open>Enclave_Manager\<close>, \<open>Routing_Tiers\<close>, \<open>Serving\<close> (\<open>manager/manager.go\<close>,
    \<open>manager/verification.go\<close>, \<open>manager/rotation.go\<close>, \<open>manager/routing_tiers.go\<close>): reservations,
    attestation and installation of backends, configuration rounds, recovery, selection by tier and
    pool, and the step relation of the whole manager with its invariants.
  \<^item> \<open>Cache_Salt\<close>, \<open>Cache_Key\<close>, \<open>Cache_Rank\<close>, \<open>Cache_Shadow\<close> (\<open>cachesalt/\<close>, \<open>cacheroute/\<close>): framing and
    derivation of salts and routing keys, rendezvous ranking with the load cap, and the bounded table
    of keys.
  \<^item> \<open>Api_Errors\<close>, \<open>Request_Limits\<close>, \<open>Route_Context\<close> (\<open>manager/errors.go\<close>, the limit headers,
    \<open>route_context.go\<close>, \<open>route_context_cache.go\<close>): error envelopes, limits, and admission by the
    control plane with its verdict cache and concurrent refreshes.
  \<^item> \<open>Token_Stream\<close>, \<open>Request_Cost\<close> (\<open>tokencount/extractor.go\<close>, \<open>manager/pricing.go\<close>): usage read out
    of responses while they are forwarded, checked against an event-level specification, and the cost
    and usage header computed from it.
  \<^item> \<open>Billing\<close>, \<open>Proxy_Response\<close> (\<open>billing/\<close>, \<open>manager/proxy.go\<close>, \<open>manager/usage_writer.go\<close>,
    \<open>manager/retry.go\<close>): billing events and meters, the two handlers of the reverse proxy with every
    effect they have on breakers, bills and bodies, and the replay of a request on another replica.
  \<^item> \<open>Internal_Dispatch\<close> (\<open>manager/http_client.go\<close>, landing metrics of \<open>cacheroute/shadow.go\<close>): requests
    the router makes itself, proved to be runs of the step relation of \<open>Serving\<close>.
  \<^item> \<open>Auto_Route\<close> (\<open>autoroute/\<close>, \<open>manager/model_metadata.go\<close>, \<open>resolveAutoModel\<close>): the published
    catalog, the ranking of models and efforts, and the rewriting of requests for the \<open>auto\<close> model.
  \<^item> \<open>Go_Utf8\<close>, \<open>Citation_State\<close>, \<open>Citation_Format\<close>, \<open>Citation_Stream\<close> (\<open>toolruntime/citations/\<close>): UTF-8,
    the sources recorded during a tool loop, the text of tool outputs and the way back to its sources,
    annotations of finished text, and the streaming emitter with its link buffer, refined from a
    specification on the unsent suffix and, for models without Harmony tokens, proved independent of how the text is
    cut into deltas.
  \<^item> \<open>Tool_Options\<close> (\<open>toolruntime/options.go\<close>, \<open>websearch_options.go\<close>, \<open>profile.go\<close>,
    \<open>router_tool_names.go\<close>): the router-only tool settings of a request and how they reach the arguments
    of a tool call.
  \<^item> \<open>Tool_Coerce\<close>, \<open>Tool_Arguments\<close> (\<open>toolruntime/coerce.go\<close>, \<open>quirks.go\<close>, \<open>tool_call.go\<close>): the tool calls of a
    response, the repair of their arguments and the coercion to the published schema, recursive on the
    schema and proved to reach a well-typed fixed point in one pass.
  \<^item> \<open>Tool_Registry\<close> (\<open>toolruntime/session_registry.go\<close>): the sessions of a request, built with rollback, and
    the routing of tool names to them.
  \<^item> \<open>Tool_Events\<close>, \<open>Tool_Prompt\<close>, \<open>Tool_Runtime\<close> (\<open>toolruntime/events.go\<close>, \<open>search_evidence.go\<close>, \<open>prompt.go\<close>,
    \<open>runtime.go\<close>): what clients see of tool calls, the texts the router adds, and usage, billing and headers
    of a tool request.
  \<^item> \<open>Tool_Loop\<close> (\<open>toolruntime/tool_loop.go\<close>): the loop over turns and its two adapters. The laws of an adapter
    are the locales \<open>metered_surface\<close> and \<open>tool_surface\<close>, interpreted for both.
  \<^item> \<open>Sse_Reader\<close>, \<open>Sse_Heartbeat\<close> (\<open>toolruntime/sse_reader.go\<close>, \<open>sse_heartbeat.go\<close>): the reader of event streams,
    refined from the grammar of blocks, the frames written to clients, and the writer that fills silences, as a
    step relation of the handler and the timer.
  \<^item> \<open>Stream_Base\<close>, \<open>Tool_Progress\<close>, \<open>Chat_Calls\<close>, \<open>Chat_Stream\<close> (\<open>toolruntime/stream_base.go\<close>,
    \<open>tool_progress.go\<close>, \<open>chat_stream.go\<close>): the streamed tool loop for chat. \<open>progress_surface\<close> is the locale of what
    progress events may do to a stream, \<open>chat_frames\<close> and \<open>chat_run\<close> carry a property of the stream through every
    operation; their interpretations give the order of frames and the accounts. The streamed loops log the chunks
    and events of every turn in fields that nothing reads; the bills are stated as sums over these logs.
  \<^item> \<open>Responses_Stream\<close> (\<open>toolruntime/responses_stream.go\<close>): the streamed tool loop for the Responses API, with one
    invariant of the trace kept by every handler and, through \<open>progress_surface\<close>, by the tool calls.
  \<^item> \<open>Latency\<close> (\<open>latency.go\<close>): the detector of the first generated token in a stream, with bounded memory and
    independent of how the stream is cut, and the writer that counts every request once.
  \<^item> \<open>Request_Entry\<close>, \<open>Input_Tokens\<close>, \<open>File_Inputs\<close> (helpers of \<open>main.go\<close> and \<open>cache_salt.go\<close>, \<open>input_tokens.go\<close>,
    \<open>responses_file_inputs.go\<close>, \<open>manager/file_inputs.go\<close>): limits and decoding of bodies, the token-counting
    endpoint checked against a grouping of the input items, and the conversion of attached files, itself a run of
    the step relation of \<open>Serving\<close>.
  \<^item> \<open>Router_Entry\<close>, \<open>Router_Admission\<close>, \<open>Router_Handler\<close>, \<open>Router_Runs\<close> (\<open>newRouterHandler\<close> of \<open>main.go\<close>): the whole way
    of a request through the components above, over services of any state. The trace of a request shows that it is
    admitted once and before anything is dispatched (token counts, which need no admission, apart), and the forwarded
    body is compared with the one the client sent. The locales
    \<open>kept_admission\<close> and \<open>kept_services\<close> carry a relation that every service keeps through the handler; interpreted
    with the runs of the manager, they make every request a run of the step relation of \<open>Serving\<close> that gives its
    reservations back, so that the invariants of \<open>Serving\<close> hold for whole requests.

  Modelling conventions. Go maps are association lists whose order is the unspecified iteration order;
  loops over the backends of a model take the enumeration as an argument. Random choices, clocks,
  hashes, decoders and the network are arguments, with the documented behaviour a theorem needs as a
  named hypothesis. Panics are \<open>None\<close>, errors are values. \<open>float64\<close> is an exact rational. Loops are
  recursive functions with termination proofs; no fuel is used. The tool loop is bounded by the code's own
  limit of ten turns. In the step relation of \<open>Serving\<close> a selection reads the reservations and chooses in one step, and
  a configuration round is one step; the code takes the lock more than once for either.

  The handler takes the calls that a tool loop makes to the manager and the outcome of every exchange with a backend
  as arguments; \<open>Tool_Loop\<close>, the streamed loops and \<open>Proxy_Response\<close> model what happens inside of them.

  Not modelled: the flags, the signals and the listener of the process in \<open>main.go\<close>, Prometheus exposition, logging,
  the command-line client and the test harnesses: they hold no decision of the router.
\<close>

end
